(* ===== verification/Prelude.thy ===== *)
theory Prelude
  imports Main "HOL-Library.Word"
begin

unbundle bit_operations_syntax

text \<open>
  Shared vocabulary of the development: the C integer types of the kernel as words, the
  errno values the modules return, and the generic list, word and run lemmas that the
  component theories use.
\<close>

section \<open>Machine types and constants\<close>

type_synonym u8 = "8 word"
type_synonym u16 = "16 word"
type_synonym u32 = "32 word"
type_synonym u64 = "64 word"

text \<open>
  The kernel returns negative errno values in an \<^verbatim>\<open>int\<close>; here an \<^verbatim>\<open>int\<close> result is an
  Isabelle \<open>int\<close>.
\<close>

abbreviation (input) EPERM :: int where "EPERM \<equiv> 1"
abbreviation (input) ENOENT :: int where "ENOENT \<equiv> 2"
abbreviation (input) EAGAIN :: int where "EAGAIN \<equiv> 11"
abbreviation (input) ENOMEM :: int where "ENOMEM \<equiv> 12"
abbreviation (input) EEXIST :: int where "EEXIST \<equiv> 17"
abbreviation (input) EINVAL :: int where "EINVAL \<equiv> 22"
abbreviation (input) ETIME :: int where "ETIME \<equiv> 62"
abbreviation (input) EINPROGRESS :: int where "EINPROGRESS \<equiv> 115"

text \<open>\<^verbatim>\<open>BIT(n)\<close>: an unsigned long with bit \<open>n\<close> set.\<close>

definition BIT :: "nat \<Rightarrow> u64" where
  "BIT n = push_bit n 1"

named_theorems word_facts \<open>facts that move word comparisons and arithmetic to natural numbers\<close>

lemmas [word_facts] = word_less_nat_alt word_le_nat_alt unat_mod unat_div

section \<open>Bits\<close>

lemma bit_BIT [simp]: "bit (BIT n) m \<longleftrightarrow> m = n \<and> n < 64"
  by (auto simp: BIT_def bit_simps possible_bit_word)

lemma and_BIT_iff: "n < 64 \<Longrightarrow> (w AND BIT n \<noteq> 0) \<longleftrightarrow> bit w n"
proof -
  assume n: "n < 64"
  have "w AND BIT n = (if bit w n then BIT n else 0)"
    by (rule bit_word_eqI) (auto simp: bit_simps)
  moreover have "BIT n \<noteq> 0"
    using n bit_BIT [of n n] by (metis bit_0_eq bot_apply bot_bool_def)
  ultimately show ?thesis by simp
qed

section \<open>Words as natural numbers\<close>

lemma u32_less: "unat (n :: u32) < 2 ^ 32"
  using unsigned_less [of n] by simp

lemma u64_less: "unat (n :: u64) < 2 ^ 64"
  using unsigned_less [of n] by simp

lemma unat_ucast_u32_u64 [simp]: "unat (ucast (n :: u32) :: u64) = unat n"
  using u32_less [of n] by (simp add: unsigned_ucast_eq take_bit_nat_eq_self)

lemma unat_plus_eq: "unat a + unat b < 2 ^ LENGTH('a) \<Longrightarrow> unat (a + b :: 'a::len word) = unat a + unat b"
  by (simp add: unat_word_ariths)

lemma unat_minus_eq: "unat b \<le> unat a \<Longrightarrow> unat (a - b :: 'a::len word) = unat a - unat b"
  by (simp add: unat_sub word_le_nat_alt)

section \<open>Lists\<close>

text \<open>
  A linear probe over a table of \<open>m\<close> slots that starts at slot \<open>h\<close> visits slot
  \<open>(h + i) mod m\<close> in its step \<open>i\<close>; in \<open>m\<close> steps it visits every slot once.
\<close>

definition probe :: "nat \<Rightarrow> nat \<Rightarrow> nat \<Rightarrow> nat" where
  "probe m h i = (h + i) mod m"

lemma probe_less [simp]: "0 < m \<Longrightarrow> probe m h i < m"
  by (simp add: probe_def)

lemma probe_Suc: "Suc (probe m h i) mod m = probe m h (Suc i)"
  by (simp add: probe_def mod_Suc_eq)

lemma probe_inj: "inj_on (probe m h) {..<m}"
proof (rule inj_onI)
  fix i j assume i: "i \<in> {..<m}" and j: "j \<in> {..<m}" and eq: "probe m h i = probe m h j"
  have "int m dvd int (h + i) - int (h + j)"
    using eq by (metis mod_eq_dvd_iff of_nat_mod probe_def)
  then have "int m dvd int i - int j" by simp
  then show "i = j"
    using i j zdvd_not_zless [of "int i - int j" "int m"] zdvd_not_zless [of "int j - int i" "int m"]
    by (cases i j rule: linorder_cases) (auto simp: dvd_diff_commute)
qed

lemma probe_surj: "s < m \<Longrightarrow> \<exists>i<m. probe m h i = s"
proof -
  assume s: "s < m"
  have "probe m h ` {..<m} \<subseteq> {..<m}" using s by auto
  then have "probe m h ` {..<m} = {..<m}"
    using probe_inj [of m h] by (simp add: endo_inj_surj)
  then show ?thesis using s by (metis imageE lessThan_iff)
qed

lemma find_upt_Some:
  "find P [a..<b] = Some i \<longleftrightarrow> a \<le> i \<and> i < b \<and> P i \<and> (\<forall>j. a \<le> j \<and> j < i \<longrightarrow> \<not> P j)"
  (is "?L \<longleftrightarrow> ?R")
proof
  assume ?L
  then obtain n where n: "n < b - a" "P (a + n)" "i = a + n" "\<forall>j<n. \<not> P (a + j)"
    by (auto simp: find_Some_iff)
  have "\<not> P j" if "a \<le> j" "j < i" for j
    using n(3,4) that by (metis le_add_diff_inverse nat_add_left_cancel_less)
  with n show ?R by auto
next
  assume r: ?R
  then have "i - a < b - a" "P (a + (i - a))" "\<forall>j<i - a. \<not> P (a + j)" by auto
  with r show ?L by (auto simp: find_Some_iff intro!: exI [of _ "i - a"])
qed

lemma find_upt_None: "find P [a..<b] = None \<longleftrightarrow> (\<forall>j. a \<le> j \<and> j < b \<longrightarrow> \<not> P j)"
  by (auto simp: find_None_iff)

lemma find_upt_step:
  "a < b \<Longrightarrow> find P [a..<b] = (if P a then Some a else find P [Suc a..<b])"
  by (simp add: upt_conv_Cons)

lemma list_update_same: "i < length xs \<Longrightarrow> xs ! i = x \<Longrightarrow> xs[i := x] = xs"
  by auto

section \<open>Rings\<close>

text \<open>
  A ring of \<open>n\<close> slots read at slot \<open>r\<close> and written at slot \<open>w\<close> holds the slots from \<open>r\<close> up to
  \<open>w\<close>, wrapping at the end; \<open>r = w\<close> is the empty ring, so at most \<open>n - 1\<close> slots are in use.
\<close>

definition ring_count :: "nat \<Rightarrow> nat \<Rightarrow> nat \<Rightarrow> nat" where
  "ring_count n r w = (if r \<le> w then w - r else w + n - r)"

definition ring_slots :: "nat \<Rightarrow> nat \<Rightarrow> nat \<Rightarrow> nat list" where
  "ring_slots n r w = map (probe n r) [0..<ring_count n r w]"

definition ring_next :: "nat \<Rightarrow> nat \<Rightarrow> nat" where
  "ring_next n i = (if Suc i < n then Suc i else 0)"

lemma ring_next_less: "0 < n \<Longrightarrow> ring_next n i < n"
  by (simp add: ring_next_def)

lemma ring_next_mod: "i < n \<Longrightarrow> ring_next n i = Suc i mod n"
  by (auto simp: ring_next_def not_less le_Suc_eq)

lemma ring_slots_length [simp]: "length (ring_slots n r w) = ring_count n r w"
  by (simp add: ring_slots_def)

lemma ring_slots_empty [simp]: "ring_slots n r r = []"
  by (simp add: ring_slots_def ring_count_def)

lemma ring_slots_bound: "0 < n \<Longrightarrow> i \<in> set (ring_slots n r w) \<Longrightarrow> i < n"
  by (auto simp: ring_slots_def)

lemma ring_end: "r < n \<Longrightarrow> w < n \<Longrightarrow> probe n r (ring_count n r w) = w"
  by (auto simp: probe_def ring_count_def)

lemma ring_count_next:
  "r < n \<Longrightarrow> w < n \<Longrightarrow> ring_count n r w + 1 < n \<Longrightarrow> ring_count n r (ring_next n w) = Suc (ring_count n r w)"
  by (auto simp: ring_count_def ring_next_def split: if_splits)

lemma ring_slots_snoc:
  "r < n \<Longrightarrow> w < n \<Longrightarrow> ring_count n r w + 1 < n \<Longrightarrow> ring_slots n r (ring_next n w) = ring_slots n r w @ [w]"
  by (simp add: ring_slots_def ring_count_next ring_end)

lemma ring_slots_fresh: "r < n \<Longrightarrow> w < n \<Longrightarrow> w \<notin> set (ring_slots n r w)"
proof
  assume b: "r < n" "w < n" and "w \<in> set (ring_slots n r w)"
  then obtain i where i: "i < ring_count n r w" "probe n r i = w" by (auto simp: ring_slots_def)
  moreover have "probe n r (ring_count n r w) = w" "ring_count n r w < n"
    using b ring_end by (auto simp: ring_count_def)
  ultimately show False
    using probe_inj [of n r] unfolding inj_on_def by (metis lessThan_iff less_trans nat_less_le)
qed

lemma ring_slots_Cons:
  assumes "r < n" "w < n" "r \<noteq> w"
  shows "ring_slots n r w = r # ring_slots n (ring_next n r) w"
proof -
  have "ring_count n r w = Suc (ring_count n (ring_next n r) w)"
    using assms by (auto simp: ring_count_def ring_next_def)
  moreover have "probe n r (Suc i) = probe n (ring_next n r) i" for i
    using assms(1) by (simp add: probe_def ring_next_mod mod_add_left_eq)
  moreover have "probe n r 0 = r" using assms(1) by (simp add: probe_def)
  ultimately show ?thesis by (simp add: ring_slots_def map_upt_Suc del: upt_Suc)
qed

lemma ring_slots_distinct: "r < n \<Longrightarrow> w < n \<Longrightarrow> distinct (ring_slots n r w)"
proof -
  assume b: "r < n" "w < n"
  then have "ring_count n r w \<le> n" by (auto simp: ring_count_def)
  then have "inj_on (probe n r) (set [0..<ring_count n r w])"
    using probe_inj [of n r] by (auto intro: inj_on_subset)
  then show ?thesis by (simp add: ring_slots_def distinct_map)
qed

section \<open>Bounded queues\<close>

text \<open>
  The contract of the writer of a bounded first-in first-out queue in a larger state, and that of the
  queue with its reader. The consequence: whatever is written while there is room is read back in the
  order of writing, after what was there before. \<open>full\<close> and \<open>empty\<close> are the error codes.
\<close>

locale fifo_writer =
  fixes enq :: "'a \<Rightarrow> 's \<Rightarrow> int \<times> 's"
    and contents :: "'s \<Rightarrow> 'b list"
    and view :: "'b \<Rightarrow> 'a"
    and capacity :: "'s \<Rightarrow> nat"
    and inv :: "'s \<Rightarrow> bool"
    and full :: int
  assumes enq_room: "inv s \<Longrightarrow> length (contents s) < capacity s \<Longrightarrow>
      \<exists>b s'. enq a s = (0, s') \<and> inv s' \<and> capacity s' = capacity s \<and> contents s' = contents s @ [b] \<and> view b = a"
    and enq_full: "inv s \<Longrightarrow> \<not> length (contents s) < capacity s \<Longrightarrow> enq a s = (full, s)"
begin

fun enq_all :: "'a list \<Rightarrow> 's \<Rightarrow> int list \<times> 's" where
  "enq_all [] s = ([], s)"
| "enq_all (a # as) s = (case enq a s of (r, s1) \<Rightarrow> case enq_all as s1 of (rs, s2) \<Rightarrow> (r # rs, s2))"

lemma enq_all_room:
  assumes "inv s" "length (contents s) + length as \<le> capacity s"
  shows "\<exists>bs s'. enq_all as s = (replicate (length as) 0, s') \<and> inv s' \<and> capacity s' = capacity s \<and>
    contents s' = contents s @ bs \<and> map view bs = as"
  using assms
proof (induction as arbitrary: s)
  case Nil
  then show ?case by simp
next
  case (Cons a as)
  then obtain b s1 where s1: "enq a s = (0, s1)" "inv s1" "capacity s1 = capacity s"
    "contents s1 = contents s @ [b]" "view b = a"
    using enq_room [of s a] by auto
  then have "length (contents s1) + length as \<le> capacity s1" using Cons.prems by simp
  then obtain bs s2 where "enq_all as s1 = (replicate (length as) 0, s2)" "inv s2"
    "capacity s2 = capacity s1" "contents s2 = contents s1 @ bs" "map view bs = as"
    using Cons.IH [OF s1(2)] by blast
  then show ?case using s1 by (intro exI [of _ "b # bs"]) auto
qed

end

locale bounded_fifo = fifo_writer enq contents view capacity inv full
  for enq :: "'a \<Rightarrow> 's \<Rightarrow> int \<times> 's"
    and contents :: "'s \<Rightarrow> 'b list"
    and view :: "'b \<Rightarrow> 'a"
    and capacity :: "'s \<Rightarrow> nat"
    and inv :: "'s \<Rightarrow> bool"
    and full :: int +
  fixes deq :: "'s \<Rightarrow> int \<times> 'b option \<times> 's"
    and empty :: int
  assumes deq_empty: "inv s \<Longrightarrow> contents s = [] \<Longrightarrow> deq s = (empty, None, s)"
    and deq_next: "inv s \<Longrightarrow> contents s = b # bs \<Longrightarrow>
      \<exists>ret s'. deq s = (ret, Some b, s') \<and> inv s' \<and> capacity s' = capacity s \<and> contents s' = bs"
begin

fun deq_n :: "nat \<Rightarrow> 's \<Rightarrow> 'b option list \<times> 's" where
  "deq_n 0 s = ([], s)"
| "deq_n (Suc n) s = (case deq s of (ret, b, s1) \<Rightarrow> case deq_n n s1 of (bs, s2) \<Rightarrow> (b # bs, s2))"

lemma deq_n_all:
  "inv s \<Longrightarrow> contents s = bs @ cs \<Longrightarrow>
   \<exists>s'. deq_n (length bs) s = (map Some bs, s') \<and> inv s' \<and> capacity s' = capacity s \<and> contents s' = cs"
proof (induction bs arbitrary: s)
  case Nil
  then show ?case by simp
next
  case (Cons b bs)
  then obtain ret s1 where "deq s = (ret, Some b, s1)" "inv s1" "capacity s1 = capacity s" "contents s1 = bs @ cs"
    using deq_next [of s b "bs @ cs"] by auto
  then show ?case using Cons.IH [of s1] by auto
qed

lemma fifo_order:
  assumes "inv s" "length (contents s) + length as \<le> capacity s"
  shows "\<exists>bs s' s''. enq_all as s = (replicate (length as) 0, s') \<and>
    deq_n (length (contents s) + length as) s' = (map Some (contents s @ bs), s'') \<and>
    map view bs = as \<and> inv s'' \<and> contents s'' = [] \<and> capacity s'' = capacity s"
proof -
  obtain bs s' where "enq_all as s = (replicate (length as) 0, s')" "inv s'" "capacity s' = capacity s"
    "contents s' = contents s @ bs" "map view bs = as"
    using enq_all_room [OF assms] by blast
  then show ?thesis
    using deq_n_all [of s' "contents s @ bs" "[]"] by auto
qed

end

section \<open>Runs of a deterministic machine\<close>

text \<open>
  Several modules are driven by a sequence of events (API calls, work items). A run folds
  the step over the events; an invariant that every step keeps holds after every run.
\<close>

definition run :: "('e \<Rightarrow> 's \<Rightarrow> 's) \<Rightarrow> 'e list \<Rightarrow> 's \<Rightarrow> 's" where
  "run step es s = fold step es s"

lemma run_simps [simp]:
  "run step [] s = s"
  "run step (e # es) s = run step es (step e s)"
  by (simp_all add: run_def)

lemma run_append [simp]: "run step (es @ fs) s = run step fs (run step es s)"
  by (simp add: run_def)

locale safe_machine =
  fixes step :: "'e \<Rightarrow> 's \<Rightarrow> 's"
    and ok :: "'e \<Rightarrow> bool"
    and inv :: "'s \<Rightarrow> bool"
  assumes step_inv: "ok e \<Longrightarrow> inv s \<Longrightarrow> inv (step e s)"
begin

lemma run_inv: "inv s \<Longrightarrow> list_all ok es \<Longrightarrow> inv (run step es s)"
  by (induction es arbitrary: s) (auto simp: step_inv)

lemma run_inv_prefix: "inv s \<Longrightarrow> list_all ok (es @ fs) \<Longrightarrow> inv (run step es s)"
  by (simp add: run_inv)

end

end
