(* ===== verification/Fence_Types.thy ===== *)
theory Fence_Types
  imports Prelude
begin

text \<open>
  The data of the hw-fence driver (mm-drivers/hw\_fence): fences of the global table, queue
  payloads, queue headers and descriptors, clients and the driver data, as the structs of
  hw\_fence\_drv\_priv.h. A pointer to a fence is its index in the table; a pointer to a client
  is an address of the client store. Reads of the timer and writes to the IPCC registers are
  the boundary of the model: the timer is a stream of values, register writes are a log.
\<close>

section \<open>Constants of hw\_fence\_drv\_priv.h\<close>

abbreviation (input) HW_FENCE_TX_QUEUE :: nat where "HW_FENCE_TX_QUEUE \<equiv> 1"
abbreviation (input) HW_FENCE_RX_QUEUE :: nat where "HW_FENCE_RX_QUEUE \<equiv> 2"
abbreviation (input) HW_FENCE_CLIENT_QUEUES :: nat where "HW_FENCE_CLIENT_QUEUES \<equiv> 2"
abbreviation (input) HW_FENCE_HASH_A_MULT :: u64 where "HW_FENCE_HASH_A_MULT \<equiv> 4969"
abbreviation (input) HW_FENCE_HASH_C_MULT :: u64 where "HW_FENCE_HASH_C_MULT \<equiv> 907"
abbreviation (input) MSM_HW_FENCE_MAX_JOIN_PARENTS :: nat where "MSM_HW_FENCE_MAX_JOIN_PARENTS \<equiv> 3"
abbreviation (input) HW_FENCE_MAX_CLIENTS_WITH_DATA :: nat where "HW_FENCE_MAX_CLIENTS_WITH_DATA \<equiv> 5"

definition HW_FENCE_JOIN_FENCE_CLIENT_ID :: u32 where
  "HW_FENCE_JOIN_FENCE_CLIENT_ID = NOT 0"

definition HW_FENCE_INVALID_PARENT_FENCE :: u64 where
  "HW_FENCE_INVALID_PARENT_FENCE = NOT 0"

definition MSM_HW_FENCE_FLAG_SIGNAL :: u64 where
  "MSM_HW_FENCE_FLAG_SIGNAL = BIT 0"

text \<open>
  Identifiers that come from the kernel header soc/qcom/msm\_hw\_fence.h, which is not part of
  the repository, are a parameter of the operations that use them.
\<close>

record hw_fence_abi =
  id_CTX0 :: u32
  id_VAL0 :: u32
  id_VAL1 :: u32
  id_IPE :: u32
  id_VPU :: u32
  id_IFE0 :: u32
  id_CLIENT_MAX :: u32
  flag_ENABLED_BIT :: nat
  flag_SIGNALED_BIT :: nat
  RESET_WITHOUT_ERROR :: u32
  RESET_WITHOUT_DESTROY :: u32
  ERROR_RESET :: u32
  UPDATE_ERROR_WITH_MOVE :: u32

section \<open>Structs\<close>

datatype hw_fence_lookup_ops =
    HW_FENCE_LOOKUP_OP_CREATE
  | HW_FENCE_LOOKUP_OP_DESTROY
  | HW_FENCE_LOOKUP_OP_CREATE_JOIN
  | HW_FENCE_LOOKUP_OP_FIND_FENCE

record msm_hw_fence =
  hf_valid :: u32
  hf_error :: u32
  hf_ctx_id :: u64
  hf_seq_id :: u64
  hf_wait_client_mask :: u64
  hf_fence_allocator :: u32
  hf_fence_signal_client :: u32
  hf_lock :: u64
  hf_flags :: u64
  hf_parent_list :: "u64 list"
  hf_parents_cnt :: u32
  hf_pending_child_cnt :: u32
  hf_fence_create_time :: u64
  hf_fence_trigger_time :: u64
  hf_fence_wait_time :: u64
  hf_debug_refcount :: u64
  hf_client_data :: "u64 list"

record msm_hw_fence_queue_payload =
  pl_size :: u32
  pl_type :: u16
  pl_version :: u16
  pl_ctxt_id :: u64
  pl_seqno :: u64
  pl_hash :: u64
  pl_flags :: u64
  pl_client_data :: u64
  pl_error :: u32
  pl_timestamp_lo :: u32
  pl_timestamp_hi :: u32
  pl_reserve :: u32

text \<open>The fields of the HFI queue header that the driver reads or writes.\<close>

record msm_hw_fence_hfi_queue_header =
  hdr_read_index :: u32
  hdr_write_index :: u32
  hdr_tx_wm :: u32

text \<open>
  A queue descriptor with the memory its pointers lead to: \<open>va_queue\<close> is the array of dwords
  behind \<^verbatim>\<open>va_queue\<close>, \<open>va_header\<close> is \<open>None\<close> for a NULL header pointer.
\<close>

record msm_hw_fence_queue =
  va_queue :: "u32 list"
  q_size_bytes :: u32
  va_header :: "msm_hw_fence_hfi_queue_header option"
  rd_wr_idx_start :: u32
  rd_wr_idx_factor :: u32
  skip_wr_idx :: bool

record msm_hw_fence_client =
  cl_client_id :: u32
  cl_client_id_ext :: u32
  cl_queues :: "msm_hw_fence_queue list"
  cl_queues_num :: nat
  cl_fence_error_cb :: "nat option"
  cl_fence_error_cb_userdata :: nat
  cl_error_cb_lock :: bool
  cl_ipc_signal_id :: u32
  cl_ipc_client_vid :: u32
  cl_update_rxq :: bool
  cl_send_ipc :: bool

text \<open>
  What the driver does to the outside: writes to IPCC registers (the offset from the register
  base and the value) and error callbacks of clients (the callback, the hash, the error, the
  context, sequence number and flags of the fence, and the user data).
\<close>

datatype hw_event =
    Ipcc_Write u32 u32
  | Error_Callback nat u64 u32 u64 u64 u64 nat

text \<open>
  The dma-fences of the kernel that the API works on, by address. A fence array has the number
  of its fences and the array of pointers to them (\<open>None\<close> for a NULL pointer).
\<close>

record dma_fence_array =
  arr_num_fences :: u32
  arr_fences :: "nat option list option"

record dma_fence =
  df_context :: u64
  df_seqno :: u64
  df_flags :: u64
  df_array :: "dma_fence_array option"

text \<open>
  The driver data. \<open>clients\<close> is the array of client pointers, \<open>client_store\<close> the memory behind
  them, \<open>dma_fences\<close> the dma-fences of the kernel. \<open>qtime_src\<close> and \<open>qtime_reads\<close> give the value of the next timer read. \<open>blocked\<close> is set
  when a lock is taken that is already held (the spin loop of \<^verbatim>\<open>_lock\<close> would not end on its
  own), \<open>ub\<close> when the code would access memory out of bounds or through NULL.
\<close>

record hw_fence_driver_data =
  hw_fence_table_entries :: u32
  hw_fences_tbl :: "msm_hw_fence list"
  hw_fences_tbl_cnt :: u32
  rxq_clients_num :: u32
  clients_num :: u32
  client_lock_tbl :: "u64 list"
  client_lock_tbl_cnt :: u32
  protocol_id :: u32
  ipcc_client_vid :: u32
  ipcc_client_pid :: u32
  clients :: "nat option list"
  client_store :: "nat \<Rightarrow> msm_hw_fence_client option"
  ctrl_queues :: "msm_hw_fence_queue list"
  resources_ready :: bool
  vm_ready :: bool
  dma_fences :: "nat \<Rightarrow> dma_fence option"
  qtime_src :: "nat \<Rightarrow> u64"
  qtime_reads :: nat
  events_out :: "hw_event list"
  blocked :: bool
  ub :: bool

section \<open>Timer, IPCC and locks\<close>

definition hw_fence_get_qtime :: "hw_fence_driver_data \<Rightarrow> u64 \<times> hw_fence_driver_data" where
  "hw_fence_get_qtime st = (qtime_src st (qtime_reads st), st\<lparr>qtime_reads := Suc (qtime_reads st)\<rparr>)"

definition IPC_PROTOCOLp_CLIENTc_SEND :: "u32 \<Rightarrow> u32 \<Rightarrow> u32" where
  "IPC_PROTOCOLp_CLIENTc_SEND p c = 0xc + 0x40000 * p + 0x1000 * c"

definition hw_fence_ipcc_trigger_signal ::
    "u32 \<Rightarrow> u32 \<Rightarrow> u32 \<Rightarrow> hw_fence_driver_data \<Rightarrow> hw_fence_driver_data" where
  "hw_fence_ipcc_trigger_signal tx_client_pid rx_client_vid signal_id st =
     (let ptr = IPC_PROTOCOLp_CLIENTc_SEND (protocol_id st) tx_client_pid;
          val = push_bit 16 rx_client_vid OR signal_id
      in st\<lparr>events_out := events_out st @ [Ipcc_Write ptr val]\<rparr>)"

text \<open>The two kinds of inter-processor lock words: one in every fence, one per client.\<close>

datatype lock_ref = Fence_Lock nat | Client_Lock nat

fun lock_exists :: "lock_ref \<Rightarrow> hw_fence_driver_data \<Rightarrow> bool" where
  "lock_exists (Fence_Lock i) st = (i < length (hw_fences_tbl st))"
| "lock_exists (Client_Lock i) st = (i < length (client_lock_tbl st))"

fun lock_word :: "lock_ref \<Rightarrow> hw_fence_driver_data \<Rightarrow> u64" where
  "lock_word (Fence_Lock i) st = hf_lock (hw_fences_tbl st ! i)"
| "lock_word (Client_Lock i) st = client_lock_tbl st ! i"

fun set_lock_word :: "lock_ref \<Rightarrow> u64 \<Rightarrow> hw_fence_driver_data \<Rightarrow> hw_fence_driver_data" where
  "set_lock_word (Fence_Lock i) w st =
     st\<lparr>hw_fences_tbl := (hw_fences_tbl st)[i := (hw_fences_tbl st ! i)\<lparr>hf_lock := w\<rparr>]\<rparr>"
| "set_lock_word (Client_Lock i) w st =
     st\<lparr>client_lock_tbl := (client_lock_tbl st)[i := w]\<rparr>"

text \<open>
  \<^verbatim>\<open>_lock\<close> spins until the low 32 bits of the word are zero and then stores 1 there.
  \<^verbatim>\<open>_unlock\<close> clears bit 0; when the peer VM has set bit 1 it is woken by IPCC signal 30.
\<close>

definition lock_acquire :: "lock_ref \<Rightarrow> hw_fence_driver_data \<Rightarrow> hw_fence_driver_data" where
  "lock_acquire l st =
     (if ucast (lock_word l st) = (0 :: u32) then set_lock_word l (lock_word l st OR 1) st
      else st\<lparr>blocked := True\<rparr>)"

definition lock_release :: "lock_ref \<Rightarrow> hw_fence_driver_data \<Rightarrow> hw_fence_driver_data" where
  "lock_release l st =
     (let st1 = set_lock_word l (lock_word l st AND NOT 1) st
      in if lock_word l st1 AND 2 \<noteq> 0
         then hw_fence_ipcc_trigger_signal (ipcc_client_pid st1) (ipcc_client_vid st1) 30 st1
         else st1)"

definition global_atomic_store ::
    "lock_ref \<Rightarrow> bool \<Rightarrow> hw_fence_driver_data \<Rightarrow> hw_fence_driver_data" where
  "global_atomic_store l val st =
     (if \<not> lock_exists l st then st\<lparr>ub := True\<rparr>
      else if val then lock_acquire l st else lock_release l st)"

text \<open>A write to the fence behind a fence pointer.\<close>

definition upd_fence ::
    "nat \<Rightarrow> (msm_hw_fence \<Rightarrow> msm_hw_fence) \<Rightarrow> hw_fence_driver_data \<Rightarrow> hw_fence_driver_data" where
  "upd_fence i g st =
     (if i < length (hw_fences_tbl st)
      then st\<lparr>hw_fences_tbl := (hw_fences_tbl st)[i := g (hw_fences_tbl st ! i)]\<rparr>
      else st\<lparr>ub := True\<rparr>)"

section \<open>Free locks\<close>

text \<open>
  Between two calls of the driver every lock word is free. Under this condition a lock and
  unlock of the same word leaves the state as it was, so critical sections can be read as
  plain updates.
\<close>

definition fence_locks_free :: "hw_fence_driver_data \<Rightarrow> bool" where
  "fence_locks_free st \<longleftrightarrow> (\<forall>f \<in> set (hw_fences_tbl st). hf_lock f = 0)"

definition client_locks_free :: "hw_fence_driver_data \<Rightarrow> bool" where
  "client_locks_free st \<longleftrightarrow> (\<forall>w \<in> set (client_lock_tbl st). w = 0)"

lemma fence_locks_freeD: "fence_locks_free st \<Longrightarrow> i < length (hw_fences_tbl st) \<Longrightarrow> hf_lock (hw_fences_tbl st ! i) = 0"
  by (simp add: fence_locks_free_def)

lemma one_and_not_one [simp]: "(1 :: u64) AND NOT 1 = 0"
  by simp

lemma fence_lock_True:
  assumes "i < length (hw_fences_tbl st)" "hf_lock (hw_fences_tbl st ! i) = 0"
  shows "global_atomic_store (Fence_Lock i) True st =
           st\<lparr>hw_fences_tbl := (hw_fences_tbl st)[i := (hw_fences_tbl st ! i)\<lparr>hf_lock := 1\<rparr>]\<rparr>"
  using assms by (simp add: global_atomic_store_def lock_acquire_def)

lemma fence_lock_False:
  assumes "i < length (hw_fences_tbl st)" "hf_lock (hw_fences_tbl st ! i) = 1"
  shows "global_atomic_store (Fence_Lock i) False st =
           st\<lparr>hw_fences_tbl := (hw_fences_tbl st)[i := (hw_fences_tbl st ! i)\<lparr>hf_lock := 0\<rparr>]\<rparr>"
  using assms by (simp add: global_atomic_store_def lock_release_def Let_def)

lemma fence_lock_unlock:
  assumes "i < length (hw_fences_tbl st)" "hf_lock (hw_fences_tbl st ! i) = 0"
  shows "global_atomic_store (Fence_Lock i) False (global_atomic_store (Fence_Lock i) True st) = st"
proof -
  have "(hw_fences_tbl st)[i := (hw_fences_tbl st ! i)\<lparr>hf_lock := 0\<rparr>] = hw_fences_tbl st"
    using assms by (simp add: list_update_same)
  then show ?thesis
    using assms by (simp add: fence_lock_True fence_lock_False)
qed

section \<open>The next timer value\<close>

definition tick :: "hw_fence_driver_data \<Rightarrow> hw_fence_driver_data" where
  "tick st = st\<lparr>qtime_reads := Suc (qtime_reads st)\<rparr>"

lemma tick_simps [simp]:
  "hw_fences_tbl (tick st) = hw_fences_tbl st"
  "hw_fence_table_entries (tick st) = hw_fence_table_entries st"
  "blocked (tick st) = blocked st"
  "ub (tick st) = ub st"
  "clients (tick st) = clients st"
  "client_store (tick st) = client_store st"
  "events_out (tick st) = events_out st"
  "client_lock_tbl (tick st) = client_lock_tbl st"
  "client_lock_tbl_cnt (tick st) = client_lock_tbl_cnt st"
  "rxq_clients_num (tick st) = rxq_clients_num st"
  "clients_num (tick st) = clients_num st"
  "qtime_src (tick st) = qtime_src st"
  "ipcc_client_pid (tick st) = ipcc_client_pid st"
  "vm_ready (tick st) = vm_ready st"
  "dma_fences (tick st) = dma_fences st"
  by (simp_all add: tick_def)

lemma get_qtime_tick: "hw_fence_get_qtime st = (qtime_src st (qtime_reads st), tick st)"
  by (simp add: hw_fence_get_qtime_def tick_def)

section \<open>A driver after initialisation\<close>

text \<open>
  The zeroed memory from which the driver starts: \<open>entries\<close> free fences, \<open>nclients\<close> client
  locks, no registered client.
\<close>

definition blank_fence :: msm_hw_fence where
  "blank_fence = \<lparr>hf_valid = 0, hf_error = 0, hf_ctx_id = 0, hf_seq_id = 0, hf_wait_client_mask = 0,
     hf_fence_allocator = 0, hf_fence_signal_client = 0, hf_lock = 0, hf_flags = 0,
     hf_parent_list = replicate MSM_HW_FENCE_MAX_JOIN_PARENTS HW_FENCE_INVALID_PARENT_FENCE,
     hf_parents_cnt = 0, hf_pending_child_cnt = 0, hf_fence_create_time = 0,
     hf_fence_trigger_time = 0, hf_fence_wait_time = 0, hf_debug_refcount = 0,
     hf_client_data = replicate HW_FENCE_MAX_CLIENTS_WITH_DATA 0\<rparr>"

definition blank_driver :: "nat \<Rightarrow> nat \<Rightarrow> hw_fence_driver_data" where
  "blank_driver entries nclients =
     \<lparr>hw_fence_table_entries = of_nat entries, hw_fences_tbl = replicate entries blank_fence,
      hw_fences_tbl_cnt = of_nat entries, rxq_clients_num = of_nat nclients,
      clients_num = of_nat nclients, client_lock_tbl = replicate nclients 0,
      client_lock_tbl_cnt = of_nat nclients, protocol_id = 2, ipcc_client_vid = 0, ipcc_client_pid = 0,
      clients = replicate nclients None, client_store = (\<lambda>_. None), ctrl_queues = [], resources_ready = True, vm_ready = True,
      dma_fences = (\<lambda>_. None), qtime_src = (\<lambda>_. 0), qtime_reads = 0, events_out = [], blocked = False, ub = False\<rparr>"

definition blank_client :: "u32 \<Rightarrow> msm_hw_fence_client" where
  "blank_client i = \<lparr>cl_client_id = i, cl_client_id_ext = i, cl_queues = [], cl_queues_num = 0,
     cl_fence_error_cb = None,
     cl_fence_error_cb_userdata = 0, cl_error_cb_lock = False, cl_ipc_signal_id = 0, cl_ipc_client_vid = 0,
     cl_update_rxq = False, cl_send_ipc = False\<rparr>"

end
