(* ===== verification/Fence_Table.thy ===== *)
theory Fence_Table
  imports Fence_Types
begin

text \<open>
  The global table of hw-fences (hw\_fence\_drv\_priv.c): an open-addressed hash table with
  linear probing, keyed by the context and sequence number of a dma-fence. Deleting a fence
  leaves no mark, so a lookup may have to pass over free slots; the probe visits the whole
  table.
\<close>

section \<open>Operations\<close>

definition calculate_hash :: "u32 \<Rightarrow> u64 \<Rightarrow> u64 \<Rightarrow> nat \<Rightarrow> u64 \<Rightarrow> int \<times> u64" where
  "calculate_hash table_total_entries context seqno step hash =
     (let m_size = ucast table_total_entries :: u64 in
      if step = 0 then
        (let b_multiplier = context + (context - 1) in
         (0, (HW_FENCE_HASH_A_MULT * seqno * b_multiplier + (HW_FENCE_HASH_C_MULT * context)) mod m_size))
      else if step \<ge> unat m_size then (- EINVAL, hash)
      else (0, (hash + 1) mod m_size))"

definition get_hw_fence :: "u32 \<Rightarrow> u64 \<Rightarrow> nat option" where
  "get_hw_fence table_total_entries hash =
     (if hash \<ge> ucast table_total_entries then None else Some (unat hash))"

definition is_hw_fence_free :: "msm_hw_fence \<Rightarrow> u64 \<Rightarrow> u64 \<Rightarrow> bool" where
  "is_hw_fence_free hw_fence context seqno = (if hf_valid hw_fence \<noteq> 0 then False else True)"

definition hw_fence_match :: "msm_hw_fence \<Rightarrow> u64 \<Rightarrow> u64 \<Rightarrow> bool" where
  "hw_fence_match hw_fence context seqno =
     (if hf_ctx_id hw_fence = context \<and> hf_seq_id hw_fence = seqno then True else False)"

definition cleanup_hw_fence :: "msm_hw_fence \<Rightarrow> msm_hw_fence" where
  "cleanup_hw_fence f =
     f\<lparr>hf_error := 0, hf_ctx_id := 0, hf_seq_id := 0, hf_wait_client_mask := 0,
       hf_fence_allocator := 0, hf_fence_signal_client := 0, hf_flags := 0,
       hf_fence_create_time := 0, hf_fence_trigger_time := 0, hf_fence_wait_time := 0,
       hf_debug_refcount := 0, hf_parents_cnt := 0, hf_pending_child_cnt := 0,
       hf_parent_list := replicate MSM_HW_FENCE_MAX_JOIN_PARENTS HW_FENCE_INVALID_PARENT_FENCE,
       hf_client_data := replicate HW_FENCE_MAX_CLIENTS_WITH_DATA 0\<rparr>"

definition reserve_hw_fence ::
    "nat \<Rightarrow> u32 \<Rightarrow> u64 \<Rightarrow> u64 \<Rightarrow> u32 \<Rightarrow> hw_fence_driver_data \<Rightarrow> hw_fence_driver_data" where
  "reserve_hw_fence i client_id context seqno pending_child_cnt st =
     (let st1 = upd_fence i (\<lambda>f. (cleanup_hw_fence f)\<lparr>hf_valid := 1, hf_ctx_id := context,
            hf_seq_id := seqno, hf_flags := 0, hf_fence_allocator := client_id\<rparr>) st;
          (time, st2) = hw_fence_get_qtime st1
      in upd_fence i (\<lambda>f. f\<lparr>hf_fence_create_time := time,
            hf_debug_refcount := hf_debug_refcount f + 1\<rparr>) st2)"

definition unreserve_hw_fence ::
    "nat \<Rightarrow> u32 \<Rightarrow> u64 \<Rightarrow> u64 \<Rightarrow> u32 \<Rightarrow> hw_fence_driver_data \<Rightarrow> hw_fence_driver_data" where
  "unreserve_hw_fence i client_id context seqno pending_child_cnt st =
     upd_fence i (\<lambda>f. (cleanup_hw_fence f)\<lparr>hf_valid := 0\<rparr>) st"

definition reserve_join_fence ::
    "nat \<Rightarrow> u32 \<Rightarrow> u64 \<Rightarrow> u64 \<Rightarrow> u32 \<Rightarrow> hw_fence_driver_data \<Rightarrow> hw_fence_driver_data" where
  "reserve_join_fence i client_id context seqno pending_child_cnt st =
     (let st1 = upd_fence i (\<lambda>f. (cleanup_hw_fence f)\<lparr>hf_valid := 1, hf_ctx_id := context,
            hf_seq_id := seqno, hf_fence_allocator := client_id\<rparr>) st;
          (time, st2) = hw_fence_get_qtime st1
      in upd_fence i (\<lambda>f. f\<lparr>hf_fence_create_time := time,
            hf_debug_refcount := hf_debug_refcount f + 1,
            hf_pending_child_cnt := pending_child_cnt\<rparr>) st2)"

definition fence_found ::
    "nat \<Rightarrow> u32 \<Rightarrow> u64 \<Rightarrow> u64 \<Rightarrow> u32 \<Rightarrow> hw_fence_driver_data \<Rightarrow> hw_fence_driver_data" where
  "fence_found i client_id context seqno pending_child_cnt st = st"

text \<open>The two function pointers that \<^verbatim>\<open>_hw_fence_lookup_and_process\<close> selects by op code.\<close>

fun compare_fnc :: "hw_fence_lookup_ops \<Rightarrow> msm_hw_fence \<Rightarrow> u64 \<Rightarrow> u64 \<Rightarrow> bool" where
  "compare_fnc HW_FENCE_LOOKUP_OP_CREATE = is_hw_fence_free"
| "compare_fnc HW_FENCE_LOOKUP_OP_DESTROY = hw_fence_match"
| "compare_fnc HW_FENCE_LOOKUP_OP_CREATE_JOIN = is_hw_fence_free"
| "compare_fnc HW_FENCE_LOOKUP_OP_FIND_FENCE = hw_fence_match"

fun process_fnc :: "hw_fence_lookup_ops \<Rightarrow>
    nat \<Rightarrow> u32 \<Rightarrow> u64 \<Rightarrow> u64 \<Rightarrow> u32 \<Rightarrow> hw_fence_driver_data \<Rightarrow> hw_fence_driver_data" where
  "process_fnc HW_FENCE_LOOKUP_OP_CREATE = reserve_hw_fence"
| "process_fnc HW_FENCE_LOOKUP_OP_DESTROY = unreserve_hw_fence"
| "process_fnc HW_FENCE_LOOKUP_OP_CREATE_JOIN = reserve_join_fence"
| "process_fnc HW_FENCE_LOOKUP_OP_FIND_FENCE = fence_found"

definition is_create_op :: "hw_fence_lookup_ops \<Rightarrow> bool" where
  "is_create_op op \<longleftrightarrow> op = HW_FENCE_LOOKUP_OP_CREATE \<or> op = HW_FENCE_LOOKUP_OP_CREATE_JOIN"

text \<open>
  The while loop of the lookup. The table size is read once per call (\<open>entries\<close>): no step of
  the loop writes it.
\<close>

function lookup_loop :: "u32 \<Rightarrow> hw_fence_lookup_ops \<Rightarrow> u64 \<Rightarrow> u64 \<Rightarrow> u32 \<Rightarrow> u32 \<Rightarrow> nat \<Rightarrow> u64 \<Rightarrow>
    hw_fence_driver_data \<Rightarrow> hw_fence_driver_data \<times> u64 \<times> nat option" where
  "lookup_loop entries op context seqno client_id pending step hash st =
     (if step < unat entries then
        (let (ret, h) = calculate_hash entries context seqno step hash in
         if ret \<noteq> 0 then (st, h, None)
         else case get_hw_fence entries h of
             None \<Rightarrow> (st, h, None)
           | Some i \<Rightarrow>
               (let st1 = global_atomic_store (Fence_Lock i) True st;
                    f = hw_fences_tbl st1 ! i
                in if compare_fnc op f context seqno then
                     (global_atomic_store (Fence_Lock i) False
                        (process_fnc op i client_id context seqno pending st1), h, Some i)
                   else if is_create_op op \<and> seqno = hf_seq_id f \<and> context = hf_ctx_id f then
                     (global_atomic_store (Fence_Lock i) False st1, h, None)
                   else lookup_loop entries op context seqno client_id pending (Suc step) h
                          (global_atomic_store (Fence_Lock i) False st1)))
      else (st, hash, None))"
  by pat_completeness auto
termination
  by (relation "measure (\<lambda>(entries, op, context, seqno, client_id, pending, step, hash, st).
        unat entries - step)") auto

declare lookup_loop.simps [simp del]

definition hw_fence_lookup_and_process :: "u64 \<Rightarrow> u64 \<Rightarrow> u32 \<Rightarrow> u32 \<Rightarrow> hw_fence_lookup_ops \<Rightarrow>
    hw_fence_driver_data \<Rightarrow> hw_fence_driver_data \<times> u64 \<times> nat option" where
  "hw_fence_lookup_and_process context seqno client_id pending_child_cnt op_code st =
     lookup_loop (hw_fence_table_entries st) op_code context seqno client_id pending_child_cnt 0 (NOT 0) st"

definition hw_fence_create :: "msm_hw_fence_client \<Rightarrow> u64 \<Rightarrow> u64 \<Rightarrow>
    hw_fence_driver_data \<Rightarrow> int \<times> u64 \<times> hw_fence_driver_data" where
  "hw_fence_create hw_fence_client context seqno st =
     (case hw_fence_lookup_and_process context seqno (cl_client_id hw_fence_client) 0
             HW_FENCE_LOOKUP_OP_CREATE st of
        (st1, hash, None) \<Rightarrow> (- EINVAL, hash, st1)
      | (st1, hash, Some _) \<Rightarrow> (0, hash, st1))"

definition hw_fence_cleanup :: "u32 \<Rightarrow> u64 \<Rightarrow> u64 \<Rightarrow>
    hw_fence_driver_data \<Rightarrow> int \<times> hw_fence_driver_data" where
  "hw_fence_cleanup client_id context seqno st =
     (case hw_fence_lookup_and_process context seqno client_id 0 HW_FENCE_LOOKUP_OP_DESTROY st of
        (st1, hash, None) \<Rightarrow> (- EINVAL, st1)
      | (st1, hash, Some _) \<Rightarrow> (0, st1))"

definition hw_fence_destroy :: "msm_hw_fence_client \<Rightarrow> u64 \<Rightarrow> u64 \<Rightarrow>
    hw_fence_driver_data \<Rightarrow> int \<times> hw_fence_driver_data" where
  "hw_fence_destroy hw_fence_client context seqno st =
     (case hw_fence_cleanup (cl_client_id hw_fence_client) context seqno st of
        (ret, st1) \<Rightarrow> if ret \<noteq> 0 then (- EINVAL, st1) else (0, st1))"

definition hw_fence_destroy_with_hash :: "msm_hw_fence_client \<Rightarrow> u64 \<Rightarrow>
    hw_fence_driver_data \<Rightarrow> int \<times> hw_fence_driver_data" where
  "hw_fence_destroy_with_hash hw_fence_client hash st =
     (case get_hw_fence (hw_fence_table_entries st) hash of
        None \<Rightarrow> (- EINVAL, st)
      | Some i \<Rightarrow>
          (let f = hw_fences_tbl st ! i in
           if hf_fence_allocator f \<noteq> cl_client_id hw_fence_client then (- EINVAL, st)
           else case hw_fence_cleanup (cl_client_id hw_fence_client) (hf_ctx_id f) (hf_seq_id f) st of
                  (ret, st1) \<Rightarrow> if ret \<noteq> 0 then (- EINVAL, st1) else (0, st1)))"

definition msm_hw_fence_find :: "msm_hw_fence_client option \<Rightarrow> u64 \<Rightarrow> u64 \<Rightarrow>
    hw_fence_driver_data \<Rightarrow> hw_fence_driver_data \<times> u64 \<times> nat option" where
  "msm_hw_fence_find hw_fence_client context seqno st =
     (let client_id = (case hw_fence_client of None \<Rightarrow> 0xff | Some c \<Rightarrow> cl_client_id c)
      in hw_fence_lookup_and_process context seqno client_id 0 HW_FENCE_LOOKUP_OP_FIND_FENCE st)"

section \<open>The probe as a search\<close>

text \<open>
  A well-formed table: as many fences as entries, with free locks.
\<close>

definition table_ok :: "hw_fence_driver_data \<Rightarrow> bool" where
  "table_ok st \<longleftrightarrow> length (hw_fences_tbl st) = unat (hw_fence_table_entries st) \<and>
     fence_locks_free st"

definition home_slot :: "hw_fence_driver_data \<Rightarrow> u64 \<Rightarrow> u64 \<Rightarrow> nat" where
  "home_slot st context seqno = unat (snd (calculate_hash (hw_fence_table_entries st) context seqno 0 0))"

text \<open>The slots in the order in which a lookup of a key visits them.\<close>

definition probe_slot :: "hw_fence_driver_data \<Rightarrow> u64 \<Rightarrow> u64 \<Rightarrow> nat \<Rightarrow> nat" where
  "probe_slot st context seqno i =
     probe (unat (hw_fence_table_entries st)) (home_slot st context seqno) i"

text \<open>What makes a lookup stop at a fence: a hit, or for a creation the key itself.\<close>

definition lookup_stops :: "hw_fence_lookup_ops \<Rightarrow> u64 \<Rightarrow> u64 \<Rightarrow> msm_hw_fence \<Rightarrow> bool" where
  "lookup_stops op context seqno f \<longleftrightarrow> compare_fnc op f context seqno \<or>
     (is_create_op op \<and> seqno = hf_seq_id f \<and> context = hf_ctx_id f)"

definition first_stop :: "hw_fence_lookup_ops \<Rightarrow> u64 \<Rightarrow> u64 \<Rightarrow> hw_fence_driver_data \<Rightarrow> nat option" where
  "first_stop op context seqno st =
     map_option (probe_slot st context seqno)
       (find (\<lambda>i. lookup_stops op context seqno (hw_fences_tbl st ! probe_slot st context seqno i))
          [0..<unat (hw_fence_table_entries st)])"

lemma calculate_hash_0:
  "0 < unat entries \<Longrightarrow> \<exists>h. calculate_hash entries context seqno 0 hash = (0, h) \<and> unat h < unat entries"
  by (auto simp: calculate_hash_def Let_def unat_mod)

lemma calculate_hash_0_indep:
  "calculate_hash entries context seqno 0 hash = calculate_hash entries context seqno 0 hash'"
  by (simp add: calculate_hash_def)

lemma calculate_hash_Suc:
  assumes "Suc step < unat entries" "unat hash < unat entries"
  shows "calculate_hash entries context seqno (Suc step) hash = (0, (hash + 1) mod ucast entries)"
    and "unat ((hash + 1) mod ucast (entries :: u32)) = (unat hash + 1) mod unat entries"
proof -
  show "calculate_hash entries context seqno (Suc step) hash = (0, (hash + 1) mod ucast entries)"
    using assms by (simp add: calculate_hash_def Let_def)
  have "unat hash + unat (1 :: u64) < 2 ^ LENGTH(64)"
    using assms u32_less [of entries] by simp
  then have "unat (hash + 1) = unat hash + 1"
    by (simp add: unat_plus_eq)
  then show "unat ((hash + 1) mod ucast entries) = (unat hash + 1) mod unat entries"
    by (simp add: unat_mod)
qed

lemma get_hw_fence_Some: "unat hash < unat entries \<Longrightarrow> get_hw_fence entries hash = Some (unat hash)"
  by (simp add: get_hw_fence_def word_le_nat_alt)

section \<open>Critical sections of the lookup\<close>

lemma compare_fnc_lock [simp]: "compare_fnc op (f\<lparr>hf_lock := w\<rparr>) context seqno = compare_fnc op f context seqno"
  by (cases op) (simp_all add: is_hw_fence_free_def hw_fence_match_def)

lemma lock_field_same: "hf_lock f = w \<Longrightarrow> f\<lparr>hf_lock := w\<rparr> = f"
  by simp

lemma cleanup_hw_fence_lock: "cleanup_hw_fence (f\<lparr>hf_lock := w\<rparr>) = (cleanup_hw_fence f)\<lparr>hf_lock := w\<rparr>"
  by (simp add: cleanup_hw_fence_def)

lemma cleanup_hw_fence_simps [simp]:
  "hf_lock (cleanup_hw_fence f) = hf_lock f"
  "hf_valid (cleanup_hw_fence f) = hf_valid f"
  "hf_ctx_id (cleanup_hw_fence f) = 0"
  "hf_seq_id (cleanup_hw_fence f) = 0"
  by (simp_all add: cleanup_hw_fence_def)

lemmas process_defs = reserve_hw_fence_def unreserve_hw_fence_def reserve_join_fence_def
  fence_found_def upd_fence_def hw_fence_get_qtime_def Let_def

lemma process_in_lock:
  assumes "i < length (hw_fences_tbl st)" "hf_lock (hw_fences_tbl st ! i) = 0"
  shows "global_atomic_store (Fence_Lock i) False
           (process_fnc op i client_id context seqno pending (global_atomic_store (Fence_Lock i) True st)) =
         process_fnc op i client_id context seqno pending st"
proof (cases "op = HW_FENCE_LOOKUP_OP_FIND_FENCE")
  case True
  then show ?thesis using assms by (simp add: fence_found_def fence_lock_unlock)
next
  case False
  then show ?thesis using assms
    by (cases op)
      (simp_all add: fence_lock_True fence_lock_False process_defs cleanup_hw_fence_lock lock_field_same)
qed

lemma locked_fence:
  assumes "i < length (hw_fences_tbl st)" "hf_lock (hw_fences_tbl st ! i) = 0"
  shows "hw_fences_tbl (global_atomic_store (Fence_Lock i) True st) ! i = (hw_fences_tbl st ! i)\<lparr>hf_lock := 1\<rparr>"
  using assms by (simp add: fence_lock_True)

lemma lookup_loop_spec:
  assumes ok: "table_ok st"
    and prev: "step = 0 \<or> unat hash = probe_slot st context seqno (step - 1)"
    and m: "m = unat (hw_fence_table_entries st)"
    and le: "step \<le> m"
  shows "case find (\<lambda>i. lookup_stops op context seqno (hw_fences_tbl st ! probe_slot st context seqno i)) [step..<m] of
      None \<Rightarrow> \<exists>h. lookup_loop (hw_fence_table_entries st) op context seqno client_id pending step hash st = (st, h, None)
    | Some i \<Rightarrow> \<exists>h. unat h = probe_slot st context seqno i \<and>
        lookup_loop (hw_fence_table_entries st) op context seqno client_id pending step hash st =
          (if compare_fnc op (hw_fences_tbl st ! probe_slot st context seqno i) context seqno
           then (process_fnc op (probe_slot st context seqno i) client_id context seqno pending st, h,
                 Some (probe_slot st context seqno i))
           else (st, h, None))"
  using prev le
proof (induction "m - step" arbitrary: step hash)
  case 0
  then have "\<not> step < unat (hw_fence_table_entries st)" using m by simp
  then have "lookup_loop (hw_fence_table_entries st) op context seqno client_id pending step hash st = (st, hash, None)"
    by (subst lookup_loop.simps) simp
  with 0 m show ?case by simp
next
  case (Suc n)
  let ?e = "hw_fence_table_entries st"
  let ?s = "probe_slot st context seqno"
  have lt: "step < unat ?e" using Suc.hyps(2) m by simp
  then have mpos: "0 < unat ?e" by simp
  obtain h where h: "calculate_hash ?e context seqno step hash = (0, h)" "unat h = ?s step"
  proof (cases step)
    case 0
    obtain h where "calculate_hash ?e context seqno 0 hash = (0, h)" "unat h < unat ?e"
      using calculate_hash_0 [OF mpos] by blast
    moreover from this have "home_slot st context seqno = unat h"
      by (simp add: home_slot_def calculate_hash_0_indep [of _ _ _ 0 hash])
    ultimately show ?thesis using that 0 by (simp add: probe_slot_def probe_def)
  next
    case (Suc k)
    then have hk: "unat hash = ?s k" using Suc.prems by simp
    then have "unat hash < unat ?e" using mpos by (simp add: probe_slot_def)
    then have "calculate_hash ?e context seqno step hash = (0, (hash + 1) mod ucast ?e)"
      and "unat ((hash + 1) mod ucast ?e) = (unat hash + 1) mod unat ?e"
      using calculate_hash_Suc lt Suc by blast+
    then show ?thesis using that hk Suc by (simp add: probe_slot_def probe_Suc)
  qed
  let ?i = "?s step"
  have i: "?i < length (hw_fences_tbl st)" "hf_lock (hw_fences_tbl st ! ?i) = 0"
    using ok mpos fence_locks_freeD by (auto simp: table_ok_def probe_slot_def)
  have get: "get_hw_fence ?e h = Some ?i"
    using h(2) mpos by (metis get_hw_fence_Some probe_less probe_slot_def)
  let ?f = "hw_fences_tbl st ! ?i"
  have loop: "lookup_loop ?e op context seqno client_id pending step hash st =
      (if compare_fnc op ?f context seqno
       then (process_fnc op ?i client_id context seqno pending st, h, Some ?i)
       else if is_create_op op \<and> seqno = hf_seq_id ?f \<and> context = hf_ctx_id ?f then (st, h, None)
       else lookup_loop ?e op context seqno client_id pending (Suc step) h st)"
    using lt h(1)
    by (subst lookup_loop.simps)
      (simp add: get Let_def process_in_lock [OF i] fence_lock_unlock [OF i] locked_fence [OF i])
  show ?case
  proof (cases "lookup_stops op context seqno ?f")
    case True
    then show ?thesis
      using loop h(2) lt m by (auto simp: find_upt_step lookup_stops_def)
  next
    case False
    then have "lookup_loop ?e op context seqno client_id pending step hash st =
        lookup_loop ?e op context seqno client_id pending (Suc step) h st"
      using loop by (auto simp: lookup_stops_def)
    moreover have "find (\<lambda>i. lookup_stops op context seqno (hw_fences_tbl st ! ?s i)) [step..<m] =
        find (\<lambda>i. lookup_stops op context seqno (hw_fences_tbl st ! ?s i)) [Suc step..<m]"
      using False lt m by (simp add: find_upt_step)
    moreover have "n = m - Suc step" "Suc step = 0 \<or> unat h = ?s (Suc step - 1)" "Suc step \<le> m"
      using Suc.hyps(2) h(2) lt m by simp_all
    note Suc.hyps(1) [OF this]
    ultimately show ?thesis by (simp only:)
  qed
qed

section \<open>The lookup by op code\<close>

lemma lookup_spec:
  assumes "table_ok st"
  shows "case first_stop op context seqno st of
      None \<Rightarrow> \<exists>h. hw_fence_lookup_and_process context seqno client_id pending op st = (st, h, None)
    | Some s \<Rightarrow> \<exists>h. unat h = s \<and> hw_fence_lookup_and_process context seqno client_id pending op st =
          (if compare_fnc op (hw_fences_tbl st ! s) context seqno
           then (process_fnc op s client_id context seqno pending st, h, Some s) else (st, h, None))"
  using lookup_loop_spec [OF assms, of 0 "NOT 0" "context" seqno _ op client_id pending]
  by (auto simp: hw_fence_lookup_and_process_def first_stop_def split: option.splits)

lemma lookup_None:
  "table_ok st \<Longrightarrow> first_stop op context seqno st = None \<Longrightarrow>
   \<exists>h. hw_fence_lookup_and_process context seqno client_id pending op st = (st, h, None)"
  using lookup_spec [of st "context" seqno client_id pending op] by simp

lemma lookup_miss:
  "table_ok st \<Longrightarrow> first_stop op context seqno st = Some s \<Longrightarrow>
   \<not> compare_fnc op (hw_fences_tbl st ! s) context seqno \<Longrightarrow>
   \<exists>h. hw_fence_lookup_and_process context seqno client_id pending op st = (st, h, None)"
  using lookup_spec [of st "context" seqno client_id pending op] by auto

lemma lookup_hit:
  "table_ok st \<Longrightarrow> first_stop op context seqno st = Some s \<Longrightarrow>
   compare_fnc op (hw_fences_tbl st ! s) context seqno \<Longrightarrow>
   \<exists>h. unat h = s \<and> hw_fence_lookup_and_process context seqno client_id pending op st =
     (process_fnc op s client_id context seqno pending st, h, Some s)"
  using lookup_spec [of st "context" seqno client_id pending op] by auto

lemma first_stop_None:
  assumes "table_ok st"
  shows "first_stop op context seqno st = None \<longleftrightarrow>
    (\<forall>f \<in> set (hw_fences_tbl st). \<not> lookup_stops op context seqno f)"
proof -
  let ?m = "unat (hw_fence_table_entries st)"
  have len: "length (hw_fences_tbl st) = ?m" using assms by (simp add: table_ok_def)
  have "(\<exists>i<?m. probe_slot st context seqno i = j) \<longleftrightarrow> j < ?m" for j
    using probe_surj [of j ?m] by (auto simp: probe_slot_def)
  then show ?thesis
    unfolding first_stop_def by (auto simp: find_upt_None all_set_conv_all_nth len) (metis+)
qed

lemma first_stop_SomeD:
  assumes "table_ok st" "first_stop op context seqno st = Some s"
  shows "s < length (hw_fences_tbl st)" and "lookup_stops op context seqno (hw_fences_tbl st ! s)"
  using assms by (auto simp: first_stop_def find_upt_Some table_ok_def probe_slot_def)

lemma lookup_stops_find [simp]:
  "lookup_stops HW_FENCE_LOOKUP_OP_FIND_FENCE context seqno f \<longleftrightarrow> hf_ctx_id f = context \<and> hf_seq_id f = seqno"
  "lookup_stops HW_FENCE_LOOKUP_OP_DESTROY context seqno f \<longleftrightarrow> hf_ctx_id f = context \<and> hf_seq_id f = seqno"
  by (auto simp: lookup_stops_def is_create_op_def hw_fence_match_def)

lemma first_stop_destroy:
  "first_stop HW_FENCE_LOOKUP_OP_DESTROY context seqno st = first_stop HW_FENCE_LOOKUP_OP_FIND_FENCE context seqno st"
  by (simp add: first_stop_def)

text \<open>The slot in which a find of a key ends: the abstraction of the table as a map.\<close>

definition slot_of :: "hw_fence_driver_data \<Rightarrow> u64 \<times> u64 \<Rightarrow> nat option" where
  "slot_of st k = first_stop HW_FENCE_LOOKUP_OP_FIND_FENCE (fst k) (snd k) st"

definition fence_key :: "msm_hw_fence \<Rightarrow> u64 \<times> u64" where
  "fence_key f = (hf_ctx_id f, hf_seq_id f)"

lemma slot_of_None:
  "table_ok st \<Longrightarrow> slot_of st k = None \<longleftrightarrow> (\<forall>f \<in> set (hw_fences_tbl st). fence_key f \<noteq> k)"
  by (cases k) (auto simp: slot_of_def first_stop_None fence_key_def)

lemma slot_of_SomeD:
  assumes "table_ok st" "slot_of st k = Some s"
  shows "s < length (hw_fences_tbl st)" and "fence_key (hw_fences_tbl st ! s) = k"
proof -
  have "first_stop HW_FENCE_LOOKUP_OP_FIND_FENCE (fst k) (snd k) st = Some s"
    using assms(2) by (simp add: slot_of_def)
  note this [THEN first_stop_SomeD(1) [OF assms(1)]] this [THEN first_stop_SomeD(2) [OF assms(1)]]
  then show "s < length (hw_fences_tbl st)" and "fence_key (hw_fences_tbl st ! s) = k"
    by (simp_all add: fence_key_def)
qed

text \<open>A find leaves the state as it is and returns the slot of the key.\<close>

lemma find_eq:
  assumes "table_ok st"
  shows "\<exists>h. msm_hw_fence_find c context seqno st = (st, h, slot_of st (context, seqno)) \<and>
     (\<forall>s. slot_of st (context, seqno) = Some s \<longrightarrow> unat h = s)"
proof (cases "slot_of st (context, seqno)")
  case None
  then show ?thesis
    using lookup_None [OF assms] by (simp add: msm_hw_fence_find_def Let_def slot_of_def)
next
  case (Some s)
  then have "compare_fnc HW_FENCE_LOOKUP_OP_FIND_FENCE (hw_fences_tbl st ! s) context seqno"
    using slot_of_SomeD [OF assms Some] by (simp add: hw_fence_match_def fence_key_def)
  then show ?thesis
    using Some lookup_hit [OF assms, of HW_FENCE_LOOKUP_OP_FIND_FENCE "context" seqno s
        "case c of None \<Rightarrow> 0xff | Some c \<Rightarrow> cl_client_id c" 0]
    by (auto simp: msm_hw_fence_find_def Let_def slot_of_def fence_found_def)
qed

section \<open>Keys\<close>

text \<open>
  The state a disciplined user of the table keeps: no two valid fences have the same key, a
  valid fence has not the key of an empty slot, and a free slot is cleaned up.
\<close>

definition keys_ok :: "hw_fence_driver_data \<Rightarrow> bool" where
  "keys_ok st \<longleftrightarrow> table_ok st \<and>
     (\<forall>s < length (hw_fences_tbl st). hf_valid (hw_fences_tbl st ! s) = 0 \<longleftrightarrow> fence_key (hw_fences_tbl st ! s) = (0, 0)) \<and>
     (\<forall>s < length (hw_fences_tbl st). \<forall>t < length (hw_fences_tbl st).
        hf_valid (hw_fences_tbl st ! s) \<noteq> 0 \<longrightarrow>
        fence_key (hw_fences_tbl st ! t) = fence_key (hw_fences_tbl st ! s) \<longrightarrow> t = s)"

lemma keys_ok_table [simp]: "keys_ok st \<Longrightarrow> table_ok st"
  by (simp add: keys_ok_def)

lemma keys_okD:
  assumes "keys_ok st" "s < length (hw_fences_tbl st)"
  shows "hf_valid (hw_fences_tbl st ! s) = 0 \<longleftrightarrow> fence_key (hw_fences_tbl st ! s) = (0, 0)"
    and "hf_valid (hw_fences_tbl st ! s) \<noteq> 0 \<Longrightarrow> t < length (hw_fences_tbl st) \<Longrightarrow>
         fence_key (hw_fences_tbl st ! t) = fence_key (hw_fences_tbl st ! s) \<Longrightarrow> t = s"
  using assms unfolding keys_ok_def by blast+

lemma slot_of_iff:
  assumes "keys_ok st" "k \<noteq> (0, 0)"
  shows "slot_of st k = Some s \<longleftrightarrow> s < length (hw_fences_tbl st) \<and> fence_key (hw_fences_tbl st ! s) = k"
proof
  assume "slot_of st k = Some s"
  then show "s < length (hw_fences_tbl st) \<and> fence_key (hw_fences_tbl st ! s) = k"
    using slot_of_SomeD assms by auto
next
  assume s: "s < length (hw_fences_tbl st) \<and> fence_key (hw_fences_tbl st ! s) = k"
  then obtain t where t: "slot_of st k = Some t"
    using slot_of_None [of st k] assms(1) by (metis keys_ok_table nth_mem option.exhaust)
  then have "t < length (hw_fences_tbl st)" "fence_key (hw_fences_tbl st ! t) = k"
    using slot_of_SomeD assms(1) by auto
  moreover have "hf_valid (hw_fences_tbl st ! s) \<noteq> 0"
    using keys_okD(1) [OF assms(1)] s assms(2) by auto
  ultimately show "slot_of st k = Some s"
    using keys_okD(2) [OF assms(1), of s t] s t by auto
qed

section \<open>Creating and destroying fences\<close>

definition new_fence :: "u64 \<Rightarrow> u32 \<Rightarrow> u64 \<Rightarrow> u64 \<Rightarrow> u32 \<Rightarrow> msm_hw_fence \<Rightarrow> msm_hw_fence" where
  "new_fence time client_id context seqno pending f =
     (cleanup_hw_fence f)\<lparr>hf_valid := 1, hf_ctx_id := context, hf_seq_id := seqno,
        hf_fence_allocator := client_id, hf_fence_create_time := time,
        hf_debug_refcount := 1, hf_pending_child_cnt := pending\<rparr>"

definition put_fence :: "nat \<Rightarrow> msm_hw_fence \<Rightarrow> hw_fence_driver_data \<Rightarrow> hw_fence_driver_data" where
  "put_fence i f st = st\<lparr>hw_fences_tbl := (hw_fences_tbl st)[i := f]\<rparr>"

lemma put_fence_simps [simp]:
  "hw_fences_tbl (put_fence i f st) = (hw_fences_tbl st)[i := f]"
  "hw_fence_table_entries (put_fence i f st) = hw_fence_table_entries st"
  "blocked (put_fence i f st) = blocked st"
  "ub (put_fence i f st) = ub st"
  "clients (put_fence i f st) = clients st"
  "client_store (put_fence i f st) = client_store st"
  "events_out (put_fence i f st) = events_out st"
  "rxq_clients_num (put_fence i f st) = rxq_clients_num st"
  "dma_fences (put_fence i f st) = dma_fences st"
  by (simp_all add: put_fence_def)

lemma new_fence_simps [simp]:
  "hf_valid (new_fence t c x q p f) = 1"
  "fence_key (new_fence t c x q p f) = (x, q)"
  "hf_ctx_id (new_fence t c x q p f) = x"
  "hf_seq_id (new_fence t c x q p f) = q"
  "hf_lock (new_fence t c x q p f) = hf_lock f"
  by (simp_all add: new_fence_def fence_key_def)

lemma cleanup_key [simp]:
  "fence_key ((cleanup_hw_fence f)\<lparr>hf_valid := v\<rparr>) = (0, 0)"
  by (simp add: fence_key_def)

lemma reserve_hw_fence_eq:
  "i < length (hw_fences_tbl st) \<Longrightarrow> reserve_hw_fence i client_id x q pending st =
     put_fence i (new_fence (qtime_src st (qtime_reads st)) client_id x q 0 (hw_fences_tbl st ! i)) (tick st)"
  by (cases "hw_fences_tbl st ! i") (simp add: reserve_hw_fence_def upd_fence_def hw_fence_get_qtime_def Let_def put_fence_def
      tick_def new_fence_def cleanup_hw_fence_def)

lemma reserve_join_fence_eq:
  "i < length (hw_fences_tbl st) \<Longrightarrow> reserve_join_fence i client_id x q pending st =
     put_fence i (new_fence (qtime_src st (qtime_reads st)) client_id x q pending (hw_fences_tbl st ! i)) (tick st)"
  by (cases "hw_fences_tbl st ! i") (simp add: reserve_join_fence_def upd_fence_def hw_fence_get_qtime_def Let_def put_fence_def
      tick_def new_fence_def cleanup_hw_fence_def)

lemma unreserve_hw_fence_eq:
  "i < length (hw_fences_tbl st) \<Longrightarrow> unreserve_hw_fence i client_id x q pending st =
     put_fence i ((cleanup_hw_fence (hw_fences_tbl st ! i))\<lparr>hf_valid := 0\<rparr>) st"
  by (simp add: unreserve_hw_fence_def upd_fence_def put_fence_def)

lemma table_ok_tick [simp]: "table_ok (tick st) = table_ok st"
  by (simp add: table_ok_def fence_locks_free_def)

lemma table_ok_put:
  "table_ok st \<Longrightarrow> i < length (hw_fences_tbl st) \<Longrightarrow> hf_lock f = 0 \<Longrightarrow> table_ok (put_fence i f st)"
  by (auto simp: table_ok_def fence_locks_free_def dest: set_update_subset_insert [THEN subsetD])

text \<open>
  Overwriting a free slot by a fence with a fresh key, or a slot by a cleaned-up fence, keeps
  the keys in order.
\<close>

lemma keys_ok_tick [simp]: "keys_ok (tick st) = keys_ok st"
  by (simp add: keys_ok_def)

lemma keys_ok_put_fresh:
  assumes "keys_ok st" "i < length (hw_fences_tbl st)" "hf_lock f = 0" "hf_valid f \<noteq> 0"
    and "fence_key f \<noteq> (0, 0)" "slot_of st (fence_key f) \<in> {None, Some i}"
  shows "keys_ok (put_fence i f st)"
proof -
  have other: "fence_key (hw_fences_tbl st ! t) \<noteq> fence_key f" if "t < length (hw_fences_tbl st)" "t \<noteq> i" for t
    using slot_of_iff [OF assms(1,5), of t] that assms(6) by auto
  show ?thesis
    unfolding keys_ok_def
  proof (intro conjI allI impI)
    show "table_ok (put_fence i f st)" using assms by (simp add: table_ok_put)
  next
    fix s assume "s < length (hw_fences_tbl (put_fence i f st))"
    then show "hf_valid (hw_fences_tbl (put_fence i f st) ! s) = 0 \<longleftrightarrow>
        fence_key (hw_fences_tbl (put_fence i f st) ! s) = (0, 0)"
      using assms keys_okD(1) [OF assms(1), of s] by (auto simp: nth_list_update)
  next
    fix s t
    assume "s < length (hw_fences_tbl (put_fence i f st))" "t < length (hw_fences_tbl (put_fence i f st))"
      "hf_valid (hw_fences_tbl (put_fence i f st) ! s) \<noteq> 0"
      "fence_key (hw_fences_tbl (put_fence i f st) ! t) = fence_key (hw_fences_tbl (put_fence i f st) ! s)"
    then show "t = s"
      using other [of s] other [of t] keys_okD(2) [OF assms(1), of s t] assms(2)
      by (cases "s = i"; cases "t = i") auto
  qed
qed

lemma keys_ok_put_free:
  assumes "keys_ok st" "i < length (hw_fences_tbl st)" "hf_lock f = 0" "hf_valid f = 0" "fence_key f = (0, 0)"
  shows "keys_ok (put_fence i f st)"
  using assms unfolding keys_ok_def
  by (auto simp: table_ok_put nth_list_update split: if_splits)

text \<open>The map view: the fence found under a key, and the number of free slots.\<close>

definition table_lookup :: "hw_fence_driver_data \<Rightarrow> u64 \<times> u64 \<Rightarrow> msm_hw_fence option" where
  "table_lookup st k = map_option (\<lambda>s. hw_fences_tbl st ! s) (slot_of st k)"

definition free_slots :: "hw_fence_driver_data \<Rightarrow> nat" where
  "free_slots st = length (filter (\<lambda>f. hf_valid f = 0) (hw_fences_tbl st))"

lemma table_lookup_put:
  assumes "keys_ok st" "keys_ok (put_fence i f st)" "i < length (hw_fences_tbl st)" "k \<noteq> (0, 0)"
    and "k \<noteq> fence_key (hw_fences_tbl st ! i)"
  shows "table_lookup (put_fence i f st) k = (if k = fence_key f then Some f else table_lookup st k)"
proof (cases "k = fence_key f")
  case True
  then have "slot_of (put_fence i f st) k = Some i"
    using assms by (simp add: slot_of_iff)
  with True assms(3) show ?thesis by (simp add: table_lookup_def)
next
  case False
  have iff: "slot_of (put_fence i f st) k = Some t \<longleftrightarrow> slot_of st k = Some t" for t
    using assms False by (auto simp: slot_of_iff nth_list_update)
  then have "slot_of (put_fence i f st) k = slot_of st k"
    by (metis not_None_eq)
  moreover have "slot_of st k = Some t \<Longrightarrow> t \<noteq> i" for t
    using assms by (auto simp: slot_of_iff)
  ultimately show ?thesis
    using False by (cases "slot_of st k") (auto simp: table_lookup_def)
qed

lemma free_slots_put:
  assumes "i < length (hw_fences_tbl st)"
  shows "free_slots (put_fence i f st) + (if hf_valid (hw_fences_tbl st ! i) = 0 then 1 else 0) =
         free_slots st + (if hf_valid f = 0 then 1 else 0)"
proof -
  have "hw_fences_tbl st = take i (hw_fences_tbl st) @ hw_fences_tbl st ! i # drop (Suc i) (hw_fences_tbl st)"
    using assms by (simp add: id_take_nth_drop)
  then have "free_slots st = length (filter (\<lambda>f. hf_valid f = 0)
      (take i (hw_fences_tbl st) @ hw_fences_tbl st ! i # drop (Suc i) (hw_fences_tbl st)))"
    unfolding free_slots_def by (rule arg_cong)
  then show ?thesis
    using assms by (simp add: free_slots_def upd_conv_take_nth_drop)
qed

lemma free_slots_tick [simp]: "free_slots (tick st) = free_slots st"
  by (simp add: free_slots_def)

lemma slot_of_tick [simp]: "slot_of (tick st) k = slot_of st k"
proof -
  have "probe_slot (tick st) x q = probe_slot st x q" for x q
    by (rule ext) (simp add: probe_slot_def home_slot_def)
  then show ?thesis by (simp add: slot_of_def first_stop_def)
qed

lemma table_lookup_tick [simp]: "table_lookup (tick st) k = table_lookup st k"
  by (simp add: table_lookup_def)

lemma create_lookup_stops:
  assumes "keys_ok st" "(x, q) \<noteq> (0, 0)" "slot_of st (x, q) = None" "f \<in> set (hw_fences_tbl st)" "is_create_op op"
  shows "lookup_stops op x q f \<longleftrightarrow> hf_valid f = 0" and "compare_fnc op f x q \<longleftrightarrow> hf_valid f = 0"
proof -
  have "fence_key f \<noteq> (x, q)"
    using slot_of_None [of st "(x, q)"] assms by auto
  then have "\<not> (q = hf_seq_id f \<and> x = hf_ctx_id f)" by (auto simp: fence_key_def)
  moreover show "compare_fnc op f x q \<longleftrightarrow> hf_valid f = 0"
    using assms(5) by (auto simp: is_create_op_def is_hw_fence_free_def split: if_splits)
  ultimately show "lookup_stops op x q f \<longleftrightarrow> hf_valid f = 0"
    by (auto simp: lookup_stops_def)
qed

text \<open>
  A creation with a fresh key ends in a free slot, or leaves the state alone when there is
  none. The two creating op codes differ in the pending count they store.
\<close>

lemma create_fresh:
  assumes "keys_ok st" "(x, q) \<noteq> (0, 0)" "slot_of st (x, q) = None" "is_create_op op"
  shows "if \<exists>f \<in> set (hw_fences_tbl st). hf_valid f = 0
    then \<exists>s h. s < length (hw_fences_tbl st) \<and> hf_valid (hw_fences_tbl st ! s) = 0 \<and> unat h = s \<and>
       hw_fence_lookup_and_process x q client_id pending op st =
         (process_fnc op s client_id x q pending st, h, Some s)
    else \<exists>h. hw_fence_lookup_and_process x q client_id pending op st = (st, h, None)"
proof -
  have ok: "table_ok st" using assms(1) by simp
  have stops: "lookup_stops op x q f \<longleftrightarrow> hf_valid f = 0"
    and comp: "compare_fnc op f x q \<longleftrightarrow> hf_valid f = 0" if "f \<in> set (hw_fences_tbl st)" for f
    using create_lookup_stops assms that by blast+
  show ?thesis
  proof (cases "first_stop op x q st")
    case None
    then have "\<not> (\<exists>f \<in> set (hw_fences_tbl st). hf_valid f = 0)"
      using first_stop_None [OF ok] stops by blast
    then show ?thesis using lookup_None [OF ok None] by simp
  next
    case (Some s)
    note s = first_stop_SomeD [OF ok Some]
    then have "hf_valid (hw_fences_tbl st ! s) = 0" "hw_fences_tbl st ! s \<in> set (hw_fences_tbl st)"
      using stops by auto
    moreover from this have "compare_fnc op (hw_fences_tbl st ! s) x q" using comp by blast
    ultimately show ?thesis
      using lookup_hit [OF ok Some] s(1) by auto
  qed
qed

lemma destroy_key:
  assumes "keys_ok st"
  shows "case slot_of st (x, q) of
      None \<Rightarrow> hw_fence_cleanup client_id x q st = (- EINVAL, st)
    | Some s \<Rightarrow> hw_fence_cleanup client_id x q st =
        (0, put_fence s ((cleanup_hw_fence (hw_fences_tbl st ! s))\<lparr>hf_valid := 0\<rparr>) st)"
proof -
  have ok: "table_ok st" using assms by simp
  have slot: "first_stop HW_FENCE_LOOKUP_OP_DESTROY x q st = slot_of st (x, q)"
    by (simp add: slot_of_def first_stop_destroy)
  show ?thesis
  proof (cases "slot_of st (x, q)")
    case None
    then show ?thesis
      using lookup_None [OF ok, of HW_FENCE_LOOKUP_OP_DESTROY x q client_id 0] slot
      by (auto simp: hw_fence_cleanup_def)
  next
    case (Some s)
    note s = slot_of_SomeD [OF ok Some]
    then have "compare_fnc HW_FENCE_LOOKUP_OP_DESTROY (hw_fences_tbl st ! s) x q"
      by (simp add: hw_fence_match_def fence_key_def)
    then show ?thesis
      using lookup_hit [OF ok, of HW_FENCE_LOOKUP_OP_DESTROY x q s client_id 0] slot Some s(1)
      by (auto simp: hw_fence_cleanup_def unreserve_hw_fence_eq)
  qed
qed

section \<open>The table as a keyed store\<close>

text \<open>
  The contract of a bounded store with unique keys, and what follows from it for any client:
  a fresh insertion followed by the removal of the key restores every lookup, and a batch of
  distinct fresh keys is stored completely as long as there is room.
\<close>

locale keyed_store =
  fixes lookup :: "'s \<Rightarrow> 'k \<Rightarrow> 'v option"
    and insert :: "'k \<Rightarrow> 's \<Rightarrow> int \<times> 's"
    and remove :: "'k \<Rightarrow> 's \<Rightarrow> int \<times> 's"
    and inv :: "'s \<Rightarrow> bool"
    and key_ok :: "'k \<Rightarrow> bool"
    and room :: "'s \<Rightarrow> nat"
  assumes insert_fresh: "inv s \<Longrightarrow> key_ok k \<Longrightarrow> lookup s k = None \<Longrightarrow> 0 < room s \<Longrightarrow>
      \<exists>s' v. insert k s = (0, s') \<and> inv s' \<and> room s = Suc (room s') \<and>
        (\<forall>k'. key_ok k' \<longrightarrow> lookup s' k' = (if k' = k then Some v else lookup s k'))"
    and insert_full: "inv s \<Longrightarrow> key_ok k \<Longrightarrow> lookup s k = None \<Longrightarrow> room s = 0 \<Longrightarrow> insert k s = (- EINVAL, s)"
    and remove_present: "inv s \<Longrightarrow> key_ok k \<Longrightarrow> lookup s k = Some v \<Longrightarrow>
      \<exists>s'. remove k s = (0, s') \<and> inv s' \<and> room s' = Suc (room s) \<and>
        (\<forall>k'. key_ok k' \<longrightarrow> lookup s' k' = (if k' = k then None else lookup s k'))"
    and remove_absent: "inv s \<Longrightarrow> key_ok k \<Longrightarrow> lookup s k = None \<Longrightarrow> remove k s = (- EINVAL, s)"
begin

lemma insert_remove:
  assumes "inv s" "key_ok k" "lookup s k = None" "0 < room s"
  shows "\<exists>s' s''. insert k s = (0, s') \<and> remove k s' = (0, s'') \<and> inv s'' \<and> room s'' = room s \<and>
    (\<forall>k'. key_ok k' \<longrightarrow> lookup s'' k' = lookup s k')"
proof -
  obtain s' v where s': "insert k s = (0, s')" "inv s'" "room s = Suc (room s')"
    "\<forall>k'. key_ok k' \<longrightarrow> lookup s' k' = (if k' = k then Some v else lookup s k')"
    using insert_fresh [OF assms] by blast
  then have "lookup s' k = Some v" using assms(2) by simp
  then obtain s'' where "remove k s' = (0, s'')" "inv s''" "room s'' = Suc (room s')"
    "\<forall>k'. key_ok k' \<longrightarrow> lookup s'' k' = (if k' = k then None else lookup s' k')"
    using remove_present [OF s'(2) assms(2)] by blast
  with s' assms(3) show ?thesis by auto
qed

fun insert_all :: "'k list \<Rightarrow> 's \<Rightarrow> int list \<times> 's" where
  "insert_all [] s = ([], s)"
| "insert_all (k # ks) s =
     (case insert k s of (r, s') \<Rightarrow> case insert_all ks s' of (rs, s'') \<Rightarrow> (r # rs, s''))"

lemma insert_all_fresh:
  assumes "inv s" "distinct ks" "\<forall>k \<in> set ks. key_ok k \<and> lookup s k = None" "length ks \<le> room s"
  shows "\<exists>s'. insert_all ks s = (replicate (length ks) 0, s') \<and> inv s' \<and> room s' = room s - length ks \<and>
    (\<forall>k'. key_ok k' \<longrightarrow> (lookup s' k' \<noteq> None \<longleftrightarrow> k' \<in> set ks \<or> lookup s k' \<noteq> None))"
  using assms
proof (induction ks arbitrary: s)
  case Nil
  then show ?case by simp
next
  case (Cons k ks)
  have pre: "inv s" "key_ok k" "lookup s k = None" "0 < room s" using Cons.prems by auto
  obtain s1 v where s1: "insert k s = (0, s1)" "inv s1" "room s = Suc (room s1)"
    "\<forall>k'. key_ok k' \<longrightarrow> lookup s1 k' = (if k' = k then Some v else lookup s k')"
    using insert_fresh [OF pre] by blast
  have "\<exists>s'. insert_all ks s1 = (replicate (length ks) 0, s') \<and> inv s' \<and> room s' = room s1 - length ks \<and>
    (\<forall>k'. key_ok k' \<longrightarrow> (lookup s' k' \<noteq> None \<longleftrightarrow> k' \<in> set ks \<or> lookup s1 k' \<noteq> None))"
    using Cons.prems s1 by (intro Cons.IH) auto
  then show ?case using s1 by auto
qed

end

definition store_insert :: "msm_hw_fence_client \<Rightarrow> u64 \<times> u64 \<Rightarrow> hw_fence_driver_data \<Rightarrow> int \<times> hw_fence_driver_data" where
  "store_insert c k st = (case hw_fence_create c (fst k) (snd k) st of (ret, hash, st') \<Rightarrow> (ret, st'))"

definition store_remove :: "msm_hw_fence_client \<Rightarrow> u64 \<times> u64 \<Rightarrow> hw_fence_driver_data \<Rightarrow> int \<times> hw_fence_driver_data" where
  "store_remove c k st = hw_fence_destroy c (fst k) (snd k) st"

lemma table_lookup_None: "table_lookup st k = None \<longleftrightarrow> slot_of st k = None"
  by (simp add: table_lookup_def)

lemma free_slots_pos: "0 < free_slots st \<longleftrightarrow> (\<exists>f \<in> set (hw_fences_tbl st). hf_valid f = 0)"
  by (auto simp: free_slots_def filter_empty_conv)

lemma store_insert_fresh:
  assumes "keys_ok st" "k \<noteq> (0, 0)" "table_lookup st k = None" "0 < free_slots st"
  shows "\<exists>st' v. store_insert c k st = (0, st') \<and> keys_ok st' \<and> free_slots st = Suc (free_slots st') \<and>
     (\<forall>k'. k' \<noteq> (0, 0) \<longrightarrow> table_lookup st' k' = (if k' = k then Some v else table_lookup st k'))"
proof -
  obtain x q where k: "k = (x, q)" by force
  have slot: "slot_of st (x, q) = None" using assms(3) k by (simp add: table_lookup_None)
  have "is_create_op HW_FENCE_LOOKUP_OP_CREATE" by (simp add: is_create_op_def)
  then obtain s h where s: "s < length (hw_fences_tbl st)" "hf_valid (hw_fences_tbl st ! s) = 0"
    and eq: "hw_fence_lookup_and_process x q (cl_client_id c) 0 HW_FENCE_LOOKUP_OP_CREATE st =
      (reserve_hw_fence s (cl_client_id c) x q 0 st, h, Some s)"
    using create_fresh [of st x q HW_FENCE_LOOKUP_OP_CREATE "cl_client_id c" 0] assms k slot
    by (auto simp: free_slots_pos)
  let ?f = "new_fence (qtime_src st (qtime_reads st)) (cl_client_id c) x q 0 (hw_fences_tbl st ! s)"
  let ?st = "put_fence s ?f (tick st)"
  have "store_insert c k st = (0, ?st)"
    using s(1) by (simp add: store_insert_def hw_fence_create_def k eq reserve_hw_fence_eq)
  moreover have lock: "hf_lock ?f = 0"
    using assms(1) s(1) by (simp add: keys_ok_def table_ok_def fence_locks_free_def)
  moreover have keys: "keys_ok ?st"
    using assms(1,2) s lock slot by (intro keys_ok_put_fresh) (auto simp: k)
  moreover have "free_slots st = Suc (free_slots ?st)"
    using free_slots_put [of s "tick st" ?f] s by simp
  moreover have "table_lookup ?st k' = (if k' = k then Some ?f else table_lookup st k')" if "k' \<noteq> (0, 0)" for k'
  proof -
    have "fence_key (hw_fences_tbl st ! s) = (0, 0)" using keys_okD(1) [OF assms(1) s(1)] s(2) by simp
    then show ?thesis
      using table_lookup_put [of "tick st" s ?f k'] assms(1) keys s(1) that k by simp
  qed
  ultimately show ?thesis by blast
qed

lemma store_insert_full:
  assumes "keys_ok st" "k \<noteq> (0, 0)" "table_lookup st k = None" "free_slots st = 0"
  shows "store_insert c k st = (- EINVAL, st)"
proof -
  obtain x q where k: "k = (x, q)" by force
  have "is_create_op HW_FENCE_LOOKUP_OP_CREATE" by (simp add: is_create_op_def)
  moreover have "\<not> (\<exists>f \<in> set (hw_fences_tbl st). hf_valid f = 0)"
    using assms(4) free_slots_pos [of st] by simp
  ultimately obtain h where
    "hw_fence_lookup_and_process x q (cl_client_id c) 0 HW_FENCE_LOOKUP_OP_CREATE st = (st, h, None)"
    using create_fresh [of st x q HW_FENCE_LOOKUP_OP_CREATE "cl_client_id c" 0] assms k
    by (auto simp: table_lookup_None)
  then show ?thesis by (simp add: store_insert_def hw_fence_create_def k)
qed

lemma store_remove_present:
  assumes "keys_ok st" "k \<noteq> (0, 0)" "table_lookup st k = Some v"
  shows "\<exists>st'. store_remove c k st = (0, st') \<and> keys_ok st' \<and> free_slots st' = Suc (free_slots st) \<and>
     (\<forall>k'. k' \<noteq> (0, 0) \<longrightarrow> table_lookup st' k' = (if k' = k then None else table_lookup st k'))"
proof -
  obtain x q where k: "k = (x, q)" by force
  obtain s where s: "slot_of st k = Some s" using assms(3) by (auto simp: table_lookup_def)
  note sl = slot_of_SomeD [OF keys_ok_table [OF assms(1)] s]
  have valid: "hf_valid (hw_fences_tbl st ! s) \<noteq> 0"
    using keys_okD(1) [OF assms(1) sl(1)] sl(2) assms(2) by simp
  let ?f = "(cleanup_hw_fence (hw_fences_tbl st ! s))\<lparr>hf_valid := 0\<rparr>"
  let ?st = "put_fence s ?f st"
  have "store_remove c k st = (0, ?st)"
    using destroy_key [OF assms(1), where x = x and q = q and client_id = "cl_client_id c"] s
    by (simp add: store_remove_def hw_fence_destroy_def k)
  moreover have keys: "keys_ok ?st"
    using assms(1) sl(1) by (intro keys_ok_put_free) (auto simp: keys_ok_def table_ok_def fence_locks_free_def)
  moreover have "free_slots ?st = Suc (free_slots st)"
    using free_slots_put [OF sl(1), of ?f] valid by simp
  moreover have "table_lookup ?st k' = (if k' = k then None else table_lookup st k')" if "k' \<noteq> (0, 0)" for k'
  proof (cases "k' = k")
    case True
    have "fence_key f \<noteq> k" if "f \<in> set (hw_fences_tbl ?st)" for f
    proof -
      obtain t where t: "t < length (hw_fences_tbl st)" "f = hw_fences_tbl ?st ! t"
        using \<open>f \<in> set (hw_fences_tbl ?st)\<close> by (auto simp: in_set_conv_nth)
      then show ?thesis
        using keys_okD(2) [OF assms(1) sl(1), of t] valid sl assms(2) by (cases "t = s") auto
    qed
    then show ?thesis using True keys by (simp add: table_lookup_None slot_of_None)
  next
    case False
    then show ?thesis
      using table_lookup_put [OF assms(1) keys sl(1) that] sl(2) that by simp
  qed
  ultimately show ?thesis by blast
qed

lemma store_remove_absent:
  assumes "keys_ok st" "k \<noteq> (0, 0)" "table_lookup st k = None"
  shows "store_remove c k st = (- EINVAL, st)"
  using destroy_key [OF assms(1), where x = "fst k" and q = "snd k" and client_id = "cl_client_id c"] assms
  by (cases k) (simp add: store_remove_def hw_fence_destroy_def table_lookup_None)

interpretation fences: keyed_store table_lookup "store_insert c" "store_remove c" keys_ok
    "\<lambda>k. k \<noteq> (0, 0)" free_slots for c
  by unfold_locales
    (blast intro: store_insert_fresh store_insert_full store_remove_present store_remove_absent)+

section \<open>Properties of the table\<close>

fun create_all :: "msm_hw_fence_client \<Rightarrow> (u64 \<times> u64) list \<Rightarrow>
    hw_fence_driver_data \<Rightarrow> int list \<times> hw_fence_driver_data" where
  "create_all c [] st = ([], st)"
| "create_all c (k # ks) st =
     (case hw_fence_create c (fst k) (snd k) st of (ret, hash, st1) \<Rightarrow>
        case create_all c ks st1 of (rets, st2) \<Rightarrow> (ret # rets, st2))"

lemma create_all_store: "create_all c ks st = keyed_store.insert_all (store_insert c) ks st"
  by (induction ks arbitrary: st)
    (auto simp: fences.insert_all.simps store_insert_def split: prod.splits)

lemma fence_locks_free_blank [simp]: "fence_locks_free (blank_driver n m)"
  by (auto simp: fence_locks_free_def blank_driver_def blank_fence_def)

lemma fence_key_blank [simp]: "fence_key blank_fence = (0, 0)" "hf_valid blank_fence = 0"
  by (simp_all add: fence_key_def blank_fence_def)

lemma blank_driver_simps [simp]:
  "hw_fences_tbl (blank_driver n m) = replicate n blank_fence"
  "hw_fence_table_entries (blank_driver n m) = of_nat n"
  "blocked (blank_driver n m) = False"
  "ub (blank_driver n m) = False"
  by (simp_all add: blank_driver_def)

lemma keys_ok_blank: "n < 2 ^ 32 \<Longrightarrow> keys_ok (blank_driver n m)"
  by (simp add: keys_ok_def table_ok_def unat_of_nat)

lemma slot_of_blank: "n < 2 ^ 32 \<Longrightarrow> k \<noteq> (0, 0) \<Longrightarrow> slot_of (blank_driver n m) k = None"
  using slot_of_None [OF keys_ok_table [OF keys_ok_blank [of n m]]] by auto

lemma free_slots_blank [simp]: "free_slots (blank_driver n m) = n"
  by (simp add: free_slots_def filter_replicate)

text \<open>
  C1: a find visits every slot of the table whatever was deleted before. It returns no fence
  exactly when no entry of the table has the key, otherwise an entry with the key whose index
  is the returned hash; it never changes the table.
\<close>

theorem fence_find_complete:
  assumes "table_ok st"
  shows "case msm_hw_fence_find c x q st of (st', h, r) \<Rightarrow> st' = st \<and>
    (r = None \<longleftrightarrow> (\<forall>f \<in> set (hw_fences_tbl st). \<not> (hf_ctx_id f = x \<and> hf_seq_id f = q))) \<and>
    (\<forall>i. r = Some i \<longrightarrow> i < length (hw_fences_tbl st) \<and> unat h = i \<and>
       hf_ctx_id (hw_fences_tbl st ! i) = x \<and> hf_seq_id (hw_fences_tbl st ! i) = q)"
proof -
  obtain h where h: "msm_hw_fence_find c x q st = (st, h, slot_of st (x, q))"
    "\<forall>s. slot_of st (x, q) = Some s \<longrightarrow> unat h = s"
    using find_eq [OF assms] by blast
  moreover have "slot_of st (x, q) = None \<longleftrightarrow>
      (\<forall>f \<in> set (hw_fences_tbl st). \<not> (hf_ctx_id f = x \<and> hf_seq_id f = q))"
    using slot_of_None [OF assms, of "(x, q)"] by (auto simp: fence_key_def)
  moreover have "s < length (hw_fences_tbl st) \<and> hf_ctx_id (hw_fences_tbl st ! s) = x \<and>
      hf_seq_id (hw_fences_tbl st ! s) = q" if "slot_of st (x, q) = Some s" for s
    using slot_of_SomeD [OF assms that] by (simp add: fence_key_def)
  ultimately show ?thesis by simp
qed

theorem fence_find_complete_witness:
  "case msm_hw_fence_find None 1 1 (blank_driver 4 2) of (st', h, r) \<Rightarrow> st' = blank_driver 4 2 \<and>
    (r = None \<longleftrightarrow> (\<forall>f \<in> set (hw_fences_tbl (blank_driver 4 2)). \<not> (hf_ctx_id f = 1 \<and> hf_seq_id f = 1))) \<and>
    (\<forall>i. r = Some i \<longrightarrow> i < length (hw_fences_tbl (blank_driver 4 2)) \<and> unat h = i \<and>
       hf_ctx_id (hw_fences_tbl (blank_driver 4 2) ! i) = 1 \<and> hf_seq_id (hw_fences_tbl (blank_driver 4 2) ! i) = 1)"
  by (rule fence_find_complete) (simp add: keys_ok_blank)

text \<open>
  C2: creating a fence under a fresh key and destroying it again succeeds whenever a slot is
  free, returns the table to the same number of free slots and restores the result of a lookup
  of every key.
\<close>

theorem fence_create_destroy:
  assumes "keys_ok st" "(x, q) \<noteq> (0, 0)" "table_lookup st (x, q) = None" "0 < free_slots st"
  shows "\<exists>h st1 st2. hw_fence_create c x q st = (0, h, st1) \<and> hw_fence_destroy c x q st1 = (0, st2) \<and>
    keys_ok st2 \<and> free_slots st2 = free_slots st \<and>
    (\<forall>k. k \<noteq> (0, 0) \<longrightarrow> table_lookup st2 k = table_lookup st k)"
  using fences.insert_remove [OF assms, of c]
  by (auto simp: store_insert_def store_remove_def split: prod.splits)

theorem fence_create_destroy_witness:
  "\<exists>h st1 st2. hw_fence_create (blank_client 2) 1 5 (blank_driver 4 2) = (0, h, st1) \<and>
    hw_fence_destroy (blank_client 2) 1 5 st1 = (0, st2) \<and>
    keys_ok st2 \<and> free_slots st2 = free_slots (blank_driver 4 2) \<and>
    (\<forall>k. k \<noteq> (0, 0) \<longrightarrow> table_lookup st2 k = table_lookup (blank_driver 4 2) k)"
  by (rule fence_create_destroy) (simp_all add: keys_ok_blank slot_of_blank table_lookup_def)

text \<open>
  C3: the table fills up completely before a creation fails: any list of distinct fresh keys
  that is not longer than the number of free slots is stored, and then every key of the list is
  found along with the keys that were there before.
\<close>

theorem fence_create_batch:
  assumes "keys_ok st" "distinct ks" "length ks \<le> free_slots st"
    and "\<forall>k \<in> set ks. k \<noteq> (0, 0) \<and> table_lookup st k = None"
  shows "\<exists>st'. create_all c ks st = (replicate (length ks) 0, st') \<and> keys_ok st' \<and>
    free_slots st' = free_slots st - length ks \<and>
    (\<forall>k. k \<noteq> (0, 0) \<longrightarrow> (table_lookup st' k \<noteq> None \<longleftrightarrow> k \<in> set ks \<or> table_lookup st k \<noteq> None))"
  using fences.insert_all_fresh [of st ks c] assms by (simp add: create_all_store)

theorem fence_create_batch_witness:
  "\<exists>st'. create_all (blank_client 2) [(1, 1), (1, 5), (1, 9), (7, 1)] (blank_driver 4 2) = ([0, 0, 0, 0], st') \<and>
    keys_ok st' \<and> free_slots st' = 0 \<and> table_lookup st' (7, 1) \<noteq> None"
proof -
  have four: "replicate 4 (0 :: int) = [0, 0, 0, 0]" by (simp add: numeral_eq_Suc)
  have "\<exists>st'. create_all (blank_client 2) [(1, 1), (1, 5), (1, 9), (7, 1)] (blank_driver 4 2) =
      (replicate (length [(1 :: u64, 1 :: u64), (1, 5), (1, 9), (7, 1)]) 0, st') \<and> keys_ok st' \<and>
    free_slots st' = free_slots (blank_driver 4 2) - length [(1 :: u64, 1 :: u64), (1, 5), (1, 9), (7, 1)] \<and>
    (\<forall>k. k \<noteq> (0, 0) \<longrightarrow> (table_lookup st' k \<noteq> None \<longleftrightarrow>
       k \<in> set [(1, 1), (1, 5), (1, 9), (7, 1)] \<or> table_lookup (blank_driver 4 2) k \<noteq> None))"
    by (rule fence_create_batch) (simp_all add: keys_ok_blank slot_of_blank table_lookup_None)
  then obtain st' where "create_all (blank_client 2) [(1, 1), (1, 5), (1, 9), (7, 1)] (blank_driver 4 2) =
      ([0, 0, 0, 0], st')" "keys_ok st'" "free_slots st' = 0" "table_lookup st' (7, 1) \<noteq> None"
    using four by (auto simp del: create_all.simps)
  then show ?thesis by blast
qed

text \<open>
  Uniqueness of keys is not enforced by the creation itself. When a fence that collides with
  an earlier one is deleted, a second creation of a key that is still in the table takes the
  freed slot: the key is then held by two valid fences.
\<close>

theorem fence_create_duplicate_key:
  "\<exists>h1 h2 h3 st1 st2 st3 st4.
     hw_fence_create (blank_client 2) 1 1 (blank_driver 4 2) = (0, h1, st1) \<and>
     hw_fence_create (blank_client 2) 1 5 st1 = (0, h2, st2) \<and>
     hw_fence_destroy (blank_client 2) 1 1 st2 = (0, st3) \<and>
     hw_fence_create (blank_client 2) 1 5 st3 = (0, h3, st4) \<and>
     map (\<lambda>f. (hf_valid f, hf_ctx_id f, hf_seq_id f)) (hw_fences_tbl st4) =
       [(1, 1, 5), (1, 1, 5), (0, 0, 0), (0, 0, 0)]"
proof -
  have "(let c = blank_client 2; (r1, h1, st1) = hw_fence_create c 1 1 (blank_driver 4 2);
      (r2, h2, st2) = hw_fence_create c 1 5 st1; (r3, st3) = hw_fence_destroy c 1 1 st2;
      (r4, h3, st4) = hw_fence_create c 1 5 st3
    in (r1, r2, r3, r4, map (\<lambda>f. (hf_valid f, hf_ctx_id f, hf_seq_id f)) (hw_fences_tbl st4))) =
    (0, 0, 0, 0, [(1, 1, 5), (1, 1, 5), (0, 0, 0), (0, 0, 0)])"
    by code_simp
  then show ?thesis by (auto simp: Let_def split: prod.splits)
qed

lemma slot_of_own_key:
  assumes "keys_ok st" "s < length (hw_fences_tbl st)" "hf_valid (hw_fences_tbl st ! s) \<noteq> 0"
  shows "slot_of st (fence_key (hw_fences_tbl st ! s)) = Some s"
  using assms keys_okD(1) [OF assms(1,2)] by (simp add: slot_of_iff)

text \<open>
  Destroying by hash frees exactly the fence in that slot, and only for the client that
  allocated it; an index outside the table or a fence of another client is refused with EINVAL
  and nothing changes.
\<close>

theorem fence_destroy_with_hash:
  assumes "keys_ok st"
    and "unat hash < unat (hw_fence_table_entries st) \<Longrightarrow> hf_valid (hw_fences_tbl st ! unat hash) \<noteq> 0"
  shows "hw_fence_destroy_with_hash c hash st =
    (if unat hash \<ge> unat (hw_fence_table_entries st) \<or>
        hf_fence_allocator (hw_fences_tbl st ! unat hash) \<noteq> cl_client_id c
     then (- EINVAL, st)
     else (0, st\<lparr>hw_fences_tbl := (hw_fences_tbl st)[unat hash :=
             (cleanup_hw_fence (hw_fences_tbl st ! unat hash))\<lparr>hf_valid := 0\<rparr>]\<rparr>))"
proof (cases "unat hash < unat (hw_fence_table_entries st)")
  case False
  then show ?thesis by (simp add: hw_fence_destroy_with_hash_def get_hw_fence_def word_le_nat_alt)
next
  case True
  let ?f = "hw_fences_tbl st ! unat hash"
  have "slot_of st (hf_ctx_id ?f, hf_seq_id ?f) = Some (unat hash)"
    using slot_of_own_key [OF assms(1) _ assms(2)] True assms(1)
    by (simp add: fence_key_def keys_ok_def table_ok_def)
  then have "hw_fence_cleanup (cl_client_id c) (hf_ctx_id ?f) (hf_seq_id ?f) st =
      (0, put_fence (unat hash) ((cleanup_hw_fence ?f)\<lparr>hf_valid := 0\<rparr>) st)"
    using destroy_key [OF assms(1), where x = "hf_ctx_id ?f" and q = "hf_seq_id ?f"
        and client_id = "cl_client_id c"] by simp
  then show ?thesis
    using True by (simp add: hw_fence_destroy_with_hash_def get_hw_fence_Some Let_def put_fence_def)
qed

definition one_fence_driver :: hw_fence_driver_data where
  "one_fence_driver = put_fence 1 (new_fence 0 2 1 5 0 blank_fence) (blank_driver 2 2)"

lemma one_fence_keys_ok: "keys_ok one_fence_driver"
  unfolding one_fence_driver_def
  by (rule keys_ok_put_fresh) (simp_all add: keys_ok_blank slot_of_blank blank_fence_def)

theorem fence_destroy_with_hash_witness:
  "hw_fence_destroy_with_hash (blank_client 2) 1 one_fence_driver =
     (0, one_fence_driver\<lparr>hw_fences_tbl := (hw_fences_tbl one_fence_driver)[1 :=
             (cleanup_hw_fence (hw_fences_tbl one_fence_driver ! 1))\<lparr>hf_valid := 0\<rparr>]\<rparr>) \<and>
   hw_fence_destroy_with_hash (blank_client 3) 1 one_fence_driver = (- EINVAL, one_fence_driver) \<and>
   hw_fence_destroy_with_hash (blank_client 2) 7 one_fence_driver = (- EINVAL, one_fence_driver)"
  using fence_destroy_with_hash [OF one_fence_keys_ok, of 1 "blank_client 2"]
    fence_destroy_with_hash [OF one_fence_keys_ok, of 1 "blank_client 3"]
    fence_destroy_with_hash [OF one_fence_keys_ok, of 7 "blank_client 2"]
  by (simp add: one_fence_driver_def new_fence_def blank_client_def)

end
