(* ===== verification/Fence_Queue.thy ===== *)
theory Fence_Queue
  imports Fence_Types
begin

text \<open>
  The client queues of the hw-fence driver (hw\_fence\_drv\_priv.c): ring buffers of 64-byte
  payloads in shared memory, with read and write indexes in the HFI header. A client may use
  its own index unit and offset; the driver translates. A read or write outside the queue
  memory is undefined in the code: such an operation has the value \<open>None\<close> here (or sets the
  flag \<open>ub\<close> of the driver data).
\<close>

section \<open>Payloads in memory\<close>

definition join64 :: "u32 \<Rightarrow> u32 \<Rightarrow> u64" where
  "join64 lo hi = ucast lo OR push_bit 32 (ucast hi)"

definition lo32 :: "u64 \<Rightarrow> u32" where
  "lo32 w = ucast w"

definition hi32 :: "u64 \<Rightarrow> u32" where
  "hi32 w = ucast (drop_bit 32 w)"

abbreviation (input) PAYLOAD_SIZE :: u32 where "PAYLOAD_SIZE \<equiv> 64"
abbreviation (input) PAYLOAD_SIZE_U32 :: u32 where "PAYLOAD_SIZE_U32 \<equiv> 16"
abbreviation (input) HW_FENCE_PAYLOAD_TYPE_1 :: u16 where "HW_FENCE_PAYLOAD_TYPE_1 \<equiv> 1"

definition HW_FENCE_PAYLOAD_REV :: "u16 \<Rightarrow> u16 \<Rightarrow> u16" where
  "HW_FENCE_PAYLOAD_REV major minor = (push_bit 8 major OR (minor AND 0xFF))"

text \<open>The struct at dword \<open>i\<close> of the queue memory.\<close>

definition payload_at :: "u32 list \<Rightarrow> nat \<Rightarrow> msm_hw_fence_queue_payload" where
  "payload_at mem i =
     \<lparr>pl_size = mem ! i,
      pl_type = ucast (mem ! (i + 1)), pl_version = ucast (drop_bit 16 (mem ! (i + 1))),
      pl_ctxt_id = join64 (mem ! (i + 2)) (mem ! (i + 3)),
      pl_seqno = join64 (mem ! (i + 4)) (mem ! (i + 5)),
      pl_hash = join64 (mem ! (i + 6)) (mem ! (i + 7)),
      pl_flags = join64 (mem ! (i + 8)) (mem ! (i + 9)),
      pl_client_data = join64 (mem ! (i + 10)) (mem ! (i + 11)),
      pl_error = mem ! (i + 12), pl_timestamp_lo = mem ! (i + 13),
      pl_timestamp_hi = mem ! (i + 14), pl_reserve = mem ! (i + 15)\<rparr>"

fun store_dwords :: "nat \<Rightarrow> u32 list \<Rightarrow> u32 list \<Rightarrow> u32 list" where
  "store_dwords i [] mem = mem"
| "store_dwords i (d # ds) mem = store_dwords (Suc i) ds (mem[i := d])"

definition payload_dwords :: "msm_hw_fence_queue_payload \<Rightarrow> u32 list" where
  "payload_dwords p =
     [pl_size p, ucast (pl_type p) OR push_bit 16 (ucast (pl_version p)),
      lo32 (pl_ctxt_id p), hi32 (pl_ctxt_id p), lo32 (pl_seqno p), hi32 (pl_seqno p),
      lo32 (pl_hash p), hi32 (pl_hash p), lo32 (pl_flags p), hi32 (pl_flags p),
      lo32 (pl_client_data p), hi32 (pl_client_data p), pl_error p,
      pl_timestamp_lo p, pl_timestamp_hi p, pl_reserve p]"

definition payload_in_bounds :: "u32 list \<Rightarrow> nat \<Rightarrow> bool" where
  "payload_in_bounds mem i \<longleftrightarrow> i + 16 \<le> length mem"

section \<open>Index translation\<close>

definition REQUIRES_IDX_TRANSLATION :: "msm_hw_fence_queue \<Rightarrow> bool" where
  "REQUIRES_IDX_TRANSLATION q \<longleftrightarrow>
     rd_wr_idx_factor q \<noteq> 0 \<and> (rd_wr_idx_start q \<noteq> 0 \<or> rd_wr_idx_factor q > 1)"

definition IDX_TRANSLATE_CUSTOM_TO_DEFAULT :: "msm_hw_fence_queue \<Rightarrow> u32 \<Rightarrow> u32" where
  "IDX_TRANSLATE_CUSTOM_TO_DEFAULT q idx = (idx - rd_wr_idx_start q) * rd_wr_idx_factor q"

definition IDX_TRANSLATE_DEFAULT_TO_CUSTOM :: "msm_hw_fence_queue \<Rightarrow> u32 \<Rightarrow> u32" where
  "IDX_TRANSLATE_DEFAULT_TO_CUSTOM q idx = idx div rd_wr_idx_factor q + rd_wr_idx_start q"

definition translate_queue_indexes_custom_to_default ::
    "msm_hw_fence_queue \<Rightarrow> u32 \<Rightarrow> u32 \<Rightarrow> u32 \<times> u32" where
  "translate_queue_indexes_custom_to_default q read_idx write_idx =
     (if REQUIRES_IDX_TRANSLATION q
      then (IDX_TRANSLATE_CUSTOM_TO_DEFAULT q read_idx, IDX_TRANSLATE_CUSTOM_TO_DEFAULT q write_idx)
      else (read_idx, write_idx))"

section \<open>Reading a queue\<close>

text \<open>
  The result has the return code, the payload (\<open>None\<close> when the output is not written) and the
  queue after the read.
\<close>

definition hw_fence_read_queue_helper ::
    "msm_hw_fence_queue \<Rightarrow> (int \<times> msm_hw_fence_queue_payload option \<times> msm_hw_fence_queue) option" where
  "hw_fence_read_queue_helper q =
     (let q_size_u32 = q_size_bytes q div 4 in
      case va_header q of
        None \<Rightarrow> Some (- EINVAL, None, q)
      | Some hdr \<Rightarrow>
          (let (read_idx, write_idx) = translate_queue_indexes_custom_to_default q
                 (hdr_read_index hdr) (hdr_write_index hdr)
           in if read_idx = write_idx then Some (- EINVAL, None, q)
              else
                let to_read_idx = read_idx + PAYLOAD_SIZE_U32;
                    to_read_idx = (if to_read_idx \<ge> q_size_u32 then 0 else to_read_idx);
                    to_read_idx = (if REQUIRES_IDX_TRANSLATION q
                       then IDX_TRANSLATE_DEFAULT_TO_CUSTOM q to_read_idx else to_read_idx)
                in if \<not> payload_in_bounds (va_queue q) (unat read_idx) then None
                   else Some (if to_read_idx = write_idx then 0 else 1,
                     Some (payload_at (va_queue q) (unat read_idx)),
                     q\<lparr>va_header := Some (hdr\<lparr>hdr_read_index := to_read_idx\<rparr>)\<rparr>)))"

definition upd_client_queue :: "nat \<Rightarrow> nat \<Rightarrow> msm_hw_fence_queue \<Rightarrow> hw_fence_driver_data \<Rightarrow> hw_fence_driver_data" where
  "upd_client_queue cp qt q st =
     (case client_store st cp of
        None \<Rightarrow> st\<lparr>ub := True\<rparr>
      | Some c \<Rightarrow> st\<lparr>client_store := (client_store st)(cp \<mapsto> c\<lparr>cl_queues := (cl_queues c)[qt := q]\<rparr>)\<rparr>)"

definition hw_fence_read_queue :: "nat \<Rightarrow> nat \<Rightarrow> hw_fence_driver_data \<Rightarrow>
    int \<times> msm_hw_fence_queue_payload option \<times> hw_fence_driver_data" where
  "hw_fence_read_queue cp queue_type st =
     (case client_store st cp of
        None \<Rightarrow> (- EINVAL, None, st)
      | Some c \<Rightarrow>
          if queue_type \<ge> HW_FENCE_CLIENT_QUEUES then (- EINVAL, None, st)
          else if queue_type \<ge> length (cl_queues c) then (0, None, st\<lparr>ub := True\<rparr>)
          else case hw_fence_read_queue_helper (cl_queues c ! queue_type) of
              None \<Rightarrow> (0, None, st\<lparr>ub := True\<rparr>)
            | Some (ret, p, q) \<Rightarrow> (ret, p, upd_client_queue cp queue_type q st))"

section \<open>Writing a queue\<close>

text \<open>The index that a write uses and updates, through the pointer \<^verbatim>\<open>wr_ptr\<close>.\<close>

definition wr_ptr_read :: "msm_hw_fence_queue \<Rightarrow> msm_hw_fence_hfi_queue_header \<Rightarrow> u32" where
  "wr_ptr_read q hdr = (if skip_wr_idx q then hdr_tx_wm hdr else hdr_write_index hdr)"

definition wr_ptr_write ::
    "msm_hw_fence_queue \<Rightarrow> u32 \<Rightarrow> msm_hw_fence_hfi_queue_header \<Rightarrow> msm_hw_fence_hfi_queue_header" where
  "wr_ptr_write q idx hdr = (if skip_wr_idx q then hdr\<lparr>hdr_tx_wm := idx\<rparr> else hdr\<lparr>hdr_write_index := idx\<rparr>)"

definition get_update_queue_params ::
    "msm_hw_fence_queue \<Rightarrow> (int + msm_hw_fence_hfi_queue_header \<times> u32 \<times> u32 \<times> u32)" where
  "get_update_queue_params q =
     (case va_header q of
        None \<Rightarrow> Inl (- EINVAL)
      | Some hdr \<Rightarrow> Inr (hdr, q_size_bytes q div 4, PAYLOAD_SIZE, PAYLOAD_SIZE div 4))"

definition lock_client_queue :: "nat \<Rightarrow> bool" where
  "lock_client_queue queue_type \<longleftrightarrow> queue_type = HW_FENCE_RX_QUEUE - 1"

text \<open>
  The part of \<^verbatim>\<open>hw_fence_update_queue\<close> between the lock and the label \<^verbatim>\<open>exit\<close>, for the queue
  whose parameters were fetched: the fit check, and then the message with the timestamp that a
  timer read would give now. The reserved dword of the payload is not written.
\<close>

definition update_queue_fits :: "u32 \<Rightarrow> u32 \<Rightarrow> u32 \<Rightarrow> u32 \<Rightarrow> bool" where
  "update_queue_fits q_size_u32 payload_size_u32 read_idx write_idx =
     (let q_free_u32 = (if read_idx \<le> write_idx then q_size_u32 - (write_idx - read_idx) else read_idx - write_idx)
      in \<not> q_free_u32 \<le> payload_size_u32)"

definition update_queue_msg ::
    "u64 \<Rightarrow> u64 \<Rightarrow> u64 \<Rightarrow> u64 \<Rightarrow> u64 \<Rightarrow> u32 \<Rightarrow> u64 \<Rightarrow> u32 \<Rightarrow> msm_hw_fence_queue_payload" where
  "update_queue_msg ctxt_id seqno hash flags client_data error timestamp reserve =
     \<lparr>pl_size = PAYLOAD_SIZE, pl_type = HW_FENCE_PAYLOAD_TYPE_1, pl_version = HW_FENCE_PAYLOAD_REV 1 0,
      pl_ctxt_id = ctxt_id, pl_seqno = seqno, pl_hash = hash, pl_flags = flags,
      pl_client_data = client_data, pl_error = error,
      pl_timestamp_lo = lo32 timestamp, pl_timestamp_hi = hi32 timestamp, pl_reserve = reserve\<rparr>"

definition update_queue_body :: "nat \<Rightarrow> nat \<Rightarrow> msm_hw_fence_queue \<Rightarrow> msm_hw_fence_hfi_queue_header \<Rightarrow>
    u32 \<Rightarrow> u32 \<Rightarrow> u64 \<Rightarrow> u64 \<Rightarrow> u64 \<Rightarrow> u64 \<Rightarrow> u64 \<Rightarrow> u32 \<Rightarrow> hw_fence_driver_data \<Rightarrow> int \<times> hw_fence_driver_data" where
  "update_queue_body cp qt q hdr q_size_u32 payload_size_u32 ctxt_id seqno hash flags client_data error st =
     (let (read_idx, write_idx) = translate_queue_indexes_custom_to_default q (hdr_read_index hdr) (wr_ptr_read q hdr)
      in if \<not> update_queue_fits q_size_u32 payload_size_u32 read_idx write_idx then (- EINVAL, st)
         else
           let to_write_idx = write_idx + payload_size_u32;
               to_write_idx = (if to_write_idx \<ge> q_size_u32 then 0 else to_write_idx);
               to_write_idx = (if REQUIRES_IDX_TRANSLATION q
                  then IDX_TRANSLATE_DEFAULT_TO_CUSTOM q to_write_idx else to_write_idx)
           in if \<not> payload_in_bounds (va_queue q) (unat write_idx) then (0, st\<lparr>ub := True\<rparr>)
              else
                let (timestamp, st1) = hw_fence_get_qtime st;
                    msg = update_queue_msg ctxt_id seqno hash flags client_data error timestamp 0;
                    q1 = q\<lparr>va_queue := store_dwords (unat write_idx) (butlast (payload_dwords msg)) (va_queue q),
                           va_header := Some (wr_ptr_write q to_write_idx hdr)\<rparr>
                in (0, upd_client_queue cp qt q1 st1))"

definition hw_fence_update_queue :: "nat \<Rightarrow> u64 \<Rightarrow> u64 \<Rightarrow> u64 \<Rightarrow> u64 \<Rightarrow> u64 \<Rightarrow> u32 \<Rightarrow> nat \<Rightarrow>
    hw_fence_driver_data \<Rightarrow> int \<times> hw_fence_driver_data" where
  "hw_fence_update_queue cp ctxt_id seqno hash flags client_data error queue_type st =
     (case client_store st cp of
        None \<Rightarrow> (0, st\<lparr>ub := True\<rparr>)
      | Some c \<Rightarrow>
          if queue_type \<ge> cl_queues_num c then (- EINVAL, st)
          else if queue_type \<ge> length (cl_queues c) then (0, st\<lparr>ub := True\<rparr>)
          else
            let q = cl_queues c ! queue_type in
            case get_update_queue_params q of
              Inl e \<Rightarrow> (- EINVAL, st)
            | Inr (hdr, q_size_u32, payload_size, payload_size_u32) \<Rightarrow>
                if lock_client_queue queue_type then
                  (let lock_idx = cl_client_id c - 1 in
                   if lock_idx \<ge> client_lock_tbl_cnt st then (- EINVAL, st)
                   else
                     let st1 = global_atomic_store (Client_Lock (unat lock_idx)) True st;
                         (ret, st2) = update_queue_body cp queue_type q hdr q_size_u32 payload_size_u32
                            ctxt_id seqno hash flags client_data error st1
                     in (ret, global_atomic_store (Client_Lock (unat lock_idx)) False st2))
                else update_queue_body cp queue_type q hdr q_size_u32 payload_size_u32
                       ctxt_id seqno hash flags client_data error st)"

section \<open>Updating an entry of the transmit queue\<close>

definition hw_fence_update_existing_txq_payload :: "nat \<Rightarrow> u64 \<Rightarrow> u32 \<Rightarrow>
    hw_fence_driver_data \<Rightarrow> int \<times> hw_fence_driver_data" where
  "hw_fence_update_existing_txq_payload cp hash error st =
     (case client_store st cp of
        None \<Rightarrow> (0, st\<lparr>ub := True\<rparr>)
      | Some c \<Rightarrow>
          if length (cl_queues c) = 0 then (0, st\<lparr>ub := True\<rparr>)
          else
            let q = cl_queues c ! (HW_FENCE_TX_QUEUE - 1) in
            case get_update_queue_params q of
              Inl e \<Rightarrow> (- EINVAL, st)
            | Inr (hdr, q_size_u32, payload_size, payload_size_u32) \<Rightarrow>
                (let (read_idx, write_idx) = translate_queue_indexes_custom_to_default q
                       (hdr_read_index hdr) (wr_ptr_read q hdr)
                 in if read_idx = write_idx then (- EINVAL, st)
                    else if \<not> payload_in_bounds (va_queue q) (unat read_idx) then (0, st\<lparr>ub := True\<rparr>)
                    else
                      let first_payload = payload_at (va_queue q) (unat read_idx) in
                      if pl_hash first_payload = hash then
                        (0, upd_client_queue cp (HW_FENCE_TX_QUEUE - 1)
                              (q\<lparr>va_queue := (va_queue q)[unat read_idx + 12 := error]\<rparr>) st)
                      else
                        let second_idx = read_idx + payload_size_u32;
                            second_idx = (if second_idx \<ge> q_size_u32 then 0 else second_idx)
                        in if second_idx = write_idx then (- EINVAL, st)
                           else if \<not> payload_in_bounds (va_queue q) (unat second_idx) then (0, st\<lparr>ub := True\<rparr>)
                           else
                             let second_payload = payload_at (va_queue q) (unat second_idx) in
                             if pl_hash second_payload \<noteq> hash then (- EINVAL, st)
                             else (0, upd_client_queue cp (HW_FENCE_TX_QUEUE - 1)
                                   (q\<lparr>va_queue := store_dwords (unat second_idx) (payload_dwords first_payload)
                                        (store_dwords (unat read_idx)
                                          (payload_dwords (second_payload\<lparr>pl_error := error\<rparr>)) (va_queue q))\<rparr>) st)))"

section \<open>Resetting the queues of a client\<close>

definition hw_fence_utils_reset_queues :: "nat \<Rightarrow> hw_fence_driver_data \<Rightarrow> hw_fence_driver_data" where
  "hw_fence_utils_reset_queues cp st =
     (case client_store st cp of
        None \<Rightarrow> st\<lparr>ub := True\<rparr>
      | Some c \<Rightarrow>
          if length (cl_queues c) < 2 then st\<lparr>ub := True\<rparr>
          else
            let q = cl_queues c ! (HW_FENCE_TX_QUEUE - 1) in
            case va_header q of
              None \<Rightarrow> st\<lparr>ub := True\<rparr>
            | Some hdr \<Rightarrow>
                (let wr_idx = hdr_write_index hdr;
                     hdr1 = (if skip_wr_idx q then hdr\<lparr>hdr_tx_wm := wr_idx\<rparr> else hdr);
                     hdr2 = hdr1\<lparr>hdr_read_index := wr_idx\<rparr>;
                     st1 = upd_client_queue cp (HW_FENCE_TX_QUEUE - 1) (q\<lparr>va_header := Some hdr2\<rparr>) st
                 in if cl_update_rxq c then
                      (let lock_idx = cl_client_id c - 1 in
                       if lock_idx \<ge> client_lock_tbl_cnt st1 then st1
                       else
                         let st2 = global_atomic_store (Client_Lock (unat lock_idx)) True st1;
                             rq = cl_queues c ! (HW_FENCE_RX_QUEUE - 1);
                             st3 = (case va_header rq of
                                 None \<Rightarrow> st2\<lparr>ub := True\<rparr>
                               | Some rhdr \<Rightarrow> upd_client_queue cp (HW_FENCE_RX_QUEUE - 1)
                                    (rq\<lparr>va_header := Some (rhdr\<lparr>hdr_write_index := hdr_read_index rhdr\<rparr>)\<rparr>) st2)
                         in global_atomic_store (Client_Lock (unat lock_idx)) False st3)
                    else st1))"

section \<open>Payload memory\<close>

lemma join64_split [simp]: "join64 (lo32 w) (hi32 w) = w"
  by (rule bit_word_eqI) (auto simp: join64_def lo32_def hi32_def bit_simps)

lemma lo32_join64 [simp]: "lo32 (join64 a b) = a"
  by (rule bit_word_eqI) (auto simp: join64_def lo32_def bit_simps)

lemma hi32_join64 [simp]: "hi32 (join64 a b) = b"
  by (rule bit_word_eqI) (auto simp: join64_def hi32_def bit_simps dest: bit_imp_le_length)

lemma type_of_word1: "ucast (ucast (t :: u16) OR push_bit 16 (ucast (v :: u16)) :: u32) = t"
  by (rule bit_word_eqI) (auto simp: bit_simps)

lemma version_of_word1: "ucast (drop_bit 16 (ucast (t :: u16) OR push_bit 16 (ucast (v :: u16)) :: u32)) = v"
  by (rule bit_word_eqI) (auto simp: bit_simps dest: bit_imp_le_length)

lemma word1_split: "ucast (ucast w :: u16) OR push_bit 16 (ucast (ucast (drop_bit 16 w) :: u16)) = (w :: u32)"
  by (rule bit_word_eqI) (auto simp: bit_simps)

lemma length_store_dwords [simp]: "length (store_dwords i ds mem) = length mem"
  by (induction ds arbitrary: i mem) auto

lemma nth_store_dwords:
  "i + length ds \<le> length mem \<Longrightarrow>
   store_dwords i ds mem ! k = (if i \<le> k \<and> k < i + length ds then ds ! (k - i) else mem ! k)"
proof (induction ds arbitrary: i mem)
  case Nil
  then show ?case by auto
next
  case (Cons d ds)
  then show ?case by (auto simp: nth_list_update nth_Cons' less_Suc_eq_le)
qed

lemma length_payload_dwords [simp]: "length (payload_dwords p) = 16"
  by (simp add: payload_dwords_def)

lemma payload_at_cong: "(\<And>k. i \<le> k \<Longrightarrow> k < i + 16 \<Longrightarrow> mem ! k = mem' ! k) \<Longrightarrow> payload_at mem i = payload_at mem' i"
  by (simp add: payload_at_def)

lemma payload_at_store_other:
  "i + length ds \<le> length mem \<Longrightarrow> j + 16 \<le> i \<or> i + length ds \<le> j \<Longrightarrow>
   payload_at (store_dwords i ds mem) j = payload_at mem j"
  by (rule payload_at_cong) (auto simp: nth_store_dwords)

lemma payload_at_nth:
  "(\<And>k. k < 16 \<Longrightarrow> mem ! (i + k) = ds ! k) \<Longrightarrow> payload_at mem i = payload_at ds 0"
proof -
  assume eq: "\<And>k. k < 16 \<Longrightarrow> mem ! (i + k) = ds ! k"
  show ?thesis
    unfolding payload_at_def using eq [of 0] eq [of 1]
    by (simp only: eq add_0 add_0_right msm_hw_fence_queue_payload.ext_inject)
qed

lemma payload_at_dwords: "payload_at (payload_dwords p) 0 = p"
proof -
  have w: "ucast (ucast (pl_type p) OR push_bit 16 (ucast (pl_version p)) :: u32) = pl_type p"
    "ucast (drop_bit 16 (ucast (pl_type p) OR push_bit 16 (ucast (pl_version p)) :: u32)) = pl_version p"
    by (fact type_of_word1, fact version_of_word1)
  show ?thesis
    unfolding payload_at_def payload_dwords_def using w
    by (simp add: nth_Cons' del: drop_bit_or)
qed

lemma payload_at_store_same:
  "payload_in_bounds mem i \<Longrightarrow> payload_at (store_dwords i (payload_dwords p) mem) i = p"
  using payload_at_nth [of "store_dwords i (payload_dwords p) mem" i "payload_dwords p"]
  by (simp add: payload_in_bounds_def nth_store_dwords payload_at_dwords)

lemma payload_at_store_butlast:
  assumes "payload_in_bounds mem i"
  shows "payload_at (store_dwords i (butlast (payload_dwords p)) mem) i = p\<lparr>pl_reserve := mem ! (i + 15)\<rparr>"
proof -
  have "payload_dwords (p\<lparr>pl_reserve := mem ! (i + 15)\<rparr>) = butlast (payload_dwords p) @ [mem ! (i + 15)]"
    by (simp add: payload_dwords_def)
  then have "store_dwords i (butlast (payload_dwords p)) mem ! (i + k) =
      payload_dwords (p\<lparr>pl_reserve := mem ! (i + 15)\<rparr>) ! k" if "k < 16" for k
    using assms that by (cases "k = 15") (auto simp: payload_in_bounds_def nth_store_dwords nth_append)
  then show ?thesis by (metis payload_at_dwords payload_at_nth)
qed

lemma payload_at_set_error:
  "payload_in_bounds mem i \<Longrightarrow> payload_at (mem[i + 12 := e]) i = (payload_at mem i)\<lparr>pl_error := e\<rparr>"
  by (simp add: payload_in_bounds_def payload_at_def)

lemma payload_at_set_error_other:
  "j + 16 \<le> i \<or> i + 16 \<le> j \<Longrightarrow> payload_at (mem[i + 12 := e]) j = payload_at mem j"
  by (rule payload_at_cong) (auto simp: nth_list_update)

section \<open>The ring of a queue\<close>

text \<open>
  The index a queue stores for slot \<open>s\<close>, and a queue of \<open>n\<close> entries that is read at slot \<open>r\<close>
  and written at slot \<open>w\<close>. A custom index unit must divide the payload, and the largest index
  must fit in 32 bits.
\<close>

definition dw :: "nat \<Rightarrow> u32" where
  "dw s = of_nat (16 * s)"

lemma unat_of_nat32 [simp]: "s < 2 ^ 32 \<Longrightarrow> unat (of_nat s :: u32) = s"
  by (simp add: unat_of_nat take_bit_nat_eq_self)

lemma unat_dw: "16 * s < 2 ^ 32 \<Longrightarrow> unat (dw s) = 16 * s"
  unfolding dw_def by (rule unat_of_nat32)

lemma dw_Suc: "dw s + PAYLOAD_SIZE_U32 = dw (Suc s)"
  by (simp add: dw_def)

lemma index_round_trip:
  assumes "unat f dvd unat d"
  shows "(d div f) * f = (d :: u32)"
proof -
  have "unat (d div f) * unat f = unat d" using assms by (simp add: unat_div)
  then show ?thesis using u32_less [of d] by (simp add: word_unat_eq_iff unat_word_ariths)
qed

definition slot_index :: "msm_hw_fence_queue \<Rightarrow> nat \<Rightarrow> u32" where
  "slot_index q s = (if REQUIRES_IDX_TRANSLATION q
     then IDX_TRANSLATE_DEFAULT_TO_CUSTOM q (dw s) else dw s)"

definition queue_at :: "msm_hw_fence_queue \<Rightarrow> nat \<Rightarrow> nat \<Rightarrow> nat \<Rightarrow> bool" where
  "queue_at q n r w \<longleftrightarrow> 0 < n \<and> unat (q_size_bytes q) = 64 * n \<and> length (va_queue q) = 16 * n \<and>
     (REQUIRES_IDX_TRANSLATION q \<longrightarrow> unat (rd_wr_idx_factor q) dvd 16 \<and>
        unat (rd_wr_idx_start q) + 16 * n < 2 ^ 32) \<and>
     r < n \<and> w < n \<and>
     (\<exists>hdr. va_header q = Some hdr \<and> hdr_read_index hdr = slot_index q r \<and> wr_ptr_read q hdr = slot_index q w)"

definition queue_contents :: "msm_hw_fence_queue \<Rightarrow> msm_hw_fence_queue_payload list" where
  "queue_contents q =
     (case va_header q of
        None \<Rightarrow> []
      | Some hdr \<Rightarrow>
          (case translate_queue_indexes_custom_to_default q (hdr_read_index hdr) (wr_ptr_read q hdr) of
             (read_idx, write_idx) \<Rightarrow> map (\<lambda>s. payload_at (va_queue q) (16 * s))
               (ring_slots (unat (q_size_bytes q) div 64) (unat read_idx div 16) (unat write_idx div 16))))"

definition queue_ok :: "msm_hw_fence_queue \<Rightarrow> bool" where
  "queue_ok q \<longleftrightarrow> (\<exists>n r w. queue_at q n r w)"

definition queue_capacity :: "msm_hw_fence_queue \<Rightarrow> nat" where
  "queue_capacity q = unat (q_size_bytes q) div 64 - 1"

lemma queue_at_bound: "queue_at q n r w \<Longrightarrow> 64 * n < 2 ^ 32"
  using u32_less [of "q_size_bytes q"] by (simp add: queue_at_def)

lemma translate_slot_index:
  assumes "queue_at q n r w" "s < n"
  shows "REQUIRES_IDX_TRANSLATION q \<Longrightarrow> IDX_TRANSLATE_CUSTOM_TO_DEFAULT q (slot_index q s) = dw s"
proof -
  assume t: "REQUIRES_IDX_TRANSLATION q"
  have "unat (dw s) = 16 * s" using queue_at_bound [OF assms(1)] assms(2) by (simp add: unat_dw)
  moreover have "unat (rd_wr_idx_factor q) dvd 16 * s" using assms(1) t by (simp add: queue_at_def dvd_mult2)
  ultimately have "(dw s div rd_wr_idx_factor q) * rd_wr_idx_factor q = dw s"
    by (simp add: index_round_trip)
  then show ?thesis
    using t by (simp add: slot_index_def IDX_TRANSLATE_DEFAULT_TO_CUSTOM_def IDX_TRANSLATE_CUSTOM_TO_DEFAULT_def)
qed

lemma dw_inj: "16 * s < 2 ^ 32 \<Longrightarrow> 16 * t < 2 ^ 32 \<Longrightarrow> dw s = dw t \<longleftrightarrow> s = t"
  by (metis mult_left_cancel unat_dw zero_neq_numeral)

lemma slot_index_inj:
  assumes "queue_at q n r w" "s < n" "t < n"
  shows "slot_index q s = slot_index q t \<longleftrightarrow> s = t"
proof -
  have "dw s = dw t" if "slot_index q s = slot_index q t"
  proof (cases "REQUIRES_IDX_TRANSLATION q")
    case True
    then show ?thesis
      using translate_slot_index [OF assms(1,2) True] translate_slot_index [OF assms(1,3) True] that by metis
  next
    case False
    then show ?thesis using that by (simp add: slot_index_def)
  qed
  moreover have "16 * s < 2 ^ 32" "16 * t < 2 ^ 32"
    using queue_at_bound [OF assms(1)] assms(2,3) by linarith+
  ultimately show ?thesis using dw_inj by blast
qed

lemma translate_queue_at:
  assumes "queue_at q n r w" "s < n" "t < n"
  shows "translate_queue_indexes_custom_to_default q (slot_index q s) (slot_index q t) =
    (dw s, dw t)"
  using translate_slot_index [OF assms(1,2)] translate_slot_index [OF assms(1,3)]
  by (simp add: translate_queue_indexes_custom_to_default_def slot_index_def)

lemma queue_contents_at:
  assumes "queue_at q n r w"
  shows "queue_contents q = map (\<lambda>s. payload_at (va_queue q) (16 * s)) (ring_slots n r w)"
proof -
  obtain hdr where hdr: "va_header q = Some hdr" "hdr_read_index hdr = slot_index q r"
    "wr_ptr_read q hdr = slot_index q w"
    using assms by (auto simp: queue_at_def)
  have "r < n" "w < n" "unat (q_size_bytes q) = 64 * n" using assms by (auto simp: queue_at_def)
  then show ?thesis
    using translate_queue_at [OF assms, of r w] hdr queue_at_bound [OF assms]
    by (simp add: queue_contents_def unat_dw)
qed

lemma queue_params_at:
  assumes "queue_at q n r w" "va_header q = Some hdr"
  shows "get_update_queue_params q = Inr (hdr, dw n, PAYLOAD_SIZE, PAYLOAD_SIZE_U32)"
proof -
  have "unat (q_size_bytes q div 4) = 16 * n"
    using assms by (simp add: queue_at_def unat_div)
  then have "q_size_bytes q div 4 = dw n"
    using queue_at_bound [OF assms(1)] by (simp add: word_unat_eq_iff unat_dw)
  then show ?thesis using assms(2) by (simp add: get_update_queue_params_def)
qed

lemma fits_at:
  assumes "r < n" "w < n" "64 * n < 2 ^ 32"
  shows "update_queue_fits (dw n) PAYLOAD_SIZE_U32 (dw r) (dw w) \<longleftrightarrow>
    ring_count n r w + 1 < n"
proof -
  let ?u = dw
  have u: "unat (?u x) = 16 * x" if "x \<le> n" for x
    using that assms(3) by (simp add: unat_dw)
  show ?thesis
  proof (cases "r \<le> w")
    case True
    have "unat (?u n - (?u w - ?u r)) = 16 * n - (16 * w - 16 * r)"
      using assms True by (subst unat_minus_eq; (subst unat_minus_eq)?) (simp_all add: u)
    then show ?thesis
      using True assms u [of r] u [of w]
      by (auto simp: update_queue_fits_def Let_def word_le_nat_alt ring_count_def)
  next
    case False
    have "unat (?u r - ?u w) = 16 * r - 16 * w"
      using assms False by (subst unat_minus_eq) (simp_all add: u)
    then show ?thesis
      using False assms u [of r] u [of w]
      by (auto simp: update_queue_fits_def Let_def word_le_nat_alt ring_count_def)
  qed
qed

lemma next_index_at:
  assumes "s < n" "64 * n < 2 ^ 32"
  shows "(if dw s + PAYLOAD_SIZE_U32 \<ge> (dw n :: u32) then 0
          else dw s + PAYLOAD_SIZE_U32) = (dw (ring_next n s) :: u32)"
proof -
  have "unat (dw (Suc s)) = 16 * Suc s" "unat (dw n) = 16 * n"
    using assms by (simp_all add: unat_dw)
  moreover have "dw 0 = 0" by (simp add: dw_def)
  ultimately show ?thesis
    unfolding dw_Suc ring_next_def using assms by (auto simp: word_le_nat_alt)
qed

section \<open>Pushing and popping a message\<close>

definition queue_push ::
    "nat \<Rightarrow> nat \<Rightarrow> msm_hw_fence_queue_payload \<Rightarrow> msm_hw_fence_hfi_queue_header \<Rightarrow> msm_hw_fence_queue \<Rightarrow> msm_hw_fence_queue" where
  "queue_push n w msg hdr q =
     q\<lparr>va_queue := store_dwords (16 * w) (butlast (payload_dwords msg)) (va_queue q),
       va_header := Some (wr_ptr_write q (slot_index q (ring_next n w)) hdr)\<rparr>"


lemma queue_atD:
  assumes "queue_at q n r w"
  shows "r < n" "w < n" "64 * n < 2 ^ 32" "length (va_queue q) = 16 * n" "queue_capacity q = n - 1"
  using assms queue_at_bound [OF assms] by (simp_all add: queue_at_def queue_capacity_def)

lemma queue_at_memory: "queue_at q n r w \<Longrightarrow> s < n \<Longrightarrow> payload_in_bounds (va_queue q) (16 * s)"
  by (simp add: queue_at_def payload_in_bounds_def)

lemma queue_fields_simps [simp]:
  "REQUIRES_IDX_TRANSLATION (q\<lparr>va_queue := m\<rparr>) = REQUIRES_IDX_TRANSLATION q"
  "REQUIRES_IDX_TRANSLATION (q\<lparr>va_header := h\<rparr>) = REQUIRES_IDX_TRANSLATION q"
  "IDX_TRANSLATE_DEFAULT_TO_CUSTOM (q\<lparr>va_queue := m\<rparr>) = IDX_TRANSLATE_DEFAULT_TO_CUSTOM q"
  "IDX_TRANSLATE_DEFAULT_TO_CUSTOM (q\<lparr>va_header := h\<rparr>) = IDX_TRANSLATE_DEFAULT_TO_CUSTOM q"
  "slot_index (q\<lparr>va_queue := m\<rparr>) = slot_index q"
  "slot_index (q\<lparr>va_header := h\<rparr>) = slot_index q"
  by (auto simp: REQUIRES_IDX_TRANSLATION_def IDX_TRANSLATE_DEFAULT_TO_CUSTOM_def slot_index_def fun_eq_iff)

lemma wr_ptr_simps [simp]:
  "wr_ptr_read (q\<lparr>va_queue := m\<rparr>) h = wr_ptr_read q h"
  "wr_ptr_read (q\<lparr>va_header := v\<rparr>) h = wr_ptr_read q h"
  "wr_ptr_read q (wr_ptr_write q i h) = i"
  "hdr_read_index (wr_ptr_write q i h) = hdr_read_index h"
  "wr_ptr_read q (h\<lparr>hdr_read_index := i\<rparr>) = wr_ptr_read q h"
  by (simp_all add: wr_ptr_read_def wr_ptr_write_def)

lemma queue_push_at:
  assumes "queue_at q n r w" "va_header q = Some hdr"
  shows "queue_at (queue_push n w msg hdr q) n r (ring_next n w)"
  using assms ring_next_less [of n w] by (auto simp: queue_at_def queue_push_def)


lemma queue_push_contents:
  assumes at: "queue_at q n r w" "va_header q = Some hdr" and room: "ring_count n r w + 1 < n"
  shows "queue_contents (queue_push n w msg hdr q) =
    queue_contents q @ [msg\<lparr>pl_reserve := va_queue q ! (16 * w + 15)\<rparr>]"
proof -
  have b: "r < n" "w < n" "length (va_queue q) = 16 * n" using at by (auto simp: queue_at_def)
  let ?mem = "store_dwords (16 * w) (butlast (payload_dwords msg)) (va_queue q)"
  have other: "payload_at ?mem (16 * s) = payload_at (va_queue q) (16 * s)" if "s \<in> set (ring_slots n r w)" for s
  proof -
    have "s \<noteq> w" using ring_slots_fresh [OF b(1,2)] that by blast
    then have "s < w \<or> w < s" by arith
    then show ?thesis using b by (intro payload_at_store_other) auto
  qed
  have "queue_contents (queue_push n w msg hdr q) = map (\<lambda>s. payload_at ?mem (16 * s)) (ring_slots n r w @ [w])"
    using queue_contents_at [OF queue_push_at [OF at]] ring_slots_snoc [OF b(1,2) room]
    by (simp add: queue_push_def)
  also have "\<dots> = queue_contents q @ [msg\<lparr>pl_reserve := va_queue q ! (16 * w + 15)\<rparr>]"
    using other payload_at_store_butlast [OF queue_at_memory [OF at(1) b(2)]] queue_contents_at [OF at(1)]
    by simp
  finally show ?thesis .
qed



lemma update_body_at:
  assumes "queue_at q n r w" "va_header q = Some hdr"
  shows "update_queue_body cp qt q hdr (dw n) PAYLOAD_SIZE_U32 ctxt seqno hash flags cd err st =
    (if ring_count n r w + 1 < n
     then (0, upd_client_queue cp qt (queue_push n w
             (update_queue_msg ctxt seqno hash flags cd err (qtime_src st (qtime_reads st)) 0) hdr q) (tick st))
     else (- EINVAL, st))"
proof -
  have b: "r < n" "w < n" and bn: "64 * n < 2 ^ 32"
    using queue_atD [OF assms(1)] by blast+
  have idx: "hdr_read_index hdr = slot_index q r" "wr_ptr_read q hdr = slot_index q w"
    using assms by (auto simp: queue_at_def)
  have mem: "payload_in_bounds (va_queue q) (unat (dw w))" and un: "unat (dw w) = 16 * w"
    using queue_at_memory [OF assms(1) b(2)] b bn by (auto simp: unat_dw)
  show ?thesis
    using mem
    by (simp add: update_queue_body_def idx translate_queue_at [OF assms(1) b] fits_at [OF b bn] un
        next_index_at [OF b(2) bn, unfolded dw_Suc] dw_Suc queue_push_def Let_def get_qtime_tick)
      (simp add: slot_index_def)
qed

section \<open>Queues of a client in the driver\<close>

definition client_queue :: "nat \<Rightarrow> nat \<Rightarrow> hw_fence_driver_data \<Rightarrow> msm_hw_fence_queue" where
  "client_queue cp qt st = cl_queues (the (client_store st cp)) ! qt"

definition rx_lock_free :: "msm_hw_fence_client \<Rightarrow> hw_fence_driver_data \<Rightarrow> bool" where
  "rx_lock_free c st \<longleftrightarrow> cl_client_id c - 1 < client_lock_tbl_cnt st \<and>
     unat (cl_client_id c - 1) < length (client_lock_tbl st) \<and>
     client_lock_tbl st ! unat (cl_client_id c - 1) = 0"

text \<open>
  A queue that the driver may write: the client exists and has the queue, the ring is in order
  and, for a receive queue, the lock of the client is free. A queue can also be read by the
  driver when its write index is kept in the write index field.
\<close>

definition queue_usable :: "nat \<Rightarrow> nat \<Rightarrow> hw_fence_driver_data \<Rightarrow> bool" where
  "queue_usable cp qt st \<longleftrightarrow> (\<exists>c. client_store st cp = Some c \<and>
     length (cl_queues c) = HW_FENCE_CLIENT_QUEUES \<and> qt < HW_FENCE_CLIENT_QUEUES \<and> qt < cl_queues_num c \<and>
     queue_ok (cl_queues c ! qt) \<and> (lock_client_queue qt \<longrightarrow> rx_lock_free c st))"

definition queue_ready :: "nat \<Rightarrow> nat \<Rightarrow> hw_fence_driver_data \<Rightarrow> bool" where
  "queue_ready cp qt st \<longleftrightarrow> queue_usable cp qt st \<and> \<not> skip_wr_idx (client_queue cp qt st)"

definition client_queue_contents :: "nat \<Rightarrow> nat \<Rightarrow> hw_fence_driver_data \<Rightarrow> msm_hw_fence_queue_payload list" where
  "client_queue_contents cp qt st = queue_contents (client_queue cp qt st)"

definition client_queue_capacity :: "nat \<Rightarrow> nat \<Rightarrow> hw_fence_driver_data \<Rightarrow> nat" where
  "client_queue_capacity cp qt st = queue_capacity (client_queue cp qt st)"

lemma queue_body_lock:
  "update_queue_body cp qt q hdr s p ctxt seqno hash flags cd err (st\<lparr>client_lock_tbl := l\<rparr>) =
   apsnd (\<lambda>st. st\<lparr>client_lock_tbl := l\<rparr>) (update_queue_body cp qt q hdr s p ctxt seqno hash flags cd err st)"
  by (simp add: update_queue_body_def Let_def hw_fence_get_qtime_def upd_client_queue_def split: option.split prod.split)

lemma queue_body_lock_tbl:
  "update_queue_body cp qt q hdr s p ctxt seqno hash flags cd err st = (r, st') \<Longrightarrow>
   client_lock_tbl st' = client_lock_tbl st"
  by (auto simp: update_queue_body_def Let_def hw_fence_get_qtime_def upd_client_queue_def
      split: option.splits prod.splits if_splits)

lemma client_lock_True:
  "i < length (client_lock_tbl st) \<Longrightarrow> client_lock_tbl st ! i = 0 \<Longrightarrow>
   global_atomic_store (Client_Lock i) True st = st\<lparr>client_lock_tbl := (client_lock_tbl st)[i := 1]\<rparr>"
  by (simp add: global_atomic_store_def lock_acquire_def)

lemma client_lock_False:
  "i < length (client_lock_tbl st) \<Longrightarrow> client_lock_tbl st ! i = 1 \<Longrightarrow>
   global_atomic_store (Client_Lock i) False st = st\<lparr>client_lock_tbl := (client_lock_tbl st)[i := 0]\<rparr>"
  by (simp add: global_atomic_store_def lock_release_def Let_def)

lemma update_queue_no_lock:
  assumes c: "client_store st cp = Some c" and len: "length (cl_queues c) = HW_FENCE_CLIENT_QUEUES"
    and qt: "qt < HW_FENCE_CLIENT_QUEUES" "qt < cl_queues_num c"
    and lock: "lock_client_queue qt \<longrightarrow> rx_lock_free c st"
    and params: "get_update_queue_params (cl_queues c ! qt) = Inr (hdr, s, sz, p)"
  shows "hw_fence_update_queue cp ctxt seqno hash flags cd err qt st =
    update_queue_body cp qt (cl_queues c ! qt) hdr s p ctxt seqno hash flags cd err st"
proof (cases "lock_client_queue qt")
  case False
  then show ?thesis using assms by (simp add: hw_fence_update_queue_def Let_def)
next
  case True
  let ?i = "unat (cl_client_id c - 1)"
  let ?body = "update_queue_body cp qt (cl_queues c ! qt) hdr s p ctxt seqno hash flags cd err"
  have l: "\<not> cl_client_id c - 1 \<ge> client_lock_tbl_cnt st" "?i < length (client_lock_tbl st)"
    "client_lock_tbl st ! ?i = 0"
    using lock True by (auto simp: rx_lock_free_def not_le)
  obtain r st' where body: "?body st = (r, st')" by force
  then have tbl: "client_lock_tbl st' = client_lock_tbl st" by (rule queue_body_lock_tbl)
  have "(client_lock_tbl st)[?i := 0] = client_lock_tbl st" using l by (simp add: list_update_same)
  then have "(client_lock_tbl st)[?i := 1, ?i := 0] = client_lock_tbl st'" by (simp add: tbl)
  then have "st'\<lparr>client_lock_tbl := (client_lock_tbl st)[?i := 1, ?i := 0]\<rparr> = st'" by simp
  then show ?thesis
    using assms True l body
    by (simp add: hw_fence_update_queue_def Let_def client_lock_True client_lock_False queue_body_lock)
qed

lemma queue_usableE:
  assumes "queue_usable cp qt st"
  obtains c n r w hdr where "client_store st cp = Some c" "length (cl_queues c) = HW_FENCE_CLIENT_QUEUES"
    "qt < HW_FENCE_CLIENT_QUEUES" "qt < cl_queues_num c" "lock_client_queue qt \<longrightarrow> rx_lock_free c st"
    "queue_at (cl_queues c ! qt) n r w" "va_header (cl_queues c ! qt) = Some hdr"
    "client_queue cp qt st = cl_queues c ! qt"
proof -
  obtain c where c: "client_store st cp = Some c" "length (cl_queues c) = HW_FENCE_CLIENT_QUEUES"
    "qt < HW_FENCE_CLIENT_QUEUES" "qt < cl_queues_num c" "lock_client_queue qt \<longrightarrow> rx_lock_free c st"
    "queue_ok (cl_queues c ! qt)"
    using assms unfolding queue_usable_def by blast
  then obtain n r w where at: "queue_at (cl_queues c ! qt) n r w" by (auto simp: queue_ok_def)
  then obtain hdr where "va_header (cl_queues c ! qt) = Some hdr" by (auto simp: queue_at_def)
  then show thesis using c at that by (simp add: client_queue_def)
qed

lemma upd_client_queue_Some:
  "client_store st cp = Some c \<Longrightarrow>
   upd_client_queue cp qt q st = st\<lparr>client_store := (client_store st)(cp \<mapsto> c\<lparr>cl_queues := (cl_queues c)[qt := q]\<rparr>)\<rparr>"
  by (simp add: upd_client_queue_def)

lemma client_queue_upd:
  "client_store st cp = Some c \<Longrightarrow> qt < length (cl_queues c) \<Longrightarrow> client_queue cp qt (upd_client_queue cp qt q st) = q"
  by (simp add: upd_client_queue_Some client_queue_def)

lemma queue_usable_upd:
  assumes "queue_usable cp qt st" "queue_ok q"
  shows "queue_usable cp qt (upd_client_queue cp qt q st)"
proof -
  obtain c where "client_store st cp = Some c" "length (cl_queues c) = HW_FENCE_CLIENT_QUEUES"
    "qt < HW_FENCE_CLIENT_QUEUES" "qt < cl_queues_num c" "lock_client_queue qt \<longrightarrow> rx_lock_free c st"
    using assms(1) unfolding queue_usable_def by blast
  then show ?thesis
    using assms(2) by (simp add: queue_usable_def upd_client_queue_Some rx_lock_free_def)
qed

lemma queue_usable_tick [simp]: "queue_usable cp qt (tick st) = queue_usable cp qt st"
  by (simp add: queue_usable_def rx_lock_free_def)

lemma client_queue_tick [simp]: "client_queue cp qt (tick st) = client_queue cp qt st"
  by (simp add: client_queue_def)

lemma update_queue_usable:
  assumes "queue_usable cp qt st"
  shows "if length (client_queue_contents cp qt st) < client_queue_capacity cp qt st
    then \<exists>q res. hw_fence_update_queue cp ctxt seqno hash flags cd err qt st =
             (0, upd_client_queue cp qt q (tick st)) \<and>
         queue_ok q \<and> skip_wr_idx q = skip_wr_idx (client_queue cp qt st) \<and>
         queue_capacity q = client_queue_capacity cp qt st \<and>
         queue_contents q = client_queue_contents cp qt st @
           [update_queue_msg ctxt seqno hash flags cd err (qtime_src st (qtime_reads st)) res]
    else hw_fence_update_queue cp ctxt seqno hash flags cd err qt st = (- EINVAL, st)"
  using assms
proof (rule queue_usableE)
  fix c n r w hdr
  assume c: "client_store st cp = Some c" "length (cl_queues c) = HW_FENCE_CLIENT_QUEUES"
    "qt < HW_FENCE_CLIENT_QUEUES" "qt < cl_queues_num c" "lock_client_queue qt \<longrightarrow> rx_lock_free c st"
    and at: "queue_at (cl_queues c ! qt) n r w" "va_header (cl_queues c ! qt) = Some hdr"
    and q: "client_queue cp qt st = cl_queues c ! qt"
  let ?q = "cl_queues c ! qt"
  let ?msg = "update_queue_msg ctxt seqno hash flags cd err (qtime_src st (qtime_reads st))"
  note upd = update_queue_no_lock [OF c queue_params_at [OF at], of ctxt seqno hash flags cd err]
    update_body_at [OF at, of cp qt ctxt seqno hash flags cd err st]
  have len: "length (queue_contents ?q) = ring_count n r w" "queue_capacity ?q = n - 1" "r < n"
    using queue_contents_at [OF at(1)] queue_atD [OF at(1)] by simp_all
  show ?thesis
  proof (cases "ring_count n r w + 1 < n")
    case True
    let ?q' = "queue_push n w (?msg 0) hdr ?q"
    have "queue_ok ?q'" "skip_wr_idx ?q' = skip_wr_idx ?q" "queue_capacity ?q' = queue_capacity ?q"
      using queue_push_at [OF at] by (auto simp: queue_ok_def queue_push_def queue_capacity_def)
    moreover have "queue_contents ?q' = queue_contents ?q @ [?msg (va_queue ?q ! (16 * w + 15))]"
      using queue_push_contents [OF at True] by (simp add: update_queue_msg_def)
    ultimately show ?thesis
      using upd True len by (auto simp: q client_queue_contents_def client_queue_capacity_def)
  next
    case False
    then show ?thesis
      using upd len by (auto simp: q client_queue_contents_def client_queue_capacity_def)
  qed
qed


section \<open>The queue as a bounded FIFO\<close>

type_synonym queue_args = "u64 \<times> u64 \<times> u64 \<times> u64 \<times> u64 \<times> u32"


definition payload_args :: "msm_hw_fence_queue_payload \<Rightarrow> queue_args" where
  "payload_args p = (pl_ctxt_id p, pl_seqno p, pl_hash p, pl_flags p, pl_client_data p, pl_error p)"





section \<open>Rewriting the oldest entries\<close>

lemma queue_mem_at:
  "queue_at q n r w \<Longrightarrow> length m = length (va_queue q) \<Longrightarrow> queue_at (q\<lparr>va_queue := m\<rparr>) n r w"
  by (auto simp: queue_at_def)

lemma queue_mem_contents:
  "queue_at q n r w \<Longrightarrow> length m = length (va_queue q) \<Longrightarrow>
   queue_contents (q\<lparr>va_queue := m\<rparr>) = map (\<lambda>s. payload_at m (16 * s)) (ring_slots n r w)"
  using queue_contents_at [OF queue_mem_at] by simp

lemma slots_apart: "s \<noteq> t \<Longrightarrow> 16 * s + 16 \<le> 16 * t \<or> 16 * t + 16 \<le> 16 * (s :: nat)"
  by (cases "s < t") auto

lemma queue_mem_ok: "queue_at q n r w \<Longrightarrow> length m = length (va_queue q) \<Longrightarrow> queue_ok (q\<lparr>va_queue := m\<rparr>)"
  using queue_mem_at [of q n r w m] unfolding queue_ok_def by blast

text \<open>What an update of the error of the oldest entry does, and the swap of the two oldest.\<close>

lemma set_error_contents:
  assumes at: "queue_at q n r w" and ne: "r \<noteq> w"
  shows "queue_contents (q\<lparr>va_queue := (va_queue q)[16 * r + 12 := err]\<rparr>) =
    (hd (queue_contents q))\<lparr>pl_error := err\<rparr> # tl (queue_contents q)"
proof -
  have b: "r < n" "w < n" using queue_atD [OF at] by blast+
  note slots = ring_slots_Cons [OF b ne]
  let ?m = "(va_queue q)[16 * r + 12 := err]"
  have "payload_at ?m (16 * s) = payload_at (va_queue q) (16 * s)" if "s \<in> set (ring_slots n (ring_next n r) w)" for s
    using that ring_slots_distinct [OF b] slots slots_apart [of s r] by (intro payload_at_set_error_other) auto
  then show ?thesis
    using queue_mem_contents [OF at, of ?m] queue_contents_at [OF at] slots
      payload_at_set_error [OF queue_at_memory [OF at b(1)]] by simp
qed

lemma swap_contents:
  fixes err :: u32
  assumes at: "queue_at q n r w" and ne: "r \<noteq> w" "ring_next n r \<noteq> w"
  defines "p1 \<equiv> payload_at (va_queue q) (16 * r)" and "p2 \<equiv> payload_at (va_queue q) (16 * ring_next n r)"
  defines "m \<equiv> store_dwords (16 * ring_next n r) (payload_dwords p1)
      (store_dwords (16 * r) (payload_dwords (p2\<lparr>pl_error := err\<rparr>)) (va_queue q))"
  shows "queue_contents (q\<lparr>va_queue := m\<rparr>) = p2\<lparr>pl_error := err\<rparr> # p1 # tl (tl (queue_contents q))"
proof -
  have b: "r < n" "w < n" "length (va_queue q) = 16 * n" using queue_atD [OF at] by blast+
  have nx: "ring_next n r < n" using ring_next_less b by simp
  note slots = ring_slots_Cons [OF b(1,2) ne(1)] ring_slots_Cons [OF nx b(2) ne(2)]
  note d = ring_slots_distinct [OF b(1,2), unfolded slots]
  have rn: "r \<noteq> ring_next n r" using d by auto
  have bound: "16 * r + 16 \<le> 16 * n" "16 * ring_next n r + 16 \<le> 16 * n" using b nx by auto
  have "payload_at m (16 * s) = payload_at (va_queue q) (16 * s)"
    if "s \<in> set (ring_slots n (ring_next n (ring_next n r)) w)" for s
  proof -
    have "s \<noteq> r" "s \<noteq> ring_next n r" using that d by auto
    then show ?thesis
      using slots_apart [of s r] slots_apart [of s "ring_next n r"] b bound
      by (simp add: m_def payload_at_store_other)
  qed
  moreover have "payload_at m (16 * r) = p2\<lparr>pl_error := err\<rparr>"
    using slots_apart [OF rn] b bound
    by (simp add: m_def payload_at_store_other payload_at_store_same payload_in_bounds_def)
  moreover have "payload_at m (16 * ring_next n r) = p1"
    using b bound by (simp add: m_def payload_at_store_same payload_in_bounds_def)
  ultimately show ?thesis
    using queue_mem_contents [OF at, of m] queue_contents_at [OF at] slots by (simp add: m_def)
qed

lemma update_existing_at:
  assumes "client_store st cp = Some c" "length (cl_queues c) = HW_FENCE_CLIENT_QUEUES"
    and at: "queue_at (cl_queues c ! 0) n r w" and hdr: "va_header (cl_queues c ! 0) = Some hdr"
  defines "q \<equiv> cl_queues c ! 0"
  defines "p1 \<equiv> payload_at (va_queue q) (16 * r)" and "p2 \<equiv> payload_at (va_queue q) (16 * ring_next n r)"
  shows "hw_fence_update_existing_txq_payload cp hash err st =
      (if r = w then (- EINVAL, st)
       else if pl_hash p1 = hash then (0, upd_client_queue cp 0 (q\<lparr>va_queue := (va_queue q)[16 * r + 12 := err]\<rparr>) st)
       else if ring_next n r = w then (- EINVAL, st)
       else if pl_hash p2 \<noteq> hash then (- EINVAL, st)
       else (0, upd_client_queue cp 0 (q\<lparr>va_queue := store_dwords (16 * ring_next n r) (payload_dwords p1)
          (store_dwords (16 * r) (payload_dwords (p2\<lparr>pl_error := err\<rparr>)) (va_queue q))\<rparr>) st))"
proof -
  note at' = at [folded q_def] and hdr' = hdr [folded q_def]
  have b: "r < n" "w < n" and bn: "64 * n < 2 ^ 32" using queue_atD [OF at] by blast+
  have idx: "hdr_read_index hdr = slot_index q r" "wr_ptr_read q hdr = slot_index q w"
    using at' hdr' by (auto simp: queue_at_def)
  have nx: "ring_next n r < n" using ring_next_less b by simp
  have u: "unat (dw r) = 16 * r" "unat (dw (ring_next n r)) = 16 * ring_next n r"
    using b nx bn by (auto simp: unat_dw)
  have eqs: "dw r = dw w \<longleftrightarrow> r = w" "dw (ring_next n r) = dw w \<longleftrightarrow> ring_next n r = w"
    using b nx bn by (auto intro!: dw_inj)
  have "payload_in_bounds (va_queue q) (16 * r)" "payload_in_bounds (va_queue q) (16 * ring_next n r)"
    using queue_at_memory [OF at'] b nx by auto
  moreover have "cl_queues c ! (HW_FENCE_TX_QUEUE - 1) = q" by (simp add: q_def)
  ultimately show ?thesis
    unfolding p1_def p2_def using assms(1,2)
    by (simp add: hw_fence_update_existing_txq_payload_def queue_params_at [OF at' hdr'] idx
        translate_queue_at [OF at' b] eqs u next_index_at [OF b(1) bn, unfolded dw_Suc] dw_Suc Let_def
        del: diff_self_eq_0)
qed

lemma update_existing_txq:
  assumes "queue_usable cp 0 st"
  shows "case client_queue_contents cp 0 st of
      [] \<Rightarrow> hw_fence_update_existing_txq_payload cp hash err st = (- EINVAL, st)
    | p # ps \<Rightarrow>
        if pl_hash p = hash then
          \<exists>q. hw_fence_update_existing_txq_payload cp hash err st = (0, upd_client_queue cp 0 q st) \<and>
            queue_ok q \<and> queue_contents q = p\<lparr>pl_error := err\<rparr> # ps
        else case ps of
            [] \<Rightarrow> hw_fence_update_existing_txq_payload cp hash err st = (- EINVAL, st)
          | p2 # ps2 \<Rightarrow>
              if pl_hash p2 = hash then
                \<exists>q. hw_fence_update_existing_txq_payload cp hash err st = (0, upd_client_queue cp 0 q st) \<and>
                  queue_ok q \<and> queue_contents q = p2\<lparr>pl_error := err\<rparr> # p # ps2
              else hw_fence_update_existing_txq_payload cp hash err st = (- EINVAL, st)"
  using assms
proof (rule queue_usableE)
  fix c n r w hdr
  assume c: "client_store st cp = Some c" "length (cl_queues c) = HW_FENCE_CLIENT_QUEUES"
    and at: "queue_at (cl_queues c ! 0) n r w" and hdr: "va_header (cl_queues c ! 0) = Some hdr"
    and q: "client_queue cp 0 st = cl_queues c ! 0"
  let ?q = "cl_queues c ! 0"
  have b: "r < n" "w < n" "ring_next n r < n" using queue_atD [OF at] ring_next_less [of n r] by auto
  note code = update_existing_at [OF c at hdr, of hash err]
  have cont: "client_queue_contents cp 0 st = map (\<lambda>s. payload_at (va_queue ?q) (16 * s)) (ring_slots n r w)"
    using queue_contents_at [OF at] by (simp add: client_queue_contents_def q)
  note ok = queue_mem_ok [OF at]
  consider "r = w" | "r \<noteq> w" "ring_next n r = w" | "r \<noteq> w" "ring_next n r \<noteq> w" by blast
  then show ?thesis
  proof cases
    case 1
    then show ?thesis using code cont by simp
  next
    case 2
    then show ?thesis
      using code cont ring_slots_Cons [OF b(1,2)] set_error_contents [OF at] queue_contents_at [OF at] ok
      by auto
  next
    case 3
    then show ?thesis
      using code cont ring_slots_Cons [OF b(1,2)] ring_slots_Cons [OF b(3,2)] set_error_contents [OF at]
        swap_contents [OF at 3] queue_contents_at [OF at] ok
      by auto
  qed
qed

section \<open>Properties of the queues\<close>





definition blank_queue :: "nat \<Rightarrow> u32 \<Rightarrow> u32 \<Rightarrow> msm_hw_fence_queue" where
  "blank_queue n start factor =
     \<lparr>va_queue = replicate (16 * n) 0, q_size_bytes = of_nat (64 * n),
      va_header = Some \<lparr>hdr_read_index = start, hdr_write_index = start, hdr_tx_wm = 0\<rparr>,
      rd_wr_idx_start = start, rd_wr_idx_factor = factor, skip_wr_idx = False\<rparr>"

definition queue_driver :: "nat \<Rightarrow> u32 \<Rightarrow> u32 \<Rightarrow> hw_fence_driver_data" where
  "queue_driver n start factor = (blank_driver 4 2)\<lparr>clients := [None, Some 7], client_store := [7 \<mapsto>
     (blank_client 1)\<lparr>cl_queues := [blank_queue n start factor, blank_queue n 0 1], cl_queues_num := 2,
        cl_update_rxq := True, cl_send_ipc := True\<rparr>]\<rparr>"

lemma queue_ok_blank:
  "0 < n \<Longrightarrow> 64 * n < 2 ^ 32 \<Longrightarrow> factor = 1 \<Longrightarrow> start = 0 \<Longrightarrow> queue_at (blank_queue n start factor) n 0 0"
  by (simp add: queue_at_def blank_queue_def slot_index_def REQUIRES_IDX_TRANSLATION_def dw_def wr_ptr_read_def
      unat_of_nat32 [of "64 * n"] del: of_nat_mult)

lemma queue_driver_ready:
  "qt < 2 \<Longrightarrow> queue_ready 7 qt (queue_driver 4 0 1)" "qt < 2 \<Longrightarrow> client_queue_contents 7 qt (queue_driver 4 0 1) = []"
  "qt < 2 \<Longrightarrow> client_queue_capacity 7 qt (queue_driver 4 0 1) = 3"
proof -
  assume qt: "qt < 2"
  then have q: "client_queue 7 qt (queue_driver 4 0 1) = blank_queue 4 0 1"
    by (auto simp: client_queue_def queue_driver_def less_2_cases_iff)
  have at: "queue_at (blank_queue 4 0 1) 4 0 0" by (rule queue_ok_blank) simp_all
  then have "queue_ok (blank_queue 4 0 1)" by (auto simp: queue_ok_def)
  then have "queue_usable 7 qt (queue_driver 4 0 1)"
    using qt by (auto simp: queue_usable_def queue_driver_def less_2_cases_iff rx_lock_free_def blank_client_def
        blank_driver_def)
  then show "queue_ready 7 qt (queue_driver 4 0 1)"
    by (simp add: queue_ready_def q) (simp add: blank_queue_def)
  show "client_queue_contents 7 qt (queue_driver 4 0 1) = []" "client_queue_capacity 7 qt (queue_driver 4 0 1) = 3"
    using queue_contents_at [OF at] queue_atD(5) [OF at]
    by (simp_all add: client_queue_contents_def client_queue_capacity_def q)
qed



text \<open>
  C5: a write to a queue succeeds exactly when one entry stays free after it (a ring of
  \<open>n\<close> entries holds at most \<open>n - 1\<close> messages); then the message with the current timer value is
  appended. A full queue is refused with EINVAL and the driver is left as it was, with every
  lock free again. In no case is memory outside the queue accessed.
\<close>

theorem fence_queue_write_outcome:
  assumes "queue_usable cp qt st"
  shows "case hw_fence_update_queue cp ctxt seqno hash flags cd err qt st of (ret, st') \<Rightarrow>
    (if length (client_queue_contents cp qt st) + 1 < unat (q_size_bytes (client_queue cp qt st)) div 64
     then ret = 0 \<and> queue_usable cp qt st' \<and> (\<exists>res. client_queue_contents cp qt st' = client_queue_contents cp qt st @
            [update_queue_msg ctxt seqno hash flags cd err (qtime_src st (qtime_reads st)) res])
     else ret = - EINVAL \<and> st' = st) \<and> ub st' = ub st"
proof -
  obtain c where c: "client_store (tick st) cp = Some c" "qt < length (cl_queues c)"
    using assms by (auto simp: queue_usable_def)
  have room: "length (client_queue_contents cp qt st) + 1 < unat (q_size_bytes (client_queue cp qt st)) div 64 \<longleftrightarrow>
      length (client_queue_contents cp qt st) < client_queue_capacity cp qt st"
    by (auto simp: client_queue_capacity_def queue_capacity_def)
  note outcome = update_queue_usable [OF assms, of ctxt seqno hash flags cd err]
  show ?thesis
  proof (cases "length (client_queue_contents cp qt st) < client_queue_capacity cp qt st")
    case True
    then obtain q res where q: "hw_fence_update_queue cp ctxt seqno hash flags cd err qt st =
        (0, upd_client_queue cp qt q (tick st))" "queue_ok q"
      "queue_contents q = client_queue_contents cp qt st @
         [update_queue_msg ctxt seqno hash flags cd err (qtime_src st (qtime_reads st)) res]"
      using outcome by auto
    have "queue_usable cp qt (upd_client_queue cp qt q (tick st))"
      using queue_usable_upd [of cp qt "tick st"] assms q(2) by simp
    moreover have "ub (upd_client_queue cp qt q (tick st)) = ub st"
      using c by (simp add: upd_client_queue_Some)
    moreover have "client_queue_contents cp qt (upd_client_queue cp qt q (tick st)) = client_queue_contents cp qt st @
         [update_queue_msg ctxt seqno hash flags cd err (qtime_src st (qtime_reads st)) res]"
      using client_queue_upd [OF c] q(3) by (simp add: client_queue_contents_def)
    ultimately show ?thesis using q(1) True room by (simp only: prod.case if_True) blast
  next
    case False
    then show ?thesis using outcome room by simp
  qed
qed

theorem fence_queue_write_outcome_witness:
  "case hw_fence_update_queue 7 1 2 3 4 5 6 1 (queue_driver 4 0 1) of (ret, st') \<Rightarrow> ret = 0 \<and>
     (\<exists>res. client_queue_contents 7 1 st' = [update_queue_msg 1 2 3 4 5 6 0 res]) \<and> \<not> ub st'"
proof -
  have "queue_usable 7 1 (queue_driver 4 0 1)" using queue_driver_ready(1) [of 1] by (simp add: queue_ready_def)
  note fence_queue_write_outcome [OF this, of 1 2 3 4 5 6]
  moreover have "q_size_bytes (client_queue 7 1 (queue_driver 4 0 1)) = 256"
    by (simp add: client_queue_def queue_driver_def blank_queue_def)
  moreover have "qtime_src (queue_driver 4 0 1) k = 0" "ub (queue_driver 4 0 1) = False" for k
    by (simp_all add: queue_driver_def blank_driver_def)
  ultimately show ?thesis by (auto simp: queue_driver_ready(2) simp del: One_nat_def)
qed

definition read_status_run :: "u32 \<Rightarrow> int \<times> int \<times> int \<times> bool" where
  "read_status_run factor =
     (let (ret, st1) = hw_fence_update_queue 7 1 2 3 4 5 6 0 (queue_driver 4 0 factor);
          (ret1, p1, st2) = hw_fence_read_queue 7 0 st1;
          (ret2, p2, st3) = hw_fence_read_queue 7 0 st2
      in (ret, ret1, ret2, map_option payload_args p1 = Some (1, 2, 3, 4, 5, 6) \<and> p2 = None \<and> \<not> ub st3))"

text \<open>
  The status of a read is wrong under index translation. The code compares the new read
  index in the units of the client with the write index in dwords: after the only message of a
  queue that counts in units of two dwords was read, the status is 1 (the queue still has
  contents), though the next read finds the queue empty. The same run on a queue with the
  default units has status 0.
\<close>

theorem fence_queue_read_status_translated:
  "read_status_run 2 = (0, 1, - EINVAL, True) \<and> read_status_run 1 = (0, 0, - EINVAL, True)"
  by code_simp

text \<open>
  C6: an error for a fence that is still queued for transmission is written into the oldest
  entry when it has the hash of the fence; the second oldest entry is moved to the front with
  the error; all other entries stay in place. Any other hash is refused and nothing changes.
\<close>

theorem fence_txq_error_update:
  assumes "queue_usable cp 0 st"
  shows "case hw_fence_update_existing_txq_payload cp hash err st of (ret, st') \<Rightarrow>
    (case client_queue_contents cp 0 st of
       p # ps \<Rightarrow>
         if pl_hash p = hash then ret = 0 \<and> client_queue_contents cp 0 st' = p\<lparr>pl_error := err\<rparr> # ps
         else (case ps of
             p2 # ps2 \<Rightarrow>
               if pl_hash p2 = hash then ret = 0 \<and> client_queue_contents cp 0 st' = p2\<lparr>pl_error := err\<rparr> # p # ps2
               else ret = - EINVAL \<and> st' = st
           | [] \<Rightarrow> ret = - EINVAL \<and> st' = st)
     | [] \<Rightarrow> ret = - EINVAL \<and> st' = st) \<and> ub st' = ub st"
proof -
  obtain c where c: "client_store st cp = Some c" "0 < length (cl_queues c)"
    using assms unfolding queue_usable_def by (metis zero_less_numeral)
  then have "ub (upd_client_queue cp 0 q st) = ub st" for q by (simp add: upd_client_queue_Some)
  then show ?thesis
    using update_existing_txq [OF assms, of hash err] client_queue_upd [OF c]
    by (auto simp: client_queue_contents_def split: list.splits if_splits)
qed

theorem fence_txq_error_update_witness:
  "hw_fence_update_existing_txq_payload 7 3 9 (queue_driver 4 0 1) = (- EINVAL, queue_driver 4 0 1)"
proof -
  have "queue_usable 7 0 (queue_driver 4 0 1)" using queue_driver_ready(1) [of 0] by (simp add: queue_ready_def)
  from fence_txq_error_update [OF this, of 3 9] show ?thesis
    by (auto simp: queue_driver_ready(2))
qed

end
