(* ===== verification/Fence_Signal.thy ===== *)
theory Fence_Signal
  imports Fence_Table Fence_Queue
begin

text \<open>
  Waiting and signalling in the hw-fence driver (hw\_fence\_drv\_priv.c, hw\_fence\_drv\_utils.c):
  registration of waiting clients, join fences over fence arrays, the signal of a client through
  its receive queue, IPCC or error callback, the reset of a client, and the error messages of
  the fence controller that arrive in the control queue.
\<close>

section \<open>Signalling a client\<close>

definition upd_client :: "nat \<Rightarrow> (msm_hw_fence_client \<Rightarrow> msm_hw_fence_client) \<Rightarrow> hw_fence_driver_data \<Rightarrow> hw_fence_driver_data" where
  "upd_client cp g st =
     (case client_store st cp of
        None \<Rightarrow> st\<lparr>ub := True\<rparr>
      | Some c \<Rightarrow> st\<lparr>client_store := (client_store st)(cp \<mapsto> g c)\<rparr>)"

text \<open>
  The mutex of the error callback: \<^verbatim>\<open>mutex_lock\<close> waits when it is held, here the flag
  \<open>blocked\<close>. The callback runs between lock and unlock.
\<close>

definition hw_fence_utils_fence_error_cb :: "nat option \<Rightarrow> u64 \<Rightarrow> u64 \<Rightarrow> u64 \<Rightarrow> u64 \<Rightarrow> u32 \<Rightarrow>
    hw_fence_driver_data \<Rightarrow> int \<times> hw_fence_driver_data" where
  "hw_fence_utils_fence_error_cb hw_fence_client ctxt_id seqno hash flags error st =
     (case hw_fence_client of
        None \<Rightarrow> (- EINVAL, st)
      | Some cp \<Rightarrow>
          (case client_store st cp of
             None \<Rightarrow> (0, st\<lparr>ub := True\<rparr>)
           | Some c \<Rightarrow>
               if cl_error_cb_lock c then (0, st\<lparr>blocked := True\<rparr>)
               else
                 let st1 = upd_client cp (\<lambda>c. c\<lparr>cl_error_cb_lock := True\<rparr>) st;
                     (ret, st2) =
                       (if error = 0 then (- EINVAL, st1)
                        else case cl_fence_error_cb c of
                            None \<Rightarrow> (- EINVAL, st1)
                          | Some cb \<Rightarrow> (0, st1\<lparr>events_out := events_out st1 @
                               [Error_Callback cb hash error ctxt_id seqno flags (cl_fence_error_cb_userdata c)]\<rparr>))
                 in (ret, upd_client cp (\<lambda>c. c\<lparr>cl_error_cb_lock := False\<rparr>) st2)))"

definition fence_ctl_signal :: "nat \<Rightarrow> nat \<Rightarrow> u64 \<Rightarrow> u64 \<Rightarrow> u64 \<Rightarrow> u32 \<Rightarrow>
    hw_fence_driver_data \<Rightarrow> hw_fence_driver_data" where
  "fence_ctl_signal cp i hash flags client_data error st =
     (case client_store st cp of
        None \<Rightarrow> st\<lparr>ub := True\<rparr>
      | Some c \<Rightarrow>
          (let tx_client_id = ipcc_client_pid st;
               rx_client_id = cl_ipc_client_vid c;
               f = hw_fences_tbl st ! i
           in if error \<noteq> 0 \<and> cl_fence_error_cb c \<noteq> None then
                snd (hw_fence_utils_fence_error_cb (Some cp) (hf_ctx_id f) (hf_seq_id f) hash flags error st)
              else
                let st1 = (if cl_update_rxq c
                      then snd (hw_fence_update_queue cp (hf_ctx_id f) (hf_seq_id f) hash flags client_data error
                             (HW_FENCE_RX_QUEUE - 1) st)
                      else st)
                in if cl_send_ipc c
                   then hw_fence_ipcc_trigger_signal tx_client_id rx_client_id (cl_ipc_signal_id c) st1
                   else st1))"

text \<open>The index of the client data of a client, \<open>HW_FENCE_MAX_CLIENTS_WITH_DATA\<close> when it has none.\<close>

definition hw_fence_get_client_data_id :: "hw_fence_abi \<Rightarrow> u32 \<Rightarrow> nat" where
  "hw_fence_get_client_data_id abi client_id =
     (if client_id = id_CTX0 abi then 0
      else if client_id = id_VAL0 abi then 3
      else if client_id = id_VAL1 abi then 4
      else if client_id = id_IPE abi then 1
      else if client_id = id_VPU abi then 2
      else HW_FENCE_MAX_CLIENTS_WITH_DATA)"

section \<open>Waiting for a single fence\<close>

definition set_dma_flag :: "nat \<Rightarrow> nat \<Rightarrow> hw_fence_driver_data \<Rightarrow> hw_fence_driver_data" where
  "set_dma_flag b fp st =
     (case dma_fences st fp of
        None \<Rightarrow> st\<lparr>ub := True\<rparr>
      | Some f \<Rightarrow> st\<lparr>dma_fences := (dma_fences st)(fp \<mapsto> f\<lparr>df_flags := df_flags f OR BIT b\<rparr>)\<rparr>)"

definition clear_dma_flag :: "nat \<Rightarrow> nat \<Rightarrow> hw_fence_driver_data \<Rightarrow> hw_fence_driver_data" where
  "clear_dma_flag b fp st =
     (case dma_fences st fp of
        None \<Rightarrow> st\<lparr>ub := True\<rparr>
      | Some f \<Rightarrow> st\<lparr>dma_fences := (dma_fences st)(fp \<mapsto> f\<lparr>df_flags := df_flags f AND NOT (BIT b)\<rparr>)\<rparr>)"

text \<open>The section of \<^verbatim>\<open>hw_fence_register_wait_client\<close> under the lock of the fence.\<close>

definition register_wait_section :: "hw_fence_abi \<Rightarrow> msm_hw_fence_client \<Rightarrow> nat \<Rightarrow> u64 \<Rightarrow>
    hw_fence_driver_data \<Rightarrow> hw_fence_driver_data" where
  "register_wait_section abi c i client_data st =
     (let data_id = hw_fence_get_client_data_id abi (cl_client_id_ext c);
          st1 = global_atomic_store (Fence_Lock i) True st;
          st2 = upd_fence i (\<lambda>f. f\<lparr>hf_wait_client_mask :=
                  hf_wait_client_mask f OR BIT (unat (cl_client_id c))\<rparr>) st1;
          (time, st3) = hw_fence_get_qtime st2;
          st4 = upd_fence i (\<lambda>f. f\<lparr>hf_fence_wait_time := time, hf_debug_refcount := hf_debug_refcount f + 1\<rparr>) st3;
          st5 = (if client_data \<noteq> 0
             then upd_fence i (\<lambda>f. f\<lparr>hf_client_data := (hf_client_data f)[data_id := client_data]\<rparr>) st4
             else st4)
      in global_atomic_store (Fence_Lock i) False st5)"

text \<open>
  The result has the return code, the hash the code writes to its output (\<open>None\<close> when it returns
  before) and the state.
\<close>

definition hw_fence_register_wait_client :: "hw_fence_abi \<Rightarrow> nat option \<Rightarrow> nat \<Rightarrow> u64 \<Rightarrow> u64 \<Rightarrow> u64 \<Rightarrow>
    hw_fence_driver_data \<Rightarrow> int \<times> u64 option \<times> hw_fence_driver_data" where
  "hw_fence_register_wait_client abi fence cp context seqno client_data st =
     (case client_store st cp of
        None \<Rightarrow> (0, None, st\<lparr>ub := True\<rparr>)
      | Some c \<Rightarrow>
          (let data_id = hw_fence_get_client_data_id abi (cl_client_id_ext c) in
           if client_data \<noteq> 0 \<and> data_id \<ge> HW_FENCE_MAX_CLIENTS_WITH_DATA then (- EINVAL, None, st)
           else case msm_hw_fence_find (Some c) context seqno st of
               (st1, hash, None) \<Rightarrow> (- EINVAL, Some hash, st1)
             | (st1, hash, Some i) \<Rightarrow>
                 (let st7 = register_wait_section abi c i client_data st1
                  in if hf_flags (hw_fences_tbl st7 ! i) AND MSM_HW_FENCE_FLAG_SIGNAL \<noteq> 0 then
                       (let st8 = (case fence of
                              Some fp \<Rightarrow> set_dma_flag (flag_SIGNALED_BIT abi) fp st7
                            | None \<Rightarrow> st7)
                        in (0, Some hash, fence_ctl_signal cp i hash 0 client_data 0 st8))
                     else (0, Some hash, st7))))"

definition hw_fence_process_fence :: "hw_fence_abi \<Rightarrow> nat option \<Rightarrow> nat option \<Rightarrow> u64 \<Rightarrow>
    hw_fence_driver_data \<Rightarrow> int \<times> u64 option \<times> hw_fence_driver_data" where
  "hw_fence_process_fence abi hw_fence_client fence client_data st =
     (case (hw_fence_client, fence) of
        (Some cp, Some fp) \<Rightarrow>
          (case dma_fences st fp of
             None \<Rightarrow> (0, None, st\<lparr>ub := True\<rparr>)
           | Some f \<Rightarrow>
               if \<not> bit (df_flags f) (flag_ENABLED_BIT abi) then (- EINVAL, None, st)
               else hw_fence_register_wait_client abi (Some fp) cp (df_context f) (df_seqno f) client_data st)
      | _ \<Rightarrow> (- EINVAL, None, st))"

section \<open>Join fences\<close>

definition hw_fence_process_join_fence :: "u64 \<Rightarrow> u64 \<Rightarrow> u32 \<Rightarrow> bool \<Rightarrow>
    hw_fence_driver_data \<Rightarrow> hw_fence_driver_data \<times> u64 \<times> nat option" where
  "hw_fence_process_join_fence context seqno num_fences create st =
     (let client_id = HW_FENCE_JOIN_FENCE_CLIENT_ID;
          pending_child_cnt = num_fences
      in if create
         then hw_fence_lookup_and_process context seqno client_id pending_child_cnt HW_FENCE_LOOKUP_OP_CREATE_JOIN st
         else (snd (hw_fence_cleanup client_id context seqno st), 0, None))"

text \<open>
  The loop that removes a join fence from the parents of a child, from entry \<open>j\<close> down to 1.
  \<^verbatim>\<open>int j\<close> starts at the count; a count above the maximum is cut to the maximum.
\<close>

fun remove_parent :: "u64 \<Rightarrow> nat \<Rightarrow> msm_hw_fence \<Rightarrow> msm_hw_fence" where
  "remove_parent hash_join_fence 0 f = f"
| "remove_parent hash_join_fence (Suc j) f =
     remove_parent hash_join_fence j
       (if hf_parent_list f ! j = hash_join_fence
        then f\<lparr>hf_parent_list := (hf_parent_list f)[j := HW_FENCE_INVALID_PARENT_FENCE],
               hf_parents_cnt := (if hf_parents_cnt f \<noteq> 0 then hf_parents_cnt f - 1 else 0)\<rparr>
        else f)"

definition parents_loop_start :: "msm_hw_fence \<Rightarrow> nat" where
  "parents_loop_start f =
     (if sint (hf_parents_cnt f) \<le> 0 then 0 else min (unat (hf_parents_cnt f)) MSM_HW_FENCE_MAX_JOIN_PARENTS)"

text \<open>The loop over the children \<open>idx, ..., 0\<close> of the array.\<close>

fun cleanup_children :: "nat \<Rightarrow> u64 \<Rightarrow> nat option list \<Rightarrow> nat \<Rightarrow> hw_fence_driver_data \<Rightarrow> hw_fence_driver_data" where
  "cleanup_children cp hash_join_fence fences idx st =
     (let st1 =
        (if idx \<ge> length fences then st\<lparr>ub := True\<rparr>
         else case fences ! idx of
             None \<Rightarrow> st
           | Some fp \<Rightarrow>
               (case dma_fences st fp of
                  None \<Rightarrow> st\<lparr>ub := True\<rparr>
                | Some child \<Rightarrow>
                    (case msm_hw_fence_find (client_store st cp) (df_context child) (df_seqno child) st of
                       (st1, hash, None) \<Rightarrow> st1
                     | (st1, hash, Some i) \<Rightarrow>
                         (let st2 = global_atomic_store (Fence_Lock i) True st1;
                              st3 = upd_fence i (\<lambda>f. remove_parent hash_join_fence (parents_loop_start f) f) st2
                          in global_atomic_store (Fence_Lock i) False st3))))
      in case idx of 0 \<Rightarrow> st1 | Suc idx' \<Rightarrow> cleanup_children cp hash_join_fence fences idx' st1)"

declare cleanup_children.simps [simp del]

definition cleanup_join_and_child_fences :: "nat \<Rightarrow> nat \<Rightarrow> u64 \<Rightarrow> u64 \<Rightarrow> dma_fence_array \<Rightarrow> u64 \<Rightarrow>
    hw_fence_driver_data \<Rightarrow> hw_fence_driver_data" where
  "cleanup_join_and_child_fences cp iteration context seqno array hash_join_fence st =
     (let st1 = (case arr_fences array of
            None \<Rightarrow> st
          | Some fences \<Rightarrow> cleanup_children cp hash_join_fence fences iteration st)
      in case hw_fence_process_join_fence context seqno (arr_num_fences array) False st1 of (st2, _, _) \<Rightarrow> st2)"

text \<open>
  One iteration of the loop over the array: \<open>Inr\<close> is the label \<^verbatim>\<open>error_array\<close>, \<open>Inl sig\<close> the
  flag \<^verbatim>\<open>signal_join_fence\<close> after the iteration. \<open>join\<close> is the join fence.
\<close>

definition process_array_child :: "hw_fence_abi \<Rightarrow> nat \<Rightarrow> nat \<Rightarrow> u64 \<Rightarrow> nat option \<Rightarrow> bool \<Rightarrow>
    hw_fence_driver_data \<Rightarrow> (bool + unit) \<times> hw_fence_driver_data" where
  "process_array_child abi cp join hash_join_fence child_fence sig st =
     (case child_fence of
        None \<Rightarrow> (Inr (), st\<lparr>ub := True\<rparr>)
      | Some fp \<Rightarrow>
         (case dma_fences st fp of
            None \<Rightarrow> (Inr (), st\<lparr>ub := True\<rparr>)
          | Some child \<Rightarrow>
              if df_array child \<noteq> None then (Inr (), st)
              else if \<not> bit (df_flags child) (flag_ENABLED_BIT abi) then (Inr (), st)
              else case msm_hw_fence_find (client_store st cp) (df_context child) (df_seqno child) st of
                  (st1, hash, None) \<Rightarrow> (Inr (), st1)
                | (st1, hash, Some i) \<Rightarrow>
                    (let st2 = global_atomic_store (Fence_Lock i) True st1;
                         f = hw_fences_tbl st2 ! i
                     in if hf_flags f AND MSM_HW_FENCE_FLAG_SIGNAL \<noteq> 0 then
                          (let st3 = global_atomic_store (Fence_Lock join) True st2;
                               st4 = upd_fence join (\<lambda>jf. jf\<lparr>hf_error := hf_error jf OR hf_error f,
                                       hf_pending_child_cnt := hf_pending_child_cnt jf - 1\<rparr>) st3;
                               sig' = (if hf_pending_child_cnt (hw_fences_tbl st4 ! join) = 0 then True else sig);
                               st5 = global_atomic_store (Fence_Lock join) False st4
                           in (Inl sig', global_atomic_store (Fence_Lock i) False st5))
                        else
                          (let st3 = upd_fence i (\<lambda>f. f\<lparr>hf_parents_cnt := hf_parents_cnt f + 1\<rparr>) st2;
                               cnt = hf_parents_cnt (hw_fences_tbl st3 ! i)
                           in if cnt \<ge> of_nat MSM_HW_FENCE_MAX_JOIN_PARENTS \<or> cnt < 1 then
                                (let st4 = upd_fence i (\<lambda>f. f\<lparr>hf_parents_cnt := hf_parents_cnt f - 1\<rparr>) st3
                                 in (Inr (), global_atomic_store (Fence_Lock i) False st4))
                              else
                                (let st4 = upd_fence i (\<lambda>f. f\<lparr>hf_parent_list :=
                                         (hf_parent_list f)[unat cnt - 1 := hash_join_fence]\<rparr>) st3
                                 in (Inl sig, global_atomic_store (Fence_Lock i) False st4))))))"

text \<open>The loop itself, with \<open>k\<close> iterations left; the result names the iteration of an error.\<close>

fun process_array_loop :: "hw_fence_abi \<Rightarrow> nat \<Rightarrow> nat \<Rightarrow> u64 \<Rightarrow> nat option list \<Rightarrow> nat \<Rightarrow> nat \<Rightarrow> bool \<Rightarrow>
    hw_fence_driver_data \<Rightarrow> (bool + nat) \<times> hw_fence_driver_data" where
  "process_array_loop abi cp join hash_join_fence fences 0 i sig st = (Inl sig, st)"
| "process_array_loop abi cp join hash_join_fence fences (Suc k) i sig st =
     (if i \<ge> length fences then (Inr i, st\<lparr>ub := True\<rparr>)
      else case process_array_child abi cp join hash_join_fence (fences ! i) sig st of
          (Inr u, st1) \<Rightarrow> (Inr i, st1)
        | (Inl sig1, st1) \<Rightarrow> process_array_loop abi cp join hash_join_fence fences k (Suc i) sig1 st1)"

definition hw_fence_process_fence_array :: "hw_fence_abi \<Rightarrow> nat \<Rightarrow> nat \<Rightarrow> u64 \<Rightarrow>
    hw_fence_driver_data \<Rightarrow> int \<times> u64 option \<times> hw_fence_driver_data" where
  "hw_fence_process_fence_array abi cp afp client_data st =
     (case (client_store st cp, dma_fences st afp) of
        (Some c, Some base) \<Rightarrow>
          (case df_array base of
             None \<Rightarrow> (0, None, st\<lparr>ub := True\<rparr>)
           | Some array \<Rightarrow>
              (let data_id = hw_fence_get_client_data_id abi (cl_client_id_ext c) in
               if client_data \<noteq> 0 \<and> data_id \<ge> HW_FENCE_MAX_CLIENTS_WITH_DATA then (- EINVAL, None, st)
               else case hw_fence_process_join_fence (df_context base) (df_seqno base) (arr_num_fences array) True st of
                   (st1, hash, None) \<Rightarrow> (- EINVAL, Some hash, st1)
                 | (st1, hash, Some join) \<Rightarrow>
                    (let st2 = global_atomic_store (Fence_Lock join) True st1;
                         st3 = upd_fence join (\<lambda>f. f\<lparr>hf_wait_client_mask :=
                                 hf_wait_client_mask f OR BIT (unat (cl_client_id c))\<rparr>) st2;
                         st4 = global_atomic_store (Fence_Lock join) False st3;
                         fences = (case arr_fences array of None \<Rightarrow> [] | Some fs \<Rightarrow> fs)
                     in case process_array_loop abi cp join hash fences (unat (arr_num_fences array)) 0 False st4 of
                         (Inr i, st5) \<Rightarrow>
                           (- EINVAL, Some hash, cleanup_join_and_child_fences cp i (df_context base) (df_seqno base) array hash st5)
                       | (Inl signal_join_fence, st5) \<Rightarrow>
                           (let st6 = (if client_data \<noteq> 0
                               then upd_fence join (\<lambda>f. f\<lparr>hf_client_data := (hf_client_data f)[data_id := client_data]\<rparr>) st5
                               else st5)
                            in if signal_join_fence then
                                 (let st7 = fence_ctl_signal cp join hash 0 client_data (hf_error (hw_fences_tbl st6 ! join)) st6;
                                      st8 = set_dma_flag (flag_SIGNALED_BIT abi) afp st7
                                  in case hw_fence_process_join_fence (df_context base) (df_seqno base) (arr_num_fences array) False st8 of
                                      (st9, _, _) \<Rightarrow> (0, Some hash, st9))
                               else if arr_num_fences array = 0 then
                                 (- EINVAL, Some hash, cleanup_join_and_child_fences cp (unat (arr_num_fences array))
                                    (df_context base) (df_seqno base) array hash st6)
                               else (0, Some hash, st6)))))
      | _ \<Rightarrow> (0, None, st\<lparr>ub := True\<rparr>))"

section \<open>Resetting a client\<close>

text \<open>
  The loop over the wait clients, with \<open>k\<close> iterations left. \<open>client_data\<close> is a variable of the
  function and keeps its value from one iteration to the next.
\<close>

fun signal_wait_loop :: "hw_fence_abi \<Rightarrow> nat \<Rightarrow> u64 \<Rightarrow> u32 \<Rightarrow> nat \<Rightarrow> nat \<Rightarrow> u64 \<Rightarrow>
    hw_fence_driver_data \<Rightarrow> hw_fence_driver_data" where
  "signal_wait_loop abi i hash error 0 wait_client_id client_data st = st"
| "signal_wait_loop abi i hash error (Suc k) wait_client_id client_data st =
     (let f = hw_fences_tbl st ! i in
      if hf_wait_client_mask f AND BIT wait_client_id \<noteq> 0 then
        (if wait_client_id \<ge> length (clients st) then st\<lparr>ub := True\<rparr>
         else case clients st ! wait_client_id of
             None \<Rightarrow> signal_wait_loop abi i hash error k (Suc wait_client_id) client_data st
           | Some cp \<Rightarrow>
               (case client_store st cp of
                  None \<Rightarrow> st\<lparr>ub := True\<rparr>
                | Some c \<Rightarrow>
                    (let data_id = hw_fence_get_client_data_id abi (cl_client_id_ext c);
                         client_data' = (if data_id < HW_FENCE_MAX_CLIENTS_WITH_DATA
                             then hf_client_data f ! data_id else client_data)
                     in signal_wait_loop abi i hash error k (Suc wait_client_id) client_data'
                          (fence_ctl_signal cp i hash 0 client_data' error st))))
      else signal_wait_loop abi i hash error k (Suc wait_client_id) client_data st)"

definition signal_all_wait_clients :: "hw_fence_abi \<Rightarrow> nat \<Rightarrow> u64 \<Rightarrow> u32 \<Rightarrow>
    hw_fence_driver_data \<Rightarrow> hw_fence_driver_data" where
  "signal_all_wait_clients abi i hash error st =
     signal_wait_loop abi i hash error (unat (rxq_clients_num st) + 1) 0 0 st"

definition hw_fence_utils_cleanup_fence :: "hw_fence_abi \<Rightarrow> nat \<Rightarrow> nat \<Rightarrow> u64 \<Rightarrow> u32 \<Rightarrow>
    hw_fence_driver_data \<Rightarrow> int \<times> hw_fence_driver_data" where
  "hw_fence_utils_cleanup_fence abi cp i hash reset_flags st =
     (case client_store st cp of
        None \<Rightarrow> (0, st\<lparr>ub := True\<rparr>)
      | Some c \<Rightarrow>
          (let error = (if reset_flags AND RESET_WITHOUT_ERROR abi \<noteq> 0 then 0 else ERROR_RESET abi);
               st1 = global_atomic_store (Fence_Lock i) True st;
               st2 = (if hf_wait_client_mask (hw_fences_tbl st1 ! i) AND BIT (unat (cl_client_id c)) \<noteq> 0
                      then upd_fence i (\<lambda>f. f\<lparr>hf_wait_client_mask :=
                             hf_wait_client_mask f AND NOT (BIT (unat (cl_client_id c)))\<rparr>) st1
                      else st1);
               st3 = global_atomic_store (Fence_Lock i) False st2
           in if hf_fence_allocator (hw_fences_tbl st3 ! i) = cl_client_id c then
                (let st4 = (if hf_flags (hw_fences_tbl st3 ! i) AND MSM_HW_FENCE_FLAG_SIGNAL = 0
                       then signal_all_wait_clients abi i hash error st3 else st3)
                 in if reset_flags AND RESET_WITHOUT_DESTROY abi \<noteq> 0 then (0, st4)
                    else hw_fence_destroy c (hf_ctx_id (hw_fences_tbl st4 ! i)) (hf_seq_id (hw_fences_tbl st4 ! i)) st4)
              else (0, st3)))"

section \<open>Errors from the fence controller\<close>

abbreviation (input) HW_FENCE_PAYLOAD_TYPE_2 :: u16 where "HW_FENCE_PAYLOAD_TYPE_2 \<equiv> 2"
abbreviation (input) HW_FENCE_MAX_ITER_READ :: nat where "HW_FENCE_MAX_ITER_READ \<equiv> 100"
abbreviation (input) HW_FENCE_CTRL_QUEUE_DOORBELL :: nat where "HW_FENCE_CTRL_QUEUE_DOORBELL \<equiv> 0"
abbreviation (input) HW_FENCE_DOORBELL_FLAGS_ID_LAST :: nat where
  "HW_FENCE_DOORBELL_FLAGS_ID_LAST \<equiv> HW_FENCE_CTRL_QUEUE_DOORBELL"

definition ctrl_payload_error :: "hw_fence_abi \<Rightarrow> msm_hw_fence_queue_payload \<Rightarrow> int \<Rightarrow>
    hw_fence_driver_data \<Rightarrow> int \<times> hw_fence_driver_data" where
  "ctrl_payload_error abi p ret st =
     (if pl_type p \<noteq> HW_FENCE_PAYLOAD_TYPE_2 then (- EINVAL, st)
      else if pl_client_data p < ucast (id_CTX0 abi) \<or> pl_client_data p \<ge> ucast (clients_num st) then (- EINVAL, st)
      else
        let client_id = unat (ucast (pl_client_data p) :: u32) in
        if client_id \<ge> length (clients st) then (ret, st\<lparr>ub := True\<rparr>)
        else case clients st ! client_id of
            None \<Rightarrow> (- EINVAL, st)
          | Some cp \<Rightarrow>
              (case hw_fence_utils_fence_error_cb (Some cp) (pl_ctxt_id p) (pl_seqno p) (pl_hash p) (pl_flags p)
                      (pl_error p) st of
                 (cb_ret, st1) \<Rightarrow> (if cb_ret \<noteq> 0 then cb_ret else ret, st1)))"

fun ctrl_loopback_loop :: "hw_fence_abi \<Rightarrow> nat \<Rightarrow> int \<Rightarrow> int \<Rightarrow> hw_fence_driver_data \<Rightarrow> int \<times> hw_fence_driver_data" where
  "ctrl_loopback_loop abi 0 read ret st = (ret, st)"
| "ctrl_loopback_loop abi (Suc k) read ret st =
     (if read = 0 then (ret, st)
      else if length (ctrl_queues st) \<le> HW_FENCE_RX_QUEUE - 1 then (ret, st\<lparr>ub := True\<rparr>)
      else case hw_fence_read_queue_helper (ctrl_queues st ! (HW_FENCE_RX_QUEUE - 1)) of
          None \<Rightarrow> (ret, st\<lparr>ub := True\<rparr>)
        | Some (read1, p, q) \<Rightarrow>
            (let st1 = st\<lparr>ctrl_queues := (ctrl_queues st)[HW_FENCE_RX_QUEUE - 1 := q]\<rparr> in
             if read1 < 0 then (read1, st1)
             else case p of
                 None \<Rightarrow> (ret, st1\<lparr>ub := True\<rparr>)
               | Some payload \<Rightarrow>
                   (case ctrl_payload_error abi payload ret st1 of
                      (ret1, st2) \<Rightarrow> ctrl_loopback_loop abi k read1 ret1 st2)))"

definition process_fence_error_client_loopback :: "hw_fence_abi \<Rightarrow> hw_fence_driver_data \<Rightarrow> int \<times> hw_fence_driver_data" where
  "process_fence_error_client_loopback abi st = ctrl_loopback_loop abi HW_FENCE_MAX_ITER_READ 1 0 st"

definition process_doorbell_id :: "hw_fence_abi \<Rightarrow> nat \<Rightarrow> hw_fence_driver_data \<Rightarrow> int \<times> hw_fence_driver_data" where
  "process_doorbell_id abi db_flag_id st =
     (if db_flag_id = HW_FENCE_CTRL_QUEUE_DOORBELL then process_fence_error_client_loopback abi st
      else (- EINVAL, st))"

fun doorbell_loop :: "hw_fence_abi \<Rightarrow> nat \<Rightarrow> nat \<Rightarrow> u64 \<Rightarrow> hw_fence_driver_data \<Rightarrow> hw_fence_driver_data" where
  "doorbell_loop abi 0 db_flag_id db_flags st = st"
| "doorbell_loop abi (Suc k) db_flag_id db_flags st =
     (let mask = BIT db_flag_id in
      if mask AND db_flags \<noteq> 0 then
        (let st1 = snd (process_doorbell_id abi db_flag_id st);
             db_flags1 = db_flags AND NOT mask
         in if db_flags1 = 0 then st1 else doorbell_loop abi k (Suc db_flag_id) db_flags1 st1)
      else doorbell_loop abi k (Suc db_flag_id) db_flags st)"

definition hw_fence_utils_process_doorbell_mask :: "hw_fence_abi \<Rightarrow> u64 \<Rightarrow> hw_fence_driver_data \<Rightarrow> hw_fence_driver_data" where
  "hw_fence_utils_process_doorbell_mask abi db_flags st =
     doorbell_loop abi (HW_FENCE_DOORBELL_FLAGS_ID_LAST + 1 - HW_FENCE_CTRL_QUEUE_DOORBELL)
       HW_FENCE_CTRL_QUEUE_DOORBELL db_flags st"

section \<open>What signalling leaves alone\<close>

text \<open>
  Signalling changes queues, logs events and holds the error callback mutex for a while, but
  never a fence of the table nor the identity of a client.
\<close>

definition fences_same :: "hw_fence_driver_data \<Rightarrow> hw_fence_driver_data \<Rightarrow> bool" where
  "fences_same st st' \<longleftrightarrow> hw_fences_tbl st' = hw_fences_tbl st \<and>
     hw_fence_table_entries st' = hw_fence_table_entries st \<and> hw_fences_tbl_cnt st' = hw_fences_tbl_cnt st \<and>
     rxq_clients_num st' = rxq_clients_num st \<and> vm_ready st' = vm_ready st \<and>
     (\<forall>p. map_option cl_client_id (client_store st' p) = map_option cl_client_id (client_store st p))"

lemma fences_same_refl [simp, intro]: "fences_same st st"
  by (simp add: fences_same_def)

lemma fences_same_trans [trans]: "fences_same a b \<Longrightarrow> fences_same b c \<Longrightarrow> fences_same a c"
  by (simp add: fences_same_def)

lemma fences_same_fields [intro]:
  "fences_same st (st\<lparr>ub := u\<rparr>)" "fences_same st (st\<lparr>blocked := b\<rparr>)"
  "fences_same st (st\<lparr>events_out := e\<rparr>)" "fences_same st (st\<lparr>client_lock_tbl := l\<rparr>)"
  "fences_same st (tick st)" "fences_same st (hw_fence_ipcc_trigger_signal tx rx sg st)"
  by (simp_all add: fences_same_def hw_fence_ipcc_trigger_signal_def Let_def tick_def)

lemma fences_same_upd_client [intro]:
  "(\<And>c. cl_client_id (g c) = cl_client_id c) \<Longrightarrow> fences_same st (upd_client cp g st)"
  by (simp add: fences_same_def upd_client_def split: option.split)

lemma fences_same_upd_client_queue [intro]: "fences_same st (upd_client_queue cp qt q st)"
  by (simp add: fences_same_def upd_client_queue_def split: option.split)

lemma fences_same_client_lock [intro]: "fences_same st (global_atomic_store (Client_Lock i) v st)"
  by (simp add: fences_same_def global_atomic_store_def lock_acquire_def lock_release_def Let_def
      hw_fence_ipcc_trigger_signal_def)

lemma fences_same_body:
  "fences_same st (snd (update_queue_body cp qt q hdr s p ctxt seqno hash flags cd err st))"
proof -
  have "fences_same st (upd_client_queue cp qt q' (tick st))" for q'
    by (rule fences_same_trans [of _ "tick st"]) auto
  then show ?thesis
    by (auto simp: update_queue_body_def Let_def get_qtime_tick split: prod.split)
qed

lemma fences_same_update_queue:
  "fences_same st (snd (hw_fence_update_queue cp ctxt seqno hash flags cd err qt st))"
proof -
  have locked: "fences_same st (global_atomic_store (Client_Lock i) False
      (snd (update_queue_body cp qt q hdr s p ctxt seqno hash flags cd err (global_atomic_store (Client_Lock i) True st))))"
    for i q hdr s p
    by (rule fences_same_trans [OF fences_same_client_lock fences_same_trans [OF fences_same_body fences_same_client_lock]])
  show ?thesis
    using locked fences_same_body
    by (auto simp: hw_fence_update_queue_def Let_def case_prod_beta split: option.split sum.split)
qed

lemma fences_same_error_cb: "fences_same st (snd (hw_fence_utils_fence_error_cb c ctxt seqno hash flags err st))"
proof -
  have "fences_same st (upd_client cp (\<lambda>c. c\<lparr>cl_error_cb_lock := False\<rparr>)
      (f (upd_client cp (\<lambda>c. c\<lparr>cl_error_cb_lock := True\<rparr>) st)))"
    if "\<And>s. fences_same s (f s)" for cp f
    by (rule fences_same_trans [OF fences_same_upd_client fences_same_trans [OF that fences_same_upd_client]]) auto
  note around = this
  have "fences_same s (s\<lparr>events_out := events_out s @ e\<rparr>)" for s e by auto
  with around [of id] around [of "\<lambda>s. s\<lparr>events_out := events_out s @ e\<rparr>" for e] show ?thesis
    by (auto simp: hw_fence_utils_fence_error_cb_def Let_def split: option.split)
qed

lemma fences_same_ctl_signal: "fences_same st (fence_ctl_signal cp i hash flags cd err st)"
proof -
  have "fences_same st (hw_fence_ipcc_trigger_signal a b d (snd (hw_fence_update_queue cp x q hash flags cd err qt st)))"
    for a b d x q qt
    by (rule fences_same_trans [OF fences_same_update_queue]) auto
  then show ?thesis
    using fences_same_update_queue fences_same_error_cb
    by (auto simp: fence_ctl_signal_def Let_def split: option.split)
qed

lemma fences_same_wait_loop: "fences_same st (signal_wait_loop abi i hash err k w cd st)"
proof (induction k arbitrary: w cd st)
  case 0
  then show ?case by simp
next
  case (Suc k)
  have "fences_same st (signal_wait_loop abi i hash err k w' cd' (fence_ctl_signal cp i hash 0 cd'' err st))"
    for w' cd' cd'' cp
    using fences_same_trans [OF fences_same_ctl_signal Suc.IH] .
  then show ?case using Suc.IH by (auto simp: Let_def split: option.split)
qed

lemma fences_same_signal_all: "fences_same st (signal_all_wait_clients abi i hash err st)"
  unfolding signal_all_wait_clients_def by (rule fences_same_wait_loop)

lemma keys_ok_same:
  assumes "fences_same st st'" shows "keys_ok st' = keys_ok st"
proof -
  have "hw_fences_tbl st' = hw_fences_tbl st" "hw_fence_table_entries st' = hw_fence_table_entries st"
    using assms by (simp_all add: fences_same_def)
  then show ?thesis by (simp add: keys_ok_def table_ok_def fence_locks_free_def)
qed

section \<open>Resetting the fences of a client\<close>

lemma keys_ok_put_same:
  assumes "keys_ok st" "i < length (hw_fences_tbl st)" "hf_lock f = 0"
    "hf_valid f = hf_valid (hw_fences_tbl st ! i)" "fence_key f = fence_key (hw_fences_tbl st ! i)"
  shows "keys_ok (put_fence i f st)"
proof -
  have "hf_valid (hw_fences_tbl (put_fence i f st) ! s) = hf_valid (hw_fences_tbl st ! s)"
    "fence_key (hw_fences_tbl (put_fence i f st) ! s) = fence_key (hw_fences_tbl st ! s)" for s
    using assms(2,4,5) by (auto simp: nth_list_update)
  then show ?thesis
    using assms(1-3) table_ok_put [of st i f] by (simp add: keys_ok_def)
qed

text \<open>The locked section that clears the wait bit of the client.\<close>

definition unwait :: "u32 \<Rightarrow> msm_hw_fence \<Rightarrow> msm_hw_fence" where
  "unwait cid f = f\<lparr>hf_wait_client_mask := hf_wait_client_mask f AND NOT (BIT (unat cid))\<rparr>"

lemma unwait_simps [simp]:
  "hf_lock (unwait cid f) = hf_lock f" "hf_valid (unwait cid f) = hf_valid f"
  "fence_key (unwait cid f) = fence_key f" "hf_fence_allocator (unwait cid f) = hf_fence_allocator f"
  "hf_flags (unwait cid f) = hf_flags f" "hf_ctx_id (unwait cid f) = hf_ctx_id f"
  "hf_seq_id (unwait cid f) = hf_seq_id f" "hf_wait_client_mask (unwait cid f) AND BIT (unat cid) = 0"
  by (simp_all add: unwait_def fence_key_def and.assoc)

lemma unwait_none: "hf_wait_client_mask f AND BIT (unat cid) = 0 \<Longrightarrow> unwait cid f = f"
proof -
  assume z: "hf_wait_client_mask f AND BIT (unat cid) = 0"
  have "hf_wait_client_mask f AND NOT (BIT (unat cid)) = hf_wait_client_mask f"
    by (rule bit_word_eqI) (use z and_BIT_iff [of "unat cid" "hf_wait_client_mask f"] in \<open>auto simp: bit_simps\<close>)
  then show ?thesis by (cases f) (simp add: unwait_def)
qed

lemma unwait_section:
  assumes "i < length (hw_fences_tbl st)" "hf_lock (hw_fences_tbl st ! i) = 0"
  defines "f \<equiv> hw_fences_tbl st ! i"
  shows "global_atomic_store (Fence_Lock i) False
      (if hf_wait_client_mask (hw_fences_tbl (global_atomic_store (Fence_Lock i) True st) ! i) AND BIT (unat cid) \<noteq> 0
       then upd_fence i (\<lambda>f. f\<lparr>hf_wait_client_mask := hf_wait_client_mask f AND NOT (BIT (unat cid))\<rparr>)
              (global_atomic_store (Fence_Lock i) True st)
       else global_atomic_store (Fence_Lock i) True st) = put_fence i (unwait cid f) st"
proof (cases "hf_wait_client_mask f AND BIT (unat cid) = 0")
  case True
  then show ?thesis
    using assms fence_lock_unlock [OF assms(1,2)] unwait_none [OF True]
    by (simp add: locked_fence put_fence_def)
next
  case False
  then show ?thesis
    using assms(1,2)
    by (cases "hw_fences_tbl st ! i")
      (simp add: locked_fence fence_lock_True fence_lock_False upd_fence_def put_fence_def unwait_def f_def)
qed

lemma destroy_own_slot:
  assumes "keys_ok st" "i < length (hw_fences_tbl st)"
  defines "f \<equiv> hw_fences_tbl st ! i"
  obtains s where "hw_fence_destroy c (hf_ctx_id f) (hf_seq_id f) st =
      (0, put_fence s ((cleanup_hw_fence (hw_fences_tbl st ! s))\<lparr>hf_valid := 0\<rparr>) st)"
    and "s < length (hw_fences_tbl st)" "hf_valid f \<noteq> 0 \<Longrightarrow> s = i" "hf_valid f = 0 \<Longrightarrow> hf_valid (hw_fences_tbl st ! s) = 0"
proof -
  have ok: "table_ok st" using assms(1) by simp
  obtain s where s: "slot_of st (fence_key f) = Some s"
    using slot_of_None [OF ok, of "fence_key f"] assms(2) by (metis f_def nth_mem option.exhaust)
  note sl = slot_of_SomeD [OF ok s]
  have "hw_fence_destroy c (hf_ctx_id f) (hf_seq_id f) st =
      (0, put_fence s ((cleanup_hw_fence (hw_fences_tbl st ! s))\<lparr>hf_valid := 0\<rparr>) st)"
    using destroy_key [OF assms(1), where x = "hf_ctx_id f" and q = "hf_seq_id f" and client_id = "cl_client_id c"] s
    by (simp add: hw_fence_destroy_def fence_key_def)
  moreover have "s = i" if "hf_valid f \<noteq> 0"
    using keys_okD(2) [OF assms(1,2) _ sl(1)] that sl(2) by (simp add: f_def)
  moreover have "hf_valid (hw_fences_tbl st ! s) = 0" if "hf_valid f = 0"
    using keys_okD(1) [OF assms(1,2)] keys_okD(1) [OF assms(1) sl(1)] that sl(2) by (simp add: f_def)
  ultimately show thesis using that sl(1) by blast
qed

text \<open>What a reset leaves in a slot: the client neither waits for the fence nor owns it.\<close>

definition slot_reset :: "u32 \<Rightarrow> msm_hw_fence \<Rightarrow> bool" where
  "slot_reset cid f \<longleftrightarrow> hf_wait_client_mask f AND BIT (unat cid) = 0 \<and> (hf_valid f \<noteq> 0 \<longrightarrow> hf_fence_allocator f \<noteq> cid)"

definition client_ids :: "hw_fence_driver_data \<Rightarrow> nat \<Rightarrow> u32 option" where
  "client_ids st p = map_option cl_client_id (client_store st p)"

lemma slot_reset_free: "slot_reset cid ((cleanup_hw_fence f)\<lparr>hf_valid := 0\<rparr>)"
  by (simp add: slot_reset_def cleanup_hw_fence_def)

text \<open>One step of the reset, as a relation between the states before and after.\<close>

definition reset_step :: "u32 \<Rightarrow> nat \<Rightarrow> hw_fence_driver_data \<Rightarrow> hw_fence_driver_data \<Rightarrow> bool" where
  "reset_step cid i st st' \<longleftrightarrow> keys_ok st' \<and> length (hw_fences_tbl st') = length (hw_fences_tbl st) \<and>
     client_ids st' = client_ids st \<and> slot_reset cid (hw_fences_tbl st' ! i) \<and>
     (\<forall>j < length (hw_fences_tbl st). slot_reset cid (hw_fences_tbl st ! j) \<longrightarrow> slot_reset cid (hw_fences_tbl st' ! j)) \<and>
     (\<forall>j < length (hw_fences_tbl st). hf_valid (hw_fences_tbl st ! j) \<noteq> 0 \<longrightarrow>
        hf_fence_allocator (hw_fences_tbl st ! j) \<noteq> cid \<longrightarrow>
        hw_fences_tbl st' ! j = (if j = i then unwait cid else (\<lambda>f. f)) (hw_fences_tbl st ! j))"

lemma cleanup_fence_no_owner:
  assumes "keys_ok st" "i < length (hw_fences_tbl st)" "client_store st cp = Some c"
    "hf_fence_allocator (hw_fences_tbl st ! i) \<noteq> cl_client_id c"
  shows "hw_fence_utils_cleanup_fence abi cp i h fl st = (0, put_fence i (unwait (cl_client_id c) (hw_fences_tbl st ! i)) st)"
proof -
  have "hf_lock (hw_fences_tbl st ! i) = 0"
    using assms(1,2) by (simp add: keys_ok_def table_ok_def fence_locks_free_def)
  note sect = unwait_section [OF assms(2) this, where cid = "cl_client_id c"]
  show ?thesis
    unfolding hw_fence_utils_cleanup_fence_def Let_def assms(3) option.case sect
    using assms(2,4) by simp
qed

lemma cleanup_fence_owner:
  assumes "keys_ok st" "i < length (hw_fences_tbl st)" "client_store st cp = Some c"
    "hf_fence_allocator (hw_fences_tbl st ! i) = cl_client_id c" "fl AND RESET_WITHOUT_DESTROY abi = 0"
  obtains st4 where "fences_same (put_fence i (unwait (cl_client_id c) (hw_fences_tbl st ! i)) st) st4"
    "hw_fence_utils_cleanup_fence abi cp i h fl st =
       hw_fence_destroy c (hf_ctx_id (hw_fences_tbl st4 ! i)) (hf_seq_id (hw_fences_tbl st4 ! i)) st4"
proof -
  have "hf_lock (hw_fences_tbl st ! i) = 0"
    using assms(1,2) by (simp add: keys_ok_def table_ok_def fence_locks_free_def)
  note sect = unwait_section [OF assms(2) this, where cid = "cl_client_id c"]
  let ?st = "put_fence i (unwait (cl_client_id c) (hw_fences_tbl st ! i)) st"
  let ?st4 = "if hf_flags (hw_fences_tbl ?st ! i) AND MSM_HW_FENCE_FLAG_SIGNAL = 0
     then signal_all_wait_clients abi i h (if fl AND RESET_WITHOUT_ERROR abi \<noteq> 0 then 0 else ERROR_RESET abi) ?st else ?st"
  have "hw_fence_utils_cleanup_fence abi cp i h fl st =
       hw_fence_destroy c (hf_ctx_id (hw_fences_tbl ?st4 ! i)) (hf_seq_id (hw_fences_tbl ?st4 ! i)) ?st4"
    unfolding hw_fence_utils_cleanup_fence_def Let_def assms(3) option.case sect
    using assms(2,4,5) by (simp only: put_fence_simps nth_list_update_eq unwait_simps simp_thms if_True if_False)
  then show thesis
    by (rule that [rotated]) (simp add: fences_same_signal_all)
qed

lemma cleanup_fence_step:
  assumes "keys_ok st" "i < length (hw_fences_tbl st)" "client_store st cp = Some c"
    "fl AND RESET_WITHOUT_DESTROY abi = 0"
  shows "reset_step (cl_client_id c) i st (snd (hw_fence_utils_cleanup_fence abi cp i h fl st))"
proof -
  let ?cid = "cl_client_id c" and ?f = "hw_fences_tbl st ! i"
  let ?st = "put_fence i (unwait ?cid ?f) st"
  have lock: "hf_lock (hw_fences_tbl st ! i) = 0"
    using assms(1,2) by (simp add: keys_ok_def table_ok_def fence_locks_free_def)
  then have keys: "keys_ok ?st" using assms(1,2) by (intro keys_ok_put_same) simp_all
  show ?thesis
  proof (cases "hf_fence_allocator ?f = ?cid")
    case False
    then show ?thesis
      using cleanup_fence_no_owner [OF assms(1-3) False] keys assms(2)
      by (auto simp: reset_step_def client_ids_def fun_eq_iff slot_reset_def nth_list_update)
  next
    case True
    obtain st4 where st4: "fences_same ?st st4" "hw_fence_utils_cleanup_fence abi cp i h fl st =
       hw_fence_destroy c (hf_ctx_id (hw_fences_tbl st4 ! i)) (hf_seq_id (hw_fences_tbl st4 ! i)) st4"
      using cleanup_fence_owner [OF assms(1-3) True assms(4)] .
    have tbl: "hw_fences_tbl st4 = (hw_fences_tbl st)[i := unwait ?cid ?f]" and ids: "client_ids st4 = client_ids st"
      using st4(1) by (simp_all add: fences_same_def client_ids_def fun_eq_iff)
    have k4: "keys_ok st4" using keys keys_ok_same [OF st4(1)] by simp
    obtain s where s: "hw_fence_destroy c (hf_ctx_id (hw_fences_tbl st4 ! i)) (hf_seq_id (hw_fences_tbl st4 ! i)) st4 =
        (0, put_fence s ((cleanup_hw_fence (hw_fences_tbl st4 ! s))\<lparr>hf_valid := 0\<rparr>) st4)"
      "s < length (hw_fences_tbl st)" "hf_valid ?f \<noteq> 0 \<Longrightarrow> s = i"
      "hf_valid ?f = 0 \<Longrightarrow> hf_valid (hw_fences_tbl st4 ! s) = 0"
      using destroy_own_slot [OF k4, of i c] assms(2) by (auto simp: tbl)
    let ?g = "(cleanup_hw_fence (hw_fences_tbl st4 ! s))\<lparr>hf_valid := 0\<rparr>"
    have "keys_ok (put_fence s ?g st4)"
      using k4 s(2) tbl by (intro keys_ok_put_free) (auto simp: keys_ok_def table_ok_def fence_locks_free_def)
    moreover have "slot_reset ?cid ((hw_fences_tbl st4)[s := ?g] ! i)"
      using assms(2) s slot_reset_free by (cases "s = i") (auto simp: tbl slot_reset_def)
    moreover have "slot_reset ?cid ((hw_fences_tbl st4)[s := ?g] ! j)" if "j < length (hw_fences_tbl st)"
      "slot_reset ?cid (hw_fences_tbl st ! j)" for j
      using that slot_reset_free assms(2) s(2) by (auto simp: tbl nth_list_update slot_reset_def)
    moreover have "(hw_fences_tbl st4)[s := ?g] ! j = hw_fences_tbl st ! j" if "j < length (hw_fences_tbl st)"
      "hf_valid (hw_fences_tbl st ! j) \<noteq> 0" "hf_fence_allocator (hw_fences_tbl st ! j) \<noteq> ?cid" for j
      using that s True assms(2) by (cases "hf_valid ?f = 0") (auto simp: tbl nth_list_update split: if_splits)
    moreover have "client_ids (put_fence s ?g st4) = client_ids st" using ids by (simp add: client_ids_def fun_eq_iff)
    moreover have "length (hw_fences_tbl st4) = length (hw_fences_tbl st)" by (simp add: tbl)
    moreover have "snd (hw_fence_utils_cleanup_fence abi cp i h fl st) = put_fence s ?g st4" by (simp add: st4(2) s(1))
    ultimately show ?thesis using True by (auto simp: reset_step_def)
  qed
qed

end
