(* ===== verification/Fence_Api.thy ===== *)
theory Fence_Api
  imports Fence_Signal
begin

text \<open>
  The API of the hw-fence driver towards its clients (msm\_hw\_fence.c): creation and
  destruction of hw-fences for dma-fences, waiting, reset of a client, the transmit queue, IPCC
  signals and error callbacks. A NULL or error pointer argument is \<open>None\<close>.
\<close>

section \<open>Fences\<close>

text \<open>
  The parameters of a creation: the dma-fence and whether there is a place for the handle. The
  result has the handle when it was written.
\<close>

definition msm_hw_fence_create :: "hw_fence_abi \<Rightarrow> nat option \<Rightarrow> (nat option \<times> bool) option \<Rightarrow>
    hw_fence_driver_data \<Rightarrow> int \<times> u64 option \<times> hw_fence_driver_data" where
  "msm_hw_fence_create abi client_handle params st =
     (case (client_handle, params) of
        (Some cp, Some (Some fp, True)) \<Rightarrow>
          if \<not> vm_ready st then (- EAGAIN, None, st)
          else (case (client_store st cp, dma_fences st fp) of
              (Some c, Some fence) \<Rightarrow>
                if df_array fence \<noteq> None then (- EINVAL, None, st)
                else if bit (df_flags fence) (flag_ENABLED_BIT abi) then (- EINVAL, None, st)
                else (case hw_fence_create c (df_context fence) (df_seqno fence) st of
                    (ret, hash, st1) \<Rightarrow>
                      if ret \<noteq> 0 then (ret, Some hash, st1)
                      else (0, Some hash, set_dma_flag (flag_ENABLED_BIT abi) fp st1))
            | _ \<Rightarrow> (0, None, st\<lparr>ub := True\<rparr>))
      | _ \<Rightarrow> (- EINVAL, None, st))"

definition msm_hw_fence_destroy :: "hw_fence_abi \<Rightarrow> nat option \<Rightarrow> nat option \<Rightarrow>
    hw_fence_driver_data \<Rightarrow> int \<times> hw_fence_driver_data" where
  "msm_hw_fence_destroy abi client_handle fence st =
     (case (client_handle, fence) of
        (Some cp, Some fp) \<Rightarrow>
          (case (client_store st cp, dma_fences st fp) of
              (Some c, Some f) \<Rightarrow>
                if df_array f \<noteq> None then (- EINVAL, st)
                else if \<not> bit (df_flags f) (flag_ENABLED_BIT abi) then (- EINVAL, st)
                else (case hw_fence_destroy c (df_context f) (df_seqno f) st of
                    (ret, st1) \<Rightarrow>
                      if ret \<noteq> 0 then (ret, st1)
                      else (0, clear_dma_flag (flag_ENABLED_BIT abi) fp st1))
            | _ \<Rightarrow> (0, st\<lparr>ub := True\<rparr>))
      | _ \<Rightarrow> (- EINVAL, st))"

definition msm_hw_fence_destroy_with_handle :: "nat option \<Rightarrow> u64 \<Rightarrow>
    hw_fence_driver_data \<Rightarrow> int \<times> hw_fence_driver_data" where
  "msm_hw_fence_destroy_with_handle client_handle handle st =
     (case client_handle of
        None \<Rightarrow> (- EINVAL, st)
      | Some cp \<Rightarrow>
          (case client_store st cp of
             None \<Rightarrow> (0, st\<lparr>ub := True\<rparr>)
           | Some c \<Rightarrow>
               if cl_client_id c \<ge> clients_num st then (- EINVAL, st)
               else (case hw_fence_destroy_with_hash c handle st of
                   (ret, st1) \<Rightarrow> if ret \<noteq> 0 then (ret, st1) else (0, st1))))"

section \<open>Waiting\<close>

text \<open>
  The loop over the fences of the list, with \<open>k\<close> iterations left; \<open>hs\<close> are the handles written
  so far. An individual fence may be a NULL pointer, which is refused.
\<close>

fun wait_update_loop :: "hw_fence_abi \<Rightarrow> nat \<Rightarrow> nat option list \<Rightarrow> u64 list option \<Rightarrow> nat \<Rightarrow> nat \<Rightarrow> u64 list \<Rightarrow>
    hw_fence_driver_data \<Rightarrow> int \<times> u64 list \<times> hw_fence_driver_data" where
  "wait_update_loop abi cp fence_list client_data_list 0 i hs st = (0, hs, st)"
| "wait_update_loop abi cp fence_list client_data_list (Suc k) i hs st =
     (if i \<ge> length fence_list then (0, hs, st\<lparr>ub := True\<rparr>)
      else if (case client_data_list of Some ds \<Rightarrow> i \<ge> length ds | None \<Rightarrow> False) then (0, hs, st\<lparr>ub := True\<rparr>)
      else
        let fence = fence_list ! i;
            client_data = (case client_data_list of Some ds \<Rightarrow> ds ! i | None \<Rightarrow> 0);
            is_array = (case fence of
                None \<Rightarrow> False
              | Some fp \<Rightarrow> (case dma_fences st fp of None \<Rightarrow> False | Some f \<Rightarrow> df_array f \<noteq> None));
            (ret, hash, st1) =
              (if is_array then hw_fence_process_fence_array abi cp (the fence) client_data st
               else hw_fence_process_fence abi (Some cp) fence client_data st)
        in if ret \<noteq> 0 then (ret, hs, st1)
           else case hash of
               None \<Rightarrow> (0, hs, st1\<lparr>ub := True\<rparr>)
             | Some h \<Rightarrow> wait_update_loop abi cp fence_list client_data_list k (Suc i) (hs @ [h]) st1)"

definition msm_hw_fence_wait_update_v2 :: "hw_fence_abi \<Rightarrow> nat option \<Rightarrow> nat option list option \<Rightarrow> bool \<Rightarrow>
    u64 list option \<Rightarrow> u32 \<Rightarrow> hw_fence_driver_data \<Rightarrow> int \<times> u64 list \<times> hw_fence_driver_data" where
  "msm_hw_fence_wait_update_v2 abi client_handle fence_list handles client_data_list num_fences st =
     (case (client_handle, fence_list) of
        (Some cp, Some fences) \<Rightarrow>
          if fences = [] then (0, [], st\<lparr>ub := True\<rparr>)
          else if hd fences = None then (- EINVAL, [], st)
          else if \<not> vm_ready st then (- EAGAIN, [], st)
          else (case client_store st cp of
              None \<Rightarrow> (0, [], st\<lparr>ub := True\<rparr>)
            | Some c \<Rightarrow>
                (let data_id = hw_fence_get_client_data_id abi (cl_client_id_ext c) in
                 if client_data_list \<noteq> None \<and> data_id \<ge> HW_FENCE_MAX_CLIENTS_WITH_DATA then (- EINVAL, [], st)
                 else if cl_client_id c > rxq_clients_num st then (- EINVAL, [], st)
                 else case wait_update_loop abi cp fences client_data_list (unat num_fences) 0 [] st of
                     (ret, hs, st1) \<Rightarrow> (ret, if handles then hs else [], st1)))
      | _ \<Rightarrow> (- EINVAL, [], st))"

definition msm_hw_fence_wait_update :: "hw_fence_abi \<Rightarrow> nat option \<Rightarrow> nat option list option \<Rightarrow> u32 \<Rightarrow>
    hw_fence_driver_data \<Rightarrow> int \<times> u64 list \<times> hw_fence_driver_data" where
  "msm_hw_fence_wait_update abi client_handle fence_list num_fences st =
     msm_hw_fence_wait_update_v2 abi client_handle fence_list False None num_fences st"

section \<open>Reset\<close>

fun reset_loop :: "hw_fence_abi \<Rightarrow> nat \<Rightarrow> u32 \<Rightarrow> nat \<Rightarrow> nat \<Rightarrow> hw_fence_driver_data \<Rightarrow> hw_fence_driver_data" where
  "reset_loop abi cp reset_flags 0 i st = st"
| "reset_loop abi cp reset_flags (Suc k) i st =
     reset_loop abi cp reset_flags k (Suc i)
       (snd (hw_fence_utils_cleanup_fence abi cp i (of_nat i) reset_flags st))"

definition msm_hw_fence_reset_client :: "hw_fence_abi \<Rightarrow> nat option \<Rightarrow> u32 \<Rightarrow>
    hw_fence_driver_data \<Rightarrow> int \<times> hw_fence_driver_data" where
  "msm_hw_fence_reset_client abi client_handle reset_flags st =
     (case client_handle of
        None \<Rightarrow> (- EINVAL, st)
      | Some cp \<Rightarrow>
          if \<not> vm_ready st then (- EAGAIN, st)
          else
            let st1 = reset_loop abi cp reset_flags (unat (hw_fences_tbl_cnt st)) 0 st
            in (0, hw_fence_utils_reset_queues cp st1))"

section \<open>Transmit queue and IPCC\<close>

definition msm_hw_fence_update_txq :: "nat option \<Rightarrow> u64 \<Rightarrow> u64 \<Rightarrow> u32 \<Rightarrow>
    hw_fence_driver_data \<Rightarrow> int \<times> hw_fence_driver_data" where
  "msm_hw_fence_update_txq client_handle handle flags error st =
     (if \<not> resources_ready st \<or> \<not> vm_ready st then (- EAGAIN, st)
      else case client_handle of
          None \<Rightarrow> (- EINVAL, st)
        | Some cp \<Rightarrow>
            if handle \<ge> ucast (hw_fences_tbl_cnt st) then (- EINVAL, st)
            else
              let f = hw_fences_tbl st ! unat handle
              in (0, snd (hw_fence_update_queue cp (hf_ctx_id f) (hf_seq_id f) handle flags 0 error
                        (HW_FENCE_TX_QUEUE - 1) st)))"

definition msm_hw_fence_update_txq_error :: "hw_fence_abi \<Rightarrow> nat option \<Rightarrow> u64 \<Rightarrow> u32 \<Rightarrow> u32 \<Rightarrow>
    hw_fence_driver_data \<Rightarrow> int \<times> hw_fence_driver_data" where
  "msm_hw_fence_update_txq_error abi client_handle handle error update_flags st =
     (if \<not> resources_ready st \<or> \<not> vm_ready st then (- EAGAIN, st)
      else case client_handle of
          None \<Rightarrow> (- EINVAL, st)
        | Some cp \<Rightarrow>
            if handle \<ge> ucast (hw_fences_tbl_cnt st) \<or> error = 0 then (- EINVAL, st)
            else if update_flags \<noteq> UPDATE_ERROR_WITH_MOVE abi then (- EINVAL, st)
            else (0, snd (hw_fence_update_existing_txq_payload cp handle error st)))"

definition msm_hw_fence_trigger_signal :: "nat option \<Rightarrow> u32 \<Rightarrow> u32 \<Rightarrow> u32 \<Rightarrow>
    hw_fence_driver_data \<Rightarrow> int \<times> hw_fence_driver_data" where
  "msm_hw_fence_trigger_signal client_handle tx_client_pid rx_client_vid signal_id st =
     (if \<not> resources_ready st \<or> \<not> vm_ready st then (- EAGAIN, st)
      else case client_handle of
          None \<Rightarrow> (- EINVAL, st)
        | Some cp \<Rightarrow> (0, hw_fence_ipcc_trigger_signal tx_client_pid rx_client_vid signal_id st))"

section \<open>Error callbacks and deregistration\<close>

definition msm_hw_fence_register_error_cb :: "nat option \<Rightarrow> nat option \<Rightarrow> nat option \<Rightarrow>
    hw_fence_driver_data \<Rightarrow> int \<times> hw_fence_driver_data" where
  "msm_hw_fence_register_error_cb client_handle cb data st =
     (if \<not> resources_ready st then (- EAGAIN, st)
      else case (client_handle, cb, data) of
          (Some cp, Some f, Some d) \<Rightarrow>
            (case client_store st cp of
               None \<Rightarrow> (0, st\<lparr>ub := True\<rparr>)
             | Some c \<Rightarrow>
                 if cl_fence_error_cb c \<noteq> None then (- EINVAL, st)
                 else (0, upd_client cp (\<lambda>c. c\<lparr>cl_fence_error_cb_userdata := d, cl_fence_error_cb := Some f\<rparr>) st))
        | _ \<Rightarrow> (- EINVAL, st))"

text \<open>The function returns 0 at its end, not the value of its variable \<^verbatim>\<open>ret\<close>.\<close>

definition msm_hw_fence_deregister_error_cb :: "nat option \<Rightarrow>
    hw_fence_driver_data \<Rightarrow> int \<times> hw_fence_driver_data" where
  "msm_hw_fence_deregister_error_cb client_handle st =
     (if \<not> resources_ready st then (- EAGAIN, st)
      else case client_handle of
          None \<Rightarrow> (- EINVAL, st)
        | Some cp \<Rightarrow>
            (case client_store st cp of
               None \<Rightarrow> (0, st\<lparr>ub := True\<rparr>)
             | Some c \<Rightarrow>
                 if cl_error_cb_lock c then (- EAGAIN, st)
                 else
                   let st1 = upd_client cp (\<lambda>c. c\<lparr>cl_error_cb_lock := True\<rparr>) st;
                       st2 = (if cl_fence_error_cb c = None then st1
                              else upd_client cp (\<lambda>c. c\<lparr>cl_fence_error_cb := None, cl_fence_error_cb_userdata := 0\<rparr>) st1)
                   in (0, upd_client cp (\<lambda>c. c\<lparr>cl_error_cb_lock := False\<rparr>) st2)))"

definition hw_fence_cleanup_client :: "nat \<Rightarrow> hw_fence_driver_data \<Rightarrow> hw_fence_driver_data" where
  "hw_fence_cleanup_client cp st =
     (case client_store st cp of
        None \<Rightarrow> st\<lparr>ub := True\<rparr>
      | Some c \<Rightarrow>
          if unat (cl_client_id c) \<ge> length (clients st) then st\<lparr>ub := True\<rparr>
          else st\<lparr>clients := (clients st)[unat (cl_client_id c) := None],
                  client_store := (client_store st)(cp := None)\<rparr>)"

definition msm_hw_fence_deregister :: "nat option \<Rightarrow> hw_fence_driver_data \<Rightarrow> int \<times> hw_fence_driver_data" where
  "msm_hw_fence_deregister client_handle st =
     (case client_handle of
        None \<Rightarrow> (- EINVAL, st)
      | Some cp \<Rightarrow>
          (case client_store st cp of
             None \<Rightarrow> (0, st\<lparr>ub := True\<rparr>)
           | Some c \<Rightarrow>
               if cl_client_id c \<ge> clients_num st then (- EINVAL, st)
               else (0, hw_fence_cleanup_client cp st)))"

section \<open>Reset leaves no trace of the client\<close>

lemma reset_loop_step:
  assumes "keys_ok st" "client_ids st cp = Some cid" "fl AND RESET_WITHOUT_DESTROY abi = 0"
    and "i + k = length (hw_fences_tbl st)" "\<forall>j < i. slot_reset cid (hw_fences_tbl st ! j)"
  defines "st' \<equiv> reset_loop abi cp fl k i st"
  shows "keys_ok st' \<and> length (hw_fences_tbl st') = length (hw_fences_tbl st) \<and> client_ids st' = client_ids st \<and>
    (\<forall>j < length (hw_fences_tbl st). slot_reset cid (hw_fences_tbl st' ! j)) \<and>
    (\<forall>j < length (hw_fences_tbl st). hf_valid (hw_fences_tbl st ! j) \<noteq> 0 \<longrightarrow>
       hf_fence_allocator (hw_fences_tbl st ! j) \<noteq> cid \<longrightarrow>
       hw_fences_tbl st' ! j = (if i \<le> j then unwait cid else (\<lambda>f. f)) (hw_fences_tbl st ! j))"
  using assms(1-5) unfolding st'_def
proof (induction k arbitrary: i st)
  case 0
  then show ?case by simp
next
  case (Suc k)
  obtain c where c: "client_store st cp = Some c" "cl_client_id c = cid"
    using Suc.prems(2) by (auto simp: client_ids_def)
  let ?st1 = "snd (hw_fence_utils_cleanup_fence abi cp i (of_nat i) fl st)"
  have "reset_step cid i st ?st1"
    using cleanup_fence_step [OF Suc.prems(1) _ c(1) Suc.prems(3)] Suc.prems(4) c(2) by simp
  note step = this [unfolded reset_step_def]
  have slots: "\<forall>j < Suc i. slot_reset cid (hw_fences_tbl ?st1 ! j)"
    using step Suc.prems(4,5) by (auto simp: less_Suc_eq)
  have IH: "keys_ok (reset_loop abi cp fl k (Suc i) ?st1) \<and>
    length (hw_fences_tbl (reset_loop abi cp fl k (Suc i) ?st1)) = length (hw_fences_tbl ?st1) \<and>
    client_ids (reset_loop abi cp fl k (Suc i) ?st1) = client_ids ?st1 \<and>
    (\<forall>j < length (hw_fences_tbl ?st1). slot_reset cid (hw_fences_tbl (reset_loop abi cp fl k (Suc i) ?st1) ! j)) \<and>
    (\<forall>j < length (hw_fences_tbl ?st1). hf_valid (hw_fences_tbl ?st1 ! j) \<noteq> 0 \<longrightarrow>
       hf_fence_allocator (hw_fences_tbl ?st1 ! j) \<noteq> cid \<longrightarrow> hw_fences_tbl (reset_loop abi cp fl k (Suc i) ?st1) ! j =
         (if Suc i \<le> j then unwait cid else (\<lambda>f. f)) (hw_fences_tbl ?st1 ! j))"
    using step Suc.prems slots by (intro Suc.IH) auto
  have "hw_fences_tbl (reset_loop abi cp fl k (Suc i) ?st1) ! j =
      (if i \<le> j then unwait cid else (\<lambda>f. f)) (hw_fences_tbl st ! j)"
    if j: "j < length (hw_fences_tbl st)" "hf_valid (hw_fences_tbl st ! j) \<noteq> 0"
      "hf_fence_allocator (hw_fences_tbl st ! j) \<noteq> cid" for j
  proof -
    have eq: "hw_fences_tbl ?st1 ! j = (if j = i then unwait cid else (\<lambda>f. f)) (hw_fences_tbl st ! j)"
      using step j by blast
    then have "hf_valid (hw_fences_tbl ?st1 ! j) \<noteq> 0" "hf_fence_allocator (hw_fences_tbl ?st1 ! j) \<noteq> cid"
      "j < length (hw_fences_tbl ?st1)"
      using j step by auto
    then have "hw_fences_tbl (reset_loop abi cp fl k (Suc i) ?st1) ! j =
        (if Suc i \<le> j then unwait cid else (\<lambda>f. f)) (hw_fences_tbl ?st1 ! j)"
      using IH by blast
    then show ?thesis using eq by (auto simp: not_less_eq_eq)
  qed
  then show ?case using IH step by simp
qed

lemma fences_same_reset_queues: "fences_same st (hw_fence_utils_reset_queues cp st)"
proof -
  have two: "fences_same st (global_atomic_store (Client_Lock i) False (f (global_atomic_store (Client_Lock i) True
      (upd_client_queue cp qt q st))))" if "\<And>s. fences_same s (f s)" for i f qt q
    by (rule fences_same_trans [OF fences_same_upd_client_queue fences_same_trans [OF fences_same_client_lock
          fences_same_trans [OF that fences_same_client_lock]]])
  have "fences_same s (s\<lparr>ub := True\<rparr>)" "fences_same s (upd_client_queue cp qt q s)" for s qt q by auto
  then show ?thesis
    using two [of "\<lambda>s. s\<lparr>ub := True\<rparr>"] two [of "upd_client_queue cp qt q" for qt q]
    by (auto simp: hw_fence_utils_reset_queues_def Let_def split: option.split)
qed

text \<open>
  C7: a reset of a registered client without the flag \<open>RESET_WITHOUT_DESTROY\<close>, in a ready driver whose table has its counted number of entries,
  unique keys and free locks, returns 0; afterwards the client waits for no fence of the table and no valid fence is one that it allocated, keys are
  still unique, and a valid fence of another client is the one from before except for the cleared wait bit of the reset client.
  (With the flag the valid fences of the client stay.)
\<close>

theorem fence_reset_client:
  assumes "keys_ok st" "client_store st cp = Some c" "vm_ready st"
    and "unat (hw_fences_tbl_cnt st) = length (hw_fences_tbl st)" "reset_flags AND RESET_WITHOUT_DESTROY abi = 0"
  shows "case msm_hw_fence_reset_client abi (Some cp) reset_flags st of (ret, st') \<Rightarrow> ret = 0 \<and> keys_ok st' \<and>
    (\<forall>f \<in> set (hw_fences_tbl st'). hf_wait_client_mask f AND BIT (unat (cl_client_id c)) = 0 \<and>
       \<not> (hf_valid f \<noteq> 0 \<and> hf_fence_allocator f = cl_client_id c)) \<and>
    (\<forall>j < length (hw_fences_tbl st). hf_valid (hw_fences_tbl st ! j) \<noteq> 0 \<longrightarrow>
       hf_fence_allocator (hw_fences_tbl st ! j) \<noteq> cl_client_id c \<longrightarrow>
       hw_fences_tbl st' ! j = unwait (cl_client_id c) (hw_fences_tbl st ! j))"
proof -
  let ?st1 = "reset_loop abi cp reset_flags (unat (hw_fences_tbl_cnt st)) 0 st"
  let ?st2 = "hw_fence_utils_reset_queues cp ?st1"
  have ids: "client_ids st cp = Some (cl_client_id c)" using assms(2) by (simp add: client_ids_def)
  note loop = reset_loop_step [OF assms(1) ids assms(5), of 0 "unat (hw_fences_tbl_cnt st)"]
  have same: "hw_fences_tbl ?st2 = hw_fences_tbl ?st1" "keys_ok ?st2 = keys_ok ?st1"
    using fences_same_reset_queues [of ?st1 cp] keys_ok_same by (auto simp: fences_same_def)
  have "msm_hw_fence_reset_client abi (Some cp) reset_flags st = (0, ?st2)"
    using assms(3) by (simp add: msm_hw_fence_reset_client_def Let_def)
  then show ?thesis
    using loop assms(4) same by (auto simp: all_set_conv_all_nth slot_reset_def)
qed

definition sample_abi :: hw_fence_abi where
  "sample_abi = \<lparr>id_CTX0 = 1, id_VAL0 = 8, id_VAL1 = 9, id_IPE = 15, id_VPU = 16, id_IFE0 = 17, id_CLIENT_MAX = 90,
     flag_ENABLED_BIT = 31, flag_SIGNALED_BIT = 30, RESET_WITHOUT_ERROR = 1, RESET_WITHOUT_DESTROY = 2,
     ERROR_RESET = 1, UPDATE_ERROR_WITH_MOVE = 1\<rparr>"

definition owner_driver :: hw_fence_driver_data where
  "owner_driver = put_fence 1 ((new_fence 0 1 1 5 0 blank_fence)\<lparr>hf_wait_client_mask := 2\<rparr>) (queue_driver 4 0 1)"

lemma queue_driver_simps [simp]:
  "hw_fences_tbl (queue_driver n s f) = replicate 4 blank_fence"
  "hw_fence_table_entries (queue_driver n s f) = 4"
  "hw_fences_tbl_cnt (queue_driver n s f) = 4"
  "vm_ready (queue_driver n s f)" "resources_ready (queue_driver n s f)"
  by (simp_all add: queue_driver_def blank_driver_def)

lemma queue_driver_keys: "keys_ok (queue_driver n s f)"
  by (simp add: keys_ok_def table_ok_def fence_locks_free_def) (simp add: blank_fence_def)

lemma slot_of_queue_driver: "k \<noteq> (0, 0) \<Longrightarrow> slot_of (queue_driver n s f) k = None"
  using slot_of_None [OF keys_ok_table [OF queue_driver_keys [of n s f]], of k] by simp

lemma owner_driver_keys: "keys_ok owner_driver"
  unfolding owner_driver_def
  by (rule keys_ok_put_fresh) (simp_all add: queue_driver_keys slot_of_queue_driver fence_key_def blank_fence_def)

theorem fence_reset_client_witness:
  "case msm_hw_fence_reset_client sample_abi (Some 7) 0 owner_driver of (ret, st') \<Rightarrow> ret = 0 \<and> keys_ok st' \<and>
    (\<forall>f \<in> set (hw_fences_tbl st'). hf_wait_client_mask f AND BIT 1 = 0 \<and> \<not> (hf_valid f \<noteq> 0 \<and> hf_fence_allocator f = 1))"
proof -
  obtain c where c: "client_store owner_driver 7 = Some c" "cl_client_id c = 1"
    by (simp add: owner_driver_def queue_driver_def blank_client_def)
  have "vm_ready owner_driver" "unat (hw_fences_tbl_cnt owner_driver) = length (hw_fences_tbl owner_driver)"
    "(0 :: u32) AND RESET_WITHOUT_DESTROY sample_abi = 0"
    by (simp_all add: owner_driver_def put_fence_def)
  from fence_reset_client [OF owner_driver_keys c(1) this] show ?thesis
    using c(2) by auto
qed

end
