(* ===== verification/Fence_Join.thy ===== *)
theory Fence_Join
  imports Fence_Api
begin

text \<open>
  What waiting on a hw-fence and on a fence array does: the registration of a client, the
  immediate signal of a late waiter, the bookkeeping of join fences, and concrete runs on the
  corner cases of the code.
\<close>

section \<open>Registration of a waiting client\<close>

definition waiting :: "hw_fence_abi \<Rightarrow> msm_hw_fence_client \<Rightarrow> u64 \<Rightarrow> u64 \<Rightarrow> msm_hw_fence \<Rightarrow> msm_hw_fence" where
  "waiting abi c client_data time f =
     f\<lparr>hf_wait_client_mask := hf_wait_client_mask f OR BIT (unat (cl_client_id c)),
       hf_fence_wait_time := time, hf_debug_refcount := hf_debug_refcount f + 1,
       hf_client_data := (if client_data \<noteq> 0
          then (hf_client_data f)[hw_fence_get_client_data_id abi (cl_client_id_ext c) := client_data]
          else hf_client_data f)\<rparr>"

lemma waiting_simps [simp]:
  "hf_lock (waiting abi c cd t f) = hf_lock f" "hf_valid (waiting abi c cd t f) = hf_valid f"
  "fence_key (waiting abi c cd t f) = fence_key f" "hf_flags (waiting abi c cd t f) = hf_flags f"
  "hf_ctx_id (waiting abi c cd t f) = hf_ctx_id f" "hf_seq_id (waiting abi c cd t f) = hf_seq_id f"
  by (simp_all add: waiting_def fence_key_def)

lemma register_wait_section_eq:
  assumes "i < length (hw_fences_tbl st)" "hf_lock (hw_fences_tbl st ! i) = 0"
  shows "register_wait_section abi c i client_data st =
    put_fence i (waiting abi c client_data (qtime_src st (qtime_reads st)) (hw_fences_tbl st ! i)) (tick st)"
  using assms
  by (cases "hw_fences_tbl st ! i")
    (simp add: register_wait_section_def Let_def upd_fence_def hw_fence_get_qtime_def put_fence_def tick_def waiting_def
      fence_lock_True fence_lock_False)

lemma register_wait_eq:
  assumes ok: "table_ok st" and c: "client_store st cp = Some c"
    and cd: "client_data = 0 \<or> hw_fence_get_client_data_id abi (cl_client_id_ext c) < HW_FENCE_MAX_CLIENTS_WITH_DATA"
    and slot: "slot_of st (x, q) = Some i"
  shows "\<exists>h. unat h = i \<and> hw_fence_register_wait_client abi fence cp x q client_data st =
    (let st1 = put_fence i (waiting abi c client_data (qtime_src st (qtime_reads st)) (hw_fences_tbl st ! i)) (tick st)
     in (0, Some h,
      if hf_flags (hw_fences_tbl st ! i) AND MSM_HW_FENCE_FLAG_SIGNAL \<noteq> 0
      then fence_ctl_signal cp i h 0 client_data 0
            (case fence of Some fp \<Rightarrow> set_dma_flag (flag_SIGNALED_BIT abi) fp st1 | None \<Rightarrow> st1)
      else st1))"
proof -
  have i: "i < length (hw_fences_tbl st)" "hf_lock (hw_fences_tbl st ! i) = 0"
    using slot_of_SomeD(1) [OF ok slot] ok by (auto simp: table_ok_def fence_locks_free_def)
  obtain h where h: "msm_hw_fence_find (Some c) x q st = (st, h, Some i)" "unat h = i"
    using find_eq [OF ok, of "Some c" x q] slot by auto
  have cd': "\<not> (client_data \<noteq> 0 \<and> hw_fence_get_client_data_id abi (cl_client_id_ext c) \<ge> HW_FENCE_MAX_CLIENTS_WITH_DATA)"
    using cd by auto
  show ?thesis
    unfolding hw_fence_register_wait_client_def Let_def c option.case h(1) prod.case if_not_P [OF cd']
      register_wait_section_eq [OF i]
    using i h(2) by (intro exI [of _ h]) simp
qed

lemma queue_usable_put [simp]: "queue_usable cp qt (put_fence i f st) = queue_usable cp qt st"
  by (simp add: queue_usable_def rx_lock_free_def put_fence_def)

lemma client_queue_put [simp]: "client_queue cp qt (put_fence i f st) = client_queue cp qt st"
  by (simp add: client_queue_def)

lemma client_queue_signal [simp]: "client_queue cp qt (hw_fence_ipcc_trigger_signal a b d st) = client_queue cp qt st"
  by (simp add: client_queue_def hw_fence_ipcc_trigger_signal_def Let_def)

text \<open>
  C8: registering for a fence that is not signalled yet sets exactly the wait bit, the wait
  time, the reference count and the client data of the entry found under the key, in the slot of
  the returned hash, and signals nobody; without an entry under the key the call fails with
  EINVAL and changes nothing.
\<close>

theorem fence_wait_registers:
  assumes "table_ok st" "client_store st cp = Some c"
    and "client_data = 0 \<or> hw_fence_get_client_data_id abi (cl_client_id_ext c) < HW_FENCE_MAX_CLIENTS_WITH_DATA"
    and "\<And>f. f \<in> set (hw_fences_tbl st) \<Longrightarrow> fence_key f = (x, q) \<Longrightarrow> hf_flags f AND MSM_HW_FENCE_FLAG_SIGNAL = 0"
  shows "case hw_fence_register_wait_client abi fence cp x q client_data st of (ret, hash, st') \<Rightarrow>
    if \<exists>f \<in> set (hw_fences_tbl st). fence_key f = (x, q)
    then \<exists>h. ret = 0 \<and> hash = Some h \<and> unat h < length (hw_fences_tbl st) \<and>
       fence_key (hw_fences_tbl st ! unat h) = (x, q) \<and> client_store st' = client_store st \<and> events_out st' = events_out st \<and>
       hw_fences_tbl st' = (hw_fences_tbl st)[unat h :=
         waiting abi c client_data (qtime_src st (qtime_reads st)) (hw_fences_tbl st ! unat h)]
    else ret = - EINVAL \<and> st' = st"
proof (cases "slot_of st (x, q)")
  case None
  then have "\<not> (\<exists>f \<in> set (hw_fences_tbl st). fence_key f = (x, q))"
    using slot_of_None [OF assms(1)] by blast
  moreover obtain h where "msm_hw_fence_find (Some c) x q st = (st, h, None)"
    using find_eq [OF assms(1), of "Some c" x q] None by auto
  ultimately show ?thesis
    using assms(2,3) by (auto simp: hw_fence_register_wait_client_def Let_def)
next
  case (Some i)
  note i = slot_of_SomeD [OF assms(1) Some]
  then have "\<exists>f \<in> set (hw_fences_tbl st). fence_key f = (x, q)"
    and "hf_flags (hw_fences_tbl st ! i) AND MSM_HW_FENCE_FLAG_SIGNAL = 0"
    using assms(4) nth_mem [OF i(1)] by auto
  then show ?thesis
    using register_wait_eq [OF assms(1-3) Some, of fence] i by (auto simp: Let_def)
qed

lemma owner_driver_fence: "hw_fences_tbl owner_driver ! 1 = (new_fence 0 1 1 5 0 blank_fence)\<lparr>hf_wait_client_mask := 2\<rparr>"
  by (simp add: owner_driver_def)

lemma owner_driver_flags: "f \<in> set (hw_fences_tbl owner_driver) \<Longrightarrow> hf_flags f = 0"
  by (auto simp: owner_driver_def new_fence_def cleanup_hw_fence_def blank_fence_def
      dest!: set_update_subset_insert [THEN subsetD])

theorem fence_wait_registers_witness:
  "case hw_fence_register_wait_client sample_abi None 7 1 5 0 owner_driver of (ret, hash, st') \<Rightarrow> ret = 0 \<and> hash = Some 1"
proof -
  obtain c where c: "client_store owner_driver 7 = Some c"
    by (simp add: owner_driver_def queue_driver_def)
  have key: "fence_key (hw_fences_tbl owner_driver ! 1) = (1, 5)" by (simp add: owner_driver_fence fence_key_def del: One_nat_def)
  have len: "length (hw_fences_tbl owner_driver) = 4" by (simp add: owner_driver_def)
  have mem: "hw_fences_tbl owner_driver ! 1 \<in> set (hw_fences_tbl owner_driver)" using len by (intro nth_mem) simp
  have only: "s = 1" if "s < 4" "fence_key (hw_fences_tbl owner_driver ! s) = (1, 5)" for s
    using that by (auto simp: owner_driver_def fence_key_def nth_list_update blank_fence_def split: if_splits)
  have ex: "\<exists>f \<in> set (hw_fences_tbl owner_driver). fence_key f = (1, 5)" using key mem by blast
  have "case hw_fence_register_wait_client sample_abi None 7 1 5 0 owner_driver of (ret, hash, st') \<Rightarrow>
      \<exists>h. ret = 0 \<and> hash = Some h \<and> unat h < length (hw_fences_tbl owner_driver) \<and>
        fence_key (hw_fences_tbl owner_driver ! unat h) = (1, 5)"
    using fence_wait_registers [OF keys_ok_table [OF owner_driver_keys] c, of 0 sample_abi 1 5 None] owner_driver_flags ex
    by (auto split: prod.splits)
  moreover have "h = 1" if "unat h < 4" "fence_key (hw_fences_tbl owner_driver ! unat h) = (1, 5)" for h :: u64
    using only [OF that] by (simp add: word_unat_eq_iff)
  ultimately show ?thesis using len by (auto split: prod.splits)
qed

section \<open>Runs on corner cases\<close>

definition hw_dma_fence :: "u64 \<Rightarrow> u64 \<Rightarrow> dma_fence" where
  "hw_dma_fence x q = \<lparr>df_context = x, df_seqno = q, df_flags = BIT (flag_ENABLED_BIT sample_abi), df_array = None\<rparr>"

definition dma_array :: "u64 \<Rightarrow> u64 \<Rightarrow> nat option list \<Rightarrow> dma_fence" where
  "dma_array x q fs = \<lparr>df_context = x, df_seqno = q, df_flags = 0,
     df_array = Some \<lparr>arr_num_fences = of_nat (length fs), arr_fences = Some fs\<rparr>\<rparr>"

definition array_driver :: hw_fence_driver_data where
  "array_driver = (queue_driver 4 0 1)\<lparr>dma_fences := [10 \<mapsto> hw_dma_fence 1 5,
     20 \<mapsto> dma_array 2 1 [Some 10], 21 \<mapsto> dma_array 2 2 [Some 10], 22 \<mapsto> dma_array 2 3 [Some 10],
     23 \<mapsto> dma_array 2 4 []]\<rparr>"

definition join_parents_run :: "int list \<times> u32 \<times> bool" where
  "join_parents_run =
     (let (r0, h0, st0) = hw_fence_create (blank_client 1) 1 5 array_driver;
          (r1, h1, st1) = hw_fence_process_fence_array sample_abi 7 20 0 st0;
          (r2, h2, st2) = hw_fence_process_fence_array sample_abi 7 21 0 st1;
          (r3, h3, st3) = hw_fence_process_fence_array sample_abi 7 22 0 st2
      in ([r0, r1, r2, r3], hf_parents_cnt (hw_fences_tbl st3 ! unat h0), ub st3))"

text \<open>
  A fence can be the child of two join fences only. The header allows
  \<^verbatim>\<open>MSM_HW_FENCE_MAX_JOIN_PARENTS\<close> = 3 parents and the list has three places, but the
  registration of a third array over the same pending fence is refused with EINVAL.
\<close>

theorem fence_join_third_parent:
  "join_parents_run = ([0, 0, 0, - EINVAL], 2, False)"
  by code_simp

definition two_waiters_driver :: hw_fence_driver_data where
  "two_waiters_driver = (queue_driver 4 0 1)\<lparr>clients := [None, Some 7, Some 8], rxq_clients_num := 2,
     client_store := [7 \<mapsto> (blank_client 1)\<lparr>cl_queues := [blank_queue 4 0 1, blank_queue 4 0 1],
          cl_queues_num := 2, cl_update_rxq := True\<rparr>,
        8 \<mapsto> (blank_client 2)\<lparr>cl_queues := [blank_queue 4 0 1, blank_queue 4 0 1],
          cl_queues_num := 2, cl_update_rxq := True\<rparr>],
     hw_fences_tbl := (replicate 4 blank_fence)[1 := (new_fence 0 3 1 5 0 blank_fence)
        \<lparr>hf_wait_client_mask := 6, hf_client_data := [77, 0, 0, 0, 0], hf_error := 4\<rparr>]\<rparr>"

text \<open>
  The client data of one waiting client is given to the next. When the clients of a fence
  are signalled in one loop, a client that has no client data of its own receives the data that
  was read for the client before it.
\<close>

theorem fence_signal_stale_data:
  "(let st = signal_all_wait_clients sample_abi 1 1 1 two_waiters_driver
    in (map pl_client_data (client_queue_contents 7 1 st), map pl_client_data (client_queue_contents 8 1 st),
        hw_fence_get_client_data_id sample_abi 2, ub st)) = ([77], [77], HW_FENCE_MAX_CLIENTS_WITH_DATA, False)"
  by code_simp

text \<open>
  A client that starts to wait for a fence that was signalled with an error is told that
  there was no error, in contrast to the waiters of an already signalled fence array, who get
  the error of the array.
\<close>

theorem fence_late_waiter_loses_error:
  "(let st = two_waiters_driver\<lparr>hw_fences_tbl := (hw_fences_tbl two_waiters_driver)[1 :=
          (hw_fences_tbl two_waiters_driver ! 1)\<lparr>hf_flags := MSM_HW_FENCE_FLAG_SIGNAL\<rparr>],
        dma_fences := [10 \<mapsto> hw_dma_fence 1 5, 20 \<mapsto> dma_array 2 1 [Some 10]]\<rparr>;
        (r1, h1, st1) = hw_fence_register_wait_client sample_abi None 8 1 5 0 st;
        (r2, h2, st2) = hw_fence_process_fence_array sample_abi 8 20 0 st1
    in (r1, r2, map (\<lambda>p. (pl_ctxt_id p, pl_error p)) (client_queue_contents 8 1 st2))) =
   (0, 0, [(1, 0), (2, 4)])"
  by code_simp

fun update_txq_run :: "nat \<Rightarrow> int list \<Rightarrow> hw_fence_driver_data \<Rightarrow> int list \<times> nat" where
  "update_txq_run 0 rs st = (rs, length (client_queue_contents 7 0 st))"
| "update_txq_run (Suc n) rs st =
     (case msm_hw_fence_update_txq (Some 7) 1 0 0 st of (r, st1) \<Rightarrow> update_txq_run n (rs @ [r]) st1)"

text \<open>
  The API call that sends a fence to the transmit queue reports success when the queue is
  full: five calls on a queue of four entries all return 0, and three messages are queued.
\<close>

theorem fence_update_txq_full:
  "update_txq_run 5 [] owner_driver = ([0, 0, 0, 0, 0], 3)"
  by code_simp

section \<open>Join fences over pending and signalled children\<close>

definition signalled :: "msm_hw_fence \<Rightarrow> bool" where
  "signalled f \<longleftrightarrow> hf_flags f AND MSM_HW_FENCE_FLAG_SIGNAL \<noteq> 0"

text \<open>What the loop over a fence array does to a child and to the join fence.\<close>

definition joined_child :: "u64 \<Rightarrow> msm_hw_fence \<Rightarrow> msm_hw_fence" where
  "joined_child hash f =
     (if signalled f then f
      else f\<lparr>hf_parents_cnt := hf_parents_cnt f + 1,
             hf_parent_list := (hf_parent_list f)[unat (hf_parents_cnt f) := hash]\<rparr>)"

definition join_account :: "msm_hw_fence \<Rightarrow> msm_hw_fence \<Rightarrow> msm_hw_fence" where
  "join_account f jf =
     (if signalled f
      then jf\<lparr>hf_error := hf_error jf OR hf_error f, hf_pending_child_cnt := hf_pending_child_cnt jf - 1\<rparr>
      else jf)"

definition join_child :: "u64 \<Rightarrow> nat \<Rightarrow> nat \<Rightarrow> hw_fence_driver_data \<Rightarrow> hw_fence_driver_data" where
  "join_child hash join i st =
     (if signalled (hw_fences_tbl st ! i)
      then put_fence join (join_account (hw_fences_tbl st ! i) (hw_fences_tbl st ! join)) st
      else put_fence i (joined_child hash (hw_fences_tbl st ! i)) st)"

lemma joined_child_simps [simp]:
  "hf_lock (joined_child h f) = hf_lock f" "hf_valid (joined_child h f) = hf_valid f"
  "fence_key (joined_child h f) = fence_key f" "hf_flags (joined_child h f) = hf_flags f"
  "hf_error (joined_child h f) = hf_error f" "signalled (joined_child h f) = signalled f"
  by (simp_all add: joined_child_def fence_key_def signalled_def)

lemma join_account_simps [simp]:
  "hf_lock (join_account f jf) = hf_lock jf" "hf_valid (join_account f jf) = hf_valid jf"
  "fence_key (join_account f jf) = fence_key jf" "hf_flags (join_account f jf) = hf_flags jf"
  by (simp_all add: join_account_def fence_key_def)




lemma join_child_frame [simp]:
  "length (hw_fences_tbl (join_child h join i st)) = length (hw_fences_tbl st)"
  "dma_fences (join_child h join i st) = dma_fences st"
  "client_store (join_child h join i st) = client_store st"
  "clients (join_child h join i st) = clients st"
  "events_out (join_child h join i st) = events_out st"
  "hw_fence_table_entries (join_child h join i st) = hw_fence_table_entries st"
  by (simp_all add: join_child_def)









text \<open>The join fence after its creation and the registration of the waiting client.\<close>

definition fresh_join :: "u64 \<Rightarrow> u64 \<Rightarrow> u64 \<Rightarrow> u32 \<Rightarrow> u32 \<Rightarrow> msm_hw_fence \<Rightarrow> msm_hw_fence" where
  "fresh_join time x q num cid f =
     (new_fence time HW_FENCE_JOIN_FENCE_CLIENT_ID x q num f)\<lparr>hf_wait_client_mask := BIT (unat cid)\<rparr>"

lemma fresh_join_simps [simp]:
  "hf_lock (fresh_join t x q n c f) = hf_lock f" "hf_valid (fresh_join t x q n c f) = 1"
  "fence_key (fresh_join t x q n c f) = (x, q)" "hf_pending_child_cnt (fresh_join t x q n c f) = n"
  "hf_error (fresh_join t x q n c f) = 0" "hf_wait_client_mask (fresh_join t x q n c f) = BIT (unat c)"
  by (simp_all add: fresh_join_def new_fence_def fence_key_def cleanup_hw_fence_def)













end
