(* ===== verification/Rm_Types.thy ===== *)
theory Rm_Types
  imports Prelude
begin

unbundle bit_operations_syntax

text \<open>
  Data of the IPA resource manager (\<^verbatim>\<open>ipa_rm_resource.h\<close>, \<^verbatim>\<open>ipa_rm_peers_list.h\<close>,
  \<^verbatim>\<open>ipa_rm_dependency_graph.h\<close>, \<^verbatim>\<open>ipa_rm_i.h\<close> and the context of \<^verbatim>\<open>ipa_rm.c\<close>), the accesses to its
  heap, and the calls that leave it.

  Resources live at addresses of \<open>rm_heap\<close>; a resource that was freed has no entry, and an access
  to it, an access outside of an array, a cast to the wrong kind of resource or a call through a
  NULL function pointer sets the sticky flag \<open>rm_ub\<close>. The work queue is the list of its pending
  works in FIFO order. What the allocator answers is the stream \<open>alloc_ok\<close>, and what the drivers
  answer is the stream \<open>driver_result\<close>; both are arbitrary. All operations run under
  \<^verbatim>\<open>ipa_rm_lock\<close>, so an operation is one step.
\<close>

section \<open>Names, states and levels\<close>

text \<open>A resource name is the number of its enumerator; producers are even and consumers odd.\<close>

abbreviation (input) IPA_RM_RESOURCE_MAX :: nat where "IPA_RM_RESOURCE_MAX \<equiv> 22"
abbreviation (input) IPA_RM_INDEX_INVALID :: int where "IPA_RM_INDEX_INVALID \<equiv> - 1"

definition IPA_RM_RESORCE_IS_PROD :: "nat \<Rightarrow> bool" where
  "IPA_RM_RESORCE_IS_PROD x \<longleftrightarrow> x < IPA_RM_RESOURCE_MAX \<and> even x"

definition IPA_RM_RESORCE_IS_CONS :: "nat \<Rightarrow> bool" where
  "IPA_RM_RESORCE_IS_CONS x \<longleftrightarrow> x < IPA_RM_RESOURCE_MAX \<and> odd x"

text \<open>The names 11 and 13 are reserved and are no enumerators.\<close>

definition ipa_rm_prod_index :: "nat \<Rightarrow> int" where
  "ipa_rm_prod_index resource_name =
     (if resource_name \<in> set [0, 2, 4, 6, 8, 10, 12, 14, 16, 18, 20] then int resource_name else IPA_RM_INDEX_INVALID)"

definition ipa_rm_cons_index :: "nat \<Rightarrow> int" where
  "ipa_rm_cons_index resource_name =
     (if resource_name \<in> set [1, 3, 5, 7, 9, 15, 17, 19, 21] then int resource_name else IPA_RM_INDEX_INVALID)"

datatype ipa_rm_resource_state =
  IPA_RM_RELEASED | IPA_RM_REQUEST_IN_PROGRESS | IPA_RM_GRANTED | IPA_RM_RELEASE_IN_PROGRESS

datatype ipa_rm_resource_type = IPA_RM_PRODUCER | IPA_RM_CONSUMER

datatype ipa_rm_event = IPA_RM_RESOURCE_GRANTED | IPA_RM_RESOURCE_RELEASED

text \<open>\<^verbatim>\<open>IPA_VOLTAGE_SVS2\<close> is the same enumerator as \<^verbatim>\<open>IPA_VOLTAGE_UNSPECIFIED\<close>.\<close>

datatype ipa_voltage_level =
  IPA_VOLTAGE_UNSPECIFIED | IPA_VOLTAGE_SVS | IPA_VOLTAGE_NOMINAL | IPA_VOLTAGE_TURBO | IPA_VOLTAGE_MAX

fun voltage_rank :: "ipa_voltage_level \<Rightarrow> nat" where
  "voltage_rank IPA_VOLTAGE_UNSPECIFIED = 0"
| "voltage_rank IPA_VOLTAGE_SVS = 1"
| "voltage_rank IPA_VOLTAGE_NOMINAL = 2"
| "voltage_rank IPA_VOLTAGE_TURBO = 3"
| "voltage_rank IPA_VOLTAGE_MAX = 4"

lemma voltage_rank_inj: "voltage_rank a = voltage_rank b \<longleftrightarrow> a = b"
  by (cases a; cases b) simp_all

instantiation ipa_voltage_level :: linorder
begin

definition less_eq_ipa_voltage_level :: "ipa_voltage_level \<Rightarrow> ipa_voltage_level \<Rightarrow> bool" where
  "less_eq_ipa_voltage_level a b \<longleftrightarrow> voltage_rank a \<le> voltage_rank b"

definition less_ipa_voltage_level :: "ipa_voltage_level \<Rightarrow> ipa_voltage_level \<Rightarrow> bool" where
  "less_ipa_voltage_level a b \<longleftrightarrow> voltage_rank a < voltage_rank b"

instance
  by standard (auto simp: less_eq_ipa_voltage_level_def less_ipa_voltage_level_def voltage_rank_inj)

end

lemma voltage_bot [simp]: "IPA_VOLTAGE_UNSPECIFIED \<le> v"
  by (simp add: less_eq_ipa_voltage_level_def)

section \<open>Resources\<close>

record ipa_rm_resource_peer =
  peer_resource :: "nat option"
  userspace_dep :: bool

record ipa_rm_peers_list =
  peers :: "ipa_rm_resource_peer list"
  max_peers :: int
  peers_count :: int

record ipa_rm_notification_info =
  notify_cb :: nat
  user_data :: nat
  explicit :: bool

text \<open>
  \<^verbatim>\<open>struct ipa_rm_resource_prod\<close> and \<^verbatim>\<open>struct ipa_rm_resource_cons\<close> start with the common
  \<^verbatim>\<open>struct ipa_rm_resource\<close>; the code casts between them by the type of the resource. The record
  has the common members and those of both kinds; a resource has the members of its type only,
  and the accesses of an operation for one kind to the members of the other are flagged
  (\<open>as_prod\<close>, \<open>as_cons\<close> below).
\<close>

record ipa_rm_resource =
  rs_name :: nat
  rs_type :: ipa_rm_resource_type
  floor_voltage :: ipa_voltage_level
  max_bw :: u32
  needed_bw :: u32
  rs_state :: ipa_rm_resource_state
  peers_list :: "ipa_rm_peers_list option"
  usage_count :: int
  request_completed :: bool
  request_resource :: "nat option"
  release_resource :: "nat option"
  event_listeners :: "ipa_rm_notification_info list"
  pending_request :: int
  pending_release :: int

text \<open>What \<^verbatim>\<open>kzalloc\<close> leaves in a new resource.\<close>

definition zero_resource :: ipa_rm_resource where
  "zero_resource = \<lparr>rs_name = 0, rs_type = IPA_RM_PRODUCER, floor_voltage = IPA_VOLTAGE_UNSPECIFIED, max_bw = 0, needed_bw = 0,
     rs_state = IPA_RM_RELEASED, peers_list = None, usage_count = 0, request_completed = False,
     request_resource = None, release_resource = None, event_listeners = [], pending_request = 0, pending_release = 0\<rparr>"

record ipa_rm_register_params =
  reg_user_data :: nat
  reg_notify_cb :: nat

record ipa_rm_create_params =
  cp_name :: nat
  cp_floor_voltage :: ipa_voltage_level
  cp_reg_params :: ipa_rm_register_params
  cp_request_resource :: "nat option"
  cp_release_resource :: "nat option"

section \<open>The work queue and the context\<close>

datatype ipa_rm_wq_cmd = IPA_RM_WQ_NOTIFY_PROD | IPA_RM_WQ_NOTIFY_CONS | IPA_RM_WQ_RESOURCE_CB

text \<open>The works of the queue with their handler as the constructor.\<close>

datatype rm_work =
    Wq_Work ipa_rm_wq_cmd nat ipa_rm_event bool
  | Wq_Resume_Work nat ipa_rm_resource_state u32 bool
  | Wq_Suspend_Work nat ipa_rm_resource_state u32
  | Wq_Perf_Work ipa_voltage_level u32

record ipa_rm_delayed_release_work_type =
  dw_resource_name :: nat
  dw_needed_bw :: u32
  dw_dec_usage_count :: bool

text \<open>The calls to clients, to the drivers of consumers and to the IPA driver, in order.\<close>

datatype rm_call =
    Call_Notify nat nat ipa_rm_event
  | Call_Request_Resource nat
  | Call_Release_Resource nat
  | Call_Inc_Client_No_Block nat
  | Call_Inc_Client nat
  | Call_Dec_Client nat
  | Call_Suspend_No_Block nat
  | Call_Suspend_Sync nat
  | Call_Resume nat
  | Call_Set_Perf_Profile ipa_voltage_level u32

text \<open>The global \<^verbatim>\<open>ipa_rm_ctx\<close>: NULL, a live context, or a pointer to a freed one.\<close>

datatype rm_ctx_pointer = Ctx_Null | Ctx_Live | Ctx_Dangling

record ipa_rm_context_type =
  ipa_rm_ctx :: rm_ctx_pointer
  rm_heap :: "nat \<Rightarrow> ipa_rm_resource option"
  rm_next :: nat
  resource_table :: "nat option list"
  vote_volt :: "ipa_voltage_level list"
  curr_volt :: ipa_voltage_level
  bw_resources :: "u32 list"
  curr_bw :: u32
  ipa_rm_wq :: "rm_work list"
  delayed_works :: "ipa_rm_delayed_release_work_type list"
  alloc_ok :: "nat \<Rightarrow> bool"
  allocs :: nat
  driver_result :: "nat \<Rightarrow> int"
  driver_calls :: nat
  rm_log :: "rm_call list"
  rm_ub :: bool

section \<open>Memory and calls\<close>

definition kzalloc :: "ipa_rm_context_type \<Rightarrow> bool \<times> ipa_rm_context_type" where
  "kzalloc st = (alloc_ok st (allocs st), st\<lparr>allocs := allocs st + 1\<rparr>)"

definition call_driver :: "rm_call \<Rightarrow> ipa_rm_context_type \<Rightarrow> int \<times> ipa_rm_context_type" where
  "call_driver c st = (driver_result st (driver_calls st), st\<lparr>driver_calls := driver_calls st + 1, rm_log := rm_log st @ [c]\<rparr>)"

definition call_void :: "rm_call \<Rightarrow> ipa_rm_context_type \<Rightarrow> ipa_rm_context_type" where
  "call_void c st = st\<lparr>rm_log := rm_log st @ [c]\<rparr>"

definition flag_ub :: "bool \<Rightarrow> ipa_rm_context_type \<Rightarrow> ipa_rm_context_type" where
  "flag_ub bad st = (if bad then st\<lparr>rm_ub := True\<rparr> else st)"

text \<open>An access to the members of the context.\<close>

definition use_ctx :: "ipa_rm_context_type \<Rightarrow> ipa_rm_context_type" where
  "use_ctx st = flag_ub (ipa_rm_ctx st \<noteq> Ctx_Live) st"

text \<open>The resource at an address, and the update of its members.\<close>

definition res :: "ipa_rm_context_type \<Rightarrow> nat \<Rightarrow> ipa_rm_resource" where
  "res st p = (case rm_heap st p of Some r \<Rightarrow> r | None \<Rightarrow> zero_resource)"

definition upd_res :: "nat \<Rightarrow> (ipa_rm_resource \<Rightarrow> ipa_rm_resource) \<Rightarrow> ipa_rm_context_type \<Rightarrow> ipa_rm_context_type" where
  "upd_res p f st =
     (case rm_heap st p of None \<Rightarrow> st\<lparr>rm_ub := True\<rparr> | Some r \<Rightarrow> st\<lparr>rm_heap := (rm_heap st)(p \<mapsto> f r)\<rparr>)"

definition as_res :: "nat \<Rightarrow> ipa_rm_context_type \<Rightarrow> ipa_rm_context_type" where
  "as_res p st = flag_ub (rm_heap st p = None) st"

definition as_prod :: "nat \<Rightarrow> ipa_rm_context_type \<Rightarrow> ipa_rm_context_type" where
  "as_prod p st = flag_ub (rm_heap st p = None \<or> rs_type (res st p) \<noteq> IPA_RM_PRODUCER) st"

definition as_cons :: "nat \<Rightarrow> ipa_rm_context_type \<Rightarrow> ipa_rm_context_type" where
  "as_cons p st = flag_ub (rm_heap st p = None \<or> rs_type (res st p) \<noteq> IPA_RM_CONSUMER) st"

definition set_state :: "nat \<Rightarrow> ipa_rm_resource_state \<Rightarrow> ipa_rm_context_type \<Rightarrow> ipa_rm_context_type" where
  "set_state p s = upd_res p (\<lambda>r. r\<lparr>rs_state := s\<rparr>)"

section \<open>The work queue\<close>

definition queue_work :: "rm_work \<Rightarrow> ipa_rm_context_type \<Rightarrow> ipa_rm_context_type" where
  "queue_work w st = (case kzalloc st of (ok, st1) \<Rightarrow> if ok then st1\<lparr>ipa_rm_wq := ipa_rm_wq st1 @ [w]\<rparr> else st1)"

text \<open>A new work is never queued already, so \<^verbatim>\<open>queue_work\<close> returns true.\<close>

definition queue_result :: "ipa_rm_context_type \<Rightarrow> int" where
  "queue_result st = (if fst (kzalloc st) then 1 else - ENOMEM)"

definition ipa_rm_wq_send_cmd :: "ipa_rm_wq_cmd \<Rightarrow> nat \<Rightarrow> ipa_rm_event \<Rightarrow> bool \<Rightarrow>
    ipa_rm_context_type \<Rightarrow> int \<times> ipa_rm_context_type" where
  "ipa_rm_wq_send_cmd wq_cmd resource_name event notify_registered_only st =
     (queue_result st, queue_work (Wq_Work wq_cmd resource_name event notify_registered_only) st)"

definition ipa_rm_wq_send_suspend_cmd :: "nat \<Rightarrow> ipa_rm_resource_state \<Rightarrow> u32 \<Rightarrow>
    ipa_rm_context_type \<Rightarrow> int \<times> ipa_rm_context_type" where
  "ipa_rm_wq_send_suspend_cmd resource_name prev_state needed st =
     (queue_result st, queue_work (Wq_Suspend_Work resource_name prev_state needed) st)"

definition ipa_rm_wq_send_resume_cmd :: "nat \<Rightarrow> ipa_rm_resource_state \<Rightarrow> u32 \<Rightarrow> bool \<Rightarrow>
    ipa_rm_context_type \<Rightarrow> int \<times> ipa_rm_context_type" where
  "ipa_rm_wq_send_resume_cmd resource_name prev_state needed inc_usage_count st =
     (queue_result st, queue_work (Wq_Resume_Work resource_name prev_state needed inc_usage_count) st)"

definition ipa_rm_perf_profile_notify_to_ipa :: "ipa_voltage_level \<Rightarrow> u32 \<Rightarrow>
    ipa_rm_context_type \<Rightarrow> ipa_rm_context_type" where
  "ipa_rm_perf_profile_notify_to_ipa volt bandwidth = queue_work (Wq_Perf_Work volt bandwidth)"

end
