(* ===== verification/Rm_Peers.thy ===== *)
theory Rm_Peers
  imports Rm_Types
begin

text \<open>
  Peers lists (\<^verbatim>\<open>ipa_rm_peers_list.c\<close>): the producers of a consumer, or the consumers of a
  producer, as an array indexed by resource name. An operation that can leave the array returns a
  flag that tells if it did.
\<close>

section \<open>Operations\<close>

definition ipa_rm_peers_list_get_resource_index :: "nat \<Rightarrow> int" where
  "ipa_rm_peers_list_get_resource_index resource_name =
     (if IPA_RM_RESORCE_IS_PROD resource_name then ipa_rm_prod_index resource_name
      else if IPA_RM_RESORCE_IS_CONS resource_name then ipa_rm_cons_index resource_name
      else IPA_RM_INDEX_INVALID)"

definition ipa_rm_peers_list_check_index :: "int \<Rightarrow> ipa_rm_peers_list \<Rightarrow> bool" where
  "ipa_rm_peers_list_check_index index pl \<longleftrightarrow> \<not> (index > max_peers pl \<or> index < 0)"

definition null_peer :: ipa_rm_resource_peer where
  "null_peer = \<lparr>peer_resource = None, userspace_dep = False\<rparr>"

text \<open>The element of the array at an index, and the check that there is one.\<close>

definition peer_in :: "int \<Rightarrow> ipa_rm_peers_list \<Rightarrow> bool" where
  "peer_in index pl \<longleftrightarrow> 0 \<le> index \<and> index < int (length (peers pl))"

definition peer_nth :: "int \<Rightarrow> ipa_rm_peers_list \<Rightarrow> ipa_rm_resource_peer" where
  "peer_nth index pl = (if peer_in index pl then peers pl ! nat index else null_peer)"

text \<open>The two allocations of a new list; the second one fails with the first one freed.\<close>

definition ipa_rm_peers_list_create :: "int \<Rightarrow> ipa_rm_context_type \<Rightarrow>
    int \<times> ipa_rm_peers_list option \<times> ipa_rm_context_type" where
  "ipa_rm_peers_list_create n st =
     (case kzalloc st of
        (False, st1) \<Rightarrow> (- ENOMEM, None, st1)
      | (True, st1) \<Rightarrow>
          (case kzalloc st1 of
             (False, st2) \<Rightarrow> (- ENOMEM, None, st2)
           | (True, st2) \<Rightarrow> (0, Some \<lparr>peers = replicate (nat n) null_peer, max_peers = n, peers_count = 0\<rparr>, st2)))"

definition ipa_rm_peers_list_remove_peer :: "nat \<Rightarrow> ipa_rm_peers_list option \<Rightarrow> ipa_rm_peers_list option \<times> bool" where
  "ipa_rm_peers_list_remove_peer resource_name pl =
     (case pl of
        None \<Rightarrow> (None, False)
      | Some l \<Rightarrow>
          let i = ipa_rm_peers_list_get_resource_index resource_name
          in if peer_in i l
             then (Some (l\<lparr>peers := (peers l)[nat i := null_peer], peers_count := peers_count l - 1\<rparr>), False)
             else (pl, True))"

text \<open>The resource is given by its address and its name.\<close>

definition ipa_rm_peers_list_add_peer :: "nat \<Rightarrow> nat \<Rightarrow> bool \<Rightarrow> ipa_rm_peers_list option \<Rightarrow>
    ipa_rm_peers_list option \<times> bool" where
  "ipa_rm_peers_list_add_peer resource resource_name usdep pl =
     (case pl of
        None \<Rightarrow> (None, False)
      | Some l \<Rightarrow>
          let i = ipa_rm_peers_list_get_resource_index resource_name
          in if peer_in i l
             then (Some (l\<lparr>peers := (peers l)[nat i := \<lparr>peer_resource = Some resource, userspace_dep = usdep\<rparr>],
                           peers_count := peers_count l + 1\<rparr>), False)
             else (pl, True))"

definition ipa_rm_peers_list_is_empty :: "ipa_rm_peers_list option \<Rightarrow> bool" where
  "ipa_rm_peers_list_is_empty pl = (case pl of None \<Rightarrow> True | Some l \<Rightarrow> \<not> peers_count l > 0)"

definition ipa_rm_peers_list_has_last_peer :: "ipa_rm_peers_list option \<Rightarrow> bool" where
  "ipa_rm_peers_list_has_last_peer pl = (case pl of None \<Rightarrow> False | Some l \<Rightarrow> peers_count l = 1)"

text \<open>
  The check for a dependency: the result, the value left in \<^verbatim>\<open>*userspace_dep\<close> (None when it is
  not written) and the flag for an access outside of an array.
\<close>

definition ipa_rm_peers_list_check_dependency :: "ipa_rm_peers_list option \<Rightarrow> nat \<Rightarrow> ipa_rm_peers_list option \<Rightarrow> nat \<Rightarrow>
    bool \<times> bool option \<times> bool" where
  "ipa_rm_peers_list_check_dependency resource_peers resource_name depends_on_peers depends_on_name =
     (case (resource_peers, depends_on_peers) of
        (Some rp, Some dp) \<Rightarrow>
          let i = ipa_rm_peers_list_get_resource_index depends_on_name;
              a = peer_nth i rp;
              (r1, u1) = (if peer_resource a \<noteq> None then (True, Some (userspace_dep a)) else (False, None));
              j = ipa_rm_peers_list_get_resource_index resource_name;
              b = peer_nth j dp;
              (r2, u2) = (if peer_resource b \<noteq> None then (True, Some (userspace_dep b)) else (r1, u1))
          in (r2, u2, \<not> peer_in i rp \<or> \<not> peer_in j dp)
      | _ \<Rightarrow> (False, None, False))"

definition ipa_rm_peers_list_get_resource :: "int \<Rightarrow> ipa_rm_peers_list \<Rightarrow> nat option \<times> bool" where
  "ipa_rm_peers_list_get_resource resource_index pl =
     (if \<not> ipa_rm_peers_list_check_index resource_index pl then (None, False)
      else (peer_resource (peer_nth resource_index pl), \<not> peer_in resource_index pl))"

definition ipa_rm_peers_list_get_userspace_dep :: "int \<Rightarrow> ipa_rm_peers_list \<Rightarrow> bool \<times> bool" where
  "ipa_rm_peers_list_get_userspace_dep resource_index pl =
     (if \<not> ipa_rm_peers_list_check_index resource_index pl then (False, False)
      else (userspace_dep (peer_nth resource_index pl), \<not> peer_in resource_index pl))"

definition ipa_rm_peers_list_get_size :: "ipa_rm_peers_list \<Rightarrow> int" where
  "ipa_rm_peers_list_get_size pl = max_peers pl"

section \<open>Well-formed lists\<close>

text \<open>The names that are enumerators.\<close>

definition valid_name :: "nat \<Rightarrow> bool" where
  "valid_name n \<longleftrightarrow> n < 22 \<and> n \<noteq> 11 \<and> n \<noteq> 13"

lemma below_22: "(n :: nat) < 22 \<longleftrightarrow> n \<in> {0, 1, 2, 3, 4, 5, 6, 7, 8, 9, 10, 11, 12, 13, 14, 15, 16, 17, 18, 19, 20, 21}"
  unfolding insert_iff empty_iff by presburger

lemma resource_index: "ipa_rm_peers_list_get_resource_index n = (if valid_name n then int n else - 1)"
proof (cases "n < 22")
  case True
  then show ?thesis
    unfolding below_22
    by (auto simp: ipa_rm_peers_list_get_resource_index_def valid_name_def ipa_rm_prod_index_def ipa_rm_cons_index_def
        IPA_RM_RESORCE_IS_PROD_def IPA_RM_RESORCE_IS_CONS_def)
next
  case False
  then show ?thesis
    by (simp add: ipa_rm_peers_list_get_resource_index_def valid_name_def IPA_RM_RESORCE_IS_PROD_def IPA_RM_RESORCE_IS_CONS_def)
qed

definition peers_ok :: "ipa_rm_peers_list \<Rightarrow> bool" where
  "peers_ok pl \<longleftrightarrow> length (peers pl) = 22 \<and> max_peers pl = 22 \<and>
     peers_count pl = int (length (filter (\<lambda>e. peer_resource e \<noteq> None) (peers pl)))"

text \<open>The peer of a name and its flag; \<open>None\<close> when there is no such peer.\<close>

definition peer :: "ipa_rm_peers_list option \<Rightarrow> nat \<Rightarrow> (nat \<times> bool) option" where
  "peer pl n = (case pl of
     None \<Rightarrow> None
   | Some l \<Rightarrow> if n < length (peers l)
               then map_option (\<lambda>q. (q, userspace_dep (peers l ! n))) (peer_resource (peers l ! n)) else None)"

lemma peer_in_ok [simp]: "peers_ok l \<Longrightarrow> valid_name n \<Longrightarrow> peer_in (int n) l"
  by (simp add: peer_in_def peers_ok_def valid_name_def)

lemma peer_nth_int: "n < length (peers l) \<Longrightarrow> peer_nth (int n) l = peers l ! n"
  by (simp add: peer_nth_def peer_in_def)

lemma valid_name_22 [simp]: "valid_name n \<Longrightarrow> n < 22"
  by (simp add: valid_name_def)

lemma length_filter_update:
  "i < length xs \<Longrightarrow> int (length (filter P (xs[i := x]))) =
     int (length (filter P xs)) + (if P x then 1 else 0) - (if P (xs ! i) then 1 else 0)"
proof (induction xs arbitrary: i)
  case (Cons a xs)
  show ?case
  proof (cases i)
    case (Suc j)
    then have "int (length (filter P (xs[j := x]))) =
        int (length (filter P xs)) + (if P x then 1 else 0) - (if P (xs ! j) then 1 else 0)"
      using Cons.prems by (intro Cons.IH) simp
    then show ?thesis using Suc by (cases "P x"; cases "P (xs ! j)"; cases "P a"; simp)
  qed simp
qed simp

text \<open>
  Adding a new peer, removing one that is there, and the lookups, on well-formed lists.
\<close>

lemma add_peer_ok:
  assumes "peers_ok l" "valid_name n" "peer (Some l) n = None"
  obtains l' where "ipa_rm_peers_list_add_peer q n u (Some l) = (Some l', False)" "peers_ok l'"
    "peer (Some l') = (peer (Some l))(n := Some (q, u))" "peers_count l' = peers_count l + 1"
proof
  let ?l = "l\<lparr>peers := (peers l)[n := \<lparr>peer_resource = Some q, userspace_dep = u\<rparr>], peers_count := peers_count l + 1\<rparr>"
  show "ipa_rm_peers_list_add_peer q n u (Some l) = (Some ?l, False)"
    using assms(1,2) by (simp add: ipa_rm_peers_list_add_peer_def resource_index Let_def)
  have n: "n < length (peers l)" using assms(1,2) by (simp add: peers_ok_def)
  show "peers_ok ?l"
    using assms(1,3) n by (auto simp: peers_ok_def length_filter_update peer_def)
  show "peer (Some ?l) = (peer (Some l))(n := Some (q, u))"
    using n by (auto simp: peer_def fun_eq_iff nth_list_update)
qed simp

lemma remove_peer_ok:
  assumes "peers_ok l" "valid_name n" "peer (Some l) n \<noteq> None"
  obtains l' where "ipa_rm_peers_list_remove_peer n (Some l) = (Some l', False)" "peers_ok l'"
    "peer (Some l') = (peer (Some l))(n := None)" "peers_count l' = peers_count l - 1"
proof
  let ?l = "l\<lparr>peers := (peers l)[n := null_peer], peers_count := peers_count l - 1\<rparr>"
  show "ipa_rm_peers_list_remove_peer n (Some l) = (Some ?l, False)"
    using assms(1,2) by (simp add: ipa_rm_peers_list_remove_peer_def resource_index Let_def)
  have n: "n < length (peers l)" using assms(1,2) by (simp add: peers_ok_def)
  show "peers_ok ?l"
    using assms(1,3) n by (auto simp: peers_ok_def length_filter_update peer_def null_peer_def)
  show "peer (Some ?l) = (peer (Some l))(n := None)"
    using n by (auto simp: peer_def fun_eq_iff nth_list_update null_peer_def)
qed simp

lemma check_dependency_ok:
  assumes "peers_ok l" "peers_ok k" "valid_name n" "valid_name m"
  shows "ipa_rm_peers_list_check_dependency (Some l) n (Some k) m =
    (peer (Some l) m \<noteq> None \<or> peer (Some k) n \<noteq> None,
     (case peer (Some k) n of Some (q, u) \<Rightarrow> Some u | None \<Rightarrow> map_option snd (peer (Some l) m)), False)"
proof -
  have "n < length (peers k)" "m < length (peers l)" using assms by (simp_all add: peers_ok_def)
  then show ?thesis
    using assms
    by (auto simp: ipa_rm_peers_list_check_dependency_def resource_index Let_def peer_nth_int peer_def split: option.splits)
qed

lemma get_resource_ok:
  assumes "peers_ok l" "i < 22"
  shows "ipa_rm_peers_list_get_resource (int i) l = (map_option fst (peer (Some l) i), False)"
proof -
  have "i < length (peers l)" using assms by (simp add: peers_ok_def)
  then show ?thesis
    using assms
    by (auto simp: ipa_rm_peers_list_get_resource_def ipa_rm_peers_list_check_index_def peers_ok_def peer_nth_int peer_in_def
        peer_def option.map_comp comp_def option.map_ident)
qed

lemma get_userspace_dep_ok:
  assumes "peers_ok l" "peer (Some l) i = Some (q, u)"
  shows "ipa_rm_peers_list_get_userspace_dep (int i) l = (u, False)"
  using assms
  by (auto simp: ipa_rm_peers_list_get_userspace_dep_def ipa_rm_peers_list_check_index_def peers_ok_def peer_nth_int peer_in_def
      peer_def split: if_splits)

lemma is_empty_iff:
  assumes "peers_ok l"
  shows "ipa_rm_peers_list_is_empty (Some l) \<longleftrightarrow> (\<forall>n. peer (Some l) n = None)"
proof -
  have "ipa_rm_peers_list_is_empty (Some l) \<longleftrightarrow> filter (\<lambda>e. peer_resource e \<noteq> None) (peers l) = []"
    using assms by (simp add: ipa_rm_peers_list_is_empty_def peers_ok_def)
  also have "\<dots> \<longleftrightarrow> (\<forall>n < length (peers l). peer_resource (peers l ! n) = None)"
    by (simp add: filter_empty_conv all_set_conv_all_nth)
  finally show ?thesis by (auto simp: peer_def)
qed

lemma new_peers_ok:
  "ipa_rm_peers_list_create 22 st = (0, Some l, st') \<Longrightarrow> peers_ok l \<and> (\<forall>n. peer (Some l) n = None)"
  by (auto simp: ipa_rm_peers_list_create_def peers_ok_def peer_def null_peer_def split: prod.splits bool.splits)

text \<open>
  The bounds check accepts the index one past the array: a read at \<open>max_peers\<close> leaves it.
\<close>

lemma get_resource_past_end:
  "peers_ok l \<Longrightarrow> snd (ipa_rm_peers_list_get_resource 22 l)"
  by (simp add: ipa_rm_peers_list_get_resource_def ipa_rm_peers_list_check_index_def peers_ok_def peer_in_def)

end
