(* ===== verification/Rm_Perf.thy ===== *)
theory Rm_Perf
  imports Rm_Peers
begin

text \<open>
  The lookup of resources by name (\<^verbatim>\<open>ipa_rm_dependency_graph.c\<close>) and the vote for voltage and
  bandwidth (\<^verbatim>\<open>ipa_rm_perf_profile_change\<close> of \<^verbatim>\<open>ipa_rm.c\<close>), with the invariant of the vote.
\<close>

section \<open>Lookup by name\<close>

definition ipa_rm_dep_get_index :: "nat \<Rightarrow> int" where
  "ipa_rm_dep_get_index resource_name =
     (if IPA_RM_RESORCE_IS_PROD resource_name then ipa_rm_prod_index resource_name
      else if IPA_RM_RESORCE_IS_CONS resource_name then ipa_rm_cons_index resource_name
      else IPA_RM_INDEX_INVALID)"

text \<open>The result and the resource that is stored through the pointer argument.\<close>

definition ipa_rm_dep_graph_get_resource :: "nat \<Rightarrow> ipa_rm_context_type \<Rightarrow> int \<times> nat option" where
  "ipa_rm_dep_graph_get_resource resource_name st =
     (let resource_index = ipa_rm_dep_get_index resource_name
      in if resource_index = IPA_RM_INDEX_INVALID then (- EINVAL, None)
         else case resource_table st ! nat resource_index of
                None \<Rightarrow> (- EINVAL, None)
              | Some p \<Rightarrow> (0, Some p))"

lemma dep_index: "ipa_rm_dep_get_index n = (if valid_name n then int n else - 1)"
  using resource_index [of n] by (simp add: ipa_rm_dep_get_index_def ipa_rm_peers_list_get_resource_index_def)

lemma get_resource_table:
  "ipa_rm_dep_graph_get_resource n st =
     (if valid_name n then case resource_table st ! n of None \<Rightarrow> (- EINVAL, None) | Some p \<Rightarrow> (0, Some p) else (- EINVAL, None))"
  by (simp add: ipa_rm_dep_graph_get_resource_def dep_index Let_def)

section \<open>The vote\<close>

definition sum_bw :: "(nat \<Rightarrow> bool) \<Rightarrow> u32 list \<Rightarrow> u32" where
  "sum_bw sel bw = fold (\<lambda>i s. if sel i then s + bw ! i else s) [0..<IPA_RM_RESOURCE_MAX] 0"

definition max_volt :: "ipa_voltage_level list \<Rightarrow> ipa_voltage_level" where
  "max_volt vs = fold (\<lambda>i v. if vs ! i > v then vs ! i else v) [0..<IPA_RM_RESOURCE_MAX] IPA_VOLTAGE_UNSPECIFIED"

text \<open>The entries of a resource in the vote, from its state.\<close>

definition vote_entry :: "ipa_rm_resource \<Rightarrow> u32 \<times> ipa_voltage_level" where
  "vote_entry r =
     (case rs_state r of
        IPA_RM_GRANTED \<Rightarrow> (min (max_bw r) (needed_bw r), floor_voltage r)
      | IPA_RM_REQUEST_IN_PROGRESS \<Rightarrow> (min (max_bw r) (needed_bw r), floor_voltage r)
      | IPA_RM_RELEASE_IN_PROGRESS \<Rightarrow> (0, IPA_VOLTAGE_UNSPECIFIED)
      | IPA_RM_RELEASED \<Rightarrow> (0, IPA_VOLTAGE_UNSPECIFIED))"

text \<open>The new entries of a resource and the new vote.\<close>

definition cast_vote :: "nat \<Rightarrow> ipa_rm_resource \<Rightarrow> ipa_rm_context_type \<Rightarrow> ipa_rm_context_type" where
  "cast_vote resource_name r st =
     (let bws = (bw_resources st)[resource_name := fst (vote_entry r)];
          volts = (vote_volt st)[resource_name := snd (vote_entry r)];
          sum_bw_prod = sum_bw IPA_RM_RESORCE_IS_PROD bws;
          sum_bw_cons = sum_bw (\<lambda>i. \<not> IPA_RM_RESORCE_IS_PROD i) bws
      in st\<lparr>bw_resources := bws, vote_volt := volts, curr_volt := max_volt volts, curr_bw := min sum_bw_prod sum_bw_cons\<rparr>)"

definition ipa_rm_perf_profile_change :: "nat \<Rightarrow> ipa_rm_context_type \<Rightarrow> ipa_rm_context_type" where
  "ipa_rm_perf_profile_change resource_name st =
     (case ipa_rm_dep_graph_get_resource resource_name st of
        (result, Some resource) \<Rightarrow>
          let st0 = as_res resource st;
              st1 = cast_vote resource_name (res st0 resource) st0
          in if curr_volt st1 = curr_volt st0 \<and> curr_bw st1 = curr_bw st0 then st1
             else ipa_rm_perf_profile_notify_to_ipa (curr_volt st1) (curr_bw st1) st1
      | (result, None) \<Rightarrow> st)"

section \<open>Frame facts\<close>

named_theorems rm_frame \<open>what the operations of the resource manager leave alone\<close>

lemma queue_work_frame [rm_frame]:
  "rm_heap (queue_work w st) = rm_heap st" "resource_table (queue_work w st) = resource_table st"
  "rm_next (queue_work w st) = rm_next st" "rm_ub (queue_work w st) = rm_ub st"
  "driver_calls (queue_work w st) = driver_calls st" "driver_result (queue_work w st) = driver_result st"
  "alloc_ok (queue_work w st) = alloc_ok st"
  "vote_volt (queue_work w st) = vote_volt st" "curr_volt (queue_work w st) = curr_volt st"
  "bw_resources (queue_work w st) = bw_resources st" "curr_bw (queue_work w st) = curr_bw st"
  "rm_log (queue_work w st) = rm_log st" "ipa_rm_ctx (queue_work w st) = ipa_rm_ctx st"
  "delayed_works (queue_work w st) = delayed_works st"
  by (simp_all add: queue_work_def kzalloc_def)

lemma cast_vote_frame [rm_frame]:
  "rm_heap (cast_vote n r st) = rm_heap st"
  "resource_table (cast_vote n r st) = resource_table st"
  "rm_next (cast_vote n r st) = rm_next st"
  "driver_calls (cast_vote n r st) = driver_calls st"
  "driver_result (cast_vote n r st) = driver_result st"
  "alloc_ok (cast_vote n r st) = alloc_ok st"
  "rm_log (cast_vote n r st) = rm_log st"
  "ipa_rm_ctx (cast_vote n r st) = ipa_rm_ctx st"
  "delayed_works (cast_vote n r st) = delayed_works st"
  "rm_ub (cast_vote n r st) = rm_ub st"
  by (simp_all add: cast_vote_def Let_def)

lemma flag_ub_frame [rm_frame]:
  "rm_heap (flag_ub bad st) = rm_heap st"
  "resource_table (flag_ub bad st) = resource_table st"
  "rm_next (flag_ub bad st) = rm_next st"
  "driver_calls (flag_ub bad st) = driver_calls st"
  "driver_result (flag_ub bad st) = driver_result st"
  "alloc_ok (flag_ub bad st) = alloc_ok st"
  "rm_log (flag_ub bad st) = rm_log st"
  "ipa_rm_ctx (flag_ub bad st) = ipa_rm_ctx st"
  "delayed_works (flag_ub bad st) = delayed_works st"
  by (simp_all add: flag_ub_def)

lemma perf_change_frame [rm_frame]:
  "rm_heap (ipa_rm_perf_profile_change n st) = rm_heap st"
  "resource_table (ipa_rm_perf_profile_change n st) = resource_table st"
  "rm_next (ipa_rm_perf_profile_change n st) = rm_next st"
  "driver_calls (ipa_rm_perf_profile_change n st) = driver_calls st"
  "driver_result (ipa_rm_perf_profile_change n st) = driver_result st"
  "alloc_ok (ipa_rm_perf_profile_change n st) = alloc_ok st"
  "rm_log (ipa_rm_perf_profile_change n st) = rm_log st"
  "ipa_rm_ctx (ipa_rm_perf_profile_change n st) = ipa_rm_ctx st"
  "delayed_works (ipa_rm_perf_profile_change n st) = delayed_works st"
  by (simp_all add: ipa_rm_perf_profile_change_def Let_def as_res_def ipa_rm_perf_profile_notify_to_ipa_def
      rm_frame split: prod.split option.split)

lemma perf_change_ub:
  "(\<And>p. resource_table st ! n = Some p \<Longrightarrow> valid_name n \<Longrightarrow> rm_heap st p \<noteq> None) \<Longrightarrow>
     rm_ub (ipa_rm_perf_profile_change n st) = rm_ub st"
  unfolding ipa_rm_perf_profile_change_def get_resource_table
  by (auto simp: Let_def as_res_def flag_ub_def ipa_rm_perf_profile_notify_to_ipa_def rm_frame split: option.split)

lemma res_cong: "rm_heap a = rm_heap b \<Longrightarrow> res a p = res b p"
  by (simp add: res_def)

section \<open>The vote is what the resources ask for\<close>

text \<open>
  The invariant of the vote: the current voltage is the highest of the entries and the current
  bandwidth the smaller of the sums over the producers and over the consumers.
\<close>

definition vote_ok :: "ipa_rm_context_type \<Rightarrow> bool" where
  "vote_ok st \<longleftrightarrow> length (vote_volt st) = 22 \<and> length (bw_resources st) = 22 \<and>
     curr_volt st = max_volt (vote_volt st) \<and>
     curr_bw st = min (sum_bw IPA_RM_RESORCE_IS_PROD (bw_resources st)) (sum_bw (\<lambda>i. \<not> IPA_RM_RESORCE_IS_PROD i) (bw_resources st))"

lemma max_volt_fold:
  "fold (\<lambda>i v. if f i > v then f i else v) xs v0 = (Max (insert v0 (f ` set xs)) :: 'a :: linorder)"
proof (induction xs arbitrary: v0)
  case (Cons x xs)
  have "(if f x > v0 then f x else v0) = max v0 (f x)" by (auto simp: max_def not_le)
  then have "fold (\<lambda>i v. if f i > v then f i else v) (x # xs) v0 = Max (insert (max v0 (f x)) (f ` set xs))"
    using Cons.IH by simp
  also have "\<dots> = Max (insert v0 (f ` set (x # xs)))"
    by (cases "xs = []") (simp_all add: max.assoc)
  finally show ?case .
qed simp

lemma max_volt_Max: "length vs = 22 \<Longrightarrow> max_volt vs = Max (set vs)"
proof -
  assume len: "length vs = 22"
  have "max_volt vs = Max (insert IPA_VOLTAGE_UNSPECIFIED ((!) vs ` set [0..<22]))"
    unfolding max_volt_def by (rule max_volt_fold)
  also have "(!) vs ` set [0..<22] = set vs"
    using len by (metis list.set_map map_nth)
  also have "Max (insert IPA_VOLTAGE_UNSPECIFIED (set vs)) = Max (set vs)"
    using len by (subst Max_insert) (auto simp: max_def)
  finally show ?thesis .
qed

lemma cast_vote_ok: "vote_ok st \<Longrightarrow> vote_ok (cast_vote n r st)"
  by (simp add: vote_ok_def cast_vote_def Let_def)

lemma vote_ok_cong:
  "vote_volt a = vote_volt b \<Longrightarrow> bw_resources a = bw_resources b \<Longrightarrow> curr_volt a = curr_volt b \<Longrightarrow> curr_bw a = curr_bw b \<Longrightarrow>
     vote_ok a = vote_ok b"
  by (simp add: vote_ok_def)

lemma vote_ok_flag_ub [simp]: "vote_ok (flag_ub bad st) = vote_ok st"
  by (rule vote_ok_cong) (simp_all add: flag_ub_def)

lemma vote_ok_queue_work [simp]: "vote_ok (queue_work w st) = vote_ok st"
  by (rule vote_ok_cong) (simp_all add: queue_work_frame)

lemma perf_change_vote_ok [simp]: "vote_ok st \<Longrightarrow> vote_ok (ipa_rm_perf_profile_change n st)"
  by (simp add: ipa_rm_perf_profile_change_def Let_def as_res_def ipa_rm_perf_profile_notify_to_ipa_def
      cast_vote_ok split: prod.split option.split)

end
