(* ===== verification/Rm_Resource.thy ===== *)
theory Rm_Resource
  imports Rm_Perf
begin

text \<open>
  The operations on resources (\<^verbatim>\<open>ipa_rm_resource.c\<close>). A consumer is requested and released through
  the callbacks of its driver; a producer is requested by requesting all consumers it depends on.
  A C function with an \<^verbatim>\<open>int\<close> result is a function to the result and the new state. A loop over
  the peers of a resource runs over the size of its peers list, which no operation changes.
\<close>

section \<open>Access to the peers of a resource\<close>

text \<open>The peer of resource \<open>p\<close> at index \<open>i\<close>; a NULL peers list is dereferenced.\<close>

definition loop_peer :: "nat \<Rightarrow> nat \<Rightarrow> ipa_rm_context_type \<Rightarrow> nat option \<times> ipa_rm_context_type" where
  "loop_peer p i st =
     (case peers_list (res st p) of
        None \<Rightarrow> (None, flag_ub True st)
      | Some pl \<Rightarrow> (case ipa_rm_peers_list_get_resource (int i) pl of (q, bad) \<Rightarrow> (q, flag_ub bad (as_res p st))))"

definition loop_userspace_dep :: "nat \<Rightarrow> nat \<Rightarrow> ipa_rm_context_type \<Rightarrow> bool" where
  "loop_userspace_dep p i st =
     (case peers_list (res st p) of None \<Rightarrow> False | Some pl \<Rightarrow> fst (ipa_rm_peers_list_get_userspace_dep (int i) pl))"

definition loop_size :: "nat \<Rightarrow> ipa_rm_context_type \<Rightarrow> nat" where
  "loop_size p st = (case peers_list (res st p) of None \<Rightarrow> 0 | Some pl \<Rightarrow> nat (ipa_rm_peers_list_get_size pl))"

definition add_peer_to :: "nat \<Rightarrow> nat \<Rightarrow> bool \<Rightarrow> ipa_rm_context_type \<Rightarrow> ipa_rm_context_type" where
  "add_peer_to p q usdep st =
     (case ipa_rm_peers_list_add_peer q (rs_name (res st q)) usdep (peers_list (res st p)) of
        (pl, bad) \<Rightarrow> flag_ub bad (upd_res p (\<lambda>r. r\<lparr>peers_list := pl\<rparr>) st))"

definition remove_peer_from :: "nat \<Rightarrow> nat \<Rightarrow> ipa_rm_context_type \<Rightarrow> ipa_rm_context_type" where
  "remove_peer_from p resource_name st =
     (case ipa_rm_peers_list_remove_peer resource_name (peers_list (res st p)) of
        (pl, bad) \<Rightarrow> flag_ub bad (upd_res p (\<lambda>r. r\<lparr>peers_list := pl\<rparr>) st))"

section \<open>Notification of clients and of producers\<close>

definition ipa_rm_resource_producer_notify_clients :: "nat \<Rightarrow> ipa_rm_event \<Rightarrow> bool \<Rightarrow>
    ipa_rm_context_type \<Rightarrow> ipa_rm_context_type" where
  "ipa_rm_resource_producer_notify_clients producer event notify_registered_only st =
     fold (\<lambda>info s. if notify_registered_only \<and> \<not> explicit info then s
                     else call_void (Call_Notify (notify_cb info) (user_data info) event) s)
       (event_listeners (res st producer)) (as_prod producer st)"

definition ipa_rm_resource_producer_handle_cb :: "nat \<Rightarrow> ipa_rm_event \<Rightarrow> ipa_rm_context_type \<Rightarrow> ipa_rm_context_type" where
  "ipa_rm_resource_producer_handle_cb producer event st =
     (let st0 = as_prod producer st; r = res st producer in
      case rs_state r of
        IPA_RM_REQUEST_IN_PROGRESS \<Rightarrow>
          if event \<noteq> IPA_RM_RESOURCE_GRANTED then st0
          else if pending_request r > 0 then
            let st1 = upd_res producer (\<lambda>r. r\<lparr>pending_request := pending_request r - 1\<rparr>) st0
            in if pending_request r - 1 = 0 then
                 let st2 = set_state producer IPA_RM_GRANTED st1;
                     st3 = ipa_rm_perf_profile_change (rs_name r) st2
                 in ipa_rm_resource_producer_notify_clients producer IPA_RM_RESOURCE_GRANTED False st3
               else st1
          else st0
      | IPA_RM_RELEASE_IN_PROGRESS \<Rightarrow>
          if event \<noteq> IPA_RM_RESOURCE_RELEASED then st0
          else if pending_release r > 0 then
            let st1 = upd_res producer (\<lambda>r. r\<lparr>pending_release := pending_release r - 1\<rparr>) st0
            in if pending_release r - 1 = 0 then
                 let st2 = set_state producer IPA_RM_RELEASED st1;
                     st3 = ipa_rm_perf_profile_change (rs_name r) st2
                 in ipa_rm_resource_producer_notify_clients producer IPA_RM_RESOURCE_RELEASED False st3
               else st1
          else st0
      | IPA_RM_GRANTED \<Rightarrow> st0
      | IPA_RM_RELEASED \<Rightarrow> st0)"

text \<open>The loop over the producers of a consumer, from index \<open>i\<close> with \<open>n\<close> indices left.\<close>

fun handle_cb_loop :: "nat \<Rightarrow> nat \<Rightarrow> nat \<Rightarrow> ipa_rm_event \<Rightarrow> ipa_rm_context_type \<Rightarrow> ipa_rm_context_type" where
  "handle_cb_loop 0 i consumer event st = st"
| "handle_cb_loop (Suc n) i consumer event st =
     (case loop_peer consumer i st of
        (None, st1) \<Rightarrow> handle_cb_loop n (Suc i) consumer event st1
      | (Some producer, st1) \<Rightarrow>
          handle_cb_loop n (Suc i) consumer event (ipa_rm_resource_producer_handle_cb producer event st1))"

definition ipa_rm_resource_consumer_handle_cb :: "nat option \<Rightarrow> ipa_rm_event \<Rightarrow> ipa_rm_context_type \<Rightarrow> ipa_rm_context_type" where
  "ipa_rm_resource_consumer_handle_cb consumer event st =
     (case consumer of
        None \<Rightarrow> st
      | Some p \<Rightarrow>
          let st0 = as_cons p st; r = res st p; loop = (\<lambda>s. handle_cb_loop (loop_size p s) 0 p event s) in
          case rs_state r of
            IPA_RM_REQUEST_IN_PROGRESS \<Rightarrow>
              if event = IPA_RM_RESOURCE_RELEASED then st0
              else let st1 = set_state p IPA_RM_GRANTED st0;
                       st2 = ipa_rm_perf_profile_change (rs_name r) st1;
                       st3 = call_void (Call_Resume (rs_name r)) st2
                   in loop (upd_res p (\<lambda>r. r\<lparr>request_completed := True\<rparr>) st3)
          | IPA_RM_RELEASE_IN_PROGRESS \<Rightarrow>
              if event = IPA_RM_RESOURCE_GRANTED then st0 else loop (set_state p IPA_RM_RELEASED st0)
          | IPA_RM_GRANTED \<Rightarrow> st0
          | IPA_RM_RELEASED \<Rightarrow> st0)"

section \<open>Request and release of a consumer\<close>

text \<open>A call through a function pointer of the driver; NULL is called when there is none.\<close>

definition call_cb :: "(nat \<Rightarrow> rm_call) \<Rightarrow> nat option \<Rightarrow> ipa_rm_context_type \<Rightarrow> int \<times> ipa_rm_context_type" where
  "call_cb call cb st = (case cb of None \<Rightarrow> (0, flag_ub True st) | Some f \<Rightarrow> call_driver (call f) st)"

definition ipa_rm_resource_consumer_release_work :: "nat \<Rightarrow> ipa_rm_resource_state \<Rightarrow> bool \<Rightarrow>
    ipa_rm_context_type \<Rightarrow> int \<times> ipa_rm_context_type" where
  "ipa_rm_resource_consumer_release_work consumer prev_state notify_completion st =
     (case call_cb Call_Release_Resource (release_resource (res st consumer)) (as_cons consumer st) of
        (r, st1) \<Rightarrow>
          let drv_result = (if r = - EINPROGRESS then 0 else r)
          in if drv_result \<noteq> 0 \<and> drv_result \<noteq> - EINPROGRESS
             then (drv_result, set_state consumer prev_state st1)
             else let st2 = (if drv_result = 0
                             then if notify_completion
                                  then ipa_rm_resource_consumer_handle_cb (Some consumer) IPA_RM_RESOURCE_RELEASED st1
                                  else set_state consumer IPA_RM_RELEASED st1
                             else st1);
                      st3 = upd_res consumer (\<lambda>r. r\<lparr>request_completed := True\<rparr>) st2
                  in (drv_result, ipa_rm_perf_profile_change (rs_name (res st3 consumer)) st3))"

definition ipa_rm_resource_consumer_request_work :: "nat \<Rightarrow> ipa_rm_resource_state \<Rightarrow> u32 \<Rightarrow> bool \<Rightarrow> bool \<Rightarrow>
    ipa_rm_context_type \<Rightarrow> int \<times> ipa_rm_context_type" where
  "ipa_rm_resource_consumer_request_work consumer prev_state prod_needed_bw notify_completion dec_client_on_err st =
     (case call_cb Call_Request_Resource (request_resource (res st consumer)) (as_cons consumer st) of
        (drv_result, st1) \<Rightarrow>
          (drv_result,
           if drv_result = 0 then
             if notify_completion
             then ipa_rm_resource_consumer_handle_cb (Some consumer) IPA_RM_RESOURCE_GRANTED st1
             else let st2 = set_state consumer IPA_RM_GRANTED st1; n = rs_name (res st2 consumer)
                  in call_void (Call_Resume n) (ipa_rm_perf_profile_change n st2)
           else if drv_result \<noteq> - EINPROGRESS then
             upd_res consumer (\<lambda>r. r\<lparr>rs_state := prev_state, needed_bw := needed_bw r - prod_needed_bw,
               usage_count := (if dec_client_on_err then usage_count r - 1 else usage_count r)\<rparr>) st1
           else st1))"

text \<open>The case of a released consumer, or one whose release is in progress.\<close>

definition consumer_request_start :: "nat \<Rightarrow> ipa_rm_resource_state \<Rightarrow> u32 \<Rightarrow> bool \<Rightarrow>
    ipa_rm_context_type \<Rightarrow> int \<times> ipa_rm_context_type" where
  "consumer_request_start consumer prev_state prod_needed_bw inc_usage_count st =
     (let st1 = upd_res consumer (\<lambda>r. r\<lparr>request_completed := False, rs_state := IPA_RM_REQUEST_IN_PROGRESS\<rparr>) st;
          n = rs_name (res st1 consumer);
          async = (\<lambda>s. (- EINPROGRESS, snd (ipa_rm_wq_send_resume_cmd n prev_state prod_needed_bw inc_usage_count s)))
      in if prev_state = IPA_RM_RELEASE_IN_PROGRESS then async st1
         else case call_driver (Call_Inc_Client_No_Block n) st1 of
                (r, st2) \<Rightarrow>
                  if r \<noteq> 0 then async st2
                  else ipa_rm_resource_consumer_request_work consumer prev_state prod_needed_bw False inc_usage_count st2)"

definition ipa_rm_resource_consumer_request :: "nat \<Rightarrow> u32 \<Rightarrow> bool \<Rightarrow> bool \<Rightarrow>
    ipa_rm_context_type \<Rightarrow> int \<times> ipa_rm_context_type" where
  "ipa_rm_resource_consumer_request consumer prod_needed_bw inc_usage_count wake_client st =
     (let prev_state = rs_state (res st consumer);
          st0 = upd_res consumer (\<lambda>r. r\<lparr>needed_bw := needed_bw r + prod_needed_bw\<rparr>) (as_cons consumer st);
          (result, st1) =
            (case prev_state of
               IPA_RM_RELEASED \<Rightarrow> consumer_request_start consumer prev_state prod_needed_bw inc_usage_count st0
             | IPA_RM_RELEASE_IN_PROGRESS \<Rightarrow> consumer_request_start consumer prev_state prod_needed_bw inc_usage_count st0
             | IPA_RM_GRANTED \<Rightarrow>
                 if wake_client
                 then ipa_rm_resource_consumer_request_work consumer prev_state prod_needed_bw False inc_usage_count st0
                 else (0, ipa_rm_perf_profile_change (rs_name (res st0 consumer)) st0)
             | IPA_RM_REQUEST_IN_PROGRESS \<Rightarrow> (- EINPROGRESS, st0))
      in (result, if inc_usage_count then upd_res consumer (\<lambda>r. r\<lparr>usage_count := usage_count r + 1\<rparr>) st1 else st1))"

definition dec_usage :: "nat \<Rightarrow> bool \<Rightarrow> ipa_rm_context_type \<Rightarrow> ipa_rm_context_type" where
  "dec_usage consumer dec_usage_count =
     upd_res consumer (\<lambda>r. if dec_usage_count \<and> usage_count r > 0 then r\<lparr>usage_count := usage_count r - 1\<rparr> else r)"

text \<open>The case of a consumer that is granted or whose request is in progress.\<close>

definition consumer_release_start :: "nat \<Rightarrow> ipa_rm_resource_state \<Rightarrow> u32 \<Rightarrow> ipa_rm_context_type \<Rightarrow>
    int \<times> ipa_rm_context_type" where
  "consumer_release_start consumer save_state prod_needed_bw st =
     (let n = rs_name (res st consumer) in
      if usage_count (res st consumer) = 0 then
        let st1 = set_state consumer IPA_RM_RELEASE_IN_PROGRESS st;
            async = (\<lambda>s. (- EINPROGRESS, snd (ipa_rm_wq_send_suspend_cmd n save_state prod_needed_bw s)))
        in if save_state = IPA_RM_REQUEST_IN_PROGRESS then async st1
           else case call_driver (Call_Suspend_No_Block n) st1 of
                  (r, st2) \<Rightarrow> if r \<noteq> 0 then async st2
                              else ipa_rm_resource_consumer_release_work consumer save_state False st2
      else if rs_state (res st consumer) = IPA_RM_GRANTED then (0, ipa_rm_perf_profile_change n st)
      else (0, st))"

definition ipa_rm_resource_consumer_release :: "nat \<Rightarrow> u32 \<Rightarrow> bool \<Rightarrow> ipa_rm_context_type \<Rightarrow>
    int \<times> ipa_rm_context_type" where
  "ipa_rm_resource_consumer_release consumer prod_needed_bw dec_usage_count st =
     (let save_state = rs_state (res st consumer);
          st0 = upd_res consumer (\<lambda>r. r\<lparr>needed_bw := needed_bw r - prod_needed_bw\<rparr>) (as_cons consumer st)
      in case save_state of
           IPA_RM_RELEASED \<Rightarrow> (0, st0)
         | IPA_RM_GRANTED \<Rightarrow> consumer_release_start consumer save_state prod_needed_bw (dec_usage consumer dec_usage_count st0)
         | IPA_RM_REQUEST_IN_PROGRESS \<Rightarrow>
             consumer_release_start consumer save_state prod_needed_bw (dec_usage consumer dec_usage_count st0)
         | IPA_RM_RELEASE_IN_PROGRESS \<Rightarrow> (- EINPROGRESS, dec_usage consumer dec_usage_count st0))"

section \<open>Request and release of a producer\<close>

text \<open>The loop of a request: \<open>Inr\<close> when a consumer fails and the rest is skipped.\<close>

definition request_peer :: "nat \<Rightarrow> nat \<Rightarrow> ipa_rm_context_type \<Rightarrow> int \<times> ipa_rm_context_type" where
  "request_peer producer consumer st =
     (let st2 = upd_res producer (\<lambda>r. r\<lparr>pending_request := pending_request r + 1\<rparr>) st
      in ipa_rm_resource_consumer_request consumer (max_bw (res st2 producer)) True False st2)"

fun producer_request_loop :: "nat \<Rightarrow> nat \<Rightarrow> nat \<Rightarrow> int \<Rightarrow> ipa_rm_context_type \<Rightarrow> (int + int) \<times> ipa_rm_context_type" where
  "producer_request_loop 0 i producer result st = (Inl result, st)"
| "producer_request_loop (Suc n) i producer result st =
     (case loop_peer producer i st of
        (None, st1) \<Rightarrow> producer_request_loop n (Suc i) producer result st1
      | (Some consumer, st1) \<Rightarrow>
          (case request_peer producer consumer st1 of
             (consumer_result, st3) \<Rightarrow>
               if consumer_result = - EINPROGRESS
               then producer_request_loop n (Suc i) producer (- EINPROGRESS) st3
               else if consumer_result \<noteq> 0
               then (Inr consumer_result, upd_res producer (\<lambda>r. r\<lparr>pending_request := pending_request r - 1\<rparr>) st3)
               else producer_request_loop n (Suc i) producer result
                      (upd_res producer (\<lambda>r. r\<lparr>pending_request := pending_request r - 1\<rparr>) st3)))"

definition ipa_rm_resource_producer_request :: "nat \<Rightarrow> ipa_rm_context_type \<Rightarrow> int \<times> ipa_rm_context_type" where
  "ipa_rm_resource_producer_request producer st =
     (let st0 = as_prod producer st in
      if rs_state (res st producer) = IPA_RM_GRANTED then (0, st0)
      else if rs_state (res st producer) = IPA_RM_REQUEST_IN_PROGRESS then (- EINPROGRESS, st0)
      else
        let st1 = upd_res producer (\<lambda>r. r\<lparr>rs_state := IPA_RM_REQUEST_IN_PROGRESS, pending_request := 0\<rparr>) st0
        in case producer_request_loop (loop_size producer st1) 0 producer 0 st1 of
             (Inr result, st2) \<Rightarrow> (result, st2)
           | (Inl result, st2) \<Rightarrow>
               if pending_request (res st2 producer) = 0 then
                 let st3 = set_state producer IPA_RM_GRANTED st2;
                     n = rs_name (res st3 producer);
                     st4 = ipa_rm_perf_profile_change n st3
                 in (0, snd (ipa_rm_wq_send_cmd IPA_RM_WQ_NOTIFY_PROD n IPA_RM_RESOURCE_GRANTED True st4))
               else (result, st2))"

definition release_peer :: "nat \<Rightarrow> nat \<Rightarrow> ipa_rm_context_type \<Rightarrow> ipa_rm_context_type" where
  "release_peer producer consumer st =
     (let st2 = upd_res producer (\<lambda>r. r\<lparr>pending_release := pending_release r + 1\<rparr>) st;
          st3 = snd (ipa_rm_resource_consumer_release consumer (max_bw (res st2 producer)) True st2)
      in upd_res producer (\<lambda>r. r\<lparr>pending_release := pending_release r - 1\<rparr>) st3)"

fun producer_release_loop :: "nat \<Rightarrow> nat \<Rightarrow> nat \<Rightarrow> ipa_rm_context_type \<Rightarrow> ipa_rm_context_type" where
  "producer_release_loop 0 i producer st = st"
| "producer_release_loop (Suc n) i producer st =
     (case loop_peer producer i st of
        (None, st1) \<Rightarrow> producer_release_loop n (Suc i) producer st1
      | (Some consumer, st1) \<Rightarrow> producer_release_loop n (Suc i) producer (release_peer producer consumer st1))"

definition ipa_rm_resource_producer_release :: "nat \<Rightarrow> ipa_rm_context_type \<Rightarrow> int \<times> ipa_rm_context_type" where
  "ipa_rm_resource_producer_release producer st =
     (let st0 = as_prod producer st in
      if rs_state (res st producer) = IPA_RM_RELEASED then (0, st0)
      else if rs_state (res st producer) = IPA_RM_RELEASE_IN_PROGRESS then (- EINPROGRESS, st0)
      else
        let st1 = upd_res producer (\<lambda>r. r\<lparr>rs_state := IPA_RM_RELEASE_IN_PROGRESS, pending_release := 0\<rparr>) st0;
            st2 = producer_release_loop (loop_size producer st1) 0 producer st1
        in (0, if pending_release (res st2 producer) = 0 then
                 let st3 = set_state producer IPA_RM_RELEASED st2;
                     n = rs_name (res st3 producer);
                     st4 = ipa_rm_perf_profile_change n st3
                 in snd (ipa_rm_wq_send_cmd IPA_RM_WQ_NOTIFY_PROD n IPA_RM_RESOURCE_RELEASED True st4)
               else st2))"

section \<open>Dependencies\<close>

definition ipa_rm_resource_add_dependency :: "nat option \<Rightarrow> nat option \<Rightarrow> bool \<Rightarrow> ipa_rm_context_type \<Rightarrow>
    int \<times> ipa_rm_context_type" where
  "ipa_rm_resource_add_dependency resource depends_on usdep st =
     (case (resource, depends_on) of
        (Some p, Some q) \<Rightarrow>
          (case ipa_rm_peers_list_check_dependency (peers_list (res st p)) (rs_name (res st p))
                  (peers_list (res st q)) (rs_name (res st q)) of
             (True, _, bad) \<Rightarrow> (- EEXIST, flag_ub bad (as_res q (as_res p st)))
           | (False, _, bad) \<Rightarrow>
               let st0 = flag_ub bad (as_res q (as_res p st));
                   st1 = add_peer_to q p usdep (add_peer_to p q usdep st0);
                   st2 = upd_res p (\<lambda>r. r\<lparr>needed_bw := needed_bw r + max_bw (res st1 q)\<rparr>) st1;
                   prev_state = rs_state (res st2 p)
               in if prev_state = IPA_RM_RELEASED \<or> prev_state = IPA_RM_RELEASE_IN_PROGRESS then (0, st2)
                  else
                    let st3 = upd_res p (\<lambda>r. r\<lparr>rs_state := IPA_RM_REQUEST_IN_PROGRESS, pending_request := pending_request r + 1\<rparr>)
                                (as_prod p st2)
                    in case ipa_rm_resource_consumer_request q (max_bw (res st3 p)) True False st3 of
                         (consumer_result, st4) \<Rightarrow>
                           (consumer_result,
                            if consumer_result \<noteq> - EINPROGRESS then
                              let st5 = upd_res p (\<lambda>r. r\<lparr>rs_state := prev_state, pending_request := pending_request r - 1\<rparr>) st4
                              in ipa_rm_perf_profile_change (rs_name (res st5 p)) st5
                            else st4))
      | _ \<Rightarrow> (- EINVAL, st))"

text \<open>
  The state change of a producer that loses a dependency: the new state, the event when the
  state of the producer changes, and whether the consumer has to be released.
\<close>

definition delete_dependency_state :: "nat \<Rightarrow> nat \<Rightarrow> ipa_rm_context_type \<Rightarrow>
    ipa_rm_event option \<times> bool \<times> ipa_rm_context_type" where
  "delete_dependency_state p q st =
     (case rs_state (res st p) of
        IPA_RM_RELEASED \<Rightarrow> (None, False, st)
      | IPA_RM_GRANTED \<Rightarrow> (None, True, ipa_rm_perf_profile_change (rs_name (res st p)) st)
      | IPA_RM_RELEASE_IN_PROGRESS \<Rightarrow>
          let st1 = upd_res p (\<lambda>r. if pending_release r > 0 then r\<lparr>pending_release := pending_release r - 1\<rparr> else r) (as_prod p st)
          in if rs_state (res st1 q) = IPA_RM_RELEASE_IN_PROGRESS \<and> pending_release (res st1 p) = 0
             then (Some IPA_RM_RESOURCE_RELEASED, False,
                   ipa_rm_perf_profile_change (rs_name (res st1 p)) (set_state p IPA_RM_RELEASED st1))
             else (None, False, st1)
      | IPA_RM_REQUEST_IN_PROGRESS \<Rightarrow>
          let st1 = upd_res p (\<lambda>r. if pending_request r > 0 then r\<lparr>pending_request := pending_request r - 1\<rparr> else r) (as_prod p st)
          in if rs_state (res st1 q) = IPA_RM_REQUEST_IN_PROGRESS \<and> pending_request (res st1 p) = 0
             then (Some IPA_RM_RESOURCE_GRANTED, True,
                   ipa_rm_perf_profile_change (rs_name (res st1 p)) (set_state p IPA_RM_GRANTED st1))
             else (None, True, st1))"

definition ipa_rm_resource_delete_dependency :: "nat option \<Rightarrow> nat option \<Rightarrow> bool \<Rightarrow> ipa_rm_context_type \<Rightarrow>
    int \<times> ipa_rm_context_type" where
  "ipa_rm_resource_delete_dependency resource depends_on usdep st =
     (case (resource, depends_on) of
        (Some p, Some q) \<Rightarrow>
          (case ipa_rm_peers_list_check_dependency (peers_list (res st p)) (rs_name (res st p))
                  (peers_list (res st q)) (rs_name (res st q)) of
             (False, _, bad) \<Rightarrow> (- EINVAL, flag_ub bad (as_res q (as_res p st)))
           | (True, added_by, bad) \<Rightarrow>
               let st0 = flag_ub bad (as_res q (as_res p st)) in
               if added_by \<noteq> Some usdep then (0, st0)
               else
                 let st1 = upd_res p (\<lambda>r. r\<lparr>needed_bw := needed_bw r - max_bw (res st0 q)\<rparr>) st0
                 in case delete_dependency_state p q st1 of
                      (evt, release_consumer, st2) \<Rightarrow>
                        let st3 = (case evt of
                                     None \<Rightarrow> st2
                                   | Some e \<Rightarrow> snd (ipa_rm_wq_send_cmd IPA_RM_WQ_NOTIFY_PROD (rs_name (res st2 p)) e False st2));
                            st4 = remove_peer_from p (rs_name (res st3 q)) st3;
                            st5 = remove_peer_from q (rs_name (res st4 p)) st4
                        in (0, if release_consumer
                               then snd (ipa_rm_resource_consumer_release q (max_bw (res st5 p)) True st5) else st5))
      | _ \<Rightarrow> (- EINVAL, st))"

section \<open>Creation, registration and deletion\<close>

definition alloc_resource :: "ipa_rm_context_type \<Rightarrow> nat option \<times> ipa_rm_context_type" where
  "alloc_resource st =
     (case kzalloc st of
        (False, st1) \<Rightarrow> (None, st1)
      | (True, st1) \<Rightarrow> (Some (rm_next st1), st1\<lparr>rm_heap := (rm_heap st1)(rm_next st1 \<mapsto> zero_resource), rm_next := rm_next st1 + 1\<rparr>))"

definition kfree_resource :: "nat \<Rightarrow> ipa_rm_context_type \<Rightarrow> ipa_rm_context_type" where
  "kfree_resource p st = (as_res p st)\<lparr>rm_heap := (rm_heap st)(p := None)\<rparr>"

definition ipa_rm_resource_producer_register :: "nat option \<Rightarrow> ipa_rm_register_params option \<Rightarrow> bool \<Rightarrow>
    ipa_rm_context_type \<Rightarrow> int \<times> ipa_rm_context_type" where
  "ipa_rm_resource_producer_register producer reg_params is_explicit st =
     (case (producer, reg_params) of
        (Some p, Some params) \<Rightarrow>
          let st0 = as_prod p st in
          if \<exists>info \<in> set (event_listeners (res st p)). notify_cb info = reg_notify_cb params then (- EPERM, st0)
          else (case kzalloc st0 of
                  (False, st1) \<Rightarrow> (- ENOMEM, st1)
                | (True, st1) \<Rightarrow>
                    (0, upd_res p (\<lambda>r. r\<lparr>event_listeners :=
                         \<lparr>notify_cb = reg_notify_cb params, user_data = reg_user_data params, explicit = is_explicit\<rparr>
                         # event_listeners r\<rparr>) st1))
      | _ \<Rightarrow> (- EPERM, st))"

text \<open>Deregistration deletes the first listener with the callback.\<close>

fun remove_listener :: "nat \<Rightarrow> ipa_rm_notification_info list \<Rightarrow> ipa_rm_notification_info list option" where
  "remove_listener cb [] = None"
| "remove_listener cb (info # infos) =
     (if notify_cb info = cb then Some infos else map_option ((#) info) (remove_listener cb infos))"

definition ipa_rm_resource_producer_deregister :: "nat option \<Rightarrow> ipa_rm_register_params option \<Rightarrow>
    ipa_rm_context_type \<Rightarrow> int \<times> ipa_rm_context_type" where
  "ipa_rm_resource_producer_deregister producer reg_params st =
     (case (producer, reg_params) of
        (Some p, Some params) \<Rightarrow>
          (case remove_listener (reg_notify_cb params) (event_listeners (res st p)) of
             None \<Rightarrow> (- EINVAL, as_prod p st)
           | Some infos \<Rightarrow> (0, upd_res p (\<lambda>r. r\<lparr>event_listeners := infos\<rparr>) (as_prod p st)))
      | _ \<Rightarrow> (- EINVAL, st))"

definition ipa_rm_resource_producer_create :: "ipa_rm_create_params \<Rightarrow> ipa_rm_context_type \<Rightarrow>
    int \<times> nat option \<times> ipa_rm_context_type" where
  "ipa_rm_resource_producer_create params st =
     (case alloc_resource st of
        (None, st1) \<Rightarrow> (- ENOMEM, None, st1)
      | (Some p, st1) \<Rightarrow>
          (case ipa_rm_resource_producer_register (Some p) (Some (cp_reg_params params)) False st1 of
             (result, st2) \<Rightarrow>
               if result \<noteq> 0 then (result, None, kfree_resource p st2)
               else (result, Some p, upd_res p (\<lambda>r. r\<lparr>rs_type := IPA_RM_PRODUCER\<rparr>) st2)))"

definition ipa_rm_resource_consumer_create :: "ipa_rm_create_params \<Rightarrow> ipa_rm_context_type \<Rightarrow>
    int \<times> nat option \<times> ipa_rm_context_type" where
  "ipa_rm_resource_consumer_create params st =
     (case alloc_resource st of
        (None, st1) \<Rightarrow> (- ENOMEM, None, st1)
      | (Some p, st1) \<Rightarrow>
          (0, Some p, upd_res p (\<lambda>r. r\<lparr>request_resource := cp_request_resource params,
              release_resource := cp_release_resource params, rs_type := IPA_RM_CONSUMER, request_completed := False\<rparr>) st1))"

definition ipa_rm_resource_producer_delete :: "nat \<Rightarrow> ipa_rm_context_type \<Rightarrow> ipa_rm_context_type" where
  "ipa_rm_resource_producer_delete producer st =
     upd_res producer (\<lambda>r. r\<lparr>event_listeners := []\<rparr>) (snd (ipa_rm_resource_producer_release producer st))"

text \<open>The loop that deletes all dependencies of a resource; \<open>as_producer\<close> tells on which side it is.\<close>

definition delete_peer :: "bool \<Rightarrow> nat \<Rightarrow> nat \<Rightarrow> bool \<Rightarrow> ipa_rm_context_type \<Rightarrow> ipa_rm_context_type" where
  "delete_peer as_producer p q usdep st =
     snd (if as_producer then ipa_rm_resource_delete_dependency (Some p) (Some q) usdep st
          else ipa_rm_resource_delete_dependency (Some q) (Some p) usdep st)"

fun delete_loop :: "nat \<Rightarrow> nat \<Rightarrow> bool \<Rightarrow> nat \<Rightarrow> ipa_rm_context_type \<Rightarrow> ipa_rm_context_type" where
  "delete_loop 0 i as_producer p st = st"
| "delete_loop (Suc n) i as_producer p st =
     (case loop_peer p i st of
        (None, st1) \<Rightarrow> delete_loop n (Suc i) as_producer p st1
      | (Some q, st1) \<Rightarrow> delete_loop n (Suc i) as_producer p (delete_peer as_producer p q (loop_userspace_dep p i st1) st1))"

definition ipa_rm_resource_delete :: "nat option \<Rightarrow> ipa_rm_context_type \<Rightarrow> int \<times> ipa_rm_context_type" where
  "ipa_rm_resource_delete resource st =
     (case resource of
        None \<Rightarrow> (- EINVAL, st)
      | Some p \<Rightarrow>
          let st0 = as_res p st;
              is_prod = rs_type (res st p) = IPA_RM_PRODUCER;
              st1 = (if peers_list (res st p) = None then st0 else delete_loop (loop_size p st0) 0 is_prod p st0);
              st2 = (if is_prod then ipa_rm_resource_producer_delete p st1 else st1)
          in (0, kfree_resource p st2))"

definition ipa_rm_resource_create :: "ipa_rm_create_params option \<Rightarrow> ipa_rm_context_type \<Rightarrow>
    int \<times> nat option \<times> ipa_rm_context_type" where
  "ipa_rm_resource_create create_params st =
     (case create_params of
        None \<Rightarrow> (- EINVAL, None, st)
      | Some params \<Rightarrow>
          let (result, resource, st1) =
                (if IPA_RM_RESORCE_IS_PROD (cp_name params) then ipa_rm_resource_producer_create params st
                 else if IPA_RM_RESORCE_IS_CONS (cp_name params) then ipa_rm_resource_consumer_create params st
                 else (- EPERM, None, st))
          in case resource of
               None \<Rightarrow> (result, None, st1)
             | Some p \<Rightarrow>
                 (case ipa_rm_peers_list_create (int IPA_RM_RESOURCE_MAX) st1 of
                    (result, None, st2) \<Rightarrow> (result, Some p, snd (ipa_rm_resource_delete (Some p) st2))
                  | (result, Some pl, st2) \<Rightarrow>
                      (result, Some p, upd_res p (\<lambda>r. r\<lparr>peers_list := Some pl, rs_name := cp_name params,
                         floor_voltage := cp_floor_voltage params, rs_state := IPA_RM_RELEASED\<rparr>) st2)))"

section \<open>Performance profile\<close>

definition set_perf_peer :: "nat \<Rightarrow> nat \<Rightarrow> u32 \<Rightarrow> ipa_rm_context_type \<Rightarrow> ipa_rm_context_type" where
  "set_perf_peer p q bw st =
     (let st2 = upd_res q (\<lambda>r. r\<lparr>needed_bw := needed_bw r - max_bw (res st p) + bw\<rparr>) st
      in if rs_state (res st2 q) = IPA_RM_GRANTED then ipa_rm_perf_profile_change (rs_name (res st2 q)) st2 else st2)"

fun set_perf_loop :: "nat \<Rightarrow> nat \<Rightarrow> nat \<Rightarrow> u32 \<Rightarrow> ipa_rm_context_type \<Rightarrow> ipa_rm_context_type" where
  "set_perf_loop 0 i p bw st = st"
| "set_perf_loop (Suc n) i p bw st =
     (case loop_peer p i st of
        (None, st1) \<Rightarrow> set_perf_loop n (Suc i) p bw st1
      | (Some q, st1) \<Rightarrow> set_perf_loop n (Suc i) p bw (set_perf_peer p q bw st1))"

text \<open>The profile is given by its maximal supported bandwidth.\<close>

definition ipa_rm_resource_set_perf_profile :: "nat option \<Rightarrow> u32 option \<Rightarrow> ipa_rm_context_type \<Rightarrow>
    int \<times> ipa_rm_context_type" where
  "ipa_rm_resource_set_perf_profile resource profile st =
     (case (resource, profile) of
        (Some p, Some bw) \<Rightarrow>
          let st0 = as_res p st; r = res st p in
          if bw = max_bw r then (0, st0)
          else
            let st1 = (if (rs_type r = IPA_RM_PRODUCER \<and>
                            (rs_state r = IPA_RM_GRANTED \<or> rs_state r = IPA_RM_REQUEST_IN_PROGRESS)) \<or>
                          rs_type r = IPA_RM_CONSUMER
                       then set_perf_loop (loop_size p st0) 0 p bw st0 else st0);
                st2 = upd_res p (\<lambda>r. r\<lparr>max_bw := bw\<rparr>) st1
            in (0, if rs_state (res st2 p) = IPA_RM_GRANTED then ipa_rm_perf_profile_change (rs_name (res st2 p)) st2 else st2)
      | _ \<Rightarrow> (- EINVAL, st))"

end
