(* ===== verification/Rm_Core.thy ===== *)
theory Rm_Core
  imports Rm_Resource
begin

text \<open>
  The dependency graph (\<^verbatim>\<open>ipa_rm_dependency_graph.c\<close>) and the entry points, work handlers and
  statistics of the resource manager (\<^verbatim>\<open>ipa_rm.c\<close>). The members of the context that the code zeroes
  with the allocation of the context are those of \<open>new_context\<close>.
\<close>

section \<open>The dependency graph\<close>

definition ipa_rm_dep_graph_add :: "nat option \<Rightarrow> ipa_rm_context_type \<Rightarrow> int \<times> ipa_rm_context_type" where
  "ipa_rm_dep_graph_add resource st =
     (case resource of
        None \<Rightarrow> (- EINVAL, st)
      | Some p \<Rightarrow>
          let st0 = as_res p st; resource_index = ipa_rm_dep_get_index (rs_name (res st p))
          in if resource_index = IPA_RM_INDEX_INVALID then (- EINVAL, st0)
             else (0, st0\<lparr>resource_table := (resource_table st0)[nat resource_index := Some p]\<rparr>))"

text \<open>The name is not checked here: a name beyond the table writes outside of it.\<close>

definition ipa_rm_dep_graph_remove :: "nat \<Rightarrow> ipa_rm_context_type \<Rightarrow> int \<times> ipa_rm_context_type" where
  "ipa_rm_dep_graph_remove resource_name st =
     (0, (flag_ub (resource_name \<ge> IPA_RM_RESOURCE_MAX) st)\<lparr>resource_table := (resource_table st)[resource_name := None]\<rparr>)"

definition ipa_rm_dep_graph_delete :: "ipa_rm_context_type \<Rightarrow> ipa_rm_context_type" where
  "ipa_rm_dep_graph_delete st =
     (fold (\<lambda>entry s. case entry of None \<Rightarrow> s | Some p \<Rightarrow> kfree_resource p s) (resource_table st) st)
       \<lparr>resource_table := replicate IPA_RM_RESOURCE_MAX None\<rparr>"

definition ipa_rm_dep_graph_add_dependency :: "nat \<Rightarrow> nat \<Rightarrow> bool \<Rightarrow> ipa_rm_context_type \<Rightarrow>
    int \<times> ipa_rm_context_type" where
  "ipa_rm_dep_graph_add_dependency resource_name depends_on_name usdep st =
     (if \<not> IPA_RM_RESORCE_IS_PROD resource_name \<or> \<not> IPA_RM_RESORCE_IS_CONS depends_on_name then (- EINVAL, st)
      else case ipa_rm_dep_graph_get_resource resource_name st of
        (r1, dependent) \<Rightarrow>
          if r1 \<noteq> 0 then (- EINVAL, st)
          else case ipa_rm_dep_graph_get_resource depends_on_name st of
            (r2, dependency) \<Rightarrow>
              if r2 \<noteq> 0 then (- EINVAL, st)
              else ipa_rm_resource_add_dependency dependent dependency usdep st)"

definition ipa_rm_dep_graph_delete_dependency :: "nat \<Rightarrow> nat \<Rightarrow> bool \<Rightarrow> ipa_rm_context_type \<Rightarrow>
    int \<times> ipa_rm_context_type" where
  "ipa_rm_dep_graph_delete_dependency resource_name depends_on_name usdep st =
     (if \<not> IPA_RM_RESORCE_IS_PROD resource_name \<or> \<not> IPA_RM_RESORCE_IS_CONS depends_on_name then (- EINVAL, st)
      else case ipa_rm_dep_graph_get_resource resource_name st of
        (r1, dependent) \<Rightarrow>
          if r1 \<noteq> 0 then (- EINVAL, st)
          else case ipa_rm_dep_graph_get_resource depends_on_name st of
            (r2, dependency) \<Rightarrow>
              if r2 \<noteq> 0 then (- EINVAL, st)
              else ipa_rm_resource_delete_dependency dependent dependency usdep st)"

section \<open>Entry points\<close>

definition ipa_rm_add_dependency_core :: "nat \<Rightarrow> nat \<Rightarrow> bool \<Rightarrow> ipa_rm_context_type \<Rightarrow> int \<times> ipa_rm_context_type" where
  "ipa_rm_add_dependency_core resource_name depends_on_name usdep st =
     (if ipa_rm_ctx st = Ctx_Null then (- EINVAL, st)
      else ipa_rm_dep_graph_add_dependency resource_name depends_on_name usdep (use_ctx st))"

definition ipa_rm_add_dependency_from_ioctl :: "nat \<Rightarrow> nat \<Rightarrow> ipa_rm_context_type \<Rightarrow> int \<times> ipa_rm_context_type" where
  "ipa_rm_add_dependency_from_ioctl resource_name depends_on_name =
     ipa_rm_add_dependency_core resource_name depends_on_name True"

text \<open>\<open>time\<close> is what the wait for the completion of the consumer returns: 0 after the timeout.\<close>

definition ipa_rm_add_dependency_sync_core :: "nat \<Rightarrow> nat \<Rightarrow> nat \<Rightarrow> bool \<Rightarrow> ipa_rm_context_type \<Rightarrow>
    int \<times> ipa_rm_context_type" where
  "ipa_rm_add_dependency_sync_core time resource_name depends_on_name usdep st =
     (if ipa_rm_ctx st = Ctx_Null then (- EINVAL, st)
      else case ipa_rm_dep_graph_add_dependency resource_name depends_on_name usdep (use_ctx st) of
        (result, st1) \<Rightarrow>
          if result = - EINPROGRESS then
            (case ipa_rm_dep_graph_get_resource depends_on_name st1 of
               (_, None) \<Rightarrow> (if time = 0 then - ETIME else 0, flag_ub True st1)
             | (_, Some consumer) \<Rightarrow> (if time = 0 then - ETIME else 0, as_cons consumer st1))
          else (result, st1))"

definition ipa_rm_add_dependency_sync_from_ioctl :: "nat \<Rightarrow> nat \<Rightarrow> nat \<Rightarrow> ipa_rm_context_type \<Rightarrow>
    int \<times> ipa_rm_context_type" where
  "ipa_rm_add_dependency_sync_from_ioctl time resource_name depends_on_name =
     ipa_rm_add_dependency_sync_core time resource_name depends_on_name True"

definition ipa_rm_delete_dependency_core :: "nat \<Rightarrow> nat \<Rightarrow> bool \<Rightarrow> ipa_rm_context_type \<Rightarrow> int \<times> ipa_rm_context_type" where
  "ipa_rm_delete_dependency_core resource_name depends_on_name usdep st =
     (if ipa_rm_ctx st = Ctx_Null then (- EINVAL, st)
      else ipa_rm_dep_graph_delete_dependency resource_name depends_on_name usdep (use_ctx st))"

definition ipa_rm_delete_dependency_from_ioctl :: "nat \<Rightarrow> nat \<Rightarrow> ipa_rm_context_type \<Rightarrow> int \<times> ipa_rm_context_type" where
  "ipa_rm_delete_dependency_from_ioctl resource_name depends_on_name =
     ipa_rm_delete_dependency_core resource_name depends_on_name True"

definition delayed_release_work_func :: "ipa_rm_delayed_release_work_type \<Rightarrow> ipa_rm_context_type \<Rightarrow> ipa_rm_context_type" where
  "delayed_release_work_func rwork st =
     (if \<not> IPA_RM_RESORCE_IS_CONS (dw_resource_name rwork) then st
      else case ipa_rm_dep_graph_get_resource (dw_resource_name rwork) (use_ctx st) of
        (_, None) \<Rightarrow> use_ctx st
      | (_, Some resource) \<Rightarrow>
          snd (ipa_rm_resource_consumer_release resource (dw_needed_bw rwork) (dw_dec_usage_count rwork) (use_ctx st)))"

definition ipa_rm_request_resource_with_timer :: "nat \<Rightarrow> ipa_rm_context_type \<Rightarrow> int \<times> ipa_rm_context_type" where
  "ipa_rm_request_resource_with_timer resource_name st =
     (if \<not> IPA_RM_RESORCE_IS_CONS resource_name then (- EINVAL, st)
      else case ipa_rm_dep_graph_get_resource resource_name (use_ctx st) of
        (_, None) \<Rightarrow> (- EPERM, use_ctx st)
      | (_, Some resource) \<Rightarrow>
          (case ipa_rm_resource_consumer_request resource 0 False True (use_ctx st) of
             (result, st1) \<Rightarrow>
               if result \<noteq> 0 \<and> result \<noteq> - EINPROGRESS then (- EPERM, st1)
               else case kzalloc st1 of
                 (False, st2) \<Rightarrow> (- ENOMEM, st2)
               | (True, st2) \<Rightarrow>
                   (0, st2\<lparr>delayed_works := delayed_works st2 @ [\<lparr>dw_resource_name = rs_name (res st2 resource),
                         dw_needed_bw = 0, dw_dec_usage_count = False\<rparr>]\<rparr>)))"

section \<open>The handlers of the works\<close>

definition ipa_rm_wq_handler :: "ipa_rm_wq_cmd \<Rightarrow> nat \<Rightarrow> ipa_rm_event \<Rightarrow> bool \<Rightarrow> ipa_rm_context_type \<Rightarrow> ipa_rm_context_type" where
  "ipa_rm_wq_handler wq_cmd resource_name event notify_registered_only st =
     (case wq_cmd of
        IPA_RM_WQ_NOTIFY_PROD \<Rightarrow>
          if \<not> IPA_RM_RESORCE_IS_PROD resource_name then st
          else (case ipa_rm_dep_graph_get_resource resource_name (use_ctx st) of
                  (_, None) \<Rightarrow> use_ctx st
                | (_, Some resource) \<Rightarrow>
                    ipa_rm_resource_producer_notify_clients resource event notify_registered_only (use_ctx st))
      | IPA_RM_WQ_NOTIFY_CONS \<Rightarrow> st
      | IPA_RM_WQ_RESOURCE_CB \<Rightarrow>
          (case ipa_rm_dep_graph_get_resource resource_name (use_ctx st) of
             (_, None) \<Rightarrow> use_ctx st
           | (_, Some resource) \<Rightarrow> ipa_rm_resource_consumer_handle_cb (Some resource) event (use_ctx st)))"

definition ipa_rm_wq_resume_handler :: "nat \<Rightarrow> ipa_rm_resource_state \<Rightarrow> u32 \<Rightarrow> bool \<Rightarrow> ipa_rm_context_type \<Rightarrow> ipa_rm_context_type" where
  "ipa_rm_wq_resume_handler resource_name prev_state needed inc_usage_count st =
     (if \<not> IPA_RM_RESORCE_IS_CONS resource_name then st
      else
        let st1 = use_ctx (call_void (Call_Inc_Client resource_name) st)
        in case ipa_rm_dep_graph_get_resource resource_name st1 of
             (_, None) \<Rightarrow> call_void (Call_Dec_Client resource_name) st1
           | (_, Some resource) \<Rightarrow>
               snd (ipa_rm_resource_consumer_request_work resource prev_state needed True inc_usage_count st1))"

definition ipa_rm_wq_suspend_handler :: "nat \<Rightarrow> ipa_rm_resource_state \<Rightarrow> ipa_rm_context_type \<Rightarrow> ipa_rm_context_type" where
  "ipa_rm_wq_suspend_handler resource_name prev_state st =
     (if \<not> IPA_RM_RESORCE_IS_CONS resource_name then st
      else
        let st1 = use_ctx (call_void (Call_Suspend_Sync resource_name) st)
        in case ipa_rm_dep_graph_get_resource resource_name st1 of
             (_, None) \<Rightarrow> st1
           | (_, Some resource) \<Rightarrow> snd (ipa_rm_resource_consumer_release_work resource prev_state True st1))"

definition ipa_rm_perf_profile_notify_to_ipa_work :: "ipa_voltage_level \<Rightarrow> u32 \<Rightarrow> ipa_rm_context_type \<Rightarrow> ipa_rm_context_type" where
  "ipa_rm_perf_profile_notify_to_ipa_work volt bandwidth_mbps st = snd (call_driver (Call_Set_Perf_Profile volt bandwidth_mbps) st)"

definition run_work :: "rm_work \<Rightarrow> ipa_rm_context_type \<Rightarrow> ipa_rm_context_type" where
  "run_work w st =
     (case w of
        Wq_Work cmd n event only \<Rightarrow> ipa_rm_wq_handler cmd n event only st
      | Wq_Resume_Work n prev bw inc \<Rightarrow> ipa_rm_wq_resume_handler n prev bw inc st
      | Wq_Suspend_Work n prev bw \<Rightarrow> ipa_rm_wq_suspend_handler n prev st
      | Wq_Perf_Work volt bw \<Rightarrow> ipa_rm_perf_profile_notify_to_ipa_work volt bw st)"

text \<open>The queue has a single thread: it takes the oldest work and runs its handler.\<close>

definition wq_step :: "ipa_rm_context_type \<Rightarrow> ipa_rm_context_type" where
  "wq_step st = (case ipa_rm_wq st of [] \<Rightarrow> st | w # ws \<Rightarrow> run_work w (st\<lparr>ipa_rm_wq := ws\<rparr>))"

text \<open>The timer of a delayed release: the work at a position of the list is due.\<close>

definition timer_step :: "nat \<Rightarrow> ipa_rm_context_type \<Rightarrow> ipa_rm_context_type" where
  "timer_step k st =
     (if k < length (delayed_works st)
      then delayed_release_work_func (delayed_works st ! k)
             (st\<lparr>delayed_works := take k (delayed_works st) @ drop (Suc k) (delayed_works st)\<rparr>)
      else st)"

section \<open>Start and end\<close>

definition new_context :: "ipa_rm_context_type \<Rightarrow> ipa_rm_context_type" where
  "new_context st = st\<lparr>ipa_rm_ctx := Ctx_Live, resource_table := replicate IPA_RM_RESOURCE_MAX None,
     vote_volt := replicate IPA_RM_RESOURCE_MAX IPA_VOLTAGE_UNSPECIFIED, curr_volt := IPA_VOLTAGE_UNSPECIFIED,
     bw_resources := replicate IPA_RM_RESOURCE_MAX 0, curr_bw := 0, ipa_rm_wq := []\<rparr>"

text \<open>
  The creation of the work queue and of the graph can fail like an allocation. The context is
  freed then, and the global pointer keeps its address.
\<close>

definition ipa_rm_initialize :: "ipa_rm_context_type \<Rightarrow> int \<times> ipa_rm_context_type" where
  "ipa_rm_initialize st =
     (case kzalloc st of
        (False, st1) \<Rightarrow> (- ENOMEM, st1\<lparr>ipa_rm_ctx := Ctx_Null\<rparr>)
      | (True, st1) \<Rightarrow>
          (case kzalloc (new_context st1) of
             (False, st2) \<Rightarrow> (- ENOMEM, st2\<lparr>ipa_rm_ctx := Ctx_Dangling\<rparr>)
           | (True, st2) \<Rightarrow>
               (case kzalloc st2 of
                  (False, st3) \<Rightarrow> (- ENOMEM, st3\<lparr>ipa_rm_ctx := Ctx_Dangling\<rparr>)
                | (True, st3) \<Rightarrow> (0, st3))))"

text \<open>Destroying the work queue runs the works that are pending.\<close>

definition ipa_rm_exit :: "ipa_rm_context_type \<Rightarrow> ipa_rm_context_type" where
  "ipa_rm_exit st =
     (let st1 = ipa_rm_dep_graph_delete (use_ctx st);
          st2 = fold (\<lambda>_. wq_step) (ipa_rm_wq st1) st1
      in st2\<lparr>ipa_rm_ctx := Ctx_Null\<rparr>)"

section \<open>Statistics\<close>

definition resource_name_to_str :: "string list" where
  "resource_name_to_str =
     [''IPA_RM_RESOURCE_Q6_PROD'', ''IPA_RM_RESOURCE_Q6_CONS'', ''IPA_RM_RESOURCE_USB_PROD'', ''IPA_RM_RESOURCE_USB_CONS'',
      ''IPA_RM_RESOURCE_USB_DPL_DUMMY_PROD'', ''IPA_RM_RESOURCE_USB_DPL_CONS'', ''IPA_RM_RESOURCE_HSIC_PROD'',
      ''IPA_RM_RESOURCE_HSIC_CONS'', ''IPA_RM_RESOURCE_STD_ECM_PROD'', ''IPA_RM_RESOURCE_APPS_CONS'',
      ''IPA_RM_RESOURCE_RNDIS_PROD'', ''RESERVED_CONS_11'', ''IPA_RM_RESOURCE_WWAN_0_PROD'', ''RESERVED_CONS_13'',
      ''IPA_RM_RESOURCE_WLAN_PROD'', ''IPA_RM_RESOURCE_WLAN_CONS'', ''IPA_RM_RESOURCE_ODU_ADAPT_PROD'',
      ''IPA_RM_RESOURCE_ODU_ADAPT_CONS'', ''IPA_RM_RESOURCE_MHI_PROD'', ''IPA_RM_RESOURCE_MHI_CONS'',
      ''IPA_RM_RESOURCE_ETHERNET_PROD'', ''IPA_RM_RESOURCE_ETHERNET_CONS'']"

definition ipa_rm_resource_str :: "nat \<Rightarrow> string" where
  "ipa_rm_resource_str resource_name =
     (if resource_name \<ge> IPA_RM_RESOURCE_MAX then ''INVALID RESOURCE'' else resource_name_to_str ! resource_name)"

text \<open>The conversion \<^verbatim>\<open>%d\<close>, which reads an unsigned word as a signed one.\<close>

fun show_nat :: "nat \<Rightarrow> string" where
  "show_nat n = (if n < 10 then [char_of (48 + n)] else show_nat (n div 10) @ [char_of (48 + n mod 10)])"

definition show_d :: "u32 \<Rightarrow> string" where
  "show_d w = (if sint w < 0 then CHR ''-'' # show_nat (nat (- sint w)) else show_nat (nat (sint w)))"

text \<open>
  \<^verbatim>\<open>scnprintf\<close> writes what fits with a final NUL and returns the number of characters; the text is
  what has been written to the buffer of the given size so far.
\<close>

definition emit :: "nat \<Rightarrow> string \<Rightarrow> string \<Rightarrow> string" where
  "emit sz s txt = txt @ take (sz - length txt - 1) s"

fun state_str :: "ipa_rm_resource_state \<Rightarrow> string" where
  "state_str IPA_RM_RELEASED = ''Released]''"
| "state_str IPA_RM_REQUEST_IN_PROGRESS = ''Request In Progress]''"
| "state_str IPA_RM_GRANTED = ''Granted]''"
| "state_str IPA_RM_RELEASE_IN_PROGRESS = ''Release In Progress]''"

definition emit_peer :: "nat \<Rightarrow> ipa_rm_resource \<Rightarrow> string \<Rightarrow> string" where
  "emit_peer sz c txt =
     (let txt1 = emit sz (ipa_rm_resource_str (rs_name c)) txt;
          txt2 = emit sz (''['' @ show_d (max_bw c) @ '', '') txt1
      in emit sz (state_str (rs_state c) @ '', '') txt2)"

fun print_stat_loop :: "nat \<Rightarrow> nat \<Rightarrow> nat \<Rightarrow> nat \<Rightarrow> string \<Rightarrow> ipa_rm_context_type \<Rightarrow> string \<times> ipa_rm_context_type" where
  "print_stat_loop 0 i p sz txt st = (txt, st)"
| "print_stat_loop (Suc n) i p sz txt st =
     (case loop_peer p i st of
        (None, st1) \<Rightarrow> print_stat_loop n (Suc i) p sz txt st1
      | (Some q, st1) \<Rightarrow> print_stat_loop n (Suc i) p sz (emit_peer sz (res st1 q) txt) (as_res q st1))"

definition ipa_rm_resource_producer_print_stat :: "nat \<Rightarrow> int \<Rightarrow> ipa_rm_context_type \<Rightarrow>
    int \<times> string \<times> ipa_rm_context_type" where
  "ipa_rm_resource_producer_print_stat p sz st =
     (if sz < 0 then (- EINVAL, [], st)
      else
        let st0 = as_res p st; r = res st p; n = nat sz;
            txt1 = emit n (ipa_rm_resource_str (rs_name r)) [];
            txt2 = emit n (''['' @ show_d (max_bw r) @ '', '') txt1;
            txt3 = emit n (state_str (rs_state r) @ '' -> '') txt2;
            (txt4, st1) = print_stat_loop (loop_size p st0) 0 p n txt3 (flag_ub (peers_list r = None) st0);
            txt5 = emit n [char_of (10 :: nat)] txt4
        in (int (length txt5), txt5, st1))"

fun stat_loop :: "nat list \<Rightarrow> int \<Rightarrow> string \<Rightarrow> ipa_rm_context_type \<Rightarrow> (int + string) \<times> ipa_rm_context_type" where
  "stat_loop [] sz txt st = (Inr txt, st)"
| "stat_loop (i # is) sz txt st =
     (if \<not> IPA_RM_RESORCE_IS_PROD i then stat_loop is sz txt st
      else case ipa_rm_dep_graph_get_resource i st of
        (_, None) \<Rightarrow> stat_loop is sz txt st
      | (_, Some p) \<Rightarrow>
          (case ipa_rm_resource_producer_print_stat p (sz - int (length txt)) st of
             (result, s, st1) \<Rightarrow> if result < 0 then (Inl result, st1) else stat_loop is sz (txt @ s) st1))"

text \<open>The result, the text in the buffer and the state. The buffer is NULL or has the given sz.\<close>

definition ipa_rm_stat :: "bool \<Rightarrow> int \<Rightarrow> ipa_rm_context_type \<Rightarrow> int \<times> string \<times> ipa_rm_context_type" where
  "ipa_rm_stat buf_null sz st =
     (if buf_null \<or> sz < 0 then (EINVAL, [], st)
      else case stat_loop [0..<IPA_RM_RESOURCE_MAX] sz [] (use_ctx st) of
        (Inl result, st1) \<Rightarrow> (result, [], st1)
      | (Inr txt, st1) \<Rightarrow>
          let sum_bw_prod = sum_bw IPA_RM_RESORCE_IS_PROD (bw_resources st1);
              sum_bw_cons = sum_bw (\<lambda>i. \<not> IPA_RM_RESORCE_IS_PROD i) (bw_resources st1);
              txt1 = emit (nat sz) (''All prod bandwidth: '' @ show_d sum_bw_prod @ '', All cons bandwidth: '' @
                show_d sum_bw_cons @ [char_of (10 :: nat)]) txt;
              txt2 = emit (nat sz) (''Voting: voltage '' @ show_nat (voltage_rank (curr_volt st1)) @ '', bandwidth '' @
                show_d (curr_bw st1) @ [char_of (10 :: nat)]) txt1
          in (int (length txt2), txt2, st1))"

end
