(* ===== verification/Rm_Invariant.thy ===== *)
theory Rm_Invariant
  imports Rm_Core
begin

text \<open>
  What the operations of the resource manager keep: the peers lists of producers and consumers
  mirror each other, no operation on a live resource leaves its arrays or follows a stale
  pointer, and the operations on one consumer change the entry of this consumer only.
\<close>

section \<open>Live resources\<close>

definition table_live :: "ipa_rm_context_type \<Rightarrow> bool" where
  "table_live st \<longleftrightarrow> (\<forall>n p. valid_name n \<longrightarrow> resource_table st ! n = Some p \<longrightarrow> p \<in> dom (rm_heap st))"

definition prod_at :: "ipa_rm_context_type \<Rightarrow> nat \<Rightarrow> ipa_rm_resource \<Rightarrow> bool" where
  "prod_at st p r \<longleftrightarrow> rm_heap st p = Some r \<and> rs_type r = IPA_RM_PRODUCER"

definition cons_at :: "ipa_rm_context_type \<Rightarrow> nat \<Rightarrow> ipa_rm_resource \<Rightarrow> bool" where
  "cons_at st p r \<longleftrightarrow> rm_heap st p = Some r \<and> rs_type r = IPA_RM_CONSUMER \<and> request_resource r \<noteq> None \<and> release_resource r \<noteq> None"

lemma live_simps:
  assumes "rm_heap st p = Some r"
  shows "res st p = r" "upd_res p f st = st\<lparr>rm_heap := (rm_heap st)(p \<mapsto> f r)\<rparr>" "as_res p st = st"
    "set_state p s st = st\<lparr>rm_heap := (rm_heap st)(p \<mapsto> r\<lparr>rs_state := s\<rparr>)\<rparr>"
    "rs_type r = IPA_RM_PRODUCER \<Longrightarrow> as_prod p st = st" "rs_type r = IPA_RM_CONSUMER \<Longrightarrow> as_cons p st = st"
  using assms by (simp_all add: res_def upd_res_def as_res_def flag_ub_def as_prod_def as_cons_def set_state_def)

lemma flag_ub_False [simp]: "flag_ub False st = st"
  by (simp add: flag_ub_def)

lemma perf_ub [simp]: "table_live st \<Longrightarrow> rm_ub (ipa_rm_perf_profile_change n st) = rm_ub st"
  by (rule perf_change_ub) (auto simp: table_live_def)

lemma table_live_cong:
  "dom (rm_heap a) = dom (rm_heap b) \<Longrightarrow> resource_table a = resource_table b \<Longrightarrow> table_live a = table_live b"
  by (simp add: table_live_def)

section \<open>Frames\<close>

text \<open>
  What every operation on existing resources keeps: the table, the addresses in use, the answers
  of the drivers, the delayed works, the flag for undefined behaviour, the invariant of the vote, and
  that the works which report the completion of a driver are for consumers.
\<close>

definition work_ok :: "rm_work \<Rightarrow> bool" where
  "work_ok w \<longleftrightarrow> (case w of Wq_Work cmd n ev b \<Rightarrow> cmd = IPA_RM_WQ_RESOURCE_CB \<longrightarrow> IPA_RM_RESORCE_IS_CONS n | _ \<Rightarrow> True)"

lemma work_ok_simps [simp]:
  "work_ok (Wq_Work IPA_RM_WQ_NOTIFY_PROD n ev b)" "work_ok (Wq_Resume_Work n s bw c)" "work_ok (Wq_Suspend_Work n s bw)"
  "work_ok (Wq_Perf_Work v bw)" "work_ok (Wq_Work IPA_RM_WQ_RESOURCE_CB n ev b) = IPA_RM_RESORCE_IS_CONS n"
  by (simp_all add: work_ok_def)

definition wq_ok :: "ipa_rm_context_type \<Rightarrow> bool" where
  "wq_ok st \<longleftrightarrow> list_all work_ok (ipa_rm_wq st)"

lemma wq_ok_cong: "ipa_rm_wq a = ipa_rm_wq b \<Longrightarrow> wq_ok a = wq_ok b"
  by (simp add: wq_ok_def)

lemma wq_ok_queue [simp]: "work_ok w \<Longrightarrow> wq_ok st \<Longrightarrow> wq_ok (queue_work w st)"
  by (simp add: wq_ok_def queue_work_def kzalloc_def)

lemma wq_ok_perf [simp]: "wq_ok st \<Longrightarrow> wq_ok (ipa_rm_perf_profile_change n st)"
proof -
  assume wq: "wq_ok st"
  have "ipa_rm_wq (cast_vote n r (as_res p st)) = ipa_rm_wq st" for r p
    by (simp add: cast_vote_def as_res_def flag_ub_def Let_def)
  then have "wq_ok (cast_vote n r (as_res p st))" for r p using wq wq_ok_cong by blast
  then show ?thesis
    using wq by (simp add: ipa_rm_perf_profile_change_def ipa_rm_perf_profile_notify_to_ipa_def Let_def split: prod.split option.split)
qed

definition frame :: "ipa_rm_context_type \<Rightarrow> ipa_rm_context_type \<Rightarrow> bool" where
  "frame st st' \<longleftrightarrow> resource_table st' = resource_table st \<and> rm_next st' = rm_next st \<and> rm_ub st' = rm_ub st \<and>
     driver_result st' = driver_result st \<and> ipa_rm_ctx st' = ipa_rm_ctx st \<and> dom (rm_heap st') = dom (rm_heap st) \<and>
     delayed_works st' = delayed_works st \<and> (vote_ok st \<longrightarrow> vote_ok st') \<and> (wq_ok st \<longrightarrow> wq_ok st')"

lemma frame_refl [simp]: "frame st st"
  by (simp add: frame_def)

lemma frame_trans [trans]: "frame a b \<Longrightarrow> frame b c \<Longrightarrow> frame a c"
  by (simp add: frame_def)

lemma frame_table_live: "frame st st' \<Longrightarrow> table_live st' = table_live st"
  by (rule table_live_cong) (simp_all add: frame_def)

lemma frame_heap:
  assumes "rm_heap st p = Some r"
  shows "frame st (st\<lparr>rm_heap := (rm_heap st)(p \<mapsto> r')\<rparr>)"
  using assms vote_ok_cong [of st "st\<lparr>rm_heap := (rm_heap st)(p \<mapsto> r')\<rparr>"] wq_ok_cong [of st "st\<lparr>rm_heap := (rm_heap st)(p \<mapsto> r')\<rparr>"]
  by (auto simp: frame_def)

lemma frame_perf: "table_live st \<Longrightarrow> frame st (ipa_rm_perf_profile_change n st)"
  by (simp add: frame_def rm_frame)

lemma frame_queue: "work_ok w \<Longrightarrow> frame st (queue_work w st)"
  by (simp add: frame_def rm_frame)

lemma frame_call: "frame st (snd (call_driver c st))" "frame st (call_void c st)"
  using vote_ok_cong [of st "snd (call_driver c st)"] vote_ok_cong [of st "call_void c st"]
    wq_ok_cong [of st "snd (call_driver c st)"] wq_ok_cong [of st "call_void c st"]
  by (simp_all add: frame_def call_driver_def call_void_def)

lemma call_heap [simp]: "rm_heap (call_void c st) = rm_heap st" "rm_heap (snd (call_driver c st)) = rm_heap st"
  "driver_result (snd (call_driver c st)) = driver_result st"
  by (simp_all add: call_void_def call_driver_def)

lemmas rm_heap_frame [simp] = queue_work_frame(1) perf_change_frame(1)

text \<open>One resource changes, the rest of the heap does not.\<close>

definition only :: "nat \<Rightarrow> ipa_rm_resource \<Rightarrow> ipa_rm_context_type \<Rightarrow> ipa_rm_context_type \<Rightarrow> bool" where
  "only p r' st st' \<longleftrightarrow> frame st st' \<and> rm_heap st' = (rm_heap st)(p \<mapsto> r')"

lemma only_res: "only p r' st st' \<Longrightarrow> res st' p = r'" "only p r' st st' \<Longrightarrow> q \<noteq> p \<Longrightarrow> res st' q = res st q"
  by (simp_all add: only_def res_def)

lemma only_upd:
  assumes "only p r st st'"
  shows "only p (f r) st (upd_res p f st')"
proof -
  have p: "rm_heap st' p = Some r" using assms by (simp add: only_def)
  show ?thesis
    using assms frame_heap [OF p, of "f r"] unfolding only_def live_simps(2) [OF p]
    by (auto dest: frame_trans)
qed

lemma only_state: "only p r st st' \<Longrightarrow> only p (r\<lparr>rs_state := s\<rparr>) st (set_state p s st')"
  unfolding set_state_def by (rule only_upd)

lemma only_frame: "only p r st st' \<Longrightarrow> frame st' st'' \<Longrightarrow> rm_heap st'' = rm_heap st' \<Longrightarrow> only p r st st''"
  by (auto simp: only_def dest: frame_trans)

lemma only_perf: "only p r st st' \<Longrightarrow> table_live st \<Longrightarrow> only p r st (ipa_rm_perf_profile_change n st')"
  by (rule only_frame [OF _ frame_perf]) (auto simp: only_def frame_table_live)

lemma only_queue: "only p r st st' \<Longrightarrow> work_ok w \<Longrightarrow> only p r st (queue_work w st')"
  by (rule only_frame [OF _ frame_queue]) auto

lemma only_call: "only p r st st' \<Longrightarrow> only p r st (call_void c st')"
  "only p r st st' \<Longrightarrow> only p r st (snd (call_driver c st'))"
  by (rule only_frame [OF _ frame_call(2)]; simp) (rule only_frame [OF _ frame_call(1)]; simp)

lemma only_refl: "rm_heap st p = Some r \<Longrightarrow> only p r st st"
  by (auto simp: only_def)

lemmas only_intros = only_upd only_state only_perf only_queue only_call

text \<open>The driver calls of a consumer that has its callbacks.\<close>

lemma call_cb_Some: "call_cb call (Some f) st = call_driver (call f) st"
  by (simp add: call_cb_def)

section \<open>One consumer\<close>

text \<open>The result of the driver for the next call.\<close>

definition next_result :: "ipa_rm_context_type \<Rightarrow> int" where
  "next_result st = driver_result st (driver_calls st)"

lemma call_driver_pair: "call_driver c st = (next_result st, snd (call_driver c st))"
  by (simp add: call_driver_def next_result_def)

lemma request_work_only:
  fixes prev bw dec
  assumes o: "only c r st st'" and c: "rs_type r = IPA_RM_CONSUMER" "request_resource r \<noteq> None"
    and tl: "table_live st"
  defines "out \<equiv> ipa_rm_resource_consumer_request_work c prev bw False dec st'"
  shows "fst out = next_result st'"
    and "fst out = 0 \<Longrightarrow> only c (r\<lparr>rs_state := IPA_RM_GRANTED\<rparr>) st (snd out)"
    and "fst out = - EINPROGRESS \<Longrightarrow> only c r st (snd out)"
    and "fst out \<noteq> 0 \<Longrightarrow> fst out \<noteq> - EINPROGRESS \<Longrightarrow> only c (r\<lparr>rs_state := prev, needed_bw := needed_bw r - bw,
       usage_count := (if dec then usage_count r - 1 else usage_count r)\<rparr>) st (snd out)"
proof -
  have heap: "rm_heap st' c = Some r" using o by (auto simp: only_def)
  obtain f where f: "request_resource r = Some f" using c by auto
  let ?st1 = "snd (call_driver (Call_Request_Resource f) st')"
  have o1: "only c r st ?st1" by (rule only_call(2) [OF o])
  have out: "out = (let n = rs_name (res (set_state c IPA_RM_GRANTED ?st1) c) in
     (next_result st',
      if next_result st' = 0
      then call_void (Call_Resume n) (ipa_rm_perf_profile_change n (set_state c IPA_RM_GRANTED ?st1))
      else if next_result st' \<noteq> - EINPROGRESS then
        upd_res c (\<lambda>r. r\<lparr>rs_state := prev, needed_bw := needed_bw r - bw,
               usage_count := (if dec then usage_count r - 1 else usage_count r)\<rparr>) ?st1
      else ?st1))"
    unfolding out_def ipa_rm_resource_consumer_request_work_def live_simps(1) [OF heap] live_simps(6) [OF heap c(1)] f
      call_cb_Some
    by (subst call_driver_pair) (simp add: Let_def)
  show "fst out = next_result st'" by (simp add: out Let_def)
  then show "fst out = 0 \<Longrightarrow> only c (r\<lparr>rs_state := IPA_RM_GRANTED\<rparr>) st (snd out)"
    and "fst out = - EINPROGRESS \<Longrightarrow> only c r st (snd out)"
    using o1 by (auto simp: out Let_def intro!: only_call(1) only_perf [OF only_state tl])
  show "fst out \<noteq> 0 \<Longrightarrow> fst out \<noteq> - EINPROGRESS \<Longrightarrow> only c (r\<lparr>rs_state := prev, needed_bw := needed_bw r - bw,
       usage_count := (if dec then usage_count r - 1 else usage_count r)\<rparr>) st (snd out)"
    using only_upd [OF o1, of "\<lambda>r. r\<lparr>rs_state := prev, needed_bw := needed_bw r - bw,
               usage_count := (if dec then usage_count r - 1 else usage_count r)\<rparr>"]
    by (simp add: out Let_def)
qed

text \<open>
  What a request does to its consumer, by its result, and what a release does. A driver error
  leaves a requested consumer as it was.
\<close>

definition request_effect :: "u32 \<Rightarrow> bool \<Rightarrow> ipa_rm_resource \<Rightarrow> int \<Rightarrow> ipa_rm_resource \<Rightarrow> bool" where
  "request_effect bw inc r result r' \<longleftrightarrow>
     (\<exists>s d. r' = (if result = 0 \<or> result = - EINPROGRESS
                  then r\<lparr>rs_state := s, needed_bw := needed_bw r + bw, usage_count := usage_count r + (if inc then 1 else 0),
                         request_completed := d\<rparr>
                  else r\<lparr>request_completed := d\<rparr>) \<and>
        (result = 0 \<longrightarrow> s = IPA_RM_GRANTED) \<and>
        (result = - EINPROGRESS \<longrightarrow> s = IPA_RM_REQUEST_IN_PROGRESS \<or> (s = IPA_RM_GRANTED \<and> rs_state r = IPA_RM_GRANTED)))"

lemma request_effect_error:
  "result \<noteq> 0 \<Longrightarrow> result \<noteq> - EINPROGRESS \<Longrightarrow> request_effect bw inc r result (r\<lparr>request_completed := d\<rparr>)"
  by (auto simp: request_effect_def)

lemma request_effect_ok:
  "request_effect bw inc r 0 (r\<lparr>rs_state := IPA_RM_GRANTED, needed_bw := needed_bw r + bw,
     usage_count := usage_count r + (if inc then 1 else 0), request_completed := d\<rparr>)"
  "request_effect bw inc r (- EINPROGRESS) (r\<lparr>rs_state := IPA_RM_REQUEST_IN_PROGRESS, needed_bw := needed_bw r + bw,
     usage_count := usage_count r + (if inc then 1 else 0), request_completed := d\<rparr>)"
  by (auto simp: request_effect_def)

lemma only_eq: "only p a st st' \<Longrightarrow> a = b \<Longrightarrow> only p b st st'"
  by simp

text \<open>The last step of a request counts the use.\<close>

lemma count_use:
  assumes "only c r st st'"
  shows "only c (r\<lparr>usage_count := usage_count r + (if inc then 1 else 0)\<rparr>) st
    (if inc then upd_res c (\<lambda>r. r\<lparr>usage_count := usage_count r + 1\<rparr>) st' else st')"
  using assms only_upd [OF assms, of "\<lambda>r. r\<lparr>usage_count := usage_count r + 1\<rparr>"] by (cases inc; cases r) auto

lemma request_start_only:
  fixes inc
  assumes c: "cons_at st c r0" and tl: "table_live st"
    and o: "only c r st st'" and r: "r = r0\<lparr>needed_bw := needed_bw r0 + bw\<rparr>"
    and prev: "rs_state r0 = prev" "prev = IPA_RM_RELEASED \<or> prev = IPA_RM_RELEASE_IN_PROGRESS"
  defines "out \<equiv> consumer_request_start c prev bw inc st'"
  shows "\<exists>r'. only c r' st (snd out) \<and> request_effect bw inc r0 (fst out) (r'\<lparr>usage_count := usage_count r' + (if inc then 1 else 0)\<rparr>)"
proof -
  let ?st1 = "upd_res c (\<lambda>r. r\<lparr>request_completed := False, rs_state := IPA_RM_REQUEST_IN_PROGRESS\<rparr>) st'"
  let ?r1 = "r\<lparr>request_completed := False, rs_state := IPA_RM_REQUEST_IN_PROGRESS\<rparr>"
  let ?st2 = "snd (call_driver (Call_Inc_Client_No_Block (rs_name (res ?st1 c))) ?st1)"
  let ?work = "ipa_rm_resource_consumer_request_work c prev bw False inc ?st2"
  let ?resume = "\<lambda>s. queue_work (Wq_Resume_Work (rs_name (res ?st1 c)) prev bw inc) s"
  have o1: "only c ?r1 st ?st1" by (rule only_upd [OF o])
  have o2: "only c ?r1 st ?st2" by (rule only_call(2) [OF o1])
  have async: "request_effect bw inc r0 (- EINPROGRESS) (?r1\<lparr>usage_count := usage_count ?r1 + (if inc then 1 else 0)\<rparr>)"
    using request_effect_ok(2) [of bw inc r0 False] by (cases r0) (simp add: r)
  have cases: "out = (- EINPROGRESS, ?resume ?st1) \<or> out = (- EINPROGRESS, ?resume ?st2) \<or> out = ?work"
    unfolding out_def consumer_request_start_def Let_def
    by (subst (1 2) call_driver_pair) (auto simp: ipa_rm_wq_send_resume_cmd_def)
  have r1: "rs_type ?r1 = IPA_RM_CONSUMER" "request_resource ?r1 \<noteq> None"
    using c by (auto simp: cons_at_def r)
  note w = request_work_only [OF o2 r1 tl, where prev = prev and bw = bw and dec = inc]
  consider "out = (- EINPROGRESS, ?resume ?st1)" | "out = (- EINPROGRESS, ?resume ?st2)"
    | "out = ?work" "fst ?work = 0" | "out = ?work" "fst ?work = - EINPROGRESS"
    | "out = ?work" "fst ?work \<noteq> 0" "fst ?work \<noteq> - EINPROGRESS" using cases by blast
  then show ?thesis
  proof cases
    case 1
    then show ?thesis using async only_queue [OF o1] by (intro exI [of _ ?r1]) simp
  next
    case 2
    then show ?thesis using async only_queue [OF o2] by (intro exI [of _ ?r1]) simp
  next
    case 3
    then show ?thesis
      using w(2) request_effect_ok(1) [of bw inc r0 False]
      by (intro exI [of _ "?r1\<lparr>rs_state := IPA_RM_GRANTED\<rparr>"]) (cases r0; simp add: r)
  next
    case 4
    then show ?thesis using w(3) async by (intro exI [of _ ?r1]) simp
  next
    case 5
    then show ?thesis
      using w(4) request_effect_error [of "fst ?work" bw inc r0 False] prev(1)
      by (intro exI [of _ "?r1\<lparr>rs_state := prev, needed_bw := needed_bw ?r1 - bw,
        usage_count := (if inc then usage_count ?r1 - 1 else usage_count ?r1)\<rparr>"]) (cases r0; cases inc; simp add: r)
  qed
qed

lemma consumer_request_only:
  fixes bw inc wake
  assumes c: "cons_at st c r" and tl: "table_live st"
  defines "out \<equiv> ipa_rm_resource_consumer_request c bw inc wake st"
  shows "\<exists>r'. only c r' st (snd out) \<and> request_effect bw inc r (fst out) r'"
proof -
  have heap: "rm_heap st c = Some r" and ty: "rs_type r = IPA_RM_CONSUMER" and cb: "request_resource r \<noteq> None"
    using c by (auto simp: cons_at_def)
  let ?r0 = "r\<lparr>needed_bw := needed_bw r + bw\<rparr>"
  let ?st0 = "upd_res c (\<lambda>r. r\<lparr>needed_bw := needed_bw r + bw\<rparr>) st"
  have o0: "only c ?r0 st ?st0" by (rule only_upd [OF only_refl [OF heap]])
  have r0: "rs_type ?r0 = IPA_RM_CONSUMER" "request_resource ?r0 \<noteq> None" using ty cb by auto
  note start = request_start_only [OF c tl o0 refl]
  note work = request_work_only [OF o0 r0 tl, where prev = IPA_RM_GRANTED and bw = bw and dec = inc]
  let ?fin = "\<lambda>(result, st1). (result, if inc then upd_res c (\<lambda>r. r\<lparr>usage_count := usage_count r + 1\<rparr>) st1 else st1)"
  have fin: "\<exists>r'. only c r' st (snd (?fin x)) \<and> request_effect bw inc r (fst (?fin x)) r'"
    if "\<exists>r'. only c r' st (snd x) \<and> request_effect bw inc r (fst x) (r'\<lparr>usage_count := usage_count r' + (if inc then 1 else 0)\<rparr>)"
    for x using that count_use by (cases x) fastforce
  let ?x = "case rs_state r of
       IPA_RM_RELEASED \<Rightarrow> consumer_request_start c (rs_state r) bw inc ?st0
     | IPA_RM_RELEASE_IN_PROGRESS \<Rightarrow> consumer_request_start c (rs_state r) bw inc ?st0
     | IPA_RM_GRANTED \<Rightarrow> if wake then ipa_rm_resource_consumer_request_work c (rs_state r) bw False inc ?st0
         else (0, ipa_rm_perf_profile_change (rs_name (res ?st0 c)) ?st0)
     | IPA_RM_REQUEST_IN_PROGRESS \<Rightarrow> (- EINPROGRESS, ?st0)"
  have out: "out = ?fin ?x"
    unfolding out_def ipa_rm_resource_consumer_request_def live_simps(1) [OF heap] live_simps(6) [OF heap ty] Let_def ..
  have "\<exists>r'. only c r' st (snd ?x) \<and> request_effect bw inc r (fst ?x) (r'\<lparr>usage_count := usage_count r' + (if inc then 1 else 0)\<rparr>)"
  proof (cases "rs_state r")
    case IPA_RM_GRANTED
    let ?w = "ipa_rm_resource_consumer_request_work c IPA_RM_GRANTED bw False inc ?st0"
    consider "\<not> wake" | "wake" "fst ?w = 0" | "wake" "fst ?w = - EINPROGRESS" | "wake" "fst ?w \<noteq> 0" "fst ?w \<noteq> - EINPROGRESS"
      by blast
    then show ?thesis
    proof cases
      case 1
      then show ?thesis
        using IPA_RM_GRANTED only_perf [OF o0 tl] by (intro exI [of _ ?r0]) (cases r; auto simp: request_effect_def)
    next
      case 2
      then show ?thesis
        using IPA_RM_GRANTED work(2) by (intro exI [of _ "?r0\<lparr>rs_state := IPA_RM_GRANTED\<rparr>"]) (cases r; auto simp: request_effect_def)
    next
      case 3
      then show ?thesis
        using IPA_RM_GRANTED work(3) by (intro exI [of _ ?r0]) (cases r; auto simp: request_effect_def)
    next
      case 4
      then show ?thesis
        using IPA_RM_GRANTED work(4)
        by (intro exI [of _ "?r0\<lparr>rs_state := IPA_RM_GRANTED, needed_bw := needed_bw ?r0 - bw,
             usage_count := (if inc then usage_count ?r0 - 1 else usage_count ?r0)\<rparr>"]) (cases r; auto simp: request_effect_def)
    qed
  next
    case IPA_RM_REQUEST_IN_PROGRESS
    then show ?thesis using o0 by (intro exI [of _ ?r0]) (cases r; auto simp: request_effect_def)
  qed (use start [of "rs_state r" inc] in auto)
  then show ?thesis unfolding out by (rule fin)
qed

text \<open>The result of a request when the drivers of consumers never fail.\<close>

definition good_drivers :: "ipa_rm_context_type \<Rightarrow> bool" where
  "good_drivers st \<longleftrightarrow> (\<forall>k. driver_result st k \<in> {0, - EINPROGRESS})"

lemma good_next: "good_drivers st \<Longrightarrow> frame st st' \<Longrightarrow> next_result st' \<in> {0, - EINPROGRESS}"
  by (simp add: good_drivers_def next_result_def frame_def)

lemma request_work_result: "request_resource (res st c) \<noteq> None \<Longrightarrow>
    fst (ipa_rm_resource_consumer_request_work c prev bw b dec st) = next_result (as_cons c st)"
  unfolding ipa_rm_resource_consumer_request_work_def
  by (auto simp: call_cb_Some) (subst call_driver_pair, simp)

lemma next_result_flag_ub [simp]: "next_result (flag_ub b st) = next_result st"
  by (simp add: next_result_def flag_ub_def)

lemma consumer_request_good:
  assumes c: "cons_at st c r" and good: "good_drivers st"
  shows "fst (ipa_rm_resource_consumer_request c bw inc wake st) \<in> {0, - EINPROGRESS}"
proof -
  have heap: "rm_heap st c = Some r" and ty: "rs_type r = IPA_RM_CONSUMER" and cb: "request_resource r \<noteq> None"
    using c by (auto simp: cons_at_def)
  let ?st0 = "upd_res c (\<lambda>r. r\<lparr>needed_bw := needed_bw r + bw\<rparr>) st"
  have o0: "only c (r\<lparr>needed_bw := needed_bw r + bw\<rparr>) st ?st0" by (rule only_upd [OF only_refl [OF heap]])
  have work: "fst (ipa_rm_resource_consumer_request_work c prev bw False inc st') \<in> {0, - EINPROGRESS}"
    if "only c r' st st'" "request_resource r' \<noteq> None" for r' st' prev
  proof -
    have "frame st st'" "res st' c = r'" using that(1) by (auto simp: only_def res_def)
    then show ?thesis
      using that(2) good_next [OF good, of st'] by (simp add: request_work_result as_cons_def)
  qed
  have start: "fst (consumer_request_start c prev bw inc ?st0) \<in> {0, - EINPROGRESS}" for prev
    unfolding consumer_request_start_def Let_def
    using work [OF only_call(2) [OF only_upd [OF o0]]] cb
    by (subst call_driver_pair) (auto simp: ipa_rm_wq_send_resume_cmd_def)
  show ?thesis
    unfolding ipa_rm_resource_consumer_request_def live_simps(1) [OF heap] live_simps(6) [OF heap ty] Let_def
    using start [of "rs_state r"] work [OF o0] cb
    by (cases "rs_state r") (auto simp: split_beta)
qed

text \<open>What a release does to its consumer.\<close>

definition release_usage :: "bool \<Rightarrow> ipa_rm_resource \<Rightarrow> int" where
  "release_usage dec r = (if rs_state r \<noteq> IPA_RM_RELEASED \<and> dec \<and> usage_count r > 0 then usage_count r - 1 else usage_count r)"

definition release_effect :: "u32 \<Rightarrow> bool \<Rightarrow> ipa_rm_resource \<Rightarrow> int \<Rightarrow> ipa_rm_resource \<Rightarrow> bool" where
  "release_effect bw dec r result r' \<longleftrightarrow>
     (\<exists>s d. r' = r\<lparr>rs_state := s, needed_bw := needed_bw r - bw, usage_count := release_usage dec r, request_completed := d\<rparr> \<and>
        (if release_usage dec r = 0 \<and> rs_state r \<in> {IPA_RM_GRANTED, IPA_RM_REQUEST_IN_PROGRESS}
         then s \<in> {IPA_RM_RELEASED, IPA_RM_RELEASE_IN_PROGRESS} \<or> (s = rs_state r \<and> result \<noteq> 0 \<and> result \<noteq> - EINPROGRESS)
         else s = rs_state r))"

lemma release_work_only:
  fixes prev
  assumes o: "only c r st st'" and c: "rs_type r = IPA_RM_CONSUMER" "release_resource r \<noteq> None"
    and tl: "table_live st"
  defines "out \<equiv> ipa_rm_resource_consumer_release_work c prev False st'"
  shows "fst out = (if next_result st' = - EINPROGRESS then 0 else next_result st')"
    and "fst out = 0 \<Longrightarrow> only c (r\<lparr>rs_state := IPA_RM_RELEASED, request_completed := True\<rparr>) st (snd out)"
    and "fst out \<noteq> 0 \<Longrightarrow> only c (r\<lparr>rs_state := prev\<rparr>) st (snd out)"
proof -
  have heap: "rm_heap st' c = Some r" using o by (auto simp: only_def)
  obtain f where f: "release_resource r = Some f" using c by auto
  let ?st1 = "snd (call_driver (Call_Release_Resource f) st')"
  have o1: "only c r st ?st1" by (rule only_call(2) [OF o])
  let ?st2 = "upd_res c (\<lambda>r. r\<lparr>request_completed := True\<rparr>) (set_state c IPA_RM_RELEASED ?st1)"
  have out: "out = (if next_result st' = 0 \<or> next_result st' = - EINPROGRESS
     then (0, ipa_rm_perf_profile_change (rs_name (res ?st2 c)) ?st2)
     else (next_result st', set_state c prev ?st1))"
    unfolding out_def ipa_rm_resource_consumer_release_work_def live_simps(1) [OF heap] live_simps(6) [OF heap c(1)] f
      call_cb_Some
    by (subst call_driver_pair) (auto simp: Let_def)
  show fst: "fst out = (if next_result st' = - EINPROGRESS then 0 else next_result st')" by (simp add: out)
  show "fst out = 0 \<Longrightarrow> only c (r\<lparr>rs_state := IPA_RM_RELEASED, request_completed := True\<rparr>) st (snd out)"
    using only_perf [OF only_upd [OF only_state [OF o1], of "\<lambda>r. r\<lparr>request_completed := True\<rparr>"] tl] fst
    by (auto simp: out)
  show "fst out \<noteq> 0 \<Longrightarrow> only c (r\<lparr>rs_state := prev\<rparr>) st (snd out)"
    using only_state [OF o1] fst by (auto simp: out split: if_splits)
qed

lemma release_start_only:
  fixes bw
  assumes o: "only c r st st'" and c: "rs_type r = IPA_RM_CONSUMER" "release_resource r \<noteq> None"
    and tl: "table_live st" and prev: "rs_state r = prev"
  defines "out \<equiv> consumer_release_start c prev bw st'"
  shows "\<exists>s d. only c (r\<lparr>rs_state := s, request_completed := d\<rparr>) st (snd out) \<and>
    (if usage_count r = 0 then s \<in> {IPA_RM_RELEASED, IPA_RM_RELEASE_IN_PROGRESS} \<or> (s = prev \<and> fst out \<noteq> 0 \<and> fst out \<noteq> - EINPROGRESS)
     else s = prev)"
proof -
  have heap: "res st' c = r" using o by (auto simp: only_def res_def)
  let ?st1 = "set_state c IPA_RM_RELEASE_IN_PROGRESS st'"
  let ?st2 = "snd (call_driver (Call_Suspend_No_Block (rs_name r)) ?st1)"
  let ?w = "ipa_rm_resource_consumer_release_work c prev False ?st2"
  let ?susp = "queue_work (Wq_Suspend_Work (rs_name r) prev bw)"
  let ?r1 = "r\<lparr>rs_state := IPA_RM_RELEASE_IN_PROGRESS\<rparr>"
  have o1: "only c ?r1 st ?st1" by (rule only_state [OF o])
  have o2: "only c ?r1 st ?st2" by (rule only_call(2) [OF o1])
  have r1: "rs_type ?r1 = IPA_RM_CONSUMER" "release_resource ?r1 \<noteq> None" using c by auto
  note w = release_work_only [OF o2 r1 tl, where prev = prev]
  show ?thesis
  proof (cases "usage_count r = 0")
    case True
    have out: "out = (- EINPROGRESS, ?susp ?st1) \<or> out = (- EINPROGRESS, ?susp ?st2) \<or> out = ?w"
      unfolding out_def consumer_release_start_def Let_def heap
      by (subst (1 2) call_driver_pair) (auto simp: ipa_rm_wq_send_suspend_cmd_def True)
    have prev_eq: "?r1\<lparr>rs_state := prev\<rparr> = r\<lparr>rs_state := prev, request_completed := request_completed r\<rparr>" by (cases r) simp
    have r1_eq: "?r1 = r\<lparr>rs_state := IPA_RM_RELEASE_IN_PROGRESS, request_completed := request_completed r\<rparr>" by (cases r) simp
    have w1: "fst ?w \<noteq> - EINPROGRESS" using w(1) by simp
    consider "out = (- EINPROGRESS, ?susp ?st1)" | "out = (- EINPROGRESS, ?susp ?st2)" | "out = ?w" "fst ?w = 0"
      | "out = ?w" "fst ?w \<noteq> 0" using out by blast
    then show ?thesis
    proof cases
      case 1
      then show ?thesis using True only_queue [OF o1] r1_eq by (intro exI [of _ IPA_RM_RELEASE_IN_PROGRESS] exI [of _ "request_completed r"]) simp
    next
      case 2
      then show ?thesis using True only_queue [OF o2] r1_eq by (intro exI [of _ IPA_RM_RELEASE_IN_PROGRESS] exI [of _ "request_completed r"]) simp
    next
      case 3
      then show ?thesis using True w(2) by (intro exI [of _ IPA_RM_RELEASED] exI [of _ True]) simp
    next
      case 4
      then show ?thesis using True w(3) prev_eq w1 by (intro exI [of _ prev] exI [of _ "request_completed r"]) simp
    qed
  next
    case False
    then have "out = (0, ipa_rm_perf_profile_change (rs_name r) st') \<or> out = (0, st')"
      unfolding out_def consumer_release_start_def Let_def heap by auto
    moreover have "r\<lparr>rs_state := prev, request_completed := request_completed r\<rparr> = r" using prev by (cases r) simp
    ultimately show ?thesis
      using False only_perf [OF o tl] o by (intro exI [of _ prev] exI [of _ "request_completed r"]) auto
  qed
qed

lemma consumer_release_only:
  fixes bw dec
  assumes c: "cons_at st c r" and tl: "table_live st"
  defines "out \<equiv> ipa_rm_resource_consumer_release c bw dec st"
  shows "\<exists>r'. only c r' st (snd out) \<and> release_effect bw dec r (fst out) r'"
proof -
  have heap: "rm_heap st c = Some r" and ty: "rs_type r = IPA_RM_CONSUMER" and cb: "release_resource r \<noteq> None"
    using c by (auto simp: cons_at_def)
  let ?st0 = "upd_res c (\<lambda>r. r\<lparr>needed_bw := needed_bw r - bw\<rparr>) st"
  let ?r0 = "r\<lparr>needed_bw := needed_bw r - bw\<rparr>"
  let ?r1 = "r\<lparr>needed_bw := needed_bw r - bw, usage_count := (if dec \<and> usage_count r > 0 then usage_count r - 1 else usage_count r)\<rparr>"
  have o0: "only c ?r0 st ?st0" by (rule only_upd [OF only_refl [OF heap]])
  have o1: "only c ?r1 st (dec_usage c dec ?st0)"
    using only_upd [OF o0, of "\<lambda>r. if dec \<and> usage_count r > 0 then r\<lparr>usage_count := usage_count r - 1\<rparr> else r"]
    unfolding dec_usage_def by (rule only_eq) (cases r; simp)
  have r1: "rs_type ?r1 = IPA_RM_CONSUMER" "release_resource ?r1 \<noteq> None" using ty cb by auto
  have out: "out = (case rs_state r of
      IPA_RM_RELEASED \<Rightarrow> (0, ?st0)
    | IPA_RM_GRANTED \<Rightarrow> consumer_release_start c (rs_state r) bw (dec_usage c dec ?st0)
    | IPA_RM_REQUEST_IN_PROGRESS \<Rightarrow> consumer_release_start c (rs_state r) bw (dec_usage c dec ?st0)
    | IPA_RM_RELEASE_IN_PROGRESS \<Rightarrow> (- EINPROGRESS, dec_usage c dec ?st0))"
    unfolding out_def ipa_rm_resource_consumer_release_def live_simps(1) [OF heap] live_simps(6) [OF heap ty] Let_def ..
  have st1: "rs_state ?r1 = rs_state r" by simp
  note start = release_start_only [OF o1 r1 tl st1, where bw = bw]
  show ?thesis
  proof (cases "rs_state r = IPA_RM_GRANTED \<or> rs_state r = IPA_RM_REQUEST_IN_PROGRESS")
    case True
    then have "out = consumer_release_start c (rs_state r) bw (dec_usage c dec ?st0)" by (auto simp: out)
    moreover have "usage_count ?r1 = release_usage dec r" using True by (auto simp: release_usage_def)
    ultimately show ?thesis
      using start True by (cases r) (fastforce simp: release_effect_def)
  next
    case False
    then show ?thesis
      using o0 o1 by (cases "rs_state r"; cases r) (fastforce simp: out release_effect_def release_usage_def)+
  qed
qed

section \<open>Views of the heap that an operation keeps\<close>

text \<open>
  An operation keeps a view when every address shows the same through it. The first view has
  what the structure of the graph depends on, the second also the bandwidths that only the
  profiles and the dependencies change; the last two add the state of producers, and the use of
  consumers and which resources are active.
\<close>

definition active :: "ipa_rm_resource \<Rightarrow> bool" where
  "active r \<longleftrightarrow> rs_state r = IPA_RM_GRANTED \<or> rs_state r = IPA_RM_REQUEST_IN_PROGRESS"

definition is_prod :: "ipa_rm_resource \<Rightarrow> bool" where
  "is_prod r \<longleftrightarrow> rs_type r = IPA_RM_PRODUCER"

definition shape :: "ipa_rm_resource \<Rightarrow> nat \<times> bool \<times> ipa_rm_peers_list option \<times> nat option \<times> nat option" where
  "shape r = (rs_name r, is_prod r, peers_list r, request_resource r, release_resource r)"

definition core :: "ipa_rm_resource \<Rightarrow> _ \<times> u32 \<times> u32" where
  "core r = (shape r, max_bw r, if is_prod r then needed_bw r else 0)"

definition core_prod :: "ipa_rm_resource \<Rightarrow> _ \<times> ipa_rm_resource_state option" where
  "core_prod r = (core r, if is_prod r then Some (rs_state r) else None)"

definition core_use :: "ipa_rm_resource \<Rightarrow> _ \<times> int \<times> u32 \<times> bool" where
  "core_use r = (core r, usage_count r, needed_bw r, active r)"

definition keeps :: "(ipa_rm_resource \<Rightarrow> 'v) \<Rightarrow> ipa_rm_context_type \<Rightarrow> ipa_rm_context_type \<Rightarrow> bool" where
  "keeps v st st' \<longleftrightarrow> frame st st' \<and> (\<forall>p. map_option v (rm_heap st' p) = map_option v (rm_heap st p))"

lemma keeps_refl [simp]: "keeps v st st"
  by (simp add: keeps_def)

lemma keeps_trans [trans]: "keeps v a b \<Longrightarrow> keeps v b c \<Longrightarrow> keeps v a c"
  by (auto simp: keeps_def dest: frame_trans)

lemma keeps_frame: "keeps v a b \<Longrightarrow> frame a b"
  by (simp add: keeps_def)

lemma keepsD: "keeps v a b \<Longrightarrow> rm_heap a p = Some r \<Longrightarrow> \<exists>r'. rm_heap b p = Some r' \<and> v r' = v r"
  unfolding keeps_def by (metis map_option_eq_Some)

lemma keepsD': "keeps v a b \<Longrightarrow> rm_heap b p = Some r \<Longrightarrow> \<exists>r'. rm_heap a p = Some r' \<and> v r = v r'"
  unfolding keeps_def by (metis map_option_eq_Some)

lemma keeps_mono:
  assumes k: "keeps v a b" and vw: "\<And>r r'. v r = v r' \<Longrightarrow> w r = w r'"
  shows "keeps w a b"
proof -
  have "map_option w (rm_heap b p) = map_option w (rm_heap a p)" for p
  proof (cases "rm_heap b p")
    case (Some r)
    then obtain r' where "rm_heap a p = Some r'" "v r = v r'" using keepsD' [OF k] by blast
    moreover from this(2) have "w r = w r'" by (rule vw)
    ultimately show ?thesis using Some by simp
  next
    case None
    then show ?thesis using k by (auto simp: keeps_def frame_def)
  qed
  then show ?thesis using keeps_frame [OF k] by (simp add: keeps_def)
qed

lemma keeps_core_shape: "keeps core a b \<Longrightarrow> keeps shape a b"
  by (erule keeps_mono) (simp add: core_def)

lemma keeps_prod_core: "keeps core_prod a b \<Longrightarrow> keeps core a b"
  by (erule keeps_mono) (simp add: core_prod_def)

lemma keeps_use_core: "keeps core_use a b \<Longrightarrow> keeps core a b"
  by (erule keeps_mono) (simp add: core_use_def)

lemma keeps_same_heap: "frame st st' \<Longrightarrow> rm_heap st' = rm_heap st \<Longrightarrow> keeps v st st'"
  by (simp add: keeps_def)

lemma only_keeps: "only p r' st st' \<Longrightarrow> rm_heap st p = Some r \<Longrightarrow> v r' = v r \<Longrightarrow> keeps v st st'"
  by (auto simp: only_def keeps_def)

lemma upd_keeps:
  assumes "rm_heap st p = Some r" "v (f r) = v r"
  shows "keeps v st (upd_res p f st)"
  by (rule only_keeps [OF only_upd [OF only_refl [OF assms(1)]] assms(1)]) (rule assms(2))

lemma request_effect_core: "request_effect bw inc r v r' \<Longrightarrow> \<not> is_prod r \<Longrightarrow> core_prod r' = core_prod r"
  by (auto simp: request_effect_def core_prod_def core_def shape_def is_prod_def split: if_splits)

lemma release_effect_core: "release_effect bw dec r v r' \<Longrightarrow> \<not> is_prod r \<Longrightarrow> core_prod r' = core_prod r"
  by (auto simp: release_effect_def core_prod_def core_def shape_def is_prod_def)

section \<open>Well-formed resource graphs\<close>

definition res_ok :: "ipa_rm_resource \<Rightarrow> bool" where
  "res_ok r \<longleftrightarrow> valid_name (rs_name r) \<and> (is_prod r \<longleftrightarrow> even (rs_name r)) \<and> (\<exists>l. peers_list r = Some l \<and> peers_ok l) \<and>
     (is_prod r \<or> (request_resource r \<noteq> None \<and> release_resource r \<noteq> None))"

definition rm_wf :: "ipa_rm_context_type \<Rightarrow> bool" where
  "rm_wf st \<longleftrightarrow> length (resource_table st) = 22 \<and>
     (\<forall>n p. valid_name n \<longrightarrow> resource_table st ! n = Some p \<longrightarrow> (\<exists>r. rm_heap st p = Some r \<and> rs_name r = n)) \<and>
     (\<forall>p r. rm_heap st p = Some r \<longrightarrow> res_ok r \<and> p < rm_next st \<and> resource_table st ! rs_name r = Some p) \<and>
     (\<forall>p r n q u. rm_heap st p = Some r \<longrightarrow> peer (peers_list r) n = Some (q, u) \<longrightarrow>
        (\<exists>s. rm_heap st q = Some s \<and> rs_name s = n \<and> is_prod s = (\<not> is_prod r) \<and> peer (peers_list s) (rs_name r) = Some (p, u)))"

lemma wf_table: "rm_wf st \<Longrightarrow> valid_name n \<Longrightarrow> resource_table st ! n = Some p \<Longrightarrow> \<exists>r. rm_heap st p = Some r \<and> rs_name r = n"
  by (simp add: rm_wf_def)

lemma wf_res: "rm_wf st \<Longrightarrow> rm_heap st p = Some r \<Longrightarrow> res_ok r"
  by (simp add: rm_wf_def)

lemma wf_in_table: "rm_wf st \<Longrightarrow> rm_heap st p = Some r \<Longrightarrow> resource_table st ! rs_name r = Some p"
  by (simp add: rm_wf_def)

lemma wf_unique: "rm_wf st \<Longrightarrow> rm_heap st p = Some r \<Longrightarrow> rm_heap st q = Some s \<Longrightarrow> rs_name r = rs_name s \<Longrightarrow> p = q"
  using wf_in_table [of st p r] wf_in_table [of st q s] by simp

lemma wf_peer: "rm_wf st \<Longrightarrow> rm_heap st p = Some r \<Longrightarrow> peer (peers_list r) n = Some (q, u) \<Longrightarrow>
    \<exists>s. rm_heap st q = Some s \<and> rs_name s = n \<and> is_prod s = (\<not> is_prod r) \<and> peer (peers_list s) (rs_name r) = Some (p, u)"
  unfolding rm_wf_def by metis

lemma wf_table_live [simp]: "rm_wf st \<Longrightarrow> table_live st"
  unfolding table_live_def by (auto dest: wf_table)

lemma shape_eqD:
  assumes "shape r = shape r'"
  shows "rs_name r = rs_name r'" "is_prod r = is_prod r'" "peers_list r = peers_list r'" "res_ok r = res_ok r'"
  using assms by (auto simp: shape_def res_ok_def)

lemma core_eqD:
  assumes "core r = core r'"
  shows "rs_name r = rs_name r'" "is_prod r = is_prod r'" "peers_list r = peers_list r'" "res_ok r = res_ok r'"
    "max_bw r = max_bw r'" "is_prod r' \<Longrightarrow> needed_bw r = needed_bw r'"
  using assms shape_eqD [of r r'] by (auto simp: core_def split: if_splits)

lemma keeps_shape_wf: "keeps shape a b \<Longrightarrow> rm_wf a \<Longrightarrow> rm_wf b"
proof -
  assume k: "keeps shape a b" and wf: "rm_wf a"
  have fr: "resource_table b = resource_table a" "rm_next b = rm_next a" using k by (simp_all add: keeps_def frame_def)
  have tab: "\<exists>r. rm_heap b p = Some r \<and> rs_name r = n" if n: "valid_name n" "resource_table a ! n = Some p" for n p
    using wf_table [OF wf n] by (auto dest!: keepsD [OF k] dest: shape_eqD(1))
  have ok: "res_ok r \<and> p < rm_next a \<and> resource_table a ! rs_name r = Some p" if r: "rm_heap b p = Some r" for p r
    using keepsD' [OF k r] wf by (auto simp: rm_wf_def dest: shape_eqD)
  have sym: "\<exists>s. rm_heap b q = Some s \<and> rs_name s = n \<and> is_prod s = (\<not> is_prod r) \<and> peer (peers_list s) (rs_name r) = Some (p, u)"
    if r: "rm_heap b p = Some r" "peer (peers_list r) n = Some (q, u)" for p r n q u
  proof -
    obtain r0 where r0: "rm_heap a p = Some r0" "shape r = shape r0" using keepsD' [OF k r(1)] by auto
    then have "peer (peers_list r0) n = Some (q, u)" using shape_eqD [OF r0(2)] r(2) by simp
    from wf_peer [OF wf r0(1) this] obtain s where s: "rm_heap a q = Some s" "rs_name s = n" "is_prod s = (\<not> is_prod r0)"
      "peer (peers_list s) (rs_name r0) = Some (p, u)" by auto
    then obtain s' where "rm_heap b q = Some s'" "shape s' = shape s" using keepsD [OF k s(1)] by auto
    then show ?thesis using s shape_eqD [OF r0(2)] shape_eqD [of s' s] by auto
  qed
  show ?thesis
    unfolding rm_wf_def fr using tab ok sym wf by (auto simp: rm_wf_def)
qed

lemma keeps_wf: "keeps core a b \<Longrightarrow> rm_wf a \<Longrightarrow> rm_wf b"
  by (rule keeps_shape_wf [OF keeps_core_shape])

lemma wf_cons: "rm_wf st \<Longrightarrow> rm_heap st p = Some r \<Longrightarrow> \<not> is_prod r \<Longrightarrow> cons_at st p r"
  using wf_res [of st p r] by (cases "rs_type r") (auto simp: cons_at_def is_prod_def res_ok_def)

lemma wf_prod: "rm_heap st p = Some r \<Longrightarrow> is_prod r \<Longrightarrow> prod_at st p r"
  by (simp add: prod_at_def is_prod_def)

lemma loop_peer_ok:
  assumes "rm_wf st" "rm_heap st p = Some r" "i < 22"
  shows "loop_peer p i st = (map_option fst (peer (peers_list r) i), st)"
proof -
  obtain l where "peers_list r = Some l" "peers_ok l" using wf_res [OF assms(1,2)] by (auto simp: res_ok_def)
  then show ?thesis
    using get_resource_ok [of l i] assms by (simp add: loop_peer_def live_simps [OF assms(2)])
qed

lemma loop_size_ok: "rm_wf st \<Longrightarrow> rm_heap st p = Some r \<Longrightarrow> loop_size p st = 22"
  using wf_res [of st p r] by (auto simp: loop_size_def res_def res_ok_def peers_ok_def ipa_rm_peers_list_get_size_def)

section \<open>Operations that keep the structure\<close>

lemma fold_frame:
  assumes "\<And>x s. frame s (g x s) \<and> rm_heap (g x s) = rm_heap s"
  shows "frame s (fold g xs s) \<and> rm_heap (fold g xs s) = rm_heap s"
proof (induction xs arbitrary: s)
  case (Cons x xs)
  show ?case using assms [of s x] Cons.IH [of "g x s"] by (auto dest: frame_trans)
qed simp

lemma notify_keeps: "prod_at st p r \<Longrightarrow> keeps v st (ipa_rm_resource_producer_notify_clients p ev reg st)"
proof -
  assume p: "prod_at st p r"
  let ?g = "\<lambda>info s. if reg \<and> \<not> explicit info then s else call_void (Call_Notify (notify_cb info) (user_data info) ev) s"
  have "frame s (?g x s) \<and> rm_heap (?g x s) = rm_heap s" for x s by (simp add: frame_call)
  then have "frame st (fold ?g xs st) \<and> rm_heap (fold ?g xs st) = rm_heap st" for xs by (rule fold_frame)
  moreover have "as_prod p st = st" using p by (auto simp: prod_at_def live_simps)
  ultimately show ?thesis
    unfolding ipa_rm_resource_producer_notify_clients_def by (simp only:) (rule keeps_same_heap; blast)
qed

lemma keeps_perf: "table_live st \<Longrightarrow> keeps v st (ipa_rm_perf_profile_change n st)"
  by (rule keeps_same_heap [OF frame_perf]) simp_all

lemma keeps_queue: "work_ok w \<Longrightarrow> keeps v st (queue_work w st)"
  by (rule keeps_same_heap [OF frame_queue]) simp_all

lemma keeps_call: "keeps v st (call_void c st)" "keeps v st (snd (call_driver c st))"
  by (rule keeps_same_heap [OF frame_call(2)], simp) (rule keeps_same_heap [OF frame_call(1)], simp)

lemma keeps_table_live: "keeps v a b \<Longrightarrow> table_live b = table_live a"
  by (rule frame_table_live) (rule keeps_frame)

lemma keeps_upd_trans:
  "keeps v a b \<Longrightarrow> rm_heap b p = Some r \<Longrightarrow> v (f r) = v r \<Longrightarrow> keeps v a (upd_res p f b)"
  by (rule keeps_trans [OF _ upd_keeps])

lemma keeps_perf_trans: "keeps v a b \<Longrightarrow> table_live a \<Longrightarrow> keeps v a (ipa_rm_perf_profile_change n b)"
  by (rule keeps_trans [OF _ keeps_perf]) (simp_all add: keeps_table_live)

text \<open>The notification of a producer changes its pending counters and completes what it waits for.\<close>

lemma producer_handle_cb_keeps:
  assumes p: "prod_at st p r" and tl: "table_live st"
  shows "keeps core_use st (ipa_rm_resource_producer_handle_cb p ev st)"
proof -
  have heap: "rm_heap st p = Some r" and ty: "rs_type r = IPA_RM_PRODUCER" using p by (auto simp: prod_at_def)
  have view: "core_use (r\<lparr>pending_request := x\<rparr>) = core_use r" "core_use (r\<lparr>pending_release := x\<rparr>) = core_use r"
    "rs_state r = IPA_RM_REQUEST_IN_PROGRESS \<Longrightarrow> core_use (r\<lparr>pending_request := x, rs_state := IPA_RM_GRANTED\<rparr>) = core_use r"
    "rs_state r = IPA_RM_RELEASE_IN_PROGRESS \<Longrightarrow> core_use (r\<lparr>pending_release := x, rs_state := IPA_RM_RELEASED\<rparr>) = core_use r" for x
    by (auto simp: core_use_def core_def shape_def is_prod_def active_def)
  have one: "keeps core_use st (upd_res p (\<lambda>r. r\<lparr>pending_request := pending_request r - 1\<rparr>) st)"
    "keeps core_use st (upd_res p (\<lambda>r. r\<lparr>pending_release := pending_release r - 1\<rparr>) st)"
    by (rule upd_keeps [OF heap]; simp add: view)+
  have two: "keeps core_use st (ipa_rm_resource_producer_notify_clients p ev' False (ipa_rm_perf_profile_change (rs_name r) (set_state p s (upd_res p f st))))"
    if "core_use ((f r)\<lparr>rs_state := s\<rparr>) = core_use r" "rs_type (f r) = IPA_RM_PRODUCER" for f s ev'
  proof -
    let ?st2 = "set_state p s (upd_res p f st)"
    have o: "only p ((f r)\<lparr>rs_state := s\<rparr>) st ?st2" by (rule only_state [OF only_upd [OF only_refl [OF heap]]])
    have k: "keeps core_use st ?st2" by (rule only_keeps [OF o heap that(1)])
    have k3: "keeps core_use st (ipa_rm_perf_profile_change (rs_name r) ?st2)" by (rule keeps_perf_trans [OF k tl])
    have "prod_at (ipa_rm_perf_profile_change (rs_name r) ?st2) p ((f r)\<lparr>rs_state := s\<rparr>)"
      using o that(2) by (simp add: prod_at_def only_def)
    from keeps_trans [OF k3 notify_keeps [OF this]] show ?thesis .
  qed
  show ?thesis
    unfolding ipa_rm_resource_producer_handle_cb_def live_simps(1) [OF heap] live_simps(5) [OF heap ty] Let_def
    by (cases "rs_state r") (auto intro: one two simp: view ty)
qed

lemma handle_cb_loop_keeps:
  assumes "rm_wf st" "rm_heap st c = Some r" "\<not> is_prod r" "i + n \<le> 22"
  shows "keeps core_use st (handle_cb_loop n i c ev st)"
  using assms
proof (induction n arbitrary: i st r)
  case (Suc n)
  note loop = loop_peer_ok [OF Suc.prems(1,2), of i]
  show ?case
  proof (cases "peer (peers_list r) i")
    case None
    then show ?thesis using Suc loop by simp
  next
    case (Some qu)
    then obtain q u where q: "peer (peers_list r) i = Some (q, u)" by (cases qu) auto
    obtain s where s: "rm_heap st q = Some s" "is_prod s" using wf_peer [OF Suc.prems(1,2) q] Suc.prems(3) by auto
    let ?st = "ipa_rm_resource_producer_handle_cb q ev st"
    have k: "keeps core_use st ?st"
      by (rule producer_handle_cb_keeps [OF wf_prod [OF s]]) (simp add: Suc.prems(1))
    obtain r' where r': "rm_heap ?st c = Some r'" "core_use r' = core_use r" using keepsD [OF k Suc.prems(2)] by auto
    have "rm_wf ?st" by (rule keeps_wf [OF keeps_use_core [OF k] Suc.prems(1)])
    moreover have "\<not> is_prod r'" using r'(2) Suc.prems(3) core_eqD(2) [of r' r] by (simp add: core_use_def)
    ultimately have "keeps core_use ?st (handle_cb_loop n (Suc i) c ev ?st)"
      using Suc.IH r'(1) Suc.prems(4) by auto
    then show ?thesis using loop q Suc.prems(4) by (auto intro: keeps_trans [OF k])
  qed
qed simp

lemma set_state_use: "active (r\<lparr>rs_state := s\<rparr>) = active r \<Longrightarrow> core_use (r\<lparr>rs_state := s\<rparr>) = core_use r"
  by (simp add: core_use_def core_def shape_def is_prod_def)

lemma consumer_handle_cb_keeps:
  assumes wf: "rm_wf st" and c: "rm_heap st c = Some r" "\<not> is_prod r"
  shows "keeps core_use st (ipa_rm_resource_consumer_handle_cb (Some c) ev st)"
proof -
  have ty: "rs_type r = IPA_RM_CONSUMER" using c(2) by (cases "rs_type r") (auto simp: is_prod_def)
  have tl: "table_live st" using wf by simp
  have loop: "keeps core_use st (handle_cb_loop (loop_size c st') 0 c ev st')" if k: "keeps core_use st st'" for st'
  proof -
    obtain r' where r': "rm_heap st' c = Some r'" "core_use r' = core_use r" using keepsD [OF k c(1)] by auto
    have wf': "rm_wf st'" by (rule keeps_wf [OF keeps_use_core [OF k] wf])
    have "\<not> is_prod r'" using r'(2) c(2) core_eqD(2) [of r' r] by (simp add: core_use_def)
    from handle_cb_loop_keeps [OF wf' r'(1) this, of 0 22 ev] show ?thesis
      by (simp add: loop_size_ok [OF wf' r'(1)] keeps_trans [OF k])
  qed
  have grant: "keeps core_use st (set_state c IPA_RM_GRANTED st)" if "rs_state r = IPA_RM_REQUEST_IN_PROGRESS"
    unfolding set_state_def by (rule upd_keeps [OF c(1)], rule set_state_use) (simp add: active_def that)
  have rel: "keeps core_use st (set_state c IPA_RM_RELEASED st)" if "rs_state r = IPA_RM_RELEASE_IN_PROGRESS"
    unfolding set_state_def by (rule upd_keeps [OF c(1)], rule set_state_use) (simp add: active_def that)
  have fin: "keeps core_use st (upd_res c (\<lambda>r. r\<lparr>request_completed := True\<rparr>) st')" if k: "keeps core_use st st'" for st'
  proof -
    obtain r' where r': "rm_heap st' c = Some r'" using keepsD [OF k c(1)] by auto
    then show ?thesis by (rule keeps_upd_trans [OF k]) (simp add: core_use_def core_def shape_def is_prod_def active_def)
  qed
  let ?granted = "upd_res c (\<lambda>r. r\<lparr>request_completed := True\<rparr>)
    (call_void (Call_Resume (rs_name r)) (ipa_rm_perf_profile_change (rs_name r) (set_state c IPA_RM_GRANTED st)))"
  have 1: "keeps core_use st ?granted" if "rs_state r = IPA_RM_REQUEST_IN_PROGRESS"
    by (rule fin, rule keeps_trans [OF keeps_perf_trans [OF grant [OF that] tl] keeps_call(1)])
  have eq: "ipa_rm_resource_consumer_handle_cb (Some c) ev st =
     (case rs_state r of
        IPA_RM_REQUEST_IN_PROGRESS \<Rightarrow> if ev = IPA_RM_RESOURCE_RELEASED then st else handle_cb_loop (loop_size c ?granted) 0 c ev ?granted
      | IPA_RM_RELEASE_IN_PROGRESS \<Rightarrow> if ev = IPA_RM_RESOURCE_GRANTED then st
          else handle_cb_loop (loop_size c (set_state c IPA_RM_RELEASED st)) 0 c ev (set_state c IPA_RM_RELEASED st)
      | IPA_RM_GRANTED \<Rightarrow> st
      | IPA_RM_RELEASED \<Rightarrow> st)"
    unfolding ipa_rm_resource_consumer_handle_cb_def option.case live_simps(1) [OF c(1)] live_simps(6) [OF c(1) ty] Let_def ..
  show ?thesis
    unfolding eq using loop [OF 1] loop [OF rel] by (cases "rs_state r") simp_all
qed

end
