(* ===== verification/Rm_Steps.thy ===== *)
theory Rm_Steps
  imports Rm_Invariant
begin

text \<open>
  The structure of the resource graph under every operation: requests and releases of consumers
  and producers, the works of the queue, and the dependencies, which change the peers lists on
  both sides.
\<close>

section \<open>Requests and releases\<close>

lemma consumer_request_keeps:
  assumes c: "cons_at st c r" and tl: "table_live st"
  shows "keeps core_prod st (snd (ipa_rm_resource_consumer_request c bw inc wake st))"
proof -
  obtain r' where r': "only c r' st (snd (ipa_rm_resource_consumer_request c bw inc wake st))"
    "request_effect bw inc r (fst (ipa_rm_resource_consumer_request c bw inc wake st)) r'"
    using consumer_request_only [OF c tl] by blast
  then show ?thesis
    using c request_effect_core [OF r'(2)] by (intro only_keeps [OF r'(1)]) (auto simp: cons_at_def is_prod_def)
qed

lemma consumer_release_keeps:
  assumes c: "cons_at st c r" and tl: "table_live st"
  shows "keeps core_prod st (snd (ipa_rm_resource_consumer_release c bw dec st))"
proof -
  obtain r' where r': "only c r' st (snd (ipa_rm_resource_consumer_release c bw dec st))"
    "release_effect bw dec r (fst (ipa_rm_resource_consumer_release c bw dec st)) r'"
    using consumer_release_only [OF c tl] by blast
  then show ?thesis
    using c release_effect_core [OF r'(2)] by (intro only_keeps [OF r'(1)]) (auto simp: cons_at_def is_prod_def)
qed

lemma core_prod_pending [simp]:
  "core_prod (r\<lparr>pending_request := x\<rparr>) = core_prod r" "core_prod (r\<lparr>pending_release := x\<rparr>) = core_prod r"
  by (simp_all add: core_prod_def core_def shape_def is_prod_def)

text \<open>A peer of a live producer is a consumer with its callbacks.\<close>

lemma peer_cons:
  assumes "rm_wf st" "rm_heap st p = Some r" "is_prod r" "peer (peers_list r) i = Some (q, u)"
  obtains s where "cons_at st q s" "rs_name s = i" "peer (peers_list s) (rs_name r) = Some (p, u)" "q \<noteq> p"
proof -
  obtain s where s: "rm_heap st q = Some s" "rs_name s = i" "\<not> is_prod s" "peer (peers_list s) (rs_name r) = Some (p, u)"
    using wf_peer [OF assms(1,2,4)] assms(3) by auto
  moreover have "q \<noteq> p" using s(1,3) assms(2,3) by auto
  ultimately show thesis using that [OF wf_cons [OF assms(1) s(1,3)]] by blast
qed

lemma keeps_core_res:
  assumes "keeps core_prod a b" "rm_heap a p = Some r"
  obtains r' where "rm_heap b p = Some r'" "core r' = core r" "is_prod r' = is_prod r" "is_prod r \<Longrightarrow> rs_state r' = rs_state r"
    "max_bw r' = max_bw r" "rs_name r' = rs_name r" "peers_list r' = peers_list r"
proof -
  obtain r' where r': "rm_heap b p = Some r'" "core_prod r' = core_prod r" using keepsD [OF assms] by auto
  then have "core r' = core r" by (simp add: core_prod_def)
  then show thesis using that r' core_eqD [of r' r] by (auto simp: core_prod_def split: if_splits)
qed

text \<open>The pending counter of a producer goes up, a peer is requested, and it goes down again.\<close>

lemma upd_pending_keeps:
  assumes "keeps core_prod st st'" "rm_heap st p = Some r"
  shows "keeps core_prod st (upd_res p (\<lambda>r. r\<lparr>pending_request := g r\<rparr>) st')"
    and "keeps core_prod st (upd_res p (\<lambda>r. r\<lparr>pending_release := g r\<rparr>) st')"
proof -
  obtain r' where "rm_heap st' p = Some r'" using keepsD [OF assms] by auto
  then show "keeps core_prod st (upd_res p (\<lambda>r. r\<lparr>pending_request := g r\<rparr>) st')"
    "keeps core_prod st (upd_res p (\<lambda>r. r\<lparr>pending_release := g r\<rparr>) st')"
    by (auto intro: keeps_upd_trans [OF assms(1)])
qed

lemma request_peer_keeps:
  assumes wf: "rm_wf st" and p: "rm_heap st p = Some r" "is_prod r" and q: "peer (peers_list r) i = Some (q, u)"
    and k: "keeps core_prod st st'"
  shows "keeps core_prod st (snd (ipa_rm_resource_consumer_request q bw inc wake st'))"
    and "keeps core_prod st (snd (ipa_rm_resource_consumer_release q bw inc st'))"
proof -
  obtain s where s: "cons_at st q s" by (rule peer_cons [OF wf p q])
  then have "rm_heap st q = Some s" "\<not> is_prod s" by (auto simp: cons_at_def is_prod_def)
  moreover obtain s' where s': "rm_heap st' q = Some s'" "is_prod s' = is_prod s"
    by (rule keeps_core_res [OF k calculation(1)])
  moreover have wf': "rm_wf st'" by (rule keeps_wf [OF keeps_prod_core [OF k] wf])
  ultimately have c: "cons_at st' q s'" by (intro wf_cons) auto
  show "keeps core_prod st (snd (ipa_rm_resource_consumer_request q bw inc wake st'))"
    by (rule keeps_trans [OF k consumer_request_keeps [OF c]]) (simp add: wf')
  show "keeps core_prod st (snd (ipa_rm_resource_consumer_release q bw inc st'))"
    by (rule keeps_trans [OF k consumer_release_keeps [OF c]]) (simp add: wf')
qed

lemma request_loop_keeps:
  assumes "rm_wf st" "rm_heap st p = Some r" "is_prod r" "i + n \<le> 22"
  shows "keeps core_prod st (snd (producer_request_loop n i p res0 st))"
  using assms
proof (induction n arbitrary: i st r res0)
  case (Suc n)
  note loop = loop_peer_ok [OF Suc.prems(1,2), of i]
  have step: "keeps core_prod st (snd (producer_request_loop n (Suc i) p x st'))" if k: "keeps core_prod st st'" for st' x
  proof -
    obtain r' where "rm_heap st' p = Some r'" "is_prod r' = is_prod r" by (rule keeps_core_res [OF k Suc.prems(2)])
    then have "keeps core_prod st' (snd (producer_request_loop n (Suc i) p x st'))"
      using Suc.prems keeps_wf [OF keeps_prod_core [OF k]] by (intro Suc.IH) auto
    then show ?thesis by (rule keeps_trans [OF k])
  qed
  show ?case
  proof (cases "peer (peers_list r) i")
    case None
    then show ?thesis using step [of st] loop Suc.prems(4) by simp
  next
    case (Some qu)
    then obtain q u where q: "peer (peers_list r) i = Some (q, u)" by (cases qu) auto
    let ?st2 = "upd_res p (\<lambda>r. r\<lparr>pending_request := pending_request r + 1\<rparr>) st"
    let ?req = "ipa_rm_resource_consumer_request q (max_bw (res ?st2 p)) True False ?st2"
    have k2: "keeps core_prod st ?st2" by (rule upd_pending_keeps [OF keeps_refl Suc.prems(2)])
    have k3: "keeps core_prod st (snd ?req)" by (rule request_peer_keeps(1) [OF Suc.prems(1-3) q k2])
    have k4: "keeps core_prod st (upd_res p (\<lambda>r. r\<lparr>pending_request := pending_request r - 1\<rparr>) (snd ?req))"
      by (rule upd_pending_keeps [OF k3 Suc.prems(2)])
    show ?thesis using loop q Suc.prems(4) step [OF k3] step [OF k4] k4 by (simp add: Let_def request_peer_def split_beta)
  qed
qed simp

lemma release_loop_keeps:
  assumes "rm_wf st" "rm_heap st p = Some r" "is_prod r" "i + n \<le> 22"
  shows "keeps core_prod st (producer_release_loop n i p st)"
  using assms
proof (induction n arbitrary: i st r)
  case (Suc n)
  note loop = loop_peer_ok [OF Suc.prems(1,2), of i]
  have step: "keeps core_prod st (producer_release_loop n (Suc i) p st')" if k: "keeps core_prod st st'" for st'
  proof -
    obtain r' where "rm_heap st' p = Some r'" "is_prod r' = is_prod r" by (rule keeps_core_res [OF k Suc.prems(2)])
    then have "keeps core_prod st' (producer_release_loop n (Suc i) p st')"
      using Suc.prems keeps_wf [OF keeps_prod_core [OF k]] by (intro Suc.IH) auto
    then show ?thesis by (rule keeps_trans [OF k])
  qed
  show ?case
  proof (cases "peer (peers_list r) i")
    case None
    then show ?thesis using step [of st] loop Suc.prems(4) by simp
  next
    case (Some qu)
    then obtain q u where q: "peer (peers_list r) i = Some (q, u)" by (cases qu) auto
    let ?st2 = "upd_res p (\<lambda>r. r\<lparr>pending_release := pending_release r + 1\<rparr>) st"
    let ?rel = "ipa_rm_resource_consumer_release q (max_bw (res ?st2 p)) True ?st2"
    have k2: "keeps core_prod st ?st2" by (rule upd_pending_keeps [OF keeps_refl Suc.prems(2)])
    have k3: "keeps core_prod st (snd ?rel)" by (rule request_peer_keeps(2) [OF Suc.prems(1-3) q k2])
    have k4: "keeps core_prod st (upd_res p (\<lambda>r. r\<lparr>pending_release := pending_release r - 1\<rparr>) (snd ?rel))"
      by (rule upd_pending_keeps [OF k3 Suc.prems(2)])
    show ?thesis using loop q Suc.prems(4) step [OF k4] by (simp add: Let_def release_peer_def)
  qed
qed simp

lemma set_state_core:
  assumes "keeps core st st'" "rm_heap st p = Some r"
  shows "keeps core st (set_state p s st')"
proof -
  obtain r' where "rm_heap st' p = Some r'" using keepsD [OF assms] by auto
  then show ?thesis
    unfolding set_state_def by (rule keeps_upd_trans [OF assms(1)]) (simp add: core_def shape_def is_prod_def)
qed

lemma keeps_queue_trans: "keeps v a b \<Longrightarrow> work_ok w \<Longrightarrow> keeps v a (queue_work w b)"
  by (rule keeps_trans [OF _ keeps_queue])

text \<open>
  The state after the loop of a request (release): the producer has the state in progress and
  its counter is 0 before the loop.
\<close>

definition request_entry :: "nat \<Rightarrow> ipa_rm_context_type \<Rightarrow> ipa_rm_context_type" where
  "request_entry p = upd_res p (\<lambda>r. r\<lparr>rs_state := IPA_RM_REQUEST_IN_PROGRESS, pending_request := 0\<rparr>)"

definition release_entry :: "nat \<Rightarrow> ipa_rm_context_type \<Rightarrow> ipa_rm_context_type" where
  "release_entry p = upd_res p (\<lambda>r. r\<lparr>rs_state := IPA_RM_RELEASE_IN_PROGRESS, pending_release := 0\<rparr>)"

lemma entry_only:
  assumes "rm_heap st p = Some r"
  shows "only p (r\<lparr>rs_state := IPA_RM_REQUEST_IN_PROGRESS, pending_request := 0\<rparr>) st (request_entry p st)"
    and "only p (r\<lparr>rs_state := IPA_RM_RELEASE_IN_PROGRESS, pending_release := 0\<rparr>) st (release_entry p st)"
  unfolding request_entry_def release_entry_def by (rule only_upd [OF only_refl [OF assms]])+

lemma entry_keeps:
  assumes "rm_heap st p = Some r"
  shows "keeps core st (request_entry p st)" "keeps core st (release_entry p st)"
  by (rule only_keeps [OF entry_only(1) [OF assms] assms] only_keeps [OF entry_only(2) [OF assms] assms];
      simp add: core_def shape_def is_prod_def)+

text \<open>The last step, taken when nothing is pending.\<close>

definition producer_finish :: "nat \<Rightarrow> ipa_rm_resource_state \<Rightarrow> ipa_rm_event \<Rightarrow> ipa_rm_context_type \<Rightarrow> ipa_rm_context_type" where
  "producer_finish p s ev st =
     queue_work (Wq_Work IPA_RM_WQ_NOTIFY_PROD (rs_name (res st p)) ev True)
       (ipa_rm_perf_profile_change (rs_name (res st p)) (set_state p s st))"

lemma producer_finish_keeps:
  assumes "keeps core st st'" "rm_heap st p = Some r" "table_live st"
  shows "keeps core st (producer_finish p s ev st')"
  unfolding producer_finish_def
  by (rule keeps_queue_trans [OF keeps_perf_trans [OF set_state_core [OF assms(1,2)] assms(3)]]) simp

lemma producer_request_eq:
  assumes wf: "rm_wf st" and p: "rm_heap st p = Some r" "is_prod r"
  defines "loop \<equiv> producer_request_loop 22 0 p 0 (request_entry p st)"
  shows "ipa_rm_resource_producer_request p st =
    (if rs_state r = IPA_RM_GRANTED then (0, st)
     else if rs_state r = IPA_RM_REQUEST_IN_PROGRESS then (- EINPROGRESS, st)
     else case loop of
       (Inr e, st2) \<Rightarrow> (e, st2)
     | (Inl result, st2) \<Rightarrow>
         if pending_request (res st2 p) = 0 then (0, producer_finish p IPA_RM_GRANTED IPA_RM_RESOURCE_GRANTED st2) else (result, st2))"
proof -
  have ty: "rs_type r = IPA_RM_PRODUCER" using p(2) by (simp add: is_prod_def)
  have wf1: "rm_wf (request_entry p st)" by (rule keeps_wf [OF entry_keeps(1) [OF p(1)] wf])
  have "rm_heap (request_entry p st) p \<noteq> None" using entry_only(1) [OF p(1)] by (simp add: only_def)
  then have size: "loop_size p (request_entry p st) = 22" using loop_size_ok [OF wf1] by auto
  have name: "rs_name (res (set_state p s st2) p) = rs_name (res st2 p)" for s st2
    by (cases "rm_heap st2 p") (simp_all add: set_state_def upd_res_def res_def)
  show ?thesis
    unfolding ipa_rm_resource_producer_request_def live_simps(1) [OF p(1)] live_simps(5) [OF p(1) ty] Let_def name
      request_entry_def [symmetric] size loop_def producer_finish_def ipa_rm_wq_send_cmd_def snd_conv
    by (auto split: prod.splits sum.splits)
qed

lemma producer_release_eq:
  assumes wf: "rm_wf st" and p: "rm_heap st p = Some r" "is_prod r"
  defines "st2 \<equiv> producer_release_loop 22 0 p (release_entry p st)"
  shows "ipa_rm_resource_producer_release p st =
    (if rs_state r = IPA_RM_RELEASED then (0, st)
     else if rs_state r = IPA_RM_RELEASE_IN_PROGRESS then (- EINPROGRESS, st)
     else (0, if pending_release (res st2 p) = 0 then producer_finish p IPA_RM_RELEASED IPA_RM_RESOURCE_RELEASED st2 else st2))"
proof -
  have ty: "rs_type r = IPA_RM_PRODUCER" using p(2) by (simp add: is_prod_def)
  have wf1: "rm_wf (release_entry p st)" by (rule keeps_wf [OF entry_keeps(2) [OF p(1)] wf])
  have "rm_heap (release_entry p st) p \<noteq> None" using entry_only(2) [OF p(1)] by (simp add: only_def)
  then have size: "loop_size p (release_entry p st) = 22" using loop_size_ok [OF wf1] by auto
  have name: "rs_name (res (set_state p s st2) p) = rs_name (res st2 p)" for s st2
    by (cases "rm_heap st2 p") (simp_all add: set_state_def upd_res_def res_def)
  show ?thesis
    unfolding ipa_rm_resource_producer_release_def live_simps(1) [OF p(1)] live_simps(5) [OF p(1) ty] Let_def name
      release_entry_def [symmetric] size st2_def producer_finish_def ipa_rm_wq_send_cmd_def snd_conv ..
qed

lemma loops_from_entry:
  assumes wf: "rm_wf st" and p: "rm_heap st p = Some r" "is_prod r"
  shows "keeps core_prod (request_entry p st) (snd (producer_request_loop 22 0 p x (request_entry p st)))"
    and "keeps core_prod (release_entry p st) (producer_release_loop 22 0 p (release_entry p st))"
proof -
  have "rm_wf (request_entry p st)" "rm_wf (release_entry p st)" using entry_keeps [OF p(1)] wf by (auto intro: keeps_wf)
  moreover have "\<exists>r'. rm_heap (request_entry p st) p = Some r' \<and> is_prod r'" "\<exists>r'. rm_heap (release_entry p st) p = Some r' \<and> is_prod r'"
    using entry_only [OF p(1)] p(2) by (auto simp: only_def is_prod_def)
  ultimately show "keeps core_prod (request_entry p st) (snd (producer_request_loop 22 0 p x (request_entry p st)))"
    "keeps core_prod (release_entry p st) (producer_release_loop 22 0 p (release_entry p st))"
    by (auto intro: request_loop_keeps release_loop_keeps)
qed

lemma producer_request_keeps:
  assumes wf: "rm_wf st" and p: "rm_heap st p = Some r" "is_prod r"
  shows "keeps core st (snd (ipa_rm_resource_producer_request p st))"
proof -
  let ?l = "producer_request_loop 22 0 p 0 (request_entry p st)"
  have k: "keeps core st (snd ?l)"
    by (rule keeps_trans [OF entry_keeps(1) [OF p(1)] keeps_prod_core [OF loops_from_entry(1) [OF wf p]]])
  then have "keeps core st (producer_finish p IPA_RM_GRANTED IPA_RM_RESOURCE_GRANTED (snd ?l))"
    by (rule producer_finish_keeps [OF _ p(1)]) (simp add: wf)
  then show ?thesis
    using k unfolding producer_request_eq [OF wf p] by (auto split: prod.split sum.split)
qed

lemma producer_release_keeps:
  assumes wf: "rm_wf st" and p: "rm_heap st p = Some r" "is_prod r"
  shows "keeps core st (snd (ipa_rm_resource_producer_release p st))"
proof -
  let ?l = "producer_release_loop 22 0 p (release_entry p st)"
  have k: "keeps core st ?l"
    by (rule keeps_trans [OF entry_keeps(2) [OF p(1)] keeps_prod_core [OF loops_from_entry(2) [OF wf p]]])
  then have "keeps core st (producer_finish p IPA_RM_RELEASED IPA_RM_RESOURCE_RELEASED ?l)"
    by (rule producer_finish_keeps [OF _ p(1)]) (simp add: wf)
  then show ?thesis
    using k unfolding producer_release_eq [OF wf p] by simp
qed

section \<open>Works and profiles\<close>

lemma core_use_simps [simp]:
  "core_use (r\<lparr>request_completed := b\<rparr>) = core_use r" "core (r\<lparr>request_completed := b\<rparr>) = core r"
  by (simp_all add: core_use_def core_def shape_def is_prod_def active_def)

lemma frame_table: "frame a b \<Longrightarrow> resource_table b = resource_table a"
  by (simp add: frame_def)

text \<open>The work of a resumed consumer: only a failing driver changes more than states.\<close>

lemma request_work_notify_keeps:
  assumes wf: "rm_wf st" and c: "rm_heap st c = Some r" "\<not> is_prod r"
  shows "keeps core st (snd (ipa_rm_resource_consumer_request_work c prev bw True dec st))"
    and "good_drivers st \<Longrightarrow> keeps core_use st (snd (ipa_rm_resource_consumer_request_work c prev bw True dec st))"
proof -
  have ty: "rs_type r = IPA_RM_CONSUMER" using c(2) by (cases "rs_type r") (auto simp: is_prod_def)
  obtain f where f: "request_resource r = Some f" using wf_cons [OF wf c] by (auto simp: cons_at_def)
  let ?st1 = "snd (call_driver (Call_Request_Resource f) st)"
  let ?cb = "ipa_rm_resource_consumer_handle_cb (Some c) IPA_RM_RESOURCE_GRANTED ?st1"
  let ?err = "upd_res c (\<lambda>r. r\<lparr>rs_state := prev, needed_bw := needed_bw r - bw,
      usage_count := (if dec then usage_count r - 1 else usage_count r)\<rparr>) ?st1"
  have out: "snd (ipa_rm_resource_consumer_request_work c prev bw True dec st) =
     (if next_result st = 0 then ?cb else if next_result st \<noteq> - EINPROGRESS then ?err else ?st1)"
    unfolding ipa_rm_resource_consumer_request_work_def live_simps(1) [OF c(1)] live_simps(6) [OF c(1) ty] f call_cb_Some
    by (subst call_driver_pair) simp
  have k1: "keeps v st ?st1" for v :: "ipa_rm_resource \<Rightarrow> 'v" by (rule keeps_call)
  have c1: "rm_heap ?st1 c = Some r" using c by simp
  have kcb: "keeps core_use st ?cb"
    by (rule keeps_trans [OF k1 consumer_handle_cb_keeps [OF keeps_wf [OF k1 wf] c1 c(2)]])
  have kerr: "keeps core st ?err"
    by (rule keeps_upd_trans [OF k1 c1]) (use c(2) in \<open>simp add: core_def shape_def is_prod_def\<close>)
  show "keeps core st (snd (ipa_rm_resource_consumer_request_work c prev bw True dec st))"
    unfolding out using keeps_use_core [OF kcb] kerr k1 [of core] by simp
  show "keeps core_use st (snd (ipa_rm_resource_consumer_request_work c prev bw True dec st))" if "good_drivers st"
    unfolding out using kcb k1 [of core_use] good_next [OF that frame_refl] by auto
qed

lemma release_work_notify_keeps:
  assumes wf: "rm_wf st" and c: "rm_heap st c = Some r" "\<not> is_prod r"
  shows "keeps core st (snd (ipa_rm_resource_consumer_release_work c prev True st))"
    and "good_drivers st \<Longrightarrow> keeps core_use st (snd (ipa_rm_resource_consumer_release_work c prev True st))"
proof -
  have ty: "rs_type r = IPA_RM_CONSUMER" using c(2) by (cases "rs_type r") (auto simp: is_prod_def)
  obtain f where f: "release_resource r = Some f" using wf_cons [OF wf c] by (auto simp: cons_at_def)
  let ?st1 = "snd (call_driver (Call_Release_Resource f) st)"
  let ?st3 = "upd_res c (\<lambda>r. r\<lparr>request_completed := True\<rparr>) (ipa_rm_resource_consumer_handle_cb (Some c) IPA_RM_RESOURCE_RELEASED ?st1)"
  have out: "snd (ipa_rm_resource_consumer_release_work c prev True st) =
     (if next_result st = 0 \<or> next_result st = - EINPROGRESS
      then ipa_rm_perf_profile_change (rs_name (res ?st3 c)) ?st3 else set_state c prev ?st1)"
    unfolding ipa_rm_resource_consumer_release_work_def live_simps(1) [OF c(1)] live_simps(6) [OF c(1) ty] f call_cb_Some
    by (subst call_driver_pair) (auto simp: Let_def)
  have k1: "keeps v st ?st1" for v :: "ipa_rm_resource \<Rightarrow> 'v" by (rule keeps_call)
  have c1: "rm_heap ?st1 c = Some r" using c by simp
  have kcb: "keeps core_use st (ipa_rm_resource_consumer_handle_cb (Some c) IPA_RM_RESOURCE_RELEASED ?st1)"
    by (rule keeps_trans [OF k1 consumer_handle_cb_keeps [OF keeps_wf [OF k1 wf] c1 c(2)]])
  obtain r' where r': "rm_heap (ipa_rm_resource_consumer_handle_cb (Some c) IPA_RM_RESOURCE_RELEASED ?st1) c = Some r'"
    using keepsD [OF kcb c(1)] by auto
  have k3: "keeps core_use st (ipa_rm_perf_profile_change n ?st3)" for n
    by (rule keeps_perf_trans [OF keeps_upd_trans [OF kcb r']]) (simp_all add: wf)
  show "keeps core st (snd (ipa_rm_resource_consumer_release_work c prev True st))"
    unfolding out using keeps_use_core [OF k3] set_state_core [OF k1 c(1)] by simp
  show "keeps core_use st (snd (ipa_rm_resource_consumer_release_work c prev True st))" if "good_drivers st"
    unfolding out using k3 good_next [OF that frame_refl] by auto
qed

text \<open>A new profile changes bandwidths only.\<close>

lemma set_perf_loop_keeps:
  assumes "rm_wf st" "rm_heap st p = Some r" "i + n \<le> 22"
  shows "keeps shape st (set_perf_loop n i p bw st)"
  using assms
proof (induction n arbitrary: i st r)
  case (Suc n)
  note loop = loop_peer_ok [OF Suc.prems(1,2), of i]
  have step: "keeps shape st (set_perf_loop n (Suc i) p bw st')" if k: "keeps shape st st'" for st'
  proof -
    obtain r' where "rm_heap st' p = Some r'" using keepsD [OF k Suc.prems(2)] by auto
    then have "keeps shape st' (set_perf_loop n (Suc i) p bw st')"
      using Suc.prems keeps_shape_wf [OF k] by (intro Suc.IH) auto
    then show ?thesis by (rule keeps_trans [OF k])
  qed
  show ?case
  proof (cases "peer (peers_list r) i")
    case None
    then show ?thesis using step [of st] loop Suc.prems(3) by simp
  next
    case (Some qu)
    then obtain q u where q: "peer (peers_list r) i = Some (q, u)" by (cases qu) auto
    obtain s where s: "rm_heap st q = Some s" using wf_peer [OF Suc.prems(1,2) q] by auto
    let ?st2 = "upd_res q (\<lambda>r. r\<lparr>needed_bw := needed_bw r - max_bw (res st p) + bw\<rparr>) st"
    have k2: "keeps shape st ?st2" by (rule upd_keeps [OF s]) (simp add: shape_def is_prod_def)
    have k3: "keeps shape st (ipa_rm_perf_profile_change m ?st2)" for m
      by (rule keeps_perf_trans [OF k2]) (simp add: Suc.prems(1))
    show ?thesis using loop q Suc.prems(3) step [OF k2] step [OF k3] by (simp add: Let_def set_perf_peer_def)
  qed
qed simp

lemma set_perf_profile_keeps:
  assumes wf: "rm_wf st" and p: "rm_heap st p = Some r"
  shows "keeps shape st (snd (ipa_rm_resource_set_perf_profile (Some p) (Some bw) st))"
proof -
  have max: "keeps shape st (upd_res p (\<lambda>r. r\<lparr>max_bw := bw\<rparr>) st')" if k: "keeps shape st st'" for st'
  proof -
    obtain r' where "rm_heap st' p = Some r'" using keepsD [OF k p] by auto
    then show ?thesis by (rule keeps_upd_trans [OF k]) (simp add: shape_def is_prod_def)
  qed
  have perf: "keeps shape st (ipa_rm_perf_profile_change n st')" if "keeps shape st st'" for st' n
    using that wf by (intro keeps_perf_trans) simp_all
  show ?thesis
    unfolding ipa_rm_resource_set_perf_profile_def prod.case option.case live_simps(1) [OF p] live_simps(3) [OF p]
    using max perf set_perf_loop_keeps [OF wf p, of 0 22 bw] by (simp add: Let_def loop_size_ok [OF wf p])
qed

end
