(* ===== verification/Rm_Deps.thy ===== *)
theory Rm_Deps
  imports Rm_Steps
begin

text \<open>
  Dependencies: the two sides of a new or deleted edge, and the state changes that go with it.
\<close>

section \<open>Edges between a producer and a consumer\<close>

text \<open>The flag of the edge between two resources, if there is one.\<close>

definition edge :: "ipa_rm_context_type \<Rightarrow> nat \<Rightarrow> nat \<Rightarrow> bool option" where
  "edge st p q = map_option snd (peer (peers_list (res st p)) (rs_name (res st q)))"

lemma peer_resource_unique:
  assumes "rm_wf st" "rm_heap st p = Some r" "rm_heap st q = Some s" "peer (peers_list r) (rs_name s) = Some (z, u)"
  shows "z = q" and "peer (peers_list s) (rs_name r) = Some (p, u)"
proof -
  obtain t where t: "rm_heap st z = Some t" "rs_name t = rs_name s" "peer (peers_list t) (rs_name r) = Some (p, u)"
    using wf_peer [OF assms(1,2,4)] by auto
  show z: "z = q" by (rule wf_unique [OF assms(1) t(1) assms(3) t(2)])
  then show "peer (peers_list s) (rs_name r) = Some (p, u)" using t assms(3) by simp
qed

text \<open>Two resources get (or lose) each other as peers.\<close>

lemma wf_relink:
  assumes wf: "rm_wf st" and p: "rm_heap st p = Some rp" "is_prod rp" and q: "rm_heap st q = Some rq" "\<not> is_prod rq"
    and st': "rm_heap st' = (rm_heap st)(p \<mapsto> rp', q \<mapsto> rq')" "resource_table st' = resource_table st" "rm_next st' = rm_next st"
    and rp': "rs_name rp' = rs_name rp" "is_prod rp'" "res_ok rp'"
      "peer (peers_list rp') = (peer (peers_list rp))(rs_name rq := map_option (\<lambda>u. (q, u)) w)"
    and rq': "rs_name rq' = rs_name rq" "\<not> is_prod rq'" "res_ok rq'"
      "peer (peers_list rq') = (peer (peers_list rq))(rs_name rp := map_option (\<lambda>u. (p, u)) w)"
  shows "rm_wf st'"
proof -
  have pq: "p \<noteq> q" using p q by auto
  note uniq = wf_unique [OF wf]
  have tab: "\<exists>r. rm_heap st' x = Some r \<and> rs_name r = n" if "valid_name n" "resource_table st ! n = Some x" for n x
    using wf_table [OF wf that] p(1) q(1) rp'(1) rq'(1) by (auto simp: st')
  have ok: "res_ok r \<and> x < rm_next st \<and> resource_table st ! rs_name r = Some x" if "rm_heap st' x = Some r" for x r
  proof -
    have "res_ok s \<and> x < rm_next st \<and> resource_table st ! rs_name s = Some x" if "rm_heap st x = Some s" for s
      using wf that by (simp add: rm_wf_def)
    then show ?thesis using that p(1) q(1) rp'(1,3) rq'(1,3) by (auto simp: st' split: if_splits)
  qed
  have sym: "\<exists>s. rm_heap st' y = Some s \<and> rs_name s = n \<and> is_prod s = (\<not> is_prod r) \<and> peer (peers_list s) (rs_name r) = Some (x, u)"
    if r: "rm_heap st' x = Some r" "peer (peers_list r) n = Some (y, u)" for x r n y u
  proof -
    consider "x = p" | "x = q" | "x \<noteq> p" "x \<noteq> q" by blast
    then show ?thesis
    proof cases
      case 1
      then have rr: "r = rp'" using r(1) pq by (simp add: st')
      show ?thesis
      proof (cases "n = rs_name rq")
        case True
        then show ?thesis using r(2) rr rp' rq' by (auto simp: st' 1)
      next
        case False
        then have "peer (peers_list rp) n = Some (y, u)" using r(2) rr rp'(4) by simp
        from wf_peer [OF wf p(1) this] obtain s where s: "rm_heap st y = Some s" "rs_name s = n" "is_prod s = (\<not> is_prod rp)"
          "peer (peers_list s) (rs_name rp) = Some (p, u)" by auto
        then have "y \<noteq> p" "y \<noteq> q" using p q False by auto
        then show ?thesis using s rr rp' p(2) by (simp add: st' 1)
      qed
    next
      case 2
      then have rr: "r = rq'" using r(1) by (simp add: st')
      show ?thesis
      proof (cases "n = rs_name rp")
        case True
        then show ?thesis using r(2) rr rp' rq' pq by (auto simp: st' 2)
      next
        case False
        then have "peer (peers_list rq) n = Some (y, u)" using r(2) rr rq'(4) by simp
        from wf_peer [OF wf q(1) this] obtain s where s: "rm_heap st y = Some s" "rs_name s = n" "is_prod s = (\<not> is_prod rq)"
          "peer (peers_list s) (rs_name rq) = Some (q, u)" by auto
        then have "y \<noteq> p" "y \<noteq> q" using p q False by auto
        then show ?thesis using s rr rq' q(2) by (simp add: st' 2)
      qed
    next
      case 3
      then have rx: "rm_heap st x = Some r" using r(1) by (simp add: st')
      from wf_peer [OF wf this r(2)] obtain s where s: "rm_heap st y = Some s" "rs_name s = n" "is_prod s = (\<not> is_prod r)"
        "peer (peers_list s) (rs_name r) = Some (x, u)" by auto
      have "y = p \<Longrightarrow> rs_name r \<noteq> rs_name rq" "y = q \<Longrightarrow> rs_name r \<noteq> rs_name rp"
        using uniq [OF rx q(1)] uniq [OF rx p(1)] 3 by auto
      then show ?thesis using s p q rp' rq' pq by (auto simp: st')
    qed
  qed
  show ?thesis unfolding rm_wf_def st'(2,3) using wf tab ok sym by (auto simp: rm_wf_def)
qed

lemma res_ok_peers: "res_ok r \<Longrightarrow> peers_ok l \<Longrightarrow> res_ok (r\<lparr>peers_list := Some l\<rparr>)"
  by (auto simp: res_ok_def is_prod_def)

lemma relink_upd:
  fixes lp lq
  assumes wf: "rm_wf st" and p: "rm_heap st p = Some rp" "is_prod rp" and q: "rm_heap st q = Some rq" "\<not> is_prod rq"
    and lp: "peers_ok lp" "peer (Some lp) = (peer (peers_list rp))(rs_name rq := map_option (\<lambda>u. (q, u)) w)"
    and lq: "peers_ok lq" "peer (Some lq) = (peer (peers_list rq))(rs_name rp := map_option (\<lambda>u. (p, u)) w)"
  defines "st' \<equiv> upd_res q (\<lambda>r. r\<lparr>peers_list := Some lq\<rparr>) (upd_res p (\<lambda>r. r\<lparr>peers_list := Some lp\<rparr>) st)"
  shows "rm_heap st' = (rm_heap st)(p \<mapsto> rp\<lparr>peers_list := Some lp\<rparr>, q \<mapsto> rq\<lparr>peers_list := Some lq\<rparr>)"
    and "frame st st'" and "rm_wf st'"
proof -
  have pq: "p \<noteq> q" using p q by auto
  have okp: "res_ok rp" and okq: "res_ok rq" using wf_res [OF wf] p q by auto
  let ?st1 = "upd_res p (\<lambda>r. r\<lparr>peers_list := Some lp\<rparr>) st"
  have o1: "only p (rp\<lparr>peers_list := Some lp\<rparr>) st ?st1" by (rule only_upd [OF only_refl [OF p(1)]])
  have "rm_heap ?st1 q = Some rq" using o1 q(1) pq by (auto simp: only_def)
  then have o2: "only q (rq\<lparr>peers_list := Some lq\<rparr>) ?st1 st'" unfolding st'_def by (rule only_upd [OF only_refl])
  show heap: "rm_heap st' = (rm_heap st)(p \<mapsto> rp\<lparr>peers_list := Some lp\<rparr>, q \<mapsto> rq\<lparr>peers_list := Some lq\<rparr>)"
    using o1 o2 by (simp add: only_def)
  show fr: "frame st st'" using o1 o2 by (auto simp: only_def dest: frame_trans)
  show "rm_wf st'"
  proof (rule wf_relink [OF wf p q heap, where w = w])
    show "resource_table st' = resource_table st" "rm_next st' = rm_next st" using fr by (simp_all add: frame_def)
  qed (use lp lq p(2) q(2) res_ok_peers [OF okp lp(1)] res_ok_peers [OF okq lq(1)] in \<open>simp_all add: is_prod_def\<close>)
qed

text \<open>The two calls that add an edge, and the two that remove one.\<close>

lemma link_ok:
  fixes u
  assumes wf: "rm_wf st" and p: "rm_heap st p = Some rp" "is_prod rp" and q: "rm_heap st q = Some rq" "\<not> is_prod rq"
    and none: "peer (peers_list rp) (rs_name rq) = None" "peer (peers_list rq) (rs_name rp) = None"
  defines "st' \<equiv> add_peer_to q p u (add_peer_to p q u st)"
  obtains lp lq where "rm_heap st' = (rm_heap st)(p \<mapsto> rp\<lparr>peers_list := Some lp\<rparr>, q \<mapsto> rq\<lparr>peers_list := Some lq\<rparr>)"
    "peer (Some lp) = (peer (peers_list rp))(rs_name rq := Some (q, u))"
    "peer (Some lq) = (peer (peers_list rq))(rs_name rp := Some (p, u))" "frame st st'" "rm_wf st'"
proof -
  have pq: "p \<noteq> q" using p q by auto
  have okp: "res_ok rp" and okq: "res_ok rq" using wf_res [OF wf] p q by auto
  obtain l k where l: "peers_list rp = Some l" "peers_ok l" and k: "peers_list rq = Some k" "peers_ok k"
    using okp okq by (auto simp: res_ok_def)
  obtain lp where lp: "ipa_rm_peers_list_add_peer q (rs_name rq) u (Some l) = (Some lp, False)" "peers_ok lp"
    "peer (Some lp) = (peer (peers_list rp))(rs_name rq := Some (q, u))"
    using add_peer_ok [OF l(2), of "rs_name rq" q u] okq none(1) l by (auto simp: res_ok_def)
  obtain lq where lq: "ipa_rm_peers_list_add_peer p (rs_name rp) u (Some k) = (Some lq, False)" "peers_ok lq"
    "peer (Some lq) = (peer (peers_list rq))(rs_name rp := Some (p, u))"
    using add_peer_ok [OF k(2), of "rs_name rp" p u] okp none(2) k by (auto simp: res_ok_def)
  have "st' = upd_res q (\<lambda>r. r\<lparr>peers_list := Some lq\<rparr>) (upd_res p (\<lambda>r. r\<lparr>peers_list := Some lp\<rparr>) st)"
    using pq q(1) by (simp add: st'_def add_peer_to_def live_simps [OF p(1)] live_simps(1) [OF q(1)] l(1) lp(1))
      (simp add: res_def k(1) lq(1))
  with relink_upd [OF wf p q lp(2) _ lq(2), of "Some u"] lp(3) lq(3) show thesis by (intro that) simp_all
qed

lemma unlink_ok:
  assumes wf: "rm_wf st" and p: "rm_heap st p = Some rp" "is_prod rp" and q: "rm_heap st q = Some rq" "\<not> is_prod rq"
    and some: "peer (peers_list rp) (rs_name rq) \<noteq> None" "peer (peers_list rq) (rs_name rp) \<noteq> None"
  defines "st' \<equiv> remove_peer_from q (rs_name rp) (remove_peer_from p (rs_name rq) st)"
  obtains lp lq where "rm_heap st' = (rm_heap st)(p \<mapsto> rp\<lparr>peers_list := Some lp\<rparr>, q \<mapsto> rq\<lparr>peers_list := Some lq\<rparr>)"
    "peer (Some lp) = (peer (peers_list rp))(rs_name rq := None)"
    "peer (Some lq) = (peer (peers_list rq))(rs_name rp := None)" "frame st st'" "rm_wf st'"
proof -
  have pq: "p \<noteq> q" using p q by auto
  have okp: "res_ok rp" and okq: "res_ok rq" using wf_res [OF wf] p q by auto
  obtain l k where l: "peers_list rp = Some l" "peers_ok l" and k: "peers_list rq = Some k" "peers_ok k"
    using okp okq by (auto simp: res_ok_def)
  obtain lp where lp: "ipa_rm_peers_list_remove_peer (rs_name rq) (Some l) = (Some lp, False)" "peers_ok lp"
    "peer (Some lp) = (peer (peers_list rp))(rs_name rq := None)"
    using remove_peer_ok [OF l(2), of "rs_name rq"] okq some(1) l by (auto simp: res_ok_def)
  obtain lq where lq: "ipa_rm_peers_list_remove_peer (rs_name rp) (Some k) = (Some lq, False)" "peers_ok lq"
    "peer (Some lq) = (peer (peers_list rq))(rs_name rp := None)"
    using remove_peer_ok [OF k(2), of "rs_name rp"] okp some(2) k by (auto simp: res_ok_def)
  have "st' = upd_res q (\<lambda>r. r\<lparr>peers_list := Some lq\<rparr>) (upd_res p (\<lambda>r. r\<lparr>peers_list := Some lp\<rparr>) st)"
    using pq q(1) by (simp add: st'_def remove_peer_from_def live_simps [OF p(1)] l(1) lp(1))
      (simp add: res_def k(1) lq(1))
  with relink_upd [OF wf p q lp(2) _ lq(2), of None] lp(3) lq(3) show thesis by (intro that) simp_all
qed

end
