(* ===== verification/Rm_Use.thy ===== *)
theory Rm_Use
  imports Rm_Deps
begin

text \<open>
  The accounting of the resource manager: the bandwidth a producer needs is the sum over its
  consumers; as long as the drivers report no error, the usage count of a consumer is the number
  of producers that are granted or requested and depend on it, and the bandwidth the consumer
  needs is the sum over these producers.
\<close>

section \<open>Sums over peers\<close>

definition load :: "(nat \<Rightarrow> 'a :: ab_group_add) \<Rightarrow> (nat \<Rightarrow> bool) \<Rightarrow> (nat \<Rightarrow> (nat \<times> bool) option) \<Rightarrow> 'a" where
  "load w A f = (\<Sum>n < 22. case f n of None \<Rightarrow> 0 | Some (z, u) \<Rightarrow> if A z then w z else 0)"

lemma load_cong:
  assumes "\<And>n z u. n < 22 \<Longrightarrow> f n = Some (z, u) \<Longrightarrow> A z = B z \<and> w z = v z"
  shows "load w A f = load v B f"
  unfolding load_def using assms by (intro sum.cong refl) (auto split: option.split)

lemma load_upd:
  assumes "n < 22"
  shows "load w A (f(n := x)) = load w A f - (case f n of None \<Rightarrow> 0 | Some (z, u) \<Rightarrow> if A z then w z else 0)
    + (case x of None \<Rightarrow> 0 | Some (z, u) \<Rightarrow> if A z then w z else 0)"
proof -
  have split: "load w A g = (case g n of None \<Rightarrow> 0 | Some (z, u) \<Rightarrow> if A z then w z else 0) +
     (\<Sum>m \<in> {..<22} - {n}. case g m of None \<Rightarrow> 0 | Some (z, u) \<Rightarrow> if A z then w z else 0)" for g
    unfolding load_def using assms by (intro sum.remove) auto
  have "(\<Sum>m \<in> {..<22} - {n}. case (f(n := x)) m of None \<Rightarrow> 0 | Some (z, u) \<Rightarrow> if A z then w z else 0) =
      (\<Sum>m \<in> {..<22} - {n}. case f m of None \<Rightarrow> 0 | Some (z, u) \<Rightarrow> if A z then w z else 0)"
    by (intro sum.cong) auto
  then show ?thesis using split [of f] split [of "f(n := x)"] by simp
qed

lemma load_flip:
  assumes n: "n < 22" "f n = Some (z, u)" and uniq: "\<And>m v. m < 22 \<Longrightarrow> f m = Some (z, v) \<Longrightarrow> m = n" and A: "\<not> A z"
  shows "load w (A(z := True)) f = load w A f + w z"
proof -
  have "load w (A(z := True)) f = load w (A(z := True)) ((f(n := None))(n := Some (z, u)))"
    using n(2) by (simp add: fun_upd_idem)
  also have "\<dots> = load w (A(z := True)) (f(n := None)) + w z"
    using load_upd [OF n(1), of w "A(z := True)" "f(n := None)" "Some (z, u)"] by simp
  also have "load w (A(z := True)) (f(n := None)) = load w A (f(n := None))"
    using uniq by (intro load_cong) (auto split: if_splits)
  also have "load w A (f(n := None)) = load w A f"
    using load_upd [OF n(1), of w A f None] n(2) A by simp
  finally show ?thesis .
qed

lemma load_pos:
  assumes "n < 22" "f n = Some (z, u)" "A z"
  shows "1 \<le> load (\<lambda>_. 1 :: int) A f"
proof -
  have "(case f n of None \<Rightarrow> 0 | Some (z, u) \<Rightarrow> if A z then 1 else 0) \<le> load (\<lambda>_. 1 :: int) A f"
    unfolding load_def using assms(1) by (intro member_le_sum) (auto split: option.split)
  then show ?thesis using assms(2,3) by simp
qed

lemma load_nonneg: "0 \<le> load (\<lambda>_. 1 :: int) A f"
  unfolding load_def by (intro sum_nonneg) (auto split: option.split)

section \<open>The accounts\<close>

text \<open>The needs of producers.\<close>

definition bw_ok :: "ipa_rm_context_type \<Rightarrow> bool" where
  "bw_ok st \<longleftrightarrow> (\<forall>p r. rm_heap st p = Some r \<longrightarrow> is_prod r \<longrightarrow>
     needed_bw r = load (\<lambda>z. max_bw (res st z)) (\<lambda>_. True) (peer (peers_list r)))"

text \<open>
  The accounts of a consumer for a set of uses: \<open>A z n\<close> tells that producer \<open>z\<close> uses the consumer
  with name \<open>n\<close>. Between operations the uses are those of the active producers.
\<close>

definition cons_exact :: "(nat \<Rightarrow> nat \<Rightarrow> bool) \<Rightarrow> ipa_rm_context_type \<Rightarrow> ipa_rm_resource \<Rightarrow> bool" where
  "cons_exact A st r \<longleftrightarrow>
     usage_count r = load (\<lambda>_. 1) (\<lambda>z. A z (rs_name r)) (peer (peers_list r)) \<and>
     needed_bw r = load (\<lambda>z. max_bw (res st z)) (\<lambda>z. A z (rs_name r)) (peer (peers_list r)) \<and>
     (usage_count r > 0 \<longrightarrow> active r)"

definition exact :: "(nat \<Rightarrow> nat \<Rightarrow> bool) \<Rightarrow> ipa_rm_context_type \<Rightarrow> bool" where
  "exact A st \<longleftrightarrow> (\<forall>c r. rm_heap st c = Some r \<longrightarrow> \<not> is_prod r \<longrightarrow> cons_exact A st r)"

definition act :: "ipa_rm_context_type \<Rightarrow> nat \<Rightarrow> nat \<Rightarrow> bool" where
  "act st z n = active (res st z)"

definition rm_exact :: "ipa_rm_context_type \<Rightarrow> bool" where
  "rm_exact st \<longleftrightarrow> exact (act st) st \<and> (\<forall>p r. rm_heap st p = Some r \<longrightarrow> is_prod r \<longrightarrow> rs_state r \<noteq> IPA_RM_RELEASE_IN_PROGRESS)"

lemma keeps_res:
  assumes "keeps v a b" and "v zero_resource = v zero_resource"
  shows "v (res b p) = v (res a p)"
proof (cases "rm_heap a p")
  case None
  then have "rm_heap b p = None" using keepsD' [OF assms(1), of p] by (cases "rm_heap b p") auto
  then show ?thesis using None by (simp add: res_def)
next
  case (Some r)
  then show ?thesis using keepsD [OF assms(1) Some] by (auto simp: res_def)
qed

lemma keeps_max_bw: "keeps core a b \<Longrightarrow> max_bw (res b p) = max_bw (res a p)"
  using keeps_res [of core a b p] core_eqD(5) by blast

lemma keeps_bw_ok: "keeps core a b \<Longrightarrow> bw_ok a \<Longrightarrow> bw_ok b"
proof -
  assume k: "keeps core a b" and bw: "bw_ok a"
  have "needed_bw r = load (\<lambda>z. max_bw (res b z)) (\<lambda>_. True) (peer (peers_list r))"
    if r: "rm_heap b p = Some r" "is_prod r" for p r
  proof -
    obtain r0 where r0: "rm_heap a p = Some r0" "core r = core r0" using keepsD' [OF k r(1)] by auto
    then show ?thesis using bw r(2) core_eqD [OF r0(2)] by (simp add: bw_ok_def keeps_max_bw [OF k])
  qed
  then show ?thesis by (simp add: bw_ok_def)
qed

lemma core_use_eqD:
  assumes "core_use r = core_use r'"
  shows "core r = core r'" "usage_count r = usage_count r'" "needed_bw r = needed_bw r'" "active r = active r'"
  using assms by (simp_all add: core_use_def)

lemma keeps_act: "keeps core_use a b \<Longrightarrow> act b = act a"
  using keeps_res [of core_use a b] by (auto simp: act_def fun_eq_iff dest: core_use_eqD(4))

text \<open>The view that the accounts of consumers depend on.\<close>

definition core_cons :: "ipa_rm_resource \<Rightarrow> _ \<times> u32 \<times> int \<times> u32 \<times> bool" where
  "core_cons r = (shape r, max_bw r, if is_prod r then (0, 0, False) else (usage_count r, needed_bw r, active r))"

lemma keeps_use_cons: "keeps core_use a b \<Longrightarrow> keeps core_cons a b"
  by (erule keeps_mono) (auto simp: core_use_def core_def core_cons_def dest: shape_eqD(2))

lemma keeps_cons_max_bw: "keeps core_cons a b \<Longrightarrow> max_bw (res b p) = max_bw (res a p)"
  using keeps_res [of core_cons a b p] by (simp add: core_cons_def)

lemma keeps_exact: "keeps core_cons a b \<Longrightarrow> exact A a \<Longrightarrow> exact A b"
proof -
  assume k: "keeps core_cons a b" and ex: "exact A a"
  have "cons_exact A b r" if r: "rm_heap b c = Some r" "\<not> is_prod r" for c r
  proof -
    obtain r0 where r0: "rm_heap a c = Some r0" "core_cons r = core_cons r0" using keepsD' [OF k r(1)] by auto
    then have c: "shape r = shape r0" by (simp add: core_cons_def)
    note f = shape_eqD [OF c]
    have e: "usage_count r = usage_count r0" "needed_bw r = needed_bw r0" "active r = active r0"
      using r0(2) r(2) f(2) by (auto simp: core_cons_def)
    have "cons_exact A a r0" using ex r0(1) r(2) f(2) by (simp add: exact_def)
    then show ?thesis
      unfolding cons_exact_def keeps_cons_max_bw [OF k] e f(1,3) .
  qed
  then show ?thesis by (simp add: exact_def)
qed

lemma exact_cong:
  assumes "rm_wf st" "\<And>z r n. rm_heap st z = Some r \<Longrightarrow> is_prod r \<Longrightarrow> peer (peers_list r) n \<noteq> None \<Longrightarrow> A z n = B z n" "exact A st"
  shows "exact B st"
proof -
  have "cons_exact B st r" if r: "rm_heap st c = Some r" "\<not> is_prod r" for c r
  proof -
    have "A z (rs_name r) = B z (rs_name r)" if "peer (peers_list r) m = Some (z, u)" for m z u
      using wf_peer [OF assms(1) r(1) that] r(2) assms(2) by force
    then have eq: "load w (\<lambda>z. A z (rs_name r)) (peer (peers_list r)) = load w (\<lambda>z. B z (rs_name r)) (peer (peers_list r))"
      for w :: "nat \<Rightarrow> 'b :: ab_group_add" by (intro load_cong) auto
    show ?thesis using assms(3) r by (simp add: exact_def cons_exact_def eq)
  qed
  then show ?thesis by (simp add: exact_def)
qed

section \<open>One use more, one use less\<close>

lemma only_max_bw: "only q r' st st' \<Longrightarrow> rm_heap st q = Some r \<Longrightarrow> max_bw r' = max_bw r \<Longrightarrow> max_bw (res st' z) = max_bw (res st z)"
  by (simp add: only_def res_def)

text \<open>The use of a consumer by a producer, in both directions of the edge.\<close>

lemma cons_load_flip:
  assumes wf: "rm_wf st" and p: "rm_heap st p = Some rp" "is_prod rp" and q: "rm_heap st q = Some rq"
    and e: "peer (peers_list rp) (rs_name rq) = Some (q, u)" and A: "\<not> A p (rs_name rq)"
  shows "load w (\<lambda>z. A z (rs_name rq) \<or> z = p) (peer (peers_list rq)) =
    load w (\<lambda>z. A z (rs_name rq)) (peer (peers_list rq)) + w p"
proof -
  have rev: "peer (peers_list rq) (rs_name rp) = Some (p, u)"
    by (rule peer_resource_unique(2) [OF wf p(1) q e])
  have "rs_name rp < 22" using wf_res [OF wf p(1)] by (simp add: res_ok_def)
  moreover have "m = rs_name rp" if "peer (peers_list rq) m = Some (p, v)" for m v
    using wf_peer [OF wf q that] p(1) by auto
  ultimately have "load w ((\<lambda>z. A z (rs_name rq))(p := True)) (peer (peers_list rq)) =
      load w (\<lambda>z. A z (rs_name rq)) (peer (peers_list rq)) + w p"
    using load_flip [where A = "\<lambda>z. A z (rs_name rq)" and z = p and n = "rs_name rp" and u = u and f = "peer (peers_list rq)" and w = w]
      rev A by blast
  moreover have "(\<lambda>z. A z (rs_name rq))(p := True) = (\<lambda>z. A z (rs_name rq) \<or> z = p)" by auto
  ultimately show ?thesis by simp
qed

lemma exact_only:
  assumes wf: "rm_wf st" and ex: "exact A st" and q: "rm_heap st q = Some rq" and o: "only q r' st st'"
    and r': "core r' = core rq" "cons_exact B st r'" and AB: "\<And>z n. n \<noteq> rs_name rq \<Longrightarrow> A z n = B z n"
  shows "exact B st'"
proof -
  have mx: "max_bw (res st' z) = max_bw (res st z)" for z
    using only_max_bw [OF o q] core_eqD(5) [OF r'(1)] by simp
  have "cons_exact B st' r" if r: "rm_heap st' c = Some r" "\<not> is_prod r" for c r
  proof (cases "c = q")
    case True
    then have "r = r'" using o r by (simp add: only_def)
    then show ?thesis using r'(2) by (simp add: cons_exact_def mx)
  next
    case False
    then have rc: "rm_heap st c = Some r" using o r by (simp add: only_def)
    then have "rs_name r \<noteq> rs_name rq" using wf_unique [OF wf rc q] False by auto
    then have "(\<lambda>z. A z (rs_name r)) = (\<lambda>z. B z (rs_name r))" using AB by auto
    then show ?thesis using ex rc r(2) by (simp add: exact_def cons_exact_def mx)
  qed
  then show ?thesis by (simp add: exact_def)
qed

lemma request_exact:
  assumes wf: "rm_wf st" and p: "rm_heap st p = Some rp" "is_prod rp" and q: "rm_heap st q = Some rq" "\<not> is_prod rq"
    and e: "peer (peers_list rp) (rs_name rq) = Some (q, u)"
    and o: "only q r' st st'" and eff: "request_effect (max_bw rp) True rq result r'" "result \<in> {0, - EINPROGRESS}"
    and ex: "exact A st" and A: "\<not> A p (rs_name rq)"
  shows "exact (\<lambda>z n. A z n \<or> (z = p \<and> n = rs_name rq)) st'"
proof (rule exact_only [OF wf ex q(1) o])
  have core: "core r' = core rq" using request_effect_core [OF eff(1) q(2)] by (simp add: core_prod_def)
  then show "core r' = core rq" .
  note c = core_eqD [OF core]
  have "usage_count r' = usage_count rq + 1" "needed_bw r' = needed_bw rq + max_bw rp" "active r'"
    using eff by (auto simp: request_effect_def active_def)
  moreover have "cons_exact A st rq" using ex q by (simp add: exact_def)
  ultimately show "cons_exact (\<lambda>z n. A z n \<or> (z = p \<and> n = rs_name rq)) st r'"
    using cons_load_flip [OF wf p q(1) e, of A "\<lambda>_. 1 :: int"] cons_load_flip [OF wf p q(1) e, of A "\<lambda>z. max_bw (res st z)"] A
    by (simp add: cons_exact_def c(1,3) live_simps(1) [OF p(1)])
qed auto

lemma release_exact:
  assumes wf: "rm_wf st" and p: "rm_heap st p = Some rp" "is_prod rp" and q: "rm_heap st q = Some rq" "\<not> is_prod rq"
    and e: "peer (peers_list rp) (rs_name rq) = Some (q, u)"
    and o: "only q r' st st'" and eff: "release_effect (max_bw rp) True rq result r'"
    and ex: "exact A st" and A: "A p (rs_name rq)"
  shows "exact (\<lambda>z n. A z n \<and> \<not> (z = p \<and> n = rs_name rq)) st'"
proof (rule exact_only [OF wf ex q(1) o])
  let ?B = "\<lambda>z n. A z n \<and> \<not> (z = p \<and> n = rs_name rq)"
  have core: "core r' = core rq" using release_effect_core [OF eff q(2)] by (simp add: core_prod_def)
  then show "core r' = core rq" .
  note c = core_eqD [OF core]
  have cq: "cons_exact A st rq" using ex q by (simp add: exact_def)
  have "(\<lambda>z. ?B z (rs_name rq) \<or> z = p) = (\<lambda>z. A z (rs_name rq))" using A by auto
  then have flip: "load w (\<lambda>z. A z (rs_name rq)) (peer (peers_list rq)) =
      load w (\<lambda>z. ?B z (rs_name rq)) (peer (peers_list rq)) + w p" for w :: "nat \<Rightarrow> 'b :: ab_group_add"
    using cons_load_flip [OF wf p q(1) e, of ?B w] by simp
  have "usage_count rq = load (\<lambda>_. 1) (\<lambda>z. ?B z (rs_name rq)) (peer (peers_list rq)) + 1"
    using flip [of "\<lambda>_. 1 :: int"] cq by (simp add: cons_exact_def)
  then have pos: "usage_count rq > 0"
    using load_nonneg [of "\<lambda>z. ?B z (rs_name rq)" "peer (peers_list rq)"] by linarith
  then have act: "active rq" using cq by (simp add: cons_exact_def)
  then have rel: "release_usage True rq = usage_count rq - 1" using pos by (auto simp: release_usage_def active_def)
  obtain s d where r': "r' = rq\<lparr>rs_state := s, needed_bw := needed_bw rq - max_bw rp, usage_count := usage_count rq - 1, request_completed := d\<rparr>"
    and s: "if usage_count rq - 1 = 0 \<and> rs_state rq \<in> {IPA_RM_GRANTED, IPA_RM_REQUEST_IN_PROGRESS}
      then s \<in> {IPA_RM_RELEASED, IPA_RM_RELEASE_IN_PROGRESS} \<or> (s = rs_state rq \<and> result \<noteq> 0 \<and> result \<noteq> - EINPROGRESS)
      else s = rs_state rq"
    using eff unfolding release_effect_def rel by blast
  have "usage_count r' = usage_count rq - 1" "needed_bw r' = needed_bw rq - max_bw rp"
    "usage_count r' > 0 \<longrightarrow> active r'"
    using act s by (auto simp: r' active_def split: if_splits)
  moreover have "usage_count rq = load (\<lambda>_. 1) (\<lambda>z. ?B z (rs_name rq)) (peer (peers_list rq)) + 1"
    "needed_bw rq = load (\<lambda>z. max_bw (res st z)) (\<lambda>z. ?B z (rs_name rq)) (peer (peers_list rq)) + max_bw rp"
    using cq flip [of "\<lambda>_. 1 :: int"] flip [of "\<lambda>z. max_bw (res st z)"]
    by (simp_all only: cons_exact_def live_simps(1) [OF p(1)])
  ultimately show "cons_exact ?B st r'"
    unfolding cons_exact_def c(1,3) by simp
qed auto

section \<open>The loops of a producer\<close>

lemma good_frame: "good_drivers a \<Longrightarrow> frame a b \<Longrightarrow> good_drivers b"
  by (simp add: good_drivers_def frame_def)

lemma pending_cons:
  "core_cons (r\<lparr>pending_request := x\<rparr>) = core_cons r" "core_cons (r\<lparr>pending_release := x\<rparr>) = core_cons r"
  by (simp_all add: core_cons_def core_def shape_def is_prod_def active_def)

lemma prod_state_cons: "is_prod r \<Longrightarrow> core_cons (r\<lparr>rs_state := s, pending_request := x\<rparr>) = core_cons r"
  "is_prod r \<Longrightarrow> core_cons (r\<lparr>rs_state := s, pending_release := x\<rparr>) = core_cons r"
  "is_prod r \<Longrightarrow> core_cons (r\<lparr>rs_state := s\<rparr>) = core_cons r"
  by (simp_all add: core_cons_def core_def shape_def is_prod_def)

lemma request_loop_exact:
  assumes "rm_wf st" "rm_heap st p = Some rp" "is_prod rp" "good_drivers st" "exact A st" "i + n \<le> 22"
    "\<And>m. i \<le> m \<Longrightarrow> \<not> A p m"
  shows "\<exists>x. fst (producer_request_loop n i p res0 st) = Inl x \<and>
    exact (\<lambda>z m. A z m \<or> (z = p \<and> i \<le> m \<and> m < i + n)) (snd (producer_request_loop n i p res0 st))"
  using assms
proof (induction n arbitrary: i st rp res0 A)
  case 0
  have "(\<lambda>z m. A z m \<or> (z = p \<and> i \<le> m \<and> m < i + 0)) = A" by (auto simp: fun_eq_iff)
  then show ?case using 0 by simp
next
  case (Suc n)
  note loop = loop_peer_ok [OF Suc.prems(1,2), of i]
  let ?C = "\<lambda>A z m. A z m \<or> (z = p \<and> Suc i \<le> m \<and> m < Suc i + n)"
  have IH: "\<exists>x. fst (producer_request_loop n (Suc i) p y st') = Inl x \<and> exact (?C B) (snd (producer_request_loop n (Suc i) p y st'))"
    if k: "keeps core_prod st st'" and ex: "exact B st'" and B: "\<And>m. Suc i \<le> m \<Longrightarrow> \<not> B p m" for st' B y
  proof -
    obtain rp' where rp': "rm_heap st' p = Some rp'" "is_prod rp' = is_prod rp"
      by (rule keeps_core_res [OF k Suc.prems(2)])
    show ?thesis
      using Suc.prems keeps_wf [OF keeps_prod_core [OF k]] good_frame [OF _ keeps_frame [OF k]] rp' ex B by (intro Suc.IH [where rp = rp']) auto
  qed
  show ?case
  proof (cases "peer (peers_list rp) i")
    case None
    let ?out = "producer_request_loop n (Suc i) p res0 st"
    have k: "keeps core_prod st (snd ?out)" using Suc.prems by (intro request_loop_keeps) auto
    obtain rp' where rp': "rm_heap (snd ?out) p = Some rp'" "peers_list rp' = peers_list rp"
      by (rule keeps_core_res [OF k Suc.prems(2)])
    obtain x where x: "fst ?out = Inl x" "exact (?C A) (snd ?out)"
      using IH [OF keeps_refl Suc.prems(5)] Suc.prems(7) by auto
    have "exact (\<lambda>z m. A z m \<or> (z = p \<and> i \<le> m \<and> m < i + Suc n)) (snd ?out)"
    proof (rule exact_cong [OF keeps_wf [OF keeps_prod_core [OF k] Suc.prems(1)] _ x(2)])
      fix z r m assume "rm_heap (snd ?out) z = Some r" "peer (peers_list r) m \<noteq> None"
      then have "z = p \<Longrightarrow> m \<noteq> i" using rp' None by auto
      then show "?C A z m = (A z m \<or> (z = p \<and> i \<le> m \<and> m < i + Suc n))" by auto
    qed
    then show ?thesis using loop None x(1) Suc.prems(6) by simp
  next
    case (Some qu)
    then obtain q u where q: "peer (peers_list rp) i = Some (q, u)" by (cases qu) auto
    obtain rq where rq: "cons_at st q rq" "rs_name rq = i" "q \<noteq> p" by (rule peer_cons [OF Suc.prems(1-3) q])
    have rq': "rm_heap st q = Some rq" "\<not> is_prod rq" using rq(1) by (auto simp: cons_at_def is_prod_def)
    let ?st2 = "upd_res p (\<lambda>r. r\<lparr>pending_request := pending_request r + 1\<rparr>) st"
    let ?rp2 = "rp\<lparr>pending_request := pending_request rp + 1\<rparr>"
    let ?req = "ipa_rm_resource_consumer_request q (max_bw ?rp2) True False ?st2"
    have o2: "only p ?rp2 st ?st2" by (rule only_upd [OF only_refl [OF Suc.prems(2)]])
    then have heap2: "rm_heap ?st2 p = Some ?rp2" "rm_heap ?st2 q = Some rq" using rq(3) rq'(1) by (auto simp: only_def)
    have k2: "keeps core_prod st ?st2" by (rule upd_pending_keeps [OF keeps_refl Suc.prems(2)])
    have wf2: "rm_wf ?st2" by (rule keeps_wf [OF keeps_prod_core [OF k2] Suc.prems(1)])
    have ex2: "exact A ?st2" by (rule keeps_exact [OF upd_keeps [OF Suc.prems(2)] Suc.prems(5)]) (rule pending_cons)
    have c2: "cons_at ?st2 q rq" using heap2 rq(1) by (simp add: cons_at_def)
    obtain r' where r': "only q r' ?st2 (snd ?req)" "request_effect (max_bw ?rp2) True rq (fst ?req) r'"
      using consumer_request_only [OF c2 wf_table_live [OF wf2], of "max_bw ?rp2" True False] by (elim exE conjE)
    have good: "fst ?req \<in> {0, - EINPROGRESS}"
      by (rule consumer_request_good [OF c2 good_frame [OF Suc.prems(4) keeps_frame [OF k2]]])
    have "peer (peers_list ?rp2) (rs_name rq) = Some (q, u)" using q rq(2) by simp
    then have ex3: "exact (\<lambda>z m. A z m \<or> (z = p \<and> m = i)) (snd ?req)"
      using request_exact [OF wf2 heap2(1) _ heap2(2) rq'(2) _ r' good ex2] Suc.prems(3,7) rq(2) by (simp add: is_prod_def)
    have k3: "keeps core_prod st (snd ?req)" by (rule request_peer_keeps(1) [OF Suc.prems(1-3) q k2])
    let ?st4 = "upd_res p (\<lambda>r. r\<lparr>pending_request := pending_request r - 1\<rparr>) (snd ?req)"
    obtain r4 where r4: "rm_heap (snd ?req) p = Some r4" using keepsD [OF k3 Suc.prems(2)] by auto
    have k4: "keeps core_prod st ?st4" by (rule upd_pending_keeps [OF k3 Suc.prems(2)])
    have ex4: "exact (\<lambda>z m. A z m \<or> (z = p \<and> m = i)) ?st4"
      by (rule keeps_exact [OF upd_keeps [OF r4] ex3]) (rule pending_cons)
    have eq: "?C (\<lambda>z m. A z m \<or> (z = p \<and> m = i)) = (\<lambda>z m. A z m \<or> (z = p \<and> i \<le> m \<and> m < i + Suc n))"
      by (auto simp: fun_eq_iff)
    note step3 = IH [OF k3 ex3, unfolded eq] and step4 = IH [OF k4 ex4, unfolded eq]
    show ?thesis
      using loop q Suc.prems(6,7) step3 step4 good by (auto simp: Let_def request_peer_def split_beta live_simps(1) [OF heap2(1)])
  qed
qed

lemma release_loop_exact:
  assumes "rm_wf st" "rm_heap st p = Some rp" "is_prod rp" "exact A st" "i + n \<le> 22" "\<And>m. i \<le> m \<Longrightarrow> A p m"
  shows "exact (\<lambda>z m. A z m \<and> \<not> (z = p \<and> i \<le> m \<and> m < i + n)) (producer_release_loop n i p st) \<and>
    pending_release (res (producer_release_loop n i p st) p) = pending_release rp"
  using assms
proof (induction n arbitrary: i st rp A)
  case (Suc n)
  note loop = loop_peer_ok [OF Suc.prems(1,2), of i]
  let ?C = "\<lambda>A z m. A z m \<and> \<not> (z = p \<and> Suc i \<le> m \<and> m < Suc i + n)"
  have IH: "exact (?C B) (producer_release_loop n (Suc i) p st') \<and>
      pending_release (res (producer_release_loop n (Suc i) p st') p) = pending_release rp'"
    if k: "keeps core_prod st st'" and ex: "exact B st'" and B: "\<And>m. Suc i \<le> m \<Longrightarrow> B p m" and rp': "rm_heap st' p = Some rp'" for st' B rp'
  proof -
    obtain rp2 where rp2: "rm_heap st' p = Some rp2" "is_prod rp2 = is_prod rp"
      by (rule keeps_core_res [OF k Suc.prems(2)])
    show ?thesis
      using Suc.prems keeps_wf [OF keeps_prod_core [OF k]] rp2 rp' ex B by (intro Suc.IH [where rp = rp']) auto
  qed
  show ?case
  proof (cases "peer (peers_list rp) i")
    case None
    let ?out = "producer_release_loop n (Suc i) p st"
    have k: "keeps core_prod st ?out" using Suc.prems by (intro release_loop_keeps) auto
    obtain rp' where rp': "rm_heap ?out p = Some rp'" "peers_list rp' = peers_list rp"
      by (rule keeps_core_res [OF k Suc.prems(2)])
    note x = IH [OF keeps_refl Suc.prems(4) _ Suc.prems(2)]
    have "exact (\<lambda>z m. A z m \<and> \<not> (z = p \<and> i \<le> m \<and> m < i + Suc n)) ?out"
    proof (rule exact_cong [OF keeps_wf [OF keeps_prod_core [OF k] Suc.prems(1)]])
      show "exact (?C A) ?out" using x Suc.prems(6) by auto
      fix z r m assume "rm_heap ?out z = Some r" "peer (peers_list r) m \<noteq> None"
      then have "z = p \<Longrightarrow> m \<noteq> i" using rp' None by auto
      then show "?C A z m = (A z m \<and> \<not> (z = p \<and> i \<le> m \<and> m < i + Suc n))" by auto
    qed
    then show ?thesis using loop None x Suc.prems(5,6) by simp
  next
    case (Some qu)
    then obtain q u where q: "peer (peers_list rp) i = Some (q, u)" by (cases qu) auto
    obtain rq where rq: "cons_at st q rq" "rs_name rq = i" "q \<noteq> p" by (rule peer_cons [OF Suc.prems(1-3) q])
    have rq': "rm_heap st q = Some rq" "\<not> is_prod rq" using rq(1) by (auto simp: cons_at_def is_prod_def)
    let ?st2 = "upd_res p (\<lambda>r. r\<lparr>pending_release := pending_release r + 1\<rparr>) st"
    let ?rp2 = "rp\<lparr>pending_release := pending_release rp + 1\<rparr>"
    let ?rel = "ipa_rm_resource_consumer_release q (max_bw ?rp2) True ?st2"
    have o2: "only p ?rp2 st ?st2" by (rule only_upd [OF only_refl [OF Suc.prems(2)]])
    then have heap2: "rm_heap ?st2 p = Some ?rp2" "rm_heap ?st2 q = Some rq" using rq(3) rq'(1) by (auto simp: only_def)
    have k2: "keeps core_prod st ?st2" by (rule upd_pending_keeps [OF keeps_refl Suc.prems(2)])
    have wf2: "rm_wf ?st2" by (rule keeps_wf [OF keeps_prod_core [OF k2] Suc.prems(1)])
    have ex2: "exact A ?st2" by (rule keeps_exact [OF upd_keeps [OF Suc.prems(2)] Suc.prems(4)]) (rule pending_cons)
    have c2: "cons_at ?st2 q rq" using heap2 rq(1) by (simp add: cons_at_def)
    obtain r' where r': "only q r' ?st2 (snd ?rel)" "release_effect (max_bw ?rp2) True rq (fst ?rel) r'"
      using consumer_release_only [OF c2 wf_table_live [OF wf2], of "max_bw ?rp2" True] by (elim exE conjE)
    have "peer (peers_list ?rp2) (rs_name rq) = Some (q, u)" using q rq(2) by simp
    then have ex3: "exact (\<lambda>z m. A z m \<and> \<not> (z = p \<and> m = i)) (snd ?rel)"
      using release_exact [OF wf2 heap2(1) _ heap2(2) rq'(2) _ r' ex2] Suc.prems(3,6) rq(2) by (simp add: is_prod_def)
    have r3: "rm_heap (snd ?rel) p = Some ?rp2" using r'(1) heap2(1) rq(3) by (simp add: only_def)
    have k3: "keeps core_prod st (snd ?rel)" by (rule request_peer_keeps(2) [OF Suc.prems(1-3) q k2])
    let ?st4 = "upd_res p (\<lambda>r. r\<lparr>pending_release := pending_release r - 1\<rparr>) (snd ?rel)"
    have k4: "keeps core_prod st ?st4" by (rule upd_pending_keeps [OF k3 Suc.prems(2)])
    have ex4: "exact (\<lambda>z m. A z m \<and> \<not> (z = p \<and> m = i)) ?st4"
      by (rule keeps_exact [OF upd_keeps [OF r3] ex3]) (rule pending_cons)
    have "rm_heap ?st4 p = Some rp" unfolding live_simps(2) [OF r3] by simp
    note step4 = IH [OF k4 ex4 _ this]
    have eq: "?C (\<lambda>z m. A z m \<and> \<not> (z = p \<and> m = i)) = (\<lambda>z m. A z m \<and> \<not> (z = p \<and> i \<le> m \<and> m < i + Suc n))"
      by (auto simp: fun_eq_iff)
    show ?thesis
      using loop q Suc.prems(5,6) step4 unfolding eq by (simp add: Let_def release_peer_def live_simps(1) [OF heap2(1)])
  qed
qed (simp add: res_def)

end
