(* ===== verification/Rm_Account.thy ===== *)
theory Rm_Account
  imports Rm_Use
begin

text \<open>
  The accounts of the resource manager under the operations: requests and releases of producers,
  new and deleted dependencies, new profiles, and the works of the queue.
\<close>

section \<open>Requests and releases of producers\<close>

lemma peer_below: "rm_wf st \<Longrightarrow> rm_heap st z = Some r \<Longrightarrow> peer (peers_list r) m \<noteq> None \<Longrightarrow> m < 22"
  using wf_res [of st z r] by (auto simp: res_ok_def peer_def peers_ok_def split: if_splits)

text \<open>
  One producer changes its state and the uses are counted accordingly; the state of the other
  producers stays.
\<close>

definition others_stay :: "nat \<Rightarrow> ipa_rm_context_type \<Rightarrow> ipa_rm_context_type \<Rightarrow> bool" where
  "others_stay p st st' \<longleftrightarrow> (\<forall>z r. z \<noteq> p \<longrightarrow> rm_heap st' z = Some r \<longrightarrow> is_prod r \<longrightarrow>
     (\<exists>r0. rm_heap st z = Some r0 \<and> is_prod r0 \<and> rs_state r = rs_state r0))"

lemma rm_exact_one:
  assumes wf: "rm_wf st'" and ex': "exact B st'" and B: "\<And>z m. m < 22 \<Longrightarrow> B z m = (if z = p then b else act st z m)"
    and stay: "others_stay p st st'" and p: "\<And>r. rm_heap st' p = Some r \<Longrightarrow> is_prod r \<Longrightarrow> active r = b \<and> rs_state r \<noteq> IPA_RM_RELEASE_IN_PROGRESS"
    and ex: "rm_exact st"
  shows "rm_exact st'"
proof -
  have "active r = (if z = p then b else act st z m)" "rs_state r \<noteq> IPA_RM_RELEASE_IN_PROGRESS"
    if z: "rm_heap st' z = Some r" "is_prod r" for z r m
  proof -
    consider "z = p" | r0 where "z \<noteq> p" "rm_heap st z = Some r0" "is_prod r0" "rs_state r = rs_state r0"
      using stay z by (auto simp: others_stay_def)
    then show "active r = (if z = p then b else act st z m)" "rs_state r \<noteq> IPA_RM_RELEASE_IN_PROGRESS"
      using p z ex by (cases; force simp: act_def active_def res_def rm_exact_def)+
  qed
  moreover from this have "exact (act st') st'"
    using B peer_below [OF wf] by (intro exact_cong [OF wf _ ex']) (auto simp: act_def res_def)
  ultimately show ?thesis by (auto simp: rm_exact_def)
qed

lemma others_stay_refl [simp]: "others_stay p st st"
  by (auto simp: others_stay_def)

lemma others_stay_trans: "others_stay p a b \<Longrightarrow> others_stay p b c \<Longrightarrow> others_stay p a c"
  unfolding others_stay_def by (metis (no_types, lifting))

lemma others_stay_only: "only p r a b \<Longrightarrow> others_stay p a b"
  by (auto simp: others_stay_def only_def)

lemma others_stay_keeps: "keeps core_prod a b \<Longrightarrow> others_stay p a b"
proof -
  assume k: "keeps core_prod a b"
  have "\<exists>r0. rm_heap a z = Some r0 \<and> is_prod r0 \<and> rs_state r = rs_state r0" if z: "rm_heap b z = Some r" "is_prod r" for z r
  proof -
    obtain r0 where r0: "rm_heap a z = Some r0" "core_prod r = core_prod r0" using keepsD' [OF k z(1)] by auto
    then have "is_prod r0" using z(2) core_eqD(2) [of r r0] by (simp add: core_prod_def)
    then show ?thesis using r0 z(2) by (simp add: core_prod_def)
  qed
  then show ?thesis by (auto simp: others_stay_def)
qed

text \<open>A producer changes its state: the accounts for fixed uses stay.\<close>

lemma only_exact:
  assumes "only p r' st st'" "rm_heap st p = Some r" "core_cons r' = core_cons r" "exact A st"
  shows "exact A st'"
  by (rule keeps_exact [OF only_keeps [OF assms(1,2,3)] assms(4)])

lemma producer_finish_only:
  assumes "rm_heap st p = Some r" "table_live st"
  shows "only p (r\<lparr>rs_state := s\<rparr>) st (producer_finish p s ev st)"
  unfolding producer_finish_def by (rule only_queue [OF only_perf [OF only_state [OF only_refl [OF assms(1)]] assms(2)]]) simp

lemma prod_finish_exact:
  assumes wf: "rm_wf st2" and ex2: "exact B st2" and B: "\<And>z m. m < 22 \<Longrightarrow> B z m = (if z = p then b else act st z m)"
    and stay: "others_stay p st st2" and p: "rm_heap st2 p = Some r2" "is_prod r2" and ex: "rm_exact st"
    and s: "active (r2\<lparr>rs_state := s\<rparr>) = b" "s \<noteq> IPA_RM_RELEASE_IN_PROGRESS"
  shows "rm_exact (producer_finish p s ev st2)"
proof (rule rm_exact_one [OF _ _ B _ _ ex])
  have o: "only p (r2\<lparr>rs_state := s\<rparr>) st2 (producer_finish p s ev st2)"
    using producer_finish_only [OF p(1)] wf by simp
  show "rm_wf (producer_finish p s ev st2)"
    using keeps_wf [OF producer_finish_keeps [OF keeps_refl p(1)]] wf by simp
  show "exact B (producer_finish p s ev st2)"
    by (rule only_exact [OF o p(1) _ ex2]) (rule prod_state_cons(3) [OF p(2)])
  show "others_stay p st (producer_finish p s ev st2)"
    by (rule others_stay_trans [OF stay others_stay_only [OF o]])
  fix r assume "rm_heap (producer_finish p s ev st2) p = Some r"
  then show "active r = b \<and> rs_state r \<noteq> IPA_RM_RELEASE_IN_PROGRESS" using o s by (auto simp: only_def)
qed

lemma producer_request_exact:
  assumes wf: "rm_wf st" and p: "rm_heap st p = Some rp" "is_prod rp" and good: "good_drivers st" and ex: "rm_exact st"
  shows "rm_exact (snd (ipa_rm_resource_producer_request p st))"
proof (cases "active rp")
  case True
  then show ?thesis using ex by (auto simp: producer_request_eq [OF wf p] active_def)
next
  case False
  let ?st1 = "request_entry p st"
  let ?rp1 = "rp\<lparr>rs_state := IPA_RM_REQUEST_IN_PROGRESS, pending_request := 0\<rparr>"
  let ?l = "producer_request_loop 22 0 p 0 ?st1"
  let ?B = "\<lambda>z m. act st z m \<or> (z = p \<and> 0 \<le> m \<and> m < 0 + 22)"
  note o1 = entry_only(1) [OF p(1)] and k1 = entry_keeps(1) [OF p(1)] and k2 = loops_from_entry(1) [OF wf p, of 0]
  have wf1: "rm_wf ?st1" by (rule keeps_wf [OF k1 wf])
  have wf2: "rm_wf (snd ?l)" by (rule keeps_wf [OF keeps_prod_core [OF k2] wf1])
  have rp1: "rm_heap ?st1 p = Some ?rp1" "is_prod ?rp1" using o1 p(2) by (simp_all add: only_def is_prod_def)
  have off: "\<not> act st p m" for m using False p(1) by (simp add: act_def res_def)
  have ex1: "exact (act st) ?st1"
    by (rule only_exact [OF o1 p(1) prod_state_cons(1) [OF p(2)]]) (use ex in \<open>simp add: rm_exact_def\<close>)
  obtain x where x: "fst ?l = Inl x" and ex2: "exact ?B (snd ?l)"
    using request_loop_exact [OF wf1 rp1 good_frame [OF good keeps_frame [OF k1]] ex1, of 0 22 0] off by auto
  have B: "?B z m = (if z = p then True else act st z m)" if "m < 22" for z m using that by auto
  have stay: "others_stay p st (snd ?l)"
    by (rule others_stay_trans [OF others_stay_only [OF o1] others_stay_keeps [OF k2]])
  obtain r2 where r2: "rm_heap (snd ?l) p = Some r2" "is_prod r2 = is_prod ?rp1" "rs_state r2 = IPA_RM_REQUEST_IN_PROGRESS"
    by (rule keeps_core_res [OF k2 rp1(1)]) (use rp1(2) in auto)
  have "rm_exact (producer_finish p IPA_RM_GRANTED IPA_RM_RESOURCE_GRANTED (snd ?l))"
    by (rule prod_finish_exact [OF wf2 ex2 B stay r2(1) _ ex]) (use r2(2) rp1(2) in \<open>auto simp: active_def\<close>)
  moreover have "rm_exact (snd ?l)"
    by (rule rm_exact_one [OF wf2 ex2 B stay _ ex]) (use r2 rp1(2) in \<open>auto simp: active_def\<close>)
  ultimately show ?thesis
    unfolding producer_request_eq [OF wf p] using False x ex by (auto simp: active_def split: prod.split)
qed

lemma producer_release_exact:
  assumes wf: "rm_wf st" and p: "rm_heap st p = Some rp" "is_prod rp" and ex: "rm_exact st"
  shows "rm_exact (snd (ipa_rm_resource_producer_release p st))"
proof (cases "active rp")
  case False
  then have "rs_state rp = IPA_RM_RELEASED" using ex p by (cases "rs_state rp") (auto simp: active_def rm_exact_def)
  then show ?thesis using ex by (simp add: producer_release_eq [OF wf p])
next
  case True
  let ?st1 = "release_entry p st"
  let ?rp1 = "rp\<lparr>rs_state := IPA_RM_RELEASE_IN_PROGRESS, pending_release := 0\<rparr>"
  let ?l = "producer_release_loop 22 0 p ?st1"
  let ?B = "\<lambda>z m. act st z m \<and> \<not> (z = p \<and> 0 \<le> m \<and> m < 0 + 22)"
  note o1 = entry_only(2) [OF p(1)] and k1 = entry_keeps(2) [OF p(1)] and k2 = loops_from_entry(2) [OF wf p]
  have wf1: "rm_wf ?st1" by (rule keeps_wf [OF k1 wf])
  have wf2: "rm_wf ?l" by (rule keeps_wf [OF keeps_prod_core [OF k2] wf1])
  have rp1: "rm_heap ?st1 p = Some ?rp1" "is_prod ?rp1" using o1 p(2) by (simp_all add: only_def is_prod_def)
  have on: "act st p m" for m using True p(1) by (simp add: act_def res_def)
  have ex1: "exact (act st) ?st1"
    by (rule only_exact [OF o1 p(1) prod_state_cons(2) [OF p(2)]]) (use ex in \<open>simp add: rm_exact_def\<close>)
  have ex2: "exact ?B ?l" and pend: "pending_release (res ?l p) = 0"
    using release_loop_exact [OF wf1 rp1 ex1, of 0 22] on by simp_all
  have B: "?B z m = (if z = p then False else act st z m)" if "m < 22" for z m using that by auto
  have stay: "others_stay p st ?l"
    by (rule others_stay_trans [OF others_stay_only [OF o1] others_stay_keeps [OF k2]])
  obtain r2 where r2: "rm_heap ?l p = Some r2" "is_prod r2 = is_prod ?rp1"
    by (rule keeps_core_res [OF k2 rp1(1)])
  have "rm_exact (producer_finish p IPA_RM_RELEASED IPA_RM_RESOURCE_RELEASED ?l)"
    by (rule prod_finish_exact [OF wf2 ex2 B stay r2(1) _ ex]) (use r2(2) rp1(2) in \<open>auto simp: active_def\<close>)
  then show ?thesis
    unfolding producer_release_eq [OF wf p] using True pend by (auto simp: active_def)
qed

section \<open>Accounts while an edge changes\<close>

text \<open>The accounts hold except that consumer \<open>q\<close> has \<open>k\<close> uses and bandwidth \<open>b\<close> too many.\<close>

definition exact_but :: "nat \<Rightarrow> int \<Rightarrow> u32 \<Rightarrow> (nat \<Rightarrow> nat \<Rightarrow> bool) \<Rightarrow> ipa_rm_context_type \<Rightarrow> bool" where
  "exact_but q k b A st \<longleftrightarrow> (\<forall>c r. rm_heap st c = Some r \<longrightarrow> \<not> is_prod r \<longrightarrow>
     usage_count r = load (\<lambda>_. 1) (\<lambda>z. A z (rs_name r)) (peer (peers_list r)) + (if c = q then k else 0) \<and>
     needed_bw r = load (\<lambda>z. max_bw (res st z)) (\<lambda>z. A z (rs_name r)) (peer (peers_list r)) + (if c = q then b else 0) \<and>
     (usage_count r > 0 \<longrightarrow> active r))"

lemma exact_but_0: "exact_but q 0 0 A st = exact A st"
  by (simp add: exact_but_def exact_def cons_exact_def)

lemma keeps_exact_but: "keeps core_cons a b \<Longrightarrow> exact_but q k c A a \<Longrightarrow> exact_but q k c A b"
proof -
  assume k: "keeps core_cons a b" and ex: "exact_but q k c A a"
  have "usage_count r = load (\<lambda>_. 1) (\<lambda>z. A z (rs_name r)) (peer (peers_list r)) + (if z = q then k else 0) \<and>
     needed_bw r = load (\<lambda>z. max_bw (res b z)) (\<lambda>z. A z (rs_name r)) (peer (peers_list r)) + (if z = q then c else 0) \<and>
     (usage_count r > 0 \<longrightarrow> active r)" if r: "rm_heap b z = Some r" "\<not> is_prod r" for z r
  proof -
    obtain r0 where r0: "rm_heap a z = Some r0" "core_cons r = core_cons r0" using keepsD' [OF k r(1)] by auto
    then have s: "shape r = shape r0" by (simp add: core_cons_def)
    note f = shape_eqD [OF s]
    have e: "usage_count r = usage_count r0" "needed_bw r = needed_bw r0" "active r = active r0"
      using r0(2) r(2) f(2) by (auto simp: core_cons_def)
    show ?thesis
      unfolding keeps_cons_max_bw [OF k] e f(1,3) using ex r0(1) r(2) f(2) by (simp add: exact_but_def)
  qed
  then show ?thesis by (simp add: exact_but_def)
qed

text \<open>An edge of which the accounts do not know appears or disappears.\<close>

lemma edge_exact:
  assumes wf: "rm_wf st" and p: "rm_heap st p = Some rp" "is_prod rp" and q: "rm_heap st q = Some rq" "\<not> is_prod rq"
    and st': "rm_heap st' = (rm_heap st)(p \<mapsto> rp', q \<mapsto> rq')"
    and rp': "is_prod rp'" "max_bw rp' = max_bw rp"
    and rq': "rs_name rq' = rs_name rq" "max_bw rq' = max_bw rq" "usage_count rq' = usage_count rq" "needed_bw rq' = needed_bw rq"
      "active rq' = active rq" "peer (peers_list rq') = (peer (peers_list rq))(rs_name rp := map_option (\<lambda>u. (p, u)) w)"
    and ex: "exact_but q k b A st" and A: "\<not> A p (rs_name rq)"
  shows "exact_but q k b A st'"
proof -
  have pq: "p \<noteq> q" using p q by auto
  have mx: "max_bw (res st' z) = max_bw (res st z)" for z
    using p(1) q(1) rp'(2) rq'(2) by (simp add: res_def st')
  have n: "rs_name rp < 22" using wf_res [OF wf p(1)] by (simp add: res_ok_def)
  have old: "(case peer (peers_list rq) (rs_name rp) of None \<Rightarrow> 0 | Some (z, u) \<Rightarrow> if A z (rs_name rq) then v z else 0) = 0"
    for v :: "nat \<Rightarrow> 'b :: ab_group_add"
  proof (cases "peer (peers_list rq) (rs_name rp)")
    case (Some zu)
    then obtain z u where z: "peer (peers_list rq) (rs_name rp) = Some (z, u)" by (cases zu) auto
    then have "z = p" using peer_resource_unique(1) [OF wf q(1) p(1) z] by simp
    then show ?thesis using z A by simp
  qed simp
  have ld: "load v (\<lambda>z. A z (rs_name rq)) (peer (peers_list rq')) = load v (\<lambda>z. A z (rs_name rq)) (peer (peers_list rq))"
    for v :: "nat \<Rightarrow> 'b :: ab_group_add"
    unfolding rq'(6) load_upd [OF n] old using A by (cases w) simp_all
  have "usage_count r = load (\<lambda>_. 1) (\<lambda>z. A z (rs_name r)) (peer (peers_list r)) + (if c = q then k else 0) \<and>
     needed_bw r = load (\<lambda>z. max_bw (res st z)) (\<lambda>z. A z (rs_name r)) (peer (peers_list r)) + (if c = q then b else 0) \<and>
     (usage_count r > 0 \<longrightarrow> active r)" if r: "rm_heap st' c = Some r" "\<not> is_prod r" for c r
  proof (cases "c = q")
    case True
    then have "r = rq'" using r by (simp add: st')
    then show ?thesis using ex q True by (simp add: exact_but_def rq'(1,3,4,5) ld)
  next
    case False
    then have "rm_heap st c = Some r" using r rp'(1) by (auto simp: st' split: if_splits)
    then show ?thesis using ex r(2) by (simp add: exact_but_def)
  qed
  then show ?thesis by (simp add: exact_but_def mx)
qed

text \<open>The use by an active producer is set apart, and released when the edge is gone.\<close>

lemma set_apart:
  assumes wf: "rm_wf st" and p: "rm_heap st p = Some rp" "is_prod rp" and q: "rm_heap st q = Some rq" "\<not> is_prod rq"
    and e: "peer (peers_list rp) (rs_name rq) = Some (q, u)" and ex: "exact A st" and A: "A p (rs_name rq)"
  shows "exact_but q 1 (max_bw rp) (\<lambda>z n. A z n \<and> \<not> (z = p \<and> n = rs_name rq)) st"
proof -
  let ?B = "\<lambda>z n. A z n \<and> \<not> (z = p \<and> n = rs_name rq)"
  have "(\<lambda>z. ?B z (rs_name rq) \<or> z = p) = (\<lambda>z. A z (rs_name rq))" using A by auto
  then have flip: "load w (\<lambda>z. A z (rs_name rq)) (peer (peers_list rq)) =
      load w (\<lambda>z. ?B z (rs_name rq)) (peer (peers_list rq)) + w p" for w :: "nat \<Rightarrow> 'b :: ab_group_add"
    using cons_load_flip [OF wf p q(1) e, of ?B w] by simp
  have "usage_count r = load (\<lambda>_. 1) (\<lambda>z. ?B z (rs_name r)) (peer (peers_list r)) + (if c = q then 1 else 0) \<and>
     needed_bw r = load (\<lambda>z. max_bw (res st z)) (\<lambda>z. ?B z (rs_name r)) (peer (peers_list r)) + (if c = q then max_bw rp else 0) \<and>
     (usage_count r > 0 \<longrightarrow> active r)" if r: "rm_heap st c = Some r" "\<not> is_prod r" for c r
  proof -
    have cr: "cons_exact A st r" using ex r by (simp add: exact_def)
    show ?thesis
    proof (cases "c = q")
      case True
      then have rq: "r = rq" using r q by simp
      have "usage_count rq = load (\<lambda>_. 1) (\<lambda>z. ?B z (rs_name rq)) (peer (peers_list rq)) + 1"
        "needed_bw rq = load (\<lambda>z. max_bw (res st z)) (\<lambda>z. ?B z (rs_name rq)) (peer (peers_list rq)) + max_bw rp"
        using cr flip [of "\<lambda>_. 1 :: int"] flip [of "\<lambda>z. max_bw (res st z)"]
        by (simp_all only: cons_exact_def live_simps(1) [OF p(1)] rq simp_thms)
      moreover have "usage_count rq > 0 \<longrightarrow> active rq" using cr by (simp add: cons_exact_def rq)
      ultimately show ?thesis unfolding rq using True by (simp only: if_True simp_thms)
    next
      case False
      then have "rs_name r \<noteq> rs_name rq" using wf_unique [OF wf r(1) q(1)] by auto
      then show ?thesis using cr False by (simp add: cons_exact_def)
    qed
  qed
  then show ?thesis by (simp add: exact_but_def)
qed

lemma release_apart:
  assumes q: "rm_heap st q = Some rq" "\<not> is_prod rq" and o: "only q r' st st'" and eff: "release_effect b True rq result r'"
    and ex: "exact_but q 1 b A st"
  shows "exact A st'"
proof -
  have core: "core r' = core rq" using release_effect_core [OF eff q(2)] by (simp add: core_prod_def)
  note c = core_eqD [OF core]
  have mx: "max_bw (res st' z) = max_bw (res st z)" for z by (rule only_max_bw [OF o q(1) c(5)])
  let ?L = "load (\<lambda>_. 1 :: int) (\<lambda>z. A z (rs_name rq)) (peer (peers_list rq))"
  have uq: "usage_count rq = ?L + 1" "needed_bw rq = load (\<lambda>z. max_bw (res st z)) (\<lambda>z. A z (rs_name rq)) (peer (peers_list rq)) + b"
    "usage_count rq > 0 \<longrightarrow> active rq" using ex q by (auto simp: exact_but_def)
  have pos: "usage_count rq > 0" using uq(1) load_nonneg [of "\<lambda>z. A z (rs_name rq)" "peer (peers_list rq)"] by linarith
  then have act: "active rq" and rel: "release_usage True rq = usage_count rq - 1"
    using uq(3) by (auto simp: release_usage_def active_def)
  obtain s d where r': "r' = rq\<lparr>rs_state := s, needed_bw := needed_bw rq - b, usage_count := usage_count rq - 1, request_completed := d\<rparr>"
    and s: "if usage_count rq - 1 = 0 \<and> rs_state rq \<in> {IPA_RM_GRANTED, IPA_RM_REQUEST_IN_PROGRESS}
      then s \<in> {IPA_RM_RELEASED, IPA_RM_RELEASE_IN_PROGRESS} \<or> (s = rs_state rq \<and> result \<noteq> 0 \<and> result \<noteq> - EINPROGRESS)
      else s = rs_state rq"
    using eff unfolding release_effect_def rel by blast
  have new: "usage_count r' > 0 \<longrightarrow> active r'" using act s by (auto simp: r' active_def split: if_splits)
  have "cons_exact A st' r" if r: "rm_heap st' x = Some r" "\<not> is_prod r" for x r
  proof (cases "x = q")
    case True
    then have "r = r'" using o r by (simp add: only_def)
    then show ?thesis using new uq(1,2) by (simp add: cons_exact_def mx r')
  next
    case False
    then have "rm_heap st x = Some r" using o r by (simp add: only_def)
    then show ?thesis using ex r(2) False by (simp add: exact_but_def cons_exact_def mx)
  qed
  then show ?thesis by (simp add: exact_def)
qed

text \<open>The needs of all producers but one.\<close>

definition bw_but :: "nat \<Rightarrow> ipa_rm_context_type \<Rightarrow> bool" where
  "bw_but p st \<longleftrightarrow> (\<forall>z r. z \<noteq> p \<longrightarrow> rm_heap st z = Some r \<longrightarrow> is_prod r \<longrightarrow>
     needed_bw r = load (\<lambda>z. max_bw (res st z)) (\<lambda>_. True) (peer (peers_list r)))"

lemma bw_ok_but: "bw_ok st \<Longrightarrow> bw_but p st"
  by (simp add: bw_ok_def bw_but_def)

lemma keeps_bw_but: "keeps core a b \<Longrightarrow> bw_but p a \<Longrightarrow> bw_but p b"
proof -
  assume k: "keeps core a b" and bw: "bw_but p a"
  have "needed_bw r = load (\<lambda>z. max_bw (res b z)) (\<lambda>_. True) (peer (peers_list r))"
    if r: "rm_heap b z = Some r" "is_prod r" "z \<noteq> p" for z r
  proof -
    obtain r0 where r0: "rm_heap a z = Some r0" "core r = core r0" using keepsD' [OF k r(1)] by auto
    then show ?thesis using bw r(2,3) core_eqD [OF r0(2)] by (simp add: bw_but_def keeps_max_bw [OF k])
  qed
  then show ?thesis by (simp add: bw_but_def)
qed

lemma edge_bw:
  assumes p: "rm_heap st p = Some rp" and q: "rm_heap st q = Some rq" "\<not> is_prod rq"
    and st': "rm_heap st' = (rm_heap st)(p \<mapsto> rp', q \<mapsto> rq')" and pq: "p \<noteq> q"
    and same: "max_bw rp' = max_bw rp" "max_bw rq' = max_bw rq" "\<not> is_prod rq'"
    and new: "needed_bw rp' = load (\<lambda>z. max_bw (res st z)) (\<lambda>_. True) (peer (peers_list rp'))"
    and bw: "bw_but p st"
  shows "bw_ok st'"
proof -
  have mx: "max_bw (res st' z) = max_bw (res st z)" for z
    using p(1) q(1) same by (simp add: res_def st')
  have "needed_bw r = load (\<lambda>z. max_bw (res st z)) (\<lambda>_. True) (peer (peers_list r))"
    if r: "rm_heap st' z = Some r" "is_prod r" for z r
  proof (cases "z = p")
    case True
    then show ?thesis using r new pq by (simp add: st')
  next
    case False
    moreover have "z \<noteq> q" using r same(3) by (auto simp: st')
    ultimately show ?thesis using r bw by (simp add: st' bw_but_def)
  qed
  then show ?thesis by (simp add: bw_ok_def mx)
qed

end
