(* ===== verification/Rm_Edges.thy ===== *)
theory Rm_Edges
  imports Rm_Account
begin

text \<open>
  New and deleted dependencies: both keep the structure and the bandwidth that the producers need,
  and with good drivers they keep the accounts of the consumers.
\<close>

section \<open>A new dependency\<close>

text \<open>The state after the edge was recorded on both sides.\<close>

definition linked :: "nat \<Rightarrow> nat \<Rightarrow> bool \<Rightarrow> ipa_rm_context_type \<Rightarrow> ipa_rm_context_type" where
  "linked p q u st = upd_res p (\<lambda>r. r\<lparr>needed_bw := needed_bw r + max_bw (res st q)\<rparr>) (add_peer_to q p u (add_peer_to p q u st))"

lemma no_edge_sym:
  assumes "rm_wf st" "rm_heap st p = Some rp" "rm_heap st q = Some rq" "peer (peers_list rp) (rs_name rq) = None"
  shows "peer (peers_list rq) (rs_name rp) = None"
  using peer_resource_unique(2) [OF assms(1,3,2)] assms(4) by (cases "peer (peers_list rq) (rs_name rp)") auto

lemma check_dependency_wf:
  assumes wf: "rm_wf st" and p: "rm_heap st p = Some rp" and q: "rm_heap st q = Some rq"
  shows "ipa_rm_peers_list_check_dependency (peers_list rp) (rs_name rp) (peers_list rq) (rs_name rq) =
    (peer (peers_list rp) (rs_name rq) \<noteq> None, map_option snd (peer (peers_list rp) (rs_name rq)), False)"
proof -
  obtain l k where l: "peers_list rp = Some l" "peers_ok l" "valid_name (rs_name rp)"
    and k: "peers_list rq = Some k" "peers_ok k" "valid_name (rs_name rq)"
    using wf_res [OF wf p] wf_res [OF wf q] by (auto simp: res_ok_def)
  show ?thesis
    using check_dependency_ok [OF l(2) k(2) l(3) k(3)] peer_resource_unique(2) [OF wf p q] no_edge_sym [OF wf p q]
    unfolding l(1) k(1) by (cases "peer (Some l) (rs_name rq)") auto
qed

lemma linked_ok:
  fixes u
  assumes wf: "rm_wf st" and p: "rm_heap st p = Some rp" "is_prod rp" and q: "rm_heap st q = Some rq" "\<not> is_prod rq"
    and none: "peer (peers_list rp) (rs_name rq) = None"
  obtains lp lq where
    "rm_heap (linked p q u st) p = Some (rp\<lparr>peers_list := Some lp, needed_bw := needed_bw rp + max_bw rq\<rparr>)"
    "rm_heap (linked p q u st) q = Some (rq\<lparr>peers_list := Some lq\<rparr>)"
    "peer (Some lp) = (peer (peers_list rp))(rs_name rq := Some (q, u))"
    "frame st (linked p q u st)" "rm_wf (linked p q u st)" "others_stay p st (linked p q u st)"
    "bw_ok st \<Longrightarrow> bw_ok (linked p q u st)"
    "\<And>A. exact A st \<Longrightarrow> \<not> A p (rs_name rq) \<Longrightarrow> exact A (linked p q u st)"
    "\<forall>z. z \<noteq> p \<longrightarrow> z \<noteq> q \<longrightarrow> rm_heap (linked p q u st) z = rm_heap st z"
proof -
  note none' = no_edge_sym [OF wf p(1) q(1) none]
  have pq: "p \<noteq> q" using p q by auto
  let ?st1 = "add_peer_to q p u (add_peer_to p q u st)"
  let ?st2 = "linked p q u st"
  obtain lp lq where l: "rm_heap ?st1 = (rm_heap st)(p \<mapsto> rp\<lparr>peers_list := Some lp\<rparr>, q \<mapsto> rq\<lparr>peers_list := Some lq\<rparr>)"
    "peer (Some lp) = (peer (peers_list rp))(rs_name rq := Some (q, u))"
    "peer (Some lq) = (peer (peers_list rq))(rs_name rp := Some (p, u))" "frame st ?st1" "rm_wf ?st1"
    by (rule link_ok [OF wf p q none none'])
  let ?rp1 = "rp\<lparr>peers_list := Some lp\<rparr>"
  let ?rp2 = "?rp1\<lparr>needed_bw := needed_bw rp + max_bw rq\<rparr>" and ?rq2 = "rq\<lparr>peers_list := Some lq\<rparr>"
  have heap1: "rm_heap ?st1 p = Some ?rp1" "rm_heap ?st1 q = Some ?rq2" using l(1) pq by simp_all
  have o: "only p ?rp2 ?st1 ?st2"
    using only_upd [OF only_refl [OF heap1(1)], of "\<lambda>r. r\<lparr>needed_bw := needed_bw r + max_bw (res st q)\<rparr>"]
    by (simp add: linked_def live_simps(1) [OF q(1)])
  have heap2: "rm_heap ?st2 = (rm_heap st)(p \<mapsto> ?rp2, q \<mapsto> ?rq2)"
    using o l(1) pq by (auto simp: only_def fun_upd_twist)
  have fr: "frame st ?st2" using l(4) o by (auto simp: only_def dest: frame_trans)
  have shp: "keeps shape ?st1 ?st2" by (rule only_keeps [OF o heap1(1)]) (simp add: shape_def is_prod_def)
  have nq: "rs_name rq < 22" using wf_res [OF wf q(1)] by (simp add: res_ok_def)
  show thesis
  proof (rule that)
    show "rm_heap ?st2 p = Some (rp\<lparr>peers_list := Some lp, needed_bw := needed_bw rp + max_bw rq\<rparr>)"
      "rm_heap ?st2 q = Some ?rq2" using heap2 pq by simp_all
    show "rm_wf ?st2" by (rule keeps_shape_wf [OF shp l(5)])
    show "others_stay p st ?st2" using q(2) by (auto simp: others_stay_def heap2 is_prod_def)
    show "bw_ok ?st2" if bw: "bw_ok st"
    proof (rule edge_bw [OF p(1) q heap2 pq _ _ _ _ bw_ok_but [OF bw]])
      show "needed_bw ?rp2 = load (\<lambda>z. max_bw (res st z)) (\<lambda>_. True) (peer (peers_list ?rp2))"
        using bw p none by (simp add: bw_ok_def l(2) load_upd [OF nq] live_simps(1) [OF q(1)])
    qed (use q(2) in \<open>simp_all add: is_prod_def\<close>)
    show "exact A ?st2" if ex: "exact A st" and A: "\<not> A p (rs_name rq)" for A
    proof -
      have "exact_but q 0 0 A ?st2"
        by (rule edge_exact [OF wf p q heap2, where w = "Some u"])
          (use p(2) ex A in \<open>simp_all add: is_prod_def active_def l(3) exact_but_0\<close>)
      then show ?thesis by (simp add: exact_but_0)
    qed
    show "\<forall>z. z \<noteq> p \<longrightarrow> z \<noteq> q \<longrightarrow> rm_heap ?st2 z = rm_heap st z" by (simp add: heap2)
  qed (fact l(2) fr)+
qed

lemma linked_exact:
  assumes wf: "rm_wf st" and p: "rm_heap st p = Some rp" "is_prod rp" and q: "rm_heap st q = Some rq" "\<not> is_prod rq"
    and none: "peer (peers_list rp) (rs_name rq) = None" and ex: "exact A st" and A: "\<not> A p (rs_name rq)"
  shows "exact A (linked p q u st)"
proof (rule linked_ok [OF wf p q none])
  assume "\<And>A. exact A st \<Longrightarrow> \<not> A p (rs_name rq) \<Longrightarrow> exact A (linked p q u st)"
  from this [OF ex A] show ?thesis .
qed

lemma add_dependency_eq:
  fixes u
  assumes wf: "rm_wf st" and p: "rm_heap st p = Some rp" "is_prod rp" and q: "rm_heap st q = Some rq" "\<not> is_prod rq"
    and none: "peer (peers_list rp) (rs_name rq) = None"
  defines "st3 \<equiv> upd_res p (\<lambda>r. r\<lparr>rs_state := IPA_RM_REQUEST_IN_PROGRESS, pending_request := pending_request r + 1\<rparr>) (linked p q u st)"
  defines "req \<equiv> ipa_rm_resource_consumer_request q (max_bw rp) True False st3"
  defines "st5 \<equiv> upd_res p (\<lambda>r. r\<lparr>rs_state := rs_state rp, pending_request := pending_request r - 1\<rparr>) (snd req)"
  shows "ipa_rm_resource_add_dependency (Some p) (Some q) u st =
    (if rs_state rp = IPA_RM_RELEASED \<or> rs_state rp = IPA_RM_RELEASE_IN_PROGRESS then (0, linked p q u st)
     else (fst req, if fst req \<noteq> - EINPROGRESS then ipa_rm_perf_profile_change (rs_name (res st5 p)) st5 else snd req))"
proof -
  obtain lp lq where l: "rm_heap (linked p q u st) p = Some (rp\<lparr>peers_list := Some lp, needed_bw := needed_bw rp + max_bw rq\<rparr>)"
    "rm_heap (linked p q u st) q = Some (rq\<lparr>peers_list := Some lq\<rparr>)"
    by (rule linked_ok [OF wf p q none]) blast
  have prod: "as_prod p (linked p q u st) = linked p q u st" using l(1) p(2) by (simp add: live_simps(5) is_prod_def)
  have m: "max_bw (res st3 p) = max_bw rp" by (simp add: st3_def live_simps(2) [OF l(1)] res_def)
  have s: "rs_state (res (linked p q u st) p) = rs_state rp" by (simp add: res_def l(1))
  have mq: "max_bw (res (add_peer_to q p u (add_peer_to p q u st)) q) = max_bw rq"
    using p q by (auto simp: add_peer_to_def upd_res_def flag_ub_def res_def split: prod.split)
  have lk: "upd_res p (\<lambda>r. r\<lparr>needed_bw := needed_bw r + max_bw rq\<rparr>) (add_peer_to q p u (add_peer_to p q u st)) = linked p q u st"
    by (simp add: linked_def live_simps(1) [OF q(1)])
  show ?thesis
    unfolding ipa_rm_resource_add_dependency_def prod.case option.case live_simps(1) [OF p(1)] live_simps(1) [OF q(1)]
      live_simps(3) [OF p(1)] live_simps(3) [OF q(1)] check_dependency_wf [OF wf p(1) q(1)] Let_def flag_ub_False mq lk s
    using none by (simp add: prod st3_def [symmetric] m req_def [symmetric] split_beta st5_def [symmetric])
qed

lemma add_dependency_exists:
  assumes wf: "rm_wf st" and p: "rm_heap st p = Some rp" and q: "rm_heap st q = Some rq"
    and e: "peer (peers_list rp) (rs_name rq) \<noteq> None"
  shows "ipa_rm_resource_add_dependency (Some p) (Some q) u st = (- EEXIST, st)"
  using e unfolding ipa_rm_resource_add_dependency_def prod.case option.case live_simps(1) [OF p(1)] live_simps(1) [OF q(1)]
      live_simps(3) [OF p(1)] live_simps(3) [OF q(1)] check_dependency_wf [OF wf p(1) q(1)]
  by (auto simp: flag_ub_def)

lemma add_dependency_keeps:
  assumes wf: "rm_wf st" and p: "rm_heap st p = Some rp" "is_prod rp" and q: "rm_heap st q = Some rq" "\<not> is_prod rq"
    and none: "peer (peers_list rp) (rs_name rq) = None"
  shows "keeps core (linked p q u st) (snd (ipa_rm_resource_add_dependency (Some p) (Some q) u st))"
proof -
  let ?st2 = "linked p q u st"
  let ?st3 = "upd_res p (\<lambda>r. r\<lparr>rs_state := IPA_RM_REQUEST_IN_PROGRESS, pending_request := pending_request r + 1\<rparr>) ?st2"
  let ?req = "ipa_rm_resource_consumer_request q (max_bw rp) True False ?st3"
  let ?st5 = "upd_res p (\<lambda>r. r\<lparr>rs_state := rs_state rp, pending_request := pending_request r - 1\<rparr>) (snd ?req)"
  obtain lp lq where l: "rm_heap ?st2 p = Some (rp\<lparr>peers_list := Some lp, needed_bw := needed_bw rp + max_bw rq\<rparr>)"
    "rm_heap ?st2 q = Some (rq\<lparr>peers_list := Some lq\<rparr>)" "rm_wf ?st2"
    by (rule linked_ok [OF wf p q none]) blast
  have pq: "p \<noteq> q" using p q by auto
  have k3: "keeps core ?st2 ?st3" by (rule upd_keeps [OF l(1)]) (simp add: core_def shape_def is_prod_def)
  have wf3: "rm_wf ?st3" by (rule keeps_wf [OF k3 l(3)])
  have q3: "rm_heap ?st3 q = Some (rq\<lparr>peers_list := Some lq\<rparr>)" using pq l(2) by (simp add: live_simps(2) [OF l(1)])
  have c3: "cons_at ?st3 q (rq\<lparr>peers_list := Some lq\<rparr>)" by (rule wf_cons [OF wf3 q3]) (use q in \<open>simp add: is_prod_def\<close>)
  have k4: "keeps core ?st2 (snd ?req)"
    by (rule keeps_trans [OF k3 keeps_prod_core [OF consumer_request_keeps [OF c3 wf_table_live [OF wf3]]]])
  obtain r4 where r4: "rm_heap (snd ?req) p = Some r4" using keepsD [OF k4 l(1)] by auto
  have k5: "keeps core ?st2 ?st5" by (rule keeps_upd_trans [OF k4 r4]) (simp add: core_def shape_def is_prod_def)
  have k6: "keeps core ?st2 (ipa_rm_perf_profile_change (rs_name (res ?st5 p)) ?st5)"
    by (rule keeps_perf_trans [OF k5 wf_table_live [OF l(3)]])
  show ?thesis unfolding add_dependency_eq [OF wf p q none] using k4 k6 by auto
qed

text \<open>A new dependency in every case: nothing changes when the edge exists already.\<close>

definition safe_step :: "ipa_rm_context_type \<Rightarrow> ipa_rm_context_type \<Rightarrow> bool" where
  "safe_step st st' \<longleftrightarrow> frame st st' \<and> rm_wf st' \<and> (bw_ok st \<longrightarrow> bw_ok st')"

lemma safe_step_refl: "rm_wf st \<Longrightarrow> safe_step st st"
  by (simp add: safe_step_def)

lemma safe_step_trans: "safe_step a b \<Longrightarrow> safe_step b c \<Longrightarrow> safe_step a c"
  by (auto simp: safe_step_def dest: frame_trans)

lemma keeps_safe: "rm_wf st \<Longrightarrow> keeps core st st' \<Longrightarrow> safe_step st st'"
  using keeps_wf keeps_bw_ok keeps_frame by (auto simp: safe_step_def)

lemma add_dependency_safe:
  assumes wf: "rm_wf st" and p: "rm_heap st p = Some rp" "is_prod rp" and q: "rm_heap st q = Some rq" "\<not> is_prod rq"
  shows "safe_step st (snd (ipa_rm_resource_add_dependency (Some p) (Some q) u st))"
proof (cases "peer (peers_list rp) (rs_name rq)")
  case None
  have "safe_step st (linked p q u st)" "rm_wf (linked p q u st)"
    by (rule linked_ok [OF wf p q None]; auto simp: safe_step_def)+
  then show ?thesis
    using keeps_safe [OF _ add_dependency_keeps [OF wf p q None]] by (blast intro: safe_step_trans)
next
  case (Some e)
  then show ?thesis using add_dependency_exists [OF wf p(1) q(1)] safe_step_refl [OF wf] by simp
qed

lemma add_dependency_exact:
  assumes wf: "rm_wf st" and p: "rm_heap st p = Some rp" "is_prod rp" and q: "rm_heap st q = Some rq" "\<not> is_prod rq"
    and good: "good_drivers st" and ex: "rm_exact st"
  shows "rm_exact (snd (ipa_rm_resource_add_dependency (Some p) (Some q) u st))"
proof (cases "peer (peers_list rp) (rs_name rq)")
  case (Some e)
  then show ?thesis using add_dependency_exists [OF wf p(1) q(1)] ex by simp
next
  case None
  let ?st2 = "linked p q u st"
  let ?st3 = "upd_res p (\<lambda>r. r\<lparr>rs_state := IPA_RM_REQUEST_IN_PROGRESS, pending_request := pending_request r + 1\<rparr>) ?st2"
  let ?req = "ipa_rm_resource_consumer_request q (max_bw rp) True False ?st3"
  let ?st5 = "upd_res p (\<lambda>r. r\<lparr>rs_state := rs_state rp, pending_request := pending_request r - 1\<rparr>) (snd ?req)"
  let ?st6 = "ipa_rm_perf_profile_change (rs_name (res ?st5 p)) ?st5"
  let ?A = "\<lambda>z m. act st z m \<and> \<not> (z = p \<and> m = rs_name rq)"
  have exA: "exact ?A st"
  proof (rule exact_cong [OF wf])
    show "exact (act st) st" using ex by (simp add: rm_exact_def)
  qed (use p(1) None in auto)
  obtain lp lq where l: "rm_heap ?st2 p = Some (rp\<lparr>peers_list := Some lp, needed_bw := needed_bw rp + max_bw rq\<rparr>)"
    "rm_heap ?st2 q = Some (rq\<lparr>peers_list := Some lq\<rparr>)"
    "peer (Some lp) = (peer (peers_list rp))(rs_name rq := Some (q, u))" "frame st ?st2" "rm_wf ?st2" "others_stay p st ?st2"
    by (rule linked_ok [OF wf p q None]) blast
  have ex2: "exact ?A ?st2" by (rule linked_exact [OF wf p q None exA]) simp
  have pq: "p \<noteq> q" using p q by auto
  let ?rp3 = "rp\<lparr>peers_list := Some lp, needed_bw := needed_bw rp + max_bw rq, rs_state := IPA_RM_REQUEST_IN_PROGRESS,
    pending_request := pending_request rp + 1\<rparr>"
  have not_rip: "rs_state rp \<noteq> IPA_RM_RELEASE_IN_PROGRESS" using ex p by (auto simp: rm_exact_def)
  show ?thesis
  proof (cases "active rp")
    case False
    then have rel: "rs_state rp = IPA_RM_RELEASED" using not_rip by (cases "rs_state rp") (auto simp: active_def)
    have "rm_exact ?st2"
      by (rule rm_exact_one [OF l(5) ex2 _ l(6) _ ex, where b = False])
        (use p(1) False rel l(1) in \<open>auto simp: act_def res_def active_def\<close>)
    then show ?thesis unfolding add_dependency_eq [OF wf p q None] by (simp add: rel)
  next
    case True
    then have on: "act st p m" for m using p(1) by (simp add: act_def res_def)
    have o3: "only p ?rp3 ?st2 ?st3" by (rule only_eq [OF only_upd [OF only_refl [OF l(1)]]]) simp
    have p3: "rm_heap ?st3 p = Some ?rp3" "is_prod ?rp3" using o3 p(2) by (simp_all add: only_def is_prod_def)
    have q3: "rm_heap ?st3 q = Some (rq\<lparr>peers_list := Some lq\<rparr>)" "\<not> is_prod (rq\<lparr>peers_list := Some lq\<rparr>)"
      using o3 pq l(2) q(2) by (simp_all add: only_def is_prod_def)
    have c: "core_cons ?rp3 = core_cons (rp\<lparr>peers_list := Some lp, needed_bw := needed_bw rp + max_bw rq\<rparr>)"
      using p(2) by (simp add: core_cons_def shape_def is_prod_def)
    have ex3: "exact ?A ?st3" by (rule only_exact [OF o3 l(1) c ex2])
    have k3: "keeps core ?st2 ?st3" by (rule upd_keeps [OF l(1)]) (simp add: core_def shape_def is_prod_def)
    have wf3: "rm_wf ?st3" by (rule keeps_wf [OF k3 l(5)])
    have c3: "cons_at ?st3 q (rq\<lparr>peers_list := Some lq\<rparr>)" by (rule wf_cons [OF wf3 q3])
    obtain r' where r': "only q r' ?st3 (snd ?req)" "request_effect (max_bw rp) True (rq\<lparr>peers_list := Some lq\<rparr>) (fst ?req) r'"
      using consumer_request_only [OF c3 wf_table_live [OF wf3]] by blast
    have good3: "fst ?req \<in> {0, - EINPROGRESS}"
      by (rule consumer_request_good [OF c3 good_frame [OF good frame_trans [OF l(4) keeps_frame [OF k3]]]])
    have ex4: "exact (\<lambda>z m. ?A z m \<or> (z = p \<and> m = rs_name rq)) (snd ?req)"
      using request_exact [OF wf3 p3 q3 _ r'(1) _ good3 ex3] r'(2) l(3) by simp
    have k4: "keeps core_prod ?st3 (snd ?req)" by (rule consumer_request_keeps [OF c3 wf_table_live [OF wf3]])
    have wf4: "rm_wf (snd ?req)" by (rule keeps_wf [OF keeps_prod_core [OF k4] wf3])
    have stay4: "others_stay p st (snd ?req)"
      by (rule others_stay_trans [OF l(6) others_stay_trans [OF others_stay_only [OF o3] others_stay_keeps [OF k4]]])
    obtain r4 where r4: "rm_heap (snd ?req) p = Some r4" "is_prod r4 = is_prod ?rp3" "rs_state r4 = IPA_RM_REQUEST_IN_PROGRESS"
      by (rule keeps_core_res [OF k4 p3(1)]) (use p3(2) in auto)
    have ex4': "exact (\<lambda>z m. if z = p then True else act st z m) (snd ?req)"
      by (rule exact_cong [OF wf4 _ ex4]) (use on in auto)
    have "rm_exact (snd ?req)"
      by (rule rm_exact_one [OF wf4 ex4' _ stay4 _ ex, where b = True]) (use r4 in \<open>auto simp: active_def\<close>)
    moreover have "rm_exact ?st6"
    proof (rule rm_exact_one [OF _ _ _ _ _ ex, where b = True])
      let ?r5 = "r4\<lparr>rs_state := rs_state rp, pending_request := pending_request r4 - 1\<rparr>"
      have o5: "only p ?r5 (snd ?req) ?st6"
        by (rule only_perf [OF only_upd [OF only_refl [OF r4(1)]] wf_table_live [OF wf4]])
      show "rm_wf ?st6" by (rule keeps_wf [OF only_keeps [OF o5 r4(1)] wf4]) (simp add: core_def shape_def is_prod_def)
      show "exact (\<lambda>z m. if z = p then True else act st z m) ?st6"
        by (rule only_exact [OF o5 r4(1) prod_state_cons(1) ex4']) (use r4(2) p3(2) in simp)
      show "others_stay p st ?st6" by (rule others_stay_trans [OF stay4 others_stay_only [OF o5]])
      fix r assume "rm_heap ?st6 p = Some r"
      then show "active r = True \<and> rs_state r \<noteq> IPA_RM_RELEASE_IN_PROGRESS"
        using o5 True not_rip by (auto simp: only_def active_def)
    qed simp
    ultimately show ?thesis unfolding add_dependency_eq [OF wf p q None] using ex True by (auto simp: active_def)
  qed
qed

section \<open>A deleted dependency\<close>

lemma delete_state_only:
  fixes q
  assumes p: "rm_heap st p = Some r" "is_prod r" and tl: "table_live st"
  defines "out \<equiv> delete_dependency_state p q st"
  shows "\<exists>s a b. only p (r\<lparr>rs_state := s, pending_request := a, pending_release := b\<rparr>) st (snd (snd out)) \<and>
    (rs_state r \<noteq> IPA_RM_RELEASE_IN_PROGRESS \<longrightarrow> s \<noteq> IPA_RM_RELEASE_IN_PROGRESS \<and> (active (r\<lparr>rs_state := s\<rparr>) = active r)) \<and>
    (rs_state r = IPA_RM_RELEASED \<longrightarrow> s = IPA_RM_RELEASED \<and> a = pending_request r \<and> b = pending_release r)"
    and "fst (snd out) = active r"
proof -
  have ty: "rs_type r = IPA_RM_PRODUCER" using p(2) by (simp add: is_prod_def)
  note live = live_simps(1) [OF p(1)] live_simps(5) [OF p(1) ty]
  let ?new = "\<lambda>s a b. r\<lparr>rs_state := s, pending_request := a, pending_release := b\<rparr>"
  have same: "only p (?new (rs_state r) (pending_request r) (pending_release r)) st st'" if "only p r st st'" for st'
    by (rule only_eq [OF that]) simp
  have rq: "only p (?new (rs_state r) (if pending_request r > 0 then pending_request r - 1 else pending_request r) (pending_release r)) st
      (upd_res p (\<lambda>r. if pending_request r > 0 then r\<lparr>pending_request := pending_request r - 1\<rparr> else r) st)"
    by (rule only_eq [OF only_upd [OF only_refl [OF p(1)]]]) simp
  have rl: "only p (?new (rs_state r) (pending_request r) (if pending_release r > 0 then pending_release r - 1 else pending_release r)) st
      (upd_res p (\<lambda>r. if pending_release r > 0 then r\<lparr>pending_release := pending_release r - 1\<rparr> else r) st)"
    by (rule only_eq [OF only_upd [OF only_refl [OF p(1)]]]) simp
  have fin: "only p (?new s a b) st (ipa_rm_perf_profile_change n (set_state p s st'))" if "only p (?new s0 a b) st st'" for s s0 a b n st'
    by (rule only_perf [OF only_eq [OF only_state [OF that]] tl]) simp
  have act: "active (r\<lparr>rs_state := s\<rparr>) \<longleftrightarrow> s = IPA_RM_GRANTED \<or> s = IPA_RM_REQUEST_IN_PROGRESS" for s by (simp add: active_def)
  have ar: "active r \<longleftrightarrow> rs_state r = IPA_RM_GRANTED \<or> rs_state r = IPA_RM_REQUEST_IN_PROGRESS" by (rule active_def)
  show "fst (snd out) = active r"
    by (cases "rs_state r") (simp_all add: out_def delete_dependency_state_def live Let_def ar)
  let ?P = "\<lambda>st'. \<exists>s a b. only p (?new s a b) st st' \<and>
    (rs_state r \<noteq> IPA_RM_RELEASE_IN_PROGRESS \<longrightarrow> s \<noteq> IPA_RM_RELEASE_IN_PROGRESS \<and> (active (r\<lparr>rs_state := s\<rparr>) = active r)) \<and>
    (rs_state r = IPA_RM_RELEASED \<longrightarrow> s = IPA_RM_RELEASED \<and> a = pending_request r \<and> b = pending_release r)"
  have w: "?P st'" if "only p (?new s a b) st st'" "rs_state r \<noteq> IPA_RM_RELEASE_IN_PROGRESS \<longrightarrow>
      s \<noteq> IPA_RM_RELEASE_IN_PROGRESS \<and> (active (r\<lparr>rs_state := s\<rparr>) = active r)"
      "rs_state r = IPA_RM_RELEASED \<longrightarrow> s = IPA_RM_RELEASED \<and> a = pending_request r \<and> b = pending_release r" for s a b st'
    using that by blast
  have stay: "?P st'" if "only p r st st'" for st'
    by (intro exI conjI) (rule same [OF that], simp_all)
  show "?P (snd (snd out))"
  proof (cases "rs_state r")
    case IPA_RM_RELEASED
    then have "snd (snd out) = st" by (simp add: out_def delete_dependency_state_def live)
    with stay [OF only_refl [OF p(1)]] show ?thesis by simp
  next
    case IPA_RM_GRANTED
    then have "snd (snd out) = ipa_rm_perf_profile_change (rs_name r) st" by (simp add: out_def delete_dependency_state_def live)
    with stay [OF only_perf [OF only_refl [OF p(1)] tl]] show ?thesis by simp
  next
    case IPA_RM_RELEASE_IN_PROGRESS
    let ?st1 = "upd_res p (\<lambda>r. if pending_release r > 0 then r\<lparr>pending_release := pending_release r - 1\<rparr> else r) st"
    have "snd (snd out) = ?st1 \<or> snd (snd out) = ipa_rm_perf_profile_change (rs_name (res ?st1 p)) (set_state p IPA_RM_RELEASED ?st1)"
      using IPA_RM_RELEASE_IN_PROGRESS by (simp add: out_def delete_dependency_state_def live Let_def)
    then show ?thesis using w [OF rl] w [OF fin [OF rl]] IPA_RM_RELEASE_IN_PROGRESS by (elim disjE) simp_all
  next
    case IPA_RM_REQUEST_IN_PROGRESS
    let ?st1 = "upd_res p (\<lambda>r. if pending_request r > 0 then r\<lparr>pending_request := pending_request r - 1\<rparr> else r) st"
    have "snd (snd out) = ?st1 \<or> snd (snd out) = ipa_rm_perf_profile_change (rs_name (res ?st1 p)) (set_state p IPA_RM_GRANTED ?st1)"
      using IPA_RM_REQUEST_IN_PROGRESS by (simp add: out_def delete_dependency_state_def live Let_def)
    then show ?thesis
      using w [OF rq] w [OF fin [OF rq], of IPA_RM_GRANTED] IPA_RM_REQUEST_IN_PROGRESS by (elim disjE) (simp_all add: act ar)
  qed
qed

definition unlinked :: "nat \<Rightarrow> nat \<Rightarrow> nat \<Rightarrow> nat \<Rightarrow> ipa_rm_context_type \<Rightarrow> ipa_rm_context_type" where
  "unlinked p n q m st = remove_peer_from q n (remove_peer_from p m st)"

lemma remove_peer_res: "max_bw (res (remove_peer_from p n st) z) = max_bw (res st z)" "rs_name (res (remove_peer_from p n st) z) = rs_name (res st z)"
  by (cases "rm_heap st p"; simp add: remove_peer_from_def upd_res_def flag_ub_def res_def split: prod.split)+

lemma delete_dependency_split:
  assumes wf: "rm_wf st" and p: "rm_heap st p = Some rp" "is_prod rp" and q: "rm_heap st q = Some rq" "\<not> is_prod rq"
    and e: "peer (peers_list rp) (rs_name rq) = Some (q, u)"
  obtains s a b st3 where
    "only p (rp\<lparr>needed_bw := needed_bw rp - max_bw rq, rs_state := s, pending_request := a, pending_release := b\<rparr>) st st3"
    "rs_state rp \<noteq> IPA_RM_RELEASE_IN_PROGRESS \<longrightarrow> s \<noteq> IPA_RM_RELEASE_IN_PROGRESS \<and> (active (rp\<lparr>rs_state := s\<rparr>) = active rp)"
    "rs_state rp = IPA_RM_RELEASED \<longrightarrow> s = IPA_RM_RELEASED \<and> a = pending_request rp \<and> b = pending_release rp"
    "ipa_rm_resource_delete_dependency (Some p) (Some q) u st =
      (0, if active rp then snd (ipa_rm_resource_consumer_release q (max_bw rp) True (unlinked p (rs_name rp) q (rs_name rq) st3))
          else unlinked p (rs_name rp) q (rs_name rq) st3)"
proof -
  let ?rp1 = "rp\<lparr>needed_bw := needed_bw rp - max_bw rq\<rparr>"
  let ?st1 = "upd_res p (\<lambda>r. r\<lparr>needed_bw := needed_bw r - max_bw rq\<rparr>) st"
  have o1: "only p ?rp1 st ?st1" by (rule only_upd [OF only_refl [OF p(1)]])
  have p1: "rm_heap ?st1 p = Some ?rp1" "is_prod ?rp1" using o1 p(2) by (simp_all add: only_def is_prod_def)
  have tl1: "table_live ?st1" using wf o1 frame_table_live by (auto simp: only_def)
  obtain s a b where o2: "only p (?rp1\<lparr>rs_state := s, pending_request := a, pending_release := b\<rparr>) ?st1 (snd (snd (delete_dependency_state p q ?st1)))"
    and s: "rs_state rp \<noteq> IPA_RM_RELEASE_IN_PROGRESS \<longrightarrow> s \<noteq> IPA_RM_RELEASE_IN_PROGRESS \<and> (active (?rp1\<lparr>rs_state := s\<rparr>) = active ?rp1)"
    and same: "rs_state rp = IPA_RM_RELEASED \<longrightarrow> s = IPA_RM_RELEASED \<and> a = pending_request rp \<and> b = pending_release rp"
    using delete_state_only(1) [OF p1 tl1, of q] by auto
  have rel: "fst (snd (delete_dependency_state p q ?st1)) = active rp"
    using delete_state_only(2) [OF p1 tl1, of q] by (simp add: active_def)
  let ?st2 = "snd (snd (delete_dependency_state p q ?st1))"
  let ?evt = "fst (delete_dependency_state p q ?st1)"
  let ?rp3 = "rp\<lparr>needed_bw := needed_bw rp - max_bw rq, rs_state := s, pending_request := a, pending_release := b\<rparr>"
  let ?st3 = "case ?evt of None \<Rightarrow> ?st2 | Some ev \<Rightarrow> snd (ipa_rm_wq_send_cmd IPA_RM_WQ_NOTIFY_PROD (rs_name (res ?st2 p)) ev False ?st2)"
  have o2': "only p ?rp3 st ?st2" using o1 o2 by (auto simp: only_def dest: frame_trans)
  have o3: "only p ?rp3 st ?st3"
    using o2' only_queue [OF o2'] by (simp add: ipa_rm_wq_send_cmd_def split: option.split)
  have pq: "p \<noteq> q" using p q by auto
  have q3: "rm_heap ?st3 q = Some rq" and p3: "rm_heap ?st3 p = Some ?rp3" using o3 pq q(1) by (simp_all add: only_def)
  let ?st4 = "remove_peer_from p (rs_name rq) ?st3"
  have n4: "rs_name (res ?st4 p) = rs_name rp" by (simp add: remove_peer_res live_simps(1) [OF p3])
  have m5: "max_bw (res (unlinked p (rs_name rp) q (rs_name rq) ?st3) p) = max_bw rp"
    by (simp add: unlinked_def remove_peer_res live_simps(1) [OF p3])
  have chk: "ipa_rm_peers_list_check_dependency (peers_list rp) (rs_name rp) (peers_list rq) (rs_name rq) = (True, Some u, False)"
    using check_dependency_wf [OF wf p(1) q(1)] e by simp
  have "ipa_rm_resource_delete_dependency (Some p) (Some q) u st =
      (0, if active rp then snd (ipa_rm_resource_consumer_release q (max_bw rp) True (unlinked p (rs_name rp) q (rs_name rq) ?st3))
          else unlinked p (rs_name rp) q (rs_name rq) ?st3)"
    unfolding ipa_rm_resource_delete_dependency_def prod.case option.case live_simps(1) [OF p(1)] live_simps(1) [OF q(1)]
      live_simps(3) [OF p(1)] live_simps(3) [OF q(1)] chk flag_ub_False Let_def
    by (simp add: split_beta rel live_simps(1) [OF q3] n4 unlinked_def [symmetric] m5)
  then show thesis using o3 s same by (intro that [where ?st3.0 = ?st3]) (auto simp: active_def)
qed

text \<open>The state after the edge is gone: structure and bandwidth of the producers.\<close>

lemma bw_but_only:
  assumes "only p r' st st'" "rm_heap st p = Some r" "max_bw r' = max_bw r" "bw_but p st"
  shows "bw_but p st'"
  using assms only_max_bw [OF assms(1-3)] by (auto simp: bw_but_def only_def)

lemma delete_core:
  fixes s a b
  assumes wf: "rm_wf st" and p: "rm_heap st p = Some rp" "is_prod rp" and q: "rm_heap st q = Some rq" "\<not> is_prod rq"
    and e: "peer (peers_list rp) (rs_name rq) = Some (q, u)"
    and o: "only p (rp\<lparr>needed_bw := needed_bw rp - max_bw rq, rs_state := s, pending_request := a, pending_release := b\<rparr>) st st3"
  defines "st5 \<equiv> unlinked p (rs_name rp) q (rs_name rq) st3"
  obtains lp lq where
    "rm_heap st5 p = Some (rp\<lparr>needed_bw := needed_bw rp - max_bw rq, rs_state := s, pending_request := a, pending_release := b, peers_list := Some lp\<rparr>)"
    "rm_heap st5 q = Some (rq\<lparr>peers_list := Some lq\<rparr>)"
    "peer (Some lp) = (peer (peers_list rp))(rs_name rq := None)"
    "peer (Some lq) = (peer (peers_list rq))(rs_name rp := None)"
    "safe_step st st5" "others_stay p st st5"
    "(\<forall>k c A. exact_but q k c A st \<longrightarrow> \<not> A p (rs_name rq) \<longrightarrow> exact_but q k c A st5)"
    "\<forall>z. z \<noteq> p \<longrightarrow> z \<noteq> q \<longrightarrow> rm_heap st5 z = rm_heap st z"
proof -
  let ?rp3 = "rp\<lparr>needed_bw := needed_bw rp - max_bw rq, rs_state := s, pending_request := a, pending_release := b\<rparr>"
  have pq: "p \<noteq> q" using p q by auto
  have p3: "rm_heap st3 p = Some ?rp3" "is_prod ?rp3" using o p(2) by (simp_all add: only_def is_prod_def)
  have q3: "rm_heap st3 q = Some rq" using o q(1) pq by (simp add: only_def)
  have e': "peer (peers_list rq) (rs_name rp) = Some (p, u)" by (rule peer_resource_unique(2) [OF wf p(1) q(1) e])
  have shp: "keeps shape st st3" by (rule only_keeps [OF o p(1)]) (simp add: shape_def is_prod_def)
  have wf3: "rm_wf st3" by (rule keeps_shape_wf [OF shp wf])
  have nq: "rs_name rq < 22" using wf_res [OF wf q(1)] by (simp add: res_ok_def)
  obtain lp lq where l: "rm_heap st5 = (rm_heap st3)(p \<mapsto> ?rp3\<lparr>peers_list := Some lp\<rparr>, q \<mapsto> rq\<lparr>peers_list := Some lq\<rparr>)"
    "peer (Some lp) = (peer (peers_list ?rp3))(rs_name rq := None)"
    "peer (Some lq) = (peer (peers_list rq))(rs_name ?rp3 := None)" "frame st3 st5" "rm_wf st5"
    unfolding st5_def unlinked_def by (rule unlink_ok [OF wf3 p3 q3 q(2)]) (use e e' in auto)
  let ?rp5 = "?rp3\<lparr>peers_list := Some lp\<rparr>" and ?rq5 = "rq\<lparr>peers_list := Some lq\<rparr>"
  have heap5: "rm_heap st5 = (rm_heap st)(p \<mapsto> ?rp5, q \<mapsto> ?rq5)" using l(1) o pq by (auto simp: only_def)
  have bw: "bw_ok st5" if "bw_ok st"
  proof (rule edge_bw [OF p3(1) q3 q(2) l(1) pq])
    have "needed_bw rp = load (\<lambda>z. max_bw (res st z)) (\<lambda>_. True) (peer (peers_list rp))"
      using that p by (simp add: bw_ok_def)
    then show "needed_bw ?rp5 = load (\<lambda>z. max_bw (res st3 z)) (\<lambda>_. True) (peer (peers_list ?rp5))"
      using l(2) e by (simp add: load_upd [OF nq] only_max_bw [OF o p(1)] live_simps(1) [OF q(1)])
    show "bw_but p st3" by (rule bw_but_only [OF o p(1) _ bw_ok_but [OF that]]) simp
  qed (use q(2) in \<open>simp_all add: is_prod_def\<close>)
  have fr: "frame st st5" using o l(4) by (auto simp: only_def dest: frame_trans)
  have stay3: "others_stay p st st3" by (rule others_stay_only [OF o])
  have ex5: "exact_but q k c A st5" if ex: "exact_but q k c A st" and A: "\<not> A p (rs_name rq)" for k c A
  proof -
    have "core_cons ?rp3 = core_cons rp" using p(2) by (simp add: core_cons_def shape_def is_prod_def)
    then have "exact_but q k c A st3" by (rule keeps_exact_but [OF only_keeps [OF o p(1)] ex])
    from edge_exact [OF wf3 p3 q3 q(2) l(1) _ _ _ _ _ _ _ _ this A, where w = None]
    show ?thesis using p(2) l(3) by (simp add: is_prod_def active_def)
  qed
  show thesis
  proof (rule that [of lp lq])
    show "rm_heap st5 p = Some ?rp5" using heap5 pq by simp
    show "rm_heap st5 q = Some ?rq5" using heap5 by simp
    show "safe_step st st5" using fr l(5) bw by (simp add: safe_step_def)
    show "others_stay p st st5" using q(2) by (auto simp: others_stay_def heap5 is_prod_def)
    show "\<forall>k c A. exact_but q k c A st \<longrightarrow> \<not> A p (rs_name rq) \<longrightarrow> exact_but q k c A st5" using ex5 by blast
    show "\<forall>z. z \<noteq> p \<longrightarrow> z \<noteq> q \<longrightarrow> rm_heap st5 z = rm_heap st z" by (simp add: heap5)
  qed (use l(2,3) in simp_all)
qed

lemma delete_dependency_other:
  assumes wf: "rm_wf st" and p: "rm_heap st p = Some rp" and q: "rm_heap st q = Some rq"
  shows "peer (peers_list rp) (rs_name rq) = None \<Longrightarrow> ipa_rm_resource_delete_dependency (Some p) (Some q) u st = (- EINVAL, st)"
    and "peer (peers_list rp) (rs_name rq) = Some (q, v) \<Longrightarrow> v \<noteq> u \<Longrightarrow>
      ipa_rm_resource_delete_dependency (Some p) (Some q) u st = (0, st)"
  unfolding ipa_rm_resource_delete_dependency_def prod.case option.case live_simps(1) [OF p(1)] live_simps(1) [OF q(1)]
      live_simps(3) [OF p(1)] live_simps(3) [OF q(1)] check_dependency_wf [OF wf p(1) q(1)]
  by auto

lemma delete_dependency_noop:
  assumes wf: "rm_wf st" and p: "rm_heap st p = Some rp" and q: "rm_heap st q = Some rq"
    and e: "peer (peers_list rp) (rs_name rq) \<noteq> Some (q, u)"
  shows "snd (ipa_rm_resource_delete_dependency (Some p) (Some q) u st) = st"
proof (cases "peer (peers_list rp) (rs_name rq)")
  case None
  then show ?thesis using delete_dependency_other(1) [OF wf p q] by simp
next
  case (Some zv)
  then obtain z v where z: "peer (peers_list rp) (rs_name rq) = Some (z, v)" by (cases zv) auto
  moreover have "z = q" by (rule peer_resource_unique(1) [OF wf p q z])
  ultimately show ?thesis using delete_dependency_other(2) [OF wf p q, of v u] e by simp
qed

lemma delete_dependency_safe:
  assumes wf: "rm_wf st" and p: "rm_heap st p = Some rp" "is_prod rp" and q: "rm_heap st q = Some rq" "\<not> is_prod rq"
  shows "safe_step st (snd (ipa_rm_resource_delete_dependency (Some p) (Some q) u st))"
proof (cases "peer (peers_list rp) (rs_name rq) = Some (q, u)")
  case False
  then show ?thesis using delete_dependency_noop [OF wf p(1) q(1)] safe_step_refl [OF wf] by simp
next
  case True
  obtain s a b st3 where o: "only p (rp\<lparr>needed_bw := needed_bw rp - max_bw rq, rs_state := s, pending_request := a, pending_release := b\<rparr>) st st3"
    and eq: "ipa_rm_resource_delete_dependency (Some p) (Some q) u st =
      (0, if active rp then snd (ipa_rm_resource_consumer_release q (max_bw rp) True (unlinked p (rs_name rp) q (rs_name rq) st3))
          else unlinked p (rs_name rp) q (rs_name rq) st3)"
    by (rule delete_dependency_split [OF wf p q True])
  let ?st5 = "unlinked p (rs_name rp) q (rs_name rq) st3"
  obtain lq where q5: "rm_heap ?st5 q = Some (rq\<lparr>peers_list := Some lq\<rparr>)" and s5: "safe_step st ?st5"
    by (rule delete_core [OF wf p q True o]) blast
  have wf5: "rm_wf ?st5" using s5 by (simp add: safe_step_def)
  have c5: "cons_at ?st5 q (rq\<lparr>peers_list := Some lq\<rparr>)" by (rule wf_cons [OF wf5 q5]) (use q in \<open>simp add: is_prod_def\<close>)
  have "safe_step st (snd (ipa_rm_resource_consumer_release q (max_bw rp) True ?st5))"
    by (rule safe_step_trans [OF s5 keeps_safe [OF wf5 keeps_prod_core [OF consumer_release_keeps [OF c5 wf_table_live [OF wf5]]]]])
  then show ?thesis using s5 eq by simp
qed

text \<open>The edge is gone on both sides and nothing else of the two lists changed.\<close>

lemma delete_dependency_peers:
  assumes wf: "rm_wf st" and p: "rm_heap st p = Some rp" "is_prod rp" and q: "rm_heap st q = Some rq" "\<not> is_prod rq"
    and e: "peer (peers_list rp) (rs_name rq) = Some (q, u)"
  obtains rp' rq' where
    "rm_heap (snd (ipa_rm_resource_delete_dependency (Some p) (Some q) u st)) p = Some rp'" "rs_name rp' = rs_name rp" "is_prod rp'"
    "peer (peers_list rp') = (peer (peers_list rp))(rs_name rq := None)"
    "rm_heap (snd (ipa_rm_resource_delete_dependency (Some p) (Some q) u st)) q = Some rq'" "rs_name rq' = rs_name rq" "\<not> is_prod rq'"
    "peer (peers_list rq') = (peer (peers_list rq))(rs_name rp := None)"
    "\<forall>z. z \<noteq> p \<longrightarrow> z \<noteq> q \<longrightarrow>
       map_option core (rm_heap (snd (ipa_rm_resource_delete_dependency (Some p) (Some q) u st)) z) = map_option core (rm_heap st z)"
proof -
  obtain s a b st3 where o: "only p (rp\<lparr>needed_bw := needed_bw rp - max_bw rq, rs_state := s, pending_request := a, pending_release := b\<rparr>) st st3"
    and eq: "ipa_rm_resource_delete_dependency (Some p) (Some q) u st =
      (0, if active rp then snd (ipa_rm_resource_consumer_release q (max_bw rp) True (unlinked p (rs_name rp) q (rs_name rq) st3))
          else unlinked p (rs_name rp) q (rs_name rq) st3)"
    by (rule delete_dependency_split [OF wf p q e])
  let ?st5 = "unlinked p (rs_name rp) q (rs_name rq) st3"
  let ?st' = "snd (ipa_rm_resource_delete_dependency (Some p) (Some q) u st)"
  obtain lp lq where p5: "rm_heap ?st5 p = Some (rp\<lparr>needed_bw := needed_bw rp - max_bw rq, rs_state := s, pending_request := a, pending_release := b, peers_list := Some lp\<rparr>)"
    and q5: "rm_heap ?st5 q = Some (rq\<lparr>peers_list := Some lq\<rparr>)" and l: "peer (Some lp) = (peer (peers_list rp))(rs_name rq := None)"
    "peer (Some lq) = (peer (peers_list rq))(rs_name rp := None)" and s5: "safe_step st ?st5"
    and far: "\<forall>z. z \<noteq> p \<longrightarrow> z \<noteq> q \<longrightarrow> rm_heap ?st5 z = rm_heap st z"
    by (rule delete_core [OF wf p q e o]) blast
  have wf5: "rm_wf ?st5" using s5 by (simp add: safe_step_def)
  have c5: "cons_at ?st5 q (rq\<lparr>peers_list := Some lq\<rparr>)" by (rule wf_cons [OF wf5 q5]) (use q in \<open>simp add: is_prod_def\<close>)
  have k: "keeps core_prod ?st5 ?st'" unfolding eq using consumer_release_keeps [OF c5 wf_table_live [OF wf5]] by simp
  obtain rp' where "rm_heap ?st' p = Some rp'" "rs_name rp' = rs_name rp" "is_prod rp' = is_prod rp" "peers_list rp' = Some lp"
    by (rule keeps_core_res [OF k p5]) (use p(2) in \<open>simp add: is_prod_def\<close>)
  moreover obtain rq' where "rm_heap ?st' q = Some rq'" "rs_name rq' = rs_name rq" "is_prod rq' = is_prod rq" "peers_list rq' = Some lq"
    by (rule keeps_core_res [OF k q5]) (simp add: is_prod_def)
  moreover have "\<forall>z. z \<noteq> p \<longrightarrow> z \<noteq> q \<longrightarrow> map_option core (rm_heap ?st' z) = map_option core (rm_heap st z)"
    using keeps_prod_core [OF k] far by (simp add: keeps_def)
  ultimately show thesis using p(2) q(2) l by (intro that) auto
qed

lemma delete_dependency_exact:
  assumes wf: "rm_wf st" and p: "rm_heap st p = Some rp" "is_prod rp" and q: "rm_heap st q = Some rq" "\<not> is_prod rq"
    and ex: "rm_exact st"
  shows "rm_exact (snd (ipa_rm_resource_delete_dependency (Some p) (Some q) u st))"
proof (cases "peer (peers_list rp) (rs_name rq) = Some (q, u)")
  case False
  then show ?thesis using delete_dependency_noop [OF wf p(1) q(1)] ex by simp
next
  case True
  obtain s a b st3 where o: "only p (rp\<lparr>needed_bw := needed_bw rp - max_bw rq, rs_state := s, pending_request := a, pending_release := b\<rparr>) st st3"
    and s: "rs_state rp \<noteq> IPA_RM_RELEASE_IN_PROGRESS \<longrightarrow> s \<noteq> IPA_RM_RELEASE_IN_PROGRESS \<and> (active (rp\<lparr>rs_state := s\<rparr>) = active rp)"
    and eq: "ipa_rm_resource_delete_dependency (Some p) (Some q) u st =
      (0, if active rp then snd (ipa_rm_resource_consumer_release q (max_bw rp) True (unlinked p (rs_name rp) q (rs_name rq) st3))
          else unlinked p (rs_name rp) q (rs_name rq) st3)"
    by (rule delete_dependency_split [OF wf p q True])
  let ?st5 = "unlinked p (rs_name rp) q (rs_name rq) st3"
  obtain lp lq where p5: "rm_heap ?st5 p = Some (rp\<lparr>needed_bw := needed_bw rp - max_bw rq, rs_state := s, pending_request := a, pending_release := b, peers_list := Some lp\<rparr>)"
    and q5: "rm_heap ?st5 q = Some (rq\<lparr>peers_list := Some lq\<rparr>)"
    and lp: "peer (Some lp) = (peer (peers_list rp))(rs_name rq := None)" and s5: "safe_step st ?st5" and stay5: "others_stay p st ?st5"
    and ex5: "\<forall>k c A. exact_but q k c A st \<longrightarrow> \<not> A p (rs_name rq) \<longrightarrow> exact_but q k c A ?st5"
    by (rule delete_core [OF wf p q True o]) blast
  have wf5: "rm_wf ?st5" using s5 by (simp add: safe_step_def)
  have not_rip: "rs_state rp \<noteq> IPA_RM_RELEASE_IN_PROGRESS" and exA: "exact (act st) st" using ex p by (auto simp: rm_exact_def)
  have on: "act st p m = active rp" for m using p(1) by (simp add: act_def res_def)
  have s': "active (rp\<lparr>rs_state := s\<rparr>) = active rp" "s \<noteq> IPA_RM_RELEASE_IN_PROGRESS" using s not_rip by simp_all
  show ?thesis
  proof (cases "active rp")
    case False
    have "exact (act st) ?st5" using ex5 exA on False exact_but_0 by metis
    then have "rm_exact ?st5"
      by (rule rm_exact_one [OF wf5 _ _ stay5 _ ex, where b = False]) (use on False p5 s' in \<open>auto simp: active_def\<close>)
    then show ?thesis using eq False by simp
  next
    case True
    let ?A = "\<lambda>z n. act st z n \<and> \<not> (z = p \<and> n = rs_name rq)"
    let ?rel = "ipa_rm_resource_consumer_release q (max_bw rp) True ?st5"
    have "exact_but q 1 (max_bw rp) ?A st"
      by (rule set_apart [OF wf p q \<open>peer (peers_list rp) (rs_name rq) = Some (q, u)\<close> exA]) (simp add: on True)
    then have ex5': "exact_but q 1 (max_bw rp) ?A ?st5" using ex5 by simp
    have q5': "\<not> is_prod (rq\<lparr>peers_list := Some lq\<rparr>)" using q(2) by (simp add: is_prod_def)
    have c5: "cons_at ?st5 q (rq\<lparr>peers_list := Some lq\<rparr>)" by (rule wf_cons [OF wf5 q5 q5'])
    obtain r' where r': "only q r' ?st5 (snd ?rel)" "release_effect (max_bw rp) True (rq\<lparr>peers_list := Some lq\<rparr>) (fst ?rel) r'"
      using consumer_release_only [OF c5 wf_table_live [OF wf5]] by blast
    have ex6: "exact ?A (snd ?rel)" by (rule release_apart [OF q5 q5' r' ex5'])
    have k6: "keeps core_prod ?st5 (snd ?rel)" by (rule consumer_release_keeps [OF c5 wf_table_live [OF wf5]])
    have wf6: "rm_wf (snd ?rel)" by (rule keeps_wf [OF keeps_prod_core [OF k6] wf5])
    have p5': "is_prod (rp\<lparr>needed_bw := needed_bw rp - max_bw rq, rs_state := s, pending_request := a, pending_release := b, peers_list := Some lp\<rparr>)"
      using p(2) by (simp add: is_prod_def)
    obtain r6 where r6: "rm_heap (snd ?rel) p = Some r6" "rs_state r6 = s" "peers_list r6 = Some lp"
      by (rule keeps_core_res [OF k6 p5]) (use p5' in auto)
    have ex6': "exact (\<lambda>z m. if z = p then True else act st z m) (snd ?rel)"
    proof (rule exact_cong [OF wf6 _ ex6])
      fix z r n assume "rm_heap (snd ?rel) z = Some r" "peer (peers_list r) n \<noteq> None"
      then have "z = p \<Longrightarrow> n \<noteq> rs_name rq" using r6 lp by auto
      then show "?A z n = (if z = p then True else act st z n)" using on True by auto
    qed
    have "rm_exact (snd ?rel)"
      by (rule rm_exact_one [OF wf6 ex6' _ others_stay_trans [OF stay5 others_stay_keeps [OF k6]] _ ex, where b = True])
        (use r6 s' True in \<open>auto simp: active_def\<close>)
    then show ?thesis using eq True by simp
  qed
qed

end
