(* ===== verification/Rm_Profile.thy ===== *)
theory Rm_Profile
  imports Rm_Edges
begin

text \<open>
  A new performance profile: the bandwidth of one resource changes, and the needs of all its peers
  are corrected by the difference, so the accounts stay right.
\<close>

section \<open>The loop over the peers\<close>

lemma set_perf_loop_heap:
  assumes "rm_wf st" "rm_heap st p = Some rp" "i + n \<le> 22"
  shows "rm_heap (set_perf_loop n i p bw st) z =
    map_option (\<lambda>r. if i \<le> rs_name r \<and> rs_name r < i + n \<and> peer (peers_list rp) (rs_name r) \<noteq> None
                    then r\<lparr>needed_bw := needed_bw r - max_bw rp + bw\<rparr> else r) (rm_heap st z)"
  using assms
proof (induction n arbitrary: i st rp)
  case 0
  then show ?case by (cases "rm_heap st z") auto
next
  case (Suc n)
  note loop = loop_peer_ok [OF Suc.prems(1,2), of i]
  show ?case
  proof (cases "peer (peers_list rp) i")
    case None
    have "rm_heap (set_perf_loop n (Suc i) p bw st) z = map_option (\<lambda>r. if Suc i \<le> rs_name r \<and> rs_name r < Suc i + n \<and>
        peer (peers_list rp) (rs_name r) \<noteq> None then r\<lparr>needed_bw := needed_bw r - max_bw rp + bw\<rparr> else r) (rm_heap st z)"
      using Suc.prems by (intro Suc.IH) auto
    also have "\<dots> = map_option (\<lambda>r. if i \<le> rs_name r \<and> rs_name r < i + Suc n \<and> peer (peers_list rp) (rs_name r) \<noteq> None
        then r\<lparr>needed_bw := needed_bw r - max_bw rp + bw\<rparr> else r) (rm_heap st z)"
      using None by (intro option.map_cong) (auto simp: Suc_le_eq order.order_iff_strict)
    finally show ?thesis using loop None Suc.prems(3) by simp
  next
    case (Some qu)
    then obtain q u where q: "peer (peers_list rp) i = Some (q, u)" by (cases qu) auto
    obtain rq where rq: "rm_heap st q = Some rq" "rs_name rq = i" "is_prod rq = (\<not> is_prod rp)"
      using wf_peer [OF Suc.prems(1,2) q] by auto
    have pq: "p \<noteq> q" using rq Suc.prems(2) by auto
    let ?rq' = "rq\<lparr>needed_bw := needed_bw rq - max_bw rp + bw\<rparr>"
    let ?st2 = "upd_res q (\<lambda>r. r\<lparr>needed_bw := needed_bw r - max_bw rp + bw\<rparr>) st"
    let ?st3 = "if rs_state (res ?st2 q) = IPA_RM_GRANTED then ipa_rm_perf_profile_change (rs_name (res ?st2 q)) ?st2 else ?st2"
    have o2: "only q ?rq' st ?st2" by (rule only_upd [OF only_refl [OF rq(1)]])
    have o3: "only q ?rq' st ?st3" using o2 only_perf [OF o2 wf_table_live [OF Suc.prems(1)]] by simp
    have shp: "keeps shape st ?st3" by (rule only_keeps [OF o3 rq(1)]) (simp add: shape_def is_prod_def)
    have wf3: "rm_wf ?st3" by (rule keeps_shape_wf [OF shp Suc.prems(1)])
    have p3: "rm_heap ?st3 p = Some rp" using o3 Suc.prems(2) pq by (simp add: only_def)
    have IH: "rm_heap (set_perf_loop n (Suc i) p bw ?st3) z = map_option (\<lambda>r. if Suc i \<le> rs_name r \<and> rs_name r < Suc i + n \<and>
        peer (peers_list rp) (rs_name r) \<noteq> None then r\<lparr>needed_bw := needed_bw r - max_bw rp + bw\<rparr> else r) (rm_heap ?st3 z)"
      using Suc.prems(3) by (intro Suc.IH [OF wf3 p3]) simp
    have step: "set_perf_loop (Suc n) i p bw st = set_perf_loop n (Suc i) p bw ?st3"
      using loop q Suc.prems(3) by (simp add: Let_def set_perf_peer_def live_simps(1) [OF Suc.prems(2)])
    show ?thesis
    proof (cases "z = q")
      case True
      then show ?thesis unfolding step IH using o3 rq q by (simp add: only_def)
    next
      case False
      have "rs_name r \<noteq> i" if "rm_heap st z = Some r" for r using wf_unique [OF Suc.prems(1) that rq(1)] rq(2) False by auto
      then have "map_option (\<lambda>r. if Suc i \<le> rs_name r \<and> rs_name r < Suc i + n \<and>
          peer (peers_list rp) (rs_name r) \<noteq> None then r\<lparr>needed_bw := needed_bw r - max_bw rp + bw\<rparr> else r) (rm_heap st z) =
        map_option (\<lambda>r. if i \<le> rs_name r \<and> rs_name r < i + Suc n \<and> peer (peers_list rp) (rs_name r) \<noteq> None
                    then r\<lparr>needed_bw := needed_bw r - max_bw rp + bw\<rparr> else r) (rm_heap st z)"
        by (intro option.map_cong) (auto simp: Suc_le_eq order.order_iff_strict)
      then show ?thesis unfolding step IH using o3 False by (simp add: only_def)
    qed
  qed
qed

section \<open>Sums with one bandwidth changed\<close>

lemma load_bump:
  assumes n: "n < 22" and uniq: "\<And>m u. m < 22 \<Longrightarrow> f m = Some (p, u) \<Longrightarrow> m = n"
    and at: "\<And>z v. f n = Some (z, v) \<Longrightarrow> z = p"
  shows "load (w(p := x)) A f = load w A f + (if f n \<noteq> None \<and> A p then x - w p else 0)"
proof (cases "f n")
  case None
  then have "f m = Some (z, u) \<Longrightarrow> m < 22 \<Longrightarrow> z \<noteq> p" for m z u using uniq by fastforce
  then show ?thesis using None by (auto intro: load_cong)
next
  case (Some zu)
  then obtain u where u: "f n = Some (p, u)" using at by (cases zu) auto
  have "load (w(p := x)) A f = load (w(p := x)) A (f(n := None)) + (if A p then x else 0)"
    using load_upd [OF n, of "w(p := x)" A f None] u by simp
  moreover have "load w A f = load w A (f(n := None)) + (if A p then w p else 0)"
    using load_upd [OF n, of w A f None] u by simp
  moreover have "load (w(p := x)) A (f(n := None)) = load w A (f(n := None))"
    using uniq by (intro load_cong) (auto split: if_splits)
  ultimately show ?thesis using u by simp
qed

section \<open>The new profile\<close>

definition adjusts :: "ipa_rm_resource \<Rightarrow> bool" where
  "adjusts r \<longleftrightarrow> (is_prod r \<longrightarrow> active r)"

lemma not_own_peer: "rm_wf st \<Longrightarrow> rm_heap st p = Some r \<Longrightarrow> peer (peers_list r) (rs_name r) = None"
proof (rule ccontr)
  assume wf: "rm_wf st" and p: "rm_heap st p = Some r" and "peer (peers_list r) (rs_name r) \<noteq> None"
  then obtain q u where q: "peer (peers_list r) (rs_name r) = Some (q, u)" by auto
  obtain s where s: "rm_heap st q = Some s" "rs_name s = rs_name r" "is_prod s = (\<not> is_prod r)"
    using wf_peer [OF wf p q] by auto
  then have "q = p" by (intro wf_unique [OF wf s(1) p]) simp
  then show False using s p by simp
qed

lemma set_perf_profile_heap:
  assumes wf: "rm_wf st" and p: "rm_heap st p = Some rp" and bw: "bw \<noteq> max_bw rp"
  shows "rm_heap (snd (ipa_rm_resource_set_perf_profile (Some p) (Some bw) st)) z =
    map_option (\<lambda>r. if z = p then r\<lparr>max_bw := bw\<rparr>
      else if adjusts rp \<and> peer (peers_list rp) (rs_name r) \<noteq> None then r\<lparr>needed_bw := needed_bw r - max_bw rp + bw\<rparr> else r) (rm_heap st z)"
proof -
  let ?st1 = "if adjusts rp then set_perf_loop 22 0 p bw st else st"
  let ?st2 = "upd_res p (\<lambda>r. r\<lparr>max_bw := bw\<rparr>) ?st1"
  have guard: "((rs_type rp = IPA_RM_PRODUCER \<and> (rs_state rp = IPA_RM_GRANTED \<or> rs_state rp = IPA_RM_REQUEST_IN_PROGRESS)) \<or>
      rs_type rp = IPA_RM_CONSUMER) = adjusts rp"
    by (cases "rs_type rp") (auto simp: adjusts_def active_def is_prod_def)
  have names: "rs_name r < 22" if "rm_heap st x = Some r" for x r using wf_res [OF wf that] by (simp add: res_ok_def)
  have loop: "rm_heap (set_perf_loop 22 0 p bw st) x =
    map_option (\<lambda>r. if peer (peers_list rp) (rs_name r) \<noteq> None then r\<lparr>needed_bw := needed_bw r - max_bw rp + bw\<rparr> else r) (rm_heap st x)" for x
    unfolding set_perf_loop_heap [OF wf p, of 0 22 bw x, simplified] using names [of x]
    by (cases "rm_heap st x") auto
  have p1: "rm_heap ?st1 p = Some rp" using loop [of p] p not_own_peer [OF wf p] by simp
  have "rm_heap ?st2 z = map_option (\<lambda>r. if z = p then r\<lparr>max_bw := bw\<rparr>
      else if adjusts rp \<and> peer (peers_list rp) (rs_name r) \<noteq> None then r\<lparr>needed_bw := needed_bw r - max_bw rp + bw\<rparr> else r) (rm_heap st z)"
    using loop [of z] p p1 by (simp add: live_simps(2) [OF p1]) (cases "rm_heap st z"; simp)
  moreover have "snd (ipa_rm_resource_set_perf_profile (Some p) (Some bw) st) =
      (if rs_state (res ?st2 p) = IPA_RM_GRANTED then ipa_rm_perf_profile_change (rs_name (res ?st2 p)) ?st2 else ?st2)"
    unfolding ipa_rm_resource_set_perf_profile_def prod.case option.case live_simps(1) [OF p] live_simps(3) [OF p]
      Let_def loop_size_ok [OF wf p] guard using bw by simp
  ultimately show ?thesis by simp
qed

lemma set_perf_profile_same:
  "rm_heap st p = Some rp \<Longrightarrow> ipa_rm_resource_set_perf_profile (Some p) (Some (max_bw rp)) st = (0, st)"
  unfolding ipa_rm_resource_set_perf_profile_def prod.case option.case by (simp add: live_simps)

text \<open>The weight of the changed resource moves the sum of exactly its peers.\<close>

lemma peer_of_both:
  assumes "rm_wf st" "rm_heap st p = Some rp" "rm_heap st z = Some r"
  shows "(peer (peers_list rp) (rs_name r) \<noteq> None) = (peer (peers_list r) (rs_name rp) \<noteq> None)"
  using no_edge_sym [OF assms] no_edge_sym [OF assms(1,3,2)] by metis

lemma load_bump_peer:
  assumes wf: "rm_wf st" and p: "rm_heap st p = Some rp" and z: "rm_heap st z = Some r"
  shows "load (w(p := x)) A (peer (peers_list r)) =
    load w A (peer (peers_list r)) + (if peer (peers_list rp) (rs_name r) \<noteq> None \<and> A p then x - w p else 0)"
proof -
  have n: "rs_name rp < 22" using wf_res [OF wf p] by (simp add: res_ok_def)
  have u: "peer (peers_list r) m = Some (p, v) \<Longrightarrow> m = rs_name rp" for m v using wf_peer [OF wf z] p by fastforce
  have at: "peer (peers_list r) (rs_name rp) = Some (y, v) \<Longrightarrow> y = p" for y v using peer_resource_unique(1) [OF wf z p] by auto
  show ?thesis unfolding peer_of_both [OF wf p z] by (rule load_bump [OF n]) (use u at in blast)+
qed

lemma set_perf_profile_accounts:
  fixes bw
  assumes wf: "rm_wf st" and p: "rm_heap st p = Some rp"
  defines "st' \<equiv> snd (ipa_rm_resource_set_perf_profile (Some p) (Some bw) st)"
  shows "rm_wf st'" and "frame st st'" and "bw_ok st \<Longrightarrow> bw_ok st'" and "rm_exact st \<Longrightarrow> rm_exact st'"
proof -
  have k: "keeps shape st st'" unfolding st'_def by (rule set_perf_profile_keeps [OF wf p])
  show "rm_wf st'" by (rule keeps_shape_wf [OF k wf])
  show "frame st st'" by (rule keeps_frame [OF k])
  have both: "(bw_ok st \<longrightarrow> bw_ok st') \<and> (rm_exact st \<longrightarrow> rm_exact st')"
  proof (cases "bw = max_bw rp")
    case True
    then show ?thesis using set_perf_profile_same [OF p] by (simp add: st'_def)
  next
    case False
    let ?f = "\<lambda>z r. if z = p then r\<lparr>max_bw := bw\<rparr>
      else if adjusts rp \<and> peer (peers_list rp) (rs_name r) \<noteq> None then r\<lparr>needed_bw := needed_bw r - max_bw rp + bw\<rparr> else r"
    have heap: "rm_heap st' z = map_option (?f z) (rm_heap st z)" for z
      unfolding st'_def by (rule set_perf_profile_heap [OF wf p False])
    have mx: "(\<lambda>z. max_bw (res st' z)) = (\<lambda>z. max_bw (res st z))(p := bw)"
      by (auto simp: fun_eq_iff res_def heap p split: option.split)
    have at: "rm_heap st' z = Some r' \<Longrightarrow> \<exists>r. rm_heap st z = Some r \<and> r' = ?f z r" for z r' using heap by auto
    have act: "act st' = act st"
      by (auto simp: fun_eq_iff act_def res_def heap active_def split: option.split)
    have f: "is_prod (?f z r) = is_prod r" "peers_list (?f z r) = peers_list r" "rs_name (?f z r) = rs_name r"
      "usage_count (?f z r) = usage_count r" "active (?f z r) = active r" "rs_state (?f z r) = rs_state r" for z r
      by (simp_all add: is_prod_def active_def)
    have needed: "needed_bw (?f z r) = needed_bw r + (if peer (peers_list rp) (rs_name r) \<noteq> None \<and> adjusts rp then bw - max_bw rp else 0)"
      if "rm_heap st z = Some r" for z r
      using not_own_peer [OF wf p] that p by auto
    note bump = load_bump_peer [OF wf p, where w = "\<lambda>z. max_bw (res st z)" and x = bw, unfolded live_simps(1) [OF p]]
    have opp: "is_prod rp = (\<not> is_prod r)" if r: "rm_heap st z = Some r" and e: "peer (peers_list rp) (rs_name r) \<noteq> None" for z r
    proof -
      obtain q u where q: "peer (peers_list rp) (rs_name r) = Some (q, u)" using e by auto
      then have "q = z" by (rule peer_resource_unique(1) [OF wf p r])
      then show ?thesis using wf_peer [OF wf p q] r by auto
    qed
    have "bw_ok st'" if b: "bw_ok st"
    proof -
      have "needed_bw r' = load (\<lambda>z. max_bw (res st' z)) (\<lambda>_. True) (peer (peers_list r'))" if r': "rm_heap st' z = Some r'" "is_prod r'" for z r'
      proof -
        obtain r where r: "rm_heap st z = Some r" "r' = ?f z r" using at [OF r'(1)] by auto
        have "peer (peers_list rp) (rs_name r) \<noteq> None \<Longrightarrow> adjusts rp" using opp [OF r(1)] r'(2) r(2) f(1) by (simp add: adjusts_def)
        then show ?thesis using b r r'(2) unfolding r(2) f needed [OF r(1)] mx bump [OF r(1)] by (auto simp: bw_ok_def)
      qed
      then show ?thesis by (simp add: bw_ok_def)
    qed
    moreover have "rm_exact st'" if ex: "rm_exact st"
    proof -
      have "cons_exact (act st) st' r'" if r': "rm_heap st' c = Some r'" "\<not> is_prod r'" for c r'
      proof -
        obtain r where r: "rm_heap st c = Some r" "r' = ?f c r" using at [OF r'(1)] by auto
        have ce: "cons_exact (act st) st r" using ex r r'(2) f(1) by (simp add: rm_exact_def exact_def)
        have "(peer (peers_list rp) (rs_name r) \<noteq> None \<and> adjusts rp) = (peer (peers_list rp) (rs_name r) \<noteq> None \<and> act st p (rs_name r))"
          using opp [OF r(1)] r'(2) r(2) f(1) by (auto simp: adjusts_def act_def live_simps(1) [OF p])
        then show ?thesis
          using ce unfolding cons_exact_def r(2) f needed [OF r(1)] mx bump [OF r(1)] by simp
      qed
      moreover have "rs_state r' \<noteq> IPA_RM_RELEASE_IN_PROGRESS" if "rm_heap st' z = Some r'" "is_prod r'" for z r'
        using at [OF that(1)] that(2) ex f(1,6) by (auto simp: rm_exact_def)
      ultimately show ?thesis by (simp add: rm_exact_def exact_def act)
    qed
    ultimately show ?thesis by blast
  qed
  then show "bw_ok st \<Longrightarrow> bw_ok st'" "rm_exact st \<Longrightarrow> rm_exact st'" by blast+
qed

end
