(* ===== verification/Rm_Works.thy ===== *)
theory Rm_Works
  imports Rm_Profile
begin

text \<open>
  The works of the queue and the timers of delayed releases: they keep the structure and the
  bandwidth of the producers, and with good drivers the accounts.
\<close>

section \<open>Releases of producers are never in progress\<close>

definition no_rip :: "ipa_rm_context_type \<Rightarrow> bool" where
  "no_rip st \<longleftrightarrow> (\<forall>p r. rm_heap st p = Some r \<longrightarrow> is_prod r \<longrightarrow> rs_state r \<noteq> IPA_RM_RELEASE_IN_PROGRESS)"

lemma no_rip_heap: "rm_heap a = rm_heap b \<Longrightarrow> no_rip a = no_rip b"
  by (simp add: no_rip_def)

lemma heap_calls [simp]:
  "rm_heap (as_res p st) = rm_heap st" "rm_heap (as_prod p st) = rm_heap st" "rm_heap (as_cons p st) = rm_heap st"
  "rm_heap (flag_ub b st) = rm_heap st" "rm_heap (use_ctx st) = rm_heap st"
  by (simp_all add: as_res_def as_prod_def as_cons_def use_ctx_def rm_frame)

lemma notify_heap [simp]: "rm_heap (ipa_rm_resource_producer_notify_clients p ev reg st) = rm_heap st"
proof -
  have "rm_heap (fold (\<lambda>info s. if reg \<and> \<not> explicit info then s else call_void (Call_Notify (notify_cb info) (user_data info) ev) s) xs s) =
      rm_heap s" for xs :: "ipa_rm_notification_info list" and s
    by (induction xs arbitrary: s) auto
  then show ?thesis by (simp add: ipa_rm_resource_producer_notify_clients_def)
qed

lemma no_rip_calls [simp]:
  "no_rip (as_res p st) = no_rip st" "no_rip (as_prod p st) = no_rip st" "no_rip (as_cons p st) = no_rip st"
  "no_rip (flag_ub b st) = no_rip st" "no_rip (use_ctx st) = no_rip st"
  "no_rip (ipa_rm_perf_profile_change n st) = no_rip st" "no_rip (call_void c st) = no_rip st"
  "no_rip (snd (call_driver c st)) = no_rip st" "no_rip (ipa_rm_resource_producer_notify_clients p ev reg st) = no_rip st"
  "no_rip (st\<lparr>ipa_rm_wq := ws\<rparr>) = no_rip st"
  by (intro no_rip_heap, simp)+

lemma no_rip_upd:
  "no_rip st \<Longrightarrow> (\<And>r. rm_heap st p = Some r \<Longrightarrow> (is_prod r \<longrightarrow> rs_state r \<noteq> IPA_RM_RELEASE_IN_PROGRESS) \<Longrightarrow>
     is_prod (f r) \<Longrightarrow> rs_state (f r) \<noteq> IPA_RM_RELEASE_IN_PROGRESS) \<Longrightarrow> no_rip (upd_res p f st)"
  by (auto simp: no_rip_def upd_res_def split: option.split)

lemma no_rip_state: "no_rip st \<Longrightarrow> s \<noteq> IPA_RM_RELEASE_IN_PROGRESS \<Longrightarrow> no_rip (set_state p s st)"
  unfolding set_state_def by (rule no_rip_upd) auto

lemma no_rip_upd_simps [simp]:
  "no_rip st \<Longrightarrow> no_rip (upd_res p (\<lambda>r. r\<lparr>pending_request := g r\<rparr>) st)"
  "no_rip st \<Longrightarrow> no_rip (upd_res p (\<lambda>r. r\<lparr>pending_release := g r\<rparr>) st)"
  "no_rip st \<Longrightarrow> no_rip (upd_res p (\<lambda>r. r\<lparr>request_completed := b\<rparr>) st)"
  by (rule no_rip_upd; simp add: is_prod_def)+

lemma no_rip_producer_cb: "no_rip st \<Longrightarrow> no_rip (ipa_rm_resource_producer_handle_cb p ev st)"
  by (auto simp: ipa_rm_resource_producer_handle_cb_def Let_def no_rip_state split: ipa_rm_resource_state.split)

lemma loop_peer_no_rip [simp]: "no_rip (snd (loop_peer p i st)) = no_rip st"
  by (auto simp: loop_peer_def split: option.split prod.split)

lemma no_rip_cb_loop: "no_rip st \<Longrightarrow> no_rip (handle_cb_loop n i c ev st)"
proof (induction n arbitrary: i st)
  case (Suc n)
  have "no_rip (snd (loop_peer c i st))" using Suc.prems by simp
  then show ?case by (cases "loop_peer c i st") (auto simp: no_rip_producer_cb intro: Suc.IH split: option.split)
qed simp

lemma no_rip_consumer_cb: "no_rip st \<Longrightarrow> no_rip (ipa_rm_resource_consumer_handle_cb c ev st)"
  by (auto simp: ipa_rm_resource_consumer_handle_cb_def Let_def no_rip_state no_rip_cb_loop
      split: option.split ipa_rm_resource_state.split)

lemma no_rip_call_cb: "no_rip (snd (call_cb g f st)) = no_rip st"
  by (auto simp: call_cb_def split: option.split)

lemma call_cb_heap: "rm_heap (snd (call_cb g f st)) = rm_heap st"
  by (auto simp: call_cb_def split: option.split)

lemma no_rip_request_work:
  assumes "no_rip st" "rm_heap st c = Some r" "\<not> is_prod r"
  shows "no_rip (snd (ipa_rm_resource_consumer_request_work c prev bw True dec st))"
proof -
  let ?out = "call_cb Call_Request_Resource (request_resource (res st c)) (as_cons c st)"
  have 1: "no_rip (snd ?out)" using assms(1) by (simp add: no_rip_call_cb)
  have 2: "rm_heap (snd ?out) c = Some r" using assms(2) by (simp add: call_cb_heap)
  have "no_rip (upd_res c (\<lambda>r. r\<lparr>rs_state := prev, needed_bw := needed_bw r - bw,
               usage_count := (if dec then usage_count r - 1 else usage_count r)\<rparr>) (snd ?out))"
    by (rule no_rip_upd [OF 1]) (use 2 assms(3) in \<open>simp add: is_prod_def\<close>)
  then show ?thesis
    using 1 no_rip_consumer_cb [OF 1] by (simp add: ipa_rm_resource_consumer_request_work_def split_beta)
qed

lemma no_rip_release_work:
  assumes "no_rip st" "rm_heap st c = Some r" "\<not> is_prod r"
  shows "no_rip (snd (ipa_rm_resource_consumer_release_work c prev True st))"
proof -
  let ?out = "call_cb Call_Release_Resource (release_resource (res st c)) (as_cons c st)"
  have 1: "no_rip (snd ?out)" using assms(1) by (simp add: no_rip_call_cb)
  have 2: "rm_heap (snd ?out) c = Some r" using assms(2) by (simp add: call_cb_heap)
  have "no_rip (set_state c prev (snd ?out))"
    unfolding set_state_def by (rule no_rip_upd [OF 1]) (use 2 assms(3) in \<open>simp add: is_prod_def\<close>)
  then show ?thesis
    using 1 no_rip_consumer_cb [OF 1] by (auto simp: ipa_rm_resource_consumer_release_work_def split_beta Let_def)
qed

section \<open>Steps that keep the uses\<close>

text \<open>A step is good when it is safe and keeps the accounts.\<close>

definition good_step :: "ipa_rm_context_type \<Rightarrow> ipa_rm_context_type \<Rightarrow> bool" where
  "good_step st st' \<longleftrightarrow> safe_step st st' \<and> (good_drivers st \<longrightarrow> rm_exact st \<longrightarrow> rm_exact st')"

lemma good_step_refl: "rm_wf st \<Longrightarrow> good_step st st"
  by (simp add: good_step_def safe_step_refl)

lemma good_step_trans: "good_step a b \<Longrightarrow> good_step b c \<Longrightarrow> good_step a c"
  using good_frame by (auto simp: good_step_def safe_step_def dest: frame_trans)

lemma exact_no_rip: "rm_exact st \<longleftrightarrow> exact (act st) st \<and> no_rip st"
  by (simp add: rm_exact_def no_rip_def)

lemma keeps_use_good:
  assumes wf: "rm_wf st" and k: "keeps core st st'" and u: "good_drivers st \<Longrightarrow> keeps core_use st st'" and r: "no_rip st \<Longrightarrow> no_rip st'"
  shows "good_step st st'"
proof -
  have "rm_exact st'" if "good_drivers st" "rm_exact st"
    using keeps_exact [OF keeps_use_cons [OF u [OF that(1)]]] keeps_act [OF u [OF that(1)]] that(2) r by (simp add: exact_no_rip)
  then show ?thesis using keeps_safe [OF wf k] by (simp add: good_step_def)
qed

lemma keeps_heap_good: "rm_wf st \<Longrightarrow> frame st st' \<Longrightarrow> rm_heap st' = rm_heap st \<Longrightarrow> good_step st st'"
  using no_rip_heap [of st' st] by (intro keeps_use_good keeps_same_heap) simp_all

section \<open>Lookup of a name\<close>

lemma use_ctx_live [simp]: "ipa_rm_ctx st = Ctx_Live \<Longrightarrow> use_ctx st = st"
  by (simp add: use_ctx_def)

lemma lookup_cases:
  assumes wf: "rm_wf st"
  obtains "ipa_rm_dep_graph_get_resource n st = (- EINVAL, None)"
  | p r where "ipa_rm_dep_graph_get_resource n st = (0, Some p)" "rm_heap st p = Some r" "rs_name r = n" "is_prod r = even n"
proof (cases "valid_name n \<and> resource_table st ! n \<noteq> None")
  case True
  then obtain p where p: "resource_table st ! n = Some p" by auto
  obtain r where r: "rm_heap st p = Some r" "rs_name r = n" using wf_table [OF wf _ p] True by auto
  show thesis
    using that(2) [OF _ r(1,2)] wf_res [OF wf r(1)] True p r(2) by (simp add: get_resource_table res_ok_def)
next
  case False
  then show thesis using that(1) by (auto simp: get_resource_table)
qed

lemma prod_name: "IPA_RM_RESORCE_IS_PROD n \<Longrightarrow> even n" "IPA_RM_RESORCE_IS_CONS n \<Longrightarrow> odd n"
  by (simp_all add: IPA_RM_RESORCE_IS_PROD_def IPA_RM_RESORCE_IS_CONS_def)

section \<open>The handlers\<close>

lemma wq_handler_good:
  assumes wf: "rm_wf st" and live: "ipa_rm_ctx st = Ctx_Live" and w: "work_ok (Wq_Work cmd n ev b)"
  shows "good_step st (ipa_rm_wq_handler cmd n ev b st)"
proof (rule lookup_cases [OF wf, of n])
  assume "ipa_rm_dep_graph_get_resource n st = (- EINVAL, None)"
  then show ?thesis using good_step_refl [OF wf] live by (simp add: ipa_rm_wq_handler_def split: ipa_rm_wq_cmd.split)
next
  fix p r assume l: "ipa_rm_dep_graph_get_resource n st = (0, Some p)" and p: "rm_heap st p = Some r" "rs_name r = n" "is_prod r = even n"
  have notify: "good_step st (ipa_rm_resource_producer_notify_clients p ev b st)" if "is_prod r"
    by (rule keeps_use_good [OF wf]) (use notify_keeps [OF wf_prod [OF p(1) that]] in simp_all)
  have cb: "good_step st (ipa_rm_resource_consumer_handle_cb (Some p) ev st)" if "\<not> is_prod r"
  proof (rule keeps_use_good [OF wf])
    show k: "keeps core_use st (ipa_rm_resource_consumer_handle_cb (Some p) ev st)" by (rule consumer_handle_cb_keeps [OF wf p(1) that])
    show "keeps core st (ipa_rm_resource_consumer_handle_cb (Some p) ev st)" by (rule keeps_use_core [OF k])
  qed (rule no_rip_consumer_cb)
  show ?thesis
    using l live w notify cb p(3) prod_name good_step_refl [OF wf]
    by (cases cmd) (simp_all add: ipa_rm_wq_handler_def)
qed

lemma call_void_good: "rm_wf st \<Longrightarrow> good_step st (call_void c st)"
  by (rule keeps_heap_good) (simp_all add: frame_call)

lemma good_step_wf: "good_step st st' \<Longrightarrow> rm_wf st'" "good_step st st' \<Longrightarrow> frame st st'"
  by (simp_all add: good_step_def safe_step_def)

lemma call_void_ctx [simp]: "ipa_rm_ctx (call_void c st) = ipa_rm_ctx st"
  by (simp add: call_void_def)

lemma resume_handler_good:
  assumes wf: "rm_wf st" and live: "ipa_rm_ctx st = Ctx_Live"
  shows "good_step st (ipa_rm_wq_resume_handler n prev bw inc st)"
proof -
  let ?st1 = "call_void (Call_Inc_Client n) st"
  have g1: "good_step st ?st1" by (rule call_void_good [OF wf])
  note wf1 = good_step_wf(1) [OF g1]
  show ?thesis
  proof (cases "IPA_RM_RESORCE_IS_CONS n")
    case False
    then show ?thesis using good_step_refl [OF wf] by (simp add: ipa_rm_wq_resume_handler_def)
  next
    case True
    show ?thesis
    proof (rule lookup_cases [OF wf1, of n])
      assume "ipa_rm_dep_graph_get_resource n ?st1 = (- EINVAL, None)"
      then show ?thesis using True live good_step_trans [OF g1 call_void_good [OF wf1]] by (simp add: ipa_rm_wq_resume_handler_def)
    next
      fix p r assume l: "ipa_rm_dep_graph_get_resource n ?st1 = (0, Some p)" and p: "rm_heap ?st1 p = Some r" "rs_name r = n" "is_prod r = even n"
      have c: "\<not> is_prod r" using p(3) prod_name(2) [OF True] by simp
      let ?st2 = "snd (ipa_rm_resource_consumer_request_work p prev bw True inc ?st1)"
      have "good_step ?st1 ?st2"
        by (rule keeps_use_good [OF wf1 request_work_notify_keeps(1) [OF wf1 p(1) c]])
          (simp_all add: request_work_notify_keeps(2) [OF wf1 p(1) c] no_rip_request_work [OF _ p(1) c])
      then show ?thesis using l True live good_step_trans [OF g1] by (simp add: ipa_rm_wq_resume_handler_def)
    qed
  qed
qed

lemma suspend_handler_good:
  assumes wf: "rm_wf st" and live: "ipa_rm_ctx st = Ctx_Live"
  shows "good_step st (ipa_rm_wq_suspend_handler n prev st)"
proof -
  let ?st1 = "call_void (Call_Suspend_Sync n) st"
  have g1: "good_step st ?st1" by (rule call_void_good [OF wf])
  note wf1 = good_step_wf(1) [OF g1]
  show ?thesis
  proof (cases "IPA_RM_RESORCE_IS_CONS n")
    case False
    then show ?thesis using good_step_refl [OF wf] by (simp add: ipa_rm_wq_suspend_handler_def)
  next
    case True
    show ?thesis
    proof (rule lookup_cases [OF wf1, of n])
      assume "ipa_rm_dep_graph_get_resource n ?st1 = (- EINVAL, None)"
      then show ?thesis using True live g1 by (simp add: ipa_rm_wq_suspend_handler_def)
    next
      fix p r assume l: "ipa_rm_dep_graph_get_resource n ?st1 = (0, Some p)" and p: "rm_heap ?st1 p = Some r" "rs_name r = n" "is_prod r = even n"
      have c: "\<not> is_prod r" using p(3) prod_name(2) [OF True] by simp
      let ?st2 = "snd (ipa_rm_resource_consumer_release_work p prev True ?st1)"
      have "good_step ?st1 ?st2"
        by (rule keeps_use_good [OF wf1 release_work_notify_keeps(1) [OF wf1 p(1) c]])
          (simp_all add: release_work_notify_keeps(2) [OF wf1 p(1) c] no_rip_release_work [OF _ p(1) c])
      then show ?thesis using l True live good_step_trans [OF g1] by (simp add: ipa_rm_wq_suspend_handler_def)
    qed
  qed
qed

lemma run_work_good:
  assumes "rm_wf st" "ipa_rm_ctx st = Ctx_Live" "work_ok w"
  shows "good_step st (run_work w st)"
  using assms wq_handler_good resume_handler_good suspend_handler_good
    keeps_heap_good [OF assms(1) frame_call(1)]
  by (cases w) (simp_all add: run_work_def ipa_rm_perf_profile_notify_to_ipa_work_def)

text \<open>Taking the first work, and taking a delayed work, leave the resources alone.\<close>

lemma wq_step_good:
  assumes wf: "rm_wf st" and live: "ipa_rm_ctx st = Ctx_Live" and wq: "wq_ok st"
  shows "good_step st (wq_step st)"
proof (cases "ipa_rm_wq st")
  case Nil
  then show ?thesis using good_step_refl [OF wf] by (simp add: wq_step_def)
next
  case (Cons w ws)
  let ?st1 = "st\<lparr>ipa_rm_wq := ws\<rparr>"
  have "frame st ?st1" using Cons wq vote_ok_cong [of st ?st1] by (auto simp: frame_def wq_ok_def)
  then have g1: "good_step st ?st1" by (rule keeps_heap_good [OF wf]) simp
  have "good_step ?st1 (run_work w ?st1)" using good_step_wf(1) [OF g1] live wq Cons by (intro run_work_good) (simp_all add: wq_ok_def)
  then show ?thesis using good_step_trans [OF g1] Cons by (simp add: wq_step_def)
qed

section \<open>Requests and releases without a use\<close>

lemma keeps_prod_exact:
  assumes wf: "rm_wf st" and k: "keeps core_prod st st'" and ex': "exact (act st) st'" and ex: "rm_exact st"
  shows "rm_exact st'"
proof -
  have same: "\<exists>r0. rm_heap st z = Some r0 \<and> is_prod r0 \<and> rs_state r0 = rs_state r" if "rm_heap st' z = Some r" "is_prod r" for z r
    using others_stay_keeps [OF k, of "Suc z"] that unfolding others_stay_def by (metis n_not_Suc_n)
  have "exact (act st') st'"
  proof (rule exact_cong [OF keeps_wf [OF keeps_prod_core [OF k] wf] _ ex'])
    fix z r n assume "rm_heap st' z = Some r" "is_prod r"
    then show "act st z n = act st' z n" using same by (fastforce simp: act_def res_def active_def)
  qed
  then show ?thesis using same ex by (fastforce simp: rm_exact_def)
qed

lemma idle_exact:
  assumes wf: "rm_wf st" and q: "rm_heap st q = Some rq" "\<not> is_prod rq" and o: "only q r' st st'"
    and r': "core r' = core rq" "usage_count r' = usage_count rq" "needed_bw r' = needed_bw rq" "usage_count rq > 0 \<Longrightarrow> active rq \<Longrightarrow> active r'"
    and ex: "exact A st"
  shows "exact A st'"
proof (rule exact_only [OF wf ex q(1) o r'(1)])
  have "cons_exact A st rq" using ex q by (simp add: exact_def)
  then show "cons_exact A st r'" using core_eqD(1,3) [OF r'(1)] r'(2-4) by (simp add: cons_exact_def)
qed simp

lemma request_idle_good:
  assumes wf: "rm_wf st" and q: "rm_heap st q = Some rq" "\<not> is_prod rq"
  shows "good_step st (snd (ipa_rm_resource_consumer_request q 0 False wake st))"
proof -
  note c = wf_cons [OF wf q]
  obtain r' where o: "only q r' st (snd (ipa_rm_resource_consumer_request q 0 False wake st))"
    and eff: "request_effect 0 False rq (fst (ipa_rm_resource_consumer_request q 0 False wake st)) r'"
    using consumer_request_only [OF c wf_table_live [OF wf], of 0 False wake] by (elim exE conjE)
  note k = consumer_request_keeps [OF c wf_table_live [OF wf], of 0 False wake]
  have core: "core r' = core rq" using request_effect_core [OF eff q(2)] by (simp add: core_prod_def)
  have "exact A (snd (ipa_rm_resource_consumer_request q 0 False wake st))" if "exact A st" for A
    by (rule idle_exact [OF wf q o core _ _ _ that]) (use eff in \<open>auto simp: request_effect_def active_def split: if_splits\<close>)
  then show ?thesis
    using keeps_safe [OF wf keeps_prod_core [OF k]] keeps_prod_exact [OF wf k] by (auto simp: good_step_def rm_exact_def)
qed

lemma release_idle_good:
  assumes wf: "rm_wf st" and q: "rm_heap st q = Some rq" "\<not> is_prod rq"
  shows "good_step st (snd (ipa_rm_resource_consumer_release q 0 False st))"
proof -
  note c = wf_cons [OF wf q]
  obtain r' where o: "only q r' st (snd (ipa_rm_resource_consumer_release q 0 False st))"
    and eff: "release_effect 0 False rq (fst (ipa_rm_resource_consumer_release q 0 False st)) r'"
    using consumer_release_only [OF c wf_table_live [OF wf], of 0 False] by (elim exE conjE)
  note k = consumer_release_keeps [OF c wf_table_live [OF wf], of 0 False]
  have core: "core r' = core rq" using release_effect_core [OF eff q(2)] by (simp add: core_prod_def)
  have "exact A (snd (ipa_rm_resource_consumer_release q 0 False st))" if "exact A st" for A
    by (rule idle_exact [OF wf q o core _ _ _ that])
      (use eff in \<open>auto simp: release_effect_def release_usage_def active_def split: if_splits\<close>)
  then show ?thesis
    using keeps_safe [OF wf keeps_prod_core [OF k]] keeps_prod_exact [OF wf k] by (auto simp: good_step_def rm_exact_def)
qed

section \<open>The invariant of the manager\<close>

definition timer_ok :: "ipa_rm_delayed_release_work_type \<Rightarrow> bool" where
  "timer_ok d \<longleftrightarrow> dw_needed_bw d = 0 \<and> \<not> dw_dec_usage_count d"

definition rm_inv :: "ipa_rm_context_type \<Rightarrow> bool" where
  "rm_inv st \<longleftrightarrow> rm_wf st \<and> bw_ok st \<and> vote_ok st \<and> wq_ok st \<and> list_all timer_ok (delayed_works st) \<and>
     ipa_rm_ctx st = Ctx_Live \<and> \<not> rm_ub st"

definition exact_inv :: "ipa_rm_context_type \<Rightarrow> bool" where
  "exact_inv st \<longleftrightarrow> rm_inv st \<and> good_drivers st \<and> rm_exact st"

definition inv_step :: "ipa_rm_context_type \<Rightarrow> ipa_rm_context_type \<Rightarrow> bool" where
  "inv_step st st' \<longleftrightarrow> (rm_inv st \<longrightarrow> rm_inv st') \<and> (exact_inv st \<longrightarrow> exact_inv st')"

lemma inv_step_refl [simp]: "inv_step st st"
  by (simp add: inv_step_def)

lemma inv_step_trans: "inv_step a b \<Longrightarrow> inv_step b c \<Longrightarrow> inv_step a c"
  by (simp add: inv_step_def)

lemma good_inv: "good_step st st' \<Longrightarrow> inv_step st st'"
  using good_frame [of st st'] by (auto simp: inv_step_def exact_inv_def rm_inv_def good_step_def safe_step_def frame_def)

lemma inv_stepI: "(rm_inv st \<Longrightarrow> inv_step st st') \<Longrightarrow> inv_step st st'"
  by (auto simp: inv_step_def exact_inv_def)

text \<open>The list of delayed works concerns no resource.\<close>

lemma delayed_inv:
  assumes "list_all timer_ok ds"
  shows "inv_step st (st\<lparr>delayed_works := ds\<rparr>)"
proof -
  let ?st = "st\<lparr>delayed_works := ds\<rparr>"
  have "rm_wf ?st = rm_wf st" "bw_ok ?st = bw_ok st" "vote_ok ?st = vote_ok st" "wq_ok ?st = wq_ok st" "act ?st = act st"
    "exact A ?st = exact A st" "no_rip ?st = no_rip st" "good_drivers ?st = good_drivers st" for A
    by (simp_all add: rm_wf_def bw_ok_def res_def vote_ok_def wq_ok_def act_def fun_eq_iff exact_def cons_exact_def no_rip_def good_drivers_def)
  then show ?thesis using assms by (simp add: inv_step_def exact_inv_def rm_inv_def exact_no_rip)
qed

lemma kzalloc_pair: "kzalloc st = (alloc_ok st (allocs st), st\<lparr>allocs := allocs st + 1\<rparr>)"
  by (simp add: kzalloc_def)

lemma allocs_good: "rm_wf st \<Longrightarrow> good_step st (st\<lparr>allocs := n\<rparr>)"
  using vote_ok_cong [of st "st\<lparr>allocs := n\<rparr>"] wq_ok_cong [of st "st\<lparr>allocs := n\<rparr>"]
  by (intro keeps_heap_good) (auto simp: frame_def)

lemma with_timer_inv: "inv_step st (snd (ipa_rm_request_resource_with_timer n st))"
proof (rule inv_stepI)
  assume i: "rm_inv st"
  then have wf: "rm_wf st" and live: "ipa_rm_ctx st = Ctx_Live" by (simp_all add: rm_inv_def)
  show ?thesis
  proof (cases "IPA_RM_RESORCE_IS_CONS n")
    case False
    then show ?thesis by (simp add: ipa_rm_request_resource_with_timer_def)
  next
    case True
    show ?thesis
    proof (rule lookup_cases [OF wf, of n])
      assume "ipa_rm_dep_graph_get_resource n st = (- EINVAL, None)"
      then show ?thesis using live True by (simp add: ipa_rm_request_resource_with_timer_def)
    next
      fix p r assume l: "ipa_rm_dep_graph_get_resource n st = (0, Some p)" and p: "rm_heap st p = Some r" "is_prod r = even n"
      let ?out = "ipa_rm_resource_consumer_request p 0 False True st"
      have c: "\<not> is_prod r" using p(2) prod_name(2) [OF True] by simp
      have g: "good_step st (snd ?out)" by (rule request_idle_good [OF wf p(1) c])
      have d: "list_all timer_ok (delayed_works (snd ?out))"
        using i good_step_wf(2) [OF g] by (simp add: rm_inv_def frame_def)
      let ?st2 = "(snd ?out)\<lparr>allocs := allocs (snd ?out) + 1\<rparr>"
      have g2: "good_step st ?st2" by (rule good_step_trans [OF g allocs_good [OF good_step_wf(1) [OF g]]])
      have "inv_step st (?st2\<lparr>delayed_works := delayed_works ?st2 @ [\<lparr>dw_resource_name = x, dw_needed_bw = 0, dw_dec_usage_count = False\<rparr>]\<rparr>)" for x
        by (rule inv_step_trans [OF good_inv [OF g2] delayed_inv]) (use d in \<open>simp add: timer_ok_def\<close>)
      moreover have "inv_step st ?st2" "inv_step st (snd ?out)" using g g2 good_inv by blast+
      ultimately show ?thesis
        using live True l by (simp add: ipa_rm_request_resource_with_timer_def split_beta kzalloc_pair split: bool.split)
    qed
  qed
qed

lemma timer_step_inv: "inv_step st (timer_step k st)"
proof (rule inv_stepI)
  assume i: "rm_inv st"
  show ?thesis
  proof (cases "k < length (delayed_works st)")
    case False
    then show ?thesis by (simp add: timer_step_def)
  next
    case True
    let ?st1 = "st\<lparr>delayed_works := take k (delayed_works st) @ drop (Suc k) (delayed_works st)\<rparr>"
    let ?d = "delayed_works st ! k"
    have "list_all timer_ok (take k (delayed_works st) @ drop (Suc k) (delayed_works st))"
      using i by (auto simp: rm_inv_def list_all_iff dest: in_set_takeD in_set_dropD)
    then have 1: "inv_step st ?st1" by (rule delayed_inv)
    then have wf: "rm_wf ?st1" and live: "ipa_rm_ctx ?st1 = Ctx_Live" using i by (simp_all add: inv_step_def rm_inv_def)
    have d: "timer_ok ?d" using i True by (simp add: rm_inv_def list_all_length)
    have "inv_step ?st1 (delayed_release_work_func ?d ?st1)"
    proof (cases "IPA_RM_RESORCE_IS_CONS (dw_resource_name ?d)")
      case False
      then show ?thesis by (simp add: delayed_release_work_func_def)
    next
      case True
      show ?thesis
      proof (rule lookup_cases [OF wf, of "dw_resource_name ?d"])
        assume "ipa_rm_dep_graph_get_resource (dw_resource_name ?d) ?st1 = (- EINVAL, None)"
        then show ?thesis using live by (simp add: delayed_release_work_func_def)
      next
        fix p r assume l: "ipa_rm_dep_graph_get_resource (dw_resource_name ?d) ?st1 = (0, Some p)"
          and p: "rm_heap ?st1 p = Some r" "is_prod r = even (dw_resource_name ?d)"
        have "\<not> is_prod r" using p(2) prod_name(2) [OF True] by simp
        from good_inv [OF release_idle_good [OF wf p(1) this]] show ?thesis
          using l live True d by (simp add: delayed_release_work_func_def timer_ok_def)
      qed
    qed
    then show ?thesis using inv_step_trans [OF 1] True by (simp add: timer_step_def)
  qed
qed

end
