(* ===== verification/Rm_Lifecycle.thy ===== *)
theory Rm_Lifecycle
  imports Rm_Works
begin

text \<open>
  Creation, registration and deletion of resources. A resource that is deleted loses all of its
  dependencies first, so no pointer to it is left when its memory is freed.
\<close>

section \<open>Good steps of the operations\<close>

lemma add_dependency_good:
  assumes "rm_wf st" "rm_heap st p = Some rp" "is_prod rp" "rm_heap st q = Some rq" "\<not> is_prod rq"
  shows "good_step st (snd (ipa_rm_resource_add_dependency (Some p) (Some q) u st))"
  using add_dependency_safe [OF assms] add_dependency_exact [OF assms] by (simp add: good_step_def)

lemma delete_dependency_good:
  assumes "rm_wf st" "rm_heap st p = Some rp" "is_prod rp" "rm_heap st q = Some rq" "\<not> is_prod rq"
  shows "good_step st (snd (ipa_rm_resource_delete_dependency (Some p) (Some q) u st))"
  using delete_dependency_safe [OF assms] delete_dependency_exact [OF assms] by (simp add: good_step_def)

lemma producer_request_good:
  assumes wf: "rm_wf st" and p: "rm_heap st p = Some rp" "is_prod rp"
  shows "good_step st (snd (ipa_rm_resource_producer_request p st))"
  using keeps_safe [OF wf producer_request_keeps [OF assms]] producer_request_exact [OF assms] by (simp add: good_step_def)

lemma producer_release_good:
  assumes wf: "rm_wf st" and p: "rm_heap st p = Some rp" "is_prod rp"
  shows "good_step st (snd (ipa_rm_resource_producer_release p st))"
  using keeps_safe [OF wf producer_release_keeps [OF assms]] producer_release_exact [OF assms] by (simp add: good_step_def)

lemma set_perf_profile_good:
  assumes wf: "rm_wf st" and p: "rm_heap st p = Some rp"
  shows "good_step st (snd (ipa_rm_resource_set_perf_profile (Some p) (Some bw) st))"
  using set_perf_profile_accounts [OF assms, of bw] by (simp add: good_step_def safe_step_def)

lemma listeners_good:
  assumes wf: "rm_wf st" and p: "rm_heap st p = Some rp"
  shows "good_step st (upd_res p (\<lambda>r. r\<lparr>event_listeners := f r\<rparr>) st)"
proof (rule keeps_use_good [OF wf])
  show k: "keeps core_use st (upd_res p (\<lambda>r. r\<lparr>event_listeners := f r\<rparr>) st)"
    by (rule upd_keeps [OF p]) (simp add: core_use_def core_def shape_def is_prod_def active_def)
  show "keeps core st (upd_res p (\<lambda>r. r\<lparr>event_listeners := f r\<rparr>) st)" by (rule keeps_use_core [OF k])
  show "no_rip st \<Longrightarrow> no_rip (upd_res p (\<lambda>r. r\<lparr>event_listeners := f r\<rparr>) st)"
    by (rule no_rip_upd) (simp_all add: is_prod_def)
qed

lemma register_good:
  assumes wf: "rm_wf st" and p: "rm_heap st p = Some rp" "is_prod rp"
  shows "good_step st (snd (ipa_rm_resource_producer_register (Some p) (Some params) b st))"
proof -
  have a: "as_prod p st = st" using p by (simp add: live_simps(5) is_prod_def)
  let ?st1 = "st\<lparr>allocs := allocs st + 1\<rparr>"
  have g: "good_step st ?st1" by (rule allocs_good [OF wf])
  have "good_step ?st1 (upd_res p (\<lambda>r. r\<lparr>event_listeners := x # event_listeners r\<rparr>) ?st1)" for x
    by (rule listeners_good [OF good_step_wf(1) [OF g], where rp = rp]) (simp add: p(1))
  then show ?thesis
    using good_step_trans [OF g] g good_step_refl [OF wf]
    by (simp add: ipa_rm_resource_producer_register_def Let_def a kzalloc_pair split: bool.split)
qed

lemma deregister_good:
  assumes wf: "rm_wf st" and p: "rm_heap st p = Some rp" "is_prod rp"
  shows "good_step st (snd (ipa_rm_resource_producer_deregister (Some p) (Some params) st))"
proof -
  have a: "as_prod p st = st" using p by (simp add: live_simps(5) is_prod_def)
  show ?thesis
    using listeners_good [OF wf p(1)] good_step_refl [OF wf]
    by (simp add: ipa_rm_resource_producer_deregister_def a split: option.split)
qed

section \<open>All dependencies of a resource are deleted\<close>

lemma delete_one:
  fixes d
  assumes wf: "rm_wf st" and x: "rm_heap st x = Some rx" "is_prod rx = d" and e: "peer (peers_list rx) i = Some (y, u)"
  defines "st' \<equiv> snd (if d then ipa_rm_resource_delete_dependency (Some x) (Some y) u st
                      else ipa_rm_resource_delete_dependency (Some y) (Some x) u st)"
  obtains rx' where "good_step st st'" "rm_heap st' x = Some rx'" "rs_name rx' = rs_name rx" "is_prod rx' = d"
    "peer (peers_list rx') = (peer (peers_list rx))(i := None)"
proof -
  obtain ry where y: "rm_heap st y = Some ry" "rs_name ry = i" "is_prod ry = (\<not> is_prod rx)" "peer (peers_list ry) (rs_name rx) = Some (x, u)"
    using wf_peer [OF wf x(1) e] by auto
  show thesis
  proof (cases d)
    case True
    then have p: "is_prod rx" and q: "\<not> is_prod ry" using x y by simp_all
    have e': "peer (peers_list rx) (rs_name ry) = Some (y, u)" using e y(2) by simp
    show thesis
      by (rule delete_dependency_peers [OF wf x(1) p y(1) q e'])
        (rule that, use True delete_dependency_good [OF wf x(1) p y(1) q] y(2) in \<open>simp_all add: st'_def\<close>)
  next
    case False
    then have q: "\<not> is_prod rx" and p: "is_prod ry" using x y by simp_all
    show thesis
      by (rule delete_dependency_peers [OF wf y(1) p x(1) q y(4)])
        (rule that, use False delete_dependency_good [OF wf y(1) p x(1) q] y(2) in \<open>simp_all add: st'_def\<close>)
  qed
qed

lemma loop_userspace_dep_ok:
  assumes wf: "rm_wf st" and p: "rm_heap st p = Some r" "peer (peers_list r) i = Some (q, u)"
  shows "loop_userspace_dep p i st = u"
proof -
  obtain l where l: "peers_list r = Some l" "peers_ok l" using wf_res [OF wf p(1)] by (auto simp: res_ok_def)
  show ?thesis using get_userspace_dep_ok [OF l(2), of i q u] p l by (simp add: loop_userspace_dep_def live_simps(1) [OF p(1)])
qed

lemma delete_loop_ok:
  assumes "rm_wf st" "rm_heap st x = Some rx" "is_prod rx = d" "i + n \<le> 22" "\<forall>m < i. peer (peers_list rx) m = None"
  shows "\<exists>rx'. good_step st (delete_loop n i d x st) \<and> rm_heap (delete_loop n i d x st) x = Some rx' \<and> rs_name rx' = rs_name rx \<and>
    is_prod rx' = d \<and> (\<forall>m < i + n. peer (peers_list rx') m = None)"
  using assms
proof (induction n arbitrary: i st rx)
  case 0
  then show ?case using good_step_refl by auto
next
  case (Suc n)
  note loop = loop_peer_ok [OF Suc.prems(1,2), of i]
  show ?case
  proof (cases "peer (peers_list rx) i")
    case None
    have "\<forall>m < Suc i. peer (peers_list rx) m = None" using Suc.prems(5) None by (simp add: less_Suc_eq)
    then show ?thesis using Suc.IH [OF Suc.prems(1-3), of "Suc i"] Suc.prems(4) loop None by simp
  next
    case (Some yu)
    then obtain y u where e: "peer (peers_list rx) i = Some (y, u)" by (cases yu) auto
    let ?st' = "snd (if d then ipa_rm_resource_delete_dependency (Some x) (Some y) u st
                      else ipa_rm_resource_delete_dependency (Some y) (Some x) u st)"
    obtain r1 where r1: "good_step st ?st'" "rm_heap ?st' x = Some r1" "rs_name r1 = rs_name rx" "is_prod r1 = d"
      "peer (peers_list r1) = (peer (peers_list rx))(i := None)"
      by (rule delete_one [OF Suc.prems(1-3) e])
    have "\<forall>m < Suc i. peer (peers_list r1) m = None" using Suc.prems(5) r1(5) by (simp add: less_Suc_eq)
    from Suc.IH [OF good_step_wf(1) [OF r1(1)] r1(2,4) _ this] obtain r2 where
      r2: "good_step ?st' (delete_loop n (Suc i) d x ?st')" "rm_heap (delete_loop n (Suc i) d x ?st') x = Some r2"
      "rs_name r2 = rs_name r1" "is_prod r2 = d" "\<forall>m < Suc i + n. peer (peers_list r2) m = None"
      using Suc.prems(4) by auto
    have step: "delete_loop (Suc n) i d x st = delete_loop n (Suc i) d x ?st'"
      using loop e Suc.prems(4) loop_userspace_dep_ok [OF Suc.prems(1,2) e] by (simp add: Let_def delete_peer_def)
    show ?thesis unfolding step using r2 r1(3) good_step_trans [OF r1(1) r2(1)] by auto
  qed
qed

section \<open>Deletion\<close>

definition isolated :: "ipa_rm_resource \<Rightarrow> bool" where
  "isolated r \<longleftrightarrow> (\<forall>m. peer (peers_list r) m = None)"

lemma no_peer_of_isolated:
  assumes wf: "rm_wf st" and x: "rm_heap st x = Some r" "isolated r" and z: "rm_heap st z = Some s"
  shows "peer (peers_list s) m \<noteq> Some (x, u)"
  using wf_peer [OF wf z, of m x u] x by (auto simp: isolated_def)

text \<open>The accounts do not see a resource that nothing refers to.\<close>

lemma load_elsewhere:
  assumes "\<And>m u. f m \<noteq> Some (x, u)"
  shows "load (w(x := a)) A f = load w A f" "load w (A(x := b)) f = load w A f"
proof -
  have ne: "f n = Some (z, u) \<Longrightarrow> z \<noteq> x" for n z u using assms by auto
  show "load (w(x := a)) A f = load w A f" "load w (A(x := b)) f = load w A f"
    by (rule load_cong; drule ne; simp)+
qed

definition forget :: "nat \<Rightarrow> nat \<Rightarrow> ipa_rm_context_type \<Rightarrow> ipa_rm_context_type" where
  "forget x n st = st\<lparr>rm_heap := (rm_heap st)(x := None), resource_table := (resource_table st)[n := None]\<rparr>"

lemma forget_inv:
  assumes x: "rm_heap st x = Some r" "isolated r"
  shows "inv_step st (forget x (rs_name r) st)"
proof (rule inv_stepI)
  assume i: "rm_inv st"
  then have wf: "rm_wf st" and bw: "bw_ok st" by (simp_all add: rm_inv_def)
  let ?st = "forget x (rs_name r) st"
  have heap: "rm_heap ?st = (rm_heap st)(x := None)" and tab: "resource_table ?st = (resource_table st)[rs_name r := None]"
    by (simp_all add: forget_def)
  have len: "length (resource_table st) = 22" using wf by (simp add: rm_wf_def)
  have name: "rs_name r < 22" using wf_res [OF wf x(1)] by (simp add: res_ok_def)
  have at: "rm_heap st z = Some s" "z \<noteq> x" if "rm_heap ?st z = Some s" for z s using that by (auto simp: heap split: if_splits)
  have other: "rs_name s \<noteq> rs_name r" if "rm_heap ?st z = Some s" for z s using wf_unique [OF wf at(1) [OF that] x(1)] at(2) [OF that] by auto
  have wf': "rm_wf ?st"
    unfolding rm_wf_def
  proof (intro conjI allI impI)
    show "length (resource_table ?st) = 22" using len by (simp add: tab)
  next
    fix n p assume n: "valid_name n" "resource_table ?st ! n = Some p"
    then have "n \<noteq> rs_name r" "resource_table st ! n = Some p" using len name by (auto simp: tab nth_list_update split: if_splits)
    with wf_table [OF wf n(1)] obtain s where s: "rm_heap st p = Some s" "rs_name s = n" by auto
    moreover have "p \<noteq> x" using s x \<open>n \<noteq> rs_name r\<close> by auto
    ultimately show "\<exists>r. rm_heap ?st p = Some r \<and> rs_name r = n" by (simp add: heap)
  next
    fix p s assume s: "rm_heap ?st p = Some s"
    show "res_ok s" by (rule wf_res [OF wf at(1) [OF s]])
    show "p < rm_next ?st" using wf at(1) [OF s] by (simp add: rm_wf_def forget_def)
    show "resource_table ?st ! rs_name s = Some p" using wf_in_table [OF wf at(1) [OF s]] other [OF s] by (simp add: tab)
  next
    fix p s n q u assume s: "rm_heap ?st p = Some s" and q: "peer (peers_list s) n = Some (q, u)"
    have "q \<noteq> x" using no_peer_of_isolated [OF wf x at(1) [OF s]] q by auto
    then show "\<exists>t. rm_heap ?st q = Some t \<and> rs_name t = n \<and> is_prod t = (\<not> is_prod s) \<and> peer (peers_list t) (rs_name s) = Some (p, u)"
      using wf_peer [OF wf at(1) [OF s] q] by (auto simp: heap)
  qed
  have mx: "(\<lambda>z. max_bw (res ?st z)) = (\<lambda>z. max_bw (res st z))(x := 0)"
    by (auto simp: fun_eq_iff res_def heap zero_resource_def)
  have act: "(\<lambda>z. act ?st z n) = (\<lambda>z. act st z n)(x := False)" for n
    by (auto simp: fun_eq_iff act_def res_def heap zero_resource_def active_def)
  have apart: "peer (peers_list s) m \<noteq> Some (x, u)" if "rm_heap ?st z = Some s" for z s m u
    by (rule no_peer_of_isolated [OF wf x at(1) [OF that]])
  have bw': "bw_ok ?st" unfolding bw_ok_def
  proof (intro allI impI)
    fix z s assume s: "rm_heap ?st z = Some s" "is_prod s"
    show "needed_bw s = load (\<lambda>z. max_bw (res ?st z)) (\<lambda>_. True) (peer (peers_list s))"
      unfolding mx load_elsewhere(1) [of "peer (peers_list s)", OF apart [OF s(1)]]
      using bw at(1) [OF s(1)] s(2) by (simp add: bw_ok_def)
  qed
  have inv': "rm_inv ?st"
    using i wf' bw' by (simp add: rm_inv_def forget_def vote_ok_def wq_ok_def)
  have "rm_exact ?st" if ex: "rm_exact st"
  proof -
    have "cons_exact (act ?st) ?st s" if s: "rm_heap ?st c = Some s" "\<not> is_prod s" for c s
    proof -
      have "cons_exact (act st) st s" using ex at(1) [OF s(1)] s(2) by (simp add: rm_exact_def exact_def)
      then show ?thesis
        unfolding cons_exact_def mx act load_elsewhere(1) [of "peer (peers_list s)", OF apart [OF s(1)]]
          load_elsewhere(2) [of "peer (peers_list s)", OF apart [OF s(1)]] .
    qed
    moreover have "rs_state s \<noteq> IPA_RM_RELEASE_IN_PROGRESS" if "rm_heap ?st z = Some s" "is_prod s" for z s
      using ex at(1) [OF that(1)] that(2) by (simp add: rm_exact_def)
    ultimately show ?thesis by (simp add: rm_exact_def exact_def)
  qed
  then show "inv_step st ?st" using inv' by (auto simp: inv_step_def exact_inv_def forget_def good_drivers_def)
qed

text \<open>A client deletes a resource and takes it out of the table.\<close>

definition client_delete :: "nat \<Rightarrow> ipa_rm_context_type \<Rightarrow> int \<times> ipa_rm_context_type" where
  "client_delete n st =
     (case ipa_rm_dep_graph_get_resource n st of
        (result, None) \<Rightarrow> (result, st)
      | (_, Some p) \<Rightarrow> ipa_rm_dep_graph_remove n (snd (ipa_rm_resource_delete (Some p) st)))"

lemma delete_isolates:
  assumes wf: "rm_wf st" and x: "rm_heap st x = Some rx"
  obtains st2 r2 where "good_step st st2" "rm_heap st2 x = Some r2" "rs_name r2 = rs_name rx" "isolated r2"
    "ipa_rm_resource_delete (Some x) st = (0, kfree_resource x st2)" "keeps core (delete_loop 22 0 (is_prod rx) x st) st2"
proof -
  let ?st1 = "delete_loop 22 0 (is_prod rx) x st"
  obtain r1 where g1: "good_step st ?st1" and r1: "rm_heap ?st1 x = Some r1" "rs_name r1 = rs_name rx" "is_prod r1 = is_prod rx"
    "\<forall>m < 22. peer (peers_list r1) m = None"
    using delete_loop_ok [OF wf x refl, of 0 22] by auto
  note wf1 = good_step_wf(1) [OF g1]
  have iso: "isolated r1" unfolding isolated_def using r1(4) peer_below [OF wf1 r1(1)] by metis
  have pl: "peers_list rx \<noteq> None" using wf_res [OF wf x] by (auto simp: res_ok_def)
  have ty: "(rs_type rx = IPA_RM_PRODUCER) = is_prod rx" by (simp add: is_prod_def)
  let ?st2 = "if is_prod rx then ipa_rm_resource_producer_delete x ?st1 else ?st1"
  have eq: "ipa_rm_resource_delete (Some x) st = (0, kfree_resource x ?st2)"
    unfolding ipa_rm_resource_delete_def option.case live_simps(1) [OF x] live_simps(3) [OF x] Let_def ty
      loop_size_ok [OF wf x] using pl by (cases "peers_list rx") auto
  have "\<exists>r2. good_step st ?st2 \<and> rm_heap ?st2 x = Some r2 \<and> rs_name r2 = rs_name rx \<and> isolated r2 \<and> keeps core ?st1 ?st2"
  proof (cases "is_prod rx")
    case False
    then show ?thesis using g1 r1 iso by auto
  next
    case True
    let ?rel = "snd (ipa_rm_resource_producer_release x ?st1)"
    have p1: "is_prod r1" using True r1(3) by simp
    have g: "good_step st ?rel" by (rule good_step_trans [OF g1 producer_release_good [OF wf1 r1(1) p1]])
    obtain r where r: "rm_heap ?rel x = Some r" "core r = core r1"
      using keepsD [OF producer_release_keeps [OF wf1 r1(1) p1] r1(1)] by auto
    have "good_step st (ipa_rm_resource_producer_delete x ?st1)"
      unfolding ipa_rm_resource_producer_delete_def
      by (rule good_step_trans [OF g listeners_good [OF good_step_wf(1) [OF g] r(1)]])
    moreover have "keeps core ?st1 (ipa_rm_resource_producer_delete x ?st1)"
      unfolding ipa_rm_resource_producer_delete_def
      by (rule keeps_upd_trans [OF producer_release_keeps [OF wf1 r1(1) p1] r(1)]) (simp add: core_def shape_def is_prod_def)
    moreover have "rm_heap (ipa_rm_resource_producer_delete x ?st1) x = Some (r\<lparr>event_listeners := []\<rparr>)"
      by (simp add: ipa_rm_resource_producer_delete_def live_simps(2) [OF r(1)])
    ultimately show ?thesis using True core_eqD(1,3) [OF r(2)] r1(2) iso by (simp add: isolated_def)
  qed
  then show thesis using that eq by blast
qed

lemma client_delete_inv: "inv_step st (snd (client_delete n st))"
proof (rule inv_stepI)
  assume i: "rm_inv st"
  then have wf: "rm_wf st" by (simp add: rm_inv_def)
  show ?thesis
  proof (rule lookup_cases [OF wf, of n])
    assume "ipa_rm_dep_graph_get_resource n st = (- EINVAL, None)"
    then show ?thesis by (simp add: client_delete_def)
  next
    fix p r assume l: "ipa_rm_dep_graph_get_resource n st = (0, Some p)" and p: "rm_heap st p = Some r" "rs_name r = n"
    obtain st2 r2 where d: "good_step st st2" "rm_heap st2 p = Some r2" "rs_name r2 = rs_name r" "isolated r2"
      "ipa_rm_resource_delete (Some p) st = (0, kfree_resource p st2)"
      by (rule delete_isolates [OF wf p(1)])
    have n: "n < 22" using wf_res [OF wf p(1)] p(2) by (simp add: res_ok_def)
    have "snd (client_delete n st) = forget p (rs_name r2) st2"
      using l d(3,5) p(2) n
      by (simp add: client_delete_def ipa_rm_dep_graph_remove_def kfree_resource_def live_simps(3) [OF d(2)] flag_ub_def forget_def)
    then show ?thesis using inv_step_trans [OF good_inv [OF d(1)] forget_inv [OF d(2,4)]] by simp
  qed
qed

section \<open>Creation\<close>

text \<open>A client creates a resource under a free name and puts it into the table.\<close>

definition client_create :: "ipa_rm_create_params \<Rightarrow> ipa_rm_context_type \<Rightarrow> int \<times> ipa_rm_context_type" where
  "client_create params st =
     (if fst (ipa_rm_dep_graph_get_resource (cp_name params) st) = 0 then (- EEXIST, st)
      else case ipa_rm_resource_create (Some params) st of
        (result, resource, st1) \<Rightarrow>
          if result \<noteq> 0 then (result, st1)
          else case ipa_rm_dep_graph_add resource st1 of
            (result, st2) \<Rightarrow> if result \<noteq> 0 then (result, snd (ipa_rm_resource_delete resource st2)) else (0, st2))"

definition params_ok :: "ipa_rm_create_params \<Rightarrow> bool" where
  "params_ok params \<longleftrightarrow> valid_name (cp_name params) \<and>
     (odd (cp_name params) \<longrightarrow> cp_request_resource params \<noteq> None \<and> cp_release_resource params \<noteq> None)"

definition fresh_resource :: "ipa_rm_create_params \<Rightarrow> ipa_rm_resource \<Rightarrow> bool" where
  "fresh_resource params r \<longleftrightarrow> rs_name r = cp_name params \<and> res_ok r \<and> isolated r \<and> rs_state r = IPA_RM_RELEASED \<and>
     usage_count r = 0 \<and> needed_bw r = 0 \<and> max_bw r = 0"

definition introduce :: "nat \<Rightarrow> ipa_rm_resource \<Rightarrow> nat \<Rightarrow> ipa_rm_context_type \<Rightarrow> ipa_rm_context_type" where
  "introduce a r n st = st\<lparr>allocs := a, rm_next := rm_next st + 1, rm_heap := (rm_heap st)(rm_next st \<mapsto> r),
     resource_table := (resource_table st)[n := Some (rm_next st)]\<rparr>"

definition new_list :: ipa_rm_peers_list where
  "new_list = \<lparr>peers = replicate 22 null_peer, max_peers = 22, peers_count = 0\<rparr>"

lemma new_list_ok: "peers_ok new_list" "peer (Some new_list) n = None"
proof -
  have "peers_ok new_list \<and> (\<forall>n. peer (Some new_list) n = None)"
    by (rule new_peers_ok [where st = "st\<lparr>alloc_ok := \<lambda>_. True\<rparr>" for st]) (simp add: ipa_rm_peers_list_create_def kzalloc_pair new_list_def)
  then show "peers_ok new_list" "peer (Some new_list) n = None" by blast+
qed

lemma peers_list_create_eq:
  "ipa_rm_peers_list_create 22 st =
     (if \<not> alloc_ok st (allocs st) then (- ENOMEM, None, st\<lparr>allocs := allocs st + 1\<rparr>)
      else if \<not> alloc_ok st (allocs st + 1) then (- ENOMEM, None, st\<lparr>allocs := allocs st + 2\<rparr>)
      else (0, Some new_list, st\<lparr>allocs := allocs st + 2\<rparr>))"
  by (simp add: ipa_rm_peers_list_create_def kzalloc_pair new_list_def)

text \<open>What the creation does: it fails and leaves the heap, or it makes a fresh resource.\<close>

definition dropped :: "ipa_rm_context_type \<Rightarrow> ipa_rm_context_type \<Rightarrow> bool" where
  "dropped st st' \<longleftrightarrow> (\<exists>a n. rm_next st \<le> n \<and> st' = st\<lparr>allocs := a, rm_next := n\<rparr>)"

lemma delete_unborn:
  assumes "rm_heap st p = Some r" "peers_list r = None" "rs_type r = IPA_RM_PRODUCER \<Longrightarrow> rs_state r = IPA_RM_RELEASED"
  shows "ipa_rm_resource_delete (Some p) st = (0, st\<lparr>rm_heap := (rm_heap st)(p := None)\<rparr>)"
proof -
  have kfree: "kfree_resource p st' = st\<lparr>rm_heap := (rm_heap st)(p := None)\<rparr>"
    if "st' = st\<lparr>rm_heap := (rm_heap st)(p \<mapsto> r')\<rparr>" for st' r'
    by (simp add: that kfree_resource_def as_res_def flag_ub_def)
  have same: "st = st\<lparr>rm_heap := (rm_heap st)(p \<mapsto> r)\<rparr>"
    using assms(1) by (simp add: fun_upd_idem)
  have rel: "ipa_rm_resource_producer_release p st = (0, st)" if "rs_type r = IPA_RM_PRODUCER"
    using assms(3) [OF that] that by (simp add: ipa_rm_resource_producer_release_def live_simps(1,5) [OF assms(1)])
  have prod: "kfree_resource p (ipa_rm_resource_producer_delete p st) = st\<lparr>rm_heap := (rm_heap st)(p := None)\<rparr>"
    if "rs_type r = IPA_RM_PRODUCER"
    by (rule kfree) (simp add: ipa_rm_resource_producer_delete_def rel [OF that] live_simps(2) [OF assms(1)])
  show ?thesis
    unfolding ipa_rm_resource_delete_def option.case live_simps(1) [OF assms(1)] live_simps(3) [OF assms(1)] Let_def assms(2)
    using prod kfree [OF same] by simp
qed

lemma drop_new: "rm_heap st x = None \<Longrightarrow> (rm_heap st)(x \<mapsto> r, x := None) = rm_heap st"
  by auto

lemma resource_create_cases:
  assumes fresh: "rm_heap st (rm_next st) = None" and ok: "params_ok params"
  obtains
    e p st' where "ipa_rm_resource_create (Some params) st = (- ENOMEM, p, st')" "dropped st st'"
  | a r where "ipa_rm_resource_create (Some params) st =
      (0, Some (rm_next st), st\<lparr>allocs := a, rm_next := rm_next st + 1, rm_heap := (rm_heap st)(rm_next st \<mapsto> r)\<rparr>)" "fresh_resource params r"
proof -
  let ?x = "rm_next st"
  let ?name = "\<lambda>r. r\<lparr>peers_list := Some new_list, rs_name := cp_name params, floor_voltage := cp_floor_voltage params, rs_state := IPA_RM_RELEASED\<rparr>"
  let ?at = "\<lambda>k r. st\<lparr>allocs := allocs st + k, rm_next := ?x + 1, rm_heap := (rm_heap st)(?x \<mapsto> r)\<rparr>"
  note failed = that(1) and made = that(2)
  have same: "(rm_heap st)(rm_next st := None) = rm_heap st" using fresh by (simp add: fun_upd_idem)
  have dropI: "dropped st (st\<lparr>allocs := m, rm_next := ?x + 1\<rparr>)" for m
    unfolding dropped_def by (intro exI conjI) (rule le_add1, rule refl)
  have name: "cp_name params < 22" "valid_name (cp_name params)" using ok by (simp_all add: params_ok_def)
  have born: thesis if k: "(if IPA_RM_RESORCE_IS_PROD (cp_name params) then ipa_rm_resource_producer_create params st
                 else if IPA_RM_RESORCE_IS_CONS (cp_name params) then ipa_rm_resource_consumer_create params st
                 else (- EPERM, None, st)) = (0, Some ?x, ?at k r)"
      and r: "peers_list r = None" "rs_state r = IPA_RM_RELEASED" "usage_count r = 0" "needed_bw r = 0" "max_bw r = 0"
        "is_prod r = even (cp_name params)" "\<not> is_prod r \<longrightarrow> request_resource r \<noteq> None \<and> release_resource r \<noteq> None" for k r
  proof -
    have del: "ipa_rm_resource_delete (Some ?x) ((?at k r)\<lparr>allocs := m\<rparr>) = (0, st\<lparr>allocs := m, rm_next := ?x + 1\<rparr>)" for m
      using delete_unborn [of "(?at k r)\<lparr>allocs := m\<rparr>" ?x r] r(1,2) drop_new [OF fresh] by simp
    have fr: "fresh_resource params (?name r)"
      using r name new_list_ok by (auto simp: fresh_resource_def res_ok_def isolated_def is_prod_def)
    have up: "upd_res ?x ?name ((?at k r)\<lparr>allocs := m\<rparr>) =
        st\<lparr>allocs := m, rm_next := ?x + 1, rm_heap := (rm_heap st)(?x \<mapsto> ?name r)\<rparr>" for m
      by (simp add: upd_res_def)
    note c = ipa_rm_resource_create_def [of "Some params" st, unfolded option.case Let_def k prod.case option.case of_nat_numeral peers_list_create_eq, simplified]
    consider "\<not> alloc_ok st (allocs st + k)" | "alloc_ok st (allocs st + k)" "\<not> alloc_ok st (allocs st + k + 1)"
      | "alloc_ok st (allocs st + k)" "alloc_ok st (allocs st + k + 1)" by blast
    then show thesis
    proof cases
      case 1
      show thesis
      proof (rule failed)
        show "ipa_rm_resource_create (Some params) st = (- ENOMEM, Some ?x, st\<lparr>allocs := allocs st + k + 1, rm_next := ?x + 1\<rparr>)"
          using 1 by (simp add: c peers_list_create_eq del [of "allocs st + k + 1", simplified])
      qed (rule dropI)
    next
      case 2
      show thesis
      proof (rule failed)
        show "ipa_rm_resource_create (Some params) st = (- ENOMEM, Some ?x, st\<lparr>allocs := allocs st + k + 2, rm_next := ?x + 1\<rparr>)"
          using 2 by (simp add: c peers_list_create_eq del [of "allocs st + k + 2", simplified])
      qed (rule dropI)
    next
      case 3
      show thesis
      proof (rule made [OF _ fr])
        show "ipa_rm_resource_create (Some params) st =
            (0, Some ?x, st\<lparr>allocs := allocs st + k + 2, rm_next := ?x + 1, rm_heap := (rm_heap st)(?x \<mapsto> ?name r)\<rparr>)"
          using 3 by (simp add: c peers_list_create_eq up [of "allocs st + k + 2", simplified])
      qed
    qed
  qed
  let ?make = "if IPA_RM_RESORCE_IS_PROD (cp_name params) then ipa_rm_resource_producer_create params st
                 else if IPA_RM_RESORCE_IS_CONS (cp_name params) then ipa_rm_resource_consumer_create params st
                 else (- EPERM, None, st)"
  have unmade: thesis if k: "?make = (- ENOMEM, None, st')" "dropped st st'" for st'
    by (rule failed [OF _ k(2)]) (simp only: ipa_rm_resource_create_def option.case Let_def k(1) prod.case)
  have drop0: "dropped st (st\<lparr>allocs := m\<rparr>)" for m
    unfolding dropped_def by (rule exI [of _ m], rule exI [of _ ?x]) simp
  show thesis
  proof (cases "even (cp_name params)")
    case True
    let ?r = "zero_resource\<lparr>event_listeners := [\<lparr>notify_cb = reg_notify_cb (cp_reg_params params), user_data = reg_user_data (cp_reg_params params), explicit = False\<rparr>], rs_type := IPA_RM_PRODUCER\<rparr>"
    have make: "?make = ipa_rm_resource_producer_create params st" using True name(1) by (simp add: IPA_RM_RESORCE_IS_PROD_def)
    note defs = ipa_rm_resource_producer_create_def alloc_resource_def kzalloc_pair ipa_rm_resource_producer_register_def Let_def
      res_def upd_res_def as_prod_def as_res_def flag_ub_def kfree_resource_def zero_resource_def
    consider "\<not> alloc_ok st (allocs st)" | "alloc_ok st (allocs st)" "\<not> alloc_ok st (allocs st + 1)"
      | "alloc_ok st (allocs st)" "alloc_ok st (allocs st + 1)" by blast
    then show thesis
    proof cases
      case 1
      show thesis by (rule unmade [OF _ drop0 [of "allocs st + 1"]]) (simp only: make, simp add: 1 defs)
    next
      case 2
      show thesis
        by (rule unmade [OF _ dropI [of "allocs st + 2"]]) (simp only: make, simp add: 2 [simplified] defs, simp add: same)
    next
      case 3
      show thesis
        by (rule born [of ?r 2]) (simp only: make, simp_all add: 3 [simplified] defs is_prod_def True)
    qed
  next
    case False
    let ?r = "zero_resource\<lparr>request_resource := cp_request_resource params, release_resource := cp_release_resource params,
      rs_type := IPA_RM_CONSUMER, request_completed := False\<rparr>"
    have make: "?make = ipa_rm_resource_consumer_create params st"
      using False name(1) by (simp add: IPA_RM_RESORCE_IS_PROD_def IPA_RM_RESORCE_IS_CONS_def)
    note defs = ipa_rm_resource_consumer_create_def alloc_resource_def kzalloc_pair upd_res_def
    show thesis
    proof (cases "alloc_ok st (allocs st)")
      case no: False
      show thesis by (rule unmade [OF _ drop0 [of "allocs st + 1"]]) (simp only: make, simp add: no defs)
    next
      case yes: True
      show thesis
        by (rule born [of ?r 1])
          (simp only: make, simp_all add: yes defs zero_resource_def is_prod_def False ok [unfolded params_ok_def])
    qed
  qed
qed

lemma dropped_inv:
  assumes "dropped st st'"
  shows "inv_step st st'"
proof -
  obtain a n where n: "rm_next st \<le> n" and st': "st' = st\<lparr>allocs := a, rm_next := n\<rparr>" using assms by (auto simp: dropped_def)
  have "rm_wf st \<Longrightarrow> rm_wf st'" using n unfolding rm_wf_def st' by (simp, meson order_less_le_trans)
  moreover have "bw_ok st' = bw_ok st" "vote_ok st' = vote_ok st" "wq_ok st' = wq_ok st" "rm_exact st' = rm_exact st"
    "good_drivers st' = good_drivers st"
    by (simp_all add: st' bw_ok_def res_def vote_ok_def wq_ok_def rm_exact_def act_def fun_eq_iff exact_def cons_exact_def good_drivers_def)
  ultimately show ?thesis by (simp add: inv_step_def exact_inv_def rm_inv_def st')
qed

lemma load_none: "(\<And>m. f m = None) \<Longrightarrow> load w A f = 0"
  by (simp add: load_def)

lemma introduce_inv:
  assumes i: "rm_inv st" and f: "fresh_resource params r" and free: "resource_table st ! rs_name r = None"
  shows "inv_step st (introduce a r (rs_name r) st)"
proof -
  let ?x = "rm_next st" and ?st = "introduce a r (rs_name r) st"
  have wf: "rm_wf st" and bw: "bw_ok st" using i by (simp_all add: rm_inv_def)
  have ok: "res_ok r" and iso: "\<And>m. peer (peers_list r) m = None" using f by (simp_all add: fresh_resource_def isolated_def)
  have heap: "rm_heap ?st = (rm_heap st)(?x \<mapsto> r)" and tab: "resource_table ?st = (resource_table st)[rs_name r := Some ?x]"
    by (simp_all add: introduce_def)
  have len: "length (resource_table st) = 22" using wf by (simp add: rm_wf_def)
  have name: "rs_name r < 22" using ok by (simp add: res_ok_def)
  have below: "z < ?x" if "rm_heap st z = Some s" for z s using wf that by (simp add: rm_wf_def)
  have fresh: "rm_heap st ?x = None" using below by fastforce
  have other: "rs_name s \<noteq> rs_name r" if "rm_heap st z = Some s" for z s using wf_in_table [OF wf that] free by auto
  have away: "peer (peers_list s) m \<noteq> Some (?x, u)" if "rm_heap st z = Some s" for z s m u
    using wf_peer [OF wf that, of m ?x u] fresh by auto
  have at: "(z = ?x \<and> s = r) \<or> rm_heap st z = Some s" if "rm_heap ?st z = Some s" for z s using that by (auto simp: heap split: if_splits)
  have wf': "rm_wf ?st"
    unfolding rm_wf_def
  proof (intro conjI allI impI)
    show "length (resource_table ?st) = 22" using len by (simp add: tab)
  next
    fix n p assume n: "valid_name n" "resource_table ?st ! n = Some p"
    show "\<exists>r. rm_heap ?st p = Some r \<and> rs_name r = n"
    proof (cases "n = rs_name r")
      case True
      then show ?thesis using n len name by (auto simp: tab heap)
    next
      case False
      then have "resource_table st ! n = Some p" using n by (simp add: tab)
      with wf_table [OF wf n(1)] obtain s where "rm_heap st p = Some s" "rs_name s = n" by auto
      then show ?thesis using below by (auto simp: heap)
    qed
  next
    fix p s assume s: "rm_heap ?st p = Some s"
    show "res_ok s" using at [OF s] ok wf_res [OF wf] by auto
    show "p < rm_next ?st" using at [OF s] below by (auto simp: introduce_def intro: less_SucI)
    show "resource_table ?st ! rs_name s = Some p"
      using at [OF s]
    proof
      assume "p = ?x \<and> s = r"
      then show ?thesis using name len by (simp add: tab)
    next
      assume s': "rm_heap st p = Some s"
      then show ?thesis using wf_in_table [OF wf s'] other [OF s'] by (simp add: tab)
    qed
  next
    fix p s n q u assume s: "rm_heap ?st p = Some s" and q: "peer (peers_list s) n = Some (q, u)"
    then have s': "rm_heap st p = Some s" using at [OF s] iso by auto
    then show "\<exists>t. rm_heap ?st q = Some t \<and> rs_name t = n \<and> is_prod t = (\<not> is_prod s) \<and> peer (peers_list t) (rs_name s) = Some (p, u)"
      using wf_peer [OF wf s' q] away [OF s', of n u] q by (auto simp: heap)
  qed
  have mx: "(\<lambda>z. max_bw (res ?st z)) = (\<lambda>z. max_bw (res st z))(?x := max_bw r)"
    by (auto simp: fun_eq_iff res_def heap)
  have act: "(\<lambda>z. act ?st z n) = (\<lambda>z. act st z n)(?x := active r)" for n
    by (auto simp: fun_eq_iff act_def res_def heap)
  have nb: "needed_bw r = 0" "usage_count r = 0" "rs_state r = IPA_RM_RELEASED" using f by (simp_all add: fresh_resource_def)
  have bw': "bw_ok ?st" unfolding bw_ok_def
  proof (intro allI impI)
    fix z s assume s: "rm_heap ?st z = Some s" "is_prod s"
    show "needed_bw s = load (\<lambda>z. max_bw (res ?st z)) (\<lambda>_. True) (peer (peers_list s))"
      using at [OF s(1)]
    proof
      assume "z = ?x \<and> s = r"
      then show ?thesis using nb(1) load_none [where f = "peer (peers_list r)", OF iso] by simp
    next
      assume s': "rm_heap st z = Some s"
      show ?thesis
        unfolding mx load_elsewhere(1) [of "peer (peers_list s)", OF away [OF s']] using bw s' s(2) by (simp add: bw_ok_def)
    qed
  qed
  have inv': "rm_inv ?st"
    using i wf' bw' by (simp add: rm_inv_def introduce_def vote_ok_def wq_ok_def)
  have "rm_exact ?st" if ex: "rm_exact st"
  proof -
    have "cons_exact (act ?st) ?st s" if s: "rm_heap ?st c = Some s" "\<not> is_prod s" for c s
      using at [OF s(1)]
    proof
      assume "c = ?x \<and> s = r"
      then show ?thesis using nb by (simp add: cons_exact_def load_none [where f = "peer (peers_list r)", OF iso])
    next
      assume s': "rm_heap st c = Some s"
      have "cons_exact (act st) st s" using ex s' s(2) by (simp add: rm_exact_def exact_def)
      then show ?thesis
        unfolding cons_exact_def mx act load_elsewhere(1) [of "peer (peers_list s)", OF away [OF s']]
          load_elsewhere(2) [of "peer (peers_list s)", OF away [OF s']] .
    qed
    moreover have "rs_state s \<noteq> IPA_RM_RELEASE_IN_PROGRESS" if "rm_heap ?st z = Some s" "is_prod s" for z s
      using ex at [OF that(1)] that(2) nb(3) by (auto simp: rm_exact_def)
    ultimately show ?thesis by (simp add: rm_exact_def exact_def)
  qed
  then show ?thesis using inv' by (auto simp: inv_step_def exact_inv_def introduce_def good_drivers_def)
qed

lemma client_create_inv:
  assumes "params_ok params"
  shows "inv_step st (snd (client_create params st))"
proof (rule inv_stepI)
  assume i: "rm_inv st"
  then have wf: "rm_wf st" by (simp add: rm_inv_def)
  have fresh: "rm_heap st (rm_next st) = None" using wf by (cases "rm_heap st (rm_next st)") (auto simp: rm_wf_def)
  have v: "valid_name (cp_name params)" using assms by (simp add: params_ok_def)
  show ?thesis
  proof (cases "resource_table st ! cp_name params")
    case (Some p)
    then show ?thesis using v by (simp add: client_create_def get_resource_table)
  next
    case None
    then have l: "fst (ipa_rm_dep_graph_get_resource (cp_name params) st) \<noteq> 0" by (simp add: get_resource_table)
    show ?thesis
    proof (rule resource_create_cases [OF fresh assms])
      fix e p st' assume "ipa_rm_resource_create (Some params) st = (- ENOMEM, p, st')" "dropped st st'"
      then show ?thesis using l dropped_inv by (simp add: client_create_def)
    next
      fix a r assume c: "ipa_rm_resource_create (Some params) st =
        (0, Some (rm_next st), st\<lparr>allocs := a, rm_next := rm_next st + 1, rm_heap := (rm_heap st)(rm_next st \<mapsto> r)\<rparr>)"
        and f: "fresh_resource params r"
      have n: "rs_name r = cp_name params" using f by (simp add: fresh_resource_def)
      have "snd (client_create params st) = introduce a r (rs_name r) st"
        using l v n by (simp add: client_create_def c ipa_rm_dep_graph_add_def res_def as_res_def flag_ub_def dep_index introduce_def)
      then show ?thesis using introduce_inv [OF i f] None n by simp
    qed
  qed
qed

end
