(* ===== verification/Rm_Machine.thy ===== *)
theory Rm_Machine
  imports Rm_Lifecycle
begin

text \<open>
  The resource manager as a machine: its clients, its work queue and its timers make steps in any
  order. Every run from the start keeps the invariant, and with good drivers the accounts.
\<close>

section \<open>Steps\<close>

text \<open>
  A client names the resources; it may create a resource, wait for the completion of a consumer
  for the given time, and report the completion of its driver with a work for the queue.
\<close>

datatype rm_step_event =
    Ev_Create ipa_rm_create_params
  | Ev_Delete nat
  | Ev_Register nat ipa_rm_register_params bool
  | Ev_Deregister nat ipa_rm_register_params
  | Ev_Add_Dependency nat nat bool
  | Ev_Add_Dependency_Sync nat nat nat bool
  | Ev_Delete_Dependency nat nat bool
  | Ev_Request nat
  | Ev_Release nat
  | Ev_Set_Perf nat u32
  | Ev_Request_With_Timer nat
  | Ev_Completion nat ipa_rm_event
  | Ev_Stat bool int
  | Ev_Wq
  | Ev_Timer nat

definition with_producer :: "nat \<Rightarrow> (nat \<Rightarrow> ipa_rm_context_type \<Rightarrow> ipa_rm_context_type) \<Rightarrow> ipa_rm_context_type \<Rightarrow> ipa_rm_context_type" where
  "with_producer n f st =
     (if \<not> IPA_RM_RESORCE_IS_PROD n then st
      else case ipa_rm_dep_graph_get_resource n st of (_, None) \<Rightarrow> st | (_, Some p) \<Rightarrow> f p st)"

fun rm_step :: "rm_step_event \<Rightarrow> ipa_rm_context_type \<Rightarrow> ipa_rm_context_type" where
  "rm_step (Ev_Create params) st = snd (client_create params st)"
| "rm_step (Ev_Delete n) st = snd (client_delete n st)"
| "rm_step (Ev_Register n params e) st = with_producer n (\<lambda>p s. snd (ipa_rm_resource_producer_register (Some p) (Some params) e s)) st"
| "rm_step (Ev_Deregister n params) st = with_producer n (\<lambda>p s. snd (ipa_rm_resource_producer_deregister (Some p) (Some params) s)) st"
| "rm_step (Ev_Add_Dependency n m u) st = snd (ipa_rm_add_dependency_core n m u st)"
| "rm_step (Ev_Add_Dependency_Sync t n m u) st = snd (ipa_rm_add_dependency_sync_core t n m u st)"
| "rm_step (Ev_Delete_Dependency n m u) st = snd (ipa_rm_delete_dependency_core n m u st)"
| "rm_step (Ev_Request n) st = with_producer n (\<lambda>p s. snd (ipa_rm_resource_producer_request p s)) st"
| "rm_step (Ev_Release n) st = with_producer n (\<lambda>p s. snd (ipa_rm_resource_producer_release p s)) st"
| "rm_step (Ev_Set_Perf n bw) st =
     (case ipa_rm_dep_graph_get_resource n st of (_, None) \<Rightarrow> st
      | (_, Some p) \<Rightarrow> snd (ipa_rm_resource_set_perf_profile (Some p) (Some bw) st))"
| "rm_step (Ev_Request_With_Timer n) st = snd (ipa_rm_request_resource_with_timer n st)"
| "rm_step (Ev_Completion n ev) st = snd (ipa_rm_wq_send_cmd IPA_RM_WQ_RESOURCE_CB n ev False st)"
| "rm_step (Ev_Stat b sz) st = snd (snd (ipa_rm_stat b sz st))"
| "rm_step Ev_Wq st = wq_step st"
| "rm_step (Ev_Timer k) st = timer_step k st"

text \<open>Names of new resources are enumerators, and completions are for consumers.\<close>

fun rm_ok :: "rm_step_event \<Rightarrow> bool" where
  "rm_ok (Ev_Create params) = params_ok params"
| "rm_ok (Ev_Completion n ev) = IPA_RM_RESORCE_IS_CONS n"
| "rm_ok _ = True"

section \<open>Every step keeps the invariant\<close>

lemma inv_wf: "rm_inv st \<Longrightarrow> rm_wf st" "rm_inv st \<Longrightarrow> ipa_rm_ctx st = Ctx_Live" "rm_inv st \<Longrightarrow> wq_ok st"
  by (simp_all add: rm_inv_def)

lemma with_producer_inv:
  assumes "\<And>p r. rm_wf st \<Longrightarrow> rm_heap st p = Some r \<Longrightarrow> is_prod r \<Longrightarrow> good_step st (f p st)"
  shows "inv_step st (with_producer n f st)"
proof (rule inv_stepI)
  assume i: "rm_inv st"
  show ?thesis
  proof (cases "IPA_RM_RESORCE_IS_PROD n")
    case True
    show ?thesis
      by (rule lookup_cases [OF inv_wf(1) [OF i], of n])
        (use True prod_name(1) [OF True] good_inv [OF assms [OF inv_wf(1) [OF i]]] in \<open>auto simp: with_producer_def\<close>)
  qed (simp add: with_producer_def)
qed

lemma set_perf_step_inv: "inv_step st (rm_step (Ev_Set_Perf n bw) st)"
proof (rule inv_stepI)
  assume i: "rm_inv st"
  note wf = inv_wf(1) [OF i]
  show ?thesis
    by (rule lookup_cases [OF wf, of n]) (use good_inv [OF set_perf_profile_good [OF wf]] in auto)
qed

text \<open>A dependency of named resources.\<close>

lemma graph_dependency_cases:
  assumes wf: "rm_wf st"
  obtains "ipa_rm_dep_graph_add_dependency n m u st = (- EINVAL, st)" "ipa_rm_dep_graph_delete_dependency n m u st = (- EINVAL, st)"
    "\<not> (IPA_RM_RESORCE_IS_PROD n \<and> IPA_RM_RESORCE_IS_CONS m \<and>
       fst (ipa_rm_dep_graph_get_resource n st) = 0 \<and> fst (ipa_rm_dep_graph_get_resource m st) = 0)"
  | p rp q rq where "rm_heap st p = Some rp" "is_prod rp" "rs_name rp = n" "rm_heap st q = Some rq" "\<not> is_prod rq" "rs_name rq = m"
    "ipa_rm_dep_graph_get_resource n st = (0, Some p)" "ipa_rm_dep_graph_get_resource m st = (0, Some q)"
    "ipa_rm_dep_graph_add_dependency n m u st = ipa_rm_resource_add_dependency (Some p) (Some q) u st"
    "ipa_rm_dep_graph_delete_dependency n m u st = ipa_rm_resource_delete_dependency (Some p) (Some q) u st"
proof (cases "IPA_RM_RESORCE_IS_PROD n \<and> IPA_RM_RESORCE_IS_CONS m")
  case False
  then show thesis
    by (intro that(1)) (auto simp: ipa_rm_dep_graph_add_dependency_def ipa_rm_dep_graph_delete_dependency_def)
next
  case True
  note defs = ipa_rm_dep_graph_add_dependency_def ipa_rm_dep_graph_delete_dependency_def
  have e: "even n" "odd m" using True prod_name by auto
  show thesis
  proof (rule lookup_cases [OF wf, of n])
    assume "ipa_rm_dep_graph_get_resource n st = (- EINVAL, None)"
    then show thesis using True by (intro that(1)) (simp_all add: defs)
  next
    fix p rp assume p: "ipa_rm_dep_graph_get_resource n st = (0, Some p)" "rm_heap st p = Some rp" "rs_name rp = n" "is_prod rp = even n"
    show thesis
    proof (rule lookup_cases [OF wf, of m])
      assume "ipa_rm_dep_graph_get_resource m st = (- EINVAL, None)"
      then show thesis using True p(1) by (intro that(1)) (simp_all add: defs)
    next
      fix q rq assume q: "ipa_rm_dep_graph_get_resource m st = (0, Some q)" "rm_heap st q = Some rq" "rs_name rq = m" "is_prod rq = even m"
      show thesis
        by (rule that(2) [of p rp q rq]) (use p q True e in \<open>simp_all add: defs\<close>)
    qed
  qed
qed

lemma graph_dependency_good:
  assumes wf: "rm_wf st"
  shows "good_step st (snd (ipa_rm_dep_graph_add_dependency n m u st))"
    and "good_step st (snd (ipa_rm_dep_graph_delete_dependency n m u st))"
  by (rule graph_dependency_cases [OF wf, of n m u]; simp add: good_step_refl [OF wf] add_dependency_good [OF wf] delete_dependency_good [OF wf])+

lemma add_sync_good:
  assumes wf: "rm_wf st" and live: "ipa_rm_ctx st = Ctx_Live"
  shows "good_step st (snd (ipa_rm_add_dependency_sync_core t n m u st))"
proof (rule graph_dependency_cases [OF wf, of n m u])
  assume "ipa_rm_dep_graph_add_dependency n m u st = (- EINVAL, st)"
  then show ?thesis using live good_step_refl [OF wf] by (simp add: ipa_rm_add_dependency_sync_core_def)
next
  fix p rp q rq assume q: "rm_heap st q = Some rq" "\<not> is_prod rq" and l: "ipa_rm_dep_graph_get_resource m st = (0, Some q)"
  let ?add = "ipa_rm_dep_graph_add_dependency n m u st"
  have g: "good_step st (snd ?add)" by (rule graph_dependency_good [OF wf])
  have l': "ipa_rm_dep_graph_get_resource m (snd ?add) = (0, Some q)"
    using l good_step_wf(2) [OF g] by (simp only: ipa_rm_dep_graph_get_resource_def frame_def)
  have v: "valid_name m" "resource_table (snd ?add) ! m = Some q"
    using l' by (auto simp: get_resource_table split: if_splits option.splits)
  obtain rq' where rq': "rm_heap (snd ?add) q = Some rq'" "rs_name rq' = m"
    using wf_table [OF good_step_wf(1) [OF g] v] by auto
  have nm: "rs_name rq = m" using wf_table [OF wf, of m q] l q(1) by (auto simp: get_resource_table split: if_splits option.splits)
  have "\<not> is_prod rq'" using wf_res [OF good_step_wf(1) [OF g] rq'(1)] wf_res [OF wf q(1)] q(2) rq'(2) nm by (simp add: res_ok_def)
  then have "rs_type rq' = IPA_RM_CONSUMER" by (cases "rs_type rq'") (simp_all add: is_prod_def)
  then have "as_cons q (snd ?add) = snd ?add" using rq'(1) by (simp add: live_simps(6))
  then show ?thesis using live g l' by (simp add: ipa_rm_add_dependency_sync_core_def split_beta)
qed

section \<open>The statistics\<close>

lemma emit_fits: "length tx < sz \<Longrightarrow> length (emit sz s tx) < sz" "emit 0 s tx = tx"
  by (simp_all add: emit_def)

lemma print_stat_loop_ok:
  assumes "rm_wf st" "rm_heap st p = Some r" "i + n \<le> 22"
  shows "snd (print_stat_loop n i p sz tx st) = st \<and>
    (length tx < sz \<longrightarrow> length (fst (print_stat_loop n i p sz tx st)) < sz) \<and>
    (sz = 0 \<longrightarrow> fst (print_stat_loop n i p sz tx st) = tx)"
  using assms
proof (induction n arbitrary: i tx)
  case (Suc n)
  show ?case
  proof (cases "peer (peers_list r) i")
    case None
    then show ?thesis using loop_peer_ok [OF Suc.prems(1,2), of i] Suc.IH [of "Suc i" tx] Suc.prems by simp
  next
    case (Some qu)
    then obtain q u where q: "peer (peers_list r) i = Some (q, u)" by (cases qu) auto
    obtain s where s: "rm_heap st q = Some s" using wf_peer [OF Suc.prems(1,2) q] by auto
    let ?tx = "emit_peer sz (res st q) tx"
    have "print_stat_loop (Suc n) i p sz tx st = print_stat_loop n (Suc i) p sz ?tx st"
      using loop_peer_ok [OF Suc.prems(1,2), of i] q Suc.prems(3) by (simp add: Let_def live_simps(3) [OF s])
    moreover have "length tx < sz \<longrightarrow> length ?tx < sz" "sz = 0 \<longrightarrow> ?tx = tx" by (simp_all add: emit_peer_def Let_def emit_fits)
    moreover have "snd (print_stat_loop n (Suc i) p sz ?tx st) = st \<and>
      (length ?tx < sz \<longrightarrow> length (fst (print_stat_loop n (Suc i) p sz ?tx st)) < sz) \<and>
      (sz = 0 \<longrightarrow> fst (print_stat_loop n (Suc i) p sz ?tx st) = ?tx)"
      using Suc.prems by (intro Suc.IH) simp_all
    ultimately show ?thesis by metis
  qed
qed simp

lemma print_stat_ok:
  assumes wf: "rm_wf st" and p: "rm_heap st p = Some r" and sz: "0 \<le> sz"
  shows "\<exists>t. ipa_rm_resource_producer_print_stat p sz st = (int (length t), t, st) \<and> (0 < sz \<longrightarrow> int (length t) < sz) \<and> (sz = 0 \<longrightarrow> t = [])"
proof -
  let ?n = "nat sz"
  let ?t = "emit ?n (state_str (rs_state r) @ '' -> '')
      (emit ?n (''['' @ show_d (max_bw r) @ '', '') (emit ?n (ipa_rm_resource_str (rs_name r)) []))"
  let ?loop = "print_stat_loop 22 0 p ?n ?t st"
  let ?last = "emit ?n [char_of (10 :: nat)] (fst ?loop)"
  have "0 + 22 \<le> (22 :: nat)" by simp
  note loop = print_stat_loop_ok [OF wf p this, of ?n ?t]
  have st: "snd ?loop = st" using loop by simp
  have pl: "(peers_list r = None) = False" using wf_res [OF wf p] by (auto simp: res_ok_def)
  have "ipa_rm_resource_producer_print_stat p sz st = (int (length ?last), ?last, st)"
    using sz st by (simp add: ipa_rm_resource_producer_print_stat_def live_simps(1,3) [OF p] Let_def pl loop_size_ok [OF wf p] split_beta)
  moreover have "0 < sz \<longrightarrow> int (length ?last) < sz"
  proof
    assume "0 < sz"
    then have "length ?t < ?n" by (intro emit_fits(1)) simp
    then have "length ?last < ?n" using loop by (intro emit_fits(1)) blast
    then show "int (length ?last) < sz" by linarith
  qed
  moreover have "sz = 0 \<longrightarrow> ?last = []" using loop by (simp add: emit_fits(2))
  ultimately show ?thesis by blast
qed

lemma stat_loop_ok:
  assumes wf: "rm_wf st" and fit: "int (length tx) < sz \<or> (sz = 0 \<and> tx = [])"
  shows "\<exists>t. stat_loop ns sz tx st = (Inr t, st) \<and> (int (length t) < sz \<or> (sz = 0 \<and> t = []))"
  using fit
proof (induction ns arbitrary: tx)
  case (Cons n ns)
  show ?case
  proof (cases "IPA_RM_RESORCE_IS_PROD n")
    case False
    then show ?thesis using Cons by simp
  next
    case True
    show ?thesis
    proof (rule lookup_cases [OF wf, of n])
      assume "ipa_rm_dep_graph_get_resource n st = (- EINVAL, None)"
      then show ?thesis using Cons True by simp
    next
      fix p r assume l: "ipa_rm_dep_graph_get_resource n st = (0, Some p)" and p: "rm_heap st p = Some r"
      have "0 \<le> sz - int (length tx)" using Cons.prems by auto
      then obtain t where t: "ipa_rm_resource_producer_print_stat p (sz - int (length tx)) st = (int (length t), t, st)"
        "0 < sz - int (length tx) \<longrightarrow> int (length t) < sz - int (length tx)" "sz - int (length tx) = 0 \<longrightarrow> t = []"
        using print_stat_ok [OF wf p] by blast
      have "int (length (tx @ t)) < sz \<or> (sz = 0 \<and> tx @ t = [])" using t(2,3) Cons.prems by auto
      from Cons.IH [OF this] show ?thesis using True l t(1) by simp
    qed
  qed
qed simp

lemma stat_ok:
  assumes i: "rm_inv st" and sz: "0 \<le> sz"
  shows "\<exists>t. ipa_rm_stat False sz st = (int (length t), t, st) \<and> (int (length t) < sz \<or> (sz = 0 \<and> t = []))"
proof -
  have live: "use_ctx st = st" using inv_wf(2) [OF i] by simp
  have "int (length ([] :: string)) < sz \<or> (sz = 0 \<and> ([] :: string) = [])" using sz by auto
  from stat_loop_ok [OF inv_wf(1) [OF i] this, of "[0..<22]"]
  obtain t where t: "stat_loop [0..<22] sz [] st = (Inr t, st)" "int (length t) < sz \<or> (sz = 0 \<and> t = [])" by blast
  let ?e = "\<lambda>a b. emit (nat sz) a (emit (nat sz) b t)"
  have "int (length (?e a b)) < sz \<or> (sz = 0 \<and> ?e a b = [])" for a b
  proof (cases "sz = 0")
    case True
    then show ?thesis using t(2) by (auto simp: emit_fits(2))
  next
    case False
    then have "length (?e a b) < nat sz" using t(2) by (intro emit_fits(1)) auto
    then show ?thesis by linarith
  qed
  then show ?thesis using sz by (simp add: ipa_rm_stat_def live t(1) Let_def del: upt.simps)
qed

lemma stat_inv: "inv_step st (snd (snd (ipa_rm_stat b sz st)))"
proof (rule inv_stepI)
  assume i: "rm_inv st"
  show ?thesis
  proof (cases "b \<or> sz < 0")
    case True
    then show ?thesis by (simp add: ipa_rm_stat_def)
  next
    case False
    then show ?thesis using stat_ok [OF i, of sz] by auto
  qed
qed

section \<open>The machine keeps its invariants\<close>

lemma rm_step_inv:
  assumes ok: "rm_ok e"
  shows "inv_step st (rm_step e st)"
proof (rule inv_stepI)
  assume i: "rm_inv st"
  note wf = inv_wf(1) [OF i] and live = inv_wf(2) [OF i]
  show ?thesis
  proof (cases e)
    case (Ev_Create params)
    then show ?thesis using client_create_inv ok by simp
  next
    case (Ev_Delete n)
    then show ?thesis using client_delete_inv by simp
  next
    case (Ev_Register n params b)
    then show ?thesis by (simp add: with_producer_inv register_good)
  next
    case (Ev_Deregister n params)
    then show ?thesis by (simp add: with_producer_inv deregister_good)
  next
    case (Ev_Add_Dependency n m u)
    then show ?thesis using good_inv [OF graph_dependency_good(1) [OF wf]] live by (simp add: ipa_rm_add_dependency_core_def)
  next
    case (Ev_Add_Dependency_Sync t n m u)
    then show ?thesis using good_inv [OF add_sync_good [OF wf live]] by simp
  next
    case (Ev_Delete_Dependency n m u)
    then show ?thesis using good_inv [OF graph_dependency_good(2) [OF wf]] live by (simp add: ipa_rm_delete_dependency_core_def)
  next
    case (Ev_Request n)
    then show ?thesis by (simp add: with_producer_inv producer_request_good)
  next
    case (Ev_Release n)
    then show ?thesis by (simp add: with_producer_inv producer_release_good)
  next
    case (Ev_Set_Perf n bw)
    then show ?thesis using set_perf_step_inv by simp
  next
    case (Ev_Request_With_Timer n)
    then show ?thesis using with_timer_inv by simp
  next
    case (Ev_Completion n ev)
    then have "work_ok (Wq_Work IPA_RM_WQ_RESOURCE_CB n ev False)" using ok by simp
    from good_inv [OF keeps_heap_good [OF wf frame_queue [OF this]]] show ?thesis
      using Ev_Completion by (simp add: ipa_rm_wq_send_cmd_def)
  next
    case (Ev_Stat b sz)
    then show ?thesis using stat_inv by simp
  next
    case Ev_Wq
    then show ?thesis using good_inv [OF wq_step_good [OF wf live inv_wf(3) [OF i]]] by simp
  next
    case (Ev_Timer k)
    then show ?thesis using timer_step_inv by simp
  qed
qed

interpretation rm: safe_machine rm_step rm_ok rm_inv
  by unfold_locales (use rm_step_inv in \<open>auto simp: inv_step_def\<close>)

interpretation rm_use: safe_machine rm_step rm_ok exact_inv
  by unfold_locales (use rm_step_inv in \<open>auto simp: inv_step_def\<close>)

end
