(* ===== verification/Rm_Claims.thy ===== *)
theory Rm_Claims
  imports Rm_Machine
begin

text \<open>
  The properties of the resource manager: what holds in every run of the machine, what a request
  and a release promise, the abstract dependency graph, and the statistics.
\<close>

section \<open>The start\<close>

text \<open>The memory before the module is loaded, for any allocator and any drivers.\<close>

definition rm_boot :: "(nat \<Rightarrow> bool) \<Rightarrow> (nat \<Rightarrow> int) \<Rightarrow> ipa_rm_context_type" where
  "rm_boot ok dr = \<lparr>ipa_rm_ctx = Ctx_Null, rm_heap = (\<lambda>_. None), rm_next = 0, resource_table = [], vote_volt = [],
     curr_volt = IPA_VOLTAGE_UNSPECIFIED, bw_resources = [], curr_bw = 0, ipa_rm_wq = [], delayed_works = [],
     alloc_ok = ok, allocs = 0, driver_result = dr, driver_calls = 0, rm_log = [], rm_ub = False\<rparr>"

lemma max_volt_zero: "max_volt (replicate 22 IPA_VOLTAGE_UNSPECIFIED) = IPA_VOLTAGE_UNSPECIFIED"
  by (subst max_volt_Max) simp_all

lemma sum_bw_zero: "sum_bw sel (replicate 22 0) = 0"
proof -
  have "fold (\<lambda>i s. if sel i then s + replicate 22 0 ! i else s) xs 0 = (0 :: u32)" if "set xs \<subseteq> {..<22}" for xs
    using that by (induction xs) auto
  from this [of "[0..<22]"] show ?thesis by (simp add: sum_bw_def atLeast0LessThan del: upt.simps)
qed

lemma boot_inv:
  assumes "ipa_rm_initialize (rm_boot ok dr) = (0, st)"
  shows "rm_inv st" "rm_exact st" "driver_result st = dr"
proof -
  have st: "st = (new_context (rm_boot ok dr))\<lparr>allocs := 3\<rparr>"
    using assms by (auto simp: ipa_rm_initialize_def kzalloc_pair new_context_def rm_boot_def numeral_3_eq_3 split: bool.splits)
  show "rm_inv st" "rm_exact st" "driver_result st = dr"
    unfolding st
    by (simp_all add: rm_inv_def rm_wf_def bw_ok_def vote_ok_def wq_ok_def rm_exact_def exact_def new_context_def rm_boot_def
        max_volt_zero sum_bw_zero)
qed

section \<open>Requests that are granted\<close>

text \<open>The loop of a request leaves every consumer alone whose name it does not reach.\<close>

lemma request_loop_other:
  assumes "rm_wf st" "rm_heap st p = Some rp" "is_prod rp" "i + n \<le> 22" "rm_heap st z = Some rz" "\<not> is_prod rz" "rs_name rz < i"
  shows "rm_heap (snd (producer_request_loop n i p res0 st)) z = Some rz"
  using assms
proof (induction n arbitrary: i st rp res0)
  case (Suc n)
  note loop = loop_peer_ok [OF Suc.prems(1,2), of i]
  have step: "rm_heap (snd (producer_request_loop n (Suc i) p y st')) z = Some rz"
    if k: "keeps core_prod st st'" and z: "rm_heap st' z = Some rz" for st' y
  proof -
    obtain r where r: "rm_heap st' p = Some r" "is_prod r = is_prod rp" by (rule keeps_core_res [OF k Suc.prems(2)])
    show ?thesis
      using Suc.prems keeps_wf [OF keeps_prod_core [OF k]] r z by (intro Suc.IH [where rp = r]) auto
  qed
  show ?case
  proof (cases "peer (peers_list rp) i")
    case None
    then show ?thesis using step [OF keeps_refl Suc.prems(5)] loop Suc.prems(4) by simp
  next
    case (Some qu)
    then obtain q u where q: "peer (peers_list rp) i = Some (q, u)" by (cases qu) auto
    obtain rq where rq: "cons_at st q rq" "rs_name rq = i" "q \<noteq> p" by (rule peer_cons [OF Suc.prems(1-3) q])
    have zq: "z \<noteq> q" using rq Suc.prems(5,7) by (auto simp: cons_at_def)
    have zp: "z \<noteq> p" using Suc.prems(2,3,5,6) by auto
    let ?st2 = "upd_res p (\<lambda>r. r\<lparr>pending_request := pending_request r + 1\<rparr>) st"
    let ?rp2 = "rp\<lparr>pending_request := pending_request rp + 1\<rparr>"
    let ?req = "ipa_rm_resource_consumer_request q (max_bw ?rp2) True False ?st2"
    let ?st4 = "upd_res p (\<lambda>r. r\<lparr>pending_request := pending_request r - 1\<rparr>) (snd ?req)"
    have o2: "only p ?rp2 st ?st2" by (rule only_upd [OF only_refl [OF Suc.prems(2)]])
    then have heap2: "rm_heap ?st2 p = Some ?rp2" "rm_heap ?st2 q = Some rq" using rq by (auto simp: only_def cons_at_def)
    have k2: "keeps core_prod st ?st2" by (rule upd_pending_keeps [OF keeps_refl Suc.prems(2)])
    have wf2: "rm_wf ?st2" by (rule keeps_wf [OF keeps_prod_core [OF k2] Suc.prems(1)])
    have c2: "cons_at ?st2 q rq" using heap2 rq(1) by (simp add: cons_at_def)
    obtain r' where r': "only q r' ?st2 (snd ?req)"
      using consumer_request_only [OF c2 wf_table_live [OF wf2], of "max_bw ?rp2" True False] by (elim exE conjE)
    have k3: "keeps core_prod st (snd ?req)" by (rule request_peer_keeps(1) [OF Suc.prems(1-3) q k2])
    have k4: "keeps core_prod st ?st4" by (rule upd_pending_keeps [OF k3 Suc.prems(2)])
    have z3: "rm_heap (snd ?req) z = Some rz" using r' o2 zq zp Suc.prems(5) by (simp add: only_def)
    have z4: "rm_heap ?st4 z = Some rz" using z3 zp by (simp add: upd_res_def split: option.split)
    show ?thesis
      using loop q Suc.prems(4) step [OF k3 z3] step [OF k4 z4] z4 by (simp add: Let_def request_peer_def split_beta live_simps(1) [OF heap2(1)])
  qed
qed simp

text \<open>A consumer that fails ends the loop, and a pending consumer shows in the result.\<close>

lemma request_loop_next:
  assumes wf: "rm_wf st" and p: "rm_heap st p = Some rp" "is_prod rp" and q: "peer (peers_list rp) i = Some (q, u)" "i < 22"
  obtains e st3 where
    "keeps core_prod st st3" "rm_heap st3 p = Some (rp\<lparr>pending_request := pending_request rp + 1\<rparr>)" "e = - EINPROGRESS"
    "\<And>n r0. producer_request_loop (Suc n) i p r0 st = producer_request_loop n (Suc i) p (- EINPROGRESS) st3"
  | st4 where "keeps core_prod st st4" "rm_heap st4 p = Some rp"
    "\<And>n r0. producer_request_loop (Suc n) i p r0 st = producer_request_loop n (Suc i) p r0 st4"
  | e st4 where "e \<noteq> 0" "e \<noteq> - EINPROGRESS" "\<And>n r0. producer_request_loop (Suc n) i p r0 st = (Inr e, st4)"
proof -
  note loop = loop_peer_ok [OF wf p(1) q(2)]
  obtain rq where rq: "cons_at st q rq" "rs_name rq = i" "q \<noteq> p" by (rule peer_cons [OF wf p q(1)])
  let ?st2 = "upd_res p (\<lambda>r. r\<lparr>pending_request := pending_request r + 1\<rparr>) st"
  let ?rp2 = "rp\<lparr>pending_request := pending_request rp + 1\<rparr>"
  let ?req = "ipa_rm_resource_consumer_request q (max_bw ?rp2) True False ?st2"
  let ?st4 = "upd_res p (\<lambda>r. r\<lparr>pending_request := pending_request r - 1\<rparr>) (snd ?req)"
  have o2: "only p ?rp2 st ?st2" by (rule only_upd [OF only_refl [OF p(1)]])
  then have heap2: "rm_heap ?st2 p = Some ?rp2" "rm_heap ?st2 q = Some rq" using rq by (auto simp: only_def cons_at_def)
  have k2: "keeps core_prod st ?st2" by (rule upd_pending_keeps [OF keeps_refl p(1)])
  have wf2: "rm_wf ?st2" by (rule keeps_wf [OF keeps_prod_core [OF k2] wf])
  have c2: "cons_at ?st2 q rq" using heap2 rq(1) by (simp add: cons_at_def)
  obtain r' where r': "only q r' ?st2 (snd ?req)"
    using consumer_request_only [OF c2 wf_table_live [OF wf2], of "max_bw ?rp2" True False] by (elim exE conjE)
  have k3: "keeps core_prod st (snd ?req)" by (rule request_peer_keeps(1) [OF wf p q(1) k2])
  have p3: "rm_heap (snd ?req) p = Some ?rp2" using r' heap2(1) rq(3) by (simp add: only_def)
  have p4: "rm_heap ?st4 p = Some rp" unfolding live_simps(2) [OF p3] by simp
  have k4: "keeps core_prod st ?st4" by (rule upd_pending_keeps [OF k3 p(1)])
  have eq: "producer_request_loop (Suc n) i p r0 st =
     (if fst ?req = - EINPROGRESS then producer_request_loop n (Suc i) p (- EINPROGRESS) (snd ?req)
      else if fst ?req \<noteq> 0 then (Inr (fst ?req), ?st4) else producer_request_loop n (Suc i) p r0 ?st4)" for n r0
    using loop q by (simp add: Let_def request_peer_def split_beta live_simps(1) [OF heap2(1)])
  consider "fst ?req = - EINPROGRESS" | "fst ?req = 0" | "fst ?req \<noteq> - EINPROGRESS" "fst ?req \<noteq> 0" by blast
  then show thesis
  proof cases
    case 1
    show thesis by (rule that(1) [OF k3 p3 1]) (simp only: eq 1 simp_thms if_True)
  next
    case 2
    show thesis by (rule that(2) [OF k4 p4]) (simp only: eq 2, simp)
  next
    case 3
    show thesis by (rule that(3) [OF 3(2,1)]) (simp only: eq 3 simp_thms if_False if_True)
  qed
qed

text \<open>
  The loop counts the consumers whose request is in progress; when none is, all of them are granted.
\<close>

lemma request_loop_granted:
  assumes "rm_wf st" "rm_heap st p = Some rp" "is_prod rp" "i + n \<le> 22" "fst (producer_request_loop n i p res0 st) = Inl x"
  shows "pending_request rp \<le> pending_request (res (snd (producer_request_loop n i p res0 st)) p) \<and>
    (pending_request (res (snd (producer_request_loop n i p res0 st)) p) = pending_request rp \<longrightarrow>
      (\<forall>m q u. i \<le> m \<longrightarrow> m < i + n \<longrightarrow> peer (peers_list rp) m = Some (q, u) \<longrightarrow>
         rs_state (res (snd (producer_request_loop n i p res0 st)) q) = IPA_RM_GRANTED))"
  using assms
proof (induction n arbitrary: i st rp res0)
  case 0
  then show ?case by (simp add: live_simps(1))
next
  case (Suc n)
  note loop = loop_peer_ok [OF Suc.prems(1,2), of i]
  show ?case
  proof (cases "peer (peers_list rp) i")
    case None
    then have eq: "producer_request_loop (Suc n) i p res0 st = producer_request_loop n (Suc i) p res0 st"
      using loop Suc.prems(4) by simp
    have range: "Suc i \<le> m \<and> m < Suc i + n" if "i \<le> m" "m < i + Suc n" "peer (peers_list rp) m = Some y" for m y
      using None that by (cases "m = i") auto
    have "fst (producer_request_loop n (Suc i) p res0 st) = Inl x" using Suc.prems(5) eq by simp
    from Suc.IH [OF Suc.prems(1-3) _ this] show ?thesis unfolding eq using Suc.prems(4) range by (metis add_Suc_shift)
  next
    case (Some qu)
    then obtain q u where q: "peer (peers_list rp) i = Some (q, u)" by (cases qu) auto
    obtain rq where rq: "cons_at st q rq" "rs_name rq = i" "q \<noteq> p" by (rule peer_cons [OF Suc.prems(1-3) q])
    let ?st2 = "upd_res p (\<lambda>r. r\<lparr>pending_request := pending_request r + 1\<rparr>) st"
    let ?rp2 = "rp\<lparr>pending_request := pending_request rp + 1\<rparr>"
    let ?req = "ipa_rm_resource_consumer_request q (max_bw ?rp2) True False ?st2"
    let ?st4 = "upd_res p (\<lambda>r. r\<lparr>pending_request := pending_request r - 1\<rparr>) (snd ?req)"
    have o2: "only p ?rp2 st ?st2" by (rule only_upd [OF only_refl [OF Suc.prems(2)]])
    then have heap2: "rm_heap ?st2 p = Some ?rp2" "rm_heap ?st2 q = Some rq" using rq by (auto simp: only_def cons_at_def)
    have k2: "keeps core_prod st ?st2" by (rule upd_pending_keeps [OF keeps_refl Suc.prems(2)])
    have wf2: "rm_wf ?st2" by (rule keeps_wf [OF keeps_prod_core [OF k2] Suc.prems(1)])
    have c2: "cons_at ?st2 q rq" using heap2 rq(1) by (simp add: cons_at_def)
    obtain r' where r': "only q r' ?st2 (snd ?req)" "request_effect (max_bw ?rp2) True rq (fst ?req) r'"
      using consumer_request_only [OF c2 wf_table_live [OF wf2], of "max_bw ?rp2" True False] by (elim exE conjE)
    have k3: "keeps core_prod st (snd ?req)" by (rule request_peer_keeps(1) [OF Suc.prems(1-3) q k2])
    have p3: "rm_heap (snd ?req) p = Some ?rp2" using r'(1) heap2(1) rq(3) by (simp add: only_def)
    have core3: "core r' = core rq"
      using request_effect_core [OF r'(2)] rq(1) by (simp add: cons_at_def is_prod_def core_prod_def)
    have q3: "rm_heap (snd ?req) q = Some r'" using r'(1) by (simp add: only_def)
    show ?thesis
    proof (cases "fst ?req = - EINPROGRESS")
      case True
      let ?out = "producer_request_loop n (Suc i) p (- EINPROGRESS) (snd ?req)"
      have eq: "producer_request_loop (Suc n) i p res0 st = ?out"
        using loop q Suc.prems(4) True by (simp add: Let_def request_peer_def split_beta live_simps(1) [OF heap2(1)])
      have "pending_request ?rp2 \<le> pending_request (res (snd ?out) p)"
        using Suc.IH [OF keeps_wf [OF keeps_prod_core [OF k3] Suc.prems(1)] p3, of "Suc i" "- EINPROGRESS"] Suc.prems(3-5) eq
        by (simp add: is_prod_def)
      then show ?thesis unfolding eq by simp
    next
      case False
      let ?out = "producer_request_loop n (Suc i) p res0 ?st4"
      have eq: "producer_request_loop (Suc n) i p res0 st = ?out" and ok: "fst ?req = 0"
        using loop q Suc.prems(4,5) False by (auto simp: Let_def request_peer_def split_beta live_simps(1) [OF heap2(1)] split: if_splits)
      have p4: "rm_heap ?st4 p = Some rp" using live_simps(2) [OF p3, of "\<lambda>r. r\<lparr>pending_request := pending_request r - 1\<rparr>"] by simp
      have k4: "keeps core_prod st ?st4" by (rule upd_pending_keeps [OF k3 Suc.prems(2)])
      have wf4: "rm_wf ?st4" by (rule keeps_wf [OF keeps_prod_core [OF k4] Suc.prems(1)])
      have q4: "rm_heap ?st4 q = Some r'" unfolding live_simps(2) [OF p3] using q3 rq(3) by simp
      have g: "rs_state r' = IPA_RM_GRANTED" using r'(2) ok by (auto simp: request_effect_def)
      have "rm_heap (snd ?out) q = Some r'"
        by (rule request_loop_other [OF wf4 p4 Suc.prems(3) _ q4])
          (use Suc.prems(4) core_eqD(1,2) [OF core3] rq in \<open>auto simp: cons_at_def is_prod_def\<close>)
      then have gq: "rs_state (res (snd ?out) q) = IPA_RM_GRANTED" using g by (simp add: res_def)
      have IH: "pending_request rp \<le> pending_request (res (snd ?out) p) \<and>
          (pending_request (res (snd ?out) p) = pending_request rp \<longrightarrow>
            (\<forall>m q u. Suc i \<le> m \<longrightarrow> m < Suc i + n \<longrightarrow> peer (peers_list rp) m = Some (q, u) \<longrightarrow> rs_state (res (snd ?out) q) = IPA_RM_GRANTED))"
        using Suc.IH [OF wf4 p4 Suc.prems(3)] Suc.prems(4,5) eq by simp
      have "rs_state (res (snd ?out) z) = IPA_RM_GRANTED"
        if "pending_request (res (snd ?out) p) = pending_request rp" "i \<le> m" "m < i + Suc n" "peer (peers_list rp) m = Some (z, v)" for m z v
      proof (cases "m = i")
        case True
        then show ?thesis using that(4) q gq by simp
      next
        case False
        then have "Suc i \<le> m" "m < Suc i + n" using that(2,3) by simp_all
        then show ?thesis using IH that(1,4) by blast
      qed
      then show ?thesis unfolding eq using IH by blast
    qed
  qed
qed

lemma request_loop_error:
  assumes "rm_wf st" "rm_heap st p = Some rp" "is_prod rp" "i + n \<le> 22" "fst (producer_request_loop n i p r0 st) = Inr e"
  shows "e \<noteq> 0 \<and> e \<noteq> - EINPROGRESS"
  using assms
proof (induction n arbitrary: i st rp r0)
  case (Suc n)
  show ?case
  proof (cases "peer (peers_list rp) i")
    case None
    then show ?thesis using Suc.IH [OF Suc.prems(1-3), of "Suc i" r0] Suc.prems(4,5) loop_peer_ok [OF Suc.prems(1,2), of i] by simp
  next
    case (Some qu)
    then obtain q u where q: "peer (peers_list rp) i = Some (q, u)" by (cases qu) auto
    have i: "i < 22" using Suc.prems(4) by simp
    show ?thesis
    proof (rule request_loop_next [OF Suc.prems(1-3) q i])
      fix x st3 assume k: "keeps core_prod st st3" and p: "rm_heap st3 p = Some (rp\<lparr>pending_request := pending_request rp + 1\<rparr>)"
        and eq: "\<And>n r0. producer_request_loop (Suc n) i p r0 st = producer_request_loop n (Suc i) p (- EINPROGRESS) st3"
      show ?thesis
        using Suc.IH [OF keeps_wf [OF keeps_prod_core [OF k] Suc.prems(1)] p _ _ Suc.prems(5) [unfolded eq]] Suc.prems(3,4)
        by (simp add: is_prod_def)
    next
      fix st4 assume k: "keeps core_prod st st4" and p: "rm_heap st4 p = Some rp"
        and eq: "\<And>n r0. producer_request_loop (Suc n) i p r0 st = producer_request_loop n (Suc i) p r0 st4"
      show ?thesis
        using Suc.IH [OF keeps_wf [OF keeps_prod_core [OF k] Suc.prems(1)] p Suc.prems(3) _ Suc.prems(5) [unfolded eq]] Suc.prems(4) by simp
    next
      fix x st4 assume "x \<noteq> 0" "x \<noteq> - EINPROGRESS" and eq: "\<And>n r0. producer_request_loop (Suc n) i p r0 st = (Inr x, st4)"
      then show ?thesis using Suc.prems(5) [unfolded eq] by simp
    qed
  qed
qed simp

lemma request_loop_result:
  assumes "rm_wf st" "rm_heap st p = Some rp" "is_prod rp" "i + n \<le> 22" "fst (producer_request_loop n i p r0 st) = Inl x"
  shows "x = r0 \<and> pending_request (res (snd (producer_request_loop n i p r0 st)) p) = pending_request rp \<or> x = - EINPROGRESS"
  using assms
proof (induction n arbitrary: i st rp r0)
  case 0
  then show ?case by (simp add: live_simps(1))
next
  case (Suc n)
  show ?case
  proof (cases "peer (peers_list rp) i")
    case None
    then show ?thesis using Suc.IH [OF Suc.prems(1-3), of "Suc i" r0] Suc.prems(4,5) loop_peer_ok [OF Suc.prems(1,2), of i] by simp
  next
    case (Some qu)
    then obtain q u where q: "peer (peers_list rp) i = Some (q, u)" by (cases qu) auto
    have i: "i < 22" using Suc.prems(4) by simp
    show ?thesis
    proof (rule request_loop_next [OF Suc.prems(1-3) q i])
      fix e st3 assume k: "keeps core_prod st st3" and p: "rm_heap st3 p = Some (rp\<lparr>pending_request := pending_request rp + 1\<rparr>)"
        and eq: "\<And>n r0. producer_request_loop (Suc n) i p r0 st = producer_request_loop n (Suc i) p (- EINPROGRESS) st3"
      show ?thesis
        using Suc.IH [OF keeps_wf [OF keeps_prod_core [OF k] Suc.prems(1)] p _ _ Suc.prems(5) [unfolded eq]] Suc.prems(3,4)
        by (auto simp: is_prod_def simp del: producer_request_loop.simps)
    next
      fix st4 assume k: "keeps core_prod st st4" and p: "rm_heap st4 p = Some rp"
        and eq: "\<And>n r0. producer_request_loop (Suc n) i p r0 st = producer_request_loop n (Suc i) p r0 st4"
      show ?thesis
        unfolding eq
        using Suc.IH [OF keeps_wf [OF keeps_prod_core [OF k] Suc.prems(1)] p Suc.prems(3) _ Suc.prems(5) [unfolded eq]] Suc.prems(4) by simp
    next
      fix e st4 assume eq: "\<And>n r0. producer_request_loop (Suc n) i p r0 st = (Inr e, st4)"
      then show ?thesis using Suc.prems(5) [unfolded eq] by simp
    qed
  qed
qed

section \<open>The abstract graph\<close>

text \<open>The dependencies by name, and the names in the table.\<close>

definition dependencies :: "ipa_rm_context_type \<Rightarrow> (nat \<times> nat \<times> bool) set" where
  "dependencies st = {(n, m, u). \<exists>p r q. rm_heap st p = Some r \<and> is_prod r \<and> rs_name r = n \<and> peer (peers_list r) m = Some (q, u)}"

definition registered :: "ipa_rm_context_type \<Rightarrow> nat \<Rightarrow> bool" where
  "registered st n \<longleftrightarrow> fst (ipa_rm_dep_graph_get_resource n st) = 0"

lemma dependencies_keeps: "keeps core a b \<Longrightarrow> dependencies b = dependencies a"
proof -
  have "dependencies b \<subseteq> dependencies a" if k: "\<And>z. map_option core (rm_heap b z) = map_option core (rm_heap a z)" for a b
  proof
    fix e assume "e \<in> dependencies b"
    then obtain n m u p r q where e: "e = (n, m, u)" "rm_heap b p = Some r" "is_prod r" "rs_name r = n" "peer (peers_list r) m = Some (q, u)"
      by (auto simp: dependencies_def)
    obtain r' where "rm_heap a p = Some r'" "core r = core r'" using k [of p] e(2) by (cases "rm_heap a p") auto
    then show "e \<in> dependencies a" using e core_eqD [of r r'] by (auto simp: dependencies_def)
  qed
  moreover assume "keeps core a b"
  ultimately show ?thesis by (simp add: keeps_def set_eq_subset)
qed

lemma dependencies_at:
  assumes p: "rm_heap st p = Some r" "is_prod r" and u: "\<And>z s. rm_heap st z = Some s \<Longrightarrow> is_prod s \<Longrightarrow> rs_name s = rs_name r \<Longrightarrow> z = p"
  shows "(rs_name r, m, u) \<in> dependencies st \<longleftrightarrow> (\<exists>y. peer (peers_list r) m = Some (y, u))"
proof
  assume "(rs_name r, m, u) \<in> dependencies st"
  then obtain z s y where z: "rm_heap st z = Some s" "is_prod s" "rs_name s = rs_name r" "peer (peers_list s) m = Some (y, u)"
    by (auto simp: dependencies_def)
  then have "z = p" by (intro u)
  then show "\<exists>y. peer (peers_list r) m = Some (y, u)" using z p by auto
next
  assume "\<exists>y. peer (peers_list r) m = Some (y, u)"
  then show "(rs_name r, m, u) \<in> dependencies st" using p by (auto simp: dependencies_def)
qed

lemma dependencies_update:
  assumes wf: "rm_wf st" and p: "rm_heap st p = Some rp" "is_prod rp" and q: "rm_heap st q = Some rq" "\<not> is_prod rq"
    and p': "rm_heap st' p = Some rp'" "rs_name rp' = rs_name rp" "is_prod rp'"
      "peer (peers_list rp') = (peer (peers_list rp))(rs_name rq := map_option (\<lambda>u. (q, u)) w)"
    and q': "rm_heap st' q = Some rq'" "\<not> is_prod rq'"
    and far: "\<forall>z. z \<noteq> p \<longrightarrow> z \<noteq> q \<longrightarrow> map_option core (rm_heap st' z) = map_option core (rm_heap st z)"
  shows "dependencies st' = {(n, m, u). if n = rs_name rp \<and> m = rs_name rq then w = Some u else (n, m, u) \<in> dependencies st}"
proof -
  have old: "\<exists>r0. rm_heap st z = Some r0 \<and> core r = core r0" if "rm_heap st' z = Some r" "z \<noteq> p" "z \<noteq> q" for z r
    using far that by (metis map_option_eq_Some option.simps(9))
  have uniq': "z = p" if z: "rm_heap st' z = Some r" "is_prod r" "rs_name r = rs_name rp" for z r
  proof (rule ccontr)
    assume "z \<noteq> p"
    moreover have "z \<noteq> q" using z q' by auto
    ultimately obtain r0 where "rm_heap st z = Some r0" "core r = core r0" using old [OF z(1)] by auto
    then show False using wf_unique [OF wf _ p(1), of z r0] core_eqD(1) [of r r0] z(3) \<open>z \<noteq> p\<close> by simp
  qed
  have here: "(n, m, u) \<in> dependencies st' \<longleftrightarrow> (\<exists>y. peer (peers_list rp') m = Some (y, u))" if "n = rs_name rp" for n m u
    using dependencies_at [OF p'(1,3), of m u] uniq' p'(2) that by simp
  have here0: "(n, m, u) \<in> dependencies st \<longleftrightarrow> (\<exists>y. peer (peers_list rp) m = Some (y, u))" if "n = rs_name rp" for n m u
    using dependencies_at [OF p, of m u] wf_unique [OF wf _ p(1)] that by simp
  have away: "(n, m, u) \<in> dependencies st' \<longleftrightarrow> (n, m, u) \<in> dependencies st" if n: "n \<noteq> rs_name rp" for n m u
  proof
    assume "(n, m, u) \<in> dependencies st'"
    then obtain z r y where z: "rm_heap st' z = Some r" "is_prod r" "rs_name r = n" "peer (peers_list r) m = Some (y, u)"
      by (auto simp: dependencies_def)
    then have "z \<noteq> p" "z \<noteq> q" using n p' q' by auto
    then obtain r0 where "rm_heap st z = Some r0" "core r = core r0" using old [OF z(1)] by auto
    then show "(n, m, u) \<in> dependencies st" using z core_eqD [of r r0] by (auto simp: dependencies_def)
  next
    assume "(n, m, u) \<in> dependencies st"
    then obtain z r y where z: "rm_heap st z = Some r" "is_prod r" "rs_name r = n" "peer (peers_list r) m = Some (y, u)"
      by (auto simp: dependencies_def)
    then have "z \<noteq> p" "z \<noteq> q" using n p q by auto
    then obtain r1 where "rm_heap st' z = Some r1" "core r1 = core r" using far z(1) by (metis map_option_eq_Some option.simps(9))
    then have "rm_heap st' z = Some r1 \<and> is_prod r1 \<and> rs_name r1 = n \<and> peer (peers_list r1) m = Some (y, u)"
      using z core_eqD(1-3) [of r1 r] by simp
    then show "(n, m, u) \<in> dependencies st'" by (simp add: dependencies_def) blast
  qed
  have "(n, m, u) \<in> dependencies st' \<longleftrightarrow> (if n = rs_name rp \<and> m = rs_name rq then w = Some u else (n, m, u) \<in> dependencies st)" for n m u
  proof (cases "n = rs_name rp")
    case True
    show ?thesis unfolding here [OF True] here0 [OF True] p'(4) using True by (cases w) auto
  next
    case False
    then show ?thesis using away by simp
  qed
  then show ?thesis by (simp add: set_eq_iff)
qed

text \<open>What the graph has to do: the guards by name, an edge that exists is not added again.\<close>

definition spec_add :: "(nat \<Rightarrow> bool) \<Rightarrow> nat \<Rightarrow> nat \<Rightarrow> bool \<Rightarrow> (nat \<times> nat \<times> bool) set \<Rightarrow> (nat \<times> nat \<times> bool) set" where
  "spec_add known n m u G =
     (if IPA_RM_RESORCE_IS_PROD n \<and> IPA_RM_RESORCE_IS_CONS m \<and> known n \<and> known m \<and> (n, m, True) \<notin> G \<and> (n, m, False) \<notin> G
      then insert (n, m, u) G else G)"

definition spec_delete :: "nat \<Rightarrow> nat \<Rightarrow> bool \<Rightarrow> (nat \<times> nat \<times> bool) set \<Rightarrow> (nat \<times> nat \<times> bool) set" where
  "spec_delete n m u G = G - {(n, m, u)}"

lemma dependency_iff:
  assumes wf: "rm_wf st" and p: "rm_heap st p = Some rp" "is_prod rp" and q: "rm_heap st q = Some rq"
  shows "(rs_name rp, rs_name rq, u) \<in> dependencies st \<longleftrightarrow> peer (peers_list rp) (rs_name rq) = Some (q, u)"
proof -
  have "(rs_name rp, rs_name rq, u) \<in> dependencies st \<longleftrightarrow> (\<exists>y. peer (peers_list rp) (rs_name rq) = Some (y, u))"
    by (rule dependencies_at [OF p]) (use wf_unique [OF wf _ p(1)] in blast)
  then show ?thesis using peer_resource_unique(1) [OF wf p(1) q] by auto
qed

lemma add_dependencies:
  assumes wf: "rm_wf st" and p: "rm_heap st p = Some rp" "is_prod rp" and q: "rm_heap st q = Some rq" "\<not> is_prod rq"
    and none: "peer (peers_list rp) (rs_name rq) = None"
  shows "dependencies (snd (ipa_rm_resource_add_dependency (Some p) (Some q) u st)) = insert (rs_name rp, rs_name rq, u) (dependencies st)"
proof -
  obtain lp lq where l: "rm_heap (linked p q u st) p = Some (rp\<lparr>peers_list := Some lp, needed_bw := needed_bw rp + max_bw rq\<rparr>)"
    "rm_heap (linked p q u st) q = Some (rq\<lparr>peers_list := Some lq\<rparr>)" "peer (Some lp) = (peer (peers_list rp))(rs_name rq := Some (q, u))"
    "\<forall>z. z \<noteq> p \<longrightarrow> z \<noteq> q \<longrightarrow> rm_heap (linked p q u st) z = rm_heap st z"
    by (rule linked_ok [OF wf p q none]) blast
  have "dependencies (linked p q u st) =
      {(n, m, v). if n = rs_name rp \<and> m = rs_name rq then Some u = Some v else (n, m, v) \<in> dependencies st}"
    by (rule dependencies_update [OF wf p q l(1) _ _ _ l(2)]) (use p(2) q(2) l(3,4) in \<open>simp_all add: is_prod_def\<close>)
  moreover have "(rs_name rp, rs_name rq, v) \<notin> dependencies st" for v using dependency_iff [OF wf p q(1)] none by simp
  ultimately show ?thesis using dependencies_keeps [OF add_dependency_keeps [OF wf p q none, of u]] by (auto split: if_splits)
qed

lemma delete_dependencies:
  assumes wf: "rm_wf st" and p: "rm_heap st p = Some rp" "is_prod rp" and q: "rm_heap st q = Some rq" "\<not> is_prod rq"
  shows "dependencies (snd (ipa_rm_resource_delete_dependency (Some p) (Some q) u st)) = dependencies st - {(rs_name rp, rs_name rq, u)}"
proof (cases "peer (peers_list rp) (rs_name rq) = Some (q, u)")
  case False
  then show ?thesis using delete_dependency_noop [OF wf p(1) q(1)] dependency_iff [OF wf p q(1)] by simp
next
  case True
  let ?st = "snd (ipa_rm_resource_delete_dependency (Some p) (Some q) u st)"
  obtain rp' rq' where r: "rm_heap ?st p = Some rp'" "rs_name rp' = rs_name rp" "is_prod rp'"
    "peer (peers_list rp') = (peer (peers_list rp))(rs_name rq := None)" "rm_heap ?st q = Some rq'" "\<not> is_prod rq'"
    and far: "\<forall>z. z \<noteq> p \<longrightarrow> z \<noteq> q \<longrightarrow> map_option core (rm_heap ?st z) = map_option core (rm_heap st z)"
    by (rule delete_dependency_peers [OF wf p q True])
  have "dependencies ?st = {(n, m, v). if n = rs_name rp \<and> m = rs_name rq then None = Some v else (n, m, v) \<in> dependencies st}"
    by (rule dependencies_update [OF wf p q r(1-3) _ r(5,6) far]) (simp add: r(4))
  moreover have "(rs_name rp, rs_name rq, v) \<in> dependencies st \<longleftrightarrow> v = u" for v using dependency_iff [OF wf p q(1)] True by auto
  ultimately show ?thesis by (auto split: if_splits)
qed

text \<open>C13: The dependency graph refines the abstract graph of named edges, each with the flag of its origin. Adding a dependency by name inserts the
  edge exactly when the names are of the right kind and registered and have no edge with either flag; it fails with the error code for invalid
  arguments and changes nothing when the names are not of the right kind or not registered, and with the one for an existing entry and changes
  nothing when they have an edge. Deleting removes exactly the edge with the flag of the caller; it returns 0 when the names have an edge with
  either flag, so also when the edge has the other flag and stays, and the error code for invalid arguments when they have none.\<close>

theorem rm_graph_refines:
  assumes "rm_inv st"
  shows "dependencies (snd (ipa_rm_add_dependency_core n m u st)) = spec_add (registered st) n m u (dependencies st) \<and>
    (\<not> (IPA_RM_RESORCE_IS_PROD n \<and> IPA_RM_RESORCE_IS_CONS m \<and> registered st n \<and> registered st m) \<longrightarrow>
      ipa_rm_add_dependency_core n m u st = (- EINVAL, st)) \<and>
    ((n, m, True) \<in> dependencies st \<or> (n, m, False) \<in> dependencies st \<longrightarrow> ipa_rm_add_dependency_core n m u st = (- EEXIST, st)) \<and>
    dependencies (snd (ipa_rm_delete_dependency_core n m u st)) = spec_delete n m u (dependencies st) \<and>
    fst (ipa_rm_delete_dependency_core n m u st) = (if (n, m, True) \<in> dependencies st \<or> (n, m, False) \<in> dependencies st then 0 else - EINVAL)"
proof -
  have wf: "rm_wf st" and live: "ipa_rm_ctx st = Ctx_Live" using inv_wf [OF assms] by blast+
  note core = ipa_rm_add_dependency_core_def ipa_rm_delete_dependency_core_def
  show ?thesis
  proof (rule graph_dependency_cases [OF wf, of n m u])
    assume e: "ipa_rm_dep_graph_add_dependency n m u st = (- EINVAL, st)" "ipa_rm_dep_graph_delete_dependency n m u st = (- EINVAL, st)"
      and no: "\<not> (IPA_RM_RESORCE_IS_PROD n \<and> IPA_RM_RESORCE_IS_CONS m \<and>
        fst (ipa_rm_dep_graph_get_resource n st) = 0 \<and> fst (ipa_rm_dep_graph_get_resource m st) = 0)"
    have "(n, m, v) \<notin> dependencies st" for v
    proof
      assume "(n, m, v) \<in> dependencies st"
      then obtain p r q where p: "rm_heap st p = Some r" "is_prod r" "rs_name r = n" "peer (peers_list r) m = Some (q, v)"
        by (auto simp: dependencies_def)
      obtain s where s: "rm_heap st q = Some s" "rs_name s = m" "is_prod s = (\<not> is_prod r)" using wf_peer [OF wf p(1,4)] by auto
      have "res_ok r" "res_ok s" using wf_res [OF wf] p(1) s(1) by blast+
      then show False
        using no p s wf_in_table [OF wf p(1)] wf_in_table [OF wf s(1)]
        by (auto simp: res_ok_def registered_def get_resource_table IPA_RM_RESORCE_IS_PROD_def IPA_RM_RESORCE_IS_CONS_def)
    qed
    then show ?thesis using e no live by (auto simp: core spec_add_def spec_delete_def registered_def)
  next
    fix p rp q rq
    assume p: "rm_heap st p = Some rp" "is_prod rp" "rs_name rp = n" and q: "rm_heap st q = Some rq" "\<not> is_prod rq" "rs_name rq = m"
      and l: "ipa_rm_dep_graph_get_resource n st = (0, Some p)" "ipa_rm_dep_graph_get_resource m st = (0, Some q)"
      and e: "ipa_rm_dep_graph_add_dependency n m u st = ipa_rm_resource_add_dependency (Some p) (Some q) u st"
        "ipa_rm_dep_graph_delete_dependency n m u st = ipa_rm_resource_delete_dependency (Some p) (Some q) u st"
    have ok: "res_ok rp" "res_ok rq" using wf_res [OF wf] p(1) q(1) by blast+
    have names: "IPA_RM_RESORCE_IS_PROD n" "IPA_RM_RESORCE_IS_CONS m" "registered st n" "registered st m"
      using ok p q l by (auto simp: res_ok_def registered_def IPA_RM_RESORCE_IS_PROD_def IPA_RM_RESORCE_IS_CONS_def)
    note iff = dependency_iff [OF wf p(1,2) q(1), unfolded p(3) q(3)]
    show ?thesis
    proof (cases "peer (peers_list rp) (rs_name rq)")
      case None
      then show ?thesis
        using add_dependencies [OF wf p(1,2) q(1,2) None] delete_dependencies [OF wf p(1,2) q(1,2)] p(3) q(3) e live names iff
          delete_dependency_other(1) [OF wf p(1) q(1) None]
        by (simp add: core spec_add_def spec_delete_def)
    next
      case (Some zv)
      then obtain z v where z: "peer (peers_list rp) (rs_name rq) = Some (z, v)" by (cases zv) auto
      then have zq: "z = q" by (rule peer_resource_unique(1) [OF wf p(1) q(1)])
      have "fst (ipa_rm_resource_delete_dependency (Some p) (Some q) u st) = 0"
      proof (cases "v = u")
        case True
        have "peer (peers_list rp) (rs_name rq) = Some (q, u)" using z zq True by simp
        then show ?thesis by (rule delete_dependency_split [OF wf p(1,2) q(1,2)]) simp
      next
        case False
        then show ?thesis using delete_dependency_other(2) [OF wf p(1) q(1)] z zq by simp
      qed
      moreover have "ipa_rm_resource_add_dependency (Some p) (Some q) u st = (- EEXIST, st)"
        by (rule add_dependency_exists [OF wf p(1) q(1)]) (simp add: Some)
      moreover have "(n, m, True) \<in> dependencies st \<or> (n, m, False) \<in> dependencies st"
        using iff z zq q(3) by (cases v) auto
      ultimately show ?thesis
        using delete_dependencies [OF wf p(1,2) q(1,2)] p(3) q(3) e live names by (auto simp: core spec_add_def spec_delete_def)
    qed
  qed
qed

section \<open>Runs\<close>

text \<open>C10: In every run of the machine, whatever the allocator and the drivers answer, no operation follows a stale pointer or leaves an array,
  the dependency graph stays well-formed, every producer needs the bandwidth of its consumers, and the vote is the maximum of the voltages
  and the smaller of the two sums of bandwidths.\<close>

theorem rm_runs_safe:
  assumes "ipa_rm_initialize (rm_boot ok dr) = (0, st)" and "list_all rm_ok es"
  defines "st' \<equiv> run rm_step es st"
  shows "\<not> rm_ub st' \<and> rm_wf st' \<and> bw_ok st' \<and> curr_volt st' = Max (set (vote_volt st')) \<and>
    curr_bw st' = min (sum_bw IPA_RM_RESORCE_IS_PROD (bw_resources st')) (sum_bw (\<lambda>i. \<not> IPA_RM_RESORCE_IS_PROD i) (bw_resources st'))"
proof -
  have "rm_inv st'" unfolding st'_def by (rule rm.run_inv [OF boot_inv(1) [OF assms(1)] assms(2)])
  then show ?thesis by (auto simp: rm_inv_def vote_ok_def max_volt_Max)
qed

text \<open>A small run: a producer and a consumer are created.\<close>

definition rm_demo :: "(nat \<Rightarrow> int) \<Rightarrow> ipa_rm_context_type" where
  "rm_demo dr = snd (ipa_rm_initialize (rm_boot (\<lambda>_. True) dr))"

definition demo_params :: "nat \<Rightarrow> ipa_rm_create_params" where
  "demo_params n = \<lparr>cp_name = n, cp_floor_voltage = IPA_VOLTAGE_SVS, cp_reg_params = \<lparr>reg_user_data = 0, reg_notify_cb = 1\<rparr>,
     cp_request_resource = Some n, cp_release_resource = Some n\<rparr>"

definition demo_run :: "rm_step_event list" where
  "demo_run = [Ev_Create (demo_params 2), Ev_Create (demo_params 3)]"

definition demo_linked :: "rm_step_event list" where
  "demo_linked = demo_run @ [Ev_Add_Dependency 2 3 False]"

lemma demo_ok: "list_all rm_ok demo_run" "list_all rm_ok demo_linked"
  "ipa_rm_initialize (rm_boot (\<lambda>_. True) dr) = (0, rm_demo dr)"
  by (simp_all add: demo_run_def demo_linked_def demo_params_def params_ok_def valid_name_def rm_demo_def ipa_rm_initialize_def kzalloc_pair
      new_context_def rm_boot_def)

lemma demo_inv: "rm_inv (run rm_step demo_run (rm_demo dr))" "rm_inv (run rm_step demo_linked (rm_demo dr))"
  by (rule rm.run_inv [OF boot_inv(1) [OF demo_ok(3)]], rule demo_ok)+

lemma rm_graph_refines_witness: "dependencies (snd (ipa_rm_delete_dependency_core 2 3 False (run rm_step demo_linked (rm_demo (\<lambda>_. 0))))) =
    spec_delete 2 3 False (dependencies (run rm_step demo_linked (rm_demo (\<lambda>_. 0))))"
  using rm_graph_refines [OF demo_inv(2)] by blast

lemma rm_runs_safe_witness: "\<not> rm_ub (run rm_step demo_linked (rm_demo (\<lambda>_. - 5))) \<and> rm_wf (run rm_step demo_linked (rm_demo (\<lambda>_. - 5)))"
  using rm_runs_safe [OF demo_ok(3,2)] by blast

text \<open>Evaluation of operations on concrete states.\<close>

lemmas eval_loops =
  producer_request_loop.simps(2) [where n = "pred_numeral k", folded numeral_eq_Suc]
  producer_release_loop.simps(2) [where n = "pred_numeral k", folded numeral_eq_Suc]
  handle_cb_loop.simps(2) [where n = "pred_numeral k", folded numeral_eq_Suc] for k

lemmas eval_state = rm_demo_def rm_boot_def demo_params_def demo_run_def demo_linked_def client_create_def with_producer_def
  ipa_rm_initialize_def new_context_def kzalloc_pair get_resource_table valid_name_def ipa_rm_resource_create_def
  IPA_RM_RESORCE_IS_PROD_def IPA_RM_RESORCE_IS_CONS_def ipa_rm_resource_producer_create_def ipa_rm_resource_consumer_create_def
  alloc_resource_def ipa_rm_resource_producer_register_def ipa_rm_peers_list_create_def ipa_rm_dep_graph_add_def
  dep_index res_def upd_res_def as_prod_def as_cons_def as_res_def flag_ub_def zero_resource_def null_peer_def use_ctx_def

lemmas eval_edges = loop_size_def loop_peer_def ipa_rm_peers_list_get_size_def ipa_rm_peers_list_get_resource_def
  ipa_rm_peers_list_check_index_def peer_nth_def peer_in_def set_state_def ipa_rm_add_dependency_core_def
  ipa_rm_dep_graph_add_dependency_def ipa_rm_resource_add_dependency_def ipa_rm_peers_list_check_dependency_def resource_index
  add_peer_to_def ipa_rm_peers_list_add_peer_def

lemmas eval_request = eval_loops request_peer_def release_peer_def call_cb_def call_driver_def call_void_def rm_frame
  ipa_rm_resource_producer_request_def ipa_rm_resource_consumer_request_def consumer_request_start_def
  ipa_rm_resource_consumer_request_work_def ipa_rm_wq_send_cmd_def

lemma demo_heap: "\<exists>r. rm_heap (run rm_step demo_run (rm_demo dr)) 0 = Some r \<and> is_prod r \<and> rs_state r = IPA_RM_RELEASED \<and>
    peer (peers_list r) 3 = None"
  "\<exists>r. rm_heap (run rm_step demo_run (rm_demo dr)) 1 = Some r \<and> \<not> is_prod r \<and> rs_name r = 3"
  by (simp_all add: eval_state is_prod_def peer_def cong: let_weak_cong)

lemma demo_linked_heap: "\<exists>r. rm_heap (run rm_step demo_linked (rm_demo dr)) 0 = Some r \<and> is_prod r \<and> rs_state r = IPA_RM_RELEASED"
  "\<exists>r. rm_heap (run rm_step demo_linked (rm_demo dr)) 1 = Some r"
  by (simp_all add: eval_state eval_edges is_prod_def cong: let_weak_cong)

lemma load_card: "load (\<lambda>_. 1 :: int) A f = int (card {n. n < 22 \<and> (\<exists>z u. f n = Some (z, u) \<and> A z)})"
proof -
  have "load (\<lambda>_. 1 :: int) A f = (\<Sum>n < 22. if \<exists>z u. f n = Some (z, u) \<and> A z then 1 else 0)"
    unfolding load_def by (rule sum.cong) (auto split: option.split)
  also have "\<dots> = int (card ({..<22} \<inter> {n. \<exists>z u. f n = Some (z, u) \<and> A z}))" by (simp add: sum.If_cases)
  also have "{..<22} \<inter> {n. \<exists>z u. f n = Some (z, u) \<and> A z} = {n. n < 22 \<and> (\<exists>z u. f n = Some (z, u) \<and> A z)}" by auto
  finally show ?thesis .
qed

text \<open>C11: When the drivers only succeed or answer later, the use count of every consumer is in every run the number of its producers that are
  granted or requested, its needed bandwidth is the sum of their bandwidths, a used consumer is granted or requested, and no producer stays
  in the state of a release in progress.\<close>

theorem rm_runs_accounts:
  assumes "ipa_rm_initialize (rm_boot ok dr) = (0, st)" and "list_all rm_ok es" and "\<And>k. dr k = 0 \<or> dr k = - EINPROGRESS"
    and "rm_heap (run rm_step es st) c = Some r"
  defines "st' \<equiv> run rm_step es st"
  shows "if is_prod r then rs_state r \<noteq> IPA_RM_RELEASE_IN_PROGRESS
    else usage_count r = int (card {n. n < 22 \<and> (\<exists>z u. peer (peers_list r) n = Some (z, u) \<and> active (res st' z))}) \<and>
      needed_bw r = load (\<lambda>z. max_bw (res st' z)) (\<lambda>z. active (res st' z)) (peer (peers_list r)) \<and>
      (usage_count r > 0 \<longrightarrow> active r)"
proof -
  have "exact_inv st" using boot_inv [OF assms(1)] assms(3) by (auto simp: exact_inv_def good_drivers_def)
  then have "exact_inv st'" unfolding st'_def by (rule rm_use.run_inv [OF _ assms(2)])
  then have ex: "rm_exact st'" by (simp add: exact_inv_def)
  show ?thesis
  proof (cases "is_prod r")
    case True
    then show ?thesis using ex assms(4) by (simp add: rm_exact_def st'_def)
  next
    case False
    then have "cons_exact (act st') st' r" using ex assms(4) by (simp add: rm_exact_def exact_def st'_def)
    then show ?thesis using False by (simp add: cons_exact_def act_def load_card)
  qed
qed

lemma rm_runs_accounts_witness: "\<exists>r. rm_heap (run rm_step demo_linked (rm_demo (\<lambda>_. 0))) 1 = Some r \<and>
    (if is_prod r then rs_state r \<noteq> IPA_RM_RELEASE_IN_PROGRESS else usage_count r > 0 \<longrightarrow> active r)"
proof -
  obtain r where r: "rm_heap (run rm_step demo_linked (rm_demo (\<lambda>_. 0))) 1 = Some r" using demo_linked_heap(2) by auto
  show ?thesis using rm_runs_accounts [OF demo_ok(3,2) _ r] r by (auto split: if_splits)
qed

section \<open>Requests and releases\<close>

text \<open>C12: In a state of the invariant, a request of a producer that is not granted yet and returns 0 has granted the producer and every consumer it
  depends on, whatever the drivers answered before. (A request of a granted producer returns 0 at once and says nothing of its consumers.)\<close>

theorem rm_request_granted:
  assumes "rm_inv st" and "rm_heap st p = Some rp" and "is_prod rp" and "rs_state rp \<noteq> IPA_RM_GRANTED"
    and "fst (ipa_rm_resource_producer_request p st) = 0"
  defines "st' \<equiv> snd (ipa_rm_resource_producer_request p st)"
  shows "rs_state (res st' p) = IPA_RM_GRANTED \<and>
    (\<forall>m q u. peer (peers_list rp) m = Some (q, u) \<longrightarrow> rs_state (res st' q) = IPA_RM_GRANTED)"
proof -
  have wf: "rm_wf st" using assms(1) by (simp add: rm_inv_def)
  let ?st1 = "request_entry p st"
  let ?rp1 = "rp\<lparr>rs_state := IPA_RM_REQUEST_IN_PROGRESS, pending_request := 0\<rparr>"
  let ?l = "producer_request_loop 22 0 p 0 ?st1"
  note o1 = entry_only(1) [OF assms(2)] and k1 = entry_keeps(1) [OF assms(2)] and k2 = loops_from_entry(1) [OF wf assms(2,3), of 0]
  have wf1: "rm_wf ?st1" by (rule keeps_wf [OF k1 wf])
  have rp1: "rm_heap ?st1 p = Some ?rp1" "is_prod ?rp1" using o1 assms(3) by (simp_all add: only_def is_prod_def)
  have wf2: "rm_wf (snd ?l)" by (rule keeps_wf [OF keeps_prod_core [OF k2] wf1])
  note eq = producer_request_eq [OF wf assms(2,3)]
  have nip: "rs_state rp \<noteq> IPA_RM_REQUEST_IN_PROGRESS" using assms(4,5) by (auto simp: eq)
  show ?thesis
  proof (cases "fst ?l")
    case (Inr e)
    then have "fst (ipa_rm_resource_producer_request p st) = e" using assms(4) nip by (simp add: eq split_beta)
    moreover have "e \<noteq> 0" using request_loop_error [OF wf1 rp1 _ Inr] by simp
    ultimately show ?thesis using assms(5) by simp
  next
    case (Inl x)
    have g: "0 \<le> pending_request (res (snd ?l) p)" "pending_request (res (snd ?l) p) = 0 \<Longrightarrow>
        peer (peers_list rp) m = Some (q, u) \<Longrightarrow> rs_state (res (snd ?l) q) = IPA_RM_GRANTED" for m q u
      using request_loop_granted [OF wf1 rp1 _ Inl] peer_below [OF wf assms(2), of m] by auto
    have x: "pending_request (res (snd ?l) p) \<noteq> 0 \<Longrightarrow> x \<noteq> 0"
      using request_loop_result [OF wf1 rp1 _ Inl] by simp
    obtain r2 where r2: "rm_heap (snd ?l) p = Some r2" "peers_list r2 = peers_list rp"
      by (rule keeps_core_res [OF k2 rp1(1)]) simp
    have zero: "pending_request (res (snd ?l) p) = 0"
      using assms(4,5) nip x Inl by (auto simp: eq split_beta split: if_splits)
    have st': "st' = producer_finish p IPA_RM_GRANTED IPA_RM_RESOURCE_GRANTED (snd ?l)"
      unfolding st'_def eq using zero assms(4) nip Inl by (simp add: split_beta)
    have o: "only p (r2\<lparr>rs_state := IPA_RM_GRANTED\<rparr>) (snd ?l) st'"
      unfolding st' by (rule producer_finish_only [OF r2(1) wf_table_live [OF wf2]])
    have "rs_state (res st' q) = IPA_RM_GRANTED" if "peer (peers_list rp) m = Some (q, u)" for m q u
      using g(2) [OF zero that] only_res [OF o] by (cases "q = p") auto
    then show ?thesis using only_res(1) [OF o] by simp
  qed
qed

lemma demo_request: "fst (ipa_rm_resource_producer_request 0 (run rm_step demo_linked (rm_demo (\<lambda>_. 0)))) = 0"
  "fst (ipa_rm_resource_producer_request 0 (run rm_step demo_linked (rm_demo (\<lambda>k. if k = 1 then - 5 else 0)))) = - 5"
  by (simp_all add: eval_state eval_edges eval_request Let_def cong: let_weak_cong)

lemma rm_request_granted_witness:
  "rs_state (res (snd (ipa_rm_resource_producer_request 0 (run rm_step demo_linked (rm_demo (\<lambda>_. 0))))) 0) = IPA_RM_GRANTED"
proof -
  obtain r where r: "rm_heap (run rm_step demo_linked (rm_demo (\<lambda>_. 0))) 0 = Some r" "is_prod r" "rs_state r = IPA_RM_RELEASED"
    using demo_linked_heap(1) by auto
  then have "rs_state r \<noteq> IPA_RM_GRANTED" by simp
  from rm_request_granted [OF demo_inv(2) r(1,2) this demo_request(1)] show ?thesis by blast
qed

text \<open>When a consumer refuses a request, the producer stays in the state of a request in progress for ever: the error is reported once, and
  every later request only returns that a request is in progress and changes nothing.\<close>

theorem rm_request_error_sticks:
  assumes "rm_inv st" and "rm_heap st p = Some rp" and "is_prod rp"
    and "ipa_rm_resource_producer_request p st = (e, st')" and "e \<noteq> 0" and "e \<noteq> - EINPROGRESS"
  shows "rs_state (res st' p) = IPA_RM_REQUEST_IN_PROGRESS \<and> ipa_rm_resource_producer_request p st' = (- EINPROGRESS, st')"
proof -
  have wf: "rm_wf st" using assms(1) by (simp add: rm_inv_def)
  let ?rp1 = "rp\<lparr>rs_state := IPA_RM_REQUEST_IN_PROGRESS, pending_request := 0\<rparr>"
  let ?l = "producer_request_loop 22 0 p 0 (request_entry p st)"
  note o1 = entry_only(1) [OF assms(2)] and k1 = entry_keeps(1) [OF assms(2)] and k2 = loops_from_entry(1) [OF wf assms(2,3), of 0]
  have wf1: "rm_wf (request_entry p st)" by (rule keeps_wf [OF k1 wf])
  have rp1: "rm_heap (request_entry p st) p = Some ?rp1" "is_prod ?rp1" using o1 assms(3) by (simp_all add: only_def is_prod_def)
  have wf2: "rm_wf (snd ?l)" by (rule keeps_wf [OF keeps_prod_core [OF k2] wf1])
  obtain r2 where r2: "rm_heap (snd ?l) p = Some r2" "is_prod r2 = is_prod ?rp1" "rs_state r2 = IPA_RM_REQUEST_IN_PROGRESS"
    by (rule keeps_core_res [OF k2 rp1(1)]) (use rp1(2) in auto)
  have st': "st' = snd ?l"
  proof (cases "fst ?l")
    case (Inl x)
    then show ?thesis
      using request_loop_result [OF wf1 rp1 _ Inl] assms(4-6)
      by (auto simp: producer_request_eq [OF wf assms(2,3)] split_beta split: if_splits)
  next
    case (Inr x)
    then show ?thesis using assms(4-6) by (auto simp: producer_request_eq [OF wf assms(2,3)] split_beta split: if_splits)
  qed
  show ?thesis
    unfolding st' using producer_request_eq [OF wf2 r2(1)] r2 rp1(2) by (simp add: live_simps(1) [OF r2(1)])
qed

lemma rm_request_error_sticks_witness:
  "\<exists>st'. ipa_rm_resource_producer_request 0 st' = (- EINPROGRESS, st') \<and>
     ipa_rm_resource_producer_request 0 (run rm_step demo_linked (rm_demo (\<lambda>k. if k = 1 then - 5 else 0))) = (- 5, st')"
proof -
  let ?st = "run rm_step demo_linked (rm_demo (\<lambda>k. if k = 1 then - 5 else 0))"
  obtain r where r: "rm_heap ?st 0 = Some r" "is_prod r" using demo_linked_heap(1) by blast
  have eq: "ipa_rm_resource_producer_request 0 ?st = (- 5, snd (ipa_rm_resource_producer_request 0 ?st))"
    using demo_request(2) by (simp add: prod_eq_iff)
  from rm_request_error_sticks [OF demo_inv(2) r eq] show ?thesis using eq by auto
qed

text \<open>A release changes nothing of the producer but its state.\<close>

lemma release_loop_self:
  assumes "rm_wf st" "rm_heap st p = Some rp" "is_prod rp" "i + n \<le> 22"
  shows "rm_heap (producer_release_loop n i p st) p = Some rp"
  using assms
proof (induction n arbitrary: i st)
  case (Suc n)
  note loop = loop_peer_ok [OF Suc.prems(1,2), of i]
  show ?case
  proof (cases "peer (peers_list rp) i")
    case None
    then show ?thesis using Suc loop by simp
  next
    case (Some qu)
    then obtain q u where q: "peer (peers_list rp) i = Some (q, u)" by (cases qu) auto
    obtain rq where rq: "cons_at st q rq" "rs_name rq = i" "q \<noteq> p" by (rule peer_cons [OF Suc.prems(1-3) q])
    let ?st2 = "upd_res p (\<lambda>r. r\<lparr>pending_release := pending_release r + 1\<rparr>) st"
    let ?rp2 = "rp\<lparr>pending_release := pending_release rp + 1\<rparr>"
    let ?rel = "ipa_rm_resource_consumer_release q (max_bw ?rp2) True ?st2"
    have o2: "only p ?rp2 st ?st2" by (rule only_upd [OF only_refl [OF Suc.prems(2)]])
    then have heap2: "rm_heap ?st2 p = Some ?rp2" "rm_heap ?st2 q = Some rq" using rq by (auto simp: only_def cons_at_def)
    have k2: "keeps core_prod st ?st2" by (rule upd_pending_keeps [OF keeps_refl Suc.prems(2)])
    have wf2: "rm_wf ?st2" by (rule keeps_wf [OF keeps_prod_core [OF k2] Suc.prems(1)])
    have c2: "cons_at ?st2 q rq" using heap2 rq(1) by (simp add: cons_at_def)
    obtain r' where r': "only q r' ?st2 (snd ?rel)"
      using consumer_release_only [OF c2 wf_table_live [OF wf2], of "max_bw ?rp2" True] by (elim exE conjE)
    have p3: "rm_heap (snd ?rel) p = Some ?rp2" using r' heap2(1) rq(3) by (simp add: only_def)
    have eq: "release_peer p q st = upd_res p (\<lambda>r. r\<lparr>pending_release := pending_release r - 1\<rparr>) (snd ?rel)"
      by (simp add: release_peer_def Let_def live_simps(1) [OF heap2(1)])
    have k3: "keeps core_prod st (snd ?rel)" by (rule request_peer_keeps(2) [OF Suc.prems(1-3) q k2])
    have k4: "keeps core_prod st (release_peer p q st)" unfolding eq by (rule upd_pending_keeps [OF k3 Suc.prems(2)])
    have p4: "rm_heap (release_peer p q st) p = Some rp" unfolding eq live_simps(2) [OF p3] by simp
    show ?thesis
      using Suc.IH [OF keeps_wf [OF keeps_prod_core [OF k4] Suc.prems(1)] p4 Suc.prems(3)] Suc.prems(4) loop q by simp
  qed
qed simp

text \<open>A release of a producer always returns 0 and leaves the producer released, whatever its state was and whatever the drivers of its
  consumers answer, unless an earlier release is still in progress.\<close>

theorem rm_release_completes:
  assumes "rm_inv st" and "rm_heap st p = Some rp" and "is_prod rp" and "rs_state rp \<noteq> IPA_RM_RELEASE_IN_PROGRESS"
  shows "fst (ipa_rm_resource_producer_release p st) = 0 \<and>
    rs_state (res (snd (ipa_rm_resource_producer_release p st)) p) = IPA_RM_RELEASED"
proof -
  have wf: "rm_wf st" using assms(1) by (simp add: rm_inv_def)
  let ?rp1 = "rp\<lparr>rs_state := IPA_RM_RELEASE_IN_PROGRESS, pending_release := 0\<rparr>"
  let ?l = "producer_release_loop 22 0 p (release_entry p st)"
  note o1 = entry_only(2) [OF assms(2)]
  have wf1: "rm_wf (release_entry p st)" by (rule keeps_wf [OF entry_keeps(2) [OF assms(2)] wf])
  have rp1: "rm_heap (release_entry p st) p = Some ?rp1" "is_prod ?rp1" using o1 assms(3) by (simp_all add: only_def is_prod_def)
  have self: "rm_heap ?l p = Some ?rp1" using release_loop_self [OF wf1 rp1, of 0 22] by simp
  have wf2: "rm_wf ?l"
    by (rule keeps_wf [OF keeps_prod_core [OF loops_from_entry(2) [OF wf assms(2,3)]] wf1])
  have o: "only p (?rp1\<lparr>rs_state := IPA_RM_RELEASED\<rparr>) ?l (producer_finish p IPA_RM_RELEASED IPA_RM_RESOURCE_RELEASED ?l)"
    by (rule producer_finish_only [OF self wf_table_live [OF wf2]])
  show ?thesis
    using assms(2,4) only_res(1) [OF o] by (simp add: producer_release_eq [OF wf assms(2,3)] live_simps(1) [OF self] live_simps(1))
qed

lemma rm_release_completes_witness:
  "rs_state (res (snd (ipa_rm_resource_producer_release 0 (run rm_step demo_linked (rm_demo (\<lambda>_. - 5))))) 0) = IPA_RM_RELEASED"
proof -
  obtain r where r: "rm_heap (run rm_step demo_linked (rm_demo (\<lambda>_. - 5))) 0 = Some r" "is_prod r" "rs_state r = IPA_RM_RELEASED"
    using demo_linked_heap(1) by auto
  then have "rs_state r \<noteq> IPA_RM_RELEASE_IN_PROGRESS" by simp
  from rm_release_completes [OF demo_inv(2) r(1,2) this] show ?thesis by blast
qed

section \<open>Dependencies that come and go\<close>

lemma delete_loop_dependencies:
  assumes "rm_wf st" "rm_heap st x = Some rx" "is_prod rx = d" "i + n \<le> 22" "a \<noteq> rs_name rx" "b \<noteq> rs_name rx"
  shows "(a, b, w) \<in> dependencies (delete_loop n i d x st) \<longleftrightarrow> (a, b, w) \<in> dependencies st"
  using assms
proof (induction n arbitrary: i st rx)
  case (Suc n)
  note loop = loop_peer_ok [OF Suc.prems(1,2), of i]
  show ?case
  proof (cases "peer (peers_list rx) i")
    case None
    then show ?thesis using Suc.IH [OF Suc.prems(1-3), of "Suc i"] Suc.prems(4-6) loop by simp
  next
    case (Some yu)
    then obtain y u where e: "peer (peers_list rx) i = Some (y, u)" by (cases yu) auto
    let ?st' = "snd (if d then ipa_rm_resource_delete_dependency (Some x) (Some y) u st
                      else ipa_rm_resource_delete_dependency (Some y) (Some x) u st)"
    obtain r1 where r1: "good_step st ?st'" "rm_heap ?st' x = Some r1" "rs_name r1 = rs_name rx" "is_prod r1 = d"
      "peer (peers_list r1) = (peer (peers_list rx))(i := None)"
      by (rule delete_one [OF Suc.prems(1-3) e])
    obtain ry where y: "rm_heap st y = Some ry" "is_prod ry = (\<not> is_prod rx)" using wf_peer [OF Suc.prems(1,2) e] by auto
    have "(a, b, w) \<in> dependencies ?st' \<longleftrightarrow> (a, b, w) \<in> dependencies st"
      using delete_dependencies [OF Suc.prems(1,2) _ y(1), of u] delete_dependencies [OF Suc.prems(1) y(1) _ Suc.prems(2), of u]
        y(2) Suc.prems(3,5,6) by (cases d) auto
    moreover have "delete_loop (Suc n) i d x st = delete_loop n (Suc i) d x ?st'"
      using loop e Suc.prems(4) loop_userspace_dep_ok [OF Suc.prems(1,2) e] by (simp add: Let_def delete_peer_def)
    ultimately show ?thesis
      using Suc.IH [OF good_step_wf(1) [OF r1(1)] r1(2,4), of "Suc i"] Suc.prems(4-6) r1(3) by simp
  qed
qed simp

lemma kfree_dependencies:
  assumes "rm_wf st" "rm_heap st p = Some r" "isolated r" "rs_name r = n"
  shows "dependencies (kfree_resource p st) = {(a, b, u) \<in> dependencies st. a \<noteq> n \<and> b \<noteq> n}"
proof -
  have name: "rs_name s = n \<longleftrightarrow> z = p" if "rm_heap st z = Some s" for z s
    using wf_unique [OF assms(1) that assms(2)] that assms(2,4) by auto
  have none: "peer (peers_list s) n \<noteq> Some (q, u)" if z: "rm_heap st z = Some s" for z s q u
  proof
    assume e: "peer (peers_list s) n = Some (q, u)"
    from wf_peer [OF assms(1) z e] have "q = p" using name by auto
    then show False using no_peer_of_isolated [OF assms(1-3) z] e by blast
  qed
  have heap: "rm_heap (kfree_resource p st) = (rm_heap st)(p := None)" by (simp add: kfree_resource_def)
  have "dependencies (kfree_resource p st) \<subseteq> {(a, b, u) \<in> dependencies st. a \<noteq> n \<and> b \<noteq> n}"
    using name none by (fastforce simp: dependencies_def heap split: if_splits)
  moreover have "{(a, b, u) \<in> dependencies st. a \<noteq> n \<and> b \<noteq> n} \<subseteq> dependencies (kfree_resource p st)"
    using name by (fastforce simp: dependencies_def heap)
  ultimately show ?thesis by (rule equalityI)
qed

text \<open>C14: Deleting a registered resource (\<open>ipa_rm_resource_delete\<close>) returns 0, frees it, and removes from the graph exactly the dependencies from and
  to its name, with the flag of the client or of the kernel; when its name is then taken out of the table (\<open>ipa_rm_dep_graph_remove\<close>) it is not
  registered any more and the state of the other resources is well-formed.\<close>

theorem rm_delete_detaches:
  assumes "rm_inv st" and "ipa_rm_dep_graph_get_resource n st = (0, Some p)"
  defines "del \<equiv> ipa_rm_resource_delete (Some p) st"
  defines "st' \<equiv> snd (ipa_rm_dep_graph_remove n (snd del))"
  shows "fst del = 0 \<and> rm_heap (snd del) p = None \<and>
    dependencies (snd del) = {(a, b, u) \<in> dependencies st. a \<noteq> n \<and> b \<noteq> n} \<and>
    dependencies st' = dependencies (snd del) \<and> \<not> registered st' n \<and> rm_wf st'"
proof -
  have wf: "rm_wf st" using assms(1) by (simp add: rm_inv_def)
  have v: "valid_name n" "resource_table st ! n = Some p" using assms(2) by (auto simp: get_resource_table split: if_splits option.splits)
  obtain r where r: "rm_heap st p = Some r" "rs_name r = n" using wf_table [OF wf v] by auto
  obtain st2 r2 where d: "good_step st st2" "rm_heap st2 p = Some r2" "rs_name r2 = rs_name r" "isolated r2"
    "ipa_rm_resource_delete (Some p) st = (0, kfree_resource p st2)" "keeps core (delete_loop 22 0 (is_prod r) p st) st2"
    by (rule delete_isolates [OF wf r(1)])
  have wf2: "rm_wf st2" by (rule good_step_wf(1) [OF d(1)])
  have len: "length (resource_table st2) = 22" using wf2 by (simp add: rm_wf_def)
  have del: "del = (0, kfree_resource p st2)" using d(5) by (simp add: del_def)
  have st': "st' = forget p n st2"
    using valid_name_22 [OF v(1)]
    by (simp add: st'_def del ipa_rm_dep_graph_remove_def kfree_resource_def live_simps(3) [OF d(2)] flag_ub_def forget_def)
  have "rm_inv st'" using inv_step_trans [OF good_inv [OF d(1)] forget_inv [OF d(2,4)]] assms(1) d(3) r(2) by (simp add: inv_step_def st')
  moreover have "dependencies (snd del) = {(a, b, u) \<in> dependencies st. a \<noteq> n \<and> b \<noteq> n}"
    using kfree_dependencies [OF wf2 d(2,4)] dependencies_keeps [OF d(6)] delete_loop_dependencies [OF wf r(1) refl, of 0 22] d(3) r(2)
    by (auto simp: del)
  moreover have "dependencies st' = dependencies (snd del)"
    by (simp add: st' del dependencies_def forget_def kfree_resource_def live_simps(3) [OF d(2)])
  moreover have "\<not> registered st' n" using len v(1) by (simp add: st' forget_def registered_def get_resource_table)
  ultimately show ?thesis by (simp add: del kfree_resource_def rm_inv_def)
qed

lemma demo_lookup: "ipa_rm_dep_graph_get_resource 2 (run rm_step demo_linked (rm_demo dr)) = (0, Some 0)"
  by (simp add: eval_state eval_edges Let_def cong: let_weak_cong)

lemma rm_delete_detaches_witness:
  "fst (ipa_rm_resource_delete (Some 0) (run rm_step demo_linked (rm_demo (\<lambda>_. 0)))) = 0 \<and>
   rm_heap (snd (ipa_rm_resource_delete (Some 0) (run rm_step demo_linked (rm_demo (\<lambda>_. 0))))) 0 = None \<and>
   \<not> registered (snd (ipa_rm_dep_graph_remove 2 (snd (ipa_rm_resource_delete (Some 0) (run rm_step demo_linked (rm_demo (\<lambda>_. 0))))))) 2"
  using rm_delete_detaches [OF demo_inv(2) demo_lookup] by blast

text \<open>Adding a new dependency to a released producer and deleting it again with the same flag succeeds and gives back every resource: its
  dependencies, its bandwidths, its counts and its state.\<close>

theorem rm_dependency_roundtrip:
  fixes u :: bool
  assumes "rm_inv st" and "rm_heap st p = Some rp" and "is_prod rp" and "rs_state rp = IPA_RM_RELEASED"
    and "rm_heap st q = Some rq" and "\<not> is_prod rq" and "peer (peers_list rp) (rs_name rq) = None"
  defines "st1 \<equiv> snd (ipa_rm_resource_add_dependency (Some p) (Some q) u st)"
  defines "st2 \<equiv> snd (ipa_rm_resource_delete_dependency (Some p) (Some q) u st1)"
  shows "fst (ipa_rm_resource_add_dependency (Some p) (Some q) u st) = 0 \<and>
    fst (ipa_rm_resource_delete_dependency (Some p) (Some q) u st1) = 0 \<and>
    dependencies st2 = dependencies st \<and>
    (\<forall>z. map_option (\<lambda>r. r\<lparr>peers_list := None\<rparr>) (rm_heap st2 z) = map_option (\<lambda>r. r\<lparr>peers_list := None\<rparr>) (rm_heap st z))"
proof -
  have wf: "rm_wf st" using assms(1) by (simp add: rm_inv_def)
  have pq: "p \<noteq> q" using assms(2,3,5,6) by auto
  have add: "ipa_rm_resource_add_dependency (Some p) (Some q) u st = (0, linked p q u st)"
    using add_dependency_eq [OF wf assms(2,3,5,6,7), of u] assms(4) by simp
  obtain lp lq where l: "rm_heap (linked p q u st) p = Some (rp\<lparr>peers_list := Some lp, needed_bw := needed_bw rp + max_bw rq\<rparr>)"
    "rm_heap (linked p q u st) q = Some (rq\<lparr>peers_list := Some lq\<rparr>)" "peer (Some lp) = (peer (peers_list rp))(rs_name rq := Some (q, u))"
    "rm_wf (linked p q u st)" "\<forall>z. z \<noteq> p \<longrightarrow> z \<noteq> q \<longrightarrow> rm_heap (linked p q u st) z = rm_heap st z"
    by (rule linked_ok [OF wf assms(2,3,5,6,7)]) blast
  let ?rp = "rp\<lparr>peers_list := Some lp, needed_bw := needed_bw rp + max_bw rq\<rparr>" and ?rq = "rq\<lparr>peers_list := Some lq\<rparr>"
  have st1: "st1 = linked p q u st" using add by (simp add: st1_def)
  have p1: "is_prod ?rp" "\<not> is_prod ?rq" and e1: "peer (peers_list ?rp) (rs_name ?rq) = Some (q, u)"
    using assms(3,6) l(3) by (simp_all add: is_prod_def)
  let ?gone = "unlinked p (rs_name rp) q (rs_name rq)"
  obtain s a b st3 where o: "only p (?rp\<lparr>needed_bw := needed_bw ?rp - max_bw ?rq, rs_state := s, pending_request := a, pending_release := b\<rparr>) (linked p q u st) st3"
    and del: "ipa_rm_resource_delete_dependency (Some p) (Some q) u (linked p q u st) =
      (0, if active ?rp then snd (ipa_rm_resource_consumer_release q (max_bw ?rp) True (unlinked p (rs_name ?rp) q (rs_name ?rq) st3))
          else unlinked p (rs_name ?rp) q (rs_name ?rq) st3)"
    and same: "s = IPA_RM_RELEASED" "a = pending_request rp" "b = pending_release rp"
    by (rule delete_dependency_split [OF l(4,1) p1(1) l(2) p1(2) e1]) (use assms(4) in simp)
  have idle: "\<not> active ?rp" using assms(4) by (simp add: active_def)
  have st2: "st2 = ?gone st3" and del0: "fst (ipa_rm_resource_delete_dependency (Some p) (Some q) u st1) = 0"
    using del idle by (simp_all add: st2_def st1)
  obtain lp' lq' where g: "rm_heap (?gone st3) p = Some (?rp\<lparr>needed_bw := needed_bw ?rp - max_bw ?rq, rs_state := s, pending_request := a, pending_release := b, peers_list := Some lp'\<rparr>)"
    "rm_heap (?gone st3) q = Some (?rq\<lparr>peers_list := Some lq'\<rparr>)"
    "\<forall>z. z \<noteq> p \<longrightarrow> z \<noteq> q \<longrightarrow> rm_heap (?gone st3) z = rm_heap (linked p q u st) z"
    by (rule delete_core [OF l(4,1) p1(1) l(2) p1(2) e1 o]) simp
  have "map_option (\<lambda>r. r\<lparr>peers_list := None\<rparr>) (rm_heap st2 z) = map_option (\<lambda>r. r\<lparr>peers_list := None\<rparr>) (rm_heap st z)" for z
  proof (cases "z = p \<or> z = q")
    case True
    then show ?thesis using g(1,2) assms(2,4,5) same by (auto simp: st2)
  next
    case False
    then show ?thesis using g(3) l(5) by (simp add: st2)
  qed
  moreover have "dependencies st2 = dependencies st"
    using delete_dependencies [OF l(4,1) p1(1) l(2) p1(2), of u] add_dependencies [OF wf assms(2,3,5,6,7), of u] add
      dependency_iff [OF wf assms(2,3,5), of u] assms(7) by (simp add: st2_def st1)
  ultimately show ?thesis using add del0 by simp
qed

lemma rm_dependency_roundtrip_witness:
  "dependencies (snd (ipa_rm_resource_delete_dependency (Some 0) (Some 1) True
     (snd (ipa_rm_resource_add_dependency (Some 0) (Some 1) True (run rm_step demo_run (rm_demo (\<lambda>_. 0))))))) =
   dependencies (run rm_step demo_run (rm_demo (\<lambda>_. 0)))"
proof -
  let ?st = "run rm_step demo_run (rm_demo (\<lambda>_. 0))"
  obtain r where r: "rm_heap ?st 0 = Some r" "is_prod r" "rs_state r = IPA_RM_RELEASED" "peer (peers_list r) 3 = None"
    using demo_heap(1) by auto
  obtain s where s: "rm_heap ?st 1 = Some s" "\<not> is_prod s" "rs_name s = 3" using demo_heap(2) by auto
  have "peer (peers_list r) (rs_name s) = None" using r(4) s(3) by simp
  from rm_dependency_roundtrip [OF demo_inv(1) r(1-3) s(1,2) this, of True] show ?thesis by blast
qed

section \<open>Statistics and indices\<close>

text \<open>The statistics never write past the buffer: for every size that is not negative the result is the number of characters in the buffer, there
  is room for the final NUL, and no resource changes; a NULL buffer or a negative size is answered with the positive number EINVAL.\<close>

theorem rm_stat_fits:
  assumes "rm_inv st"
  shows "ipa_rm_stat True sz st = (EINVAL, [], st) \<and> (sz < 0 \<longrightarrow> ipa_rm_stat b sz st = (EINVAL, [], st)) \<and>
    (0 \<le> sz \<longrightarrow> (\<exists>t. ipa_rm_stat False sz st = (int (length t), t, st) \<and> (int (length t) < sz \<or> (sz = 0 \<and> t = []))))"
  using stat_ok [OF assms, of sz] by (auto simp: ipa_rm_stat_def)

lemma rm_stat_fits_witness: "ipa_rm_stat True 5 (run rm_step demo_run (rm_demo (\<lambda>_. 0))) = (EINVAL, [], run rm_step demo_run (rm_demo (\<lambda>_. 0)))"
  using rm_stat_fits [OF demo_inv(1), of 5] by blast

text \<open>The index check of the peers list lets the index one past the end through: reading the peer at that index leaves the array, while every
  index that the loops use is inside.\<close>

theorem peers_index_past_end:
  assumes "rm_inv st" and "rm_heap st p = Some r" and "peers_list r = Some l"
  shows "ipa_rm_peers_list_check_index (ipa_rm_peers_list_get_size l) l \<and>
    snd (ipa_rm_peers_list_get_resource (ipa_rm_peers_list_get_size l) l) \<and>
    (\<forall>i. 0 \<le> i \<and> i < ipa_rm_peers_list_get_size l \<longrightarrow> \<not> snd (ipa_rm_peers_list_get_resource i l))"
proof -
  have l: "peers_ok l" using assms wf_res [of st p r] by (auto simp: rm_inv_def res_ok_def)
  have "\<not> snd (ipa_rm_peers_list_get_resource i l)" if "0 \<le> i" "i < 22" for i
    using get_resource_ok [OF l, of "nat i"] that by (simp add: nat_less_iff)
  then show ?thesis
    using l get_resource_past_end [OF l] by (simp add: ipa_rm_peers_list_get_size_def ipa_rm_peers_list_check_index_def peers_ok_def)
qed

lemma peers_index_past_end_witness:
  "\<exists>l. snd (ipa_rm_peers_list_get_resource (ipa_rm_peers_list_get_size l) l) \<and> peers_ok l"
proof -
  obtain r where r: "rm_heap (run rm_step demo_run (rm_demo (\<lambda>_. 0))) 0 = Some r" using demo_heap(1) by auto
  obtain l where l: "peers_list r = Some l" "peers_ok l"
    using wf_res [of "run rm_step demo_run (rm_demo (\<lambda>_. 0))" 0 r] demo_inv(1) r by (auto simp: rm_inv_def res_ok_def)
  from peers_index_past_end [OF demo_inv(1) r l(1)] l(2) show ?thesis by blast
qed

end
