(* ===== verification/Rm_Scenarios.thy ===== *)
theory Rm_Scenarios
  imports Rm_Claims
begin

text \<open>
  Two runs of the resource manager that end in a wrong state: each is evaluated from the start of
  the machine, and shows why the accounts need good drivers and why an answer can get lost.
\<close>

lemmas eval_delete = ipa_rm_delete_dependency_core_def ipa_rm_dep_graph_delete_dependency_def ipa_rm_resource_delete_dependency_def
  delete_dependency_state_def remove_peer_from_def ipa_rm_peers_list_remove_peer_def ipa_rm_resource_consumer_release_def
  consumer_release_start_def dec_usage_def ipa_rm_resource_consumer_release_work_def ipa_rm_resource_producer_release_def

lemmas eval_handlers = run_work_def ipa_rm_wq_handler_def ipa_rm_resource_consumer_handle_cb_def ipa_rm_resource_producer_handle_cb_def

section \<open>A deleted dependency and a pending one\<close>

text \<open>
  Producer 2 depends on consumers 3 and 5 (resources 0, 1 and 2). The driver of 3 grants at once, the driver of 5
  answers later (call 3), and the dependency on 3 is deleted before that answer.
\<close>

definition stuck_run :: "rm_step_event list" where
  "stuck_run = [Ev_Create (demo_params 2), Ev_Create (demo_params 3), Ev_Create (demo_params 5), Ev_Add_Dependency 2 3 False,
     Ev_Add_Dependency 2 5 False, Ev_Request 2, Ev_Delete_Dependency 2 3 False]"

definition late_driver :: "nat \<Rightarrow> int" where
  "late_driver k = (if k = 3 then - EINPROGRESS else 0)"

text \<open>Deleting a dependency on a consumer that is granted already counts off the pending answer of another consumer: when that answer comes
  the consumer is granted but the producer stays in the state of a request in progress, with no answer pending.\<close>

theorem rm_delete_loses_grant:
  "(let st = run_work (Wq_Work IPA_RM_WQ_RESOURCE_CB 5 IPA_RM_RESOURCE_GRANTED False) (run rm_step stuck_run (rm_demo late_driver))
    in rs_state (res st 2) = IPA_RM_GRANTED \<and> rs_state (res st 0) = IPA_RM_REQUEST_IN_PROGRESS \<and> pending_request (res st 0) = 0)"
  by (simp add: stuck_run_def late_driver_def eval_state eval_edges eval_request eval_delete eval_handlers Let_def cong: let_weak_cong)

section \<open>A dependency whose request failed\<close>

text \<open>
  Producers 2 and 4 and consumer 5 (resources 0, 1 and 2). Producer 2 is granted; a new dependency on 5 fails in the driver
  (call 1). Then 4 gets a dependency on 5 and is granted, and 2 is released.
\<close>

definition steal_run :: "rm_step_event list" where
  "steal_run = [Ev_Create (demo_params 2), Ev_Create (demo_params 4), Ev_Create (demo_params 5), Ev_Request 2,
     Ev_Add_Dependency 2 5 False, Ev_Add_Dependency 4 5 False, Ev_Request 4, Ev_Release 2]"

definition failing_driver :: "nat \<Rightarrow> int" where
  "failing_driver k = (if k = 1 then - 5 else 0)"

text \<open>A dependency whose request fails in the driver stays recorded, so the next release of its producer gives back a use it never had: the
  consumer is released while another producer that depends on it is granted.\<close>

theorem rm_failed_add_steals_use:
  "(let st = run rm_step steal_run (rm_demo failing_driver)
    in rs_state (res st 1) = IPA_RM_GRANTED \<and> rs_state (res st 2) = IPA_RM_RELEASED \<and> usage_count (res st 2) = 0 \<and>
       peer (peers_list (res st 1)) 5 = Some (2, False))"
  by (simp add: steal_run_def failing_driver_def eval_state eval_edges eval_request eval_delete eval_handlers peer_def Let_def cong: let_weak_cong)

end
