(* ===== verification/Synx_Types.thy ===== *)
theory Synx_Types
  imports Prelude
begin

text \<open>
  The global shared memory of synx (\<^verbatim>\<open>synx_global.c\<close>): a table of 4096 objects that the
  processor cores share, a bitmap of the entries in use, and one hardware spinlock. An index is a
  natural number; the members of an entry keep their widths.

  Inputs that the code does not decide are members of the state: whether an attempt to take the
  hardware lock runs into its timeout (\<open>lock_busy\<close>), what the other cores have done to the bitmap
  before an atomic access (\<open>other_cores\<close>). The calls of the message layer are logged in order.
  Every access to an entry outside the table sets \<open>gmem_ub\<close>.
\<close>

section \<open>Constants\<close>

abbreviation (input) SYNX_SUCCESS :: int where "SYNX_SUCCESS \<equiv> 0"
abbreviation (input) SYNX_NOMEM :: int where "SYNX_NOMEM \<equiv> 12"
abbreviation (input) SYNX_TIMEOUT :: int where "SYNX_TIMEOUT \<equiv> 110"
abbreviation (input) SYNX_ALREADY :: int where "SYNX_ALREADY \<equiv> 114"
abbreviation (input) SYNX_NOENT :: int where "SYNX_NOENT \<equiv> 2"
abbreviation (input) SYNX_INVALID :: int where "SYNX_INVALID \<equiv> 22"

abbreviation (input) SYNX_STATE_ACTIVE :: u32 where "SYNX_STATE_ACTIVE \<equiv> 1"
abbreviation (input) SYNX_STATE_SIGNALED_SUCCESS :: u32 where "SYNX_STATE_SIGNALED_SUCCESS \<equiv> 2"
abbreviation (input) SYNX_STATE_SIGNALED_SSR :: u32 where "SYNX_STATE_SIGNALED_SSR \<equiv> 6"
abbreviation (input) SYNX_STATE_SIGNALED_MAX :: u32 where "SYNX_STATE_SIGNALED_MAX \<equiv> 64"

abbreviation (input) SYNX_CORE_APSS :: nat where "SYNX_CORE_APSS \<equiv> 0"
abbreviation (input) SYNX_CORE_MAX :: nat where "SYNX_CORE_MAX \<equiv> 5"

abbreviation (input) SYNX_GLOBAL_MAX_OBJS :: nat where "SYNX_GLOBAL_MAX_OBJS \<equiv> 4096"
abbreviation (input) SYNX_GLOBAL_MAX_PARENTS :: nat where "SYNX_GLOBAL_MAX_PARENTS \<equiv> 4"
abbreviation (input) SHRD_MEM_DUMP_NUM_BMAP_WORDS :: nat where "SHRD_MEM_DUMP_NUM_BMAP_WORDS \<equiv> 10"

section \<open>The shared memory\<close>

record synx_global_coredata =
  g_status :: u32
  g_handle :: u32
  g_refcount :: u16
  g_num_child :: u16
  g_subscribers :: u16
  g_waiters :: u16
  g_parents :: "u16 list"

text \<open>What \<^verbatim>\<open>memset\<close> to zero leaves in an entry.\<close>

definition zero_coredata :: synx_global_coredata where
  "zero_coredata = \<lparr>g_status = 0, g_handle = 0, g_refcount = 0, g_num_child = 0, g_subscribers = 0, g_waiters = 0,
     g_parents = replicate SYNX_GLOBAL_MAX_PARENTS 0\<rparr>"

datatype synx_call = Msg_Send nat u64 | Ipclite_Recover nat | Debug_Bitmap nat u32 | Debug_Entry nat synx_global_coredata

record synx_shared_mem =
  mapped :: bool
  hwlock :: bool
  bitmap :: "u32 list"
  table :: "synx_global_coredata list"
  locked :: bool
  lock_busy :: "nat \<Rightarrow> bool"
  lock_tries :: nat
  other_cores :: "nat \<Rightarrow> u32 list \<Rightarrow> u32 list"
  atomics :: nat
  calls :: "synx_call list"
  gmem_ub :: bool

definition synx_is_valid_idx :: "nat \<Rightarrow> bool" where
  "synx_is_valid_idx idx \<longleftrightarrow> idx < SYNX_GLOBAL_MAX_OBJS"

definition obj :: "synx_shared_mem \<Rightarrow> nat \<Rightarrow> synx_global_coredata" where
  "obj st idx = (if idx < length (table st) then table st ! idx else zero_coredata)"

definition upd_obj :: "nat \<Rightarrow> (synx_global_coredata \<Rightarrow> synx_global_coredata) \<Rightarrow> synx_shared_mem \<Rightarrow> synx_shared_mem" where
  "upd_obj idx f st =
     (if idx < length (table st) then st\<lparr>table := (table st)[idx := f (table st ! idx)]\<rparr> else st\<lparr>gmem_ub := True\<rparr>)"

section \<open>The hardware lock\<close>

text \<open>The member \<^verbatim>\<open>subscribers\<close> of entry 0 holds the owner of the lock.\<close>

definition synx_gmem_lock_owner :: "synx_shared_mem \<Rightarrow> u16" where
  "synx_gmem_lock_owner st = g_subscribers (obj st 0)"

definition synx_gmem_lock_owner_set :: "synx_shared_mem \<Rightarrow> synx_shared_mem" where
  "synx_gmem_lock_owner_set = upd_obj 0 (\<lambda>g. g\<lparr>g_subscribers := of_nat SYNX_CORE_APSS\<rparr>)"

definition synx_gmem_lock_owner_clear :: "synx_shared_mem \<Rightarrow> synx_shared_mem" where
  "synx_gmem_lock_owner_clear = upd_obj 0 (\<lambda>g. g\<lparr>g_subscribers := of_nat SYNX_CORE_MAX\<rparr>)"

text \<open>
  \<^verbatim>\<open>hwspin_lock_timeout_irqsave\<close> returns 0 with the lock taken, or \<^verbatim>\<open>-ETIMEDOUT\<close> when
  the lock stays busy; it stays busy when it is held already.
\<close>

definition synx_gmem_lock :: "nat \<Rightarrow> synx_shared_mem \<Rightarrow> int \<times> synx_shared_mem" where
  "synx_gmem_lock idx st =
     (if \<not> hwlock st then (- SYNX_INVALID, st)
      else
        let st1 = st\<lparr>lock_tries := lock_tries st + 1\<rparr>
        in if locked st \<or> lock_busy st (lock_tries st) then (- SYNX_TIMEOUT, st1)
           else (0, synx_gmem_lock_owner_set (st1\<lparr>locked := True\<rparr>)))"

definition synx_gmem_unlock :: "nat \<Rightarrow> synx_shared_mem \<Rightarrow> synx_shared_mem" where
  "synx_gmem_unlock idx st = (synx_gmem_lock_owner_clear st)\<lparr>locked := False\<rparr>"

text \<open>A section under the lock of an entry; \<open>fail\<close> is the result when the lock is not taken.\<close>

definition with_gmem :: "nat \<Rightarrow> (int \<Rightarrow> 'a) \<Rightarrow> (synx_shared_mem \<Rightarrow> 'a \<times> synx_shared_mem) \<Rightarrow> synx_shared_mem \<Rightarrow> 'a \<times> synx_shared_mem" where
  "with_gmem idx fail body st =
     (case synx_gmem_lock idx st of
        (rc, st1) \<Rightarrow> if rc \<noteq> 0 then (fail rc, st1) else (case body st1 of (r, st2) \<Rightarrow> (r, synx_gmem_unlock idx st2)))"

section \<open>The bitmap\<close>

text \<open>Bit \<open>i\<close> of the bitmap as the kernel numbers the bits of an array of longs on a little-endian machine.\<close>

definition bitmap_bit :: "u32 list \<Rightarrow> nat \<Rightarrow> bool" where
  "bitmap_bit bm i \<longleftrightarrow> i div 32 < length bm \<and> bit (bm ! (i div 32)) (i mod 32)"

definition find_first_zero_bit :: "u32 list \<Rightarrow> nat \<Rightarrow> nat" where
  "find_first_zero_bit bm sz = (case List.find (\<lambda>i. \<not> bitmap_bit bm i) [0..<sz] of None \<Rightarrow> sz | Some i \<Rightarrow> i)"

definition find_next_bit :: "u32 list \<Rightarrow> nat \<Rightarrow> nat \<Rightarrow> nat" where
  "find_next_bit bm sz offset = (case List.find (bitmap_bit bm) [offset..<sz] of None \<Rightarrow> sz | Some i \<Rightarrow> i)"

text \<open>The atomic accesses of \<^verbatim>\<open>ipclite.c\<close>: fetch the old word and store the new one. The other cores run before.\<close>

definition atomic_access :: "(u32 \<Rightarrow> u32) \<Rightarrow> nat \<Rightarrow> synx_shared_mem \<Rightarrow> u32 \<times> synx_shared_mem" where
  "atomic_access f w st =
     (let bm = other_cores st (atomics st) (bitmap st);
          st1 = st\<lparr>bitmap := bm, atomics := atomics st + 1\<rparr>
      in if w < length bm then (bm ! w, st1\<lparr>bitmap := bm[w := f (bm ! w)]\<rparr>) else (0, st1\<lparr>gmem_ub := True\<rparr>))"

definition ipclite_global_test_and_set_bit :: "nat \<Rightarrow> nat \<Rightarrow> synx_shared_mem \<Rightarrow> u32 \<times> synx_shared_mem" where
  "ipclite_global_test_and_set_bit nr = atomic_access (\<lambda>v. v OR push_bit nr 1)"

definition ipclite_global_test_and_clear_bit :: "nat \<Rightarrow> nat \<Rightarrow> synx_shared_mem \<Rightarrow> u32 \<times> synx_shared_mem" where
  "ipclite_global_test_and_clear_bit nr = atomic_access (\<lambda>v. v AND NOT (push_bit nr 1))"

text \<open>Giving an index back.\<close>

definition clear_index :: "nat \<Rightarrow> synx_shared_mem \<Rightarrow> synx_shared_mem" where
  "clear_index idx st = snd (ipclite_global_test_and_clear_bit (idx mod 32) (idx div 32) st)"

definition call :: "synx_call \<Rightarrow> synx_shared_mem \<Rightarrow> synx_shared_mem" where
  "call c st = st\<lparr>calls := calls st @ [c]\<rparr>"

text \<open>The host of the message layer for a core.\<close>

definition synx_global_map_core_id :: "nat \<Rightarrow> nat" where
  "synx_global_map_core_id core_id =
     (if core_id = 0 then 0 else if core_id = 1 then 5 else if core_id = 3 then 8 else if core_id = 2 then 6 else if core_id = 4 then 7 else 9)"

end
