(* ===== verification/Synx_Ops.thy ===== *)
theory Synx_Ops
  imports Synx_Types
begin

text \<open>
  The operations of \<^verbatim>\<open>synx_global.c\<close> on a single entry, the set-up of the shared memory and
  the allocation of entries. A pointer argument that may be NULL is an option.
\<close>

section \<open>Set-up\<close>

text \<open>\<open>hw_request\<close> tells whether the hardware lock could be requested.\<close>

definition synx_gmem_init :: "bool \<Rightarrow> synx_shared_mem \<Rightarrow> int \<times> synx_shared_mem" where
  "synx_gmem_init hw_request st =
     (if \<not> mapped st then (- SYNX_NOMEM, st)
      else let st1 = st\<lparr>hwlock := hw_request\<rparr>
           in if \<not> hw_request then (- SYNX_NOMEM, st1)
              else (SYNX_SUCCESS, upd_obj 0 (\<lambda>_. zero_coredata) (snd (ipclite_global_test_and_set_bit 0 0 st1))))"

text \<open>
  \<open>rc\<close> and \<open>sz\<close> are the results of \<^verbatim>\<open>get_global_partition_info\<close>. The bitmap has 512 bytes, the
  two lock words 8 and the table 98304; a region that is too small does not hold the table.
\<close>

definition synx_global_mem_init :: "int \<Rightarrow> u32 \<Rightarrow> bool \<Rightarrow> synx_shared_mem \<Rightarrow> int \<times> synx_shared_mem" where
  "synx_global_mem_init rc sz hw_request st =
     (if rc \<noteq> 0 then (rc, st)
      else synx_gmem_init hw_request
        (st\<lparr>mapped := True, bitmap := replicate (SYNX_GLOBAL_MAX_OBJS div 32) 0,
            table := replicate SYNX_GLOBAL_MAX_OBJS zero_coredata, gmem_ub := gmem_ub st \<or> unat sz < 98824\<rparr>))"

section \<open>Allocation\<close>

text \<open>The retry loop of the allocation: None when it never ends.\<close>

partial_function (option) alloc_loop :: "synx_shared_mem \<Rightarrow> (int \<times> nat option \<times> synx_shared_mem) option" where
  "alloc_loop st =
     (let index = find_first_zero_bit (bitmap st) SYNX_GLOBAL_MAX_OBJS
      in if index \<ge> SYNX_GLOBAL_MAX_OBJS then Some (- SYNX_NOMEM, None, st)
         else case ipclite_global_test_and_set_bit (index mod 32) (index div 32) st of
                (prev, st1) \<Rightarrow> if \<not> bit prev (index mod 32) then Some (SYNX_SUCCESS, Some index, st1) else alloc_loop st1)"

definition synx_global_alloc_index :: "bool \<Rightarrow> synx_shared_mem \<Rightarrow> (int \<times> nat option \<times> synx_shared_mem) option" where
  "synx_global_alloc_index idx_null st =
     (if \<not> mapped st then Some (- SYNX_NOMEM, None, st)
      else if idx_null then Some (- SYNX_INVALID, None, st)
      else alloc_loop st)"

definition handle_index :: "u32 \<Rightarrow> nat" where
  "handle_index h_synx = unat (h_synx AND 0xFFFF)"

definition init_section :: "u32 \<Rightarrow> nat \<Rightarrow> synx_shared_mem \<Rightarrow> int \<times> synx_shared_mem" where
  "init_section h_synx idx st =
     (let g = obj st idx in
      if g_status g \<noteq> 0 \<or> g_refcount g \<noteq> 0 \<or> g_subscribers g \<noteq> 0 \<or> g_handle g \<noteq> 0 \<or> g_parents g ! 0 \<noteq> 0
      then (- SYNX_INVALID, st)
      else (SYNX_SUCCESS, upd_obj idx (\<lambda>_. zero_coredata\<lparr>g_status := SYNX_STATE_ACTIVE, g_refcount := 1,
                            g_subscribers := push_bit SYNX_CORE_APSS 1, g_handle := h_synx\<rparr>) st))"

definition synx_global_init_coredata :: "u32 \<Rightarrow> synx_shared_mem \<Rightarrow> int \<times> synx_shared_mem" where
  "synx_global_init_coredata h_synx st =
     (let idx = handle_index h_synx in
      if \<not> mapped st then (- SYNX_NOMEM, st)
      else if \<not> synx_is_valid_idx idx then (- SYNX_INVALID, st)
      else with_gmem idx (\<lambda>rc. rc) (init_section h_synx idx) st)"

text \<open>\<^verbatim>\<open>synx_util.c\<close>: the handle of an index and the allocation of a global handle.\<close>

definition synx_encode_handle :: "nat \<Rightarrow> nat \<Rightarrow> bool \<Rightarrow> u32" where
  "synx_encode_handle idx core_id global_idx =
     (if idx \<ge> SYNX_GLOBAL_MAX_OBJS then 0
      else push_bit 16 ((if global_idx then push_bit 4 1 else 0) OR of_nat core_id) OR of_nat idx)"

definition synx_alloc_global_handle :: "synx_shared_mem \<Rightarrow> (int \<times> u32 option \<times> synx_shared_mem) option" where
  "synx_alloc_global_handle st =
     Option.bind (synx_global_alloc_index False st)
       (\<lambda>(rc, idx, st1). case idx of
            None \<Rightarrow> Some (rc, None, st1)
          | Some i \<Rightarrow> let h = synx_encode_handle i SYNX_CORE_APSS True
                      in case synx_global_init_coredata h st1 of (rc', st2) \<Rightarrow> Some (rc', Some h, st2))"

section \<open>Waiters and subscribers\<close>

definition mark_cores :: "u16 \<Rightarrow> bool list \<Rightarrow> bool list" where
  "mark_cores w cores = map (\<lambda>i. cores ! i \<or> i < SYNX_CORE_MAX \<and> bit w i) [0..<length cores]"

definition synx_global_get_waiting_cores_locked :: "synx_global_coredata \<Rightarrow> bool list \<Rightarrow> bool list \<times> synx_global_coredata" where
  "synx_global_get_waiting_cores_locked g cores = (mark_cores (g_waiters g) cores, g\<lparr>g_waiters := 0\<rparr>)"

definition synx_global_get_waiting_cores :: "nat \<Rightarrow> bool list option \<Rightarrow> synx_shared_mem \<Rightarrow> (int \<times> bool list option) \<times> synx_shared_mem" where
  "synx_global_get_waiting_cores idx cores st =
     (if \<not> mapped st then ((- SYNX_NOMEM, cores), st)
      else case cores of
        None \<Rightarrow> ((- SYNX_INVALID, cores), st)
      | Some cs \<Rightarrow>
          if \<not> synx_is_valid_idx idx then ((- SYNX_INVALID, cores), st)
          else with_gmem idx (\<lambda>rc. (rc, cores))
                 (\<lambda>s. case synx_global_get_waiting_cores_locked (obj s idx) cs of
                        (cs', g) \<Rightarrow> ((SYNX_SUCCESS, Some cs'), upd_obj idx (\<lambda>_. g) s)) st)"

definition synx_global_set_waiting_core :: "nat \<Rightarrow> nat \<Rightarrow> synx_shared_mem \<Rightarrow> int \<times> synx_shared_mem" where
  "synx_global_set_waiting_core idx core_id st =
     (if \<not> mapped st then (- SYNX_NOMEM, st)
      else if core_id \<ge> SYNX_CORE_MAX \<or> \<not> synx_is_valid_idx idx then (- SYNX_INVALID, st)
      else with_gmem idx (\<lambda>rc. rc)
             (\<lambda>s. (SYNX_SUCCESS, upd_obj idx (\<lambda>g. g\<lparr>g_waiters := g_waiters g OR push_bit core_id 1\<rparr>) s)) st)"

definition synx_global_get_subscribed_cores :: "nat \<Rightarrow> bool list option \<Rightarrow> synx_shared_mem \<Rightarrow> (int \<times> bool list option) \<times> synx_shared_mem" where
  "synx_global_get_subscribed_cores idx cores st =
     (if \<not> mapped st then ((- SYNX_NOMEM, cores), st)
      else case cores of
        None \<Rightarrow> ((- SYNX_INVALID, cores), st)
      | Some cs \<Rightarrow>
          if \<not> synx_is_valid_idx idx then ((- SYNX_INVALID, cores), st)
          else with_gmem idx (\<lambda>rc. (rc, cores)) (\<lambda>s. ((SYNX_SUCCESS, Some (mark_cores (g_subscribers (obj s idx)) cs)), s)) st)"

definition synx_global_set_subscribed_core :: "nat \<Rightarrow> nat \<Rightarrow> synx_shared_mem \<Rightarrow> int \<times> synx_shared_mem" where
  "synx_global_set_subscribed_core idx core_id st =
     (if \<not> mapped st then (- SYNX_NOMEM, st)
      else if core_id \<ge> SYNX_CORE_MAX \<or> \<not> synx_is_valid_idx idx then (- SYNX_INVALID, st)
      else with_gmem idx (\<lambda>rc. rc)
             (\<lambda>s. (SYNX_SUCCESS, upd_obj idx (\<lambda>g. g\<lparr>g_subscribers := g_subscribers g OR push_bit core_id 1\<rparr>) s)) st)"

definition synx_global_clear_subscribed_core :: "nat \<Rightarrow> nat \<Rightarrow> synx_shared_mem \<Rightarrow> int \<times> synx_shared_mem" where
  "synx_global_clear_subscribed_core idx core_id st =
     (if \<not> mapped st then (- SYNX_NOMEM, st)
      else if core_id \<ge> SYNX_CORE_MAX \<or> \<not> synx_is_valid_idx idx then (- SYNX_INVALID, st)
      else with_gmem idx (\<lambda>rc. rc)
             (\<lambda>s. (SYNX_SUCCESS, upd_obj idx (\<lambda>g. g\<lparr>g_subscribers := g_subscribers g AND NOT (push_bit core_id 1)\<rparr>) s)) st)"

section \<open>Reading an entry\<close>

definition synx_global_fetch_handle_details :: "nat \<Rightarrow> bool \<Rightarrow> synx_shared_mem \<Rightarrow> (int \<times> u32 option) \<times> synx_shared_mem" where
  "synx_global_fetch_handle_details idx h_null st =
     (if \<not> mapped st then ((- SYNX_NOMEM, None), st)
      else if h_null \<or> \<not> synx_is_valid_idx idx then ((- SYNX_INVALID, None), st)
      else with_gmem idx (\<lambda>rc. (rc, None)) (\<lambda>s. ((SYNX_SUCCESS, Some (g_handle (obj s idx))), s)) st)"

definition synx_fetch_global_shared_memory_handle_details :: "u32 \<Rightarrow> synx_shared_mem \<Rightarrow> (bool \<times> synx_global_coredata option) \<times> synx_shared_mem" where
  "synx_fetch_global_shared_memory_handle_details synx_handle st =
     (let idx = handle_index synx_handle in
      if \<not> mapped st then ((False, None), st)
      else if \<not> synx_is_valid_idx idx then ((False, None), st)
      else with_gmem idx (\<lambda>_. (False, None)) (\<lambda>s. ((True, Some (obj s idx)), s)) st)"

text \<open>A negative error code in an unsigned result.\<close>

definition u32_of_rc :: "int \<Rightarrow> u32" where
  "u32_of_rc rc = word_of_int rc"

definition synx_global_get_parents_num :: "nat \<Rightarrow> synx_shared_mem \<Rightarrow> u32 \<times> synx_shared_mem" where
  "synx_global_get_parents_num idx st =
     (if \<not> mapped st then (0, st)
      else if \<not> synx_is_valid_idx idx then (0, st)
      else with_gmem idx u32_of_rc
             (\<lambda>s. (of_nat (length (filter (\<lambda>i. g_parents (obj s idx) ! i \<noteq> 0) [0..<SYNX_GLOBAL_MAX_PARENTS])), s)) st)"

definition synx_global_get_parents_locked :: "synx_global_coredata \<Rightarrow> nat list" where
  "synx_global_get_parents_locked g = map (\<lambda>i. unat (g_parents g ! i)) [0..<SYNX_GLOBAL_MAX_PARENTS]"

definition synx_global_get_parents :: "nat \<Rightarrow> bool \<Rightarrow> synx_shared_mem \<Rightarrow> (int \<times> nat list option) \<times> synx_shared_mem" where
  "synx_global_get_parents idx parents_null st =
     (if \<not> mapped st \<or> parents_null then ((- SYNX_NOMEM, None), st)
      else if \<not> synx_is_valid_idx idx then ((- SYNX_INVALID, None), st)
      else with_gmem idx (\<lambda>rc. (rc, None)) (\<lambda>s. ((SYNX_SUCCESS, Some (synx_global_get_parents_locked (obj s idx))), s)) st)"

definition synx_global_get_status :: "nat \<Rightarrow> synx_shared_mem \<Rightarrow> u32 \<times> synx_shared_mem" where
  "synx_global_get_status idx st =
     (if \<not> mapped st then (0, st)
      else if \<not> synx_is_valid_idx idx then (0, st)
      else with_gmem idx u32_of_rc
             (\<lambda>s. (let g = obj s idx
                   in if g_status g \<noteq> SYNX_STATE_ACTIVE \<and> g_num_child g = 0 then g_status g else SYNX_STATE_ACTIVE, s)) st)"

definition synx_global_test_status_set_wait :: "nat \<Rightarrow> nat \<Rightarrow> synx_shared_mem \<Rightarrow> u32 \<times> synx_shared_mem" where
  "synx_global_test_status_set_wait idx core_id st =
     (if \<not> mapped st then (0, st)
      else if core_id \<ge> SYNX_CORE_MAX \<or> \<not> synx_is_valid_idx idx then (0, st)
      else with_gmem idx (\<lambda>_. 0)
             (\<lambda>s. let g = obj s idx
                  in if g_status g = SYNX_STATE_ACTIVE \<or> g_num_child g \<noteq> 0
                     then (SYNX_STATE_ACTIVE, upd_obj idx (\<lambda>g. g\<lparr>g_waiters := g_waiters g OR push_bit core_id 1\<rparr>) s)
                     else (g_status g, s)) st)"

section \<open>References\<close>

definition synx_global_get_ref :: "nat \<Rightarrow> synx_shared_mem \<Rightarrow> int \<times> synx_shared_mem" where
  "synx_global_get_ref idx st =
     (if \<not> mapped st then (- SYNX_NOMEM, st)
      else if \<not> synx_is_valid_idx idx then (- SYNX_INVALID, st)
      else with_gmem idx (\<lambda>rc. rc)
             (\<lambda>s. if g_handle (obj s idx) \<noteq> 0 \<and> g_refcount (obj s idx) \<noteq> 0
                  then (0, upd_obj idx (\<lambda>g. g\<lparr>g_refcount := g_refcount g + 1\<rparr>) s)
                  else (- SYNX_NOENT, s)) st)"

text \<open>Dropping a reference inside a section: the cleared entry and whether it was the last one.\<close>

definition drop_ref :: "synx_global_coredata \<Rightarrow> synx_global_coredata \<times> bool" where
  "drop_ref g = (if g_refcount g - 1 = 0 then (zero_coredata, True) else (g\<lparr>g_refcount := g_refcount g - 1\<rparr>, False))"

definition synx_global_put_ref :: "nat \<Rightarrow> synx_shared_mem \<Rightarrow> synx_shared_mem" where
  "synx_global_put_ref idx st =
     (if \<not> mapped st then st
      else if \<not> synx_is_valid_idx idx then st
      else case with_gmem idx (\<lambda>_. False)
                  (\<lambda>s. case drop_ref (obj s idx) of (g, clear) \<Rightarrow> (clear, upd_obj idx (\<lambda>_. g) s)) st of
             (clear, st1) \<Rightarrow> if clear then clear_index idx st1 else st1)"

section \<open>Debug dump\<close>

primrec dump_loop :: "(nat \<Rightarrow> synx_shared_mem \<Rightarrow> synx_call) \<Rightarrow> nat list \<Rightarrow> synx_shared_mem \<Rightarrow> int \<times> synx_shared_mem" where
  "dump_loop f [] st = (SYNX_SUCCESS, st)"
| "dump_loop f (i # is) st =
     (case with_gmem i (\<lambda>rc. rc) (\<lambda>s. (0, call (f i s) s)) st of
        (rc, st1) \<Rightarrow> if rc \<noteq> 0 then (rc, st1) else dump_loop f is st1)"

definition synx_global_dump_shared_memory :: "synx_shared_mem \<Rightarrow> int \<times> synx_shared_mem" where
  "synx_global_dump_shared_memory st =
     (if \<not> mapped st then (- SYNX_INVALID, st)
      else case dump_loop (\<lambda>i s. Debug_Bitmap i (bitmap s ! i)) [0..<SHRD_MEM_DUMP_NUM_BMAP_WORDS] st of
             (rc, st1) \<Rightarrow> if rc \<noteq> 0 then (rc, st1)
                          else dump_loop (\<lambda>i s. Debug_Entry i (obj s i)) [0..<SHRD_MEM_DUMP_NUM_BMAP_WORDS * 4 * 8] st1)"

end
