(* ===== verification/Synx_Signal.thy ===== *)
theory Synx_Signal
  imports Synx_Ops
begin

text \<open>
  Signalling of an entry and of the composite entries above it, merging of entries, and recovery
  after the crash of a core. The update of an entry calls itself for the parents of the entry; it
  is a partial function whose value is None when the calls never end.
\<close>

section \<open>A loop of calls\<close>

text \<open>\<open>f\<close> is called for every index of a list that is not 0; its result code is dropped.\<close>

primrec each_index :: "(nat \<Rightarrow> 's \<Rightarrow> (int \<times> 's) option) \<Rightarrow> nat list \<Rightarrow> 's \<Rightarrow> 's option" where
  "each_index f [] st = Some st"
| "each_index f (i # is) st =
     (if i = 0 then each_index f is st else Option.bind (f i st) (\<lambda>r. each_index f is (snd r)))"

lemma each_index_mono [partial_function_mono]:
  assumes "\<And>i s. mono_option (\<lambda>F. f F i s)"
  shows "mono_option (\<lambda>F. each_index (\<lambda>i s. f F i s) is st)"
  by (induction "is" arbitrary: st) (auto intro!: partial_function_mono assms)

section \<open>Signalling\<close>

definition is_error_status :: "u32 \<Rightarrow> bool" where
  "is_error_status status \<longleftrightarrow> status > SYNX_STATE_SIGNALED_SUCCESS \<and> status \<le> SYNX_STATE_SIGNALED_MAX"

definition signal_data :: "synx_global_coredata \<Rightarrow> u64" where
  "signal_data g = push_bit 32 (ucast (g_handle g)) OR ucast (g_status g)"

text \<open>
  The section under the lock: the message for the waiters (0 for none), the waiting cores, the
  parents, and whether the entry was cleared.
\<close>

definition update_status_section :: "nat \<Rightarrow> u32 \<Rightarrow> synx_shared_mem \<Rightarrow> (u64 \<times> bool list \<times> nat list \<times> bool) \<times> synx_shared_mem" where
  "update_status_section idx status st =
     (let g = obj st idx;
          no_cores = replicate SYNX_CORE_MAX False;
          no_parents = replicate SYNX_GLOBAL_MAX_PARENTS 0
      in if g_num_child g \<noteq> 0 then
           let g1 = g\<lparr>g_num_child := g_num_child g - 1\<rparr>;
               g2 = (if g_status g = SYNX_STATE_ACTIVE \<or> is_error_status status then g1\<lparr>g_status := status\<rparr> else g1)
           in if g_num_child g2 = 0 then
                case synx_global_get_waiting_cores_locked g2 no_cores of
                  (cores, g3) \<Rightarrow>
                    case drop_ref g3 of
                      (g4, clear) \<Rightarrow>
                        ((signal_data g2, cores, synx_global_get_parents_locked g3, clear), upd_obj idx (\<lambda>_. g4) st)
              else ((0, no_cores, no_parents, False), upd_obj idx (\<lambda>_. g2) st)
         else
           let g1 = g\<lparr>g_status := status\<rparr>
           in case synx_global_get_waiting_cores_locked g1 no_cores of
                (cores, g2) \<Rightarrow>
                  ((signal_data g1, cores, synx_global_get_parents_locked g2, False), upd_obj idx (\<lambda>_. g2) st))"

text \<open>The messages to the waiting cores; the own core is told after a crash only.\<close>

definition notify_cores :: "u32 \<Rightarrow> u64 \<Rightarrow> bool list \<Rightarrow> synx_shared_mem \<Rightarrow> synx_shared_mem" where
  "notify_cores status data cores st =
     (if data = 0 then st
      else fold (\<lambda>i s. if cores ! i then call (Msg_Send (synx_global_map_core_id i) data) s else s)
             [(if status = SYNX_STATE_SIGNALED_SSR then 0 else 1)..<SYNX_CORE_MAX] st)"

text \<open>The work on one entry, up to the calls for its parents.\<close>

definition update_status_entry :: "nat \<Rightarrow> u32 \<Rightarrow> synx_shared_mem \<Rightarrow> (int \<times> nat list) \<times> synx_shared_mem" where
  "update_status_entry idx status st =
     (case with_gmem idx Inl (\<lambda>s. case update_status_section idx status s of (r, s1) \<Rightarrow> (Inr r, s1)) st of
        (Inl rc, st1) \<Rightarrow> ((rc, []), st1)
      | (Inr (data, cores, parents, clear), st1) \<Rightarrow>
          ((SYNX_SUCCESS, parents), notify_cores status data cores (if clear then clear_index idx st1 else st1)))"

partial_function (option) synx_global_update_status_core :: "nat \<Rightarrow> u32 \<Rightarrow> synx_shared_mem \<Rightarrow> (int \<times> synx_shared_mem) option" where
  "synx_global_update_status_core idx status st =
     (case update_status_entry idx status st of
        ((rc, parents), st1) \<Rightarrow>
          Option.bind (each_index (\<lambda>p s. synx_global_update_status_core p status s) parents st1) (\<lambda>st2. Some (rc, st2)))"

text \<open>The checks before the update, in a section of their own: Inl is the result of an early return.\<close>

definition update_status_check :: "nat \<Rightarrow> synx_shared_mem \<Rightarrow> (int + unit) \<times> synx_shared_mem" where
  "update_status_check idx =
     with_gmem idx Inl
       (\<lambda>s. (if g_num_child (obj s idx) \<noteq> 0 then Inl 0
             else if g_status (obj s idx) \<noteq> SYNX_STATE_ACTIVE then Inl (- SYNX_ALREADY)
             else Inr (), s))"

definition synx_global_update_status :: "nat \<Rightarrow> u32 \<Rightarrow> synx_shared_mem \<Rightarrow> (int \<times> synx_shared_mem) option" where
  "synx_global_update_status idx status st =
     (if \<not> mapped st then Some (- SYNX_NOMEM, st)
      else if \<not> synx_is_valid_idx idx \<or> status \<le> SYNX_STATE_ACTIVE then Some (- SYNX_INVALID, st)
      else case update_status_check idx st of
             (Inl rc, st1) \<Rightarrow> Some (rc, st1)
           | (Inr _, st1) \<Rightarrow> synx_global_update_status_core idx status st1)"

section \<open>Merging\<close>

text \<open>The parents with the new one in the first free place, and whether there was one.\<close>

definition add_parent :: "nat \<Rightarrow> u16 list \<Rightarrow> u16 list \<times> bool" where
  "add_parent p_idx ps =
     (case List.find (\<lambda>i. ps ! i = 0) [0..<SYNX_GLOBAL_MAX_PARENTS] of
        None \<Rightarrow> (ps, False)
      | Some i \<Rightarrow> (ps[i := of_nat p_idx], True))"

definition clear_parent :: "nat \<Rightarrow> u16 list \<Rightarrow> u16 list" where
  "clear_parent p_idx ps =
     (case List.find (\<lambda>i. unat (ps ! i) = p_idx) [0..<SYNX_GLOBAL_MAX_PARENTS] of None \<Rightarrow> ps | Some i \<Rightarrow> ps[i := 0])"

definition merge_status :: "u32 \<Rightarrow> u32 \<Rightarrow> u32" where
  "merge_status status parent_status =
     (if status = SYNX_STATE_ACTIVE then parent_status
      else if is_error_status status then status
      else if parent_status = SYNX_STATE_ACTIVE then status
      else parent_status)"

definition merge_pending :: "synx_global_coredata \<Rightarrow> bool" where
  "merge_pending g \<longleftrightarrow> g_status g = SYNX_STATE_ACTIVE \<or> g_num_child g \<noteq> 0"

text \<open>
  The loop over the entries to merge: \<open>rc\<close> is the variable of the code, the count of pending
  entries and the status of the parent so far are threaded through. Inl is the jump to \<^verbatim>\<open>fail\<close>.
\<close>

fun merge_loop :: "nat list \<Rightarrow> nat \<Rightarrow> int \<Rightarrow> nat \<Rightarrow> u32 \<Rightarrow> synx_shared_mem \<Rightarrow> ((int \<times> nat) + (nat \<times> u32)) \<times> synx_shared_mem" where
  "merge_loop [] p_idx rc num_child parent_status st = (Inr (num_child, parent_status), st)"
| "merge_loop (idx # idxs) p_idx rc num_child parent_status st =
     (if \<not> synx_is_valid_idx idx then (Inl (rc, num_child), st)
      else case with_gmem idx Inl
             (\<lambda>s. let g = obj s idx;
                      (ps, found) = add_parent p_idx (g_parents g);
                      n = (if merge_pending g then num_child + 1 else num_child)
                  in (Inr (found, n, merge_status (g_status g) parent_status), upd_obj idx (\<lambda>g. g\<lparr>g_parents := ps\<rparr>) s)) st of
             (Inl rc', st1) \<Rightarrow> (Inl (rc', num_child), st1)
           | (Inr (found, n, status), st1) \<Rightarrow>
               if \<not> found then (Inl (- SYNX_NOMEM, n), st1)
               else merge_loop idxs p_idx 0 n status st1)"

text \<open>The clean-up: the first \<open>n\<close> entries of the list, from the last one.\<close>

fun merge_cleanup :: "nat \<Rightarrow> nat list \<Rightarrow> nat \<Rightarrow> synx_shared_mem \<Rightarrow> synx_shared_mem" where
  "merge_cleanup 0 idx_list p_idx st = st"
| "merge_cleanup (Suc n) idx_list p_idx st =
     merge_cleanup n idx_list p_idx
       (let idx = idx_list ! n
        in snd (with_gmem idx (\<lambda>_. ()) (\<lambda>s. ((), upd_obj idx (\<lambda>g. g\<lparr>g_parents := clear_parent p_idx (g_parents g)\<rparr>) s)) st))"

definition merge_parent_section :: "nat \<Rightarrow> nat \<Rightarrow> u32 \<Rightarrow> synx_shared_mem \<Rightarrow> int \<times> synx_shared_mem" where
  "merge_parent_section p_idx num_child parent_status s =
     (let g = obj s p_idx;
          n = g_num_child g + of_nat num_child;
          r = (if n \<noteq> 0 then g_refcount g + 1 else g_refcount g)
      in (0, upd_obj p_idx (\<lambda>g. g\<lparr>g_num_child := n, g_refcount := r, g_status := parent_status\<rparr>) s))"

definition synx_global_merge :: "nat list \<Rightarrow> nat \<Rightarrow> synx_shared_mem \<Rightarrow> int \<times> synx_shared_mem" where
  "synx_global_merge idx_list p_idx st =
     (if \<not> mapped st then (- SYNX_NOMEM, st)
      else if \<not> synx_is_valid_idx p_idx then (- SYNX_INVALID, st)
      else if idx_list = [] then (SYNX_SUCCESS, st)
      else case merge_loop idx_list p_idx (- SYNX_INVALID) 0 SYNX_STATE_ACTIVE st of
             (Inl (rc, n), st1) \<Rightarrow> (rc, merge_cleanup n idx_list p_idx st1)
           | (Inr (n, status), st1) \<Rightarrow>
               case with_gmem p_idx (\<lambda>rc. rc) (merge_parent_section p_idx n status) st1 of
                 (rc, st2) \<Rightarrow> if rc \<noteq> 0 then (rc, merge_cleanup n idx_list p_idx st2) else (SYNX_SUCCESS, st2))"

section \<open>Recovery\<close>

text \<open>The section of an entry: whether it is to be signalled, and whether it was cleared.\<close>

definition recover_section :: "nat \<Rightarrow> nat \<Rightarrow> synx_shared_mem \<Rightarrow> (bool \<times> bool) \<times> synx_shared_mem" where
  "recover_section core_id idx st =
     (let g = obj st idx in
      if g_refcount g \<noteq> 0 \<and> bit (g_subscribers g) core_id then
        case drop_ref (g\<lparr>g_subscribers := g_subscribers g AND NOT (push_bit core_id 1)\<rparr>) of
          (g1, clear) \<Rightarrow> ((\<not> clear \<and> g_status g1 = SYNX_STATE_ACTIVE, clear), upd_obj idx (\<lambda>_. g1) st)
      else ((False, False), st))"

text \<open>The loop over the entries in use; \<open>clear_idx\<close> are the marks of the entries to give back.\<close>

partial_function (option) recover_loop :: "nat \<Rightarrow> nat \<Rightarrow> (nat \<Rightarrow> bool) \<Rightarrow> synx_shared_mem \<Rightarrow> (int \<times> (nat \<Rightarrow> bool) \<times> synx_shared_mem) option" where
  "recover_loop core_id idx clear_idx st =
     (if idx \<ge> SYNX_GLOBAL_MAX_OBJS then Some (0, clear_idx, st)
      else case with_gmem idx Inl (\<lambda>s. case recover_section core_id idx s of (r, s1) \<Rightarrow> (Inr r, s1)) st of
             (Inl rc, st1) \<Rightarrow> Some (rc, clear_idx, st1)
           | (Inr (update, clear), st1) \<Rightarrow>
               Option.bind (if update then synx_global_update_status idx SYNX_STATE_SIGNALED_SSR st1 else Some (0, st1))
                 (\<lambda>(_, st2). recover_loop core_id (find_next_bit (bitmap st2) SYNX_GLOBAL_MAX_OBJS (idx + 1))
                    (if clear then clear_idx(idx := True) else clear_idx) st2))"

definition recover_lock :: "nat \<Rightarrow> synx_shared_mem \<Rightarrow> synx_shared_mem" where
  "recover_lock core_id st =
     (if unat (synx_gmem_lock_owner st) = core_id then (synx_gmem_lock_owner_clear st)\<lparr>locked := False\<rparr> else st)"

definition synx_global_recover :: "bool \<Rightarrow> nat \<Rightarrow> synx_shared_mem \<Rightarrow> (int \<times> synx_shared_mem) option" where
  "synx_global_recover alloc core_id st =
     (if \<not> mapped st then Some (- SYNX_NOMEM, st)
      else if \<not> alloc then Some (- SYNX_NOMEM, st)
      else
        let st1 = recover_lock core_id (call (Ipclite_Recover (synx_global_map_core_id core_id)) st)
        in Option.bind (recover_loop core_id (find_next_bit (bitmap st1) SYNX_GLOBAL_MAX_OBJS 1) (\<lambda>_. False) st1)
             (\<lambda>(rc, clear_idx, st2).
                if rc \<noteq> 0 then Some (rc, st2)
                else Some (rc, fold (\<lambda>i s. if clear_idx i then clear_index i s else s) [1..<SYNX_GLOBAL_MAX_OBJS] st2)))"

end
