(* ===== verification/Synx_Frame.thy ===== *)
theory Synx_Frame
  imports Synx_Signal
begin

text \<open>
  What the sections of the shared memory keep: the shape of the memory, the entries that an
  operation does not name, and the parents of every entry, which only merging extends.
\<close>

section \<open>Access to entries\<close>

text \<open>The lock changes nothing of an entry but the owner in entry 0.\<close>

definition put_obj :: "nat \<Rightarrow> synx_global_coredata \<Rightarrow> synx_shared_mem \<Rightarrow> synx_shared_mem" where
  "put_obj idx g st = st\<lparr>table := (table st)[idx := g]\<rparr>"

definition sized :: "synx_shared_mem \<Rightarrow> bool" where
  "sized st \<longleftrightarrow> length (bitmap st) = 128 \<and> length (table st) = SYNX_GLOBAL_MAX_OBJS"

lemma obj_upd_obj:
  "obj (upd_obj i f st) j = (if i = j \<and> j < length (table st) then f (obj st j) else obj st j)"
  by (simp add: obj_def upd_obj_def)

lemma upd_obj_simps [simp]:
  "mapped (upd_obj i f st) = mapped st" "hwlock (upd_obj i f st) = hwlock st" "bitmap (upd_obj i f st) = bitmap st"
  "length (table (upd_obj i f st)) = length (table st)" "locked (upd_obj i f st) = locked st"
  "lock_busy (upd_obj i f st) = lock_busy st" "lock_tries (upd_obj i f st) = lock_tries st"
  "other_cores (upd_obj i f st) = other_cores st" "atomics (upd_obj i f st) = atomics st" "calls (upd_obj i f st) = calls st"
  "gmem_ub (upd_obj i f st) = (gmem_ub st \<or> \<not> i < length (table st))"
  by (simp_all add: upd_obj_def)

lemma obj_cong: "table st = table st' \<Longrightarrow> obj st = obj st'"
  by (rule ext) (simp add: obj_def)

lemma upd_obj_put: "i < length (table st) \<Longrightarrow> upd_obj i f st = put_obj i (f (obj st i)) st"
  by (simp add: upd_obj_def put_obj_def obj_def)

lemma obj_put: "i < length (table st) \<Longrightarrow> obj (put_obj i g st) j = (if j = i then g else obj st j)"
  by (auto simp: put_obj_def obj_def)

lemma put_obj_simps [simp]:
  "mapped (put_obj i g st) = mapped st" "hwlock (put_obj i g st) = hwlock st" "bitmap (put_obj i g st) = bitmap st"
  "length (table (put_obj i g st)) = length (table st)" "locked (put_obj i g st) = locked st"
  "lock_busy (put_obj i g st) = lock_busy st" "lock_tries (put_obj i g st) = lock_tries st"
  "other_cores (put_obj i g st) = other_cores st" "atomics (put_obj i g st) = atomics st" "calls (put_obj i g st) = calls st"
  "gmem_ub (put_obj i g st) = gmem_ub st"
  by (simp_all add: put_obj_def)

lemma obj_call [simp]: "obj (call c st) = obj st"
  by (rule obj_cong) (simp add: call_def)

lemma call_simps [simp]:
  "mapped (call c st) = mapped st" "hwlock (call c st) = hwlock st" "bitmap (call c st) = bitmap st"
  "table (call c st) = table st" "locked (call c st) = locked st"
  "lock_busy (call c st) = lock_busy st" "lock_tries (call c st) = lock_tries st"
  "other_cores (call c st) = other_cores st" "atomics (call c st) = atomics st" "calls (call c st) = calls st @ [c]"
  "gmem_ub (call c st) = gmem_ub st"
  by (simp_all add: call_def)

lemma zero_coredata_simps [simp]:
  "g_status zero_coredata = 0" "g_handle zero_coredata = 0" "g_refcount zero_coredata = 0" "g_num_child zero_coredata = 0"
  "g_subscribers zero_coredata = 0" "g_waiters zero_coredata = 0" "g_parents zero_coredata = [0, 0, 0, 0]"
  by (simp_all add: zero_coredata_def numeral_eq_Suc)

section \<open>The free lock\<close>

text \<open>
  \<open>ready\<close>: the memory is set up and the lock is free and never stays busy. A section then runs
  between \<open>enter\<close> and the unlock.
\<close>

definition ready :: "synx_shared_mem \<Rightarrow> bool" where
  "ready st \<longleftrightarrow> mapped st \<and> hwlock st \<and> sized st \<and> \<not> locked st \<and> (\<forall>n. \<not> lock_busy st n)"

definition enter :: "synx_shared_mem \<Rightarrow> synx_shared_mem" where
  "enter st = synx_gmem_lock_owner_set (st\<lparr>lock_tries := lock_tries st + 1, locked := True\<rparr>)"

definition settle :: "synx_shared_mem \<Rightarrow> synx_shared_mem" where
  "settle st = synx_gmem_lock_owner_clear (st\<lparr>lock_tries := lock_tries st + 1\<rparr>)"

lemma owner_simps [simp]:
  "mapped (synx_gmem_lock_owner_set st) = mapped st" "hwlock (synx_gmem_lock_owner_set st) = hwlock st"
  "bitmap (synx_gmem_lock_owner_set st) = bitmap st" "length (table (synx_gmem_lock_owner_set st)) = length (table st)"
  "locked (synx_gmem_lock_owner_set st) = locked st" "lock_busy (synx_gmem_lock_owner_set st) = lock_busy st"
  "lock_tries (synx_gmem_lock_owner_set st) = lock_tries st" "other_cores (synx_gmem_lock_owner_set st) = other_cores st"
  "atomics (synx_gmem_lock_owner_set st) = atomics st" "calls (synx_gmem_lock_owner_set st) = calls st"
  "mapped (synx_gmem_lock_owner_clear st) = mapped st" "hwlock (synx_gmem_lock_owner_clear st) = hwlock st"
  "bitmap (synx_gmem_lock_owner_clear st) = bitmap st" "length (table (synx_gmem_lock_owner_clear st)) = length (table st)"
  "locked (synx_gmem_lock_owner_clear st) = locked st" "lock_busy (synx_gmem_lock_owner_clear st) = lock_busy st"
  "lock_tries (synx_gmem_lock_owner_clear st) = lock_tries st" "other_cores (synx_gmem_lock_owner_clear st) = other_cores st"
  "atomics (synx_gmem_lock_owner_clear st) = atomics st" "calls (synx_gmem_lock_owner_clear st) = calls st"
  by (simp_all add: synx_gmem_lock_owner_set_def synx_gmem_lock_owner_clear_def)

lemma obj_owner:
  "j \<noteq> 0 \<Longrightarrow> obj (synx_gmem_lock_owner_set st) j = obj st j"
  "j \<noteq> 0 \<Longrightarrow> obj (synx_gmem_lock_owner_clear st) j = obj st j"
  "g_parents (obj (synx_gmem_lock_owner_set st) j) = g_parents (obj st j)"
  "g_parents (obj (synx_gmem_lock_owner_clear st) j) = g_parents (obj st j)"
  by (simp_all add: synx_gmem_lock_owner_set_def synx_gmem_lock_owner_clear_def obj_upd_obj)

lemma obj_lock_fields [simp]:
  "obj (st\<lparr>locked := b\<rparr>) = obj st" "obj (st\<lparr>lock_tries := n\<rparr>) = obj st" "obj (st\<lparr>bitmap := m\<rparr>) = obj st"
  "obj (st\<lparr>atomics := n\<rparr>) = obj st" "obj (st\<lparr>gmem_ub := b\<rparr>) = obj st"
  by (rule obj_cong, simp)+

lemma with_gmem_ready:
  "ready st \<Longrightarrow> with_gmem idx fail body st = (case body (enter st) of (r, s) \<Rightarrow> (r, synx_gmem_unlock idx s))"
  by (simp add: with_gmem_def synx_gmem_lock_def ready_def enter_def Let_def)

lemma enter_obj: "j \<noteq> 0 \<Longrightarrow> obj (enter st) j = obj st j"
  by (simp add: enter_def obj_owner)

lemma enter_simps [simp]: "length (table (enter st)) = length (table st)" "bitmap (enter st) = bitmap st"
  by (simp_all add: enter_def)

text \<open>A section that reads and stores one entry other than 0.\<close>

lemma put_enter_unlock:
  assumes "ready st" "0 < idx" "idx < SYNX_GLOBAL_MAX_OBJS"
  shows "synx_gmem_unlock idx (put_obj idx g (enter st)) = put_obj idx g (settle st)"
    and "synx_gmem_unlock idx (enter st) = settle st"
  using assms
  by (simp_all add: synx_gmem_unlock_def enter_def settle_def synx_gmem_lock_owner_set_def synx_gmem_lock_owner_clear_def
      upd_obj_def put_obj_def ready_def sized_def list_update_swap)

lemma settle_obj: "j \<noteq> 0 \<Longrightarrow> obj (settle st) j = obj st j"
  by (simp add: settle_def obj_owner)

lemma settle_simps [simp]:
  "mapped (settle st) = mapped st" "hwlock (settle st) = hwlock st" "bitmap (settle st) = bitmap st"
  "length (table (settle st)) = length (table st)" "locked (settle st) = locked st" "lock_busy (settle st) = lock_busy st"
  "other_cores (settle st) = other_cores st" "atomics (settle st) = atomics st" "calls (settle st) = calls st"
  by (simp_all add: settle_def)

lemma settle_ub: "sized st \<Longrightarrow> gmem_ub (settle st) = gmem_ub st"
  by (simp add: settle_def synx_gmem_lock_owner_clear_def sized_def)

lemma ready_settle [simp]: "ready (settle st) = ready st"
  by (simp add: ready_def sized_def)

lemma ready_put [simp]: "ready (put_obj i g st) = ready st"
  by (simp add: ready_def sized_def)

lemma ready_call [simp]: "ready (call c st) = ready st"
  by (simp add: ready_def sized_def)

lemma ready_table: "ready st \<Longrightarrow> length (table st) = SYNX_GLOBAL_MAX_OBJS"
  by (simp add: ready_def sized_def)

text \<open>A section that reads or stores one entry.\<close>

lemma section_read:
  assumes "ready st" "0 < idx" "idx < SYNX_GLOBAL_MAX_OBJS"
  shows "with_gmem idx fail (\<lambda>s. (f (obj s idx), s)) st = (f (obj st idx), settle st)"
  using assms by (simp add: with_gmem_ready enter_obj put_enter_unlock)

lemma section_store:
  assumes "ready st" "0 < idx" "idx < SYNX_GLOBAL_MAX_OBJS"
    and "\<And>s. length (table s) = SYNX_GLOBAL_MAX_OBJS \<Longrightarrow> body s = (f (obj s idx), put_obj idx (h (obj s idx)) s)"
  shows "with_gmem idx fail body st = (f (obj st idx), put_obj idx (h (obj st idx)) (settle st))"
proof -
  have len: "length (table (enter st)) = SYNX_GLOBAL_MAX_OBJS" using assms(1) by (simp add: ready_table)
  show ?thesis
    using assms(1-3) by (simp add: with_gmem_ready assms(4) [OF len] enter_obj put_enter_unlock)
qed

end
