(* ===== verification/Synx_Runs.thy ===== *)
theory Synx_Runs
  imports Synx_Frame
begin

text \<open>
  The invariant of the shared memory and its preservation by every operation: the memory keeps its
  size, no access leaves it, the parents of an entry are indexes of the table, the graph of parents
  has no cycle, and the lock is free between operations. The absence of cycles is a rank that
  decreases from an entry to its parents, so the update of a status ends.
\<close>

section \<open>The invariant\<close>

text \<open>The other cores change bits of the bitmap but not its size.\<close>

definition polite :: "synx_shared_mem \<Rightarrow> bool" where
  "polite st \<longleftrightarrow> (\<forall>n b. length (other_cores st n b) = length b)"

definition parents_ok :: "(nat \<Rightarrow> nat) \<Rightarrow> nat \<Rightarrow> u16 list \<Rightarrow> bool" where
  "parents_ok rank i ps \<longleftrightarrow> length ps = 4 \<and> (\<forall>p\<in>set ps. p \<noteq> 0 \<longrightarrow> unat p < SYNX_GLOBAL_MAX_OBJS \<and> rank (unat p) < rank i)"

text \<open>\<open>locking\<close> tells whether this core holds the lock.\<close>

definition mem_ok :: "(nat \<Rightarrow> nat) \<Rightarrow> bool \<Rightarrow> synx_shared_mem \<Rightarrow> bool" where
  "mem_ok rank locking st \<longleftrightarrow> mapped st \<and> sized st \<and> polite st \<and> \<not> gmem_ub st \<and> locked st = locking \<and>
     (\<forall>i. parents_ok rank i (g_parents (obj st i)))"

lemma parents_ok_zero [simp]: "parents_ok rank i [0, 0, 0, 0]"
  by (simp add: parents_ok_def)

lemma mem_ok_cong:
  assumes "mem_ok rank l st" "mapped st' = mapped st" "length (bitmap st') = length (bitmap st)" "length (table st') = length (table st)"
    "other_cores st' = other_cores st" "gmem_ub st' = gmem_ub st" "locked st' = l'" "\<And>i. g_parents (obj st' i) = g_parents (obj st i)"
  shows "mem_ok rank l' st'"
  using assms by (simp add: mem_ok_def sized_def polite_def)

lemma mem_ok_upd:
  assumes "mem_ok rank l st" "i < SYNX_GLOBAL_MAX_OBJS" "\<And>g. parents_ok rank i (g_parents g) \<Longrightarrow> parents_ok rank i (g_parents (f g))"
  shows "mem_ok rank l (upd_obj i f st)"
  using assms by (auto simp: mem_ok_def sized_def polite_def obj_upd_obj)

lemma mem_ok_parents: "mem_ok rank l st \<Longrightarrow> parents_ok rank i (g_parents (obj st i))"
  by (simp add: mem_ok_def)

lemma mem_ok_atomic:
  assumes "mem_ok rank l st" "w < 128"
  shows "mem_ok rank l (snd (atomic_access f w st))"
proof -
  have len: "length (other_cores st (atomics st) (bitmap st)) = 128" using assms(1) by (simp add: mem_ok_def polite_def sized_def)
  then show ?thesis
    using assms by (auto simp: atomic_access_def Let_def len mem_ok_def sized_def polite_def)
qed

lemma mem_ok_clear: "mem_ok rank l st \<Longrightarrow> i < SYNX_GLOBAL_MAX_OBJS \<Longrightarrow> mem_ok rank l (clear_index i st)"
  by (simp add: clear_index_def ipclite_global_test_and_clear_bit_def mem_ok_atomic)

lemma mem_ok_call [simp]: "mem_ok rank l (call c st) = mem_ok rank l st"
  by (simp add: mem_ok_def sized_def polite_def)

lemma mem_ok_lock:
  assumes st: "mem_ok rank False st" and "synx_gmem_lock idx st = (rc, st')"
  shows "mem_ok rank (rc = 0) st'"
proof -
  have "0 < length (table st)" using st by (simp add: mem_ok_def sized_def)
  then show ?thesis
    using assms
    by (auto simp: synx_gmem_lock_def Let_def synx_gmem_lock_owner_set_def obj_upd_obj mem_ok_def sized_def polite_def intro!: mem_ok_cong [OF st] split: if_splits)
qed

lemma mem_ok_unlock: "mem_ok rank l st \<Longrightarrow> mem_ok rank False (synx_gmem_unlock idx st)"
  by (rule mem_ok_cong, assumption)
    (auto simp: synx_gmem_unlock_def synx_gmem_lock_owner_clear_def obj_upd_obj mem_ok_def sized_def)

lemma mem_ok_section:
  assumes st: "mem_ok rank False st" and body: "\<And>s. mem_ok rank True s \<Longrightarrow> mem_ok rank True (snd (body s))"
  shows "mem_ok rank False (snd (with_gmem idx fail body st))"
proof -
  obtain rc st1 where l: "synx_gmem_lock idx st = (rc, st1)" by (cases "synx_gmem_lock idx st")
  note lock = mem_ok_lock [OF st l]
  show ?thesis
  proof (cases "rc = 0")
    case True
    then have "mem_ok rank True (snd (body st1))" using lock by (auto intro: body)
    then show ?thesis using True by (simp add: with_gmem_def l split_beta mem_ok_unlock)
  next
    case False
    then show ?thesis using lock by (simp add: with_gmem_def l)
  qed
qed

lemma drop_ref_parents: "g_parents (fst (drop_ref g)) = g_parents g \<or> g_parents (fst (drop_ref g)) = [0, 0, 0, 0]"
  by (simp add: drop_ref_def)

lemma drop_ref_ok: "parents_ok rank i (g_parents g) \<Longrightarrow> parents_ok rank i (g_parents (fst (drop_ref g)))"
  using drop_ref_parents [of g] by auto

section \<open>The operations on one entry\<close>

lemmas one_entry_defs =
  synx_global_get_waiting_cores_def synx_global_set_waiting_core_def synx_global_get_subscribed_cores_def
  synx_global_set_subscribed_core_def synx_global_clear_subscribed_core_def synx_global_fetch_handle_details_def
  synx_fetch_global_shared_memory_handle_details_def synx_global_get_parents_num_def synx_global_get_parents_def
  synx_global_get_status_def synx_global_test_status_set_wait_def synx_global_get_ref_def

lemma one_entry_ok:
  assumes "mem_ok rank False st"
  shows "mem_ok rank False (snd (synx_global_get_waiting_cores idx cores st))"
    and "mem_ok rank False (snd (synx_global_set_waiting_core idx c st))"
    and "mem_ok rank False (snd (synx_global_get_subscribed_cores idx cores st))"
    and "mem_ok rank False (snd (synx_global_set_subscribed_core idx c st))"
    and "mem_ok rank False (snd (synx_global_clear_subscribed_core idx c st))"
    and "mem_ok rank False (snd (synx_global_fetch_handle_details idx h_null st))"
    and "mem_ok rank False (snd (synx_fetch_global_shared_memory_handle_details h st))"
    and "mem_ok rank False (snd (synx_global_get_parents_num idx st))"
    and "mem_ok rank False (snd (synx_global_get_parents idx h_null st))"
    and "mem_ok rank False (snd (synx_global_get_status idx st))"
    and "mem_ok rank False (snd (synx_global_test_status_set_wait idx c st))"
    and "mem_ok rank False (snd (synx_global_get_ref idx st))"
  using assms
  by (auto simp: one_entry_defs Let_def synx_is_valid_idx_def synx_global_get_waiting_cores_locked_def mem_ok_parents
      split: option.splits intro!: mem_ok_section mem_ok_upd)

lemma init_coredata_ok: "mem_ok rank False st \<Longrightarrow> mem_ok rank False (snd (synx_global_init_coredata h st))"
  by (auto simp: synx_global_init_coredata_def init_section_def Let_def synx_is_valid_idx_def intro!: mem_ok_section mem_ok_upd)

lemma put_ref_ok: "mem_ok rank False st \<Longrightarrow> mem_ok rank False (synx_global_put_ref idx st)"
proof -
  let ?body = "\<lambda>s. case drop_ref (obj s idx) of (g, clear) \<Rightarrow> (clear, upd_obj idx (\<lambda>_. g) s)"
  assume st: "mem_ok rank False st"
  show ?thesis
  proof (cases "idx < SYNX_GLOBAL_MAX_OBJS")
    case True
    have "mem_ok rank True (snd (?body s))" if "mem_ok rank True s" for s
      using mem_ok_upd [OF that True, of "\<lambda>_. fst (drop_ref (obj s idx))"] drop_ref_ok [OF mem_ok_parents [OF that]]
      by (simp add: split_beta)
    from mem_ok_section [OF st this]
    have "mem_ok rank False (snd (with_gmem idx (\<lambda>_. False) ?body st))" .
    then show ?thesis using st True
      by (auto simp: synx_global_put_ref_def synx_is_valid_idx_def split_beta intro: mem_ok_clear)
  qed (use st in \<open>simp add: synx_global_put_ref_def synx_is_valid_idx_def\<close>)
qed

lemma dump_loop_ok: "mem_ok rank False st \<Longrightarrow> mem_ok rank False (snd (dump_loop f is st))"
proof (induction "is" arbitrary: st)
  case (Cons i "is")
  have "mem_ok rank False (snd (with_gmem i (\<lambda>rc. rc) (\<lambda>s. (0, call (f i s) s)) st))"
    using Cons.prems by (auto intro: mem_ok_section)
  then show ?case by (auto simp: split_beta intro: Cons.IH)
qed simp

lemma dump_ok: "mem_ok rank False st \<Longrightarrow> mem_ok rank False (snd (synx_global_dump_shared_memory st))"
  by (auto simp: synx_global_dump_shared_memory_def split_beta intro!: dump_loop_ok)

section \<open>Signalling ends\<close>

definition edge_to :: "(nat \<Rightarrow> nat) \<Rightarrow> nat \<Rightarrow> nat list \<Rightarrow> bool" where
  "edge_to rank i ps \<longleftrightarrow> (\<forall>p\<in>set ps. p \<noteq> 0 \<longrightarrow> p < SYNX_GLOBAL_MAX_OBJS \<and> rank p < rank i)"

lemma parents_locked_edge:
  assumes "parents_ok rank i (g_parents g)"
  shows "edge_to rank i (synx_global_get_parents_locked g)"
proof -
  have "set (synx_global_get_parents_locked g) = unat ` set (g_parents g)"
    using assms by (force simp: synx_global_get_parents_locked_def parents_ok_def set_conv_nth)
  then show ?thesis using assms by (auto simp: edge_to_def parents_ok_def unat_eq_0)
qed

text \<open>In all outcomes of the section the new entry has the parents of the old one or none.\<close>

lemma update_section_shape:
  obtains g data cores parents clear where
    "update_status_section idx status st = ((data, cores, parents, clear), upd_obj idx (\<lambda>_. g) st)"
    "g_parents g = g_parents (obj st idx) \<or> g_parents g = [0, 0, 0, 0]"
    "parents = replicate 4 0 \<or> parents = synx_global_get_parents_locked (obj st idx)"
proof -
  let ?r = "update_status_section idx status st"
  have "\<exists>g data cores parents clear. ?r = ((data, cores, parents, clear), upd_obj idx (\<lambda>_. g) st) \<and>
      (g_parents g = g_parents (obj st idx) \<or> g_parents g = [0, 0, 0, 0]) \<and>
      (parents = replicate 4 0 \<or> parents = synx_global_get_parents_locked (obj st idx))"
    by (auto simp: update_status_section_def Let_def synx_global_get_waiting_cores_locked_def drop_ref_def synx_global_get_parents_locked_def)
  then show ?thesis using that by blast
qed

lemma notify_cores_ok [simp]: "mem_ok rank l (notify_cores status data cores st) = mem_ok rank l st"
proof -
  have "mem_ok rank l (fold (\<lambda>i s. if cores ! i then call (Msg_Send (h i) data) s else s) xs s) = mem_ok rank l s" for h xs s
    by (induction xs arbitrary: s) auto
  then show ?thesis by (simp add: notify_cores_def)
qed

lemma update_entry_ok:
  assumes st: "mem_ok rank False st" and idx: "idx < SYNX_GLOBAL_MAX_OBJS"
    and eq: "update_status_entry idx status st = ((rc, parents), st')"
  shows "mem_ok rank False st' \<and> edge_to rank idx parents"
proof -
  let ?body = "\<lambda>s. case update_status_section idx status s of (r, s1) \<Rightarrow> (Inr r, s1)"
  have body: "mem_ok rank True (snd (?body s))" if "mem_ok rank True s" for s
    using mem_ok_parents [OF that, of idx] that idx
    by (rule_tac update_section_shape [of idx status s]) (auto intro: mem_ok_upd)
  let ?w = "with_gmem idx Inl ?body st"
  have ok: "mem_ok rank False (snd ?w)" by (rule mem_ok_section [OF st body])
  have edge: "edge_to rank idx ps" if "fst ?w = Inr (data, cores, ps, clear)" for data cores ps clear
  proof -
    obtain l st1 where lock: "synx_gmem_lock idx st = (l, st1)" by (cases "synx_gmem_lock idx st")
    have l: "l = 0" using that by (auto simp: with_gmem_def lock split: if_splits)
    have "mem_ok rank True st1" using mem_ok_lock [OF st lock] l by simp
    then have p: "edge_to rank idx (synx_global_get_parents_locked (obj st1 idx))" by (intro parents_locked_edge mem_ok_parents)
    show ?thesis
      using that p by (rule_tac update_section_shape [of idx status st1]) (auto simp: with_gmem_def lock l edge_to_def)
  qed
  show ?thesis
  proof (cases "fst ?w")
    case (Inl rc')
    then show ?thesis using eq ok by (cases ?w) (auto simp: update_status_entry_def edge_to_def)
  next
    case (Inr r)
    obtain data cores ps clear where r: "r = (data, cores, ps, clear)" by (cases r)
    show ?thesis using eq ok edge [OF Inr [unfolded r]] Inr idx
      by (cases ?w) (auto simp: update_status_entry_def r mem_ok_clear)
  qed
qed

lemma each_index_ok:
  assumes f: "\<And>p s. p \<in> set ps \<Longrightarrow> p \<noteq> 0 \<Longrightarrow> mem_ok rank False s \<Longrightarrow> \<exists>rc s'. f p s = Some (rc, s') \<and> mem_ok rank False s'"
    and st: "mem_ok rank False st"
  shows "\<exists>st'. each_index f ps st = Some st' \<and> mem_ok rank False st'"
  using assms
proof (induction ps arbitrary: st)
  case (Cons p ps)
  show ?case
  proof (cases "p = 0")
    case True
    then show ?thesis using Cons by simp
  next
    case False
    obtain rc s' where "f p st = Some (rc, s')" "mem_ok rank False s'" using Cons.prems(1) [of p st] Cons.prems(2) False by auto
    then show ?thesis using Cons.IH [of s'] Cons.prems(1) False by auto
  qed
qed simp

lemma update_core_ok:
  assumes "mem_ok rank False st" "idx < SYNX_GLOBAL_MAX_OBJS"
  shows "\<exists>rc st'. synx_global_update_status_core idx status st = Some (rc, st') \<and> mem_ok rank False st'"
  using assms
proof (induction "rank idx" arbitrary: idx st rule: less_induct)
  case less
  obtain rc parents st1 where e: "update_status_entry idx status st = ((rc, parents), st1)"
    by (metis prod.collapse)
  note ok = update_entry_ok [OF less.prems e]
  let ?f = "\<lambda>p s. synx_global_update_status_core p status s"
  have "\<exists>rc s'. ?f p s = Some (rc, s') \<and> mem_ok rank False s'" if "p \<in> set parents" "p \<noteq> 0" "mem_ok rank False s" for p s
    using less.hyps [of p s] that ok by (auto simp: edge_to_def)
  then obtain st2 where "each_index ?f parents st1 = Some st2" "mem_ok rank False st2"
    using each_index_ok [of parents rank ?f st1] ok by blast
  then show ?case by (subst synx_global_update_status_core.simps) (simp add: e)
qed

lemma update_status_ok:
  assumes "mem_ok rank False st"
  shows "\<exists>rc st'. synx_global_update_status idx status st = Some (rc, st') \<and> mem_ok rank False st'"
proof -
  obtain r st1 where c: "update_status_check idx st = (r, st1)" by (cases "update_status_check idx st")
  have "mem_ok rank False (snd (update_status_check idx st))"
    unfolding update_status_check_def using assms by (auto intro: mem_ok_section)
  then have "mem_ok rank False st1" by (simp add: c)
  then show ?thesis
    using assms update_core_ok [of rank st1 idx status]
    by (cases r) (auto simp: synx_global_update_status_def c synx_is_valid_idx_def)
qed

section \<open>Merging keeps the invariant\<close>

text \<open>A fresh parent gets the least rank.\<close>

definition below :: "nat \<Rightarrow> (nat \<Rightarrow> nat) \<Rightarrow> nat \<Rightarrow> nat" where
  "below p rank i = (if i = p then 0 else rank i + 1)"

definition no_parents :: "synx_global_coredata \<Rightarrow> bool" where
  "no_parents g \<longleftrightarrow> g_parents g = [0, 0, 0, 0]"

lemma mem_ok_below: "mem_ok rank l st \<Longrightarrow> no_parents (obj st p) \<Longrightarrow> mem_ok (below p rank) l st"
  by (fastforce simp: mem_ok_def parents_ok_def below_def no_parents_def)

lemma unat_u16: "n < SYNX_GLOBAL_MAX_OBJS \<Longrightarrow> unat (of_nat n :: u16) = n"
  by (simp add: unat_of_nat take_bit_nat_eq_self)

lemma add_parent_ok:
  assumes "parents_ok rank i ps" "p < SYNX_GLOBAL_MAX_OBJS" "rank p < rank i"
  shows "parents_ok rank i (fst (add_parent p ps))"
  using assms set_update_subset_insert [of ps]
  by (fastforce simp: add_parent_def parents_ok_def unat_u16 split: option.splits)

lemma clear_parent_ok: "parents_ok rank i ps \<Longrightarrow> parents_ok rank i (clear_parent p ps)"
  using set_update_subset_insert [of ps] by (fastforce simp: clear_parent_def parents_ok_def split: option.splits)

text \<open>The section of the loop, as a function of its own for the proofs.\<close>

definition merge_body :: "nat \<Rightarrow> nat \<Rightarrow> nat \<Rightarrow> u32 \<Rightarrow> synx_shared_mem \<Rightarrow> (int + bool \<times> nat \<times> u32) \<times> synx_shared_mem" where
  "merge_body idx p_idx num_child parent_status s =
     (Inr (snd (add_parent p_idx (g_parents (obj s idx))), if merge_pending (obj s idx) then num_child + 1 else num_child,
           merge_status (g_status (obj s idx)) parent_status),
      upd_obj idx (\<lambda>g. g\<lparr>g_parents := fst (add_parent p_idx (g_parents (obj s idx)))\<rparr>) s)"

lemma merge_loop_Cons:
  "merge_loop (idx # idxs) p_idx rc n ps st =
     (if \<not> synx_is_valid_idx idx then (Inl (rc, n), st)
      else case with_gmem idx Inl (merge_body idx p_idx n ps) st of
             (Inl rc', st1) \<Rightarrow> (Inl (rc', n), st1)
           | (Inr (found, n', status), st1) \<Rightarrow>
               if \<not> found then (Inl (- SYNX_NOMEM, n'), st1) else merge_loop idxs p_idx 0 n' status st1)"
proof -
  have "(\<lambda>s. let g = obj s idx; (ps', found) = add_parent p_idx (g_parents g);
              n' = (if merge_pending g then n + 1 else n)
            in (Inr (found, n', merge_status (g_status g) ps), upd_obj idx (\<lambda>g. g\<lparr>g_parents := ps'\<rparr>) s)) = merge_body idx p_idx n ps"
    by (rule ext) (simp add: merge_body_def Let_def split_beta)
  then show ?thesis by (simp only: merge_loop.simps)
qed

declare merge_loop.simps(2) [simp del]

definition merge_count :: "(int \<times> nat) + (nat \<times> u32) \<Rightarrow> nat" where
  "merge_count r = (case r of Inl (_, n) \<Rightarrow> n | Inr (n, _) \<Rightarrow> n)"

lemma merge_loop_ok:
  assumes "mem_ok rank False st" "p < SYNX_GLOBAL_MAX_OBJS" "\<forall>i\<in>set idxs. rank p < rank i"
  shows "mem_ok rank False (snd (merge_loop idxs p rc n ps st)) \<and>
    merge_count (fst (merge_loop idxs p rc n ps st)) \<le> n + length (takeWhile synx_is_valid_idx idxs)"
  using assms
proof (induction idxs arbitrary: rc n ps st)
  case Nil
  then show ?case by (simp add: merge_count_def)
next
  case (Cons i idxs)
  have body: "mem_ok rank True (snd (merge_body i p n ps s))" if "mem_ok rank True s" "synx_is_valid_idx i" for s
    using that Cons.prems add_parent_ok [OF mem_ok_parents [OF that(1)], of p i]
    by (auto simp: merge_body_def synx_is_valid_idx_def intro!: mem_ok_upd)
  show ?case
  proof (cases "synx_is_valid_idx i")
    case True
    have "mem_ok rank False (snd (with_gmem i Inl (merge_body i p n ps) st))"
      using Cons.prems(1) body True by (intro mem_ok_section)
    moreover have "n' \<le> n + 1" if "fst (with_gmem i Inl (merge_body i p n ps) st) = Inr (f, n', s')" for f n' s'
      using that by (auto simp: with_gmem_def merge_body_def split_beta split: if_splits)
    ultimately show ?thesis
      using True Cons.prems Cons.IH
      by (cases "with_gmem i Inl (merge_body i p n ps) st")
        (fastforce simp: merge_loop_Cons merge_count_def split: sum.splits)
  next
    case False
    then show ?thesis using Cons.prems by (simp add: merge_loop_Cons merge_count_def)
  qed
qed

lemma merge_cleanup_ok:
  assumes "mem_ok rank False st" "\<forall>k<n. xs ! k < SYNX_GLOBAL_MAX_OBJS"
  shows "mem_ok rank False (merge_cleanup n xs p st)"
  using assms
proof (induction n arbitrary: st)
  case (Suc n)
  have "xs ! n < SYNX_GLOBAL_MAX_OBJS" using Suc.prems(2) by simp
  then have "mem_ok rank False (snd (with_gmem (xs ! n) (\<lambda>_. ())
      (\<lambda>s. ((), upd_obj (xs ! n) (\<lambda>g. g\<lparr>g_parents := clear_parent p (g_parents g)\<rparr>) s)) st))"
    using Suc.prems(1) by (auto intro!: mem_ok_section mem_ok_upd clear_parent_ok)
  then show ?case using Suc by (simp add: Let_def)
qed simp

lemma takeWhile_valid: "k < length (takeWhile synx_is_valid_idx xs) \<Longrightarrow> xs ! k < SYNX_GLOBAL_MAX_OBJS"
  by (metis nth_mem set_takeWhileD synx_is_valid_idx_def takeWhile_nth)

lemma merge_ok:
  assumes st: "mem_ok rank False st" and p: "no_parents (obj st p)" "p \<notin> set xs"
  shows "mem_ok (below p rank) False (snd (synx_global_merge xs p st))"
proof -
  let ?r = "below p rank"
  have st': "mem_ok ?r False st" by (rule mem_ok_below [OF st p(1)])
  have less: "\<forall>i\<in>set xs. ?r p < ?r i" using p(2) by (auto simp: below_def)
  show ?thesis
  proof (cases "synx_is_valid_idx p")
    case True
    then have v: "p < SYNX_GLOBAL_MAX_OBJS" by (simp add: synx_is_valid_idx_def)
    obtain r st1 where l: "merge_loop xs p (- SYNX_INVALID) 0 SYNX_STATE_ACTIVE st = (r, st1)"
      by (cases "merge_loop xs p (- SYNX_INVALID) 0 SYNX_STATE_ACTIVE st")
    have ok1: "mem_ok ?r False st1" and n: "merge_count r \<le> length (takeWhile synx_is_valid_idx xs)"
      using merge_loop_ok [OF st' v less, of "- SYNX_INVALID" 0 SYNX_STATE_ACTIVE] by (simp_all add: l)
    have valid: "\<forall>k<merge_count r. xs ! k < SYNX_GLOBAL_MAX_OBJS" using n takeWhile_valid by auto
    have sec: "mem_ok ?r False (snd (with_gmem p (\<lambda>rc. rc) (merge_parent_section p n s) st1))" for n s
      using ok1 v by (auto simp: merge_parent_section_def Let_def intro!: mem_ok_section mem_ok_upd)
    show ?thesis
      using st' True ok1 valid sec
      by (auto simp: synx_global_merge_def l merge_count_def split_beta split: sum.splits intro: merge_cleanup_ok)
  qed (use st' in \<open>simp add: synx_global_merge_def\<close>)
qed

section \<open>The bitmap\<close>

lemma div_32: "i < SYNX_GLOBAL_MAX_OBJS \<Longrightarrow> i div 32 < 128"
  by (simp add: div_less_iff_less_mult)

lemma bit_index_eq: "j div 32 = i div 32 \<Longrightarrow> j mod 32 = i mod 32 \<longleftrightarrow> j = (i :: nat)"
  by (metis div_mult_mod_eq)

lemma bitmap_bit_set:
  "i div 32 < length bm \<Longrightarrow> bitmap_bit (bm[i div 32 := bm ! (i div 32) OR push_bit (i mod 32) 1]) j = (j = i \<or> bitmap_bit bm j)"
  by (cases "j div 32 = i div 32") (auto simp: bitmap_bit_def bit_simps bit_index_eq)

lemma bitmap_bit_clear:
  "i div 32 < length bm \<Longrightarrow> bitmap_bit (bm[i div 32 := bm ! (i div 32) AND NOT (push_bit (i mod 32) 1)]) j = (j \<noteq> i \<and> bitmap_bit bm j)"
  by (cases "j div 32 = i div 32") (auto simp: bitmap_bit_def bit_simps bit_index_eq)

lemma find_first_zero_bit_cases:
  obtains "find_first_zero_bit bm n = n" "\<forall>i<n. bitmap_bit bm i"
  | "find_first_zero_bit bm n < n" "\<not> bitmap_bit bm (find_first_zero_bit bm n)"
proof (cases "List.find (\<lambda>i. \<not> bitmap_bit bm i) [0..<n]")
  case None
  then show ?thesis using that(1) find_upt_None [of "\<lambda>i. \<not> bitmap_bit bm i" 0 n] by (simp add: find_first_zero_bit_def)
next
  case (Some i)
  then have "find_first_zero_bit bm n = i" by (simp add: find_first_zero_bit_def)
  then show ?thesis using that(2) Some find_upt_Some [of "\<lambda>i. \<not> bitmap_bit bm i" 0 n i] by simp
qed

lemma find_first_zero_bit_found: "find_first_zero_bit bm n < n \<Longrightarrow> \<not> bitmap_bit bm (find_first_zero_bit bm n)"
  by (rule find_first_zero_bit_cases [of bm n]) auto

lemma find_first_zero_bit_full: "\<not> find_first_zero_bit bm n < n \<Longrightarrow> \<forall>i<n. bitmap_bit bm i"
  by (rule find_first_zero_bit_cases [of bm n]) auto

lemma find_next_bit_ge: "offset \<le> n \<Longrightarrow> offset \<le> find_next_bit bm n offset"
  by (auto simp: find_next_bit_def find_upt_Some split: option.splits)

section \<open>Allocation\<close>

text \<open>The other cores only take indexes.\<close>

definition only_take :: "synx_shared_mem \<Rightarrow> bool" where
  "only_take st \<longleftrightarrow> (\<forall>n b. length (other_cores st n b) = length b \<and> (\<forall>i. bitmap_bit b i \<longrightarrow> bitmap_bit (other_cores st n b) i))"

definition free_indexes :: "synx_shared_mem \<Rightarrow> nat set" where
  "free_indexes st = {i. i < SYNX_GLOBAL_MAX_OBJS \<and> \<not> bitmap_bit (bitmap st) i}"

lemma test_and_set_index:
  assumes "length (bitmap st) = 128" "polite st" "i < SYNX_GLOBAL_MAX_OBJS"
  defines "bm \<equiv> other_cores st (atomics st) (bitmap st)"
  shows "ipclite_global_test_and_set_bit (i mod 32) (i div 32) st =
    (bm ! (i div 32), st\<lparr>bitmap := bm[i div 32 := bm ! (i div 32) OR push_bit (i mod 32) 1], atomics := atomics st + 1\<rparr>)"
  using assms(1,2) div_32 [OF assms(3)] unfolding bm_def
  by (simp add: ipclite_global_test_and_set_bit_def atomic_access_def Let_def polite_def)

lemma alloc_loop_returns:
  assumes "length (bitmap st) = 128" "only_take st"
  shows "\<exists>rc idx st'. alloc_loop st = Some (rc, idx, st') \<and>
    (case idx of None \<Rightarrow> rc = - SYNX_NOMEM \<and> free_indexes st' = {}
     | Some i \<Rightarrow> rc = 0 \<and> i \<in> free_indexes st \<and> i \<notin> free_indexes st') \<and>
    free_indexes st' \<subseteq> free_indexes st \<and> table st' = table st"
  using assms
proof (induction "card (free_indexes st)" arbitrary: st rule: less_induct)
  case less
  let ?i = "find_first_zero_bit (bitmap st) SYNX_GLOBAL_MAX_OBJS"
  show ?case
  proof (cases "?i < SYNX_GLOBAL_MAX_OBJS")
    case False
    then have "free_indexes st = {}" using find_first_zero_bit_full by (auto simp: free_indexes_def)
    then show ?thesis using False by (subst alloc_loop.simps) (simp add: Let_def)
  next
    case True
    let ?bm = "other_cores st (atomics st) (bitmap st)"
    let ?st1 = "st\<lparr>bitmap := ?bm[?i div 32 := ?bm ! (?i div 32) OR push_bit (?i mod 32) 1], atomics := atomics st + 1\<rparr>"
    have pol: "polite st" using less.prems by (simp add: only_take_def polite_def)
    note tas = test_and_set_index [OF less.prems(1) pol True]
    have len: "length ?bm = 128" using less.prems by (simp add: only_take_def)
    have more: "bitmap_bit (bitmap st) j \<Longrightarrow> bitmap_bit ?bm j" for j using less.prems(2) by (simp add: only_take_def)
    have bits: "bitmap_bit (bitmap ?st1) j = (j = ?i \<or> bitmap_bit ?bm j)" for j
      using bitmap_bit_set [of ?i ?bm j] div_32 [OF True] len by simp
    have mem: "?i \<in> free_indexes st" "?i \<notin> free_indexes ?st1" "free_indexes ?st1 \<subseteq> free_indexes st"
      using True find_first_zero_bit_found [OF True] bits more by (auto simp: free_indexes_def)
    have unfold: "alloc_loop st = (if \<not> bit (?bm ! (?i div 32)) (?i mod 32) then Some (0, Some ?i, ?st1) else alloc_loop ?st1)"
      using True by (subst alloc_loop.simps) (simp add: Let_def tas)
    show ?thesis
    proof (cases "bit (?bm ! (?i div 32)) (?i mod 32)")
      case False
      then show ?thesis using mem by (simp add: unfold)
    next
      case bit: True
      have "finite (free_indexes st)" by (simp add: free_indexes_def)
      moreover have "free_indexes ?st1 \<subset> free_indexes st" using mem by blast
      ultimately have "card (free_indexes ?st1) < card (free_indexes st)" by (rule psubset_card_mono)
      from less.hyps [OF this] less.prems(2) len obtain rc idx st'
        where r: "alloc_loop ?st1 = Some (rc, idx, st')"
          "case idx of None \<Rightarrow> rc = - SYNX_NOMEM \<and> free_indexes st' = {} | Some i \<Rightarrow> rc = 0 \<and> i \<in> free_indexes ?st1 \<and> i \<notin> free_indexes st'"
          "free_indexes st' \<subseteq> free_indexes ?st1" "table st' = table ?st1"
        by (auto simp: only_take_def)
      then show ?thesis using mem(3) bit by (auto simp: unfold split: option.splits)
    qed
  qed
qed

text \<open>Whatever the other cores do, an allocation that returns keeps the invariant.\<close>

lemma alloc_loop_ok:
  assumes "alloc_loop st = Some r"
  shows "mem_ok rank l st \<longrightarrow> mem_ok rank l (snd (snd r)) \<and> (\<forall>i. fst (snd r) = Some i \<longrightarrow> i < SYNX_GLOBAL_MAX_OBJS)"
proof (rule alloc_loop.raw_induct [OF _ assms], goal_cases)
  case (1 f st r)
  let ?i = "find_first_zero_bit (bitmap st) SYNX_GLOBAL_MAX_OBJS"
  show ?case
  proof (cases "?i < SYNX_GLOBAL_MAX_OBJS")
    case True
    obtain prev st1 where t: "ipclite_global_test_and_set_bit (?i mod 32) (?i div 32) st = (prev, st1)"
      by (cases "ipclite_global_test_and_set_bit (?i mod 32) (?i div 32) st")
    have "mem_ok rank l st1" if "mem_ok rank l st"
      using mem_ok_atomic [OF that div_32 [OF True]] t by (metis ipclite_global_test_and_set_bit_def snd_conv)
    then show ?thesis using 1 True by (auto simp: Let_def t split: if_splits)
  qed (use 1 in \<open>auto simp: Let_def\<close>)
qed

lemma alloc_handle_ok:
  assumes "synx_alloc_global_handle st = Some (rc, h, st')" "mem_ok rank False st"
  shows "mem_ok rank False st'"
proof -
  obtain rc1 i st1 where a: "synx_global_alloc_index False st = Some (rc1, i, st1)"
    using assms(1) by (auto simp: synx_alloc_global_handle_def Option.bind_eq_Some_conv)
  have "mem_ok rank False st1"
    using alloc_loop_ok [of st "(rc1, i, st1)" rank False] a assms(2) by (auto simp: synx_global_alloc_index_def split: if_splits)
  then show ?thesis
    using assms(1) init_coredata_ok [of rank st1]
    by (cases i) (auto simp: synx_alloc_global_handle_def a Let_def split_beta)
qed

section \<open>Recovery and set-up\<close>

lemma recover_section_ok:
  assumes "mem_ok rank l st" "idx < SYNX_GLOBAL_MAX_OBJS"
  shows "mem_ok rank l (snd (recover_section c idx st))"
proof -
  let ?g = "obj st idx"
  let ?d = "drop_ref (?g\<lparr>g_subscribers := g_subscribers ?g AND NOT (push_bit c 1)\<rparr>)"
  have "parents_ok rank idx (g_parents (fst ?d))" using mem_ok_parents [OF assms(1), of idx] by (intro drop_ref_ok) simp
  then have "mem_ok rank l (upd_obj idx (\<lambda>_. fst ?d) st)" using assms by (intro mem_ok_upd) auto
  then show ?thesis using assms(1) by (simp add: recover_section_def Let_def split_beta)
qed

lemma recover_loop_ok:
  assumes "mem_ok rank False st"
  shows "\<exists>rc marks st'. recover_loop c idx clear_idx st = Some (rc, marks, st') \<and> mem_ok rank False st'"
  using assms
proof (induction "SYNX_GLOBAL_MAX_OBJS - idx" arbitrary: idx clear_idx st rule: less_induct)
  case less
  let ?body = "\<lambda>s. case recover_section c idx s of (r, s1) \<Rightarrow> (Inr r, s1)"
  show ?case
  proof (cases "idx < SYNX_GLOBAL_MAX_OBJS")
    case False
    then show ?thesis using less.prems by (subst recover_loop.simps) simp
  next
    case True
    have body: "mem_ok rank True (snd (?body s))" if "mem_ok rank True s" for s
      using recover_section_ok [OF that True, of c] by (simp add: split_beta)
    obtain r st1 where w: "with_gmem idx Inl ?body st = (r, st1)" by (cases "with_gmem idx Inl ?body st")
    have "mem_ok rank False (snd (with_gmem idx Inl ?body st))" by (rule mem_ok_section [OF less.prems body])
    then have ok1: "mem_ok rank False st1" by (simp add: w)
    show ?thesis
    proof (cases r)
      case (Inl rc)
      then show ?thesis using ok1 True by (subst recover_loop.simps) (simp add: w)
    next
      case (Inr uc)
      obtain update clear where uc: "uc = (update, clear)" by (cases uc)
      obtain rc st2 where u: "(if update then synx_global_update_status idx SYNX_STATE_SIGNALED_SSR st1 else Some (0, st1)) = Some (rc, st2)"
        "mem_ok rank False st2" using ok1 update_status_ok [OF ok1, of idx SYNX_STATE_SIGNALED_SSR] by (cases update) auto
      let ?next = "find_next_bit (bitmap st2) SYNX_GLOBAL_MAX_OBJS (idx + 1)"
      have "idx < ?next" using find_next_bit_ge [of "idx + 1" SYNX_GLOBAL_MAX_OBJS "bitmap st2"] True by simp
      then have "SYNX_GLOBAL_MAX_OBJS - ?next < SYNX_GLOBAL_MAX_OBJS - idx" using True by simp
      from less.hyps [OF this u(2)] show ?thesis
        using True u(1) by (subst recover_loop.simps) (simp add: w Inr uc)
    qed
  qed
qed

lemma clear_marks_ok:
  "mem_ok rank False st \<Longrightarrow> \<forall>i\<in>set xs. i < SYNX_GLOBAL_MAX_OBJS \<Longrightarrow> mem_ok rank False (fold (\<lambda>i s. if marks i then clear_index i s else s) xs st)"
  by (induction xs arbitrary: st) (auto simp: mem_ok_clear)

lemma recover_lock_ok: "mem_ok rank l st \<Longrightarrow> mem_ok rank False (call c (recover_lock k st)) \<or> unat (synx_gmem_lock_owner st) \<noteq> k"
  by (auto simp: recover_lock_def synx_gmem_lock_owner_clear_def obj_upd_obj mem_ok_def sized_def polite_def)

lemma recover_ok:
  assumes "mem_ok rank False st"
  shows "\<exists>rc st'. synx_global_recover alloc c st = Some (rc, st') \<and> mem_ok rank False st'"
proof -
  let ?st1 = "recover_lock c (call (Ipclite_Recover (synx_global_map_core_id c)) st)"
  have "mem_ok rank False ?st1"
    using assms recover_lock_ok [of rank False "call (Ipclite_Recover (synx_global_map_core_id c)) st" undefined c]
    by (auto simp: recover_lock_def)
  from recover_loop_ok [OF this] obtain rc marks st'
    where "recover_loop c (find_next_bit (bitmap ?st1) SYNX_GLOBAL_MAX_OBJS 1) (\<lambda>_. False) ?st1 = Some (rc, marks, st')" "mem_ok rank False st'"
    by blast
  then show ?thesis using assms clear_marks_ok [of rank st'] by (auto simp: synx_global_recover_def Let_def)
qed

lemma mem_init_ok:
  assumes "polite st" "\<not> locked st" "\<not> gmem_ub st" "98824 \<le> unat sz" "synx_global_mem_init 0 sz hw_request st = (0, st')"
  shows "mem_ok rank False st'"
proof -
  let ?m = "st\<lparr>mapped := True, bitmap := replicate 128 0, table := replicate SYNX_GLOBAL_MAX_OBJS zero_coredata,
      gmem_ub := gmem_ub st \<or> unat sz < 98824, hwlock := True\<rparr>"
  have "mem_ok rank False ?m"
    using assms(1-4) by (auto simp: mem_ok_def sized_def polite_def obj_def)
  then have "mem_ok rank False (upd_obj 0 (\<lambda>_. zero_coredata) (snd (ipclite_global_test_and_set_bit 0 0 ?m)))"
    by (auto simp: ipclite_global_test_and_set_bit_def intro!: mem_ok_upd mem_ok_atomic)
  then show ?thesis
    using assms(5) by (auto simp: synx_global_mem_init_def synx_gmem_init_def Let_def split: if_splits)
qed

section \<open>Runs\<close>

text \<open>
  The steps of the module. Every operation may be called at any time with any arguments and the
  lock may time out; the parent of a merge is an entry with no parents of its own that is not
  merged into itself, as \<^verbatim>\<open>synx_merge\<close> takes a new entry.
\<close>

inductive synx_step :: "synx_shared_mem \<Rightarrow> synx_shared_mem \<Rightarrow> bool" where
  Alloc: "synx_alloc_global_handle st = Some (rc, h, st') \<Longrightarrow> synx_step st st'"
| Init_Coredata: "synx_step st (snd (synx_global_init_coredata h st))"
| Get_Waiting: "synx_step st (snd (synx_global_get_waiting_cores idx cores st))"
| Set_Waiting: "synx_step st (snd (synx_global_set_waiting_core idx c st))"
| Get_Subscribed: "synx_step st (snd (synx_global_get_subscribed_cores idx cores st))"
| Set_Subscribed: "synx_step st (snd (synx_global_set_subscribed_core idx c st))"
| Clear_Subscribed: "synx_step st (snd (synx_global_clear_subscribed_core idx c st))"
| Fetch_Handle: "synx_step st (snd (synx_global_fetch_handle_details idx null st))"
| Fetch_Entry: "synx_step st (snd (synx_fetch_global_shared_memory_handle_details h st))"
| Get_Parents_Num: "synx_step st (snd (synx_global_get_parents_num idx st))"
| Get_Parents: "synx_step st (snd (synx_global_get_parents idx null st))"
| Get_Status: "synx_step st (snd (synx_global_get_status idx st))"
| Test_Status: "synx_step st (snd (synx_global_test_status_set_wait idx c st))"
| Get_Ref: "synx_step st (snd (synx_global_get_ref idx st))"
| Put_Ref: "synx_step st (synx_global_put_ref idx st)"
| Update_Status: "synx_global_update_status idx status st = Some (rc, st') \<Longrightarrow> synx_step st st'"
| Merge: "no_parents (obj st p) \<Longrightarrow> p \<notin> set xs \<Longrightarrow> synx_step st (snd (synx_global_merge xs p st))"
| Recover: "synx_global_recover alloc c st = Some (rc, st') \<Longrightarrow> synx_step st st'"
| Dump: "synx_step st (snd (synx_global_dump_shared_memory st))"

inductive synx_reach :: "synx_shared_mem \<Rightarrow> bool" where
  Boot: "polite st \<Longrightarrow> \<not> locked st \<Longrightarrow> \<not> gmem_ub st \<Longrightarrow> 98824 \<le> unat sz \<Longrightarrow>
    synx_global_mem_init 0 sz hw_request st = (0, st') \<Longrightarrow> synx_reach st'"
| Step: "synx_reach st \<Longrightarrow> synx_step st st' \<Longrightarrow> synx_reach st'"

lemma step_ok: "synx_step st st' \<Longrightarrow> mem_ok rank False st \<Longrightarrow> \<exists>rank'. mem_ok rank' False st'"
proof (induction rule: synx_step.induct)
  case (Update_Status idx status st rc st')
  then show ?case using update_status_ok by (metis option.inject prod.inject)
next
  case (Recover alloc c st rc st')
  then show ?case using recover_ok by (metis option.inject prod.inject)
qed (blast intro: one_entry_ok init_coredata_ok put_ref_ok merge_ok dump_ok alloc_handle_ok)+

lemma reach_ok: "synx_reach st \<Longrightarrow> \<exists>rank. mem_ok rank False st"
proof (induction rule: synx_reach.induct)
  case (Boot st sz hw_request st')
  then show ?case using mem_init_ok by blast
next
  case (Step st st')
  then show ?case using step_ok by blast
qed


end
