(* ===== verification/Synx_Entry.thy ===== *)
theory Synx_Entry
  imports Synx_Runs
begin

text \<open>
  The effect of the signalling operations when the lock is free: one equation per outcome of the
  section of an entry, and the messages that an update sends.
\<close>

section \<open>Messages\<close>

definition wake_calls :: "u32 \<Rightarrow> u64 \<Rightarrow> u16 \<Rightarrow> synx_call list" where
  "wake_calls status data waiters =
     map (\<lambda>i. Msg_Send (synx_global_map_core_id i) data)
       (filter (bit waiters) [(if status = SYNX_STATE_SIGNALED_SSR then 0 else 1)..<SYNX_CORE_MAX])"

definition log_calls :: "synx_call list \<Rightarrow> synx_shared_mem \<Rightarrow> synx_shared_mem" where
  "log_calls cs st = st\<lparr>calls := calls st @ cs\<rparr>"

lemma log_calls_simps [simp]:
  "mapped (log_calls c st) = mapped st" "hwlock (log_calls c st) = hwlock st" "bitmap (log_calls c st) = bitmap st"
  "table (log_calls c st) = table st" "locked (log_calls c st) = locked st" "lock_busy (log_calls c st) = lock_busy st"
  "other_cores (log_calls c st) = other_cores st" "calls (log_calls c st) = calls st @ c"
  "ready (log_calls c st) = ready st" "log_calls [] st = st"
  by (simp_all add: log_calls_def ready_def sized_def)

lemma obj_log_calls [simp]: "obj (log_calls c st) = obj st"
  by (rule obj_cong) simp

lemma signal_data_nonzero: "g_status g \<noteq> 0 \<Longrightarrow> signal_data g \<noteq> 0"
proof
  assume s: "g_status g \<noteq> 0" and "signal_data g = 0"
  then have zero: "\<not> bit (push_bit 32 (ucast (g_handle g) :: u64) OR ucast (g_status g)) n" for n by (simp add: signal_data_def)
  have "\<not> bit (g_status g) n" for n
    using zero [of n] bit_imp_le_length [of "g_status g" n] by (cases "n < 32") (auto simp: bit_simps)
  then show False using s by (auto simp: bit_eq_iff)
qed

lemma notify_cores_eq:
  assumes "data \<noteq> 0"
  shows "notify_cores status data (mark_cores w (replicate SYNX_CORE_MAX False)) st = log_calls (wake_calls status data w) st"
proof -
  let ?c = "mark_cores w (replicate SYNX_CORE_MAX False)"
  have f: "fold (\<lambda>i s. if ?c ! i then call (Msg_Send (synx_global_map_core_id i) data) s else s) xs s =
      log_calls (map (\<lambda>i. Msg_Send (synx_global_map_core_id i) data) (filter (bit w) xs)) s" if "set xs \<subseteq> {..<5}" for xs s
    using that by (induction xs arbitrary: s) (auto simp: mark_cores_def log_calls_def call_def)
  have "set [0..<5] \<subseteq> {..<5 :: nat}" "set [1..<5] \<subseteq> {..<5 :: nat}" by auto
  note f [OF this(1)] f [OF this(2)]
  then show ?thesis using assms by (simp add: notify_cores_def wake_calls_def)
qed

section \<open>The outcomes of an update\<close>

text \<open>
  A leaf takes the status and tells its waiters and its parents. A composite entry with more
  children to come counts one off; with its last child it tells its waiters and its parents.
\<close>

definition signalled_leaf :: "u32 \<Rightarrow> synx_global_coredata \<Rightarrow> synx_global_coredata" where
  "signalled_leaf status g = g\<lparr>g_status := status, g_waiters := 0\<rparr>"

definition next_status :: "u32 \<Rightarrow> u32 \<Rightarrow> u32" where
  "next_status status old = (if old = SYNX_STATE_ACTIVE \<or> is_error_status status then status else old)"

definition counted_child :: "u32 \<Rightarrow> synx_global_coredata \<Rightarrow> synx_global_coredata" where
  "counted_child status g = g\<lparr>g_num_child := g_num_child g - 1, g_status := next_status status (g_status g)\<rparr>"

lemma counted_child_eq:
  "(if g_status g = SYNX_STATE_ACTIVE \<or> is_error_status status then g\<lparr>g_num_child := n, g_status := status\<rparr>
    else g\<lparr>g_num_child := n\<rparr>) = g\<lparr>g_num_child := n, g_status := next_status status (g_status g)\<rparr>"
  by (simp add: next_status_def)

lemma entry_leaf:
  assumes "ready st" "0 < idx" "idx < SYNX_GLOBAL_MAX_OBJS" "g_num_child (obj st idx) = 0" "status \<noteq> 0"
  defines "g \<equiv> signalled_leaf status (obj st idx)"
  shows "update_status_entry idx status st =
    ((0, synx_global_get_parents_locked (obj st idx)),
     log_calls (wake_calls status (signal_data (obj st idx\<lparr>g_status := status\<rparr>)) (g_waiters (obj st idx))) (put_obj idx g (settle st)))"
proof -
  have len: "idx < length (table (enter st))" using assms by (simp add: ready_table)
  have o: "obj (enter st) idx = obj st idx" using assms by (simp add: enter_obj)
  have p: "synx_global_get_parents_locked (obj st idx\<lparr>g_status := status, g_waiters := 0\<rparr>) = synx_global_get_parents_locked (obj st idx)"
    by (simp add: synx_global_get_parents_locked_def)
  show ?thesis
    using assms len signal_data_nonzero [of "obj st idx\<lparr>g_status := status\<rparr>"]
    by (simp add: update_status_entry_def with_gmem_ready update_status_section_def Let_def o synx_global_get_waiting_cores_locked_def
        upd_obj_put put_enter_unlock signalled_leaf_def p notify_cores_eq)
qed

lemma entry_pending:
  assumes "ready st" "0 < idx" "idx < SYNX_GLOBAL_MAX_OBJS" "g_num_child (obj st idx) \<noteq> 0" "g_num_child (obj st idx) \<noteq> 1"
  shows "update_status_entry idx status st = ((0, replicate 4 0), put_obj idx (counted_child status (obj st idx)) (settle st))"
proof -
  have len: "idx < length (table (enter st))" using assms by (simp add: ready_table)
  have o: "obj (enter st) idx = obj st idx" using assms by (simp add: enter_obj)
  have n: "g_num_child (obj st idx) - 1 \<noteq> 0" using assms by simp
  show ?thesis
    using assms len n
    by (simp add: update_status_entry_def with_gmem_ready update_status_section_def Let_def o counted_child_eq
        upd_obj_put put_enter_unlock counted_child_def notify_cores_def)
qed

lemma entry_last:
  assumes "ready st" "0 < idx" "idx < SYNX_GLOBAL_MAX_OBJS" "g_num_child (obj st idx) = 1" "g_refcount (obj st idx) \<noteq> 1"
    "next_status status (g_status (obj st idx)) \<noteq> 0"
  defines "g \<equiv> counted_child status (obj st idx)"
  shows "update_status_entry idx status st =
    ((0, synx_global_get_parents_locked (obj st idx)),
     log_calls (wake_calls status (signal_data g) (g_waiters g)) (put_obj idx (g\<lparr>g_waiters := 0, g_refcount := g_refcount g - 1\<rparr>) (settle st)))"
proof -
  have len: "idx < length (table (enter st))" using assms by (simp add: ready_table)
  have o: "obj (enter st) idx = obj st idx" using assms by (simp add: enter_obj)
  have p: "synx_global_get_parents_locked (obj st idx\<lparr>g_num_child := 0, g_status := next_status status (g_status (obj st idx)), g_waiters := 0\<rparr>) =
      synx_global_get_parents_locked (obj st idx)"
    by (simp add: synx_global_get_parents_locked_def)
  have r: "g_refcount (obj st idx) - 1 \<noteq> 0" using assms by simp
  have d: "signal_data (obj st idx\<lparr>g_num_child := 0, g_status := next_status status (g_status (obj st idx))\<rparr>) \<noteq> 0"
    using assms(6) by (intro signal_data_nonzero) simp
  show ?thesis
    using assms(1-5) len r d unfolding g_def
    by (simp add: update_status_entry_def with_gmem_ready update_status_section_def Let_def o counted_child_eq
        synx_global_get_waiting_cores_locked_def upd_obj_put put_enter_unlock counted_child_def p drop_ref_def notify_cores_eq)
qed

section \<open>Updates of a small tree\<close>

lemma core_no_parents:
  assumes "update_status_entry idx status st = ((0, parents), st1)" "set parents \<subseteq> {0}"
  shows "synx_global_update_status_core idx status st = Some (0, st1)"
proof -
  have "each_index f ps s = Some s" if "set ps \<subseteq> {0}" for f ps and s :: synx_shared_mem
    using that by (induction ps) auto
  then show ?thesis using assms by (subst synx_global_update_status_core.simps) simp
qed

lemma core_one_parent:
  assumes "update_status_entry idx status st = ((0, [p, 0, 0, 0]), st1)" "p \<noteq> 0"
    "synx_global_update_status_core p status st1 = Some (rc, st2)"
  shows "synx_global_update_status_core idx status st = Some (0, st2)"
  using assms by (subst synx_global_update_status_core.simps) simp

lemma check_active:
  assumes "ready st" "0 < idx" "idx < SYNX_GLOBAL_MAX_OBJS"
  shows "update_status_check idx st =
    (if g_num_child (obj st idx) \<noteq> 0 then Inl 0 else if g_status (obj st idx) \<noteq> SYNX_STATE_ACTIVE then Inl (- SYNX_ALREADY) else Inr (),
     settle st)"
  unfolding update_status_check_def using section_read [OF assms, of Inl "\<lambda>g. if g_num_child g \<noteq> 0 then Inl 0
    else if g_status g \<noteq> SYNX_STATE_ACTIVE then Inl (- SYNX_ALREADY) else Inr ()"] by simp

lemma no_parents_locked: "no_parents g \<Longrightarrow> set (synx_global_get_parents_locked g) \<subseteq> {0}"
  by (auto simp: no_parents_def synx_global_get_parents_locked_def less_Suc_eq numeral_eq_Suc)

end
