(* ===== verification/Synx_Composite.thy ===== *)
theory Synx_Composite
  imports Synx_Entry
begin

text \<open>
  A merged entry and its children: what a merge of fresh entries leaves, and how the signals of the
  children, in any order, make up the signal of the composite entry.
\<close>

section \<open>Merging fresh entries\<close>

definition fresh_child :: "synx_shared_mem \<Rightarrow> nat \<Rightarrow> bool" where
  "fresh_child st c \<longleftrightarrow> 0 < c \<and> c < SYNX_GLOBAL_MAX_OBJS \<and> g_status (obj st c) = SYNX_STATE_ACTIVE \<and>
     g_num_child (obj st c) = 0 \<and> no_parents (obj st c)"

lemma add_first_parent: "add_parent p [0, 0, 0, 0] = ([of_nat p, 0, 0, 0], True)"
  by (simp add: add_parent_def upt_rec)

lemma merge_body_ready:
  assumes "ready st" "0 < c" "c < SYNX_GLOBAL_MAX_OBJS"
  defines "g \<equiv> obj st c"
  shows "with_gmem c Inl (merge_body c p n ps) st =
    (Inr (snd (add_parent p (g_parents g)), if merge_pending g then n + 1 else n, merge_status (g_status g) ps),
     put_obj c (g\<lparr>g_parents := fst (add_parent p (g_parents g))\<rparr>) (settle st))"
proof -
  let ?f = "\<lambda>g. Inr (snd (add_parent p (g_parents g)), if merge_pending g then n + 1 else n, merge_status (g_status g) ps)"
  let ?h = "\<lambda>g. g\<lparr>g_parents := fst (add_parent p (g_parents g))\<rparr>"
  have "merge_body c p n ps s = (?f (obj s c), put_obj c (?h (obj s c)) s)" if "length (table s) = SYNX_GLOBAL_MAX_OBJS" for s
    using assms(2,3) that by (simp add: merge_body_def upd_obj_put)
  from section_store [OF assms(1-3) this, of Inl] show ?thesis by (simp add: g_def)
qed

lemma merge_body_fresh:
  assumes "ready st" "fresh_child st c"
  shows "with_gmem c Inl (merge_body c p n SYNX_STATE_ACTIVE) st =
    (Inr (True, n + 1, SYNX_STATE_ACTIVE), put_obj c (obj st c\<lparr>g_parents := [of_nat p, 0, 0, 0]\<rparr>) (settle st))"
  using assms(2) by (simp add: merge_body_ready [OF assms(1)] fresh_child_def no_parents_def add_first_parent merge_pending_def merge_status_def)

lemma merge_cleanup_ready:
  assumes "ready st" "0 < xs ! n" "xs ! n < SYNX_GLOBAL_MAX_OBJS"
  defines "i \<equiv> xs ! n"
  shows "merge_cleanup (Suc n) xs p st =
    merge_cleanup n xs p (put_obj i (obj st i\<lparr>g_parents := clear_parent p (g_parents (obj st i))\<rparr>) (settle st))"
proof -
  let ?h = "\<lambda>g. g\<lparr>g_parents := clear_parent p (g_parents g)\<rparr>"
  have "((), upd_obj i (\<lambda>g. g\<lparr>g_parents := clear_parent p (g_parents g)\<rparr>) s) = ((), put_obj i (?h (obj s i)) s)"
    if "length (table s) = SYNX_GLOBAL_MAX_OBJS" for s using assms(3) that by (simp add: upd_obj_put i_def)
  from section_store [OF assms(1) _ _ this, of "\<lambda>_. ()"] assms(2,3) show ?thesis by (simp add: Let_def i_def)
qed

lemma merge_loop_fresh:
  assumes "ready st" "distinct cs" "\<forall>c\<in>set cs. fresh_child st c"
  shows "\<exists>st'. merge_loop cs p rc n SYNX_STATE_ACTIVE st = (Inr (n + length cs, SYNX_STATE_ACTIVE), st') \<and> ready st' \<and>
    bitmap st' = bitmap st \<and> calls st' = calls st \<and>
    (\<forall>j. j \<noteq> 0 \<longrightarrow> obj st' j = (if j \<in> set cs then obj st j\<lparr>g_parents := [of_nat p, 0, 0, 0]\<rparr> else obj st j))"
  using assms
proof (induction cs arbitrary: rc n st)
  case (Cons c cs)
  let ?s = "put_obj c (obj st c\<lparr>g_parents := [of_nat p, 0, 0, 0]\<rparr>) (settle st)"
  have c: "0 < c" "c < SYNX_GLOBAL_MAX_OBJS" "synx_is_valid_idx c" "fresh_child st c"
    using Cons.prems(3) by (simp_all add: fresh_child_def synx_is_valid_idx_def)
  have o: "obj ?s j = (if j = c then obj st c\<lparr>g_parents := [of_nat p, 0, 0, 0]\<rparr> else obj st j)" if "j \<noteq> 0" for j
    using Cons.prems(1) c that by (simp add: obj_put ready_table settle_obj)
  have "fresh_child ?s d" if "d \<in> set cs" for d
    using Cons.prems(2,3) that o [of d] by (auto simp: fresh_child_def)
  then have "\<forall>d\<in>set cs. fresh_child ?s d" by blast
  from Cons.IH [OF _ _ this, of 0 "n + 1"] Cons.prems(1,2) obtain st'
    where st': "merge_loop cs p 0 (n + 1) SYNX_STATE_ACTIVE ?s = (Inr (n + 1 + length cs, SYNX_STATE_ACTIVE), st')" "ready st'"
      "bitmap st' = bitmap ?s" "calls st' = calls ?s"
      "\<And>j. j \<noteq> 0 \<Longrightarrow> obj st' j = (if j \<in> set cs then obj ?s j\<lparr>g_parents := [of_nat p, 0, 0, 0]\<rparr> else obj ?s j)"
    by auto
  have "merge_loop (c # cs) p rc n SYNX_STATE_ACTIVE st = (Inr (n + length (c # cs), SYNX_STATE_ACTIVE), st')"
    using c(3) st'(1) by (simp add: merge_loop_Cons merge_body_fresh [OF Cons.prems(1) c(4)])
  then show ?case using st'(2-4) st'(5) o Cons.prems(2) by (auto simp: fresh_child_def)
qed simp

section \<open>A composite entry waiting for its children\<close>

definition waits_for :: "synx_shared_mem \<Rightarrow> nat \<Rightarrow> nat set \<Rightarrow> bool" where
  "waits_for st p cs \<longleftrightarrow> ready st \<and> finite cs \<and> 0 < p \<and> p < SYNX_GLOBAL_MAX_OBJS \<and> p \<notin> cs \<and> no_parents (obj st p) \<and>
     unat (g_num_child (obj st p)) = card cs \<and>
     (\<forall>c\<in>cs. 0 < c \<and> c < SYNX_GLOBAL_MAX_OBJS \<and> g_status (obj st c) = SYNX_STATE_ACTIVE \<and> g_num_child (obj st c) = 0 \<and>
        g_parents (obj st c) = [of_nat p, 0, 0, 0])"

lemma merge_fresh:
  assumes st: "ready st" and cs: "distinct cs" "cs \<noteq> []" "\<forall>c\<in>set cs. fresh_child st c" and p: "fresh_child st p" "p \<notin> set cs"
  shows "\<exists>st'. synx_global_merge cs p st = (0, st') \<and> waits_for st' p (set cs) \<and> calls st' = calls st \<and>
    obj st' p = obj st p\<lparr>g_num_child := of_nat (length cs), g_refcount := g_refcount (obj st p) + 1\<rparr> \<and>
    (\<forall>j. j \<noteq> 0 \<longrightarrow> j \<noteq> p \<longrightarrow> g_waiters (obj st' j) = g_waiters (obj st j) \<and> g_handle (obj st' j) = g_handle (obj st j))"
proof -
  obtain st1 where l: "merge_loop cs p (- SYNX_INVALID) 0 SYNX_STATE_ACTIVE st = (Inr (0 + length cs, SYNX_STATE_ACTIVE), st1)" "ready st1"
    "calls st1 = calls st"
    "\<And>j. j \<noteq> 0 \<Longrightarrow> obj st1 j = (if j \<in> set cs then obj st j\<lparr>g_parents := [of_nat p, 0, 0, 0]\<rparr> else obj st j)"
    using merge_loop_fresh [OF st cs(1,3), of p "- SYNX_INVALID" 0] by blast
  have v: "0 < p" "p < SYNX_GLOBAL_MAX_OBJS" "synx_is_valid_idx p" using p(1) by (simp_all add: fresh_child_def synx_is_valid_idx_def)
  have op: "obj st1 p = obj st p" using l(4) [of p] p(2) v by simp
  have "set cs \<subseteq> {..<SYNX_GLOBAL_MAX_OBJS}" using cs(3) by (auto simp: fresh_child_def)
  then have "length cs \<le> SYNX_GLOBAL_MAX_OBJS"
    using card_mono [of "{..<SYNX_GLOBAL_MAX_OBJS}" "set cs"] distinct_card [OF cs(1)] by simp
  then have n: "unat (of_nat (length cs) :: u16) = length cs" by (simp add: unat_of_nat take_bit_nat_eq_self)
  then have n0: "(of_nat (length cs) :: u16) \<noteq> 0" using cs(2) by (metis length_0_conv unat_0)
  let ?h = "\<lambda>g. g\<lparr>g_num_child := g_num_child g + of_nat (length cs),
    g_refcount := (if g_num_child g + of_nat (length cs) \<noteq> 0 then g_refcount g + 1 else g_refcount g), g_status := SYNX_STATE_ACTIVE\<rparr>"
  have "merge_parent_section p (length cs) SYNX_STATE_ACTIVE s = (0, put_obj p (?h (obj s p)) s)" if "length (table s) = SYNX_GLOBAL_MAX_OBJS" for s
    using v that by (simp add: merge_parent_section_def Let_def upd_obj_put)
  from section_store [OF l(2) v(1,2) this, of "\<lambda>rc. rc"]
  have sec: "with_gmem p (\<lambda>rc. rc) (merge_parent_section p (length cs) SYNX_STATE_ACTIVE) st1 = (0, put_obj p (?h (obj st1 p)) (settle st1))" .
  let ?g = "obj st p\<lparr>g_num_child := of_nat (length cs), g_refcount := g_refcount (obj st p) + 1\<rparr>"
  let ?st' = "put_obj p ?g (settle st1)"
  have g: "?h (obj st1 p) = ?g" using p(1) n0 by (simp add: op fresh_child_def)
  have m: "synx_global_merge cs p st = (0, ?st')"
    using st v(3) cs(2) by (simp add: synx_global_merge_def ready_def l(1) sec g)
  have o: "obj ?st' j = (if j = p then ?g else obj st1 j)" if "j \<noteq> 0" for j
    using v l(2) that by (simp add: obj_put ready_table settle_obj)
  have "waits_for ?st' p (set cs)"
    using v p cs l(2) n distinct_card [OF cs(1)] o l(4) by (auto simp: waits_for_def fresh_child_def no_parents_def)
  then show ?thesis using m v o l(3,4) by auto
qed

lemma waits_for_other:
  assumes "waits_for st p cs" "ready st'" "\<And>j. j \<in> cs' \<Longrightarrow> obj st' j = obj st j" "cs' \<subseteq> cs"
    "no_parents (obj st' p)" "unat (g_num_child (obj st' p)) = card cs'"
  shows "waits_for st' p cs'"
  using assms by (auto simp: waits_for_def intro: finite_subset)

text \<open>The update of a child with one parent runs into the update of the parent.\<close>

lemma core_child:
  assumes st: "ready st" and c: "0 < c" "c < SYNX_GLOBAL_MAX_OBJS" "g_num_child (obj st c) = 0" "g_parents (obj st c) = [of_nat p, 0, 0, 0]"
    and p: "0 < p" "p < SYNX_GLOBAL_MAX_OBJS" and s: "status \<noteq> 0"
  defines "st1 \<equiv> log_calls (wake_calls status (signal_data (obj st c\<lparr>g_status := status\<rparr>)) (g_waiters (obj st c)))
      (put_obj c (signalled_leaf status (obj st c)) (settle st))"
  assumes e: "update_status_entry p status st1 = ((0, parents), st2)" "set parents \<subseteq> {0}"
  shows "synx_global_update_status_core c status st = Some (0, st2)"
proof -
  have pl: "synx_global_get_parents_locked (obj st c) = [p, 0, 0, 0]"
    using unat_u16 [OF p(2)] by (simp add: synx_global_get_parents_locked_def c(4) upt_rec)
  have "update_status_entry c status st = ((0, [p, 0, 0, 0]), st1)"
    using entry_leaf [OF st c(1-3) s] pl by (simp add: st1_def)
  moreover have "synx_global_update_status_core p status st1 = Some (0, st2)" by (rule core_no_parents [OF e])
  ultimately show ?thesis using p(1) by (intro core_one_parent) auto
qed

lemma core_child_pending:
  assumes st: "ready st" and c: "0 < c" "c < SYNX_GLOBAL_MAX_OBJS" "g_num_child (obj st c) = 0" "g_parents (obj st c) = [of_nat p, 0, 0, 0]"
    and p: "0 < p" "p < SYNX_GLOBAL_MAX_OBJS" "p \<noteq> c" and n: "g_num_child (obj st p) \<noteq> 0" "g_num_child (obj st p) \<noteq> 1" and s: "status \<noteq> 0"
  shows "\<exists>st'. synx_global_update_status_core c status st = Some (0, st') \<and> ready st' \<and>
    (\<forall>j. j \<noteq> 0 \<longrightarrow> obj st' j = (if j = c then signalled_leaf status (obj st c) else if j = p then counted_child status (obj st p) else obj st j))"
proof -
  let ?st1 = "log_calls (wake_calls status (signal_data (obj st c\<lparr>g_status := status\<rparr>)) (g_waiters (obj st c)))
      (put_obj c (signalled_leaf status (obj st c)) (settle st))"
  let ?st2 = "put_obj p (counted_child status (obj st p)) (settle ?st1)"
  have len: "length (table st) = SYNX_GLOBAL_MAX_OBJS" using st by (rule ready_table)
  have o1: "obj ?st1 j = (if j = c then signalled_leaf status (obj st c) else obj st j)" if "j \<noteq> 0" for j
    using c len that by (simp add: obj_put settle_obj)
  have r1: "ready ?st1" using st by simp
  have "update_status_entry p status ?st1 = ((0, replicate 4 0), ?st2)"
    using entry_pending [OF r1 p(1,2), of status] n o1 [of p] p by simp
  then have "synx_global_update_status_core c status st = Some (0, ?st2)"
    by (rule core_child [OF st c p(1,2) s]) auto
  moreover have "obj ?st2 j = (if j = c then signalled_leaf status (obj st c) else if j = p then counted_child status (obj st p) else obj st j)"
    if "j \<noteq> 0" for j using p len o1 that by (simp add: obj_put settle_obj)
  moreover have "ready ?st2" using st by simp
  ultimately show ?thesis by blast
qed

lemma core_child_last:
  assumes st: "ready st" and c: "0 < c" "c < SYNX_GLOBAL_MAX_OBJS" "g_num_child (obj st c) = 0" "g_parents (obj st c) = [of_nat p, 0, 0, 0]"
    and p: "0 < p" "p < SYNX_GLOBAL_MAX_OBJS" "p \<noteq> c" and n: "g_num_child (obj st p) = 1" "g_refcount (obj st p) \<noteq> 1" "no_parents (obj st p)"
    and s: "status \<noteq> 0" "g_status (obj st p) \<noteq> 0"
  shows "\<exists>st'. synx_global_update_status_core c status st = Some (0, st') \<and> ready st' \<and>
    obj st' p = (counted_child status (obj st p))\<lparr>g_waiters := 0, g_refcount := g_refcount (obj st p) - 1\<rparr> \<and>
    (\<forall>j. j \<noteq> 0 \<longrightarrow> j \<noteq> c \<longrightarrow> j \<noteq> p \<longrightarrow> obj st' j = obj st j)"
proof -
  let ?g = "counted_child status (obj st p)"
  let ?st1 = "log_calls (wake_calls status (signal_data (obj st c\<lparr>g_status := status\<rparr>)) (g_waiters (obj st c)))
      (put_obj c (signalled_leaf status (obj st c)) (settle st))"
  let ?st2 = "log_calls (wake_calls status (signal_data ?g) (g_waiters ?g))
      (put_obj p (?g\<lparr>g_waiters := 0, g_refcount := g_refcount ?g - 1\<rparr>) (settle ?st1))"
  have len: "length (table st) = SYNX_GLOBAL_MAX_OBJS" using st by (rule ready_table)
  have o1: "obj ?st1 j = (if j = c then signalled_leaf status (obj st c) else obj st j)" if "j \<noteq> 0" for j
    using c len that by (simp add: obj_put settle_obj)
  have r1: "ready ?st1" using st by simp
  have "next_status status (g_status (obj st p)) \<noteq> 0" using s by (simp add: next_status_def)
  then have "update_status_entry p status ?st1 = ((0, synx_global_get_parents_locked (obj st p)), ?st2)"
    using entry_last [OF r1 p(1,2), of status] n o1 [of p] p by simp
  then have "synx_global_update_status_core c status st = Some (0, ?st2)"
    by (rule core_child [OF st c p(1,2) s(1)]) (rule no_parents_locked [OF n(3)])
  moreover have "obj ?st2 p = ?g\<lparr>g_waiters := 0, g_refcount := g_refcount (obj st p) - 1\<rparr>"
    using p len by (simp add: obj_put counted_child_def)
  moreover have "\<forall>j. j \<noteq> 0 \<longrightarrow> j \<noteq> c \<longrightarrow> j \<noteq> p \<longrightarrow> obj ?st2 j = obj st j" using p len o1 by (simp add: obj_put settle_obj)
  moreover have "ready ?st2" using st by simp
  ultimately show ?thesis by blast
qed

text \<open>The signal of a child.\<close>

lemma signal_child_eq:
  assumes w: "waits_for st p cs" and c: "c \<in> cs" and s: "status > SYNX_STATE_ACTIVE"
  defines "st1 \<equiv> log_calls (wake_calls status (signal_data (obj st c\<lparr>g_status := status\<rparr>)) (g_waiters (obj st c)))
      (put_obj c (signalled_leaf status (obj st c)) (settle (settle st)))"
  assumes e: "update_status_entry p status st1 = ((0, parents), st2)" "set parents \<subseteq> {0}"
  shows "synx_global_update_status c status st = Some (0, st2)"
proof -
  have st: "ready st" and v: "0 < c" "c < SYNX_GLOBAL_MAX_OBJS" "g_status (obj st c) = SYNX_STATE_ACTIVE" "g_num_child (obj st c) = 0"
    "g_parents (obj st c) = [of_nat p, 0, 0, 0]" and p: "0 < p" "p < SYNX_GLOBAL_MAX_OBJS"
    using w c by (auto simp: waits_for_def)
  have o: "obj (settle st) c = obj st c" using v(1) by (simp add: settle_obj)
  have s0: "status \<noteq> 0" using s by auto
  have pl: "synx_global_get_parents_locked (obj st c) = [p, 0, 0, 0]"
    using unat_u16 [OF p(2)] by (simp add: synx_global_get_parents_locked_def v(5) upt_rec)
  have "update_status_entry c status (settle st) = ((0, [p, 0, 0, 0]), st1)"
    using entry_leaf [of "settle st" c status] st v s0 pl by (simp add: o st1_def)
  moreover have "synx_global_update_status_core p status st1 = Some (0, st2)" by (rule core_no_parents [OF e])
  ultimately have "synx_global_update_status_core c status (settle st) = Some (0, st2)"
    using p(1) by (intro core_one_parent) auto
  then show ?thesis
    using st v s check_active [OF st v(1,2)] by (simp add: synx_global_update_status_def ready_def synx_is_valid_idx_def not_le)
qed

lemma signal_child_pending:
  assumes w: "waits_for st p cs" and c: "c \<in> cs" "1 < card cs" and s: "status > SYNX_STATE_ACTIVE"
  shows "\<exists>st'. synx_global_update_status c status st = Some (0, st') \<and> waits_for st' p (cs - {c}) \<and>
    obj st' p = counted_child status (obj st p) \<and>
    calls st' = calls st @ wake_calls status (signal_data (obj st c\<lparr>g_status := status\<rparr>)) (g_waiters (obj st c)) \<and>
    (\<forall>j. j \<noteq> 0 \<longrightarrow> j \<noteq> c \<longrightarrow> j \<noteq> p \<longrightarrow> obj st' j = obj st j)"
proof -
  let ?w = "wake_calls status (signal_data (obj st c\<lparr>g_status := status\<rparr>)) (g_waiters (obj st c))"
  let ?st1 = "log_calls ?w (put_obj c (signalled_leaf status (obj st c)) (settle (settle st)))"
  let ?st2 = "put_obj p (counted_child status (obj st p)) (settle ?st1)"
  have st: "ready st" and p: "0 < p" "p < SYNX_GLOBAL_MAX_OBJS" "p \<noteq> c" and n: "unat (g_num_child (obj st p)) = card cs" and c0: "0 < c" "c < SYNX_GLOBAL_MAX_OBJS"
    using w c by (auto simp: waits_for_def)
  have len: "length (table st) = SYNX_GLOBAL_MAX_OBJS" using st by (rule ready_table)
  have o1: "obj ?st1 j = (if j = c then signalled_leaf status (obj st c) else obj st j)" if "j \<noteq> 0" for j
    using c0 len that by (simp add: obj_put settle_obj)
  have n01: "g_num_child (obj st p) \<noteq> 0" "g_num_child (obj st p) \<noteq> 1" using n c(2) by auto
  have r1: "ready ?st1" using st by simp
  have "update_status_entry p status ?st1 = ((0, replicate 4 0), ?st2)"
    using entry_pending [OF r1 p(1,2), of status] n01 o1 [of p] p by simp
  then have u: "synx_global_update_status c status st = Some (0, ?st2)"
    by (rule signal_child_eq [OF w c(1) s]) auto
  have o2: "obj ?st2 j = (if j = p then counted_child status (obj st p) else obj ?st1 j)" if "j \<noteq> 0" for j
    using p len that by (simp add: obj_put settle_obj)
  have "waits_for ?st2 p (cs - {c})"
  proof (rule waits_for_other [OF w])
    show "ready ?st2" using st by simp
    show "obj ?st2 j = obj st j" if "j \<in> cs - {c}" for j
    proof -
      have "j \<noteq> 0" "j \<noteq> p" "j \<noteq> c" using w that by (auto simp: waits_for_def)
      then show ?thesis using o1 o2 by simp
    qed
    show "no_parents (obj ?st2 p)" using w o2 [of p] p by (simp add: waits_for_def no_parents_def counted_child_def)
    have "unat (g_num_child (obj st p) - 1) = card cs - 1" using n c(2) by (simp add: unat_minus_eq)
    then show "unat (g_num_child (obj ?st2 p)) = card (cs - {c})" using o2 [of p] p c(1) by (simp add: counted_child_def)
  qed auto
  moreover have "\<forall>j. j \<noteq> 0 \<longrightarrow> j \<noteq> c \<longrightarrow> j \<noteq> p \<longrightarrow> obj ?st2 j = obj st j" using o1 o2 by simp
  moreover have "obj ?st2 p = counted_child status (obj st p)" using o2 [of p] p by simp
  moreover have "calls ?st2 = calls st @ ?w" by simp
  ultimately show ?thesis using u by blast
qed

lemma signal_child_last:
  assumes w: "waits_for st p {c}" and s: "status > SYNX_STATE_ACTIVE" and r: "g_refcount (obj st p) \<noteq> 1" and a: "g_status (obj st p) \<noteq> 0"
  defines "g \<equiv> counted_child status (obj st p)"
  shows "\<exists>st'. synx_global_update_status c status st = Some (0, st') \<and> ready st' \<and>
    obj st' p = g\<lparr>g_waiters := 0, g_refcount := g_refcount (obj st p) - 1\<rparr> \<and>
    calls st' = calls st @ wake_calls status (signal_data (obj st c\<lparr>g_status := status\<rparr>)) (g_waiters (obj st c)) @
      wake_calls status (signal_data g) (g_waiters (obj st p))"
proof -
  let ?w = "wake_calls status (signal_data (obj st c\<lparr>g_status := status\<rparr>)) (g_waiters (obj st c))"
  let ?st1 = "log_calls ?w (put_obj c (signalled_leaf status (obj st c)) (settle (settle st)))"
  let ?st2 = "log_calls (wake_calls status (signal_data g) (g_waiters g)) (put_obj p (g\<lparr>g_waiters := 0, g_refcount := g_refcount g - 1\<rparr>) (settle ?st1))"
  have st: "ready st" and p: "0 < p" "p < SYNX_GLOBAL_MAX_OBJS" "p \<noteq> c" and n: "unat (g_num_child (obj st p)) = 1" and c0: "0 < c" "c < SYNX_GLOBAL_MAX_OBJS"
    using w by (auto simp: waits_for_def)
  have len: "length (table st) = SYNX_GLOBAL_MAX_OBJS" using st by (rule ready_table)
  have o1: "obj ?st1 p = obj st p" using c0 len p by (simp add: obj_put settle_obj)
  have n1: "g_num_child (obj st p) = 1" using n by (metis unat_1 unsigned_word_eqI)
  have r1: "ready ?st1" using st by simp
  have "next_status status (g_status (obj st p)) \<noteq> 0" using s a by (auto simp: next_status_def)
  then have "update_status_entry p status ?st1 = ((0, synx_global_get_parents_locked (obj st p)), ?st2)"
    using entry_last [OF r1 p(1,2), of status] n1 o1 r by (simp add: g_def)
  then have u: "synx_global_update_status c status st = Some (0, ?st2)"
    by (rule signal_child_eq [OF w singletonI s]) (use w in \<open>auto simp: waits_for_def dest: no_parents_locked [THEN subsetD]\<close>)
  have "obj ?st2 p = g\<lparr>g_waiters := 0, g_refcount := g_refcount (obj st p) - 1\<rparr>"
    using p len by (simp add: obj_put g_def counted_child_def)
  moreover have "calls ?st2 = calls st @ ?w @ wake_calls status (signal_data g) (g_waiters (obj st p))" by (simp add: g_def counted_child_def)
  ultimately show ?thesis using u st by (metis ready_put ready_settle log_calls_simps(9))
qed

section \<open>The signals of all children\<close>

primrec signal_all :: "(nat \<times> u32) list \<Rightarrow> synx_shared_mem \<Rightarrow> synx_shared_mem option" where
  "signal_all [] st = Some st"
| "signal_all (x # xs) st = Option.bind (synx_global_update_status (fst x) (snd x) st) (\<lambda>r. signal_all xs (snd r))"

lemma signal_all_append: "signal_all (xs @ ys) st = Option.bind (signal_all xs st) (signal_all ys)"
  by (induction xs arbitrary: st) (auto simp: Option.bind_assoc)

definition child_wakes :: "synx_shared_mem \<Rightarrow> nat \<times> u32 \<Rightarrow> synx_call list" where
  "child_wakes st x = wake_calls (snd x) (signal_data (obj st (fst x)\<lparr>g_status := snd x\<rparr>)) (g_waiters (obj st (fst x)))"

lemma signal_some:
  assumes "waits_for st p cs" "distinct (map fst xs)" "set (map fst xs) \<subset> cs" "\<forall>x\<in>set xs. snd x > SYNX_STATE_ACTIVE"
  shows "\<exists>st'. signal_all xs st = Some st' \<and> waits_for st' p (cs - set (map fst xs)) \<and>
    g_status (obj st' p) = fold next_status (map snd xs) (g_status (obj st p)) \<and> g_refcount (obj st' p) = g_refcount (obj st p) \<and>
    g_waiters (obj st' p) = g_waiters (obj st p) \<and> g_handle (obj st' p) = g_handle (obj st p) \<and>
    calls st' = calls st @ concat (map (child_wakes st) xs) \<and> (\<forall>j\<in>cs - set (map fst xs). obj st' j = obj st j)"
  using assms
proof (induction xs arbitrary: st cs)
  case (Cons x xs)
  obtain c s where x: "x = (c, s)" by (cases x)
  have fin: "finite cs" using Cons.prems(1) by (simp add: waits_for_def)
  have "c \<in> cs" "cs \<noteq> {c}" using Cons.prems(2,3) by (auto simp: x)
  then have "1 < card cs" using fin by (metis One_nat_def card_0_eq card_1_singletonE empty_iff linorder_neqE_nat less_one singletonD)
  then obtain st1 where st1: "synx_global_update_status c s st = Some (0, st1)" "waits_for st1 p (cs - {c})"
    "obj st1 p = counted_child s (obj st p)" "calls st1 = calls st @ child_wakes st x"
    "\<And>j. j \<noteq> 0 \<Longrightarrow> j \<noteq> c \<Longrightarrow> j \<noteq> p \<Longrightarrow> obj st1 j = obj st j"
    using signal_child_pending [OF Cons.prems(1) \<open>c \<in> cs\<close>, of s] Cons.prems(4) by (auto simp: x child_wakes_def)
  have same: "obj st1 j = obj st j" if "j \<in> cs - {c}" for j
    using that Cons.prems(1) by (intro st1(5)) (auto simp: waits_for_def)
  have sub: "set (map fst xs) \<subset> cs - {c}" using Cons.prems(2,3) \<open>c \<in> cs\<close> by (auto simp: x)
  have "child_wakes st1 y = child_wakes st y" if "y \<in> set xs" for y
  proof -
    have "fst y \<in> cs - {c}" using sub that by auto
    then show ?thesis by (simp add: child_wakes_def same)
  qed
  then have wakes: "map (child_wakes st1) xs = map (child_wakes st) xs" by simp
  from Cons.IH [OF st1(2) _ sub] Cons.prems(2,4) obtain st'
    where st': "signal_all xs st1 = Some st'" "waits_for st' p (cs - {c} - set (map fst xs))"
      "g_status (obj st' p) = fold next_status (map snd xs) (g_status (obj st1 p))" "g_refcount (obj st' p) = g_refcount (obj st1 p)"
      "g_waiters (obj st' p) = g_waiters (obj st1 p)" "g_handle (obj st' p) = g_handle (obj st1 p)"
      "calls st' = calls st1 @ concat (map (child_wakes st1) xs)" "\<forall>j\<in>cs - {c} - set (map fst xs). obj st' j = obj st1 j"
    by (auto simp: x)
  have "cs - {c} - set (map fst xs) = cs - set (map fst (x # xs))" by (auto simp: x)
  then show ?case using st' st1(1,3,4) same by (auto simp: x counted_child_def wakes)
qed (simp add: waits_for_def)

text \<open>What a composite entry reports: the last error among its children, or their first status.\<close>

definition composite_status :: "u32 list \<Rightarrow> u32" where
  "composite_status ss = (case filter is_error_status ss of [] \<Rightarrow> hd ss | es \<Rightarrow> last es)"

lemma fold_next_status:
  assumes "\<forall>s\<in>set ss. s \<noteq> SYNX_STATE_ACTIVE" "s0 \<noteq> SYNX_STATE_ACTIVE"
  shows "fold next_status ss s0 = (case filter is_error_status ss of [] \<Rightarrow> s0 | es \<Rightarrow> last es)"
  using assms by (induction ss arbitrary: s0) (auto simp: next_status_def split: list.splits)

lemma fold_composite_status:
  assumes "ss \<noteq> []" "\<forall>s\<in>set ss. s \<noteq> SYNX_STATE_ACTIVE"
  shows "fold next_status ss SYNX_STATE_ACTIVE = composite_status ss"
proof (cases ss)
  case (Cons s ss')
  have "next_status s SYNX_STATE_ACTIVE = s" by (simp add: next_status_def)
  then show ?thesis using fold_next_status [of ss' s] assms(2) by (auto simp: Cons composite_status_def split: list.splits)
qed (use assms in simp)

lemma composite_status_active: "ss \<noteq> [] \<Longrightarrow> \<forall>s\<in>set ss. s \<noteq> SYNX_STATE_ACTIVE \<Longrightarrow> composite_status ss \<noteq> SYNX_STATE_ACTIVE"
proof -
  assume ne: "ss \<noteq> []" and a: "\<forall>s\<in>set ss. s \<noteq> SYNX_STATE_ACTIVE"
  show ?thesis
  proof (cases "filter is_error_status ss = []")
    case True
    then show ?thesis using ne a by (simp add: composite_status_def)
  next
    case False
    then have "last (filter is_error_status ss) \<in> set ss" using last_in_set by fastforce
    then show ?thesis using False a by (auto simp: composite_status_def split: list.splits)
  qed
qed

lemma signal_every:
  assumes w: "waits_for st p cs" "g_status (obj st p) = SYNX_STATE_ACTIVE" "g_refcount (obj st p) \<noteq> 1"
    and xs: "distinct (map fst xs)" "set (map fst xs) = cs" "xs \<noteq> []" "\<forall>x\<in>set xs. snd x > SYNX_STATE_ACTIVE"
  shows "\<exists>st'. signal_all xs st = Some st' \<and> ready st' \<and> g_num_child (obj st' p) = 0 \<and>
    g_status (obj st' p) = composite_status (map snd xs) \<and> g_refcount (obj st' p) = g_refcount (obj st p) - 1 \<and>
    calls st' = calls st @ concat (map (child_wakes st) xs) @
      wake_calls (snd (last xs)) (push_bit 32 (ucast (g_handle (obj st p))) OR ucast (composite_status (map snd xs))) (g_waiters (obj st p))"
proof -
  obtain ys c s where x: "xs = ys @ [(c, s)]" using xs(3) by (metis rev_exhaust surj_pair)
  have ys: "distinct (map fst ys)" "set (map fst ys) \<subset> cs" "\<forall>x\<in>set ys. snd x > SYNX_STATE_ACTIVE" and s: "s > SYNX_STATE_ACTIVE"
    using xs by (auto simp: x)
  have cs: "cs - set (map fst ys) = {c}" using xs(1,2) by (auto simp: x)
  obtain st1 where st1: "signal_all ys st = Some st1" "waits_for st1 p {c}"
    "g_status (obj st1 p) = fold next_status (map snd ys) SYNX_STATE_ACTIVE" "g_refcount (obj st1 p) = g_refcount (obj st p)"
    "g_waiters (obj st1 p) = g_waiters (obj st p)" "g_handle (obj st1 p) = g_handle (obj st p)"
    "calls st1 = calls st @ concat (map (child_wakes st) ys)" "obj st1 c = obj st c"
    using signal_some [OF w(1) ys] unfolding w(2) cs by auto
  have ne: "\<forall>x\<in>set (map snd xs). x \<noteq> SYNX_STATE_ACTIVE" using xs(4) by auto
  have f: "next_status s (g_status (obj st1 p)) = composite_status (map snd xs)"
    using fold_composite_status [of "map snd xs"] xs(3) ne by (simp add: x st1(3))
  have a: "g_status (obj st1 p) \<noteq> 0"
  proof (cases "ys = []")
    case True
    then show ?thesis using st1(3) by simp
  next
    case False
    have "fold next_status ss s0 \<noteq> 0" if "\<forall>s\<in>set ss. s > SYNX_STATE_ACTIVE" "s0 \<noteq> 0" for ss s0
    proof -
      have "\<forall>s\<in>set ss. s \<noteq> 0" using that(1) by auto
      then show ?thesis using that(2) by (induction ss arbitrary: s0) (auto simp: next_status_def)
    qed
    then show ?thesis using st1(3) ys(3) by auto
  qed
  have "unat (g_num_child (obj st1 p)) = unat (1 :: u16)" using st1(2) by (simp add: waits_for_def)
  then have n: "g_num_child (obj st1 p) = 1" by (rule unsigned_word_eqI)
  obtain st' where st': "synx_global_update_status c s st1 = Some (0, st')" "ready st'"
    "obj st' p = (counted_child s (obj st1 p))\<lparr>g_waiters := 0, g_refcount := g_refcount (obj st1 p) - 1\<rparr>"
    "calls st' = calls st1 @ wake_calls s (signal_data (obj st1 c\<lparr>g_status := s\<rparr>)) (g_waiters (obj st1 c)) @
      wake_calls s (signal_data (counted_child s (obj st1 p))) (g_waiters (obj st1 p))"
    using signal_child_last [OF st1(2) s _ a] w(3) st1(4) by auto
  have "signal_all xs st = Some st'" by (simp add: x signal_all_append st1(1) st'(1))
  moreover have "signal_data (counted_child s (obj st1 p)) =
      push_bit 32 (ucast (g_handle (obj st p))) OR ucast (composite_status (map snd xs))"
    by (simp only: signal_data_def) (simp add: counted_child_def st1(6) f)
  ultimately show ?thesis
    using st' st1 n f by (auto simp: x child_wakes_def counted_child_def)
qed

section \<open>Reading the status\<close>

lemma get_status_ready:
  assumes "ready st" "0 < idx" "idx < SYNX_GLOBAL_MAX_OBJS"
  shows "synx_global_get_status idx st =
    (if g_status (obj st idx) \<noteq> SYNX_STATE_ACTIVE \<and> g_num_child (obj st idx) = 0 then g_status (obj st idx) else SYNX_STATE_ACTIVE, settle st)"
  using section_read [OF assms, of u32_of_rc "\<lambda>g. if g_status g \<noteq> SYNX_STATE_ACTIVE \<and> g_num_child g = 0 then g_status g else SYNX_STATE_ACTIVE"] assms
  by (simp add: synx_global_get_status_def synx_is_valid_idx_def ready_def Let_def)


end
