(* ===== verification/Synx_Claims.thy ===== *)
theory Synx_Claims
  imports Synx_Composite
begin

text \<open>
  The properties of the global shared memory of synx, each with a witness on a small memory
  (\<open>synx_demo\<close>: entry 0 is the lock owner, the given entries follow).
\<close>

section \<open>A small memory\<close>

definition synx_demo :: "synx_global_coredata list \<Rightarrow> synx_shared_mem" where
  "synx_demo gs = \<lparr>mapped = True, hwlock = True, bitmap = (2 ^ Suc (length gs) - 1) # replicate 127 0,
     table = zero_coredata # gs @ replicate (SYNX_GLOBAL_MAX_OBJS - Suc (length gs)) zero_coredata, locked = False,
     lock_busy = (\<lambda>_. False), lock_tries = 0, other_cores = (\<lambda>_ b. b), atomics = 0, calls = [], gmem_ub = False\<rparr>"

definition active_entry :: "u32 \<Rightarrow> synx_global_coredata" where
  "active_entry h = zero_coredata\<lparr>g_status := SYNX_STATE_ACTIVE, g_refcount := 1, g_subscribers := 1, g_handle := h\<rparr>"

lemma demo_ready: "length gs < 32 \<Longrightarrow> ready (synx_demo gs)"
  by (simp add: ready_def sized_def synx_demo_def)

lemma demo_obj: "length gs < 32 \<Longrightarrow> obj (synx_demo gs) j = (if 0 < j \<and> j \<le> length gs then gs ! (j - 1) else zero_coredata)"
  by (auto simp: obj_def synx_demo_def nth_Cons' nth_append)

lemma demo_fields [simp]:
  "calls (synx_demo gs) = []" "gmem_ub (synx_demo gs) = False" "locked (synx_demo gs) = False" "mapped (synx_demo gs) = True"
  "other_cores (synx_demo gs) = (\<lambda>_ b. b)" "length (bitmap (synx_demo gs)) = 128" "hwlock (synx_demo gs) = True"
  by (simp_all add: synx_demo_def)

section \<open>Allocation ends\<close>

text \<open>C19: When the other cores only take indexes, the retry loop of an allocation ends: it returns an index that was free and is free no
  longer, or it fails with the error code for no memory when every index is taken; the table is unchanged.\<close>

theorem synx_alloc_returns:
  assumes "mapped st" and "length (bitmap st) = 128" and "only_take st"
  shows "\<exists>rc idx st'. synx_global_alloc_index False st = Some (rc, idx, st') \<and>
    (case idx of None \<Rightarrow> rc = - SYNX_NOMEM \<and> free_indexes st' = {}
     | Some i \<Rightarrow> rc = SYNX_SUCCESS \<and> i \<in> free_indexes st \<and> i \<notin> free_indexes st') \<and>
    free_indexes st' \<subseteq> free_indexes st \<and> table st' = table st"
  using alloc_loop_returns [OF assms(2,3)] assms(1) by (simp add: synx_global_alloc_index_def)

lemma synx_alloc_returns_witness:
  "\<exists>rc idx st'. synx_global_alloc_index False (synx_demo [active_entry 5]) = Some (rc, idx, st') \<and> table st' = table (synx_demo [active_entry 5])"
proof -
  have "only_take (synx_demo [active_entry 5])" by (simp add: only_take_def)
  from synx_alloc_returns [OF _ _ this] show ?thesis by auto
qed

section \<open>Runs are safe and signalling ends\<close>

text \<open>C15: In every run of the shared memory no access leaves the table or the bitmap, the hardware lock is free between two operations, and the
  update of a status, which calls itself for all parents of an entry, returns for every entry, as does the recovery of a core.\<close>

theorem synx_runs_safe:
  assumes "synx_reach st"
  shows "\<not> gmem_ub st \<and> \<not> locked st \<and> (\<exists>rc st'. synx_global_update_status idx status st = Some (rc, st')) \<and>
    (\<exists>rc st'. synx_global_recover alloc c st = Some (rc, st'))"
proof -
  obtain rank where "mem_ok rank False st" using reach_ok [OF assms] by blast
  then show ?thesis using update_status_ok [of rank st idx status] recover_ok [of rank st alloc c] by (auto simp: mem_ok_def)
qed

definition synx_blank :: synx_shared_mem where
  "synx_blank = \<lparr>mapped = False, hwlock = False, bitmap = [], table = [], locked = False, lock_busy = (\<lambda>n. n = 3), lock_tries = 0,
     other_cores = (\<lambda>_ b. b), atomics = 0, calls = [], gmem_ub = False\<rparr>"

lemma blank_boot: "fst (synx_global_mem_init 0 100000 True synx_blank) = 0"
  by (simp add: synx_global_mem_init_def synx_gmem_init_def Let_def)

lemma blank_reach: "synx_reach (snd (synx_global_mem_init 0 100000 True synx_blank))"
  by (rule synx_reach.Boot [of synx_blank 100000 True])
    (simp_all add: polite_def synx_blank_def synx_global_mem_init_def synx_gmem_init_def Let_def prod_eq_iff)

lemma synx_runs_safe_witness:
  "\<exists>rc st'. synx_global_update_status 7 2 (snd (synx_global_mem_init 0 100000 True synx_blank)) = Some (rc, st')"
  using synx_runs_safe [OF blank_reach] by blast

section \<open>Composite entries\<close>

text \<open>C16: With the lock free and never timing out, a merge of active entries without parents or children into such an entry makes a composite entry
  that reports active until the last of its children is signalled, whatever the order of the signals; then it reports the last error among
  them, or the first status when there is none, its references are those before the merge, and each of its waiting cores other than the own one
  (each, when the last signal is that of a crash) gets one message, after those of the children.\<close>

theorem synx_composite_signals:
  assumes "ready st" and "distinct cs" and "cs \<noteq> []" and "\<forall>c\<in>set cs. fresh_child st c" and "fresh_child st p" and "p \<notin> set cs"
    and "g_refcount (obj st p) \<noteq> 0"
  shows "\<exists>st1. synx_global_merge cs p st = (0, st1) \<and>
    (\<forall>xs. distinct (map fst xs) \<longrightarrow> (\<forall>x\<in>set xs. snd x > SYNX_STATE_ACTIVE) \<longrightarrow>
      (set (map fst xs) \<subset> set cs \<longrightarrow>
        (\<exists>st2. signal_all xs st1 = Some st2 \<and> fst (synx_global_get_status p st2) = SYNX_STATE_ACTIVE)) \<and>
      (set (map fst xs) = set cs \<longrightarrow>
        (\<exists>st2. signal_all xs st1 = Some st2 \<and> fst (synx_global_get_status p st2) = composite_status (map snd xs) \<and>
          g_refcount (obj st2 p) = g_refcount (obj st p) \<and>
          calls st2 = calls st @ concat (map (child_wakes st) xs) @
            wake_calls (snd (last xs)) (push_bit 32 (ucast (g_handle (obj st p))) OR ucast (composite_status (map snd xs))) (g_waiters (obj st p)))))"
proof -
  obtain st1 where m: "synx_global_merge cs p st = (0, st1)" "waits_for st1 p (set cs)" "calls st1 = calls st"
    "obj st1 p = obj st p\<lparr>g_num_child := of_nat (length cs), g_refcount := g_refcount (obj st p) + 1\<rparr>"
    "\<And>j. j \<noteq> 0 \<Longrightarrow> j \<noteq> p \<Longrightarrow> g_waiters (obj st1 j) = g_waiters (obj st j) \<and> g_handle (obj st1 j) = g_handle (obj st j)"
    using merge_fresh [OF assms(1-6)] by blast
  have p: "0 < p" "p < SYNX_GLOBAL_MAX_OBJS" "g_status (obj st1 p) = SYNX_STATE_ACTIVE" "g_refcount (obj st1 p) \<noteq> 1"
    using assms(5,7) m(4) by (simp_all add: fresh_child_def)
  have wakes: "concat (map (child_wakes st1) xs) = concat (map (child_wakes st) xs)" if "set (map fst xs) = set cs" for xs
  proof -
    have "child_wakes st1 x = child_wakes st x" if x: "x \<in> set xs" for x
    proof -
      have "fst x \<in> set cs" using that x \<open>set (map fst xs) = set cs\<close> by auto
      then have "fst x \<noteq> 0" "fst x \<noteq> p" using assms(4,6) by (auto simp: fresh_child_def)
      then show ?thesis using m(5) [of "fst x"] by (simp add: child_wakes_def signal_data_def)
    qed
    then show ?thesis by (metis map_cong)
  qed
  have part: "\<exists>st2. signal_all xs st1 = Some st2 \<and> fst (synx_global_get_status p st2) = SYNX_STATE_ACTIVE"
    if xs: "distinct (map fst xs)" "\<forall>x\<in>set xs. snd x > SYNX_STATE_ACTIVE" "set (map fst xs) \<subset> set cs" for xs
  proof -
    obtain st2 where s: "signal_all xs st1 = Some st2" "waits_for st2 p (set cs - set (map fst xs))"
      using signal_some [OF m(2) xs(1,3,2)] by blast
    have "unat (g_num_child (obj st2 p)) \<noteq> 0" using s(2) xs(3) by (auto simp: waits_for_def card_eq_0_iff)
    then have "g_num_child (obj st2 p) \<noteq> 0" by auto
    then show ?thesis using s p(1,2) by (auto simp: waits_for_def get_status_ready)
  qed
  have whole: "\<exists>st2. signal_all xs st1 = Some st2 \<and> fst (synx_global_get_status p st2) = composite_status (map snd xs) \<and>
      g_refcount (obj st2 p) = g_refcount (obj st p) \<and>
      calls st2 = calls st @ concat (map (child_wakes st) xs) @
        wake_calls (snd (last xs)) (push_bit 32 (ucast (g_handle (obj st p))) OR ucast (composite_status (map snd xs))) (g_waiters (obj st p))"
    if xs: "distinct (map fst xs)" "\<forall>x\<in>set xs. snd x > SYNX_STATE_ACTIVE" "set (map fst xs) = set cs" for xs
  proof -
    have ne: "xs \<noteq> []" using xs(3) assms(3) by auto
    obtain st2 where s: "signal_all xs st1 = Some st2" "ready st2" "g_num_child (obj st2 p) = 0"
      "g_status (obj st2 p) = composite_status (map snd xs)" "g_refcount (obj st2 p) = g_refcount (obj st1 p) - 1"
      "calls st2 = calls st1 @ concat (map (child_wakes st1) xs) @
        wake_calls (snd (last xs)) (push_bit 32 (ucast (g_handle (obj st1 p))) OR ucast (composite_status (map snd xs))) (g_waiters (obj st1 p))"
      using signal_every [OF m(2) p(3,4) xs(1,3) ne xs(2)] by blast
    have "composite_status (map snd xs) \<noteq> SYNX_STATE_ACTIVE" using ne xs(2) by (intro composite_status_active) auto
    then have "fst (synx_global_get_status p st2) = composite_status (map snd xs)" using s(2-4) p(1,2) by (simp add: get_status_ready)
    then show ?thesis using s(1,5,6) by (simp add: m(3,4) wakes [OF xs(3)])
  qed
  show ?thesis using m(1) part whole by blast
qed

definition two_and_one :: synx_shared_mem where
  "two_and_one = synx_demo [active_entry 17, active_entry 18, active_entry 19\<lparr>g_waiters := 2\<rparr>]"

lemma two_and_one_fresh: "ready two_and_one" "\<forall>c\<in>set [1, 2]. fresh_child two_and_one c" "fresh_child two_and_one 3"
  by (simp_all add: two_and_one_def demo_ready fresh_child_def demo_obj active_entry_def no_parents_def)

lemma synx_composite_signals_witness:
  "\<exists>st1 st2. synx_global_merge [1, 2] 3 two_and_one = (0, st1) \<and> signal_all [(2, 4), (1, 2)] st1 = Some st2 \<and>
    fst (synx_global_get_status 3 st2) = 4 \<and> calls st2 = [Msg_Send 5 (push_bit 32 19 OR 4)]"
proof -
  have r: "g_refcount (obj two_and_one 3) \<noteq> 0" by (simp add: two_and_one_def demo_obj active_entry_def)
  obtain st1 where m: "synx_global_merge [1, 2] 3 two_and_one = (0, st1)"
    "\<And>xs. distinct (map fst xs) \<Longrightarrow> \<forall>x\<in>set xs. snd x > 1 \<Longrightarrow> set (map fst xs) = set [1, 2] \<Longrightarrow>
      (\<exists>st2. signal_all xs st1 = Some st2 \<and> fst (synx_global_get_status 3 st2) = composite_status (map snd xs) \<and>
          g_refcount (obj st2 3) = g_refcount (obj two_and_one 3) \<and>
          calls st2 = calls two_and_one @ concat (map (child_wakes two_and_one) xs) @
            wake_calls (snd (last xs)) (push_bit 32 (ucast (g_handle (obj two_and_one 3))) OR ucast (composite_status (map snd xs))) (g_waiters (obj two_and_one 3)))"
    using synx_composite_signals [OF two_and_one_fresh(1) _ _ two_and_one_fresh(2,3) _ r] by auto
  have c: "composite_status [4, 2] = 4" by (simp add: composite_status_def is_error_status_def)
  have w: "concat (map (child_wakes two_and_one) [(2, 4), (1, 2)]) = []"
    by (simp add: child_wakes_def wake_calls_def two_and_one_def demo_obj active_entry_def)
  have o: "g_handle (obj two_and_one 3) = 19" "g_waiters (obj two_and_one 3) = 2" "calls two_and_one = []"
    by (simp_all add: two_and_one_def demo_obj active_entry_def)
  have "wake_calls 2 d 2 = [Msg_Send 5 d]" for d
    by (simp add: wake_calls_def upt_rec synx_global_map_core_id_def bit_simps bit_numeral_rec)
  then show ?thesis using m(1) m(2) [of "[(2, 4), (1, 2)]"] c w o by auto
qed

section \<open>Waiting and signalling\<close>

lemma wake_calls_count:
  assumes "k < SYNX_CORE_MAX"
  shows "count_list (wake_calls status data w) (Msg_Send (synx_global_map_core_id k) data) =
    (if bit w k \<and> (k \<noteq> SYNX_CORE_APSS \<or> status = SYNX_STATE_SIGNALED_SSR) then 1 else 0)"
proof -
  have k: "k \<in> {0, 1, 2, 3, 4}" using assms by auto
  have u: "[0..<5] = [0, 1, 2, 3, 4]" "[Suc 0..<5] = [1, 2, 3, 4]" by (simp_all add: upt_rec)
  show ?thesis
    using k by (elim insertE emptyE) (simp_all add: wake_calls_def u synx_global_map_core_id_def)
qed

text \<open>C17: With the lock free and never timing out, a core that registers as a waiter on an active entry without children or parents is told that it is
  active. The signal of the entry then sends one message with the handle and the status to every registered core other than the own one, to the
  own one as well only when the status is that of a crash, and no message to the others; it changes no other entry, and can be given only
  once: a second signal is refused and sends nothing.\<close>

theorem synx_wait_signal:
  assumes "ready st" and "0 < idx" and "idx < SYNX_GLOBAL_MAX_OBJS" and "c < SYNX_CORE_MAX" and "fresh_child st idx" and "status > SYNX_STATE_ACTIVE"
  defines "w \<equiv> g_waiters (obj st idx) OR push_bit c 1"
  shows "\<exists>st1 st2. synx_global_test_status_set_wait idx c st = (SYNX_STATE_ACTIVE, st1) \<and>
    synx_global_update_status idx status st1 = Some (0, st2) \<and>
    calls st2 = calls st @ wake_calls status (push_bit 32 (ucast (g_handle (obj st idx))) OR ucast status) w \<and>
    obj st2 idx = obj st idx\<lparr>g_status := status, g_waiters := 0\<rparr> \<and> (\<forall>j. j \<noteq> 0 \<longrightarrow> j \<noteq> idx \<longrightarrow> obj st2 j = obj st j) \<and>
    (\<forall>k<SYNX_CORE_MAX. count_list (drop (length (calls st)) (calls st2))
         (Msg_Send (synx_global_map_core_id k) (push_bit 32 (ucast (g_handle (obj st idx))) OR ucast status)) =
       (if bit w k \<and> (k \<noteq> SYNX_CORE_APSS \<or> status = SYNX_STATE_SIGNALED_SSR) then 1 else 0)) \<and>
    (\<forall>s>SYNX_STATE_ACTIVE. \<exists>st3. synx_global_update_status idx s st2 = Some (- SYNX_ALREADY, st3) \<and> calls st3 = calls st2)"
proof -
  let ?g = "obj st idx"
  let ?st1 = "put_obj idx (?g\<lparr>g_waiters := w\<rparr>) (settle st)"
  let ?f = "\<lambda>g. if g_status g = SYNX_STATE_ACTIVE \<or> g_num_child g \<noteq> 0 then SYNX_STATE_ACTIVE else g_status g"
  let ?h = "\<lambda>g. if g_status g = SYNX_STATE_ACTIVE \<or> g_num_child g \<noteq> 0 then g\<lparr>g_waiters := g_waiters g OR push_bit c 1\<rparr> else g"
  have g: "g_status ?g = SYNX_STATE_ACTIVE" "g_num_child ?g = 0" "no_parents ?g" using assms(5) by (simp_all add: fresh_child_def)
  have "(let g = obj s idx in if g_status g = SYNX_STATE_ACTIVE \<or> g_num_child g \<noteq> 0
            then (SYNX_STATE_ACTIVE, upd_obj idx (\<lambda>g. g\<lparr>g_waiters := g_waiters g OR push_bit c 1\<rparr>) s) else (g_status g, s)) =
      (?f (obj s idx), put_obj idx (?h (obj s idx)) s)" if "length (table s) = SYNX_GLOBAL_MAX_OBJS" for s
    using that assms(3) by (simp add: Let_def upd_obj_put) (simp add: put_obj_def obj_def list_update_same)
  from section_store [OF assms(1-3) this, of "\<lambda>_. 0"]
  have wait: "synx_global_test_status_set_wait idx c st = (SYNX_STATE_ACTIVE, ?st1)"
    using assms(1,3,4) g by (simp add: synx_global_test_status_set_wait_def ready_def synx_is_valid_idx_def w_def)
  have len: "length (table st) = SYNX_GLOBAL_MAX_OBJS" using assms(1) by (rule ready_table)
  have r1: "ready (settle ?st1)" using assms(1) by simp
  have o1: "obj (settle ?st1) j = (if j = idx then ?g\<lparr>g_waiters := w\<rparr> else obj st j)" if "j \<noteq> 0" for j
    using len assms(3) that by (simp add: obj_put settle_obj)
  have s0: "status \<noteq> 0" using assms(6) by auto
  let ?st2 = "log_calls (wake_calls status (signal_data (?g\<lparr>g_waiters := w, g_status := status\<rparr>)) w)
      (put_obj idx (signalled_leaf status (?g\<lparr>g_waiters := w\<rparr>)) (settle (settle ?st1)))"
  have e: "update_status_entry idx status (settle ?st1) = ((0, synx_global_get_parents_locked (?g\<lparr>g_waiters := w\<rparr>)), ?st2)"
    using entry_leaf [OF r1 assms(2,3), of status] o1 [of idx] g assms(2) s0 by simp
  have np: "set (synx_global_get_parents_locked (?g\<lparr>g_waiters := w\<rparr>)) \<subseteq> {0}" using g(3) by (intro no_parents_locked) (simp add: no_parents_def)
  have "ready ?st1" using assms(1) by simp
  from check_active [OF this assms(2,3)] have chk: "update_status_check idx ?st1 = (Inr (), settle ?st1)"
    using g assms(2,3) len by (simp add: obj_put)
  have up: "synx_global_update_status idx status ?st1 = Some (0, ?st2)"
    using core_no_parents [OF e np] chk assms(1,3,6) by (simp add: synx_global_update_status_def ready_def synx_is_valid_idx_def not_le)
  have o2: "obj ?st2 j = (if j = idx then ?g\<lparr>g_status := status, g_waiters := 0\<rparr> else obj st j)" if "j \<noteq> 0" for j
    using len assms(2,3) o1 that by (simp add: obj_put settle_obj signalled_leaf_def)
  have again: "synx_global_update_status idx s ?st2 = Some (- SYNX_ALREADY, settle ?st2)" if "s > SYNX_STATE_ACTIVE" for s
  proof -
    have "ready ?st2" using assms(1) by simp
    moreover have "mapped ?st2" using assms(1) by (simp add: ready_def)
    ultimately show ?thesis
      using check_active [OF _ assms(2,3)] o2 [of idx] assms(2,3,6) that g
      by (auto simp: synx_global_update_status_def synx_is_valid_idx_def not_le)
  qed
  have again': "\<exists>st3. synx_global_update_status idx s ?st2 = Some (- SYNX_ALREADY, st3) \<and> calls st3 = calls ?st2" if "s > SYNX_STATE_ACTIVE" for s
    using again [OF that] by simp
  have c2: "calls ?st2 = calls st @ wake_calls status (push_bit 32 (ucast (g_handle ?g)) OR ucast status) w" by (simp add: signal_data_def)
  have i2: "obj ?st2 idx = ?g\<lparr>g_status := status, g_waiters := 0\<rparr>" using o2 [of idx] assms(2) by simp
  have j2: "\<forall>j. j \<noteq> 0 \<longrightarrow> j \<noteq> idx \<longrightarrow> obj ?st2 j = obj st j" using o2 by simp
  have n2: "\<forall>k<SYNX_CORE_MAX. count_list (drop (length (calls st)) (calls ?st2))
       (Msg_Send (synx_global_map_core_id k) (push_bit 32 (ucast (g_handle ?g)) OR ucast status)) =
     (if bit w k \<and> (k \<noteq> SYNX_CORE_APSS \<or> status = SYNX_STATE_SIGNALED_SSR) then 1 else 0)"
    using c2 by (simp add: wake_calls_count)
  show ?thesis
  proof (rule exI [of _ ?st1], rule exI [of _ ?st2], intro conjI)
    show "\<forall>s>SYNX_STATE_ACTIVE. \<exists>st3. synx_global_update_status idx s ?st2 = Some (- SYNX_ALREADY, st3) \<and> calls st3 = calls ?st2"
      using again' by blast
  qed (rule wait up c2 i2 j2 n2)+
qed

lemma synx_wait_signal_witness:
  "\<exists>st1 st2. synx_global_test_status_set_wait 1 4 two_and_one = (1, st1) \<and> synx_global_update_status 1 2 st1 = Some (0, st2) \<and>
    calls st2 = wake_calls 2 (push_bit 32 17 OR 2) 16"
proof -
  have f: "fresh_child two_and_one 1" using two_and_one_fresh(2) by simp
  have o: "g_handle (obj two_and_one 1) = 17" "g_waiters (obj two_and_one 1) = 0" "calls two_and_one = []"
    by (simp_all add: two_and_one_def demo_obj active_entry_def)
  obtain st1 st2 where "synx_global_test_status_set_wait 1 4 two_and_one = (1, st1)" "synx_global_update_status 1 2 st1 = Some (0, st2)"
    "calls st2 = calls two_and_one @ wake_calls 2 (push_bit 32 (ucast (g_handle (obj two_and_one 1))) OR ucast (2 :: u32))
      (g_waiters (obj two_and_one 1) OR push_bit 4 1)"
    using synx_wait_signal [OF two_and_one_fresh(1) _ _ _ f, of 4 2] by auto
  then show ?thesis using o by auto
qed

section \<open>Two signals at once\<close>

text \<open>The check and the update of a signal are two sections under the lock: when two signals of one child both pass the check, both are
  carried out, the child is counted twice, and a composite entry of two children reports the status although its other child is active.\<close>

theorem synx_signal_race:
  assumes "waits_for st p {c, d}" and "c \<noteq> d" and "status > SYNX_STATE_ACTIVE"
    and "g_status (obj st p) = SYNX_STATE_ACTIVE" and "g_refcount (obj st p) \<noteq> 1"
  shows "\<exists>st1 st2 st3 st4. update_status_check c st = (Inr (), st1) \<and> update_status_check c st1 = (Inr (), st2) \<and>
    synx_global_update_status_core c status st2 = Some (0, st3) \<and> synx_global_update_status_core c status st3 = Some (0, st4) \<and>
    fst (synx_global_get_status p st4) = status \<and> g_status (obj st4 d) = SYNX_STATE_ACTIVE"
proof -
  let ?st2 = "settle (settle st)"
  have st: "ready st" "ready (settle st)" "ready ?st2" and p: "0 < p" "p < SYNX_GLOBAL_MAX_OBJS" "p \<noteq> c" "p \<noteq> d" "no_parents (obj st p)"
    and n: "unat (g_num_child (obj st p)) = 2"
    and c: "0 < c" "c < SYNX_GLOBAL_MAX_OBJS" "g_status (obj st c) = SYNX_STATE_ACTIVE" "g_num_child (obj st c) = 0" "g_parents (obj st c) = [of_nat p, 0, 0, 0]"
    and d: "0 < d" "g_status (obj st d) = SYNX_STATE_ACTIVE"
    using assms(1,2) by (auto simp: waits_for_def)
  have o: "obj (settle st) j = obj st j" "obj ?st2 j = obj st j" if "j \<noteq> 0" for j using that by (simp_all add: settle_obj)
  have s: "status \<noteq> 0" "status \<noteq> SYNX_STATE_ACTIVE" using assms(3) by auto
  have "unat (g_num_child (obj st p)) = unat (2 :: u16)" using n by simp
  then have n2: "g_num_child (obj st p) = 2" by (rule unsigned_word_eqI)
  note c2 = c(1,2) c(4,5) [folded o(2) [OF less_imp_neq [OF c(1), symmetric]]]
  obtain st3 where st3: "synx_global_update_status_core c status ?st2 = Some (0, st3)" "ready st3"
    "\<And>j. j \<noteq> 0 \<Longrightarrow> obj st3 j = (if j = c then signalled_leaf status (obj st c) else if j = p then counted_child status (obj st p) else obj st j)"
    using core_child_pending [OF st(3) c2 p(1-3) _ _ s(1)] n2 p(1) c(1) o(2) by auto
  have op: "obj st3 p = counted_child status (obj st p)" "obj st3 c = signalled_leaf status (obj st c)" using st3(3) p c by auto
  obtain st4 where st4: "synx_global_update_status_core c status st3 = Some (0, st4)" "ready st4"
    "obj st4 p = (counted_child status (counted_child status (obj st p)))\<lparr>g_waiters := 0, g_refcount := g_refcount (obj st p) - 1\<rparr>"
    "\<And>j. j \<noteq> 0 \<Longrightarrow> j \<noteq> c \<Longrightarrow> j \<noteq> p \<Longrightarrow> obj st4 j = obj st3 j"
    using core_child_last [OF st3(2) c(1,2) _ _ p(1-3) _ _ _ s(1)] op c n2 p(5) s assms(4,5)
    by (auto simp: signalled_leaf_def counted_child_def next_status_def no_parents_def)
  have "fst (synx_global_get_status p st4) = status"
    using get_status_ready [OF st4(2) p(1,2)] st4(3) n2 s assms(4) by (simp add: counted_child_def next_status_def)
  moreover have "g_status (obj st4 d) = SYNX_STATE_ACTIVE" using st4(4) [of d] st3(3) [of d] d p(4) assms(2) by auto
  moreover have "update_status_check c st = (Inr (), settle st)" "update_status_check c (settle st) = (Inr (), ?st2)"
    using check_active [OF st(1) c(1,2)] check_active [OF st(2) c(1,2)] c o by auto
  ultimately show ?thesis using st3(1) st4(1) by blast
qed

lemma synx_signal_race_witness:
  "\<exists>st0 st4. synx_global_merge [1, 2] 3 two_and_one = (0, st0) \<and> fst (synx_global_get_status 3 st4) = 2 \<and> g_status (obj st4 2) = 1"
proof -
  obtain st0 where m: "synx_global_merge [1, 2] 3 two_and_one = (0, st0)" "waits_for st0 3 (set [1, 2])"
    "obj st0 3 = obj two_and_one 3\<lparr>g_num_child := of_nat (length [1 :: nat, 2]), g_refcount := g_refcount (obj two_and_one 3) + 1\<rparr>"
    using merge_fresh [OF two_and_one_fresh(1) _ _ two_and_one_fresh(2,3)] by auto
  have "g_status (obj st0 3) = 1" "g_refcount (obj st0 3) \<noteq> 1" by (simp_all add: m(3)) (simp_all add: two_and_one_def demo_obj active_entry_def)
  from synx_signal_race [OF _ _ _ this, of 1 2 2] m(1,2) show ?thesis by auto
qed

section \<open>Errors that are lost\<close>

text \<open>A merge whose list has an invalid index after a valid first one returns 0 although nothing is merged: every entry is what it
  was before.\<close>

theorem synx_merge_masks_error:
  assumes "ready st" and "0 < i" and "i < SYNX_GLOBAL_MAX_OBJS" and "fresh_child st i" and "\<not> synx_is_valid_idx bad"
    and "0 < p" and "p < SYNX_GLOBAL_MAX_OBJS" and "p \<noteq> i"
  shows "\<exists>st'. synx_global_merge (i # bad # rest) p st = (SYNX_SUCCESS, st') \<and> (\<forall>j. j \<noteq> 0 \<longrightarrow> obj st' j = obj st j)"
proof -
  let ?ps = "[of_nat p, 0, 0, 0] :: u16 list"
  let ?st1 = "put_obj i (obj st i\<lparr>g_parents := ?ps\<rparr>) (settle st)"
  let ?st2 = "put_obj i (obj st i) (settle ?st1)"
  have v: "synx_is_valid_idx i" "synx_is_valid_idx p" using assms(3,7) by (simp_all add: synx_is_valid_idx_def)
  have len: "length (table st) = SYNX_GLOBAL_MAX_OBJS" using assms(1) by (rule ready_table)
  have zero: "g_parents (obj st i) = [0, 0, 0, 0]" using assms(4) by (simp add: fresh_child_def no_parents_def)
  have loop: "merge_loop (i # bad # rest) p (- SYNX_INVALID) 0 SYNX_STATE_ACTIVE st = (Inl (0, 1), ?st1)"
    using v(1) assms(5) by (simp add: merge_loop_Cons merge_body_fresh [OF assms(1,4)])
  have o1: "obj ?st1 i = obj st i\<lparr>g_parents := ?ps\<rparr>" using len assms(2,3) by (simp add: obj_put)
  have "clear_parent p ?ps = [0, 0, 0, 0]" using unat_u16 [OF assms(7)] by (simp add: clear_parent_def upt_rec)
  then have rest: "obj ?st1 i\<lparr>g_parents := clear_parent p (g_parents (obj ?st1 i))\<rparr> = obj st i" by (simp add: o1 zero [symmetric])
  have "merge_cleanup 1 (i # bad # rest) p ?st1 = ?st2"
    using merge_cleanup_ready [of ?st1 "i # bad # rest" 0 p] assms(1-3) rest by simp
  then have "synx_global_merge (i # bad # rest) p st = (0, ?st2)"
    using assms(1) v(2) loop by (simp add: synx_global_merge_def ready_def)
  moreover have "obj ?st2 j = obj st j" if "j \<noteq> 0" for j using that len assms(3) by (simp add: obj_put settle_obj)
  ultimately show ?thesis by blast
qed

lemma synx_merge_masks_error_witness:
  "\<exists>st'. synx_global_merge [1, 5000] 3 two_and_one = (0, st') \<and> obj st' 3 = obj two_and_one 3"
proof -
  have "fresh_child two_and_one 1" using two_and_one_fresh(2) by simp
  from synx_merge_masks_error [OF two_and_one_fresh(1) _ _ this, of 5000 3 "[]"] show ?thesis by (auto simp: synx_is_valid_idx_def)
qed

text \<open>When the hardware lock times out, the status of an entry is reported as the unsigned image of the error code: a value above all states
  that callers take for a signalled status, whatever the entry holds.\<close>

theorem synx_status_timeout:
  assumes "mapped st" and "hwlock st" and "lock_busy st (lock_tries st)" and "synx_is_valid_idx idx"
  shows "fst (synx_global_get_status idx st) = 4294967186 \<and> fst (synx_global_get_status idx st) > SYNX_STATE_ACTIVE \<and>
    table (snd (synx_global_get_status idx st)) = table st"
proof -
  have "u32_of_rc (- SYNX_TIMEOUT) = 4294967186" by (simp add: u32_of_rc_def)
  moreover have "(4294967186 :: u32) > SYNX_STATE_ACTIVE" by (simp add: word_less_nat_alt)
  ultimately show ?thesis using assms by (simp only: synx_global_get_status_def with_gmem_def synx_gmem_lock_def Let_def) simp
qed

lemma synx_status_timeout_witness:
  "fst (synx_global_get_status 1 (two_and_one\<lparr>lock_busy := (\<lambda>_. True)\<rparr>)) = 4294967186"
  using synx_status_timeout [of "two_and_one\<lparr>lock_busy := (\<lambda>_. True)\<rparr>" 1] by (simp add: two_and_one_def synx_is_valid_idx_def)

section \<open>Handles\<close>

text \<open>Without interference of other cores an allocation takes the first free index.\<close>

definition quiet :: "synx_shared_mem \<Rightarrow> bool" where
  "quiet st \<longleftrightarrow> (\<forall>n b. other_cores st n b = b)"

definition with_bit :: "nat \<Rightarrow> u32 list \<Rightarrow> u32 list" where
  "with_bit i bm = bm[i div 32 := bm ! (i div 32) OR push_bit (i mod 32) 1]"

definition without_bit :: "nat \<Rightarrow> u32 list \<Rightarrow> u32 list" where
  "without_bit i bm = bm[i div 32 := bm ! (i div 32) AND NOT (push_bit (i mod 32) 1)]"

lemma clear_index_quiet:
  assumes "quiet st" "length (bitmap st) = 128" "i < SYNX_GLOBAL_MAX_OBJS"
  shows "clear_index i st = st\<lparr>bitmap := without_bit i (bitmap st), atomics := atomics st + 1\<rparr>"
  using assms(1,2) div_32 [OF assms(3)]
  by (simp add: clear_index_def ipclite_global_test_and_clear_bit_def atomic_access_def Let_def quiet_def without_bit_def)

lemma without_with_bit:
  assumes "length bm = 128" "i < SYNX_GLOBAL_MAX_OBJS" "\<not> bitmap_bit bm i"
  shows "without_bit i (with_bit i bm) = bm"
proof -
  have "\<not> bit (bm ! (i div 32)) (i mod 32)" using assms div_32 [OF assms(2)] by (simp add: bitmap_bit_def)
  then have "(bm ! (i div 32) OR push_bit (i mod 32) 1) AND NOT (push_bit (i mod 32) 1) = bm ! (i div 32)"
    by (intro bit_eqI) (auto simp: bit_simps)
  then show ?thesis using assms(1) div_32 [OF assms(2)] by (simp only: with_bit_def without_bit_def) (simp add: list_update_same)
qed

lemma alloc_quiet:
  assumes "quiet st" "length (bitmap st) = 128" "mapped st"
  defines "i \<equiv> find_first_zero_bit (bitmap st) SYNX_GLOBAL_MAX_OBJS"
  assumes "i < SYNX_GLOBAL_MAX_OBJS"
  shows "synx_global_alloc_index False st = Some (0, Some i, st\<lparr>bitmap := with_bit i (bitmap st), atomics := atomics st + 1\<rparr>)"
proof -
  have "\<not> bitmap_bit (bitmap st) i" using assms(5) find_first_zero_bit_found unfolding i_def by blast
  then have "\<not> bit (bitmap st ! (i div 32)) (i mod 32)" using assms(2) div_32 [OF assms(5)] by (simp add: bitmap_bit_def)
  moreover have "polite st" using assms(1) by (simp add: quiet_def polite_def)
  moreover have "other_cores st (atomics st) (bitmap st) = bitmap st" using assms(1) by (simp add: quiet_def)
  ultimately have "alloc_loop st = Some (0, Some i, st\<lparr>bitmap := with_bit i (bitmap st), atomics := atomics st + 1\<rparr>)"
    using test_and_set_index [OF assms(2) _ assms(5)] assms(5) unfolding i_def with_bit_def
    by (subst alloc_loop.simps) (simp only: Let_def, simp)
  then show ?thesis using assms(3) by (simp add: synx_global_alloc_index_def)
qed

lemma encode_handle_index:
  assumes "i < SYNX_GLOBAL_MAX_OBJS"
  shows "handle_index (synx_encode_handle i SYNX_CORE_APSS True) = i"
proof -
  let ?i = "of_nat i :: u32"
  have u: "unat ?i = i" using assms by (simp add: unat_of_nat take_bit_nat_eq_self)
  have "take_bit 16 ?i = ?i" using assms u by (intro word_unat_eq_iff [THEN iffD2]) (simp add: unsigned_take_bit_eq take_bit_nat_eq_self)
  then have "take_bit 16 (push_bit 16 (push_bit 4 1) OR ?i :: u32) = ?i" by (simp add: take_bit_or take_bit_push_bit del: push_bit_numeral)
  moreover have "(0xFFFF :: u32) = mask 16" by (simp add: mask_eq_exp_minus_1)
  ultimately have "(push_bit 16 (push_bit 4 1) OR ?i) AND 0xFFFF = ?i" by (simp only: take_bit_eq_mask)
  then show ?thesis using assms u by (simp add: handle_index_def synx_encode_handle_def)
qed

text \<open>The entry of a new handle.\<close>

lemma init_new:
  assumes "ready st" "0 < i" "i < SYNX_GLOBAL_MAX_OBJS" "obj st i = zero_coredata" "handle_index h = i"
  shows "synx_global_init_coredata h st = (0, put_obj i (active_entry h) (settle st))"
proof -
  have "with_gmem i (\<lambda>rc. rc) (init_section h i) st = (0, put_obj i (active_entry h) (settle st))"
    using assms by (simp add: with_gmem_ready init_section_def Let_def enter_obj upd_obj_put ready_table put_enter_unlock active_entry_def)
  then show ?thesis using assms by (simp add: synx_global_init_coredata_def ready_def synx_is_valid_idx_def)
qed

lemma alloc_new:
  assumes "ready st" "quiet st"
  defines "i \<equiv> find_first_zero_bit (bitmap st) SYNX_GLOBAL_MAX_OBJS"
  defines "h \<equiv> synx_encode_handle i SYNX_CORE_APSS True"
  assumes "0 < i" "i < SYNX_GLOBAL_MAX_OBJS" "obj st i = zero_coredata"
  shows "synx_alloc_global_handle st =
    Some (0, Some h, put_obj i (active_entry h) (settle (st\<lparr>bitmap := with_bit i (bitmap st), atomics := atomics st + 1\<rparr>)))"
proof -
  let ?s = "st\<lparr>bitmap := with_bit i (bitmap st), atomics := atomics st + 1\<rparr>"
  have "length (bitmap st) = 128" "mapped st" using assms(1) by (simp_all add: ready_def sized_def)
  then have a: "synx_global_alloc_index False st = Some (0, Some i, ?s)"
    using alloc_quiet [OF assms(2)] assms(6) unfolding i_def by blast
  have "ready ?s" using assms(1) by (simp add: ready_def sized_def with_bit_def)
  moreover have "obj ?s i = zero_coredata" using assms(7) by simp
  ultimately have "synx_global_init_coredata h ?s = (0, put_obj i (active_entry h) (settle ?s))"
    using init_new assms(5,6) encode_handle_index [OF assms(6)] unfolding h_def by blast
  then show ?thesis by (simp add: synx_alloc_global_handle_def a h_def Let_def)
qed

lemma put_last_ref:
  assumes "ready st" "0 < i" "i < SYNX_GLOBAL_MAX_OBJS" "g_refcount (obj st i) = 1"
  shows "synx_global_put_ref i st = clear_index i (put_obj i zero_coredata (settle st))"
proof -
  let ?body = "\<lambda>s. case drop_ref (obj s i) of (g, clear) \<Rightarrow> (clear, upd_obj i (\<lambda>_. g) s)"
  have "?body s = (snd (drop_ref (obj s i)), put_obj i (fst (drop_ref (obj s i))) s)" if "length (table s) = SYNX_GLOBAL_MAX_OBJS" for s
    using assms(3) that by (simp add: split_beta upd_obj_put)
  from section_store [OF assms(1-3) this, of "\<lambda>_. False"]
  have "with_gmem i (\<lambda>_. False) ?body st = (snd (drop_ref (obj st i)), put_obj i (fst (drop_ref (obj st i))) (settle st))" .
  moreover have "drop_ref (obj st i) = (zero_coredata, True)" using assms(4) by (simp add: drop_ref_def)
  ultimately show ?thesis using assms(1,3) by (simp add: synx_global_put_ref_def ready_def synx_is_valid_idx_def)
qed

text \<open>C20: A new global handle takes the first free index, its entry is active with one reference, and dropping that reference gives back the
  bitmap and every entry as they were.\<close>

theorem synx_handle_roundtrip:
  assumes "ready st" and "quiet st"
  defines "i \<equiv> find_first_zero_bit (bitmap st) SYNX_GLOBAL_MAX_OBJS"
  assumes "0 < i" and "i < SYNX_GLOBAL_MAX_OBJS" and "obj st i = zero_coredata"
  shows "\<exists>h st1. synx_alloc_global_handle st = Some (0, Some h, st1) \<and> handle_index h = i \<and>
    fst (synx_global_get_status i st1) = SYNX_STATE_ACTIVE \<and> g_refcount (obj st1 i) = 1 \<and>
    bitmap (synx_global_put_ref i st1) = bitmap st \<and> (\<forall>j. j \<noteq> 0 \<longrightarrow> obj (synx_global_put_ref i st1) j = obj st j)"
proof -
  let ?h = "synx_encode_handle i SYNX_CORE_APSS True"
  let ?s = "st\<lparr>bitmap := with_bit i (bitmap st), atomics := atomics st + 1\<rparr>"
  let ?st1 = "put_obj i (active_entry ?h) (settle ?s)"
  have a: "synx_alloc_global_handle st = Some (0, Some ?h, ?st1)"
    using alloc_new [OF assms(1,2)] assms(4-6) unfolding i_def by blast
  have len: "length (table st) = SYNX_GLOBAL_MAX_OBJS" "length (bitmap st) = 128" using assms(1) by (simp_all add: ready_def sized_def)
  have free: "\<not> bitmap_bit (bitmap st) i" using assms(5) find_first_zero_bit_found unfolding i_def by blast
  have r: "ready ?st1" using assms(1) by (simp add: ready_def sized_def with_bit_def)
  have o1: "obj ?st1 i = active_entry ?h" using len assms(5) by (simp add: obj_put)
  let ?st2 = "put_obj i zero_coredata (settle ?st1)"
  have "quiet ?st2" using assms(2) by (simp add: quiet_def)
  moreover have "length (bitmap ?st2) = 128" using len by (simp add: with_bit_def)
  ultimately have p: "synx_global_put_ref i ?st1 = ?st2\<lparr>bitmap := without_bit i (bitmap ?st2), atomics := atomics ?st2 + 1\<rparr>"
    using put_last_ref [OF r assms(4,5)] clear_index_quiet [OF _ _ assms(5)] o1 by (simp add: active_entry_def)
  have "bitmap (synx_global_put_ref i ?st1) = bitmap st" unfolding p using without_with_bit [OF len(2) assms(5) free] by simp
  moreover have "obj (synx_global_put_ref i ?st1) j = obj st j" if "j \<noteq> 0" for j
    unfolding p using that len assms(5,6) by (simp add: obj_put settle_obj)
  moreover have "fst (synx_global_get_status i ?st1) = SYNX_STATE_ACTIVE"
    unfolding get_status_ready [OF r assms(4,5)] o1 by (simp add: active_entry_def)
  moreover have "g_refcount (obj ?st1 i) = 1" unfolding o1 by (simp add: active_entry_def)
  ultimately show ?thesis using a encode_handle_index [OF assms(5)] by blast
qed

lemma first_zeroI:
  assumes "i < n" "\<not> bitmap_bit bm i" "\<forall>j<i. bitmap_bit bm j"
  shows "find_first_zero_bit bm n = i"
proof -
  have "List.find (\<lambda>i. \<not> bitmap_bit bm i) [0..<n] = Some i" using assms by (simp add: find_upt_Some)
  then show ?thesis by (simp add: find_first_zero_bit_def)
qed

lemma demo_first_zero: "find_first_zero_bit (bitmap (synx_demo [active_entry 17])) SYNX_GLOBAL_MAX_OBJS = 2"
  by (rule first_zeroI) (auto simp: bitmap_bit_def synx_demo_def less_Suc_eq numeral_2_eq_2 bit_simps bit_numeral_rec)

lemma synx_handle_roundtrip_witness:
  "\<exists>h st1. synx_alloc_global_handle (synx_demo [active_entry 17]) = Some (0, Some h, st1) \<and> handle_index h = 2"
proof -
  have r: "ready (synx_demo [active_entry 17])" and q: "quiet (synx_demo [active_entry 17])" by (simp_all add: demo_ready quiet_def)
  have o: "obj (synx_demo [active_entry 17]) 2 = zero_coredata" by (simp add: demo_obj)
  from synx_handle_roundtrip [OF r q] show ?thesis unfolding demo_first_zero using o by auto
qed

section \<open>A merge that fails\<close>

text \<open>
  Entry 1 is signalled, entry 2 is active and entry 4 has all its parents: the merge of the three
  into entry 3 fails. It cleans up one entry only, the first of the list.
\<close>

definition crowded :: synx_shared_mem where
  "crowded = synx_demo [active_entry 17\<lparr>g_status := 2\<rparr>, active_entry 18, active_entry 19, active_entry 20\<lparr>g_status := 2, g_parents := [9, 9, 9, 9]\<rparr>]"

lemma crowded_obj:
  "obj crowded 1 = active_entry 17\<lparr>g_status := 2\<rparr>" "obj crowded 2 = active_entry 18" "obj crowded 3 = active_entry 19"
  "obj crowded 4 = active_entry 20\<lparr>g_status := 2, g_parents := [9, 9, 9, 9]\<rparr>"
  by (simp_all add: crowded_def demo_obj)

lemma crowded_merge:
  "\<exists>st1. synx_global_merge [1, 2, 4] 3 crowded = (- SYNX_NOMEM, st1) \<and> ready st1 \<and> quiet st1 \<and> bitmap st1 = bitmap crowded \<and>
    obj st1 2 = active_entry 18\<lparr>g_parents := [3, 0, 0, 0]\<rparr> \<and> obj st1 3 = active_entry 19"
proof -
  let ?p = "[3, 0, 0, 0] :: u16 list"
  let ?s1 = "put_obj 1 (active_entry 17\<lparr>g_status := 2, g_parents := ?p\<rparr>) (settle crowded)"
  let ?s2 = "put_obj 2 (active_entry 18\<lparr>g_parents := ?p\<rparr>) (settle ?s1)"
  let ?s3 = "put_obj 4 (active_entry 20\<lparr>g_status := 2, g_parents := [9, 9, 9, 9]\<rparr>) (settle ?s2)"
  let ?s4 = "put_obj 1 (active_entry 17\<lparr>g_status := 2\<rparr>) (settle ?s3)"
  have r: "ready crowded" by (simp add: crowded_def demo_ready)
  then have rs: "ready ?s1" "ready ?s2" "ready ?s3" "ready ?s4" by simp_all
  have len: "length (table crowded) = SYNX_GLOBAL_MAX_OBJS" using r by (rule ready_table)
  have a: "add_parent 3 [9, 9, 9, 9] = ([9, 9, 9, 9], False)" by (simp add: add_parent_def upt_rec)
  have z: "g_parents (active_entry h) = [0, 0, 0, 0]" "g_status (active_entry h) = 1" "g_num_child (active_entry h) = 0" for h
    by (simp_all add: active_entry_def)
  have v: "synx_is_valid_idx 1" "synx_is_valid_idx 2" "synx_is_valid_idx 3" "synx_is_valid_idx 4" by (simp_all add: synx_is_valid_idx_def)
  have g1: "obj crowded 1 = active_entry 17\<lparr>g_status := 2\<rparr>" and g2: "obj ?s1 2 = active_entry 18"
    and g4: "obj ?s2 4 = active_entry 20\<lparr>g_status := 2, g_parents := [9, 9, 9, 9]\<rparr>"
    and g1': "obj ?s3 1 = active_entry 17\<lparr>g_status := 2, g_parents := ?p\<rparr>"
    using len crowded_obj by (simp_all add: obj_put settle_obj)
  have b1: "with_gmem 1 Inl (merge_body 1 3 0 1) crowded = (Inr (True, 0, 2), ?s1)"
    using merge_body_ready [OF r, of 1 3 0 1] by (simp add: g1 [simplified] z add_first_parent merge_pending_def merge_status_def is_error_status_def)
  have b2: "with_gmem 2 Inl (merge_body 2 3 0 2) ?s1 = (Inr (True, 1, 2), ?s2)"
    using merge_body_ready [OF rs(1), of 2 3 0 2] by (simp add: g2 [simplified] z add_first_parent merge_pending_def merge_status_def)
  have b4: "with_gmem 4 Inl (merge_body 4 3 1 2) ?s2 = (Inr (False, 1, 2), ?s3)"
    using merge_body_ready [OF rs(2), of 4 3 1 2] by (simp add: g4 [simplified] z a merge_pending_def merge_status_def is_error_status_def)
  have loop: "merge_loop [1, 2, 4] 3 (- SYNX_INVALID) 0 SYNX_STATE_ACTIVE crowded = (Inl (- SYNX_NOMEM, 1), ?s3)"
    using v b1 b2 b4 by (simp add: merge_loop_Cons)
  have "clear_parent 3 ?p = [0, 0, 0, 0]" by (simp add: clear_parent_def upt_rec)
  moreover have "active_entry 17\<lparr>g_status := 2, g_parents := [0, 0, 0, 0]\<rparr> = active_entry 17\<lparr>g_status := 2\<rparr>" by (simp add: active_entry_def zero_coredata_def numeral_eq_Suc)
  ultimately have clean: "merge_cleanup 1 [1, 2, 4] 3 ?s3 = ?s4"
    using merge_cleanup_ready [OF rs(3), of "[1, 2, 4]" 0 3] by (simp add: g1' [simplified])
  have "synx_global_merge [1, 2, 4] 3 crowded = (- SYNX_NOMEM, ?s4)"
    using v(3) loop clean by (simp add: synx_global_merge_def crowded_def)
  moreover have "obj ?s4 2 = active_entry 18\<lparr>g_parents := ?p\<rparr>" "obj ?s4 3 = active_entry 19"
    using len crowded_obj by (simp_all add: obj_put settle_obj)
  moreover have "quiet ?s4" by (simp add: quiet_def crowded_def)
  ultimately show ?thesis using rs(4) by (intro exI [of _ ?s4]) simp
qed

text \<open>A signal runs through to a parent that waits for nobody.\<close>

lemma signal_reaches_parent:
  assumes st: "ready st" and c: "0 < c" "c < SYNX_GLOBAL_MAX_OBJS" "g_status (obj st c) = SYNX_STATE_ACTIVE" "g_num_child (obj st c) = 0"
      "g_parents (obj st c) = [of_nat p, 0, 0, 0]"
    and p: "0 < p" "p < SYNX_GLOBAL_MAX_OBJS" "p \<noteq> c" "g_num_child (obj st p) = 0" "no_parents (obj st p)" and s: "status > SYNX_STATE_ACTIVE"
  shows "\<exists>st'. synx_global_update_status c status st = Some (0, st') \<and> fst (synx_global_get_status p st') = status"
proof -
  let ?s = "settle st"
  let ?t = "log_calls (wake_calls status (signal_data (obj ?s c\<lparr>g_status := status\<rparr>)) (g_waiters (obj ?s c)))
      (put_obj c (signalled_leaf status (obj ?s c)) (settle ?s))"
  let ?u = "log_calls (wake_calls status (signal_data (obj ?t p\<lparr>g_status := status\<rparr>)) (g_waiters (obj ?t p)))
      (put_obj p (signalled_leaf status (obj ?t p)) (settle ?t))"
  have s0: "status \<noteq> 0" "status \<noteq> 1" using s by auto
  have len: "length (table st) = SYNX_GLOBAL_MAX_OBJS" using st by (rule ready_table)
  have r: "ready ?s" "ready ?t" "ready ?u" using st by simp_all
  have oc: "obj ?s c = obj st c" and op: "obj ?t p = obj st p" using c(1,2) p(1,3) len by (simp_all add: obj_put settle_obj)
  have e: "update_status_entry p status ?t = ((0, synx_global_get_parents_locked (obj ?t p)), ?u)"
    by (rule entry_leaf [OF r(2) p(1,2) _ s0(1)]) (simp only: op p(4))
  have np: "set (synx_global_get_parents_locked (obj ?t p)) \<subseteq> {0}" unfolding op by (rule no_parents_locked [OF p(5)])
  have "synx_global_update_status_core c status ?s = Some (0, ?u)"
    by (rule core_child [OF r(1) c(1,2) _ _ p(1,2) s0(1) e np]) (simp_all only: oc c(4,5))
  then have "synx_global_update_status c status st = Some (0, ?u)"
    using check_active [OF st c(1,2)] st c s by (simp add: synx_global_update_status_def ready_def synx_is_valid_idx_def not_le)
  moreover have "obj ?u p = signalled_leaf status (obj st p)" using p(2) len op by (simp add: obj_put)
  then have "fst (synx_global_get_status p ?u) = status"
    using get_status_ready [OF r(3) p(1,2)] s0(2) p(4) by (simp add: signalled_leaf_def)
  ultimately show ?thesis by blast
qed

lemma crowded_bits: "without_bit 3 (bitmap crowded) = 23 # replicate 127 0"
  by (simp add: without_bit_def crowded_def synx_demo_def)

lemma b23: "bit (23 :: u32) 0" "bit (23 :: u32) (Suc 0)" "bit (23 :: u32) 2" "\<not> bit (23 :: u32) 3"
  by (simp_all add: bit_numeral_rec)

lemma first_zero_3: "find_first_zero_bit (23 # bm) SYNX_GLOBAL_MAX_OBJS = 3"
proof (rule first_zeroI)
  show "\<not> bitmap_bit (23 # bm) 3" by (simp add: bitmap_bit_def b23)
  have "bitmap_bit (23 # bm) j" if "j < 3" for j
  proof -
    have "j = 0 \<or> j = Suc 0 \<or> j = 2" using that by arith
    then show ?thesis by (elim disjE) (simp_all add: bitmap_bit_def b23)
  qed
  then show "\<forall>j<3. bitmap_bit (23 # bm) j" by blast
qed simp

text \<open>After a merge fails, its clean-up counts the pending entries and not the entries it has changed, so an active entry further down the list
  keeps the composite entry as its parent: when the composite entry is released and its index goes to a new handle, the signal of the old
  entry signals the new handle, which nobody has signalled.\<close>

theorem synx_failed_merge_signals_stranger:
  "\<exists>st1 h st2 st3. synx_global_merge [1, 2, 4] 3 crowded = (- SYNX_NOMEM, st1) \<and>
    synx_alloc_global_handle (synx_global_put_ref 3 st1) = Some (0, Some h, st2) \<and> handle_index h = 3 \<and>
    fst (synx_global_get_status 3 st2) = SYNX_STATE_ACTIVE \<and> synx_global_update_status 2 SYNX_STATE_SIGNALED_SUCCESS st2 = Some (0, st3) \<and>
    fst (synx_global_get_status 3 st3) = SYNX_STATE_SIGNALED_SUCCESS"
proof -
  obtain st1 where m: "synx_global_merge [1, 2, 4] 3 crowded = (- SYNX_NOMEM, st1)" "ready st1" "quiet st1" "bitmap st1 = bitmap crowded"
    "obj st1 2 = active_entry 18\<lparr>g_parents := [3, 0, 0, 0]\<rparr>" "obj st1 3 = active_entry 19" using crowded_merge by blast
  let ?p = "put_obj 3 zero_coredata (settle st1)"
  let ?s = "?p\<lparr>bitmap := without_bit 3 (bitmap crowded), atomics := atomics ?p + 1\<rparr>"
  have len: "length (table st1) = SYNX_GLOBAL_MAX_OBJS" "length (bitmap crowded) = 128"
    using m(2) by (simp_all add: ready_def sized_def crowded_def)
  have "quiet ?p" using m(3) by (simp add: quiet_def)
  then have put: "synx_global_put_ref 3 st1 = ?s"
    using put_last_ref [OF m(2), of 3] m(4,6) len clear_index_quiet [of ?p 3] by (simp add: active_entry_def)
  have s: "ready ?s" "quiet ?s" using m(2,3) len by (simp_all add: ready_def sized_def quiet_def without_bit_def)
  have os: "obj ?s j = (if j = 3 then zero_coredata else obj st1 j)" if "j \<noteq> 0" for j
    using len that by (simp add: obj_put settle_obj)
  have zero: "find_first_zero_bit (bitmap ?s) SYNX_GLOBAL_MAX_OBJS = 3" using first_zero_3 by (simp add: crowded_bits)
  let ?h = "synx_encode_handle 3 SYNX_CORE_APSS True"
  let ?s2 = "put_obj 3 (active_entry ?h) (settle (?s\<lparr>bitmap := with_bit 3 (bitmap ?s), atomics := atomics ?s + 1\<rparr>))"
  have alloc: "synx_alloc_global_handle ?s = Some (0, Some ?h, ?s2)" using alloc_new [OF s] os [of 3] unfolding zero by simp
  have r2: "ready ?s2" using s(1) by (simp add: ready_def sized_def with_bit_def)
  have g3: "obj ?s2 3 = active_entry ?h" and g2: "obj ?s2 2 = active_entry 18\<lparr>g_parents := [3, 0, 0, 0]\<rparr>"
    using len os [of 2] m(5) by (simp_all add: obj_put settle_obj)
  have active: "fst (synx_global_get_status 3 ?s2) = SYNX_STATE_ACTIVE"
    using get_status_ready [OF r2, of 3] unfolding g3 by (simp add: active_entry_def)
  obtain st3 where "synx_global_update_status 2 SYNX_STATE_SIGNALED_SUCCESS ?s2 = Some (0, st3)" "fst (synx_global_get_status 3 st3) = SYNX_STATE_SIGNALED_SUCCESS"
    using signal_reaches_parent [OF r2, of 2 3 SYNX_STATE_SIGNALED_SUCCESS] unfolding g2 g3 by (auto simp: active_entry_def no_parents_def)
  then show ?thesis
    using m(1) put alloc active encode_handle_index [of 3] by (intro exI [of _ st1] exI [of _ ?h] exI [of _ ?s2] exI [of _ st3] conjI) simp_all
qed

end
