(* ===== verification/Synx_Recover.thy ===== *)
theory Synx_Recover
  imports Synx_Claims
begin

text \<open>
  Recovery after the crash of a core: what the signals of the recovery leave alone, entry by entry,
  and what the loop over the entries in use achieves.
\<close>

section \<open>Entries that are kept\<close>

text \<open>An entry without subscribers that is not active needs no recovery.\<close>

definition dead :: "synx_global_coredata \<Rightarrow> bool" where
  "dead g \<longleftrightarrow> g_subscribers g = 0 \<and> g_status g \<noteq> SYNX_STATE_ACTIVE"

text \<open>What a signal that passes an entry leaves of it.\<close>

definition kept :: "synx_global_coredata \<Rightarrow> synx_global_coredata \<Rightarrow> bool" where
  "kept g g' \<longleftrightarrow> dead g' \<or>
     (g_subscribers g' = g_subscribers g \<and> (g_refcount g \<noteq> 0 \<longrightarrow> g_refcount g' \<noteq> 0) \<and>
      (g_status g \<noteq> SYNX_STATE_ACTIVE \<longrightarrow> g_status g' \<noteq> SYNX_STATE_ACTIVE) \<and> (g_num_child g = 0 \<longrightarrow> g_num_child g' = 0))"

text \<open>What the whole recovery leaves of an entry.\<close>

definition worn :: "synx_global_coredata \<Rightarrow> synx_global_coredata \<Rightarrow> bool" where
  "worn g g' \<longleftrightarrow> (\<forall>b. bit (g_subscribers g') b \<longrightarrow> bit (g_subscribers g) b) \<and>
     (g_status g \<noteq> SYNX_STATE_ACTIVE \<longrightarrow> g_status g' \<noteq> SYNX_STATE_ACTIVE)"

definition kept_mem :: "synx_shared_mem \<Rightarrow> synx_shared_mem \<Rightarrow> bool" where
  "kept_mem st st' \<longleftrightarrow> (\<forall>i. 0 < i \<longrightarrow> i < SYNX_GLOBAL_MAX_OBJS \<longrightarrow> kept (obj st i) (obj st' i) \<and>
     (bitmap_bit (bitmap st) i \<longrightarrow> bitmap_bit (bitmap st') i \<or> dead (obj st' i)))"

lemma dead_zero [simp]: "dead zero_coredata" by (simp add: dead_def)
lemma kept_refl [simp]: "kept g g" by (simp add: kept_def)
lemma kept_dead: "kept g g' \<Longrightarrow> dead g \<Longrightarrow> dead g'" by (auto simp: kept_def dead_def)
lemma kept_trans: "kept g g' \<Longrightarrow> kept g' g'' \<Longrightarrow> kept g g''"
  unfolding kept_def [of g g''] using kept_dead [of g' g''] by (auto simp: kept_def)
lemma kept_worn: "kept g g' \<Longrightarrow> worn g g'" by (auto simp: kept_def dead_def worn_def)
lemma worn_trans: "worn g g' \<Longrightarrow> worn g' g'' \<Longrightarrow> worn g g''" by (auto simp: worn_def)
lemma worn_dead: "worn g g' \<Longrightarrow> dead g \<Longrightarrow> dead g'" by (auto simp: worn_def dead_def bit_eq_iff)

lemma kept_mem_refl [simp]: "kept_mem st st" by (simp add: kept_mem_def)

lemma kept_mem_trans: "kept_mem st st' \<Longrightarrow> kept_mem st' st'' \<Longrightarrow> kept_mem st st''"
  unfolding kept_mem_def using kept_trans kept_dead by blast

lemma kept_memI:
  assumes "\<And>i. 0 < i \<Longrightarrow> i < SYNX_GLOBAL_MAX_OBJS \<Longrightarrow> kept (obj st i) (obj st' i)"
    and "\<And>i. 0 < i \<Longrightarrow> i < SYNX_GLOBAL_MAX_OBJS \<Longrightarrow> bitmap_bit (bitmap st) i \<Longrightarrow> bitmap_bit (bitmap st') i \<or> dead (obj st' i)"
  shows "kept_mem st st'"
  using assms by (simp add: kept_mem_def)

section \<open>An update keeps the other entries\<close>

lemma kept_drop_ref:
  assumes "g_subscribers g' = g_subscribers g" "g_refcount g' = g_refcount g" "g_num_child g \<noteq> 0 \<or> g_num_child g' = 0"
    and "g_status g \<noteq> SYNX_STATE_ACTIVE \<longrightarrow> g_status g' \<noteq> SYNX_STATE_ACTIVE"
  shows "kept g (fst (drop_ref g'))"
  using assms by (auto simp: drop_ref_def kept_def)

lemma update_section_kept:
  assumes "status \<noteq> SYNX_STATE_ACTIVE"
  obtains g data cores parents clear where
    "update_status_section idx status st = ((data, cores, parents, clear), upd_obj idx (\<lambda>_. g) st)"
    "kept (obj st idx) g" "clear \<Longrightarrow> g = zero_coredata" "g_num_child (obj st idx) = 0 \<Longrightarrow> g_status g \<noteq> SYNX_STATE_ACTIVE"
proof (cases "g_num_child (obj st idx) = 0")
  case True
  let ?g = "signalled_leaf status (obj st idx)"
  from True have "\<exists>data cores parents. update_status_section idx status st = ((data, cores, parents, False), upd_obj idx (\<lambda>_. ?g) st)"
    by (simp add: update_status_section_def Let_def synx_global_get_waiting_cores_locked_def signalled_leaf_def)
  moreover have "kept (obj st idx) ?g" "g_status ?g \<noteq> SYNX_STATE_ACTIVE" using assms by (simp_all add: kept_def signalled_leaf_def)
  ultimately show ?thesis using that by blast
next
  case composite: False
  define g where "g = counted_child status (obj st idx)"
  have g: "g_subscribers g = g_subscribers (obj st idx)" "g_refcount g = g_refcount (obj st idx)"
    "g_status (obj st idx) \<noteq> SYNX_STATE_ACTIVE \<longrightarrow> g_status g \<noteq> SYNX_STATE_ACTIVE"
    using assms by (simp_all add: g_def counted_child_def next_status_def)
  have eq: "(if g_status h = SYNX_STATE_ACTIVE \<or> is_error_status status then h\<lparr>g_num_child := n, g_status := status\<rparr> else h\<lparr>g_num_child := n\<rparr>) =
     h\<lparr>g_num_child := n, g_status := next_status status (g_status h)\<rparr>" for h n by (rule counted_child_eq)
  show ?thesis
  proof (cases "g_num_child g = 0")
    case True
    define h where "h = drop_ref (g\<lparr>g_waiters := 0\<rparr>)"
    have "kept (obj st idx) (fst h)" unfolding h_def by (rule kept_drop_ref) (use g composite in simp_all)
    moreover have "snd h \<Longrightarrow> fst h = zero_coredata" by (auto simp: h_def drop_ref_def split: if_splits)
    moreover have "update_status_section idx status st =
        ((signal_data g, fst (synx_global_get_waiting_cores_locked g (replicate SYNX_CORE_MAX False)),
          synx_global_get_parents_locked (g\<lparr>g_waiters := 0\<rparr>), snd h), upd_obj idx (\<lambda>_. fst h) st)"
      using composite True unfolding update_status_section_def Let_def h_def g_def
      by (simp add: eq counted_child_def synx_global_get_waiting_cores_locked_def split_beta)
    ultimately show ?thesis using that composite by blast
  next
    case False
    have "kept (obj st idx) g" using g composite by (simp add: kept_def)
    moreover have "update_status_section idx status st =
        ((0, replicate SYNX_CORE_MAX False, replicate SYNX_GLOBAL_MAX_PARENTS 0, False), upd_obj idx (\<lambda>_. g) st)"
      using composite False unfolding update_status_section_def Let_def g_def
      by (simp add: eq counted_child_def)
    ultimately show ?thesis using that composite by blast
  qed
qed

text \<open>Nobody interferes: the lock is free and never times out, and the other cores leave the bitmap alone.\<close>

definition calm :: "synx_shared_mem \<Rightarrow> bool" where
  "calm st \<longleftrightarrow> ready st \<and> quiet st"

lemma calm_put [simp]: "calm (put_obj i g st) = calm st" by (simp add: calm_def quiet_def)
lemma calm_settle [simp]: "calm (settle st) = calm st" by (simp add: calm_def quiet_def)
lemma calm_call [simp]: "calm (call c st) = calm st" by (simp add: calm_def quiet_def)

lemma calm_clear:
  assumes "calm st" "i < SYNX_GLOBAL_MAX_OBJS"
  shows "calm (clear_index i st)" "obj (clear_index i st) = obj st"
    "0 < j \<Longrightarrow> bitmap_bit (bitmap (clear_index i st)) j = (j \<noteq> i \<and> bitmap_bit (bitmap st) j)"
proof -
  have b: "length (bitmap st) = 128" using assms by (simp add: calm_def ready_def sized_def)
  note c = clear_index_quiet [of st i, OF _ b assms(2)]
  have q: "quiet st" using assms by (simp add: calm_def)
  show "calm (clear_index i st)" using assms b q by (simp add: c calm_def ready_def sized_def quiet_def without_bit_def)
  show "obj (clear_index i st) = obj st" using q by (simp add: c)
  show "bitmap_bit (bitmap (clear_index i st)) j = (j \<noteq> i \<and> bitmap_bit (bitmap st) j)"
    using q b div_32 [OF assms(2)] bitmap_bit_clear [of i "bitmap st" j] by (simp add: c without_bit_def)
qed

lemma notify_cores_frame:
  "obj (notify_cores status data cores st) = obj st" "bitmap (notify_cores status data cores st) = bitmap st"
  "calm (notify_cores status data cores st) = calm st"
proof -
  have "obj (fold (\<lambda>i s. if cores ! i then call (f i) s else s) xs st) = obj st \<and>
      bitmap (fold (\<lambda>i s. if cores ! i then call (f i) s else s) xs st) = bitmap st \<and>
      calm (fold (\<lambda>i s. if cores ! i then call (f i) s else s) xs st) = calm st" for f xs
    by (induction xs arbitrary: st) simp_all
  then show "obj (notify_cores status data cores st) = obj st" "bitmap (notify_cores status data cores st) = bitmap st"
    "calm (notify_cores status data cores st) = calm st" by (simp_all add: notify_cores_def)
qed

lemma calm_enter: "calm st \<Longrightarrow> length (table (enter st)) = SYNX_GLOBAL_MAX_OBJS"
  by (simp add: calm_def ready_table)

lemma update_entry_kept:
  assumes st: "calm st" "0 < idx" "idx < SYNX_GLOBAL_MAX_OBJS" and s: "status \<noteq> SYNX_STATE_ACTIVE"
    and eq: "update_status_entry idx status st = ((rc, ps), st')"
  shows "calm st' \<and> kept_mem st st' \<and> (g_num_child (obj st idx) = 0 \<longrightarrow> g_status (obj st' idx) \<noteq> SYNX_STATE_ACTIVE)"
proof -
  have r: "ready st" using st by (simp add: calm_def)
  obtain g data cores parents clear where sec:
    "update_status_section idx status (enter st) = ((data, cores, parents, clear), upd_obj idx (\<lambda>_. g) (enter st))"
    and k: "kept (obj (enter st) idx) g" "clear \<Longrightarrow> g = zero_coredata" "g_num_child (obj (enter st) idx) = 0 \<Longrightarrow> g_status g \<noteq> SYNX_STATE_ACTIVE"
    using update_section_kept [OF s, of idx "enter st"] by metis
  let ?x = "put_obj idx g (settle st)"
  let ?y = "if clear then clear_index idx ?x else ?x"
  have x: "synx_gmem_unlock idx (upd_obj idx (\<lambda>_. g) (enter st)) = ?x"
    using st r calm_enter [OF st(1)] by (simp add: upd_obj_put put_enter_unlock)
  have cx: "calm ?x" using st(1) by simp
  have st': "st' = notify_cores status data cores ?y"
    using eq by (simp add: update_status_entry_def with_gmem_ready [OF r] sec x)
  have ox: "obj ?x j = (if j = idx then g else obj st j)" if "0 < j" for j
    using that st ready_table [OF r] by (simp add: obj_put settle_obj)
  have oy: "obj ?y = obj ?x" using calm_clear(2) [OF cx st(3)] by simp
  have bts: "bitmap_bit (bitmap st) j \<longrightarrow> bitmap_bit (bitmap ?y) j \<or> dead (obj ?y j)" if "0 < j" for j
    using calm_clear(3) [OF cx st(3) that] ox [OF that] k(2) oy by auto
  have "kept_mem st ?y"
    using k(1) bts by (intro kept_memI) (simp_all add: oy ox enter_obj st(2) del: if_split_asm)
  moreover have "calm ?y" using cx calm_clear(1) [OF cx st(3)] by simp
  ultimately show ?thesis using k(3) st(2)
    by (simp add: st' notify_cores_frame oy ox enter_obj kept_mem_def)
qed

text \<open>The invariant of the recovery.\<close>

definition sound :: "(nat \<Rightarrow> nat) \<Rightarrow> synx_shared_mem \<Rightarrow> bool" where
  "sound rank st \<longleftrightarrow> mem_ok rank False st \<and> calm st"

lemma each_index_kept:
  assumes "each_index f ps st = Some st'" "sound rank st" "\<forall>p\<in>set ps. p < SYNX_GLOBAL_MAX_OBJS"
    and "\<And>p s r. p \<in> set ps \<Longrightarrow> 0 < p \<Longrightarrow> f p s = Some r \<Longrightarrow> sound rank s \<Longrightarrow> sound rank (snd r) \<and> kept_mem s (snd r)"
  shows "sound rank st' \<and> kept_mem st st'"
  using assms
proof (induction ps arbitrary: st)
  case (Cons p ps)
  show ?case
  proof (cases "p = 0")
    case True
    then show ?thesis using Cons by simp
  next
    case False
    obtain r where r: "f p st = Some r" "each_index f ps (snd r) = Some st'"
      using Cons.prems(1) False by (auto simp: Option.bind_eq_Some_conv)
    have "sound rank (snd r) \<and> kept_mem st (snd r)" using Cons.prems(4) [OF _ _ r(1) Cons.prems(2)] False by simp
    moreover from this have "sound rank st' \<and> kept_mem (snd r) st'" using Cons.IH [OF r(2)] Cons.prems(3,4) by auto
    ultimately show ?thesis using kept_mem_trans by blast
  qed
qed simp

lemma update_core_kept:
  assumes "synx_global_update_status_core idx status st = Some r"
  shows "status \<noteq> SYNX_STATE_ACTIVE \<longrightarrow> 0 < idx \<longrightarrow> idx < SYNX_GLOBAL_MAX_OBJS \<longrightarrow> sound rank st \<longrightarrow>
    sound rank (snd r) \<and> kept_mem st (snd r) \<and> (g_num_child (obj st idx) = 0 \<longrightarrow> g_status (obj (snd r) idx) \<noteq> SYNX_STATE_ACTIVE)"
proof (rule synx_global_update_status_core.raw_induct [OF _ assms], goal_cases)
  case (1 f idx status st r)
  obtain rc parents st1 where e: "update_status_entry idx status st = ((rc, parents), st1)" by (metis prod.collapse)
  obtain st2 where st2: "each_index (\<lambda>p s. f p status s) parents st1 = Some st2" "r = (rc, st2)"
    using 1(2) by (auto simp: e Option.bind_eq_Some_conv)
  show ?case
  proof (intro impI)
    assume s: "status \<noteq> SYNX_STATE_ACTIVE" and i: "0 < idx" "idx < SYNX_GLOBAL_MAX_OBJS" and st: "sound rank st"
    have m: "mem_ok rank False st1" "edge_to rank idx parents"
      using update_entry_ok [OF _ i(2) e, of rank] st by (simp_all add: sound_def)
    have k: "calm st1" "kept_mem st st1" "g_num_child (obj st idx) = 0 \<longrightarrow> g_status (obj st1 idx) \<noteq> SYNX_STATE_ACTIVE"
      using update_entry_kept [OF _ i s e] st by (simp_all add: sound_def)
    have "\<forall>p\<in>set parents. p < SYNX_GLOBAL_MAX_OBJS" using m(2) by (auto simp: edge_to_def)
    moreover have "sound rank (snd r) \<and> kept_mem s (snd r)"
      if "p \<in> set parents" "0 < p" "f p status s = Some r" "sound rank s" for p s r
      using 1(1) [OF that(3)] that(1,2,4) m(2) \<open>status \<noteq> SYNX_STATE_ACTIVE\<close> by (auto simp: edge_to_def)
    ultimately have l: "sound rank st2 \<and> kept_mem st1 st2"
      using each_index_kept [OF st2(1)] m(1) k(1) by (simp add: sound_def)
    then have "kept (obj st1 idx) (obj st2 idx)" using i by (simp add: kept_mem_def)
    then show "sound rank (snd r) \<and> kept_mem st (snd r) \<and> (g_num_child (obj st idx) = 0 \<longrightarrow> g_status (obj (snd r) idx) \<noteq> SYNX_STATE_ACTIVE)"
      using l k(2,3) kept_mem_trans by (auto simp: st2(2) kept_def dead_def)
  qed
qed

lemma update_status_kept:
  assumes u: "synx_global_update_status idx status st = Some (rc, st')" and i: "0 < idx" "idx < SYNX_GLOBAL_MAX_OBJS" and st: "sound rank st"
  shows "sound rank st' \<and> kept_mem st st' \<and>
    (SYNX_STATE_ACTIVE < status \<and> g_num_child (obj st idx) = 0 \<longrightarrow> g_status (obj st' idx) \<noteq> SYNX_STATE_ACTIVE)"
proof (cases "status \<le> SYNX_STATE_ACTIVE")
  case True
  then show ?thesis using u st by (auto simp: synx_global_update_status_def sound_def mem_ok_def split: if_splits)
next
  case False
  have r: "ready st" "mem_ok rank False st" using st by (simp_all add: sound_def calm_def)
  have c: "update_status_check idx st =
    (if g_num_child (obj st idx) \<noteq> 0 then Inl 0 else if g_status (obj st idx) \<noteq> SYNX_STATE_ACTIVE then Inl (- SYNX_ALREADY) else Inr (),
     settle st)" by (rule check_active [OF r(1) i])
  have "mem_ok rank False (snd (update_status_check idx st))" unfolding update_status_check_def by (rule mem_ok_section [OF r(2)]) auto
  then have s: "sound rank (settle st)" using st by (simp add: c sound_def)
  have k: "kept_mem st (settle st)" by (rule kept_memI) (simp_all add: settle_obj)
  have o: "obj (settle st) idx = obj st idx" using i by (simp add: settle_obj)
  have m: "mapped st" using r(1) by (simp add: ready_def)
  show ?thesis
  proof (cases "g_num_child (obj st idx) = 0 \<and> g_status (obj st idx) = SYNX_STATE_ACTIVE")
    case True
    then have "synx_global_update_status_core idx status (settle st) = Some (rc, st')"
      using u False i by (simp add: synx_global_update_status_def m c synx_is_valid_idx_def)
    from update_core_kept [OF this, of rank] show ?thesis using i s k False kept_mem_trans by (auto simp: o)
  next
    case skip: False
    then have "st' = settle st" using u False i by (auto simp: synx_global_update_status_def m c synx_is_valid_idx_def split: if_splits)
    then show ?thesis using s k skip by (auto simp: o)
  qed
qed

section \<open>The loop over the entries\<close>

lemma recover_section_eq:
  fixes c :: nat
  assumes "sound rank st" "0 < idx" "idx < SYNX_GLOBAL_MAX_OBJS"
  defines "g \<equiv> obj st idx"
  defines "h \<equiv> drop_ref (g\<lparr>g_subscribers := g_subscribers g AND NOT (push_bit c 1)\<rparr>)"
  shows "with_gmem idx Inl (\<lambda>s. case recover_section c idx s of (r, s1) \<Rightarrow> (Inr r, s1)) st =
    (if g_refcount g \<noteq> 0 \<and> bit (g_subscribers g) c
     then (Inr (\<not> snd h \<and> g_status (fst h) = SYNX_STATE_ACTIVE, snd h), put_obj idx (fst h) (settle st))
     else (Inr (False, False), settle st))"
proof -
  have r: "ready st" using assms(1) by (simp add: sound_def calm_def)
  have o: "obj (enter st) idx = g" using assms(2) by (simp add: enter_obj g_def)
  have len: "idx < length (table (enter st))" using assms(3) r by (simp add: ready_table)
  show ?thesis using put_enter_unlock [OF r assms(2,3)] len
    by (simp add: with_gmem_ready [OF r] recover_section_def Let_def o h_def split_beta upd_obj_put)
qed

definition recovered :: "nat \<Rightarrow> synx_global_coredata \<Rightarrow> synx_global_coredata \<Rightarrow> bool" where
  "recovered c g g' \<longleftrightarrow> \<not> bit (g_subscribers g') c \<and>
     (bit (g_subscribers g) c \<and> g_num_child g = 0 \<longrightarrow> g_status g' \<noteq> SYNX_STATE_ACTIVE)"

text \<open>One round of the loop, up to the next index.\<close>

lemma recover_round:
  assumes st: "sound rank st" and i: "0 < idx" "idx < SYNX_GLOBAL_MAX_OBJS"
    and sec: "with_gmem idx Inl (\<lambda>s. case recover_section c idx s of (r, s1) \<Rightarrow> (Inr r, s1)) st = (Inr (update, clear), st1)"
    and upd: "(if update then synx_global_update_status idx SYNX_STATE_SIGNALED_SSR st1 else Some (0, st1)) = Some (rc, st2)"
  shows "sound rank st2" "\<And>j. 0 < j \<Longrightarrow> j < SYNX_GLOBAL_MAX_OBJS \<Longrightarrow> worn (obj st j) (obj st2 j)"
    "\<And>j. idx < j \<Longrightarrow> j < SYNX_GLOBAL_MAX_OBJS \<Longrightarrow> kept (obj st j) (obj st2 j) \<and>
      (bitmap_bit (bitmap st) j \<longrightarrow> bitmap_bit (bitmap st2) j \<or> dead (obj st2 j))"
    "clear \<Longrightarrow> dead (obj st2 idx)"
    "g_refcount (obj st idx) \<noteq> 0 \<or> dead (obj st idx) \<Longrightarrow> recovered c (obj st idx) (obj st2 idx)"
proof -
  let ?g = "obj st idx"
  define g0 where "g0 = ?g\<lparr>g_subscribers := g_subscribers ?g AND NOT (push_bit c 1)\<rparr>"
  define h where "h = drop_ref g0"
  have len: "idx < length (table (settle st))" using st i by (simp add: sound_def calm_def ready_table)
  let ?hit = "g_refcount ?g \<noteq> 0 \<and> bit (g_subscribers ?g) c"
  have eq: "update \<longleftrightarrow> ?hit \<and> \<not> snd h \<and> g_status (fst h) = SYNX_STATE_ACTIVE" "clear \<longleftrightarrow> ?hit \<and> snd h"
    "st1 = (if ?hit then put_obj idx (fst h) (settle st) else settle st)"
    using sec unfolding recover_section_eq [OF st i] by (auto simp: h_def g0_def split: if_splits)
  have o: "obj st1 j = (if j = idx \<and> ?hit then fst h else obj st j)" if "0 < j" for j
    using that len by (simp add: eq(3) obj_put settle_obj)
  have b1: "bitmap st1 = bitmap st" by (simp add: eq(3))
  have hz: "snd h \<Longrightarrow> fst h = zero_coredata" "\<not> snd h \<Longrightarrow> fst h = g0\<lparr>g_refcount := g_refcount g0 - 1\<rparr>"
    by (auto simp: h_def drop_ref_def split: if_splits)
  have nosub: "\<not> bit (g_subscribers (fst h)) c" using hz by (cases "snd h") (simp_all add: g0_def bit_simps)
  have wh: "worn ?g (fst h)" using hz by (cases "snd h") (auto simp: worn_def g0_def bit_simps)
  have "mem_ok rank False (snd (with_gmem idx Inl (\<lambda>s. case recover_section c idx s of (r, s1) \<Rightarrow> (Inr r, s1)) st))"
    by (rule mem_ok_section) (use st recover_section_ok [OF _ i(2)] in \<open>simp_all add: sound_def split_beta\<close>)
  then have s1: "sound rank st1" using st by (simp add: sec sound_def) (simp add: eq(3))
  have k: "sound rank st2 \<and> kept_mem st1 st2 \<and> (update \<and> g_num_child (obj st1 idx) = 0 \<longrightarrow> g_status (obj st2 idx) \<noteq> SYNX_STATE_ACTIVE)"
    using update_status_kept [OF _ i s1, of SYNX_STATE_SIGNALED_SSR rc st2] upd s1 by (auto split: if_splits)
  show "sound rank st2" using k by blast
  have k12: "kept (obj st1 j) (obj st2 j)" if "0 < j" "j < SYNX_GLOBAL_MAX_OBJS" for j
    using k that by (simp add: kept_mem_def)
  show w: "worn (obj st j) (obj st2 j)" if "0 < j" "j < SYNX_GLOBAL_MAX_OBJS" for j
    using kept_worn [OF k12 [OF that]] worn_trans [OF wh] by (auto simp: o [OF that(1)] split: if_splits)
  show "kept (obj st j) (obj st2 j) \<and> (bitmap_bit (bitmap st) j \<longrightarrow> bitmap_bit (bitmap st2) j \<or> dead (obj st2 j))"
    if "idx < j" "j < SYNX_GLOBAL_MAX_OBJS" for j
    using k k12 [of j] that i o [of j] by (simp add: kept_mem_def b1)
  show "clear \<Longrightarrow> dead (obj st2 idx)" using eq(2) hz(1) o [OF i(1)] kept_dead [OF k12 [OF i]] by simp
  show "recovered c ?g (obj st2 idx)" if "g_refcount ?g \<noteq> 0 \<or> dead ?g"
  proof (cases ?hit)
    case False
    then have n: "\<not> bit (g_subscribers ?g) c" using that by (auto simp: dead_def)
    then show ?thesis using w [OF i] by (auto simp: recovered_def worn_def)
  next
    case True
    then have o1: "obj st1 idx = fst h" using o [OF i(1)] by simp
    have w2: "worn (fst h) (obj st2 idx)" using kept_worn [OF k12 [OF i]] by (simp add: o1)
    have "g_status (obj st2 idx) \<noteq> SYNX_STATE_ACTIVE" if nc: "g_num_child ?g = 0"
    proof (cases update)
      case up: True
      then have "g_num_child (fst h) = 0" using eq(1) hz(2) nc by (simp add: g0_def)
      then show ?thesis using k up o1 by simp
    next
      case no: False
      then have "g_status (fst h) \<noteq> SYNX_STATE_ACTIVE" using eq(1) True hz(1) by (cases "snd h") auto
      then show ?thesis using w2 by (simp add: worn_def)
    qed
    then show ?thesis using w2 nosub by (auto simp: recovered_def worn_def)
  qed
qed

lemma find_next_bit_found:
  assumes "find_next_bit bm n k < n"
  shows "k \<le> find_next_bit bm n k" "bitmap_bit bm (find_next_bit bm n k)"
  using assms find_upt_Some [of "bitmap_bit bm" k n] by (auto simp: find_next_bit_def split: option.splits)

lemma find_next_bit_least: "k \<le> j \<Longrightarrow> j < n \<Longrightarrow> bitmap_bit bm j \<Longrightarrow> find_next_bit bm n k \<le> j"
  using find_upt_Some [of "bitmap_bit bm" k n] by (auto simp: find_next_bit_def find_None_iff not_le split: option.splits intro: leI)

lemma recover_loop_recovers:
  assumes "recover_loop c idx clear st = Some r"
  shows "\<forall>k. 0 < k \<longrightarrow> idx = find_next_bit (bitmap st) SYNX_GLOBAL_MAX_OBJS k \<longrightarrow> sound rank st \<longrightarrow>
    (case r of (rc, clear', st') \<Rightarrow> rc = 0 \<and> sound rank st' \<and> (\<forall>j. 0 < j \<longrightarrow> j < SYNX_GLOBAL_MAX_OBJS \<longrightarrow>
       worn (obj st j) (obj st' j) \<and> (clear' j \<longrightarrow> clear j \<or> dead (obj st' j)) \<and>
       (k \<le> j \<longrightarrow> bitmap_bit (bitmap st) j \<longrightarrow> g_refcount (obj st j) \<noteq> 0 \<or> dead (obj st j) \<longrightarrow> recovered c (obj st j) (obj st' j))))"
proof (rule recover_loop.raw_induct [OF _ assms], goal_cases)
  case (1 f c idx clear st r)
  show ?case
  proof (intro allI impI)
    fix k assume k: "0 < k" "idx = find_next_bit (bitmap st) SYNX_GLOBAL_MAX_OBJS k" and st: "sound rank st"
    have least: "idx \<le> j" if "k \<le> j" "j < SYNX_GLOBAL_MAX_OBJS" "bitmap_bit (bitmap st) j" for j
      using find_next_bit_least that k(2) by blast
    let ?Q = "\<lambda>r. case r of (rc, clear', st') \<Rightarrow> rc = 0 \<and> sound rank st' \<and> (\<forall>j. 0 < j \<longrightarrow> j < SYNX_GLOBAL_MAX_OBJS \<longrightarrow>
       worn (obj st j) (obj st' j) \<and> (clear' j \<longrightarrow> clear j \<or> dead (obj st' j)) \<and>
       (k \<le> j \<longrightarrow> bitmap_bit (bitmap st) j \<longrightarrow> g_refcount (obj st j) \<noteq> 0 \<or> dead (obj st j) \<longrightarrow> recovered c (obj st j) (obj st' j)))"
    show "?Q r"
    proof (cases "idx \<ge> SYNX_GLOBAL_MAX_OBJS")
      case True
      then have "r = (0, clear, st)" using 1(2) by simp
      then show ?thesis using st least True by (fastforce simp: worn_def)
    next
      case False
      then have i: "0 < idx" "idx < SYNX_GLOBAL_MAX_OBJS" using find_next_bit_found(1) [of "bitmap st" SYNX_GLOBAL_MAX_OBJS k] k by simp_all
      obtain update clr st1 where sec: "with_gmem idx Inl (\<lambda>s. case recover_section c idx s of (r, s1) \<Rightarrow> (Inr r, s1)) st = (Inr (update, clr), st1)"
        using recover_section_eq [OF st i, of c] by (auto split: if_splits)
      obtain rc2 st2 where u: "(if update then synx_global_update_status idx SYNX_STATE_SIGNALED_SSR st1 else Some (0, st1)) = Some (rc2, st2)"
        and rec: "f c (find_next_bit (bitmap st2) SYNX_GLOBAL_MAX_OBJS (idx + 1)) (if clr then clear(idx := True) else clear) st2 = Some r"
        using 1(2) False by (auto simp: sec Option.bind_eq_Some_conv)
      note round = recover_round [OF st i sec u]
      obtain rc clear' st' where r: "r = (rc, clear', st')" by (metis prod_cases3)
      have ih: "rc = 0 \<and> sound rank st' \<and> (\<forall>j. 0 < j \<longrightarrow> j < SYNX_GLOBAL_MAX_OBJS \<longrightarrow>
         worn (obj st2 j) (obj st' j) \<and> (clear' j \<longrightarrow> (if clr then clear(idx := True) else clear) j \<or> dead (obj st' j)) \<and>
         (idx + 1 \<le> j \<longrightarrow> bitmap_bit (bitmap st2) j \<longrightarrow> g_refcount (obj st2 j) \<noteq> 0 \<or> dead (obj st2 j) \<longrightarrow> recovered c (obj st2 j) (obj st' j)))"
        using 1(1) [OF rec, rule_format, OF zero_less_Suc [of idx], unfolded Suc_eq_plus1, OF refl round(1)] unfolding r prod.case by simp
      have "worn (obj st j) (obj st' j) \<and> (clear' j \<longrightarrow> clear j \<or> dead (obj st' j)) \<and>
         (k \<le> j \<longrightarrow> bitmap_bit (bitmap st) j \<longrightarrow> g_refcount (obj st j) \<noteq> 0 \<or> dead (obj st j) \<longrightarrow> recovered c (obj st j) (obj st' j))"
        if j: "0 < j" "j < SYNX_GLOBAL_MAX_OBJS" for j
      proof (intro conjI impI)
        have w: "worn (obj st2 j) (obj st' j)" using ih j by simp
        show "worn (obj st j) (obj st' j)" using round(2) [OF j] w by (rule worn_trans)
        show "clear j \<or> dead (obj st' j)" if "clear' j"
          using ih j that round(4) worn_dead [OF w] by (auto split: if_splits)
        show "recovered c (obj st j) (obj st' j)"
          if "k \<le> j" "bitmap_bit (bitmap st) j" "g_refcount (obj st j) \<noteq> 0 \<or> dead (obj st j)"
        proof (cases "j = idx")
          case True
          then show ?thesis using round(5) that(3) w by (auto simp: recovered_def worn_def)
        next
          case False
          then have ij: "idx < j" using least [OF that(1) j(2) that(2)] by simp
          show ?thesis
          proof (cases "dead (obj st2 j)")
            case True
            then show ?thesis using worn_dead [OF w] by (auto simp: recovered_def dead_def)
          next
            case False
            then have "recovered c (obj st2 j) (obj st' j)"
              using ih j ij round(3) [OF ij j(2)] that(2,3) kept_dead by (auto simp: kept_def)
            then show ?thesis using False round(3) [OF ij j(2)] by (auto simp: kept_def recovered_def)
          qed
        qed
      qed
      then show ?thesis using ih by (simp add: r)
    qed
  qed
qed

lemma give_back:
  assumes "calm st" "\<forall>i\<in>set xs. i < SYNX_GLOBAL_MAX_OBJS"
  shows "obj (fold (\<lambda>i s. if marks i then clear_index i s else s) xs st) = obj st \<and>
    calm (fold (\<lambda>i s. if marks i then clear_index i s else s) xs st)"
  using assms by (induction xs arbitrary: st) (simp_all add: calm_clear)

section \<open>Recovery of a core\<close>

text \<open>The state after the crash of a core, which may have held the hardware lock.\<close>

definition crashed :: "nat \<Rightarrow> bool \<Rightarrow> synx_shared_mem \<Rightarrow> synx_shared_mem" where
  "crashed c held st = (if held then (upd_obj 0 (\<lambda>g. g\<lparr>g_subscribers := of_nat c\<rparr>) st)\<lparr>locked := True\<rparr> else st)"

lemma crashed_obj: "0 < i \<Longrightarrow> obj (crashed c held st) i = obj st i" "bitmap (crashed c held st) = bitmap st"
  by (simp_all add: crashed_def obj_upd_obj)

lemma recover_lock_frees:
  fixes held :: bool
  assumes "mem_ok rank False st" "calm st" "c < SYNX_CORE_MAX"
  shows "sound rank (recover_lock c (call m (crashed c held st)))" (is ?sound)
    and "bitmap (recover_lock c (call m (crashed c held st))) = bitmap st"
    and "0 < i \<Longrightarrow> obj (recover_lock c (call m (crashed c held st))) i = obj st i"
proof -
  let ?s = "call m (crashed c held st)"
  have len: "0 < length (table st)" using assms(2) by (simp add: calm_def ready_table)
  have "unat (of_nat c :: u16) = c" using assms(3) by (simp add: unat_of_nat)
  then have own: "held \<Longrightarrow> unat (synx_gmem_lock_owner ?s) = c"
    using len by (simp add: synx_gmem_lock_owner_def crashed_def obj_upd_obj)
  have "mem_ok rank False (upd_obj 0 (\<lambda>g. g\<lparr>g_subscribers := of_nat c\<rparr>) st)" by (rule mem_ok_upd [OF assms(1)]) simp_all
  then have "mem_ok rank held ?s" using assms(1) by (cases held) (auto simp: crashed_def elim!: mem_ok_cong)
  moreover from this have "unat (synx_gmem_lock_owner ?s) = c \<Longrightarrow> mem_ok rank False (recover_lock c ?s)"
    using recover_lock_ok [of rank held ?s m c] by auto
  ultimately have "mem_ok rank False (recover_lock c ?s)" using own by (cases held) (auto simp: recover_lock_def)
  moreover have "calm (recover_lock c ?s)"
    using assms(2) own by (auto simp: recover_lock_def calm_def ready_def sized_def quiet_def crashed_def)
  ultimately show ?sound by (simp add: sound_def)
  show "bitmap (recover_lock c ?s) = bitmap st" by (simp add: recover_lock_def crashed_def)
  show "obj (recover_lock c ?s) i = obj st i" if "0 < i" using that by (simp add: recover_lock_def crashed_obj obj_owner)
qed

text \<open>C21: When a core has crashed, holding the hardware lock or not, the recovery of the core returns 0 and frees the lock; of every entry in use
  it takes the subscription of the core, and an entry without children that the core subscribed is not active afterwards, so its waiters do not
  wait for the crashed core; no signalled entry becomes active again.\<close>

theorem synx_recover:
  assumes "mem_ok rank False st" "calm st" "c < SYNX_CORE_MAX"
  shows "\<exists>st'. synx_global_recover True c (crashed c held st) = Some (0, st') \<and> \<not> locked st' \<and>
    (\<forall>i. 0 < i \<and> i < SYNX_GLOBAL_MAX_OBJS \<longrightarrow>
       (g_status (obj st i) \<noteq> SYNX_STATE_ACTIVE \<longrightarrow> g_status (obj st' i) \<noteq> SYNX_STATE_ACTIVE) \<and>
       (bitmap_bit (bitmap st) i \<and> g_refcount (obj st i) \<noteq> 0 \<longrightarrow>
          \<not> bit (g_subscribers (obj st' i)) c \<and>
          (bit (g_subscribers (obj st i)) c \<and> g_num_child (obj st i) = 0 \<longrightarrow> g_status (obj st' i) \<noteq> SYNX_STATE_ACTIVE)))"
proof -
  let ?s = "crashed c held st"
  let ?st1 = "recover_lock c (call (Ipclite_Recover (synx_global_map_core_id c)) ?s)"
  note start = recover_lock_frees [OF assms, where held = held and m = "Ipclite_Recover (synx_global_map_core_id c)"]
  have snd1: "sound rank ?st1" and m: "mapped ?s" using start(1) assms(1) by (simp_all add: crashed_def mem_ok_def)
  obtain rc marks st2 where l: "recover_loop c (find_next_bit (bitmap ?st1) SYNX_GLOBAL_MAX_OBJS 1) (\<lambda>_. False) ?st1 = Some (rc, marks, st2)"
    using recover_loop_ok [of rank ?st1 c "find_next_bit (bitmap ?st1) SYNX_GLOBAL_MAX_OBJS 1" "\<lambda>_. False"] snd1 that by (auto simp: sound_def)
  have loop: "rc = 0" "sound rank st2" "\<And>j. 0 < j \<Longrightarrow> j < SYNX_GLOBAL_MAX_OBJS \<Longrightarrow> worn (obj ?st1 j) (obj st2 j)"
    "\<And>j. 0 < j \<Longrightarrow> j < SYNX_GLOBAL_MAX_OBJS \<Longrightarrow> bitmap_bit (bitmap ?st1) j \<Longrightarrow> g_refcount (obj ?st1 j) \<noteq> 0 \<Longrightarrow> recovered c (obj ?st1 j) (obj st2 j)"
    using recover_loop_recovers [OF l, of rank, rule_format, OF _ refl snd1] by auto
  let ?st' = "fold (\<lambda>i s. if marks i then clear_index i s else s) [1..<SYNX_GLOBAL_MAX_OBJS] st2"
  have e: "synx_global_recover True c ?s = Some (0, ?st')" using m loop(1) by (simp add: synx_global_recover_def Let_def l del: upt.simps One_nat_def)
  have "calm st2" using loop(2) by (simp add: sound_def)
  then have b: "obj ?st' = obj st2" "calm ?st'" using give_back [of st2 "[1..<SYNX_GLOBAL_MAX_OBJS]" marks] by (simp_all del: upt.simps)
  show ?thesis
    using e b loop(3,4) start by (intro exI [of _ ?st']) (auto simp: calm_def ready_def worn_def recovered_def simp del: upt.simps)
qed

text \<open>Entry 1 is a fence of core 2, which crashes with the lock in its hands.\<close>

definition crash_demo :: synx_shared_mem where
  "crash_demo = synx_demo [active_entry 17\<lparr>g_refcount := 2, g_subscribers := 5\<rparr>]"

lemma crash_demo_ok: "mem_ok (\<lambda>_. 0) False crash_demo" "calm crash_demo"
proof -
  have "parents_ok (\<lambda>_. 0) i (g_parents (obj crash_demo i))" for i
    by (simp add: crash_demo_def demo_obj active_entry_def)
  then show "mem_ok (\<lambda>_. 0) False crash_demo" using demo_ready [of "[active_entry 17\<lparr>g_refcount := 2, g_subscribers := 5\<rparr>]"]
    by (simp add: mem_ok_def polite_def crash_demo_def ready_def)
  show "calm crash_demo" by (simp add: calm_def quiet_def crash_demo_def demo_ready)
qed

lemma synx_recover_witness:
  "\<exists>st'. synx_global_recover True 2 (crashed 2 True crash_demo) = Some (0, st') \<and> \<not> locked st' \<and>
    \<not> bit (g_subscribers (obj st' 1)) 2 \<and> g_status (obj st' 1) \<noteq> SYNX_STATE_ACTIVE"
proof -
  have "obj crash_demo 1 = active_entry 17\<lparr>g_refcount := 2, g_subscribers := 5\<rparr>" "bitmap_bit (bitmap crash_demo) 1"
    by (simp add: crash_demo_def demo_obj) (simp add: crash_demo_def synx_demo_def bitmap_bit_def bit_numeral_rec)
  moreover have "bit (5 :: u16) 2" by (simp add: bit_numeral_rec)
  ultimately show ?thesis using synx_recover [OF crash_demo_ok, of 2 True] by (auto simp: active_entry_def)
qed


end
