(* ===== verification/Synx_Effect.thy ===== *)
theory Synx_Effect
  imports Synx_Recover
begin

text \<open>
  The effect of a signal on the entries of the table, for any graph of composite entries and any
  time-outs of the hardware lock: which entries a signal may change and how.
\<close>

section \<open>The entries above an entry\<close>

definition parent_edges :: "synx_shared_mem \<Rightarrow> (nat \<times> nat) set" where
  "parent_edges st = {(i, p). p \<noteq> 0 \<and> p \<in> unat ` set (g_parents (obj st i))}"

text \<open>What a signal that passes an entry leaves of it.\<close>

definition passed :: "synx_global_coredata \<Rightarrow> synx_global_coredata \<Rightarrow> bool" where
  "passed g g' \<longleftrightarrow> (g_parents g' = g_parents g \<or> g_parents g' = [0, 0, 0, 0]) \<and> g_num_child g' \<le> g_num_child g \<and>
     (g_status g \<noteq> SYNX_STATE_ACTIVE \<longrightarrow> g_status g' \<noteq> SYNX_STATE_ACTIVE) \<and> (g_subscribers g' = g_subscribers g \<or> dead g')"

definition passes :: "synx_shared_mem \<Rightarrow> synx_shared_mem \<Rightarrow> bool" where
  "passes st st' \<longleftrightarrow> (\<forall>j>0. passed (obj st j) (obj st' j))"

lemma passed_refl [simp]: "passed g g" by (simp add: passed_def)
lemma passed_trans: "passed a b \<Longrightarrow> passed b c \<Longrightarrow> passed a c" by (auto simp: passed_def dead_def)
lemma passes_same: "\<forall>j>0. obj st' j = obj st j \<Longrightarrow> passes st st'" by (simp add: passes_def)
lemma passes_trans: "passes a b \<Longrightarrow> passes b c \<Longrightarrow> passes a c" unfolding passes_def using passed_trans by blast

lemma passes_edge: "passes st st' \<Longrightarrow> 0 < i \<Longrightarrow> (i, p) \<in> parent_edges st' \<Longrightarrow> (i, p) \<in> parent_edges st"
proof -
  assume p: "passes st st'" "0 < i" and e: "(i, p) \<in> parent_edges st'"
  have "g_parents (obj st' i) = g_parents (obj st i) \<or> g_parents (obj st' i) = [0, 0, 0, 0]" using p by (simp add: passes_def passed_def)
  then show "(i, p) \<in> parent_edges st" using e by (auto simp: parent_edges_def)
qed

lemma passes_edges:
  assumes "passes st st'" "(i, j) \<in> (parent_edges st')\<^sup>*" "0 < i"
  shows "(i, j) \<in> (parent_edges st)\<^sup>* \<and> 0 < j"
  using assms(2)
proof (induction rule: rtrancl_induct)
  case (step y z)
  then have "(y, z) \<in> parent_edges st" using passes_edge [OF assms(1)] by blast
  then show ?case using step.IH by (auto simp: parent_edges_def intro: rtrancl_into_rtrancl)
qed (use assms in simp)

lemma edges_rank:
  assumes "mem_ok rank l st" "(i, j) \<in> (parent_edges st)\<^sup>*"
  shows "rank j \<le> rank i"
  using assms(2)
proof (induction rule: rtrancl_induct)
  case (step y z)
  have "parents_ok rank y (g_parents (obj st y))" using assms(1) by (rule mem_ok_parents)
  then show ?case using step by (fastforce simp: parents_ok_def parent_edges_def)
qed simp

section \<open>The update of one entry\<close>

lemma gmem_cases:
  obtains (busy) rc st1 where "with_gmem idx fail body st = (fail rc, st1)" "rc \<noteq> 0" "\<forall>j>0. obj st1 j = obj st j"
  | (run) s where "with_gmem idx fail body st = (fst (body s), synx_gmem_unlock idx (snd (body s)))"
      "\<forall>j>0. obj s j = obj st j" "length (table s) = length (table st)"
proof (cases "hwlock st \<and> \<not> locked st \<and> \<not> lock_busy st (lock_tries st)")
  case True
  let ?s = "synx_gmem_lock_owner_set (st\<lparr>lock_tries := lock_tries st + 1, locked := True\<rparr>)"
  have "with_gmem idx fail body st = (fst (body ?s), synx_gmem_unlock idx (snd (body ?s)))"
    using True by (simp add: with_gmem_def synx_gmem_lock_def split_beta)
  then show ?thesis by (rule run) (simp_all add: obj_owner)
next
  case False
  have "\<exists>rc st1. synx_gmem_lock idx st = (rc, st1) \<and> rc \<noteq> 0 \<and> (\<forall>j>0. obj st1 j = obj st j)"
    using False by (auto simp: synx_gmem_lock_def Let_def)
  then obtain rc st1 where "synx_gmem_lock idx st = (rc, st1)" "rc \<noteq> 0" "\<forall>j>0. obj st1 j = obj st j" by blast
  then show ?thesis by (intro busy [of rc st1]) (simp_all add: with_gmem_def)
qed

lemma unlock_obj: "0 < j \<Longrightarrow> obj (synx_gmem_unlock idx st) j = obj st j"
  by (simp add: synx_gmem_unlock_def obj_owner)

lemma clear_index_obj: "obj (clear_index i st) = obj st"
  by (rule obj_cong) (simp add: clear_index_def ipclite_global_test_and_clear_bit_def atomic_access_def Let_def)

lemma section_passed:
  assumes "status \<noteq> SYNX_STATE_ACTIVE"
  obtains g data cores parents clear where
    "update_status_section idx status st = ((data, cores, parents, clear), upd_obj idx (\<lambda>_. g) st)" "passed (obj st idx) g"
    "g_num_child (obj st idx) = 0 \<longrightarrow> g = signalled_leaf status (obj st idx)"
    "parents = replicate 4 0 \<or> parents = synx_global_get_parents_locked (obj st idx)"
proof -
  obtain g data cores parents clear where s:
    "update_status_section idx status st = ((data, cores, parents, clear), upd_obj idx (\<lambda>_. g) st)"
    "parents = replicate 4 0 \<or> parents = synx_global_get_parents_locked (obj st idx)" by (rule update_section_shape)
  have less: "g_num_child (obj st idx) \<noteq> 0 \<Longrightarrow> g_num_child (obj st idx) - 1 \<le> g_num_child (obj st idx)"
    by (simp add: word_le_nat_alt unat_minus_one)
  have "\<exists>g data cores parents clear. update_status_section idx status st = ((data, cores, parents, clear), upd_obj idx (\<lambda>_. g) st) \<and>
      passed (obj st idx) g \<and> (g_num_child (obj st idx) = 0 \<longrightarrow> g = signalled_leaf status (obj st idx))"
    using assms less
    by (auto simp: update_status_section_def Let_def synx_global_get_waiting_cores_locked_def drop_ref_def passed_def dead_def
        signalled_leaf_def split: if_splits)
  then show ?thesis using that s by auto
qed

lemma entry_effect:
  assumes st: "mem_ok rank False st" "0 < idx" "idx < SYNX_GLOBAL_MAX_OBJS" and s: "status \<noteq> SYNX_STATE_ACTIVE"
    and eq: "update_status_entry idx status st = ((rc, ps), st')"
  shows "(rc \<noteq> 0 \<and> ps = [] \<and> (\<forall>j>0. obj st' j = obj st j)) \<or>
    (rc = 0 \<and> (\<forall>p\<in>set ps. p \<noteq> 0 \<longrightarrow> (idx, p) \<in> parent_edges st) \<and>
     (\<exists>g. passed (obj st idx) g \<and> (g_num_child (obj st idx) = 0 \<longrightarrow> g = signalled_leaf status (obj st idx)) \<and>
        (\<forall>j>0. obj st' j = (if j = idx then g else obj st j))))"
proof -
  let ?body = "\<lambda>s. case update_status_section idx status s of (r, s1) \<Rightarrow> (Inr r, s1)"
  show ?thesis
  proof (cases rule: gmem_cases [of idx Inl ?body st])
    case (busy e st1)
    then show ?thesis using eq by (auto simp: update_status_entry_def)
  next
    case (run s)
    obtain g data cores parents clear where g:
      "update_status_section idx status s = ((data, cores, parents, clear), upd_obj idx (\<lambda>_. g) s)" "passed (obj s idx) g"
      "g_num_child (obj s idx) = 0 \<longrightarrow> g = signalled_leaf status (obj s idx)"
      "parents = replicate 4 0 \<or> parents = synx_global_get_parents_locked (obj s idx)"
      by (rule section_passed [where idx = idx and st = s, OF \<open>status \<noteq> SYNX_STATE_ACTIVE\<close>])
    have same: "obj s idx = obj st idx" using run(2) st(2) by simp
    have len: "idx < length (table s)" using st(1,3) run(3) by (simp add: mem_ok_def sized_def)
    let ?x = "synx_gmem_unlock idx (upd_obj idx (\<lambda>_. g) s)"
    have out: "rc = 0" "ps = parents" "st' = notify_cores status data cores (if clear then clear_index idx ?x else ?x)"
      using eq run(1) g(1) by (auto simp: update_status_entry_def)
    have "obj st' j = (if j = idx then g else obj st j)" if "0 < j" for j
      using that run(2,3) st(1,3) by (simp add: out(3) notify_cores_frame clear_index_obj unlock_obj obj_upd_obj mem_ok_def sized_def)
    moreover have "\<forall>p\<in>set ps. p \<noteq> 0 \<longrightarrow> (idx, p) \<in> parent_edges st"
    proof -
      have "parents_ok rank idx (g_parents (obj st idx))" using st(1) by (rule mem_ok_parents)
      then have "set (synx_global_get_parents_locked (obj st idx)) = unat ` set (g_parents (obj st idx))"
        by (force simp: synx_global_get_parents_locked_def parents_ok_def set_conv_nth)
      then show ?thesis using g(4) by (auto simp: out(2) same parent_edges_def)
    qed
    ultimately show ?thesis using g(2,3) out(1) by (auto simp: same)
  qed
qed

section \<open>The update of all entries above\<close>

definition reaches :: "synx_shared_mem \<Rightarrow> nat \<Rightarrow> synx_shared_mem \<Rightarrow> bool" where
  "reaches st idx st' \<longleftrightarrow> passes st st' \<and> (\<forall>j>0. (idx, j) \<notin> (parent_edges st)\<^sup>* \<longrightarrow> obj st' j = obj st j)"

lemma each_effect:
  assumes "each_index f ps s = Some s'" "passes st s" "0 < idx" "mem_ok rank False s"
    and "\<forall>j>0. (idx, j) \<notin> (parent_edges st)\<^sup>* \<longrightarrow> obj s j = obj st j" and "\<forall>p\<in>set ps. p \<noteq> 0 \<longrightarrow> (idx, p) \<in> parent_edges st \<and> rank p < rank idx"
    and "\<forall>p\<in>set ps. \<forall>s r. 0 < p \<longrightarrow> f p s = Some r \<longrightarrow> mem_ok rank False s \<longrightarrow> mem_ok rank False (snd r) \<and> reaches s p (snd r)"
  shows "passes st s' \<and> mem_ok rank False s' \<and> (\<forall>j>0. (idx, j) \<notin> (parent_edges st)\<^sup>* \<longrightarrow> obj s' j = obj st j) \<and> obj s' idx = obj s idx"
  using assms
proof (induction ps arbitrary: s)
  case (Cons p ps)
  show ?case
  proof (cases "p = 0")
    case True
    then show ?thesis using Cons by simp
  next
    case False
    obtain r where r: "f p s = Some r" "each_index f ps (snd r) = Some s'"
      using Cons.prems(1) False by (auto simp: Option.bind_eq_Some_conv)
    have k: "mem_ok rank False (snd r)" "reaches s p (snd r)" using Cons.prems(4,7) r(1) False by (cases r; simp)+
    have e: "(idx, p) \<in> parent_edges st" "rank p < rank idx" using Cons.prems(6) False by simp_all
    have p: "passes st (snd r)" using Cons.prems(2) k(2) passes_trans by (simp add: reaches_def)
    have far: "obj (snd r) j = obj st j" if j: "0 < j" "(idx, j) \<notin> (parent_edges st)\<^sup>*" for j
    proof -
      have "(p, j) \<notin> (parent_edges s)\<^sup>*" using passes_edges [OF Cons.prems(2), of p j] j(2) e(1) False by (auto intro: converse_rtrancl_into_rtrancl)
      then show ?thesis using k(2) Cons.prems(5) j by (simp add: reaches_def)
    qed
    have "(p, idx) \<notin> (parent_edges s)\<^sup>*" using edges_rank [OF Cons.prems(4), of p idx] e(2) by auto
    then have self: "obj (snd r) idx = obj s idx" using k(2) assms(3) by (simp add: reaches_def)
    have far: "\<forall>j>0. (idx, j) \<notin> (parent_edges st)\<^sup>* \<longrightarrow> obj (snd r) j = obj st j" using far by blast
    have rest: "\<forall>p\<in>set ps. p \<noteq> 0 \<longrightarrow> (idx, p) \<in> parent_edges st \<and> rank p < rank idx" using Cons.prems(6) by simp
    from Cons.IH [OF r(2) p assms(3) k(1) far rest] Cons.prems(7) show ?thesis using self by simp
  qed
qed simp

lemma core_effect:
  assumes "synx_global_update_status_core idx status st = Some r"
  shows "status \<noteq> SYNX_STATE_ACTIVE \<longrightarrow> 0 < idx \<longrightarrow> idx < SYNX_GLOBAL_MAX_OBJS \<longrightarrow> mem_ok rank False st \<longrightarrow>
    mem_ok rank False (snd r) \<and> reaches st idx (snd r) \<and> (fst r \<noteq> 0 \<longrightarrow> (\<forall>j>0. obj (snd r) j = obj st j)) \<and>
    (fst r = 0 \<and> g_num_child (obj st idx) = 0 \<longrightarrow> obj (snd r) idx = signalled_leaf status (obj st idx))"
proof (rule synx_global_update_status_core.raw_induct [OF _ assms], goal_cases)
  case (1 f idx status st r)
  obtain rc ps st1 where e: "update_status_entry idx status st = ((rc, ps), st1)" by (metis prod.collapse)
  obtain st2 where st2: "each_index (\<lambda>p s. f p status s) ps st1 = Some st2" "r = (rc, st2)"
    using 1(2) by (auto simp: e Option.bind_eq_Some_conv)
  show ?case
  proof (intro impI)
    assume s: "status \<noteq> SYNX_STATE_ACTIVE" and i: "0 < idx" "idx < SYNX_GLOBAL_MAX_OBJS" and st: "mem_ok rank False st"
    have m: "mem_ok rank False st1" "edge_to rank idx ps" using update_entry_ok [OF st i(2) e] by simp_all
    from entry_effect [OF st i s e] show "mem_ok rank False (snd r) \<and> reaches st idx (snd r) \<and>
      (fst r \<noteq> 0 \<longrightarrow> (\<forall>j>0. obj (snd r) j = obj st j)) \<and>
      (fst r = 0 \<and> g_num_child (obj st idx) = 0 \<longrightarrow> obj (snd r) idx = signalled_leaf status (obj st idx))"
    proof (elim disjE conjE exE)
      assume "rc \<noteq> 0" "ps = []" "\<forall>j>0. obj st1 j = obj st j"
      then show ?thesis using st2 m(1) by (simp add: reaches_def passes_same)
    next
      fix g
      assume z: "rc = 0" and ps: "\<forall>p\<in>set ps. p \<noteq> 0 \<longrightarrow> (idx, p) \<in> parent_edges st" and g: "passed (obj st idx) g"
        "g_num_child (obj st idx) = 0 \<longrightarrow> g = signalled_leaf status (obj st idx)" and o: "\<forall>j>0. obj st1 j = (if j = idx then g else obj st j)"
      have p1: "passes st st1" using o g(1) by (simp add: passes_def)
      have far: "\<forall>j>0. (idx, j) \<notin> (parent_edges st)\<^sup>* \<longrightarrow> obj st1 j = obj st j" using o by auto
      have below: "\<forall>p\<in>set ps. p \<noteq> 0 \<longrightarrow> (idx, p) \<in> parent_edges st \<and> rank p < rank idx" using ps m(2) by (simp add: edge_to_def)
      have step: "mem_ok rank False (snd t) \<and> reaches u q (snd t)"
        if q: "q \<in> set ps" "0 < q" "f q status u = Some t" "mem_ok rank False u" for q u t
      proof -
        have "q < SYNX_GLOBAL_MAX_OBJS" using m(2) q(1,2) by (simp add: edge_to_def)
        then show ?thesis using 1(1) [OF q(3)] q(2,4) s by blast
      qed
      have "passes st st2 \<and> mem_ok rank False st2 \<and> (\<forall>j>0. (idx, j) \<notin> (parent_edges st)\<^sup>* \<longrightarrow> obj st2 j = obj st j) \<and>
          obj st2 idx = obj st1 idx"
        by (rule each_effect [OF st2(1) p1 i(1) m(1) far below]) (use step in blast)
      then show ?thesis
        using o g(2) z i(1) by (simp add: st2(2) reaches_def)
    qed
  qed
qed

section \<open>A signal\<close>

lemma check_effect:
  assumes "mem_ok rank False st" "0 < idx"
  obtains (fails) rc st1 where "update_status_check idx st = (Inl rc, st1)" "rc \<noteq> 0" "\<forall>j>0. obj st1 j = obj st j"
  | (composite) st1 where "update_status_check idx st = (Inl 0, st1)" "g_num_child (obj st idx) \<noteq> 0" "\<forall>j>0. obj st1 j = obj st j"
  | (active) st1 where "update_status_check idx st = (Inr (), st1)" "g_num_child (obj st idx) = 0" "g_status (obj st idx) = SYNX_STATE_ACTIVE"
      "mem_ok rank False st1" "\<forall>j>0. obj st1 j = obj st j"
proof -
  let ?body = "\<lambda>s. (if g_num_child (obj s idx) \<noteq> 0 then Inl 0 else if g_status (obj s idx) \<noteq> SYNX_STATE_ACTIVE then Inl (- SYNX_ALREADY) else Inr (), s)"
  have m: "mem_ok rank False (snd (update_status_check idx st))"
    unfolding update_status_check_def by (rule mem_ok_section [OF assms(1)]) simp
  show ?thesis
  proof (cases rule: gmem_cases [of idx Inl ?body st])
    case (busy rc st1)
    then show ?thesis using fails by (simp add: update_status_check_def)
  next
    case (run s)
    let ?t = "synx_gmem_unlock idx s"
    have o: "\<forall>j>0. obj ?t j = obj st j" using run(2) by (simp add: unlock_obj)
    have c: "update_status_check idx st =
        (if g_num_child (obj st idx) \<noteq> 0 then Inl 0 else if g_status (obj st idx) \<noteq> SYNX_STATE_ACTIVE then Inl (- SYNX_ALREADY) else Inr (), ?t)"
      using run(1,2) assms(2) by (simp add: update_status_check_def)
    show ?thesis
    proof (cases "g_num_child (obj st idx) = 0 \<and> g_status (obj st idx) = SYNX_STATE_ACTIVE")
      case True
      then show ?thesis using active [of ?t] c m o by simp
    next
      case False
      then show ?thesis using fails [of "- SYNX_ALREADY" ?t] composite [of ?t] c o by (cases "g_num_child (obj st idx) = 0") simp_all
    qed
  qed
qed

text \<open>C18: In a memory of the invariant, which every run keeps, for every graph of composite entries and whatever attempts to take the lock time out, a
  signal of an entry other than 0 with a status above the active one returns. When it fails it changes no entry, nor does it when the entry has
  children. When it returns 0 for an entry without children, the entry was active, and exactly its status is set and its waiters are cleared. It
  changes no entry that is not reached from the signalled one through the indexes of parents; and none of the others ever becomes active again,
  counts more children than before (the count never wraps around), gets a parent, or loses its subscribers unless it is given up.\<close>

theorem synx_signal_effect:
  assumes "mem_ok rank False st" "0 < idx" "idx < SYNX_GLOBAL_MAX_OBJS" "status > SYNX_STATE_ACTIVE"
  shows "\<exists>rc st'. synx_global_update_status idx status st = Some (rc, st') \<and>
    (rc \<noteq> 0 \<or> g_num_child (obj st idx) \<noteq> 0 \<longrightarrow> (\<forall>j>0. obj st' j = obj st j)) \<and>
    (rc = 0 \<and> g_num_child (obj st idx) = 0 \<longrightarrow>
      g_status (obj st idx) = SYNX_STATE_ACTIVE \<and> obj st' idx = obj st idx\<lparr>g_status := status, g_waiters := 0\<rparr>) \<and>
    (\<forall>j>0. (idx, j) \<notin> (parent_edges st)\<^sup>* \<longrightarrow> obj st' j = obj st j) \<and>
    (\<forall>j>0. (g_status (obj st j) \<noteq> SYNX_STATE_ACTIVE \<longrightarrow> g_status (obj st' j) \<noteq> SYNX_STATE_ACTIVE) \<and>
       g_num_child (obj st' j) \<le> g_num_child (obj st j) \<and>
       (g_parents (obj st' j) = g_parents (obj st j) \<or> g_parents (obj st' j) = [0, 0, 0, 0]) \<and>
       (g_subscribers (obj st' j) = g_subscribers (obj st j) \<or>
          g_subscribers (obj st' j) = 0 \<and> g_status (obj st' j) \<noteq> SYNX_STATE_ACTIVE))"
proof -
  have m: "mapped st" and v: "synx_is_valid_idx idx" using assms by (simp_all add: mem_ok_def synx_is_valid_idx_def)
  have s: "status \<noteq> SYNX_STATE_ACTIVE" "\<not> status \<le> SYNX_STATE_ACTIVE" using assms(4) by auto
  note u = synx_global_update_status_def [of idx status st]
  show ?thesis
  proof (cases rule: check_effect [OF assms(1,2), case_names fails composite active])
    case (fails rc st1)
    then show ?thesis using m v s by (auto simp: u)
  next
    case (composite st1)
    then show ?thesis using m v s by (auto simp: u)
  next
    case (active st1)
    obtain rc st' where c: "synx_global_update_status_core idx status st1 = Some (rc, st')"
      using update_core_ok [OF active(4) assms(3)] by blast
    have e: "reaches st1 idx st'" "rc \<noteq> 0 \<longrightarrow> (\<forall>j>0. obj st' j = obj st1 j)"
      "rc = 0 \<longrightarrow> obj st' idx = signalled_leaf status (obj st1 idx)"
      using core_effect [OF c, of rank] active(2,4,5) assms(2,3) s by auto
    have "(parent_edges st1)\<^sup>* `` {idx} \<subseteq> (parent_edges st)\<^sup>* `` {idx}"
      using passes_edges [OF passes_same [OF active(5)] _ assms(2)] by blast
    then show ?thesis using c e active assms(2) m v s
      by (auto simp: u reaches_def passes_def passed_def dead_def signalled_leaf_def)
  qed
qed

text \<open>Entry 1 is a child of the composite entry 3, entry 2 is not.\<close>

definition one_child :: synx_shared_mem where
  "one_child = synx_demo [active_entry 17\<lparr>g_parents := [3, 0, 0, 0]\<rparr>, active_entry 18,
     active_entry 19\<lparr>g_num_child := 1, g_refcount := 2\<rparr>]"

lemma one_child_ok: "mem_ok (\<lambda>i. if i = 3 then 0 else 1) False one_child"
proof -
  have "parents_ok (\<lambda>i. if i = 3 then 0 else 1) i (g_parents (obj one_child i))" for i
    by (auto simp: one_child_def demo_obj active_entry_def nth_Cons' parents_ok_def)
  then show ?thesis using demo_ready [of "[active_entry 17\<lparr>g_parents := [3, 0, 0, 0]\<rparr>, active_entry 18,
     active_entry 19\<lparr>g_num_child := 1, g_refcount := 2\<rparr>]"]
    by (simp add: mem_ok_def polite_def one_child_def ready_def)
qed

lemma synx_signal_effect_witness:
  "\<exists>rc st'. synx_global_update_status 1 4 one_child = Some (rc, st') \<and> obj st' 2 = obj one_child 2 \<and> g_num_child (obj st' 3) \<le> 1"
proof -
  have o: "g_parents (obj one_child 1) = [3, 0, 0, 0]" "g_parents (obj one_child 3) = [0, 0, 0, 0]" "g_num_child (obj one_child 3) = 1"
    by (simp_all add: one_child_def demo_obj active_entry_def)
  have "j = 1 \<or> j = 3" if "(1, j) \<in> (parent_edges one_child)\<^sup>*" for j
    using that by (induction rule: rtrancl_induct) (auto simp: parent_edges_def o o(1) [unfolded One_nat_def])
  then have "(1, 2) \<notin> (parent_edges one_child)\<^sup>*" by fastforce
  moreover have p: "(1 :: nat) < SYNX_GLOBAL_MAX_OBJS" "(4 :: u32) > SYNX_STATE_ACTIVE" by simp_all
  from synx_signal_effect [OF one_child_ok zero_less_one p] obtain rc st' where
    "synx_global_update_status 1 4 one_child = Some (rc, st')" "\<forall>j>0. (1, j) \<notin> (parent_edges one_child)\<^sup>* \<longrightarrow> obj st' j = obj one_child j"
    "\<forall>j>0. g_num_child (obj st' j) \<le> g_num_child (obj one_child j)" by blast
  ultimately show ?thesis using o(3) by (metis zero_less_numeral)
qed

end
