(* ===== verification/Ipc_Types.thy ===== *)
theory Ipc_Types
  imports Prelude
begin

text \<open>
  The data of the message layer (\<^verbatim>\<open>ipclite.h\<close>, \<^verbatim>\<open>ipclite.c\<close>): the region of memory that the cores share,
  with a table of contents and one partition for each pair of cores, and the channels of this core.

  An address is the offset of a byte from the start of the region. The words that several cores
  access (the indexes of the rings, the status of a partition, the index of the log) and the bytes
  of the rings are two maps over addresses; the other members of the table of contents and of the
  headers are records. A write of a word or a copy of bytes that leaves the region, and an access through a
  NULL pointer, sets \<open>ipc_ub\<close>. A read of an index or of a status word does not; the addresses of all of them
  are those of the channels, and lie in the region.
\<close>

section \<open>Constants\<close>

abbreviation (input) ENXIO :: int where "ENXIO \<equiv> 6"
abbreviation (input) EOPNOTSUPP :: int where "EOPNOTSUPP \<equiv> 95"

abbreviation (input) IPCMEM_APPS :: nat where "IPCMEM_APPS \<equiv> 0"
abbreviation (input) IPCMEM_NUM_HOSTS :: nat where "IPCMEM_NUM_HOSTS \<equiv> 9"
abbreviation (input) IPCMEM_GLOBAL_HOST :: u32 where "IPCMEM_GLOBAL_HOST \<equiv> 0xFE"
abbreviation (input) IPCMEM_INVALID_HOST :: u32 where "IPCMEM_INVALID_HOST \<equiv> 0xFF"

abbreviation (input) INACTIVE :: u32 where "INACTIVE \<equiv> 0"
abbreviation (input) IN_PROGRESS :: u32 where "IN_PROGRESS \<equiv> 1"
abbreviation (input) ACTIVE :: u32 where "ACTIVE \<equiv> 2"

abbreviation (input) IPCLITE_MSG_SIGNAL :: nat where "IPCLITE_MSG_SIGNAL \<equiv> 0"
abbreviation (input) IPCLITE_MEM_INIT_SIGNAL :: nat where "IPCLITE_MEM_INIT_SIGNAL \<equiv> 1"
abbreviation (input) IPCLITE_VERSION_SIGNAL :: nat where "IPCLITE_VERSION_SIGNAL \<equiv> 2"
abbreviation (input) IPCLITE_TEST_SIGNAL :: nat where "IPCLITE_TEST_SIGNAL \<equiv> 3"
abbreviation (input) IPCLITE_SSR_SIGNAL :: nat where "IPCLITE_SSR_SIGNAL \<equiv> 4"
abbreviation (input) MAX_CHANNEL_SIGNALS :: nat where "MAX_CHANNEL_SIGNALS \<equiv> 6"

abbreviation (input) FIFO_FULL_RESERVE :: u32 where "FIFO_FULL_RESERVE \<equiv> 8"
abbreviation (input) IPCLITE_DBG_STRUCT :: u32 where "IPCLITE_DBG_STRUCT \<equiv> 2"
abbreviation (input) IPCLITE_GLOBAL_ATOMIC :: u64 where "IPCLITE_GLOBAL_ATOMIC \<equiv> 1"

abbreviation (input) IPCMEM_TOC_SIZE :: u32 where "IPCMEM_TOC_SIZE \<equiv> 4096"
abbreviation (input) IPCMEM_TOC_VAR_OFFSET :: u32 where "IPCMEM_TOC_VAR_OFFSET \<equiv> 0x100"
abbreviation (input) DEFAULT_PARTITION_SIZE :: u32 where "DEFAULT_PARTITION_SIZE \<equiv> 32768"
abbreviation (input) GLOBAL_PARTITION_SIZE :: u32 where "GLOBAL_PARTITION_SIZE \<equiv> 131072"
abbreviation (input) LOOPBACK_PARTITION_TYPE :: u32 where "LOOPBACK_PARTITION_TYPE \<equiv> 1"

section \<open>The table of contents and the partitions\<close>

record ipcmem_partition_entry =
  pe_base_offset :: u32
  pe_size :: u32
  pe_flags :: u32
  pe_host0 :: u32
  pe_host1 :: u32

record ipcmem_offsets =
  io_host_info :: u32
  io_global_entry :: u32
  io_partition_info :: u32
  io_partition_entry :: u32

record global_partition_header =
  gp_type :: u32
  gp_region_offset :: u32
  gp_region_size :: u32

text \<open>The status of a partition, the last member of its header, is a word of the shared memory.\<close>

record ipcmem_partition_header =
  ph_type :: u32
  ph_desc_offset :: u32
  ph_desc_size :: u32
  ph_fifo0_offset :: u32
  ph_fifo0_size :: u32
  ph_fifo1_offset :: u32
  ph_fifo1_size :: u32

definition status_offset :: nat where "status_offset = 28"

definition default_partition_hdr :: ipcmem_partition_header where
  "default_partition_hdr = \<lparr>ph_type = 0, ph_desc_offset = 1024, ph_desc_size = 3072, ph_fifo0_offset = 4096, ph_fifo0_size = 8192,
     ph_fifo1_offset = 12288, ph_fifo1_size = 8192\<rparr>"

definition loopback_partition_hdr :: ipcmem_partition_header where
  "loopback_partition_hdr = \<lparr>ph_type = LOOPBACK_PARTITION_TYPE, ph_desc_offset = 1024, ph_desc_size = 3072, ph_fifo0_offset = 4096,
     ph_fifo0_size = 8192, ph_fifo1_offset = 4096, ph_fifo1_size = 8192\<rparr>"

definition global_partition_hdr :: global_partition_header where
  "global_partition_hdr = \<lparr>gp_type = 0xFF, gp_region_offset = 4096, gp_region_size = 126976\<rparr>"

section \<open>Debug data\<close>

text \<open>The two previous values of an index are a pair.\<close>

record ipclite_debug_info_host =
  numsig_sent :: u32
  numsig_recv :: u32
  tx_wr_index :: u32
  tx_rd_index :: u32
  rx_wr_index :: u32
  rx_rd_index :: u32
  num_intr :: u32
  prev_tx_wr_index :: "u32 \<times> u32"
  prev_tx_rd_index :: "u32 \<times> u32"
  prev_rx_wr_index :: "u32 \<times> u32"
  prev_rx_rd_index :: "u32 \<times> u32"

record ipclite_debug_struct =
  total_numsig_sent :: u32
  total_numsig_recv :: u32
  last_sent_host_id :: u32
  last_recv_host_id :: u32
  last_sigid_sent :: u32
  last_sigid_recv :: u32
  dbg_info_host :: "ipclite_debug_info_host list"

section \<open>Channels\<close>

text \<open>The indexes and the bytes of a ring are given by their addresses.\<close>

record ipclite_fifo =
  fifo_length :: u32
  fifo_tail :: nat
  fifo_head :: nat
  fifo_mem :: nat

text \<open>The pointer to the mailbox of a signal: NULL, a mailbox, or the error code of a failed request.\<close>

datatype mbox_chan = Mbox_Null | Mbox_Chan | Mbox_Err int

record ipclite_irq_info =
  irq_mbox_chan :: mbox_chan
  irq_signal_id :: nat

record ipclite_channel =
  remote_pid :: u32
  tx_fifo :: "ipclite_fifo option"
  rx_fifo :: "ipclite_fifo option"
  irq_info :: "ipclite_irq_info list"
  gstatus_ptr :: "nat option"
  ch_status :: u32

text \<open>A client is a callback, by number, and the data it gets.\<close>

record ipclite_client =
  cl_callback :: "nat option"
  cl_priv_data :: nat
  cl_reg_complete :: bool

datatype ipc_call = Client_Callback nat u32 u64 nat | Mbox_Send nat nat | Mbox_Txdone nat nat

text \<open>The operations of a version of the interface: which pointers are set.\<close>

record ipclite_api_list =
  api_init :: bool
  api_register_client :: bool
  api_register_test_client :: bool
  api_msg_send :: bool
  api_test_msg_send :: bool
  api_partition_info :: bool
  api_recover :: bool

section \<open>The state\<close>

text \<open>
  \<open>ipclite_up\<close>: the pointer to the driver data is set. \<open>hw_busy\<close> and \<open>mbox_answer\<close> are inputs: the
  attempts to take the hardware mutex that time out, and the results of the mailbox.
\<close>

record ipc_state =
  ipclite_up :: bool
  enabled_hosts :: u32
  partitions :: u32
  major_ver :: u32
  minor_ver :: u32
  feature_mask :: u64
  mem_size :: u32
  toc_hdr :: "u32 list"
  toc_offsets :: ipcmem_offsets
  hwlock_owner :: u32
  configured_host :: u32
  global_entry :: ipcmem_partition_entry
  num_entries :: u32
  entry_size :: u32
  partition_entry :: "nat \<Rightarrow> ipcmem_partition_entry"
  global_partition :: nat
  global_hdr :: global_partition_header
  partition :: "nat list"
  partition_hdr :: "nat \<Rightarrow> ipcmem_partition_header"
  words :: "nat \<Rightarrow> u32"
  bytes :: "nat \<Rightarrow> u8"
  channel :: "ipclite_channel list"
  synx_client :: ipclite_client
  test_client :: ipclite_client
  api_list_t :: ipclite_api_list
  debug_control :: u32
  dbg_struct :: "ipclite_debug_struct option"
  hw_locked :: bool
  hw_busy :: "nat \<Rightarrow> bool"
  hw_tries :: nat
  mbox_answer :: "nat \<Rightarrow> int"
  ipc_calls :: "ipc_call list"
  ipc_ub :: bool

definition ipc_flag :: "bool \<Rightarrow> ipc_state \<Rightarrow> ipc_state" where
  "ipc_flag bad st = st\<lparr>ipc_ub := ipc_ub st \<or> bad\<rparr>"

definition in_region :: "nat \<Rightarrow> nat \<Rightarrow> ipc_state \<Rightarrow> bool" where
  "in_region a n st \<longleftrightarrow> a + n \<le> unat (mem_size st)"

definition put_word :: "nat \<Rightarrow> u32 \<Rightarrow> ipc_state \<Rightarrow> ipc_state" where
  "put_word a v st = (ipc_flag (\<not> in_region a 4 st) st)\<lparr>words := (words st)(a := v)\<rparr>"

text \<open>\<^verbatim>\<open>memcpy\<close> from and to the region.\<close>

definition peek_bytes :: "nat \<Rightarrow> nat \<Rightarrow> ipc_state \<Rightarrow> u8 list" where
  "peek_bytes a n st = map (bytes st) [a..<a + n]"

definition poke_bytes :: "nat \<Rightarrow> u8 list \<Rightarrow> ipc_state \<Rightarrow> ipc_state" where
  "poke_bytes a bs st =
     (ipc_flag (\<not> in_region a (length bs) st) st)
       \<lparr>bytes := (\<lambda>x. if a \<le> x \<and> x < a + length bs then bs ! (x - a) else bytes st x)\<rparr>"

definition ipc_call_log :: "ipc_call \<Rightarrow> ipc_state \<Rightarrow> ipc_state" where
  "ipc_call_log c st = st\<lparr>ipc_calls := ipc_calls st @ [c]\<rparr>"

definition is_host_enabled :: "nat \<Rightarrow> ipc_state \<Rightarrow> bool" where
  "is_host_enabled host st \<longleftrightarrow> bit (enabled_hosts st) host"

definition is_loopback_except_apps :: "nat \<Rightarrow> nat \<Rightarrow> bool" where
  "is_loopback_except_apps h0 h1 \<longleftrightarrow> h0 = h1 \<and> h0 \<noteq> IPCMEM_APPS"

section \<open>The hardware mutex and the atomic operations\<close>

definition ipclite_hw_mutex_acquire :: "ipc_state \<Rightarrow> int \<times> ipc_state" where
  "ipclite_hw_mutex_acquire st =
     (if \<not> ipclite_up st then (- ENOMEM, st)
      else
        let st1 = st\<lparr>hw_tries := hw_tries st + 1\<rparr>
        in if hw_locked st \<or> hw_busy st (hw_tries st) then (- 110, st1)
           else (0, st1\<lparr>hw_locked := True, hwlock_owner := of_nat IPCMEM_APPS\<rparr>))"

definition ipclite_hw_mutex_release :: "ipc_state \<Rightarrow> int \<times> ipc_state" where
  "ipclite_hw_mutex_release st =
     (if \<not> ipclite_up st then (- ENOMEM, st)
      else if hwlock_owner st \<noteq> of_nat IPCMEM_APPS then (- EINVAL, st)
      else (0, st\<lparr>hwlock_owner := IPCMEM_INVALID_HOST, hw_locked := False\<rparr>))"

text \<open>The mutex is used when the hardware has no atomic operations of its own; its result is dropped.\<close>

definition ATOMIC_HW_MUTEX_ACQUIRE :: "ipc_state \<Rightarrow> ipc_state" where
  "ATOMIC_HW_MUTEX_ACQUIRE st = (if feature_mask st AND IPCLITE_GLOBAL_ATOMIC \<noteq> 0 then st else snd (ipclite_hw_mutex_acquire st))"

definition ATOMIC_HW_MUTEX_RELEASE :: "ipc_state \<Rightarrow> ipc_state" where
  "ATOMIC_HW_MUTEX_RELEASE st = (if feature_mask st AND IPCLITE_GLOBAL_ATOMIC \<noteq> 0 then st else snd (ipclite_hw_mutex_release st))"

definition ipclite_atomic_init :: "nat \<Rightarrow> u32 \<Rightarrow> ipc_state \<Rightarrow> ipc_state" where
  "ipclite_atomic_init addr data st = put_word addr data st"

definition ipclite_global_atomic_store :: "nat \<Rightarrow> u32 \<Rightarrow> ipc_state \<Rightarrow> ipc_state" where
  "ipclite_global_atomic_store addr data st = ATOMIC_HW_MUTEX_RELEASE (put_word addr data (ATOMIC_HW_MUTEX_ACQUIRE st))"

definition ipclite_global_atomic_load :: "nat \<Rightarrow> ipc_state \<Rightarrow> u32 \<times> ipc_state" where
  "ipclite_global_atomic_load addr st =
     (let st1 = ATOMIC_HW_MUTEX_ACQUIRE st in (words st1 addr, ATOMIC_HW_MUTEX_RELEASE st1))"

definition ipclite_global_atomic_inc :: "nat \<Rightarrow> ipc_state \<Rightarrow> u32 \<times> ipc_state" where
  "ipclite_global_atomic_inc addr st =
     (let st1 = ATOMIC_HW_MUTEX_ACQUIRE st
      in (words st1 addr, ATOMIC_HW_MUTEX_RELEASE (put_word addr (words st1 addr + 1) st1)))"

definition ipclite_global_atomic_dec :: "nat \<Rightarrow> ipc_state \<Rightarrow> u32 \<times> ipc_state" where
  "ipclite_global_atomic_dec addr st =
     (let st1 = ATOMIC_HW_MUTEX_ACQUIRE st
      in (words st1 addr, ATOMIC_HW_MUTEX_RELEASE (put_word addr (words st1 addr - 1) st1)))"

end
