(* ===== verification/Ipc_Fifo.thy ===== *)
theory Ipc_Fifo
  imports Ipc_Types
begin

text \<open>
  The rings of the message layer: what can be read or written, reading without taking, taking, and
  writing, with the numbers that the debug data keeps of them. All indexes are words of 32 bits that the
  other side of the ring may have set to any value.
\<close>

section \<open>Reading\<close>

definition ipcmem_rx_avail :: "ipclite_fifo \<Rightarrow> ipc_state \<Rightarrow> u64" where
  "ipcmem_rx_avail f st =
     (let head = words st (fifo_head f);
          tail = words st (fifo_tail f);
          len = (if head < tail then fifo_length f - tail + head else head - tail)
      in if len > fifo_length f then 0 else ucast len)"

text \<open>The first \<open>count\<close> bytes are copied to the start of \<open>data\<close>; with a bad index nothing is copied.\<close>

definition ipcmem_rx_peak :: "ipclite_fifo \<Rightarrow> u8 list \<Rightarrow> nat \<Rightarrow> ipc_state \<Rightarrow> u8 list \<times> ipc_state" where
  "ipcmem_rx_peak f data count st =
     (let tail = words st (fifo_tail f) in
      if tail > fifo_length f then (data, st)
      else
        let tail = (if tail \<ge> fifo_length f then tail - fifo_length f else tail);
            len = min count (unat (fifo_length f - tail));
            a = fifo_mem f + unat tail
        in (peek_bytes a len st @ peek_bytes (fifo_mem f) (count - len) st @ drop count data,
            ipc_flag (\<not> in_region a len st \<or> \<not> in_region (fifo_mem f) (count - len) st) st))"

text \<open>The debug data of the other core; without debug data the pointer to it is not valid.\<close>

definition upd_debug :: "nat \<Rightarrow> (ipclite_debug_struct \<Rightarrow> ipclite_debug_struct) \<Rightarrow>
    (ipclite_debug_info_host \<Rightarrow> ipclite_debug_info_host) \<Rightarrow> ipc_state \<Rightarrow> ipc_state" where
  "upd_debug core_id f g st =
     (if debug_control st AND IPCLITE_DBG_STRUCT = 0 then st
      else case dbg_struct st of
        None \<Rightarrow> ipc_flag True st
      | Some d \<Rightarrow>
          if core_id \<ge> length (dbg_info_host d) then ipc_flag True st
          else st\<lparr>dbg_struct := Some (f (d\<lparr>dbg_info_host := (dbg_info_host d)[core_id := g (dbg_info_host d ! core_id)]\<rparr>))\<rparr>)"

definition rx_debug :: "u32 \<Rightarrow> u32 \<Rightarrow> ipclite_debug_info_host \<Rightarrow> ipclite_debug_info_host" where
  "rx_debug head tail h =
     h\<lparr>prev_rx_wr_index := (rx_wr_index h, fst (prev_rx_wr_index h)), rx_wr_index := head,
       prev_rx_rd_index := (rx_rd_index h, fst (prev_rx_rd_index h)), rx_rd_index := tail,
       numsig_recv := numsig_recv h + 1\<rparr>"

definition ipcmem_rx_advance :: "ipclite_fifo \<Rightarrow> nat \<Rightarrow> nat \<Rightarrow> ipc_state \<Rightarrow> ipc_state" where
  "ipcmem_rx_advance f count core_id st =
     (let tail = words st (fifo_tail f) + of_nat count;
          tail = (if tail \<ge> fifo_length f then tail mod fifo_length f else tail);
          st1 = put_word (fifo_tail f) tail (ipc_flag (fifo_length f = 0) st)
      in upd_debug core_id (\<lambda>d. d\<lparr>total_numsig_recv := total_numsig_recv d + 1\<rparr>)
           (rx_debug (words st1 (fifo_head f)) (words st1 (fifo_tail f))) st1)"

section \<open>Writing\<close>

definition ipcmem_tx_avail :: "ipclite_fifo \<Rightarrow> ipc_state \<Rightarrow> u64" where
  "ipcmem_tx_avail f st =
     (let head = words st (fifo_head f);
          tail = words st (fifo_tail f);
          avail = (if tail \<le> head then fifo_length f - head + tail else tail - head);
          avail = (if avail < FIFO_FULL_RESERVE then 0 else avail - FIFO_FULL_RESERVE)
      in if avail > fifo_length f then 0 else ucast avail)"

definition ipcmem_tx_write_one :: "ipclite_fifo \<Rightarrow> u32 \<Rightarrow> u8 list \<Rightarrow> ipc_state \<Rightarrow> u32 \<times> ipc_state" where
  "ipcmem_tx_write_one f head data st =
     (if head > fifo_length f then (head, st)
      else
        let len = min (length data) (unat (fifo_length f - head));
            st1 = poke_bytes (fifo_mem f + unat head) (take len data) st;
            st2 = (if len \<noteq> length data then poke_bytes (fifo_mem f) (drop len data) st1 else st1);
            head = head + of_nat (length data)
        in (if head \<ge> fifo_length f then head - fifo_length f else head, st2))"

definition align8 :: "u32 \<Rightarrow> u32" where
  "align8 x = (x + 7) AND NOT 7"

definition tx_debug :: "u32 \<Rightarrow> u32 \<Rightarrow> ipclite_debug_info_host \<Rightarrow> ipclite_debug_info_host" where
  "tx_debug head tail h =
     h\<lparr>prev_tx_wr_index := (tx_wr_index h, fst (prev_tx_wr_index h)), tx_wr_index := head,
       prev_tx_rd_index := (tx_rd_index h, fst (prev_tx_rd_index h)), tx_rd_index := tail,
       numsig_sent := numsig_sent h + 1\<rparr>"

definition ipcmem_tx_write :: "ipclite_fifo \<Rightarrow> u8 list \<Rightarrow> nat \<Rightarrow> nat \<Rightarrow> ipc_state \<Rightarrow> ipc_state" where
  "ipcmem_tx_write f data core_id signal_id st =
     (case ipcmem_tx_write_one f (words st (fifo_head f)) data st of
        (head, st1) \<Rightarrow>
          let head = align8 head;
              head = (if head \<ge> fifo_length f then head - fifo_length f else head);
              st2 = put_word (fifo_head f) head st1
          in upd_debug core_id
               (\<lambda>d. d\<lparr>total_numsig_sent := total_numsig_sent d + 1, last_sent_host_id := of_nat core_id,
                      last_sigid_sent := of_nat signal_id\<rparr>)
               (tx_debug (words st2 (fifo_head f)) (words st2 (fifo_tail f))) st2)"

section \<open>The operations of a channel\<close>

text \<open>A channel without rings dereferences a NULL pointer.\<close>

definition with_fifo :: "ipclite_fifo option \<Rightarrow> 'a \<Rightarrow> (ipclite_fifo \<Rightarrow> ipc_state \<Rightarrow> 'a \<times> ipc_state) \<Rightarrow> ipc_state \<Rightarrow> 'a \<times> ipc_state" where
  "with_fifo fo x body st = (case fo of None \<Rightarrow> (x, ipc_flag True st) | Some f \<Rightarrow> body f st)"

definition ipclite_rx_avail :: "ipclite_channel \<Rightarrow> ipc_state \<Rightarrow> u64 \<times> ipc_state" where
  "ipclite_rx_avail ch = with_fifo (rx_fifo ch) 0 (\<lambda>f st. (ipcmem_rx_avail f st, st))"

definition ipclite_rx_peak :: "ipclite_channel \<Rightarrow> u8 list \<Rightarrow> nat \<Rightarrow> ipc_state \<Rightarrow> u8 list \<times> ipc_state" where
  "ipclite_rx_peak ch data count = with_fifo (rx_fifo ch) data (\<lambda>f. ipcmem_rx_peak f data count)"

definition ipclite_rx_advance :: "ipclite_channel \<Rightarrow> nat \<Rightarrow> ipc_state \<Rightarrow> ipc_state" where
  "ipclite_rx_advance ch count st =
     snd (with_fifo (rx_fifo ch) () (\<lambda>f s. ((), ipcmem_rx_advance f count (unat (remote_pid ch)) s)) st)"

definition ipclite_tx_avail :: "ipclite_channel \<Rightarrow> ipc_state \<Rightarrow> u64 \<times> ipc_state" where
  "ipclite_tx_avail ch = with_fifo (tx_fifo ch) 0 (\<lambda>f st. (ipcmem_tx_avail f st, st))"

text \<open>The signal for the debug data is that of the first interrupt of the channel, whatever is sent.\<close>

definition ipclite_tx_write :: "ipclite_channel \<Rightarrow> u8 list \<Rightarrow> ipc_state \<Rightarrow> ipc_state" where
  "ipclite_tx_write ch data st =
     snd (with_fifo (tx_fifo ch) () (\<lambda>f s. ((), ipcmem_tx_write f data (unat (remote_pid ch)) (irq_signal_id (irq_info ch ! 0)) s)) st)"

section \<open>The bytes of a message\<close>

definition u64_bytes :: "u64 \<Rightarrow> u8 list" where
  "u64_bytes w = map (\<lambda>i. ucast (drop_bit (8 * i) w)) [0..<8]"

definition bytes_u64 :: "u8 list \<Rightarrow> u64" where
  "bytes_u64 bs = fold (\<lambda>i w. w OR push_bit (8 * i) (ucast (bs ! i))) [0..<8] 0"

end
