(* ===== verification/Ipc_Channel.thy ===== *)
theory Ipc_Channel
  imports Ipc_Fifo
begin

text \<open>
  Sending and receiving: the transmission of a message on the channel of a core, the interrupt
  handler that empties the receive ring into the callback of the client, the notification of
  cores, the recovery after the crash of a core, and the versioned interface of the driver.
\<close>

section \<open>Receiving\<close>

definition client_callback :: "ipclite_client \<Rightarrow> u32 \<Rightarrow> u64 \<Rightarrow> ipc_state \<Rightarrow> ipc_state" where
  "client_callback client pid data st =
     (case cl_callback client of
        Some f \<Rightarrow> if cl_reg_complete client then ipc_call_log (Client_Callback f pid data (cl_priv_data client)) st else st
      | None \<Rightarrow> st)"

definition ipclite_rx_data :: "ipclite_channel \<Rightarrow> u64 \<Rightarrow> ipc_state \<Rightarrow> int \<times> ipc_state" where
  "ipclite_rx_data ch avail st =
     (if avail < 8 then (- EAGAIN, st)
      else case ipclite_rx_peak ch (u64_bytes 0) 8 st of
        (data, st1) \<Rightarrow> (0, ipclite_rx_advance ch 8 (client_callback (synx_client st1) (remote_pid ch) (bytes_u64 data) st1)))"

definition ipclite_rx_test_data :: "ipclite_channel \<Rightarrow> u64 \<Rightarrow> ipc_state \<Rightarrow> int \<times> ipc_state" where
  "ipclite_rx_test_data ch avail st =
     (if avail < 8 then (- EAGAIN, st)
      else case ipclite_rx_peak ch (u64_bytes 0) 8 st of
        (data, st1) \<Rightarrow> (0, ipclite_rx_advance ch 8 (client_callback (test_client st1) (remote_pid ch) (bytes_u64 data) st1)))"

text \<open>
  The loop of the handler, None when it never ends; \<open>avail\<close> is an unsigned int there. What the other core writes
  in the meantime is not part of the loop.
\<close>

partial_function (option) rx_loop :: "(ipclite_channel \<Rightarrow> u64 \<Rightarrow> ipc_state \<Rightarrow> int \<times> ipc_state) \<Rightarrow> ipclite_channel \<Rightarrow> ipc_state \<Rightarrow> ipc_state option" where
  "rx_loop rx ch st =
     (case ipclite_rx_avail ch st of
        (len, st1) \<Rightarrow>
          let avail = (ucast len :: u32)
          in if avail < 8 then Some st1 else rx_loop rx ch (snd (rx ch (ucast avail) st1)))"

text \<open>The handler of signal \<open>signal_id\<close> of channel \<open>c\<close>.\<close>

definition ipclite_intr :: "nat \<Rightarrow> nat \<Rightarrow> ipc_state \<Rightarrow> ipc_state option" where
  "ipclite_intr c signal_id st =
     (let ch = channel st ! c;
          st1 = upd_debug (unat (remote_pid ch))
                  (\<lambda>d. d\<lparr>last_recv_host_id := remote_pid ch, last_sigid_recv := of_nat signal_id\<rparr>)
                  (\<lambda>h. h\<lparr>num_intr := num_intr h + 1\<rparr>) st
      in if signal_id = IPCLITE_MSG_SIGNAL then rx_loop ipclite_rx_data ch st1
         else if signal_id = IPCLITE_VERSION_SIGNAL then Some st1
         else if signal_id = IPCLITE_TEST_SIGNAL then rx_loop ipclite_rx_test_data ch st1
         else Some st1)"

section \<open>Sending\<close>

definition upd_channel :: "nat \<Rightarrow> (ipclite_channel \<Rightarrow> ipclite_channel) \<Rightarrow> ipc_state \<Rightarrow> ipc_state" where
  "upd_channel c f st =
     (if c < length (channel st) then st\<lparr>channel := (channel st)[c := f (channel st ! c)]\<rparr> else ipc_flag True st)"

definition mbox_send_message :: "nat \<Rightarrow> nat \<Rightarrow> ipc_state \<Rightarrow> int \<times> ipc_state" where
  "mbox_send_message c signal_id st =
     (case irq_mbox_chan (irq_info (channel st ! c) ! signal_id) of
        Mbox_Null \<Rightarrow> (- EINVAL, st)
      | Mbox_Err e \<Rightarrow> (- EINVAL, ipc_flag True st)
      | Mbox_Chan \<Rightarrow> (mbox_answer st (length (ipc_calls st)), ipc_call_log (Mbox_Send c signal_id) st))"

definition mbox_client_txdone :: "nat \<Rightarrow> nat \<Rightarrow> ipc_state \<Rightarrow> ipc_state" where
  "mbox_client_txdone c signal_id st =
     (case irq_mbox_chan (irq_info (channel st ! c) ! signal_id) of
        Mbox_Null \<Rightarrow> st
      | Mbox_Err e \<Rightarrow> ipc_flag True st
      | Mbox_Chan \<Rightarrow> ipc_call_log (Mbox_Txdone c signal_id) st)"

text \<open>The channel becomes active when the other side has said so.\<close>

definition channel_active :: "nat \<Rightarrow> ipc_state \<Rightarrow> bool \<times> ipc_state" where
  "channel_active c st =
     (let ch = channel st ! c in
      if ch_status ch = ACTIVE then (True, st)
      else if ch_status ch = IN_PROGRESS then
        (case gstatus_ptr ch of
           None \<Rightarrow> (False, ipc_flag True st)
         | Some a \<Rightarrow> if words st a = ACTIVE then (True, upd_channel c (\<lambda>ch. ch\<lparr>ch_status := ACTIVE\<rparr>) st) else (False, st))
      else (False, st))"

definition ipclite_tx :: "nat \<Rightarrow> u64 \<Rightarrow> nat \<Rightarrow> nat \<Rightarrow> ipc_state \<Rightarrow> int \<times> ipc_state" where
  "ipclite_tx c data dlen ipclite_signal st =
     (case channel_active c st of
        (False, st1) \<Rightarrow> (- EOPNOTSUPP, st1)
      | (True, st1) \<Rightarrow>
          (case ipclite_tx_avail (channel st1 ! c) st1 of
             (avail, st2) \<Rightarrow>
               if avail < of_nat dlen then (- EAGAIN, st2)
               else
                 let st3 = ipclite_tx_write (channel st2 ! c) (take dlen (u64_bytes data)) st2;
                     st4 = snd (mbox_send_message c ipclite_signal st3)
                 in (0, mbox_client_txdone c ipclite_signal st4)))"

definition ipclite_notify_core :: "int \<Rightarrow> nat \<Rightarrow> ipc_state \<Rightarrow> int \<times> ipc_state" where
  "ipclite_notify_core proc_id signal_id st =
     (if proc_id < 0 \<or> proc_id \<ge> int IPCMEM_NUM_HOSTS then (- EINVAL, st)
      else case channel_active (nat proc_id) st of
        (False, st1) \<Rightarrow> (- EOPNOTSUPP, st1)
      | (True, st1) \<Rightarrow> (case mbox_send_message (nat proc_id) signal_id st1 of (ret, st2) \<Rightarrow> (if ret < 0 then ret else 0, st2)))"

section \<open>The interface, version 0\<close>

definition ipclite_register_client_v0 :: "nat option \<Rightarrow> nat \<Rightarrow> ipc_state \<Rightarrow> int \<times> ipc_state" where
  "ipclite_register_client_v0 cb_func_ptr priv st =
     (if cb_func_ptr = None then (- EINVAL, st)
      else (0, st\<lparr>synx_client := \<lparr>cl_callback = cb_func_ptr, cl_priv_data = priv, cl_reg_complete = True\<rparr>\<rparr>))"

definition ipclite_register_test_client_v0 :: "nat option \<Rightarrow> nat \<Rightarrow> ipc_state \<Rightarrow> int \<times> ipc_state" where
  "ipclite_register_test_client_v0 cb_func_ptr priv st =
     (if cb_func_ptr = None then (- EINVAL, st)
      else (0, st\<lparr>test_client := \<lparr>cl_callback = cb_func_ptr, cl_priv_data = priv, cl_reg_complete = True\<rparr>\<rparr>))"

definition ipclite_msg_send_v0 :: "int \<Rightarrow> u64 \<Rightarrow> ipc_state \<Rightarrow> int \<times> ipc_state" where
  "ipclite_msg_send_v0 proc_id data st =
     (if proc_id < 0 \<or> proc_id \<ge> int IPCMEM_NUM_HOSTS then (- EINVAL, st)
      else ipclite_tx (nat proc_id) data 8 IPCLITE_MSG_SIGNAL st)"

definition ipclite_test_msg_send_v0 :: "int \<Rightarrow> u64 \<Rightarrow> ipc_state \<Rightarrow> int \<times> ipc_state" where
  "ipclite_test_msg_send_v0 proc_id data st =
     (if proc_id < 0 \<or> proc_id \<ge> int IPCMEM_NUM_HOSTS then (- EINVAL, st)
      else ipclite_tx (nat proc_id) data 8 IPCLITE_TEST_SIGNAL st)"

text \<open>The address and the size of the region for the clients.\<close>

definition get_global_partition_info_v0 :: "bool \<Rightarrow> ipc_state \<Rightarrow> int \<times> (nat \<times> u32) option" where
  "get_global_partition_info_v0 null st =
     (if \<not> ipclite_up st then (- ENOMEM, None)
      else if null then (- EINVAL, None)
      else (0, Some (global_partition st + unat (gp_region_offset (global_hdr st)), gp_region_size (global_hdr st))))"

definition recover_partition :: "nat \<Rightarrow> nat \<Rightarrow> ipc_state \<Rightarrow> ipc_state" where
  "recover_partition core_id p st =
     (if unat (pe_host0 (partition_entry st p)) \<noteq> core_id \<and> unat (pe_host1 (partition_entry st p)) \<noteq> core_id then st
      else ipclite_global_atomic_store (partition st ! p + status_offset) 0 st)"

definition recover_notify :: "nat \<Rightarrow> nat \<Rightarrow> ipc_state \<Rightarrow> ipc_state" where
  "recover_notify core_id host st =
     (if \<not> is_host_enabled host st \<or> host = core_id then st else snd (ipclite_notify_core (int host) IPCLITE_SSR_SIGNAL st))"

definition ipclite_recover_v0 :: "nat \<Rightarrow> ipc_state \<Rightarrow> ipc_state" where
  "ipclite_recover_v0 core_id st =
     (let st0 = ipc_flag (\<not> ipclite_up st) st;
          st1 = (if unat (hwlock_owner st0) = core_id then st0\<lparr>hwlock_owner := IPCMEM_INVALID_HOST, hw_locked := False\<rparr> else st0);
          st2 = fold (recover_partition core_id) [0..<unat (partitions st1)] st1
      in if core_id \<ge> length (channel st2) then ipc_flag True st2
         else case (tx_fifo (channel st2 ! core_id), rx_fifo (channel st2 ! core_id), gstatus_ptr (channel st2 ! core_id)) of
           (Some tx, Some rx, Some a) \<Rightarrow>
             let st3 = put_word (fifo_tail rx) 0 (put_word (fifo_head tx) 0 st2);
                 st4 = snd (ipclite_global_atomic_inc a st3);
                 st5 = upd_channel core_id (\<lambda>ch. ch\<lparr>ch_status := words st4 a\<rparr>) st4
             in fold (recover_notify core_id) [1..<IPCMEM_NUM_HOSTS] st5
         | _ \<Rightarrow> ipc_flag True st2)"

section \<open>The versioned interface\<close>

definition ipclite_register_client :: "nat option \<Rightarrow> nat \<Rightarrow> ipc_state \<Rightarrow> int \<times> ipc_state" where
  "ipclite_register_client f priv st = (if \<not> api_register_client (api_list_t st) then (- EINVAL, st) else ipclite_register_client_v0 f priv st)"

definition ipclite_register_test_client :: "nat option \<Rightarrow> nat \<Rightarrow> ipc_state \<Rightarrow> int \<times> ipc_state" where
  "ipclite_register_test_client f priv st =
     (if \<not> api_register_test_client (api_list_t st) then (- EINVAL, st) else ipclite_register_test_client_v0 f priv st)"

definition ipclite_msg_send :: "int \<Rightarrow> u64 \<Rightarrow> ipc_state \<Rightarrow> int \<times> ipc_state" where
  "ipclite_msg_send proc_id data st = (if \<not> api_msg_send (api_list_t st) then (- EINVAL, st) else ipclite_msg_send_v0 proc_id data st)"

definition ipclite_test_msg_send :: "int \<Rightarrow> u64 \<Rightarrow> ipc_state \<Rightarrow> int \<times> ipc_state" where
  "ipclite_test_msg_send proc_id data st =
     (if \<not> api_test_msg_send (api_list_t st) then (- EINVAL, st) else ipclite_test_msg_send_v0 proc_id data st)"

definition ipclite_recover :: "nat \<Rightarrow> ipc_state \<Rightarrow> ipc_state" where
  "ipclite_recover core_id st = (if \<not> api_recover (api_list_t st) then st else ipclite_recover_v0 core_id st)"

definition get_global_partition_info :: "bool \<Rightarrow> ipc_state \<Rightarrow> int \<times> (nat \<times> u32) option" where
  "get_global_partition_info null st = (if \<not> api_partition_info (api_list_t st) then (- EINVAL, None) else get_global_partition_info_v0 null st)"

definition ipclite_update_version_api :: "ipclite_api_list \<Rightarrow> ipclite_api_list \<Rightarrow> ipclite_api_list" where
  "ipclite_update_version_api res_str ver_str =
     \<lparr>api_init = api_init ver_str \<or> api_init res_str,
      api_register_client = api_register_client ver_str \<or> api_register_client res_str,
      api_register_test_client = api_register_test_client ver_str \<or> api_register_test_client res_str,
      api_msg_send = api_msg_send ver_str \<or> api_msg_send res_str,
      api_test_msg_send = api_test_msg_send ver_str \<or> api_test_msg_send res_str,
      api_partition_info = api_partition_info ver_str \<or> api_partition_info res_str,
      api_recover = api_recover ver_str \<or> api_recover res_str\<rparr>"

definition api_list_version :: "ipclite_api_list list" where
  "api_list_version = [\<lparr>api_init = True, api_register_client = True, api_register_test_client = True, api_msg_send = True,
     api_test_msg_send = True, api_partition_info = True, api_recover = True\<rparr>]"

text \<open>One round for every version up to the minor version.\<close>

definition ipclite_register_api :: "ipc_state \<Rightarrow> int \<times> ipc_state" where
  "ipclite_register_api st =
     (0, fold (\<lambda>ver_itr s. if ver_itr < length api_list_version
                then s\<lparr>api_list_t := ipclite_update_version_api (api_list_t s) (api_list_version ! ver_itr)\<rparr> else ipc_flag True s)
           [0..<unat (minor_ver st) + 1] st)"

text \<open>The properties of the device tree, or an error code; None is the crash of the system on a wrong version.\<close>

definition ipclite_version_setup :: "int + u32 \<Rightarrow> int + u32 \<Rightarrow> ipc_state \<Rightarrow> (int \<times> ipc_state) option" where
  "ipclite_version_setup major minor st =
     (case major of
        Inl e \<Rightarrow> Some (e, st)
      | Inr v \<Rightarrow>
          let st1 = st\<lparr>major_ver := v\<rparr>
          in case minor of
               Inl e \<Rightarrow> Some (e, st1)
             | Inr w \<Rightarrow> if v \<noteq> 1 \<or> w > 0 then None else Some (0, st1\<lparr>minor_ver := w\<rparr>))"

end
