(* ===== verification/Ipc_Init.thy ===== *)
theory Ipc_Init
  imports Ipc_Channel
begin

text \<open>
  Set-up of the shared region: the table of contents, the global partition, one partition for each
  pair of enabled cores, the channels of this core with their interrupts, and the whole
  initialisation. What the kernel answers (allocations, the device tree, interrupts) is an argument.
\<close>

section \<open>The table of contents and the partitions\<close>

text \<open>The checksum of the 12 words of the header of the table: the first word makes the exclusive or of all of them all ones.\<close>

definition insert_magic_number :: "ipc_state \<Rightarrow> ipc_state" where
  "insert_magic_number st = st\<lparr>toc_hdr := (toc_hdr st)[0 := NOT (fold (\<lambda>i b. b XOR toc_hdr st ! i) [1..<12] (toc_hdr st ! 0))]\<rparr>"

definition setup_toc :: "ipc_state \<Rightarrow> int \<times> ipc_state" where
  "setup_toc st =
     (let offset = IPCMEM_TOC_VAR_OFFSET
      in (0, st\<lparr>toc_offsets := \<lparr>io_host_info = offset, io_global_entry = offset + 8, io_partition_info = offset + 8 + 24,
                  io_partition_entry = offset + 8 + 24 + 8\<rparr>\<rparr>))"

definition setup_global_partition :: "u32 \<Rightarrow> ipc_state \<Rightarrow> ipc_state" where
  "setup_global_partition base_offset st =
     (ipc_flag (\<not> in_region (unat base_offset) 12 st) st)
       \<lparr>global_entry := \<lparr>pe_base_offset = base_offset, pe_size = GLOBAL_PARTITION_SIZE, pe_flags = 3,
          pe_host0 = IPCMEM_GLOBAL_HOST, pe_host1 = IPCMEM_GLOBAL_HOST\<rparr>,
        global_partition := unat base_offset, global_hdr := global_partition_hdr\<rparr>"

text \<open>The header is copied to the start of the partition, its status with it.\<close>

definition update_partition :: "nat \<Rightarrow> ipc_state \<Rightarrow> ipc_state" where
  "update_partition p st =
     (let e = partition_entry st p;
          base = unat (pe_base_offset e);
          hdr = (if pe_host0 e = pe_host1 e then loopback_partition_hdr else default_partition_hdr)
      in put_word (base + status_offset) INACTIVE
           (st\<lparr>partition := (partition st)[p := base], partition_hdr := (partition_hdr st)(base := hdr)\<rparr>))"

definition add_partition :: "nat \<Rightarrow> nat \<Rightarrow> u32 \<times> nat \<times> ipc_state \<Rightarrow> u32 \<times> nat \<times> ipc_state" where
  "add_partition host0 host1 x =
     (case x of (base_offset, num_entry, st) \<Rightarrow>
        if \<not> is_host_enabled host1 st \<or> is_loopback_except_apps host0 host1 then x
        else (base_offset + DEFAULT_PARTITION_SIZE, num_entry + 1,
              st\<lparr>partition_entry := (partition_entry st)(num_entry := \<lparr>pe_base_offset = base_offset, pe_size = DEFAULT_PARTITION_SIZE,
                   pe_flags = 3, pe_host0 = of_nat host0, pe_host1 = of_nat host1\<rparr>)\<rparr>))"

definition partition_entries :: "u32 \<Rightarrow> ipc_state \<Rightarrow> u32 \<times> nat \<times> ipc_state" where
  "partition_entries base_offset st =
     fold (\<lambda>host0 x. if \<not> is_host_enabled host0 st then x else fold (add_partition host0) [host0..<IPCMEM_NUM_HOSTS] x)
       [0..<IPCMEM_NUM_HOSTS] (base_offset, 0, st)"

definition setup_partitions :: "bool \<Rightarrow> u32 \<Rightarrow> ipc_state \<Rightarrow> int \<times> ipc_state" where
  "setup_partitions alloc base_offset st =
     (case partition_entries base_offset st of
        (_, num_entry, st1) \<Rightarrow>
          if \<not> alloc then (- ENOMEM, st1)
          else
            let st2 = fold update_partition [0..<num_entry] (st1\<lparr>partition := replicate num_entry 0\<rparr>)
            in (0, st2\<lparr>num_entries := of_nat num_entry, partitions := of_nat num_entry, entry_size := 24\<rparr>))"

text \<open>
  The children of the device node: the id of the remote core, or None when it cannot be read; then
  the id of the child before it is used again.
\<close>

fun enable_hosts :: "u32 option list \<Rightarrow> u32 \<Rightarrow> u32 \<Rightarrow> u32" where
  "enable_hosts [] rem_pid hosts = hosts"
| "enable_hosts (c # cs) rem_pid hosts =
     (let pid = (case c of None \<Rightarrow> rem_pid | Some p \<Rightarrow> p)
      in enable_hosts cs pid (if pid < of_nat IPCMEM_NUM_HOSTS then hosts OR push_bit (unat pid) 1 else hosts))"

definition ipcmem_init :: "u32 option list \<Rightarrow> bool \<Rightarrow> ipc_state \<Rightarrow> int \<times> ipc_state" where
  "ipcmem_init children alloc st =
     (case setup_toc (st\<lparr>enabled_hosts := enable_hosts children 0 (enabled_hosts st)\<rparr>) of
        (ret, st1) \<Rightarrow>
          if ret \<noteq> 0 then (ret, st1)
          else
            let st2 = st1\<lparr>hwlock_owner := IPCMEM_INVALID_HOST, configured_host := enabled_hosts st1\<rparr>;
                gmem_offset = 0 + IPCMEM_TOC_SIZE;
                st3 = setup_global_partition gmem_offset st2;
                gmem_offset = gmem_offset + GLOBAL_PARTITION_SIZE
            in case setup_partitions alloc gmem_offset st3 of
                 (ret, st4) \<Rightarrow> if ret \<noteq> 0 then (ret, st4) else (0, st4\<lparr>toc_hdr := (toc_hdr st4)[1 := 1]\<rparr>))"

section \<open>Channels\<close>

text \<open>The address of the header of the partition of two cores.\<close>

definition get_ipcmem_partition_hdr :: "nat \<Rightarrow> nat \<Rightarrow> ipc_state \<Rightarrow> nat option" where
  "get_ipcmem_partition_hdr local_pid rem_pid st =
     (case List.find (\<lambda>p. pe_host0 (partition_entry st p) = of_nat local_pid \<and> pe_host1 (partition_entry st p) = of_nat rem_pid)
             [0..<unat (partitions st)] of
        None \<Rightarrow> None
      | Some p \<Rightarrow> Some (unat (pe_base_offset (partition_entry st p))))"

text \<open>
  What the kernel answers for the interrupt of a signal: the allocation, the registration of the
  device, the index of the signal or an error code, the mailbox, and the request of the interrupt.
\<close>

record irq_setup =
  is_alloc :: bool
  is_register :: int
  is_index :: "int + nat"
  is_mbox :: mbox_chan
  is_request :: int

text \<open>A failed mailbox leaves with the return code of the index, which is 0.\<close>

definition ipclite_channel_irq_init :: "irq_setup \<Rightarrow> nat \<Rightarrow> ipc_state \<Rightarrow> int \<times> ipc_state" where
  "ipclite_channel_irq_init env c st =
     (if \<not> is_alloc env then (- ENOMEM, st)
      else if is_register env \<noteq> 0 then (is_register env, st)
      else case is_index env of
        Inl e \<Rightarrow> (e, st)
      | Inr index \<Rightarrow>
          let st1 = ipc_flag (index \<ge> MAX_CHANNEL_SIGNALS)
                      (upd_channel c (\<lambda>ch. ch\<lparr>irq_info := (irq_info ch)[index := (irq_info ch ! index)\<lparr>irq_mbox_chan := is_mbox env\<rparr>]\<rparr>) st)
          in case is_mbox env of
               Mbox_Err e \<Rightarrow> (0, st1)
             | _ \<Rightarrow> (is_request env,
                     upd_channel c (\<lambda>ch. ch\<lparr>irq_info := (irq_info ch)[index := (irq_info ch ! index)\<lparr>irq_signal_id := index\<rparr>]\<rparr>) st1))"

fun irq_init_loop :: "irq_setup list \<Rightarrow> nat \<Rightarrow> ipc_state \<Rightarrow> int \<times> ipc_state" where
  "irq_init_loop [] c st = (0, st)"
| "irq_init_loop (e # es) c st =
     (case ipclite_channel_irq_init e c st of (ret, st1) \<Rightarrow> if ret \<noteq> 0 then (ret, st1) else irq_init_loop es c st1)"

text \<open>What the kernel answers for a channel: the allocation and registration of the device, the remote core, the rings, the signals.\<close>

record channel_setup =
  cs_alloc :: bool
  cs_register :: int
  cs_remote_pid :: "int + u32"
  cs_fifo_alloc :: bool
  cs_irqs :: "irq_setup list"

text \<open>The rings of the partition at \<open>a\<close>, first that to the other core.\<close>

definition channel_fifos :: "nat \<Rightarrow> nat \<Rightarrow> nat \<Rightarrow> ipc_state \<Rightarrow> ipclite_fifo \<times> ipclite_fifo" where
  "channel_fifos local_pid rem_pid a st =
     (let h = partition_hdr st a;
          descs = a + unat (ph_desc_offset h);
          f0 = \<lparr>fifo_length = ph_fifo0_size h, fifo_tail = descs, fifo_head = descs + 4, fifo_mem = a + unat (ph_fifo0_offset h)\<rparr>;
          f1 = \<lparr>fifo_length = ph_fifo1_size h, fifo_tail = descs + 8, fifo_head = descs + 12, fifo_mem = a + unat (ph_fifo1_offset h)\<rparr>;
          (tx, rx) = (if local_pid < rem_pid then (f0, f1) else (f1, f0))
      in if ph_type h = LOOPBACK_PARTITION_TYPE then (tx, rx\<lparr>fifo_tail := fifo_tail tx, fifo_head := fifo_head tx\<rparr>) else (tx, rx))"

definition channel_fail :: "nat \<Rightarrow> ipc_state \<Rightarrow> ipc_state" where
  "channel_fail rem_pid = upd_channel rem_pid (\<lambda>ch. ch\<lparr>ch_status := INACTIVE\<rparr>)"

definition ipclite_channel_init :: "channel_setup \<Rightarrow> ipc_state \<Rightarrow> int \<times> ipc_state" where
  "ipclite_channel_init env st =
     (if \<not> cs_alloc env then (- ENOMEM, st)
      else if cs_register env \<noteq> 0 then (cs_register env, st)
      else case cs_remote_pid env of
        Inl e \<Rightarrow> (e, channel_fail 0 st)
      | Inr pid \<Rightarrow>
          if \<not> cs_fifo_alloc env then (- ENOMEM, channel_fail (unat pid) st)
          else case get_ipcmem_partition_hdr IPCMEM_APPS (unat pid) st of
            None \<Rightarrow> (- ENOMEM, channel_fail (unat pid) st)
          | Some a \<Rightarrow>
              case channel_fifos IPCMEM_APPS (unat pid) a st of
                (tx, rx) \<Rightarrow>
                  let st1 = put_word (fifo_head tx) 0 (put_word (fifo_tail rx) 0 st);
                      st2 = upd_channel (unat pid) (\<lambda>ch. ch\<lparr>remote_pid := pid, tx_fifo := Some tx, rx_fifo := Some rx,
                              gstatus_ptr := Some (a + status_offset)\<rparr>) st1
                  in case irq_init_loop (cs_irqs env) (unat pid) st2 of
                       (ret, st3) \<Rightarrow>
                         if ret \<noteq> 0 then (ret, channel_fail (unat pid) st3)
                         else
                           let status = (if unat pid = IPCMEM_APPS then ACTIVE else IN_PROGRESS)
                           in (0, upd_channel (unat pid) (\<lambda>ch. ch\<lparr>ch_status := status\<rparr>) (put_word (a + status_offset) status st3)))"

text \<open>The result of the initialisation of a channel is dropped.\<close>

definition probe_subsystem :: "channel_setup \<Rightarrow> ipc_state \<Rightarrow> ipc_state" where
  "probe_subsystem env st = snd (ipclite_channel_init env st)"

section \<open>The whole initialisation\<close>

text \<open>The two halves of the feature mask, or error codes.\<close>

definition ipclite_feature_setup :: "int + u32 \<Rightarrow> int + u32 \<Rightarrow> ipc_state \<Rightarrow> int \<times> ipc_state" where
  "ipclite_feature_setup low high st =
     (case low of
        Inl e \<Rightarrow> (e, st)
      | Inr l \<Rightarrow>
          (case high of
             Inl e \<Rightarrow> (e, st)
           | Inr h \<Rightarrow>
               let m = push_bit 32 (ucast h) OR ucast l
               in (0, st\<lparr>feature_mask := m, toc_hdr := (toc_hdr st)[4 := ucast m, 5 := ucast (drop_bit 32 m)]\<rparr>)))"

record init_setup =
  in_alloc :: bool
  in_hwlock_id :: int
  in_hwlock :: bool
  in_map :: "int + u32"
  in_children :: "u32 option list"
  in_kcalloc :: bool
  in_channels :: "channel_setup list"
  in_debug :: int
  in_features :: "(int + u32) \<times> (int + u32)"

definition zero_channel :: ipclite_channel where
  "zero_channel = \<lparr>remote_pid = 0, tx_fifo = None, rx_fifo = None,
     irq_info = replicate MAX_CHANNEL_SIGNALS \<lparr>irq_mbox_chan = Mbox_Null, irq_signal_id = 0\<rparr>, gstatus_ptr = None, ch_status = INACTIVE\<rparr>"

text \<open>The fresh driver data, and the mapped region after it was cleared.\<close>

definition clear_region :: "u32 \<Rightarrow> ipc_state \<Rightarrow> ipc_state" where
  "clear_region sz st = st\<lparr>mem_size := sz, words := (\<lambda>_. 0), bytes := (\<lambda>_. 0), toc_hdr := replicate 12 0, hwlock_owner := 0, configured_host := 0,
     num_entries := 0, entry_size := 0, partition_entry := (\<lambda>_. \<lparr>pe_base_offset = 0, pe_size = 0, pe_flags = 0, pe_host0 = 0, pe_host1 = 0\<rparr>),
     partition_hdr := (\<lambda>_. \<lparr>ph_type = 0, ph_desc_offset = 0, ph_desc_size = 0, ph_fifo0_offset = 0, ph_fifo0_size = 0,
       ph_fifo1_offset = 0, ph_fifo1_size = 0\<rparr>)\<rparr>"

definition zero_debug_host :: ipclite_debug_info_host where
  "zero_debug_host = \<lparr>numsig_sent = 0, numsig_recv = 0, tx_wr_index = 0, tx_rd_index = 0, rx_wr_index = 0, rx_rd_index = 0, num_intr = 0,
     prev_tx_wr_index = (0, 0), prev_tx_rd_index = (0, 0), prev_rx_wr_index = (0, 0), prev_rx_rd_index = (0, 0)\<rparr>"

text \<open>The debug data lies at the end of the region; \<open>ret\<close> is the result of the set-up of its files.\<close>

definition ipclite_debug_setup :: "int \<Rightarrow> ipc_state \<Rightarrow> int \<times> ipc_state" where
  "ipclite_debug_setup ret st =
     (if ret \<noteq> 0 then (ret, st)
      else (0, st\<lparr>dbg_struct := Some \<lparr>total_numsig_sent = 0, total_numsig_recv = 0, last_sent_host_id = 0, last_recv_host_id = 0,
        last_sigid_sent = 0, last_sigid_recv = 0, dbg_info_host = replicate IPCMEM_NUM_HOSTS zero_debug_host\<rparr>\<rparr>))"

definition ipclite_release :: "int \<Rightarrow> ipc_state \<Rightarrow> int \<times> ipc_state" where
  "ipclite_release ret st = (ret, st\<lparr>ipclite_up := False\<rparr>)"

definition ipclite_init_v0 :: "init_setup \<Rightarrow> ipc_state \<Rightarrow> int \<times> ipc_state" where
  "ipclite_init_v0 env st =
     (if \<not> in_alloc env then (- ENOMEM, st\<lparr>ipclite_up := False\<rparr>)
      else
        let st1 = st\<lparr>ipclite_up := True, channel := replicate IPCMEM_NUM_HOSTS zero_channel\<rparr> in
        if in_hwlock_id env < 0 then ipclite_release (in_hwlock_id env) st1
        else if \<not> in_hwlock env then ipclite_release (- ENXIO) st1
        else case in_map env of
          Inl e \<Rightarrow> ipclite_release e st1
        | Inr sz \<Rightarrow>
            case ipcmem_init (in_children env) (in_kcalloc env) (clear_region sz st1) of
              (ret, st2) \<Rightarrow>
                if ret \<noteq> 0 then ipclite_release ret st2
                else
                  let st3 = fold probe_subsystem (in_channels env) st2
                  in case mbox_send_message IPCMEM_APPS IPCLITE_MEM_INIT_SIGNAL st3 of
                       (ret, st4) \<Rightarrow>
                         if ret < 0 then ipclite_release ret st4
                         else
                           let st5 = mbox_client_txdone IPCMEM_APPS IPCLITE_MEM_INIT_SIGNAL st4
                           in case ipclite_debug_setup (in_debug env) st5 of
                                (ret, st6) \<Rightarrow>
                                  if ret \<noteq> 0 then ipclite_release ret st6
                                  else case ipclite_feature_setup (fst (in_features env)) (snd (in_features env)) st6 of
                                    (ret, st7) \<Rightarrow>
                                      if ret \<noteq> 0 then ipclite_release ret st7
                                      else (ret, insert_magic_number (st7\<lparr>toc_hdr := (toc_hdr st7)[2 := major_ver st7, 3 := minor_ver st7]\<rparr>)))"

definition ipclite_init :: "init_setup \<Rightarrow> ipc_state \<Rightarrow> int \<times> ipc_state" where
  "ipclite_init env st = (if \<not> api_init (api_list_t st) then (- EINVAL, st) else ipclite_init_v0 env st)"

definition ipclite_probe :: "int + u32 \<Rightarrow> int + u32 \<Rightarrow> init_setup \<Rightarrow> ipc_state \<Rightarrow> (int \<times> ipc_state) option" where
  "ipclite_probe major minor env st =
     Option.bind (ipclite_version_setup major minor st)
       (\<lambda>(ret, st1). if ret \<noteq> 0 then Some (ret, st1)
          else case ipclite_register_api st1 of
                 (ret, st2) \<Rightarrow> if ret \<noteq> 0 then Some (ret, st2) else Some (ipclite_init env st2))"

end
