(* ===== verification/Ipc_Ring.thy ===== *)
theory Ipc_Ring
  imports Ipc_Init
begin

text \<open>
  A ring of the message layer as a bounded queue of 64-bit messages: with well-formed indexes the
  byte counts are counts of messages, a write appends one and a read takes the oldest. The ring is
  an interpretation of the queue contract of the prelude.
\<close>

section \<open>Bytes of a message\<close>

lemma length_u64_bytes [simp]: "length (u64_bytes w) = 8"
  by (simp add: u64_bytes_def)

lemma bytes_u64_bit:
  "bit (bytes_u64 bs) n \<longleftrightarrow> n < 64 \<and> bit (bs ! (n div 8)) (n mod 8)"
proof -
  have f: "bit (fold (\<lambda>i w. w OR push_bit (8 * i) (ucast (bs ! i) :: u64)) [0..<m] 0) n \<longleftrightarrow>
      n < 64 \<and> n div 8 < m \<and> bit (bs ! (n div 8)) (n mod 8)" for m
  proof (induction m)
    case (Suc m)
    have "bit (push_bit (8 * m) (ucast (bs ! m) :: u64)) n \<longleftrightarrow> n < 64 \<and> n div 8 = m \<and> bit (bs ! (n div 8)) (n mod 8)"
    proof (cases "8 * m \<le> n \<and> n < 8 * m + 8")
      case True
      then have m: "n div 8 = m" by auto
      have "n mod 8 = n - 8 * m" unfolding m [symmetric] by (rule minus_mult_div_eq_mod [symmetric])
      note m this
      then show ?thesis using True by (auto simp: bit_simps)
    next
      case False
      then have "n div 8 \<noteq> m" by auto
      moreover have "\<not> bit (push_bit (8 * m) (ucast (bs ! m) :: u64)) n"
        using False bit_imp_le_length [of "bs ! m" "n - 8 * m"] by (auto simp: bit_simps)
      ultimately show ?thesis by blast
    qed
    then show ?case using Suc by (auto simp: bit_or_iff less_Suc_eq)
  qed simp
  show ?thesis unfolding bytes_u64_def f by auto
qed

lemma bytes_u64_bytes [simp]: "bytes_u64 (u64_bytes w) = w"
proof (rule bit_word_eqI)
  fix n assume "n < LENGTH(64)"
  then have n: "n < 64" by simp
  then have "n div 8 < 8" by auto
  then have "u64_bytes w ! (n div 8) = ucast (drop_bit (8 * (n div 8)) w)" by (simp add: u64_bytes_def)
  then show "bit (bytes_u64 (u64_bytes w)) n = bit w n"
    using n by (simp add: bytes_u64_bit bit_simps)
qed

section \<open>Accesses to the region\<close>

lemma put_word_simps [simp]:
  "words (put_word a v st) = (words st)(a := v)" "bytes (put_word a v st) = bytes st" "mem_size (put_word a v st) = mem_size st"
  "channel (put_word a v st) = channel st" "api_list_t (put_word a v st) = api_list_t st" "synx_client (put_word a v st) = synx_client st"
  "test_client (put_word a v st) = test_client st" "debug_control (put_word a v st) = debug_control st"
  "dbg_struct (put_word a v st) = dbg_struct st" "ipc_calls (put_word a v st) = ipc_calls st"
  "in_region b k (put_word a v st) = in_region b k st"
  "ipc_ub (put_word a v st) = (ipc_ub st \<or> \<not> in_region a 4 st)"
  by (auto simp: put_word_def ipc_flag_def in_region_def)

lemma poke_bytes_simps [simp]:
  "words (poke_bytes a bs st) = words st" "mem_size (poke_bytes a bs st) = mem_size st" "channel (poke_bytes a bs st) = channel st"
  "api_list_t (poke_bytes a bs st) = api_list_t st" "synx_client (poke_bytes a bs st) = synx_client st" "test_client (poke_bytes a bs st) = test_client st"
  "debug_control (poke_bytes a bs st) = debug_control st" "dbg_struct (poke_bytes a bs st) = dbg_struct st"
  "ipc_calls (poke_bytes a bs st) = ipc_calls st" "in_region b k (poke_bytes a bs st) = in_region b k st"
  "ipc_ub (poke_bytes a bs st) = (ipc_ub st \<or> \<not> in_region a (length bs) st)"
  by (auto simp: poke_bytes_def ipc_flag_def in_region_def)

lemma ipc_flag_simps [simp]:
  "words (ipc_flag b st) = words st" "bytes (ipc_flag b st) = bytes st" "mem_size (ipc_flag b st) = mem_size st"
  "channel (ipc_flag b st) = channel st" "api_list_t (ipc_flag b st) = api_list_t st" "synx_client (ipc_flag b st) = synx_client st"
  "test_client (ipc_flag b st) = test_client st" "debug_control (ipc_flag b st) = debug_control st" "dbg_struct (ipc_flag b st) = dbg_struct st"
  "ipc_calls (ipc_flag b st) = ipc_calls st" "in_region a k (ipc_flag b st) = in_region a k st"
  "ipc_ub (ipc_flag b st) = (ipc_ub st \<or> b)" "ipc_flag False st = st"
  by (auto simp: ipc_flag_def in_region_def)

lemma peek_poke_same [simp]: "peek_bytes a (length bs) (poke_bytes a bs st) = bs"
  by (rule nth_equalityI) (auto simp: peek_bytes_def poke_bytes_def)

lemma peek_poke_other:
  "b + k \<le> a \<or> a + length bs \<le> b \<Longrightarrow> peek_bytes b k (poke_bytes a bs st) = peek_bytes b k st"
  by (auto simp: peek_bytes_def poke_bytes_def)

lemma peek_cong: "bytes st = bytes st' \<Longrightarrow> peek_bytes a k st = peek_bytes a k st'"
  by (simp add: peek_bytes_def)

lemma length_peek [simp]: "length (peek_bytes a k st) = k"
  by (simp add: peek_bytes_def)

text \<open>The debug data of a core is there whenever it is recorded.\<close>

definition debug_ok :: "nat \<Rightarrow> ipc_state \<Rightarrow> bool" where
  "debug_ok core st \<longleftrightarrow> debug_control st AND IPCLITE_DBG_STRUCT = 0 \<or>
     (\<exists>d. dbg_struct st = Some d \<and> core < length (dbg_info_host d))"

lemma upd_debug_simps [simp]:
  "words (upd_debug c f g st) = words st" "bytes (upd_debug c f g st) = bytes st" "mem_size (upd_debug c f g st) = mem_size st"
  "channel (upd_debug c f g st) = channel st" "api_list_t (upd_debug c f g st) = api_list_t st"
  "synx_client (upd_debug c f g st) = synx_client st" "test_client (upd_debug c f g st) = test_client st" "debug_control (upd_debug c f g st) = debug_control st"
  "ipc_calls (upd_debug c f g st) = ipc_calls st" "in_region a k (upd_debug c f g st) = in_region a k st"
  by (auto simp: upd_debug_def in_region_def split: option.splits)

lemma upd_debug_ok:
  assumes "debug_ok c st" "\<And>d. length (dbg_info_host (f d)) = length (dbg_info_host d)"
  shows "ipc_ub (upd_debug c f g st) = ipc_ub st" "debug_ok c' (upd_debug c f g st) = debug_ok c' st"
  using assms by (auto simp: upd_debug_def debug_ok_def)

section \<open>Well-formed rings\<close>

text \<open>
  The length and both indexes are multiples of 8, the indexes are in the ring, and the ring and its
  indexes are in the region. The core is that of the debug data.
\<close>

definition ring_slots_count :: "ipclite_fifo \<Rightarrow> nat" where
  "ring_slots_count f = unat (fifo_length f) div 8"

definition ring_read :: "ipclite_fifo \<Rightarrow> ipc_state \<Rightarrow> nat" where
  "ring_read f st = unat (words st (fifo_tail f)) div 8"

definition ring_write :: "ipclite_fifo \<Rightarrow> ipc_state \<Rightarrow> nat" where
  "ring_write f st = unat (words st (fifo_head f)) div 8"

definition ring_ok :: "ipclite_fifo \<Rightarrow> ipc_state \<Rightarrow> bool" where
  "ring_ok f st \<longleftrightarrow> 2 \<le> ring_slots_count f \<and> unat (fifo_length f) = 8 * ring_slots_count f \<and> unat (fifo_length f) < 2 ^ 31 \<and>
     unat (words st (fifo_tail f)) = 8 * ring_read f st \<and> ring_read f st < ring_slots_count f \<and>
     unat (words st (fifo_head f)) = 8 * ring_write f st \<and> ring_write f st < ring_slots_count f \<and>
     fifo_tail f \<noteq> fifo_head f \<and> in_region (fifo_tail f) 4 st \<and> in_region (fifo_head f) 4 st \<and>
     in_region (fifo_mem f) (8 * ring_slots_count f) st"

definition ring_msg :: "ipclite_fifo \<Rightarrow> ipc_state \<Rightarrow> nat \<Rightarrow> u64" where
  "ring_msg f st i = bytes_u64 (peek_bytes (fifo_mem f + 8 * i) 8 st)"

definition ring_msgs :: "ipclite_fifo \<Rightarrow> ipc_state \<Rightarrow> u64 list" where
  "ring_msgs f st = map (ring_msg f st) (ring_slots (ring_slots_count f) (ring_read f st) (ring_write f st))"

lemma ring_ok_cong:
  assumes "ring_ok f st" "words st' = words st" "mem_size st' = mem_size st"
  shows "ring_ok f st'" "ring_read f st' = ring_read f st" "ring_write f st' = ring_write f st"
  using assms by (simp_all add: ring_ok_def ring_read_def ring_write_def in_region_def)

lemma u32_minus: "unat b \<le> unat a \<Longrightarrow> unat (a - b) = unat a - unat (b :: u32)"
  by (rule unat_minus_eq)

text \<open>The messages to be read, and the room that is left.\<close>

lemma rx_avail_ring:
  assumes "ring_ok f st"
  shows "unat (ipcmem_rx_avail f st) = 8 * length (ring_msgs f st)"
proof -
  let ?n = "ring_slots_count f" and ?r = "ring_read f st" and ?w = "ring_write f st"
  let ?h = "words st (fifo_head f)" and ?t = "words st (fifo_tail f)" and ?l = "fifo_length f"
  have u: "unat ?h = 8 * ?w" "unat ?t = 8 * ?r" "unat ?l = 8 * ?n" "?w < ?n" "?r < ?n" "8 * ?n < 2 ^ 31"
    using assms by (simp_all add: ring_ok_def)
  have "unat (if ?h < ?t then ?l - ?t + ?h else ?h - ?t) = 8 * ring_count ?n ?r ?w"
  proof (cases "?h < ?t")
    case True
    then have w: "?w < ?r" using u by (simp add: word_less_nat_alt)
    have d: "unat (?l - ?t) = 8 * ?n - 8 * ?r" using u by (simp add: u32_minus)
    have "unat (?l - ?t + ?h) = unat (?l - ?t) + unat ?h" by (rule unat_plus_eq) (use u w d in simp)
    then show ?thesis using True u w d by (simp add: ring_count_def)
  next
    case False
    then have "?r \<le> ?w" using u by (simp add: word_less_nat_alt)
    then show ?thesis using False u by (simp add: u32_minus ring_count_def)
  qed
  moreover have "ring_count ?n ?r ?w \<le> ?n" using u by (auto simp: ring_count_def)
  ultimately show ?thesis using u
    by (simp add: ipcmem_rx_avail_def Let_def word_less_nat_alt ring_msgs_def)
qed

lemma tx_avail_ring:
  assumes "ring_ok f st"
  shows "unat (ipcmem_tx_avail f st) = 8 * (ring_slots_count f - 1 - length (ring_msgs f st))" "length (ring_msgs f st) < ring_slots_count f"
proof -
  let ?n = "ring_slots_count f" and ?r = "ring_read f st" and ?w = "ring_write f st"
  let ?h = "words st (fifo_head f)" and ?t = "words st (fifo_tail f)" and ?l = "fifo_length f"
  have u: "unat ?h = 8 * ?w" "unat ?t = 8 * ?r" "unat ?l = 8 * ?n" "?w < ?n" "?r < ?n" "8 * ?n < 2 ^ 31"
    using assms by (simp_all add: ring_ok_def)
  let ?a = "if ?t \<le> ?h then ?l - ?h + ?t else ?t - ?h"
  have c: "ring_count ?n ?r ?w < ?n" using u by (auto simp: ring_count_def)
  have a: "unat ?a = 8 * (?n - ring_count ?n ?r ?w)"
  proof (cases "?t \<le> ?h")
    case True
    then have w: "?r \<le> ?w" using u by (simp add: word_le_nat_alt)
    have d: "unat (?l - ?h) = 8 * ?n - 8 * ?w" using u by (simp add: u32_minus)
    have "unat (?l - ?h + ?t) = unat (?l - ?h) + unat ?t" by (rule unat_plus_eq) (use u w d in simp)
    then show ?thesis using True u w d by (simp add: ring_count_def)
  next
    case False
    then have "?w < ?r" using u by (simp add: word_le_nat_alt)
    then show ?thesis using False u by (simp add: u32_minus ring_count_def)
  qed
  have "unat (?a - 8) = 8 * (?n - 1 - ring_count ?n ?r ?w)" using a c by (subst u32_minus) auto
  moreover have "\<not> ?a < 8" using a c by (simp add: word_less_nat_alt del: if_split)
  ultimately show "unat (ipcmem_tx_avail f st) = 8 * (?n - 1 - length (ring_msgs f st))" using u
    by (simp add: ipcmem_tx_avail_def Let_def word_less_nat_alt ring_msgs_def del: if_split)
  show "length (ring_msgs f st) < ?n" using c by (simp add: ring_msgs_def)
qed

section \<open>Writing and reading a message\<close>

lemma align8_slot:
  assumes "unat x = 8 * k" "8 * k < 2 ^ 31"
  shows "align8 x = x"
proof -
  have y: "unat (x + 7) = 8 * k + 7" using assms by (simp add: unat_word_ariths)
  have b7: "bit (7 :: u32) n \<longleftrightarrow> n < 3" for n
  proof -
    have seven: "(7 :: u32) = mask 3" by (simp add: mask_eq_exp_minus_1)
    show ?thesis unfolding seven bit_mask_iff by auto
  qed
  have m: "(x + 7) AND 7 = 7"
  proof -
    have "(x + 7) AND 7 = take_bit 3 (x + 7)" by (simp add: take_bit_eq_mask mask_eq_exp_minus_1)
    also have "\<dots> = 7"
    proof (rule unsigned_word_eqI)
      have "unat (take_bit 3 (x + 7)) = take_bit 3 (8 * k + 7)" by (simp only: unsigned_take_bit_eq y)
      also have "\<dots> = 7" by (simp add: take_bit_eq_mod mod_add_eq [symmetric])
      finally show "unat (take_bit 3 (x + 7)) = unat (7 :: u32)" by simp
    qed
    finally show ?thesis .
  qed
  have "(x + 7) AND NOT 7 OR (x + 7) AND 7 = x + 7" by (rule bit_word_eqI) (auto simp: bit_simps)
  moreover have "((x + 7) AND NOT 7) + ((x + 7) AND 7) = ((x + 7) AND NOT 7) OR ((x + 7) AND 7)"
    by (rule disjunctive_add) (simp add: bit_simps b7)
  ultimately have "align8 x + 7 = x + 7" using m by (simp add: align8_def)
  then show ?thesis by simp
qed

definition slot_pos :: "nat \<Rightarrow> u32" where
  "slot_pos i = word_of_nat (8 * i)"

lemma unat_slot:
  assumes "i < ring_slots_count f" "ring_ok f st"
  shows "unat (slot_pos i) = 8 * i"
proof -
  have "8 * i < 2 ^ 32" using assms by (simp add: ring_ok_def)
  then show ?thesis unfolding slot_pos_def unat_of_nat by simp
qed

lemma slot_posI: "unat x = 8 * i \<Longrightarrow> x = slot_pos i"
  unfolding slot_pos_def by (metis of_nat_unat ucast_id)

text \<open>The next index in bytes.\<close>

lemma next_index:
  assumes "ring_ok f st" "i < ring_slots_count f" "unat x = 8 * i"
  shows "(if x + 8 \<ge> fifo_length f then x + 8 - fifo_length f else x + 8) = slot_pos (ring_next (ring_slots_count f) i)"
    and "(if x + 8 \<ge> fifo_length f then (x + 8) mod fifo_length f else x + 8) = slot_pos (ring_next (ring_slots_count f) i)"
proof -
  let ?n = "ring_slots_count f"
  have l: "unat (fifo_length f) = 8 * ?n" "8 * ?n < 2 ^ 31" "2 \<le> ?n" using assms(1) by (simp_all add: ring_ok_def)
  have x: "unat (x + 8) = 8 * Suc i" using assms(2,3) l by (subst unat_plus_eq) auto
  have "(if x + 8 \<ge> fifo_length f then x + 8 - fifo_length f else x + 8) = slot_pos (ring_next ?n i) \<and>
      (if x + 8 \<ge> fifo_length f then (x + 8) mod fifo_length f else x + 8) = slot_pos (ring_next ?n i)"
  proof (cases "Suc i < ?n")
    case True
    then have "\<not> x + 8 \<ge> fifo_length f" using x l by (simp add: word_le_nat_alt)
    moreover have "x + 8 = slot_pos (Suc i)" using x by (rule slot_posI)
    ultimately show ?thesis using True by (simp add: ring_next_def)
  next
    case False
    then have "Suc i = ?n" using assms(2) by simp
    then have "x + 8 = fifo_length f" using slot_posI [OF x] slot_posI [OF l(1)] by simp
    then show ?thesis using False by (simp add: ring_next_def slot_pos_def)
  qed
  then show "(if x + 8 \<ge> fifo_length f then x + 8 - fifo_length f else x + 8) = slot_pos (ring_next ?n i)"
    and "(if x + 8 \<ge> fifo_length f then (x + 8) mod fifo_length f else x + 8) = slot_pos (ring_next ?n i)" by blast+
qed

lemma tx_write_eq:
  assumes "ring_ok f st"
  obtains F G where "ipcmem_tx_write f (u64_bytes m) core sig st =
      upd_debug core F G (put_word (fifo_head f) (slot_pos (ring_next (ring_slots_count f) (ring_write f st)))
        (poke_bytes (fifo_mem f + 8 * ring_write f st) (u64_bytes m) st))"
    "\<And>d. length (dbg_info_host (F d)) = length (dbg_info_host d)"
proof -
  let ?n = "ring_slots_count f" and ?w = "ring_write f st" and ?h = "words st (fifo_head f)"
  have u: "unat ?h = 8 * ?w" "?w < ?n" "unat (fifo_length f) = 8 * ?n" "8 * ?n < 2 ^ 31" "2 \<le> ?n" using assms by (simp_all add: ring_ok_def)
  have nx: "ring_next ?n ?w < ?n" using u(5) by (simp add: ring_next_less)
  have one: "ipcmem_tx_write_one f ?h (u64_bytes m) st =
      (slot_pos (ring_next ?n ?w), poke_bytes (fifo_mem f + 8 * ?w) (u64_bytes m) st)"
    using u next_index(1) [OF assms u(2,1)] by (simp add: ipcmem_tx_write_one_def Let_def word_less_nat_alt u32_minus)
  have un: "unat (slot_pos (ring_next ?n ?w)) = 8 * ring_next ?n ?w" by (rule unat_slot [OF nx assms])
  have al: "align8 (slot_pos (ring_next ?n ?w)) = slot_pos (ring_next ?n ?w)"
    by (rule align8_slot [OF un]) (use nx u(4) in simp)
  have "\<not> fifo_length f \<le> slot_pos (ring_next ?n ?w)" using un nx u(3) by (simp add: word_le_nat_alt)
  then show ?thesis using that unfolding ipcmem_tx_write_def one prod.case al Let_def by simp
qed

lemma rx_peak_eq:
  assumes "ring_ok f st"
  shows "ipcmem_rx_peak f (u64_bytes 0) 8 st = (peek_bytes (fifo_mem f + 8 * ring_read f st) 8 st, st)"
proof -
  let ?n = "ring_slots_count f" and ?r = "ring_read f st" and ?t = "words st (fifo_tail f)"
  have u: "unat ?t = 8 * ?r" "?r < ?n" "unat (fifo_length f) = 8 * ?n" "8 * ?n < 2 ^ 31" using assms by (simp_all add: ring_ok_def)
  have "unat (fifo_length f - ?t) = 8 * ?n - 8 * ?r" using u by (simp add: u32_minus)
  moreover have "in_region (fifo_mem f + 8 * ?r) 8 st" "in_region (fifo_mem f) 0 st" using assms u by (auto simp: ring_ok_def in_region_def)
  moreover have "\<not> fifo_length f < ?t" "\<not> fifo_length f \<le> ?t" using u by (simp_all add: word_less_nat_alt word_le_nat_alt)
  moreover have "min 8 (8 * ?n - 8 * ?r) = 8" using u(2) by simp
  ultimately show ?thesis using u by (simp add: ipcmem_rx_peak_def Let_def peek_bytes_def)
qed

lemma rx_advance_eq:
  assumes "ring_ok f st"
  obtains F G where "ipcmem_rx_advance f 8 core st =
      upd_debug core F G (put_word (fifo_tail f) (slot_pos (ring_next (ring_slots_count f) (ring_read f st))) st)"
    "\<And>d. length (dbg_info_host (F d)) = length (dbg_info_host d)"
proof -
  have u: "unat (words st (fifo_tail f)) = 8 * ring_read f st" "ring_read f st < ring_slots_count f" "fifo_length f \<noteq> 0"
    using assms by (auto simp: ring_ok_def)
  have "ipcmem_rx_advance f 8 core st =
      upd_debug core (\<lambda>d. d\<lparr>total_numsig_recv := total_numsig_recv d + 1\<rparr>)
        (rx_debug (words (put_word (fifo_tail f) (slot_pos (ring_next (ring_slots_count f) (ring_read f st))) st) (fifo_head f))
          (words (put_word (fifo_tail f) (slot_pos (ring_next (ring_slots_count f) (ring_read f st))) st) (fifo_tail f)))
        (put_word (fifo_tail f) (slot_pos (ring_next (ring_slots_count f) (ring_read f st))) st)"
    using next_index(2) [OF assms u(2,1)] u(3) unfolding ipcmem_rx_advance_def Let_def by (simp only: of_nat_numeral ipc_flag_simps simp_thms)
  then show ?thesis by (rule that) simp
qed

section \<open>The ring as a queue\<close>

text \<open>What neither a write nor a read of a ring touches.\<close>

definition same_rest :: "ipc_state \<Rightarrow> ipc_state \<Rightarrow> bool" where
  "same_rest st st' \<longleftrightarrow> channel st' = channel st \<and> ipc_calls st' = ipc_calls st \<and> mem_size st' = mem_size st \<and> ipc_ub st' = ipc_ub st \<and>
     api_list_t st' = api_list_t st \<and> synx_client st' = synx_client st \<and> test_client st' = test_client st \<and> (\<forall>c. debug_ok c st' = debug_ok c st)"

lemma same_rest_trans: "same_rest st st' \<Longrightarrow> same_rest st' st'' \<Longrightarrow> same_rest st st''"
  by (simp add: same_rest_def)

lemma debug_ok_put [simp]: "debug_ok c (put_word a v st) = debug_ok c st" "debug_ok c (poke_bytes a bs st) = debug_ok c st"
  by (simp_all add: debug_ok_def)

lemma ring_slot_apart:
  assumes "i < n" "w < n" "i \<noteq> w"
  shows "a + 8 * i + 8 \<le> a + 8 * w \<or> a + 8 * w + 8 \<le> a + 8 * (i :: nat)"
  using assms by (cases i w rule: linorder_cases) auto

lemma tx_write_ring:
  fixes m :: u64 and sig :: nat
  assumes f: "ring_ok f st" and room: "length (ring_msgs f st) < ring_slots_count f - 1" and dbg: "debug_ok core st"
  defines "st' \<equiv> ipcmem_tx_write f (u64_bytes m) core sig st"
  shows "ring_ok f st' \<and> ring_msgs f st' = ring_msgs f st @ [m] \<and> same_rest st st'"
proof -
  let ?n = "ring_slots_count f" and ?w = "ring_write f st" and ?r = "ring_read f st"
  have u: "?w < ?n" "?r < ?n" "fifo_tail f \<noteq> fifo_head f" "2 \<le> ?n" "unat (fifo_length f) = 8 * ?n" using f by (simp_all add: ring_ok_def)
  have nx: "ring_next ?n ?w < ?n" using u(4) by (simp add: ring_next_less)
  have un: "unat (slot_pos (ring_next ?n ?w)) = 8 * ring_next ?n ?w" by (rule unat_slot [OF nx f])
  let ?s = "put_word (fifo_head f) (slot_pos (ring_next ?n ?w)) (poke_bytes (fifo_mem f + 8 * ?w) (u64_bytes m) st)"
  obtain F G where eq: "st' = upd_debug core F G ?s" and F: "\<And>d. length (dbg_info_host (F d)) = length (dbg_info_host d)"
    using tx_write_eq [OF f, of m core sig thesis] unfolding st'_def by blast
  have rd: "ring_read f st' = ?r" "ring_write f st' = ring_next ?n ?w" using u(3) un by (simp_all add: eq ring_read_def ring_write_def)
  have ok: "ring_ok f st'" using f u(3) nx un rd by (simp add: ring_ok_def) (simp add: eq)
  have apart: "peek_bytes (fifo_mem f + 8 * i) 8 st' = peek_bytes (fifo_mem f + 8 * i) 8 st" if "i < ?n" "i \<noteq> ?w" for i
    using peek_poke_other [of "fifo_mem f + 8 * i" 8 "fifo_mem f + 8 * ?w" "u64_bytes m" st] ring_slot_apart [OF that(1) u(1) that(2)]
      peek_cong [of st' "poke_bytes (fifo_mem f + 8 * ?w) (u64_bytes m) st"] by (simp add: eq)
  have old: "ring_msg f st' i = ring_msg f st i" if "i \<in> set (ring_slots ?n ?r ?w)" for i
  proof -
    have "i < ?n" "i \<noteq> ?w" using that ring_slots_bound [of ?n i ?r ?w] ring_slots_fresh [OF u(2,1)] u(4) by auto
    then show ?thesis using apart by (simp add: ring_msg_def)
  qed
  have new: "ring_msg f st' ?w = m"
    using peek_poke_same [of "fifo_mem f + 8 * ?w" "u64_bytes m" st] peek_cong [of st' "poke_bytes (fifo_mem f + 8 * ?w) (u64_bytes m) st"]
    by (simp add: eq ring_msg_def)
  have "ring_slots ?n ?r (ring_next ?n ?w) = ring_slots ?n ?r ?w @ [?w]"
    by (rule ring_slots_snoc [OF u(2,1)]) (use room in \<open>simp add: ring_msgs_def\<close>)
  then have msgs: "ring_msgs f st' = ring_msgs f st @ [m]" using old new by (simp add: ring_msgs_def rd)
  have "in_region (fifo_mem f + 8 * ?w) 8 st" "in_region (fifo_head f) 4 st" using f u by (auto simp: ring_ok_def in_region_def)
  then have "same_rest st st'" using dbg upd_debug_ok [OF _ F] by (simp add: same_rest_def eq)
  then show ?thesis using ok msgs by blast
qed

lemma rx_advance_ring:
  assumes f: "ring_ok f st" and msgs: "ring_msgs f st = m # ms" and dbg: "debug_ok core st"
  defines "st' \<equiv> ipcmem_rx_advance f 8 core st"
  shows "ring_ok f st' \<and> ring_msgs f st' = ms \<and> same_rest st st'"
proof -
  let ?n = "ring_slots_count f" and ?w = "ring_write f st" and ?r = "ring_read f st"
  have u: "?w < ?n" "?r < ?n" "fifo_tail f \<noteq> fifo_head f" "2 \<le> ?n" using f by (simp_all add: ring_ok_def)
  have nx: "ring_next ?n ?r < ?n" using u(4) by (simp add: ring_next_less)
  have un: "unat (slot_pos (ring_next ?n ?r)) = 8 * ring_next ?n ?r" by (rule unat_slot [OF nx f])
  obtain F G where eq: "st' = upd_debug core F G (put_word (fifo_tail f) (slot_pos (ring_next ?n ?r)) st)"
    and F: "\<And>d. length (dbg_info_host (F d)) = length (dbg_info_host d)"
    using rx_advance_eq [OF f, of core thesis] unfolding st'_def by blast
  have rd: "ring_read f st' = ring_next ?n ?r" "ring_write f st' = ?w" using u(3) un by (simp_all add: eq ring_read_def ring_write_def)
  have ok: "ring_ok f st'" using f u(3) nx un rd by (simp add: ring_ok_def) (simp add: eq)
  have "ring_msg f st' = ring_msg f st" by (simp add: eq ring_msg_def fun_eq_iff peek_bytes_def)
  moreover have "?r \<noteq> ?w" using msgs by (auto simp: ring_msgs_def)
  ultimately have "ring_msgs f st' = ms" using msgs ring_slots_Cons [OF u(2,1)] by (simp add: ring_msgs_def rd)
  moreover have "same_rest st st'" using f dbg upd_debug_ok [OF _ F] by (simp add: same_rest_def eq ring_ok_def)
  ultimately show ?thesis using ok by blast
qed

lemma ring_first:
  assumes "ring_ok f st" "ring_msgs f st = m # ms"
  shows "ipcmem_rx_peak f (u64_bytes 0) 8 st = (peek_bytes (fifo_mem f + 8 * ring_read f st) 8 st, st)"
    "bytes_u64 (peek_bytes (fifo_mem f + 8 * ring_read f st) 8 st) = m"
proof -
  have "ring_read f st \<noteq> ring_write f st" using assms(2) by (auto simp: ring_msgs_def)
  then have "ring_slots (ring_slots_count f) (ring_read f st) (ring_write f st) =
      ring_read f st # ring_slots (ring_slots_count f) (ring_next (ring_slots_count f) (ring_read f st)) (ring_write f st)"
    by (rule ring_slots_Cons [rotated 2]) (use assms(1) in \<open>simp_all add: ring_ok_def\<close>)
  then show "bytes_u64 (peek_bytes (fifo_mem f + 8 * ring_read f st) 8 st) = m" using assms(2) by (simp add: ring_msgs_def ring_msg_def)
qed (rule rx_peak_eq [OF assms(1)])

text \<open>Sending and receiving on a bare ring, with the checks that the channels make before.\<close>

definition ring_send :: "ipclite_fifo \<Rightarrow> nat \<Rightarrow> nat \<Rightarrow> u64 \<Rightarrow> ipc_state \<Rightarrow> int \<times> ipc_state" where
  "ring_send f core sig m st =
     (if ipcmem_tx_avail f st < 8 then (- EAGAIN, st) else (0, ipcmem_tx_write f (u64_bytes m) core sig st))"

definition ring_receive :: "ipclite_fifo \<Rightarrow> nat \<Rightarrow> ipc_state \<Rightarrow> int \<times> u64 option \<times> ipc_state" where
  "ring_receive f core st =
     (if ipcmem_rx_avail f st < 8 then (- EAGAIN, None, st)
      else case ipcmem_rx_peak f (u64_bytes 0) 8 st of
        (bs, st1) \<Rightarrow> (0, Some (bytes_u64 bs), ipcmem_rx_advance f 8 core st1))"

definition ring_inv :: "ipclite_fifo \<Rightarrow> nat \<Rightarrow> nat \<Rightarrow> ipc_state \<Rightarrow> bool" where
  "ring_inv f core core' st \<longleftrightarrow> ring_ok f st \<and> debug_ok core st \<and> debug_ok core' st \<and> \<not> ipc_ub st"

lemma tx_avail_8: "ring_ok f st \<Longrightarrow> ipcmem_tx_avail f st < 8 \<longleftrightarrow> \<not> length (ring_msgs f st) < ring_slots_count f - 1"
  using tx_avail_ring [of f st] by (auto simp: word_less_nat_alt)

lemma rx_avail_8: "ring_ok f st \<Longrightarrow> ipcmem_rx_avail f st < 8 \<longleftrightarrow> ring_msgs f st = []"
  using rx_avail_ring [of f st] by (cases "ring_msgs f st") (auto simp: word_less_nat_alt)

interpretation ring: bounded_fifo "ring_send f core sig" "ring_msgs f" "\<lambda>m. m" "\<lambda>_. ring_slots_count f - 1"
    "ring_inv f core core'" "- EAGAIN" "ring_receive f core'" "- EAGAIN" for f core sig core'
proof unfold_locales
  fix st and m :: u64
  assume i: "ring_inv f core core' st"
  then have f: "ring_ok f st" by (simp add: ring_inv_def)
  show "ring_receive f core' st = (- EAGAIN, None, st)" if "ring_msgs f st = []"
    using rx_avail_8 [OF f] that by (simp add: ring_receive_def)
  show "ring_send f core sig m st = (- EAGAIN, st)" if "\<not> length (ring_msgs f st) < ring_slots_count f - 1"
    using tx_avail_8 [OF f] that by (simp add: ring_send_def)
  show "\<exists>b s'. ring_send f core sig m st = (0, s') \<and> ring_inv f core core' s' \<and> ring_slots_count f - 1 = ring_slots_count f - 1 \<and>
      ring_msgs f s' = ring_msgs f st @ [b] \<and> b = m" if "length (ring_msgs f st) < ring_slots_count f - 1"
    using i tx_avail_8 [OF f] tx_write_ring [OF f that, of core m sig] that by (auto simp: ring_send_def ring_inv_def same_rest_def)
next
  fix st m ms
  assume i: "ring_inv f core core' st" and m: "ring_msgs f st = m # ms"
  then have f: "ring_ok f st" by (simp add: ring_inv_def)
  show "\<exists>ret s'. ring_receive f core' st = (ret, Some m, s') \<and> ring_inv f core core' s' \<and> ring_slots_count f - 1 = ring_slots_count f - 1 \<and>
      ring_msgs f s' = ms"
    using i m rx_avail_8 [OF f] ring_first [OF f m] rx_advance_ring [OF f m, of core'] by (auto simp: ring_receive_def ring_inv_def same_rest_def)
qed

end
