(* ===== verification/Ipc_Layout.thy ===== *)
theory Ipc_Layout
  imports Ipc_Ring
begin

text \<open>
  The layout of the shared region: which partitions the set-up makes for a set of enabled cores,
  where they lie, and that the lookup of a pair of cores finds its partition.
\<close>

section \<open>The pairs of cores\<close>

abbreviation "PARTITIONS_BASE \<equiv> 135168 :: nat"

definition pair_allowed :: "u32 \<Rightarrow> nat \<times> nat \<Rightarrow> bool" where
  "pair_allowed hosts = (\<lambda>(h0, h1). bit hosts h0 \<and> bit hosts h1 \<and> \<not> is_loopback_except_apps h0 h1)"

definition all_pairs :: "(nat \<times> nat) list" where
  "all_pairs = concat (map (\<lambda>h0. map (Pair h0) [h0..<IPCMEM_NUM_HOSTS]) [0..<IPCMEM_NUM_HOSTS])"

definition host_pairs :: "u32 \<Rightarrow> (nat \<times> nat) list" where
  "host_pairs hosts = filter (pair_allowed hosts) all_pairs"

lemma set_all_pairs: "set all_pairs = {(a, b). a \<le> b \<and> b < IPCMEM_NUM_HOSTS}"
  by (auto simp: all_pairs_def image_iff)

lemma distinct_all_pairs: "distinct all_pairs"
  by code_simp

lemma set_host_pairs:
  "(a, b) \<in> set (host_pairs hosts) \<longleftrightarrow>
     a \<le> b \<and> b < IPCMEM_NUM_HOSTS \<and> bit hosts a \<and> bit hosts b \<and> (a = b \<longrightarrow> a = IPCMEM_APPS)"
  by (auto simp: host_pairs_def pair_allowed_def set_all_pairs is_loopback_except_apps_def)

lemma distinct_host_pairs: "distinct (host_pairs hosts)"
  by (simp add: host_pairs_def distinct_all_pairs)

lemma length_host_pairs: "length (host_pairs hosts) \<le> 37"
proof -
  have "length (filter (pair_allowed hosts) all_pairs) \<le> length (filter (\<lambda>(h0, h1). \<not> is_loopback_except_apps h0 h1) all_pairs)"
    by (simp add: pair_allowed_def length_filter_conv_card split_beta) (rule card_mono, auto)
  also have "\<dots> = 37" by code_simp
  finally show ?thesis by (simp add: host_pairs_def)
qed

section \<open>The entries of the table of contents\<close>

definition pair_entry :: "u32 \<Rightarrow> nat \<times> nat \<Rightarrow> ipcmem_partition_entry" where
  "pair_entry base = (\<lambda>(h0, h1). \<lparr>pe_base_offset = base, pe_size = DEFAULT_PARTITION_SIZE, pe_flags = 3, pe_host0 = of_nat h0, pe_host1 = of_nat h1\<rparr>)"

text \<open>The offset of partition \<open>p\<close> behind \<open>base\<close>.\<close>

definition behind :: "u32 \<Rightarrow> nat \<Rightarrow> u32" where
  "behind base p = base + word_of_nat (32768 * p)"

lemma behind_0 [simp]: "behind base 0 = base"
  by (simp add: behind_def)

lemma behind_Suc: "behind base (Suc p) = behind (base + DEFAULT_PARTITION_SIZE) p"
  by (simp add: behind_def)

definition with_entries :: "u32 \<Rightarrow> nat \<Rightarrow> (nat \<times> nat) list \<Rightarrow> ipc_state \<Rightarrow> ipc_state" where
  "with_entries base n ps st = st\<lparr>partition_entry := (\<lambda>p. if n \<le> p \<and> p < n + length ps
     then pair_entry (behind base (p - n)) (ps ! (p - n)) else partition_entry st p)\<rparr>"

lemma with_entries_Nil [simp]: "with_entries base n [] st = st"
proof -
  have "(if n \<le> p \<and> p < n + length [] then pair_entry (behind base (p - n)) ([] ! (p - n)) else partition_entry st p) = partition_entry st p" for p
    by auto
  then show ?thesis unfolding with_entries_def by simp
qed

lemma with_entries_Cons:
  "with_entries base n (q # qs) st =
     with_entries (base + DEFAULT_PARTITION_SIZE) (Suc n) qs (st\<lparr>partition_entry := (partition_entry st)(n := pair_entry base q)\<rparr>)"
proof -
  let ?F = "\<lambda>p. if n \<le> p \<and> p < n + length (q # qs) then pair_entry (behind base (p - n)) ((q # qs) ! (p - n)) else partition_entry st p"
  let ?G = "\<lambda>p. if Suc n \<le> p \<and> p < Suc n + length qs then pair_entry (behind (base + DEFAULT_PARTITION_SIZE) (p - Suc n)) (qs ! (p - Suc n))
     else ((partition_entry st)(n := pair_entry base q)) p"
  have "?F p = ?G p" for p
  proof (cases "Suc n \<le> p")
    case True
    then have "p - n = Suc (p - Suc n)" by simp
    then show ?thesis using True by (simp add: behind_Suc)
  qed (auto simp: le_Suc_eq not_le less_Suc_eq_le)
  then have "?F = ?G" by (rule ext)
  moreover have "with_entries (base + DEFAULT_PARTITION_SIZE) (Suc n) qs (st\<lparr>partition_entry := (partition_entry st)(n := pair_entry base q)\<rparr>) =
      st\<lparr>partition_entry := ?G\<rparr>" by (simp add: with_entries_def cong: if_cong)
  ultimately show ?thesis unfolding with_entries_def by metis
qed

lemma add_partitions_eq:
  "fold (\<lambda>(h0, h1). add_partition h0 h1) ps (base, n, st) =
    (let qs = filter (\<lambda>(h0, h1). bit (enabled_hosts st) h1 \<and> \<not> is_loopback_except_apps h0 h1) ps
     in (behind base (length qs), n + length qs, with_entries base n qs st))"
proof (induction ps arbitrary: base n st)
  case (Cons q ps)
  obtain a b where q: "q = (a, b)" by fastforce
  show ?case
  proof (cases "bit (enabled_hosts st) b \<and> \<not> is_loopback_except_apps a b")
    case True
    then have "add_partition a b (base, n, st) =
        (base + DEFAULT_PARTITION_SIZE, Suc n, st\<lparr>partition_entry := (partition_entry st)(n := pair_entry base (a, b))\<rparr>)"
      by (simp add: add_partition_def is_host_enabled_def pair_entry_def)
    then show ?thesis using True q by (simp add: Cons.IH with_entries_Cons behind_Suc Let_def)
  next
    case False
    then have "add_partition a b (base, n, st) = (base, n, st)" by (auto simp: add_partition_def is_host_enabled_def)
    then show ?thesis using False q by (auto simp: Cons.IH Let_def)
  qed
qed simp

lemma partition_entries_eq:
  "partition_entries base st =
    (let ps = host_pairs (enabled_hosts st) in (behind base (length ps), length ps, with_entries base 0 ps st))"
proof -
  let ?h = "enabled_hosts st" and ?add = "\<lambda>(h0, h1). add_partition h0 h1"
  have "fold (\<lambda>h0 x. if \<not> is_host_enabled h0 st then x else fold (add_partition h0) [h0..<IPCMEM_NUM_HOSTS] x) xs y =
      fold ?add (concat (map (\<lambda>h0. map (Pair h0) [h0..<IPCMEM_NUM_HOSTS]) (filter (bit ?h) xs))) y" for xs y
  proof (induction xs arbitrary: y)
    case (Cons h xs)
    have "fold ?add (map (Pair h) ys) y = fold (add_partition h) ys y" for ys y by (induction ys arbitrary: y) simp_all
    then show ?case using Cons.IH by (simp add: is_host_enabled_def del: upt.simps)
  qed simp
  moreover have "filter (\<lambda>(h0, h1). bit ?h h1 \<and> \<not> is_loopback_except_apps h0 h1)
      (concat (map (\<lambda>h0. map (Pair h0) [h0..<IPCMEM_NUM_HOSTS]) (filter (bit ?h) xs))) =
      filter (pair_allowed ?h) (concat (map (\<lambda>h0. map (Pair h0) [h0..<IPCMEM_NUM_HOSTS]) xs))" for xs
    by (induction xs) (auto simp: pair_allowed_def intro!: filter_cong)
  ultimately show ?thesis by (simp add: partition_entries_def add_partitions_eq host_pairs_def all_pairs_def Let_def del: upt.simps)
qed

section \<open>The partitions\<close>

definition base_of :: "nat \<Rightarrow> nat" where
  "base_of p = PARTITIONS_BASE + 32768 * p"

definition pair_hdr :: "nat \<times> nat \<Rightarrow> ipcmem_partition_header" where
  "pair_hdr q = (if fst q = snd q then loopback_partition_hdr else default_partition_hdr)"

text \<open>The partitions of a set of enabled cores, in the order of the pairs.\<close>

definition laid_out :: "ipc_state \<Rightarrow> bool" where
  "laid_out st \<longleftrightarrow> (let ps = host_pairs (enabled_hosts st) in
     unat (partitions st) = length ps \<and> length (partition st) = length ps \<and>
     global_partition st = 4096 \<and> global_hdr st = global_partition_hdr \<and>
     (\<forall>p < length ps. partition st ! p = base_of p \<and> unat (pe_base_offset (partition_entry st p)) = base_of p \<and>
        unat (pe_size (partition_entry st p)) = 32768 \<and>
        unat (pe_host0 (partition_entry st p)) = fst (ps ! p) \<and> unat (pe_host1 (partition_entry st p)) = snd (ps ! p) \<and>
        partition_hdr st (base_of p) = pair_hdr (ps ! p)))"

lemma base_of_simps [simp]: "base_of p = base_of q \<longleftrightarrow> p = q" "base_of p + a = base_of p + b \<longleftrightarrow> a = b"
  by (simp_all add: base_of_def)

lemma unat_behind:
  assumes "p \<le> 37"
  shows "unat (behind 135168 p) = base_of p"
proof -
  have "unat (word_of_nat (32768 * p) :: u32) = 32768 * p" unfolding unat_of_nat using assms by (simp del: of_nat_mult)
  then have "unat (135168 + (word_of_nat (32768 * p) :: u32)) = 135168 + 32768 * p"
    using assms by (subst unat_plus_eq) (simp_all del: of_nat_mult)
  then show ?thesis by (simp add: behind_def base_of_def del: of_nat_mult)
qed

lemma pair_hosts:
  assumes "p < length (host_pairs hosts)"
  shows "fst (host_pairs hosts ! p) < IPCMEM_NUM_HOSTS" "snd (host_pairs hosts ! p) < IPCMEM_NUM_HOSTS"
  using nth_mem [OF assms] set_host_pairs [of "fst (host_pairs hosts ! p)" "snd (host_pairs hosts ! p)" hosts] by auto

text \<open>The headers: what the second loop leaves.\<close>

lemma update_partition_eq:
  assumes "p < length (partition st)"
  defines "b \<equiv> unat (pe_base_offset (partition_entry st p))"
  shows "update_partition p st = st\<lparr>partition := (partition st)[p := b],
    partition_hdr := (partition_hdr st)(b := if pe_host0 (partition_entry st p) = pe_host1 (partition_entry st p) then loopback_partition_hdr else default_partition_hdr),
    words := (words st)(b + status_offset := 0), ipc_ub := ipc_ub st \<or> \<not> in_region (b + status_offset) 4 st\<rparr>"
  by (simp add: update_partition_def Let_def b_def put_word_def ipc_flag_def in_region_def)

lemma update_partitions:
  assumes "k \<le> length (partition st)" "\<And>p. p < k \<Longrightarrow> unat (pe_base_offset (partition_entry st p)) = base_of p" "words st = (\<lambda>_. 0)"
  shows "\<exists>ps hs ub. fold update_partition [0..<k] st = st\<lparr>partition := ps, partition_hdr := hs, words := (\<lambda>_. 0), ipc_ub := ub\<rparr> \<and>
    ub = (ipc_ub st \<or> (\<exists>p<k. \<not> in_region (base_of p + status_offset) 4 st)) \<and> length ps = length (partition st) \<and>
    (\<forall>p<k. ps ! p = base_of p \<and>
      hs (base_of p) = (if pe_host0 (partition_entry st p) = pe_host1 (partition_entry st p) then loopback_partition_hdr else default_partition_hdr))"
  using assms(1,2)
proof (induction k)
  case 0
  have "st = st\<lparr>words := (\<lambda>_. 0)\<rparr>" using assms(3) by (intro ipc_state.equality) simp_all
  then show ?case by (intro exI [of _ "partition st"] exI [of _ "partition_hdr st"] exI [of _ "ipc_ub st"]) simp
next
  case (Suc k)
  then obtain ps hs ub where IH: "fold update_partition [0..<k] st = st\<lparr>partition := ps, partition_hdr := hs, words := (\<lambda>_. 0), ipc_ub := ub\<rparr>"
    "ub = (ipc_ub st \<or> (\<exists>p<k. \<not> in_region (base_of p + status_offset) 4 st))" "length ps = length (partition st)"
    "\<forall>p<k. ps ! p = base_of p \<and>
      hs (base_of p) = (if pe_host0 (partition_entry st p) = pe_host1 (partition_entry st p) then loopback_partition_hdr else default_partition_hdr)"
    by auto
  let ?h = "if pe_host0 (partition_entry st k) = pe_host1 (partition_entry st k) then loopback_partition_hdr else default_partition_hdr"
  have z: "(\<lambda>_. 0)(a := 0) = (\<lambda>_. 0 :: u32)" for a :: nat by auto
  have "fold update_partition [0..<Suc k] st = update_partition k (st\<lparr>partition := ps, partition_hdr := hs, words := (\<lambda>_. 0), ipc_ub := ub\<rparr>)"
    using IH(1) by simp
  also have "\<dots> = st\<lparr>partition := ps[k := base_of k], partition_hdr := hs(base_of k := ?h), words := (\<lambda>_. 0),
      ipc_ub := ub \<or> \<not> in_region (base_of k + status_offset) 4 st\<rparr>"
    using Suc.prems IH(3) by (simp add: update_partition_eq z in_region_def)
  finally show ?case using Suc.prems IH(2-4) by (intro exI conjI) (assumption, auto simp: less_Suc_eq nth_list_update)
qed

text \<open>What the set-up of the region does not touch.\<close>

definition same_driver :: "ipc_state \<Rightarrow> ipc_state \<Rightarrow> bool" where
  "same_driver st st' \<longleftrightarrow> ipclite_up st' = ipclite_up st \<and> mem_size st' = mem_size st \<and> channel st' = channel st \<and>
     synx_client st' = synx_client st \<and> test_client st' = test_client st \<and> api_list_t st' = api_list_t st \<and> ipc_calls st' = ipc_calls st \<and>
     debug_control st' = debug_control st \<and> mbox_answer st' = mbox_answer st"

text \<open>The room that the partitions need; the code does not compare it with the size of the region.\<close>

definition region_fits :: "ipc_state \<Rightarrow> bool" where
  "region_fits st \<longleftrightarrow> base_of (length (host_pairs (enabled_hosts st))) \<le> unat (mem_size st)"

lemma setup_partitions_ok:
  assumes "words st = (\<lambda>_. 0)" "global_partition st = 4096" "global_hdr st = global_partition_hdr"
  shows "\<exists>st'. setup_partitions True 135168 st = (0, st') \<and> laid_out st' \<and> enabled_hosts st' = enabled_hosts st \<and> words st' = (\<lambda>_. 0) \<and>
    same_driver st st' \<and> toc_hdr st' = toc_hdr st \<and> toc_offsets st' = toc_offsets st \<and> hwlock_owner st' = hwlock_owner st \<and> configured_host st' = configured_host st \<and>
    global_entry st' = global_entry st \<and> num_entries st' = partitions st' \<and>
    ipc_ub st' = (ipc_ub st \<or> (\<exists>p < length (host_pairs (enabled_hosts st)). \<not> in_region (base_of p + status_offset) 4 st))"
proof -
  let ?ps = "host_pairs (enabled_hosts st)"
  let ?n = "length ?ps"
  define s1 where "s1 = (with_entries 135168 0 ?ps st)\<lparr>partition := replicate ?n 0\<rparr>"
  have n: "?n \<le> 37" by (rule length_host_pairs)
  have e: "partition_entry s1 p = pair_entry (behind 135168 p) (?ps ! p)" if "p < ?n" for p
    using that by (simp add: s1_def with_entries_def)
  have w: "unat (of_nat h :: u32) = h" if "h < IPCMEM_NUM_HOSTS" for h unfolding unat_of_nat using that by simp
  have h: "unat (pe_base_offset (partition_entry s1 p)) = base_of p" "unat (pe_size (partition_entry s1 p)) = 32768"
    "unat (pe_host0 (partition_entry s1 p)) = fst (?ps ! p)" "unat (pe_host1 (partition_entry s1 p)) = snd (?ps ! p)" if "p < ?n" for p
    using that n pair_hosts [OF that] by (simp_all add: e pair_entry_def split_beta unat_behind w)
  have d: "pe_host0 (partition_entry s1 p) = pe_host1 (partition_entry s1 p) \<longleftrightarrow> fst (?ps ! p) = snd (?ps ! p)" if "p < ?n" for p
    using h(3,4) [OF that] by (metis unsigned_word_eqI)
  obtain bs hs ub where u: "fold update_partition [0..<?n] s1 = s1\<lparr>partition := bs, partition_hdr := hs, words := (\<lambda>_. 0), ipc_ub := ub\<rparr>"
    "ub = (ipc_ub s1 \<or> (\<exists>p<?n. \<not> in_region (base_of p + status_offset) 4 s1))" "length bs = ?n"
    "\<forall>p<?n. bs ! p = base_of p \<and>
      hs (base_of p) = (if pe_host0 (partition_entry s1 p) = pe_host1 (partition_entry s1 p) then loopback_partition_hdr else default_partition_hdr)"
    using update_partitions [of ?n s1] h(1) assms(1) by (auto simp: s1_def with_entries_def)
  let ?t = "s1\<lparr>partition := bs, partition_hdr := hs, words := (\<lambda>_. 0), ipc_ub := ub, num_entries := of_nat ?n, partitions := of_nat ?n, entry_size := 24\<rparr>"
  have r: "setup_partitions True 135168 st = (0, ?t)"
    using u(1) by (simp add: setup_partitions_def partition_entries_eq Let_def s1_def)
  have "unat (of_nat ?n :: u32) = ?n" unfolding unat_of_nat using n by simp
  moreover have "enabled_hosts s1 = enabled_hosts st" "global_partition s1 = 4096" "global_hdr s1 = global_partition_hdr"
    using assms(2,3) by (simp_all add: s1_def with_entries_def)
  ultimately have l: "laid_out ?t" using u(3,4) h d by (auto simp: laid_out_def Let_def pair_hdr_def)
  have "same_driver st ?t" by (simp add: same_driver_def s1_def with_entries_def)
  then show ?thesis using r l u(2) by (intro exI [of _ ?t]) (auto simp: s1_def with_entries_def in_region_def)
qed

lemma ipcmem_init_ok:
  fixes children :: "u32 option list"
  assumes "words st = (\<lambda>_. 0)"
  defines "hosts \<equiv> enable_hosts children 0 (enabled_hosts st)"
  shows "\<exists>st'. ipcmem_init children True st = (0, st') \<and> laid_out st' \<and> enabled_hosts st' = hosts \<and> words st' = (\<lambda>_. 0) \<and> same_driver st st' \<and>
    toc_hdr st' = (toc_hdr st)[1 := 1] \<and> toc_offsets st' = \<lparr>io_host_info = 256, io_global_entry = 264, io_partition_info = 288, io_partition_entry = 296\<rparr> \<and>
    hwlock_owner st' = IPCMEM_INVALID_HOST \<and> configured_host st' = hosts \<and> num_entries st' = partitions st' \<and>
    unat (pe_base_offset (global_entry st')) = 4096 \<and> unat (pe_size (global_entry st')) = 131072 \<and>
    ipc_ub st' = (ipc_ub st \<or> unat (mem_size st) < 4108 \<or>
      (\<exists>p < length (host_pairs hosts). \<not> in_region (base_of p + status_offset) 4 st))"
proof -
  define s where "s = setup_global_partition 4096 (snd (setup_toc (st\<lparr>enabled_hosts := hosts\<rparr>))\<lparr>hwlock_owner := IPCMEM_INVALID_HOST, configured_host := hosts\<rparr>)"
  have "words s = (\<lambda>_. 0)" "global_partition s = 4096" "global_hdr s = global_partition_hdr"
    using assms(1) by (simp_all add: s_def setup_global_partition_def setup_toc_def Let_def ipc_flag_def)
  from setup_partitions_ok [OF this] obtain s' where s': "setup_partitions True 135168 s = (0, s')" "laid_out s'" "enabled_hosts s' = enabled_hosts s"
    "words s' = (\<lambda>_. 0)" "same_driver s s'" "toc_hdr s' = toc_hdr s" "toc_offsets s' = toc_offsets s" "hwlock_owner s' = hwlock_owner s" "configured_host s' = configured_host s"
    "global_entry s' = global_entry s" "num_entries s' = partitions s'"
    "ipc_ub s' = (ipc_ub s \<or> (\<exists>p < length (host_pairs (enabled_hosts s)). \<not> in_region (base_of p + status_offset) 4 s))" by blast
  have r: "ipcmem_init children True st = (0, s'\<lparr>toc_hdr := (toc_hdr s')[1 := 1]\<rparr>)"
    using s'(1) by (simp add: ipcmem_init_def setup_toc_def Let_def s_def hosts_def)
  have f: "enabled_hosts s = hosts" "same_driver st s" "toc_hdr s = toc_hdr st" "hwlock_owner s = IPCMEM_INVALID_HOST" "configured_host s = hosts"
    "toc_offsets s = \<lparr>io_host_info = 256, io_global_entry = 264, io_partition_info = 288, io_partition_entry = 296\<rparr>"
    "unat (pe_base_offset (global_entry s)) = 4096" "unat (pe_size (global_entry s)) = 131072"
    "ipc_ub s = (ipc_ub st \<or> unat (mem_size st) < 4108)" "mem_size s = mem_size st"
    by (auto simp: s_def setup_global_partition_def setup_toc_def Let_def ipc_flag_def same_driver_def in_region_def)
  show ?thesis unfolding r using s' f
    by (intro exI [of _ "s'\<lparr>toc_hdr := (toc_hdr s')[1 := 1]\<rparr>"]) (simp add: laid_out_def same_driver_def in_region_def Let_def)
qed

section \<open>The lookup of a pair\<close>

lemma laid_out_entry:
  assumes "laid_out st" "p < length (host_pairs (enabled_hosts st))"
  shows "partition st ! p = base_of p" "unat (pe_base_offset (partition_entry st p)) = base_of p" "unat (pe_size (partition_entry st p)) = 32768"
    "unat (pe_host0 (partition_entry st p)) = fst (host_pairs (enabled_hosts st) ! p)"
    "unat (pe_host1 (partition_entry st p)) = snd (host_pairs (enabled_hosts st) ! p)"
    "partition_hdr st (base_of p) = pair_hdr (host_pairs (enabled_hosts st) ! p)"
  using assms by (simp_all add: laid_out_def Let_def)

lemma lookup_pair:
  assumes "laid_out st" "p < length (host_pairs (enabled_hosts st))" "host_pairs (enabled_hosts st) ! p = (h0, h1)"
  shows "get_ipcmem_partition_hdr h0 h1 st = Some (base_of p)"
proof -
  let ?ps = "host_pairs (enabled_hosts st)"
  have h: "h0 < IPCMEM_NUM_HOSTS" "h1 < IPCMEM_NUM_HOSTS" using pair_hosts [OF assms(2)] assms(3) by simp_all
  have w: "x = of_nat h \<longleftrightarrow> unat x = h" if "h < IPCMEM_NUM_HOSTS" for h and x :: u32
  proof
    show "x = of_nat h" if "unat x = h" using that by (metis of_nat_unat ucast_id)
    show "unat x = h" if "x = of_nat h" unfolding that unat_of_nat using \<open>h < IPCMEM_NUM_HOSTS\<close> by simp
  qed
  have only: "(pe_host0 (partition_entry st q) = of_nat h0 \<and> pe_host1 (partition_entry st q) = of_nat h1) = (q = p)" if "q < length ?ps" for q
  proof -
    have "?ps ! q = (h0, h1) \<longleftrightarrow> q = p" using nth_eq_iff_index_eq [OF distinct_host_pairs that assms(2)] assms(3) by simp
    then show ?thesis using laid_out_entry(4,5) [OF assms(1) that] by (auto simp: w h prod_eq_iff)
  qed
  have "List.find (\<lambda>q. pe_host0 (partition_entry st q) = of_nat h0 \<and> pe_host1 (partition_entry st q) = of_nat h1) [0..<length ?ps] =
      List.find (\<lambda>q. q = p) [0..<length ?ps]"
    by (intro find_cong refl) (use only in simp)
  also have "\<dots> = Some p" unfolding find_Some_iff using assms(2) by (intro exI [of _ p]) simp
  finally have "List.find (\<lambda>q. pe_host0 (partition_entry st q) = of_nat h0 \<and> pe_host1 (partition_entry st q) = of_nat h1) [0..<length ?ps] = Some p" .
  moreover have "unat (partitions st) = length ?ps" using assms(1) by (simp add: laid_out_def Let_def)
  ultimately show ?thesis using laid_out_entry(2) [OF assms(1,2)] by (simp add: get_ipcmem_partition_hdr_def)
qed

lemma partition_of_pair:
  assumes "a \<le> b" "b < IPCMEM_NUM_HOSTS" "bit hosts a" "bit hosts b" "a = b \<longrightarrow> a = IPCMEM_APPS"
  obtains p where "p < length (host_pairs hosts)" "host_pairs hosts ! p = (a, b)"
  using assms set_host_pairs [of a b hosts] by (auto simp: in_set_conv_nth)

end
