(* ===== verification/Ipc_Boot.thy ===== *)
theory Ipc_Boot
  imports Ipc_Layout
begin

text \<open>
  The set-up of the channels of this core, from a device tree in which every channel has all of its
  signals, and the state that the whole initialisation leaves.
\<close>

section \<open>A channel after its set-up\<close>

definition link_base :: "u32 \<Rightarrow> nat \<Rightarrow> nat" where
  "link_base hosts r = base_of (length (takeWhile (\<lambda>q. q \<noteq> (IPCMEM_APPS, r)) (host_pairs hosts)))"

definition link_status :: "nat \<Rightarrow> u32" where
  "link_status r = (if r = IPCMEM_APPS then ACTIVE else IN_PROGRESS)"

text \<open>The rings between this core and core \<open>r\<close>: to \<open>r\<close>, and from \<open>r\<close>. This core has one ring with itself.\<close>

definition link_tx :: "u32 \<Rightarrow> nat \<Rightarrow> ipclite_fifo" where
  "link_tx hosts r = (let a = link_base hosts r in
     if r = IPCMEM_APPS then \<lparr>fifo_length = 8192, fifo_tail = a + 1032, fifo_head = a + 1036, fifo_mem = a + 4096\<rparr>
     else \<lparr>fifo_length = 8192, fifo_tail = a + 1024, fifo_head = a + 1028, fifo_mem = a + 4096\<rparr>)"

definition link_rx :: "u32 \<Rightarrow> nat \<Rightarrow> ipclite_fifo" where
  "link_rx hosts r = (let a = link_base hosts r in
     if r = IPCMEM_APPS then link_tx hosts r
     else \<lparr>fifo_length = 8192, fifo_tail = a + 1032, fifo_head = a + 1036, fifo_mem = a + 12288\<rparr>)"

definition all_signals :: "ipclite_irq_info list" where
  "all_signals = map (\<lambda>i. \<lparr>irq_mbox_chan = Mbox_Chan, irq_signal_id = i\<rparr>) [0..<MAX_CHANNEL_SIGNALS]"

definition link_channel :: "u32 \<Rightarrow> nat \<Rightarrow> ipclite_channel" where
  "link_channel hosts r = \<lparr>remote_pid = of_nat r, tx_fifo = Some (link_tx hosts r), rx_fifo = Some (link_rx hosts r),
     irq_info = all_signals, gstatus_ptr = Some (link_base hosts r + status_offset), ch_status = link_status r\<rparr>"

definition link_words :: "u32 \<Rightarrow> nat set \<Rightarrow> nat \<Rightarrow> u32" where
  "link_words hosts D a = (if a \<in> (\<lambda>r. link_base hosts r + status_offset) ` (D - {IPCMEM_APPS}) then IN_PROGRESS
     else if IPCMEM_APPS \<in> D \<and> a = link_base hosts IPCMEM_APPS + status_offset then ACTIVE else 0)"

definition link_channels :: "u32 \<Rightarrow> nat set \<Rightarrow> ipclite_channel list" where
  "link_channels hosts D = map (\<lambda>r. if r \<in> D then link_channel hosts r else zero_channel) [0..<IPCMEM_NUM_HOSTS]"

lemma length_link_channels [simp]: "length (link_channels hosts D) = 9"
  by (simp add: link_channels_def del: upt.simps)

lemma nth_link_channels: "r < IPCMEM_NUM_HOSTS \<Longrightarrow> link_channels hosts D ! r = (if r \<in> D then link_channel hosts r else zero_channel)"
  by (simp add: link_channels_def del: upt.simps)

text \<open>Addresses in different partitions, or at different offsets, are different.\<close>

lemma base_apart: "k < 32768 \<Longrightarrow> l < 32768 \<Longrightarrow> base_of p + k = base_of q + l \<longleftrightarrow> p = q \<and> k = l"
proof -
  assume k: "k < 32768" "l < 32768"
  have d: "(32768 * p + k) div 32768 = p" "(32768 * p + k) mod 32768 = k" if "k < 32768" for p k :: nat using that by simp_all
  have "32768 * p + k = 32768 * q + l \<longleftrightarrow> p = q \<and> k = l" using d [OF k(1), of p] d [OF k(2), of q] by metis
  then show ?thesis by (simp add: base_of_def)
qed

text \<open>The cores with a channel.\<close>

definition linked :: "u32 \<Rightarrow> nat \<Rightarrow> bool" where
  "linked hosts r \<longleftrightarrow> r < IPCMEM_NUM_HOSTS \<and> bit hosts IPCMEM_APPS \<and> bit hosts r"

lemma linked_pair:
  assumes "linked hosts r"
  obtains p where "p < length (host_pairs hosts)" "host_pairs hosts ! p = (IPCMEM_APPS, r)" "link_base hosts r = base_of p"
proof -
  let ?p = "length (takeWhile (\<lambda>q. q \<noteq> (IPCMEM_APPS, r)) (host_pairs hosts))"
  have "(IPCMEM_APPS, r) \<in> set (host_pairs hosts)" using assms by (simp add: set_host_pairs linked_def)
  moreover have "x \<in> set xs \<Longrightarrow> length (takeWhile (\<lambda>q. q \<noteq> x) xs) < length xs" for x :: "nat \<times> nat" and xs by (induction xs) auto
  ultimately have "?p < length (host_pairs hosts)" by blast
  moreover from this have "host_pairs hosts ! ?p = (IPCMEM_APPS, r)" using nth_length_takeWhile by blast
  ultimately show ?thesis using that by (simp add: link_base_def)
qed

lemma link_base_apart:
  assumes "linked hosts r" "linked hosts s" "k < 32768" "l < 32768"
  shows "link_base hosts r + k = link_base hosts s + l \<longleftrightarrow> r = s \<and> k = l"
proof -
  obtain p where p: "p < length (host_pairs hosts)" "host_pairs hosts ! p = (IPCMEM_APPS, r)" "link_base hosts r = base_of p"
    using linked_pair [OF assms(1)] .
  obtain q where q: "q < length (host_pairs hosts)" "host_pairs hosts ! q = (IPCMEM_APPS, s)" "link_base hosts s = base_of q"
    using linked_pair [OF assms(2)] .
  have "p = q \<longleftrightarrow> r = s" using p q nth_eq_iff_index_eq [OF distinct_host_pairs p(1) q(1)] by simp
  then show ?thesis using base_apart [OF assms(3,4)] p(3) q(3) by simp
qed

lemma link_words_insert:
  assumes "\<forall>s \<in> D. linked hosts s" "linked hosts r"
  shows "(link_words hosts D)(link_base hosts r + status_offset := link_status r) = link_words hosts (insert r D)"
proof
  fix a
  show "((link_words hosts D)(link_base hosts r + status_offset := link_status r)) a = link_words hosts (insert r D) a"
    using link_base_apart [OF assms(2), of _ status_offset status_offset] assms
    by (auto simp: link_words_def link_status_def status_offset_def)
qed

lemma link_words_desc:
  assumes "\<forall>s \<in> D. linked hosts s" "linked hosts r" "k < 32768" "k \<noteq> status_offset"
  shows "link_words hosts D (link_base hosts r + k) = 0"
  using link_base_apart [OF assms(2), of _ k status_offset] assms by (auto simp: link_words_def status_offset_def)

lemma link_channels_insert:
  "r < IPCMEM_NUM_HOSTS \<Longrightarrow> (link_channels hosts D)[r := link_channel hosts r] = link_channels hosts (insert r D)"
  by (rule nth_equalityI) (auto simp: nth_link_channels nth_list_update)

section \<open>The signals of a channel\<close>

text \<open>A device tree with every signal, and a kernel that grants every request.\<close>

definition good_irq :: "irq_setup \<Rightarrow> bool" where
  "good_irq e \<longleftrightarrow> is_alloc e \<and> is_register e = 0 \<and> is_mbox e = Mbox_Chan \<and> is_request e = 0 \<and>
     (case is_index e of Inl _ \<Rightarrow> False | Inr i \<Rightarrow> i < MAX_CHANNEL_SIGNALS)"

definition good_setup :: "nat \<Rightarrow> channel_setup \<Rightarrow> bool" where
  "good_setup r env \<longleftrightarrow> cs_alloc env \<and> cs_register env = 0 \<and> cs_remote_pid env = Inr (of_nat r) \<and> cs_fifo_alloc env \<and>
     list_all good_irq (cs_irqs env) \<and> (\<forall>i < MAX_CHANNEL_SIGNALS. Inr i \<in> set (map is_index (cs_irqs env)))"

lemma irq_init_good:
  assumes "good_irq e" "is_index e = Inr i" "c < length (channel st)" "length (irq_info (channel st ! c)) = MAX_CHANNEL_SIGNALS"
  shows "ipclite_channel_irq_init e c st = (0, st\<lparr>channel := (channel st)[c := (channel st ! c)\<lparr>irq_info :=
    (irq_info (channel st ! c))[i := \<lparr>irq_mbox_chan = Mbox_Chan, irq_signal_id = i\<rparr>]\<rparr>]\<rparr>)"
proof -
  have x: "\<lparr>irq_mbox_chan = Mbox_Chan, irq_signal_id = i\<rparr> =
      (irq_info (channel st ! c) ! i)\<lparr>irq_mbox_chan := Mbox_Chan, irq_signal_id := i\<rparr>"
    by (intro ipclite_irq_info.equality) simp_all
  show ?thesis unfolding x using assms by (simp add: ipclite_channel_irq_init_def good_irq_def upd_channel_def ipc_flag_def Let_def)
qed

lemma irq_loop_good:
  assumes "list_all good_irq es" "c < length (channel st)" "length (irq_info (channel st ! c)) = MAX_CHANNEL_SIGNALS"
  shows "\<exists>l. irq_init_loop es c st = (0, st\<lparr>channel := (channel st)[c := (channel st ! c)\<lparr>irq_info := l\<rparr>]\<rparr>) \<and> length l = MAX_CHANNEL_SIGNALS \<and>
    (\<forall>i < MAX_CHANNEL_SIGNALS. l ! i = (if Inr i \<in> set (map is_index es) then \<lparr>irq_mbox_chan = Mbox_Chan, irq_signal_id = i\<rparr>
       else irq_info (channel st ! c) ! i))"
  using assms
proof (induction es arbitrary: st)
  case Nil
  have "st = st\<lparr>channel := (channel st)[c := (channel st ! c)\<lparr>irq_info := irq_info (channel st ! c)\<rparr>]\<rparr>"
    by (intro ipc_state.equality) simp_all
  then show ?case using Nil by (intro exI [of _ "irq_info (channel st ! c)"]) simp
next
  case (Cons e es)
  then obtain i where i: "is_index e = Inr i" "i < MAX_CHANNEL_SIGNALS" by (auto simp: good_irq_def split: sum.splits)
  let ?l = "(irq_info (channel st ! c))[i := \<lparr>irq_mbox_chan = Mbox_Chan, irq_signal_id = i\<rparr>]"
  let ?s = "st\<lparr>channel := (channel st)[c := (channel st ! c)\<lparr>irq_info := ?l\<rparr>]\<rparr>"
  have e: "ipclite_channel_irq_init e c st = (0, ?s)" using irq_init_good [of e i c st] Cons.prems i(1) by simp
  obtain l where "irq_init_loop es c ?s = (0, ?s\<lparr>channel := (channel ?s)[c := (channel ?s ! c)\<lparr>irq_info := l\<rparr>]\<rparr>)"
    "length l = MAX_CHANNEL_SIGNALS" "\<forall>j < MAX_CHANNEL_SIGNALS. l ! j = (if Inr j \<in> set (map is_index es)
      then \<lparr>irq_mbox_chan = Mbox_Chan, irq_signal_id = j\<rparr> else irq_info (channel ?s ! c) ! j)"
    using Cons.IH [of ?s] Cons.prems by auto
  then show ?case using e i Cons.prems by (intro exI [of _ l]) (auto simp: nth_list_update)
qed

section \<open>The set-up of a channel\<close>

lemma channel_fifos_link:
  assumes "laid_out st" "linked (enabled_hosts st) r"
  defines "a \<equiv> link_base (enabled_hosts st) r"
  shows "get_ipcmem_partition_hdr IPCMEM_APPS r st = Some a" "channel_fifos IPCMEM_APPS r a st = (link_tx (enabled_hosts st) r, link_rx (enabled_hosts st) r)"
proof -
  obtain p where p: "p < length (host_pairs (enabled_hosts st))" "host_pairs (enabled_hosts st) ! p = (IPCMEM_APPS, r)" "a = base_of p"
    using linked_pair [OF assms(2)] unfolding a_def .
  show "get_ipcmem_partition_hdr IPCMEM_APPS r st = Some a" unfolding p(3) by (rule lookup_pair [OF assms(1) p(1,2)])
  have h: "partition_hdr st a = (if r = IPCMEM_APPS then loopback_partition_hdr else default_partition_hdr)"
    using laid_out_entry(6) [OF assms(1) p(1)] p(2,3) by (auto simp: pair_hdr_def)
  show "channel_fifos IPCMEM_APPS r a st = (link_tx (enabled_hosts st) r, link_rx (enabled_hosts st) r)"
    using h unfolding a_def by (cases "r = IPCMEM_APPS") (simp_all add: channel_fifos_def link_tx_def link_rx_def loopback_partition_hdr_def default_partition_hdr_def Let_def)
qed

lemma link_in_region:
  assumes "linked (enabled_hosts st) r" "region_fits st" "k + n \<le> 32768"
  shows "in_region (link_base (enabled_hosts st) r + k) n st"
proof -
  obtain p where p: "p < length (host_pairs (enabled_hosts st))" "link_base (enabled_hosts st) r = base_of p"
    using linked_pair [OF assms(1)] by metis
  have "base_of p + 32768 \<le> base_of (length (host_pairs (enabled_hosts st)))" using p(1) by (simp add: base_of_def)
  then show ?thesis using assms(2,3) p(2) by (simp add: in_region_def region_fits_def)
qed

lemma put_word_in: "in_region a 4 st \<Longrightarrow> put_word a v st = st\<lparr>words := (words st)(a := v)\<rparr>"
  by (simp add: put_word_def ipc_flag_def)

lemma good_pid: "r < IPCMEM_NUM_HOSTS \<Longrightarrow> unat (of_nat r :: u32) = r"
  unfolding unat_of_nat by simp

text \<open>The set-up of a channel makes its rings empty, its state is told to the other core, and nothing else changes.\<close>

lemma channel_init_good:
  assumes "laid_out st" "region_fits st" "good_setup r env" "hosts = enabled_hosts st" "linked hosts r" "\<forall>s \<in> D. linked hosts s"
    "words st = link_words hosts D" "channel st = link_channels hosts D"
  shows "ipclite_channel_init env st = (0, st\<lparr>words := link_words hosts (insert r D), channel := link_channels hosts (insert r D)\<rparr>)"
proof -
  let ?tx = "link_tx hosts r" and ?rx = "link_rx hosts r" and ?a = "link_base hosts r"
  have r: "r < IPCMEM_NUM_HOSTS" "unat (of_nat r :: u32) = r" using assms(5) good_pid by (simp_all add: linked_def)
  have reg: "in_region (fifo_tail ?rx) 4 st" "in_region (fifo_head ?tx) 4 st" "in_region (?a + status_offset) 4 st"
    using link_in_region [of st r] assms(2,4,5) by (cases "r = IPCMEM_APPS"; simp add: link_tx_def link_rx_def status_offset_def Let_def)+
  have zero: "words st (fifo_tail ?rx) = 0" "words st (fifo_head ?tx) = 0"
    using link_words_desc [OF assms(6,5)] assms(7) by (cases "r = IPCMEM_APPS"; simp add: link_tx_def link_rx_def status_offset_def Let_def)+
  have w0: "(words st)(fifo_tail ?rx := 0, fifo_head ?tx := 0) = words st" using zero by (intro ext) simp
  have in2: "in_region x n (st\<lparr>words := w\<rparr>) = in_region x n st" "in_region x n (st\<lparr>words := w, channel := c\<rparr>) = in_region x n st"
    "in_region x n (st\<lparr>channel := c\<rparr>) = in_region x n st" for x n w c
    by (simp_all add: in_region_def)
  have st0: "st\<lparr>words := words st\<rparr> = st" by simp
  have st1: "put_word (fifo_head ?tx) 0 (put_word (fifo_tail ?rx) 0 st) = st"
    using put_word_in [OF reg(1), of 0] put_word_in [of "fifo_head ?tx" "st\<lparr>words := (words st)(fifo_tail ?rx := 0)\<rparr>" 0] reg(2) w0 st0
    by (simp add: in2)
  let ?c0 = "(channel st ! r)\<lparr>remote_pid := of_nat r, tx_fifo := Some ?tx, rx_fifo := Some ?rx, gstatus_ptr := Some (?a + status_offset)\<rparr>"
  let ?st2 = "st\<lparr>channel := (channel st)[r := ?c0]\<rparr>"
  have st2: "upd_channel r (\<lambda>ch. ch\<lparr>remote_pid := of_nat r, tx_fifo := Some ?tx, rx_fifo := Some ?rx, gstatus_ptr := Some (?a + status_offset)\<rparr>) st = ?st2"
    using r(1) assms(8) by (simp add: upd_channel_def)
  have len: "length (irq_info (channel ?st2 ! r)) = MAX_CHANNEL_SIGNALS" "r < length (channel ?st2)"
    using r(1) assms(8) by (simp_all add: nth_link_channels link_channel_def zero_channel_def all_signals_def)
  have irqs: "list_all good_irq (cs_irqs env)" "\<forall>i < MAX_CHANNEL_SIGNALS. Inr i \<in> set (map is_index (cs_irqs env))"
    using assms(3) by (simp_all add: good_setup_def)
  obtain l where l: "irq_init_loop (cs_irqs env) r ?st2 = (0, ?st2\<lparr>channel := (channel ?st2)[r := (channel ?st2 ! r)\<lparr>irq_info := l\<rparr>]\<rparr>)"
    "length l = MAX_CHANNEL_SIGNALS" "\<forall>i < MAX_CHANNEL_SIGNALS. l ! i = \<lparr>irq_mbox_chan = Mbox_Chan, irq_signal_id = i\<rparr>"
    using irq_loop_good [OF irqs(1) len(2,1)] irqs(2) by metis
  have l6: "l = all_signals" using l(2,3) by (intro nth_equalityI) (simp_all add: all_signals_def del: upt.simps)
  let ?st3 = "st\<lparr>channel := (channel st)[r := ?c0\<lparr>irq_info := all_signals\<rparr>]\<rparr>"
  have st3: "irq_init_loop (cs_irqs env) r ?st2 = (0, ?st3)" using l(1) r(1) assms(8) by (simp add: l6)
  have st4: "put_word (?a + status_offset) (link_status r) ?st3 =
      ?st3\<lparr>words := link_words hosts (insert r D)\<rparr>"
    using put_word_in [of "?a + status_offset" ?st3 "link_status r"] reg(3) link_words_insert [OF assms(6,5)] assms(7) by (simp add: in2)
  have ch: "?c0\<lparr>irq_info := all_signals, ch_status := link_status r\<rparr> = link_channel hosts r"
    by (simp add: link_channel_def)
  have fin: "upd_channel r (\<lambda>ch. ch\<lparr>ch_status := link_status r\<rparr>) (?st3\<lparr>words := link_words hosts (insert r D)\<rparr>) =
      st\<lparr>words := link_words hosts (insert r D), channel := link_channels hosts (insert r D)\<rparr>"
    using r(1) assms(8) ch link_channels_insert [OF r(1), of hosts D] by (simp add: upd_channel_def)
  note look = channel_fifos_link [OF assms(1), of r, folded assms(4), OF assms(5)]
  show ?thesis
    using assms(3) st4 fin
    by (simp add: ipclite_channel_init_def good_setup_def look st1 st2 st3 r(2) link_status_def Let_def del: fun_upd_apply)
qed

lemma probe_all:
  assumes "laid_out st" "region_fits st" "hosts = enabled_hosts st" "list_all2 good_setup rs envs" "\<forall>s \<in> set rs \<union> D. linked hosts s"
    "words st = link_words hosts D" "channel st = link_channels hosts D"
  shows "fold probe_subsystem envs st = st\<lparr>words := link_words hosts (D \<union> set rs), channel := link_channels hosts (D \<union> set rs)\<rparr>"
  using assms(4-7,1-3)
proof (induction rs envs arbitrary: D st rule: list_all2_induct)
  case Nil
  have "st = st\<lparr>words := link_words hosts D, channel := link_channels hosts D\<rparr>" using Nil by (intro ipc_state.equality) simp_all
  then show ?case by simp
next
  case (Cons r rs env envs)
  let ?s = "st\<lparr>words := link_words hosts (insert r D), channel := link_channels hosts (insert r D)\<rparr>"
  have "probe_subsystem env st = ?s"
    using channel_init_good [of st r env hosts D] Cons by (simp add: probe_subsystem_def)
  moreover have "laid_out ?s" "region_fits ?s" using Cons.prems by (simp_all add: laid_out_def region_fits_def Let_def)
  ultimately show ?case using Cons.IH [of "insert r D" ?s] Cons.prems by simp
qed

section \<open>The whole initialisation\<close>

text \<open>A device tree that names this core and the cores \<open>rs\<close>, a region that is large enough, and a kernel that grants everything.\<close>

definition good_init :: "nat list \<Rightarrow> init_setup \<Rightarrow> ipc_state \<Rightarrow> bool" where
  "good_init rs env st \<longleftrightarrow> (let hosts = enable_hosts (in_children env) 0 (enabled_hosts st) in
     in_alloc env \<and> 0 \<le> in_hwlock_id env \<and> in_hwlock env \<and> in_kcalloc env \<and> in_debug env = 0 \<and>
     (\<exists>sz. in_map env = Inr sz \<and> base_of (length (host_pairs hosts)) \<le> unat sz) \<and> (\<exists>l h. in_features env = (Inr l, Inr h)) \<and>
     list_all2 good_setup rs (in_channels env) \<and> IPCMEM_APPS \<in> set rs \<and> (\<forall>r \<in> set rs. linked hosts r) \<and>
     0 \<le> mbox_answer st (length (ipc_calls st)))"

text \<open>With an empty first word, the exclusive or of the header of the table of contents is all ones.\<close>

lemma xor_checksum:
  assumes "length h = 12" "h ! 0 = 0"
  shows "fold (\<lambda>w b. b XOR w) ((h :: u32 list)[0 := NOT (fold (\<lambda>i b. b XOR h ! i) [1..<12] (h ! 0))]) 0 = NOT 0"
proof -
  obtain t where h: "h = 0 # t" "length t = 11" using assms by (cases h) auto
  have push: "fold (\<lambda>w b. b XOR w) ws (a XOR b) = a XOR fold (\<lambda>w b. b XOR w) ws b" for ws and a b :: u32
    by (induction ws arbitrary: b) (simp_all add: xor.assoc)
  have "fold (\<lambda>i b. b XOR h ! i) [1..<12] 0 = fold (\<lambda>w b. b XOR w) (map ((!) h) [1..<12]) 0"
    by (simp add: fold_map o_def del: upt.simps One_nat_def)
  moreover have "map ((!) h) [1..<12] = t" using h by (intro nth_equalityI) (simp_all del: upt.simps)
  ultimately have f: "fold (\<lambda>i b. b XOR h ! i) [1..<12] (h ! 0) = fold (\<lambda>w b. b XOR w) t 0" using assms(2) by simp
  have "fold (\<lambda>w b. b XOR w) t (NOT y) = NOT y XOR fold (\<lambda>w b. b XOR w) t 0" for y using push [of t "NOT y" 0] by simp
  then show ?thesis unfolding f using h(1) by (simp del: upt.simps One_nat_def)
qed

text \<open>The state that the initialisation leaves, for the cores \<open>rs\<close> of the device tree.\<close>

definition booted :: "nat list \<Rightarrow> ipc_state \<Rightarrow> bool" where
  "booted rs st \<longleftrightarrow> laid_out st \<and> region_fits st \<and> ipclite_up st \<and> IPCMEM_APPS \<in> set rs \<and> (\<forall>r \<in> set rs. linked (enabled_hosts st) r) \<and>
     words st = link_words (enabled_hosts st) (set rs) \<and> channel st = link_channels (enabled_hosts st) (set rs) \<and>
     hwlock_owner st = IPCMEM_INVALID_HOST \<and> (\<forall>c < IPCMEM_NUM_HOSTS. debug_ok c st) \<and>
     length (toc_hdr st) = 12 \<and> fold (\<lambda>w b. b XOR w) (toc_hdr st) 0 = NOT 0"

lemma init_good:
  assumes "good_init rs env st" "\<not> ipc_ub st"
  shows "\<exists>st'. ipclite_init_v0 env st = (0, st') \<and> booted rs st' \<and> \<not> ipc_ub st' \<and> api_list_t st' = api_list_t st \<and>
    enabled_hosts st' = enable_hosts (in_children env) 0 (enabled_hosts st) \<and>
    ipc_calls st' = ipc_calls st @ [Mbox_Send 0 IPCLITE_MEM_INIT_SIGNAL, Mbox_Txdone 0 IPCLITE_MEM_INIT_SIGNAL]"
proof -
  let ?hosts = "enable_hosts (in_children env) 0 (enabled_hosts st)"
  obtain sz l h where g: "in_alloc env" "0 \<le> in_hwlock_id env" "in_hwlock env" "in_kcalloc env" "in_debug env = 0" "in_map env = Inr sz"
    "base_of (length (host_pairs ?hosts)) \<le> unat sz" "in_features env = (Inr l, Inr h)" "list_all2 good_setup rs (in_channels env)"
    "IPCMEM_APPS \<in> set rs" "\<forall>r \<in> set rs. linked ?hosts r" "0 \<le> mbox_answer st (length (ipc_calls st))"
    using assms(1) by (auto simp: good_init_def Let_def)
  let ?s0 = "clear_region sz (st\<lparr>ipclite_up := True, channel := replicate IPCMEM_NUM_HOSTS zero_channel\<rparr>)"
  obtain s1 where s1: "ipcmem_init (in_children env) True ?s0 = (0, s1)" "laid_out s1" "enabled_hosts s1 = ?hosts" "words s1 = (\<lambda>_. 0)"
    "same_driver ?s0 s1" "hwlock_owner s1 = IPCMEM_INVALID_HOST" "\<not> ipc_ub s1" "length (toc_hdr s1) = 12" "toc_hdr s1 ! 0 = 0"
  proof -
    obtain s1 where s: "ipcmem_init (in_children env) True ?s0 = (0, s1)" "laid_out s1" "enabled_hosts s1 = ?hosts" "words s1 = (\<lambda>_. 0)"
      "same_driver ?s0 s1" "toc_hdr s1 = (toc_hdr ?s0)[1 := 1]" "hwlock_owner s1 = IPCMEM_INVALID_HOST"
      "ipc_ub s1 = (ipc_ub ?s0 \<or> unat (mem_size ?s0) < 4108 \<or> (\<exists>p < length (host_pairs ?hosts). \<not> in_region (base_of p + status_offset) 4 ?s0))"
      using ipcmem_init_ok [of ?s0 "in_children env"] by (auto simp: clear_region_def)
    have "base_of p + 32 \<le> unat sz" if "p < length (host_pairs ?hosts)" for p using that g(7) by (simp add: base_of_def)
    moreover have "4108 \<le> unat sz" using g(7) by (simp add: base_of_def)
    ultimately have "\<not> ipc_ub s1" using assms(2) by (auto simp: s(8) clear_region_def in_region_def status_offset_def add.assoc)
    moreover have "length (toc_hdr s1) = 12" "toc_hdr s1 ! 0 = 0" by (simp_all add: s(6) clear_region_def)
    ultimately show ?thesis using that s by blast
  qed
  have f: "ipclite_up s1" "mem_size s1 = sz" "channel s1 = link_channels ?hosts {}" "api_list_t s1 = api_list_t st" "ipc_calls s1 = ipc_calls st"
    "mbox_answer s1 = mbox_answer st" "debug_control s1 = debug_control st"
    using s1(5) by (auto simp: same_driver_def clear_region_def link_channels_def map_replicate_const simp del: upt.simps)
  have fit: "region_fits s1" using g(7) s1(3) f(2) by (simp add: region_fits_def)
  have w0: "words s1 = link_words ?hosts {}" using s1(4) by (auto simp: link_words_def)
  let ?s2 = "s1\<lparr>words := link_words ?hosts (set rs), channel := link_channels ?hosts (set rs)\<rparr>"
  have s2: "fold probe_subsystem (in_channels env) s1 = ?s2"
    using probe_all [OF s1(2) fit s1(3) [symmetric] g(9) _ w0 f(3)] g(11) by simp
  have mb: "irq_mbox_chan (irq_info (channel ?s2 ! IPCMEM_APPS) ! IPCLITE_MEM_INIT_SIGNAL) = Mbox_Chan"
    using g(10) by (simp add: nth_link_channels link_channel_def all_signals_def del: upt.simps One_nat_def)
  let ?s3 = "?s2\<lparr>ipc_calls := ipc_calls st @ [Mbox_Send 0 IPCLITE_MEM_INIT_SIGNAL, Mbox_Txdone 0 IPCLITE_MEM_INIT_SIGNAL]\<rparr>"
  define s4 where "s4 = snd (ipclite_feature_setup (Inr l) (Inr h) (snd (ipclite_debug_setup 0 ?s3)))"
  define s5 where "s5 = s4\<lparr>toc_hdr := (toc_hdr s4)[2 := major_ver s4, 3 := minor_ver s4]\<rparr>"
  have r: "ipclite_init_v0 env st = (0, insert_magic_number s5)"
    using g s1(1) s2 mb f(5,6)
    by (simp add: ipclite_init_v0_def mbox_send_message_def mbox_client_txdone_def ipc_call_log_def Let_def ipclite_debug_setup_def
        ipclite_feature_setup_def s4_def s5_def)
  have t: "length (toc_hdr s5) = 12" "toc_hdr s5 ! 0 = 0"
    using s1(8,9) by (simp_all add: s5_def s4_def ipclite_feature_setup_def ipclite_debug_setup_def Let_def)
  have "booted rs (insert_magic_number s5)"
    using s1(2,3,6) fit f(1) g(10,11) t xor_checksum [OF t]
    by (auto simp: booted_def insert_magic_number_def s5_def s4_def ipclite_feature_setup_def ipclite_debug_setup_def Let_def laid_out_def
        region_fits_def debug_ok_def)
  moreover have "\<not> ipc_ub (insert_magic_number s5)" "api_list_t (insert_magic_number s5) = api_list_t st" "enabled_hosts (insert_magic_number s5) = ?hosts"
    "ipc_calls (insert_magic_number s5) = ipc_calls st @ [Mbox_Send 0 IPCLITE_MEM_INIT_SIGNAL, Mbox_Txdone 0 IPCLITE_MEM_INIT_SIGNAL]"
    using s1(3,7) f(4) by (simp_all add: insert_magic_number_def s5_def s4_def ipclite_feature_setup_def ipclite_debug_setup_def Let_def)
  ultimately show ?thesis using r by blast
qed

end
