(* ===== verification/Ipc_Claims.thy ===== *)
theory Ipc_Claims
  imports Ipc_Ring
begin

text \<open>
  The properties of the message layer: messages arrive in order, the interrupt handler ends, the
  recovery of a core cuts it off.
\<close>

section \<open>A connection\<close>

text \<open>
  Channel \<open>c\<close> sends into the ring that channel \<open>d\<close> receives from; the channel of this core to itself does
  both, and two channels stand for the two cores.
\<close>

definition connected :: "nat \<Rightarrow> nat \<Rightarrow> ipclite_fifo \<Rightarrow> ipc_state \<Rightarrow> bool" where
  "connected c d f st \<longleftrightarrow> c < IPCMEM_NUM_HOSTS \<and> ch_status (channel st ! c) = ACTIVE \<and> tx_fifo (channel st ! c) = Some f \<and>
     rx_fifo (channel st ! d) = Some f \<and> irq_mbox_chan (irq_info (channel st ! c) ! IPCLITE_MSG_SIGNAL) = Mbox_Chan \<and>
     api_msg_send (api_list_t st) \<and> ring_inv f (unat (remote_pid (channel st ! c))) (unat (remote_pid (channel st ! d))) st"

primrec is_callback :: "ipc_call \<Rightarrow> bool" where
  "is_callback (Client_Callback f pid data priv) = True"
| "is_callback (Mbox_Send c s) = False"
| "is_callback (Mbox_Txdone c s) = False"

definition callbacks :: "ipc_state \<Rightarrow> ipc_call list" where
  "callbacks st = filter is_callback (ipc_calls st)"

lemma call_log_simps [simp]:
  "words (ipc_call_log k st) = words st" "bytes (ipc_call_log k st) = bytes st" "mem_size (ipc_call_log k st) = mem_size st"
  "channel (ipc_call_log k st) = channel st" "api_list_t (ipc_call_log k st) = api_list_t st" "synx_client (ipc_call_log k st) = synx_client st"
  "test_client (ipc_call_log k st) = test_client st" "ipc_ub (ipc_call_log k st) = ipc_ub st" "debug_control (ipc_call_log k st) = debug_control st"
  "dbg_struct (ipc_call_log k st) = dbg_struct st" "in_region a n (ipc_call_log k st) = in_region a n st"
  "debug_ok core (ipc_call_log k st) = debug_ok core st"
  "callbacks (ipc_call_log k st) = callbacks st @ (if is_callback k then [k] else [])"
  by (auto simp: ipc_call_log_def in_region_def debug_ok_def callbacks_def)

lemma ring_call_log [simp]:
  "ring_ok f (ipc_call_log k st) = ring_ok f st" "ring_msgs f (ipc_call_log k st) = ring_msgs f st"
  "ring_inv f a b (ipc_call_log k st) = ring_inv f a b st"
  by (simp_all add: ring_ok_def ring_read_def ring_write_def ring_msgs_def ring_inv_def ring_msg_def [abs_def] peek_bytes_def)

lemma upd_debug_frame [simp]: "callbacks (upd_debug k F G st) = callbacks st" "ring_msgs f (upd_debug k F G st) = ring_msgs f st"
  by (simp_all add: callbacks_def ring_msgs_def ring_read_def ring_write_def ring_msg_def [abs_def] peek_bytes_def)

lemma connected_call_log [simp]: "connected c d f (ipc_call_log k st) = connected c d f st"
  by (simp add: connected_def)

lemma connected_rest:
  assumes "connected c d f st" "same_rest st st'" "ring_ok f st'"
  shows "connected c d f st'" "callbacks st' = callbacks st"
  using assms by (simp_all add: connected_def same_rest_def ring_inv_def callbacks_def)

lemma msg_send_connected:
  assumes "connected c d f st" "length (ring_msgs f st) < ring_slots_count f - 1"
  shows "\<exists>st'. ipclite_msg_send (int c) m st = (0, st') \<and> connected c d f st' \<and> ring_msgs f st' = ring_msgs f st @ [m] \<and>
    callbacks st' = callbacks st \<and> synx_client st' = synx_client st \<and> channel st' = channel st"
proof -
  let ?ch = "channel st ! c"
  let ?s = "ipcmem_tx_write f (u64_bytes m) (unat (remote_pid ?ch)) (irq_signal_id (irq_info ?ch ! 0)) st"
  have f: "ring_ok f st" "debug_ok (unat (remote_pid ?ch)) st" using assms(1) by (simp_all add: connected_def ring_inv_def)
  have w: "ring_ok f ?s" "ring_msgs f ?s = ring_msgs f st @ [m]" "same_rest st ?s"
    using tx_write_ring [OF f(1) assms(2) f(2)] by blast+
  have e: "ipclite_msg_send (int c) m st = (0, ipc_call_log (Mbox_Txdone c 0) (ipc_call_log (Mbox_Send c 0) ?s))"
    using assms tx_avail_8 [OF f(1)] w(3)
    by (auto simp: ipclite_msg_send_def ipclite_msg_send_v0_def ipclite_tx_def channel_active_def ipclite_tx_avail_def with_fifo_def
        ipclite_tx_write_def connected_def mbox_send_message_def mbox_client_txdone_def Let_def same_rest_def not_less)
  show ?thesis unfolding e using connected_rest [OF assms(1) w(3,1)] w by (simp add: same_rest_def)
qed

lemma msg_send_full:
  assumes "connected c d f st" "\<not> length (ring_msgs f st) < ring_slots_count f - 1"
  shows "ipclite_msg_send (int c) m st = (- EAGAIN, st)"
proof -
  have "ring_ok f st" using assms(1) by (simp add: connected_def ring_inv_def)
  then show ?thesis using assms tx_avail_8 [of f st]
    by (simp add: ipclite_msg_send_def ipclite_msg_send_v0_def ipclite_tx_def channel_active_def ipclite_tx_avail_def with_fifo_def connected_def Let_def)
qed

text \<open>One round of the loop of the interrupt handler.\<close>

lemma rx_data_connected:
  assumes "connected c d f st" "ring_msgs f st = m # ms" "synx_client st = \<lparr>cl_callback = Some g, cl_priv_data = priv, cl_reg_complete = True\<rparr>"
    "avail \<ge> 8"
  defines "ch \<equiv> channel st ! d"
  shows "\<exists>st'. ipclite_rx_data ch avail st = (0, st') \<and> connected c d f st' \<and> ring_msgs f st' = ms \<and>
    callbacks st' = callbacks st @ [Client_Callback g (remote_pid ch) m priv] \<and> synx_client st' = synx_client st \<and> channel st' = channel st"
proof -
  have f: "ring_ok f st" "debug_ok (unat (remote_pid ch)) st" "rx_fifo ch = Some f" using assms(1) by (simp_all add: connected_def ring_inv_def ch_def)
  let ?s = "ipc_call_log (Client_Callback g (remote_pid ch) m priv) st"
  let ?t = "ipcmem_rx_advance f 8 (unat (remote_pid ch)) ?s"
  have e: "ipclite_rx_data ch avail st = (0, ?t)"
    using assms(3,4) f(3) ring_first [OF f(1) assms(2)]
    by (simp add: ipclite_rx_data_def ipclite_rx_peak_def with_fifo_def client_callback_def ipclite_rx_advance_def)
  have t: "ring_ok f ?t" "ring_msgs f ?t = ms" "same_rest ?s ?t"
    using rx_advance_ring [of f ?s m ms "unat (remote_pid ch)"] f assms(2) by simp_all
  have "connected c d f ?s" using assms(1) by simp
  from connected_rest [OF this t(3,1)] show ?thesis unfolding e using t by (simp add: same_rest_def)
qed

lemma rx_loop_connected:
  assumes "connected c d f st" "synx_client st = \<lparr>cl_callback = Some g, cl_priv_data = priv, cl_reg_complete = True\<rparr>" "ch = channel st ! d"
  shows "\<exists>st'. rx_loop ipclite_rx_data ch st = Some st' \<and> connected c d f st' \<and> ring_msgs f st' = [] \<and>
    callbacks st' = callbacks st @ map (\<lambda>m. Client_Callback g (remote_pid ch) m priv) (ring_msgs f st)"
  using assms
proof (induction "ring_msgs f st" arbitrary: st)
  case Nil
  then have r: "ring_ok f st" "rx_fifo ch = Some f" unfolding connected_def ring_inv_def by simp_all
  have "unat (ipcmem_rx_avail f st) = 0" using rx_avail_ring [OF r(1)] Nil.hyps by simp
  then have "ipcmem_rx_avail f st = 0" by (simp add: unat_eq_0)
  then show ?case using Nil r(2) by (subst rx_loop.simps) (simp add: ipclite_rx_avail_def with_fifo_def)
next
  case (Cons m ms)
  then have r: "ring_ok f st" "rx_fifo ch = Some f" unfolding connected_def ring_inv_def by simp_all
  let ?a = "ucast (ipcmem_rx_avail f st) :: u32"
  have len: "length (ring_msgs f st) < ring_slots_count f" "8 * ring_slots_count f < 2 ^ 31" using tx_avail_ring(2) [OF r(1)] r(1) by (simp_all add: ring_ok_def)
  have "unat ?a = unat (ipcmem_rx_avail f st) mod 2 ^ 32" by (simp add: unsigned_ucast_eq take_bit_eq_mod)
  then have a: "unat ?a = 8 * length (ring_msgs f st)" using rx_avail_ring [OF r(1)] len by simp
  then have ge: "(ucast ?a :: u64) \<ge> 8" "\<not> ?a < 8" using Cons.hyps(2) [symmetric] by (simp_all add: word_le_nat_alt word_less_nat_alt)
  note d = Cons.prems(3)
  obtain st1 where s1: "ipclite_rx_data ch (ucast ?a) st = (0, st1)" "connected c d f st1" "ring_msgs f st1 = ms"
    "callbacks st1 = callbacks st @ [Client_Callback g (remote_pid ch) m priv]" "synx_client st1 = synx_client st" "channel st1 = channel st"
    using rx_data_connected [OF Cons.prems(1) Cons.hyps(2) [symmetric] Cons.prems(2) ge(1)] by (auto simp: d)
  obtain st2 where s2: "rx_loop ipclite_rx_data ch st1 = Some st2" "connected c d f st2" "ring_msgs f st2 = []"
    "callbacks st2 = callbacks st1 @ map (\<lambda>m. Client_Callback g (remote_pid ch) m priv) ms"
    using Cons.hyps(1) [OF s1(3) [symmetric] s1(2)] Cons.prems(2,3) s1(3,5,6) by auto
  have "rx_loop ipclite_rx_data ch st = rx_loop ipclite_rx_data ch st1"
    using ge(2) s1(1) r(2) by (subst rx_loop.simps) (simp add: ipclite_rx_avail_def with_fifo_def Let_def)
  then show ?case using s1(4) s2 Cons.hyps(2) [symmetric] by simp
qed

lemma connected_intr:
  assumes "connected c d f st" "synx_client st = \<lparr>cl_callback = Some g, cl_priv_data = priv, cl_reg_complete = True\<rparr>"
  shows "\<exists>st'. ipclite_intr d IPCLITE_MSG_SIGNAL st = Some st' \<and> connected c d f st' \<and> ring_msgs f st' = [] \<and>
    callbacks st' = callbacks st @ map (\<lambda>m. Client_Callback g (remote_pid (channel st ! d)) m priv) (ring_msgs f st)"
proof -
  let ?pid = "remote_pid (channel st ! d)"
  let ?s = "upd_debug (unat ?pid) (\<lambda>h. h\<lparr>last_recv_host_id := ?pid, last_sigid_recv := of_nat IPCLITE_MSG_SIGNAL\<rparr>) (\<lambda>h. h\<lparr>num_intr := num_intr h + 1\<rparr>) st"
  have dbg: "debug_ok (unat ?pid) st" and ok: "ring_ok f st" using assms(1) by (simp_all add: connected_def ring_inv_def)
  have "same_rest st ?s" using upd_debug_ok [OF dbg] by (simp add: same_rest_def)
  moreover have "ring_ok f ?s" using ring_ok_cong(1) [OF ok] by simp
  ultimately have conn: "connected c d f ?s" using connected_rest [OF assms(1)] by blast
  have "synx_client ?s = \<lparr>cl_callback = Some g, cl_priv_data = priv, cl_reg_complete = True\<rparr>" using assms(2) by simp
  from rx_loop_connected [OF conn this refl] show ?thesis by (auto simp: ipclite_intr_def Let_def)
qed

interpretation chan: fifo_writer "ipclite_msg_send (int c)" "ring_msgs f" "\<lambda>m. m" "\<lambda>_. ring_slots_count f - 1"
    "\<lambda>st. connected c d f st \<and> callbacks st = cs \<and> synx_client st = cl \<and> channel st = chs" "- EAGAIN" for c d f cs cl chs
proof unfold_locales
  show "\<exists>b s'. ipclite_msg_send (int c) m s = (0, s') \<and> (connected c d f s' \<and> callbacks s' = cs \<and> synx_client s' = cl \<and> channel s' = chs) \<and>
      ring_slots_count f - 1 = ring_slots_count f - 1 \<and> ring_msgs f s' = ring_msgs f s @ [b] \<and> b = m"
    if "connected c d f s \<and> callbacks s = cs \<and> synx_client s = cl \<and> channel s = chs" "length (ring_msgs f s) < ring_slots_count f - 1" for m s
    using msg_send_connected [of c d f s m] that by auto
qed (use msg_send_full in blast)

section \<open>Messages are delivered\<close>

fun send_all :: "nat \<Rightarrow> u64 list \<Rightarrow> ipc_state \<Rightarrow> int list \<times> ipc_state" where
  "send_all c [] st = ([], st)"
| "send_all c (m # ms) st = (case ipclite_msg_send (int c) m st of (r, st1) \<Rightarrow> case send_all c ms st1 of (rs, st2) \<Rightarrow> (r # rs, st2))"

lemma send_all_eq: "send_all c ms st = fifo_writer.enq_all (ipclite_msg_send (int c)) ms st"
  by (induction ms arbitrary: st) (simp_all add: chan.enq_all.simps)

text \<open>C24: Messages that are sent while there is room in the ring are all accepted, and one interrupt on the other side hands exactly the messages
  of the ring to the registered client, in the order of sending, each with the sender and once; the ring is empty then, nothing is
  accessed outside the region, and a message for a full ring is refused with EAGAIN and changes nothing.\<close>

theorem ipc_messages_delivered:
  assumes "connected c d f st" "synx_client st = \<lparr>cl_callback = Some g, cl_priv_data = priv, cl_reg_complete = True\<rparr>"
    and "length (ring_msgs f st) + length ms \<le> ring_slots_count f - 1"
  shows "\<exists>st1 st2. send_all c ms st = (replicate (length ms) 0, st1) \<and> ipclite_intr d IPCLITE_MSG_SIGNAL st1 = Some st2 \<and>
    callbacks st2 = callbacks st @ map (\<lambda>m. Client_Callback g (remote_pid (channel st ! d)) m priv) (ring_msgs f st @ ms) \<and>
    ring_msgs f st2 = [] \<and> \<not> ipc_ub st2 \<and>
    (length (ring_msgs f st) + length ms = ring_slots_count f - 1 \<longrightarrow> (\<forall>m. ipclite_msg_send (int c) m st1 = (- EAGAIN, st1)))"
proof -
  obtain st1 where s1: "send_all c ms st = (replicate (length ms) 0, st1)" "connected c d f st1" "callbacks st1 = callbacks st"
    "synx_client st1 = synx_client st" "channel st1 = channel st" "ring_msgs f st1 = ring_msgs f st @ ms"
    using chan.enq_all_room [of c d f st "callbacks st" "synx_client st" "channel st" ms] assms(1,3) by (auto simp: send_all_eq)
  obtain st2 where s2: "ipclite_intr d IPCLITE_MSG_SIGNAL st1 = Some st2" "connected c d f st2" "ring_msgs f st2 = []"
    "callbacks st2 = callbacks st1 @ map (\<lambda>m. Client_Callback g (remote_pid (channel st1 ! d)) m priv) (ring_msgs f st1)"
    using connected_intr [OF s1(2)] s1(4) assms(2) by auto
  have "\<not> ipc_ub st2" using s2(2) by (simp add: connected_def ring_inv_def)
  then show ?thesis using s1 s2 msg_send_full [OF s1(2)] by (intro exI [of _ st1] exI [of _ st2]) simp
qed

section \<open>The interrupt handler ends\<close>

text \<open>
  The ring of a channel with any index of the writer: the length is a multiple of 8, and the own
  index is a multiple of 8 in the ring.
\<close>

definition readable :: "ipclite_fifo \<Rightarrow> ipc_state \<Rightarrow> bool" where
  "readable f st \<longleftrightarrow> 8 dvd unat (fifo_length f) \<and> 0 < unat (fifo_length f) \<and> unat (fifo_length f) < 2 ^ 31 \<and>
     8 dvd unat (words st (fifo_tail f)) \<and> words st (fifo_tail f) < fifo_length f \<and> fifo_tail f \<noteq> fifo_head f"

definition next_tail :: "ipclite_fifo \<Rightarrow> ipc_state \<Rightarrow> nat" where
  "next_tail f st = (let t = unat (words st (fifo_tail f)) + 8 in if t \<ge> unat (fifo_length f) then 0 else t)"

lemma readable_avail:
  assumes "readable f st"
  shows "unat (ipcmem_rx_avail f st) =
    (let t = unat (words st (fifo_tail f)); h = unat (words st (fifo_head f)); l = unat (fifo_length f)
     in if h < t then l - t + h else if h - t > l then 0 else h - t)"
proof -
  let ?h = "words st (fifo_head f)" and ?t = "words st (fifo_tail f)" and ?l = "fifo_length f"
  have t: "unat ?t < unat ?l" "unat ?l < 2 ^ 31" using assms by (simp_all add: readable_def word_less_nat_alt)
  show ?thesis
  proof (cases "?h < ?t")
    case True
    then have h: "unat ?h < unat ?t" by (simp add: word_less_nat_alt)
    have d: "unat (?l - ?t) = unat ?l - unat ?t" using t by (simp add: u32_minus)
    have "unat (?l - ?t + ?h) = unat (?l - ?t) + unat ?h" by (rule unat_plus_eq) (use h t d in simp)
    then show ?thesis using True h t d by (simp add: ipcmem_rx_avail_def Let_def word_less_nat_alt)
  next
    case False
    then have "unat ?t \<le> unat ?h" by (simp add: word_less_nat_alt)
    then show ?thesis using False by (simp add: ipcmem_rx_avail_def Let_def word_less_nat_alt u32_minus)
  qed
qed

lemma readable_avail_le:
  assumes "readable f st"
  shows "unat (ipcmem_rx_avail f st) \<le> unat (fifo_length f)"
proof -
  have "unat (words st (fifo_tail f)) < unat (fifo_length f)" using assms by (simp add: readable_def word_less_nat_alt)
  then show ?thesis unfolding readable_avail [OF assms] Let_def by auto
qed

text \<open>A handler of one message: it moves the index of the reader, whatever it does with the message.\<close>

definition takes_one :: "(ipclite_channel \<Rightarrow> u64 \<Rightarrow> ipc_state \<Rightarrow> int \<times> ipc_state) \<Rightarrow> bool" where
  "takes_one rx \<longleftrightarrow> (\<forall>ch f avail st. rx_fifo ch = Some f \<longrightarrow> 8 \<le> avail \<longrightarrow> readable f st \<longrightarrow>
     words (snd (rx ch avail st)) = (words st)(fifo_tail f := word_of_nat (next_tail f st)))"

lemma advance_words:
  assumes "readable f st"
  shows "words (ipcmem_rx_advance f 8 core st) = (words st)(fifo_tail f := word_of_nat (next_tail f st))"
proof -
  let ?t = "words st (fifo_tail f)" and ?l = "fifo_length f"
  have t: "unat ?t < unat ?l" "unat ?l < 2 ^ 31" "8 dvd unat ?t" "8 dvd unat ?l" using assms by (simp_all add: readable_def word_less_nat_alt)
  have p: "unat (?t + 8) = unat ?t + 8" by (subst unat_plus_eq) (use t in auto)
  have eq: "(if ?t + 8 \<ge> ?l then (?t + 8) mod ?l else ?t + 8) = word_of_nat (next_tail f st)"
  proof (cases "unat ?t + 8 \<ge> unat ?l")
    case True
    moreover have "\<not> unat ?t + 8 > unat ?l" using t(1,3,4) by (auto elim!: dvdE)
    ultimately have "unat (?t + 8) = unat ?l" using p by simp
    then have "?t + 8 = ?l" by (rule unsigned_word_eqI)
    moreover have "next_tail f st = 0" using True by (simp add: next_tail_def Let_def)
    ultimately show ?thesis by simp
  next
    case False
    then have "\<not> ?l \<le> ?t + 8" using p by (simp add: word_le_nat_alt)
    moreover have "next_tail f st = unat (?t + 8)" using False p by (simp add: next_tail_def Let_def)
    ultimately show ?thesis by simp
  qed
  have "words (ipcmem_rx_advance f 8 core st) = (words st)(fifo_tail f := (if ?t + 8 \<ge> ?l then (?t + 8) mod ?l else ?t + 8))"
    by (simp add: ipcmem_rx_advance_def Let_def)
  then show ?thesis by (simp only: eq)
qed

lemma peak_words [simp]: "words (snd (ipclite_rx_peak ch data n st)) = words st"
  by (simp add: ipclite_rx_peak_def with_fifo_def ipcmem_rx_peak_def Let_def split: option.split)

lemma client_callback_words [simp]: "words (client_callback c pid m st) = words st"
  by (simp add: client_callback_def split: option.split)

lemma readable_cong: "words s = words st \<Longrightarrow> readable f s = readable f st \<and> next_tail f s = next_tail f st"
  by (simp add: readable_def next_tail_def)

lemma handlers_take_one: "takes_one ipclite_rx_data" "takes_one ipclite_rx_test_data"
proof -
  have a: "words (ipclite_rx_advance ch 8 (client_callback c pid m (snd (ipclite_rx_peak ch data n st)))) =
      (words st)(fifo_tail f := word_of_nat (next_tail f st))" if ch: "rx_fifo ch = Some f" "readable f st" for ch f c pid m data n st
  proof -
    let ?s = "client_callback c pid m (snd (ipclite_rx_peak ch data n st))"
    have w: "words ?s = words st" by simp
    note s = readable_cong [OF w, of f]
    have "ipclite_rx_advance ch 8 ?s = ipcmem_rx_advance f 8 (unat (remote_pid ch)) ?s"
      by (simp add: ipclite_rx_advance_def with_fifo_def ch(1))
    then show ?thesis using advance_words [of f ?s] ch(2) s w by simp
  qed
  have n: "(avail < 8) = False" if "8 \<le> avail" for avail :: u64 using that by (simp add: not_less)
  show "takes_one ipclite_rx_data"
    unfolding takes_one_def ipclite_rx_data_def split_beta by (intro allI impI) (simp only: n if_False snd_conv a)
  show "takes_one ipclite_rx_test_data"
    unfolding takes_one_def ipclite_rx_test_data_def split_beta by (intro allI impI) (simp only: n if_False snd_conv a)
qed

lemma rx_loop_round:
  assumes "rx_fifo ch = Some f" "readable f st"
  shows "rx_loop rx ch st =
    (if unat (ipcmem_rx_avail f st) < 8 then Some st else rx_loop rx ch (snd (rx ch (ipcmem_rx_avail f st) st)))"
proof -
  let ?a = "ucast (ipcmem_rx_avail f st) :: u32"
  have "unat (ipcmem_rx_avail f st) < 2 ^ 31" using readable_avail_le [OF assms(2)] assms(2) by (simp add: readable_def)
  then have a: "unat ?a = unat (ipcmem_rx_avail f st)" by (simp add: unsigned_ucast_eq take_bit_eq_mod)
  then have "(ucast ?a :: u64) = ipcmem_rx_avail f st" by (metis of_nat_unat ucast_id unat_ucast_u32_u64)
  then show ?thesis using assms(1) a
    by (subst rx_loop.simps) (simp add: ipclite_rx_avail_def with_fifo_def Let_def word_less_nat_alt)
qed

lemma take_step:
  assumes "takes_one rx" "rx_fifo ch = Some f" "readable f st" "\<not> unat (ipcmem_rx_avail f st) < 8"
  defines "st' \<equiv> snd (rx ch (ipcmem_rx_avail f st) st)"
  shows "readable f st'" "unat (words st' (fifo_tail f)) = next_tail f st" "words st' (fifo_head f) = words st (fifo_head f)"
proof -
  have "8 \<le> ipcmem_rx_avail f st" using assms(4) by (simp add: word_le_nat_alt)
  then have w: "words st' = (words st)(fifo_tail f := word_of_nat (next_tail f st))"
    using assms(1-3) by (simp add: takes_one_def st'_def)
  have n: "next_tail f st < unat (fifo_length f)" "8 dvd next_tail f st" using assms(3) by (auto simp: readable_def next_tail_def Let_def)
  then have u: "unat (word_of_nat (next_tail f st) :: u32) = next_tail f st" using assms(3) by (simp add: unat_of_nat readable_def)
  show "readable f st'" "unat (words st' (fifo_tail f)) = next_tail f st" "words st' (fifo_head f) = words st (fifo_head f)"
    using assms(3) n u by (simp_all add: w readable_def word_less_nat_alt)
qed

text \<open>With the index of the writer at the length, the loop never ends: there is always something to read.\<close>

lemma rx_loop_spins:
  assumes "rx_loop rx ch st = Some r"
  shows "takes_one rx \<longrightarrow> rx_fifo ch = Some f \<longrightarrow> readable f st \<longrightarrow> words st (fifo_head f) \<noteq> fifo_length f"
proof (rule rx_loop.raw_induct [OF _ assms], goal_cases)
  case (1 loop rx ch st r)
  show ?case
  proof (intro impI notI)
    assume p: "takes_one rx" "rx_fifo ch = Some f" "readable f st" and h: "words st (fifo_head f) = fifo_length f"
    let ?a = "ipcmem_rx_avail f st"
    have t: "unat (words st (fifo_tail f)) < unat (fifo_length f)" "8 dvd unat (words st (fifo_tail f))" "8 dvd unat (fifo_length f)"
      "unat (fifo_length f) < 2 ^ 31" using p(3) by (simp_all add: readable_def word_less_nat_alt)
    have a: "unat ?a = unat (fifo_length f) - unat (words st (fifo_tail f))" using readable_avail [OF p(3)] t(1) h by (simp add: Let_def)
    then have ge: "\<not> unat ?a < 8" using t(1,2,3) by (auto elim!: dvdE)
    have u: "unat (ucast ?a :: u32) = unat ?a" using a t(4) by (simp add: unsigned_ucast_eq take_bit_eq_mod)
    then have uu: "(ucast (ucast ?a :: u32) :: u64) = ?a" by (metis of_nat_unat ucast_id unat_ucast_u32_u64)
    have "loop rx ch (snd (rx ch ?a st)) = Some r"
      using 1(2) p(2) ge u uu by (simp add: ipclite_rx_avail_def with_fifo_def Let_def word_less_nat_alt)
    from 1(1) [OF this] show False using p(1,2) take_step [OF p ge] h by simp
  qed
qed

lemma rx_loop_ends_below:
  assumes "takes_one rx" "rx_fifo ch = Some f" "readable f st" "words st (fifo_head f) < fifo_length f"
  shows "\<exists>st'. rx_loop rx ch st = Some st'"
  using assms
proof (induction "unat (ipcmem_rx_avail f st)" arbitrary: st rule: less_induct)
  case less
  show ?case
  proof (cases "unat (ipcmem_rx_avail f st) < 8")
    case True
    then show ?thesis using rx_loop_round [OF less.prems(2,3)] by simp
  next
    case False
    let ?s = "snd (rx ch (ipcmem_rx_avail f st) st)"
    note step = take_step [OF less.prems(1-3) False]
    have d: "8 dvd unat (words st (fifo_tail f))" "8 dvd unat (fifo_length f)" "unat (words st (fifo_tail f)) < unat (fifo_length f)"
      using less.prems(3) by (simp_all add: readable_def word_less_nat_alt)
    have "unat (ipcmem_rx_avail f ?s) < unat (ipcmem_rx_avail f st)"
      using False less.prems(4) d unfolding readable_avail [OF step(1)] readable_avail [OF less.prems(3)] step(2,3) next_tail_def Let_def
      by (auto simp: word_less_nat_alt split: if_splits)
    from less.hyps [OF this less.prems(1,2) step(1)] show ?thesis
      using rx_loop_round [OF less.prems(2,3)] False less.prems(4) step(3) by simp
  qed
qed

lemma rx_loop_ends_above:
  assumes "takes_one rx" "rx_fifo ch = Some f" "readable f st" "words st (fifo_head f) > fifo_length f"
  shows "\<exists>st'. rx_loop rx ch st = Some st'"
  using assms
proof (induction "if words st (fifo_tail f) = 0 then 0 else unat (fifo_length f) - unat (words st (fifo_tail f))" arbitrary: st rule: less_induct)
  case less
  show ?case
  proof (cases "unat (ipcmem_rx_avail f st) < 8")
    case True
    then show ?thesis using rx_loop_round [OF less.prems(2,3)] by simp
  next
    case False
    let ?s = "snd (rx ch (ipcmem_rx_avail f st) st)" and ?t = "unat (words st (fifo_tail f))"
    note step = take_step [OF less.prems(1-3) False]
    have d: "?t < unat (fifo_length f)" using less.prems(3) by (simp add: readable_def word_less_nat_alt)
    have "?t \<noteq> 0" using False less.prems(4) readable_avail [OF less.prems(3)] by (auto simp: Let_def word_less_nat_alt split: if_splits)
    then have "(if words ?s (fifo_tail f) = 0 then 0 else unat (fifo_length f) - unat (words ?s (fifo_tail f))) <
        (if words st (fifo_tail f) = 0 then 0 else unat (fifo_length f) - ?t)"
      using d step(2) by (auto simp: next_tail_def Let_def unat_eq_0 [symmetric] simp del: unat_eq_0 split: if_splits)
    from less.hyps [OF this less.prems(1,2) step(1)] show ?thesis
      using rx_loop_round [OF less.prems(2,3)] False less.prems(4) step(3) by simp
  qed
qed

text \<open>C27: The interrupt handler for messages and for test messages ends for every value that the other core has written as its index, except the
  length of the ring: with that value there is always something to read and the loop never ends.\<close>

theorem ipc_handler_ends:
  assumes "rx_fifo (channel st ! d) = Some f" "readable f st" "s = IPCLITE_MSG_SIGNAL \<or> s = IPCLITE_TEST_SIGNAL"
  shows "(\<exists>st'. ipclite_intr d s st = Some st') \<longleftrightarrow> words st (fifo_head f) \<noteq> fifo_length f"
proof -
  let ?pid = "remote_pid (channel st ! d)"
  let ?s = "upd_debug (unat ?pid) (\<lambda>h. h\<lparr>last_recv_host_id := ?pid, last_sigid_recv := of_nat s\<rparr>) (\<lambda>h. h\<lparr>num_intr := num_intr h + 1\<rparr>) st"
  have r: "readable f ?s" using assms(2) by (simp add: readable_def)
  have loop: "(\<exists>st'. rx_loop rx (channel st ! d) ?s = Some st') \<longleftrightarrow> words st (fifo_head f) \<noteq> fifo_length f" if "takes_one rx" for rx
  proof
    assume "words st (fifo_head f) \<noteq> fifo_length f"
    then show "\<exists>st'. rx_loop rx (channel st ! d) ?s = Some st'"
      using rx_loop_ends_below [OF that assms(1) r] rx_loop_ends_above [OF that assms(1) r] by (auto simp: neq_iff)
  qed (use rx_loop_spins [of rx "channel st ! d" ?s _ f] that assms(1) r in auto)
  show ?thesis using assms(3) loop [OF handlers_take_one(1)] loop [OF handlers_take_one(2)] by (auto simp: ipclite_intr_def Let_def)
qed

section \<open>Concrete runs\<close>

text \<open>A channel of this core to itself with a ring of four messages, and a registered client.\<close>

definition loop_fifo :: ipclite_fifo where
  "loop_fifo = \<lparr>fifo_length = 32, fifo_tail = 0, fifo_head = 4, fifo_mem = 64\<rparr>"

definition loop_state :: ipc_state where
  "loop_state =
     \<lparr>ipclite_up = True, enabled_hosts = 1, partitions = 0, major_ver = 1, minor_ver = 0, feature_mask = 0, mem_size = 4096, toc_hdr = [],
      toc_offsets = \<lparr>io_host_info = 0, io_global_entry = 0, io_partition_info = 0, io_partition_entry = 0\<rparr>, hwlock_owner = IPCMEM_INVALID_HOST,
      configured_host = 1, global_entry = \<lparr>pe_base_offset = 0, pe_size = 0, pe_flags = 0, pe_host0 = 0, pe_host1 = 0\<rparr>,
      num_entries = 0, entry_size = 0, partition_entry = (\<lambda>_. \<lparr>pe_base_offset = 0, pe_size = 0, pe_flags = 0, pe_host0 = 0, pe_host1 = 0\<rparr>),
      global_partition = 0, global_hdr = global_partition_hdr, partition = [], partition_hdr = (\<lambda>_. default_partition_hdr),
      words = (\<lambda>_. 0), bytes = (\<lambda>_. 0),
      channel = [\<lparr>remote_pid = 0, tx_fifo = Some loop_fifo, rx_fifo = Some loop_fifo,
        irq_info = replicate MAX_CHANNEL_SIGNALS \<lparr>irq_mbox_chan = Mbox_Chan, irq_signal_id = 0\<rparr>, gstatus_ptr = None, ch_status = ACTIVE\<rparr>],
      synx_client = \<lparr>cl_callback = Some 7, cl_priv_data = 3, cl_reg_complete = True\<rparr>,
      test_client = \<lparr>cl_callback = None, cl_priv_data = 0, cl_reg_complete = False\<rparr>,
      api_list_t = api_list_version ! 0, debug_control = 0, dbg_struct = None, hw_locked = False, hw_busy = (\<lambda>_. False), hw_tries = 0,
      mbox_answer = (\<lambda>_. 0), ipc_calls = [], ipc_ub = False\<rparr>"

lemma loop_connected: "connected 0 0 loop_fifo loop_state" "ring_msgs loop_fifo loop_state = []" "callbacks loop_state = []"
  "ring_slots_count loop_fifo = 4"
proof -
  show "ring_slots_count loop_fifo = 4" by (simp add: ring_slots_count_def loop_fifo_def)
  then show "connected 0 0 loop_fifo loop_state"
    by (simp add: connected_def loop_state_def ring_inv_def ring_ok_def debug_ok_def in_region_def api_list_version_def ring_read_def ring_write_def)
      (simp add: loop_fifo_def)
qed (simp_all add: ring_msgs_def ring_read_def ring_write_def ring_slots_def ring_count_def loop_state_def callbacks_def)

theorem ipc_messages_delivered_witness:
  "\<exists>st1 st2. send_all 0 [5, 6, 8] loop_state = ([0, 0, 0], st1) \<and> ipclite_intr 0 IPCLITE_MSG_SIGNAL st1 = Some st2 \<and>
    callbacks st2 = [Client_Callback 7 0 5 3, Client_Callback 7 0 6 3, Client_Callback 7 0 8 3] \<and> ipclite_msg_send 0 9 st1 = (- EAGAIN, st1)"
proof -
  have "synx_client loop_state = \<lparr>cl_callback = Some 7, cl_priv_data = 3, cl_reg_complete = True\<rparr>" "remote_pid (channel loop_state ! 0) = 0"
    by (simp_all add: loop_state_def)
  then show ?thesis
    using ipc_messages_delivered [OF loop_connected(1), of 7 3 "[5, 6, 8]"] loop_connected by (fastforce simp: numeral_3_eq_3)
qed

theorem ipc_handler_ends_witness:
  "ipclite_intr 0 IPCLITE_MSG_SIGNAL (loop_state\<lparr>words := (\<lambda>_. 0)(4 := 32)\<rparr>) = None \<and>
   (\<exists>st'. ipclite_intr 0 IPCLITE_MSG_SIGNAL (loop_state\<lparr>words := (\<lambda>_. 0)(4 := 8)\<rparr>) = Some st')"
proof -
  have "readable loop_fifo (loop_state\<lparr>words := (\<lambda>_. 0)(4 := h)\<rparr>)" "rx_fifo (channel (loop_state\<lparr>words := (\<lambda>_. 0)(4 := h)\<rparr>) ! 0) = Some loop_fifo" for h
    by (simp_all add: readable_def loop_fifo_def loop_state_def)
  note ipc_handler_ends [OF this(2,1), of IPCLITE_MSG_SIGNAL 32] ipc_handler_ends [OF this(2,1), of IPCLITE_MSG_SIGNAL 8]
  then show ?thesis by (simp add: loop_fifo_def loop_state_def)
qed

end
