(* ===== verification/Ipc_Safe.thy ===== *)
theory Ipc_Safe
  imports Ipc_Boot Ipc_Claims
begin

text \<open>
  Memory safety of the message layer: after the initialisation no operation of this core leaves the
  shared region, whatever the other cores write into it in between.
\<close>

section \<open>The invariant\<close>

text \<open>Every core of the device tree has its channel; only the status of a channel changes.\<close>

definition wired :: "nat list \<Rightarrow> ipc_state \<Rightarrow> bool" where
  "wired rs st \<longleftrightarrow> laid_out st \<and> region_fits st \<and> ipclite_up st \<and> length (channel st) = IPCMEM_NUM_HOSTS \<and>
     (\<forall>r \<in> set rs. linked (enabled_hosts st) r \<and> (channel st ! r)\<lparr>ch_status := 0\<rparr> = (link_channel (enabled_hosts st) r)\<lparr>ch_status := 0\<rparr>) \<and>
     (\<forall>r < IPCMEM_NUM_HOSTS. r \<notin> set rs \<longrightarrow> channel st ! r = zero_channel)"

definition safe :: "nat list \<Rightarrow> ipc_state \<Rightarrow> bool" where
  "safe rs st \<longleftrightarrow> wired rs st \<and> (\<forall>c < IPCMEM_NUM_HOSTS. debug_ok c st) \<and> \<not> ipc_ub st"

lemma safe_wired: "safe rs st \<Longrightarrow> wired rs st"
  by (simp add: safe_def)

lemma safe_cong:
  assumes "safe rs st" "enabled_hosts st' = enabled_hosts st" "partitions st' = partitions st" "partition st' = partition st"
    "partition_entry st' = partition_entry st" "partition_hdr st' = partition_hdr st" "global_partition st' = global_partition st"
    "global_hdr st' = global_hdr st" "mem_size st' = mem_size st" "ipclite_up st' = ipclite_up st" "channel st' = channel st"
    "\<And>c. debug_ok c st' = debug_ok c st" "ipc_ub st' = ipc_ub st"
  shows "safe rs st'"
  using assms by (simp add: safe_def wired_def laid_out_def region_fits_def)

lemma safe_put_word:
  assumes "safe rs st" "in_region a 4 st"
  shows "safe rs (put_word a v st)"
  by (rule safe_cong [OF assms(1)]) (use assms(2) in \<open>simp_all add: put_word_in debug_ok_def\<close>)

lemma safe_poke:
  assumes "safe rs st" "in_region a (length bs) st"
  shows "safe rs (poke_bytes a bs st)"
  by (rule safe_cong [OF assms(1)]) (use assms(2) in \<open>simp_all add: poke_bytes_def ipc_flag_def debug_ok_def\<close>)

lemma upd_debug_shape:
  assumes "debug_ok c st"
  shows "\<exists>d. upd_debug c f g st = st\<lparr>dbg_struct := d\<rparr>"
proof (cases "debug_control st AND IPCLITE_DBG_STRUCT = 0")
  case True
  then show ?thesis by (intro exI [of _ "dbg_struct st"]) (simp add: upd_debug_def)
next
  case False
  then obtain d where "dbg_struct st = Some d" "c < length (dbg_info_host d)" using assms by (auto simp: debug_ok_def)
  then show ?thesis using False by (simp add: upd_debug_def) (intro exI, rule refl)
qed

lemma safe_upd_debug:
  assumes "safe rs st" "c < IPCMEM_NUM_HOSTS" "\<And>d. length (dbg_info_host (f d)) = length (dbg_info_host d)"
  shows "safe rs (upd_debug c f g st)"
proof -
  have ok: "debug_ok c st" using assms(1,2) by (simp add: safe_def)
  obtain d where d: "upd_debug c f g st = st\<lparr>dbg_struct := d\<rparr>" using upd_debug_shape [OF ok] by blast
  have "debug_ok c' (upd_debug c f g st) = debug_ok c' st" for c' by (rule upd_debug_ok(2) [OF ok assms(3)])
  then show ?thesis unfolding d by (intro safe_cong [OF assms(1)]) simp_all
qed

lemma safe_call_log [simp]: "safe rs st \<Longrightarrow> safe rs (ipc_call_log k st)"
  by (erule safe_cong) (simp_all add: ipc_call_log_def debug_ok_def)

lemma wired_channel:
  assumes "wired rs st" "r \<in> set rs"
  shows "linked (enabled_hosts st) r" "tx_fifo (channel st ! r) = Some (link_tx (enabled_hosts st) r)" "rx_fifo (channel st ! r) = Some (link_rx (enabled_hosts st) r)"
    "remote_pid (channel st ! r) = of_nat r" "irq_info (channel st ! r) = all_signals" "gstatus_ptr (channel st ! r) = Some (link_base (enabled_hosts st) r + status_offset)"
    "r < IPCMEM_NUM_HOSTS"
proof -
  have e: "(channel st ! r)\<lparr>ch_status := 0\<rparr> = (link_channel (enabled_hosts st) r)\<lparr>ch_status := 0\<rparr>" using assms by (simp add: wired_def)
  show "tx_fifo (channel st ! r) = Some (link_tx (enabled_hosts st) r)" "rx_fifo (channel st ! r) = Some (link_rx (enabled_hosts st) r)"
    "remote_pid (channel st ! r) = of_nat r" "irq_info (channel st ! r) = all_signals" "gstatus_ptr (channel st ! r) = Some (link_base (enabled_hosts st) r + status_offset)"
    using arg_cong [OF e, of tx_fifo] arg_cong [OF e, of rx_fifo] arg_cong [OF e, of remote_pid] arg_cong [OF e, of irq_info]
      arg_cong [OF e, of gstatus_ptr] by (simp_all add: link_channel_def)
  show "linked (enabled_hosts st) r" using assms by (simp add: wired_def)
  then show "r < IPCMEM_NUM_HOSTS" by (simp add: linked_def)
qed

lemma wired_none:
  assumes "wired rs st" "r \<notin> set rs" "r < IPCMEM_NUM_HOSTS"
  shows "channel st ! r = zero_channel"
  using assms by (simp add: wired_def)

lemma wired_status:
  assumes "wired rs st" "r \<in> set rs"
  shows "wired rs (upd_channel r (\<lambda>ch. ch\<lparr>ch_status := s\<rparr>) st)"
  using assms wired_channel(7) [OF assms] by (auto simp: wired_def laid_out_def region_fits_def upd_channel_def nth_list_update)

lemma safe_status:
  assumes "safe rs st" "r \<in> set rs"
  shows "safe rs (upd_channel r (\<lambda>ch. ch\<lparr>ch_status := s\<rparr>) st)"
  using wired_status [of rs st r s] wired_channel(7) [of rs st r] assms by (auto simp: safe_def upd_channel_def debug_ok_def wired_def)

section \<open>The rings lie in the region\<close>

definition fifo_in :: "ipclite_fifo \<Rightarrow> ipc_state \<Rightarrow> bool" where
  "fifo_in f st \<longleftrightarrow> in_region (fifo_tail f) 4 st \<and> in_region (fifo_head f) 4 st \<and> in_region (fifo_mem f) (unat (fifo_length f)) st \<and>
     8 \<le> unat (fifo_length f)"

lemma link_fifo_in:
  assumes "region_fits st" "linked (enabled_hosts st) r"
  shows "fifo_in (link_tx (enabled_hosts st) r) st" "fifo_in (link_rx (enabled_hosts st) r) st"
  using link_in_region [OF assms(2,1)]
  by (cases "r = IPCMEM_APPS"; simp add: fifo_in_def link_tx_def link_rx_def Let_def)+

text \<open>Whatever the indexes of a ring hold.\<close>

lemma rx_peak_safe:
  assumes "fifo_in f st"
  shows "snd (ipcmem_rx_peak f d 8 st) = st"
proof (cases "words st (fifo_tail f) > fifo_length f")
  case False
  let ?t = "words st (fifo_tail f)" and ?l = "fifo_length f"
  let ?t' = "if ?t \<ge> ?l then ?t - ?l else ?t"
  have "unat ?t' < unat ?l"
    using False assms by (auto simp: word_less_nat_alt word_le_nat_alt u32_minus fifo_in_def)
  moreover from this have "unat (?l - ?t') = unat ?l - unat ?t'" by (simp add: u32_minus)
  ultimately have "in_region (fifo_mem f + unat ?t') (min 8 (unat (?l - ?t'))) st" "in_region (fifo_mem f) (8 - min 8 (unat (?l - ?t'))) st"
    using assms by (auto simp: fifo_in_def in_region_def)
  then show ?thesis using False by (simp add: ipcmem_rx_peak_def Let_def del: if_split)
qed (simp add: ipcmem_rx_peak_def Let_def)

lemma rx_advance_safe:
  assumes "safe rs st" "fifo_in f st" "c < IPCMEM_NUM_HOSTS"
  shows "safe rs (ipcmem_rx_advance f n c st)"
proof -
  have "fifo_length f \<noteq> 0" using assms(2) by (auto simp: fifo_in_def)
  then show ?thesis unfolding ipcmem_rx_advance_def Let_def
    using assms by (intro safe_upd_debug safe_put_word) (simp_all add: fifo_in_def)
qed

lemma tx_write_safe:
  assumes "safe rs st" "fifo_in f st" "c < IPCMEM_NUM_HOSTS" "length data = 8"
  shows "safe rs (ipcmem_tx_write f data c sig st)"
proof -
  let ?h = "words st (fifo_head f)" and ?l = "fifo_length f"
  have "safe rs (snd (ipcmem_tx_write_one f ?h data st)) \<and> (\<forall>a n. in_region a n (snd (ipcmem_tx_write_one f ?h data st)) = in_region a n st)"
  proof (cases "?h > ?l")
    case False
    then have h: "unat (?l - ?h) = unat ?l - unat ?h" "unat ?h \<le> unat ?l" by (simp_all add: u32_minus word_less_nat_alt)
    then have "in_region (fifo_mem f + unat ?h) (min 8 (unat ?l - unat ?h)) st" "in_region (fifo_mem f) (8 - (unat ?l - unat ?h)) st"
      using assms(2) by (auto simp: fifo_in_def in_region_def)
    then show ?thesis using False h assms(1,4)
      by (auto simp: ipcmem_tx_write_one_def Let_def intro!: safe_poke)
  qed (use assms(1) in \<open>simp add: ipcmem_tx_write_one_def\<close>)
  then show ?thesis using assms(2,3)
    by (auto simp: ipcmem_tx_write_def Let_def split_beta fifo_in_def intro!: safe_upd_debug safe_put_word)
qed

section \<open>The operations keep the invariant\<close>

lemma safe_link_fifos:
  assumes "safe rs st" "r \<in> set rs"
  shows "fifo_in (link_tx (enabled_hosts st) r) st" "fifo_in (link_rx (enabled_hosts st) r) st"
  using link_fifo_in wired_channel(1) [OF safe_wired [OF assms(1)] assms(2)] assms(1) by (simp_all add: safe_def wired_def)

lemma wired_pid:
  assumes "wired rs st" "r \<in> set rs"
  shows "unat (remote_pid (channel st ! r)) = r"
  using wired_channel(4,7) [OF assms] good_pid by simp

lemma safe_client_callback: "safe rs st \<Longrightarrow> safe rs (client_callback c pid m st)"
  by (simp add: client_callback_def split: option.split)

lemma client_callback_channel: "channel (client_callback c pid m st) = channel st" "enabled_hosts (client_callback c pid m st) = enabled_hosts st"
  by (simp_all add: client_callback_def ipc_call_log_def split: option.split)

lemma advance_channel: "channel (ipcmem_rx_advance f n c st) = channel st"
  by (simp add: ipcmem_rx_advance_def Let_def)

text \<open>The handlers of a message.\<close>

definition keeps_safe :: "nat list \<Rightarrow> (ipclite_channel \<Rightarrow> u64 \<Rightarrow> ipc_state \<Rightarrow> int \<times> ipc_state) \<Rightarrow> bool" where
  "keeps_safe rs rx \<longleftrightarrow> (\<forall>r \<in> set rs. \<forall>avail st. safe rs st \<longrightarrow>
     safe rs (snd (rx (channel st ! r) avail st)) \<and> channel (snd (rx (channel st ! r) avail st)) = channel st)"

lemma handlers_keep_safe: "keeps_safe rs ipclite_rx_data" "keeps_safe rs ipclite_rx_test_data"
proof -
  have a: "safe rs (ipclite_rx_advance (channel st ! r) 8 (client_callback c pid m (snd (ipclite_rx_peak (channel st ! r) d 8 st)))) \<and>
      channel (ipclite_rx_advance (channel st ! r) 8 (client_callback c pid m (snd (ipclite_rx_peak (channel st ! r) d 8 st)))) = channel st"
    if s: "safe rs st" "r \<in> set rs" for r st c pid m d
  proof -
    note ch = wired_channel [OF safe_wired [OF s(1)] s(2)]
    have p: "snd (ipclite_rx_peak (channel st ! r) d 8 st) = st"
      using rx_peak_safe [OF safe_link_fifos(2) [OF s]] ch(3) by (simp add: ipclite_rx_peak_def with_fifo_def)
    let ?s = "client_callback c pid m st"
    have s': "safe rs ?s" by (rule safe_client_callback [OF s(1)])
    have a: "ipclite_rx_advance (channel st ! r) 8 ?s = ipcmem_rx_advance (link_rx (enabled_hosts st) r) 8 r ?s"
      using ch(3) wired_pid [OF safe_wired [OF s(1)] s(2)] by (simp add: ipclite_rx_advance_def with_fifo_def)
    show ?thesis unfolding p a
      using rx_advance_safe [OF s' _ ch(7)] safe_link_fifos(2) [OF s' s(2)] by (simp add: advance_channel client_callback_channel)
  qed
  note a' = a [THEN conjunct1] a [THEN conjunct2]
  show "keeps_safe rs ipclite_rx_data" "keeps_safe rs ipclite_rx_test_data"
    unfolding keeps_safe_def ipclite_rx_data_def ipclite_rx_test_data_def split_beta by (simp_all add: a')
qed

lemma rx_loop_safe:
  assumes "rx_loop rx ch st = Some r"
  shows "keeps_safe rs rx \<longrightarrow> c \<in> set rs \<longrightarrow> ch = channel st ! c \<longrightarrow> safe rs st \<longrightarrow> safe rs r"
proof (rule rx_loop.raw_induct [OF _ assms], goal_cases)
  case (1 loop rx ch st r)
  show ?case
  proof (intro impI)
    assume p: "keeps_safe rs rx" "c \<in> set rs" "ch = channel st ! c" "safe rs st"
    obtain len where l: "ipclite_rx_avail ch st = (len, st)"
      using wired_channel(3) [OF safe_wired [OF p(4)] p(2)] p(3) by (simp add: ipclite_rx_avail_def with_fifo_def)
    let ?s = "snd (rx ch (ucast (ucast len :: u32)) st)"
    have s: "safe rs ?s" "channel ?s = channel st" using p unfolding keeps_safe_def by blast+
    show "safe rs r"
    proof (cases "(ucast len :: u32) < 8")
      case False
      then have "loop rx ch ?s = Some r" using 1(2) l by (simp add: Let_def)
      from 1(1) [OF this] show ?thesis using p s by simp
    qed (use 1(2) l p(4) in \<open>simp add: Let_def\<close>)
  qed
qed

lemma safe_intr:
  assumes "safe rs st" "c \<in> set rs" "ipclite_intr c s st = Some st'"
  shows "safe rs st'"
proof -
  let ?pid = "remote_pid (channel st ! c)"
  let ?s = "upd_debug (unat ?pid) (\<lambda>h. h\<lparr>last_recv_host_id := ?pid, last_sigid_recv := of_nat s\<rparr>) (\<lambda>h. h\<lparr>num_intr := num_intr h + 1\<rparr>) st"
  have "unat ?pid < IPCMEM_NUM_HOSTS" using wired_pid wired_channel(7) safe_wired [OF assms(1)] assms(2) by metis
  then have s: "safe rs ?s" using assms(1) by (intro safe_upd_debug) simp_all
  have loop: "safe rs st'" if "rx_loop rx (channel st ! c) ?s = Some st'" "keeps_safe rs rx" for rx
    using rx_loop_safe [OF that(1), of rs c] that(2) assms(2) s by simp
  show ?thesis using assms(3) s loop handlers_keep_safe by (auto simp: ipclite_intr_def Let_def split: if_splits)
qed

section \<open>Sending\<close>

lemma safe_channel_active:
  assumes "safe rs st" "c < IPCMEM_NUM_HOSTS"
  shows "safe rs (snd (channel_active c st))" "fst (channel_active c st) \<Longrightarrow> c \<in> set rs"
    "enabled_hosts (snd (channel_active c st)) = enabled_hosts st"
proof -
  have "safe rs (snd (channel_active c st)) \<and> (fst (channel_active c st) \<longrightarrow> c \<in> set rs) \<and> enabled_hosts (snd (channel_active c st)) = enabled_hosts st"
  proof (cases "c \<in> set rs")
    case True
    note ch = wired_channel [OF safe_wired [OF assms(1)] True]
    show ?thesis using True assms safe_status [OF assms(1) True] ch(6)
      by (simp add: channel_active_def Let_def upd_channel_def ipc_flag_def)
  next
    case False
    then show ?thesis using assms wired_none [OF safe_wired [OF assms(1)] False assms(2)] by (simp add: channel_active_def zero_channel_def Let_def)
  qed
  then show "safe rs (snd (channel_active c st))" "fst (channel_active c st) \<Longrightarrow> c \<in> set rs"
    "enabled_hosts (snd (channel_active c st)) = enabled_hosts st" by blast+
qed

lemma safe_mbox:
  assumes "safe rs st" "c \<in> set rs" "s < MAX_CHANNEL_SIGNALS"
  shows "safe rs (snd (mbox_send_message c s st))" "safe rs (mbox_client_txdone c s st)" "channel (snd (mbox_send_message c s st)) = channel st"
proof -
  have "irq_mbox_chan (irq_info (channel st ! c) ! s) = Mbox_Chan"
    using wired_channel(5) [OF safe_wired [OF assms(1)] assms(2)] assms(3) by (simp add: all_signals_def del: upt.simps)
  then show "safe rs (snd (mbox_send_message c s st))" "safe rs (mbox_client_txdone c s st)" "channel (snd (mbox_send_message c s st)) = channel st"
    using assms(1) by (simp_all add: mbox_send_message_def mbox_client_txdone_def)
qed

lemma safe_tx:
  assumes "safe rs st" "c < IPCMEM_NUM_HOSTS" "s < MAX_CHANNEL_SIGNALS"
  shows "safe rs (snd (ipclite_tx c m 8 s st))"
proof (cases "channel_active c st")
  case (Pair a st1)
  have s1: "safe rs st1" "a \<Longrightarrow> c \<in> set rs" using safe_channel_active(1,2) [OF assms(1,2)] Pair by simp_all
  show ?thesis
  proof (cases a)
    case True
    then have c: "c \<in> set rs" by (rule s1(2))
    note ch = wired_channel [OF safe_wired [OF s1(1)] c]
    let ?s3 = "ipclite_tx_write (channel st1 ! c) (u64_bytes m) st1"
    have "?s3 = ipcmem_tx_write (link_tx (enabled_hosts st1) c) (u64_bytes m) c (irq_signal_id (irq_info (channel st1 ! c) ! 0)) st1"
      using ch(2) wired_pid [OF safe_wired [OF s1(1)] c] by (simp add: ipclite_tx_write_def with_fifo_def)
    then have s3: "safe rs ?s3" using tx_write_safe [OF s1(1) safe_link_fifos(1) [OF s1(1) c] ch(7)] by simp
    have "safe rs (mbox_client_txdone c s (snd (mbox_send_message c s ?s3)))"
      using safe_mbox(2) [OF safe_mbox(1) [OF s3 c assms(3)] c assms(3)] .
    then show ?thesis using True Pair s1(1) ch(2) by (simp add: ipclite_tx_def ipclite_tx_avail_def with_fifo_def Let_def)
  qed (use Pair s1(1) in \<open>simp add: ipclite_tx_def\<close>)
qed

lemma safe_notify:
  assumes "safe rs st" "s < MAX_CHANNEL_SIGNALS"
  shows "safe rs (snd (ipclite_notify_core p s st))"
proof (cases "p < 0 \<or> p \<ge> int IPCMEM_NUM_HOSTS")
  case False
  then have c: "nat p < IPCMEM_NUM_HOSTS" by auto
  obtain a st1 where a: "channel_active (nat p) st = (a, st1)" by fastforce
  have "safe rs st1" "a \<Longrightarrow> nat p \<in> set rs" using safe_channel_active(1,2) [OF assms(1) c] a by simp_all
  then show ?thesis using False a safe_mbox(1) [of rs st1 "nat p" s] assms(2)
    by (cases a) (auto simp: ipclite_notify_core_def split_beta)
qed (use assms(1) in \<open>auto simp: ipclite_notify_core_def\<close>)

section \<open>Recovery\<close>

lemma safe_hw: "safe rs st \<Longrightarrow> safe rs (st\<lparr>hw_tries := n, hw_locked := b, hwlock_owner := w\<rparr>)" "safe rs st \<Longrightarrow> safe rs (st\<lparr>hw_tries := n\<rparr>)"
  "safe rs st \<Longrightarrow> safe rs (st\<lparr>hwlock_owner := w, hw_locked := b\<rparr>)"
  by (erule safe_cong, simp_all add: debug_ok_def)+

lemma safe_mutex: "safe rs st \<Longrightarrow> safe rs (ATOMIC_HW_MUTEX_ACQUIRE st)" "safe rs st \<Longrightarrow> safe rs (ATOMIC_HW_MUTEX_RELEASE st)"
  by (auto simp: ATOMIC_HW_MUTEX_ACQUIRE_def ATOMIC_HW_MUTEX_RELEASE_def ipclite_hw_mutex_acquire_def ipclite_hw_mutex_release_def Let_def safe_hw)

lemma mutex_frame [simp]:
  "words (ATOMIC_HW_MUTEX_ACQUIRE st) = words st" "words (ATOMIC_HW_MUTEX_RELEASE st) = words st"
  "channel (ATOMIC_HW_MUTEX_ACQUIRE st) = channel st" "channel (ATOMIC_HW_MUTEX_RELEASE st) = channel st"
  "mem_size (ATOMIC_HW_MUTEX_ACQUIRE st) = mem_size st" "mem_size (ATOMIC_HW_MUTEX_RELEASE st) = mem_size st"
  "enabled_hosts (ATOMIC_HW_MUTEX_ACQUIRE st) = enabled_hosts st" "enabled_hosts (ATOMIC_HW_MUTEX_RELEASE st) = enabled_hosts st"
  "in_region a n (ATOMIC_HW_MUTEX_ACQUIRE st) = in_region a n st" "in_region a n (ATOMIC_HW_MUTEX_RELEASE st) = in_region a n st"
  by (simp_all add: ATOMIC_HW_MUTEX_ACQUIRE_def ATOMIC_HW_MUTEX_RELEASE_def ipclite_hw_mutex_acquire_def ipclite_hw_mutex_release_def Let_def in_region_def)

lemma safe_atomics:
  assumes "safe rs st" "in_region a 4 st"
  shows "safe rs (ipclite_global_atomic_store a v st)" "safe rs (snd (ipclite_global_atomic_inc a st))"
  using assms by (simp_all add: ipclite_global_atomic_store_def ipclite_global_atomic_inc_def Let_def safe_mutex safe_put_word)

lemma partition_status_in:
  assumes "laid_out st" "region_fits st" "p < unat (partitions st)"
  shows "in_region (partition st ! p + status_offset) 4 st" "partition st ! p = base_of p"
proof -
  have p: "p < length (host_pairs (enabled_hosts st))" using assms(1,3) by (simp add: laid_out_def Let_def)
  then show "partition st ! p = base_of p" by (rule laid_out_entry(1) [OF assms(1)])
  moreover have "base_of p + 32768 \<le> base_of (length (host_pairs (enabled_hosts st)))" using p by (simp add: base_of_def)
  ultimately show "in_region (partition st ! p + status_offset) 4 st" using assms(2) by (simp add: in_region_def region_fits_def status_offset_def)
qed

lemma safe_recover_partition:
  assumes "safe rs st" "p < unat (partitions st)"
  shows "safe rs (recover_partition c p st)" "partitions (recover_partition c p st) = partitions st"
proof -
  have "in_region (partition st ! p + status_offset) 4 st"
    using partition_status_in(1) assms by (simp add: safe_def wired_def)
  then show "safe rs (recover_partition c p st)" using safe_atomics(1) assms(1) by (simp add: recover_partition_def)
  show "partitions (recover_partition c p st) = partitions st"
    by (simp add: recover_partition_def ipclite_global_atomic_store_def ATOMIC_HW_MUTEX_ACQUIRE_def ATOMIC_HW_MUTEX_RELEASE_def
        ipclite_hw_mutex_acquire_def ipclite_hw_mutex_release_def put_word_def ipc_flag_def Let_def)
qed

lemma safe_recover:
  assumes "safe rs st" "c \<in> set rs"
  shows "safe rs (ipclite_recover_v0 c st)"
proof -
  have up: "ipc_flag (\<not> ipclite_up st) st = st" using assms(1) by (simp add: safe_def wired_def)
  define s1 where "s1 = (if unat (hwlock_owner st) = c then st\<lparr>hwlock_owner := IPCMEM_INVALID_HOST, hw_locked := False\<rparr> else st)"
  have s1: "safe rs s1" using assms(1) by (simp add: s1_def safe_hw)
  have "safe rs (fold (recover_partition c) ps s) \<and> partitions (fold (recover_partition c) ps s) = partitions s"
    if "safe rs s" "\<forall>p \<in> set ps. p < unat (partitions s)" for ps s
    using that by (induction ps arbitrary: s) (simp_all add: safe_recover_partition)
  then have s2: "safe rs (fold (recover_partition c) [0..<unat (partitions s1)] s1)" (is "safe rs ?s2") using s1 by simp
  note ch = wired_channel [OF safe_wired [OF s2] assms(2)]
  have fit: "region_fits ?s2" using s2 by (simp add: safe_def wired_def)
  define s3 where "s3 = put_word (fifo_tail (link_rx (enabled_hosts ?s2) c)) 0 (put_word (fifo_head (link_tx (enabled_hosts ?s2) c)) 0 ?s2)"
  have s3: "safe rs s3" unfolding s3_def using safe_link_fifos [OF s2 assms(2)]
    by (intro safe_put_word s2) (simp_all add: fifo_in_def)
  let ?a = "link_base (enabled_hosts ?s2) c + status_offset"
  have "in_region ?a 4 s3" using link_in_region [OF ch(1) fit, of status_offset 4] by (simp add: s3_def status_offset_def)
  then have s4: "safe rs (snd (ipclite_global_atomic_inc ?a s3))" by (rule safe_atomics(2) [OF s3])
  have notify: "safe rs (fold (recover_notify c) hs s)" if "safe rs s" for hs s
    using that by (induction hs arbitrary: s) (simp_all add: recover_notify_def safe_notify)
  have len: "c < length (channel ?s2)" using s2 ch(7) by (simp add: safe_def wired_def)
  have e: "ipclite_recover_v0 c st = fold (recover_notify c) [1..<IPCMEM_NUM_HOSTS]
      (upd_channel c (\<lambda>ch. ch\<lparr>ch_status := words (snd (ipclite_global_atomic_inc ?a s3)) ?a\<rparr>) (snd (ipclite_global_atomic_inc ?a s3)))"
    using len by (simp add: ipclite_recover_v0_def up s1_def [symmetric] ch(2,3,6) s3_def Let_def del: upt.simps)
  show ?thesis unfolding e by (rule notify) (rule safe_status [OF s4 assms(2)])
qed

section \<open>Runs\<close>

text \<open>
  The events: the calls of clients, the interrupts of a channel, the recovery of a core, and other
  cores that overwrite the shared words and bytes with anything.
\<close>

datatype ipc_event =
  Ev_Send int u64 | Ev_Test_Send int u64 | Ev_Notify int nat | Ev_Interrupt nat nat | Ev_Recover nat
  | Ev_Register "nat option" nat | Ev_Register_Test "nat option" nat | Ev_Others "nat \<Rightarrow> u32" "nat \<Rightarrow> u8"

fun ipc_step :: "ipc_event \<Rightarrow> ipc_state \<Rightarrow> ipc_state option" where
  "ipc_step (Ev_Send p m) st = Some (snd (ipclite_msg_send p m st))"
| "ipc_step (Ev_Test_Send p m) st = Some (snd (ipclite_test_msg_send p m st))"
| "ipc_step (Ev_Notify p s) st = Some (snd (ipclite_notify_core p s st))"
| "ipc_step (Ev_Interrupt c s) st = ipclite_intr c s st"
| "ipc_step (Ev_Recover c) st = Some (ipclite_recover c st)"
| "ipc_step (Ev_Register f priv) st = Some (snd (ipclite_register_client f priv st))"
| "ipc_step (Ev_Register_Test f priv) st = Some (snd (ipclite_register_test_client f priv st))"
| "ipc_step (Ev_Others w b) st = Some (st\<lparr>words := w, bytes := b\<rparr>)"

definition ipc_machine :: "ipc_event \<Rightarrow> ipc_state option \<Rightarrow> ipc_state option" where
  "ipc_machine e so = Option.bind so (ipc_step e)"

definition ipc_run :: "ipc_event list \<Rightarrow> ipc_state \<Rightarrow> ipc_state option" where
  "ipc_run es st = run ipc_machine es (Some st)"

text \<open>Interrupts and recoveries are for cores of the device tree, signals are in the range of the interface.\<close>

primrec event_ok :: "nat list \<Rightarrow> ipc_event \<Rightarrow> bool" where
  "event_ok rs (Ev_Send p m) = True"
| "event_ok rs (Ev_Test_Send p m) = True"
| "event_ok rs (Ev_Notify p s) = (s < MAX_CHANNEL_SIGNALS)"
| "event_ok rs (Ev_Interrupt c s) = (c \<in> set rs)"
| "event_ok rs (Ev_Recover c) = (c \<in> set rs)"
| "event_ok rs (Ev_Register f priv) = True"
| "event_ok rs (Ev_Register_Test f priv) = True"
| "event_ok rs (Ev_Others w b) = True"

lemma safe_msg_send: "safe rs st \<Longrightarrow> safe rs (snd (ipclite_msg_send p m st))" "safe rs st \<Longrightarrow> safe rs (snd (ipclite_test_msg_send p m st))"
  using safe_tx [of rs st "nat p" IPCLITE_MSG_SIGNAL m] safe_tx [of rs st "nat p" IPCLITE_TEST_SIGNAL m]
  by (auto simp: ipclite_msg_send_def ipclite_msg_send_v0_def ipclite_test_msg_send_def ipclite_test_msg_send_v0_def nat_less_iff)

lemma safe_register: "safe rs st \<Longrightarrow> safe rs (snd (ipclite_register_client f priv st))" "safe rs st \<Longrightarrow> safe rs (snd (ipclite_register_test_client f priv st))"
  by (auto simp: ipclite_register_client_def ipclite_register_client_v0_def ipclite_register_test_client_def ipclite_register_test_client_v0_def
      debug_ok_def elim: safe_cong)

lemma safe_step:
  assumes "safe rs st" "event_ok rs e" "ipc_step e st = Some st'"
  shows "safe rs st'"
proof (cases e)
  case (Ev_Others w b)
  then show ?thesis using assms by (auto simp: debug_ok_def elim!: safe_cong)
qed (use assms safe_intr safe_recover in \<open>auto simp: safe_msg_send safe_notify safe_register ipclite_recover_def\<close>)

interpretation ipc: safe_machine ipc_machine "event_ok rs" "\<lambda>so. \<forall>st. so = Some st \<longrightarrow> safe rs st" for rs
  by unfold_locales (auto simp: ipc_machine_def bind_eq_Some_conv intro: safe_step)

lemma safe_run: "safe rs st \<Longrightarrow> list_all (event_ok rs) es \<Longrightarrow> ipc_run es st = Some st' \<Longrightarrow> safe rs st'"
  using ipc.run_inv [where rs = rs and s = "Some st" and es = es] unfolding ipc_run_def by blast

section \<open>After the initialisation\<close>

lemma probe_good:
  assumes "good_init rs env st" "\<not> ipc_ub st"
  shows "\<exists>st'. ipclite_probe (Inr 1) (Inr 0) env st = Some (0, st') \<and> booted rs st' \<and> \<not> ipc_ub st' \<and> api_list_t st' = api_list_version ! 0 \<and>
    enabled_hosts st' = enable_hosts (in_children env) 0 (enabled_hosts st) \<and> callbacks st' = callbacks st"
proof -
  let ?s = "st\<lparr>major_ver := 1, minor_ver := 0\<rparr>"
  let ?t = "?s\<lparr>api_list_t := api_list_version ! 0\<rparr>"
  have r: "ipclite_register_api ?s = (0, ?t)"
    by (simp add: ipclite_register_api_def api_list_version_def ipclite_update_version_api_def)
  have g: "good_init rs env ?t" using assms(1) by (simp add: good_init_def)
  obtain st' where s': "ipclite_init_v0 env ?t = (0, st')" "booted rs st'" "\<not> ipc_ub st'" "api_list_t st' = api_list_version ! 0"
    "enabled_hosts st' = enable_hosts (in_children env) 0 (enabled_hosts st)"
    "ipc_calls st' = ipc_calls st @ [Mbox_Send 0 IPCLITE_MEM_INIT_SIGNAL, Mbox_Txdone 0 IPCLITE_MEM_INIT_SIGNAL]"
    using init_good [OF g] assms(2) by auto
  then show ?thesis using r
    by (intro exI [of _ st']) (simp add: ipclite_probe_def ipclite_version_setup_def ipclite_init_def api_list_version_def callbacks_def)
qed

lemma booted_safe:
  assumes "booted rs st" "\<not> ipc_ub st"
  shows "safe rs st"
  using assms by (auto simp: booted_def safe_def wired_def nth_link_channels linked_def)

text \<open>
  C22: Memory safety: after a probe for version 1.0 with a complete device tree, a region that is large enough and a kernel that grants what is
  asked for (\<open>good_init\<close>), take any sequence of messages, test messages, notifications with a signal of the interface, registrations
  of clients, interrupts and recoveries of cores that have a channel, and arbitrary changes of the words and bytes of the region by the
  other cores, in which the loop of the interrupt handler ends. No write and no copy of bytes leaves the region and no NULL pointer
  is followed, and the indexes and the bytes of every ring and the status word of every channel, which are all that is read,
  lie in the region. (A recovery of a core without a channel follows a NULL pointer.)
\<close>

theorem ipc_memory_safe:
  assumes "good_init rs env st" "\<not> ipc_ub st" "ipclite_probe (Inr 1) (Inr 0) env st = Some (0, st1)"
    and "list_all (event_ok rs) es" "ipc_run es st1 = Some st2"
  shows "\<not> ipc_ub st2 \<and> (\<forall>c < IPCMEM_NUM_HOSTS.
    (\<forall>f. tx_fifo (channel st2 ! c) = Some f \<or> rx_fifo (channel st2 ! c) = Some f \<longrightarrow> fifo_in f st2) \<and>
    (\<forall>a. gstatus_ptr (channel st2 ! c) = Some a \<longrightarrow> in_region a 4 st2))"
proof -
  have "safe rs st1" using probe_good [OF assms(1,2)] booted_safe assms(3) by auto
  note s2 = safe_run [OF this assms(4,5)]
  have "(tx_fifo (channel st2 ! c) = Some f \<or> rx_fifo (channel st2 ! c) = Some f \<longrightarrow> fifo_in f st2) \<and>
      (gstatus_ptr (channel st2 ! c) = Some a \<longrightarrow> in_region a 4 st2)" if "c < IPCMEM_NUM_HOSTS" for c f a
  proof (cases "c \<in> set rs")
    case True
    note w = wired_channel [OF safe_wired [OF s2] True]
    have "region_fits st2" using s2 by (simp add: safe_def wired_def)
    then show ?thesis using w(2,3,6) link_fifo_in [OF _ w(1)] link_in_region [OF w(1), of "status_offset" 4] by (auto simp: status_offset_def)
  next
    case False
    then show ?thesis using wired_none [OF safe_wired [OF s2] False that] by (simp add: zero_channel_def)
  qed
  then show ?thesis using s2 by (simp add: safe_def)
qed

text \<open>A device tree with this core and core 3.\<close>

definition tree_channel :: "u32 \<Rightarrow> channel_setup" where
  "tree_channel pid = \<lparr>cs_alloc = True, cs_register = 0, cs_remote_pid = Inr pid, cs_fifo_alloc = True,
     cs_irqs = map (\<lambda>i. \<lparr>is_alloc = True, is_register = 0, is_index = Inr i, is_mbox = Mbox_Chan, is_request = 0\<rparr>) [0..<MAX_CHANNEL_SIGNALS]\<rparr>"

definition tree_env :: init_setup where
  "tree_env = \<lparr>in_alloc = True, in_hwlock_id = 2, in_hwlock = True, in_map = Inr 1048576, in_children = [Some 0, Some 3], in_kcalloc = True,
     in_channels = [tree_channel 0, tree_channel 3], in_debug = 0, in_features = (Inr 0, Inr 0)\<rparr>"

lemma tree_hosts: "enable_hosts [Some 0, Some 3] 0 1 = (9 :: u32)" "host_pairs 9 = [(0, 0), (0, 3)]"
  by code_simp+

lemma tree_good: "good_init [0, 3] tree_env loop_state"
proof -
  have "good_setup 0 (tree_channel 0)" "good_setup 3 (tree_channel 3)"
    by (simp_all add: good_setup_def tree_channel_def good_irq_def list_all_iff image_iff del: upt.simps)
  moreover have "linked 9 0" "linked 9 3" by (simp_all add: linked_def)
  ultimately show ?thesis using tree_hosts
    by (simp add: good_init_def tree_env_def loop_state_def base_of_def)
qed

theorem ipc_memory_safe_witness:
  "\<exists>st1 st2. ipclite_probe (Inr 1) (Inr 0) tree_env loop_state = Some (0, st1) \<and>
    ipc_run [Ev_Others (\<lambda>_. - 1) (\<lambda>_. 255), Ev_Send 0 5, Ev_Recover 3, Ev_Send 3 6] st1 = Some st2 \<and> \<not> ipc_ub st2"
proof -
  have ub: "\<not> ipc_ub loop_state" by (simp add: loop_state_def)
  obtain st1 where st1: "ipclite_probe (Inr 1) (Inr 0) tree_env loop_state = Some (0, st1)" using probe_good [OF tree_good ub] by blast
  let ?es = "[Ev_Others (\<lambda>_. - 1) (\<lambda>_. 255), Ev_Send 0 5, Ev_Recover 3, Ev_Send 3 6]"
  obtain st2 where st2: "ipc_run ?es st1 = Some st2" by (simp add: ipc_run_def ipc_machine_def)
  have ok: "list_all (event_ok [0, 3]) ?es" by simp
  show ?thesis using ipc_memory_safe [OF tree_good ub st1 ok st2] st1 st2 by blast
qed

section \<open>Recovery cuts the core off\<close>

text \<open>What the hardware mutex and a write of a word leave as it is.\<close>

lemma mutex_rest [simp]:
  "partition_entry (ATOMIC_HW_MUTEX_ACQUIRE st) = partition_entry st" "partition_entry (ATOMIC_HW_MUTEX_RELEASE st) = partition_entry st"
  "partition (ATOMIC_HW_MUTEX_ACQUIRE st) = partition st" "partition (ATOMIC_HW_MUTEX_RELEASE st) = partition st"
  "api_list_t (ATOMIC_HW_MUTEX_ACQUIRE st) = api_list_t st" "api_list_t (ATOMIC_HW_MUTEX_RELEASE st) = api_list_t st"
  by (simp_all add: ATOMIC_HW_MUTEX_ACQUIRE_def ATOMIC_HW_MUTEX_RELEASE_def ipclite_hw_mutex_acquire_def ipclite_hw_mutex_release_def Let_def)

lemma put_word_rest [simp]:
  "partition_entry (put_word a v st) = partition_entry st" "partition (put_word a v st) = partition st" "enabled_hosts (put_word a v st) = enabled_hosts st"
  by (simp_all add: put_word_def ipc_flag_def)

text \<open>The partitions of a core.\<close>

definition of_core :: "nat \<Rightarrow> nat \<Rightarrow> ipc_state \<Rightarrow> bool" where
  "of_core c p st \<longleftrightarrow> unat (pe_host0 (partition_entry st p)) = c \<or> unat (pe_host1 (partition_entry st p)) = c"

lemma recover_partition_frame:
  "partition_entry (recover_partition c p st) = partition_entry st" "partition (recover_partition c p st) = partition st"
  "channel (recover_partition c p st) = channel st" "enabled_hosts (recover_partition c p st) = enabled_hosts st"
  "api_list_t (recover_partition c p st) = api_list_t st"
  "words (recover_partition c p st) = (if of_core c p st then (words st)(partition st ! p + status_offset := 0) else words st)"
  by (auto simp: recover_partition_def ipclite_global_atomic_store_def of_core_def)

lemma recover_partitions_frame:
  fixes ps :: "nat list" and c :: nat
  defines "r \<equiv> fold (recover_partition c) ps"
  shows "partition_entry (r st) = partition_entry st" "partition (r st) = partition st" "channel (r st) = channel st"
    "enabled_hosts (r st) = enabled_hosts st" "api_list_t (r st) = api_list_t st"
    "words (r st) a = (if a \<in> (\<lambda>p. partition st ! p + status_offset) ` {p \<in> set ps. of_core c p st} then 0 else words st a)"
  unfolding r_def by (induction ps arbitrary: st) (auto simp: recover_partition_frame of_core_def)

definition hw_free :: "ipc_state \<Rightarrow> bool" where
  "hw_free st \<longleftrightarrow> \<not> hw_locked st \<and> hwlock_owner st = IPCMEM_INVALID_HOST"

lemma hw_free_section:
  assumes "hw_free st" "\<And>s. hw_locked (f s) = hw_locked s \<and> hwlock_owner (f s) = hwlock_owner s \<and> ipclite_up (f s) = ipclite_up s \<and> feature_mask (f s) = feature_mask s"
  shows "hw_free (ATOMIC_HW_MUTEX_RELEASE (f (ATOMIC_HW_MUTEX_ACQUIRE st)))"
  using assms(1) assms(2) [of st] assms(2) [of "snd (ipclite_hw_mutex_acquire st)"]
  by (auto simp: hw_free_def ATOMIC_HW_MUTEX_ACQUIRE_def ATOMIC_HW_MUTEX_RELEASE_def ipclite_hw_mutex_acquire_def ipclite_hw_mutex_release_def Let_def)

lemma hw_free_atomics: "hw_free st \<Longrightarrow> hw_free (ipclite_global_atomic_store a v st)" "hw_free st \<Longrightarrow> hw_free (snd (ipclite_global_atomic_inc a st))"
  unfolding ipclite_global_atomic_store_def ipclite_global_atomic_inc_def Let_def snd_conv
  by (rule hw_free_section, assumption, simp add: put_word_def ipc_flag_def)
    (rule hw_free_section [where f = "\<lambda>s. put_word a (words s a + 1) s"], assumption, simp add: put_word_def ipc_flag_def)

lemma hw_free_partitions: "hw_free st \<Longrightarrow> hw_free (fold (recover_partition c) ps st)"
  by (induction ps arbitrary: st) (simp_all add: recover_partition_def hw_free_atomics)

text \<open>
  The result of the acquisition is dropped: an atomic operation that could not take the mutex,
  because another thread of this core holds it, gives it back all the same.
\<close>

lemma atomic_timeout_frees_mutex:
  assumes "ipclite_up st" "feature_mask st AND IPCLITE_GLOBAL_ATOMIC = 0" "hw_locked st" "hwlock_owner st = of_nat IPCMEM_APPS"
  shows "\<not> hw_locked (snd (ipclite_global_atomic_inc a st))"
  using assms by (simp add: ipclite_global_atomic_inc_def ATOMIC_HW_MUTEX_ACQUIRE_def ATOMIC_HW_MUTEX_RELEASE_def ipclite_hw_mutex_acquire_def
      ipclite_hw_mutex_release_def put_word_def ipc_flag_def Let_def)

text \<open>A notification touches neither the region nor another channel.\<close>

lemma notify_frame:
  fixes p :: int and s :: nat and st :: ipc_state
  defines "st' \<equiv> snd (ipclite_notify_core p s st)"
  shows "words st' = words st" "hw_free st' = hw_free st" "api_list_t st' = api_list_t st" "length (channel st') = length (channel st)"
    "c \<noteq> nat p \<Longrightarrow> channel st' ! c = channel st ! c"
  by (auto simp: st'_def ipclite_notify_core_def channel_active_def mbox_send_message_def upd_channel_def ipc_call_log_def ipc_flag_def hw_free_def
      Let_def split: option.split mbox_chan.split)

lemma recover_notifies_frame:
  fixes hs :: "nat list" and st :: ipc_state and c :: nat
  defines "st' \<equiv> fold (recover_notify c) hs st"
  shows "words st' = words st" "hw_free st' = hw_free st" "api_list_t st' = api_list_t st" "channel st' ! c = channel st ! c"
  unfolding st'_def by (induction hs arbitrary: st) (auto simp: recover_notify_def notify_frame)

text \<open>The state of this core after the recovery of core \<open>c\<close>.\<close>

lemma link_of_core:
  assumes "laid_out st" "linked (enabled_hosts st) c"
  shows "\<exists>p < unat (partitions st). partition st ! p = link_base (enabled_hosts st) c \<and> of_core c p st"
proof -
  obtain p where p: "p < length (host_pairs (enabled_hosts st))" "host_pairs (enabled_hosts st) ! p = (IPCMEM_APPS, c)" "link_base (enabled_hosts st) c = base_of p"
    using linked_pair [OF assms(2)] .
  have n: "unat (partitions st) = length (host_pairs (enabled_hosts st))" using assms(1) by (simp add: laid_out_def Let_def)
  have "partition st ! p = base_of p" "of_core c p st" using laid_out_entry(1,5) [OF assms(1) p(1)] p(2) by (simp_all add: of_core_def)
  then show ?thesis using p(1,3) n by auto
qed

lemma recover_effect:
  assumes "safe rs st" "c \<in> set rs" "c \<noteq> IPCMEM_APPS"
  defines "a \<equiv> link_base (enabled_hosts st) c" and "st' \<equiv> ipclite_recover_v0 c st"
  shows "words st' (a + status_offset) = IN_PROGRESS" "words st' (a + 1032) = 0" "words st' (a + 1028) = 0"
    "\<And>p. p < unat (partitions st) \<Longrightarrow> partition st ! p \<noteq> a \<Longrightarrow>
      words st' (partition st ! p + status_offset) = (if of_core c p st then 0 else words st (partition st ! p + status_offset))"
    "ch_status (channel st' ! c) = IN_PROGRESS" "unat (hwlock_owner st) = c \<or> hw_free st \<Longrightarrow> hw_free st'" "api_list_t st' = api_list_t st"
    "gstatus_ptr (channel st' ! c) = Some (a + status_offset)"
proof -
  have w: "wired rs st" "laid_out st" "region_fits st" using assms(1) by (simp_all add: safe_def wired_def)
  note ch = wired_channel [OF w(1) assms(2)]
  have up: "ipc_flag (\<not> ipclite_up st) st = st" using assms(1) by (simp add: safe_def wired_def)
  define s1 where "s1 = (if unat (hwlock_owner st) = c then st\<lparr>hwlock_owner := IPCMEM_INVALID_HOST, hw_locked := False\<rparr> else st)"
  have s1: "words s1 = words st" "channel s1 = channel st" "partition s1 = partition st" "partition_entry s1 = partition_entry st"
    "partitions s1 = partitions st" "api_list_t s1 = api_list_t st" by (simp_all add: s1_def)
  have oc: "of_core c p s1 = of_core c p st" for p by (simp add: of_core_def s1)
  define s2 where "s2 = fold (recover_partition c) [0..<unat (partitions st)] s1"
  define s3 where "s3 = put_word (a + 1032) 0 (put_word (a + 1028) 0 s2)"
  define s4 where "s4 = snd (ipclite_global_atomic_inc (a + status_offset) s3)"
  have fifos: "fifo_tail (link_rx (enabled_hosts st) c) = a + 1032" "fifo_head (link_tx (enabled_hosts st) c) = a + 1028"
    using assms(3) by (simp_all add: link_rx_def link_tx_def Let_def a_def)
  have s2: "words s2 x = (if x \<in> (\<lambda>p. partition st ! p + status_offset) ` {p. p < unat (partitions st) \<and> of_core c p st} then 0 else words st x)"
    "channel s2 = channel st" "api_list_t s2 = api_list_t st" for x
    by (simp_all add: s2_def recover_partitions_frame s1 oc del: upt.simps)
  have len: "length (channel st) = IPCMEM_NUM_HOSTS" using w(1) by (simp add: wired_def)
  have st': "st' = fold (recover_notify c) [1..<IPCMEM_NUM_HOSTS] (upd_channel c (\<lambda>ch. ch\<lparr>ch_status := words s4 (a + status_offset)\<rparr>) s4)"
    using len ch(7) unfolding st'_def ipclite_recover_v0_def up s1_def [symmetric] Let_def s1(5) s2_def [symmetric] s2(2) ch(2,3,6)
    by (simp add: s4_def s3_def fifos a_def [symmetric] del: upt.simps)
  have base: "partition st ! p = base_of p" if "p < unat (partitions st)" for p by (rule partition_status_in(2) [OF w(2,3) that])
  obtain p0 where p0: "p0 < unat (partitions st)" "partition st ! p0 = a" "of_core c p0 st" using link_of_core [OF w(2) ch(1)] unfolding a_def by blast
  have w4: "words s4 = (words s2)(a + 1028 := 0, a + 1032 := 0, a + status_offset := 1)"
  proof -
    have "words s3 (a + status_offset) = 0" using p0 by (auto simp: s3_def s2 status_offset_def)
    then show ?thesis by (simp add: s4_def ipclite_global_atomic_inc_def Let_def s3_def)
  qed
  have c4: "channel s4 = channel st" "api_list_t s4 = api_list_t st" by (simp_all add: s4_def ipclite_global_atomic_inc_def Let_def s3_def s2)
  have fin: "words st' = words s4" "channel st' ! c = (channel st ! c)\<lparr>ch_status := words s4 (a + status_offset)\<rparr>" "api_list_t st' = api_list_t st"
    unfolding st' recover_notifies_frame using c4 len ch(7) by (simp_all add: upd_channel_def)
  show "words st' (a + status_offset) = IN_PROGRESS" "words st' (a + 1032) = 0" "words st' (a + 1028) = 0"
    by (simp_all add: fin(1) w4 status_offset_def)
  show "words st' (partition st ! p + status_offset) = (if of_core c p st then 0 else words st (partition st ! p + status_offset))"
    if p: "p < unat (partitions st)" "partition st ! p \<noteq> a" for p
  proof -
    have "base_of p + 28 \<noteq> base_of p0 + 1032" "base_of p + 28 \<noteq> base_of p0 + 1028"
      using base_apart [of 28 1032 p p0] base_apart [of 28 1028 p p0] by simp_all
    then have "words st' (partition st ! p + status_offset) = words s2 (partition st ! p + status_offset)"
      using p p0 base [OF p(1)] base [OF p0(1)] by (simp add: fin(1) w4 status_offset_def)
    also have "\<dots> = (if of_core c p st then 0 else words st (partition st ! p + status_offset))" using p(1) base by (auto simp: s2(1) image_iff)
    finally show ?thesis .
  qed
  show "ch_status (channel st' ! c) = IN_PROGRESS" "gstatus_ptr (channel st' ! c) = Some (a + status_offset)" "api_list_t st' = api_list_t st"
    using ch(6) by (simp_all add: fin w4 a_def)
  show "hw_free st'" if "unat (hwlock_owner st) = c \<or> hw_free st"
  proof -
    have "hw_free s1" using that by (auto simp: s1_def hw_free_def)
    then have "hw_free s3" using hw_free_partitions [of s1 c] by (simp add: s3_def s2_def hw_free_def put_word_def ipc_flag_def)
    then have "hw_free s4" unfolding s4_def by (rule hw_free_atomics(2))
    then show ?thesis unfolding st' recover_notifies_frame by (simp add: upd_channel_def hw_free_def ipc_flag_def)
  qed
qed

text \<open>C25: The recovery of another core cuts it off: every partition of the core is marked inactive, only its link with this core is waiting to be
  active again, and the partitions of other pairs keep their status; the rings to this core are reset on this side, the hardware mutex is free when
  the core held it, and no message can be sent to the core until it has marked the link active, which is then noticed.\<close>

theorem ipc_recover_cuts_off:
  fixes st rs c m
  assumes "safe rs st" "c \<in> set rs" "c \<noteq> IPCMEM_APPS" "api_msg_send (api_list_t st)"
  defines "st' \<equiv> ipclite_recover_v0 c st" and "a \<equiv> link_base (enabled_hosts st) c"
  shows "safe rs st' \<and> words st' (a + status_offset) = IN_PROGRESS \<and>
    (\<forall>p < unat (partitions st). partition st ! p \<noteq> a \<longrightarrow>
      words st' (partition st ! p + status_offset) = (if of_core c p st then INACTIVE else words st (partition st ! p + status_offset))) \<and>
    words st' (fifo_head (link_tx (enabled_hosts st) c)) = 0 \<and> words st' (fifo_tail (link_rx (enabled_hosts st) c)) = 0 \<and>
    (unat (hwlock_owner st) = c \<longrightarrow> \<not> hw_locked st' \<and> hwlock_owner st' = IPCMEM_INVALID_HOST) \<and>
    ipclite_msg_send (int c) m st' = (- EOPNOTSUPP, st') \<and>
    fst (channel_active c (st'\<lparr>words := (words st')(a + status_offset := ACTIVE)\<rparr>))"
proof -
  note e = recover_effect [OF assms(1-3), folded st'_def a_def]
  have "c < IPCMEM_NUM_HOSTS" using wired_channel(7) [OF safe_wired [OF assms(1)] assms(2)] .
  then have "ipclite_msg_send (int c) m st' = (- EOPNOTSUPP, st')"
    using assms(4) e(1,5,7,8) by (simp add: ipclite_msg_send_def ipclite_msg_send_v0_def ipclite_tx_def channel_active_def Let_def)
  moreover have "fst (channel_active c (st'\<lparr>words := (words st')(a + status_offset := ACTIVE)\<rparr>))"
    using e(5,8) by (simp add: channel_active_def Let_def)
  moreover have "fifo_head (link_tx (enabled_hosts st) c) = a + 1028" "fifo_tail (link_rx (enabled_hosts st) c) = a + 1032"
    using assms(3) by (simp_all add: link_tx_def link_rx_def Let_def a_def)
  ultimately show ?thesis using e(1-4,6) safe_recover [OF assms(1,2)] by (simp add: st'_def hw_free_def)
qed

theorem ipc_recover_cuts_off_witness:
  "\<exists>st1. ipclite_probe (Inr 1) (Inr 0) tree_env loop_state = Some (0, st1) \<and>
    ipclite_msg_send 3 5 (ipclite_recover_v0 3 st1) = (- EOPNOTSUPP, ipclite_recover_v0 3 st1)"
proof -
  have ub: "\<not> ipc_ub loop_state" by (simp add: loop_state_def)
  obtain st1 where st1: "ipclite_probe (Inr 1) (Inr 0) tree_env loop_state = Some (0, st1)" "booted [0, 3] st1" "\<not> ipc_ub st1"
    "api_list_t st1 = api_list_version ! 0" using probe_good [OF tree_good ub] by blast
  have s: "safe [0, 3] st1" by (rule booted_safe [OF st1(2,3)])
  have "api_msg_send (api_list_t st1)" by (simp add: st1(4) api_list_version_def)
  then show ?thesis using ipc_recover_cuts_off [OF s, of 3 5] st1(1) by simp
qed

section \<open>Messages after the initialisation\<close>

lemma booted_loop:
  assumes "booted rs st" "\<not> ipc_ub st" "api_msg_send (api_list_t st)"
  shows "connected 0 0 (link_tx (enabled_hosts st) 0) st" "ring_msgs (link_tx (enabled_hosts st) 0) st = []"
    "ring_slots_count (link_tx (enabled_hosts st) 0) = 1024"
proof -
  let ?f = "link_tx (enabled_hosts st) 0"
  have s: "safe rs st" "0 \<in> set rs" using booted_safe [OF assms(1,2)] assms(1) by (simp_all add: booted_def)
  note ch = wired_channel [OF safe_wired [OF s(1)] s(2)]
  have z: "words st (fifo_tail ?f) = 0" "words st (fifo_head ?f) = 0" "ch_status (channel st ! 0) = ACTIVE"
    using link_words_desc [of "set rs" "enabled_hosts st" 0] assms(1) s(2)
    by (auto simp: booted_def link_tx_def Let_def nth_link_channels link_channel_def link_status_def status_offset_def)
  show n: "ring_slots_count ?f = 1024" by (simp add: ring_slots_count_def link_tx_def Let_def)
  have "fifo_length ?f = 8192" "fifo_tail ?f \<noteq> fifo_head ?f" by (simp_all add: link_tx_def Let_def)
  then have "ring_ok ?f st" using safe_link_fifos(1) [OF s] z n by (simp add: ring_ok_def ring_read_def ring_write_def fifo_in_def)
  then show "connected 0 0 ?f st" using s(1) assms(3) ch z(3)
    by (simp add: connected_def ring_inv_def safe_def link_rx_def all_signals_def Let_def del: upt.simps)
  show "ring_msgs ?f st = []" using z by (simp add: ring_msgs_def ring_read_def ring_write_def ring_slots_def ring_count_def)
qed

text \<open>C23: After a successful probe the header of the table of contents has its checksum, this core can send itself up to 1023 messages, which
  one interrupt delivers in order to the registered client, and every other core of the device tree is refused with EOPNOTSUPP until it has marked
  its link active.\<close>

theorem ipc_probe_delivers:
  assumes "good_init rs env st" "\<not> ipc_ub st" "length ms \<le> 1023"
  shows "\<exists>st1 st2 st3. ipclite_probe (Inr 1) (Inr 0) env st = Some (0, st1) \<and> fold (\<lambda>w b. b XOR w) (toc_hdr st1) 0 = NOT 0 \<and>
    send_all 0 ms (snd (ipclite_register_client (Some g) priv st1)) = (replicate (length ms) 0, st2) \<and>
    ipclite_intr 0 IPCLITE_MSG_SIGNAL st2 = Some st3 \<and> callbacks st3 = callbacks st @ map (\<lambda>m. Client_Callback g 0 m priv) ms \<and> \<not> ipc_ub st3 \<and>
    (\<forall>r \<in> set rs. r \<noteq> IPCMEM_APPS \<longrightarrow> (\<forall>m. ipclite_msg_send (int r) m st1 = (- EOPNOTSUPP, st1)))"
proof -
  obtain st1 where st1: "ipclite_probe (Inr 1) (Inr 0) env st = Some (0, st1)" "booted rs st1" "\<not> ipc_ub st1"
    "api_list_t st1 = api_list_version ! 0" "callbacks st1 = callbacks st" using probe_good [OF assms(1,2)] by blast
  let ?s = "snd (ipclite_register_client (Some g) priv st1)" and ?f = "link_tx (enabled_hosts st1) 0"
  have s: "?s = st1\<lparr>synx_client := \<lparr>cl_callback = Some g, cl_priv_data = priv, cl_reg_complete = True\<rparr>\<rparr>"
    using st1(4) by (simp add: ipclite_register_client_def ipclite_register_client_v0_def api_list_version_def)
  have b: "booted rs ?s" "\<not> ipc_ub ?s" "api_msg_send (api_list_t ?s)" "callbacks ?s = callbacks st" "channel ?s = channel st1"
    using st1 by (simp_all add: s booted_def laid_out_def region_fits_def debug_ok_def callbacks_def api_list_version_def)
  have e: "enabled_hosts ?s = enabled_hosts st1" by (simp add: s)
  note loop = booted_loop [OF b(1-3), unfolded e]
  obtain st2 where st2: "send_all 0 ms ?s = (replicate (length ms) 0, st2)" "connected 0 0 ?f st2" "callbacks st2 = callbacks st"
    "synx_client st2 = synx_client ?s" "channel st2 = channel st1" "ring_msgs ?f st2 = ms"
    using chan.enq_all_room [of 0 0 ?f ?s "callbacks st" "synx_client ?s" "channel st1" ms] loop b(4,5) assms(3) by (auto simp: send_all_eq)
  have pid: "remote_pid (channel st2 ! 0) = 0"
    using wired_channel(4) [OF safe_wired [OF booted_safe [OF st1(2,3)]], of 0] st1(2) st2(5) by (simp add: booted_def)
  obtain st3 where st3: "ipclite_intr 0 IPCLITE_MSG_SIGNAL st2 = Some st3" "connected 0 0 ?f st3"
    "callbacks st3 = callbacks st @ map (\<lambda>m. Client_Callback g 0 m priv) ms"
    using connected_intr [OF st2(2), of g priv] st2(3,4,6) pid by (auto simp: s)
  have "\<not> ipc_ub st3" using st3(2) by (simp add: connected_def ring_inv_def)
  moreover have "ipclite_msg_send (int r) m st1 = (- EOPNOTSUPP, st1)" if "r \<in> set rs" "r \<noteq> IPCMEM_APPS" for r m
    using that st1(2,4)
    by (auto simp: booted_def linked_def nth_link_channels link_channel_def link_status_def link_words_def api_list_version_def
        ipclite_msg_send_def ipclite_msg_send_v0_def ipclite_tx_def channel_active_def Let_def)
  ultimately show ?thesis using st1(1,2) st2(1) st3(1,3) by (auto simp: booted_def)
qed

theorem ipc_probe_delivers_witness:
  "\<exists>st1 st2 st3. ipclite_probe (Inr 1) (Inr 0) tree_env loop_state = Some (0, st1) \<and>
    send_all 0 [5, 6] (snd (ipclite_register_client (Some 7) 3 st1)) = ([0, 0], st2) \<and>
    ipclite_intr 0 IPCLITE_MSG_SIGNAL st2 = Some st3 \<and> callbacks st3 = [Client_Callback 7 0 5 3, Client_Callback 7 0 6 3]"
proof -
  have "\<not> ipc_ub loop_state" "length [5, 6 :: u64] \<le> 1023" by (simp_all add: loop_state_def)
  from ipc_probe_delivers [OF tree_good this, of 7 3] show ?thesis using loop_connected(3) by (auto simp: numeral_2_eq_2)
qed

end
