(* ===== verification/Ipc_Synx.thy ===== *)
theory Ipc_Synx
  imports Ipc_Safe Synx_Recover
begin

text \<open>
  The layout of the shared region as the other cores and the clients see it: the partitions of the
  message layer, and the global partition in which the objects of synx live.
\<close>

section \<open>The layout\<close>

text \<open>C26: For every set of enabled cores the set-up of the region makes at most 37 partitions, whose entries fit into the table of contents; the
  partitions lie behind the global partition and do not overlap, every two enabled cores (and this core with itself) have one that the lookup finds,
  and no partition is for a core that is not enabled. The size of the region is not checked: with a region that ends before the header of the last
  partition, the set-up writes outside it and still returns 0.\<close>

theorem ipc_partition_layout:
  assumes "words st = (\<lambda>_. 0)"
  shows "\<exists>st'. ipcmem_init children True st = (0, st') \<and>
    (let n = unat (partitions st'); base = (\<lambda>p. unat (pe_base_offset (partition_entry st' p)));
         h0 = (\<lambda>p. unat (pe_host0 (partition_entry st' p))); h1 = (\<lambda>p. unat (pe_host1 (partition_entry st' p)))
     in n \<le> 37 \<and> unat (io_partition_entry (toc_offsets st')) + 24 * n \<le> unat IPCMEM_TOC_SIZE \<and>
       (\<forall>p < n. unat (pe_base_offset (global_entry st')) + unat (pe_size (global_entry st')) \<le> base p \<and>
          unat (pe_size (partition_entry st' p)) = 32768 \<and> (\<forall>q < p. base q + 32768 \<le> base p)) \<and>
       (\<forall>a b. a \<le> b \<longrightarrow> b < IPCMEM_NUM_HOSTS \<longrightarrow> is_host_enabled a st' \<longrightarrow> is_host_enabled b st' \<longrightarrow> (a = b \<longrightarrow> a = IPCMEM_APPS) \<longrightarrow>
          (\<exists>p < n. get_ipcmem_partition_hdr a b st' = Some (base p) \<and> h0 p = a \<and> h1 p = b)) \<and>
       (\<forall>p < n. h0 p \<le> h1 p \<and> h1 p < IPCMEM_NUM_HOSTS \<and> is_host_enabled (h0 p) st' \<and> is_host_enabled (h1 p) st') \<and>
       ipc_ub st' = (ipc_ub st \<or> unat (mem_size st) < 4108 \<or> 0 < n \<and> unat (mem_size st) < base (n - 1) + 32))"
proof -
  obtain st' where s: "ipcmem_init children True st = (0, st')" "laid_out st'" "enabled_hosts st' = enable_hosts children 0 (enabled_hosts st)"
    "toc_offsets st' = \<lparr>io_host_info = 256, io_global_entry = 264, io_partition_info = 288, io_partition_entry = 296\<rparr>"
    "unat (pe_base_offset (global_entry st')) = 4096" "unat (pe_size (global_entry st')) = 131072"
    "ipc_ub st' = (ipc_ub st \<or> unat (mem_size st) < 4108 \<or>
      (\<exists>p < length (host_pairs (enabled_hosts st')). \<not> in_region (base_of p + status_offset) 4 st))"
    using ipcmem_init_ok [OF assms, of children] by auto
  let ?ps = "host_pairs (enabled_hosts st')"
  have n: "unat (partitions st') = length ?ps" using s(2) by (simp add: laid_out_def Let_def)
  note e = laid_out_entry [OF s(2)]
  have last: "(\<exists>p < length ?ps. \<not> in_region (base_of p + status_offset) 4 st) \<longleftrightarrow>
      0 < length ?ps \<and> unat (mem_size st) < base_of (length ?ps - 1) + 32"
  proof
    assume "\<exists>p < length ?ps. \<not> in_region (base_of p + status_offset) 4 st"
    then obtain p where "p < length ?ps" "\<not> in_region (base_of p + status_offset) 4 st" by blast
    then show "0 < length ?ps \<and> unat (mem_size st) < base_of (length ?ps - 1) + 32" by (auto simp: in_region_def status_offset_def base_of_def)
  qed (auto simp: in_region_def status_offset_def intro!: exI [of _ "length ?ps - 1"])
  have pairs: "fst (?ps ! p) \<le> snd (?ps ! p) \<and> bit (enabled_hosts st') (fst (?ps ! p)) \<and> bit (enabled_hosts st') (snd (?ps ! p))"
    if "p < length ?ps" for p
    using nth_mem [OF that] set_host_pairs [of "fst (?ps ! p)" "snd (?ps ! p)" "enabled_hosts st'"] by simp
  have look: "\<exists>p < length ?ps. get_ipcmem_partition_hdr a b st' = Some (base_of p) \<and> fst (?ps ! p) = a \<and> snd (?ps ! p) = b"
    if ab: "a \<le> b" "b < IPCMEM_NUM_HOSTS" "bit (enabled_hosts st') a" "bit (enabled_hosts st') b" "a = b \<longrightarrow> a = IPCMEM_APPS" for a b
  proof -
    obtain p where p: "p < length ?ps" "?ps ! p = (a, b)" using partition_of_pair [OF ab] .
    then show ?thesis using lookup_pair [OF s(2) p] by auto
  qed
  have "base_of q + 32768 \<le> base_of p" if "q < p" for p q using that by (simp add: base_of_def)
  moreover have "4096 + 131072 \<le> base_of p" for p by (simp add: base_of_def)
  moreover have "296 + 24 * length ?ps \<le> 4096" "length ?ps \<le> 37" using length_host_pairs [of "enabled_hosts st'"] by simp_all
  moreover have "length ?ps - 1 < length ?ps" if "0 < length ?ps" using that by simp
  ultimately show ?thesis using e pair_hosts [of _ "enabled_hosts st'"] pairs look
    by (intro exI [of _ st']) (simp add: s(1,4-7) n Let_def is_host_enabled_def last cong: conj_cong)
qed

theorem ipc_partition_layout_witness:
  "\<exists>st'. ipcmem_init [Some 0, Some 3] True loop_state = (0, st') \<and> unat (partitions st') \<le> 37 \<and> ipc_ub st'"
  using ipc_partition_layout [of loop_state "[Some 0, Some 3]"] by (auto simp: loop_state_def Let_def)

section \<open>The memory of synx\<close>

text \<open>C28: After a successful probe of the message layer, synx gets the region of the global partition, which lies behind the header of that
  partition and ends where the first partition of two cores begins; it holds the bitmap, the locks and the table of 4096 objects, so the set-up
  of synx succeeds with the hardware lock and reaches a state in which signalling and recovery are safe.\<close>

theorem synx_region_from_ipclite:
  assumes "good_init rs env st" "\<not> ipc_ub st" "ipclite_probe (Inr 1) (Inr 0) env st = Some (0, st1)"
    and "polite sst" "\<not> locked sst" "\<not> gmem_ub sst"
  shows "\<exists>addr sz sst'. get_global_partition_info False st1 = (0, Some (addr, sz)) \<and>
    global_partition st1 + 12 \<le> addr \<and> addr + unat sz \<le> unat (mem_size st1) \<and>
    (\<forall>p < unat (partitions st1). addr + unat sz \<le> unat (pe_base_offset (partition_entry st1 p))) \<and>
    synx_global_mem_init 0 sz True sst = (0, sst') \<and> synx_reach sst' \<and> \<not> gmem_ub sst'"
proof -
  have b: "booted rs st1" "api_list_t st1 = api_list_version ! 0" using probe_good [OF assms(1,2)] assms(3) by auto
  then have l: "laid_out st1" "region_fits st1" "ipclite_up st1" by (simp_all add: booted_def)
  then have g: "get_global_partition_info False st1 = (0, Some (8192, 126976))" "global_partition st1 = 4096"
    using b(2) by (simp_all add: get_global_partition_info_def get_global_partition_info_v0_def api_list_version_def laid_out_def
        global_partition_hdr_def Let_def)
  have "8192 + 126976 \<le> unat (pe_base_offset (partition_entry st1 p))" if "p < unat (partitions st1)" for p
    using laid_out_entry(2) [OF l(1), of p] that l(1) by (simp add: laid_out_def base_of_def Let_def)
  moreover have "8192 + 126976 \<le> unat (mem_size st1)" using l(2) by (simp add: region_fits_def base_of_def)
  moreover obtain sst' where s: "synx_global_mem_init 0 126976 True sst = (0, sst')" by (simp add: synx_global_mem_init_def synx_gmem_init_def Let_def)
  moreover have r: "synx_reach sst'" by (rule synx_reach.Boot [OF assms(4-6) _ s]) simp
  moreover have "\<not> gmem_ub sst'" using reach_ok [OF r] by (auto simp: mem_ok_def)
  ultimately show ?thesis using g by (intro exI [of _ 8192] exI [of _ 126976] exI [of _ sst']) simp
qed

theorem synx_region_from_ipclite_witness:
  "\<exists>st1 addr sz sst'. ipclite_probe (Inr 1) (Inr 0) tree_env loop_state = Some (0, st1) \<and>
    get_global_partition_info False st1 = (0, Some (addr, sz)) \<and> synx_global_mem_init 0 sz True synx_blank = (0, sst') \<and> synx_reach sst'"
proof -
  have ub: "\<not> ipc_ub loop_state" by (simp add: loop_state_def)
  obtain st1 where st1: "ipclite_probe (Inr 1) (Inr 0) tree_env loop_state = Some (0, st1)" using probe_good [OF tree_good ub] by blast
  have "polite synx_blank" "\<not> locked synx_blank" "\<not> gmem_ub synx_blank" by (simp_all add: polite_def synx_blank_def)
  from synx_region_from_ipclite [OF tree_good ub st1 this] st1 show ?thesis by blast
qed

end
