(* ===== verification/Ct_Table.thy ===== *)
theory Ct_Table
  imports Prelude
begin

text \<open>
  The tables of the IPA hardware as its user-space library keeps them (\<^verbatim>\<open>ipa_table.c\<close>): a base table
  that is addressed by a hash, an expansion table for collisions, and chains of entries through both.
  The records of a table are opaque to this file: their interface is a record of functions.

  A record is addressed by its index, that of the expansion table behind that of the base table. The
  fields that the hardware reads are not written by the processor but by commands for the DMA of the
  hardware; such commands are only collected here. An access outside the table sets \<open>tbl_ub\<close>.
\<close>

section \<open>Constants and types\<close>

abbreviation (input) IPA_TABLE_MAX_ENTRIES :: nat where "IPA_TABLE_MAX_ENTRIES \<equiv> 5120"
abbreviation (input) IPA_NAT_MEM_IN_DDR :: nat where "IPA_NAT_MEM_IN_DDR \<equiv> 0"
abbreviation (input) IPA_NAT_MEM_IN_SRAM :: nat where "IPA_NAT_MEM_IN_SRAM \<equiv> 1"

definition VALID_INDEX :: "nat \<Rightarrow> bool" where
  "VALID_INDEX idx \<longleftrightarrow> idx \<noteq> 0"

text \<open>
  The functions of a kind of record: 'e the record, 'u the data of the user for a new one, 'm the records
  of the meta table. What the functions write is returned.
\<close>

record ('e, 'u, 'm) ipa_table_entry_interface =
  entry_is_valid :: "'e \<Rightarrow> bool"
  entry_get_next_index :: "'e \<Rightarrow> nat"
  entry_get_prev_index :: "'e \<Rightarrow> nat \<Rightarrow> 'm list option \<Rightarrow> nat \<Rightarrow> nat"
  entry_set_prev_index :: "'e \<Rightarrow> nat \<Rightarrow> nat \<Rightarrow> 'm list option \<Rightarrow> nat \<Rightarrow> 'e \<times> 'm list option"
  entry_head_insert :: "'e \<Rightarrow> 'u \<Rightarrow> int \<times> 'e \<times> u16"
  entry_tail_insert :: "'e \<Rightarrow> 'u \<Rightarrow> int \<times> 'e"
  entry_get_delete_head_dma_command_data :: "'e \<Rightarrow> 'e \<Rightarrow> u16"

datatype dma_help_type = HELP_UPDATE_HEAD | HELP_UPDATE_ENTRY | HELP_DELETE_HEAD

record ipa_table_dma_cmd_helper =
  h_offset :: nat
  h_table_type :: nat
  h_expn_table_type :: nat
  h_table_indx :: nat

record ipa_ioc_nat_dma_one =
  dma_table_index :: nat
  dma_base_addr :: nat
  dma_offset :: nat
  dma_data :: u16

text \<open>\<open>zero_rec\<close> is the record of zero bytes that \<^verbatim>\<open>memset\<close> leaves.\<close>

record ('e, 'u, 'm) ipa_table =
  tbl_nmi :: nat
  tbl_entry_size :: nat
  table_entries :: nat
  expn_table_entries :: nat
  tot_tbl_ents :: nat
  tbl_recs :: "'e list"
  cur_tbl_cnt :: u16
  cur_expn_tbl_cnt :: u16
  entry_interface :: "('e, 'u, 'm) ipa_table_entry_interface"
  dma_help :: "dma_help_type \<Rightarrow> ipa_table_dma_cmd_helper"
  tbl_meta :: "'m list option"
  zero_rec :: 'e
  tbl_ub :: bool

text \<open>The commands collected so far.\<close>

type_synonym dma_cmd = "ipa_ioc_nat_dma_one list"

definition GOTO_REC :: "('e, 'u, 'm) ipa_table \<Rightarrow> nat \<Rightarrow> 'e" where
  "GOTO_REC t i = tbl_recs t ! i"

definition tbl_check :: "nat \<Rightarrow> ('e, 'u, 'm) ipa_table \<Rightarrow> ('e, 'u, 'm) ipa_table" where
  "tbl_check i t = t\<lparr>tbl_ub := tbl_ub t \<or> i \<ge> length (tbl_recs t)\<rparr>"

definition set_rec :: "nat \<Rightarrow> 'e \<Rightarrow> ('e, 'u, 'm) ipa_table \<Rightarrow> ('e, 'u, 'm) ipa_table" where
  "set_rec i e t = (tbl_check i t)\<lparr>tbl_recs := (tbl_recs t)[i := e]\<rparr>"

section \<open>Sizes\<close>

text \<open>
  The product of an integer and a constant \<open>m / 2 ^ e\<close>, rounded to the nearest number of \<open>prec\<close> significant
  bits (a tie to the even one), and its integer part: 24 bits for a float, 53 for a double.
\<close>

fun bit_len :: "nat \<Rightarrow> nat" where
  "bit_len n = (if n = 0 then 0 else Suc (bit_len (n div 2)))"

declare bit_len.simps [simp del]

definition float_times :: "nat \<Rightarrow> nat \<Rightarrow> nat \<times> nat \<Rightarrow> nat" where
  "float_times prec n c =
     (case c of (m, e) \<Rightarrow>
        let p = n * m;
            k = bit_len p - prec;
            q = p div 2 ^ k;
            r = p mod 2 ^ k;
            q = (if k > 0 \<and> (2 * r > 2 ^ k \<or> 2 * r = 2 ^ k \<and> odd q) then q + 1 else q)
        in q * 2 ^ k div 2 ^ e)"

definition IPA_BASE_TABLE_PERCENTAGE :: "nat \<times> nat" where "IPA_BASE_TABLE_PERCENTAGE = (13421773, 24)"
definition IPA_EXPANSION_TABLE_PERCENTAGE :: "nat \<times> nat" where "IPA_EXPANSION_TABLE_PERCENTAGE = (13421773, 26)"
definition IPA_BASE_TABLE_PCNT_4SRAM :: "nat \<times> nat" where "IPA_BASE_TABLE_PCNT_4SRAM = (1, 0)"
definition IPA_EXPANSION_TABLE_PCNT_4SRAM :: "nat \<times> nat" where "IPA_EXPANSION_TABLE_PCNT_4SRAM = (14428406, 25)"
definition EXPANSION_PCNT_4SRAM_double :: "nat \<times> nat" where "EXPANSION_PCNT_4SRAM_double = (7746191359077253, 54)"

text \<open>The loop is only entered with a number that is not 0, so it ends with 1.\<close>

fun tight_loop :: "nat \<Rightarrow> u16 \<Rightarrow> u16 \<Rightarrow> u16 \<times> u16" where
  "tight_loop tmp prev cur = (if tmp \<le> 1 then (prev, cur) else tight_loop (tmp div 2) cur (push_bit 1 cur))"

declare tight_loop.simps [simp del]

definition Get2PowerTightUpperBound :: "u16 \<Rightarrow> u16" where
  "Get2PowerTightUpperBound num =
     (if num = 0 then 2
      else case tight_loop (unat num) 0 2 of (prev, cur) \<Rightarrow> if num = prev then prev else cur)"

definition GetEvenTightUpperBound :: "u16 \<Rightarrow> nat" where
  "GetEvenTightUpperBound num = (if num = 0 then 2 else if unat num mod 2 \<noteq> 0 then unat num + 1 else unat num)"

definition ipa_table_init :: "nat \<Rightarrow> nat \<Rightarrow> 'm list option \<Rightarrow> ('e, 'u, 'm) ipa_table_entry_interface \<Rightarrow> (dma_help_type \<Rightarrow> ipa_table_dma_cmd_helper)
    \<Rightarrow> 'e \<Rightarrow> ('e, 'u, 'm) ipa_table" where
  "ipa_table_init nmi entry_size meta ifc null_help zero =
     \<lparr>tbl_nmi = nmi, tbl_entry_size = entry_size, table_entries = 0, expn_table_entries = 0, tot_tbl_ents = 0, tbl_recs = [],
      cur_tbl_cnt = 0, cur_expn_tbl_cnt = 0, entry_interface = ifc, dma_help = null_help, tbl_meta = meta, zero_rec = zero, tbl_ub = False\<rparr>"

definition ipa_table_calculate_entries_num :: "u16 \<Rightarrow> nat \<Rightarrow> ('e, 'u, 'm) ipa_table \<Rightarrow> int \<times> ('e, 'u, 'm) ipa_table" where
  "ipa_table_calculate_entries_num number_of_entries nmi t =
     (if unat number_of_entries > IPA_TABLE_MAX_ENTRIES then (- EINVAL, t)
      else
        let (btp, etp) = (if nmi = IPA_NAT_MEM_IN_SRAM then (IPA_BASE_TABLE_PCNT_4SRAM, IPA_EXPANSION_TABLE_PCNT_4SRAM)
                          else (IPA_BASE_TABLE_PERCENTAGE, IPA_EXPANSION_TABLE_PERCENTAGE));
            base = unat (Get2PowerTightUpperBound (of_nat (float_times 24 (unat number_of_entries) btp)));
            expn = unat (of_nat (GetEvenTightUpperBound (of_nat (float_times 24 (unat number_of_entries) etp))) :: u16);
            t1 = t\<lparr>tot_tbl_ents := base + expn\<rparr>
        in if tot_tbl_ents t1 > IPA_TABLE_MAX_ENTRIES then (- EINVAL, t1)
           else (0, t1\<lparr>table_entries := base, expn_table_entries := expn\<rparr>))"

definition ipa_table_calculate_size :: "('e, 'u, 'm) ipa_table \<Rightarrow> nat" where
  "ipa_table_calculate_size t = tbl_entry_size t * (table_entries t + expn_table_entries t)"

text \<open>The memory of the table, behind \<open>base_addr\<close>; the result is the number of its bytes.\<close>

definition ipa_table_calculate_addresses :: "'e list \<Rightarrow> ('e, 'u, 'm) ipa_table \<Rightarrow> nat \<times> ('e, 'u, 'm) ipa_table" where
  "ipa_table_calculate_addresses mem t =
     (tbl_entry_size t * table_entries t + tbl_entry_size t * expn_table_entries t,
      t\<lparr>tbl_recs := take (table_entries t + expn_table_entries t) mem\<rparr>)"

definition ipa_table_reset :: "('e, 'u, 'm) ipa_table \<Rightarrow> ('e, 'u, 'm) ipa_table" where
  "ipa_table_reset t = t\<lparr>tbl_recs := map (\<lambda>_. zero_rec t) (tbl_recs t),
     tbl_ub := tbl_ub t \<or> length (tbl_recs t) < table_entries t + expn_table_entries t\<rparr>"

text \<open>The largest number of entries whose two tables fit into the memory of the hardware: the last that was tried with success.\<close>

definition sram_size_of :: "u16 \<Rightarrow> nat \<Rightarrow> nat \<Rightarrow> nat" where
  "sram_size_of tot size1 size2 =
     (let base = unat (Get2PowerTightUpperBound (of_nat (float_times 53 (unat tot) IPA_BASE_TABLE_PCNT_4SRAM)));
          expn = unat (of_nat (GetEvenTightUpperBound (of_nat (float_times 53 (unat tot) EXPANSION_PCNT_4SRAM_double))) :: u16)
      in size1 * (base + expn) + size2 * (base + expn))"

partial_function (option) sram_loop :: "nat \<Rightarrow> nat \<Rightarrow> nat \<Rightarrow> u16 \<Rightarrow> u16 \<Rightarrow> u16 option" where
  "sram_loop sram_size size1 size2 tot num =
     (if sram_size_of tot size1 size2 > sram_size then Some num else sram_loop sram_size size1 size2 (tot + 1) tot)"

definition ipa_calc_num_sram_table_entries :: "nat \<Rightarrow> nat \<Rightarrow> nat \<Rightarrow> (int \<times> u16) option" where
  "ipa_calc_num_sram_table_entries sram_size size1 size2 =
     map_option (\<lambda>num. (if num \<noteq> 0 then 0 else - 1, num)) (sram_loop sram_size size1 size2 1 0)"

section \<open>Handles\<close>

definition MakeEntryHdl :: "('e, 'u, 'm) ipa_table \<Rightarrow> nat \<Rightarrow> u16" where
  "MakeEntryHdl t tbl_entry =
     (let hdl = (if tbl_entry \<ge> table_entries t then push_bit 1 (of_nat (tbl_entry - table_entries t)) OR 1
                 else push_bit 1 (of_nat tbl_entry))
      in hdl OR push_bit 15 (of_nat (tbl_nmi t)))"

text \<open>The index that a handle of 32 bits names.\<close>

definition BREAK_RULE_HDL :: "('e, 'u, 'm) ipa_table \<Rightarrow> u32 \<Rightarrow> nat" where
  "BREAK_RULE_HDL t hdl = unat (drop_bit 1 hdl AND 0xFFF) + (if hdl AND 1 \<noteq> 0 then table_entries t else 0)"

definition ipa_table_get_entry :: "u32 \<Rightarrow> ('e, 'u, 'm) ipa_table \<Rightarrow> int \<times> nat" where
  "ipa_table_get_entry entry_handle t =
     (let rec_index = BREAK_RULE_HDL t entry_handle in if rec_index \<ge> tot_tbl_ents t then (- EINVAL, 0) else (0, rec_index))"

definition ipa_table_get_entry_by_index :: "nat \<Rightarrow> ('e, 'u, 'm) ipa_table \<Rightarrow> nat option" where
  "ipa_table_get_entry_by_index rec_index t = (if rec_index = 0 \<or> rec_index \<ge> tot_tbl_ents t then None else Some rec_index)"

section \<open>Commands for the DMA\<close>

definition ipa_table_dma_cmd_helper_init :: "nat \<Rightarrow> nat \<Rightarrow> nat \<Rightarrow> nat \<Rightarrow> ipa_table_dma_cmd_helper" where
  "ipa_table_dma_cmd_helper_init table_indx table_type expn_table_type offset =
     \<lparr>h_offset = offset, h_table_type = table_type, h_expn_table_type = expn_table_type, h_table_indx = table_indx\<rparr>"

definition ipa_table_dma_cmd_generate :: "ipa_table_dma_cmd_helper \<Rightarrow> bool \<Rightarrow> nat \<Rightarrow> u16 \<Rightarrow> dma_cmd \<Rightarrow> dma_cmd" where
  "ipa_table_dma_cmd_generate helper is_expn entry_offset data cmd =
     cmd @ [\<lparr>dma_table_index = h_table_indx helper, dma_base_addr = (if is_expn then h_expn_table_type helper else h_table_type helper),
       dma_offset = h_offset helper + entry_offset, dma_data = data\<rparr>]"

text \<open>The result is dropped by all callers.\<close>

definition ipa_table_add_dma_cmd :: "('e, 'u, 'm) ipa_table \<Rightarrow> dma_help_type \<Rightarrow> nat \<Rightarrow> u16 \<Rightarrow> dma_cmd \<Rightarrow> int \<times> dma_cmd" where
  "ipa_table_add_dma_cmd t help_type rec_index data_for_entry cmd =
     (if rec_index \<ge> table_entries t + expn_table_entries t then (- EINVAL, cmd)
      else
        let is_expn = (rec_index \<ge> table_entries t)
        in (0, ipa_table_dma_cmd_generate (dma_help t help_type) is_expn
                 (tbl_entry_size t * (if is_expn then rec_index - table_entries t else rec_index)) data_for_entry cmd))"

section \<open>Walking a table\<close>

datatype When2Callback = WHEN_SLOT_EMPTY | WHEN_SLOT_FILLED

text \<open>The callback gets the table, the handle and the index of a record, and its index in the meta table.\<close>

fun walk_loop :: "When2Callback \<Rightarrow> (('e, 'u, 'm) ipa_table \<Rightarrow> u16 \<Rightarrow> nat \<Rightarrow> nat option \<Rightarrow> int) \<Rightarrow> ('e, 'u, 'm) ipa_table \<Rightarrow> nat list \<Rightarrow> int" where
  "walk_loop when2cb walk_cb t [] = 0"
| "walk_loop when2cb walk_cb t (i # is) =
     (if entry_is_valid (entry_interface t) (GOTO_REC t i) = (when2cb = WHEN_SLOT_FILLED) then
        let ret = walk_cb t (MakeEntryHdl t i) i
                    (if i \<ge> table_entries t \<and> tbl_meta t \<noteq> None then Some (i - table_entries t) else None)
        in if ret \<noteq> 0 then ret else walk_loop when2cb walk_cb t is
      else walk_loop when2cb walk_cb t is)"

definition ipa_table_walk :: "nat \<Rightarrow> When2Callback \<Rightarrow> (('e, 'u, 'm) ipa_table \<Rightarrow> u16 \<Rightarrow> nat \<Rightarrow> nat option \<Rightarrow> int) \<Rightarrow> ('e, 'u, 'm) ipa_table \<Rightarrow> int" where
  "ipa_table_walk start_index when2cb walk_cb t =
     (let tot = table_entries t + expn_table_entries t
      in if start_index \<ge> tot then - EINVAL else walk_loop when2cb walk_cb t [start_index..<tot])"

definition mt_slot :: "('e, 'u, 'm) ipa_table \<Rightarrow> u16 \<Rightarrow> nat \<Rightarrow> nat option \<Rightarrow> int" where
  "mt_slot t rule_hdl record_index meta_record_index = int record_index"

definition FindExpnTblFreeEntry :: "('e, 'u, 'm) ipa_table \<Rightarrow> int \<times> nat" where
  "FindExpnTblFreeEntry t =
     (let ret = ipa_table_walk (table_entries t) WHEN_SLOT_EMPTY mt_slot t in if ret > 0 then (0, nat ret) else (- 1, 0))"

section \<open>Iterators\<close>

text \<open>The pointer to a record is its index, or NULL.\<close>

record ipa_table_iterator =
  prev_index :: nat
  prev_entry :: "nat option"
  curr_index :: nat
  curr_entry :: "nat option"
  next_index :: nat
  next_entry :: "nat option"

definition zero_iterator :: ipa_table_iterator where
  "zero_iterator = \<lparr>prev_index = 0, prev_entry = None, curr_index = 0, curr_entry = None, next_index = 0, next_entry = None\<rparr>"

definition ipa_table_iterator_init :: "nat \<Rightarrow> ('e, 'u, 'm) ipa_table \<Rightarrow> int \<times> ipa_table_iterator" where
  "ipa_table_iterator_init i t =
     (let e = GOTO_REC t i in
      if \<not> entry_is_valid (entry_interface t) e then (- EINVAL, zero_iterator)
      else
        let it = zero_iterator\<lparr>curr_entry := Some i, curr_index := i,
                   prev_index := entry_get_prev_index (entry_interface t) e i (tbl_meta t) (table_entries t),
                   next_index := entry_get_next_index (entry_interface t) e\<rparr>;
            it = (if VALID_INDEX (prev_index it) then it\<lparr>prev_entry := ipa_table_get_entry_by_index (prev_index it) t\<rparr> else it)
        in if VALID_INDEX (prev_index it) \<and> prev_entry it = None then (- EPERM, it)
           else
             let it = (if VALID_INDEX (next_index it) then it\<lparr>next_entry := ipa_table_get_entry_by_index (next_index it) t\<rparr> else it)
             in if VALID_INDEX (next_index it) \<and> next_entry it = None then (- EPERM, it) else (0, it))"

definition ipa_table_iterator_next :: "ipa_table_iterator \<Rightarrow> ('e, 'u, 'm) ipa_table \<Rightarrow> int \<times> ipa_table_iterator" where
  "ipa_table_iterator_next it t =
     (let it = it\<lparr>prev_entry := curr_entry it, prev_index := curr_index it, curr_entry := next_entry it, curr_index := next_index it\<rparr>;
          it = it\<lparr>next_index := entry_get_next_index (entry_interface t) (GOTO_REC t (the (curr_entry it)))\<rparr>
      in if \<not> VALID_INDEX (next_index it) then (0, it\<lparr>next_entry := None\<rparr>)
         else
           let it = it\<lparr>next_entry := ipa_table_get_entry_by_index (next_index it) t\<rparr>
           in if next_entry it = None then (- EPERM, it) else (0, it))"

text \<open>The walk to the end of a chain: None when the chain is a cycle of several records.\<close>

partial_function (option) end_loop :: "nat \<Rightarrow> ('e, 'u, 'm) ipa_table \<Rightarrow> (bool \<times> nat \<times> ('e, 'u, 'm) ipa_table) option" where
  "end_loop i t =
     (let n = entry_get_next_index (entry_interface t) (GOTO_REC t i);
          t1 = tbl_check i t
      in if \<not> VALID_INDEX n then Some (True, i, t1) else if n = i then Some (False, i, t1) else end_loop n t1)"

definition ipa_table_iterator_end :: "nat \<Rightarrow> ('e, 'u, 'm) ipa_table \<Rightarrow> (int \<times> nat \<times> ('e, 'u, 'm) ipa_table) option" where
  "ipa_table_iterator_end rec_index t =
     map_option (\<lambda>(found_end, i, t1). (if found_end then 0 else - 1, i, t1)) (end_loop rec_index t)"

definition ipa_table_iterator_is_head_with_tail :: "ipa_table_iterator \<Rightarrow> bool" where
  "ipa_table_iterator_is_head_with_tail it \<longleftrightarrow> VALID_INDEX (next_index it) \<and> \<not> VALID_INDEX (prev_index it)"

section \<open>Insertion\<close>

definition InsertHead :: "nat \<Rightarrow> 'u \<Rightarrow> dma_cmd \<Rightarrow> ('e, 'u, 'm) ipa_table \<Rightarrow> int \<times> dma_cmd \<times> ('e, 'u, 'm) ipa_table" where
  "InsertHead rec_index user_data cmd t =
     (case entry_head_insert (entry_interface t) (GOTO_REC t rec_index) user_data of
        (ret, e, enable_data) \<Rightarrow>
          let t1 = set_rec rec_index e t
          in if ret \<noteq> 0 then (ret, cmd, t1)
             else (0, snd (ipa_table_add_dma_cmd t1 HELP_UPDATE_HEAD rec_index enable_data cmd), t1\<lparr>cur_tbl_cnt := cur_tbl_cnt t1 + 1\<rparr>))"

text \<open>The data of the user in an open slot; only the records of an index table are enabled by the processor.\<close>

definition tail_data :: "nat \<Rightarrow> 'u \<Rightarrow> ('e, 'u, 'm) ipa_table \<Rightarrow> int \<times> u16 \<times> ('e, 'u, 'm) ipa_table" where
  "tail_data i user_data t =
     (if tbl_meta t \<noteq> None then
        case entry_tail_insert (entry_interface t) (GOTO_REC t i) user_data of (ret, e) \<Rightarrow> (ret, 0, set_rec i e t)
      else
        case entry_head_insert (entry_interface t) (GOTO_REC t i) user_data of (ret, e, enable_data) \<Rightarrow> (ret, enable_data, set_rec i e t))"

definition InsertTail :: "nat \<Rightarrow> 'u \<Rightarrow> dma_cmd \<Rightarrow> ('e, 'u, 'm) ipa_table \<Rightarrow> (int \<times> nat \<times> dma_cmd \<times> ('e, 'u, 'm) ipa_table) option" where
  "InsertTail rec_index user_data cmd t =
     Option.bind (ipa_table_iterator_end rec_index t) (\<lambda>(ret, last, t1).
       if ret \<noteq> 0 then Some (ret, rec_index, cmd, t1)
       else
         case FindExpnTblFreeEntry t1 of
           (ret, free) \<Rightarrow>
             if ret \<noteq> 0 then Some (ret, rec_index, cmd, t1)
             else
               case tail_data free user_data t1 of
                 (ret, enable_data, t2) \<Rightarrow>
                   if ret \<noteq> 0 then Some (ret, rec_index, cmd, t2)
                   else
                     case entry_set_prev_index (entry_interface t2) (GOTO_REC t2 free) free last (tbl_meta t2) (table_entries t2) of
                       (e, meta) \<Rightarrow>
                         let t3 = (set_rec free e t2)\<lparr>tbl_meta := meta\<rparr>;
                             cmd = (if tbl_meta t \<noteq> None then cmd else snd (ipa_table_add_dma_cmd t3 HELP_UPDATE_HEAD free enable_data cmd));
                             cmd = snd (ipa_table_add_dma_cmd t3 HELP_UPDATE_ENTRY last (of_nat free) cmd)
                         in Some (0, free, cmd, t3\<lparr>cur_expn_tbl_cnt := cur_expn_tbl_cnt t3 + 1\<rparr>))"

text \<open>The result: the return code, the index and the handle of the new record, the commands.\<close>

definition ipa_table_add_entry :: "'u \<Rightarrow> nat \<Rightarrow> dma_cmd \<Rightarrow> ('e, 'u, 'm) ipa_table \<Rightarrow>
    (int \<times> nat \<times> u16 \<times> dma_cmd \<times> ('e, 'u, 'm) ipa_table) option" where
  "ipa_table_add_entry user_data rec_index cmd t =
     (let t0 = tbl_check rec_index t in
      if \<not> entry_is_valid (entry_interface t) (GOTO_REC t rec_index) then
        case InsertHead rec_index user_data cmd t0 of
          (ret, cmd, t1) \<Rightarrow> Some (ret, rec_index, (if ret = 0 then MakeEntryHdl t1 rec_index else 0), cmd, t1)
      else map_option (\<lambda>(ret, i, cmd, t1). (ret, i, (if ret = 0 then MakeEntryHdl t1 i else 0), cmd, t1)) (InsertTail rec_index user_data cmd t0))"

section \<open>Deletion\<close>

definition ipa_table_create_delete_command :: "dma_cmd \<Rightarrow> ipa_table_iterator \<Rightarrow> ('e, 'u, 'm) ipa_table \<Rightarrow> dma_cmd" where
  "ipa_table_create_delete_command cmd it t =
     (if \<not> VALID_INDEX (prev_index it) then
        if VALID_INDEX (next_index it) then
          snd (ipa_table_add_dma_cmd t HELP_DELETE_HEAD (curr_index it)
                 (entry_get_delete_head_dma_command_data (entry_interface t) (GOTO_REC t (curr_index it)) (GOTO_REC t (next_index it))) cmd)
        else snd (ipa_table_add_dma_cmd t HELP_UPDATE_HEAD (curr_index it) 0 cmd)
      else snd (ipa_table_add_dma_cmd t HELP_UPDATE_ENTRY (prev_index it) (of_nat (next_index it)) cmd))"

definition ipa_table_erase_entry :: "nat \<Rightarrow> ('e, 'u, 'm) ipa_table \<Rightarrow> ('e, 'u, 'm) ipa_table" where
  "ipa_table_erase_entry index t =
     (let t1 = set_rec index (zero_rec t) t
      in if index < table_entries t then t1\<lparr>cur_tbl_cnt := cur_tbl_cnt t1 - 1\<rparr>
         else t1\<lparr>cur_expn_tbl_cnt := cur_expn_tbl_cnt t1 - 1\<rparr>)"

definition ipa_table_delete_entry :: "ipa_table_iterator \<Rightarrow> bool \<Rightarrow> ('e, 'u, 'm) ipa_table \<Rightarrow> ('e, 'u, 'm) ipa_table" where
  "ipa_table_delete_entry it is_prev_empty t =
     (let t1 =
        (if VALID_INDEX (next_index it) then
           case entry_set_prev_index (entry_interface t) (GOTO_REC t (next_index it)) (next_index it) (prev_index it) (tbl_meta t) (table_entries t) of
             (e, meta) \<Rightarrow> (set_rec (next_index it) e t)\<lparr>tbl_meta := meta\<rparr>
         else if is_prev_empty then
           (case prev_entry it of
              None \<Rightarrow> t
            | Some p \<Rightarrow> (let t1 = set_rec p (zero_rec t) t in t1\<lparr>cur_tbl_cnt := cur_tbl_cnt t1 - 1\<rparr>))
         else t)
      in ipa_table_erase_entry (curr_index it) t1)"

end
