(* ===== verification/Ct_Rules.thy ===== *)
theory Ct_Rules
  imports Ct_Table
begin

text \<open>
  The connection tracking table for IPv6 (\<^verbatim>\<open>ipa_ipv6ct.c\<close>, with \<^verbatim>\<open>ipa_mem_descriptor.c\<close>): its records and
  their interface, the hash of a rule, and the calls that add and delete tables and rules.

  The hardware executes the commands for its DMA; it is the argument \<open>hw\<close> of the definitions. What the
  kernel answers is an argument as well. A bit field is a word, or a bool for a single bit; reserved bits
  are left out.
\<close>

section \<open>Records and rules\<close>

abbreviation (input) EIO :: int where "EIO \<equiv> 5"
abbreviation (input) IPA_HW_v4_0 :: nat where "IPA_HW_v4_0 \<equiv> 14"
abbreviation (input) IPA_IPV6CT_MAX_TBLS :: nat where "IPA_IPV6CT_MAX_TBLS \<equiv> 1"
abbreviation (input) IPA_IPV6CT_RULE_FLAG_FIELD_OFFSET :: nat where "IPA_IPV6CT_RULE_FLAG_FIELD_OFFSET \<equiv> 34"
abbreviation (input) IPA_IPV6CT_RULE_NEXT_FIELD_OFFSET :: nat where "IPA_IPV6CT_RULE_NEXT_FIELD_OFFSET \<equiv> 40"
abbreviation (input) IPA_IPV6CT_RULE_PROTO_FIELD_OFFSET :: nat where "IPA_IPV6CT_RULE_PROTO_FIELD_OFFSET \<equiv> 38"
abbreviation (input) IPA_IPV6CT_INVALID_PROTO_FIELD_VALUE :: u16 where "IPA_IPV6CT_INVALID_PROTO_FIELD_VALUE \<equiv> 0xFF00"
abbreviation (input) IPA_IPV6CT_INVALID_PROTO_FIELD_CMP :: u8 where "IPA_IPV6CT_INVALID_PROTO_FIELD_CMP \<equiv> 0xFF"
abbreviation (input) IPA_IPV6CT_BASE_TBL :: nat where "IPA_IPV6CT_BASE_TBL \<equiv> 4"
abbreviation (input) IPA_IPV6CT_EXPN_TBL :: nat where "IPA_IPV6CT_EXPN_TBL \<equiv> 5"
abbreviation (input) IPA_MAX_DMA_ENTRIES_FOR_ADD :: nat where "IPA_MAX_DMA_ENTRIES_FOR_ADD \<equiv> 2"

record ipa_ipv6ct_rule =
  ru_src_ipv6_lsb :: u64
  ru_src_ipv6_msb :: u64
  ru_dest_ipv6_lsb :: u64
  ru_dest_ipv6_msb :: u64
  ru_direction_settings :: int
  ru_ucp :: bool
  ru_s :: bool
  ru_uc_activation_index :: u16
  ru_src_port :: u16
  ru_dest_port :: u16
  ru_protocol :: u8

record ipa_ipv6ct_hw_entry =
  en_src_ipv6_lsb :: u64
  en_src_ipv6_msb :: u64
  en_dest_ipv6_lsb :: u64
  en_dest_ipv6_msb :: u64
  en_uc_activation_index :: "13 word"
  en_s :: bool
  en_redirect :: bool
  en_enable :: bool
  en_time_stamp :: "24 word"
  en_protocol :: u8
  en_next_index :: u16
  en_dest_port :: u16
  en_src_port :: u16
  en_ucp :: bool
  en_out_allowed :: bool
  en_in_allowed :: bool
  en_prev_index :: u16

definition zero_hw_entry :: ipa_ipv6ct_hw_entry where
  "zero_hw_entry = \<lparr>en_src_ipv6_lsb = 0, en_src_ipv6_msb = 0, en_dest_ipv6_lsb = 0, en_dest_ipv6_msb = 0, en_uc_activation_index = 0,
     en_s = False, en_redirect = False, en_enable = False, en_time_stamp = 0, en_protocol = 0, en_next_index = 0, en_dest_port = 0,
     en_src_port = 0, en_ucp = False, en_out_allowed = False, en_in_allowed = False, en_prev_index = 0\<rparr>"

type_synonym ct_hw_table = "(ipa_ipv6ct_hw_entry, ipa_ipv6ct_rule, unit) ipa_table"

section \<open>The interface of the records\<close>

definition table_entry_is_valid :: "ipa_ipv6ct_hw_entry \<Rightarrow> bool" where
  "table_entry_is_valid e = en_enable e"

definition table_entry_get_next_index :: "ipa_ipv6ct_hw_entry \<Rightarrow> nat" where
  "table_entry_get_next_index e = unat (en_next_index e)"

definition table_entry_get_prev_index :: "ipa_ipv6ct_hw_entry \<Rightarrow> nat \<Rightarrow> unit list option \<Rightarrow> nat \<Rightarrow> nat" where
  "table_entry_get_prev_index e entry_index meta base_table_size = unat (en_prev_index e)"

definition table_entry_set_prev_index :: "ipa_ipv6ct_hw_entry \<Rightarrow> nat \<Rightarrow> nat \<Rightarrow> unit list option \<Rightarrow> nat \<Rightarrow> ipa_ipv6ct_hw_entry \<times> unit list option" where
  "table_entry_set_prev_index e entry_index prev_idx meta base_table_size = (e\<lparr>en_prev_index := of_nat prev_idx\<rparr>, meta)"

text \<open>The bits of the direction are set, never cleared.\<close>

definition table_entry_copy_from_user :: "ipa_ipv6ct_hw_entry \<Rightarrow> ipa_ipv6ct_rule \<Rightarrow> int \<times> ipa_ipv6ct_hw_entry" where
  "table_entry_copy_from_user e r =
     (let e1 = e\<lparr>en_src_ipv6_lsb := ru_src_ipv6_lsb r, en_src_ipv6_msb := ru_src_ipv6_msb r, en_dest_ipv6_lsb := ru_dest_ipv6_lsb r,
                 en_dest_ipv6_msb := ru_dest_ipv6_msb r, en_protocol := ru_protocol r, en_src_port := ru_src_port r, en_dest_port := ru_dest_port r,
                 en_ucp := ru_ucp r, en_uc_activation_index := ucast (ru_uc_activation_index r), en_s := ru_s r\<rparr>
      in if ru_direction_settings r = 0 then (0, e1)
         else if ru_direction_settings r = 1 then (0, e1\<lparr>en_out_allowed := True\<rparr>)
         else if ru_direction_settings r = 2 then (0, e1\<lparr>en_in_allowed := True\<rparr>)
         else if ru_direction_settings r = 3 then (0, e1\<lparr>en_out_allowed := True, en_in_allowed := True\<rparr>)
         else (- EINVAL, e1))"

text \<open>The enable bit is bit 15 of the flags.\<close>

definition table_entry_head_insert :: "ipa_ipv6ct_hw_entry \<Rightarrow> ipa_ipv6ct_rule \<Rightarrow> int \<times> ipa_ipv6ct_hw_entry \<times> u16" where
  "table_entry_head_insert e r =
     (case table_entry_copy_from_user e r of (ret, e1) \<Rightarrow> if ret \<noteq> 0 then (ret, e1, 0) else (0, e1, 0x8000))"

definition table_entry_tail_insert :: "ipa_ipv6ct_hw_entry \<Rightarrow> ipa_ipv6ct_rule \<Rightarrow> int \<times> ipa_ipv6ct_hw_entry" where
  "table_entry_tail_insert e r =
     (case table_entry_copy_from_user e r of (ret, e1) \<Rightarrow> if ret \<noteq> 0 then (ret, e1) else (0, e1\<lparr>en_enable := True\<rparr>))"

definition table_entry_get_delete_head_dma_command_data :: "ipa_ipv6ct_hw_entry \<Rightarrow> ipa_ipv6ct_hw_entry \<Rightarrow> u16" where
  "table_entry_get_delete_head_dma_command_data head next_e = IPA_IPV6CT_INVALID_PROTO_FIELD_VALUE"

definition ct_interface :: "(ipa_ipv6ct_hw_entry, ipa_ipv6ct_rule, unit) ipa_table_entry_interface" where
  "ct_interface = \<lparr>entry_is_valid = table_entry_is_valid, entry_get_next_index = table_entry_get_next_index,
     entry_get_prev_index = table_entry_get_prev_index, entry_set_prev_index = table_entry_set_prev_index,
     entry_head_insert = table_entry_head_insert, entry_tail_insert = table_entry_tail_insert,
     entry_get_delete_head_dma_command_data = table_entry_get_delete_head_dma_command_data\<rparr>"

section \<open>The hash of a rule\<close>

function xor_segments :: "u64 \<Rightarrow> u16 \<Rightarrow> u16" where
  "xor_segments num ret = (if num = 0 then ret else xor_segments (drop_bit 16 num) (ret XOR ucast (num AND 0xffff)))"
  by pat_completeness auto
termination
proof (relation "measure (\<lambda>(num, ret). unat num)")
  fix num :: u64 and ret :: u16
  assume "num \<noteq> 0"
  then have "0 < unat num" by (simp add: unat_gt_0)
  then have "unat (drop_bit 16 num) < unat num" by (simp add: unat_drop_bit_eq drop_bit_nat_def)
  then show "((drop_bit 16 num, ret XOR ucast (num AND 0xffff)), (num, ret)) \<in> measure (\<lambda>(num, ret). unat num)"
    by (simp only: in_measure split)
qed (simp only: wf_measure)

declare xor_segments.simps [simp del]

definition ipa_ipv6ct_xor_segments :: "u64 \<Rightarrow> u16" where
  "ipa_ipv6ct_xor_segments num = xor_segments num 0"

definition ipa_ipv6ct_hash :: "ipa_ipv6ct_rule \<Rightarrow> u16 \<Rightarrow> u16" where
  "ipa_ipv6ct_hash rule sz =
     (let hash = 0 XOR ipa_ipv6ct_xor_segments (ru_src_ipv6_lsb rule);
          hash = hash XOR ipa_ipv6ct_xor_segments (ru_src_ipv6_msb rule);
          hash = hash XOR ipa_ipv6ct_xor_segments (ru_dest_ipv6_lsb rule);
          hash = hash XOR ipa_ipv6ct_xor_segments (ru_dest_ipv6_msb rule);
          hash = hash XOR ru_src_port rule;
          hash = hash XOR ru_dest_port rule;
          hash = hash XOR ucast (ru_protocol rule);
          hash = hash AND sz
      in if hash = 0 then sz else hash)"

section \<open>Memory\<close>

text \<open>No memory of the hardware is used for these tables. The answers are return codes; that of the allocation comes with an offset.\<close>

record ipa_mem_descriptor =
  orig_rqst_size :: nat
  addr_offset :: nat
  md_table_index :: nat
  md_valid :: bool

definition zero_mem_desc :: ipa_mem_descriptor where
  "zero_mem_desc = \<lparr>orig_rqst_size = 0, addr_offset = 0, md_table_index = 0, md_valid = False\<rparr>"

definition ipa_mem_descriptor_init :: "nat \<Rightarrow> nat \<Rightarrow> ipa_mem_descriptor \<Rightarrow> ipa_mem_descriptor" where
  "ipa_mem_descriptor_init sz table_index d = d\<lparr>orig_rqst_size := sz, md_table_index := table_index\<rparr>"

definition AllocateMemory :: "int + nat \<Rightarrow> ipa_mem_descriptor \<Rightarrow> int \<times> ipa_mem_descriptor" where
  "AllocateMemory alloc d = (case alloc of Inl e \<Rightarrow> (e, d) | Inr off \<Rightarrow> (0, d\<lparr>addr_offset := off\<rparr>))"

definition ipa_mem_descriptor_allocate_memory :: "int + nat \<Rightarrow> int \<Rightarrow> ipa_mem_descriptor \<Rightarrow> int \<times> ipa_mem_descriptor" where
  "ipa_mem_descriptor_allocate_memory alloc map_ret d =
     (case AllocateMemory alloc d of
        (ret, d1) \<Rightarrow> if ret \<noteq> 0 then (ret, d1) else if map_ret \<noteq> 0 then (map_ret, d1) else (0, d1\<lparr>md_valid := True\<rparr>))"

definition ipa_mem_descriptor_delete :: "int \<Rightarrow> ipa_mem_descriptor \<Rightarrow> int \<times> ipa_mem_descriptor" where
  "ipa_mem_descriptor_delete dealloc d = (if \<not> md_valid d then (- EINVAL, d) else (dealloc, d\<lparr>md_valid := False\<rparr>))"

section \<open>The state of the library\<close>

record ipa_ipv6ct_table =
  mem_desc :: ipa_mem_descriptor
  ct_tbl :: ct_hw_table

text \<open>\<open>ipa_desc\<close>: the open device with the version of the hardware, or NULL, which is dereferenced by most calls.\<close>

record ipa_ipv6ct =
  ipa_desc :: "nat option"
  ct_tables :: "ipa_ipv6ct_table list"
  table_cnt :: nat
  ct_ub :: bool

definition no_help :: "dma_help_type \<Rightarrow> ipa_table_dma_cmd_helper" where
  "no_help t = \<lparr>h_offset = 0, h_table_type = 0, h_expn_table_type = 0, h_table_indx = 0\<rparr>"

definition zero_ct_table :: ipa_ipv6ct_table where
  "zero_ct_table = \<lparr>mem_desc = zero_mem_desc, ct_tbl = ipa_table_init 0 0 None ct_interface no_help zero_hw_entry\<rparr>"

section \<open>Tables\<close>

text \<open>The dimensions of a table as the kernel gets them.\<close>

record ipa_ioc_ipv6ct_init =
  ini_tbl_index :: nat
  ini_base_table_offset :: nat
  ini_expn_table_offset :: nat
  ini_table_entries :: nat
  ini_expn_table_entries :: nat

text \<open>The answers for the addition of a table: the device, the allocation, the mapping, its memory, the requests to set up and to free the table.\<close>

record add_tbl_env =
  at_open :: "nat option"
  at_alloc :: "int + nat"
  at_map :: int
  at_mem :: "ipa_ipv6ct_hw_entry list"
  at_init :: "ipa_ioc_ipv6ct_init \<Rightarrow> int"
  at_dealloc :: int

fun ipa_ipv6ct_create_table_dma_cmd_helpers :: "nat \<Rightarrow> ipa_mem_descriptor \<Rightarrow> dma_help_type \<Rightarrow> ipa_table_dma_cmd_helper" where
  "ipa_ipv6ct_create_table_dma_cmd_helpers table_indx d HELP_UPDATE_HEAD =
     ipa_table_dma_cmd_helper_init table_indx IPA_IPV6CT_BASE_TBL IPA_IPV6CT_EXPN_TBL (addr_offset d + IPA_IPV6CT_RULE_FLAG_FIELD_OFFSET)"
| "ipa_ipv6ct_create_table_dma_cmd_helpers table_indx d HELP_UPDATE_ENTRY =
     ipa_table_dma_cmd_helper_init table_indx IPA_IPV6CT_BASE_TBL IPA_IPV6CT_EXPN_TBL (addr_offset d + IPA_IPV6CT_RULE_NEXT_FIELD_OFFSET)"
| "ipa_ipv6ct_create_table_dma_cmd_helpers table_indx d HELP_DELETE_HEAD =
     ipa_table_dma_cmd_helper_init table_indx IPA_IPV6CT_BASE_TBL IPA_IPV6CT_EXPN_TBL (addr_offset d + IPA_IPV6CT_RULE_PROTO_FIELD_OFFSET)"

text \<open>A record of a table has 64 bytes.\<close>

definition ipa_ipv6ct_create_table :: "add_tbl_env \<Rightarrow> u16 \<Rightarrow> nat \<Rightarrow> ipa_ipv6ct_table \<Rightarrow> int \<times> ipa_ipv6ct_table" where
  "ipa_ipv6ct_create_table env number_of_entries table_index t =
     (case ipa_table_calculate_entries_num number_of_entries IPA_NAT_MEM_IN_DDR (ipa_table_init IPA_NAT_MEM_IN_DDR 64 None ct_interface no_help zero_hw_entry) of
        (ret, tbl) \<Rightarrow>
          if ret \<noteq> 0 then (ret, t\<lparr>ct_tbl := tbl\<rparr>)
          else
            case ipa_mem_descriptor_allocate_memory (at_alloc env) (at_map env)
                   (ipa_mem_descriptor_init (ipa_table_calculate_size tbl) table_index (mem_desc t)) of
              (ret, d) \<Rightarrow>
                if ret \<noteq> 0 then (ret, zero_ct_table)
                else
                  let tbl = ipa_table_reset (snd (ipa_table_calculate_addresses (at_mem env) tbl))
                  in (0, t\<lparr>mem_desc := d, ct_tbl := tbl\<lparr>dma_help := ipa_ipv6ct_create_table_dma_cmd_helpers table_index d\<rparr>\<rparr>))"

definition ipa_ipv6ct_destroy_table :: "int \<Rightarrow> ipa_ipv6ct_table \<Rightarrow> int \<times> ipa_ipv6ct_table" where
  "ipa_ipv6ct_destroy_table dealloc t = (fst (ipa_mem_descriptor_delete dealloc (mem_desc t)), zero_ct_table)"

definition ipa_ipv6ct_post_init_cmd :: "add_tbl_env \<Rightarrow> ipa_ipv6ct_table \<Rightarrow> nat \<Rightarrow> int" where
  "ipa_ipv6ct_post_init_cmd env t tbl_index =
     at_init env \<lparr>ini_tbl_index = tbl_index, ini_base_table_offset = addr_offset (mem_desc t),
       ini_expn_table_offset = addr_offset (mem_desc t) + table_entries (ct_tbl t) * 64,
       ini_table_entries = table_entries (ct_tbl t) - 1, ini_expn_table_entries = expn_table_entries (ct_tbl t)\<rparr>"

definition close_unused :: "ipa_ipv6ct \<Rightarrow> ipa_ipv6ct" where
  "close_unused st = (if table_cnt st = 0 then st\<lparr>ipa_desc := None\<rparr> else st)"

definition ipa_ipv6ct_add_tbl :: "add_tbl_env \<Rightarrow> u16 \<Rightarrow> bool \<Rightarrow> ipa_ipv6ct \<Rightarrow> int \<times> nat \<times> ipa_ipv6ct" where
  "ipa_ipv6ct_add_tbl env number_of_entries null_handle st =
     (if null_handle \<or> number_of_entries = 0 then (- EINVAL, 0, st)
      else if table_cnt st \<ge> IPA_IPV6CT_MAX_TBLS then (- EINVAL, 0, st)
      else
        let st1 = (if ipa_desc st = None then st\<lparr>ipa_desc := at_open env\<rparr> else st)
        in case ipa_desc st1 of
             None \<Rightarrow> (- EIO, 0, st1)
           | Some ver \<Rightarrow>
               if ver < IPA_HW_v4_0 then (- EPERM, 0, close_unused st1)
               else
                 let n = table_cnt st1
                 in case ipa_ipv6ct_create_table env number_of_entries n (ct_tables st1 ! n) of
                      (ret, t) \<Rightarrow>
                        if ret \<noteq> 0 then (ret, 0, close_unused (st1\<lparr>ct_tables := (ct_tables st1)[n := t]\<rparr>))
                        else if ipa_ipv6ct_post_init_cmd env t n \<noteq> 0 then
                          (ipa_ipv6ct_post_init_cmd env t n, 0, close_unused (st1\<lparr>ct_tables := (ct_tables st1)[n := snd (ipa_ipv6ct_destroy_table (at_dealloc env) t)]\<rparr>))
                        else (0, n + 1, st1\<lparr>ct_tables := (ct_tables st1)[n := t], table_cnt := n + 1\<rparr>))"

text \<open>The answers for the other calls: the mutex and the request to the kernel.\<close>

record ct_env =
  ct_lock :: int
  ct_unlock :: int
  ct_ioctl :: int

definition unlock_ret :: "ct_env \<Rightarrow> int \<Rightarrow> int" where
  "unlock_ret env ret = (if ct_unlock env \<noteq> 0 then (if ret \<noteq> 0 then ret else - EPERM) else ret)"

text \<open>The checks that open every call on a table: an error code, or None to go on.\<close>

definition ct_entry_checks :: "u32 \<Rightarrow> bool \<Rightarrow> ipa_ipv6ct \<Rightarrow> int option \<times> ipa_ipv6ct" where
  "ct_entry_checks table_handle bad st =
     (case ipa_desc st of
        None \<Rightarrow> (Some (- EINVAL), st\<lparr>ct_ub := True\<rparr>)
      | Some ver \<Rightarrow>
          if ver < IPA_HW_v4_0 then (Some (- EINVAL), st)
          else if table_handle = 0 \<or> unat table_handle > IPA_IPV6CT_MAX_TBLS \<or> bad then (Some (- EINVAL), st)
          else (None, st))"

definition ipa_ipv6ct_del_tbl :: "ct_env \<Rightarrow> u32 \<Rightarrow> ipa_ipv6ct \<Rightarrow> int \<times> ipa_ipv6ct" where
  "ipa_ipv6ct_del_tbl env table_handle st =
     (case ct_entry_checks table_handle False st of
        (Some ret, st1) \<Rightarrow> (ret, st1)
      | (None, st1) \<Rightarrow>
          if ct_lock env \<noteq> 0 then (- EINVAL, st1)
          else
            let n = unat table_handle - 1; t = ct_tables st1 ! n
            in if \<not> md_valid (mem_desc t) then (unlock_ret env (- EINVAL), st1)
               else case ipa_ipv6ct_destroy_table (ct_ioctl env) t of
                      (ret, t1) \<Rightarrow>
                        let st2 = st1\<lparr>ct_tables := (ct_tables st1)[n := t1]\<rparr>
                        in if ret \<noteq> 0 then (unlock_ret env ret, st2)
                           else (unlock_ret env 0, close_unused (st2\<lparr>table_cnt := table_cnt st2 - 1\<rparr>)))"

section \<open>Rules\<close>

text \<open>The hardware: the number of records of the base table, the commands, and the records before and after.\<close>

type_synonym ct_hardware = "nat \<Rightarrow> dma_cmd \<Rightarrow> ipa_ipv6ct_hw_entry list \<Rightarrow> ipa_ipv6ct_hw_entry list"

definition ipa_ipv6ct_post_dma_cmd :: "ct_hardware \<Rightarrow> int \<Rightarrow> dma_cmd \<Rightarrow> ct_hw_table \<Rightarrow> int \<times> ct_hw_table" where
  "ipa_ipv6ct_post_dma_cmd hw ioctl cmd t =
     (if ioctl \<noteq> 0 then (- EIO, t) else (0, t\<lparr>tbl_recs := hw (table_entries t) cmd (tbl_recs t)\<rparr>))"

definition set_ct_tbl :: "nat \<Rightarrow> ct_hw_table \<Rightarrow> ipa_ipv6ct \<Rightarrow> ipa_ipv6ct" where
  "set_ct_tbl n t st = st\<lparr>ct_tables := (ct_tables st)[n := (ct_tables st ! n)\<lparr>ct_tbl := t\<rparr>]\<rparr>"

text \<open>More commands than the buffer holds are undefined behaviour.\<close>

definition add_rule_section :: "ct_hardware \<Rightarrow> int \<Rightarrow> ipa_ipv6ct_rule \<Rightarrow> ct_hw_table \<Rightarrow> (int \<times> u16 \<times> ct_hw_table) option" where
  "add_rule_section hw ioctl rule t =
     (let new_entry_index = unat (ipa_ipv6ct_hash rule (of_nat (table_entries t - 1)))
      in Option.bind (ipa_table_add_entry rule new_entry_index [] t) (\<lambda>(ret, i, hdl, cmd, t1).
           if ret \<noteq> 0 then Some (ret, 0, t1)
           else
             case ipa_ipv6ct_post_dma_cmd hw ioctl cmd (t1\<lparr>tbl_ub := tbl_ub t1 \<or> length cmd > IPA_MAX_DMA_ENTRIES_FOR_ADD\<rparr>) of
               (ret, t2) \<Rightarrow> if ret \<noteq> 0 then Some (ret, 0, ipa_table_erase_entry i t2) else Some (0, hdl, t2)))"

text \<open>The result comes with the handle of the rule.\<close>

definition ipa_ipv6ct_add_rule :: "ct_hardware \<Rightarrow> ct_env \<Rightarrow> u32 \<Rightarrow> ipa_ipv6ct_rule option \<Rightarrow> bool \<Rightarrow> ipa_ipv6ct \<Rightarrow> (int \<times> u32 \<times> ipa_ipv6ct) option" where
  "ipa_ipv6ct_add_rule hw env table_handle user_rule null_handle st =
     (case ct_entry_checks table_handle (null_handle \<or> user_rule = None) st of
        (Some ret, st1) \<Rightarrow> Some (ret, 0, st1)
      | (None, st1) \<Rightarrow>
          (case user_rule of
             None \<Rightarrow> Some (- EINVAL, 0, st1)
           | Some rule \<Rightarrow>
               if ru_protocol rule = IPA_IPV6CT_INVALID_PROTO_FIELD_CMP then Some (- EINVAL, 0, st1)
               else if ct_lock env \<noteq> 0 then Some (- EINVAL, 0, st1)
               else
                 let n = unat table_handle - 1
                 in if \<not> md_valid (mem_desc (ct_tables st1 ! n)) then Some (- EINVAL, 0, st1)
                    else map_option (\<lambda>(ret, hdl, t).
                           if ret \<noteq> 0 then (ret, 0, set_ct_tbl n t st1)
                           else if ct_unlock env \<noteq> 0 then (- EPERM, 0, set_ct_tbl n t st1)
                           else (0, ucast hdl, set_ct_tbl n t st1))
                         (add_rule_section hw (ct_ioctl env) rule (ct_tbl (ct_tables st1 ! n)))))"

definition del_rule_section :: "ct_hardware \<Rightarrow> int \<Rightarrow> u32 \<Rightarrow> ct_hw_table \<Rightarrow> int \<times> ct_hw_table" where
  "del_rule_section hw ioctl rule_handle t =
     (case ipa_table_get_entry rule_handle t of
        (ret, i) \<Rightarrow>
          if ret \<noteq> 0 then (ret, t)
          else
            let t0 = tbl_check i t
            in case ipa_table_iterator_init i t0 of
                 (ret, it) \<Rightarrow>
                   if ret \<noteq> 0 then (ret, t0)
                   else
                     case ipa_ipv6ct_post_dma_cmd hw ioctl (ipa_table_create_delete_command [] it t0) t0 of
                       (ret, t1) \<Rightarrow>
                         if ret \<noteq> 0 then (ret, t1)
                         else if ipa_table_iterator_is_head_with_tail it then (0, t1)
                         else
                           let is_prev_empty = (case prev_entry it of None \<Rightarrow> False
                                 | Some p \<Rightarrow> en_protocol (GOTO_REC t1 p) = IPA_IPV6CT_INVALID_PROTO_FIELD_CMP)
                           in (0, ipa_table_delete_entry it is_prev_empty t1))"

definition ipa_ipv6ct_del_rule :: "ct_hardware \<Rightarrow> ct_env \<Rightarrow> u32 \<Rightarrow> u32 \<Rightarrow> ipa_ipv6ct \<Rightarrow> int \<times> ipa_ipv6ct" where
  "ipa_ipv6ct_del_rule hw env table_handle rule_handle st =
     (case ct_entry_checks table_handle (rule_handle = 0) st of
        (Some ret, st1) \<Rightarrow> (ret, st1)
      | (None, st1) \<Rightarrow>
          if ct_lock env \<noteq> 0 then (- EINVAL, st1)
          else
            let n = unat table_handle - 1
            in if \<not> md_valid (mem_desc (ct_tables st1 ! n)) then (unlock_ret env (- EINVAL), st1)
               else case del_rule_section hw (ct_ioctl env) rule_handle (ct_tbl (ct_tables st1 ! n)) of
                      (ret, t) \<Rightarrow> (unlock_ret env ret, set_ct_tbl n t st1))"

text \<open>The time stamp is that of the record that the handle names, whether or not it holds a rule.\<close>

definition ipa_ipv6ct_query_timestamp :: "ct_env \<Rightarrow> u32 \<Rightarrow> u32 \<Rightarrow> bool \<Rightarrow> ipa_ipv6ct \<Rightarrow> int \<times> u32 option \<times> ipa_ipv6ct" where
  "ipa_ipv6ct_query_timestamp env table_handle rule_handle null_stamp st =
     (case ct_entry_checks table_handle (rule_handle = 0 \<or> null_stamp) st of
        (Some ret, st1) \<Rightarrow> (ret, None, st1)
      | (None, st1) \<Rightarrow>
          if ct_lock env \<noteq> 0 then (- EINVAL, None, st1)
          else
            let t = ct_tables st1 ! (unat table_handle - 1)
            in if \<not> md_valid (mem_desc t) then (unlock_ret env (- EINVAL), None, st1)
               else case ipa_table_get_entry rule_handle (ct_tbl t) of
                      (ret, i) \<Rightarrow>
                        if ret \<noteq> 0 then (unlock_ret env ret, None, st1)
                        else (unlock_ret env 0, Some (ucast (en_time_stamp (GOTO_REC (ct_tbl t) i))), st1))"

section \<open>The hardware as documented\<close>

text \<open>
  The description of a command says: two bytes of data are written at an offset of the table that the
  base address selects. The fields that lie at the three offsets in use: the flags with the enable bit,
  the last byte of the time stamp with the protocol, the index of the next record.
\<close>

definition write_field :: "nat \<Rightarrow> u16 \<Rightarrow> ipa_ipv6ct_hw_entry \<Rightarrow> ipa_ipv6ct_hw_entry" where
  "write_field off data e =
     (if off = IPA_IPV6CT_RULE_FLAG_FIELD_OFFSET then e\<lparr>en_enable := bit data 15, en_redirect := bit data 14\<rparr>
      else if off = IPA_IPV6CT_RULE_PROTO_FIELD_OFFSET then
        e\<lparr>en_time_stamp := take_bit 16 (en_time_stamp e) OR push_bit 16 (ucast (data AND 0xFF)), en_protocol := ucast (drop_bit 8 data)\<rparr>
      else if off = IPA_IPV6CT_RULE_NEXT_FIELD_OFFSET then e\<lparr>en_next_index := data\<rparr>
      else e)"

definition dma_write :: "nat \<Rightarrow> ipa_ioc_nat_dma_one \<Rightarrow> ipa_ipv6ct_hw_entry list \<Rightarrow> ipa_ipv6ct_hw_entry list" where
  "dma_write base d recs =
     (let i = dma_offset d div 64 + (if dma_base_addr d = IPA_IPV6CT_EXPN_TBL then base else 0)
      in recs[i := write_field (dma_offset d mod 64) (dma_data d) (recs ! i)])"

definition documented_hardware :: "ct_hardware \<Rightarrow> bool" where
  "documented_hardware hw \<longleftrightarrow> (\<forall>base cmd recs. hw base cmd recs = fold (dma_write base) cmd recs)"

end
