(* ===== verification/Ct_Chain.thy ===== *)
theory Ct_Chain
  imports Ct_Rules
begin

text \<open>
  The chains of a table: from an enabled record of the base table the next indices lead through records of
  the expansion table, and the previous indices lead back. The section on operations says what the commands
  and the processor do to the records, each as an update of one chain.
\<close>

section \<open>Segments\<close>

text \<open>\<open>seg recs p xs q\<close>: the records \<open>xs\<close> are linked in this order, behind \<open>p\<close> and before \<open>q\<close>.\<close>

definition first_of :: "nat list \<Rightarrow> nat \<Rightarrow> nat" where
  "first_of xs q = (case xs of [] \<Rightarrow> q | x # _ \<Rightarrow> x)"

definition last_of :: "nat \<Rightarrow> nat list \<Rightarrow> nat" where
  "last_of p xs = (if xs = [] then p else last xs)"

lemma first_of_simps [simp]: "first_of [] q = q" "first_of (x # xs) q = x"
  by (simp_all add: first_of_def)

lemma last_of_simps [simp]: "last_of p [] = p" "last_of p (x # xs) = last_of x xs" "last_of p (xs @ [x]) = x"
  by (simp_all add: last_of_def)

lemma last_of_append [simp]: "last_of p (xs @ ys) = last_of (last_of p xs) ys"
  by (simp add: last_of_def)

lemma first_of_append [simp]: "first_of (xs @ ys) q = first_of xs (first_of ys q)"
  by (simp add: first_of_def split: list.split)

lemma last_of_in: "xs \<noteq> [] \<Longrightarrow> last_of p xs \<in> set xs"
  by (simp add: last_of_def)

fun seg :: "ipa_ipv6ct_hw_entry list \<Rightarrow> nat \<Rightarrow> nat list \<Rightarrow> nat \<Rightarrow> bool" where
  "seg recs p [] q \<longleftrightarrow> True"
| "seg recs p (i # is) q \<longleftrightarrow> i < length recs \<and> en_enable (recs ! i) \<and> en_prev_index (recs ! i) = of_nat p
     \<and> en_next_index (recs ! i) = of_nat (first_of is q) \<and> seg recs i is q"

lemma seg_append: "seg recs p (xs @ ys) q \<longleftrightarrow> seg recs p xs (first_of ys q) \<and> seg recs (last_of p xs) ys q"
  by (induction xs arbitrary: p) auto

lemma seg_in: "seg recs p xs q \<Longrightarrow> i \<in> set xs \<Longrightarrow> i < length recs \<and> en_enable (recs ! i)"
  by (induction xs arbitrary: p) auto

lemma seg_cong:
  assumes "seg recs p xs q" "length recs' = length recs" "\<And>i. i \<in> set xs \<Longrightarrow> recs' ! i = recs ! i"
  shows "seg recs' p xs q"
  using assms by (induction xs arbitrary: p) auto

lemma nth_upd: "j < length xs \<Longrightarrow> xs[i := e] ! j = (if i = j then e else xs ! j)"
  by simp

lemma seg_update: "seg recs p xs q \<Longrightarrow> i \<notin> set xs \<Longrightarrow> seg (recs[i := e]) p xs q"
  by (erule seg_cong) (auto intro!: nth_list_update_neq)

text \<open>An update that keeps the links of a record.\<close>

lemma seg_keep:
  assumes "seg recs p xs q" "en_enable e" "en_prev_index e = en_prev_index (recs ! i)" "en_next_index e = en_next_index (recs ! i)"
  shows "seg (recs[i := e]) p xs q"
  using assms by (induction xs arbitrary: p) (auto simp: nth_upd simp del: nth_list_update)

text \<open>The end of a segment is redirected by the next index of its last record, its begin by the previous index of the first.\<close>

lemma seg_end:
  assumes "seg recs p (xs @ [l]) q" "l \<notin> set xs"
  shows "seg (recs[l := (recs ! l)\<lparr>en_next_index := of_nat q'\<rparr>]) p (xs @ [l]) q'"
proof -
  have "seg (recs[l := (recs ! l)\<lparr>en_next_index := of_nat q'\<rparr>]) p xs l"
    using assms by (intro seg_update) (auto simp: seg_append)
  then show ?thesis using assms by (auto simp: seg_append)
qed

lemma seg_begin:
  assumes "seg recs p (x # xs) q" "x \<notin> set xs"
  shows "seg (recs[x := (recs ! x)\<lparr>en_prev_index := of_nat p'\<rparr>]) p' (x # xs) q"
  using assms by (auto intro: seg_update)

section \<open>Tables\<close>

text \<open>The rule that a record holds. The processor keeps 13 bits of an activation index.\<close>

definition rule_of :: "ipa_ipv6ct_hw_entry \<Rightarrow> ipa_ipv6ct_rule" where
  "rule_of e = \<lparr>ru_src_ipv6_lsb = en_src_ipv6_lsb e, ru_src_ipv6_msb = en_src_ipv6_msb e, ru_dest_ipv6_lsb = en_dest_ipv6_lsb e,
     ru_dest_ipv6_msb = en_dest_ipv6_msb e, ru_direction_settings = (if en_out_allowed e then 1 else 0) + (if en_in_allowed e then 2 else 0),
     ru_ucp = en_ucp e, ru_s = en_s e, ru_uc_activation_index = ucast (en_uc_activation_index e),
     ru_src_port = en_src_port e, ru_dest_port = en_dest_port e, ru_protocol = en_protocol e\<rparr>"

definition stored_rule :: "ipa_ipv6ct_rule \<Rightarrow> ipa_ipv6ct_rule" where
  "stored_rule r = r\<lparr>ru_uc_activation_index := take_bit 13 (ru_uc_activation_index r)\<rparr>"

text \<open>A record is free, dead (its rule was deleted but others follow), or live.\<close>

definition free_rec :: "ipa_ipv6ct_hw_entry \<Rightarrow> bool" where
  "free_rec e \<longleftrightarrow> \<not> en_enable e \<and> en_next_index e = 0 \<and> en_prev_index e = 0 \<and> \<not> en_out_allowed e \<and> \<not> en_in_allowed e"

definition live_rec :: "ipa_ipv6ct_hw_entry \<Rightarrow> bool" where
  "live_rec e \<longleftrightarrow> en_enable e \<and> en_protocol e \<noteq> IPA_IPV6CT_INVALID_PROTO_FIELD_CMP"

definition dead_rec :: "ipa_ipv6ct_hw_entry \<Rightarrow> bool" where
  "dead_rec e \<longleftrightarrow> en_enable e \<and> en_protocol e = IPA_IPV6CT_INVALID_PROTO_FIELD_CMP"

definition bucket :: "nat \<Rightarrow> ipa_ipv6ct_rule \<Rightarrow> nat" where
  "bucket base r = unat (ipa_ipv6ct_hash r (of_nat (base - 1)))"

text \<open>\<open>C b\<close> are the records of the expansion table behind the record \<open>b\<close> of the base table.\<close>

definition chained :: "nat \<Rightarrow> ipa_ipv6ct_hw_entry list \<Rightarrow> (nat \<Rightarrow> nat list) \<Rightarrow> bool" where
  "chained base recs C \<longleftrightarrow>
     \<not> en_enable (recs ! 0) \<and>
     (\<forall>b<base. \<not> en_enable (recs ! b) \<longrightarrow> C b = []) \<and>
     (\<forall>b<base. en_enable (recs ! b) \<longrightarrow> seg recs 0 (b # C b) 0) \<and>
     (\<forall>b<base. set (C b) \<subseteq> {base..<length recs} \<and> distinct (C b)) \<and>
     (\<forall>b<base. \<forall>c<base. b \<noteq> c \<longrightarrow> set (C b) \<inter> set (C c) = {}) \<and>
     (\<forall>i. base \<le> i \<and> i < length recs \<and> en_enable (recs ! i) \<longrightarrow> (\<exists>b<base. i \<in> set (C b))) \<and>
     (\<forall>i<length recs. \<not> en_enable (recs ! i) \<longrightarrow> free_rec (recs ! i)) \<and>
     (\<forall>i<length recs. dead_rec (recs ! i) \<longrightarrow> i < base \<and> C i \<noteq> []) \<and>
     (\<forall>b<base. \<forall>i\<in>set (b # C b). live_rec (recs ! i) \<longrightarrow> bucket base (rule_of (recs ! i)) = b)"


text \<open>The parts of the invariant, and its use at one record.\<close>

lemma chainedI:
  assumes "\<not> en_enable (recs ! 0)"
    and "\<And>b. b < base \<Longrightarrow> \<not> en_enable (recs ! b) \<Longrightarrow> C b = []"
    and "\<And>b. b < base \<Longrightarrow> en_enable (recs ! b) \<Longrightarrow> seg recs 0 (b # C b) 0"
    and "\<And>b. b < base \<Longrightarrow> set (C b) \<subseteq> {base..<length recs}"
    and "\<And>b. b < base \<Longrightarrow> distinct (C b)"
    and "\<And>b c. b < base \<Longrightarrow> c < base \<Longrightarrow> b \<noteq> c \<Longrightarrow> set (C b) \<inter> set (C c) = {}"
    and "\<And>i. base \<le> i \<Longrightarrow> i < length recs \<Longrightarrow> en_enable (recs ! i) \<Longrightarrow> \<exists>b<base. i \<in> set (C b)"
    and "\<And>i. i < length recs \<Longrightarrow> \<not> en_enable (recs ! i) \<Longrightarrow> free_rec (recs ! i)"
    and "\<And>i. i < length recs \<Longrightarrow> dead_rec (recs ! i) \<Longrightarrow> i < base \<and> C i \<noteq> []"
    and "\<And>b i. b < base \<Longrightarrow> i \<in> set (b # C b) \<Longrightarrow> live_rec (recs ! i) \<Longrightarrow> bucket base (rule_of (recs ! i)) = b"
  shows "chained base recs C"
  unfolding chained_def by (intro conjI allI impI ballI; (elim conjE)?; (rule assms assms(9) [THEN conjunct1] assms(9) [THEN conjunct2]; assumption))

lemma chainedD:
  assumes "chained base recs C"
  shows chained_zero: "\<not> en_enable (recs ! 0)"
    and chained_empty: "b < base \<Longrightarrow> \<not> en_enable (recs ! b) \<Longrightarrow> C b = []"
    and chained_seg: "b < base \<Longrightarrow> en_enable (recs ! b) \<Longrightarrow> seg recs 0 (b # C b) 0"
    and chained_range: "b < base \<Longrightarrow> set (C b) \<subseteq> {base..<length recs}"
    and chained_distinct: "b < base \<Longrightarrow> distinct (C b)"
    and chained_disjoint: "b < base \<Longrightarrow> c < base \<Longrightarrow> b \<noteq> c \<Longrightarrow> set (C b) \<inter> set (C c) = {}"
    and chained_cover: "base \<le> i \<Longrightarrow> i < length recs \<Longrightarrow> en_enable (recs ! i) \<Longrightarrow> \<exists>b<base. i \<in> set (C b)"
    and chained_free: "i < length recs \<Longrightarrow> \<not> en_enable (recs ! i) \<Longrightarrow> free_rec (recs ! i)"
    and chained_dead: "i < length recs \<Longrightarrow> dead_rec (recs ! i) \<Longrightarrow> i < base \<and> C i \<noteq> []"
    and chained_bucket: "b < base \<Longrightarrow> i \<in> set (b # C b) \<Longrightarrow> live_rec (recs ! i) \<Longrightarrow> bucket base (rule_of (recs ! i)) = b"
proof -
  note c = assms [unfolded chained_def]
  show "\<not> en_enable (recs ! 0)" by (rule c [THEN conjunct1])
  note c = c [THEN conjunct2]
  show "b < base \<Longrightarrow> \<not> en_enable (recs ! b) \<Longrightarrow> C b = []" using c [THEN conjunct1] by blast
  note c = c [THEN conjunct2]
  show "b < base \<Longrightarrow> en_enable (recs ! b) \<Longrightarrow> seg recs 0 (b # C b) 0" using c [THEN conjunct1] by blast
  note c = c [THEN conjunct2]
  show "b < base \<Longrightarrow> set (C b) \<subseteq> {base..<length recs}" "b < base \<Longrightarrow> distinct (C b)" using c [THEN conjunct1] by blast+
  note c = c [THEN conjunct2]
  show "b < base \<Longrightarrow> c < base \<Longrightarrow> b \<noteq> c \<Longrightarrow> set (C b) \<inter> set (C c) = {}" using c [THEN conjunct1] by blast
  note c = c [THEN conjunct2]
  show "base \<le> i \<Longrightarrow> i < length recs \<Longrightarrow> en_enable (recs ! i) \<Longrightarrow> \<exists>b<base. i \<in> set (C b)" using c [THEN conjunct1] by blast
  note c = c [THEN conjunct2]
  show "i < length recs \<Longrightarrow> \<not> en_enable (recs ! i) \<Longrightarrow> free_rec (recs ! i)" using c [THEN conjunct1] by blast
  note c = c [THEN conjunct2]
  show "i < length recs \<Longrightarrow> dead_rec (recs ! i) \<Longrightarrow> i < base \<and> C i \<noteq> []" using c [THEN conjunct1] by blast
  note c = c [THEN conjunct2]
  show "b < base \<Longrightarrow> i \<in> set (b # C b) \<Longrightarrow> live_rec (recs ! i) \<Longrightarrow> bucket base (rule_of (recs ! i)) = b" using c by blast
qed

text \<open>The records of a chain of several records are all enabled.\<close>

lemma chain_enabled: "chained base recs C \<Longrightarrow> b < base \<Longrightarrow> i \<in> set (C b) \<Longrightarrow> en_enable (recs ! b) \<and> i < length recs \<and> en_enable (recs ! i) \<and> base \<le> i"
  using chained_empty [of base recs C b] chained_seg [of base recs C b] chained_range [of base recs C b] seg_in [of recs b "C b" 0 i] by fastforce

section \<open>Updates\<close>

text \<open>A free record may hold what was written by a call that failed.\<close>

lemma chain_junk:
  assumes ch: "chained base recs C" and i: "\<not> en_enable (recs ! i)" and e: "free_rec e"
  shows "chained base (recs[i := e]) C"
proof (cases "i < length recs")
  case True
  have out: "i \<notin> set (b # C b)" if "b < base" "en_enable (recs ! b)" for b
    using seg_in [OF chained_seg [OF ch that]] i by blast
  have en: "en_enable (recs[i := e] ! j) = en_enable (recs ! j)" for j
    using True i e by (cases "i = j") (auto simp: free_rec_def)
  have out': "i \<notin> set (C b)" if "b < base" for b
    using chained_empty [OF ch that] out [OF that] by (cases "en_enable (recs ! b)") auto
  show ?thesis
  proof (rule chainedI, unfold en)
    show "seg (recs[i := e]) 0 (b # C b) 0" if "b < base" "en_enable (recs ! b)" for b
      by (rule seg_update [OF chained_seg [OF ch that] out [OF that]])
    show "free_rec (recs[i := e] ! j)" if "j < length (recs[i := e])" "\<not> en_enable (recs ! j)" for j
      using that e chained_free [OF ch, of j] by (cases "i = j") auto
    show "j < base \<and> C j \<noteq> []" if "j < length (recs[i := e])" "dead_rec (recs[i := e] ! j)" for j
      using that e chained_dead [OF ch, of j] by (cases "i = j") (auto simp: dead_rec_def free_rec_def)
    show "bucket base (rule_of (recs[i := e] ! j)) = b" if "b < base" "j \<in> set (b # C b)" "live_rec (recs[i := e] ! j)" for b j
      using that e True chained_bucket [OF ch, of b j] by (cases "i = j") (auto simp: live_rec_def free_rec_def)
  qed (use chainedD [OF ch] in auto)
qed (use ch in \<open>simp add: list_update_beyond\<close>)


text \<open>A change of one chain: its records and those that were free may change, all others stay.\<close>

lemma chain_change:
  assumes ch: "chained base recs C" and b: "0 < b" "b < base" "base \<le> length recs" and len: "length recs' = length recs"
    and D: "set D \<subseteq> set (C b) \<union> {j. base \<le> j \<and> j < length recs \<and> \<not> en_enable (recs ! j)}" "distinct D"
    and frame: "\<And>j. j \<noteq> b \<Longrightarrow> j \<notin> set (C b) \<Longrightarrow> j \<notin> set D \<Longrightarrow> recs' ! j = recs ! j"
    and empty: "\<not> en_enable (recs' ! b) \<Longrightarrow> D = []"
    and seg: "en_enable (recs' ! b) \<Longrightarrow> seg recs' 0 (b # D) 0"
    and gone: "\<And>j. j \<in> set (C b) \<Longrightarrow> j \<notin> set D \<Longrightarrow> free_rec (recs' ! j)"
    and free: "\<not> en_enable (recs' ! b) \<Longrightarrow> free_rec (recs' ! b)"
    and dead: "dead_rec (recs' ! b) \<Longrightarrow> D \<noteq> []" "\<And>j. j \<in> set D \<Longrightarrow> \<not> dead_rec (recs' ! j)"
    and bucket: "\<And>j. j \<in> set (b # D) \<Longrightarrow> live_rec (recs' ! j) \<Longrightarrow> bucket base (rule_of (recs' ! j)) = b"
  shows "chained base recs' (C(b := D))"
proof -
  have rng: "set D \<subseteq> {base..<length recs}" using D(1) chained_range [OF ch b(2)] by auto
  have D_en: "en_enable (recs' ! j)" if "j \<in> set D" for j
  proof -
    have "en_enable (recs' ! b)" using empty that by (cases "en_enable (recs' ! b)") auto
    with seg_in [OF seg] that show ?thesis by auto
  qed
  have other: "recs' ! j = recs ! j" if "c < base" "c \<noteq> b" "j \<in> set (c # C c)" for c j
  proof (rule frame)
    show "j \<noteq> b" using that chained_range [OF ch that(1)] b by auto
    have jC: "j \<in> set (C c) \<or> j < base" using that by auto
    show n: "j \<notin> set (C b)" using chained_range [OF ch b(2)] chained_disjoint [OF ch that(1) b(2) that(2)] jC by auto
    show "j \<notin> set D" using D(1) n jC rng chain_enabled [OF ch that(1)] by auto
  qed
  have split: "j \<in> set D \<or> j = b \<or> j \<in> set (C b) \<and> j \<notin> set D \<or> (j \<noteq> b \<and> j \<notin> set (C b) \<and> j \<notin> set D \<and> recs' ! j = recs ! j)" for j
    using frame by blast
  show ?thesis
  proof (rule chainedI)
    show "\<not> en_enable (recs' ! 0)" using other [of 0 0] b chained_zero [OF ch] by simp
    show "(C(b := D)) c = []" if "c < base" "\<not> en_enable (recs' ! c)" for c
      using that empty other [of c c] chained_empty [OF ch, of c] by (cases "c = b") auto
    show "seg recs' 0 (c # (C(b := D)) c) 0" if "c < base" "en_enable (recs' ! c)" for c
    proof (cases "c = b")
      case False
      have "seg recs 0 (c # C c) 0" using that other [of c c] chained_seg [OF ch] False by simp
      then have "seg recs' 0 (c # C c) 0" by (rule seg_cong) (use other [OF that(1) False] len in auto)
      then show ?thesis using False by simp
    qed (use seg that in simp)
    show "set ((C(b := D)) c) \<subseteq> {base..<length recs'}" if "c < base" for c
      using rng len chained_range [OF ch that] by (cases "c = b") auto
    show "distinct ((C(b := D)) c)" if "c < base" for c using D chained_distinct [OF ch that] by (cases "c = b") auto
    have disj: "set D \<inter> set (C c) = {}" if "c < base" "c \<noteq> b" for c
      using D(1) chained_disjoint [OF ch b(2) that(1)] that chain_enabled [OF ch that(1)] by fastforce
    show "set ((C(b := D)) c) \<inter> set ((C(b := D)) d) = {}" if "c < base" "d < base" "c \<noteq> d" for c d
      using that disj chained_disjoint [OF ch that(1,2,3)] by (cases "c = b"; cases "d = b") (simp_all add: Int_commute)
    show "\<exists>c<base. j \<in> set ((C(b := D)) c)" if "base \<le> j" "j < length recs'" "en_enable (recs' ! j)" for j
      using split [of j]
    proof (elim disjE conjE)
      assume j: "j \<noteq> b" "j \<notin> set (C b)" "j \<notin> set D" "recs' ! j = recs ! j"
      then have "\<exists>c<base. j \<in> set (C c)" using chained_cover [OF ch, of j] that len by simp
      then obtain c where "c < base" "j \<in> set (C c)" by blast
      with j show ?thesis by (intro exI [of _ c]) auto
    qed (use that b gone in \<open>auto simp: free_rec_def\<close>)
    show "free_rec (recs' ! j)" if "j < length recs'" "\<not> en_enable (recs' ! j)" for j
      using split [of j] free gone D_en that len chained_free [OF ch, of j] by auto
    show "j < base \<and> (C(b := D)) j \<noteq> []" if "j < length recs'" "dead_rec (recs' ! j)" for j
      using split [of j]
    proof (elim disjE conjE)
      show ?thesis if "j \<in> set (C b)" "j \<notin> set D" using gone [OF that] \<open>dead_rec (recs' ! j)\<close> by (simp add: free_rec_def dead_rec_def)
    qed (use that dead b len chained_dead [OF ch, of j] in auto)
    show "bucket base (rule_of (recs' ! j)) = c" if "c < base" "j \<in> set (c # (C(b := D)) c)" "live_rec (recs' ! j)" for c j
      using that bucket other [of c j] chained_bucket [OF ch, of c j] by (cases "c = b") auto
  qed
qed


text \<open>A new record in a free slot of the base table, and its removal when nothing follows.\<close>

lemma chain_head:
  assumes ch: "chained base recs C" and b: "0 < b" "b < base" "base \<le> length recs" "\<not> en_enable (recs ! b)"
    and e: "live_rec e" "en_prev_index e = 0" "en_next_index e = 0" "bucket base (rule_of e) = b"
  shows "chained base (recs[b := e]) C"
proof -
  have "C b = []" using chained_empty [OF ch] b by simp
  then have "C(b := []) = C" by (simp add: fun_upd_idem)
  moreover have "chained base (recs[b := e]) (C(b := []))"
    by (rule chain_change [OF ch b(1-3)]) (use e b \<open>C b = []\<close> in \<open>auto simp: live_rec_def dead_rec_def\<close>)
  ultimately show ?thesis by simp
qed

lemma chain_free:
  assumes ch: "chained base recs C" and b: "0 < b" "b < base" "base \<le> length recs" "C b = []" and e: "free_rec e"
  shows "chained base (recs[b := e]) C"
proof -
  have "C(b := []) = C" using b by (simp add: fun_upd_idem)
  moreover have "chained base (recs[b := e]) (C(b := []))"
    by (rule chain_change [OF ch b(1-3)]) (use e b in \<open>auto simp: live_rec_def dead_rec_def free_rec_def\<close>)
  ultimately show ?thesis by simp
qed

text \<open>The protocol of the first record of a chain is made invalid.\<close>

lemma chain_kill:
  assumes ch: "chained base recs C" and b: "0 < b" "b < base" "base \<le> length recs" "C b \<noteq> []"
    and e: "dead_rec e" "en_prev_index e = en_prev_index (recs ! b)" "en_next_index e = en_next_index (recs ! b)"
  shows "chained base (recs[b := e]) C"
proof -
  have n: "b \<notin> set (C b)" using chained_range [OF ch b(2)] b by auto
  have en: "en_enable (recs ! b)" using chained_empty [OF ch b(2)] b by blast
  have "chained base (recs[b := e]) (C(b := C b))"
  proof (rule chain_change [OF ch b(1-3)])
    show "seg (recs[b := e]) 0 (b # C b) 0" by (rule seg_keep [OF chained_seg [OF ch b(2) en] _ e(2,3)]) (use e in \<open>simp add: dead_rec_def\<close>)
    show "\<not> dead_rec (recs[b := e] ! j)" if "j \<in> set (C b)" for j
      using that n chained_dead [OF ch, of j] chained_range [OF ch b(2)] by (cases "b = j") auto
    show "bucket base (rule_of (recs[b := e] ! j)) = b" if "j \<in> set (b # C b)" "live_rec (recs[b := e] ! j)" for j
      using that n chained_bucket [OF ch b(2), of j] e b by (cases "b = j") (auto simp: live_rec_def dead_rec_def)
  qed (use e b chained_distinct [OF ch b(2)] in \<open>auto simp: dead_rec_def\<close>)
  then show ?thesis by simp
qed

text \<open>A new record behind the last one of a chain.\<close>

lemma chain_append:
  assumes ch: "chained base recs C" and b: "0 < b" "b < base" "base \<le> length recs" "en_enable (recs ! b)"
    and i: "base \<le> i" "i < length recs" "\<not> en_enable (recs ! i)"
    and e: "live_rec e" "en_prev_index e = of_nat (last_of b (C b))" "en_next_index e = 0" "bucket base (rule_of e) = b"
  defines "l \<equiv> last_of b (C b)"
  shows "chained base (recs[i := e, l := (recs ! l)\<lparr>en_next_index := of_nat i\<rparr>]) (C(b := C b @ [i]))"
    (is "chained base ?recs _")
proof -
  have "butlast (b # C b) @ [l] = b # C b" using append_butlast_last_id [of "b # C b"] by (simp add: l_def last_of_def)
  then obtain xs where xs: "b # C b = xs @ [l]" by metis
  have mem: "en_enable (recs ! j) \<and> j < length recs" if "j \<in> set (b # C b)" for j
    using seg_in [OF chained_seg [OF ch b(2,4)] that] by simp
  have n: "b \<notin> set (C b)" "i \<notin> set (b # C b)" using chained_range [OF ch b(2)] b i mem by auto
  have l: "l \<in> set (b # C b)" "l \<noteq> i" "l < length recs" using xs n mem by auto
  have dist: "distinct (xs @ [l])" unfolding xs [symmetric] using n chained_distinct [OF ch b(2)] by simp
  have nth: "?recs ! j = (if j = l then (recs ! l)\<lparr>en_next_index := of_nat i\<rparr> else if j = i then e else recs ! j)" if "j < length recs" for j
    using that l by (simp add: nth_upd)
  have lsame: "dead_rec (r\<lparr>en_next_index := w\<rparr>) = dead_rec r" "live_rec (r\<lparr>en_next_index := w\<rparr>) = live_rec r" "rule_of (r\<lparr>en_next_index := w\<rparr>) = rule_of r" for r w
    by (simp_all add: dead_rec_def live_rec_def rule_of_def)
  show ?thesis
  proof (rule chain_change [OF ch b(1-3)])
    show "seg ?recs 0 (b # C b @ [i]) 0"
    proof -
      have "seg (recs[i := e]) 0 (xs @ [l]) 0" using chained_seg [OF ch b(2,4)] n xs by (intro seg_update) auto
      then have "seg ?recs 0 (xs @ [l]) i" using seg_end [of "recs[i := e]" 0 xs l 0 i] dist l by simp
      moreover have "seg ?recs l [i] 0" using nth [OF i(2)] l e i by (simp add: live_rec_def l_def)
      ultimately show ?thesis using xs seg_append [of ?recs 0 "xs @ [l]" "[i]" 0] by (metis append_Cons first_of_simps(2) last_of_simps(3))
    qed
    show "\<not> dead_rec (?recs ! j)" if "j \<in> set (C b @ [i])" for j
    proof -
      have "j = i \<or> j < length recs \<and> \<not> dead_rec (recs ! j)" using that chained_dead [OF ch, of j] chained_range [OF ch b(2)] by auto
      moreover have "\<not> dead_rec e" using e by (simp add: live_rec_def dead_rec_def)
      moreover have "dead_rec (?recs ! j) = (if j = i then dead_rec e else dead_rec (recs ! j))" if "j < length recs" for j
        unfolding nth [OF that] using l(2) lsame(1) by (cases "j = l") auto
      ultimately show ?thesis using i(2) by metis
    qed
    show "bucket base (rule_of (?recs ! j)) = b" if "j \<in> set (b # C b @ [i])" "live_rec (?recs ! j)" for j
    proof (cases "j = i")
      case False
      with that have j: "j \<in> set (b # C b)" by auto
      then show ?thesis using that nth [of j] mem [OF j] False lsame chained_bucket [OF ch b(2) j] by (auto split: if_splits)
    qed (use nth [OF i(2)] l e in simp)
    show "?recs ! j = recs ! j" if "j \<noteq> b" "j \<notin> set (C b)" "j \<notin> set (C b @ [i])" for j
    proof -
      have "j \<noteq> l" "j \<noteq> i" using that l(1) by auto
      then show ?thesis by simp
    qed
    have bl: "b < length recs" using mem by simp
    have "en_enable (?recs ! b)" unfolding nth [OF bl] using mem n by auto
    then show "\<not> en_enable (?recs ! b) \<Longrightarrow> C b @ [i] = []" "\<not> en_enable (?recs ! b) \<Longrightarrow> free_rec (?recs ! b)" by simp_all
  qed (use i n chained_distinct [OF ch b(2)] in auto)
qed


text \<open>A record is taken out of a chain.\<close>

definition rec_data :: "ipa_ipv6ct_hw_entry \<Rightarrow> bool \<times> u8 \<times> ipa_ipv6ct_rule" where
  "rec_data e = (en_enable e, en_protocol e, rule_of e)"

lemma rec_data_links [simp]: "rec_data (e\<lparr>en_next_index := w\<rparr>) = rec_data e" "rec_data (e\<lparr>en_prev_index := w\<rparr>) = rec_data e"
  by (simp_all add: rec_data_def rule_of_def)

lemma rec_data_same:
  assumes "rec_data e = rec_data e'"
  shows "en_enable e = en_enable e'" "dead_rec e = dead_rec e'" "live_rec e = live_rec e'" "rule_of e = rule_of e'"
  using assms by (simp_all add: rec_data_def dead_rec_def live_rec_def)

definition unlinked :: "nat \<Rightarrow> nat list \<Rightarrow> nat \<Rightarrow> nat list \<Rightarrow> ipa_ipv6ct_hw_entry list \<Rightarrow> ipa_ipv6ct_hw_entry list" where
  "unlinked b xs i zs recs =
     (let p = last_of b xs; n = first_of zs 0;
          recs1 = recs[p := (recs ! p)\<lparr>en_next_index := of_nat n\<rparr>]
      in if zs = [] then recs1 else recs1[n := (recs1 ! n)\<lparr>en_prev_index := of_nat p\<rparr>])"

lemma unlinked_length [simp]: "length (unlinked b xs i zs recs) = length recs"
  by (simp add: unlinked_def Let_def)

lemma unlinked_data: "j < length recs \<Longrightarrow> rec_data (unlinked b xs i zs recs ! j) = rec_data (recs ! j)"
  by (simp add: unlinked_def Let_def nth_upd del: nth_list_update)

lemma unlinked_frame: "j \<noteq> b \<Longrightarrow> j \<notin> set xs \<Longrightarrow> j \<notin> set zs \<Longrightarrow> unlinked b xs i zs recs ! j = recs ! j"
proof -
  assume j: "j \<noteq> b" "j \<notin> set xs" "j \<notin> set zs"
  then have "j \<noteq> last_of b xs" "zs \<noteq> [] \<Longrightarrow> j \<noteq> first_of zs 0" using last_of_in [of xs b] by (auto simp: last_of_def neq_Nil_conv)
  then show ?thesis by (cases "zs = []") (simp_all add: unlinked_def Let_def)
qed

lemma unlinked_seg:
  assumes "seg recs 0 (b # xs @ i # zs) 0" "distinct (b # xs @ i # zs)"
  shows "seg (unlinked b xs i zs recs) 0 (b # xs @ zs) 0"
proof -
  define p where "p = last_of b xs"
  define n where "n = first_of zs 0"
  define recs1 where "recs1 = recs[p := (recs ! p)\<lparr>en_next_index := of_nat n\<rparr>]"
  have "butlast (b # xs) @ [p] = b # xs" using append_butlast_last_id [of "b # xs"] by (simp add: p_def last_of_def)
  then obtain ys where ys: "b # xs = ys @ [p]" by metis
  have d: "distinct (ys @ [p])" "set (ys @ [p]) \<inter> set zs = {}" unfolding ys [symmetric] using assms(2) by auto
  have s: "seg recs 0 (ys @ [p]) i" "seg recs i zs 0"
    unfolding ys [symmetric] using assms(1) seg_append [of recs 0 "b # xs" "i # zs" 0] by simp_all
  have s1: "seg recs1 0 (ys @ [p]) n" unfolding recs1_def by (rule seg_end [OF s(1)]) (use d in simp)
  have s2: "seg recs1 i zs 0" unfolding recs1_def by (rule seg_update [OF s(2)]) (use d in auto)
  have eq: "b # xs @ zs = (ys @ [p]) @ zs" by (metis append_Cons ys)
  have join: "seg r 0 (b # xs @ zs) 0" if "seg r 0 (ys @ [p]) n" "seg r p zs 0" for r
    unfolding eq by (subst seg_append) (use that in \<open>simp add: n_def\<close>)
  show ?thesis
  proof (cases zs)
    case Nil
    then show ?thesis using join [OF s1] by (simp add: unlinked_def recs1_def p_def n_def Let_def)
  next
    case (Cons z zs')
    have "seg (recs1[z := (recs1 ! z)\<lparr>en_prev_index := of_nat p\<rparr>]) p zs 0"
      using seg_begin [of recs1 i z zs' 0 p] s2 assms(2) Cons by simp
    moreover have "seg (recs1[z := (recs1 ! z)\<lparr>en_prev_index := of_nat p\<rparr>]) 0 (ys @ [p]) n"
      by (rule seg_update [OF s1]) (use d Cons in auto)
    ultimately have "seg (recs1[z := (recs1 ! z)\<lparr>en_prev_index := of_nat p\<rparr>]) 0 (b # xs @ zs) 0" by (intro join)
    moreover have "unlinked b xs i zs recs = recs1[z := (recs1 ! z)\<lparr>en_prev_index := of_nat p\<rparr>]"
      using Cons by (simp add: unlinked_def recs1_def p_def n_def Let_def)
    ultimately show ?thesis by simp
  qed
qed

lemma chain_remove:
  assumes ch: "chained base recs C" and b: "0 < b" "b < base" "base \<le> length recs"
    and C: "C b = xs @ i # zs" "xs @ zs \<noteq> [] \<or> \<not> dead_rec (recs ! b)" and z: "free_rec z"
  shows "chained base ((unlinked b xs i zs recs)[i := z]) (C(b := xs @ zs))" (is "chained base ?recs _")
proof -
  have en: "en_enable (recs ! b)" using chained_empty [OF ch b(2)] C by fastforce
  have seg: "seg recs 0 (b # xs @ i # zs) 0" using chained_seg [OF ch b(2) en] C by simp
  have mem: "j < length recs" if "j \<in> set (b # xs @ i # zs)" for j using seg_in [OF seg that] by simp
  have d: "distinct (b # xs @ i # zs)" using chained_distinct [OF ch b(2)] chained_range [OF ch b(2)] b C by auto
  have data: "rec_data (?recs ! j) = rec_data (recs ! j)" if "j \<in> set (b # xs @ zs)" for j
  proof -
    have "j \<noteq> i" "j < length recs" using that d mem by auto
    then show ?thesis using unlinked_data by simp
  qed
  note same = rec_data_same [OF data]
  show ?thesis
  proof (rule chain_change [OF ch b])
    show "seg ?recs 0 (b # xs @ zs) 0" by (rule seg_update [OF unlinked_seg [OF seg d]]) (use d in auto)
    show "?recs ! j = recs ! j" if "j \<noteq> b" "j \<notin> set (C b)" "j \<notin> set (xs @ zs)" for j
    proof -
      have "j \<noteq> i" using that C by auto
      then show ?thesis using unlinked_frame that by simp
    qed
    show "\<not> en_enable (?recs ! b) \<Longrightarrow> xs @ zs = []" "\<not> en_enable (?recs ! b) \<Longrightarrow> free_rec (?recs ! b)"
      using same(1) [of b] en by simp_all
    show "free_rec (?recs ! j)" if "j \<in> set (C b)" "j \<notin> set (xs @ zs)" for j
    proof -
      have "j = i" using that C by auto
      then show ?thesis using mem [of i] z by simp
    qed
    show "\<not> dead_rec (?recs ! j)" if "j \<in> set (xs @ zs)" for j
      using same(2) [of j] that chained_dead [OF ch mem, of j] chained_range [OF ch b(2)] C by auto
    show "bucket base (rule_of (?recs ! j)) = b" if "j \<in> set (b # xs @ zs)" "live_rec (?recs ! j)" for j
      using same(3,4) [OF that(1)] that chained_bucket [OF ch b(2), of j] C by auto
    show "dead_rec (?recs ! b) \<Longrightarrow> xs @ zs \<noteq> []" using same(2) [of b] C by simp
  qed (use d C in auto)
qed

text \<open>The last record behind a dead one is removed together with it.\<close>

lemma chain_last:
  assumes ch: "chained base recs C" and b: "0 < b" "b < base" "base \<le> length recs" and C: "C b = [i]" and z: "free_rec z" "free_rec z'"
  shows "chained base (recs[b := z, i := z']) (C(b := []))"
proof -
  have i: "i \<noteq> b" "i < length recs" using chained_range [OF ch b(2)] C b by auto
  show ?thesis
    by (rule chain_change [OF ch b]) (use z b i C in \<open>auto simp: free_rec_def dead_rec_def live_rec_def\<close>)
qed

end
