(* ===== verification/Ct_Exec.thy ===== *)
theory Ct_Exec
  imports Ct_Chain
begin

text \<open>
  What the calls on a table do, in closed form: the search for a free record, the walk to the end of a chain,
  the commands for the DMA and what the hardware makes of them, and from these the addition and the deletion
  of a rule as an update of the records.
\<close>

section \<open>The shape of a table\<close>

definition table_shape :: "ct_hw_table \<Rightarrow> bool" where
  "table_shape t \<longleftrightarrow>
     (\<exists>k. 1 \<le> k \<and> k \<le> 12 \<and> table_entries t = 2 ^ k) \<and> expn_table_entries t \<in> {2..1024} \<and>
     tot_tbl_ents t = table_entries t + expn_table_entries t \<and> length (tbl_recs t) = tot_tbl_ents t \<and>
     entry_interface t = ct_interface \<and> tbl_nmi t = IPA_NAT_MEM_IN_DDR \<and> tbl_entry_size t = 64 \<and> tbl_meta t = None \<and>
     zero_rec t = zero_hw_entry \<and> \<not> tbl_ub t \<and>
     (\<exists>d. addr_offset d = 0 \<and> dma_help t = ipa_ipv6ct_create_table_dma_cmd_helpers 0 d)"

lemma table_shapeD:
  assumes "table_shape t"
  shows shape_base: "2 \<le> table_entries t" "table_entries t \<le> 4096" and shape_expn: "2 \<le> expn_table_entries t" "expn_table_entries t \<le> 1024"
    and shape_tot: "tot_tbl_ents t = table_entries t + expn_table_entries t" and shape_len: "length (tbl_recs t) = table_entries t + expn_table_entries t"
    and shape_interface: "entry_interface t = ct_interface" and shape_nmi: "tbl_nmi t = 0" and shape_size: "tbl_entry_size t = 64"
    and shape_meta: "tbl_meta t = None" and shape_zero: "zero_rec t = zero_hw_entry" and shape_ub: "\<not> tbl_ub t"
proof -
  obtain k where k: "1 \<le> k" "k \<le> 12" "table_entries t = 2 ^ k" using assms unfolding table_shape_def by blast
  have "(2::nat) ^ 1 \<le> 2 ^ k" "(2::nat) ^ k \<le> 2 ^ 12" using k by (intro power_increasing; simp)+
  then show "2 \<le> table_entries t" "table_entries t \<le> 4096" using k by simp_all
qed (use assms in \<open>auto simp: table_shape_def\<close>)

lemmas shape_simps = shape_tot shape_interface shape_nmi shape_size shape_meta shape_zero

lemma ct_interface_simps [simp]:
  "entry_is_valid ct_interface = en_enable" "entry_get_next_index ct_interface e = unat (en_next_index e)"
  "entry_get_prev_index ct_interface e i m n = unat (en_prev_index e)"
  "entry_set_prev_index ct_interface e i p m n = (e\<lparr>en_prev_index := of_nat p\<rparr>, m)"
  "entry_head_insert ct_interface = table_entry_head_insert" "entry_tail_insert ct_interface = table_entry_tail_insert"
  "entry_get_delete_head_dma_command_data ct_interface h e = IPA_IPV6CT_INVALID_PROTO_FIELD_VALUE"
  by (simp_all add: ct_interface_def table_entry_is_valid_def table_entry_get_next_index_def table_entry_get_prev_index_def
      table_entry_set_prev_index_def table_entry_get_delete_head_dma_command_data_def fun_eq_iff)

lemma tbl_check_id: "i < length (tbl_recs t) \<Longrightarrow> tbl_check i t = t"
  by (simp add: tbl_check_def)

lemma set_rec_in: "i < length (tbl_recs t) \<Longrightarrow> set_rec i e t = t\<lparr>tbl_recs := (tbl_recs t)[i := e]\<rparr>"
  by (simp add: set_rec_def tbl_check_id)

lemma small_index: "table_shape t \<Longrightarrow> i < tot_tbl_ents t \<Longrightarrow> unat (of_nat i :: u16) = i"
  using shape_base [of t] shape_expn [of t] by (simp add: shape_tot unat_of_nat take_bit_nat_eq_self)

text \<open>A shape only depends on some of the fields.\<close>

lemma shape_update:
  "table_shape t \<Longrightarrow> length recs = length (tbl_recs t) \<Longrightarrow> table_shape (t\<lparr>tbl_recs := recs\<rparr>)"
  "table_shape (t\<lparr>cur_tbl_cnt := c\<rparr>) = table_shape t" "table_shape (t\<lparr>cur_expn_tbl_cnt := c\<rparr>) = table_shape t"
  by (simp_all add: table_shape_def)

section \<open>Searching and walking\<close>

lemma walk_empty:
  assumes "entry_interface t = ct_interface" "\<forall>i\<in>set is. i > 0"
  shows "walk_loop WHEN_SLOT_EMPTY mt_slot t is = (case find (\<lambda>i. \<not> en_enable (GOTO_REC t i)) is of None \<Rightarrow> 0 | Some i \<Rightarrow> int i)"
  using assms(2) by (induction "is") (auto simp: assms(1) mt_slot_def Let_def)

lemma find_free:
  assumes "table_shape t"
  shows "FindExpnTblFreeEntry t =
    (case find (\<lambda>i. \<not> en_enable (GOTO_REC t i)) [table_entries t..<tot_tbl_ents t] of None \<Rightarrow> (- 1, 0) | Some i \<Rightarrow> (0, i))"
proof -
  note s = shape_base [OF assms] shape_expn [OF assms] shape_interface [OF assms] shape_tot [OF assms]
  have "walk_loop WHEN_SLOT_EMPTY mt_slot t [table_entries t..<tot_tbl_ents t] =
      (case find (\<lambda>i. \<not> en_enable (GOTO_REC t i)) [table_entries t..<tot_tbl_ents t] of None \<Rightarrow> 0 | Some i \<Rightarrow> int i)"
    using s by (intro walk_empty) auto
  moreover have "0 < i" if "find (\<lambda>i. \<not> en_enable (GOTO_REC t i)) [table_entries t..<tot_tbl_ents t] = Some i" for i
    using that s by (auto simp: find_Some_iff)
  ultimately show ?thesis using s
    by (auto simp: FindExpnTblFreeEntry_def ipa_table_walk_def Let_def split: option.split simp del: upt_Suc)
qed

lemma end_loop_seg:
  assumes "table_shape t" "seg (tbl_recs t) p (i # is) 0" "distinct (i # is)" "0 \<notin> set is"
  shows "end_loop i t = Some (True, last_of i is, t)"
  using assms(2-4)
proof (induction "is" arbitrary: p i)
  case Nil
  then show ?case by (subst end_loop.simps) (simp add: shape_interface [OF assms(1)] VALID_INDEX_def GOTO_REC_def tbl_check_id Let_def)
next
  case (Cons j js)
  have j: "j < tot_tbl_ents t" "j \<noteq> 0" using Cons.prems shape_len [OF assms(1)] shape_tot [OF assms(1)] by auto
  have "unat (en_next_index (tbl_recs t ! i)) = j" using Cons.prems small_index [OF assms(1) j(1)] by simp
  then have "end_loop i t = end_loop j t"
    using Cons.prems j by (subst end_loop.simps) (simp add: shape_interface [OF assms(1)] VALID_INDEX_def GOTO_REC_def tbl_check_id Let_def)
  also have "\<dots> = Some (True, last_of j js, t)" by (rule Cons.IH) (use Cons.prems in auto)
  finally show ?case by simp
qed

section \<open>Commands\<close>

fun field_of :: "dma_help_type \<Rightarrow> nat" where
  "field_of HELP_UPDATE_HEAD = IPA_IPV6CT_RULE_FLAG_FIELD_OFFSET"
| "field_of HELP_UPDATE_ENTRY = IPA_IPV6CT_RULE_NEXT_FIELD_OFFSET"
| "field_of HELP_DELETE_HEAD = IPA_IPV6CT_RULE_PROTO_FIELD_OFFSET"

definition the_cmd :: "ct_hw_table \<Rightarrow> dma_help_type \<Rightarrow> nat \<Rightarrow> u16 \<Rightarrow> ipa_ioc_nat_dma_one" where
  "the_cmd t ht i data = \<lparr>dma_table_index = 0,
     dma_base_addr = (if i \<ge> table_entries t then IPA_IPV6CT_EXPN_TBL else IPA_IPV6CT_BASE_TBL),
     dma_offset = field_of ht + 64 * (if i \<ge> table_entries t then i - table_entries t else i), dma_data = data\<rparr>"

lemma add_dma_cmd: "table_shape t \<Longrightarrow> i < tot_tbl_ents t \<Longrightarrow> ipa_table_add_dma_cmd t ht i data cmd = (0, cmd @ [the_cmd t ht i data])"
  by (cases ht) (auto simp: table_shape_def ipa_table_add_dma_cmd_def ipa_table_dma_cmd_generate_def the_cmd_def Let_def ipa_table_dma_cmd_helper_init_def)

lemma dma_write_cmd: "dma_write (table_entries t) (the_cmd t ht i data) recs = recs[i := write_field (field_of ht) data (recs ! i)]"
  by (cases ht) (simp_all add: dma_write_def the_cmd_def Let_def)

lemma the_cmd_update [simp]:
  "the_cmd (t\<lparr>tbl_recs := recs\<rparr>) = the_cmd t" "the_cmd (t\<lparr>cur_tbl_cnt := c\<rparr>) = the_cmd t" "the_cmd (t\<lparr>cur_expn_tbl_cnt := c\<rparr>) = the_cmd t"
  "the_cmd (t\<lparr>tbl_ub := u\<rparr>) = the_cmd t" "the_cmd (t\<lparr>tbl_meta := m\<rparr>) = the_cmd t"
  by (simp_all add: the_cmd_def fun_eq_iff)

lemma write_fields:
  "write_field (field_of HELP_UPDATE_HEAD) w e = e\<lparr>en_enable := bit w 15, en_redirect := bit w 14\<rparr>"
  "write_field (field_of HELP_UPDATE_ENTRY) w e = e\<lparr>en_next_index := w\<rparr>"
  "write_field (field_of HELP_DELETE_HEAD) w e =
     e\<lparr>en_time_stamp := take_bit 16 (en_time_stamp e) OR push_bit 16 (ucast (w AND 0xFF)), en_protocol := ucast (drop_bit 8 w)\<rparr>"
  by (simp_all add: write_field_def)

lemma post_dma:
  assumes "documented_hardware hw"
  shows "ipa_ipv6ct_post_dma_cmd hw ioctl cmd t = (if ioctl \<noteq> 0 then (- EIO, t) else (0, t\<lparr>tbl_recs := fold (dma_write (table_entries t)) cmd (tbl_recs t)\<rparr>))"
  using assms by (simp add: ipa_ipv6ct_post_dma_cmd_def documented_hardware_def)


section \<open>The addition of a rule\<close>

definition dir_ok :: "ipa_ipv6ct_rule \<Rightarrow> bool" where
  "dir_ok r \<longleftrightarrow> ru_direction_settings r \<in> {0, 1, 2, 3}"

definition copied :: "ipa_ipv6ct_hw_entry \<Rightarrow> ipa_ipv6ct_rule \<Rightarrow> ipa_ipv6ct_hw_entry" where
  "copied e r = snd (table_entry_copy_from_user e r)"

lemma copy_ret: "table_entry_copy_from_user e r = (if dir_ok r then 0 else - EINVAL, copied e r)"
  by (auto simp: copied_def table_entry_copy_from_user_def dir_ok_def Let_def)

lemma head_insert: "table_entry_head_insert e r = (if dir_ok r then (0, copied e r, 0x8000) else (- EINVAL, copied e r, 0))"
  by (simp add: table_entry_head_insert_def copy_ret)

lemma copied_keeps [simp]:
  "en_enable (copied e r) = en_enable e" "en_next_index (copied e r) = en_next_index e" "en_prev_index (copied e r) = en_prev_index e"
  "en_protocol (copied e r) = ru_protocol r"
  by (simp_all add: copied_def table_entry_copy_from_user_def Let_def)

lemma copied_failed: "\<not> dir_ok r \<Longrightarrow> free_rec e \<Longrightarrow> free_rec (copied e r)"
  by (simp add: copied_def table_entry_copy_from_user_def dir_ok_def free_rec_def Let_def)

lemma ucast_13: "ucast (ucast (w :: u16) :: 13 word) = (take_bit 13 w :: u16)"
  by (rule bit_word_eqI) (auto simp: bit_ucast_iff bit_take_bit_iff)

lemma copied_rule: "dir_ok r \<Longrightarrow> free_rec e \<Longrightarrow> rule_of (copied e r) = stored_rule r"
  by (auto simp: copied_def table_entry_copy_from_user_def dir_ok_def free_rec_def Let_def rule_of_def stored_rule_def ucast_13)

lemma free_zero [simp]: "free_rec zero_hw_entry"
  by (simp add: free_rec_def zero_hw_entry_def)

lemma bucket_bounds:
  assumes "table_shape t"
  shows "0 < bucket (table_entries t) r" "bucket (table_entries t) r < table_entries t"
proof -
  define k where "k = table_entries t - 1"
  define sz :: u16 where "sz = of_nat k"
  have sz: "unat sz = k" "0 < unat sz" and k: "0 < k" "k < table_entries t"
    using shape_base [OF assms] by (simp_all add: sz_def k_def unat_of_nat take_bit_nat_eq_self del: of_nat_diff)
  have "ipa_ipv6ct_hash r sz \<le> sz" "ipa_ipv6ct_hash r sz \<noteq> 0"
    using sz by (auto simp: ipa_ipv6ct_hash_def Let_def word_and_le1 simp flip: unat_eq_0)
  then have "unat (ipa_ipv6ct_hash r sz) \<le> unat sz" "0 < unat (ipa_ipv6ct_hash r sz)" by (simp_all add: word_le_nat_alt unat_gt_0)
  then show "0 < bucket (table_entries t) r" "bucket (table_entries t) r < table_entries t"
    using sz k by (simp_all only: bucket_def sz_def k_def)
qed

definition enabled :: "ipa_ipv6ct_hw_entry \<Rightarrow> ipa_ipv6ct_hw_entry" where
  "enabled e = e\<lparr>en_enable := True, en_redirect := False\<rparr>"

lemma enable_field: "write_field IPA_IPV6CT_RULE_FLAG_FIELD_OFFSET 0x8000 e = enabled e"
  using write_fields(1) [of "0x8000" e] by (simp add: enabled_def)

lemma entry_head:
  assumes s: "table_shape t" and b: "b < table_entries t" and free: "\<not> en_enable (tbl_recs t ! b)"
  shows "ipa_table_add_entry r b [] t = Some
    (if dir_ok r then (0, b, MakeEntryHdl t b, [the_cmd t HELP_UPDATE_HEAD b 0x8000],
        t\<lparr>tbl_recs := (tbl_recs t)[b := copied (tbl_recs t ! b) r], cur_tbl_cnt := cur_tbl_cnt t + 1\<rparr>)
     else (- EINVAL, b, 0, [], t\<lparr>tbl_recs := (tbl_recs t)[b := copied (tbl_recs t ! b) r]\<rparr>))"
proof -
  have bl: "b < length (tbl_recs t)" "b < tot_tbl_ents t" using b shape_len [OF s] shape_tot [OF s] by simp_all
  define e where "e = copied (tbl_recs t ! b) r"
  have s': "table_shape (t\<lparr>tbl_recs := (tbl_recs t)[b := e]\<rparr>)" by (rule shape_update(1) [OF s]) simp
  have "ipa_table_add_dma_cmd (t\<lparr>tbl_recs := (tbl_recs t)[b := e]\<rparr>) HELP_UPDATE_HEAD b 0x8000 [] = (0, [the_cmd t HELP_UPDATE_HEAD b 0x8000])"
    using add_dma_cmd [OF s', of b] bl by simp
  then show ?thesis
    using b bl free
    by (simp add: ipa_table_add_entry_def InsertHead_def head_insert shape_simps [OF s] tbl_check_id set_rec_in GOTO_REC_def Let_def e_def MakeEntryHdl_def)
qed

lemma add_head:
  fixes t :: ct_hw_table and r :: ipa_ipv6ct_rule
  assumes s: "table_shape t" and hw: "documented_hardware hw"
  defines "b \<equiv> bucket (table_entries t) r"
  assumes free: "\<not> en_enable (tbl_recs t ! b)"
  shows "add_rule_section hw ioctl r t = Some
    (if \<not> dir_ok r then (- EINVAL, 0, t\<lparr>tbl_recs := (tbl_recs t)[b := copied (tbl_recs t ! b) r]\<rparr>)
     else if ioctl \<noteq> 0 then (- EIO, 0, t\<lparr>tbl_recs := (tbl_recs t)[b := zero_hw_entry]\<rparr>)
     else (0, MakeEntryHdl t b, t\<lparr>tbl_recs := (tbl_recs t)[b := enabled (copied (tbl_recs t ! b) r)], cur_tbl_cnt := cur_tbl_cnt t + 1\<rparr>))"
proof -
  have b: "b < table_entries t" "b < length (tbl_recs t)"
    using bucket_bounds [OF s, of r] shape_len [OF s] by (simp_all add: b_def)
  have hash: "unat (ipa_ipv6ct_hash r (of_nat (table_entries t - 1))) = b" by (simp add: b_def bucket_def)
  show ?thesis
    unfolding add_rule_section_def Let_def hash entry_head [OF s b(1) free]
    using b hw by (simp add: post_dma dma_write_cmd ipa_table_erase_entry_def set_rec_in shape_zero [OF s] Let_def enable_field)
qed

lemma entry_tail:
  fixes t :: ct_hw_table and b :: nat and C :: "nat \<Rightarrow> nat list"
  assumes s: "table_shape t" and ch: "chained (table_entries t) (tbl_recs t) C" and b: "b < table_entries t" and en: "en_enable (tbl_recs t ! b)"
  defines "l \<equiv> last_of b (C b)"
  shows "l < tot_tbl_ents t" "en_enable (tbl_recs t ! l)"
    and "ipa_table_add_entry r b [] t = Some
      (case find (\<lambda>i. \<not> en_enable (tbl_recs t ! i)) [table_entries t..<tot_tbl_ents t] of
         None \<Rightarrow> (- 1, b, 0, [], t)
       | Some i \<Rightarrow>
           if dir_ok r then (0, i, MakeEntryHdl t i, [the_cmd t HELP_UPDATE_HEAD i 0x8000, the_cmd t HELP_UPDATE_ENTRY l (of_nat i)],
             t\<lparr>tbl_recs := (tbl_recs t)[i := (copied (tbl_recs t ! i) r)\<lparr>en_prev_index := of_nat l\<rparr>], cur_expn_tbl_cnt := cur_expn_tbl_cnt t + 1\<rparr>)
           else (- EINVAL, b, 0, [], t\<lparr>tbl_recs := (tbl_recs t)[i := copied (tbl_recs t ! i) r]\<rparr>))"
proof -
  have bl: "b < length (tbl_recs t)" using b shape_len [OF s] by simp
  have seg: "seg (tbl_recs t) 0 (b # C b) 0" by (rule chained_seg [OF ch b en])
  have "end_loop b t = Some (True, l, t)"
    unfolding l_def by (rule end_loop_seg [OF s seg]) (use chained_range [OF ch b] b chained_distinct [OF ch b] in auto)
  then have last: "ipa_table_iterator_end b t = Some (0, l, t)" by (simp add: ipa_table_iterator_end_def)
  have "l < length (tbl_recs t)" and len: "length (tbl_recs t) = tot_tbl_ents t"
    using seg_in [OF seg, of l] shape_len [OF s] shape_tot [OF s] by (auto simp: l_def last_of_def split: if_splits)
  then show l: "l < tot_tbl_ents t" "en_enable (tbl_recs t ! l)"
    using seg_in [OF seg, of l] by (auto simp: l_def last_of_def split: if_splits)
  show "ipa_table_add_entry r b [] t = Some
      (case find (\<lambda>i. \<not> en_enable (tbl_recs t ! i)) [table_entries t..<tot_tbl_ents t] of
         None \<Rightarrow> (- 1, b, 0, [], t)
       | Some i \<Rightarrow>
           if dir_ok r then (0, i, MakeEntryHdl t i, [the_cmd t HELP_UPDATE_HEAD i 0x8000, the_cmd t HELP_UPDATE_ENTRY l (of_nat i)],
             t\<lparr>tbl_recs := (tbl_recs t)[i := (copied (tbl_recs t ! i) r)\<lparr>en_prev_index := of_nat l\<rparr>], cur_expn_tbl_cnt := cur_expn_tbl_cnt t + 1\<rparr>)
           else (- EINVAL, b, 0, [], t\<lparr>tbl_recs := (tbl_recs t)[i := copied (tbl_recs t ! i) r]\<rparr>))"
  proof (cases "find (\<lambda>i. \<not> en_enable (tbl_recs t ! i)) [table_entries t..<tot_tbl_ents t]")
    case None
    then have "FindExpnTblFreeEntry t = (- 1, 0)" using find_free [OF s] by (simp add: GOTO_REC_def)
    then show ?thesis using None
      by (simp add: ipa_table_add_entry_def InsertTail_def last shape_interface [OF s] GOTO_REC_def en tbl_check_id bl)
  next
    case (Some i)
    then have free: "FindExpnTblFreeEntry t = (0, i)" using find_free [OF s] by (simp add: GOTO_REC_def)
    have i: "i < tot_tbl_ents t" "i < length (tbl_recs t)" using Some len by (auto simp: find_Some_iff)
    define e where "e = (copied (tbl_recs t ! i) r)\<lparr>en_prev_index := of_nat l\<rparr>"
    have "table_shape (t\<lparr>tbl_recs := (tbl_recs t)[i := e]\<rparr>)" by (rule shape_update(1) [OF s]) simp
    then have "table_shape (t\<lparr>tbl_recs := (tbl_recs t)[i := e], tbl_meta := None\<rparr>)" by (simp add: table_shape_def)
    from add_dma_cmd [OF this]
    have cmd: "ipa_table_add_dma_cmd (t\<lparr>tbl_recs := (tbl_recs t)[i := e], tbl_meta := None\<rparr>) ht j w cs = (0, cs @ [the_cmd t ht j w])"
      if "j < tot_tbl_ents t" for ht j w cs using that by simp
    have meta: "t\<lparr>tbl_recs := rs, cur_expn_tbl_cnt := c, tbl_meta := None\<rparr> = t\<lparr>tbl_recs := rs, cur_expn_tbl_cnt := c\<rparr>" for rs c
      using shape_meta [OF s] by simp
    show ?thesis
      using Some cmd i l
      by (simp add: ipa_table_add_entry_def InsertTail_def last free tail_data_def head_insert shape_simps [OF s] GOTO_REC_def en tbl_check_id
          set_rec_in bl Let_def e_def MakeEntryHdl_def meta)
  qed
qed

lemma add_tail:
  fixes t :: ct_hw_table and r :: ipa_ipv6ct_rule and C :: "nat \<Rightarrow> nat list"
  assumes s: "table_shape t" and hw: "documented_hardware hw" and ch: "chained (table_entries t) (tbl_recs t) C"
  defines "b \<equiv> bucket (table_entries t) r"
  defines "l \<equiv> last_of b (C b)"
  assumes en: "en_enable (tbl_recs t ! b)"
  shows "add_rule_section hw ioctl r t = Some
    (case find (\<lambda>i. \<not> en_enable (tbl_recs t ! i)) [table_entries t..<tot_tbl_ents t] of
       None \<Rightarrow> (- 1, 0, t)
     | Some i \<Rightarrow>
         if \<not> dir_ok r then (- EINVAL, 0, t\<lparr>tbl_recs := (tbl_recs t)[i := copied (tbl_recs t ! i) r]\<rparr>)
         else if ioctl \<noteq> 0 then (- EIO, 0, t\<lparr>tbl_recs := (tbl_recs t)[i := zero_hw_entry]\<rparr>)
         else (0, MakeEntryHdl t i, t\<lparr>tbl_recs := (tbl_recs t)
                  [i := enabled ((copied (tbl_recs t ! i) r)\<lparr>en_prev_index := of_nat l\<rparr>), l := (tbl_recs t ! l)\<lparr>en_next_index := of_nat i\<rparr>],
                  cur_expn_tbl_cnt := cur_expn_tbl_cnt t + 1\<rparr>))"
proof -
  have b: "b < table_entries t" using bucket_bounds [OF s, of r] by (simp add: b_def)
  note entry = entry_tail [OF s ch b en, folded l_def]
  have hash: "unat (ipa_ipv6ct_hash r (of_nat (table_entries t - 1))) = b" by (simp add: b_def bucket_def)
  have len: "length (tbl_recs t) = tot_tbl_ents t" using shape_len [OF s] shape_tot [OF s] by simp
  show ?thesis
  proof (cases "find (\<lambda>i. \<not> en_enable (tbl_recs t ! i)) [table_entries t..<tot_tbl_ents t]")
    case None
    then show ?thesis unfolding add_rule_section_def Let_def hash entry(3) by simp
  next
    case (Some i)
    then have i: "\<not> en_enable (tbl_recs t ! i)" "table_entries t \<le> i" "i < length (tbl_recs t)" "i \<noteq> l"
      using entry(2) len by (auto simp: find_Some_iff)
    then show ?thesis
      unfolding add_rule_section_def Let_def hash entry(3) using Some entry(1) len hw write_fields(2)
      by (simp add: post_dma dma_write_cmd ipa_table_erase_entry_def set_rec_in shape_zero [OF s] Let_def enable_field)
  qed
qed

end
