(* ===== verification/Ct_Del.thy ===== *)
theory Ct_Del
  imports Ct_Exec
begin

text \<open>
  The deletion of a rule in closed form. The first record of a chain keeps its place while others follow;
  the last one that follows takes it along.
\<close>

lemma seg_links:
  assumes "seg recs p (ys @ i # zs) q"
  shows "i < length recs" "en_enable (recs ! i)" "en_prev_index (recs ! i) = of_nat (last_of p ys)" "en_next_index (recs ! i) = of_nat (first_of zs q)"
  using assms by (simp_all add: seg_append)

definition iterator_at :: "nat \<Rightarrow> nat \<Rightarrow> nat \<Rightarrow> ipa_table_iterator" where
  "iterator_at p i n = \<lparr>prev_index = p, prev_entry = (if p = 0 then None else Some p), curr_index = i, curr_entry = Some i,
     next_index = n, next_entry = (if n = 0 then None else Some n)\<rparr>"

lemma iterator_init:
  assumes s: "table_shape t" and i: "en_enable (tbl_recs t ! i)" "unat (en_prev_index (tbl_recs t ! i)) = p" "unat (en_next_index (tbl_recs t ! i)) = n"
    and lt: "p < tot_tbl_ents t" "n < tot_tbl_ents t"
  shows "ipa_table_iterator_init i t = (0, iterator_at p i n)"
  using i lt
  by (simp add: ipa_table_iterator_init_def shape_interface [OF s] GOTO_REC_def VALID_INDEX_def ipa_table_get_entry_by_index_def iterator_at_def
      zero_iterator_def Let_def)

lemma iterator_init_free: "table_shape t \<Longrightarrow> \<not> en_enable (tbl_recs t ! i) \<Longrightarrow> ipa_table_iterator_init i t = (- EINVAL, zero_iterator)"
  by (simp add: ipa_table_iterator_init_def shape_interface GOTO_REC_def)

lemma iterator_at_simps [simp]:
  "prev_index (iterator_at p i n) = p" "curr_index (iterator_at p i n) = i" "next_index (iterator_at p i n) = n"
  "prev_entry (iterator_at p i n) = (if p = 0 then None else Some p)"
  by (simp_all add: iterator_at_def)

lemma delete_command:
  assumes s: "table_shape t" and "p < tot_tbl_ents t" "i < tot_tbl_ents t"
  shows "ipa_table_create_delete_command [] (iterator_at p i n) t =
    [if p \<noteq> 0 then the_cmd t HELP_UPDATE_ENTRY p (of_nat n)
     else if n \<noteq> 0 then the_cmd t HELP_DELETE_HEAD i IPA_IPV6CT_INVALID_PROTO_FIELD_VALUE
     else the_cmd t HELP_UPDATE_HEAD i 0]"
  using assms by (simp add: ipa_table_create_delete_command_def VALID_INDEX_def add_dma_cmd shape_interface)

text \<open>The rule of a handle whose record is not in use, or does not exist.\<close>

lemma del_free:
  assumes "table_shape t" "BREAK_RULE_HDL t h \<ge> tot_tbl_ents t \<or> \<not> en_enable (tbl_recs t ! BREAK_RULE_HDL t h)"
  shows "del_rule_section hw ioctl h t = (- EINVAL, t)"
  using assms shape_len [OF assms(1)] shape_tot [OF assms(1)]
  by (auto simp: del_rule_section_def ipa_table_get_entry_def Let_def tbl_check_id iterator_init_free)

definition killed :: "ipa_ipv6ct_hw_entry \<Rightarrow> ipa_ipv6ct_hw_entry" where
  "killed e = e\<lparr>en_time_stamp := take_bit 16 (en_time_stamp e), en_protocol := IPA_IPV6CT_INVALID_PROTO_FIELD_CMP\<rparr>"

lemma kill_field: "write_field IPA_IPV6CT_RULE_PROTO_FIELD_OFFSET IPA_IPV6CT_INVALID_PROTO_FIELD_VALUE e = killed e"
  using write_fields(3) [of IPA_IPV6CT_INVALID_PROTO_FIELD_VALUE e] by (simp add: killed_def)

lemma next_field: "write_field IPA_IPV6CT_RULE_NEXT_FIELD_OFFSET w e = e\<lparr>en_next_index := w\<rparr>"
  using write_fields(2) [of w e] by simp

lemma del_fails:
  assumes "table_shape t" "documented_hardware hw" "ioctl \<noteq> 0"
  shows "\<exists>ret. ret \<noteq> 0 \<and> del_rule_section hw ioctl h t = (ret, t)"
proof (cases "BREAK_RULE_HDL t h \<ge> tot_tbl_ents t")
  case True
  then show ?thesis using del_free [OF assms(1)] by fastforce
next
  case False
  then show ?thesis using assms shape_len [OF assms(1)] shape_tot [OF assms(1)]
    by (auto simp: del_rule_section_def ipa_table_get_entry_def Let_def tbl_check_id post_dma split: prod.split)
qed

text \<open>A record of the base table.\<close>

lemma del_base:
  fixes t :: ct_hw_table and h :: u32
  assumes s: "table_shape t" and hw: "documented_hardware hw" and ch: "chained (table_entries t) (tbl_recs t) C"
  defines "i \<equiv> BREAK_RULE_HDL t h"
  assumes i: "i < table_entries t" and en: "en_enable (tbl_recs t ! i)"
  shows "del_rule_section hw 0 h t =
    (0, if C i = [] then t\<lparr>tbl_recs := (tbl_recs t)[i := zero_hw_entry], cur_tbl_cnt := cur_tbl_cnt t - 1\<rparr>
        else t\<lparr>tbl_recs := (tbl_recs t)[i := killed (tbl_recs t ! i)]\<rparr>)"
proof -
  have seg: "seg (tbl_recs t) 0 ([] @ i # C i) 0" using chained_seg [OF ch i en] by simp
  define n where "n = first_of (C i) 0"
  have len: "length (tbl_recs t) = tot_tbl_ents t" "i < tot_tbl_ents t" using i shape_len [OF s] shape_tot [OF s] by simp_all
  have n: "n < tot_tbl_ents t" "n = 0 \<longleftrightarrow> C i = []"
    using chained_range [OF ch i] len i by (auto simp: n_def first_of_def split: list.split)
  have it: "ipa_table_iterator_init i t = (0, iterator_at 0 i n)"
    by (rule iterator_init [OF s en]) (use seg_links [OF seg] n small_index [OF s] len in \<open>simp_all add: n_def\<close>)
  have "ipa_table_get_entry h t = (0, i)" using len by (simp add: ipa_table_get_entry_def i_def Let_def)
  then show ?thesis
    using len n i hw it delete_command [OF s _ len(2), of 0 n]
    by (cases "C i = []") (simp_all add: del_rule_section_def Let_def tbl_check_id post_dma dma_write_cmd
        ipa_table_iterator_is_head_with_tail_def VALID_INDEX_def kill_field ipa_table_delete_entry_def ipa_table_erase_entry_def set_rec_in shape_zero [OF s])
qed


text \<open>A record of the expansion table.\<close>

lemma del_expn:
  fixes t :: ct_hw_table and h :: u32 and b :: nat and C :: "nat \<Rightarrow> nat list"
  assumes s: "table_shape t" and hw: "documented_hardware hw" and ch: "chained (table_entries t) (tbl_recs t) C"
  defines "i \<equiv> BREAK_RULE_HDL t h"
  assumes b: "b < table_entries t" and C: "C b = xs @ i # zs"
  shows "del_rule_section hw 0 h t =
    (0, if xs @ zs = [] \<and> dead_rec (tbl_recs t ! b)
        then t\<lparr>tbl_recs := (tbl_recs t)[b := zero_hw_entry, i := zero_hw_entry], cur_tbl_cnt := cur_tbl_cnt t - 1, cur_expn_tbl_cnt := cur_expn_tbl_cnt t - 1\<rparr>
        else t\<lparr>tbl_recs := (unlinked b xs i zs (tbl_recs t))[i := zero_hw_entry], cur_expn_tbl_cnt := cur_expn_tbl_cnt t - 1\<rparr>)"
proof -
  define recs where "recs = tbl_recs t"
  define p where "p = last_of b xs"
  define n where "n = first_of zs 0"
  have en: "en_enable (recs ! b)" using chained_empty [OF ch b] C by (fastforce simp: recs_def)
  have rng: "set (C b) \<subseteq> {table_entries t..<length recs}" using chained_range [OF ch b] by (simp add: recs_def)
  have len: "length recs = tot_tbl_ents t" using shape_len [OF s] shape_tot [OF s] by (simp add: recs_def)
  have b0: "b \<noteq> 0" using en chained_zero [OF ch] by (metis recs_def)
  have seg: "seg recs 0 ((b # xs) @ i # zs) 0" using chained_seg [OF ch b] en C by (simp add: recs_def)
  have i: "table_entries t \<le> i" "i < tot_tbl_ents t" using rng C len by auto
  have p: "p \<noteq> 0" "p < tot_tbl_ents t" "p \<noteq> i" "en_enable (recs ! p)"
    and dead: "en_protocol (recs ! p) = 255 \<longleftrightarrow> xs = [] \<and> dead_rec (recs ! b)"
  proof -
    have d: "distinct (C b)" by (rule chained_distinct [OF ch b])
    have "p = b \<or> p \<in> set xs" using last_of_in [of xs b] by (auto simp: p_def last_of_def)
    then show "p \<noteq> 0" "p \<noteq> i" using rng C b0 b d shape_base [OF s] by auto
    have "p \<in> set ((b # xs) @ i # zs)" using last_of_in [of xs b] by (auto simp: p_def last_of_def)
    from seg_in [OF seg this] show "p < tot_tbl_ents t" "en_enable (recs ! p)" using len by simp_all
    then have "en_protocol (recs ! p) = 255 \<longleftrightarrow> dead_rec (recs ! p)" by (simp add: dead_rec_def)
    moreover have "\<not> dead_rec (recs ! p)" if "xs \<noteq> []"
    proof -
      have "p \<in> set (C b)" using last_of_in [OF that, of b] C by (simp add: p_def)
      then show ?thesis using chained_dead [OF ch, of p] rng len by (auto simp: recs_def)
    qed
    ultimately show "en_protocol (recs ! p) = 255 \<longleftrightarrow> xs = [] \<and> dead_rec (recs ! b)" by (cases "xs = []") (auto simp: p_def)
  qed
  have n: "n < tot_tbl_ents t" "n = 0 \<longleftrightarrow> zs = []"
    using rng C len i shape_base [OF s] by (auto simp: n_def first_of_def split: list.split)
  have it: "ipa_table_iterator_init i t = (0, iterator_at p i n)"
    by (rule iterator_init [OF s]) (use seg_links [OF seg] n p small_index [OF s] in \<open>simp_all add: n_def p_def recs_def\<close>)
  have "ipa_table_get_entry h t = (0, i)" using i by (simp add: ipa_table_get_entry_def i_def Let_def)
  then have del: "del_rule_section hw 0 h t =
      (0, ipa_table_delete_entry (iterator_at p i n) (en_protocol (recs ! p) = 255) (t\<lparr>tbl_recs := recs[p := (recs ! p)\<lparr>en_next_index := of_nat n\<rparr>]\<rparr>))"
    using len i p n hw it delete_command [OF s p(2) i(2), of n]
    by (simp add: del_rule_section_def Let_def tbl_check_id post_dma dma_write_cmd ipa_table_iterator_is_head_with_tail_def VALID_INDEX_def
        next_field GOTO_REC_def flip: recs_def)
  show ?thesis
  proof (cases "zs = []")
    case True
    with n have n0: "n = 0" by simp
    have u: "unlinked b xs i zs recs = recs[p := (recs ! p)\<lparr>en_next_index := of_nat n\<rparr>]"
      using True by (simp add: unlinked_def n_def p_def Let_def)
    note simps = ipa_table_delete_entry_def ipa_table_erase_entry_def VALID_INDEX_def set_rec_in shape_zero [OF s] Let_def n0
    show ?thesis
    proof (cases "xs = [] \<and> dead_rec (recs ! b)")
      case head: True
      then have "p = b" by (simp add: p_def)
      with head show ?thesis
        unfolding del dead using True len i p by (simp add: simps flip: recs_def)
    next
      case False
      then have "(xs = [] \<and> dead_rec (recs ! b)) = False" "(xs @ zs = [] \<and> dead_rec (recs ! b)) = False" by auto
      then show ?thesis
        unfolding del dead recs_def [symmetric] using True len i p u by (simp only: if_False) (simp add: simps)
    qed
  next
    case False
    with n have "n \<noteq> 0" by simp
    then show ?thesis
      unfolding del using False len i p n
      by (simp add: ipa_table_delete_entry_def ipa_table_erase_entry_def VALID_INDEX_def set_rec_in shape_zero [OF s] shape_interface [OF s] Let_def
          unlinked_def GOTO_REC_def flip: n_def p_def recs_def)
  qed
qed

end
