(* ===== verification/Ct_Inv.thy ===== *)
theory Ct_Inv
  imports Ct_Del
begin

text \<open>
  The invariant of a table and what the calls mean: a table is a map from the indices of its records to
  rules; an addition binds a new index, a deletion removes one, and a call that fails changes nothing.
\<close>

section \<open>The rules and the counters\<close>

definition rules_of :: "ipa_ipv6ct_hw_entry list \<Rightarrow> nat \<rightharpoonup> ipa_ipv6ct_rule" where
  "rules_of recs = (\<lambda>i. if i < length recs \<and> live_rec (recs ! i) then Some (rule_of (recs ! i)) else None)"

definition used :: "nat \<Rightarrow> nat \<Rightarrow> ipa_ipv6ct_hw_entry list \<Rightarrow> nat" where
  "used lo hi recs = card {i. lo \<le> i \<and> i < hi \<and> en_enable (recs ! i)}"

lemma rules_of_update: "i < length recs \<Longrightarrow> rules_of (recs[i := e]) = (rules_of recs)(i := if live_rec e then Some (rule_of e) else None)"
  by (auto simp: rules_of_def fun_eq_iff nth_list_update)

lemma rules_of_data:
  assumes "length recs' = length recs" "\<And>j. j < length recs \<Longrightarrow> rec_data (recs' ! j) = rec_data (recs ! j)"
  shows "rules_of recs' = rules_of recs"
  using rec_data_same [OF assms(2)] assms(1) by (auto simp: rules_of_def fun_eq_iff)

lemma used_data:
  assumes "hi \<le> length recs" "\<And>j. j < length recs \<Longrightarrow> rec_data (recs' ! j) = rec_data (recs ! j)"
  shows "used lo hi recs' = used lo hi recs"
proof -
  have "{i. lo \<le> i \<and> i < hi \<and> en_enable (recs' ! i)} = {i. lo \<le> i \<and> i < hi \<and> en_enable (recs ! i)}"
    using rec_data_same(1) [OF assms(2)] assms(1) by auto
  then show ?thesis by (simp add: used_def)
qed

lemma used_same: "en_enable e = en_enable (recs ! i) \<Longrightarrow> used lo hi (recs[i := e]) = used lo hi recs"
  unfolding used_def by (rule arg_cong [where f = card]) (cases "i < length recs"; auto simp: nth_list_update list_update_beyond)

lemma used_out: "\<not> (lo \<le> i \<and> i < hi) \<Longrightarrow> used lo hi (recs[i := e]) = used lo hi recs"
  unfolding used_def by (rule arg_cong [where f = card]) (metis nth_list_update_neq)

lemma used_on:
  assumes "i < length recs" "lo \<le> i" "i < hi" "\<not> en_enable (recs ! i)" "en_enable e"
  shows "used lo hi (recs[i := e]) = Suc (used lo hi recs)"
proof -
  have "{j. lo \<le> j \<and> j < hi \<and> en_enable (recs[i := e] ! j)} = insert i {j. lo \<le> j \<and> j < hi \<and> en_enable (recs ! j)}"
    using assms by (auto simp: nth_list_update)
  then show ?thesis using assms by (simp add: used_def)
qed

lemma used_off:
  assumes "i < length recs" "lo \<le> i" "i < hi" "en_enable (recs ! i)" "\<not> en_enable e"
  shows "Suc (used lo hi (recs[i := e])) = used lo hi recs"
  using used_on [of i "recs[i := e]" lo hi "recs ! i"] assms by simp

definition ct_inv :: "ct_hw_table \<Rightarrow> bool" where
  "ct_inv t \<longleftrightarrow> table_shape t \<and> (\<exists>C. chained (table_entries t) (tbl_recs t) C) \<and>
     cur_tbl_cnt t = of_nat (used 0 (table_entries t) (tbl_recs t)) \<and>
     cur_expn_tbl_cnt t = of_nat (used (table_entries t) (tot_tbl_ents t) (tbl_recs t))"

definition ct_rules :: "ct_hw_table \<Rightarrow> nat \<rightharpoonup> ipa_ipv6ct_rule" where
  "ct_rules t = rules_of (tbl_recs t)"

text \<open>What no call on rules changes.\<close>

definition same_dims :: "ct_hw_table \<Rightarrow> ct_hw_table \<Rightarrow> bool" where
  "same_dims t t' \<longleftrightarrow> table_entries t' = table_entries t \<and> tot_tbl_ents t' = tot_tbl_ents t \<and> tbl_nmi t' = tbl_nmi t"

section \<open>Addition\<close>

definition add_spec :: "ipa_ipv6ct_rule \<Rightarrow> int \<Rightarrow> ct_hw_table \<Rightarrow> int \<Rightarrow> u16 \<Rightarrow> ct_hw_table \<Rightarrow> bool" where
  "add_spec r ioctl t ret hdl t' \<longleftrightarrow> ct_inv t' \<and> same_dims t t' \<and>
     (if ret = 0 then ioctl = 0 \<and> dir_ok r \<and> (\<exists>i. 0 < i \<and> i < tot_tbl_ents t \<and> hdl = MakeEntryHdl t i \<and> ct_rules t i = None \<and>
          ct_rules t' = (ct_rules t)(i \<mapsto> stored_rule r))
      else ct_rules t' = ct_rules t)"

lemma junk_inv:
  assumes "ct_inv t" "i < tot_tbl_ents t" "\<not> en_enable (tbl_recs t ! i)" "free_rec e"
  shows "ct_inv (t\<lparr>tbl_recs := (tbl_recs t)[i := e]\<rparr>)" "ct_rules (t\<lparr>tbl_recs := (tbl_recs t)[i := e]\<rparr>) = ct_rules t"
proof -
  obtain C where C: "chained (table_entries t) (tbl_recs t) C" and s: "table_shape t" using assms(1) unfolding ct_inv_def by blast
  have e: "\<not> en_enable e" using assms(4) by (simp add: free_rec_def)
  show "ct_inv (t\<lparr>tbl_recs := (tbl_recs t)[i := e]\<rparr>)"
    using assms(1) chain_junk [OF C assms(3,4)] shape_update(1) [OF s] e assms(3) by (auto simp: ct_inv_def used_same)
  have "i < length (tbl_recs t)" using assms(2) shape_len [OF s] shape_tot [OF s] by simp
  then show "ct_rules (t\<lparr>tbl_recs := (tbl_recs t)[i := e]\<rparr>) = ct_rules t"
    using assms(3) e rules_of_update [of i "tbl_recs t" e] by (simp add: ct_rules_def live_rec_def fun_upd_idem rules_of_def)
qed

lemma stored_bucket [simp]: "bucket n (stored_rule r) = bucket n r"
  by (simp add: bucket_def ipa_ipv6ct_hash_def stored_rule_def)

lemma enabled_simps [simp]:
  "en_prev_index (enabled e) = en_prev_index e" "en_next_index (enabled e) = en_next_index e" "rule_of (enabled e) = rule_of e"
  "live_rec (enabled e) \<longleftrightarrow> en_protocol e \<noteq> 255" "en_enable (enabled e)" "rule_of (e\<lparr>en_prev_index := w\<rparr>) = rule_of e"
  by (simp_all add: enabled_def rule_of_def live_rec_def)

text \<open>The four ways in which an addition ends, given the record that it writes.\<close>

lemma add_free_spec:
  assumes inv: "ct_inv t" and i: "0 < i" "i < tot_tbl_ents t" "\<not> en_enable (tbl_recs t ! i)"
  shows "\<not> dir_ok r \<Longrightarrow> add_spec r ioctl t (- EINVAL) 0 (t\<lparr>tbl_recs := (tbl_recs t)[i := copied (tbl_recs t ! i) r]\<rparr>)"
    and "add_spec r ioctl t (- EIO) 0 (t\<lparr>tbl_recs := (tbl_recs t)[i := zero_hw_entry]\<rparr>)"
    and "add_spec r ioctl t (- 1) 0 t"
proof -
  obtain C where C: "chained (table_entries t) (tbl_recs t) C" and s: "table_shape t" using inv unfolding ct_inv_def by blast
  have "free_rec (tbl_recs t ! i)" using chained_free [OF C] i shape_len [OF s] shape_tot [OF s] by simp
  then show "add_spec r ioctl t (- EINVAL) 0 (t\<lparr>tbl_recs := (tbl_recs t)[i := copied (tbl_recs t ! i) r]\<rparr>)" if "\<not> dir_ok r"
    using junk_inv [OF inv i(2,3) copied_failed [OF that]] by (simp add: add_spec_def same_dims_def)
  show "add_spec r ioctl t (- EIO) 0 (t\<lparr>tbl_recs := (tbl_recs t)[i := zero_hw_entry]\<rparr>)"
    using junk_inv [OF inv i(2,3) free_zero] by (simp add: add_spec_def same_dims_def)
  show "add_spec r ioctl t (- 1) 0 t" using inv by (simp add: add_spec_def same_dims_def)
qed


lemma add_head_spec:
  fixes t :: ct_hw_table and r :: ipa_ipv6ct_rule
  assumes inv: "ct_inv t" and r: "ru_protocol r \<noteq> 255" "dir_ok r"
  defines "b \<equiv> bucket (table_entries t) r"
  assumes free: "\<not> en_enable (tbl_recs t ! b)"
  shows "add_spec r 0 t 0 (MakeEntryHdl t b)
    (t\<lparr>tbl_recs := (tbl_recs t)[b := enabled (copied (tbl_recs t ! b) r)], cur_tbl_cnt := cur_tbl_cnt t + 1\<rparr>)" (is "add_spec r 0 t 0 _ ?t")
proof -
  obtain C where C: "chained (table_entries t) (tbl_recs t) C" and s: "table_shape t" using inv unfolding ct_inv_def by blast
  have b: "0 < b" "b < table_entries t" "table_entries t \<le> length (tbl_recs t)" "b < length (tbl_recs t)" "b < tot_tbl_ents t"
    using bucket_bounds [OF s, of r] shape_len [OF s] shape_tot [OF s] by (simp_all add: b_def)
  have f: "free_rec (tbl_recs t ! b)" using chained_free [OF C] b free by simp
  then have e: "en_prev_index (tbl_recs t ! b) = 0" "en_next_index (tbl_recs t ! b) = 0" "rule_of (copied (tbl_recs t ! b) r) = stored_rule r"
    using copied_rule [OF r(2) f] by (simp_all add: free_rec_def)
  have ch: "chained (table_entries t) (tbl_recs ?t) C"
    using chain_head [OF C b(1-3) free, of "enabled (copied (tbl_recs t ! b) r)"] e r by (simp add: b_def)
  have "table_shape ?t" using shape_update(1) [OF s] shape_update(2) by simp
  then have "ct_inv ?t"
    using inv ch b free used_on [of b "tbl_recs t" 0 "table_entries t"] by (auto simp: ct_inv_def used_out)
  moreover have "ct_rules t b = None" using free by (simp add: ct_rules_def rules_of_def live_rec_def)
  moreover have "ct_rules ?t = (ct_rules t)(b \<mapsto> stored_rule r)" using b e r by (simp add: ct_rules_def rules_of_update)
  ultimately show ?thesis using b r by (auto simp: add_spec_def same_dims_def)
qed

lemma add_tail_spec:
  fixes t :: ct_hw_table and r :: ipa_ipv6ct_rule and C :: "nat \<Rightarrow> nat list"
  assumes inv: "ct_inv t" and C: "chained (table_entries t) (tbl_recs t) C" and r: "ru_protocol r \<noteq> 255" "dir_ok r"
  defines "b \<equiv> bucket (table_entries t) r"
  defines "l \<equiv> last_of b (C b)"
  assumes en: "en_enable (tbl_recs t ! b)" and i: "table_entries t \<le> i" "i < tot_tbl_ents t" "\<not> en_enable (tbl_recs t ! i)"
  shows "add_spec r 0 t 0 (MakeEntryHdl t i)
    (t\<lparr>tbl_recs := (tbl_recs t)
         [i := enabled ((copied (tbl_recs t ! i) r)\<lparr>en_prev_index := of_nat l\<rparr>), l := (tbl_recs t ! l)\<lparr>en_next_index := of_nat i\<rparr>],
       cur_expn_tbl_cnt := cur_expn_tbl_cnt t + 1\<rparr>)" (is "add_spec r 0 t 0 _ ?t")
proof -
  have s: "table_shape t" using inv unfolding ct_inv_def by blast
  have b: "0 < b" "b < table_entries t" "table_entries t \<le> length (tbl_recs t)"
    using bucket_bounds [OF s, of r] shape_len [OF s] by (simp_all add: b_def)
  have il: "i < length (tbl_recs t)" using i shape_len [OF s] shape_tot [OF s] by simp
  have f: "free_rec (tbl_recs t ! i)" using chained_free [OF C il i(3)] .
  then have e: "en_next_index (tbl_recs t ! i) = 0" "rule_of (copied (tbl_recs t ! i) r) = stored_rule r"
    using copied_rule [OF r(2) f] by (simp_all add: free_rec_def)
  have "seg (tbl_recs t) 0 (b # C b) 0" by (rule chained_seg [OF C b(2) en])
  moreover have "l \<in> set (b # C b)" using last_of_in [of "C b" b] by (auto simp: l_def last_of_def)
  ultimately have l: "l < length (tbl_recs t)" "en_enable (tbl_recs t ! l)" "l \<noteq> i" using seg_in i(3) by blast+
  let ?e = "enabled ((copied (tbl_recs t ! i) r)\<lparr>en_prev_index := of_nat l\<rparr>)"
  have ch: "chained (table_entries t) (tbl_recs ?t) (C(b := C b @ [i]))"
    using chain_append [OF C b en i(1) il i(3), of ?e] e r by (simp add: b_def l_def)
  have "table_shape ?t" using shape_update(1) [OF s] shape_update(3) by simp
  moreover have "used lo hi (tbl_recs ?t) = used lo hi ((tbl_recs t)[i := ?e])" for lo hi using l by (simp add: used_same)
  ultimately have "ct_inv ?t"
    using inv ch il i used_on [of i "tbl_recs t" "table_entries t" "tot_tbl_ents t" ?e] by (auto simp: ct_inv_def used_out)
  moreover have "ct_rules t i = None" using i by (simp add: ct_rules_def rules_of_def live_rec_def)
  moreover have "ct_rules ?t = (ct_rules t)(i \<mapsto> stored_rule r)"
  proof -
    have "ct_rules ?t = rules_of ((tbl_recs t)[i := ?e])"
      unfolding ct_rules_def by (rule rules_of_data) (use l in \<open>auto simp: nth_list_update\<close>)
    then show ?thesis using il e r by (simp add: ct_rules_def rules_of_update)
  qed
  moreover have "0 < i" using i b by simp
  ultimately show ?thesis using i r by (auto simp: add_spec_def same_dims_def)
qed

theorem add_refines:
  assumes inv: "ct_inv t" and hw: "documented_hardware hw" and r: "ru_protocol r \<noteq> 255"
  shows "\<exists>ret hdl t'. add_rule_section hw ioctl r t = Some (ret, hdl, t') \<and> add_spec r ioctl t ret hdl t'"
proof -
  obtain C where C: "chained (table_entries t) (tbl_recs t) C" and s: "table_shape t" using inv unfolding ct_inv_def by blast
  let ?b = "bucket (table_entries t) r"
  have b: "0 < ?b" "?b < tot_tbl_ents t" using bucket_bounds [OF s, of r] shape_tot [OF s] by simp_all
  show ?thesis
  proof (cases "en_enable (tbl_recs t ! ?b)")
    case False
    then show ?thesis
      using add_head [OF s hw False, of ioctl] add_free_spec [OF inv b False, of r ioctl] add_head_spec [OF inv r _ False]
      by (cases "dir_ok r"; cases "ioctl = 0") auto
  next
    case True
    show ?thesis
    proof (cases "find (\<lambda>i. \<not> en_enable (tbl_recs t ! i)) [table_entries t..<tot_tbl_ents t]")
      case None
      then show ?thesis using add_tail [OF s hw C True, of ioctl] inv by (simp add: add_spec_def same_dims_def)
    next
      case (Some i)
      then have i: "table_entries t \<le> i" "i < tot_tbl_ents t" "\<not> en_enable (tbl_recs t ! i)" by (auto simp: find_Some_iff)
      have i0: "0 < i" using i shape_base [OF s] by simp
      show ?thesis
        using Some add_tail [OF s hw C True, of ioctl] add_free_spec [OF inv i0 i(2,3), of r ioctl] add_tail_spec [OF inv C r _ True i]
        by (cases "dir_ok r"; cases "ioctl = 0") auto
    qed
  qed
qed


section \<open>Deletion\<close>

definition del_spec :: "u32 \<Rightarrow> int \<Rightarrow> ct_hw_table \<Rightarrow> int \<Rightarrow> ct_hw_table \<Rightarrow> bool" where
  "del_spec h ioctl t ret t' \<longleftrightarrow> ct_inv t' \<and> same_dims t t' \<and>
     (if ret = 0 then ioctl = 0 \<and> ct_rules t' = (ct_rules t)(BREAK_RULE_HDL t h := None)
      else t' = t \<and> (ioctl = 0 \<longrightarrow> ct_rules t (BREAK_RULE_HDL t h) = None))"

lemma killed_simps [simp]: "dead_rec (killed e) = en_enable e" "\<not> live_rec (killed e)" "en_enable (killed e) = en_enable e"
  "en_prev_index (killed e) = en_prev_index e" "en_next_index (killed e) = en_next_index e"
  by (simp_all add: killed_def dead_rec_def live_rec_def)

lemma zero_simps [simp]: "\<not> live_rec zero_hw_entry" "\<not> en_enable zero_hw_entry"
  by (simp_all add: zero_hw_entry_def live_rec_def)

lemma del_base_spec:
  fixes t :: ct_hw_table
  assumes inv: "ct_inv t" and C: "chained (table_entries t) (tbl_recs t) C" and i: "i < table_entries t" "en_enable (tbl_recs t ! i)"
  defines "t' \<equiv> (if C i = [] then t\<lparr>tbl_recs := (tbl_recs t)[i := zero_hw_entry], cur_tbl_cnt := cur_tbl_cnt t - 1\<rparr>
        else t\<lparr>tbl_recs := (tbl_recs t)[i := killed (tbl_recs t ! i)]\<rparr>)"
  shows "ct_inv t'" "same_dims t t'" "ct_rules t' = (ct_rules t)(i := None)"
proof -
  have s: "table_shape t" using inv unfolding ct_inv_def by blast
  have len: "table_entries t \<le> length (tbl_recs t)" "i < length (tbl_recs t)" using shape_len [OF s] i by simp_all
  have i0: "0 < i" using chained_zero [OF C] i(2) by (cases i) simp_all
  show "same_dims t t'" by (simp add: t'_def same_dims_def)
  show "ct_rules t' = (ct_rules t)(i := None)" using len i by (simp add: t'_def ct_rules_def rules_of_update)
  show "ct_inv t'"
  proof (cases "C i = []")
    case True
    have "table_shape t'" using shape_update(1) [OF s] shape_update(2) True by (simp add: t'_def)
    then show ?thesis
      using inv chain_free [OF C i0 i(1) len(1) True free_zero] i True len used_off [of i "tbl_recs t" 0 "table_entries t" zero_hw_entry]
      by (auto simp: ct_inv_def t'_def used_out algebra_simps simp flip: of_nat_Suc)
  next
    case False
    have "table_shape t'" using shape_update(1) [OF s] False by (simp add: t'_def)
    then show ?thesis using inv chain_kill [OF C i0 i(1) len(1) False, of "killed (tbl_recs t ! i)"] i(2) False by (auto simp: ct_inv_def t'_def used_same)
  qed
qed

lemma del_expn_spec:
  fixes t :: ct_hw_table
  assumes inv: "ct_inv t" and ch: "chained (table_entries t) (tbl_recs t) C" and b: "b < table_entries t" and C: "C b = xs @ i # zs"
  defines "t' \<equiv> (if xs @ zs = [] \<and> dead_rec (tbl_recs t ! b)
        then t\<lparr>tbl_recs := (tbl_recs t)[b := zero_hw_entry, i := zero_hw_entry], cur_tbl_cnt := cur_tbl_cnt t - 1, cur_expn_tbl_cnt := cur_expn_tbl_cnt t - 1\<rparr>
        else t\<lparr>tbl_recs := (unlinked b xs i zs (tbl_recs t))[i := zero_hw_entry], cur_expn_tbl_cnt := cur_expn_tbl_cnt t - 1\<rparr>)"
  shows "ct_inv t'" "same_dims t t'" "ct_rules t' = (ct_rules t)(i := None)"
proof -
  have s: "table_shape t" using inv unfolding ct_inv_def by blast
  have en: "en_enable (tbl_recs t ! b)" and i: "i < length (tbl_recs t)" "en_enable (tbl_recs t ! i)" "table_entries t \<le> i" "i \<noteq> b"
    using chain_enabled [OF ch b, of i] C b by auto
  have len: "table_entries t \<le> length (tbl_recs t)" "length (tbl_recs t) = tot_tbl_ents t" using shape_len [OF s] shape_tot [OF s] by simp_all
  have b0: "0 < b" using chained_zero [OF ch] en by (cases b) simp_all
  show "same_dims t t'" by (simp add: t'_def same_dims_def)
  have u: "rules_of (unlinked b xs i zs (tbl_recs t)) = rules_of (tbl_recs t)"
    "hi \<le> length (tbl_recs t) \<Longrightarrow> used lo hi (unlinked b xs i zs (tbl_recs t)) = used lo hi (tbl_recs t)"
    "en_enable (unlinked b xs i zs (tbl_recs t) ! i)" for lo hi
    using unlinked_data [of _ "tbl_recs t" b xs i zs] i by (auto intro: rules_of_data used_data simp: rec_data_def)
  show "ct_rules t' = (ct_rules t)(i := None)"
  proof (cases "xs @ zs = [] \<and> dead_rec (tbl_recs t ! b)")
    case True
    then have "rules_of (tbl_recs t) b = None" by (simp add: rules_of_def live_rec_def dead_rec_def)
    then show ?thesis using True i b len by (simp add: t'_def ct_rules_def rules_of_update fun_upd_idem)
  next
    case False
    show ?thesis unfolding t'_def if_not_P [OF False] using i u by (simp add: ct_rules_def rules_of_update)
  qed
  show "ct_inv t'"
  proof (cases "xs @ zs = [] \<and> dead_rec (tbl_recs t ! b)")
    case True
    let ?r = "(tbl_recs t)[b := zero_hw_entry, i := zero_hw_entry]"
    have "chained (table_entries t) ?r (C(b := []))"
      by (rule chain_last [OF ch b0 b len(1)]) (use True C in simp_all)
    moreover have "table_shape t'" using shape_update(1) [OF s, of ?r] True by (simp add: t'_def shape_update(2,3))
    moreover have "Suc (used 0 (table_entries t) ?r) = used 0 (table_entries t) (tbl_recs t)"
      using used_off [of b "tbl_recs t" 0 "table_entries t" zero_hw_entry] b en len i by (simp add: used_out)
    moreover have "Suc (used (table_entries t) (tot_tbl_ents t) ?r) = used (table_entries t) (tot_tbl_ents t) (tbl_recs t)"
      using used_off [of i "(tbl_recs t)[b := zero_hw_entry]" "table_entries t" "tot_tbl_ents t" zero_hw_entry] b i len by (simp add: used_out)
    ultimately show ?thesis using inv True by (auto simp: ct_inv_def t'_def algebra_simps simp flip: of_nat_Suc)
  next
    case False
    let ?r = "(unlinked b xs i zs (tbl_recs t))[i := zero_hw_entry]"
    have "chained (table_entries t) ?r (C(b := xs @ zs))"
      by (rule chain_remove [OF ch b0 b len(1) C _ free_zero]) (use False in blast)
    moreover have t': "t' = t\<lparr>tbl_recs := ?r, cur_expn_tbl_cnt := cur_expn_tbl_cnt t - 1\<rparr>" unfolding t'_def by (rule if_not_P [OF False])
    moreover have "table_shape t'" unfolding t' shape_update(3) using shape_update(1) [OF s, of ?r] by simp
    moreover have "used 0 (table_entries t) ?r = used 0 (table_entries t) (tbl_recs t)" using i u len by (simp add: used_out)
    moreover have "Suc (used (table_entries t) (tot_tbl_ents t) ?r) = used (table_entries t) (tot_tbl_ents t) (tbl_recs t)"
      using used_off [of i "unlinked b xs i zs (tbl_recs t)" "table_entries t" "tot_tbl_ents t" zero_hw_entry] i u len by simp
    ultimately show ?thesis using inv by (auto simp: ct_inv_def algebra_simps simp flip: of_nat_Suc)
  qed
qed

theorem del_refines:
  assumes inv: "ct_inv t" and hw: "documented_hardware hw"
  shows "\<exists>ret t'. del_rule_section hw ioctl h t = (ret, t') \<and> del_spec h ioctl t ret t'"
proof -
  obtain C where C: "chained (table_entries t) (tbl_recs t) C" and s: "table_shape t" using inv unfolding ct_inv_def by blast
  let ?i = "BREAK_RULE_HDL t h"
  have dims: "same_dims t t" by (simp add: same_dims_def)
  consider (none) "?i \<ge> tot_tbl_ents t \<or> \<not> en_enable (tbl_recs t ! ?i)" | (fail) "ioctl \<noteq> 0"
    | (base) "ioctl = 0" "?i < table_entries t" "en_enable (tbl_recs t ! ?i)"
    | (expn) "ioctl = 0" "table_entries t \<le> ?i" "?i < tot_tbl_ents t" "en_enable (tbl_recs t ! ?i)" by linarith
  then show ?thesis
  proof cases
    case none
    then have "ct_rules t ?i = None" using shape_len [OF s] shape_tot [OF s] by (auto simp: ct_rules_def rules_of_def live_rec_def)
    then show ?thesis using del_free [OF s none] inv dims by (simp add: del_spec_def)
  next
    case fail
    then show ?thesis using del_fails [OF s hw fail, of h] inv dims by (auto simp: del_spec_def)
  next
    case base
    then show ?thesis using del_base [OF s hw C base(2,3)] del_base_spec [OF inv C base(2,3)] by (simp add: del_spec_def)
  next
    case expn
    then obtain b where b: "b < table_entries t" "?i \<in> set (C b)" using chained_cover [OF C expn(2) _ expn(4)] shape_len [OF s] shape_tot [OF s] by auto
    then obtain xs zs where "C b = xs @ ?i # zs" by (meson split_list)
    then show ?thesis using del_expn [OF s hw C b(1)] del_expn_spec [OF inv C b(1)] expn(1) by (simp add: del_spec_def)
  qed
qed

end
