(* ===== verification/Ct_Lookup.thy ===== *)
theory Ct_Lookup
  imports Ct_Inv
begin

text \<open>
  Facts on a single table: what a reader of its chains finds, the handles of its records, its dimensions,
  the hash, the room that it offers, and the largest table for the memory of the hardware.
\<close>

section \<open>Reading a chain\<close>

text \<open>The connection of a packet is looked up in the chain of its hash; \<open>n\<close> bounds the number of records read.\<close>

fun chain_find :: "nat \<Rightarrow> ipa_ipv6ct_hw_entry list \<Rightarrow> nat \<Rightarrow> (ipa_ipv6ct_hw_entry \<Rightarrow> bool) \<Rightarrow> nat option" where
  "chain_find 0 recs i P = None"
| "chain_find (Suc n) recs i P =
     (if i \<ge> length recs \<or> \<not> en_enable (recs ! i) then None
      else if P (recs ! i) then Some i
      else if en_next_index (recs ! i) = 0 then None
      else chain_find n recs (unat (en_next_index (recs ! i))) P)"

definition same_connection :: "ipa_ipv6ct_rule \<Rightarrow> ipa_ipv6ct_rule \<Rightarrow> bool" where
  "same_connection r k \<longleftrightarrow> ru_src_ipv6_lsb r = ru_src_ipv6_lsb k \<and> ru_src_ipv6_msb r = ru_src_ipv6_msb k \<and>
     ru_dest_ipv6_lsb r = ru_dest_ipv6_lsb k \<and> ru_dest_ipv6_msb r = ru_dest_ipv6_msb k \<and>
     ru_src_port r = ru_src_port k \<and> ru_dest_port r = ru_dest_port k \<and> ru_protocol r = ru_protocol k"

definition ct_lookup :: "ct_hw_table \<Rightarrow> ipa_ipv6ct_rule \<Rightarrow> nat option" where
  "ct_lookup t k = chain_find (tot_tbl_ents t) (tbl_recs t) (bucket (table_entries t) k)
     (\<lambda>e. live_rec e \<and> same_connection (rule_of e) k)"

lemma same_bucket: "same_connection r k \<Longrightarrow> bucket n r = bucket n k"
  by (simp add: same_connection_def bucket_def ipa_ipv6ct_hash_def)

lemma chain_find_seg:
  assumes "seg recs p (i # is) 0" "length recs < 2 ^ 16" "0 \<notin> set is" "length (i # is) \<le> n"
  shows "chain_find n recs i P = find (\<lambda>j. P (recs ! j)) (i # is)"
  using assms
proof (induction "is" arbitrary: p i n)
  case Nil
  then show ?case by (cases n) auto
next
  case (Cons j js)
  then obtain m where m: "n = Suc m" by (cases n) auto
  have j: "unat (en_next_index (recs ! i)) = j" "j \<noteq> 0"
    using Cons.prems by (auto simp: unat_of_nat take_bit_nat_eq_self)
  then have "en_next_index (recs ! i) \<noteq> 0" by auto
  moreover have "chain_find m recs j P = find (\<lambda>j. P (recs ! j)) (j # js)"
    by (rule Cons.IH [of i]) (use Cons.prems m in auto)
  ultimately show ?case using Cons.prems(1) m j(1) by (simp del: find.simps(2)) (simp add: j)
qed

lemma lookup_find:
  assumes inv: "ct_inv t" and C: "chained (table_entries t) (tbl_recs t) C"
  defines "P \<equiv> \<lambda>k j. live_rec (tbl_recs t ! j) \<and> same_connection (rule_of (tbl_recs t ! j)) k"
  shows "ct_lookup t k = (if en_enable (tbl_recs t ! bucket (table_entries t) k)
    then find (P k) (bucket (table_entries t) k # C (bucket (table_entries t) k)) else None)"
proof -
  let ?b = "bucket (table_entries t) k"
  have s: "table_shape t" using inv by (simp add: ct_inv_def)
  have b: "?b < table_entries t" by (rule bucket_bounds [OF s])
  have len: "length (tbl_recs t) = tot_tbl_ents t" "tot_tbl_ents t < 2 ^ 16" "?b < tot_tbl_ents t" "0 < tot_tbl_ents t"
    using shape_len [OF s] shape_tot [OF s] shape_base [OF s] shape_expn [OF s] b by simp_all
  show ?thesis
  proof (cases "en_enable (tbl_recs t ! ?b)")
    case True
    have "distinct (?b # C ?b)" "set (?b # C ?b) \<subseteq> {..<tot_tbl_ents t}" "0 \<notin> set (C ?b)"
      using chained_distinct [OF C b] chained_range [OF C b] b len by auto
    moreover from this have "length (?b # C ?b) \<le> tot_tbl_ents t"
      using card_mono [of "{..<tot_tbl_ents t}" "set (?b # C ?b)"] distinct_card [of "?b # C ?b"] by simp
    ultimately show ?thesis
      using True chain_find_seg [OF chained_seg [OF C b True]] len by (simp add: ct_lookup_def P_def)
  next
    case False
    then show ?thesis using len by (cases "tot_tbl_ents t") (simp_all add: ct_lookup_def)
  qed
qed

lemma lookup_exact:
  assumes "ct_inv t"
  shows "case ct_lookup t k of Some i \<Rightarrow> \<exists>r. ct_rules t i = Some r \<and> same_connection r k
    | None \<Rightarrow> \<forall>i r. ct_rules t i = Some r \<longrightarrow> \<not> same_connection r k"
proof -
  obtain C where C: "chained (table_entries t) (tbl_recs t) C" and s: "table_shape t" using assms unfolding ct_inv_def by blast
  let ?b = "bucket (table_entries t) k"
  have b: "?b < table_entries t" by (rule bucket_bounds [OF s])
  show ?thesis
  proof (cases "ct_lookup t k")
    case None
    have False if r: "ct_rules t i = Some r" "same_connection r k" for i r
    proof -
      have i: "i < length (tbl_recs t)" "live_rec (tbl_recs t ! i)" "same_connection (rule_of (tbl_recs t ! i)) k"
        using r by (auto simp: ct_rules_def rules_of_def split: if_splits)
      then have en: "en_enable (tbl_recs t ! i)" by (simp add: live_rec_def)
      obtain c where c: "c < table_entries t" "i \<in> set (c # C c)"
        using chained_cover [OF C _ i(1) en] by (cases "i < table_entries t") auto
      have "c = ?b" using chained_bucket [OF C c i(2)] same_bucket [OF i(3)] by simp
      then have "i \<in> set (?b # C ?b)" "en_enable (tbl_recs t ! ?b)" using c chain_enabled [OF C c(1), of i] en by auto
      then have "find (\<lambda>j. live_rec (tbl_recs t ! j) \<and> same_connection (rule_of (tbl_recs t ! j)) k) (?b # C ?b) = None"
        and "i \<in> set (?b # C ?b)" using None lookup_find [OF assms C, of k] by (simp_all del: find.simps)
      then show False unfolding find_None_iff using i by blast
    qed
    then show ?thesis using None by auto
  next
    case (Some i)
    then have en: "en_enable (tbl_recs t ! ?b)" and f: "find (\<lambda>j. live_rec (tbl_recs t ! j) \<and> same_connection (rule_of (tbl_recs t ! j)) k) (?b # C ?b) = Some i"
      using lookup_find [OF assms C, of k] by (auto split: if_splits)
    from f have i: "i \<in> set (?b # C ?b)" "live_rec (tbl_recs t ! i)" "same_connection (rule_of (tbl_recs t ! i)) k"
      unfolding find_Some_iff by (metis nth_mem)+
    then have "i < length (tbl_recs t)" using seg_in [OF chained_seg [OF C b en]] by blast
    then show ?thesis using Some i by (simp add: ct_rules_def rules_of_def)
  qed
qed


section \<open>Handles\<close>

lemma handle_bits:
  assumes "k < 4096"
  shows "unat (drop_bit 1 (ucast (push_bit 1 (of_nat k) OR of_bool e :: u16) :: u32) AND 0xFFF) = k"
    and "(ucast (push_bit 1 (of_nat k) OR of_bool e :: u16) :: u32) AND 1 = of_bool e"
proof -
  define w :: u16 where "w = push_bit 1 (of_nat k) OR of_bool e"
  have "push_bit 1 (of_nat k) = (of_nat (2 * k) :: u16)" by (simp add: push_bit_eq_mult)
  moreover have "even (of_nat (2 * k) :: u16)" by simp
  ultimately have "w = of_nat (2 * k + of_bool e)" by (cases e) (simp_all add: w_def or_one_eq)
  then have u: "unat w = 2 * k + of_bool e" using assms by (cases e) (simp_all add: unat_of_nat take_bit_nat_eq_self del: of_nat_add of_nat_mult of_nat_Suc)
  then have v: "unat (ucast w :: u32) = 2 * k + of_bool e" using assms by (cases e) (simp_all add: unsigned_ucast_eq take_bit_nat_eq_self)
  have m: "(0xFFF :: u32) = mask 12" by (simp add: mask_eq_exp_minus_1)
  have "unat (drop_bit 1 (ucast w :: u32) AND 0xFFF) = k"
    unfolding m take_bit_eq_mask [symmetric] unsigned_take_bit_eq unat_drop_bit_eq v
    using assms by (cases e) (simp_all add: drop_bit_Suc take_bit_nat_eq_self)
  then show "unat (drop_bit 1 (ucast (push_bit 1 (of_nat k) OR of_bool e :: u16) :: u32) AND 0xFFF) = k" by (simp add: w_def)
  have "unat ((ucast w :: u32) AND 1) = unat (of_bool e :: u32)"
    unfolding and_one_eq using v by (cases e) (simp_all add: unat_mod)
  then show "(ucast (push_bit 1 (of_nat k) OR of_bool e :: u16) :: u32) AND 1 = of_bool e" by (simp add: w_def word_unat_eq_iff)
qed

lemma make_hdl: "tbl_nmi t = 0 \<Longrightarrow> MakeEntryHdl t i =
    (let e = (i \<ge> table_entries t); k = (if e then i - table_entries t else i) in push_bit 1 (of_nat k) OR of_bool e)"
  by (simp add: MakeEntryHdl_def Let_def)

lemma handle_index:
  assumes s: "table_shape t" and i: "i < tot_tbl_ents t"
  shows "BREAK_RULE_HDL t (ucast (MakeEntryHdl t i)) = i"
proof -
  define k where "k = (if i \<ge> table_entries t then i - table_entries t else i)"
  have k: "k < 4096" using i shape_base [OF s] shape_expn [OF s] shape_tot [OF s] by (auto simp: k_def)
  have "MakeEntryHdl t i = push_bit 1 (of_nat k) OR of_bool (i \<ge> table_entries t)"
    using make_hdl [OF shape_nmi [OF s]] by (simp add: k_def Let_def)
  then show ?thesis using handle_bits [OF k, of "i \<ge> table_entries t"] by (auto simp: BREAK_RULE_HDL_def k_def)
qed

lemma handle_nonzero:
  assumes s: "table_shape t" and i: "0 < i" "i < tot_tbl_ents t"
  shows "MakeEntryHdl t i \<noteq> 0"
proof
  assume "MakeEntryHdl t i = 0"
  then have "BREAK_RULE_HDL t 0 = i" using handle_index [OF s i(2)] by simp
  then show False using i by (simp add: BREAK_RULE_HDL_def)
qed

section \<open>Dimensions\<close>

lemma bit_len_le: "p < 2 ^ j \<Longrightarrow> bit_len p \<le> j"
proof (induction j arbitrary: p)
  case (Suc j)
  then have "bit_len (p div 2) \<le> j" by simp
  then show ?case by (subst bit_len.simps) simp
qed (simp add: bit_len.simps)

lemma float_times_le: "float_times prec n (m, e) \<le> (n * m + 2 ^ (bit_len (n * m) - prec)) div 2 ^ e"
proof -
  define p where "p = n * m"
  define k where "k = bit_len p - prec"
  have le: "(if c then p div 2 ^ k + 1 else p div 2 ^ k) * 2 ^ k \<le> p + 2 ^ k" for c
    using div_times_less_eq_dividend [of p "2 ^ k"] by (cases c) (simp_all add: add_mult_distrib trans_le_add1)
  show ?thesis
    unfolding float_times_def Let_def prod.case p_def [symmetric] k_def [symmetric] by (rule div_le_mono) (rule le)
qed

lemma float_bounds:
  assumes "n \<le> IPA_TABLE_MAX_ENTRIES"
  shows "float_times 24 n IPA_BASE_TABLE_PERCENTAGE \<le> 4096" "float_times 24 n IPA_EXPANSION_TABLE_PERCENTAGE \<le> 1024"
proof -
  have p: "n * 13421773 \<le> 5120 * 13421773" using assms by simp
  then have "n * 13421773 < 2 ^ 37" by simp
  from bit_len_le [OF this] have "(2::nat) ^ (bit_len (n * 13421773) - 24) \<le> 2 ^ 13" by (intro power_increasing) simp_all
  with p have le: "n * 13421773 + 2 ^ (bit_len (n * 13421773) - 24) \<le> 5120 * 13421773 + 8192" by simp
  show "float_times 24 n IPA_BASE_TABLE_PERCENTAGE \<le> 4096"
    using order_trans [OF float_times_le div_le_mono [OF le], of 24] by (simp add: IPA_BASE_TABLE_PERCENTAGE_def)
  show "float_times 24 n IPA_EXPANSION_TABLE_PERCENTAGE \<le> 1024"
    using order_trans [OF float_times_le div_le_mono [OF le], of 26] by (simp add: IPA_EXPANSION_TABLE_PERCENTAGE_def)
qed

lemma tight_loop_power:
  assumes "2 ^ m \<le> tmp" "tmp < 2 ^ Suc m" "0 < j"
  shows "tight_loop tmp prev (of_nat (2 ^ j)) = (if m = 0 then prev else of_nat (2 ^ (j + m - 1)), of_nat (2 ^ (j + m)))"
  using assms
proof (induction m arbitrary: tmp prev j)
  case 0
  then show ?case by (subst tight_loop.simps) simp
next
  case (Suc m)
  have s: "push_bit 1 (of_nat (2 ^ j)) = (of_nat (2 ^ Suc j) :: u16)" by (simp add: push_bit_eq_mult)
  have "tight_loop tmp prev (of_nat (2 ^ j)) = tight_loop (tmp div 2) (of_nat (2 ^ j)) (of_nat (2 ^ Suc j))"
  proof -
    have "(1::nat) \<le> 2 ^ m" by simp
    then have "\<not> tmp \<le> 1" using Suc.prems(1) unfolding power_Suc by linarith
    then show ?thesis by (subst tight_loop.simps) (simp only: if_False s)
  qed
  also have "\<dots> = (if m = 0 then of_nat (2 ^ j) else of_nat (2 ^ (Suc j + m - 1)), of_nat (2 ^ (Suc j + m)))"
    by (rule Suc.IH) (use Suc.prems in auto)
  finally show ?case by (cases m) simp_all
qed

lemma power_bound:
  assumes "unat n \<le> 4096"
  shows "\<exists>k. 1 \<le> k \<and> k \<le> 12 \<and> unat (Get2PowerTightUpperBound n) = 2 ^ k \<and> unat n \<le> 2 ^ k \<and> (k = 1 \<or> 2 ^ (k - 1) < unat n)"
proof (cases "n = 0")
  case True
  then show ?thesis by (intro exI [of _ 1]) (simp add: Get2PowerTightUpperBound_def)
next
  case False
  then have n: "0 < unat n" by (simp add: unat_gt_0)
  obtain m where m: "2 ^ m \<le> unat n" "unat n < 2 ^ Suc m" using ex_power_ivl1 [of 2 "unat n"] n by auto
  have "(2::nat) ^ m \<le> 2 ^ 12" using m assms by simp
  then have m12: "m \<le> 12" by (rule power_le_imp_le_exp [rotated]) simp
  have loop: "tight_loop (unat n) 0 2 = (if m = 0 then 0 else of_nat (2 ^ m), of_nat (2 ^ Suc m))"
    using tight_loop_power [OF m, of 1 0] by simp
  have small: "unat (of_nat (2 ^ j) :: u16) = 2 ^ j" if "j \<le> 13" for j
  proof -
    have "(2::nat) ^ j \<le> 2 ^ 13" using that by (rule power_increasing) simp
    then show ?thesis by (simp add: unat_of_nat take_bit_nat_eq_self del: of_nat_power)
  qed
  show ?thesis
  proof (cases "m > 0 \<and> unat n = 2 ^ m")
    case True
    then have "n = of_nat (2 ^ m)" unfolding word_unat_eq_iff using small [of m] m12 by (simp del: of_nat_power)
    then have "Get2PowerTightUpperBound n = of_nat (2 ^ m)" using False loop True by (simp add: Get2PowerTightUpperBound_def del: of_nat_power)
    then show ?thesis using True m12 small [of m] by (intro exI [of _ m]) (auto simp: power_strict_increasing)
  next
    case False
    then have ne: "m = 0 \<or> n \<noteq> of_nat (2 ^ m)" using small [of m] m12 by auto
    then have g: "Get2PowerTightUpperBound n = of_nat (2 ^ Suc m)" using \<open>n \<noteq> 0\<close> loop by (auto simp: Get2PowerTightUpperBound_def simp del: of_nat_power power_Suc)
    have "m \<noteq> 12" using False m assms by (cases "m = 12") auto
    then show ?thesis using g False m m12 small [of "Suc m"] by (intro exI [of _ "Suc m"]) (auto simp: le_less)
  qed
qed


text \<open>In DDR every number of entries up to the maximum is accepted, and only those.\<close>

definition dims_of :: "nat \<Rightarrow> nat \<Rightarrow> nat \<Rightarrow> bool" where
  "dims_of n base expn \<longleftrightarrow>
     (\<exists>k. 1 \<le> k \<and> k \<le> 12 \<and> base = 2 ^ k \<and> float_times 24 n IPA_BASE_TABLE_PERCENTAGE \<le> 2 ^ k \<and>
        (k = 1 \<or> 2 ^ (k - 1) < float_times 24 n IPA_BASE_TABLE_PERCENTAGE)) \<and>
     even expn \<and> 2 \<le> expn \<and> expn \<le> 1024 \<and> float_times 24 n IPA_EXPANSION_TABLE_PERCENTAGE \<le> expn \<and>
     base + expn \<le> IPA_TABLE_MAX_ENTRIES"

lemma even_bound:
  assumes "unat n \<le> 1024"
  defines "expn \<equiv> GetEvenTightUpperBound n"
  shows "even expn" "2 \<le> expn" "expn \<le> 1024" "unat n \<le> expn"
proof -
  have "2 \<le> unat n" if "n \<noteq> 0" "even (unat n)"
  proof -
    have "unat n \<noteq> 0" using that by (simp add: unat_eq_0)
    with that(2) show ?thesis by presburger
  qed
  moreover have "unat n + 1 \<le> 1024" if "odd (unat n)" using that assms by presburger
  ultimately show "even expn" "2 \<le> expn" "expn \<le> 1024" "unat n \<le> expn"
    using assms(1) by (auto simp: expn_def GetEvenTightUpperBound_def odd_iff_mod_2_eq_one elim: oddE)
qed

lemma calculate_entries:
  shows "unat n > IPA_TABLE_MAX_ENTRIES \<Longrightarrow> ipa_table_calculate_entries_num n IPA_NAT_MEM_IN_DDR t = (- EINVAL, t)"
    and "unat n \<le> IPA_TABLE_MAX_ENTRIES \<Longrightarrow> \<exists>base expn. dims_of (unat n) base expn \<and>
      ipa_table_calculate_entries_num n IPA_NAT_MEM_IN_DDR t = (0, t\<lparr>tot_tbl_ents := base + expn, table_entries := base, expn_table_entries := expn\<rparr>)"
proof -
  show "unat n > IPA_TABLE_MAX_ENTRIES \<Longrightarrow> ipa_table_calculate_entries_num n IPA_NAT_MEM_IN_DDR t = (- EINVAL, t)"
    by (simp add: ipa_table_calculate_entries_num_def)
next
  assume n: "unat n \<le> IPA_TABLE_MAX_ENTRIES"
  define f1 where "f1 = float_times 24 (unat n) IPA_BASE_TABLE_PERCENTAGE"
  define f2 where "f2 = float_times 24 (unat n) IPA_EXPANSION_TABLE_PERCENTAGE"
  have f: "f1 \<le> 4096" "f2 \<le> 1024" using float_bounds [OF n] by (simp_all add: f1_def f2_def)
  have u: "unat (of_nat f1 :: u16) = f1" "unat (of_nat f2 :: u16) = f2" using f by (simp_all add: unat_of_nat take_bit_nat_eq_self)
  define expn where "expn = GetEvenTightUpperBound (of_nat f2)"
  obtain k where k: "1 \<le> k" "k \<le> 12" "unat (Get2PowerTightUpperBound (of_nat f1)) = 2 ^ k" "f1 \<le> 2 ^ k" "k = 1 \<or> 2 ^ (k - 1) < f1"
    using power_bound [of "of_nat f1"] f u by auto
  note e = even_bound [of "of_nat f2", folded expn_def, unfolded u(2), OF f(2)]
  have "unat (of_nat expn :: u16) = expn" using e(3) by (simp add: unat_of_nat take_bit_nat_eq_self)
  moreover have "(2::nat) ^ k \<le> 2 ^ 12" using k(2) by (rule power_increasing) simp
  ultimately have "dims_of (unat n) (2 ^ k) expn" "ipa_table_calculate_entries_num n IPA_NAT_MEM_IN_DDR t =
      (0, t\<lparr>tot_tbl_ents := 2 ^ k + expn, table_entries := 2 ^ k, expn_table_entries := expn\<rparr>)"
    using n k e by (auto simp: dims_of_def ipa_table_calculate_entries_num_def f1_def [symmetric] f2_def [symmetric] expn_def [symmetric] Let_def)
  then show "\<exists>base expn. dims_of (unat n) base expn \<and>
      ipa_table_calculate_entries_num n IPA_NAT_MEM_IN_DDR t = (0, t\<lparr>tot_tbl_ents := base + expn, table_entries := base, expn_table_entries := expn\<rparr>)"
    by blast
qed

section \<open>The hash\<close>

text \<open>The loop folds the four halves of a half address.\<close>

definition half :: "u64 \<Rightarrow> nat \<Rightarrow> u16" where
  "half w i = ucast (drop_bit (16 * i) w)"

lemma ucast_and_mask: "(ucast (w AND 0xFFFF) :: u16) = ucast (w :: u64)"
proof -
  have m: "(0xFFFF :: u64) = mask 16" by (simp add: mask_eq_exp_minus_1)
  show ?thesis unfolding m by (rule bit_word_eqI) (simp add: bit_ucast_iff bit_and_iff bit_mask_iff)
qed

lemma xor_step: "xor_segments w r = xor_segments (drop_bit 16 w) (r XOR half w 0)"
proof (cases "w = 0")
  case True
  then show ?thesis by (simp add: half_def xor_segments.simps)
next
  case False
  then show ?thesis by (subst xor_segments.simps) (simp add: half_def ucast_and_mask)
qed

lemma xor_four: "ipa_ipv6ct_xor_segments w = half w 0 XOR half w 1 XOR half w 2 XOR half w 3"
proof -
  have d: "drop_bit 16 (drop_bit 16 (drop_bit 16 (drop_bit 16 w))) = 0"
    by (rule bit_word_eqI) (simp add: bit_drop_bit_eq)
  have h: "half (drop_bit 16 w) 0 = half w 1" "half (drop_bit 16 (drop_bit 16 w)) 0 = half w 2"
    "half (drop_bit 16 (drop_bit 16 (drop_bit 16 w))) 0 = half w 3" "half (drop_bit 32 w) 0 = half w 2" "half (drop_bit 48 w) 0 = half w 3" by (simp_all add: half_def)
  show ?thesis
    unfolding ipa_ipv6ct_xor_segments_def
    by (subst xor_step, subst xor_step, subst xor_step, subst xor_step) (simp add: d h xor_segments.simps ac_simps)
qed


section \<open>Room\<close>

text \<open>A record of the expansion table that is in use holds a rule; so with fewer rules than such records there is a free one.\<close>

lemma free_slot:
  assumes inv: "ct_inv t" and few: "card (dom (ct_rules t)) < expn_table_entries t"
  shows "find (\<lambda>i. \<not> en_enable (tbl_recs t ! i)) [table_entries t..<tot_tbl_ents t] \<noteq> None"
proof
  assume full: "find (\<lambda>i. \<not> en_enable (tbl_recs t ! i)) [table_entries t..<tot_tbl_ents t] = None"
  obtain C where C: "chained (table_entries t) (tbl_recs t) C" and s: "table_shape t" using inv unfolding ct_inv_def by blast
  have "{table_entries t..<tot_tbl_ents t} \<subseteq> dom (ct_rules t)"
  proof
    fix i assume i: "i \<in> {table_entries t..<tot_tbl_ents t}"
    then have l: "i < length (tbl_recs t)" "en_enable (tbl_recs t ! i)" using full shape_len [OF s] shape_tot [OF s] by (auto simp: find_None_iff)
    moreover have "\<not> dead_rec (tbl_recs t ! i)" using chained_dead [OF C l(1)] i by auto
    ultimately show "i \<in> dom (ct_rules t)" by (auto simp: ct_rules_def rules_of_def live_rec_def dead_rec_def)
  qed
  moreover have "finite (dom (ct_rules t))"
    by (rule finite_subset [of _ "{..<length (tbl_recs t)}"]) (auto simp: ct_rules_def rules_of_def split: if_splits)
  ultimately have "card {table_entries t..<tot_tbl_ents t} \<le> card (dom (ct_rules t))" by (rule card_mono [rotated])
  then show False using few shape_tot [OF s] by simp
qed

lemma add_room:
  assumes inv: "ct_inv t" and hw: "documented_hardware hw" and few: "card (dom (ct_rules t)) < expn_table_entries t" and r: "dir_ok r"
  shows "\<exists>hdl t'. add_rule_section hw 0 r t = Some (0, hdl, t')"
proof -
  obtain C where C: "chained (table_entries t) (tbl_recs t) C" and s: "table_shape t" using inv unfolding ct_inv_def by blast
  show ?thesis
    using free_slot [OF inv few] add_head [OF s hw, of r 0] add_tail [OF s hw C, of r 0] r
    by (cases "en_enable (tbl_recs t ! bucket (table_entries t) r)") auto
qed

section \<open>The memory of the hardware\<close>

lemma sram_loop_least:
  assumes "a \<le> m" "m < 2 ^ 16" "\<And>j. a \<le> j \<Longrightarrow> j < m \<Longrightarrow> sram_size_of (of_nat j) s1 s2 \<le> sram"
    and "sram < sram_size_of (of_nat m) s1 s2"
  shows "sram_loop sram s1 s2 (of_nat a) num = Some (if a = m then num else of_nat (m - 1))"
  using assms
proof (induction "m - a" arbitrary: a num)
  case 0
  then show ?case by (subst sram_loop.simps) simp
next
  case (Suc d)
  then have "a < m" by simp
  then have "sram_loop sram s1 s2 (of_nat a) num = sram_loop sram s1 s2 (of_nat (Suc a)) (of_nat a)"
    using Suc.prems(3) [of a] by (subst sram_loop.simps) (simp add: add.commute)
  also have "\<dots> = Some (if Suc a = m then of_nat a else of_nat (m - 1))"
    by (rule Suc.hyps(1)) (use Suc.prems Suc.hyps(2) \<open>a < m\<close> in auto)
  finally show ?case using \<open>a < m\<close> by auto
qed

lemma sram_entries_least:
  assumes "1 \<le> k" "k < 2 ^ 16" "sram < sram_size_of (of_nat k) s1 s2"
  shows "\<exists>n<k. ipa_calc_num_sram_table_entries sram s1 s2 = Some (if n = 0 then - 1 else 0, of_nat n) \<and>
    sram < sram_size_of (of_nat (Suc n)) s1 s2 \<and> (\<forall>j\<in>{1..n}. sram_size_of (of_nat j) s1 s2 \<le> sram)"
proof -
  define m where "m = (LEAST m. 1 \<le> m \<and> sram < sram_size_of (of_nat m) s1 s2)"
  have m: "1 \<le> m \<and> sram < sram_size_of (of_nat m) s1 s2" unfolding m_def by (rule LeastI [of _ k]) (use assms in simp)
  have mk: "m \<le> k" unfolding m_def by (rule Least_le) (use assms in simp)
  have small: "sram_size_of (of_nat j) s1 s2 \<le> sram" if "1 \<le> j" "j < m" for j
    using not_less_Least [of j "\<lambda>m. 1 \<le> m \<and> sram < sram_size_of (of_nat m) s1 s2"] that by (auto simp: m_def not_less)
  define n where "n = m - 1"
  have n: "m = Suc n" "n < k" "n < 2 ^ 16" using m mk assms by (auto simp: n_def)
  have "sram_loop sram s1 s2 (of_nat 1) 0 = Some (if 1 = m then 0 else of_nat (m - 1))"
    by (rule sram_loop_least) (use m mk assms small in auto)
  then have "sram_loop sram s1 s2 1 0 = Some (of_nat n)" using n by (cases n) simp_all
  moreover have "(of_nat n :: u16) = 0 \<longleftrightarrow> n = 0"
  proof -
    have "unat (of_nat n :: u16) = n" using n(3) by (simp add: unat_of_nat take_bit_nat_eq_self)
    then show ?thesis using unat_eq_0 [of "of_nat n :: u16"] by argo
  qed
  ultimately have "ipa_calc_num_sram_table_entries sram s1 s2 = Some (if n = 0 then - 1 else 0, of_nat n)"
    by (simp add: ipa_calc_num_sram_table_entries_def)
  then show ?thesis using n m small by (intro exI [of _ n]) auto
qed

end
