(* ===== verification/Ct_Store.thy ===== *)
theory Ct_Store
  imports Prelude
begin

text \<open>
  The contract of a store of rules with handles, and a client that knows nothing but the answers: from them
  it keeps a ledger of its handles and rules. Under the contract the ledger is exact.
\<close>

text \<open>A client of the operations \<open>add\<close> and \<open>del\<close>: a rule that is added goes into the ledger as \<open>kept\<close>;
  only handles of the ledger are deleted. An operation gets its environment with the command.\<close>

fun store_run :: "('e \<Rightarrow> 'r \<Rightarrow> 's \<Rightarrow> 'k option \<times> 's) \<Rightarrow> ('e \<Rightarrow> 'k \<Rightarrow> 's \<Rightarrow> bool \<times> 's) \<Rightarrow> ('r \<Rightarrow> 'r)
    \<Rightarrow> ('e \<times> ('r + 'k)) list \<Rightarrow> 's \<times> ('k \<rightharpoonup> 'r) \<Rightarrow> 's \<times> ('k \<rightharpoonup> 'r)" where
  "store_run add del kept [] (s, m) = (s, m)"
| "store_run add del kept ((e, Inl r) # cs) (s, m) =
     (case add e r s of (a, s') \<Rightarrow> store_run add del kept cs (s', case a of None \<Rightarrow> m | Some k \<Rightarrow> m(k \<mapsto> kept r)))"
| "store_run add del kept ((e, Inr k) # cs) (s, m) =
     (if m k = None then store_run add del kept cs (s, m)
      else case del e k s of (a, s') \<Rightarrow> store_run add del kept cs (s', if a then m(k := None) else m))"

locale rule_store =
  fixes inv :: "'s \<Rightarrow> bool" and rules :: "'s \<Rightarrow> 'k \<rightharpoonup> 'r" and ok :: "'e \<Rightarrow> bool"
    and add :: "'e \<Rightarrow> 'r \<Rightarrow> 's \<Rightarrow> 'k option \<times> 's" and del :: "'e \<Rightarrow> 'k \<Rightarrow> 's \<Rightarrow> bool \<times> 's" and kept :: "'r \<Rightarrow> 'r"
  assumes add_law: "inv s \<Longrightarrow> ok e \<Longrightarrow> add e r s = (a, s') \<Longrightarrow>
      inv s' \<and> (case a of None \<Rightarrow> rules s' = rules s | Some k \<Rightarrow> rules s k = None \<and> rules s' = (rules s)(k \<mapsto> kept r))"
    and del_law: "inv s \<Longrightarrow> ok e \<Longrightarrow> rules s k \<noteq> None \<Longrightarrow> del e k s = (a', s') \<Longrightarrow>
      inv s' \<and> rules s' = (if a' then (rules s)(k := None) else rules s)"
begin

lemma ledger_exact:
  assumes "inv s" "\<forall>(e, c)\<in>set cs. ok e" "store_run add del kept cs (s, rules s) = (s', m)"
  shows "inv s' \<and> m = rules s'"
  using assms
proof (induction cs arbitrary: s)
  case (Cons c cs)
  obtain e x where c: "c = (e, x)" by (cases c)
  have ok: "ok e" using Cons.prems(2) c by simp
  show ?case
  proof (cases x)
    case (Inl r)
    obtain a s1 where a: "add e r s = (a, s1)" by (cases "add e r s")
    note law = add_law [OF Cons.prems(1) ok a]
    then have "store_run add del kept cs (s1, rules s1) = (s', m)" using Cons.prems(3) c Inl a by (cases a) simp_all
    then show ?thesis by (intro Cons.IH) (use law Cons.prems(2) in auto)
  next
    case (Inr k)
    obtain a s1 where a: "del e k s = (a, s1)" by (cases "del e k s")
    show ?thesis
    proof (cases "rules s k = None")
      case True
      then show ?thesis using Cons c Inr by simp
    next
      case False
      note law = del_law [OF Cons.prems(1) ok False a]
      then have "store_run add del kept cs (s1, rules s1) = (s', m)" using Cons.prems(3) c Inr a False by (cases a) simp_all
      then show ?thesis by (intro Cons.IH) (use law Cons.prems(2) in auto)
    qed
  qed
qed simp

end

end
