(* ===== verification/Ct_Machine.thy ===== *)
theory Ct_Machine
  imports Ct_Lookup Ct_Store
begin

text \<open>
  The library as a whole: its calls as steps from the state after loading, the states that are reached when
  no call but the addition of a table comes without an open device, and their invariant.
\<close>

section \<open>Calls and reachable states\<close>

datatype ct_call =
  AddTbl add_tbl_env u16 bool
| DelTbl ct_env u32
| AddRule ct_env u32 "ipa_ipv6ct_rule option" bool
| DelRule ct_env u32 u32
| QueryTimestamp ct_env u32 u32 bool

text \<open>The result: the return code, what is written through the pointer (0 when nothing is), the state.\<close>

fun ct_step :: "ct_hardware \<Rightarrow> ct_call \<Rightarrow> ipa_ipv6ct \<Rightarrow> (int \<times> u32 \<times> ipa_ipv6ct) option" where
  "ct_step hw (AddTbl env n null) st = (case ipa_ipv6ct_add_tbl env n null st of (ret, h, st') \<Rightarrow> Some (ret, of_nat h, st'))"
| "ct_step hw (DelTbl env h) st = (case ipa_ipv6ct_del_tbl env h st of (ret, st') \<Rightarrow> Some (ret, 0, st'))"
| "ct_step hw (AddRule env h r null) st = ipa_ipv6ct_add_rule hw env h r null st"
| "ct_step hw (DelRule env h rh) st = (case ipa_ipv6ct_del_rule hw env h rh st of (ret, st') \<Rightarrow> Some (ret, 0, st'))"
| "ct_step hw (QueryTimestamp env h rh null) st =
     (case ipa_ipv6ct_query_timestamp env h rh null st of (ret, ts, st') \<Rightarrow> Some (ret, (case ts of None \<Rightarrow> 0 | Some w \<Rightarrow> w), st'))"

definition ct_init :: ipa_ipv6ct where
  "ct_init = \<lparr>ipa_desc = None, ct_tables = [zero_ct_table], table_cnt = 0, ct_ub = False\<rparr>"

text \<open>The kernel: it places a table at the begin of its memory, maps at least the bytes that were asked for, and an error is not 0.\<close>

definition add_tbl_env_ok :: "add_tbl_env \<Rightarrow> bool" where
  "add_tbl_env_ok env \<longleftrightarrow> length (at_mem env) \<ge> IPA_TABLE_MAX_ENTRIES \<and> (case at_alloc env of Inl e \<Rightarrow> e \<noteq> 0 | Inr off \<Rightarrow> off = 0)"

fun call_ok :: "ipa_ipv6ct \<Rightarrow> ct_call \<Rightarrow> bool" where
  "call_ok st (AddTbl env n null) = add_tbl_env_ok env"
| "call_ok st c = (ipa_desc st \<noteq> None)"

inductive ct_reach :: "ct_hardware \<Rightarrow> ipa_ipv6ct \<Rightarrow> bool" for hw where
  ct_reach_init: "ct_reach hw ct_init"
| ct_reach_step: "ct_reach hw st \<Longrightarrow> call_ok st c \<Longrightarrow> ct_step hw c st = Some (ret, h, st') \<Longrightarrow> ct_reach hw st'"

section \<open>The invariant\<close>

definition ct_table_of :: "ipa_ipv6ct \<Rightarrow> ct_hw_table option" where
  "ct_table_of st = (if md_valid (mem_desc (ct_tables st ! 0)) then Some (ct_tbl (ct_tables st ! 0)) else None)"

definition ct_ok :: "ipa_ipv6ct \<Rightarrow> bool" where
  "ct_ok st \<longleftrightarrow> length (ct_tables st) = 1 \<and> table_cnt st \<le> 1 \<and> \<not> ct_ub st \<and>
     (if table_cnt st = 0 then ipa_desc st = None else \<exists>ver. ipa_desc st = Some ver \<and> IPA_HW_v4_0 \<le> ver) \<and>
     (case ct_table_of st of None \<Rightarrow> True | Some t \<Rightarrow> table_cnt st = 1 \<and> ct_inv t)"

lemma zero_table [simp]: "\<not> md_valid (mem_desc zero_ct_table)"
  by (simp add: zero_ct_table_def zero_mem_desc_def)

lemma close_unused_simps [simp]:
  "ct_tables (close_unused st) = ct_tables st" "table_cnt (close_unused st) = table_cnt st" "ct_ub (close_unused st) = ct_ub st"
  "table_cnt st \<noteq> 0 \<Longrightarrow> close_unused st = st"
  by (simp_all add: close_unused_def)

text \<open>A table that was created is empty.\<close>

lemma fresh_inv:
  fixes n base expn :: nat and d :: ipa_mem_descriptor and mem :: "ipa_ipv6ct_hw_entry list"
  assumes "dims_of n base expn" and mem: "IPA_TABLE_MAX_ENTRIES \<le> length mem" and d: "addr_offset d = 0"
  defines "t \<equiv> (ipa_table_init IPA_NAT_MEM_IN_DDR 64 None ct_interface no_help zero_hw_entry :: ct_hw_table)
    \<lparr>tot_tbl_ents := base + expn, table_entries := base, expn_table_entries := expn\<rparr>"
  defines "t' \<equiv> (ipa_table_reset (snd (ipa_table_calculate_addresses mem t)))\<lparr>dma_help := ipa_ipv6ct_create_table_dma_cmd_helpers 0 d\<rparr>"
  shows "ct_inv t'" "ct_rules t' = Map.empty" "table_entries t' = base" "expn_table_entries t' = expn"
proof -
  have dims: "base + expn \<le> 5120" "\<exists>k. 1 \<le> k \<and> k \<le> 12 \<and> base = 2 ^ k" "2 \<le> expn" "expn \<le> 1024" using assms(1) unfolding dims_of_def by blast+
  have recs: "tbl_recs t' = map (\<lambda>_. zero_hw_entry) (take (base + expn) mem)" and len: "length (tbl_recs t') = base + expn"
    using mem dims(1) by (simp_all add: t'_def t_def ipa_table_reset_def ipa_table_calculate_addresses_def ipa_table_init_def)
  then have nth: "i < base + expn \<Longrightarrow> tbl_recs t' ! i = zero_hw_entry" for i by simp
  have "table_shape t'"
    using dims d len mem unfolding table_shape_def
    by (auto simp: t'_def t_def ipa_table_reset_def ipa_table_calculate_addresses_def ipa_table_init_def)
  moreover have "chained base (tbl_recs t') (\<lambda>_. [])"
    unfolding chained_def using nth len dims by (auto simp: live_rec_def dead_rec_def)
  moreover have "used 0 base (tbl_recs t') = 0" "used base (base + expn) (tbl_recs t') = 0" using nth by (auto simp: used_def)
  moreover have "table_entries t' = base" "tot_tbl_ents t' = base + expn" "cur_tbl_cnt t' = 0" "cur_expn_tbl_cnt t' = 0" "expn_table_entries t' = expn"
    by (simp_all add: t'_def t_def ipa_table_reset_def ipa_table_calculate_addresses_def ipa_table_init_def)
  ultimately show "ct_inv t'" "table_entries t' = base" "expn_table_entries t' = expn" by (auto simp: ct_inv_def)
  show "ct_rules t' = Map.empty" using nth len by (auto simp: ct_rules_def rules_of_def fun_eq_iff live_rec_def)
qed

lemma create_table:
  assumes "add_tbl_env_ok env" "ipa_ipv6ct_create_table env n 0 t = (ret, t')" "\<not> md_valid (mem_desc t)"
  shows "if ret = 0 then md_valid (mem_desc t') \<and> ct_inv (ct_tbl t') \<and> ct_rules (ct_tbl t') = Map.empty \<and>
      dims_of (unat n) (table_entries (ct_tbl t')) (expn_table_entries (ct_tbl t'))
    else \<not> md_valid (mem_desc t')"
proof (cases "unat n > IPA_TABLE_MAX_ENTRIES")
  case True
  then show ?thesis using assms calculate_entries(1) [OF True, of "ipa_table_init 0 64 None ct_interface no_help zero_hw_entry"] by (auto simp: ipa_ipv6ct_create_table_def)
next
  case False
  then obtain base expn where dims: "dims_of (unat n) base expn"
    and calc: "ipa_table_calculate_entries_num n 0 (ipa_table_init 0 64 None ct_interface no_help zero_hw_entry :: ct_hw_table) =
      (0, (ipa_table_init 0 64 None ct_interface no_help zero_hw_entry)\<lparr>tot_tbl_ents := base + expn, table_entries := base, expn_table_entries := expn\<rparr>)"
    using calculate_entries(2) [of n "ipa_table_init 0 64 None ct_interface no_help zero_hw_entry :: ct_hw_table"] by auto
  have mem: "IPA_TABLE_MAX_ENTRIES \<le> length (at_mem env)" using assms(1) by (simp add: add_tbl_env_ok_def)
  have "addr_offset zero_mem_desc = 0" by (simp add: zero_mem_desc_def)
  note fresh = fresh_inv(1,2) [OF dims mem] fresh_inv(3,4) [OF dims mem this]
  show ?thesis
    using assms fresh dims unfolding ipa_ipv6ct_create_table_def calc
    by (auto simp: ipa_mem_descriptor_allocate_memory_def AllocateMemory_def ipa_mem_descriptor_init_def add_tbl_env_ok_def Let_def
        split: sum.splits if_splits)
qed


section \<open>The calls\<close>

text \<open>What a call means for the table and its rules. A mutex that cannot be unlocked makes a call fail that has done its work.\<close>

definition rules_in :: "ipa_ipv6ct \<Rightarrow> nat \<rightharpoonup> ipa_ipv6ct_rule" where
  "rules_in st = (case ct_table_of st of None \<Rightarrow> Map.empty | Some t \<Rightarrow> ct_rules t)"

fun call_effect :: "ct_call \<Rightarrow> int \<Rightarrow> u32 \<Rightarrow> ipa_ipv6ct \<Rightarrow> ipa_ipv6ct \<Rightarrow> bool" where
  "call_effect (AddTbl env n null) ret h st st' =
     (if ret = 0 then h = 1 \<and> ct_table_of st = None \<and>
        (\<exists>t. ct_table_of st' = Some t \<and> ct_rules t = Map.empty \<and> dims_of (unat n) (table_entries t) (expn_table_entries t))
      else ct_table_of st' = ct_table_of st)"
| "call_effect (DelTbl env th) ret h st st' =
     (if ret = 0 then ct_table_of st \<noteq> None \<and> ct_table_of st' = None
      else ct_table_of st' = ct_table_of st \<or> ct_table_of st' = None \<and> (ct_ioctl env \<noteq> 0 \<or> ct_unlock env \<noteq> 0))"
| "call_effect (AddRule env th r null) ret h st st' =
     (rel_option same_dims (ct_table_of st) (ct_table_of st') \<and>
      (if ret = 0 then \<exists>t i rule. ct_table_of st = Some t \<and> r = Some rule \<and> 0 < i \<and> i < tot_tbl_ents t \<and> h = ucast (MakeEntryHdl t i) \<and>
          rules_in st i = None \<and> rules_in st' = (rules_in st)(i \<mapsto> stored_rule rule)
       else ct_unlock env = 0 \<longrightarrow> rules_in st' = rules_in st))"
| "call_effect (DelRule env th rh) ret h st st' =
     (rel_option same_dims (ct_table_of st) (ct_table_of st') \<and>
      (if ret = 0 then \<exists>t. ct_table_of st = Some t \<and> rules_in st' = (rules_in st)(BREAK_RULE_HDL t rh := None)
       else ct_unlock env = 0 \<longrightarrow> rules_in st' = rules_in st))"
| "call_effect (QueryTimestamp env th rh null) ret h st st' = (st' = st)"

lemma rel_same_dims [simp]: "rel_option same_dims x x"
  by (cases x) (simp_all add: same_dims_def)

lemma entry_checks:
  assumes "ct_ok st" "ipa_desc st \<noteq> None"
  shows "ct_entry_checks h bad st = (if h \<noteq> 1 \<or> bad then Some (- EINVAL) else None, st)" "table_cnt st = 1"
proof -
  obtain ver where v: "ipa_desc st = Some ver" "14 \<le> ver" "table_cnt st = 1"
    using assms by (cases "table_cnt st = 0") (auto simp: ct_ok_def)
  have "(h = 0 \<or> unat h > 1) = (h \<noteq> 1)"
  proof -
    have "h = 0 \<longleftrightarrow> unat h = unat (0 :: u32)" "h = 1 \<longleftrightarrow> unat h = unat (1 :: u32)" by (rule word_unat_eq_iff)+
    then show ?thesis unfolding unsigned_0 unsigned_1 by linarith
  qed
  then show "ct_entry_checks h bad st = (if h \<noteq> 1 \<or> bad then Some (- EINVAL) else None, st)" "table_cnt st = 1"
    using v by (auto simp: ct_entry_checks_def)
qed

lemma set_table:
  assumes "ct_ok st" "ct_table_of st = Some t" "ct_inv t'"
  shows "ct_ok (set_ct_tbl 0 t' st)" "ct_table_of (set_ct_tbl 0 t' st) = Some t'" "rules_in (set_ct_tbl 0 t' st) = ct_rules t'"
proof -
  have "md_valid (mem_desc (ct_tables st ! 0))" "length (ct_tables st) = 1"
    using assms by (auto simp: ct_table_of_def ct_ok_def split: if_splits)
  then show "ct_table_of (set_ct_tbl 0 t' st) = Some t'" by (simp add: ct_table_of_def set_ct_tbl_def)
  then show "ct_ok (set_ct_tbl 0 t' st)" "rules_in (set_ct_tbl 0 t' st) = ct_rules t'"
    using assms by (auto simp: ct_ok_def rules_in_def set_ct_tbl_def)
qed

lemma table_of_iff: "ct_table_of st = None \<longleftrightarrow> \<not> md_valid (mem_desc (ct_tables st ! 0))"
  "ct_table_of st = Some t \<longleftrightarrow> md_valid (mem_desc (ct_tables st ! 0)) \<and> t = ct_tbl (ct_tables st ! 0)"
  by (auto simp: ct_table_of_def)

lemma add_rule_call:
  assumes ok: "ct_ok st" "ipa_desc st \<noteq> None" and hw: "documented_hardware hw"
  shows "\<exists>ret hdl st'. ipa_ipv6ct_add_rule hw env h r null st = Some (ret, hdl, st') \<and> ct_ok st' \<and> call_effect (AddRule env h r null) ret hdl st st'"
proof (cases "h \<noteq> 1 \<or> null \<or> r = None \<or> ru_protocol (the r) = 255 \<or> ct_lock env \<noteq> 0 \<or> ct_table_of st = None")
  case True
  then have "ipa_ipv6ct_add_rule hw env h r null st = Some (- EINVAL, 0, st)"
    using entry_checks [OF ok] by (cases r) (auto simp: ipa_ipv6ct_add_rule_def table_of_iff)
  then show ?thesis using ok by simp
next
  case False
  then obtain rule t where r: "r = Some rule" "ru_protocol rule \<noteq> 255" and t: "ct_table_of st = Some t" by auto
  have inv: "ct_inv t" using ok t by (simp add: ct_ok_def)
  obtain ret hdl t' where a: "add_rule_section hw (ct_ioctl env) rule t = Some (ret, hdl, t')" "add_spec rule (ct_ioctl env) t ret hdl t'"
    using add_refines [OF inv hw r(2)] by blast
  have inv': "ct_inv t'" "same_dims t t'" using a(2) by (simp_all add: add_spec_def)
  note set = set_table [OF ok(1) t inv'(1)]
  have "ipa_ipv6ct_add_rule hw env h r null st =
      Some (if ret \<noteq> 0 then (ret, 0, set_ct_tbl 0 t' st) else if ct_unlock env \<noteq> 0 then (- EPERM, 0, set_ct_tbl 0 t' st) else (0, ucast hdl, set_ct_tbl 0 t' st))"
    using False r t a(1) entry_checks [OF ok] by (auto simp: ipa_ipv6ct_add_rule_def table_of_iff)
  moreover have "rules_in st = ct_rules t" using t by (simp add: rules_in_def)
  ultimately show ?thesis
    using set t inv' r(1) a(2) by (auto simp: add_spec_def)
qed

lemma del_rule_call:
  assumes ok: "ct_ok st" "ipa_desc st \<noteq> None" and hw: "documented_hardware hw"
  shows "\<exists>ret st'. ipa_ipv6ct_del_rule hw env h rh st = (ret, st') \<and> ct_ok st' \<and> call_effect (DelRule env h rh) ret 0 st st'"
proof (cases "h \<noteq> 1 \<or> rh = 0 \<or> ct_lock env \<noteq> 0 \<or> ct_table_of st = None")
  case True
  then have "\<exists>ret. ret \<noteq> 0 \<and> ipa_ipv6ct_del_rule hw env h rh st = (ret, st)"
    using entry_checks [OF ok] by (auto simp: ipa_ipv6ct_del_rule_def table_of_iff unlock_ret_def)
  then show ?thesis using ok by auto
next
  case False
  then obtain t where t: "ct_table_of st = Some t" by auto
  have inv: "ct_inv t" using ok t by (simp add: ct_ok_def)
  obtain ret t' where a: "del_rule_section hw (ct_ioctl env) rh t = (ret, t')" "del_spec rh (ct_ioctl env) t ret t'"
    using del_refines [OF inv hw] by blast
  have inv': "ct_inv t'" "same_dims t t'" using a(2) by (simp_all add: del_spec_def)
  note set = set_table [OF ok(1) t inv'(1)]
  have "ipa_ipv6ct_del_rule hw env h rh st = (unlock_ret env ret, set_ct_tbl 0 t' st)"
    using False t a(1) entry_checks [OF ok] by (auto simp: ipa_ipv6ct_del_rule_def table_of_iff)
  moreover have "rules_in st = ct_rules t" using t by (simp add: rules_in_def)
  ultimately show ?thesis
    using set t inv' a(2) by (auto simp: del_spec_def unlock_ret_def)
qed


lemma add_tbl_call:
  assumes ok: "ct_ok st" and env: "add_tbl_env_ok env"
  shows "\<exists>ret h st'. ipa_ipv6ct_add_tbl env n null st = (ret, h, st') \<and> ct_ok st' \<and> call_effect (AddTbl env n null) ret (of_nat h) st st'"
proof (cases "null \<or> n = 0 \<or> table_cnt st \<ge> 1")
  case True
  then show ?thesis using ok by (auto simp: ipa_ipv6ct_add_tbl_def)
next
  case False
  then have st: "table_cnt st = 0" "ipa_desc st = None" "ct_table_of st = None" "length (ct_tables st) = 1" "\<not> ct_ub st"
    using ok by (auto simp: ct_ok_def split: option.splits)
  define t0 where "t0 = ct_tables st ! 0"
  have t0: "\<not> md_valid (mem_desc t0)" using st(3) by (simp add: table_of_iff t0_def)
  obtain ret t where c: "ipa_ipv6ct_create_table env n 0 t0 = (ret, t)" by (cases "ipa_ipv6ct_create_table env n 0 t0")
  note new = create_table [OF env c t0]
  show ?thesis
  proof (cases "at_open env")
    case None
    then show ?thesis using False st ok by (cases st) (simp add: ipa_ipv6ct_add_tbl_def)
  next
    case (Some ver)
    then show ?thesis
      using False st c new t0
      by (auto simp: ipa_ipv6ct_add_tbl_def Let_def t0_def ct_ok_def ct_table_of_def close_unused_def ipa_ipv6ct_destroy_table_def)
  qed
qed

lemma del_tbl_call:
  assumes ok: "ct_ok st" "ipa_desc st \<noteq> None"
  shows "\<exists>ret st'. ipa_ipv6ct_del_tbl env h st = (ret, st') \<and> ct_ok st' \<and> call_effect (DelTbl env h) ret 0 st st'"
proof (cases "h \<noteq> 1 \<or> ct_lock env \<noteq> 0 \<or> ct_table_of st = None")
  case True
  then have "\<exists>ret. ret \<noteq> 0 \<and> ipa_ipv6ct_del_tbl env h st = (ret, st)"
    using entry_checks [OF ok] by (auto simp: ipa_ipv6ct_del_tbl_def table_of_iff unlock_ret_def)
  then show ?thesis using ok by auto
next
  case False
  then obtain t where t: "ct_table_of st = Some t" by auto
  have st: "table_cnt st = 1" "length (ct_tables st) = 1" "\<not> ct_ub st" using ok entry_checks(2) [OF ok] by (simp_all add: ct_ok_def)
  then show ?thesis
    using False t entry_checks [OF ok] ok
    by (auto simp: ipa_ipv6ct_del_tbl_def table_of_iff ipa_ipv6ct_destroy_table_def ipa_mem_descriptor_delete_def unlock_ret_def ct_ok_def
        ct_table_of_def close_unused_def Let_def)
qed

lemma query_call:
  assumes ok: "ct_ok st" "ipa_desc st \<noteq> None"
  shows "\<exists>ret ts. ipa_ipv6ct_query_timestamp env h rh null st = (ret, ts, st)"
  using entry_checks [OF ok] by (auto simp: ipa_ipv6ct_query_timestamp_def Let_def split: prod.split)

text \<open>Every call that is allowed returns, keeps the invariant and has its effect.\<close>

lemma ct_step_ok:
  assumes "ct_ok st" "call_ok st c" "documented_hardware hw"
  shows "\<exists>ret h st'. ct_step hw c st = Some (ret, h, st') \<and> ct_ok st' \<and> call_effect c ret h st st'"
proof (cases c)
  case (AddTbl env n null)
  then show ?thesis using add_tbl_call [of st env n null] assms by (auto simp del: call_effect.simps)
next
  case (DelTbl env h)
  then show ?thesis using del_tbl_call [of st env h] assms by (auto simp del: call_effect.simps)
next
  case (AddRule env h r null)
  then show ?thesis using add_rule_call [of st hw env h r null] assms by (auto simp del: call_effect.simps)
next
  case (DelRule env h rh)
  then show ?thesis using del_rule_call [of st hw env h rh] assms by (auto simp del: call_effect.simps)
next
  case (QueryTimestamp env h rh null)
  then show ?thesis using query_call [of st env h rh null] assms by auto
qed

lemma init_ok: "ct_ok ct_init"
  by (simp add: ct_ok_def ct_init_def ct_table_of_def)

lemma ct_reach_ok: "ct_reach hw st \<Longrightarrow> documented_hardware hw \<Longrightarrow> ct_ok st"
proof (induction rule: ct_reach.induct)
  case (ct_reach_step st c ret h st')
  then show ?case using ct_step_ok [of st c hw] by auto
qed (rule init_ok)

section \<open>A table that could not be deleted\<close>

text \<open>The kernel refused: the library has forgotten the table, but still counts it.\<close>

definition ct_stuck :: "ipa_ipv6ct \<Rightarrow> bool" where
  "ct_stuck st \<longleftrightarrow> ct_ok st \<and> table_cnt st = 1 \<and> ct_table_of st = None"

lemma stuck_step:
  assumes "ct_stuck st" "call_ok st c"
  shows "\<exists>ret h. ct_step hw c st = Some (ret, h, st) \<and> ret \<noteq> 0"
proof -
  have st: "ct_ok st" "table_cnt st = 1" "\<not> md_valid (mem_desc (ct_tables st ! 0))" using assms by (simp_all add: ct_stuck_def table_of_iff)
  then have "ipa_desc st \<noteq> None" by (auto simp: ct_ok_def)
  note e = entry_checks(1) [OF st(1) this]
  show ?thesis
  proof (cases c)
    case (AddRule env h r null)
    then show ?thesis using st e by (cases r) (auto simp: ipa_ipv6ct_add_rule_def)
  qed (use st e in \<open>auto simp: ipa_ipv6ct_add_tbl_def ipa_ipv6ct_del_tbl_def ipa_ipv6ct_del_rule_def ipa_ipv6ct_query_timestamp_def unlock_ret_def\<close>)
qed

section \<open>The store of rules\<close>

text \<open>The library with a table, as a store: a handle names a rule when it is that of a record in use.\<close>

definition ct_handles :: "ipa_ipv6ct \<Rightarrow> u32 \<rightharpoonup> ipa_ipv6ct_rule" where
  "ct_handles st h = (case ct_table_of st of None \<Rightarrow> None
     | Some t \<Rightarrow> if h = ucast (MakeEntryHdl t (BREAK_RULE_HDL t h)) then ct_rules t (BREAK_RULE_HDL t h) else None)"

definition ct_add :: "ct_hardware \<Rightarrow> ct_env \<Rightarrow> ipa_ipv6ct_rule \<Rightarrow> ipa_ipv6ct \<Rightarrow> u32 option \<times> ipa_ipv6ct" where
  "ct_add hw env r st = (case ipa_ipv6ct_add_rule hw env 1 (Some r) False st of
     None \<Rightarrow> (None, st) | Some (ret, h, st') \<Rightarrow> (if ret = 0 then Some h else None, st'))"

definition ct_del :: "ct_hardware \<Rightarrow> ct_env \<Rightarrow> u32 \<Rightarrow> ipa_ipv6ct \<Rightarrow> bool \<times> ipa_ipv6ct" where
  "ct_del hw env h st = (case ipa_ipv6ct_del_rule hw env 1 h st of (ret, st') \<Rightarrow> (ret = 0, st'))"

definition ct_serving :: "ipa_ipv6ct \<Rightarrow> bool" where
  "ct_serving st \<longleftrightarrow> ct_ok st \<and> ct_table_of st \<noteq> None"

lemma same_dims_handles: "same_dims t t' \<Longrightarrow> MakeEntryHdl t' = MakeEntryHdl t" "same_dims t t' \<Longrightarrow> BREAK_RULE_HDL t' = BREAK_RULE_HDL t"
  by (simp_all add: same_dims_def MakeEntryHdl_def BREAK_RULE_HDL_def fun_eq_iff)

lemma handles_table:
  assumes "ct_table_of st = Some t" "ct_table_of st' = Some t'" "same_dims t t'"
  shows "rules_in st' = rules_in st \<Longrightarrow> ct_handles st' = ct_handles st"
    and "table_shape t \<Longrightarrow> i < tot_tbl_ents t \<Longrightarrow> rules_in st' = (rules_in st)(i := x) \<Longrightarrow>
      ct_handles st' = (ct_handles st)(ucast (MakeEntryHdl t i) := x)"
proof -
  show "ct_handles st' = ct_handles st" if "rules_in st' = rules_in st"
    using that assms same_dims_handles [OF assms(3)] by (auto simp: ct_handles_def rules_in_def fun_eq_iff)
  show "ct_handles st' = (ct_handles st)(ucast (MakeEntryHdl t i) := x)"
    if s: "table_shape t" and i: "i < tot_tbl_ents t" and x: "rules_in st' = (rules_in st)(i := x)"
  proof
    fix h
    note idx = handle_index [OF s i]
    show "ct_handles st' h = ((ct_handles st)(ucast (MakeEntryHdl t i) := x)) h"
    proof (cases "h = ucast (MakeEntryHdl t i)")
      case True
      then show ?thesis using assms same_dims_handles [OF assms(3)] x idx by (simp add: ct_handles_def rules_in_def)
    next
      case False
      then have "\<not> (h = ucast (MakeEntryHdl t (BREAK_RULE_HDL t h)) \<and> BREAK_RULE_HDL t h = i)" by auto
      then show ?thesis using False assms same_dims_handles [OF assms(3)] x by (auto simp: ct_handles_def rules_in_def)
    qed
  qed
qed


text \<open>The laws of the store hold as long as the mutex can be unlocked.\<close>

lemma serving: "ct_serving st \<Longrightarrow> ct_ok st \<and> ipa_desc st \<noteq> None \<and> (\<exists>t. ct_table_of st = Some t \<and> table_shape t)"
  by (auto simp: ct_serving_def ct_ok_def ct_inv_def)

lemma ct_add_law:
  assumes hw: "documented_hardware hw" and s: "ct_serving st" and e: "ct_unlock env = 0" and a: "ct_add hw env r st = (a, st')"
  shows "ct_serving st' \<and> (case a of None \<Rightarrow> ct_handles st' = ct_handles st
    | Some h \<Rightarrow> ct_handles st h = None \<and> ct_handles st' = (ct_handles st)(h \<mapsto> stored_rule r))"
proof -
  obtain t where t: "ct_table_of st = Some t" "table_shape t" and ok: "ct_ok st" "ipa_desc st \<noteq> None" using serving [OF s] by blast
  obtain ret hdl st1 where add: "ipa_ipv6ct_add_rule hw env 1 (Some r) False st = Some (ret, hdl, st1)" "ct_ok st1"
    and eff: "call_effect (AddRule env 1 (Some r) False) ret hdl st st1" using add_rule_call [OF ok hw] by blast
  have st': "st' = st1" "a = (if ret = 0 then Some hdl else None)" using a add(1) by (simp_all add: ct_add_def)
  obtain t' where t': "ct_table_of st1 = Some t'" "same_dims t t'" using eff t(1) by (auto simp: option_rel_Some1)
  note h = handles_table [OF t(1) t']
  have serv: "ct_serving st1" using add(2) t' by (simp add: ct_serving_def)
  show ?thesis
  proof (cases "ret = 0")
    case True
    then obtain i where i: "i < tot_tbl_ents t" "hdl = ucast (MakeEntryHdl t i)" "rules_in st i = None"
      "rules_in st1 = (rules_in st)(i \<mapsto> stored_rule r)" using eff t(1) by auto
    moreover have "ct_handles st hdl = None" using i(2,3) t handle_index [OF t(2) i(1)] by (simp add: ct_handles_def rules_in_def)
    ultimately show ?thesis using h(2) [OF t(2) i(1,4)] serv st' True by simp
  next
    case False
    then show ?thesis using eff e h(1) serv st' by simp
  qed
qed

lemma ct_del_law:
  assumes hw: "documented_hardware hw" and s: "ct_serving st" and e: "ct_unlock env = 0" and k: "ct_handles st h \<noteq> None"
    and a: "ct_del hw env h st = (a, st')"
  shows "ct_serving st' \<and> ct_handles st' = (if a then (ct_handles st)(h := None) else ct_handles st)"
proof -
  obtain t where t: "ct_table_of st = Some t" "table_shape t" and ok: "ct_ok st" "ipa_desc st \<noteq> None" using serving [OF s] by blast
  obtain ret st1 where del: "ipa_ipv6ct_del_rule hw env 1 h st = (ret, st1)" "ct_ok st1"
    and eff: "call_effect (DelRule env 1 h) ret 0 st st1" using del_rule_call [OF ok hw] by blast
  have st': "st' = st1" "a = (ret = 0)" using a del(1) by (simp_all add: ct_del_def)
  obtain t' where t': "ct_table_of st1 = Some t'" "same_dims t t'" using eff t(1) by (auto simp: option_rel_Some1)
  note hs = handles_table [OF t(1) t']
  have serv: "ct_serving st1" using del(2) t' by (simp add: ct_serving_def)
  have hdl: "h = ucast (MakeEntryHdl t (BREAK_RULE_HDL t h))" "ct_rules t (BREAK_RULE_HDL t h) \<noteq> None"
    using k t(1) by (auto simp: ct_handles_def split: if_splits)
  then have i: "BREAK_RULE_HDL t h < tot_tbl_ents t"
    using shape_len [OF t(2)] shape_tot [OF t(2)] by (auto simp: ct_rules_def rules_of_def split: if_splits)
  show ?thesis
  proof (cases "ret = 0")
    case True
    then have "rules_in st1 = (rules_in st)(BREAK_RULE_HDL t h := None)" using eff t(1) by auto
    from hs(2) [OF t(2) i this] show ?thesis using serv st' True hdl(1) by metis
  next
    case False
    then show ?thesis using eff e hs(1) serv st' by simp
  qed
qed

definition documented_hw :: ct_hardware where
  "documented_hw base cmd recs = fold (dma_write base) cmd recs"

lemma documented: "documented_hardware documented_hw" "documented_hardware hw \<Longrightarrow> hw = documented_hw"
  by (simp_all add: documented_hardware_def documented_hw_def fun_eq_iff)

interpretation ct: rule_store ct_serving ct_handles "\<lambda>env. ct_unlock env = 0" "ct_add documented_hw" "ct_del documented_hw" stored_rule
proof
  show "ct_serving s' \<and> (case a of None \<Rightarrow> ct_handles s' = ct_handles s | Some k \<Rightarrow> ct_handles s k = None \<and> ct_handles s' = (ct_handles s)(k \<mapsto> stored_rule r))"
    if "ct_serving s" "ct_unlock e = 0" "ct_add documented_hw e r s = (a, s')" for s e r a s'
    by (rule ct_add_law [OF documented(1) that])
  show "ct_serving s' \<and> ct_handles s' = (if a then (ct_handles s)(k := None) else ct_handles s)"
    if "ct_serving s" "ct_unlock e = 0" "ct_handles s k \<noteq> None" "ct_del documented_hw e k s = (a, s')" for s e k a s'
    by (rule ct_del_law [OF documented(1) that])
qed

text \<open>What the hardware finds is what is in the store.\<close>

lemma lookup_handles:
  assumes "ct_serving st" "ct_table_of st = Some t"
  shows "ct_lookup t k \<noteq> None \<longleftrightarrow> (\<exists>h r. ct_handles st h = Some r \<and> same_connection r k)"
proof -
  have t: "ct_inv t" "table_shape t" using assms by (auto simp: ct_serving_def ct_ok_def ct_inv_def)
  have "(\<exists>h r. ct_handles st h = Some r \<and> same_connection r k) \<longleftrightarrow> (\<exists>i r. ct_rules t i = Some r \<and> same_connection r k)"
  proof
    assume "\<exists>i r. ct_rules t i = Some r \<and> same_connection r k"
    then obtain i r where i: "ct_rules t i = Some r" "same_connection r k" by blast
    then have "i < tot_tbl_ents t" using shape_len [OF t(2)] shape_tot [OF t(2)] by (auto simp: ct_rules_def rules_of_def split: if_splits)
    then have "ct_handles st (ucast (MakeEntryHdl t i)) = Some r" using handle_index [OF t(2)] assms(2) i by (simp add: ct_handles_def)
    then show "\<exists>h r. ct_handles st h = Some r \<and> same_connection r k" using i by blast
  qed (use assms in \<open>auto simp: ct_handles_def split: if_splits\<close>)
  then show ?thesis using lookup_exact [OF t(1), of k] by (auto split: option.splits)
qed

end
