(* ===== verification/Ct_Kernel.thy ===== *)
theory Ct_Kernel
  imports Ct_Machine
begin

text \<open>
  The kernel under the library: the part of \<^verbatim>\<open>ipa_nat.c\<close> that serves the connection tracking table for IPv6,
  and the checks of the commands for the DMA of all tables. The submission of a command to the hardware is
  an argument that answers with a return code.
\<close>

section \<open>The device\<close>

abbreviation (input) UINT_MAX :: nat where "UINT_MAX \<equiv> 4294967295"
abbreviation (input) KERNEL_TABLE_MAX_ENTRIES :: nat where "KERNEL_TABLE_MAX_ENTRIES \<equiv> 8192"

datatype ipahal_nat_type = IPAHAL_NAT_IPV4 | IPAHAL_NAT_IPV4_INDEX | IPAHAL_NAT_IPV4_PDN | IPAHAL_NAT_IPV6CT

fun ipahal_nat_entry_size :: "ipahal_nat_type \<Rightarrow> nat" where
  "ipahal_nat_entry_size IPAHAL_NAT_IPV4 = 32"
| "ipahal_nat_entry_size IPAHAL_NAT_IPV4_INDEX = 4"
| "ipahal_nat_entry_size IPAHAL_NAT_IPV4_PDN = 16"
| "ipahal_nat_entry_size IPAHAL_NAT_IPV6CT = 64"

text \<open>The device of the tables for IPv6: \<open>d_vaddr\<close> says that memory is allocated, the two offsets are the addresses of the tables in it.\<close>

record ipv6ct_dev =
  d_is_dev_init :: bool
  d_is_hw_init :: bool
  d_is_mapped :: bool
  d_table_alloc_size :: nat
  d_vaddr :: bool
  d_dma_handle :: u64
  d_base_table :: nat
  d_expansion_table :: nat
  d_table_entries :: nat
  d_expn_table_entries :: nat
  d_tmp_mem :: "u64 option"

text \<open>The state of the driver that matters here: of the tables for IPv4 only whether the device is there, whether the
  hardware knows the tables, and their dimensions for each kind of memory; \<open>k_coal\<close>: an endpoint coalesces packets.\<close>

record ipa3_ctx =
  ipa_hw_type :: nat
  k_nat_dev_init :: bool
  k_nat_hw_init :: bool
  k_nat_dims :: "nat \<Rightarrow> nat \<times> nat"
  k_coal :: bool
  k_sram_compatible :: bool
  k_dev :: ipv6ct_dev

section \<open>Allocation and mapping\<close>

text \<open>The memory of an earlier allocation is not looked at.\<close>

definition alloc_ipv6ct_mem :: "u64 option \<Rightarrow> nat \<Rightarrow> ipv6ct_dev \<Rightarrow> int \<times> ipv6ct_dev" where
  "alloc_ipv6ct_mem alloc sz dev =
     (let dev1 = dev\<lparr>d_table_alloc_size := sz\<rparr>
      in case alloc of
           None \<Rightarrow> (- ENOMEM, dev1\<lparr>d_vaddr := False\<rparr>)
         | Some dma \<Rightarrow> (0, dev1\<lparr>d_vaddr := True, d_dma_handle := dma\<rparr>))"

definition ipa3_nat_ipv6ct_allocate_mem :: "u64 option \<Rightarrow> nat \<Rightarrow> ipv6ct_dev \<Rightarrow> int \<times> ipv6ct_dev" where
  "ipa3_nat_ipv6ct_allocate_mem alloc sz dev =
     (if sz = 0 then (- EPERM, dev)
      else if \<not> d_is_dev_init dev then (- EPERM, dev)
      else if sz > KERNEL_TABLE_MAX_ENTRIES * ipahal_nat_entry_size IPAHAL_NAT_IPV6CT then (- EPERM, dev)
      else alloc_ipv6ct_mem alloc sz dev)"

definition ipa3_allocate_ipv6ct_table :: "u64 option \<Rightarrow> nat \<Rightarrow> ipa3_ctx \<Rightarrow> int \<times> ipa3_ctx" where
  "ipa3_allocate_ipv6ct_table alloc sz k =
     (if ipa_hw_type k < IPA_HW_v4_0 then (- EPERM, k)
      else case ipa3_nat_ipv6ct_allocate_mem alloc sz (k_dev k) of (result, dev) \<Rightarrow> (result, k\<lparr>k_dev := dev\<rparr>))"

definition mmap_ipv6ct_mem :: "int \<Rightarrow> ipv6ct_dev \<Rightarrow> int \<times> ipv6ct_dev" where
  "mmap_ipv6ct_mem map_ret dev =
     (if \<not> d_vaddr dev then (- EPERM, dev)
      else if d_is_mapped dev then (- EINVAL, dev)
      else if map_ret \<noteq> 0 then (map_ret, dev)
      else (0, dev\<lparr>d_is_mapped := True\<rparr>))"

definition ipa3_nat_ipv6ct_mmap :: "int \<Rightarrow> ipv6ct_dev \<Rightarrow> int \<times> ipv6ct_dev" where
  "ipa3_nat_ipv6ct_mmap map_ret dev = (if \<not> d_is_dev_init dev then (- EPERM, dev) else mmap_ipv6ct_mem map_ret dev)"

section \<open>Initialisation\<close>

text \<open>The sum of the offset and the address of the memory is checked against 32 bits by a subtraction in 64 bits.\<close>

definition ipa3_nat_ipv6ct_check_table_params :: "ipv6ct_dev \<Rightarrow> nat \<Rightarrow> u16 \<Rightarrow> int" where
  "ipa3_nat_ipv6ct_check_table_params dev offset entries_num =
     (if (of_nat offset :: u64) > of_nat UINT_MAX - d_dma_handle dev then - EPERM
      else
        let table_size = ipahal_nat_entry_size IPAHAL_NAT_IPV6CT * unat entries_num
        in if offset > UINT_MAX - table_size then - EPERM
           else if offset + table_size > d_table_alloc_size dev then - EPERM
           else 0)"

record v6_ct_init_cmd =
  base_table_addr :: u64
  expansion_table_addr :: u64
  addr_shared :: bool
  size_base_table :: nat
  size_expansion_table :: nat
  init_table_index :: nat

definition ipa3_nat_ipv6ct_create_init_cmd :: "u64 \<Rightarrow> ipa_ioc_ipv6ct_init \<Rightarrow> v6_ct_init_cmd" where
  "ipa3_nat_ipv6ct_create_init_cmd base_addr ini =
     \<lparr>base_table_addr = base_addr + of_nat (ini_base_table_offset ini), expansion_table_addr = base_addr + of_nat (ini_expn_table_offset ini),
      addr_shared = False, size_base_table = ini_table_entries ini, size_expansion_table = ini_expn_table_entries ini,
      init_table_index = ini_tbl_index ini\<rparr>"

definition ipa3_nat_ipv6ct_init_device_structure :: "ipa_ioc_ipv6ct_init \<Rightarrow> ipv6ct_dev \<Rightarrow> ipv6ct_dev" where
  "ipa3_nat_ipv6ct_init_device_structure ini dev =
     dev\<lparr>d_base_table := ini_base_table_offset ini, d_expansion_table := ini_expn_table_offset ini,
         d_table_entries := ini_table_entries ini, d_expn_table_entries := ini_expn_table_entries ini\<rparr>"

text \<open>The number of records of the base table is one more than the number in the request; it is cut to 16 bits.\<close>

definition ipa3_ipv6ct_init_cmd :: "(v6_ct_init_cmd \<Rightarrow> int) \<Rightarrow> ipa_ioc_ipv6ct_init \<Rightarrow> ipa3_ctx \<Rightarrow> int \<times> ipa3_ctx" where
  "ipa3_ipv6ct_init_cmd send ini k =
     (let dev = k_dev k in
      if ipa_hw_type k < IPA_HW_v4_0 then (- EPERM, k)
      else if ini_tbl_index ini \<noteq> 0 then (- EPERM, k)
      else if ini_table_entries ini = 0 then (- EPERM, k)
      else if \<not> d_is_mapped dev then (- EPERM, k)
      else
        let result = ipa3_nat_ipv6ct_check_table_params dev (ini_base_table_offset ini) (of_nat (ini_table_entries ini + 1))
        in if result \<noteq> 0 then (result, k)
           else
             let result = ipa3_nat_ipv6ct_check_table_params dev (ini_expn_table_offset ini) (of_nat (ini_expn_table_entries ini))
             in if result \<noteq> 0 then (result, k)
                else
                  let result = send (ipa3_nat_ipv6ct_create_init_cmd (d_dma_handle dev) ini)
                  in if result \<noteq> 0 then (result, k)
                     else (0, k\<lparr>k_dev := (ipa3_nat_ipv6ct_init_device_structure ini dev)\<lparr>d_is_hw_init := True\<rparr>\<rparr>))"

section \<open>Commands for the DMA\<close>

definition ipa3_nat_ipv6ct_calculate_table_size :: "nat \<Rightarrow> nat \<Rightarrow> ipa3_ctx \<Rightarrow> nat" where
  "ipa3_nat_ipv6ct_calculate_table_size nmi base_addr k =
     (let nat_ents = fst (k_nat_dims k nmi); nat_expn = snd (k_nat_dims k nmi);
          size_of = (\<lambda>ty n. ipahal_nat_entry_size ty * (n mod 2 ^ 32) mod 2 ^ 32)
      in if base_addr = 0 then size_of IPAHAL_NAT_IPV4 (nat_ents + 1)
         else if base_addr = 1 then size_of IPAHAL_NAT_IPV4 nat_expn
         else if base_addr = 2 then size_of IPAHAL_NAT_IPV4_INDEX (nat_ents + 1)
         else if base_addr = 3 then size_of IPAHAL_NAT_IPV4_INDEX nat_expn
         else if base_addr = IPA_IPV6CT_BASE_TBL then size_of IPAHAL_NAT_IPV6CT (d_table_entries (k_dev k) + 1)
         else if base_addr = IPA_IPV6CT_EXPN_TBL then size_of IPAHAL_NAT_IPV6CT (d_expn_table_entries (k_dev k))
         else 0)"

definition ipa3_table_validate_table_dma_one :: "nat \<Rightarrow> ipa_ioc_nat_dma_one \<Rightarrow> ipa3_ctx \<Rightarrow> int" where
  "ipa3_table_validate_table_dma_one nmi param k =
     (if dma_table_index param \<ge> 1 then - EPERM
      else if dma_base_addr param \<le> 3 \<and> \<not> k_nat_hw_init k then - EPERM
      else if dma_base_addr param \<in> {IPA_IPV6CT_BASE_TBL, IPA_IPV6CT_EXPN_TBL} \<and> (ipa_hw_type k < IPA_HW_v4_0 \<or> \<not> d_is_hw_init (k_dev k)) then - EPERM
      else if dma_base_addr param > IPA_IPV6CT_EXPN_TBL then - EPERM
      else
        let table_size = ipa3_nat_ipv6ct_calculate_table_size nmi (dma_base_addr param) k
        in if table_size = 0 then - EPERM
           else if dma_offset param \<ge> table_size then - EPERM
           else 0)"

fun validate_all :: "nat \<Rightarrow> ipa_ioc_nat_dma_one list \<Rightarrow> ipa3_ctx \<Rightarrow> int" where
  "validate_all nmi [] k = 0"
| "validate_all nmi (d # ds) k =
     (let result = ipa3_table_validate_table_dma_one nmi d k in if result \<noteq> 0 then result else validate_all nmi ds k)"

text \<open>\<open>submit\<close>: the construction of the commands and their submission to the hardware.\<close>

definition ipa3_table_dma_cmd :: "(dma_cmd \<Rightarrow> int) \<Rightarrow> nat \<Rightarrow> dma_cmd \<Rightarrow> ipa3_ctx \<Rightarrow> int" where
  "ipa3_table_dma_cmd submit mem_type cmd k =
     (let mem_type = (if k_sram_compatible k then mem_type else 0);
          max_cmds = (if k_coal k then 4 else 5 :: nat)
      in if \<not> k_nat_dev_init k then - EPERM
         else if mem_type \<ge> 2 then - EPERM
         else if cmd = [] \<or> length cmd > max_cmds - 1 then - EPERM
         else
           let result = validate_all mem_type cmd k
           in if result \<noteq> 0 then result else submit cmd)"

section \<open>Deletion\<close>

definition ipa3_nat_ipv6ct_free_mem :: "ipv6ct_dev \<Rightarrow> ipv6ct_dev" where
  "ipa3_nat_ipv6ct_free_mem dev =
     dev\<lparr>d_vaddr := False, d_dma_handle := 0, d_table_alloc_size := 0, d_base_table := 0, d_expansion_table := 0,
         d_table_entries := 0, d_expn_table_entries := 0, d_is_hw_init := False, d_is_mapped := False\<rparr>"

text \<open>The address is a parameter of 32 bits, so that of the temporary memory is cut.\<close>

definition ipa3_nat_ipv6ct_create_del_table_cmd :: "nat \<Rightarrow> u32 \<Rightarrow> ipv6ct_dev \<Rightarrow> int + v6_ct_init_cmd" where
  "ipa3_nat_ipv6ct_create_del_table_cmd tbl_index base_addr dev =
     (if tbl_index \<noteq> 0 then Inl (- EPERM)
      else
        let addr = ucast (case d_tmp_mem dev of None \<Rightarrow> base_addr | Some dma \<Rightarrow> ucast dma)
        in Inr \<lparr>base_table_addr = addr, expansion_table_addr = addr, addr_shared = (d_tmp_mem dev = None),
                 size_base_table = 0, size_expansion_table = 0, init_table_index = tbl_index\<rparr>)"

definition ipa3_ipv6ct_send_del_table_cmd :: "(v6_ct_init_cmd \<Rightarrow> int) \<Rightarrow> nat \<Rightarrow> ipv6ct_dev \<Rightarrow> int" where
  "ipa3_ipv6ct_send_del_table_cmd send tbl_index dev =
     (case ipa3_nat_ipv6ct_create_del_table_cmd tbl_index 0 dev of Inl e \<Rightarrow> e | Inr cmd \<Rightarrow> send cmd)"

definition ipa3_del_ipv6ct_table :: "(v6_ct_init_cmd \<Rightarrow> int) \<Rightarrow> nat \<Rightarrow> ipa3_ctx \<Rightarrow> int \<times> ipa3_ctx" where
  "ipa3_del_ipv6ct_table send tbl_index k =
     (let dev = k_dev k in
      if \<not> d_is_dev_init dev then (- EPERM, k)
      else if ipa_hw_type k < IPA_HW_v4_0 then (- EPERM, k)
      else
        let result = (if d_is_hw_init dev then ipa3_ipv6ct_send_del_table_cmd send tbl_index dev else 0)
        in if result \<noteq> 0 then (result, k) else (0, k\<lparr>k_dev := ipa3_nat_ipv6ct_free_mem dev\<rparr>))"


section \<open>The kernel and the library\<close>

text \<open>The kernel knows the tables of the library.\<close>

definition kernel_serves :: "ipa3_ctx \<Rightarrow> ct_hw_table \<Rightarrow> bool" where
  "kernel_serves k t \<longleftrightarrow> IPA_HW_v4_0 \<le> ipa_hw_type k \<and> k_nat_dev_init k \<and> d_is_hw_init (k_dev k) \<and>
     d_table_entries (k_dev k) = table_entries t - 1 \<and> d_expn_table_entries (k_dev k) = expn_table_entries t"

lemma validate_the_cmd:
  assumes s: "table_shape t" and k: "kernel_serves k t" and i: "i < tot_tbl_ents t"
  shows "ipa3_table_validate_table_dma_one nmi (the_cmd t ht i w) k = 0"
proof -
  have f: "field_of ht < 64" by (cases ht) simp_all
  have n: "table_entries t \<le> 4096" "0 < table_entries t" "expn_table_entries t \<le> 1024" "0 < expn_table_entries t"
    "Suc (table_entries t - Suc 0) = table_entries t"
    using shape_base [OF s] shape_expn [OF s] by simp_all
  show ?thesis
  proof (cases "table_entries t \<le> i")
    case True
    then have "field_of ht + 64 * (i - table_entries t) < 64 * expn_table_entries t" using f i shape_tot [OF s] by simp
    then show ?thesis using k n True
      by (simp add: ipa3_table_validate_table_dma_one_def ipa3_nat_ipv6ct_calculate_table_size_def the_cmd_def kernel_serves_def Let_def)
  next
    case False
    then have "field_of ht + 64 * i < 64 * table_entries t" using f by simp
    then show ?thesis using k n False
      by (simp add: ipa3_table_validate_table_dma_one_def ipa3_nat_ipv6ct_calculate_table_size_def the_cmd_def kernel_serves_def Let_def)
  qed
qed

text \<open>Between one and three commands of a table reach the hardware.\<close>

lemma dma_cmd_submitted:
  assumes s: "table_shape t" and k: "kernel_serves k t" and cmd: "cmd = map (\<lambda>(ht, i, w). the_cmd t ht i w) xs"
    and xs: "xs \<noteq> []" "length xs \<le> 2" "\<forall>(ht, i, w)\<in>set xs. i < tot_tbl_ents t"
  shows "ipa3_table_dma_cmd submit 0 cmd k = submit cmd"
proof -
  have "validate_all 0 (map (\<lambda>(ht, i, w). the_cmd t ht i w) ys) k = 0" if "\<forall>(ht, i, w)\<in>set ys. i < tot_tbl_ents t" for ys
    using that by (induction ys) (auto simp: validate_the_cmd [OF s k])
  from this [OF xs(3)] show ?thesis using xs(1,2) k by (simp add: ipa3_table_dma_cmd_def cmd kernel_serves_def Let_def)
qed

text \<open>The commands of an addition, and of a deletion.\<close>

lemma add_commands:
  assumes s: "table_shape t" and ch: "chained (table_entries t) (tbl_recs t) C"
    and add: "ipa_table_add_entry r (bucket (table_entries t) r) [] t = Some (0, i, hdl, cmd, t')"
  shows "\<exists>xs. cmd = map (\<lambda>(ht, i, w). the_cmd t ht i w) xs \<and> xs \<noteq> [] \<and> length xs \<le> 2 \<and> (\<forall>(ht, i, w)\<in>set xs. i < tot_tbl_ents t)"
proof -
  let ?b = "bucket (table_entries t) r"
  have b: "?b < table_entries t" "?b < length (tbl_recs t)" "?b < tot_tbl_ents t"
    using bucket_bounds [OF s, of r] shape_len [OF s] shape_tot [OF s] by simp_all
  show ?thesis
  proof (cases "en_enable (tbl_recs t ! ?b)")
    case False
    then have "cmd = [the_cmd t HELP_UPDATE_HEAD ?b 0x8000]" using add entry_head [OF s b(1) False] by (auto split: if_splits)
    then show ?thesis using b by (intro exI [of _ "[(HELP_UPDATE_HEAD, ?b, 0x8000)]"]) simp
  next
    case True
    let ?l = "last_of ?b (C ?b)"
    note entry = entry_tail [OF s ch b(1) True]
    obtain j where j: "find (\<lambda>i. \<not> en_enable (tbl_recs t ! i)) [table_entries t..<tot_tbl_ents t] = Some j"
      using add entry(3) by (auto split: option.splits)
    then have "cmd = [the_cmd t HELP_UPDATE_HEAD j 0x8000, the_cmd t HELP_UPDATE_ENTRY ?l (of_nat j)]"
      using add entry(3) by (auto split: if_splits)
    moreover have "j < tot_tbl_ents t" using j by (auto simp: find_Some_iff)
    ultimately show ?thesis
      using entry(1) by (intro exI [of _ "[(HELP_UPDATE_HEAD, j, 0x8000), (HELP_UPDATE_ENTRY, ?l, of_nat j)]"]) simp
  qed
qed

lemma delete_commands:
  assumes s: "table_shape t" and i: "i < tot_tbl_ents t" and it: "ipa_table_iterator_init i t = (0, it)"
  shows "\<exists>xs. ipa_table_create_delete_command [] it t = map (\<lambda>(ht, i, w). the_cmd t ht i w) xs \<and> xs \<noteq> [] \<and> length xs \<le> 2 \<and>
    (\<forall>(ht, i, w)\<in>set xs. i < tot_tbl_ents t)"
proof -
  have en: "en_enable (tbl_recs t ! i)" using it iterator_init_free [OF s, of i] by (cases "en_enable (tbl_recs t ! i)") auto
  define p where "p = unat (en_prev_index (tbl_recs t ! i))"
  define n where "n = unat (en_next_index (tbl_recs t ! i))"
  have lt: "p < tot_tbl_ents t" "n < tot_tbl_ents t"
    using it en shape_base [OF s] shape_tot [OF s]
    by (auto simp: ipa_table_iterator_init_def shape_interface [OF s] GOTO_REC_def VALID_INDEX_def ipa_table_get_entry_by_index_def zero_iterator_def
        p_def n_def Let_def split: if_splits)
  then have "it = iterator_at p i n" using it iterator_init [OF s en, of p n] by (simp add: p_def n_def)
  then have "ipa_table_create_delete_command [] it t = map (\<lambda>(ht, i, w). the_cmd t ht i w)
      [if p \<noteq> 0 then (HELP_UPDATE_ENTRY, p, of_nat n) else if n \<noteq> 0 then (HELP_DELETE_HEAD, i, 0xFF00) else (HELP_UPDATE_HEAD, i, 0)]"
    using delete_command [OF s lt(1) i, of n] by simp
  then show ?thesis using lt i by (intro exI) (erule conjI, auto)
qed

text \<open>The kernel as the library meets it: it allocates, maps and sets up a table with the answers of the code above.\<close>

definition kernel_setup :: "u64 \<Rightarrow> ipa_ipv6ct_hw_entry list \<Rightarrow> nat \<Rightarrow> ipa3_ctx \<Rightarrow> add_tbl_env \<times> ipa3_ctx" where
  "kernel_setup dma mem sz k =
     (let (alloc_ret, k1) = ipa3_allocate_ipv6ct_table (Some dma) sz k;
          (map_ret, dev) = ipa3_nat_ipv6ct_mmap 0 (k_dev k1);
          k2 = k1\<lparr>k_dev := dev\<rparr>
      in (\<lparr>at_open = Some (ipa_hw_type k), at_alloc = (if alloc_ret \<noteq> 0 then Inl alloc_ret else Inr 0), at_map = map_ret, at_mem = mem,
           at_init = (\<lambda>ini. fst (ipa3_ipv6ct_init_cmd (\<lambda>cmd. 0) ini k2)), at_dealloc = 0\<rparr>, k2))"

definition kernel_free :: "ipa3_ctx \<Rightarrow> bool" where
  "kernel_free k \<longleftrightarrow> IPA_HW_v4_0 \<le> ipa_hw_type k \<and> k_nat_dev_init k \<and> d_is_dev_init (k_dev k) \<and> \<not> d_is_mapped (k_dev k)"

text \<open>A table of the library passes the checks when its memory does not cross the end of the first 4 GB.\<close>

lemma check_passes:
  assumes "unat (d_dma_handle dev) + d_table_alloc_size dev \<le> UINT_MAX" "off + 64 * unat n \<le> d_table_alloc_size dev"
  shows "ipa3_nat_ipv6ct_check_table_params dev off n = 0"
proof -
  have off: "off \<le> UINT_MAX" "off + unat (d_dma_handle dev) \<le> UINT_MAX" using assms by simp_all
  have u: "unat (of_nat off :: u64) = off" using off by (simp add: unat_of_nat take_bit_nat_eq_self)
  have c: "unat (of_nat UINT_MAX :: u64) = UINT_MAX" by simp
  have "unat (of_nat UINT_MAX - d_dma_handle dev) = UINT_MAX - unat (d_dma_handle dev)"
    by (subst unat_minus_eq; use off c in simp)
  then have "\<not> (of_nat off :: u64) > of_nat UINT_MAX - d_dma_handle dev" using off u by (simp only: word_less_nat_alt not_less)
  then show ?thesis using assms off by (simp add: ipa3_nat_ipv6ct_check_table_params_def Let_def)
qed

text \<open>What the checks of the kernel mean: the two tables lie in the allocated memory, and so does the begin of every write that it lets pass.\<close>

lemma check_bounds: "ipa3_nat_ipv6ct_check_table_params dev off n = 0 \<Longrightarrow> off + 64 * unat n \<le> d_table_alloc_size dev"
  by (auto simp: ipa3_nat_ipv6ct_check_table_params_def Let_def split: if_splits)

lemma init_bounds:
  assumes init: "ipa3_ipv6ct_init_cmd send ini k = (0, k')"
    and n: "ini_table_entries ini < 2 ^ 16 - 1" "ini_expn_table_entries ini < 2 ^ 16"
  shows "ini_base_table_offset ini + 64 * (ini_table_entries ini + 1) \<le> d_table_alloc_size (k_dev k')"
    and "ini_expn_table_offset ini + 64 * ini_expn_table_entries ini \<le> d_table_alloc_size (k_dev k')"
    and "d_base_table (k_dev k') = ini_base_table_offset ini" "d_expansion_table (k_dev k') = ini_expn_table_offset ini"
    and "d_table_entries (k_dev k') = ini_table_entries ini" "d_expn_table_entries (k_dev k') = ini_expn_table_entries ini"
proof -
  have u: "unat (of_nat (ini_table_entries ini + 1) :: u16) = ini_table_entries ini + 1" "unat (of_nat (ini_expn_table_entries ini) :: u16) = ini_expn_table_entries ini"
    using n by (simp_all add: unat_of_nat take_bit_nat_eq_self del: of_nat_add of_nat_Suc)
  have c: "ipa3_nat_ipv6ct_check_table_params (k_dev k) (ini_base_table_offset ini) (of_nat (ini_table_entries ini + 1)) = 0"
      "ipa3_nat_ipv6ct_check_table_params (k_dev k) (ini_expn_table_offset ini) (of_nat (ini_expn_table_entries ini)) = 0"
    and k': "k' = k\<lparr>k_dev := (ipa3_nat_ipv6ct_init_device_structure ini (k_dev k))\<lparr>d_is_hw_init := True\<rparr>\<rparr>"
    using init unfolding ipa3_ipv6ct_init_cmd_def Let_def by (auto split: if_splits)
  show "ini_base_table_offset ini + 64 * (ini_table_entries ini + 1) \<le> d_table_alloc_size (k_dev k')"
    "ini_expn_table_offset ini + 64 * ini_expn_table_entries ini \<le> d_table_alloc_size (k_dev k')"
    using check_bounds [OF c(1)] check_bounds [OF c(2)] u by (simp_all add: k' ipa3_nat_ipv6ct_init_device_structure_def)
  show "d_base_table (k_dev k') = ini_base_table_offset ini" "d_expansion_table (k_dev k') = ini_expn_table_offset ini"
    "d_table_entries (k_dev k') = ini_table_entries ini" "d_expn_table_entries (k_dev k') = ini_expn_table_entries ini"
    by (simp_all add: k' ipa3_nat_ipv6ct_init_device_structure_def)
qed


text \<open>A write that the kernel lets pass begins in the memory of the table.\<close>

definition write_address :: "ipa3_ctx \<Rightarrow> ipa_ioc_nat_dma_one \<Rightarrow> nat" where
  "write_address k d = (if dma_base_addr d = IPA_IPV6CT_BASE_TBL then d_base_table (k_dev k) else d_expansion_table (k_dev k)) + dma_offset d"

lemma validated_offset:
  assumes "ipa3_table_validate_table_dma_one nmi d k = 0" "dma_base_addr d \<in> {IPA_IPV6CT_BASE_TBL, IPA_IPV6CT_EXPN_TBL}"
  shows "dma_offset d < 64 * (if dma_base_addr d = IPA_IPV6CT_BASE_TBL then d_table_entries (k_dev k) + 1 else d_expn_table_entries (k_dev k))"
proof -
  have "dma_offset d < 64 * (m mod 2 ^ 32) mod 2 ^ 32 \<Longrightarrow> dma_offset d < 64 * m" for m
    using mod_less_eq_dividend [of "64 * (m mod 2 ^ 32)" "2 ^ 32"] mod_less_eq_dividend [of m "2 ^ 32"] by linarith
  then show ?thesis
    using assms by (auto simp: ipa3_table_validate_table_dma_one_def ipa3_nat_ipv6ct_calculate_table_size_def Let_def split: if_splits)
qed

text \<open>The number of records is cut to 16 bits before it is checked: a request for 65536 records of the base table passes with any memory,
  and then writes far behind the memory do.\<close>

definition wrap_kernel :: ipa3_ctx where
  "wrap_kernel = \<lparr>ipa_hw_type = 17, k_nat_dev_init = True, k_nat_hw_init = False, k_nat_dims = (\<lambda>_. (0, 0)), k_coal = False, k_sram_compatible = False,
     k_dev = \<lparr>d_is_dev_init = True, d_is_hw_init = False, d_is_mapped = True, d_table_alloc_size = 128, d_vaddr = True, d_dma_handle = 0,
       d_base_table = 0, d_expansion_table = 0, d_table_entries = 0, d_expn_table_entries = 0, d_tmp_mem = None\<rparr>\<rparr>"

lemma init_wraps:
  "\<exists>k'. ipa3_ipv6ct_init_cmd (\<lambda>cmd. 0) \<lparr>ini_tbl_index = 0, ini_base_table_offset = 0, ini_expn_table_offset = 0, ini_table_entries = 65535,
      ini_expn_table_entries = 2\<rparr> wrap_kernel = (0, k') \<and> d_table_alloc_size (k_dev k') = 128 \<and>
    ipa3_table_dma_cmd (\<lambda>cmd. 0) 0 [\<lparr>dma_table_index = 0, dma_base_addr = 4, dma_offset = 4194300, dma_data = 0\<rparr>] k' = 0"
  by (simp add: ipa3_ipv6ct_init_cmd_def ipa3_nat_ipv6ct_check_table_params_def wrap_kernel_def ipa3_nat_ipv6ct_init_device_structure_def
      ipa3_table_dma_cmd_def ipa3_table_validate_table_dma_one_def ipa3_nat_ipv6ct_calculate_table_size_def Let_def)

section \<open>Setting up\<close>

definition asked_size :: "u16 \<Rightarrow> nat" where
  "asked_size n = ipa_table_calculate_size (snd (ipa_table_calculate_entries_num n IPA_NAT_MEM_IN_DDR
     (ipa_table_init IPA_NAT_MEM_IN_DDR 64 None ct_interface no_help zero_hw_entry :: ct_hw_table)))"

lemma setup_serves:
  assumes ok: "ct_ok st" "table_cnt st = 0" and n: "n \<noteq> 0" "unat n \<le> IPA_TABLE_MAX_ENTRIES" and mem: "IPA_TABLE_MAX_ENTRIES \<le> length mem"
    and k: "kernel_free k" and low: "unat dma + asked_size n \<le> UINT_MAX" and env: "kernel_setup dma mem (asked_size n) k = (env, k2)"
  shows "\<exists>st' t ini k3. ipa_ipv6ct_add_tbl env n False st = (0, 1, st') \<and> add_tbl_env_ok env \<and> ct_table_of st' = Some t \<and>
    ipa3_ipv6ct_init_cmd (\<lambda>cmd. 0) ini k2 = (0, k3) \<and> kernel_serves k3 t"
proof -
  define t0 :: ct_hw_table where "t0 = ipa_table_init IPA_NAT_MEM_IN_DDR 64 None ct_interface no_help zero_hw_entry"
  obtain base expn where dims: "dims_of (unat n) base expn"
    and calc: "ipa_table_calculate_entries_num n 0 t0 = (0, t0\<lparr>tot_tbl_ents := base + expn, table_entries := base, expn_table_entries := expn\<rparr>)"
    using calculate_entries(2) [OF n(2), of t0] by blast
  obtain j where j: "1 \<le> j" "j \<le> 12" "base = 2 ^ j" and expn: "2 \<le> expn" "expn \<le> 1024" using dims unfolding dims_of_def by blast
  have "(2::nat) ^ 1 \<le> 2 ^ j" "(2::nat) ^ j \<le> 2 ^ 12" using j by (intro power_increasing; simp)+
  then have base: "2 \<le> base" "base \<le> 4096" using j(3) by simp_all
  have size: "asked_size n = 64 * (base + expn)"
    using calc by (simp add: asked_size_def t0_def ipa_table_calculate_size_def ipa_table_init_def)
  define ini where "ini = \<lparr>ini_tbl_index = 0, ini_base_table_offset = 0, ini_expn_table_offset = base * 64, ini_table_entries = base - 1,
    ini_expn_table_entries = expn\<rparr>"
  have env': "env = \<lparr>at_open = Some (ipa_hw_type k), at_alloc = Inr 0, at_map = 0, at_mem = mem,
        at_init = (\<lambda>ini. fst (ipa3_ipv6ct_init_cmd (\<lambda>cmd. 0) ini k2)), at_dealloc = 0\<rparr>"
    and k2: "k2 = k\<lparr>k_dev := (k_dev k)\<lparr>d_table_alloc_size := asked_size n, d_vaddr := True, d_dma_handle := dma, d_is_mapped := True\<rparr>\<rparr>"
    using env k base expn size
    by (auto simp: kernel_setup_def ipa3_allocate_ipv6ct_table_def ipa3_nat_ipv6ct_allocate_mem_def alloc_ipv6ct_mem_def ipa3_nat_ipv6ct_mmap_def
        mmap_ipv6ct_mem_def kernel_free_def Let_def split: if_splits)
  have u: "unat (of_nat base :: u16) = base" "unat (of_nat expn :: u16) = expn" using base expn by (simp_all add: unat_of_nat take_bit_nat_eq_self)
  have "ipa3_nat_ipv6ct_check_table_params (k_dev k2) 0 (of_nat base) = 0" "ipa3_nat_ipv6ct_check_table_params (k_dev k2) (base * 64) (of_nat expn) = 0"
    by (rule check_passes; use low size u in \<open>simp add: k2\<close>)+
  then have "\<exists>k3. ipa3_ipv6ct_init_cmd (\<lambda>cmd. 0) ini k2 = (0, k3) \<and> IPA_HW_v4_0 \<le> ipa_hw_type k3 \<and> k_nat_dev_init k3 \<and> d_is_hw_init (k_dev k3) \<and>
      d_table_entries (k_dev k3) = base - 1 \<and> d_expn_table_entries (k_dev k3) = expn"
    using k base
    by (simp add: ipa3_ipv6ct_init_cmd_def ini_def ipa3_nat_ipv6ct_init_device_structure_def Let_def kernel_free_def)
       (simp add: k2)
  then obtain k3 where k3: "ipa3_ipv6ct_init_cmd (\<lambda>cmd. 0) ini k2 = (0, k3)" "IPA_HW_v4_0 \<le> ipa_hw_type k3" "k_nat_dev_init k3" "d_is_hw_init (k_dev k3)"
      "d_table_entries (k_dev k3) = base - 1" "d_expn_table_entries (k_dev k3) = expn" by blast
  have ok': "add_tbl_env_ok env" using mem by (simp add: env' add_tbl_env_ok_def)
  have st: "ipa_desc st = None" "length (ct_tables st) = 1" "\<not> md_valid (mem_desc (ct_tables st ! 0))"
    using ok by (auto simp: ct_ok_def ct_table_of_def split: if_splits)
  obtain ret t1 where c: "ipa_ipv6ct_create_table env n 0 (ct_tables st ! 0) = (ret, t1)" by (cases "ipa_ipv6ct_create_table env n 0 (ct_tables st ! 0)")
  have t1: "ret = 0" "addr_offset (mem_desc t1) = 0" "table_entries (ct_tbl t1) = base" "expn_table_entries (ct_tbl t1) = expn"
    using c by (auto simp: ipa_ipv6ct_create_table_def calc [unfolded t0_def] env' ipa_mem_descriptor_allocate_memory_def AllocateMemory_def Let_def
        ipa_table_reset_def ipa_table_calculate_addresses_def)
  have valid: "md_valid (mem_desc t1)" using create_table [OF ok' c st(3)] t1(1) by simp
  have "at_init env ini = 0" "ini = \<lparr>ini_tbl_index = 0, ini_base_table_offset = addr_offset (mem_desc t1),
       ini_expn_table_offset = addr_offset (mem_desc t1) + table_entries (ct_tbl t1) * 64,
       ini_table_entries = table_entries (ct_tbl t1) - 1, ini_expn_table_entries = expn_table_entries (ct_tbl t1)\<rparr>"
    using k3(1) by (simp_all add: env' ini_def t1)
  then have post: "ipa_ipv6ct_post_init_cmd env t1 0 = 0" by (simp add: ipa_ipv6ct_post_init_cmd_def)
  have "at_open env = Some (ipa_hw_type k)" "IPA_HW_v4_0 \<le> ipa_hw_type k" using k by (simp_all add: env' kernel_free_def)
  then have "ipa_ipv6ct_add_tbl env n False st = (0, 1, st\<lparr>ipa_desc := Some (ipa_hw_type k), ct_tables := (ct_tables st)[0 := t1], table_cnt := 1\<rparr>)"
    using n(1) ok(2) st(1) c t1(1) post by (simp add: ipa_ipv6ct_add_tbl_def Let_def)
  moreover have "ct_table_of (st\<lparr>ipa_desc := Some (ipa_hw_type k), ct_tables := (ct_tables st)[0 := t1], table_cnt := 1\<rparr>) = Some (ct_tbl t1)"
    using st(2) valid by (simp add: ct_table_of_def)
  moreover have "kernel_serves k3 (ct_tbl t1)" using k3 t1 by (simp add: kernel_serves_def)
  ultimately show ?thesis using ok' k3(1) by blast
qed

end
