(* ===== verification/Ct_Claims.thy ===== *)
theory Ct_Claims
  imports Ct_Kernel
begin

text \<open>
  The properties of the connection tracking tables, over every state that the library reaches on the
  documented hardware, with an example state for the witnesses.
\<close>

section \<open>An example\<close>

definition example_kernel :: add_tbl_env where
  "example_kernel = \<lparr>at_open = Some 17, at_alloc = Inr 0, at_map = 0, at_mem = replicate 5120 zero_hw_entry, at_init = (\<lambda>_. 0), at_dealloc = 0\<rparr>"

definition example_env :: ct_env where
  "example_env = \<lparr>ct_lock = 0, ct_unlock = 0, ct_ioctl = 0\<rparr>"

definition example_rule :: ipa_ipv6ct_rule where
  "example_rule = \<lparr>ru_src_ipv6_lsb = 1, ru_src_ipv6_msb = 2, ru_dest_ipv6_lsb = 3, ru_dest_ipv6_msb = 4, ru_direction_settings = 3,
     ru_ucp = False, ru_s = False, ru_uc_activation_index = 0, ru_src_port = 80, ru_dest_port = 8080, ru_protocol = 6\<rparr>"

definition example_state :: ipa_ipv6ct where
  "example_state = snd (snd (ipa_ipv6ct_add_tbl example_kernel 100 False ct_init))"

text \<open>A table is added when the kernel answers with success.\<close>

lemma add_tbl_succeeds:
  assumes "ct_ok st" "table_cnt st = 0" "n \<noteq> 0" "unat n \<le> IPA_TABLE_MAX_ENTRIES"
    and "at_open env = Some ver" "IPA_HW_v4_0 \<le> ver" "at_alloc env = Inr off" "at_map env = 0" "at_init env = (\<lambda>_. 0)"
  shows "\<exists>st'. ipa_ipv6ct_add_tbl env n False st = (0, 1, st')"
proof -
  have st: "ipa_desc st = None" using assms(1,2) by (simp add: ct_ok_def)
  obtain base expn where "ipa_table_calculate_entries_num n 0 (ipa_table_init 0 64 None ct_interface no_help zero_hw_entry :: ct_hw_table) =
      (0, (ipa_table_init 0 64 None ct_interface no_help zero_hw_entry)\<lparr>tot_tbl_ents := base + expn, table_entries := base, expn_table_entries := expn\<rparr>)"
    using calculate_entries(2) [of n "ipa_table_init 0 64 None ct_interface no_help zero_hw_entry :: ct_hw_table"] assms(4) by auto
  then show ?thesis
    using assms st
    by (simp add: ipa_ipv6ct_add_tbl_def ipa_ipv6ct_create_table_def ipa_mem_descriptor_allocate_memory_def AllocateMemory_def ipa_ipv6ct_post_init_cmd_def Let_def)
qed

lemma example_reached: "ct_reach documented_hw example_state" "call_ok ct_init (AddTbl example_kernel 100 False)"
  and example_table: "\<exists>t. ct_table_of example_state = Some t \<and> ct_rules t = Map.empty \<and> 2 \<le> expn_table_entries t"
  and example_device: "ipa_desc example_state \<noteq> None"
proof -
  have ok: "add_tbl_env_ok example_kernel" by (simp add: add_tbl_env_ok_def example_kernel_def)
  then show c: "call_ok ct_init (AddTbl example_kernel 100 False)" by simp
  obtain st' where st': "ipa_ipv6ct_add_tbl example_kernel 100 False ct_init = (0, 1, st')"
    using add_tbl_succeeds [OF init_ok, of 100 example_kernel 17 0] by (auto simp: ct_init_def example_kernel_def)
  then have e: "example_state = st'" by (simp add: example_state_def)
  have step: "ct_step documented_hw (AddTbl example_kernel 100 False) ct_init = Some (0, 1, example_state)" using st' e by simp
  show "ct_reach documented_hw example_state" by (rule ct_reach_step [OF ct_reach_init c step])
  have eff: "ct_ok example_state" "call_effect (AddTbl example_kernel 100 False) 0 1 ct_init example_state"
    using ct_step_ok [OF init_ok c documented(1)] unfolding step by auto
  then show t: "\<exists>t. ct_table_of example_state = Some t \<and> ct_rules t = Map.empty \<and> 2 \<le> expn_table_entries t"
    by (auto simp: dims_of_def)
  then show "ipa_desc example_state \<noteq> None" using eff(1) by (auto simp: ct_ok_def split: if_splits)
qed

section \<open>Properties\<close>

text \<open>
  C29: over the documented hardware, and with every call but the addition of a table made while a device is open, and every added table
  placed by the kernel at the begin of enough memory, every table of a reachable state is well formed: the base table has a power of two of records, at most 4096, the expansion table
  at most 1024, all records are there, and no access has left the records. (A call before the first table is added
  follows a NULL pointer; such runs are not among the reachable states.)
\<close>

theorem ct_table_formed:
  assumes "documented_hardware hw" "ct_reach hw st"
  shows "length (ct_tables st) = 1 \<and>
    (case ct_table_of st of None \<Rightarrow> True
     | Some t \<Rightarrow> \<not> tbl_ub t \<and> (\<exists>k\<in>{1..12}. table_entries t = 2 ^ k) \<and> expn_table_entries t \<in> {2..1024} \<and>
         length (tbl_recs t) = table_entries t + expn_table_entries t \<and> tot_tbl_ents t = length (tbl_recs t))"
proof -
  have ok: "ct_ok st" by (rule ct_reach_ok [OF assms(2,1)])
  show ?thesis
  proof (cases "ct_table_of st")
    case (Some t)
    then have s: "table_shape t" using ok by (simp add: ct_ok_def ct_inv_def)
    then have "\<exists>k\<in>{1..12}. table_entries t = 2 ^ k" unfolding table_shape_def by auto
    then show ?thesis using ok Some s shape_len [OF s] shape_tot [OF s] shape_ub [OF s] shape_expn [OF s] by (simp add: ct_ok_def)
  qed (use ok in \<open>simp add: ct_ok_def\<close>)
qed

theorem ct_table_formed_witness:
  "\<exists>t. ct_table_of example_state = Some t \<and> \<not> tbl_ub t \<and> length (tbl_recs t) = table_entries t + expn_table_entries t"
  using ct_table_formed [OF documented(1) example_reached(1)] example_table by auto

text \<open>
  C30: the records in use of every reachable table form chains: from each base record that is in use the
  next and previous indices link distinct expansion records of its own, every expansion record in use is
  in one chain, a record whose rule is deleted while it is in use heads a chain that goes on, each rule is
  in the chain of its hash, and the two counters are the numbers of records in use.
\<close>

theorem ct_chains:
  assumes "documented_hardware hw" "ct_reach hw st" "ct_table_of st = Some t"
  shows "(\<exists>C. chained (table_entries t) (tbl_recs t) C) \<and>
    unat (cur_tbl_cnt t) = card {i. i < table_entries t \<and> en_enable (tbl_recs t ! i)} \<and>
    unat (cur_expn_tbl_cnt t) = card {i. table_entries t \<le> i \<and> i < tot_tbl_ents t \<and> en_enable (tbl_recs t ! i)}"
proof -
  have inv: "ct_inv t" using ct_reach_ok [OF assms(2,1)] assms(3) by (simp add: ct_ok_def)
  then have s: "table_shape t" by (simp add: ct_inv_def)
  have small: "unat (of_nat (used lo hi (tbl_recs t)) :: u16) = used lo hi (tbl_recs t)" if "hi \<le> tot_tbl_ents t" for lo hi
  proof -
    have "used lo hi (tbl_recs t) \<le> card {..<tot_tbl_ents t}" unfolding used_def by (rule card_mono) (use that in auto)
    then show ?thesis using shape_base [OF s] shape_expn [OF s] shape_tot [OF s] by (simp add: unat_of_nat take_bit_nat_eq_self)
  qed
  show ?thesis
    using inv small [of "table_entries t" 0] small [of "tot_tbl_ents t" "table_entries t"] shape_tot [OF s] by (simp add: ct_inv_def used_def)
qed

theorem ct_chains_witness: "\<exists>t. ct_table_of example_state = Some t \<and> (\<exists>C. chained (table_entries t) (tbl_recs t) C)"
  using ct_chains [OF documented(1) example_reached(1)] example_table by blast

text \<open>
  C31: over the documented hardware, a call on a reachable state returns and means what it says for the rules, provided that a
  device is open (for the addition of a table: that the kernel maps enough memory, places the table at its begin, and
  gives errors that are not 0): a table is added empty with the dimensions for its number of entries; a rule is added under the handle of a
  record that held none, with the value that is stored; a deletion removes the rule of the handle; and a
  call that fails changes no rule.
\<close>

theorem ct_calls_return:
  assumes "documented_hardware hw" "ct_reach hw st" "call_ok st c"
  shows "\<exists>ret h st'. ct_step hw c st = Some (ret, h, st') \<and> ct_reach hw st' \<and> call_effect c ret h st st'"
  using ct_step_ok [OF ct_reach_ok [OF assms(2,1)] assms(3,1)] ct_reach_step [OF assms(2,3)] by blast

theorem ct_calls_return_witness:
  "\<exists>ret h st'. ct_step documented_hw (AddRule example_env 1 (Some example_rule) False) example_state = Some (ret, h, st') \<and>
     call_effect (AddRule example_env 1 (Some example_rule) False) ret h example_state st'"
  using ct_calls_return [OF documented(1) example_reached(1), of "AddRule example_env 1 (Some example_rule) False"] example_device
  by (auto simp del: call_effect.simps)


text \<open>
  C32: over the documented hardware and a reachable state with a table, a client that adds rules and deletes handles, and keeps a ledger of
  the handles it was given from the answers alone, has an exact ledger after any sequence of such calls in which the mutex
  can always be unlocked, whatever the locking of the mutex and the requests to the kernel answer on the way; and the
  hardware finds an entry for a connection exactly when the ledger has a rule for it. (A rule whose addition ends with a
  failed unlock stays in the table without a handle for the client.)
\<close>

theorem ct_ledger_found:
  assumes hw: "documented_hardware hw" and st: "ct_reach hw st" "ct_table_of st \<noteq> None" and cs: "\<forall>(env, c)\<in>set cs. ct_unlock env = 0"
    and run: "store_run (ct_add hw) (ct_del hw) stored_rule cs (st, ct_handles st) = (st', m)"
  shows "m = ct_handles st' \<and>
    (\<exists>t. ct_table_of st' = Some t \<and> (\<forall>k. ct_lookup t k \<noteq> None \<longleftrightarrow> (\<exists>h r. m h = Some r \<and> same_connection r k)))"
proof -
  have "ct_serving st" using st ct_reach_ok [OF st(1) hw] by (simp add: ct_serving_def)
  from ct.ledger_exact [OF this cs run [unfolded documented(2) [OF hw]]] have s: "ct_serving st'" "m = ct_handles st'" by simp_all
  then obtain t where "ct_table_of st' = Some t" by (auto simp: ct_serving_def)
  with s lookup_handles [OF s(1) this] show ?thesis by auto
qed

text \<open>
  C33: over the documented hardware, while fewer rules are live in the table of a reachable state than the expansion table has
  records, a rule with a valid direction and a protocol other than 255 is added, whatever the hashes are, when the mutex
  can be locked and unlocked and the request to the kernel succeeds.
\<close>

theorem ct_room:
  assumes "documented_hardware hw" "ct_reach hw st" "ct_table_of st = Some t" "card (dom (rules_in st)) < expn_table_entries t"
    and "ru_direction_settings r \<in> {0, 1, 2, 3}" "ru_protocol r \<noteq> 255" "ct_lock env = 0" "ct_unlock env = 0" "ct_ioctl env = 0"
  shows "\<exists>h st'. ct_step hw (AddRule env 1 (Some r) False) st = Some (0, h, st')"
proof -
  have ok: "ct_ok st" by (rule ct_reach_ok [OF assms(2,1)])
  then have inv: "ct_inv t" and dev: "ipa_desc st \<noteq> None" using assms(3) by (auto simp: ct_ok_def split: if_splits)
  have few: "card (dom (ct_rules t)) < expn_table_entries t" using assms(3,4) by (simp add: rules_in_def)
  have "dir_ok r" using assms(5) by (simp add: dir_ok_def)
  then obtain hdl t' where "add_rule_section hw 0 r t = Some (0, hdl, t')" using add_room [OF inv assms(1) few] by blast
  then show ?thesis
    using assms(3,6-9) entry_checks [OF ok dev] by (auto simp: ipa_ipv6ct_add_rule_def table_of_iff)
qed

theorem ct_room_witness: "\<exists>h st'. ct_step documented_hw (AddRule example_env 1 (Some example_rule) False) example_state = Some (0, h, st')"
proof -
  obtain t where t: "ct_table_of example_state = Some t" "ct_rules t = Map.empty" "2 \<le> expn_table_entries t" using example_table by blast
  then have few: "card (dom (rules_in example_state)) < expn_table_entries t" by (simp add: rules_in_def)
  show ?thesis
    by (rule ct_room [OF documented(1) example_reached(1) t(1) few]) (simp_all add: example_rule_def example_env_def)
qed

text \<open>The example rule is added to the example state.\<close>

lemma example_add: "\<exists>h st'. ct_add documented_hw example_env example_rule example_state = (Some h, st')"
proof -
  obtain t where t: "ct_table_of example_state = Some t" "ct_rules t = Map.empty" "2 \<le> expn_table_entries t" using example_table by blast
  have ok: "ct_ok example_state" by (rule ct_reach_ok [OF example_reached(1) documented(1)])
  then have inv: "ct_inv t" using t by (simp add: ct_ok_def)
  obtain hdl t' where "add_rule_section documented_hw 0 example_rule t = Some (0, hdl, t')"
    using add_room [OF inv documented(1), of example_rule] t by (auto simp: dir_ok_def example_rule_def)
  then show ?thesis
    using t entry_checks [OF ok example_device] by (auto simp: ct_add_def ipa_ipv6ct_add_rule_def table_of_iff example_env_def example_rule_def)
qed

theorem ct_ledger_found_witness:
  "case store_run (ct_add documented_hw) (ct_del documented_hw) stored_rule [(example_env, Inl example_rule)] (example_state, ct_handles example_state) of
     (st', m) \<Rightarrow> m = ct_handles st' \<and> (\<exists>t. ct_table_of st' = Some t \<and> ct_lookup t example_rule \<noteq> None)"
proof -
  obtain h st' where a: "ct_add documented_hw example_env example_rule example_state = (Some h, st')" using example_add by blast
  let ?cs = "[(example_env, Inl example_rule :: ipa_ipv6ct_rule + u32)]"
  have run: "store_run (ct_add documented_hw) (ct_del documented_hw) stored_rule ?cs (example_state, ct_handles example_state) =
      (st', (ct_handles example_state)(h \<mapsto> stored_rule example_rule))" using a by simp
  have t: "ct_table_of example_state \<noteq> None" using example_table by auto
  have same: "same_connection (stored_rule example_rule) example_rule" by (simp add: same_connection_def stored_rule_def)
  have "\<forall>(env, c)\<in>set ?cs. ct_unlock env = 0" by (simp add: example_env_def)
  note l = ct_ledger_found [OF documented(1) example_reached(1) t this run]
  have "\<exists>h' r. ((ct_handles example_state)(h \<mapsto> stored_rule example_rule)) h' = Some r \<and> same_connection r example_rule"
    using same by (intro exI [of _ h] exI [of _ "stored_rule example_rule"]) simp
  then show ?thesis unfolding run prod.case using l by blast
qed

text \<open>
  The handle of a record of a reachable table is not 0, fits into 16 bits and names the record again, so two
  records never share a handle.
\<close>

theorem ct_handle_roundtrip:
  assumes "documented_hardware hw" "ct_reach hw st" "ct_table_of st = Some t" "0 < i" "i < tot_tbl_ents t"
  shows "MakeEntryHdl t i \<noteq> 0 \<and> ipa_table_get_entry (ucast (MakeEntryHdl t i)) t = (0, i)"
proof -
  have s: "table_shape t" using ct_reach_ok [OF assms(2,1)] assms(3) by (simp add: ct_ok_def ct_inv_def)
  show ?thesis using handle_nonzero [OF s assms(4,5)] handle_index [OF s assms(5)] assms(5) by (simp add: ipa_table_get_entry_def Let_def)
qed

theorem ct_handle_roundtrip_witness:
  "\<exists>t. ct_table_of example_state = Some t \<and> MakeEntryHdl t 3 \<noteq> 0 \<and> ipa_table_get_entry (ucast (MakeEntryHdl t 3)) t = (0, 3)"
proof -
  obtain t where t: "ct_table_of example_state = Some t" using example_table by blast
  have s: "table_shape t" using ct_reach_ok [OF example_reached(1) documented(1)] t by (simp add: ct_ok_def ct_inv_def)
  have "3 < tot_tbl_ents t" using shape_base [OF s] shape_expn [OF s] shape_tot [OF s] by simp
  then show ?thesis using ct_handle_roundtrip [OF documented(1) example_reached(1) t, of 3] t by auto
qed

text \<open>
  The hash of a rule is the exclusive or of the eight halves of each address, the ports and the
  protocol, cut to the base table; 0 is replaced by the last index.
\<close>

theorem ct_hash_halves:
  "ipa_ipv6ct_hash r sz =
     (let h = foldr (XOR) [half w i. w \<leftarrow> [ru_src_ipv6_lsb r, ru_src_ipv6_msb r, ru_dest_ipv6_lsb r, ru_dest_ipv6_msb r], i \<leftarrow> [0, 1, 2, 3]]
                (ru_src_port r XOR ru_dest_port r XOR ucast (ru_protocol r)) AND sz
      in if h = 0 then sz else h)"
  by (simp add: ipa_ipv6ct_hash_def xor_four Let_def ac_simps)

text \<open>
  C37: when the kernel refuses to delete a table, the table is forgotten but still counted: from then on
  every call fails and nothing ever changes, so no table can be added again.
\<close>

theorem ct_delete_refused:
  assumes "documented_hardware hw" "ct_reach hw st" "ct_table_of st \<noteq> None" "ct_lock env = 0" "ct_ioctl env \<noteq> 0"
  shows "\<exists>ret st'. ct_step hw (DelTbl env 1) st = Some (ret, 0, st') \<and> ret \<noteq> 0 \<and> table_cnt st' = 1 \<and> ct_table_of st' = None \<and>
    (\<forall>c. call_ok st' c \<longrightarrow> (\<exists>ret h. ct_step hw c st' = Some (ret, h, st') \<and> ret \<noteq> 0))"
proof -
  have ok: "ct_ok st" by (rule ct_reach_ok [OF assms(2,1)])
  then have dev: "ipa_desc st \<noteq> None" using assms(3) by (auto simp: ct_ok_def split: if_splits)
  obtain ret st' where del: "ipa_ipv6ct_del_tbl env 1 st = (ret, st')" "ct_ok st'" using del_tbl_call [OF ok dev] by blast
  have cnt: "ret \<noteq> 0" "table_cnt st' = 1" "ct_table_of st' = None"
    using del(1) assms(3-5) entry_checks [OF ok dev] ok
    by (auto simp: ipa_ipv6ct_del_tbl_def table_of_iff ipa_ipv6ct_destroy_table_def ipa_mem_descriptor_delete_def unlock_ret_def ct_ok_def Let_def
        split: if_splits)
  then have "ct_stuck st'" using del(2) by (simp add: ct_stuck_def)
  then show ?thesis using stuck_step [of st' _ hw] del(1) cnt by auto
qed

theorem ct_delete_refused_witness:
  "\<exists>ret st'. ct_step documented_hw (DelTbl (example_env\<lparr>ct_ioctl := 5\<rparr>) 1) example_state = Some (ret, 0, st') \<and> ret \<noteq> 0 \<and>
     (\<exists>ret h. ct_step documented_hw (AddTbl example_kernel 100 False) st' = Some (ret, h, st') \<and> ret \<noteq> 0)"
proof -
  have t: "ct_table_of example_state \<noteq> None" using example_table by auto
  obtain ret st' where d: "ct_step documented_hw (DelTbl (example_env\<lparr>ct_ioctl := 5\<rparr>) 1) example_state = Some (ret, 0, st')" "ret \<noteq> 0"
    "\<forall>c. call_ok st' c \<longrightarrow> (\<exists>ret h. ct_step documented_hw c st' = Some (ret, h, st') \<and> ret \<noteq> 0)"
    using ct_delete_refused [OF documented(1) example_reached(1) t, of "example_env\<lparr>ct_ioctl := 5\<rparr>"] by (auto simp: example_env_def)
  moreover have "call_ok st' (AddTbl example_kernel 100 False)" using example_reached(2) by simp
  ultimately show ?thesis by blast
qed


section \<open>The kernel\<close>

definition example_ctx :: ipa3_ctx where
  "example_ctx = wrap_kernel\<lparr>k_dev := (k_dev wrap_kernel)\<lparr>d_is_mapped := False\<rparr>\<rparr>"

lemma example_ctx_free: "kernel_free example_ctx"
  by (simp add: kernel_free_def example_ctx_def wrap_kernel_def)

lemma example_asked: "asked_size 100 \<le> 64 * 5120"
proof -
  obtain base expn where "dims_of (unat (100 :: u16)) base expn"
    "ipa_table_calculate_entries_num 100 0 (ipa_table_init 0 64 None ct_interface no_help zero_hw_entry :: ct_hw_table) =
      (0, (ipa_table_init 0 64 None ct_interface no_help zero_hw_entry)\<lparr>tot_tbl_ents := base + expn, table_entries := base, expn_table_entries := expn\<rparr>)"
    using calculate_entries(2) [of 100 "ipa_table_init 0 64 None ct_interface no_help zero_hw_entry :: ct_hw_table"] by auto
  then show ?thesis by (simp add: asked_size_def ipa_table_calculate_size_def ipa_table_init_def dims_of_def)
qed

text \<open>
  C34: over the kernel of this repository and the documented hardware, a table of 1 to 5120 entries can be added in every
  reachable state in which the library counts no table, when the device of the kernel is initialised and has no mapping, its memory for the
  table can be allocated and mapped and lies below 4 GB, and the hardware carries out the commands: the memory is allocated with the
  size the library asks for, the dimensions it posts pass the checks, and afterwards the kernel serves the table that the library uses.
\<close>

theorem ct_kernel_setup:
  assumes "documented_hardware hw" "ct_reach hw st" "table_cnt st = 0" "n \<noteq> 0" "unat n \<le> IPA_TABLE_MAX_ENTRIES"
    and "IPA_TABLE_MAX_ENTRIES \<le> length mem" "kernel_free k" "unat dma + asked_size n \<le> UINT_MAX"
    and "kernel_setup dma mem (asked_size n) k = (env, k2)"
  shows "\<exists>st' t ini k3. ct_step hw (AddTbl env n False) st = Some (0, 1, st') \<and> ct_reach hw st' \<and> ct_table_of st' = Some t \<and>
    ipa3_ipv6ct_init_cmd (\<lambda>cmd. 0) ini k2 = (0, k3) \<and> kernel_serves k3 t"
proof -
  obtain st' t ini k3 where s: "ipa_ipv6ct_add_tbl env n False st = (0, 1, st')" "add_tbl_env_ok env" "ct_table_of st' = Some t"
    "ipa3_ipv6ct_init_cmd (\<lambda>cmd. 0) ini k2 = (0, k3)" "kernel_serves k3 t"
    using setup_serves [OF ct_reach_ok [OF assms(2,1)] assms(3-9)] by blast
  then have step: "ct_step hw (AddTbl env n False) st = Some (0, 1, st')" by simp
  moreover have "ct_reach hw st'" by (rule ct_reach_step [OF assms(2) _ step]) (simp add: s(2))
  ultimately show ?thesis using s(3-5) by blast
qed

theorem ct_kernel_setup_witness:
  "\<exists>env k2 st' t k3. kernel_setup 4096 (replicate 5120 zero_hw_entry) (asked_size 100) example_ctx = (env, k2) \<and>
     ct_step documented_hw (AddTbl env 100 False) ct_init = Some (0, 1, st') \<and> ct_table_of st' = Some t \<and> kernel_serves k3 t"
proof -
  obtain env k2 where e: "kernel_setup 4096 (replicate 5120 zero_hw_entry) (asked_size 100) example_ctx = (env, k2)"
    by (cases "kernel_setup 4096 (replicate 5120 zero_hw_entry) (asked_size 100) example_ctx")
  have "\<exists>st' t ini k3. ct_step documented_hw (AddTbl env 100 False) ct_init = Some (0, 1, st') \<and> ct_reach documented_hw st' \<and> ct_table_of st' = Some t \<and>
    ipa3_ipv6ct_init_cmd (\<lambda>cmd. 0) ini k2 = (0, k3) \<and> kernel_serves k3 t"
    by (rule ct_kernel_setup [OF documented(1) ct_reach_init _ _ _ _ example_ctx_free _ e])
      (use example_asked in \<open>simp_all add: ct_init_def\<close>)
  with e show ?thesis by blast
qed

text \<open>
  C35: the kernel passes every command of the library to the hardware: what an addition posts, and what a deletion
  of any record in use posts, on any reachable table that the kernel serves.
\<close>

theorem ct_kernel_accepts:
  assumes "documented_hardware hw" "ct_reach hw st" "ct_table_of st = Some t" "kernel_serves k t"
  shows "(\<forall>r i hdl cmd t'. ipa_table_add_entry r (unat (ipa_ipv6ct_hash r (of_nat (table_entries t - 1)))) [] t = Some (0, i, hdl, cmd, t') \<longrightarrow>
      ipa3_table_dma_cmd submit 0 cmd k = submit cmd) \<and>
    (\<forall>i it. i < tot_tbl_ents t \<and> ipa_table_iterator_init i t = (0, it) \<longrightarrow>
      ipa3_table_dma_cmd submit 0 (ipa_table_create_delete_command [] it t) k = submit (ipa_table_create_delete_command [] it t))"
proof -
  have inv: "ct_inv t" using ct_reach_ok [OF assms(2,1)] assms(3) by (simp add: ct_ok_def)
  then obtain C where C: "chained (table_entries t) (tbl_recs t) C" and s: "table_shape t" unfolding ct_inv_def by blast
  show ?thesis
  proof (intro conjI allI impI)
    show "ipa3_table_dma_cmd submit 0 cmd k = submit cmd"
      if "ipa_table_add_entry r (unat (ipa_ipv6ct_hash r (of_nat (table_entries t - 1)))) [] t = Some (0, i, hdl, cmd, t')" for r i hdl cmd t'
      using add_commands [OF s C that [folded bucket_def]] dma_cmd_submitted [OF s assms(4)] by blast
    show "ipa3_table_dma_cmd submit 0 (ipa_table_create_delete_command [] it t) k = submit (ipa_table_create_delete_command [] it t)"
      if "i < tot_tbl_ents t \<and> ipa_table_iterator_init i t = (0, it)" for i it
      using delete_commands [OF s conjunct1 [OF that] conjunct2 [OF that]] dma_cmd_submitted [OF s assms(4)] by blast
  qed
qed

text \<open>A state of both sides for the witness.\<close>

lemma example_served: "\<exists>st t k. ct_reach documented_hw st \<and> ct_table_of st = Some t \<and> ct_rules t = Map.empty \<and> kernel_serves k t"
proof -
  obtain env k2 where e: "kernel_setup 4096 (replicate 5120 zero_hw_entry) (asked_size 100) example_ctx = (env, k2)"
    by (cases "kernel_setup 4096 (replicate 5120 zero_hw_entry) (asked_size 100) example_ctx")
  have "\<exists>st' t ini k3. ipa_ipv6ct_add_tbl env 100 False ct_init = (0, 1, st') \<and> add_tbl_env_ok env \<and> ct_table_of st' = Some t \<and>
    ipa3_ipv6ct_init_cmd (\<lambda>cmd. 0) ini k2 = (0, k3) \<and> kernel_serves k3 t"
    by (rule setup_serves [OF init_ok _ _ _ _ example_ctx_free _ e]) (use example_asked in \<open>simp_all add: ct_init_def\<close>)
  then obtain st' t k3 where s: "ipa_ipv6ct_add_tbl env 100 False ct_init = (0, 1, st')" "add_tbl_env_ok env" "ct_table_of st' = Some t" "kernel_serves k3 t"
    by blast
  have "ct_reach documented_hw st'" by (rule ct_reach_step [OF ct_reach_init, of "AddTbl env 100 False" _ 0 1]) (simp_all add: s)
  moreover have "ct_rules t = Map.empty" using add_tbl_call [OF init_ok s(2), of 100 False] s(1,3) by auto
  ultimately show ?thesis using s by blast
qed

theorem ct_kernel_accepts_witness:
  "\<exists>t k i hdl cmd t'. kernel_serves k t \<and>
     ipa_table_add_entry example_rule (unat (ipa_ipv6ct_hash example_rule (of_nat (table_entries t - 1)))) [] t = Some (0, i, hdl, cmd, t') \<and>
     ipa3_table_dma_cmd (\<lambda>cmd. 7) 0 cmd k = 7"
proof -
  obtain st t k where st: "ct_reach documented_hw st" "ct_table_of st = Some t" "ct_rules t = Map.empty" "kernel_serves k t" using example_served by blast
  have inv: "ct_inv t" using ct_reach_ok [OF st(1) documented(1)] st(2) by (simp add: ct_ok_def)
  then have "2 \<le> expn_table_entries t" using shape_expn by (auto simp: ct_inv_def)
  then obtain h t2 where "add_rule_section documented_hw 0 example_rule t = Some (0, h, t2)"
    using add_room [OF inv documented(1), of example_rule] st(3) by (auto simp: dir_ok_def example_rule_def)
  then obtain i hdl cmd t' where
    "ipa_table_add_entry example_rule (unat (ipa_ipv6ct_hash example_rule (of_nat (table_entries t - 1)))) [] t = Some (0, i, hdl, cmd, t')"
    by (auto simp: add_rule_section_def Let_def bind_eq_Some_conv split: if_splits)
  then show ?thesis using ct_kernel_accepts [OF documented(1) st(1,2,4), of "\<lambda>cmd. 7"] st(4) by blast
qed

text \<open>
  C36: when the kernel has accepted the dimensions of a table, fewer than 65536 records in the base table, every
  write to the tables for IPv6 that its checks let pass begins in the memory that was allocated for them.
\<close>

theorem ct_kernel_bounds:
  assumes "ipa3_ipv6ct_init_cmd send ini k = (0, k')" "ini_table_entries ini < 2 ^ 16 - 1" "ini_expn_table_entries ini < 2 ^ 16"
    and "ipa3_table_validate_table_dma_one nmi d k' = 0" "dma_base_addr d \<in> {IPA_IPV6CT_BASE_TBL, IPA_IPV6CT_EXPN_TBL}"
  shows "write_address k' d < d_table_alloc_size (k_dev k')"
  using init_bounds [OF assms(1-3)] validated_offset [OF assms(4,5)] assms(5) by (auto simp: write_address_def)

theorem ct_kernel_bounds_witness:
  "write_address (snd (ipa3_ipv6ct_init_cmd (\<lambda>cmd. 0) \<lparr>ini_tbl_index = 0, ini_base_table_offset = 0, ini_expn_table_offset = 64,
       ini_table_entries = 1, ini_expn_table_entries = 1\<rparr> wrap_kernel))
     \<lparr>dma_table_index = 0, dma_base_addr = 5, dma_offset = 40, dma_data = 3\<rparr> < 128"
proof -
  let ?ini = "\<lparr>ini_tbl_index = 0, ini_base_table_offset = 0, ini_expn_table_offset = 64, ini_table_entries = 1, ini_expn_table_entries = 1\<rparr>"
  let ?d = "\<lparr>dma_table_index = 0, dma_base_addr = 5, dma_offset = 40, dma_data = 3\<rparr>"
  let ?k = "snd (ipa3_ipv6ct_init_cmd (\<lambda>cmd. 0) ?ini wrap_kernel)"
  have i: "ipa3_ipv6ct_init_cmd (\<lambda>cmd. 0) ?ini wrap_kernel = (0, ?k)" and a: "d_table_alloc_size (k_dev ?k) = 128"
    and v: "ipa3_table_validate_table_dma_one 0 ?d ?k = 0"
    by (simp_all add: ipa3_ipv6ct_init_cmd_def ipa3_nat_ipv6ct_check_table_params_def wrap_kernel_def ipa3_nat_ipv6ct_init_device_structure_def
        ipa3_table_validate_table_dma_one_def ipa3_nat_ipv6ct_calculate_table_size_def Let_def)
  show ?thesis using ct_kernel_bounds [OF i _ _ v] a by simp
qed

end
