(* ===== verification/Nat_Pdn.thy ===== *)
theory Nat_Pdn
  imports Ct_Kernel
begin

text \<open>
  The table of public addresses of the NAT for IPv4, one for each packet data network: the entries that the
  library keeps (\<^verbatim>\<open>ipa_nat_drvi.c\<close>, behind the checks of \<^verbatim>\<open>ipa_nat_drv.c\<close>), those of the kernel (\<^verbatim>\<open>ipa_nat.c\<close>), and
  the copy in the memory of the hardware.
\<close>

section \<open>Data\<close>

abbreviation (input) IPA_HW_v4_1 :: nat where "IPA_HW_v4_1 \<equiv> 15"
abbreviation (input) IPA_MAX_PDN_NUM :: nat where "IPA_MAX_PDN_NUM \<equiv> 16"
abbreviation (input) IPA_NAT_MAX_IP4_TBLS :: u32 where "IPA_NAT_MAX_IP4_TBLS \<equiv> 1"
abbreviation (input) IPA_QMAP_TETH_BIT :: u32 where "IPA_QMAP_TETH_BIT \<equiv> 0x40000000"

record ipa_nat_pdn_entry =
  pe_public_ip :: u32
  pe_src_metadata :: u32
  pe_dst_metadata :: u32

definition zero_pdn :: ipa_nat_pdn_entry where
  "zero_pdn = \<lparr>pe_public_ip = 0, pe_src_metadata = 0, pe_dst_metadata = 0\<rparr>"

text \<open>The request of a change: the index and the new entry.\<close>

record ipa_ioc_nat_pdn_entry =
  mp_pdn_index :: u8
  mp_entry :: ipa_nat_pdn_entry

text \<open>The state of the library: the entries, their number, and whether the device is open for a table in one of the two memories. A read or
  write behind the array sets \<open>pdn_ub\<close>.\<close>

record nati_pdns =
  pdns :: "ipa_nat_pdn_entry list"
  num_pdns :: int
  ddr_desc :: bool
  sram_desc :: bool
  pdn_ub :: bool

text \<open>The state of the kernel: its table, when it is allocated, and the table of the hardware.\<close>

record pdn_kernel =
  pk_hw_type :: nat
  pdn_mem :: "ipa_nat_pdn_entry list option"
  pdn_max :: nat
  pdn_sram :: "ipa_nat_pdn_entry list"

section \<open>The kernel\<close>

text \<open>The answer is that of the commands that copy the table to the hardware; with 0 the copy is done.\<close>

definition pdn_fields :: "nat \<Rightarrow> ipa_nat_pdn_entry \<Rightarrow> ipa_nat_pdn_entry" where
  "pdn_fields hw e = (if hw = IPA_HW_v4_1 then e\<lparr>pe_src_metadata := pe_src_metadata e OR IPA_QMAP_TETH_BIT\<rparr> else e)"

definition ipa3_nat_mdfy_pdn :: "int \<Rightarrow> ipa_ioc_nat_pdn_entry \<Rightarrow> pdn_kernel \<Rightarrow> int \<times> pdn_kernel" where
  "ipa3_nat_mdfy_pdn answer p k =
     (if pk_hw_type k < IPA_HW_v4_0 then (- EPERM, k)
      else case pdn_mem k of
             None \<Rightarrow> (- EPERM, k)
           | Some mem \<Rightarrow>
               if int (unat (mp_pdn_index p)) > int (pdn_max k) - 1 then (- EPERM, k)
               else
                 let mem' = mem[unat (mp_pdn_index p) := pdn_fields (pk_hw_type k) (mp_entry p)];
                     k1 = k\<lparr>pdn_mem := Some mem'\<rparr>
                 in if answer \<noteq> 0 then (answer, k1) else (0, k1\<lparr>pdn_sram := mem'\<rparr>))"

text \<open>The request of the library: the result of the kernel is replaced by EFAULT, which the C library reports as -1.\<close>

definition ioctl_modify_pdn :: "int \<Rightarrow> ipa_ioc_nat_pdn_entry \<Rightarrow> pdn_kernel \<Rightarrow> int \<times> pdn_kernel" where
  "ioctl_modify_pdn answer p k = (case ipa3_nat_mdfy_pdn answer p k of (ret, k1) \<Rightarrow> (if ret \<noteq> 0 then - 1 else 0, k1))"

section \<open>The library\<close>

definition pdn_check :: "nat \<Rightarrow> nati_pdns \<Rightarrow> nati_pdns" where
  "pdn_check i st = st\<lparr>pdn_ub := pdn_ub st \<or> i \<ge> length (pdns st)\<rparr>"

definition ipa_nati_modify_pdn :: "int \<Rightarrow> ipa_ioc_nat_pdn_entry \<Rightarrow> nati_pdns \<times> pdn_kernel \<Rightarrow> int \<times> nati_pdns \<times> pdn_kernel" where
  "ipa_nati_modify_pdn answer p s =
     (case s of (st, k) \<Rightarrow>
        if \<not> ddr_desc st \<and> \<not> sram_desc st then (- EIO, st, k)
        else case ioctl_modify_pdn answer p k of
               (ret, k1) \<Rightarrow>
                 if ret \<noteq> 0 then (ret, st, k1)
                 else let i = unat (mp_pdn_index p) in (0, (pdn_check i st)\<lparr>pdns := (pdns st)[i := mp_entry p]\<rparr>, k1))"

definition ipa_nati_get_pdn_index :: "u32 \<Rightarrow> nati_pdns \<Rightarrow> int \<times> u8" where
  "ipa_nati_get_pdn_index ip st =
     (case find (\<lambda>i. pe_public_ip (pdns st ! i) = ip) [0..<IPA_MAX_PDN_NUM - 1] of None \<Rightarrow> (- EIO, 0) | Some i \<Rightarrow> (0, of_nat i))"

text \<open>The search for an entry: the first with the same address, or the first empty one before it.\<close>

fun alloc_pdn_loop :: "u32 \<Rightarrow> nati_pdns \<Rightarrow> nat list \<Rightarrow> (bool \<times> nat) option" where
  "alloc_pdn_loop ip st [] = None"
| "alloc_pdn_loop ip st (i # is) =
     (if pe_public_ip (pdns st ! i) = ip then Some (True, i)
      else if pdns st ! i = zero_pdn then Some (False, i)
      else alloc_pdn_loop ip st is)"

definition ipa_nati_alloc_pdn :: "int \<Rightarrow> ipa_nat_pdn_entry \<Rightarrow> nati_pdns \<times> pdn_kernel \<Rightarrow> int \<times> u8 \<times> nati_pdns \<times> pdn_kernel" where
  "ipa_nati_alloc_pdn answer info s =
     (case s of (st, k) \<Rightarrow>
        if num_pdns st \<ge> int (IPA_MAX_PDN_NUM - 1) then (- EIO, 0, st, k)
        else case alloc_pdn_loop (pe_public_ip info) st [0..<IPA_MAX_PDN_NUM - 1] of
               None \<Rightarrow> (- EIO, 0, st, k)
             | Some (True, i) \<Rightarrow> (0, of_nat i, st, k)
             | Some (False, i) \<Rightarrow>
                 (case ipa_nati_modify_pdn answer \<lparr>mp_pdn_index = of_nat i, mp_entry = info\<rparr> (st, k) of
                    (ret, st1, k1) \<Rightarrow> if ret \<noteq> 0 then (ret, 0, st1, k1) else (0, of_nat i, st1\<lparr>num_pdns := num_pdns st1 + 1\<rparr>, k1)))"

definition ipa_nati_get_pdn_cnt :: "nati_pdns \<Rightarrow> int" where
  "ipa_nati_get_pdn_cnt st = num_pdns st"

definition ipa_nati_dealloc_pdn :: "int \<Rightarrow> u8 \<Rightarrow> nati_pdns \<times> pdn_kernel \<Rightarrow> int \<times> nati_pdns \<times> pdn_kernel" where
  "ipa_nati_dealloc_pdn answer pdn_index s =
     (case s of (st, k) \<Rightarrow>
        if num_pdns st = 0 then (- EIO, st, k)
        else
          let i = unat pdn_index; st0 = pdn_check i st
          in if i \<ge> length (pdns st) \<or> pdns st ! i = zero_pdn then (- EIO, st0, k)
             else case ipa_nati_modify_pdn answer \<lparr>mp_pdn_index = pdn_index, mp_entry = zero_pdn\<rparr> (st0, k) of
                    (ret, st1, k1) \<Rightarrow>
                      if ret \<noteq> 0 then (- EIO, st1, k1)
                      else (0, st1\<lparr>pdns := (pdns st1)[i := zero_pdn], num_pdns := num_pdns st1 - 1\<rparr>, k1))"

section \<open>The calls of a client\<close>

definition VALID_TBL_HDL :: "u32 \<Rightarrow> bool" where
  "VALID_TBL_HDL h \<longleftrightarrow> h AND 0xFF = IPA_NAT_MAX_IP4_TBLS"

text \<open>The index is checked against the number of entries, but the number itself passes.\<close>

definition ipa_nat_modify_pdn :: "int \<Rightarrow> u32 \<Rightarrow> u8 \<Rightarrow> ipa_nat_pdn_entry option \<Rightarrow> nati_pdns \<times> pdn_kernel \<Rightarrow> int \<times> nati_pdns \<times> pdn_kernel" where
  "ipa_nat_modify_pdn answer tbl_hdl pdn_index pdn_info s =
     (case pdn_info of
        None \<Rightarrow> (- EINVAL, s)
      | Some info \<Rightarrow>
          if \<not> VALID_TBL_HDL tbl_hdl then (- EINVAL, s)
          else if unat pdn_index > IPA_MAX_PDN_NUM then (- EINVAL, s)
          else ipa_nati_modify_pdn answer \<lparr>mp_pdn_index = pdn_index, mp_entry = info\<rparr> s)"

definition ipa_nat_get_pdn_index :: "u32 \<Rightarrow> bool \<Rightarrow> nati_pdns \<Rightarrow> int \<times> u8" where
  "ipa_nat_get_pdn_index ip null_index st = (if null_index then (- EINVAL, 0) else ipa_nati_get_pdn_index ip st)"

definition ipa_nat_alloc_pdn :: "int \<Rightarrow> ipa_nat_pdn_entry option \<Rightarrow> bool \<Rightarrow> nati_pdns \<times> pdn_kernel \<Rightarrow> int \<times> u8 \<times> nati_pdns \<times> pdn_kernel" where
  "ipa_nat_alloc_pdn answer pdn_info null_index s =
     (case pdn_info of
        None \<Rightarrow> (- EINVAL, 0, s)
      | Some info \<Rightarrow> if null_index then (- EINVAL, 0, s) else ipa_nati_alloc_pdn answer info s)"

definition ipa_nat_get_pdn_count :: "bool \<Rightarrow> nati_pdns \<Rightarrow> int \<times> u8" where
  "ipa_nat_get_pdn_count null_cnt st = (if null_cnt then (- EINVAL, 0) else (0, of_int (ipa_nati_get_pdn_cnt st)))"

definition ipa_nat_dealloc_pdn :: "int \<Rightarrow> u8 \<Rightarrow> nati_pdns \<times> pdn_kernel \<Rightarrow> int \<times> nati_pdns \<times> pdn_kernel" where
  "ipa_nat_dealloc_pdn answer pdn_index s =
     (if unat pdn_index > IPA_MAX_PDN_NUM then (- EINVAL, s) else ipa_nati_dealloc_pdn answer pdn_index s)"

section \<open>Runs\<close>

datatype pdn_call = AllocPdn int "ipa_nat_pdn_entry option" bool | DeallocPdn int u8 | ModifyPdn int u32 u8 "ipa_nat_pdn_entry option"

fun pdn_step :: "pdn_call \<Rightarrow> nati_pdns \<times> pdn_kernel \<Rightarrow> nati_pdns \<times> pdn_kernel" where
  "pdn_step (AllocPdn answer info null) s = snd (snd (ipa_nat_alloc_pdn answer info null s))"
| "pdn_step (DeallocPdn answer i) s = snd (ipa_nat_dealloc_pdn answer i s)"
| "pdn_step (ModifyPdn answer h i info) s = snd (ipa_nat_modify_pdn answer h i info s)"

fun pdn_answer :: "pdn_call \<Rightarrow> int" where
  "pdn_answer (AllocPdn answer info null) = answer"
| "pdn_answer (DeallocPdn answer i) = answer"
| "pdn_answer (ModifyPdn answer h i info) = answer"

text \<open>Both sides after the first table has been added: entry 0 has the address of the table.\<close>

definition pdn_start :: "nat \<Rightarrow> nat \<Rightarrow> u32 \<Rightarrow> nati_pdns \<times> pdn_kernel" where
  "pdn_start hw n ip =
     (let first = zero_pdn\<lparr>pe_public_ip := ip\<rparr>; mem = first # replicate (n - 1) zero_pdn
      in (\<lparr>pdns = first # replicate (IPA_MAX_PDN_NUM - 1) zero_pdn, num_pdns = 1, ddr_desc = True, sram_desc = False, pdn_ub = False\<rparr>,
          \<lparr>pk_hw_type = hw, pdn_mem = Some mem, pdn_max = n, pdn_sram = mem\<rparr>))"

text \<open>The array of the library is whole, the table of the kernel is not longer, and the number of entries is between 0 and 15.\<close>

definition pdn_ok :: "nati_pdns \<times> pdn_kernel \<Rightarrow> bool" where
  "pdn_ok s \<longleftrightarrow> (case s of (st, k) \<Rightarrow> length (pdns st) = 16 \<and> \<not> pdn_ub st \<and> 0 \<le> num_pdns st \<and> num_pdns st \<le> 15 \<and> pdn_max k \<le> 16 \<and>
     length (pdn_sram k) = pdn_max k \<and> (\<exists>mem. pdn_mem k = Some mem \<and> length mem = pdn_max k))"

text \<open>The hardware shows an entry when its own is the same, but for the bit that marks a tethered client on one version.\<close>

definition pdn_shown :: "nat \<Rightarrow> ipa_nat_pdn_entry \<Rightarrow> ipa_nat_pdn_entry \<Rightarrow> bool" where
  "pdn_shown hw e e' \<longleftrightarrow> e' = e \<or> e' = pdn_fields hw e"

definition pdn_mirror :: "nati_pdns \<times> pdn_kernel \<Rightarrow> bool" where
  "pdn_mirror s \<longleftrightarrow> (case s of (st, k) \<Rightarrow> pdn_mem k = Some (pdn_sram k) \<and>
     (\<forall>i<16. if i < pdn_max k then pdn_shown (pk_hw_type k) (pdns st ! i) (pdn_sram k ! i) else pdns st ! i = zero_pdn))"

definition pdn_used :: "nati_pdns \<Rightarrow> nat set" where
  "pdn_used st = {i. i < 16 \<and> pdns st ! i \<noteq> zero_pdn}"

lemma modify_pdn:
  assumes ok: "pdn_ok (st, k)" and m: "ipa_nati_modify_pdn answer \<lparr>mp_pdn_index = p, mp_entry = e\<rparr> (st, k) = (ret, st', k')"
  shows "pdn_ok (st', k')" and "ret \<noteq> 0 \<Longrightarrow> st' = st" and "ret = 0 \<Longrightarrow> st' = st\<lparr>pdns := (pdns st)[unat p := e]\<rparr> \<and> unat p < pdn_max k"
    and "pdn_mirror (st, k) \<Longrightarrow> answer = 0 \<Longrightarrow> pdn_mirror (st', k')"
proof -
  obtain mem where mem: "pdn_mem k = Some mem" "length mem = pdn_max k" using ok by (auto simp: pdn_ok_def)
  let ?i = "unat p"
  have len: "length (pdns st) = 16" "pdn_max k \<le> 16" "length (pdn_sram k) = pdn_max k" using ok by (simp_all add: pdn_ok_def)
  have idx: "int (pdn_max k) - 1 < uint p \<longleftrightarrow> \<not> ?i < pdn_max k" using uint_nat [of p] by linarith
  have c: "?i < pdn_max k \<Longrightarrow> pdn_check ?i st = st" using ok len by (simp add: pdn_check_def pdn_ok_def)
  have "(ret \<noteq> 0 \<and> st' = st \<and> (k' = k \<or> answer \<noteq> 0 \<and> (\<exists>e'. k' = k\<lparr>pdn_mem := Some (mem[?i := e'])\<rparr>))) \<or>
      (ret = 0 \<and> answer = 0 \<and> ?i < pdn_max k \<and> st' = st\<lparr>pdns := (pdns st)[?i := e]\<rparr> \<and>
       k' = k\<lparr>pdn_mem := Some (mem[?i := pdn_fields (pk_hw_type k) e]), pdn_sram := mem[?i := pdn_fields (pk_hw_type k) e]\<rparr>)"
    using m mem idx c by (auto simp: ipa_nati_modify_pdn_def ioctl_modify_pdn_def ipa3_nat_mdfy_pdn_def Let_def split: if_splits)
  then consider (refused) "ret \<noteq> 0" "st' = st" "k' = k" | (failed) e' where "ret \<noteq> 0" "st' = st" "answer \<noteq> 0" "k' = k\<lparr>pdn_mem := Some (mem[?i := e'])\<rparr>"
    | (stored) "ret = 0" "?i < pdn_max k" "st' = st\<lparr>pdns := (pdns st)[?i := e]\<rparr>"
      "k' = k\<lparr>pdn_mem := Some (mem[?i := pdn_fields (pk_hw_type k) e]), pdn_sram := mem[?i := pdn_fields (pk_hw_type k) e]\<rparr>" by blast
  note cases = this
  show "pdn_ok (st', k')" using ok mem by (cases rule: cases) (simp_all add: pdn_ok_def)
  show "ret \<noteq> 0 \<Longrightarrow> st' = st" by (cases rule: cases) simp_all
  show "ret = 0 \<Longrightarrow> st' = st\<lparr>pdns := (pdns st)[unat p := e]\<rparr> \<and> unat p < pdn_max k" by (cases rule: cases) simp_all
  show "pdn_mirror (st', k')" if mi: "pdn_mirror (st, k)" and a: "answer = 0"
  proof (cases rule: cases)
    case stored
    have "pdn_sram k = mem" using mi mem by (simp add: pdn_mirror_def)
    moreover have "pdn_shown (pk_hw_type k) e (pdn_fields (pk_hw_type k) e)" by (simp add: pdn_shown_def)
    ultimately show ?thesis using mi mem len stored by (auto simp: pdn_mirror_def nth_list_update split: if_split_asm)
  qed (use mi a in simp_all)
qed

text \<open>The entry that the search returns: the first with the address, or an empty one with none before it; so the address of a new entry is not 0.\<close>

lemma alloc_loop_found:
  "alloc_pdn_loop ip st [a..<b] = Some (f, i) \<Longrightarrow> a \<le> i \<and> i < b \<and> (\<forall>j\<in>{a..<i}. pe_public_ip (pdns st ! j) \<noteq> ip) \<and>
     (if f then pe_public_ip (pdns st ! i) = ip else pdns st ! i = zero_pdn \<and> ip \<noteq> 0)"
proof (induction "b - a" arbitrary: a)
  case (Suc n)
  then have "a < b" by simp
  then have e: "[a..<b] = a # [Suc a..<b]" by (simp add: upt_conv_Cons)
  show ?case
  proof (cases "pe_public_ip (pdns st ! a) = ip \<or> pdns st ! a = zero_pdn")
    case True
    then show ?thesis using Suc.prems \<open>a < b\<close> by (auto simp: e zero_pdn_def split: if_splits)
  next
    case False
    then have r: "alloc_pdn_loop ip st [Suc a..<b] = Some (f, i)" using Suc.prems by (simp add: e)
    have n: "n = b - Suc a" using Suc.hyps(2) by simp
    from Suc.hyps(1) [OF n r] False show ?thesis by (auto simp: le_less Suc_le_eq)
  qed
qed simp

text \<open>A call either leaves the library alone, or stores an entry and adjusts the count.\<close>

lemma alloc_pdn_cases:
  assumes ok: "pdn_ok (st, k)" and a: "ipa_nati_alloc_pdn answer info (st, k) = (ret, i, st', k')"
  shows "(st' = st \<and> (k' = k \<or> (\<exists>j. ipa_nati_modify_pdn answer \<lparr>mp_pdn_index = j, mp_entry = info\<rparr> (st, k) = (ret, st, k')))) \<or>
    (\<exists>st1. num_pdns st < 15 \<and> ret = 0 \<and> unat i < 15 \<and> pdns st ! unat i = zero_pdn \<and> pe_public_ip info \<noteq> 0 \<and> st' = st1\<lparr>num_pdns := num_pdns st1 + 1\<rparr> \<and>
       ipa_nati_modify_pdn answer \<lparr>mp_pdn_index = i, mp_entry = info\<rparr> (st, k) = (0, st1, k'))"
proof (cases "num_pdns st \<ge> 15 \<or> alloc_pdn_loop (pe_public_ip info) st [0..<15] = None \<or> (\<exists>i. alloc_pdn_loop (pe_public_ip info) st [0..<15] = Some (True, i))")
  case True
  then show ?thesis using a by (auto simp: ipa_nati_alloc_pdn_def split: if_splits)
next
  case False
  then obtain j where j: "alloc_pdn_loop (pe_public_ip info) st [0..<15] = Some (False, j)" and n: "num_pdns st < 15"
    by (cases "alloc_pdn_loop (pe_public_ip info) st [0..<15]") (auto simp: not_le)
  from alloc_loop_found [OF j] have f: "j < 15" "pdns st ! j = zero_pdn" "pe_public_ip info \<noteq> 0" by simp_all
  have u: "unat (of_nat j :: u8) = j" using f by (simp add: unat_of_nat take_bit_nat_eq_self)
  obtain r st1 k1 where m: "ipa_nati_modify_pdn answer \<lparr>mp_pdn_index = of_nat j, mp_entry = info\<rparr> (st, k) = (r, st1, k1)"
    by (cases "ipa_nati_modify_pdn answer \<lparr>mp_pdn_index = of_nat j, mp_entry = info\<rparr> (st, k)") auto
  show ?thesis
  proof (cases "r = 0")
    case True
    then have "ret = 0" "i = of_nat j" "st' = st1\<lparr>num_pdns := num_pdns st1 + 1\<rparr>" "k' = k1" using a m j n by (auto simp: ipa_nati_alloc_pdn_def)
    then show ?thesis using True m f u n by auto
  next
    case False
    then have "st' = st1" "k' = k1" "ret = r" using a m j n by (auto simp: ipa_nati_alloc_pdn_def)
    moreover have "st1 = st" using modify_pdn(2) [OF ok m] False by simp
    ultimately show ?thesis using m by blast
  qed
qed

lemma dealloc_pdn_cases:
  assumes ok: "pdn_ok (st, k)" and i: "unat i \<noteq> 16" and a: "ipa_nat_dealloc_pdn answer i (st, k) = (ret, st', k')"
  shows "(st' = st \<and> (k' = k \<or> (\<exists>ret'. ipa_nati_modify_pdn answer \<lparr>mp_pdn_index = i, mp_entry = zero_pdn\<rparr> (st, k) = (ret', st, k')))) \<or>
    (\<exists>st1. num_pdns st \<noteq> 0 \<and> unat i < 16 \<and> pdns st ! unat i \<noteq> zero_pdn \<and> st' = st1\<lparr>num_pdns := num_pdns st1 - 1\<rparr> \<and>
       ipa_nati_modify_pdn answer \<lparr>mp_pdn_index = i, mp_entry = zero_pdn\<rparr> (st, k) = (0, st1, k'))"
proof (cases "unat i > 16 \<or> num_pdns st = 0 \<or> pdns st ! unat i = zero_pdn")
  case True
  have "unat i < 16 \<Longrightarrow> pdn_check (unat i) st = st" using ok by (simp add: pdn_check_def pdn_ok_def)
  then show ?thesis using a True i by (auto simp: ipa_nat_dealloc_pdn_def ipa_nati_dealloc_pdn_def Let_def split: if_splits)
next
  case False
  then have lt: "unat i < 16" "unat i < length (pdns st)" using i ok by (simp_all add: pdn_ok_def)
  have c: "pdn_check (unat i) st = st" using lt ok by (simp add: pdn_check_def pdn_ok_def)
  obtain r st1 k1 where m: "ipa_nati_modify_pdn answer \<lparr>mp_pdn_index = i, mp_entry = zero_pdn\<rparr> (st, k) = (r, st1, k1)"
    by (cases "ipa_nati_modify_pdn answer \<lparr>mp_pdn_index = i, mp_entry = zero_pdn\<rparr> (st, k)") auto
  show ?thesis
  proof (cases "r = 0")
    case True
    then have z: "pdns st1 = (pdns st)[unat i := zero_pdn]" using modify_pdn(3) [OF ok m] by simp
    have "st' = st1\<lparr>pdns := (pdns st1)[unat i := zero_pdn], num_pdns := num_pdns st1 - 1\<rparr>" "k' = k1"
      using a m True False lt c by (auto simp: ipa_nat_dealloc_pdn_def ipa_nati_dealloc_pdn_def Let_def)
    then have "st' = st1\<lparr>num_pdns := num_pdns st1 - 1\<rparr>" "k' = k1" by (simp_all add: z)
    then show ?thesis using True m False lt by auto
  next
    case False
    then have "st1 = st" using modify_pdn(2) [OF ok m] by simp
    moreover have "st' = st1" "k' = k1"
      using a m False \<open>\<not> (unat i > 16 \<or> num_pdns st = 0 \<or> pdns st ! unat i = zero_pdn)\<close> lt c
      by (auto simp: ipa_nat_dealloc_pdn_def ipa_nati_dealloc_pdn_def Let_def)
    ultimately show ?thesis using m by blast
  qed
qed

section \<open>What a run keeps\<close>

definition pdn_counted :: "nati_pdns \<Rightarrow> bool" where
  "pdn_counted st \<longleftrightarrow> num_pdns st = int (card (pdn_used st))"

lemma pdn_ok_num: "pdn_ok (st, k) \<Longrightarrow> 0 \<le> n \<Longrightarrow> n \<le> 15 \<Longrightarrow> pdn_ok (st\<lparr>num_pdns := n\<rparr>, k)"
  and pdn_mirror_num: "pdn_mirror (st\<lparr>num_pdns := n\<rparr>, k) = pdn_mirror (st, k)"
  by (simp_all add: pdn_ok_def pdn_mirror_def)

lemma used_store:
  assumes "length (pdns st) = 16" "i < 16"
  shows "pdn_used (st\<lparr>pdns := (pdns st)[i := e], num_pdns := m\<rparr>) = (if e = zero_pdn then pdn_used st - {i} else insert i (pdn_used st))"
proof (rule set_eqI)
  fix j
  show "j \<in> pdn_used (st\<lparr>pdns := (pdns st)[i := e], num_pdns := m\<rparr>) \<longleftrightarrow> j \<in> (if e = zero_pdn then pdn_used st - {i} else insert i (pdn_used st))"
    by (cases "j = i") (use assms in \<open>simp_all add: pdn_used_def\<close>)
qed

lemma counted_store:
  assumes "length (pdns st) = 16" "i < 16" "(pdns st ! i = zero_pdn) \<noteq> (e = zero_pdn)" "pdn_counted st"
  shows "pdn_counted (st\<lparr>pdns := (pdns st)[i := e], num_pdns := num_pdns st + (if e = zero_pdn then - 1 else 1)\<rparr>)"
proof -
  have fin: "finite (pdn_used st)" by (simp add: pdn_used_def)
  let ?st = "st\<lparr>pdns := (pdns st)[i := e], num_pdns := num_pdns st + (if e = zero_pdn then - 1 else 1)\<rparr>"
  show ?thesis
  proof (cases "e = zero_pdn")
    case True
    with assms(3) have "pdns st ! i \<noteq> zero_pdn" by simp
    then have "pdn_used ?st = pdn_used st - {i}" "i \<in> pdn_used st"
      using assms(2) True used_store [OF assms(1,2)] by (simp_all add: pdn_used_def)
    moreover from this have "card (pdn_used st) = Suc (card (pdn_used st - {i}))" by (intro card.remove fin)
    ultimately show ?thesis using assms(4) True by (simp add: pdn_counted_def)
  next
    case False
    with assms(3) have "pdns st ! i = zero_pdn" by simp
    then have "pdn_used ?st = insert i (pdn_used st)" "i \<notin> pdn_used st"
      using False used_store [OF assms(1,2)] by (simp_all add: pdn_used_def)
    then show ?thesis using assms(4) fin False by (simp add: pdn_counted_def)
  qed
qed

lemma alloc_pdn_keeps:
  assumes ok: "pdn_ok (st, k)" and a: "ipa_nati_alloc_pdn answer info (st, k) = (ret, i, st', k')"
  shows "pdn_ok (st', k')" and "pdn_mirror (st, k) \<Longrightarrow> answer = 0 \<Longrightarrow> pdn_mirror (st', k')" and "pdn_counted st \<Longrightarrow> pdn_counted st'"
proof -
  consider (same) "st' = st" "k' = k" | (refused) j where "st' = st" "ipa_nati_modify_pdn answer \<lparr>mp_pdn_index = j, mp_entry = info\<rparr> (st, k) = (ret, st, k')"
    | (stored) st1 where "num_pdns st < 15" "unat i < 15" "pdns st ! unat i = zero_pdn" "pe_public_ip info \<noteq> 0" "st' = st1\<lparr>num_pdns := num_pdns st1 + 1\<rparr>"
        "ipa_nati_modify_pdn answer \<lparr>mp_pdn_index = i, mp_entry = info\<rparr> (st, k) = (0, st1, k')"
    using alloc_pdn_cases [OF ok a] by blast
  note cases = this
  have num: "0 \<le> num_pdns st" "length (pdns st) = 16" using ok by (simp_all add: pdn_ok_def)
  show "pdn_ok (st', k')"
  proof (cases rule: cases)
    case stored
    with modify_pdn [OF ok stored(6)] num show ?thesis by (simp add: pdn_ok_num)
  qed (use ok modify_pdn(1) [OF ok] in simp_all)
  show "pdn_mirror (st', k')" if "pdn_mirror (st, k)" "answer = 0"
  proof (cases rule: cases)
    case stored
    with modify_pdn(4) [OF ok stored(6) that] show ?thesis by (simp add: pdn_mirror_num)
  qed (use that modify_pdn(4) [OF ok _ that] in simp_all)
  show "pdn_counted st'" if c: "pdn_counted st"
  proof (cases rule: cases)
    case stored
    have "info \<noteq> zero_pdn" using stored(4) by (auto simp: zero_pdn_def)
    with counted_store [OF num(2) _ _ c, of "unat i" info] stored(2,3,5) modify_pdn(3) [OF ok stored(6)] show ?thesis by simp
  qed (use c in simp_all)
qed

lemma dealloc_pdn_keeps:
  assumes ok: "pdn_ok (st, k)" and i: "unat i \<noteq> 16" and a: "ipa_nat_dealloc_pdn answer i (st, k) = (ret, st', k')"
  shows "pdn_ok (st', k')" and "pdn_mirror (st, k) \<Longrightarrow> answer = 0 \<Longrightarrow> pdn_mirror (st', k')" and "pdn_counted st \<Longrightarrow> pdn_counted st'"
proof -
  consider (same) "st' = st" "k' = k" | (refused) r where "st' = st" "ipa_nati_modify_pdn answer \<lparr>mp_pdn_index = i, mp_entry = zero_pdn\<rparr> (st, k) = (r, st, k')"
    | (stored) st1 where "num_pdns st \<noteq> 0" "unat i < 16" "pdns st ! unat i \<noteq> zero_pdn" "st' = st1\<lparr>num_pdns := num_pdns st1 - 1\<rparr>"
        "ipa_nati_modify_pdn answer \<lparr>mp_pdn_index = i, mp_entry = zero_pdn\<rparr> (st, k) = (0, st1, k')"
    using dealloc_pdn_cases [OF ok i a] by blast
  note cases = this
  have num: "0 \<le> num_pdns st" "num_pdns st \<le> 15" "length (pdns st) = 16" using ok by (simp_all add: pdn_ok_def)
  show "pdn_ok (st', k')"
  proof (cases rule: cases)
    case stored
    with modify_pdn [OF ok stored(5)] num show ?thesis by (simp add: pdn_ok_num)
  qed (use ok modify_pdn(1) [OF ok] in simp_all)
  show "pdn_mirror (st', k')" if "pdn_mirror (st, k)" "answer = 0"
  proof (cases rule: cases)
    case stored
    with modify_pdn(4) [OF ok stored(5) that] show ?thesis by (simp add: pdn_mirror_num)
  qed (use that modify_pdn(4) [OF ok _ that] in simp_all)
  show "pdn_counted st'" if c: "pdn_counted st"
  proof (cases rule: cases)
    case stored
    with counted_store [OF num(3) _ _ c, of "unat i" zero_pdn] modify_pdn(3) [OF ok stored(5)] show ?thesis by simp
  qed (use c in simp_all)
qed

fun in_range :: "pdn_call \<Rightarrow> bool" where
  "in_range (DeallocPdn answer i) \<longleftrightarrow> unat i \<noteq> 16"
| "in_range _ \<longleftrightarrow> True"

fun is_modify :: "pdn_call \<Rightarrow> bool" where
  "is_modify (ModifyPdn answer h i info) \<longleftrightarrow> True"
| "is_modify _ \<longleftrightarrow> False"

lemma pdn_step_keeps:
  assumes ok: "pdn_ok s" and c: "in_range c"
  shows "pdn_ok (pdn_step c s)" and "pdn_mirror s \<Longrightarrow> pdn_answer c = 0 \<Longrightarrow> pdn_mirror (pdn_step c s)"
    and "pdn_counted (fst s) \<Longrightarrow> \<not> is_modify c \<Longrightarrow> pdn_counted (fst (pdn_step c s))"
proof -
  obtain st k where s: "s = (st, k)" by (cases s)
  note ok = ok [unfolded s]
  have "pdn_ok (pdn_step c s) \<and> (pdn_mirror s \<longrightarrow> pdn_answer c = 0 \<longrightarrow> pdn_mirror (pdn_step c s)) \<and>
    (pdn_counted (fst s) \<longrightarrow> \<not> is_modify c \<longrightarrow> pdn_counted (fst (pdn_step c s)))"
  proof (cases c)
    case (AllocPdn answer info null)
    show ?thesis
    proof (cases "info = None \<or> null")
      case True
      then show ?thesis using ok by (auto simp: AllocPdn s ipa_nat_alloc_pdn_def split: option.splits)
    next
      case False
      then obtain e where e: "info = Some e" "\<not> null" by auto
      obtain ret i st' k' where a: "ipa_nati_alloc_pdn answer e (st, k) = (ret, i, st', k')" by (cases "ipa_nati_alloc_pdn answer e (st, k)") auto
      have step: "pdn_step c s = (st', k')" using a by (simp add: AllocPdn s e ipa_nat_alloc_pdn_def)
      show ?thesis unfolding step using alloc_pdn_keeps [OF ok a] by (simp add: AllocPdn s)
    qed
  next
    case (DeallocPdn answer i)
    obtain ret st' k' where a: "ipa_nat_dealloc_pdn answer i (st, k) = (ret, st', k')" by (cases "ipa_nat_dealloc_pdn answer i (st, k)") auto
    have step: "pdn_step c s = (st', k')" using a by (simp add: DeallocPdn s)
    show ?thesis unfolding step using dealloc_pdn_keeps [OF ok _ a] c by (simp add: DeallocPdn s)
  next
    case (ModifyPdn answer h i info)
    show ?thesis
    proof (cases "info = None \<or> \<not> VALID_TBL_HDL h \<or> unat i > 16")
      case True
      then show ?thesis using ok by (auto simp: ModifyPdn s ipa_nat_modify_pdn_def split: option.splits)
    next
      case False
      then obtain e where e: "info = Some e" "VALID_TBL_HDL h" "\<not> unat i > 16" by auto
      obtain ret st' k' where a: "ipa_nati_modify_pdn answer \<lparr>mp_pdn_index = i, mp_entry = e\<rparr> (st, k) = (ret, st', k')"
        by (cases "ipa_nati_modify_pdn answer \<lparr>mp_pdn_index = i, mp_entry = e\<rparr> (st, k)") auto
      have step: "pdn_step c s = (st', k')" using a e by (simp add: ModifyPdn s ipa_nat_modify_pdn_def)
      show ?thesis unfolding step using modify_pdn(1,4) [OF ok a] by (simp add: ModifyPdn s)
    qed
  qed
  then show "pdn_ok (pdn_step c s)" "pdn_mirror s \<Longrightarrow> pdn_answer c = 0 \<Longrightarrow> pdn_mirror (pdn_step c s)"
    "pdn_counted (fst s) \<Longrightarrow> \<not> is_modify c \<Longrightarrow> pdn_counted (fst (pdn_step c s))" by blast+
qed

lemma pdn_run_keeps:
  assumes "\<forall>c\<in>set cs. in_range c" "pdn_ok s"
  shows "pdn_ok (fold pdn_step cs s)" and "pdn_mirror s \<Longrightarrow> \<forall>c\<in>set cs. pdn_answer c = 0 \<Longrightarrow> pdn_mirror (fold pdn_step cs s)"
    and "pdn_counted (fst s) \<Longrightarrow> \<forall>c\<in>set cs. \<not> is_modify c \<Longrightarrow> pdn_counted (fst (fold pdn_step cs s))"
  using assms by (induction cs arbitrary: s) (simp_all add: pdn_step_keeps)

lemma pdn_start:
  assumes "1 \<le> n" "n \<le> 16"
  shows "pdn_ok (pdn_start hw n ip)" "pdn_mirror (pdn_start hw n ip)" "ip \<noteq> 0 \<Longrightarrow> pdn_counted (fst (pdn_start hw n ip))"
proof -
  show "pdn_ok (pdn_start hw n ip)" using assms by (simp add: pdn_ok_def pdn_start_def Let_def)
  show "pdn_mirror (pdn_start hw n ip)" using assms by (auto simp: pdn_mirror_def pdn_start_def pdn_shown_def Let_def nth_Cons' )
  assume "ip \<noteq> 0"
  then have "pdn_used (fst (pdn_start hw n ip)) = {0}" by (auto simp: pdn_used_def pdn_start_def Let_def nth_Cons' zero_pdn_def split: if_split_asm)
  then show "pdn_counted (fst (pdn_start hw n ip))" by (simp add: pdn_counted_def) (simp add: pdn_start_def Let_def)
qed

section \<open>Properties\<close>

text \<open>
  C39: over the kernel, from the start with one address and a hardware table of 1 to 16 entries, the table of the library stays within its array in every run of its
  calls that does not delete the index 16, which the check lets pass; the number of entries lies between 0 and 15. When all
  commands to the hardware succeed, the table of the hardware shows that of the library, which is empty beyond it. When no call of
  the run modifies an entry and the first address is not 0, the number is that of the entries in use.
\<close>

theorem nat_pdn_runs:
  assumes "1 \<le> n" "n \<le> 16" "\<forall>c\<in>set cs. in_range c" "fold pdn_step cs (pdn_start hw n ip) = (st, k)"
  shows "\<not> pdn_ub st \<and> length (pdns st) = 16 \<and> 0 \<le> num_pdns st \<and> num_pdns st \<le> 15 \<and>
    ((\<forall>c\<in>set cs. pdn_answer c = 0) \<longrightarrow> (\<forall>i<16. if i < pdn_max k then pdn_shown (pk_hw_type k) (pdns st ! i) (pdn_sram k ! i) else pdns st ! i = zero_pdn)) \<and>
    (ip \<noteq> 0 \<and> (\<forall>c\<in>set cs. \<not> is_modify c) \<longrightarrow> num_pdns st = int (card {i. i < 16 \<and> pdns st ! i \<noteq> zero_pdn}))"
proof -
  note run = pdn_run_keeps [OF assms(3) pdn_start(1) [OF assms(1,2), of hw ip], unfolded assms(4)]
  have "pdn_ok (st, k)" by (rule run(1))
  then show ?thesis using run(2) [OF pdn_start(2) [OF assms(1,2), of hw ip]] run(3) [OF pdn_start(3) [OF assms(1,2), of ip hw]]
    by (simp add: pdn_ok_def pdn_mirror_def pdn_counted_def pdn_used_def)
qed

text \<open>A run of the examples: one entry is added and deleted again.\<close>

definition example_pdn :: ipa_nat_pdn_entry where
  "example_pdn = \<lparr>pe_public_ip = 7, pe_src_metadata = 1, pe_dst_metadata = 2\<rparr>"

theorem nat_pdn_runs_witness:
  "case fold pdn_step [AllocPdn 0 (Some example_pdn) False] (pdn_start 17 16 1) of (st, k) \<Rightarrow> \<not> pdn_ub st \<and> num_pdns st \<le> 15"
proof -
  obtain st k where r: "fold pdn_step [AllocPdn 0 (Some example_pdn) False] (pdn_start 17 16 1) = (st, k)"
    by (cases "fold pdn_step [AllocPdn 0 (Some example_pdn) False] (pdn_start 17 16 1)")
  have "\<forall>c\<in>set [AllocPdn 0 (Some example_pdn) False]. in_range c" by simp
  from nat_pdn_runs [OF _ _ this r] show ?thesis unfolding r by simp
qed

text \<open>The first entry with the address is that of the allocation.\<close>

lemma get_index_first:
  assumes "i < 15" "pe_public_ip (pdns st ! i) = ip" "\<forall>j<i. pe_public_ip (pdns st ! j) \<noteq> ip"
  shows "ipa_nati_get_pdn_index ip st = (0, of_nat i)"
  using assms by (simp add: ipa_nati_get_pdn_index_def find_upt_Some [THEN iffD2, of 0 i])

lemma alloc_pdn_found:
  assumes ok: "pdn_ok (st, k)" and a: "ipa_nati_alloc_pdn answer info (st, k) = (0, i, st', k')"
  shows "unat i < 15 \<and> pe_public_ip (pdns st' ! unat i) = pe_public_ip info \<and> (\<forall>j<unat i. pe_public_ip (pdns st' ! j) \<noteq> pe_public_ip info)"
proof -
  obtain f j where l: "alloc_pdn_loop (pe_public_ip info) st [0..<15] = Some (f, j)"
    using a by (cases "alloc_pdn_loop (pe_public_ip info) st [0..<15]") (auto simp: ipa_nati_alloc_pdn_def split: if_splits)
  note found = alloc_loop_found [OF l]
  have u: "unat (of_nat j :: u8) = j" using found by (simp add: unat_of_nat take_bit_nat_eq_self)
  show ?thesis
  proof (cases f)
    case True
    then have "i = of_nat j" "st' = st" using a l by (auto simp: ipa_nati_alloc_pdn_def split: if_splits)
    then show ?thesis using found True u by auto
  next
    case False
    obtain r st1 k1 where m: "ipa_nati_modify_pdn answer \<lparr>mp_pdn_index = of_nat j, mp_entry = info\<rparr> (st, k) = (r, st1, k1)"
      by (cases "ipa_nati_modify_pdn answer \<lparr>mp_pdn_index = of_nat j, mp_entry = info\<rparr> (st, k)") auto
    have "r = 0 \<and> i = of_nat j \<and> st' = st1\<lparr>num_pdns := num_pdns st1 + 1\<rparr>" using a l False m by (auto simp: ipa_nati_alloc_pdn_def split: if_splits)
    then show ?thesis using found u modify_pdn(3) [OF ok m] ok by (auto simp: pdn_ok_def nth_list_update)
  qed
qed

text \<open>What the kernel and the device need for a change of an entry.\<close>

lemma modify_pdn_accepted:
  assumes "pdn_ok (st, k)" "ipa_nati_modify_pdn a \<lparr>mp_pdn_index = i, mp_entry = e\<rparr> (st, k) = (0, st', k')"
  shows "\<exists>k2. ipa_nati_modify_pdn 0 \<lparr>mp_pdn_index = i, mp_entry = e'\<rparr> (st'\<lparr>num_pdns := n\<rparr>, k') = (0, st'\<lparr>num_pdns := n, pdns := (pdns st')[unat i := e']\<rparr>, k2)"
proof -
  have s: "st' = st\<lparr>pdns := (pdns st)[unat i := e]\<rparr>" "unat i < pdn_max k" using modify_pdn(3) [OF assms] by simp_all
  have c: "pdn_check (unat i) (st'\<lparr>num_pdns := n\<rparr>) = st'\<lparr>num_pdns := n\<rparr>" using s assms(1) by (simp add: pdn_check_def pdn_ok_def)
  have idx: "\<not> int (pdn_max k) - 1 < uint i" using s(2) uint_nat [of i] by linarith
  have "ddr_desc st' \<or> sram_desc st'" using assms(2) s by (auto simp: ipa_nati_modify_pdn_def split: if_splits)
  moreover have "\<exists>k2. ioctl_modify_pdn 0 \<lparr>mp_pdn_index = i, mp_entry = e'\<rparr> k' = (0, k2)"
    using assms(2) idx by (auto simp: ipa_nati_modify_pdn_def ioctl_modify_pdn_def ipa3_nat_mdfy_pdn_def Let_def split: if_splits option.splits)
  ultimately show ?thesis using c by (auto simp: ipa_nati_modify_pdn_def Let_def)
qed

text \<open>
  C40: an allocation that succeeds gives the index under which the address is then found; and unless it has found
  the address in the table, deleting the index again gives back the table of the library.
\<close>

theorem nat_pdn_alloc:
  assumes "1 \<le> n" "n \<le> 16" "\<forall>c\<in>set cs. in_range c" "fold pdn_step cs (pdn_start hw n ip) = (st, k)"
    and "ipa_nat_alloc_pdn answer (Some info) False (st, k) = (0, i, st1, k1)"
  shows "ipa_nat_get_pdn_index (pe_public_ip info) False st1 = (0, i) \<and>
    (st1 = st \<or> (\<exists>k2. ipa_nat_dealloc_pdn 0 i (st1, k1) = (0, st, k2)))"
proof -
  have ok: "pdn_ok (st, k)" using pdn_run_keeps(1) [OF assms(3) pdn_start(1) [OF assms(1,2), of hw ip], unfolded assms(4)] .
  have a: "ipa_nati_alloc_pdn answer info (st, k) = (0, i, st1, k1)" using assms(5) by (simp add: ipa_nat_alloc_pdn_def)
  note found = alloc_pdn_found [OF ok a]
  have get: "ipa_nat_get_pdn_index (pe_public_ip info) False st1 = (0, i)"
    using get_index_first [of "unat i" st1 "pe_public_ip info"] found by (simp add: ipa_nat_get_pdn_index_def)
  have "\<exists>k2. ipa_nat_dealloc_pdn 0 i (st1, k1) = (0, st, k2)" if new: "st1 \<noteq> st"
  proof -
    obtain st2 where s: "pdns st ! unat i = zero_pdn" "pe_public_ip info \<noteq> 0" "st1 = st2\<lparr>num_pdns := num_pdns st2 + 1\<rparr>"
      "ipa_nati_modify_pdn answer \<lparr>mp_pdn_index = i, mp_entry = info\<rparr> (st, k) = (0, st2, k1)"
      using alloc_pdn_cases [OF ok a] new by blast
    have st2: "st2 = st\<lparr>pdns := (pdns st)[unat i := info]\<rparr>" using modify_pdn(3) [OF ok s(4)] by simp
    have i: "unat i < 15" "length (pdns st) = 16" "0 \<le> num_pdns st" using found ok by (simp_all add: pdn_ok_def)
    have restored: "(pdns st)[unat i := zero_pdn] = pdns st" using s(1) by (metis list_update_id)
    obtain k2 where m: "ipa_nati_modify_pdn 0 \<lparr>mp_pdn_index = i, mp_entry = zero_pdn\<rparr> (st1, k1) = (0, st1\<lparr>pdns := pdns st\<rparr>, k2)"
      using modify_pdn_accepted [OF ok s(4), of zero_pdn "num_pdns st2 + 1"] restored by (auto simp: s(3) st2)
    have c: "pdn_check (unat i) st1 = st1" using i ok by (simp add: pdn_check_def s(3) st2 pdn_ok_def)
    have nz: "info \<noteq> zero_pdn" using s(2) by (auto simp: zero_pdn_def)
    have "st1\<lparr>pdns := pdns st, num_pdns := num_pdns st1 - 1\<rparr> = st" by (simp add: s(3) st2)
    then show ?thesis
      using i nz c m restored by (simp add: ipa_nat_dealloc_pdn_def ipa_nati_dealloc_pdn_def Let_def) (simp add: s(3) st2)
  qed
  with get show ?thesis by blast
qed

text \<open>The address is stored twice when an entry before that of the address has become free; and the index 16 leaves the array.\<close>

lemma pdn_stored_twice:
  "map pe_public_ip (take 2 (pdns (fst (fold pdn_step [AllocPdn 0 (Some example_pdn) False, DeallocPdn 0 0, AllocPdn 0 (Some example_pdn) False]
     (pdn_start 17 16 1))))) = [7, 7]"
  by code_simp

lemma pdn_index_behind: "pdn_ub (fst (pdn_step (DeallocPdn 0 16) (pdn_start 17 16 1)))"
  by code_simp

theorem nat_pdn_alloc_witness:
  "case ipa_nat_alloc_pdn 0 (Some example_pdn) False (pdn_start 17 16 1) of (ret, i, st, k) \<Rightarrow> ret = 0 \<and> ipa_nat_get_pdn_index 7 False st = (0, i)"
proof -
  obtain st k where s: "pdn_start 17 16 1 = (st, k)" by (cases "pdn_start 17 16 1")
  then have f: "fold pdn_step [] (pdn_start 17 16 1) = (st, k)" by simp
  obtain ret i st1 k1 where a: "ipa_nat_alloc_pdn 0 (Some example_pdn) False (st, k) = (ret, i, st1, k1)"
    by (cases "ipa_nat_alloc_pdn 0 (Some example_pdn) False (st, k)") auto
  have "fst (ipa_nat_alloc_pdn 0 (Some example_pdn) False (pdn_start 17 16 1)) = 0" by code_simp
  then have "ret = 0" using a by (simp add: s)
  with nat_pdn_alloc [OF _ _ _ f, of 0 example_pdn i st1 k1] a show ?thesis by (simp add: s example_pdn_def)
qed

end
