(* ===== verification/Nat_Sum.thy ===== *)
theory Nat_Sum
  imports Nat_Pdn
begin

text \<open>
  The record of a rule of the NAT for IPv4 (\<^verbatim>\<open>ipa_nat_drvi.c\<close>): the differences of the checksums that the hardware adds
  to a packet when it replaces an address, the copy of a rule into a record, and the hashes of a rule. The
  reference is the sum of the internet checksum: the words of a packet are added with the carry brought around.
\<close>

section \<open>Differences of checksums\<close>

text \<open>A sum of 32 bits, with the carry out of the lower half added to it.\<close>

definition carry_forward :: "u32 \<Rightarrow> u32" where
  "carry_forward cksum = (if drop_bit 16 cksum \<noteq> 0 then (cksum AND 0x0000FFFF) + 1 else cksum)"

definition ipa_nati_calc_ip_cksum :: "u32 \<Rightarrow> u32 \<Rightarrow> u16" where
  "ipa_nati_calc_ip_cksum pub_ip_addr priv_ip_addr =
     (let cksum = 0 + (pub_ip_addr AND 0xFFFF);
          cksum = carry_forward (cksum + drop_bit 16 pub_ip_addr);
          priv_ip_addr = NOT priv_ip_addr;
          cksum = carry_forward (cksum + (priv_ip_addr AND 0xFFFF));
          cksum = carry_forward (cksum + drop_bit 16 priv_ip_addr)
      in ucast cksum)"

definition ipa_nati_calc_tcp_udp_cksum :: "u32 \<Rightarrow> u16 \<Rightarrow> u32 \<Rightarrow> u16 \<Rightarrow> u16" where
  "ipa_nati_calc_tcp_udp_cksum pub_ip_addr pub_port priv_ip_addr priv_port =
     (let cksum = 0 + (pub_ip_addr AND 0xFFFF);
          cksum = carry_forward (cksum + drop_bit 16 pub_ip_addr);
          cksum = carry_forward (cksum + ucast pub_port);
          priv_ip_addr = NOT priv_ip_addr;
          cksum = carry_forward (cksum + (priv_ip_addr AND 0xFFFF));
          cksum = carry_forward (cksum + drop_bit 16 priv_ip_addr);
          priv_port = NOT priv_port;
          cksum = carry_forward (cksum + ucast priv_port)
      in ucast cksum)"

section \<open>Rules and records\<close>

record ipa_nat_ipv4_rule =
  nu_target_ip :: u32
  nu_private_ip :: u32
  nu_target_port :: u16
  nu_private_port :: u16
  nu_public_port :: u16
  nu_protocol :: u8
  nu_pdn_index :: u8
  nu_redirect :: u8
  nu_enable :: u8
  nu_time_stamp :: u32
  nu_uc_activation_index :: u16
  nu_s :: bool
  nu_ucp :: bool
  nu_dst_only :: bool
  nu_src_only :: bool

record ipa_nat_rule =
  nr_private_ip :: u32
  nr_target_ip :: u32
  nr_next_index :: u16
  nr_public_port :: u16
  nr_private_port :: u16
  nr_target_port :: u16
  nr_ip_chksum :: u16
  nr_uc_activation_index :: "13 word"
  nr_s :: bool
  nr_redirect :: bool
  nr_enable :: bool
  nr_time_stamp :: "24 word"
  nr_protocol :: u8
  nr_prev_index :: u16
  nr_indx_tbl_entry :: u16
  nr_dst_only :: bool
  nr_src_only :: bool
  nr_ucp :: bool
  nr_pdn_index :: "4 word"
  nr_tcp_udp_chksum :: u16

text \<open>The index of the entry of the public address is checked by the caller; TCP is the protocol 6, UDP 17.\<close>

definition nat_entry_copy_from_user :: "ipa_nat_pdn_entry list \<Rightarrow> ipa_nat_rule \<Rightarrow> ipa_nat_ipv4_rule \<Rightarrow> int \<times> ipa_nat_rule" where
  "nat_entry_copy_from_user pds e r =
     (let pub_ip_addr = pe_public_ip (pds ! unat (nu_pdn_index r));
          e1 = e\<lparr>nr_private_ip := nu_private_ip r, nr_private_port := nu_private_port r, nr_protocol := nu_protocol r,
                 nr_public_port := nu_public_port r, nr_target_ip := nu_target_ip r, nr_target_port := nu_target_port r,
                 nr_pdn_index := ucast (nu_pdn_index r), nr_uc_activation_index := ucast (nu_uc_activation_index r), nr_s := nu_s r,
                 nr_ucp := nu_ucp r, nr_dst_only := nu_dst_only r, nr_src_only := nu_src_only r,
                 nr_ip_chksum := ipa_nati_calc_ip_cksum pub_ip_addr (nu_private_ip r)\<rparr>
      in (0, if nr_protocol e1 = 6 \<or> nr_protocol e1 = 17 then
               e1\<lparr>nr_tcp_udp_chksum := ipa_nati_calc_tcp_udp_cksum pub_ip_addr (nu_public_port r) (nu_private_ip r) (nu_private_port r)\<rparr>
             else e1))"

text \<open>The flags of the command: the enable bit 15, the bit s 13, and the index for the micro-controller.\<close>

definition nat_entry_head_insert :: "ipa_nat_pdn_entry list \<Rightarrow> ipa_nat_rule \<Rightarrow> ipa_nat_ipv4_rule \<Rightarrow> int \<times> ipa_nat_rule \<times> u16" where
  "nat_entry_head_insert pds e r =
     (case nat_entry_copy_from_user pds e r of
        (ret, e1) \<Rightarrow>
          if ret \<noteq> 0 then (ret, e1, 0)
          else (0, e1, 0x8000 OR (if nr_s e1 then 0x2000 else 0) OR ucast (nr_uc_activation_index e1)))"

section \<open>Hashes\<close>

definition src_hash :: "u32 \<Rightarrow> u16 \<Rightarrow> u32 \<Rightarrow> u16 \<Rightarrow> u8 \<Rightarrow> u16 \<Rightarrow> u16" where
  "src_hash priv_ip priv_port trgt_ip trgt_port proto sz =
     (let hash = ucast priv_ip XOR ucast (drop_bit 16 priv_ip) XOR priv_port XOR ucast trgt_ip XOR ucast (drop_bit 16 trgt_ip) XOR trgt_port XOR ucast proto;
          hash = hash AND sz
      in if hash = 0 then sz else hash)"

definition dst_hash :: "nat \<Rightarrow> u32 \<Rightarrow> u32 \<Rightarrow> u16 \<Rightarrow> u16 \<Rightarrow> u8 \<Rightarrow> u16 \<Rightarrow> u16" where
  "dst_hash ver public_ip trgt_ip trgt_port public_port proto sz =
     (let hash = ucast trgt_ip XOR ucast (drop_bit 16 trgt_ip) XOR trgt_port XOR public_port XOR ucast proto;
          hash = (if ver \<ge> IPA_HW_v4_0 then hash XOR (ucast public_ip XOR ucast (drop_bit 16 public_ip)) else hash);
          hash = hash AND sz
      in if hash = 0 then sz else hash)"

text \<open>The base records of a rule in the two tables. A rule for one direction only is spread with a token that counts such rules.\<close>

definition rule_index :: "nat \<Rightarrow> ipa_nat_pdn_entry list \<Rightarrow> ipa_nat_ipv4_rule \<Rightarrow> nat \<Rightarrow> u16 \<Rightarrow> u16" where
  "rule_index ver pds r n token =
     (let sz = of_nat (n - 1);
          hash = dst_hash ver (pe_public_ip (pds ! unat (nu_pdn_index r))) (nu_target_ip r) (nu_target_port r) (nu_public_port r) (nu_protocol r) sz
      in if nu_src_only r then let i = (hash + token) AND sz in if i = 0 then sz else i else hash)"

definition rule_index_index :: "ipa_nat_ipv4_rule \<Rightarrow> nat \<Rightarrow> u16 \<Rightarrow> u16" where
  "rule_index_index r n token =
     (let sz = of_nat (n - 1);
          hash = src_hash (nu_private_ip r) (nu_private_port r) (nu_target_ip r) (nu_target_port r) (nu_protocol r) sz
      in if nu_dst_only r then let i = (hash + token) AND sz in if i = 0 then sz else i else hash)"

text \<open>Both indexes lie in the base table and are not 0, whatever the token is.\<close>

definition in_base :: "nat \<Rightarrow> u16 \<Rightarrow> bool" where
  "in_base n i \<longleftrightarrow> 0 < unat i \<and> unat i < n"

lemma cut_index:
  assumes "unat sz = n - 1" "2 \<le> n"
  shows "in_base n (if h AND sz = 0 then sz else h AND sz)"
proof -
  have "unat (h AND sz) \<le> unat sz" by (simp add: word_and_le1 flip: word_le_nat_alt)
  then show ?thesis using assms by (auto simp: in_base_def unat_gt_0)
qed

lemma nat_rule_indexes:
  assumes "2 \<le> n" "n \<le> 4096"
  shows "in_base n (rule_index ver pds r n token)" "in_base n (rule_index_index r n token)"
proof -
  define sz :: u16 where "sz = of_nat (n - 1)"
  have sz: "unat sz = n - 1" using assms by (simp add: sz_def unat_of_nat take_bit_nat_eq_self del: of_nat_diff)
  note cut = cut_index [OF sz assms(1)]
  have "in_base n (dst_hash ver a b c d e sz)" "in_base n (src_hash a c b d e sz)" for a b c d e
    unfolding dst_hash_def src_hash_def Let_def by (rule cut)+
  then show "in_base n (rule_index ver pds r n token)" "in_base n (rule_index_index r n token)"
    unfolding rule_index_def rule_index_index_def sz_def [symmetric] Let_def using cut by (simp_all only: if_split) simp_all
qed

section \<open>Sums with the carry brought around\<close>

definition oc_add :: "nat \<Rightarrow> nat \<Rightarrow> nat" where
  "oc_add a b = (if a + b > 65535 then a + b - 65535 else a + b)"

definition inet_sum :: "u16 list \<Rightarrow> nat" where
  "inet_sum ws = foldr (\<lambda>w s. oc_add (unat w) s) ws 0"

lemma oc_add_le: "a \<le> 65535 \<Longrightarrow> b \<le> 65535 \<Longrightarrow> oc_add a b \<le> 65535"
  and oc_add_mod: "oc_add a b mod 65535 = (a + b) mod 65535"
  and oc_add_0: "oc_add a b = 0 \<longleftrightarrow> a = 0 \<and> b = 0"
  by (auto simp: oc_add_def le_mod_geq)

lemma word_le: "unat (w :: u16) \<le> 65535"
proof -
  have "unat w < 2 ^ LENGTH(16)" by (rule unsigned_less)
  then show ?thesis by simp
qed

lemma inet_sum_le: "inet_sum ws \<le> 65535"
  by (induction ws) (simp_all add: inet_sum_def oc_add_le word_le)

lemma inet_sum_mod: "inet_sum ws mod 65535 = sum_list (map unat ws) mod 65535"
proof (induction ws)
  case (Cons w ws)
  have "inet_sum (w # ws) mod 65535 = (unat w + inet_sum ws) mod 65535" by (simp add: inet_sum_def oc_add_mod)
  also have "\<dots> = (unat w + inet_sum ws mod 65535) mod 65535" by (simp only: mod_add_right_eq)
  finally show ?case using Cons.IH by (simp add: mod_add_right_eq)
qed (simp add: inet_sum_def)

lemma inet_sum_0: "inet_sum ws = 0 \<longleftrightarrow> (\<forall>w\<in>set ws. w = 0)"
  by (induction ws) (auto simp: inet_sum_def oc_add_0 unat_eq_0)

text \<open>Two sums that are not 0 are equal when they agree modulo 65535.\<close>

lemma oc_unique:
  fixes a b :: nat
  assumes "a \<le> 65535" "b \<le> 65535" "a \<noteq> 0" "b \<noteq> 0" "a mod 65535 = b mod 65535"
  shows "a = b"
  using assms by (cases "a = 65535"; cases "b = 65535") auto

section \<open>The differences are right\<close>

text \<open>The halves of an address.\<close>

definition hi16 :: "u32 \<Rightarrow> u16" where "hi16 w = ucast (drop_bit 16 w)"
definition lo16 :: "u32 \<Rightarrow> u16" where "lo16 w = ucast w"

lemma unat_hi16: "unat (hi16 w) = unat (drop_bit 16 w)"
proof -
  have "unat w < 2 ^ LENGTH(32)" by (rule unsigned_less)
  then have "unat (drop_bit 16 w) < 2 ^ 16" by (simp add: unat_drop_bit_eq drop_bit_nat_def)
  then show ?thesis by (simp add: hi16_def unsigned_ucast_eq take_bit_nat_eq_self)
qed

lemma unat_lo16: "unat (lo16 w) = unat (w AND 0xFFFF)"
proof -
  have "w AND 0xFFFF = take_bit 16 w" by (simp add: take_bit_eq_mask mask_eq_exp_minus_1)
  then show ?thesis by (simp add: lo16_def unsigned_ucast_eq unsigned_take_bit_eq)
qed

lemma halves_not: "hi16 (NOT w) = NOT (hi16 w)" "lo16 (NOT w) = NOT (lo16 w)"
  by (rule bit_word_eqI; simp add: hi16_def lo16_def bit_ucast_iff bit_drop_bit_eq bit_not_iff)+

lemma unat_not16: "unat (NOT (w :: u16)) = 65535 - unat w"
proof -
  have m: "unat (- 1 :: u16) = 65535" by (simp add: unsigned_minus_1_eq_mask mask_eq_exp_minus_1)
  have "NOT w = - 1 - w" by (simp add: not_eq_complement)
  moreover have "unat (- 1 - w) = unat (- 1 :: u16) - unat w" by (rule unat_minus_eq) (use word_le [of w] in \<open>simp only: m\<close>)
  ultimately show ?thesis using m by simp
qed

lemma carry_forward:
  assumes "unat x \<le> 65535" "unat y \<le> 65535"
  shows "unat (carry_forward (x + y)) = oc_add (unat x) (unat y)"
proof -
  let ?c = "unat x + unat y"
  have c: "unat (x + y) = ?c" by (rule unat_plus_eq) (use assms in simp)
  have d: "drop_bit 16 (x + y) \<noteq> 0 \<longleftrightarrow> ?c \<ge> 65536" using c by (simp add: unat_eq_0 [symmetric] unat_drop_bit_eq drop_bit_nat_def div_eq_0_iff not_less del: unat_eq_0)
  show ?thesis
  proof (cases "?c \<ge> 65536")
    case True
    have "unat ((x + y) AND 0xFFFF) = ?c mod 65536"
      using unat_lo16 [of "x + y"] c by (simp add: lo16_def unsigned_ucast_eq take_bit_nat_def)
    also have "\<dots> = ?c - 65536" using True assms by (simp add: le_mod_geq)
    finally have m: "unat ((x + y) AND 0xFFFF) = ?c - 65536" .
    have "unat (((x + y) AND 0xFFFF) + 1) = ?c - 65536 + 1" using unat_plus_eq [of "(x + y) AND 0xFFFF" 1] m assms by simp
    then show ?thesis using True d by (simp add: carry_forward_def oc_add_def)
  next
    case False
    then show ?thesis using d c by (simp add: carry_forward_def oc_add_def)
  qed
qed

text \<open>A running sum of words of 16 bits in 32 bits.\<close>

lemma oc_sum:
  assumes "a \<le> 65535" "\<forall>b\<in>set bs. b \<le> 65535"
  shows "foldl oc_add a bs \<le> 65535" "foldl oc_add a bs mod 65535 = (a + sum_list bs) mod 65535"
  using assms
proof (induction bs arbitrary: a)
  case (Cons b bs)
  {
    case 1
    then show ?case using Cons.IH(1) by (simp add: oc_add_le)
  next
    case 2
    then have "foldl oc_add (oc_add a b) bs mod 65535 = (oc_add a b + sum_list bs) mod 65535" using Cons.IH(2) by (simp add: oc_add_le)
    also have "\<dots> = (oc_add a b mod 65535 + sum_list bs) mod 65535" by (simp only: mod_add_left_eq)
    also have "\<dots> = (a + b + sum_list bs) mod 65535" by (simp only: oc_add_mod mod_add_left_eq)
    finally show ?case by (simp add: add.assoc)
  }
qed simp_all

lemma carry_sum:
  assumes "unat a \<le> 65535" "\<forall>b\<in>set bs. unat b \<le> 65535"
  shows "unat (foldl (\<lambda>s b. carry_forward (s + b)) a bs) = foldl oc_add (unat a) (map unat bs)"
  using assms by (induction bs arbitrary: a) (simp_all add: carry_forward oc_add_le)

lemma cksum_sum:
  assumes "\<forall>w\<in>set (a # bs). unat w \<le> 65535"
  shows "unat (ucast (foldl (\<lambda>s b. carry_forward (s + b)) a bs) :: u16) mod 65535 = sum_list (map unat (a # bs)) mod 65535"
    and "unat (ucast (foldl (\<lambda>s b. carry_forward (s + b)) a bs) :: u16) \<le> 65535"
proof -
  have "unat (foldl (\<lambda>s b. carry_forward (s + b)) a bs) = foldl oc_add (unat a) (map unat bs)" using carry_sum assms by simp
  moreover from this have "unat (foldl (\<lambda>s b. carry_forward (s + b)) a bs) \<le> 65535" using oc_sum(1) [of "unat a" "map unat bs"] assms by simp
  then have "unat (ucast (foldl (\<lambda>s b. carry_forward (s + b)) a bs) :: u16) = unat (foldl (\<lambda>s b. carry_forward (s + b)) a bs)"
    by (simp add: unsigned_ucast_eq take_bit_nat_eq_self less_Suc_eq_le)
  ultimately show "unat (ucast (foldl (\<lambda>s b. carry_forward (s + b)) a bs) :: u16) mod 65535 = sum_list (map unat (a # bs)) mod 65535"
    using oc_sum(2) [of "unat a" "map unat bs"] assms by simp
qed (rule word_le)

text \<open>Both differences are such sums.\<close>

lemma halves: "unat (w AND 0xFFFF) = unat (lo16 w)" "unat (drop_bit 16 w) = unat (hi16 w)"
  "unat (NOT w AND 0xFFFF) = 65535 - unat (lo16 w)" "unat (drop_bit 16 (NOT w)) = 65535 - unat (hi16 w)"
  by (simp_all only: unat_hi16 [symmetric] unat_lo16 [symmetric] halves_not unat_not16)

lemma ip_cksum: "unat (ipa_nati_calc_ip_cksum p q) mod 65535 =
    (unat (lo16 p) + unat (hi16 p) + (65535 - unat (lo16 q)) + (65535 - unat (hi16 q))) mod 65535"
proof -
  have "ipa_nati_calc_ip_cksum p q =
      ucast (foldl (\<lambda>s b. carry_forward (s + b)) (p AND 0xFFFF) [drop_bit 16 p, NOT q AND 0xFFFF, drop_bit 16 (NOT q)])"
    by (simp add: ipa_nati_calc_ip_cksum_def Let_def)
  then show ?thesis using cksum_sum(1) [of "p AND 0xFFFF" "[drop_bit 16 p, NOT q AND 0xFFFF, drop_bit 16 (NOT q)]"]
    by (simp only: list.set ball_simps halves halves_not unat_not16 word_le list.map sum_list.Cons sum_list.Nil diff_le_self add.assoc add_0_right simp_thms)
qed

lemma port_word: "unat (ucast (w :: u16) :: u32) = unat w"
proof -
  have "unat w < 2 ^ 32" using word_le [of w] by simp
  then show ?thesis by (simp add: unsigned_ucast_eq take_bit_nat_eq_self)
qed

lemma tcp_udp_cksum: "unat (ipa_nati_calc_tcp_udp_cksum p pp q qp) mod 65535 =
    (unat (lo16 p) + unat (hi16 p) + unat pp + (65535 - unat (lo16 q)) + (65535 - unat (hi16 q)) + (65535 - unat qp)) mod 65535"
proof -
  have "ipa_nati_calc_tcp_udp_cksum p pp q qp = ucast (foldl (\<lambda>s b. carry_forward (s + b)) (p AND 0xFFFF)
      [drop_bit 16 p, ucast pp, NOT q AND 0xFFFF, drop_bit 16 (NOT q), ucast (NOT qp)])"
    by (simp add: ipa_nati_calc_tcp_udp_cksum_def Let_def)
  then show ?thesis
    using cksum_sum(1) [of "p AND 0xFFFF" "[drop_bit 16 p, ucast pp, NOT q AND 0xFFFF, drop_bit 16 (NOT q), ucast (NOT qp)]"]
    by (simp only: list.set ball_simps halves halves_not port_word unat_not16 word_le list.map sum_list.Cons sum_list.Nil diff_le_self add.assoc add_0_right simp_thms)
qed

text \<open>Replacing words of a packet: when the difference fits modulo 65535, and the rest of the packet is not all 0.\<close>

lemma replaced_sum:
  assumes "d mod 65535 = (sum_list (map unat new) + sum_list (map (\<lambda>w. 65535 - unat w) old)) mod 65535" "d \<le> 65535" "\<exists>w\<in>set ws. w \<noteq> 0"
  shows "inet_sum (new @ ws) = oc_add (inet_sum (old @ ws)) d"
proof (rule oc_unique)
  let ?s = "\<lambda>ws. sum_list (map unat (ws :: u16 list))"
  have nz: "inet_sum (xs @ ws) \<noteq> 0" for xs using assms(3) by (auto simp: inet_sum_0)
  then show "inet_sum (new @ ws) \<noteq> 0" "oc_add (inet_sum (old @ ws)) d \<noteq> 0" by (simp_all add: oc_add_0)
  show "inet_sum (new @ ws) \<le> 65535" "oc_add (inet_sum (old @ ws)) d \<le> 65535" by (simp_all add: inet_sum_le oc_add_le assms(2))
  have old: "(?s old + sum_list (map (\<lambda>w. 65535 - unat w) old)) mod 65535 = 0"
  proof (induction old)
    case (Cons w ws)
    have "?s (w # ws) + sum_list (map (\<lambda>w. 65535 - unat w) (w # ws)) = 65535 + (?s ws + sum_list (map (\<lambda>w. 65535 - unat w) ws))"
      using word_le [of w] by simp
    then show ?case using Cons.IH by (simp only: mod_add_self1)
  qed simp
  have "oc_add (inet_sum (old @ ws)) d mod 65535 = (inet_sum (old @ ws) mod 65535 + d mod 65535) mod 65535" by (simp add: oc_add_mod mod_add_eq)
  also have "\<dots> = (?s (old @ ws) + (?s new + sum_list (map (\<lambda>w. 65535 - unat w) old))) mod 65535"
    by (simp only: inet_sum_mod assms(1) mod_add_eq)
  also have "\<dots> = (?s (new @ ws) + (?s old + sum_list (map (\<lambda>w. 65535 - unat w) old))) mod 65535" by (simp add: ac_simps)
  also have "\<dots> = (?s (new @ ws) + (?s old + sum_list (map (\<lambda>w. 65535 - unat w) old)) mod 65535) mod 65535" by (simp only: mod_add_right_eq)
  also have "\<dots> = ?s (new @ ws) mod 65535" by (simp only: old add_0_right)
  also have "\<dots> = inet_sum (new @ ws) mod 65535" by (simp only: inet_sum_mod)
  finally show "inet_sum (new @ ws) mod 65535 = oc_add (inet_sum (old @ ws)) d mod 65535" by simp
qed

section \<open>Properties\<close>

text \<open>
  C38: the record of a rule holds the right differences: when the hardware replaces the private address of a packet by the
  public one, or the address and the port, adding the stored difference to the sum of the words of the packet gives the sum of the
  new words, for any packet whose other words are not all 0.
\<close>

theorem nat_checksum:
  assumes "nat_entry_copy_from_user pds e r = (ret, e')" "\<exists>w\<in>set ws. w \<noteq> 0"
  shows "(let pub = pe_public_ip (pds ! unat (nu_pdn_index r)); priv = nu_private_ip r in
    inet_sum ([hi16 pub, lo16 pub] @ ws) = oc_add (inet_sum ([hi16 priv, lo16 priv] @ ws)) (unat (nr_ip_chksum e')) \<and>
    (nu_protocol r \<in> {6, 17} \<longrightarrow>
      inet_sum ([hi16 pub, lo16 pub, nu_public_port r] @ ws) = oc_add (inet_sum ([hi16 priv, lo16 priv, nu_private_port r] @ ws)) (unat (nr_tcp_udp_chksum e'))))"
proof -
  define pub where "pub = pe_public_ip (pds ! unat (nu_pdn_index r))"
  define priv where "priv = nu_private_ip r"
  have ck: "nr_ip_chksum e' = ipa_nati_calc_ip_cksum pub priv"
    "nu_protocol r \<in> {6, 17} \<Longrightarrow> nr_tcp_udp_chksum e' = ipa_nati_calc_tcp_udp_cksum pub (nu_public_port r) priv (nu_private_port r)"
    using assms(1) by (auto simp: nat_entry_copy_from_user_def pub_def priv_def Let_def split: if_splits)
  have "inet_sum ([hi16 pub, lo16 pub] @ ws) = oc_add (inet_sum ([hi16 priv, lo16 priv] @ ws)) (unat (ipa_nati_calc_ip_cksum pub priv))"
    by (rule replaced_sum [OF _ word_le assms(2)]) (simp only: ip_cksum list.map sum_list.Cons sum_list.Nil add_0_left add_0_right add_ac)
  moreover have "inet_sum ([hi16 pub, lo16 pub, nu_public_port r] @ ws) = oc_add (inet_sum ([hi16 priv, lo16 priv, nu_private_port r] @ ws))
      (unat (ipa_nati_calc_tcp_udp_cksum pub (nu_public_port r) priv (nu_private_port r)))"
    by (rule replaced_sum [OF _ word_le assms(2)]) (simp only: tcp_udp_cksum list.map sum_list.Cons sum_list.Nil add_0_left add_0_right add_ac)
  ultimately show ?thesis using ck by (auto simp: pub_def [symmetric] priv_def [symmetric] Let_def)
qed

text \<open>A packet from 10.0.0.1 to a server, behind the public address 1.2.3.4.\<close>

definition example_nat_rule :: ipa_nat_ipv4_rule where
  "example_nat_rule = \<lparr>nu_target_ip = 0x08080808, nu_private_ip = 0x0A000001, nu_target_port = 443, nu_private_port = 5000, nu_public_port = 6000,
     nu_protocol = 6, nu_pdn_index = 0, nu_redirect = 0, nu_enable = 0, nu_time_stamp = 0, nu_uc_activation_index = 0, nu_s = False,
     nu_ucp = False, nu_dst_only = False, nu_src_only = False\<rparr>"

theorem nat_checksum_witness:
  "\<forall>e. case nat_entry_copy_from_user [zero_pdn\<lparr>pe_public_ip := 0x01020304\<rparr>] e example_nat_rule of
     (ret, e') \<Rightarrow> inet_sum [0x0102, 0x0304, 0x4500] = oc_add (inet_sum [0x0A00, 0x0001, 0x4500]) (unat (nr_ip_chksum e'))"
proof
  fix e
  obtain ret e' where c: "nat_entry_copy_from_user [zero_pdn\<lparr>pe_public_ip := 0x01020304\<rparr>] e example_nat_rule = (ret, e')"
    by (cases "nat_entry_copy_from_user [zero_pdn\<lparr>pe_public_ip := 0x01020304\<rparr>] e example_nat_rule")
  have "hi16 0x01020304 = 0x0102" "lo16 0x01020304 = 0x0304" "hi16 0x0A000001 = 0x0A00" "lo16 0x0A000001 = 0x0001" by (simp_all add: hi16_def lo16_def)
  then have "inet_sum [0x0102, 0x0304, 0x4500] = oc_add (inet_sum [0x0A00, 0x0001, 0x4500]) (unat (nr_ip_chksum e'))"
    using nat_checksum [OF c, of "[0x4500]"] by (simp add: example_nat_rule_def Let_def)
  then show "case nat_entry_copy_from_user [zero_pdn\<lparr>pe_public_ip := 0x01020304\<rparr>] e example_nat_rule of
     (ret, e') \<Rightarrow> inet_sum [0x0102, 0x0304, 0x4500] = oc_add (inet_sum [0x0A00, 0x0001, 0x4500]) (unat (nr_ip_chksum e'))"
    by (simp only: c prod.case)
qed

end
