(* ===== verification/Spec2Isabelle.thy ===== *)
theory Spec2Isabelle
  imports Fence_Join Rm_Scenarios Synx_Effect Ipc_Synx Ct_Claims Nat_Sum
begin

text \<open>
  A verification library for vendor kernel modules of this repository
  (\<^verbatim>\<open>android_kernel_oneplus_sm8650-modules\<close>): the drivers under \<^verbatim>\<open>src/qcom/opensource\<close>. Five
  subsystems with a core logic of their own are modelled; each is written in C, keeps a state, and
  is called by other drivers through a small interface.

  \<^bold>\<open>Hardware fences\<close> (\<^verbatim>\<open>mm-drivers/hw_fence\<close>). A fence is an entry of a hash table in memory that the
  application processor shares with a fence controller; clients create fences, wait for them and
  get signals through ring queues in the same memory.
    \<^item> \<open>Fence_Types\<close>: the structs of \<^verbatim>\<open>hw_fence_drv_priv.h\<close>; the driver data is one record.
    \<^item> \<open>Fence_Table\<close>: the table of \<^verbatim>\<open>hw_fence_drv_priv.c\<close>: hashing, probing, creation, destruction,
      lookup. It is an interpretation of the locale \<open>keyed_store\<close>.
    \<^item> \<open>Fence_Queue\<close>: the client queues with their index translation, the write and the read of a
      message, the rewriting of a queued error. A queue is an interpretation of \<open>bounded_fifo\<close>.
    \<^item> \<open>Fence_Signal\<close>: registration of waiters, join fences of fence arrays, signals, cleanup of a
      client, the control queue of \<^verbatim>\<open>hw_fence_drv_utils.c\<close>.
    \<^item> \<open>Fence_Api\<close>: the entry points of \<^verbatim>\<open>msm_hw_fence.c\<close>, and the reset of a client.
    \<^item> \<open>Fence_Join\<close>: what waiting on a fence and on an array does, with runs on corner cases.

  \<^bold>\<open>IPA resource manager\<close> (\<^verbatim>\<open>dataipa/drivers/platform/msm/ipa\<close>). Producers and consumers of the IPA
  hardware with dependencies between them: a producer is granted when its consumers are. Requests
  and releases go through a work queue and call back into the drivers of the resources.
    \<^item> \<open>Rm_Types\<close>, \<open>Rm_Peers\<close>, \<open>Rm_Perf\<close>, \<open>Rm_Resource\<close>, \<open>Rm_Core\<close>: the files
      \<^verbatim>\<open>ipa_rm_peers_list.c\<close>, \<^verbatim>\<open>ipa_rm_resource.c\<close>, \<^verbatim>\<open>ipa_rm_dependency_graph.c\<close>, \<^verbatim>\<open>ipa_rm.c\<close>. Memory is
      an explicit heap of resources, so a stale pointer or an index outside an array is a flag.
    \<^item> \<open>Rm_Invariant\<close>, \<open>Rm_Steps\<close>, \<open>Rm_Deps\<close>, \<open>Rm_Use\<close>, \<open>Rm_Account\<close>, \<open>Rm_Edges\<close>, \<open>Rm_Profile\<close>,
      \<open>Rm_Works\<close>, \<open>Rm_Lifecycle\<close>: the structure of the graph and the accounts of uses and
      bandwidth, and that the operations keep them.
    \<^item> \<open>Rm_Machine\<close>: the whole as a machine, an interpretation of \<open>safe_machine\<close>; \<open>Rm_Claims\<close> and
      \<open>Rm_Scenarios\<close>: the properties, and two runs that end in a wrong state. The entry points that create and
      delete a resource are not in this tree; \<open>client_create\<close> and \<open>client_delete\<close>, steps of the machine only, call the operations
      of the resource and of the graph one after the other, and the properties of deletion are stated on those operations.

  \<^bold>\<open>Synx global memory\<close> (\<^verbatim>\<open>synx-kernel/msm/synx\<close>). Synchronisation objects that the processor cores
  share: a table of 4096 entries, a bitmap of those in use, one hardware spinlock. An entry may be a
  composite of others, which count it down when they are signalled.
    \<^item> \<open>Synx_Types\<close>, \<open>Synx_Ops\<close>, \<open>Synx_Signal\<close>: \<^verbatim>\<open>synx_global.c\<close> operation by operation, the two
      atomic operations of \<^verbatim>\<open>ipclite.c\<close> on the bitmap, the handles of \<^verbatim>\<open>synx_util.c\<close>.
    \<^item> \<open>Synx_Frame\<close>, \<open>Synx_Entry\<close>: what a section under the lock changes, case by case;
      \<open>Synx_Runs\<close>: the invariant of all runs, with the rank that shows that signalling ends.
    \<^item> \<open>Synx_Composite\<close>, \<open>Synx_Claims\<close>, \<open>Synx_Recover\<close>, \<open>Synx_Effect\<close>: composite entries, waiting, allocation,
      merging, recovery after a crash, and which entries a signal changes in any graph of composite entries.

  \<^bold>\<open>Message layer\<close> (\<^verbatim>\<open>synx-kernel/msm/synx/ipclite.c\<close>). The cores exchange 64-bit messages through
  rings in a shared region of memory, with a mailbox interrupt for each message; the region also holds
  the memory of synx.
    \<^item> \<open>Ipc_Types\<close>, \<open>Ipc_Fifo\<close>, \<open>Ipc_Channel\<close>, \<open>Ipc_Init\<close>: the driver in the order of its file: the hardware
      mutex and the atomic operations, the rings, sending, the interrupt handler, recovery, the versioned
      interface, the set-up of the region and of the channels, the probe. The indexes of the rings and the
      status of the partitions are words at byte offsets of the region; a write or a copy outside it sets a flag, and
      the words that are read are those of the channels, which lie in the region.
    \<^item> \<open>Ipc_Ring\<close>: a ring as an interpretation of \<open>bounded_fifo\<close>; \<open>Ipc_Claims\<close>: a connection as an
      interpretation of \<open>fifo_writer\<close>, delivery of messages, when the handler ends.
    \<^item> \<open>Ipc_Layout\<close>, \<open>Ipc_Boot\<close>: the partitions of a set of enabled cores, and the state after the probe.
    \<^item> \<open>Ipc_Safe\<close>: the invariant of all runs, an interpretation of \<open>safe_machine\<close> with the other cores as
      steps that overwrite the words and bytes of the region, and the recovery of a core.
    \<^item> \<open>Ipc_Synx\<close>: the layout of the region, and that the memory of synx fits into its part of it.

  \<^bold>\<open>Connection tracking tables\<close> (\<^verbatim>\<open>dataipa/ipanat\<close>, \<^verbatim>\<open>ipa_nat.c\<close>). A library of user space keeps the rules for
  IPv6 connections in a table that the IPA hardware reads: a base table addressed by a hash, an expansion
  table, doubly linked chains through both. The fields that the hardware reads are written by commands for
  its DMA, which go through the kernel driver.
    \<^item> \<open>Ct_Table\<close>: \<^verbatim>\<open>ipa_table.c\<close>, for any kind of record. \<open>Ct_Rules\<close>: \<^verbatim>\<open>ipa_ipv6ct.c\<close> with \<^verbatim>\<open>ipa_mem_descriptor.c\<close>, the
      records and rules, the calls of the client, and what the documentation says of a command.
    \<^item> \<open>Ct_Chain\<close>, \<open>Ct_Exec\<close>, \<open>Ct_Del\<close>, \<open>Ct_Inv\<close>: the chains, what an addition and a deletion do to them on the
      documented hardware, and the invariant of a table with its refinement to a map of rules by handle.
    \<^item> \<open>Ct_Lookup\<close>: the search of the hardware as a reference, sizes and handles; the search for the number of
      entries that fit into a memory ends.
    \<^item> \<open>Ct_Store\<close>, \<open>Ct_Machine\<close>: the calls as a machine, an interpretation of the locale \<open>rule_store\<close> of a client that
      keeps a ledger of its handles. A run calls everything but the addition of a table only while a device is open:
      before the first table is added and after the last one is deleted the code would follow a NULL pointer.
    \<^item> \<open>Ct_Kernel\<close>: the kernel side, and that it accepts the tables and commands of the library; \<open>Ct_Claims\<close>: the
      properties.
    \<^item> \<open>Nat_Pdn\<close>: the table of public addresses of the NAT for IPv4 in the library, the kernel and the hardware;
      \<open>Nat_Sum\<close>: the record of a NAT rule, with the proof that its checksums are right.

  \<^bold>\<open>Reading the models.\<close> A C function is a definition of the same name (a leading underscore is
  dropped); it takes the state last and returns its result with the new state. A pointer that may be
  NULL is an option. A negative errno value is an \<open>int\<close>; integers keep their width where they can
  wrap, and are natural numbers where they are indexes that the code bounds. Undefined behaviour (an
  access outside an array, a stale or NULL pointer) does not stop a model: it sets a flag of the
  state, and the theorems on runs show that the flag stays down. What the code does not decide is an
  input: reads of the timer, answers of drivers and of the allocator, time-outs of the hardware lock,
  and what the other cores do to the shared bitmap before an atomic access; the theorems hold for all
  of them unless a hypothesis restricts them.

  \<^bold>\<open>Loops.\<close> Loops over arrays recurse on the rest of the array. The probe of the fence table has a
  termination proof. The loops that may not end are partial functions with the value None in that
  case: the retry loop of the allocation (\<open>alloc_loop\<close>), the recursion of a signal into the parents
  (\<open>synx_global_update_status_core\<close>), the loop of the recovery; that they end is proved. The loop of the
  interrupt handler of the message layer (\<open>rx_loop\<close>) ends for all values of the other index but one.
  The counters of the loops over the resource table and the peers lists are the sizes of the lists. The
  walk to the end of a chain (\<open>end_loop\<close>) is partial as well; it ends on every reachable table, as its chains
  have distinct records. The reference search through a chain has as much fuel as the table has records.

  \<^bold>\<open>Not modelled.\<close> In hw_fence: debugfs, the ioctl interface, the memory layout from the device tree
  and the doorbell to and from the secure world. In the resource manager: the inactivity timer,
  whose file has no operation in this tree; the use count of a consumer is an unbounded integer. In
  synx: sessions, callbacks and local objects, which rest on kernel fences and work queues; the messages
  that it sends are logged. In the message layer: the log in memory, the dumps and the sysfs files; the
  debug data, which lies at the end of the region, is a record of its own and not part of the words and
  bytes, and the other cores are taken not to write the table of contents and the headers. Other cores
  change the table of synx only between operations, as steps of the same machine. In the connection
  tracking: the hardware that executes the commands is an argument, and the hypothesis
  \<open>documented_hardware\<close> says that it writes the two bytes of each command where the command says; the
  kernel places a table at offset 0 of its memory; the construction of the immediate commands, the dumps
  and the entries for the micro-controller are left out. In the NAT for IPv4: the addition and deletion
  of rules, which use two linked tables, and the state machine that moves them between memories. The other
  modules of the tree are drivers around hardware registers, firmware messages or kernel frameworks that
  are not under src/; they are listed with the reason in
  the manifest of the development.
\<close>

end
